(* ===== verification/Prelude.thy ===== *)
theory Prelude
  imports Complex_Main
begin

text \<open>
  Shared vocabulary of the development: the JavaScript values the TypeScript sources pass
  around (numbers, JSON values, \<open>undefined\<close>), truthiness of optional strings, the string
  functions the code calls, results with errors as a sum, and the generic lemmas on lists
  that the component theories share.

  Conventions.
  \<^item> A JavaScript string is a HOL \<open>string\<close>; identifiers are only compared, tested for
    emptiness, trimmed or matched against ASCII literals.
  \<^item> \<open>undefined\<close> and an absent property are \<open>None\<close>; \<open>null\<close> inside a JSON
    value is \<open>JNull\<close>.
  \<^item> A \<open>throw\<close> is the left side of a sum type.
\<close>

section \<open>Collections of facts\<close>

named_theorems js_simps \<open>evaluation of the JavaScript primitives\<close>
named_theorems inv_intros \<open>every operation keeps its component's invariant\<close>

section \<open>Numbers\<close>

text \<open>
  A JavaScript \<open>number\<close>. The finite values are rationals (every double is one); the
  operations modelled here compare and classify numbers and never round.
\<close>

datatype jsnum = Finite rat | NaN | PosInfinity | NegInfinity

fun isFinite :: "jsnum \<Rightarrow> bool" where
  "isFinite (Finite r) = True"
| "isFinite _ = False"

fun isInteger :: "jsnum \<Rightarrow> bool" where
  "isInteger (Finite r) = (snd (quotient_of r) = 1)"
| "isInteger _ = False"

fun isSafeInteger :: "jsnum \<Rightarrow> bool" where
  "isSafeInteger (Finite r) = (isInteger (Finite r) \<and> \<bar>r\<bar> \<le> 9007199254740991)"
| "isSafeInteger _ = False"

text \<open>The comparison \<open>x >= k\<close>: false on \<open>NaN\<close>.\<close>

fun num_ge :: "jsnum \<Rightarrow> rat \<Rightarrow> bool" where
  "num_ge (Finite r) k = (k \<le> r)"
| "num_ge PosInfinity k = True"
| "num_ge _ k = False"

fun num_le :: "jsnum \<Rightarrow> rat \<Rightarrow> bool" where
  "num_le (Finite r) k = (r \<le> k)"
| "num_le NegInfinity k = True"
| "num_le _ k = False"

text \<open>The integer that an integral number is.\<close>

fun asInt :: "jsnum \<Rightarrow> int" where
  "asInt (Finite r) = \<lfloor>r\<rfloor>"
| "asInt _ = 0"

lemma isSafeInteger_isInteger: "isSafeInteger n \<Longrightarrow> isInteger n"
  by (cases n) auto

section \<open>JSON values\<close>

datatype json =
    JNull
  | JBool bool
  | JNum jsnum
  | JStr string
  | JArr "json list"
  | JObj "(string \<times> json) list"

type_synonym jsval = "json option"

text \<open>The property access \<open>v.k\<close> on a value that may not be an object.\<close>

fun field :: "json \<Rightarrow> string \<Rightarrow> jsval" where
  "field (JObj kvs) k = map_of kvs k"
| "field _ k = None"

text \<open>
  An object is the list of its properties, in insertion order and with distinct keys:
  \<open>result[key] = value\<close> and the spread \<open>{ ...result, key: value }\<close> keep the place of a key.
\<close>

fun setKey :: "string \<Rightarrow> json \<Rightarrow> (string \<times> json) list \<Rightarrow> (string \<times> json) list" where
  "setKey k v [] = [(k, v)]"
| "setKey k v ((k', v') # kvs) = (if k' = k then (k, v) # kvs else (k', v') # setKey k v kvs)"

lemma map_of_setKey: "map_of (setKey k v kvs) k' = (if k' = k then Some v else map_of kvs k')"
  by (induction kvs) auto

lemma setKey_keys: "map fst (setKey k v kvs) = (if k \<in> set (map fst kvs) then map fst kvs else map fst kvs @ [k])"
  by (induction kvs) (auto simp: rev_image_eqI)

lemma setKey_distinct: "distinct (map fst kvs) \<Longrightarrow> distinct (map fst (setKey k v kvs))"
  unfolding setKey_keys by simp

lemma setKey_values: "(k', x) \<in> set (setKey k v kvs) \<Longrightarrow> x = v \<or> (k', x) \<in> set kvs"
  by (induction kvs) (auto split: if_splits)

text \<open>
  \<open>typeof value === "object" && value !== null && !Array.isArray(value)\<close>, the
  \<open>isRecord\<close> guard that most modules of the repository define for themselves.
\<close>

fun isRecord :: "json \<Rightarrow> bool" where
  "isRecord (JObj kvs) = True"
| "isRecord _ = False"

fun isString :: "jsval \<Rightarrow> bool" where
  "isString (Some (JStr s)) = True"
| "isString _ = False"

fun isNumber :: "jsval \<Rightarrow> bool" where
  "isNumber (Some (JNum n)) = True"
| "isNumber _ = False"

text \<open>\<open>typeof value === "string" && value.length > 0\<close>.\<close>

fun isNonEmptyString :: "jsval \<Rightarrow> bool" where
  "isNonEmptyString (Some (JStr s)) = (s \<noteq> [])"
| "isNonEmptyString _ = False"

definition isLiteral :: "jsval \<Rightarrow> string \<Rightarrow> bool" where
  "isLiteral v s = (v = Some (JStr s))"

definition optionally :: "(jsval \<Rightarrow> bool) \<Rightarrow> jsval \<Rightarrow> bool" where
  "optionally P v = (v = None \<or> P v)"

fun arrayOf :: "(json \<Rightarrow> bool) \<Rightarrow> jsval \<Rightarrow> bool" where
  "arrayOf P (Some (JArr vs)) = list_all P vs"
| "arrayOf P _ = False"

text \<open>
  \<open>JSON.stringify\<close> is used by the modelled code only to compare two values. Its text is
  determined by, and determines, the value with every non-finite number replaced by
  \<open>null\<close>; two texts are equal exactly when these normal forms are.
\<close>

fun stringified :: "json \<Rightarrow> json" where
  "stringified (JNum n) = (if isFinite n then JNum n else JNull)"
| "stringified (JArr vs) = JArr (map stringified vs)"
| "stringified (JObj kvs) = JObj (map (\<lambda>(k, v). (k, stringified v)) kvs)"
| "stringified v = v"

definition sameJson :: "jsval \<Rightarrow> jsval \<Rightarrow> bool" where
  "sameJson a b = (map_option stringified a = map_option stringified b)"

lemma sameJson_refl [simp]: "sameJson a a"
  by (simp add: sameJson_def)

lemma isNonEmptyString_iff: "isNonEmptyString v \<longleftrightarrow> (\<exists>s. v = Some (JStr s) \<and> s \<noteq> [])"
  by (cases v rule: isNonEmptyString.cases) auto

lemmas js_checks = isLiteral_def optionally_def

section \<open>Strings\<close>

text \<open>Optional strings: \<open>null\<close>, \<open>undefined\<close> and the empty string are falsy.\<close>

fun truthy :: "string option \<Rightarrow> bool" where
  "truthy None = False"
| "truthy (Some s) = (s \<noteq> [])"

lemma truthy_iff: "truthy p \<longleftrightarrow> (\<exists>s. p = Some s \<and> s \<noteq> [])"
  by (cases p) auto

text \<open>The white space that \<open>trim\<close> strips, for code units below 256.\<close>

definition isSpace :: "char \<Rightarrow> bool" where
  "isSpace c = (of_char c \<in> {9, 10, 11, 12, 13, 32, 160 :: int})"

definition trim :: "string \<Rightarrow> string" where
  "trim s = rev (dropWhile isSpace (rev (dropWhile isSpace s)))"

lemma trim_Nil [simp]: "trim [] = []"
  by (simp add: trim_def)

lemma dropWhile_idem: "dropWhile P (dropWhile P xs) = dropWhile P xs"
  by (metis dropWhile_eq_self_iff hd_dropWhile)

lemma dropWhile_rev_dropWhile:
  "dropWhile P (rev (dropWhile P (rev (dropWhile P xs)))) = rev (dropWhile P (rev (dropWhile P xs)))"
proof (cases "dropWhile P xs")
  case Nil
  show ?thesis unfolding Nil by simp
next
  case (Cons a ys)
  then have a: "\<not> P a" by (metis hd_dropWhile list.distinct(1) list.sel(1))
  have "rev (dropWhile P (rev ys @ [a])) = a # rev (dropWhile P (rev ys))"
    using a by (induction ys rule: rev_induct) (auto simp: dropWhile_append)
  with Cons a show ?thesis by simp
qed

lemma trim_idem [simp]: "trim (trim s) = trim s"
  by (simp add: trim_def dropWhile_rev_dropWhile dropWhile_idem)

text \<open>\<open>s.startsWith(p)\<close>, for \<open>startsWith p s\<close>.\<close>

fun startsWith :: "string \<Rightarrow> string \<Rightarrow> bool" where
  "startsWith [] s = True"
| "startsWith (p # ps) [] = False"
| "startsWith (p # ps) (c # cs) = (p = c \<and> startsWith ps cs)"

text \<open>The decimal text of a number in a template literal.\<close>

fun digitsOf :: "nat \<Rightarrow> string" where
  "digitsOf n = (if n < 10 then [char_of (48 + n)] else digitsOf (n div 10) @ [char_of (48 + n mod 10)])"

declare digitsOf.simps [simp del]

definition decimal :: "int \<Rightarrow> string" where
  "decimal i = (if i < 0 then CHR ''-'' # digitsOf (nat (- i)) else digitsOf (nat i))"

lemma fold_digitsOf: "fold (\<lambda>c acc. 10 * acc + (of_char c - 48)) (digitsOf n) 0 = n"
proof (induction n rule: digitsOf.induct)
  case (1 n)
  show ?case
  proof (cases "n < 10")
    case True
    then show ?thesis by (simp add: digitsOf.simps [of n])
  next
    case False
    with 1 show ?thesis by (simp add: digitsOf.simps [of n])
  qed
qed

lemma digitsOf_inject: "digitsOf m = digitsOf n \<Longrightarrow> m = n"
  by (metis fold_digitsOf)

lemma digitsOf_chars: "c \<in> set (digitsOf n) \<Longrightarrow> of_char c \<ge> (48 :: nat)"
proof (induction n rule: digitsOf.induct)
  case (1 n)
  then show ?case by (auto simp: digitsOf.simps [of n] split: if_splits)
qed

lemma digitsOf_below: "c \<in> set (digitsOf n) \<Longrightarrow> of_char c < (58 :: nat)"
proof (induction n rule: digitsOf.induct)
  case (1 n)
  then show ?case by (auto simp: digitsOf.simps [of n] split: if_splits)
qed

lemma digitsOf_not_Nil [simp]: "digitsOf n \<noteq> []"
  by (simp add: digitsOf.simps [of n])

lemma digitsOf_neq_minus: "digitsOf n \<noteq> CHR ''-'' # s"
proof
  assume "digitsOf n = CHR ''-'' # s"
  then have "CHR ''-'' \<in> set (digitsOf n)" by simp
  then have "of_char CHR ''-'' \<ge> (48 :: nat)" by (rule digitsOf_chars)
  then show False by simp
qed

lemma decimal_inject: "decimal i = decimal j \<longleftrightarrow> i = j"
proof
  assume "decimal i = decimal j"
  then show "i = j"
    by (auto simp: decimal_def split: if_splits
        dest: digitsOf_inject dest!: digitsOf_neq_minus [THEN notE] sym [THEN digitsOf_neq_minus [THEN notE]])
qed simp

text \<open>\<open>ss.join(sep)\<close>.\<close>

fun joinWith :: "string \<Rightarrow> string list \<Rightarrow> string" where
  "joinWith sep [] = []"
| "joinWith sep [s] = s"
| "joinWith sep (s # t # ts) = s @ sep @ joinWith sep (t # ts)"

section \<open>Arrays\<close>

text \<open>\<open>findIndex\<close>, with \<open>None\<close> for \<open>-1\<close>, and the last such index.\<close>

fun findIndex :: "('a \<Rightarrow> bool) \<Rightarrow> 'a list \<Rightarrow> nat option" where
  "findIndex P [] = None"
| "findIndex P (x # xs) = (if P x then Some 0 else map_option Suc (findIndex P xs))"

fun findLastIndex :: "('a \<Rightarrow> bool) \<Rightarrow> 'a list \<Rightarrow> nat option" where
  "findLastIndex P [] = None"
| "findLastIndex P (x # xs) =
     (case findLastIndex P xs of Some i \<Rightarrow> Some (Suc i) | None \<Rightarrow> if P x then Some 0 else None)"

lemma findIndex_None: "findIndex P xs = None \<longleftrightarrow> (\<forall>x \<in> set xs. \<not> P x)"
  by (induction xs) auto

lemma findIndex_Some:
  "findIndex P xs = Some i \<Longrightarrow> i < length xs \<and> P (xs ! i) \<and> (\<forall>j < i. \<not> P (xs ! j))"
proof (induction xs arbitrary: i)
  case Nil
  then show ?case by simp
next
  case (Cons x xs)
  show ?case
  proof (cases "P x")
    case True
    with Cons.prems show ?thesis by simp
  next
    case False
    with Cons.prems obtain k where "findIndex P xs = Some k" "i = Suc k" by auto
    with Cons.IH [of k] False show ?thesis by (auto simp: nth_Cons split: nat.splits)
  qed
qed

lemma findLastIndex_None: "findLastIndex P xs = None \<longleftrightarrow> (\<forall>x \<in> set xs. \<not> P x)"
  by (induction xs) (auto split: option.splits)

lemma findLastIndex_Some:
  "findLastIndex P xs = Some i \<Longrightarrow>
     i < length xs \<and> P (xs ! i) \<and> (\<forall>x \<in> set (drop (Suc i) xs). \<not> P x)"
proof (induction xs arbitrary: i)
  case Nil
  then show ?case by simp
next
  case (Cons x xs)
  then show ?case
    by (auto split: option.splits if_splits simp: findLastIndex_None)
qed

lemma find_SomeD: "find P xs = Some x \<Longrightarrow> x \<in> set xs \<and> P x"
  by (induction xs) (auto split: if_splits)

lemma findIndex_append:
  "findIndex P (xs @ ys) =
     (case findIndex P xs of Some i \<Rightarrow> Some i | None \<Rightarrow> map_option (\<lambda>i. length xs + i) (findIndex P ys))"
  by (induction xs) (cases "findIndex P ys"; auto split: option.splits)+

lemma findLastIndex_snoc:
  "findLastIndex P (xs @ [x]) = (if P x then Some (length xs) else findLastIndex P xs)"
  by (induction xs) auto

lemma findIndex_mem: "findIndex (\<lambda>x. f x = k) xs \<noteq> None \<longleftrightarrow> k \<in> f ` set xs"
  using findIndex_None [of "\<lambda>x. f x = k" xs] by (auto simp: image_iff)

lemma find_append: "find P (xs @ ys) = (case find P xs of None \<Rightarrow> find P ys | Some x \<Rightarrow> Some x)"
  by (induction xs) auto

text \<open>Mapping a function that may not return over an array.\<close>

lemma those_map_total:
  "(\<And>x. x \<in> set xs \<Longrightarrow> f x \<noteq> None) \<Longrightarrow> those (map f xs) = Some (map (\<lambda>x. the (f x)) xs)"
  by (induction xs) (auto split: option.split)

text \<open>\<open>Boolean(v)\<close> for a value that may be absent.\<close>

fun truthyJson :: "jsval \<Rightarrow> bool" where
  "truthyJson None = False"
| "truthyJson (Some JNull) = False"
| "truthyJson (Some (JBool b)) = b"
| "truthyJson (Some (JNum n)) = (n \<noteq> NaN \<and> n \<noteq> Finite 0)"
| "truthyJson (Some (JStr s)) = (s \<noteq> [])"
| "truthyJson (Some (JArr vs)) = True"
| "truthyJson (Some (JObj kvs)) = True"

end
