(* ===== verification/Document.thy ===== *)
theory Document
  imports Prelude
begin

text \<open>
  The conversation document of \<open>packages/runtime-core/src/conversation/document.ts\<close>: the
  entry tree, the event projection \<open>applyStoredEventToConversationDocument\<close>, and the
  graph check \<open>assertConversationDocumentGraph\<close>.

  A \<open>timestamp\<close> of the source is an ISO string that only ever goes through
  \<open>new Date(...)\<close>; the model keeps the instant it denotes, in milliseconds. A loop that
  follows \<open>parentId\<close> pointers may run for ever on a cyclic tree: such loops are
  \<^theory_text>\<open>partial_function (option)\<close>, and \<open>None\<close> means that the call does not return.
\<close>

section \<open>Entries\<close>

type_synonym instant = int

record identity =
  sessionId :: string
  createdAt :: instant
  agentId :: "string option"
  cwd :: "string option"
  parentSessionPath :: "string option"
  parentEntryId :: "string option"

record compaction =
  summary :: string
  firstKeptEntryId :: string
  tokensBefore :: jsnum
  details :: jsval
  fromHook :: "bool option"
  summaryMessage :: jsval
  reason :: "string option"

record tool_timing =
  toolCallId :: string
  toolName :: string
  startedAt :: jsnum
  durationMs :: jsnum
  phases :: "(string \<times> jsnum) list"

datatype entry_body =
    LegacyMessage (turnId: "string option") (messageId: "string option") (message: json) (origin: "string option")
  | UserMessage (userTurn: string) (userAuthor: json) (message: json) (attachments: "json list option")
      (origin: "string option")
  | AgentMessage (agentTurn: string) (agentAuthor: json) (message: json) (origin: "string option")
  | Compaction compaction
  | BranchSummary (fromId: string) (branchText: string) (branchDetails: jsval) (branchHook: "bool option")
  | Custom (customType: string) (customData: jsval)
  | CustomMessage (customType: string) (content: json) (messageDetails: jsval) (display: bool)
      (modelVisible: "bool option")
  | ThinkingLevelChange string
  | ModelChange string string
  | Label (targetId: string) (labelText: "string option")
  | SessionInfo "string option"
  | ToolTiming tool_timing

record entry =
  entryId :: string
  parentId :: "string option"
  timestamp :: instant
  body :: entry_body

record document =
  docIdentity :: identity
  journalVersion :: int
  revision :: int
  entries :: "entry list"
  activeLeafId :: "string option"
  docName :: "string option"

datatype doc_error =
    RevisionMismatch int int
  | EntryExists string
  | EntryNotFound string
  | NotUserMessage string
  | NotMessage string
  | NotLastUserMessage string
  | FirstKeptDangling string
  | ParentMissing string
  | GraphCycle string
  | SummarySourceMissing string
  | LabelTargetMissing string
  | FirstKeptMissing string
  | FirstKeptOtherBranch string
  | ActiveLeafMissing string
  | WrongSession string string
  | SequenceGap int int
  | FirstKeptInactive string
  | InvalidTime int

text \<open>
  \<open>new Date(n).toISOString()\<close> throws a \<open>RangeError\<close> outside the range of a
  \<open>Date\<close>; inside it the text denotes \<open>n\<close>.
\<close>

definition toISOString :: "int \<Rightarrow> doc_error + instant" where
  "toISOString n = (if \<bar>n\<bar> \<le> 8640000000000000 then Inr n else Inl (InvalidTime n))"

fun isMessageBody :: "entry_body \<Rightarrow> bool" where
  "isMessageBody (LegacyMessage t m v r) = True"
| "isMessageBody (UserMessage t a v x r) = True"
| "isMessageBody (AgentMessage t a v r) = True"
| "isMessageBody _ = False"

fun isLabelBody :: "entry_body \<Rightarrow> bool" where
  "isLabelBody (Label t l) = True"
| "isLabelBody _ = False"

section \<open>The entry tree\<close>

abbreviation ids :: "entry list \<Rightarrow> string list" where
  "ids es \<equiv> map entryId es"

text \<open>
  \<open>new Map(entries.map((entry) => [entry.id, entry])).get(k)\<close>: a later entry with the
  same id replaces an earlier one.
\<close>

definition byId :: "entry list \<Rightarrow> string \<Rightarrow> entry option" where
  "byId es k = find (\<lambda>e. entryId e = k) (rev es)"

text \<open>\<open>p ? byId.get(p) : undefined\<close>.\<close>

definition lookupEntry :: "entry list \<Rightarrow> string option \<Rightarrow> entry option" where
  "lookupEntry es p = (if truthy p then byId es (the p) else None)"

text \<open>\<open>byId.get(p)?.parentId ?? null\<close>.\<close>

definition parentIdOf :: "entry list \<Rightarrow> string \<Rightarrow> string option" where
  "parentIdOf es k = (case byId es k of None \<Rightarrow> None | Some e \<Rightarrow> parentId e)"

text \<open>The loop of \<open>selectBranch\<close>: \<open>branch.unshift(current)\<close> up to the root.\<close>

partial_function (option) walkUp :: "entry list \<Rightarrow> entry option \<Rightarrow> entry list \<Rightarrow> entry list option" where
  "walkUp es current branch =
     (case current of
        None \<Rightarrow> Some branch
      | Some e \<Rightarrow> walkUp es (lookupEntry es (parentId e)) (e # branch))"

declare walkUp.simps [code]

definition selectBranchIds :: "document \<Rightarrow> string list option" where
  "selectBranchIds d =
     map_option ids (walkUp (entries d) (lookupEntry (entries d) (activeLeafId d)) [])"

partial_function (option) isAncestorOrSelf :: "entry list \<Rightarrow> string \<Rightarrow> string option \<Rightarrow> bool option" where
  "isAncestorOrSelf es ancestorId currentId =
     (if truthy currentId
      then (if the currentId = ancestorId then Some True
            else isAncestorOrSelf es ancestorId (parentIdOf es (the currentId)))
      else Some False)"

declare isAncestorOrSelf.simps [code]

section \<open>Creating documents and checking their graph\<close>

definition createEmptyConversationDocument :: "identity \<Rightarrow> document" where
  "createEmptyConversationDocument i =
     \<lparr>docIdentity = i, journalVersion = 0, revision = 0, entries = [], activeLeafId = None, docName = None\<rparr>"

text \<open>The first loop of the check: \<open>byId.has(entry.id)\<close> before \<open>byId.set\<close>.\<close>

fun checkUniqueIds :: "string list \<Rightarrow> entry list \<Rightarrow> doc_error + unit" where
  "checkUniqueIds seen [] = Inr ()"
| "checkUniqueIds seen (e # es) =
     (if entryId e \<in> set seen then Inl (EntryExists (entryId e))
      else checkUniqueIds (entryId e # seen) es)"

text \<open>
  The loop over one entry's ancestors stops at the root or at the first id met twice. It
  always stops: every turn adds a new id, and the ids come from the entries.
\<close>

function checkAncestors :: "entry list \<Rightarrow> string list \<Rightarrow> string option \<Rightarrow> doc_error + unit" where
  "checkAncestors es ancestors p =
     (if truthy p
      then (if the p \<in> set ancestors then Inl (GraphCycle (the p))
            else checkAncestors es (the p # ancestors) (parentIdOf es (the p)))
      else Inr ())"
  by pat_completeness auto

lemma parentIdOf_mem: "parentIdOf es k = Some p \<Longrightarrow> \<exists>e \<in> set es. entryId e = k \<and> parentId e = Some p"
  by (auto simp: parentIdOf_def byId_def find_Some_iff split: option.splits)
    (metis nth_mem set_rev length_rev)

termination checkAncestors
proof (relation "measure (\<lambda>(es, anc, p).
    card ((set_option p \<union> (\<Union>e \<in> set es. set_option (parentId e))) - set anc))", simp)
  fix es :: "entry list" and anc :: "string list" and p :: "string option"
  assume t: "truthy p" and new: "the p \<notin> set anc"
  then obtain k where p: "p = Some k" by (auto simp: truthy_iff)
  let ?P = "\<Union>e \<in> set es. set_option (parentId e)"
  have sub: "set_option (parentIdOf es k) \<subseteq> ?P"
    by (auto dest!: parentIdOf_mem)
  have fin: "finite (set_option p \<union> ?P)" by (simp add: p)
  have "(set_option (parentIdOf es k) \<union> ?P) - set (k # anc) \<subset> (set_option p \<union> ?P) - set anc"
    using sub new p by auto
  with fin p show "((es, the p # anc, parentIdOf es (the p)), es, anc, p)
      \<in> measure (\<lambda>(es, anc, p). card ((set_option p \<union> (\<Union>e \<in> set es. set_option (parentId e))) - set anc))"
    by (simp add: psubset_card_mono)
qed

declare checkAncestors.simps [simp del]

text \<open>The references of one entry, in the order the source checks them.\<close>

fun checkReferences :: "entry list \<Rightarrow> entry \<Rightarrow> (doc_error + unit) option" where
  "checkReferences es e =
     (case body e of
        BranchSummary src t dt h \<Rightarrow>
          Some (if src \<noteq> ''root'' \<and> byId es src = None then Inl (SummarySourceMissing src) else Inr ())
      | Label tgt l \<Rightarrow>
          Some (if byId es tgt = None then Inl (LabelTargetMissing tgt) else Inr ())
      | Compaction c \<Rightarrow>
          (if byId es (firstKeptEntryId c) = None then Some (Inl (FirstKeptMissing (firstKeptEntryId c)))
           else case isAncestorOrSelf es (firstKeptEntryId c) (Some (entryId e)) of
                  None \<Rightarrow> None
                | Some True \<Rightarrow> Some (Inr ())
                | Some False \<Rightarrow>
                    (case isAncestorOrSelf es (entryId e) (Some (firstKeptEntryId c)) of
                       None \<Rightarrow> None
                     | Some True \<Rightarrow> Some (Inr ())
                     | Some False \<Rightarrow> Some (Inl (FirstKeptOtherBranch (firstKeptEntryId c)))))
      | _ \<Rightarrow> Some (Inr ()))"

fun checkEntries :: "entry list \<Rightarrow> entry list \<Rightarrow> (doc_error + unit) option" where
  "checkEntries es [] = Some (Inr ())"
| "checkEntries es (e # rest) =
     (if truthy (parentId e) \<and> byId es (the (parentId e)) = None
      then Some (Inl (ParentMissing (the (parentId e))))
      else case checkAncestors es [entryId e] (parentId e) of
             Inl err \<Rightarrow> Some (Inl err)
           | Inr _ \<Rightarrow>
               (case checkReferences es e of
                  None \<Rightarrow> None
                | Some (Inl err) \<Rightarrow> Some (Inl err)
                | Some (Inr _) \<Rightarrow> checkEntries es rest))"

definition assertConversationDocumentGraph :: "entry list \<Rightarrow> string option \<Rightarrow> (doc_error + unit) option" where
  "assertConversationDocumentGraph es leaf =
     (case checkUniqueIds [] es of
        Inl err \<Rightarrow> Some (Inl err)
      | Inr _ \<Rightarrow>
          (case checkEntries es es of
             None \<Rightarrow> None
           | Some (Inl err) \<Rightarrow> Some (Inl err)
           | Some (Inr _) \<Rightarrow>
               Some (if truthy leaf \<and> byId es (the leaf) = None
                     then Inl (ActiveLeafMissing (the leaf)) else Inr ())))"

definition createSeededConversationDocument ::
    "identity \<Rightarrow> entry list \<Rightarrow> string option \<Rightarrow> (doc_error + document) option" where
  "createSeededConversationDocument i es leaf =
     (case assertConversationDocumentGraph es leaf of
        None \<Rightarrow> None
      | Some (Inl err) \<Rightarrow> Some (Inl err)
      | Some (Inr _) \<Rightarrow>
          Some (Inr \<lparr>docIdentity = i, journalVersion = 0, revision = int (length es), entries = es,
                     activeLeafId = leaf, docName = None\<rparr>))"

section \<open>Kernel events\<close>

record context_record =
  contextType :: string
  contextContent :: json
  contextVisible :: bool
  contextDisplay :: "bool option"
  contextMetadata :: jsval
  contextTimestamp :: "instant option"

datatype compaction_record =
    LegacyCompaction string int int "string option"
  | ContextCompaction compaction

datatype event_payload =
    TurnStarted string
  | TurnContinued string string string string
  | MessageAppended (eventTurn: string) (eventMessageId: "string option") (eventMessage: json)
      (eventOrigin: "string option")
  | ContextAppended (eventTurn: string) (eventRecord: context_record)
  | ContextRecorded (eventRecord: context_record)
  | ContextCompacted "string option" compaction_record
  | TurnCompleted string
  | TurnCancelled string
  | TurnFailed (eventTurn: string) (eventError: json)
  | TurnTransferred string string string

record stored_event =
  eventSession :: string
  eventTime :: int
  payload :: event_payload

record entry_reference =
  refId :: string
  refParent :: "string option"
  refTime :: instant

definition nativeConversationEntryId :: "int \<Rightarrow> string" where
  "nativeConversationEntryId sequence = ''event-'' @ decimal sequence"

datatype persistence = NoEntry | Reference | Implicit

fun isPersistentCompactionEvent :: "event_payload \<Rightarrow> bool" where
  "isPersistentCompactionEvent (ContextCompacted t (ContextCompaction c)) = True"
| "isPersistentCompactionEvent _ = False"

fun conversationDocumentEntryPersistence :: "event_payload \<Rightarrow> persistence" where
  "conversationDocumentEntryPersistence (TurnFailed t e) = Implicit"
| "conversationDocumentEntryPersistence (MessageAppended t i m r) = Reference"
| "conversationDocumentEntryPersistence (ContextAppended t c) = Reference"
| "conversationDocumentEntryPersistence (ContextRecorded c) = Reference"
| "conversationDocumentEntryPersistence p = (if isPersistentCompactionEvent p then Reference else NoEntry)"

definition isConversationDocumentEntryEvent :: "stored_event \<Rightarrow> bool" where
  "isConversationDocumentEntryEvent ev = (conversationDocumentEntryPersistence (payload ev) \<noteq> NoEntry)"

text \<open>\<open>...(s ? { key: s } : {})\<close>.\<close>

definition keepTruthy :: "string option \<Rightarrow> string option" where
  "keepTruthy s = (if truthy s then s else None)"

text \<open>
  The body of the entry an event adds; \<open>None\<close> for the events that add none, for which
  the projection returns before it builds an entry.
\<close>

fun eventBody :: "event_payload \<Rightarrow> entry_body option" where
  "eventBody (ContextCompacted t (ContextCompaction c)) = Some (Compaction c)"
| "eventBody (TurnFailed t err) =
     Some (Custom ''turn_failed'' (Some (JObj [(''turnId'', JStr t), (''error'', err)])))"
| "eventBody (MessageAppended t i m r) = Some (LegacyMessage (Some t) (keepTruthy i) m (keepTruthy r))"
| "eventBody (ContextAppended t c) =
     Some (CustomMessage (contextType c) (contextContent c) (contextMetadata c)
       (contextDisplay c = Some True) (Some (contextVisible c)))"
| "eventBody (ContextRecorded c) =
     Some (CustomMessage (contextType c) (contextContent c) (contextMetadata c)
       (contextDisplay c = Some True) (Some (contextVisible c)))"
| "eventBody _ = None"

text \<open>\<open>turn.failed\<close> leaves the revision alone, every other entry event advances it.\<close>

fun eventRevision :: "event_payload \<Rightarrow> int \<Rightarrow> int" where
  "eventRevision (TurnFailed t err) r = r"
| "eventRevision _ r = r + 1"

definition entryReference ::
    "document \<Rightarrow> stored_event \<Rightarrow> int \<Rightarrow> entry_reference option \<Rightarrow> doc_error + entry_reference" where
  "entryReference d ev sequence reference =
     (case reference of
        Some r \<Rightarrow> Inr r
      | None \<Rightarrow>
          (case toISOString (eventTime ev) of
             Inl err \<Rightarrow> Inl err
           | Inr t \<Rightarrow>
               Inr \<lparr>refId = nativeConversationEntryId sequence, refParent = activeLeafId d, refTime = t\<rparr>))"

text \<open>The check only a persistent compaction event goes through.\<close>

fun firstKeptCheck :: "document \<Rightarrow> event_payload \<Rightarrow> (doc_error + unit) option" where
  "firstKeptCheck d (ContextCompacted t (ContextCompaction c)) =
     (case selectBranchIds d of
        None \<Rightarrow> None
      | Some ks \<Rightarrow>
          Some (if firstKeptEntryId c \<in> set ks then Inr () else Inl (FirstKeptInactive (firstKeptEntryId c))))"
| "firstKeptCheck d _ = Some (Inr ())"

definition appendEventEntry :: "document \<Rightarrow> event_payload \<Rightarrow> int \<Rightarrow> entry_reference \<Rightarrow> document" where
  "appendEventEntry d p sequence r =
     d\<lparr>journalVersion := sequence,
       revision := eventRevision p (revision d),
       entries := entries d @
         (case eventBody p of
            None \<Rightarrow> []
          | Some b \<Rightarrow> [\<lparr>entryId = refId r, parentId = refParent r, timestamp = refTime r, body = b\<rparr>]),
       activeLeafId := Some (refId r)\<rparr>"

definition applyStoredEventToConversationDocument ::
    "document \<Rightarrow> stored_event \<Rightarrow> int \<Rightarrow> entry_reference option \<Rightarrow> (doc_error + document) option" where
  "applyStoredEventToConversationDocument d ev sequence reference =
     (if eventSession ev \<noteq> sessionId (docIdentity d)
      then Some (Inl (WrongSession (sessionId (docIdentity d)) (eventSession ev)))
      else if sequence \<noteq> journalVersion d + 1
      then Some (Inl (SequenceGap sequence (journalVersion d)))
      else if \<not> isConversationDocumentEntryEvent ev
      then Some (Inr (d\<lparr>journalVersion := sequence\<rparr>))
      else case entryReference d ev sequence reference of
             Inl err \<Rightarrow> Some (Inl err)
           | Inr r \<Rightarrow>
               (if refId r \<in> set (ids (entries d)) then Some (Inl (EntryExists (refId r)))
                else if truthy (refParent r) \<and> the (refParent r) \<notin> set (ids (entries d))
                then Some (Inl (ParentMissing (the (refParent r))))
                else case firstKeptCheck d (payload ev) of
                       None \<Rightarrow> None
                     | Some (Inl err) \<Rightarrow> Some (Inl err)
                     | Some (Inr _) \<Rightarrow> Some (Inr (appendEventEntry d (payload ev) sequence r))))"

end
