(* ===== verification/DocumentGraph.thy ===== *)
theory DocumentGraph
  imports Document
begin

text \<open>
  The abstract view of a conversation document's entry tree: paths to the root, the
  ancestor relation, acyclicity, and the declarative condition \<open>graphOk\<close> that
  \<open>assertConversationDocumentGraph\<close> decides.
\<close>

section \<open>Looking entries up\<close>

lemma byId_Some: "byId es k = Some e \<Longrightarrow> e \<in> set es \<and> entryId e = k"
  by (auto simp: byId_def find_Some_iff) (metis nth_mem set_rev length_rev)

lemma byId_None: "byId es k = None \<longleftrightarrow> k \<notin> set (ids es)"
  by (auto simp: byId_def find_None_iff)

lemma byId_mem: "k \<in> set (ids es) \<Longrightarrow> \<exists>e. byId es k = Some e"
  by (metis byId_None not_None_eq)

lemma distinct_ids_eq:
  "distinct (ids es) \<Longrightarrow> e \<in> set es \<Longrightarrow> e' \<in> set es \<Longrightarrow> entryId e = entryId e' \<Longrightarrow> e = e'"
  by (meson distinct_map inj_onD)

lemma byId_eq: "distinct (ids es) \<Longrightarrow> e \<in> set es \<Longrightarrow> byId es (entryId e) = Some e"
  by (metis byId_Some byId_mem distinct_ids_eq imageI list.set_map)

lemma byId_append:
  "byId (es @ fs) k = (case byId fs k of None \<Rightarrow> byId es k | Some e \<Rightarrow> Some e)"
  by (simp add: byId_def find_append split: option.splits)

lemma byId_append_old: "k \<notin> set (ids fs) \<Longrightarrow> byId (es @ fs) k = byId es k"
  using byId_None [of fs k] by (simp add: byId_append)

lemma lookupEntry_None [simp]: "lookupEntry es None = None"
  by (simp add: lookupEntry_def)

lemma lookupEntry_Some: "lookupEntry es p = Some e \<Longrightarrow> e \<in> set es \<and> p = Some (entryId e) \<and> entryId e \<noteq> []"
  by (auto simp: lookupEntry_def truthy_iff split: if_splits dest: byId_Some)

lemma lookupEntry_mem:
  "truthy p \<Longrightarrow> the p \<in> set (ids es) \<Longrightarrow> \<exists>e. lookupEntry es p = Some e"
  by (simp add: lookupEntry_def byId_mem)

section \<open>Paths to the root\<close>

text \<open>
  The entries met on the way from \<open>current\<close> to the root, nearest first. It is the
  functional specification of the loop \<open>walkUp\<close>, which returns exactly when there is
  such a finite path.
\<close>

fun upPath :: "entry list \<Rightarrow> entry option \<Rightarrow> entry list \<Rightarrow> bool" where
  "upPath es cur [] = (cur = None)"
| "upPath es cur (e # rest) = (cur = Some e \<and> upPath es (lookupEntry es (parentId e)) rest)"

lemma upPath_walkUp: "upPath es cur p \<Longrightarrow> walkUp es cur acc = Some (rev p @ acc)"
  by (induction p arbitrary: cur acc) (simp_all add: walkUp.simps)

lemma walkUp_upPath:
  assumes "walkUp es cur acc = Some b"
  shows "\<exists>p. upPath es cur p \<and> b = rev p @ acc"
proof (rule walkUp.raw_induct [where P = "\<lambda>es cur acc b. \<exists>p. upPath es cur p \<and> b = rev p @ acc", OF _ assms])
  fix walk es cur acc b
  assume IH: "\<And>es cur acc b. walk es cur acc = Some b \<Longrightarrow> \<exists>p. upPath es cur p \<and> b = rev p @ acc"
    and step: "(case cur of None \<Rightarrow> Some acc
      | Some e \<Rightarrow> walk es (lookupEntry es (parentId e)) (e # acc)) = Some b"
  show "\<exists>p. upPath es cur p \<and> b = rev p @ acc"
  proof (cases cur)
    case None
    with step show ?thesis by (auto intro: exI [of _ "[]"])
  next
    case (Some e)
    with step have "walk es (lookupEntry es (parentId e)) (e # acc) = Some b" by simp
    from IH [OF this] obtain p where "upPath es (lookupEntry es (parentId e)) p" "b = rev p @ e # acc"
      by blast
    with Some have "upPath es cur (e # p) \<and> b = rev (e # p) @ acc" by simp
    then show ?thesis by blast
  qed
qed

lemma walkUp_iff: "walkUp es cur acc = Some b \<longleftrightarrow> (\<exists>p. upPath es cur p \<and> b = rev p @ acc)"
  by (metis upPath_walkUp walkUp_upPath)

lemma upPath_unique: "upPath es cur p \<Longrightarrow> upPath es cur q \<Longrightarrow> p = q"
proof (induction p arbitrary: cur q)
  case Nil
  then show ?case by (cases q) auto
next
  case (Cons e p)
  then show ?case by (cases q) auto
qed

lemma upPath_suffix: "upPath es cur (p @ e # q) \<Longrightarrow> upPath es (Some e) (e # q)"
  by (induction p arbitrary: cur) auto

lemma upPath_distinct: "upPath es cur p \<Longrightarrow> distinct p"
proof (rule ccontr)
  assume up: "upPath es cur p" and "\<not> distinct p"
  then obtain a b c e where p: "p = a @ [e] @ b @ [e] @ c"
    using not_distinct_decomp by blast
  have "upPath es (Some e) (e # b @ e # c)"
    using up upPath_suffix [of es cur a e "b @ e # c"] by (simp add: p)
  moreover have "upPath es (Some e) (e # c)"
    using up upPath_suffix [of es cur "a @ e # b" e c] by (simp add: p)
  ultimately have "e # b @ e # c = e # c" by (rule upPath_unique)
  then have "length (e # b @ e # c) = length (e # c)" by (rule arg_cong)
  then show False by simp
qed

lemma upPath_mem: "upPath es cur p \<Longrightarrow> set_option cur \<subseteq> set es \<Longrightarrow> set p \<subseteq> set es"
proof (induction p arbitrary: cur)
  case Nil
  then show ?case by simp
next
  case (Cons e p)
  have "set_option (lookupEntry es (parentId e)) \<subseteq> set es"
    by (auto dest: lookupEntry_Some)
  with Cons show ?case by auto
qed

section \<open>Acyclic trees\<close>

text \<open>A rank that drops along every parent pointer.\<close>

definition ranked :: "entry list \<Rightarrow> (string \<Rightarrow> nat) \<Rightarrow> bool" where
  "ranked es rank = (\<forall>e \<in> set es. truthy (parentId e) \<longrightarrow> rank (the (parentId e)) < rank (entryId e))"

definition acyclic_tree :: "entry list \<Rightarrow> bool" where
  "acyclic_tree es = (\<exists>rank. ranked es rank)"

lemma ranked_upPath:
  "ranked es rank \<Longrightarrow> set_option cur \<subseteq> set es \<Longrightarrow> \<exists>p. upPath es cur p"
proof (induction "case cur of None \<Rightarrow> 0 | Some e \<Rightarrow> Suc (rank (entryId e))" arbitrary: cur rule: less_induct)
  case less
  show ?case
  proof (cases cur)
    case None
    then have "upPath es cur []" by simp
    then show ?thesis by blast
  next
    case (Some e)
    let ?up = "lookupEntry es (parentId e)"
    have sub: "set_option ?up \<subseteq> set es" by (auto dest: lookupEntry_Some)
    have "(case ?up of None \<Rightarrow> 0 | Some e \<Rightarrow> Suc (rank (entryId e))) < Suc (rank (entryId e))"
    proof (cases ?up)
      case (Some u)
      then have "parentId e = Some (entryId u)" "entryId u \<noteq> []" by (auto dest: lookupEntry_Some)
      then have "rank (entryId u) < rank (entryId e)"
        using less.prems \<open>cur = Some e\<close> by (force simp: ranked_def)
      with Some show ?thesis by simp
    qed simp
    with less.hyps [of ?up] less.prems(1) sub Some obtain p where "upPath es ?up p" by auto
    with Some have "upPath es cur (e # p)" by simp
    then show ?thesis by blast
  qed
qed

lemma acyclic_upPath: "acyclic_tree es \<Longrightarrow> \<exists>p. upPath es (lookupEntry es k) p"
  by (auto simp: acyclic_tree_def intro!: ranked_upPath dest: lookupEntry_Some)

lemma acyclic_walkUp: "acyclic_tree es \<Longrightarrow> \<exists>b. walkUp es (lookupEntry es k) acc = Some b"
  by (meson acyclic_upPath upPath_walkUp)

section \<open>Walking over ids\<close>

text \<open>
  The ids a loop over \<open>byId.get(id)?.parentId ?? null\<close> meets. Unlike \<open>upPath\<close> it
  also visits an id that no entry has.
\<close>

fun idPath :: "entry list \<Rightarrow> string option \<Rightarrow> string list \<Rightarrow> bool" where
  "idPath es cur [] = (\<not> truthy cur)"
| "idPath es cur (k # ks) = (cur = Some k \<and> k \<noteq> [] \<and> idPath es (parentIdOf es k) ks)"

lemma idPath_unique: "idPath es cur p \<Longrightarrow> idPath es cur q \<Longrightarrow> p = q"
proof (induction p arbitrary: cur q)
  case Nil
  then show ?case by (cases q) auto
next
  case (Cons e p)
  then show ?case by (cases q) auto
qed

lemma idPath_suffix: "idPath es cur (p @ k # q) \<Longrightarrow> idPath es (Some k) (k # q)"
  by (induction p arbitrary: cur) auto

lemma idPath_distinct: "idPath es cur p \<Longrightarrow> distinct p"
proof (rule ccontr)
  assume up: "idPath es cur p" and "\<not> distinct p"
  then obtain a b c k where p: "p = a @ [k] @ b @ [k] @ c"
    using not_distinct_decomp by blast
  have "idPath es (Some k) (k # b @ k # c)"
    using up idPath_suffix [of es cur a k "b @ k # c"] by (simp add: p)
  moreover have "idPath es (Some k) (k # c)"
    using up idPath_suffix [of es cur "a @ k # b" k c] by (simp add: p)
  ultimately have "k # b @ k # c = k # c" by (rule idPath_unique)
  then have "length (k # b @ k # c) = length (k # c)" by (rule arg_cong)
  then show False by simp
qed

lemma parentIdOf_eq: "distinct (ids es) \<Longrightarrow> e \<in> set es \<Longrightarrow> parentIdOf es (entryId e) = parentId e"
  by (simp add: parentIdOf_def byId_eq)

lemma ranked_idPath:
  "ranked es rank \<Longrightarrow> \<exists>p. idPath es cur p"
proof (induction "case cur of None \<Rightarrow> 0 | Some k \<Rightarrow> Suc (rank k)" arbitrary: cur rule: less_induct)
  case less
  show ?case
  proof (cases "truthy cur")
    case False
    then have "idPath es cur []" by simp
    then show ?thesis by blast
  next
    case True
    then obtain k where k: "cur = Some k" "k \<noteq> []" by (auto simp: truthy_iff)
    show ?thesis
    proof (cases "truthy (parentIdOf es k)")
      case False
      with k have "idPath es cur [k]" by simp
      then show ?thesis by blast
    next
      case True
      then obtain q where q: "parentIdOf es k = Some q" "q \<noteq> []" by (auto simp: truthy_iff)
      then obtain e where "e \<in> set es" "entryId e = k" "parentId e = Some q"
        using parentIdOf_mem by blast
      with less.prems q have "rank q < rank k" by (force simp: ranked_def)
      with less.hyps [of "Some q"] less.prems k obtain p where "idPath es (Some q) p" by auto
      with k q have "idPath es cur (k # p)" by simp
      then show ?thesis by blast
    qed
  qed
qed

lemma acyclic_idPath: "acyclic_tree es \<Longrightarrow> \<exists>p. idPath es cur p"
  by (auto simp: acyclic_tree_def intro: ranked_idPath)

text \<open>Finite id paths from every entry's parent give a rank: the length of the path.\<close>

lemma idPaths_acyclic:
  assumes dist: "distinct (ids es)" and paths: "\<forall>e \<in> set es. \<exists>p. idPath es (parentId e) p"
  shows "acyclic_tree es"
proof -
  define rank where "rank k = length (THE p. idPath es (parentIdOf es k) p)" for k
  have rank: "rank k = length p" if "idPath es (parentIdOf es k) p" for k p
    unfolding rank_def using that by (metis idPath_unique the_equality)
  have "rank (the (parentId e)) < rank (entryId e)"
    if e: "e \<in> set es" and t: "truthy (parentId e)" for e
  proof -
    obtain p where p: "idPath es (parentId e) p" using paths e by blast
    with t obtain k ks where "p = k # ks" "parentId e = Some k" "idPath es (parentIdOf es k) ks"
      by (cases p) auto
    moreover have "rank (entryId e) = length p"
      using p dist e by (simp add: rank parentIdOf_eq)
    ultimately show ?thesis using rank by simp
  qed
  then show ?thesis unfolding acyclic_tree_def ranked_def by blast
qed

section \<open>The ancestor relation\<close>

inductive reach :: "entry list \<Rightarrow> string option \<Rightarrow> string \<Rightarrow> bool" for es where
  here: "k \<noteq> [] \<Longrightarrow> reach es (Some k) k"
| up: "k \<noteq> [] \<Longrightarrow> reach es (parentIdOf es k) a \<Longrightarrow> reach es (Some k) a"

inductive_cases reach_NoneE [elim!]: "reach es None a"
inductive_cases reach_SomeE: "reach es (Some k) a"

lemma reach_step: "reach es cur a \<longleftrightarrow> truthy cur \<and> (the cur = a \<or> reach es (parentIdOf es (the cur)) a)"
  by (cases cur) (auto elim: reach_SomeE intro: reach.intros)

lemma reach_idPath: "idPath es cur ks \<Longrightarrow> reach es cur a \<longleftrightarrow> a \<in> set ks"
proof (induction ks arbitrary: cur)
  case Nil
  then show ?case by (subst reach_step) auto
next
  case (Cons k ks)
  then show ?case by (subst reach_step) auto
qed

lemma reach_trans: "reach es cur a \<Longrightarrow> reach es (Some a) b \<Longrightarrow> reach es cur b"
  by (induction rule: reach.induct) (auto intro: reach.intros)

lemma isAncestorOrSelf_idPath: "idPath es cur ks \<Longrightarrow> isAncestorOrSelf es a cur = Some (a \<in> set ks)"
proof (induction ks arbitrary: cur)
  case Nil
  then show ?case by (subst isAncestorOrSelf.simps) simp
next
  case (Cons k ks)
  then show ?case by (subst isAncestorOrSelf.simps) auto
qed

lemma isAncestorOrSelf_sound:
  assumes "isAncestorOrSelf es a cur = Some r"
  shows "r \<longleftrightarrow> reach es cur a"
proof (rule isAncestorOrSelf.raw_induct [where P = "\<lambda>es a cur r. r = reach es cur a", OF _ assms])
  fix walk es a cur r
  assume IH: "\<And>es a cur r. walk es a cur = Some r \<Longrightarrow> r = reach es cur a"
    and step: "(if truthy cur then if the cur = a then Some True
        else walk es a (parentIdOf es (the cur)) else Some False) = Some r"
  show "r = reach es cur a"
    using step IH by (subst reach_step) (auto split: if_splits)
qed

lemma isAncestorOrSelf_acyclic:
  assumes "acyclic_tree es"
  shows "isAncestorOrSelf es a cur = Some (reach es cur a)"
proof -
  obtain ks where "idPath es cur ks" using acyclic_idPath [OF assms] by blast
  then show ?thesis by (simp add: isAncestorOrSelf_idPath reach_idPath)
qed

section \<open>What the graph check decides\<close>

fun refsOk :: "entry list \<Rightarrow> entry \<Rightarrow> bool" where
  "refsOk es e =
     (case body e of
        BranchSummary src t dt h \<Rightarrow> src = ''root'' \<or> src \<in> set (ids es)
      | Label tgt l \<Rightarrow> tgt \<in> set (ids es)
      | Compaction c \<Rightarrow>
          firstKeptEntryId c \<in> set (ids es) \<and>
          (reach es (Some (entryId e)) (firstKeptEntryId c) \<or> reach es (Some (firstKeptEntryId c)) (entryId e))
      | _ \<Rightarrow> True)"

definition parentsOk :: "entry list \<Rightarrow> bool" where
  "parentsOk es = (\<forall>e \<in> set es. truthy (parentId e) \<longrightarrow> the (parentId e) \<in> set (ids es))"

definition leafOk :: "entry list \<Rightarrow> string option \<Rightarrow> bool" where
  "leafOk es leaf = (truthy leaf \<longrightarrow> the leaf \<in> set (ids es))"

definition graphOk :: "entry list \<Rightarrow> string option \<Rightarrow> bool" where
  "graphOk es leaf =
     (distinct (ids es) \<and> parentsOk es \<and> acyclic_tree es \<and> (\<forall>e \<in> set es. refsOk es e) \<and> leafOk es leaf)"

declare refsOk.simps [simp del] checkReferences.simps [simp del]

lemma graphOkD:
  assumes "graphOk es leaf"
  shows "distinct (ids es)" "parentsOk es" "acyclic_tree es" "\<forall>e \<in> set es. refsOk es e" "leafOk es leaf"
  using assms by (auto simp: graphOk_def)

lemma checkUniqueIds_iff:
  "checkUniqueIds seen es = Inr () \<longleftrightarrow> distinct (ids es) \<and> set (ids es) \<inter> set seen = {}"
  by (induction seen es rule: checkUniqueIds.induct) auto

lemma checkAncestors_iff:
  "checkAncestors es anc p = Inr () \<longleftrightarrow> (\<exists>ks. idPath es p ks \<and> set ks \<inter> set anc = {})"
proof
  show "checkAncestors es anc p = Inr () \<Longrightarrow> \<exists>ks. idPath es p ks \<and> set ks \<inter> set anc = {}"
  proof (induction es anc p rule: checkAncestors.induct)
    case (1 es anc p)
    show ?case
    proof (cases "truthy p")
      case False
      then show ?thesis by (auto intro: exI [of _ "[]"])
    next
      case True
      with "1.prems" have new: "the p \<notin> set anc"
        and "checkAncestors es (the p # anc) (parentIdOf es (the p)) = Inr ()"
        by (simp_all add: checkAncestors.simps [of es anc] split: if_splits)
      with "1.IH" True obtain ks where "idPath es (parentIdOf es (the p)) ks"
        "set ks \<inter> set (the p # anc) = {}" by blast
      with True new have "idPath es p (the p # ks) \<and> set (the p # ks) \<inter> set anc = {}"
        by (auto simp: truthy_iff)
      then show ?thesis by blast
    qed
  qed
next
  assume "\<exists>ks. idPath es p ks \<and> set ks \<inter> set anc = {}"
  then obtain ks where "idPath es p ks" "set ks \<inter> set anc = {}" by blast
  moreover from this have "distinct ks" by (simp add: idPath_distinct)
  ultimately show "checkAncestors es anc p = Inr ()"
  proof (induction ks arbitrary: p anc)
    case Nil
    then show ?case by (simp add: checkAncestors.simps)
  next
    case (Cons k ks)
    then have "checkAncestors es (k # anc) (parentIdOf es k) = Inr ()" by auto
    with Cons.prems show ?case by (auto simp: checkAncestors.simps [of es anc])
  qed
qed

lemma idPath_parent_fresh:
  assumes "distinct (ids es)" "e \<in> set es" "idPath es (parentId e) ks"
  shows "entryId e \<notin> set ks"
proof (cases "entryId e = []")
  case True
  have "[] \<notin> set ks'" if "idPath es p ks'" for p ks'
    using that by (induction ks' arbitrary: p) auto
  with assms(3) True show ?thesis by auto
next
  case False
  with assms have "idPath es (Some (entryId e)) (entryId e # ks)" by (simp add: parentIdOf_eq)
  then have "distinct (entryId e # ks)" by (rule idPath_distinct)
  then show ?thesis by simp
qed

lemma checkAncestors_acyclic:
  assumes "distinct (ids es)" "acyclic_tree es" "e \<in> set es"
  shows "checkAncestors es [entryId e] (parentId e) = Inr ()"
proof -
  obtain ks where "idPath es (parentId e) ks" using acyclic_idPath assms(2) by blast
  moreover from this have "entryId e \<notin> set ks" using assms(1,3) by (simp add: idPath_parent_fresh)
  ultimately show ?thesis unfolding checkAncestors_iff by auto
qed

lemma checkReferences_sound: "checkReferences es e = Some (Inr ()) \<Longrightarrow> refsOk es e"
  by (auto simp: refsOk.simps checkReferences.simps byId_None dest!: isAncestorOrSelf_sound
      split: entry_body.splits option.splits if_splits bool.splits)

lemma checkReferences_complete:
  "acyclic_tree es \<Longrightarrow> refsOk es e \<Longrightarrow> checkReferences es e = Some (Inr ())"
  using byId_None [of es]
  by (auto simp: refsOk.simps checkReferences.simps isAncestorOrSelf_acyclic split: entry_body.splits option.splits if_splits bool.splits)

lemma checkEntries_iff:
  "checkEntries es rest = Some (Inr ()) \<longleftrightarrow>
     (\<forall>e \<in> set rest. (truthy (parentId e) \<longrightarrow> the (parentId e) \<in> set (ids es)) \<and>
        checkAncestors es [entryId e] (parentId e) = Inr () \<and> checkReferences es e = Some (Inr ()))"
proof (induction rest)
  case Nil
  then show ?case by simp
next
  case (Cons e rest)
  then show ?case
    using byId_None [of es "the (parentId e)"]
    by (auto split: option.splits sum.splits if_splits)
qed

lemma assertGraph_graphOk:
  assumes "assertConversationDocumentGraph es leaf = Some (Inr ())"
  shows "graphOk es leaf"
proof -
  from assms have u: "checkUniqueIds [] es = Inr ()" and c: "checkEntries es es = Some (Inr ())"
    and l: "leafOk es leaf"
    using byId_None [of es "the leaf"]
    by (auto simp: assertConversationDocumentGraph_def leafOk_def split: sum.splits option.splits if_splits)
  from u have d: "distinct (ids es)" by (simp add: checkUniqueIds_iff)
  from c have "\<forall>e \<in> set es. \<exists>p. idPath es (parentId e) p"
    by (auto simp: checkEntries_iff checkAncestors_iff)
  with d have "acyclic_tree es" by (rule idPaths_acyclic)
  with d l c show ?thesis
    by (auto simp: graphOk_def parentsOk_def checkEntries_iff intro: checkReferences_sound)
qed

lemma graphOk_assertGraph:
  assumes "graphOk es leaf"
  shows "assertConversationDocumentGraph es leaf = Some (Inr ())"
proof -
  note ok = graphOkD [OF assms]
  have "checkEntries es es = Some (Inr ())"
    using ok by (auto simp: checkEntries_iff parentsOk_def intro: checkAncestors_acyclic checkReferences_complete)
  moreover have "checkUniqueIds [] es = Inr ()" using ok by (simp add: checkUniqueIds_iff)
  ultimately show ?thesis
    using ok(5) byId_None [of es "the leaf"] by (auto simp: assertConversationDocumentGraph_def leafOk_def)
qed

lemma assertGraph_iff: "assertConversationDocumentGraph es leaf = Some (Inr ()) \<longleftrightarrow> graphOk es leaf"
  using assertGraph_graphOk graphOk_assertGraph by blast

end
