(* ===== verification/Commands.thy ===== *)
theory Commands
  imports DocumentGraph
begin

text \<open>
  The commands that edit a conversation document, from
  \<open>packages/runtime-core/src/conversation/commands.ts\<close>: one function per handler, composed
  by \<open>applyConversationDocumentCommand\<close>, and the projections of the active branch to
  model messages. A result \<open>None\<close> means that a pointer-following loop of the handler
  does not return; \<open>Some (Inl e)\<close> is a thrown error.
\<close>

section \<open>Commands and results\<close>

datatype record_kind = UserRecord "json list option" | AgentRecord

record message_record =
  recordId :: string
  recordTurn :: string
  recordTime :: int
  recordKind :: record_kind
  recordAuthor :: json
  recordMessage :: json

datatype command =
    ActiveLeafSet "string option"
  | BranchSelect string
  | MessageDelete string
  | UserTurnReplace string
  | MessageAppend message_record
  | BranchSummaryAppend string "string option" string jsval "bool option" instant
  | CustomAppend string string jsval instant
  | SessionNameSet string
  | EntryLabelSet string string "string option" instant

record command_result =
  resultDocument :: document
  resultChanged :: bool
  resultLeaf :: "string option"

type_synonym outcome = "(doc_error + command_result) option"

definition changed :: "document \<Rightarrow> command_result" where
  "changed d = \<lparr>resultDocument = d, resultChanged = True, resultLeaf = activeLeafId d\<rparr>"

definition unchanged :: "document \<Rightarrow> command_result" where
  "unchanged d = \<lparr>resultDocument = d, resultChanged = False, resultLeaf = activeLeafId d\<rparr>"

section \<open>Reading entries\<close>

text \<open>\<open>isRecord(entry.message) && entry.message.role === r\<close>.\<close>

definition hasRole :: "json \<Rightarrow> string \<Rightarrow> bool" where
  "hasRole m r = (isRecord m \<and> isLiteral (field m ''role'') r)"

definition isUserEntry :: "entry \<Rightarrow> bool" where
  "isUserEntry e = (isMessageBody (body e) \<and> hasRole (message (body e)) ''user'')"

definition isMessage :: "json \<Rightarrow> bool" where
  "isMessage m = (hasRole m ''user'' \<or> hasRole m ''assistant'' \<or> hasRole m ''toolResult'')"

definition findEntry :: "entry list \<Rightarrow> string \<Rightarrow> entry option" where
  "findEntry es k = find (\<lambda>e. entryId e = k) es"

definition conversationDocumentEntry :: "document \<Rightarrow> string \<Rightarrow> doc_error + entry" where
  "conversationDocumentEntry d k =
     (case findEntry (entries d) k of None \<Rightarrow> Inl (EntryNotFound k) | Some e \<Rightarrow> Inr e)"

definition isTextItem :: "json \<Rightarrow> bool" where
  "isTextItem v = (isRecord v \<and> isLiteral (field v ''type'') ''text'' \<and> isString (field v ''text''))"

fun itemText :: "json \<Rightarrow> string" where
  "itemText v = (case field v ''text'' of Some (JStr s) \<Rightarrow> s | _ \<Rightarrow> [])"

fun extractText :: "jsval \<Rightarrow> string" where
  "extractText (Some (JStr s)) = s"
| "extractText (Some (JArr vs)) = concat (map itemText (filter isTextItem vs))"
| "extractText _ = []"

definition extractConversationEntryText :: "entry \<Rightarrow> string" where
  "extractConversationEntryText e =
     (case body e of
        CustomMessage t c dt ds mv \<Rightarrow> extractText (Some c)
      | _ \<Rightarrow> if isUserEntry e then extractText (field (message (body e)) ''content'') else [])"

definition selectBranch :: "entry list \<Rightarrow> string option \<Rightarrow> entry list option" where
  "selectBranch es leaf = walkUp es (lookupEntry es leaf) []"

definition selectConversationDocumentEntries :: "document \<Rightarrow> string option \<Rightarrow> entry list option" where
  "selectConversationDocumentEntries d leaf = selectBranch (entries d) leaf"

definition childrenOf :: "entry list \<Rightarrow> string \<Rightarrow> entry list" where
  "childrenOf es k = filter (\<lambda>e. parentId e = Some k) es"

text \<open>\<open>filter(...).sort(byTimestamp)\<close>: a stable sort by instant.\<close>

definition tipChildren :: "(entry \<Rightarrow> bool) \<Rightarrow> entry list \<Rightarrow> string \<Rightarrow> entry list" where
  "tipChildren keep es tip = sort_key timestamp (filter keep (childrenOf es tip))"

partial_function (option) tipLoop :: "(entry \<Rightarrow> bool) \<Rightarrow> entry list \<Rightarrow> string \<Rightarrow> string option" where
  "tipLoop keep es tip =
     (let children = tipChildren keep es tip
      in if children = [] then Some tip else tipLoop keep es (entryId (last children)))"

declare tipLoop.simps [code]

definition notLabel :: "entry \<Rightarrow> bool" where
  "notLabel e = (\<not> isLabelBody (body e))"

definition notLabelNorUser :: "entry \<Rightarrow> bool" where
  "notLabelNorUser e = (\<not> isLabelBody (body e) \<and> \<not> isUserEntry e)"

definition resolveSubtreeTip :: "entry list \<Rightarrow> string \<Rightarrow> (doc_error + string) option" where
  "resolveSubtreeTip es k =
     (if k \<notin> set (ids es) then Some (Inl (EntryNotFound k))
      else map_option Inr (tipLoop notLabel es k))"

definition resolveConversationUserTurnTip :: "document \<Rightarrow> string \<Rightarrow> (doc_error + string) option" where
  "resolveConversationUserTurnTip d k =
     (case conversationDocumentEntry d k of
        Inl err \<Rightarrow> Some (Inl err)
      | Inr e \<Rightarrow>
          (if \<not> isUserEntry e then Some (Inl (NotUserMessage k))
           else map_option Inr (tipLoop notLabelNorUser (entries d) k)))"

section \<open>Model messages of the active branch\<close>

definition isUserMessageContent :: "json \<Rightarrow> bool" where
  "isUserMessageContent v =
     (isString (Some v) \<or>
      arrayOf (\<lambda>item. isRecord item \<and> isString (field item ''type'') \<and>
        (if isLiteral (field item ''type'') ''text'' then isString (field item ''text'')
         else isLiteral (field item ''type'') ''image'' \<and> isString (field item ''data'') \<and>
              isString (field item ''mimeType''))) (Some v))"

definition projectModelMessages :: "entry \<Rightarrow> json list" where
  "projectModelMessages e =
     (case body e of
        CustomMessage t c dt ds mv \<Rightarrow>
          (if mv = Some True \<and> isUserMessageContent c
           then [JObj [(''role'', JStr ''user''), (''content'', c),
                       (''timestamp'', JNum (Finite (of_int (timestamp e))))]]
           else [])
      | _ \<Rightarrow> if isMessageBody (body e) \<and> isMessage (message (body e)) then [message (body e)] else [])"

definition selectConversationDocumentMessages :: "document \<Rightarrow> json list option" where
  "selectConversationDocumentMessages d =
     map_option (\<lambda>b. concat (map (\<lambda>e. if isMessageBody (body e) \<and> isMessage (message (body e))
                                     then [message (body e)] else []) b))
       (selectBranch (entries d) (activeLeafId d))"

fun summarizes :: "entry_body \<Rightarrow> bool" where
  "summarizes (Compaction c) = (summaryMessage c \<noteq> None)"
| "summarizes _ = False"

fun modelMessagesAfter :: "entry list \<Rightarrow> nat \<Rightarrow> entry_body \<Rightarrow> doc_error + json list" where
  "modelMessagesAfter branch i (Compaction c) =
     (if \<not> truthyJson (summaryMessage c) then Inr (concat (map projectModelMessages branch))
      else case findIndex (\<lambda>e. entryId e = firstKeptEntryId c) branch of
             None \<Rightarrow> Inl (FirstKeptDangling (firstKeptEntryId c))
           | Some k \<Rightarrow>
               Inr (the (summaryMessage c) #
                 (if k > i then concat (map projectModelMessages (drop k branch))
                  else concat (map projectModelMessages (drop k (take i branch))) @
                       concat (map projectModelMessages (drop (i + 1) branch)))))"
| "modelMessagesAfter branch i _ = Inr (concat (map projectModelMessages branch))"

definition selectConversationDocumentModelMessages :: "document \<Rightarrow> (doc_error + json list) option" where
  "selectConversationDocumentModelMessages d =
     map_option (\<lambda>branch.
         case findLastIndex (\<lambda>e. summarizes (body e)) branch of
           None \<Rightarrow> Inr (concat (map projectModelMessages branch))
         | Some i \<Rightarrow> modelMessagesAfter branch i (body (branch ! i)))
       (selectBranch (entries d) (activeLeafId d))"

section \<open>Appending entries\<close>

fun recordBody :: "message_record \<Rightarrow> entry_body" where
  "recordBody r =
     (case recordKind r of
        UserRecord atts \<Rightarrow>
          UserMessage (recordTurn r) (recordAuthor r) (recordMessage r)
            (if atts = None \<or> atts = Some [] then None else atts) None
      | AgentRecord \<Rightarrow> AgentMessage (recordTurn r) (recordAuthor r) (recordMessage r) None)"

fun sameAttributedMessage :: "entry_body \<Rightarrow> entry_body \<Rightarrow> bool" where
  "sameAttributedMessage (UserMessage t a m x q) (UserMessage t' a' m' x' q') =
     (t = t' \<and> sameJson (Some a) (Some a') \<and> sameJson (Some m) (Some m') \<and>
      sameJson (map_option JArr x) (map_option JArr x'))"
| "sameAttributedMessage (AgentMessage t a m q) (AgentMessage t' a' m' q') =
     (t = t' \<and> sameJson (Some a) (Some a') \<and> sameJson (Some m) (Some m'))"
| "sameAttributedMessage _ _ = False"

definition appendMessageEntry :: "document \<Rightarrow> message_record \<Rightarrow> int \<Rightarrow> doc_error + command_result" where
  "appendMessageEntry d r rv =
     (case toISOString (recordTime r) of
        Inl err \<Rightarrow> Inl err
      | Inr t \<Rightarrow>
          (let e = \<lparr>entryId = recordId r, parentId = activeLeafId d, timestamp = t, body = recordBody r\<rparr>
           in case findEntry (entries d) (recordId r) of
                Some existing \<Rightarrow>
                  (if sameAttributedMessage (body existing) (body e) then Inr (unchanged d)
                   else Inl (EntryExists (recordId r)))
              | None \<Rightarrow>
                  Inr (changed (d\<lparr>revision := rv, entries := entries d @ [e],
                                  activeLeafId := Some (recordId r)\<rparr>))))"

text \<open>The shared tail of the other three append handlers.\<close>

definition appendEntry :: "document \<Rightarrow> entry \<Rightarrow> int \<Rightarrow> command_result" where
  "appendEntry d e rv =
     changed (d\<lparr>revision := rv, entries := entries d @ [e], activeLeafId := Some (entryId e)\<rparr>)"

definition appendCustomEntry ::
    "document \<Rightarrow> string \<Rightarrow> string \<Rightarrow> jsval \<Rightarrow> instant \<Rightarrow> int \<Rightarrow> doc_error + command_result" where
  "appendCustomEntry d k ct v t rv =
     (if k \<in> set (ids (entries d)) then Inl (EntryExists k)
      else Inr (appendEntry d
             \<lparr>entryId = k, parentId = activeLeafId d, timestamp = t, body = Custom ct v\<rparr> rv))"

definition appendBranchSummaryEntry ::
    "document \<Rightarrow> string \<Rightarrow> string option \<Rightarrow> string \<Rightarrow> jsval \<Rightarrow> bool option \<Rightarrow> instant \<Rightarrow> int
      \<Rightarrow> doc_error + command_result" where
  "appendBranchSummaryEntry d k p s dt h t rv =
     (if k \<in> set (ids (entries d)) then Inl (EntryExists k)
      else if truthy p \<and> the p \<notin> set (ids (entries d)) then Inl (EntryNotFound (the p))
      else Inr (appendEntry d
             \<lparr>entryId = k, parentId = p, timestamp = t,
              body = BranchSummary (case p of None \<Rightarrow> ''root'' | Some q \<Rightarrow> q) s dt h\<rparr> rv))"

definition appendLabelEntry ::
    "document \<Rightarrow> string \<Rightarrow> string \<Rightarrow> string option \<Rightarrow> instant \<Rightarrow> int \<Rightarrow> doc_error + command_result" where
  "appendLabelEntry d k tgt l t rv =
     (if k \<in> set (ids (entries d)) then Inl (EntryExists k)
      else if tgt \<notin> set (ids (entries d)) then Inl (EntryNotFound tgt)
      else Inr (appendEntry d
             \<lparr>entryId = k, parentId = activeLeafId d, timestamp = t, body = Label tgt l\<rparr> rv))"

section \<open>Moving the active leaf\<close>

definition setActiveLeaf :: "document \<Rightarrow> string option \<Rightarrow> int \<Rightarrow> doc_error + command_result" where
  "setActiveLeaf d leaf rv =
     (if truthy leaf \<and> the leaf \<notin> set (ids (entries d)) then Inl (EntryNotFound (the leaf))
      else if activeLeafId d = leaf then Inr (unchanged d)
      else Inr (changed (d\<lparr>revision := rv, activeLeafId := leaf\<rparr>)))"

section \<open>Removing entries\<close>

partial_function (option) resolveParent ::
    "entry list \<Rightarrow> string list \<Rightarrow> string option \<Rightarrow> string option option" where
  "resolveParent es removed cur =
     (if truthy cur \<and> the cur \<in> set removed
      then resolveParent es removed (parentIdOf es (the cur)) else Some cur)"

declare resolveParent.simps [code]

text \<open>The replacement for a compaction's removed first-kept entry.\<close>

definition firstKeptReplacement :: "entry list \<Rightarrow> string list \<Rightarrow> string \<Rightarrow> string option" where
  "firstKeptReplacement es removed k =
     map_option (\<lambda>path.
         let start = (case findIndex (\<lambda>e. entryId e \<in> set removed) path of None \<Rightarrow> 0 | Some i \<Rightarrow> i + 1)
         in case find (\<lambda>e. entryId e \<notin> set removed) (drop start path) of
              None \<Rightarrow> k
            | Some r \<Rightarrow> entryId r)
       (selectBranch es (Some k))"

fun firstKeptReplacements ::
    "entry list \<Rightarrow> string list \<Rightarrow> entry list \<Rightarrow> (string \<times> string) list option" where
  "firstKeptReplacements es removed [] = Some []"
| "firstKeptReplacements es removed (e # rest) =
     (case body e of
        Compaction c \<Rightarrow>
          (if firstKeptEntryId c \<in> set removed
           then case firstKeptReplacement es removed (entryId e) of
                  None \<Rightarrow> None
                | Some r \<Rightarrow> map_option ((#) (entryId e, r)) (firstKeptReplacements es removed rest)
           else firstKeptReplacements es removed rest)
      | _ \<Rightarrow> firstKeptReplacements es removed rest)"

text \<open>
  The rewriting of one kept entry. \<open>Map.set\<close> keeps the last replacement of an id, so the
  list of replacements is searched from its end; an empty replacement is ignored.
\<close>

definition rewriteReferences ::
    "entry list \<Rightarrow> string list \<Rightarrow> (string \<times> string) list \<Rightarrow> entry \<Rightarrow> entry option" where
  "rewriteReferences es removed repl e =
     (case body e of
        BranchSummary src s dt h \<Rightarrow>
          (if src \<in> set removed
           then map_option (\<lambda>q. e\<lparr>body := BranchSummary (case q of None \<Rightarrow> ''root'' | Some k \<Rightarrow> k) s dt h\<rparr>)
                  (resolveParent es removed (Some src))
           else Some e)
      | Compaction c \<Rightarrow>
          (let r = map_of (rev repl) (entryId e)
           in Some (if truthy r then e\<lparr>body := Compaction (c\<lparr>firstKeptEntryId := the r\<rparr>)\<rparr> else e))
      | _ \<Rightarrow> Some e)"

definition rewriteEntry ::
    "entry list \<Rightarrow> string list \<Rightarrow> (string \<times> string) list \<Rightarrow> entry \<Rightarrow> entry option" where
  "rewriteEntry es removed repl e =
     (case resolveParent es removed (parentId e) of
        None \<Rightarrow> None
      | Some p \<Rightarrow> rewriteReferences es removed repl (e\<lparr>parentId := p\<rparr>))"

definition rewriteAfterRemoval :: "document \<Rightarrow> string list \<Rightarrow> int \<Rightarrow> document option" where
  "rewriteAfterRemoval d removed rv =
     (let es = entries d
      in case firstKeptReplacements es removed es of
           None \<Rightarrow> None
         | Some repl \<Rightarrow>
             (case those (map (rewriteEntry es removed repl)
                       (filter (\<lambda>e. entryId e \<notin> set removed) es)) of
                None \<Rightarrow> None
              | Some kept \<Rightarrow>
                  map_option (\<lambda>leaf. d\<lparr>revision := rv, entries := kept, activeLeafId := leaf\<rparr>)
                    (if truthy (activeLeafId d) \<and> the (activeLeafId d) \<notin> set removed
                     then Some (activeLeafId d) else resolveParent es removed (activeLeafId d))))"

fun labelsOn :: "string \<Rightarrow> entry_body \<Rightarrow> bool" where
  "labelsOn k (Label tgt l) = (tgt = k)"
| "labelsOn k _ = False"

definition deleteMessage :: "document \<Rightarrow> string \<Rightarrow> int \<Rightarrow> outcome" where
  "deleteMessage d k rv =
     (case conversationDocumentEntry d k of
        Inl err \<Rightarrow> Some (Inl err)
      | Inr e \<Rightarrow>
          (if \<not> isMessageBody (body e) then Some (Inl (NotMessage k))
           else map_option (\<lambda>d'. Inr (changed d'))
                  (rewriteAfterRemoval d (k # ids (filter (\<lambda>c. labelsOn k (body c)) (entries d))) rv)))"

definition childIds :: "entry list \<Rightarrow> string \<Rightarrow> string list" where
  "childIds es k = ids (filter (\<lambda>c. truthy (parentId c) \<and> parentId c = Some k) es)"

text \<open>
  The depth-first collection of a subtree. The stack's top is the head of the list, so
  pushing the children in order puts the last child on top.
\<close>

function collectSubtree :: "entry list \<Rightarrow> string list \<Rightarrow> string list \<Rightarrow> string list" where
  "collectSubtree es removed [] = removed"
| "collectSubtree es removed (k # stack) =
     (if k = [] \<or> k \<in> set removed then collectSubtree es removed stack
      else collectSubtree es (k # removed) (rev (childIds es k) @ stack))"
  by pat_completeness auto
termination
proof (relation "measures [\<lambda>(es, removed, stack). card ((set stack \<union> set (ids es)) - set removed),
    \<lambda>(es, removed, stack). length stack]", simp)
  fix es :: "entry list" and removed k :: "string list" and stack
  show "((es, removed, stack), es, removed, k # stack)
      \<in> measures [\<lambda>(es, removed, stack). card ((set stack \<union> set (ids es)) - set removed),
          \<lambda>(es, removed, stack). length stack]" if "k = [] \<or> k \<in> set removed" for k
  proof -
    have "card ((set stack \<union> set (ids es)) - set removed) \<le> card ((set (k # stack) \<union> set (ids es)) - set removed)"
      by (intro card_mono) auto
    then show ?thesis by auto
  qed
next
  fix es :: "entry list" and removed :: "string list" and k stack
  assume new: "\<not> (k = [] \<or> k \<in> set removed)"
  have "(set (rev (childIds es k) @ stack) \<union> set (ids es)) - set (k # removed)
      \<subset> (set (k # stack) \<union> set (ids es)) - set removed"
    using new by (auto simp: childIds_def)
  then have "card ((set (rev (childIds es k) @ stack) \<union> set (ids es)) - set (k # removed))
      < card ((set (k # stack) \<union> set (ids es)) - set removed)"
    by (intro psubset_card_mono) auto
  then show "((es, k # removed, rev (childIds es k) @ stack), es, removed, k # stack)
      \<in> measures [\<lambda>(es, removed, stack). card ((set stack \<union> set (ids es)) - set removed),
          \<lambda>(es, removed, stack). length stack]"
    by simp
qed

fun addLabels :: "string list \<Rightarrow> entry list \<Rightarrow> string list" where
  "addLabels removed [] = removed"
| "addLabels removed (e # rest) =
     (case body e of
        Label tgt l \<Rightarrow> addLabels (if tgt \<in> set removed then entryId e # removed else removed) rest
      | _ \<Rightarrow> addLabels removed rest)"

definition replaceLastUserTurn :: "document \<Rightarrow> string \<Rightarrow> int \<Rightarrow> outcome" where
  "replaceLastUserTurn d k rv =
     (case conversationDocumentEntry d k of
        Inl err \<Rightarrow> Some (Inl err)
      | Inr e \<Rightarrow>
          (if \<not> isUserEntry e then Some (Inl (NotUserMessage k))
           else case selectBranch (entries d) (activeLeafId d) of
                  None \<Rightarrow> None
                | Some branch \<Rightarrow>
                    (if map_option entryId (find isUserEntry (rev branch)) \<noteq> Some k
                     then Some (Inl (NotLastUserMessage k))
                     else map_option (\<lambda>d'.
                              Inr (changed (d'\<lparr>activeLeafId :=
                                (if truthy (parentId e) \<and> the (parentId e) \<in> set (ids (entries d'))
                                 then parentId e else None)\<rparr>)))
                            (rewriteAfterRemoval d
                               (addLabels (collectSubtree (entries d) [] [k]) (entries d)) rv))))"

section \<open>The command interpreter\<close>

definition returned :: "doc_error + command_result \<Rightarrow> outcome" where
  "returned r = Some r"

fun dispatchCommand :: "document \<Rightarrow> command \<Rightarrow> int \<Rightarrow> outcome" where
  "dispatchCommand d (ActiveLeafSet leaf) rv = returned (setActiveLeaf d leaf rv)"
| "dispatchCommand d (BranchSelect k) rv =
     (case resolveSubtreeTip (entries d) k of
        None \<Rightarrow> None
      | Some (Inl err) \<Rightarrow> Some (Inl err)
      | Some (Inr tip) \<Rightarrow> returned (setActiveLeaf d (Some tip) rv))"
| "dispatchCommand d (MessageDelete k) rv = deleteMessage d k rv"
| "dispatchCommand d (UserTurnReplace k) rv = replaceLastUserTurn d k rv"
| "dispatchCommand d (MessageAppend r) rv = returned (appendMessageEntry d r rv)"
| "dispatchCommand d (BranchSummaryAppend k p s dt h t) rv =
     returned (appendBranchSummaryEntry d k p s dt h t rv)"
| "dispatchCommand d (CustomAppend k ct v t) rv = returned (appendCustomEntry d k ct v t rv)"
| "dispatchCommand d (SessionNameSet n) rv =
     returned (Inr (changed (d\<lparr>revision := rv, docName := Some (trim n)\<rparr>)))"
| "dispatchCommand d (EntryLabelSet k tgt l t) rv = returned (appendLabelEntry d k tgt l t rv)"

text \<open>The optional argument is the revision the caller expects to write.\<close>

definition applyConversationDocumentCommand :: "document \<Rightarrow> command \<Rightarrow> int option \<Rightarrow> outcome" where
  "applyConversationDocumentCommand d cmd rv =
     (let r = (case rv of None \<Rightarrow> revision d + 1 | Some n \<Rightarrow> n)
      in if r \<noteq> revision d + 1 then Some (Inl (RevisionMismatch r (revision d)))
         else dispatchCommand d cmd r)"

end
