(* ===== verification/DocumentInvariant.thy ===== *)
theory DocumentInvariant
  imports Commands
begin

text \<open>
  The invariant of conversation documents and its preservation. \<open>wellFormed\<close> is what
  \<open>assertConversationDocumentGraph\<close> checks, plus three facts the check leaves out: no id
  or parent reference is the empty string, and no label labels another label.
\<close>

section \<open>Well-formed documents\<close>

definition plainIds :: "entry list \<Rightarrow> bool" where
  "plainIds es = (\<forall>e \<in> set es. entryId e \<noteq> [] \<and> parentId e \<noteq> Some [])"

definition labelsFlat :: "entry list \<Rightarrow> bool" where
  "labelsFlat es =
     (\<forall>l \<in> set es. \<forall>e \<in> set es. isLabelBody (body l) \<longrightarrow> targetId (body l) = entryId e \<longrightarrow> \<not> isLabelBody (body e))"

definition wellFormedTree :: "entry list \<Rightarrow> string option \<Rightarrow> bool" where
  "wellFormedTree es leaf = (graphOk es leaf \<and> plainIds es \<and> labelsFlat es \<and> leaf \<noteq> Some [])"

definition wellFormed :: "document \<Rightarrow> bool" where
  "wellFormed d = wellFormedTree (entries d) (activeLeafId d)"

lemma wellFormedTreeD:
  assumes "wellFormedTree es leaf"
  shows "distinct (ids es)" "parentsOk es" "acyclic_tree es" "\<forall>e \<in> set es. refsOk es e" "leafOk es leaf"
    "plainIds es" "labelsFlat es" "leaf \<noteq> Some []"
  using assms graphOkD [of es leaf] by (auto simp: wellFormedTree_def)

lemma plain_truthy: "plainIds es \<Longrightarrow> e \<in> set es \<Longrightarrow> truthy (parentId e) \<longleftrightarrow> parentId e \<noteq> None"
  by (cases "parentId e") (auto simp: plainIds_def)

lemma empty_wellFormed: "wellFormed (createEmptyConversationDocument i)"
  by (simp add: wellFormed_def wellFormedTree_def graphOk_def createEmptyConversationDocument_def parentsOk_def
      leafOk_def plainIds_def labelsFlat_def acyclic_tree_def ranked_def)

section \<open>Appending a fresh entry\<close>

lemma parentIdOf_append_old: "k \<noteq> entryId e \<Longrightarrow> parentIdOf (es @ [e]) k = parentIdOf es k"
  by (simp add: parentIdOf_def byId_append_old)

lemma parentIdOf_fresh: "k \<notin> set (ids es) \<Longrightarrow> parentIdOf es k = None"
  using byId_None [of es k] by (simp add: parentIdOf_def)

lemma reach_append:
  assumes "reach es cur a" "entryId e \<notin> set (ids es)"
  shows "reach (es @ [e]) cur a"
  using assms(1)
proof (induction rule: reach.induct)
  case (here k)
  then show ?case by (rule reach.here)
next
  case (up k a)
  then have "k \<noteq> entryId e" using assms(2) parentIdOf_fresh [of "entryId e" es] by auto
  with up show ?case by (auto intro: reach.up simp: parentIdOf_append_old)
qed

lemma refsOk_append:
  assumes "refsOk es x" "entryId e \<notin> set (ids es)"
  shows "refsOk (es @ [e]) x"
  using assms reach_append [OF _ assms(2)] by (auto simp: refsOk.simps split: entry_body.splits)

lemma acyclic_append:
  assumes ac: "acyclic_tree es" and par: "parentsOk es" and new: "entryId e \<notin> set (ids es)"
    and p: "truthy (parentId e) \<Longrightarrow> the (parentId e) \<in> set (ids es)"
  shows "acyclic_tree (es @ [e])"
proof -
  obtain rank where r: "ranked es rank" using ac by (auto simp: acyclic_tree_def)
  let ?rank = "rank(entryId e := Suc (rank (the (parentId e))))"
  have "?rank (the (parentId x)) < ?rank (entryId x)"
    if x: "x \<in> set (es @ [e])" and t: "truthy (parentId x)" for x
  proof (cases "x \<in> set es")
    case True
    then have "entryId x \<noteq> entryId e" "the (parentId x) \<noteq> entryId e"
      using new par t unfolding parentsOk_def by (auto, metis imageI, metis imageI)
    with True r t show ?thesis by (simp add: ranked_def)
  next
    case False
    with x have "x = e" by simp
    moreover from this t p have "the (parentId e) \<noteq> entryId e" using new by auto
    ultimately show ?thesis by simp
  qed
  then show ?thesis unfolding acyclic_tree_def ranked_def by blast
qed

lemma wellFormed_append:
  assumes wf: "wellFormedTree es leaf" and new: "entryId e \<notin> set (ids es)"
    and p: "truthy (parentId e) \<Longrightarrow> the (parentId e) \<in> set (ids es)"
    and plain: "entryId e \<noteq> []" "parentId e \<noteq> Some []"
    and refs: "refsOk (es @ [e]) e"
    and flat: "isLabelBody (body e) \<Longrightarrow>
      targetId (body e) \<in> set (ids es) \<and> (\<forall>x \<in> set es. entryId x = targetId (body e) \<longrightarrow> \<not> isLabelBody (body x))"
  shows "wellFormedTree (es @ [e]) (Some (entryId e))"
proof -
  note w = wellFormedTreeD [OF wf]
  have tgt: "targetId (body l) \<in> set (ids es)" if "l \<in> set (es @ [e])" "isLabelBody (body l)" for l
    using w(4) that flat by (cases "body l") (auto simp: refsOk.simps)
  have "\<not> isLabelBody (body x)"
    if l: "l \<in> set (es @ [e])" "isLabelBody (body l)" and x: "x \<in> set (es @ [e])" "targetId (body l) = entryId x"
    for l x
  proof -
    have xs: "x \<in> set es" using tgt [OF l] new x by auto
    show ?thesis
    proof (cases "l = e")
      case True
      have "\<forall>y \<in> set es. entryId y = targetId (body e) \<longrightarrow> \<not> isLabelBody (body y)"
        using flat l(2) True by blast
      with xs x(2) True show ?thesis by simp
    next
      case False
      with l(1) have "l \<in> set es" by simp
      with w(7) xs l(2) x(2) show ?thesis unfolding labelsFlat_def by blast
    qed
  qed
  then have "labelsFlat (es @ [e])" unfolding labelsFlat_def by blast
  moreover have "parentsOk (es @ [e])" using w(2) p by (auto simp: parentsOk_def)
  moreover have "acyclic_tree (es @ [e])" using w p new by (intro acyclic_append) auto
  moreover have "\<forall>x \<in> set (es @ [e]). refsOk (es @ [e]) x"
    using w(4) refs refsOk_append [OF _ new] by auto
  ultimately show ?thesis
    using w plain new by (auto simp: wellFormedTree_def graphOk_def plainIds_def leafOk_def)
qed

section \<open>Ranks and reachability\<close>

lemma reach_rank:
  assumes "reach es cur a" "ranked es rank"
  shows "rank a \<le> rank (the cur)"
  using assms
proof (induction rule: reach.induct)
  case (here k)
  then show ?case by simp
next
  case (up k a)
  then have "truthy (parentIdOf es k)" by (subst (asm) reach_step) simp
  then obtain q where q: "parentIdOf es k = Some q" "q \<noteq> []" by (auto simp: truthy_iff)
  then obtain e where "e \<in> set es" "entryId e = k" "parentId e = Some q" using parentIdOf_mem by blast
  with up.prems q have "rank q < rank k" by (force simp: ranked_def)
  with up q show ?case by simp
qed

lemma reach_mem:
  assumes "reach es cur a" "parentsOk es" "the cur \<in> set (ids es)"
  shows "a \<in> set (ids es)"
  using assms
proof (induction rule: reach.induct)
  case (here k)
  then show ?case by simp
next
  case (up k a)
  then have "truthy (parentIdOf es k)" by (subst (asm) reach_step) simp
  then obtain q where q: "parentIdOf es k = Some q" "q \<noteq> []" by (auto simp: truthy_iff)
  then obtain e where "e \<in> set es" "parentId e = Some q" using parentIdOf_mem by blast
  with up q show ?case by (force simp: parentsOk_def)
qed

lemma upPath_reach:
  "upPath es (Some c) p \<Longrightarrow> entryId c \<noteq> [] \<Longrightarrow> c \<in> set es \<Longrightarrow> distinct (ids es) \<Longrightarrow> e \<in> set p
    \<Longrightarrow> reach es (Some (entryId c)) (entryId e)"
proof (induction p arbitrary: c)
  case Nil
  then show ?case by simp
next
  case (Cons a p)
  show ?case
  proof (cases "e = a")
    case True
    with Cons.prems show ?thesis by (auto intro: reach.here)
  next
    case False
    with Cons.prems have "e \<in> set p" and up: "upPath es (lookupEntry es (parentId c)) p" by auto
    then obtain u where u: "lookupEntry es (parentId c) = Some u" by (cases p) auto
    then have "u \<in> set es" "parentId c = Some (entryId u)" "entryId u \<noteq> []"
      by (auto dest: lookupEntry_Some)
    moreover have "parentIdOf es (entryId c) = parentId c" using Cons.prems by (simp add: parentIdOf_eq)
    ultimately show ?thesis
      using Cons.IH [of u] up u \<open>e \<in> set p\<close> Cons.prems by (auto intro: reach.up)
  qed
qed

section \<open>Skipping removed ancestors\<close>

lemma resolveParent_Some:
  assumes "acyclic_tree es"
  obtains q where "resolveParent es R cur = Some q"
    "truthy q \<Longrightarrow> reach es cur (the q) \<and> the q \<notin> set R"
    "\<And>a. reach es cur a \<Longrightarrow> a \<notin> set R \<Longrightarrow> reach es q a"
proof -
  obtain ks where "idPath es cur ks" using acyclic_idPath [OF assms] by blast
  then have "\<exists>q. resolveParent es R cur = Some q \<and>
      (truthy q \<longrightarrow> reach es cur (the q) \<and> the q \<notin> set R) \<and>
      (\<forall>a. reach es cur a \<longrightarrow> a \<notin> set R \<longrightarrow> reach es q a)"
  proof (induction ks arbitrary: cur)
    case Nil
    then show ?case by (subst resolveParent.simps) auto
  next
    case (Cons k ks)
    show ?case
    proof (cases "k \<in> set R")
      case False
      with Cons.prems show ?thesis
        by (subst resolveParent.simps) (auto intro: reach.here)
    next
      case True
      from Cons.IH [of "parentIdOf es k"] Cons.prems obtain q where
        q: "resolveParent es R (parentIdOf es k) = Some q"
          "truthy q \<longrightarrow> reach es (parentIdOf es k) (the q) \<and> the q \<notin> set R"
          "\<forall>a. reach es (parentIdOf es k) a \<longrightarrow> a \<notin> set R \<longrightarrow> reach es q a" by auto
      have "resolveParent es R cur = Some q"
        using True q(1) Cons.prems by (subst resolveParent.simps) simp
      moreover have "reach es q a" if "reach es cur a" "a \<notin> set R" for a
        using that q(3) Cons.prems True by (auto elim: reach_SomeE)
      moreover have "truthy q \<longrightarrow> reach es cur (the q) \<and> the q \<notin> set R"
        using q(2) Cons.prems by (auto intro: reach.up)
      ultimately show ?thesis by blast
    qed
  qed
  then show thesis using that by blast
qed

lemma resolveParent_plain:
  assumes "acyclic_tree es" "plainIds es" "cur \<noteq> Some []" "resolveParent es R cur = Some q"
  shows "q \<noteq> Some []"
proof -
  obtain ks where "idPath es cur ks" using acyclic_idPath [OF assms(1)] by blast
  then show ?thesis using assms(3,4)
  proof (induction ks arbitrary: cur)
    case Nil
    then show ?case by (subst (asm) resolveParent.simps) auto
  next
    case (Cons k ks)
    have "parentIdOf es k \<noteq> Some []"
      using assms(2) parentIdOf_mem [of es k "[]"] by (auto simp: plainIds_def)
    with Cons show ?case by (subst (asm) (2) resolveParent.simps) (auto split: if_splits)
  qed
qed

end
