(* ===== verification/DocumentRemoval.thy ===== *)
theory DocumentRemoval
  imports DocumentInvariant
begin

text \<open>
  What \<open>rewriteAfterRemoval\<close> does to a well-formed document: it returns, it keeps the
  ancestor relation between the entries it keeps, and the result is well-formed.
\<close>

section \<open>Replacements of first-kept references\<close>

lemma firstKeptReplacement_total: "acyclic_tree es \<Longrightarrow> firstKeptReplacement es R k \<noteq> None"
  using acyclic_walkUp [of es "Some k" "[]"] by (auto simp: firstKeptReplacement_def selectBranch_def)

lemma firstKeptReplacements_total:
  "acyclic_tree es \<Longrightarrow> \<exists>repl. firstKeptReplacements es R rest = Some repl \<and>
     (\<forall>k r. (k, r) \<in> set repl \<longleftrightarrow>
        (\<exists>e \<in> set rest. \<exists>c. entryId e = k \<and> body e = Compaction c \<and>
           firstKeptEntryId c \<in> set R \<and> firstKeptReplacement es R k = Some r))"
proof (induction rest)
  case Nil
  then show ?case by simp
next
  case (Cons e rest)
  then obtain repl where repl: "firstKeptReplacements es R rest = Some repl"
    "\<forall>k r. (k, r) \<in> set repl \<longleftrightarrow> (\<exists>e \<in> set rest. \<exists>c. entryId e = k \<and> body e = Compaction c \<and>
       firstKeptEntryId c \<in> set R \<and> firstKeptReplacement es R k = Some r)" by blast
  obtain r where "firstKeptReplacement es R (entryId e) = Some r"
    using firstKeptReplacement_total [OF Cons.prems] by blast
  with repl show ?case by (cases "body e") auto
qed

lemma firstKeptReplacement_kept:
  assumes d: "distinct (ids es)" and c: "c \<in> set es" "entryId c \<noteq> []" "entryId c \<notin> set R"
    and r: "firstKeptReplacement es R (entryId c) = Some r"
  shows "r \<notin> set R" "reach es (Some (entryId c)) r"
proof -
  have look: "lookupEntry es (Some (entryId c)) = Some c"
    using d c by (simp add: lookupEntry_def byId_eq)
  from r obtain path where path: "selectBranch es (Some (entryId c)) = Some path"
    by (auto simp: firstKeptReplacement_def)
  then obtain p where p: "upPath es (Some c) p" "path = rev p"
    using look by (auto simp: selectBranch_def walkUp_iff)
  then obtain p' where p': "p = c # p'" by (cases p) auto
  define start where "start = (case findIndex (\<lambda>e. entryId e \<in> set R) path of None \<Rightarrow> 0 | Some i \<Rightarrow> i + 1)"
  have "start \<le> length p'"
  proof (cases "findIndex (\<lambda>e. entryId e \<in> set R) path")
    case None
    then show ?thesis by (simp add: start_def)
  next
    case (Some i)
    then have "i < length path" "entryId (path ! i) \<in> set R" using findIndex_Some by fastforce+
    moreover have "path ! length p' = c" using p p' by (simp add: nth_append)
    ultimately have "i \<noteq> length p'" using c by auto
    with \<open>i < length path\<close> p p' Some show ?thesis by (simp add: start_def)
  qed
  then have drop: "drop start path = drop start (rev p') @ [c]" using p p' by simp
  from r path have find: "(case find (\<lambda>e. entryId e \<notin> set R) (drop start path) of
      None \<Rightarrow> entryId c | Some r \<Rightarrow> entryId r) = r"
    by (simp add: firstKeptReplacement_def start_def)
  have "find (\<lambda>e. entryId e \<notin> set R) (drop start path) \<noteq> None"
    using c(3) by (auto simp: drop find_None_iff)
  then obtain x where x: "find (\<lambda>e. entryId e \<notin> set R) (drop start path) = Some x" by blast
  then have "entryId x \<notin> set R" "x \<in> set (drop start path)"
    by (auto dest: find_SomeD)
  moreover from this have "x \<in> set p" using p by (auto dest: in_set_dropD)
  moreover have "entryId x = r" using find x by simp
  ultimately show "r \<notin> set R" "reach es (Some (entryId c)) r"
    using upPath_reach [OF p(1) c(2,1) d] by auto
qed

section \<open>Rewriting one entry\<close>

text \<open>What becomes of the body of a kept entry.\<close>

definition rewrittenBody ::
    "entry list \<Rightarrow> string list \<Rightarrow> (string \<times> string) list \<Rightarrow> entry \<Rightarrow> entry_body" where
  "rewrittenBody es R repl e =
     (case body e of
        BranchSummary src s dt h \<Rightarrow>
          (if src \<in> set R
           then BranchSummary (case the (resolveParent es R (Some src)) of None \<Rightarrow> ''root'' | Some k \<Rightarrow> k) s dt h
           else body e)
      | Compaction c \<Rightarrow>
          (let r = map_of (rev repl) (entryId e)
           in if truthy r then Compaction (c\<lparr>firstKeptEntryId := the r\<rparr>) else body e)
      | b \<Rightarrow> b)"

definition rewrittenEntry ::
    "entry list \<Rightarrow> string list \<Rightarrow> (string \<times> string) list \<Rightarrow> entry \<Rightarrow> entry" where
  "rewrittenEntry es R repl e =
     e\<lparr>parentId := the (resolveParent es R (parentId e)), body := rewrittenBody es R repl e\<rparr>"

lemma rewriteEntry_total:
  assumes ac: "acyclic_tree es"
  shows "rewriteEntry es R repl e = Some (rewrittenEntry es R repl e)"
proof -
  obtain p where p: "resolveParent es R (parentId e) = Some p" by (rule resolveParent_Some [OF ac])
  have b: "\<exists>q. resolveParent es R (Some src) = Some q" for src
    by (rule resolveParent_Some [OF ac, of R "Some src"]) blast
  show ?thesis
  proof (cases "body e")
    case (BranchSummary src s dt h)
    from b obtain q where "resolveParent es R (Some src) = Some q" by blast
    with p BranchSummary show ?thesis
      by (simp add: rewriteEntry_def rewriteReferences_def rewrittenEntry_def rewrittenBody_def)
  qed (simp_all add: p rewriteEntry_def rewriteReferences_def rewrittenEntry_def rewrittenBody_def Let_def)
qed

lemma rewrittenEntry_simps [simp]:
  "entryId (rewrittenEntry es R repl e) = entryId e"
  "timestamp (rewrittenEntry es R repl e) = timestamp e"
  "body (rewrittenEntry es R repl e) = rewrittenBody es R repl e"
  by (simp_all add: rewrittenEntry_def)

lemma rewrittenBody_label:
  "isLabelBody (rewrittenBody es R repl e) = isLabelBody (body e)"
  "isLabelBody (body e) \<Longrightarrow> rewrittenBody es R repl e = body e"
  by (cases "body e"; simp add: rewrittenBody_def Let_def)+

lemma rewrittenBody_message:
  "isMessageBody (body e) \<Longrightarrow> rewrittenBody es R repl e = body e"
  by (cases "body e"; simp add: rewrittenBody_def)

section \<open>The entries that stay\<close>

definition keptEntries :: "entry list \<Rightarrow> string list \<Rightarrow> (string \<times> string) list \<Rightarrow> entry list" where
  "keptEntries es R repl = map (rewrittenEntry es R repl) (filter (\<lambda>e. entryId e \<notin> set R) es)"

lemma ids_keptEntries: "ids (keptEntries es R repl) = filter (\<lambda>k. k \<notin> set R) (ids es)"
  by (simp add: keptEntries_def comp_def filter_map)

lemma kept_mem:
  "x \<in> set (keptEntries es R repl) \<longleftrightarrow>
     (\<exists>e \<in> set es. entryId e \<notin> set R \<and> x = rewrittenEntry es R repl e)"
  by (auto simp: keptEntries_def)

lemma kept_parent:
  assumes "distinct (ids es)" "e \<in> set es" "entryId e \<notin> set R"
  shows "parentIdOf (keptEntries es R repl) (entryId e) = the (resolveParent es R (parentId e))"
proof -
  have "distinct (ids (keptEntries es R repl))" using assms(1) by (simp add: ids_keptEntries)
  moreover have "rewrittenEntry es R repl e \<in> set (keptEntries es R repl)" using assms by (auto simp: kept_mem)
  ultimately show ?thesis
    using parentIdOf_eq [of "keptEntries es R repl" "rewrittenEntry es R repl e"]
    by (simp add: rewrittenEntry_def)
qed

text \<open>Between kept entries the ancestor relation is the one there was.\<close>

lemma reach_kept:
  assumes wf: "distinct (ids es)" "acyclic_tree es" "parentsOk es"
    and ab: "reach es (Some a) b" "a \<in> set (ids es)" "a \<notin> set R" "b \<notin> set R"
  shows "reach (keptEntries es R repl) (Some a) b"
proof -
  obtain rank where r: "ranked es rank" using wf by (auto simp: acyclic_tree_def)
  show ?thesis using ab
  proof (induction "rank a" arbitrary: a rule: less_induct)
    case less
    then have "a \<noteq> []" by (auto elim: reach_SomeE)
    show ?case
    proof (cases "a = b")
      case True
      with \<open>a \<noteq> []\<close> show ?thesis by (auto intro: reach.here)
    next
      case False
      from less obtain e where e: "e \<in> set es" "entryId e = a" by auto
      then have par: "parentIdOf es a = parentId e" using wf by (auto simp: parentIdOf_eq)
      with less False have up: "reach es (parentId e) b" by (auto elim: reach_SomeE)
      obtain q where q: "resolveParent es R (parentId e) = Some q"
        "truthy q \<Longrightarrow> reach es (parentId e) (the q) \<and> the q \<notin> set R" "reach es q b"
        using resolveParent_Some [OF wf(2), of R "parentId e"] up less by metis
      then have t: "truthy q" by (subst (asm) (2) reach_step) simp
      have tp: "truthy (parentId e)" using up by (subst (asm) reach_step) simp
      then have "rank (the (parentId e)) < rank a" using r e by (auto simp: ranked_def)
      moreover have "rank (the q) \<le> rank (the (parentId e))" using q t r reach_rank by blast
      moreover have "the q \<in> set (ids es)"
        using q t tp reach_mem [of es "parentId e" "the q"] wf e by (auto simp: parentsOk_def)
      moreover have "q = Some (the q)" using t by (cases q) auto
      ultimately have "reach (keptEntries es R repl) q b"
        using less.hyps [of "the q"] q t less.prems by (metis le_less_trans)
      then show ?thesis
        using kept_parent [of es e R repl] e q wf less.prems \<open>a \<noteq> []\<close> by (auto intro: reach.up)
    qed
  qed
qed

section \<open>The result is well-formed\<close>

text \<open>No kept label is left without its target.\<close>

definition labelClosed :: "entry list \<Rightarrow> string list \<Rightarrow> bool" where
  "labelClosed es R =
     (\<forall>l \<in> set es. isLabelBody (body l) \<longrightarrow> targetId (body l) \<in> set R \<longrightarrow> entryId l \<in> set R)"

lemma resolveParent_kept:
  assumes wf: "wellFormedTree es leaf" and p: "truthy p \<Longrightarrow> the p \<in> set (ids es)" and q: "resolveParent es R p = Some q"
    and t: "truthy q"
  shows "the q \<in> set (ids es)" "the q \<notin> set R"
proof -
  note w = wellFormedTreeD [OF wf]
  have "reach es p (the q) \<and> the q \<notin> set R"
    using resolveParent_Some [OF w(3), of R p] q t by (metis option.inject)
  moreover from this have "truthy p" by (subst (asm) reach_step) simp
  ultimately show "the q \<in> set (ids es)" "the q \<notin> set R" using p w(2) reach_mem by blast+
qed

lemma rewritten_refsOk:
  assumes wf: "wellFormedTree es leaf" and lc: "labelClosed es R"
    and repl: "firstKeptReplacements es R es = Some repl"
    and e: "e \<in> set es" "entryId e \<notin> set R"
  shows "refsOk (keptEntries es R repl) (rewrittenEntry es R repl e)"
proof -
  note w = wellFormedTreeD [OF wf]
  have keep: "k \<in> entryId ` set (keptEntries es R repl) \<longleftrightarrow> k \<in> entryId ` set es \<and> k \<notin> set R" for k
    by (auto simp: kept_mem) (metis image_eqI kept_mem rewrittenEntry_simps(1))
  have old: "refsOk es e" using w(4) e by blast
  show ?thesis
  proof (cases "body e")
    case (Label tgt l)
    with old lc e have "tgt \<in> set (ids es) \<and> tgt \<notin> set R" by (force simp: refsOk.simps labelClosed_def)
    with Label show ?thesis unfolding refsOk.simps by (simp add: keep rewrittenBody_def)
  next
    case (BranchSummary src s dt h)
    with old have src: "src = ''root'' \<or> src \<in> set (ids es)" by (simp add: refsOk.simps)
    obtain q where q: "resolveParent es R (Some src) = Some q" by (rule resolveParent_Some [OF w(3)])
    show ?thesis
    proof (cases "src \<in> set R")
      case False
      with src BranchSummary show ?thesis
        unfolding refsOk.simps by (simp add: keep rewrittenBody_def)
    next
      case True
      have "q = None \<or> (truthy q \<and> the q \<in> set (ids es) \<and> the q \<notin> set R)" if "src \<in> set (ids es)"
      proof -
        from that w(6) have "src \<noteq> []" by (auto simp: plainIds_def)
        then have "q \<noteq> Some []" using resolveParent_plain [OF w(3,6) _ q] by simp
        then show ?thesis using resolveParent_kept [OF wf _ q] that by (cases q) auto
      qed
      moreover have "q = Some ''root'' \<or> q = None \<or> truthy q \<and> the q \<in> set (ids es) \<and> the q \<notin> set R"
        if "src = ''root''" "''root'' \<notin> set (ids es)"
      proof -
        have "parentIdOf es ''root'' = None" using that by (simp add: parentIdOf_fresh)
        then have "q = None"
          using q True that by (simp add: resolveParent.simps [of es R "Some ''root''"] resolveParent.simps [of es R None])
        then show ?thesis by simp
      qed
      ultimately have "q = Some ''root'' \<or> q = None \<or> the q \<in> set (ids es) \<and> the q \<notin> set R"
        using src by blast
      with True q BranchSummary show ?thesis
        unfolding refsOk.simps
        by (auto simp: keep rewrittenBody_def split: option.split)
    qed
  next
    case (Compaction c)
    have ne: "entryId e \<noteq> []" using w(6) e by (simp add: plainIds_def)
    obtain repl' where repl': "firstKeptReplacements es R es = Some repl'"
      "\<forall>k r. (k, r) \<in> set repl' \<longleftrightarrow> (\<exists>e \<in> set es. \<exists>c. entryId e = k \<and> body e = Compaction c \<and>
         firstKeptEntryId c \<in> set R \<and> firstKeptReplacement es R k = Some r)"
      using firstKeptReplacements_total [OF w(3)] by blast
    then have "repl' = repl" using repl by simp
    note mem = repl'(2) [unfolded this, rule_format]
    show ?thesis
    proof (cases "firstKeptEntryId c \<in> set R")
      case True
      obtain r0 where "firstKeptReplacement es R (entryId e) = Some r0"
        using firstKeptReplacement_total [OF w(3)] by blast
      with True e Compaction have "(entryId e, r0) \<in> set repl" by (auto simp: mem)
      then obtain r where r: "map_of (rev repl) (entryId e) = Some r"
        by (metis map_of_eq_None_iff not_None_eq set_rev imageI fst_conv list.set_map)
      then have "(entryId e, r) \<in> set repl" by (metis map_of_SomeD set_rev)
      then have rr: "firstKeptReplacement es R (entryId e) = Some r" by (auto simp: mem)
      note kept = firstKeptReplacement_kept [OF w(1) e(1) ne e(2) rr]
      then have "r \<in> set (ids es)" using w(2) e reach_mem [of es "Some (entryId e)" r] by simp
      moreover from this have "r \<noteq> []" using w(6) by (auto simp: plainIds_def)
      moreover have "reach (keptEntries es R repl) (Some (entryId e)) r"
        using reach_kept [OF w(1,3,2) kept(2)] e kept(1) by simp
      ultimately show ?thesis
        unfolding refsOk.simps using r kept(1) Compaction
        by (simp add: keep rewrittenBody_def)
    next
      case False
      have "(entryId e, r) \<notin> set repl" for r
      proof
        assume "(entryId e, r) \<in> set repl"
        then obtain a k where a: "a \<in> set es" "entryId a = entryId e" "body a = Compaction k"
          "firstKeptEntryId k \<in> set R" by (auto simp: mem)
        then have "a = e" using w(1) e(1) by (simp add: distinct_ids_eq)
        with a Compaction \<open>firstKeptEntryId c \<notin> set R\<close> show False by simp
      qed
      then have none: "map_of (rev repl) (entryId e) = None"
        by (metis map_of_SomeD not_None_eq set_rev)
      have fk: "firstKeptEntryId c \<in> set (ids es)" using old Compaction by (simp add: refsOk.simps)
      have "reach (keptEntries es R repl) (Some (entryId e)) (firstKeptEntryId c) \<or>
          reach (keptEntries es R repl) (Some (firstKeptEntryId c)) (entryId e)"
        using old Compaction False e fk reach_kept [OF w(1,3,2)] by (auto simp: refsOk.simps)
      with none fk False Compaction show ?thesis
        unfolding refsOk.simps by (simp add: keep rewrittenBody_def)
    qed
  qed (simp_all add: refsOk.simps rewrittenBody_def)
qed

lemma kept_acyclic:
  assumes wf: "wellFormedTree es leaf"
  shows "acyclic_tree (keptEntries es R repl)"
proof -
  note w = wellFormedTreeD [OF wf]
  obtain rank where r: "ranked es rank" using w(3) by (auto simp: acyclic_tree_def)
  have "rank (the (parentId x)) < rank (entryId x)"
    if x: "x \<in> set (keptEntries es R repl)" and t: "truthy (parentId x)" for x
  proof -
    from x obtain e where e: "e \<in> set es" "x = rewrittenEntry es R repl e" by (auto simp: kept_mem)
    obtain q where q: "resolveParent es R (parentId e) = Some q"
      "truthy q \<Longrightarrow> reach es (parentId e) (the q) \<and> the q \<notin> set R"
      using resolveParent_Some [OF w(3), of R "parentId e"] by blast
    with e t have re: "reach es (parentId e) (the q)" and xq: "parentId x = q" by (auto simp: rewrittenEntry_def)
    then have "truthy (parentId e)" by (subst (asm) reach_step) simp
    then have "rank (the (parentId e)) < rank (entryId e)" using r e by (auto simp: ranked_def)
    with reach_rank [OF re r] xq e show ?thesis by simp
  qed
  then show ?thesis unfolding acyclic_tree_def ranked_def by blast
qed

lemma rewriteAfterRemoval_eq:
  assumes wf: "wellFormed d"
  shows "\<exists>repl leaf. firstKeptReplacements (entries d) R (entries d) = Some repl \<and>
     resolveParent (entries d) R (activeLeafId d) = Some leaf \<and>
     rewriteAfterRemoval d R rv =
       Some (d\<lparr>revision := rv, entries := keptEntries (entries d) R repl, activeLeafId := leaf\<rparr>)"
proof -
  have ac: "acyclic_tree (entries d)" using wf wellFormedTreeD(3) by (auto simp: wellFormed_def)
  obtain repl where repl: "firstKeptReplacements (entries d) R (entries d) = Some repl"
    using firstKeptReplacements_total [OF ac] by blast
  obtain leaf where leaf: "resolveParent (entries d) R (activeLeafId d) = Some leaf"
    by (rule resolveParent_Some [OF ac])
  have "those (map (rewriteEntry (entries d) R repl) (filter (\<lambda>e. entryId e \<notin> set R) (entries d))) =
      Some (keptEntries (entries d) R repl)"
    by (subst those_map_total) (simp_all add: rewriteEntry_total [OF ac] keptEntries_def)
  moreover have "(if truthy (activeLeafId d) \<and> the (activeLeafId d) \<notin> set R then Some (activeLeafId d)
      else resolveParent (entries d) R (activeLeafId d)) = Some leaf"
    using leaf by (auto simp: resolveParent.simps [of _ _ "activeLeafId d"] split: if_splits)
  ultimately show ?thesis using repl leaf by (simp add: rewriteAfterRemoval_def Let_def)
qed

lemma kept_wellFormed:
  assumes wf: "wellFormedTree es leaf" and lc: "labelClosed es R"
    and repl: "firstKeptReplacements es R es = Some repl" and l: "resolveParent es R leaf = Some leaf'"
  shows "wellFormedTree (keptEntries es R repl) leaf'"
proof -
  note w = wellFormedTreeD [OF wf]
  let ?K = "keptEntries es R repl"
  have "distinct (ids ?K)" using w(1) by (simp add: ids_keptEntries)
  moreover have par: "parentId x \<noteq> Some [] \<and> (truthy (parentId x) \<longrightarrow> the (parentId x) \<in> set (ids ?K))"
    if "x \<in> set ?K" for x
  proof -
    from that obtain e where e: "e \<in> set es" "x = rewrittenEntry es R repl e" by (auto simp: kept_mem)
    obtain q where q: "resolveParent es R (parentId e) = Some q" by (rule resolveParent_Some [OF w(3)])
    have "truthy (parentId e) \<Longrightarrow> the (parentId e) \<in> set (ids es)" using w(2) e by (simp add: parentsOk_def)
    from resolveParent_kept [OF wf this q] resolveParent_plain [OF w(3,6) _ q] w(6) e q show ?thesis
      by (auto simp: ids_keptEntries rewrittenEntry_def plainIds_def)
  qed
  then have "parentsOk ?K" by (simp add: parentsOk_def)
  moreover have "plainIds ?K" using par w(6) by (auto simp: plainIds_def kept_mem)
  moreover have "\<forall>x \<in> set ?K. refsOk ?K x" using rewritten_refsOk [OF wf lc repl] by (auto simp: kept_mem)
  moreover have "labelsFlat ?K"
    unfolding labelsFlat_def
  proof (intro ballI impI)
    fix l x assume "l \<in> set ?K" "x \<in> set ?K" and lb: "isLabelBody (body l)" "targetId (body l) = entryId x"
    then obtain a b where a: "a \<in> set es" "l = rewrittenEntry es R repl a"
      and b: "b \<in> set es" "x = rewrittenEntry es R repl b"
      unfolding kept_mem by blast
    have "isLabelBody (body a)" using lb(1) a(2) by (simp add: rewrittenBody_label(1))
    moreover from this have "body l = body a" using a(2) by (simp add: rewrittenBody_label(2))
    moreover have "entryId x = entryId b" using b(2) by simp
    ultimately have "\<not> isLabelBody (body b)"
      using w(7) a(1) b(1) lb(2) unfolding labelsFlat_def by metis
    then show "\<not> isLabelBody (body x)" using b(2) by (simp add: rewrittenBody_label(1))
  qed
  moreover have "leafOk ?K leaf'"
    using resolveParent_kept [OF wf _ l] w(5) by (auto simp: leafOk_def ids_keptEntries)
  moreover have "leaf' \<noteq> Some []" using resolveParent_plain [OF w(3,6) w(8) l] .
  ultimately show ?thesis using kept_acyclic [OF wf] by (simp add: wellFormedTree_def graphOk_def)
qed

end
