(* ===== verification/DocumentCommands.thy ===== *)
theory DocumentCommands
  imports DocumentRemoval
begin

text \<open>
  What the commands of a conversation document promise: every handler returns on a
  well-formed document and leaves it well-formed, revisions advance by one exactly when the
  document changes, and the functional behaviour of the branch operations.
\<close>

section \<open>Branches\<close>

lemma upPath_chain:
  "upPath es cur p \<Longrightarrow> successively (\<lambda>y x. lookupEntry es (parentId y) = Some x) p \<and>
     (p \<noteq> [] \<longrightarrow> cur = Some (hd p) \<and> lookupEntry es (parentId (last p)) = None)"
proof (induction p arbitrary: cur)
  case Nil
  then show ?case by simp
next
  case (Cons e p)
  then show ?case by (cases p) auto
qed

lemma selectBranch_upPath:
  "selectBranch es leaf = Some b \<longleftrightarrow> upPath es (lookupEntry es leaf) (rev b)"
  unfolding selectBranch_def walkUp_iff by (metis append_Nil2 rev_rev_ident)

lemma selectBranch_total: "acyclic_tree es \<Longrightarrow> \<exists>b. selectBranch es leaf = Some b"
  by (simp add: selectBranch_def acyclic_walkUp)

lemma selectBranch_ids: "selectBranchIds d = map_option ids (selectBranch (entries d) (activeLeafId d))"
  by (simp add: selectBranchIds_def selectBranch_def)

lemma lookup_parent:
  assumes wf: "wellFormedTree es leaf" and e: "e \<in> set es"
  shows "lookupEntry es (parentId e) = None \<longleftrightarrow> parentId e = None"
    "lookupEntry es (parentId e) = Some x \<Longrightarrow> parentId e = Some (entryId x)"
proof -
  note w = wellFormedTreeD [OF wf]
  show "lookupEntry es (parentId e) = None \<longleftrightarrow> parentId e = None"
    using plain_truthy [OF w(6) e] w(2) e lookupEntry_mem [of "parentId e" es]
    by (auto simp: parentsOk_def lookupEntry_def)
  show "lookupEntry es (parentId e) = Some x \<Longrightarrow> parentId e = Some (entryId x)"
    by (auto dest: lookupEntry_Some)
qed

lemma branch_mem:
  assumes "selectBranch es leaf = Some b"
  shows "set b \<subseteq> set es"
proof -
  have "set (rev b) \<subseteq> set es"
    using assms unfolding selectBranch_upPath by (rule upPath_mem) (auto dest: lookupEntry_Some)
  then show ?thesis by simp
qed

lemma successively_rev': "successively P (rev xs) \<longleftrightarrow> successively (\<lambda>x y. P y x) xs"
  by (rule successively_rev)

lemma selectBranch_path:
  assumes wf: "wellFormedTree es leaf" and b: "selectBranch es leaf = Some b"
  shows "successively (\<lambda>x y. parentId y = Some (entryId x)) b"
    "b = [] \<longleftrightarrow> leaf = None" "b \<noteq> [] \<Longrightarrow> parentId (hd b) = None" "b \<noteq> [] \<Longrightarrow> leaf = Some (entryId (last b))"
proof -
  note w = wellFormedTreeD [OF wf]
  have up: "upPath es (lookupEntry es leaf) (rev b)" using b by (simp add: selectBranch_upPath)
  note chain = upPath_chain [OF up]
  have mem: "set b \<subseteq> set es" using branch_mem [OF b] .
  have "successively (\<lambda>x y. lookupEntry es (parentId y) = Some x) b"
    using chain by (simp add: successively_rev)
  then show "successively (\<lambda>x y. parentId y = Some (entryId x)) b"
    by (rule successively_mono) (auto dest: lookupEntry_Some)
  have leaf: "lookupEntry es leaf = None \<longleftrightarrow> leaf = None"
    using w(5,8) lookupEntry_mem [of leaf es] by (cases leaf) (auto simp: leafOk_def)
  show "b = [] \<longleftrightarrow> leaf = None" using up leaf by (cases "rev b") auto
  show "parentId (hd b) = None" if "b \<noteq> []"
    using chain that mem lookup_parent(1) [OF wf, of "hd b"] by (auto simp: last_rev hd_in_set subset_iff)
  show "leaf = Some (entryId (last b))" if "b \<noteq> []"
    using chain that by (auto simp: hd_rev dest: lookupEntry_Some)
qed

section \<open>The deepest descendant\<close>

lemma tipChildren_mem:
  "c \<in> set (tipChildren keep es tip) \<longleftrightarrow> c \<in> set es \<and> parentId c = Some tip \<and> keep c"
  by (auto simp: tipChildren_def childrenOf_def)

lemma tipLoop_total:
  assumes wf: "wellFormedTree es leaf" and tip: "tip \<in> set (ids es)"
  shows "\<exists>t. tipLoop keep es tip = Some t \<and> t \<in> set (ids es) \<and> tipChildren keep es t = [] \<and> reach es (Some t) tip"
proof -
  note w = wellFormedTreeD [OF wf]
  obtain rank where r: "ranked es rank" using w(3) by (auto simp: acyclic_tree_def)
  let ?B = "Max (insert 0 (rank ` set (ids es)))"
  show ?thesis using tip
  proof (induction "?B - rank tip" arbitrary: tip rule: less_induct)
    case less
    have ne: "tip \<noteq> []" using less.prems w(6) by (auto simp: plainIds_def)
    show ?case
    proof (cases "tipChildren keep es tip = []")
      case True
      then have "tipLoop keep es tip = Some tip" by (subst tipLoop.simps) simp
      with True less.prems ne show ?thesis by (auto intro: reach.here)
    next
      case False
      let ?c = "last (tipChildren keep es tip)"
      have c: "?c \<in> set es" "parentId ?c = Some tip"
        using last_in_set [OF False] by (auto simp: tipChildren_mem)
      then have "rank tip < rank (entryId ?c)" using r ne by (force simp: ranked_def)
      moreover have "rank (entryId ?c) \<le> ?B" using c by (intro Max_ge) auto
      ultimately have "?B - rank (entryId ?c) < ?B - rank tip" by linarith
      with less.hyps [of "entryId ?c"] c obtain t where
        t: "tipLoop keep es (entryId ?c) = Some t" "t \<in> set (ids es)" "tipChildren keep es t = []"
          "reach es (Some t) (entryId ?c)" by auto
      have "tipLoop keep es tip = Some t" using False t(1) by (subst tipLoop.simps) simp
      moreover have "reach es (Some (entryId ?c)) tip"
        using c ne w(1,6) by (auto intro!: reach.up reach.here simp: parentIdOf_eq plainIds_def)
      then have "reach es (Some t) tip" using t(4) by (rule reach_trans [rotated])
      ultimately show ?thesis using t by blast
    qed
  qed
qed

lemma resolveSubtreeTip_total:
  assumes wf: "wellFormedTree es leaf"
  shows "\<exists>r. resolveSubtreeTip es k = Some r"
  using tipLoop_total [OF wf, of k notLabel] by (auto simp: resolveSubtreeTip_def)

lemma findEntry_mem: "findEntry es k = Some e \<Longrightarrow> e \<in> set es \<and> entryId e = k"
  by (auto simp: findEntry_def dest: find_SomeD)

lemma findEntry_None: "findEntry es k = None \<longleftrightarrow> k \<notin> set (ids es)"
  by (auto simp: findEntry_def find_None_iff)

section \<open>Every handler returns\<close>

lemma rewriteAfterRemoval_total: "wellFormed d \<Longrightarrow> rewriteAfterRemoval d R rv \<noteq> None"
  using rewriteAfterRemoval_eq by fastforce

lemma dispatch_total:
  assumes wf: "wellFormed d"
  shows "dispatchCommand d cmd rv \<noteq> None"
proof (cases cmd)
  case (BranchSelect k)
  obtain r where "resolveSubtreeTip (entries d) k = Some r"
    using resolveSubtreeTip_total wf unfolding wellFormed_def by blast
  with BranchSelect show ?thesis by (simp add: returned_def split: sum.split)
next
  case (MessageDelete k)
  then show ?thesis
    using rewriteAfterRemoval_total [OF wf] by (simp add: deleteMessage_def split: sum.split)
next
  case (UserTurnReplace k)
  obtain b where "selectBranch (entries d) (activeLeafId d) = Some b"
    using selectBranch_total [of "entries d"] wf wellFormedTreeD(3) unfolding wellFormed_def by blast
  with UserTurnReplace show ?thesis
    using rewriteAfterRemoval_total [OF wf] by (simp add: replaceLastUserTurn_def split: sum.split)
qed (simp_all add: returned_def)

section \<open>Every handler keeps the document well-formed\<close>

text \<open>
  What the callers of the command interpreter guarantee: ids are not empty, and a label is
  put on an entry that is not itself a label.
\<close>

fun commandOk :: "document \<Rightarrow> command \<Rightarrow> bool" where
  "commandOk d (ActiveLeafSet leaf) = (leaf \<noteq> Some [])"
| "commandOk d (MessageAppend r) = (recordId r \<noteq> [])"
| "commandOk d (BranchSummaryAppend k p s dt h t) = (k \<noteq> [] \<and> p \<noteq> Some [])"
| "commandOk d (CustomAppend k ct v t) = (k \<noteq> [])"
| "commandOk d (EntryLabelSet k tgt l t) =
     (k \<noteq> [] \<and> (\<forall>e \<in> set (entries d). entryId e = tgt \<longrightarrow> \<not> isLabelBody (body e)))"
| "commandOk d _ = True"

lemma wellFormed_changed:
  "wellFormed (resultDocument (changed d')) \<longleftrightarrow> wellFormedTree (entries d') (activeLeafId d')"
  by (simp add: changed_def wellFormed_def)

lemma setActiveLeaf_wellFormed:
  assumes "wellFormed d" "leaf \<noteq> Some []" "setActiveLeaf d leaf rv = Inr res"
  shows "wellFormed (resultDocument res)"
  using assms
  by (auto simp: setActiveLeaf_def changed_def unchanged_def wellFormed_def wellFormedTree_def graphOk_def leafOk_def
      split: if_splits)

lemma leaf_parent:
  assumes "wellFormed d"
  shows "truthy (activeLeafId d) \<Longrightarrow> the (activeLeafId d) \<in> set (ids (entries d))" "activeLeafId d \<noteq> Some []"
  using assms by (auto simp: wellFormed_def wellFormedTree_def graphOk_def leafOk_def)

lemma append_wellFormed:
  assumes wf: "wellFormed d" and k: "k \<notin> set (ids (entries d))" "k \<noteq> []"
    and p: "truthy p \<Longrightarrow> the p \<in> set (ids (entries d))" "p \<noteq> Some []"
    and refs: "refsOk (entries d @ [\<lparr>entryId = k, parentId = p, timestamp = t, body = b\<rparr>])
                 \<lparr>entryId = k, parentId = p, timestamp = t, body = b\<rparr>"
    and flat: "isLabelBody b \<Longrightarrow> targetId b \<in> set (ids (entries d)) \<and>
        (\<forall>x \<in> set (entries d). entryId x = targetId b \<longrightarrow> \<not> isLabelBody (body x))"
  shows "wellFormedTree (entries d @ [\<lparr>entryId = k, parentId = p, timestamp = t, body = b\<rparr>]) (Some k)"
  using wellFormed_append [of "entries d" "activeLeafId d" "\<lparr>entryId = k, parentId = p, timestamp = t, body = b\<rparr>"]
    assms by (simp add: wellFormed_def)

lemma appendMessage_wellFormed:
  assumes wf: "wellFormed d" and ne: "recordId r \<noteq> []" and res: "appendMessageEntry d r rv = Inr res"
  shows "wellFormed (resultDocument res)"
proof -
  from res obtain t where t: "toISOString (recordTime r) = Inr t"
    by (auto simp: appendMessageEntry_def split: sum.splits)
  show ?thesis
  proof (cases "findEntry (entries d) (recordId r)")
    case (Some e)
    with res t wf show ?thesis by (auto simp: appendMessageEntry_def Let_def unchanged_def split: if_splits)
  next
    case None
    then have new: "recordId r \<notin> set (ids (entries d))" by (simp add: findEntry_None)
    let ?e = "\<lparr>entryId = recordId r, parentId = activeLeafId d, timestamp = t, body = recordBody r\<rparr>"
    have "wellFormedTree (entries d @ [?e]) (Some (recordId r))"
      by (rule append_wellFormed [OF wf new ne leaf_parent [OF wf]])
        (simp_all add: refsOk.simps split: record_kind.splits)
    with res t None show ?thesis
      by (auto simp: appendMessageEntry_def Let_def changed_def wellFormed_def simp del: recordBody.simps)
  qed
qed

lemma appendEntry_wellFormed:
  assumes "wellFormedTree (entries d @ [e]) (Some (entryId e))"
  shows "wellFormed (resultDocument (appendEntry d e rv))"
  using assms by (simp add: appendEntry_def wellFormed_changed)

lemma appendCustom_wellFormed:
  assumes wf: "wellFormed d" and ne: "k \<noteq> []" and res: "appendCustomEntry d k ct v t rv = Inr res"
  shows "wellFormed (resultDocument res)"
proof -
  from res have new: "k \<notin> set (ids (entries d))"
    and eq: "res = appendEntry d \<lparr>entryId = k, parentId = activeLeafId d, timestamp = t, body = Custom ct v\<rparr> rv"
    by (auto simp: appendCustomEntry_def split: if_splits)
  have "wellFormedTree (entries d @ [\<lparr>entryId = k, parentId = activeLeafId d, timestamp = t, body = Custom ct v\<rparr>])
      (Some k)"
    by (rule append_wellFormed [OF wf new ne leaf_parent [OF wf]]) (simp_all add: refsOk.simps)
  then show ?thesis unfolding eq by (intro appendEntry_wellFormed) simp
qed

lemma appendLabel_wellFormed:
  assumes wf: "wellFormed d" and ok: "commandOk d (EntryLabelSet k tgt l t)"
    and res: "appendLabelEntry d k tgt l t rv = Inr res"
  shows "wellFormed (resultDocument res)"
proof -
  from res have new: "k \<notin> set (ids (entries d))" and tgt: "tgt \<in> set (ids (entries d))"
    and eq: "res = appendEntry d \<lparr>entryId = k, parentId = activeLeafId d, timestamp = t, body = Label tgt l\<rparr> rv"
    by (auto simp: appendLabelEntry_def split: if_splits)
  from ok have ne: "k \<noteq> []" by simp
  have "wellFormedTree (entries d @ [\<lparr>entryId = k, parentId = activeLeafId d, timestamp = t, body = Label tgt l\<rparr>])
      (Some k)"
    by (rule append_wellFormed [OF wf new ne leaf_parent [OF wf]]) (use tgt ok in \<open>simp_all add: refsOk.simps\<close>)
  then show ?thesis unfolding eq by (intro appendEntry_wellFormed) simp
qed

lemma appendBranchSummary_wellFormed:
  assumes wf: "wellFormed d" and ok: "k \<noteq> []" "p \<noteq> Some []"
    and res: "appendBranchSummaryEntry d k p s dt h t rv = Inr res"
  shows "wellFormed (resultDocument res)"
proof -
  let ?b = "BranchSummary (case p of None \<Rightarrow> ''root'' | Some q \<Rightarrow> q) s dt h"
  from res have new: "k \<notin> set (ids (entries d))" and p: "truthy p \<Longrightarrow> the p \<in> set (ids (entries d))"
    and eq: "res = appendEntry d \<lparr>entryId = k, parentId = p, timestamp = t, body = ?b\<rparr> rv"
    by (auto simp: appendBranchSummaryEntry_def split: if_splits)
  have "refsOk (entries d @ [e]) \<lparr>entryId = k, parentId = p, timestamp = t, body = ?b\<rparr>" for e
    using p ok(2) by (cases p) (auto simp: refsOk.simps)
  then have "wellFormedTree (entries d @ [\<lparr>entryId = k, parentId = p, timestamp = t, body = ?b\<rparr>]) (Some k)"
    by (intro append_wellFormed [OF wf new ok(1) p ok(2)]) simp_all
  then show ?thesis unfolding eq by (intro appendEntry_wellFormed) simp
qed

section \<open>Removing a message\<close>

definition labelIdsOn :: "entry list \<Rightarrow> string \<Rightarrow> string list" where
  "labelIdsOn es k = ids (filter (\<lambda>c. labelsOn k (body c)) es)"

lemma labelsOn_iff: "labelsOn k b \<longleftrightarrow> isLabelBody b \<and> targetId b = k"
  by (cases b) auto

lemma flat_target:
  assumes "labelsFlat es" "distinct (ids es)" "l \<in> set es" "isLabelBody (body l)" "m \<in> set es" "isLabelBody (body m)"
  shows "targetId (body l) \<noteq> entryId m"
  using assms unfolding labelsFlat_def by metis

lemma delete_labelClosed:
  assumes wf: "wellFormedTree es leaf"
  shows "labelClosed es (k # labelIdsOn es k)"
  using flat_target [OF wellFormedTreeD(7,1) [OF wf]]
  by (auto simp: labelClosed_def labelIdsOn_def labelsOn_iff)

lemma deleteMessage_cases:
  assumes wf: "wellFormed d" and res: "deleteMessage d k rv = Some (Inr res)"
  obtains repl leaf e where
    "firstKeptReplacements (entries d) (k # labelIdsOn (entries d) k) (entries d) = Some repl"
    "resolveParent (entries d) (k # labelIdsOn (entries d) k) (activeLeafId d) = Some leaf"
    "resultDocument res = d\<lparr>revision := rv,
       entries := keptEntries (entries d) (k # labelIdsOn (entries d) k) repl, activeLeafId := leaf\<rparr>"
    "resultChanged res" "resultLeaf res = leaf"
    "e \<in> set (entries d)" "entryId e = k" "isMessageBody (body e)"
proof -
  let ?R = "k # labelIdsOn (entries d) k"
  obtain repl leaf where r: "firstKeptReplacements (entries d) ?R (entries d) = Some repl"
    "resolveParent (entries d) ?R (activeLeafId d) = Some leaf"
    "rewriteAfterRemoval d ?R rv =
       Some (d\<lparr>revision := rv, entries := keptEntries (entries d) ?R repl, activeLeafId := leaf\<rparr>)"
    using rewriteAfterRemoval_eq [OF wf, of ?R rv] by blast
  from res obtain e where "conversationDocumentEntry d k = Inr e" "isMessageBody (body e)"
    and "rewriteAfterRemoval d ?R rv \<noteq> None" "res = changed (the (rewriteAfterRemoval d ?R rv))"
    by (auto simp: deleteMessage_def labelIdsOn_def split: sum.splits if_splits)
  with r show thesis
    by (intro that [of repl leaf e])
      (auto simp: changed_def conversationDocumentEntry_def split: option.splits dest: findEntry_mem)
qed

lemma deleteMessage_wellFormed:
  assumes wf: "wellFormed d" and res: "deleteMessage d k rv = Some (Inr res)"
  shows "wellFormed (resultDocument res)"
proof (rule deleteMessage_cases [OF assms])
  fix repl leaf
  assume "firstKeptReplacements (entries d) (k # labelIdsOn (entries d) k) (entries d) = Some repl"
    "resolveParent (entries d) (k # labelIdsOn (entries d) k) (activeLeafId d) = Some leaf"
    "resultDocument res = d\<lparr>revision := rv,
       entries := keptEntries (entries d) (k # labelIdsOn (entries d) k) repl, activeLeafId := leaf\<rparr>"
  then show ?thesis
    using wf kept_wellFormed [of "entries d" "activeLeafId d" "k # labelIdsOn (entries d) k"] delete_labelClosed
    by (simp add: wellFormed_def)
qed

section \<open>Replacing the last user turn\<close>

lemma collect_grows: "set removed \<union> (set stack - {[]}) \<subseteq> set (collectSubtree es removed stack)"
  by (induction es removed stack rule: collectSubtree.induct) auto

lemma collect_sound:
  "distinct (ids es) \<Longrightarrow> plainIds es \<Longrightarrow> x \<in> set (collectSubtree es removed stack) \<Longrightarrow>
    x \<in> set removed \<or> (\<exists>s \<in> set stack. reach es (Some x) s)"
proof (induction es removed stack rule: collectSubtree.induct)
  case (1 es removed)
  then show ?case by simp
next
  case (2 es removed k stack)
  show ?case
  proof (cases "k = [] \<or> k \<in> set removed")
    case True
    with 2 show ?thesis by auto
  next
    case False
    with 2 have "x \<in> set (k # removed) \<or> (\<exists>s \<in> set (rev (childIds es k) @ stack). reach es (Some x) s)" by simp
    moreover have "reach es (Some x) k" if "s \<in> set (childIds es k)" "reach es (Some x) s" for s
    proof -
      from that False have "reach es (Some s) k"
        using "2.prems"(1,2)
        by (auto simp: childIds_def plainIds_def parentIdOf_eq intro!: reach.up reach.here)
      with that show ?thesis by (blast intro: reach_trans)
    qed
    ultimately show ?thesis using False by (auto intro: reach.here)
  qed
qed

lemma collect_closed:
  "(\<And>x. x \<in> set removed \<Longrightarrow> set (childIds es x) \<subseteq> set removed \<union> set stack) \<Longrightarrow>
   x \<in> set (collectSubtree es removed stack) \<Longrightarrow> plainIds es \<Longrightarrow>
   set (childIds es x) \<subseteq> set (collectSubtree es removed stack)"
proof (induction es removed stack rule: collectSubtree.induct)
  case (1 es removed)
  then show ?case by force
next
  case (2 es removed k stack)
  show ?case
  proof (cases "k = [] \<or> k \<in> set removed")
    case True
    have "set (childIds es y) \<subseteq> set removed \<union> set stack" if "y \<in> set removed" for y
    proof -
      have "[] \<notin> set (childIds es y)" using "2.prems"(3) by (auto simp: childIds_def plainIds_def)
      with "2.prems"(1) [OF that] True show ?thesis by auto
    qed
    with 2 True show ?thesis by simp
  next
    case False
    have "set (childIds es y) \<subseteq> set (k # removed) \<union> set (rev (childIds es k) @ stack)" if "y \<in> set (k # removed)" for y
      using that "2.prems"(1) [of y] by auto
    with 2 False show ?thesis by simp
  qed
qed

lemma collectSubtree_descendants:
  assumes wf: "wellFormedTree es leaf" and k: "k \<in> set (ids es)"
  shows "set (collectSubtree es [] [k]) = {x. reach es (Some x) k}"
proof
  note w = wellFormedTreeD [OF wf]
  show "set (collectSubtree es [] [k]) \<subseteq> {x. reach es (Some x) k}"
    using collect_sound [OF w(1,6), of _ "[]" "[k]"] by fastforce
  have ne: "k \<noteq> []" using w(6) k by (auto simp: plainIds_def)
  have closed: "set (childIds es x) \<subseteq> set (collectSubtree es [] [k])" if "x \<in> set (collectSubtree es [] [k])" for x
    using collect_closed [of "[]" es "[k]" x] that w(6) by simp
  have "x \<in> set (collectSubtree es [] [k])" if "reach es (Some x) k" for x
  proof -
    have "\<forall>y. cur = Some y \<longrightarrow> y \<in> set (collectSubtree es [] [k])" if "reach es cur a" "a = k" for cur a
      using that
    proof (induction rule: reach.induct)
      case (here y)
      then show ?case using collect_grows [of "[]" "[k]" es] ne by auto
    next
      case (up y a)
      then have "truthy (parentIdOf es y)" by (subst (asm) reach_step) simp
      then obtain q where q: "parentIdOf es y = Some q" "q \<noteq> []" by (auto simp: truthy_iff)
      then obtain e where "e \<in> set es" "entryId e = y" "parentId e = Some q" using parentIdOf_mem by blast
      with q have "y \<in> set (childIds es q)" by (auto simp: childIds_def)
      moreover have "q \<in> set (collectSubtree es [] [k])" using up q by simp
      ultimately show ?case using closed [of q] by blast
    qed
    with that show ?thesis by blast
  qed
  then show "{x. reach es (Some x) k} \<subseteq> set (collectSubtree es [] [k])" by blast
qed

lemma addLabels_flat:
  "(\<And>l m. l \<in> set es \<Longrightarrow> m \<in> set es \<Longrightarrow> isLabelBody (body l) \<Longrightarrow> isLabelBody (body m) \<Longrightarrow>
      targetId (body l) \<noteq> entryId m) \<Longrightarrow>
   set (addLabels R es) = set R \<union> {entryId l | l. l \<in> set es \<and> isLabelBody (body l) \<and> targetId (body l) \<in> set R}"
proof (induction es arbitrary: R)
  case Nil
  then show ?case by simp
next
  case (Cons e es)
  show ?case
  proof (cases "isLabelBody (body e) \<and> targetId (body e) \<in> set R")
    case True
    then have "addLabels R (e # es) = addLabels (entryId e # R) es" by (cases "body e") auto
    moreover have "set (addLabels (entryId e # R) es) = set (entryId e # R) \<union>
        {entryId l | l. l \<in> set es \<and> isLabelBody (body l) \<and> targetId (body l) \<in> set (entryId e # R)}"
      using Cons by simp
    moreover have "targetId (body l) \<noteq> entryId e" if "l \<in> set es" "isLabelBody (body l)" for l
      using Cons.prems [of l e] that True by simp
    ultimately show ?thesis using True by auto
  next
    case False
    then have "addLabels R (e # es) = addLabels R es" by (cases "body e") auto
    with Cons False show ?thesis by auto
  qed
qed

text \<open>The entries that replacing the user turn \<open>k\<close> removes.\<close>

definition inUserTurn :: "entry list \<Rightarrow> string \<Rightarrow> entry \<Rightarrow> bool" where
  "inUserTurn es k e =
     (reach es (Some (entryId e)) k \<or> isLabelBody (body e) \<and> reach es (Some (targetId (body e))) k)"

definition turnRemoval :: "entry list \<Rightarrow> string \<Rightarrow> string list" where
  "turnRemoval es k = addLabels (collectSubtree es [] [k]) es"

lemma turnRemoval_set:
  assumes wf: "wellFormedTree es leaf" and k: "k \<in> set (ids es)"
  shows "set (turnRemoval es k) = {x. reach es (Some x) k} \<union>
     {entryId l | l. l \<in> set es \<and> isLabelBody (body l) \<and> reach es (Some (targetId (body l))) k}"
  unfolding turnRemoval_def
  using addLabels_flat [of es "collectSubtree es [] [k]"] flat_target [OF wellFormedTreeD(7,1) [OF wf]]
    collectSubtree_descendants [OF assms]
  by simp

lemma turnRemoval_iff:
  assumes wf: "wellFormedTree es leaf" and k: "k \<in> set (ids es)" and e: "e \<in> set es"
  shows "entryId e \<in> set (turnRemoval es k) \<longleftrightarrow> inUserTurn es k e"
  using turnRemoval_set [OF wf k] e distinct_ids_eq [OF wellFormedTreeD(1) [OF wf] e]
  by (auto simp: inUserTurn_def)

lemma turn_labelClosed:
  assumes wf: "wellFormedTree es leaf" and k: "k \<in> set (ids es)"
  shows "labelClosed es (turnRemoval es k)"
  unfolding labelClosed_def turnRemoval_set [OF assms]
  using flat_target [OF wellFormedTreeD(7,1) [OF wf]] by blast

lemma wellFormed_leaf:
  assumes "wellFormedTree es leaf" "truthy leaf' \<Longrightarrow> the leaf' \<in> set (ids es)" "leaf' \<noteq> Some []"
  shows "wellFormedTree es leaf'"
  using assms by (simp add: wellFormedTree_def graphOk_def leafOk_def)

lemma replaceLastUserTurn_cases:
  assumes wf: "wellFormed d" and res: "replaceLastUserTurn d k rv = Some (Inr res)"
  obtains repl leaf e where
    "firstKeptReplacements (entries d) (turnRemoval (entries d) k) (entries d) = Some repl"
    "resolveParent (entries d) (turnRemoval (entries d) k) (activeLeafId d) = Some leaf"
    "resultDocument res = d\<lparr>revision := rv,
       entries := keptEntries (entries d) (turnRemoval (entries d) k) repl,
       activeLeafId := (if truthy (parentId e) \<and>
            the (parentId e) \<in> set (ids (keptEntries (entries d) (turnRemoval (entries d) k) repl))
          then parentId e else None)\<rparr>"
    "e \<in> set (entries d)" "entryId e = k" "isUserEntry e"
proof -
  let ?R = "turnRemoval (entries d) k"
  obtain repl leaf where r: "firstKeptReplacements (entries d) ?R (entries d) = Some repl"
    "resolveParent (entries d) ?R (activeLeafId d) = Some leaf"
    "rewriteAfterRemoval d ?R rv =
       Some (d\<lparr>revision := rv, entries := keptEntries (entries d) ?R repl, activeLeafId := leaf\<rparr>)"
    using rewriteAfterRemoval_eq [OF wf, of ?R rv] by blast
  from res obtain e where e: "findEntry (entries d) k = Some e" "isUserEntry e"
    and eq: "res = changed ((the (rewriteAfterRemoval d ?R rv))\<lparr>activeLeafId :=
        (if truthy (parentId e) \<and> the (parentId e) \<in> set (ids (entries (the (rewriteAfterRemoval d ?R rv))))
         then parentId e else None)\<rparr>)"
    by (auto simp: replaceLastUserTurn_def turnRemoval_def conversationDocumentEntry_def
        split: sum.splits if_splits option.splits)
  show thesis
    by (rule that [OF r(1,2), of e]) (use e findEntry_mem in \<open>auto simp: eq r(3) changed_def\<close>)
qed

lemma replaceLastUserTurn_wellFormed:
  assumes wf: "wellFormed d" and res: "replaceLastUserTurn d k rv = Some (Inr res)"
  shows "wellFormed (resultDocument res)"
proof (rule replaceLastUserTurn_cases [OF assms])
  fix repl leaf and e :: entry
  let ?K = "keptEntries (entries d) (turnRemoval (entries d) k) repl"
  let ?leaf = "if truthy (parentId e) \<and> the (parentId e) \<in> set (ids ?K) then parentId e else None"
  assume repl: "firstKeptReplacements (entries d) (turnRemoval (entries d) k) (entries d) = Some repl"
    "resolveParent (entries d) (turnRemoval (entries d) k) (activeLeafId d) = Some leaf"
    and eq: "resultDocument res = d\<lparr>revision := rv, entries := ?K, activeLeafId := ?leaf\<rparr>"
    and e: "e \<in> set (entries d)" "entryId e = k"
  have tree: "wellFormedTree (entries d) (activeLeafId d)" using wf by (simp add: wellFormed_def)
  have k: "k \<in> set (ids (entries d))" using e by auto
  have "wellFormedTree ?K leaf"
    by (rule kept_wellFormed [OF tree turn_labelClosed [OF tree k] repl])
  then have "wellFormedTree ?K ?leaf" by (rule wellFormed_leaf) (auto split: if_splits)
  then show ?thesis unfolding wellFormed_def eq by simp
qed

lemma dispatch_wellFormed:
  assumes wf: "wellFormed d" and ok: "commandOk d cmd" and res: "dispatchCommand d cmd rv = Some (Inr res)"
  shows "wellFormed (resultDocument res)"
proof (cases cmd)
  case (ActiveLeafSet leaf)
  with assms show ?thesis by (auto simp: returned_def intro: setActiveLeaf_wellFormed)
next
  case (BranchSelect k)
  with res obtain tip where tip: "resolveSubtreeTip (entries d) k = Some (Inr tip)"
    "setActiveLeaf d (Some tip) rv = Inr res" by (auto simp: returned_def split: option.splits sum.splits)
  have tree: "wellFormedTree (entries d) (activeLeafId d)" using wf by (simp add: wellFormed_def)
  have "tip \<in> set (ids (entries d))"
    using tip(1) tipLoop_total [OF tree, of k notLabel] by (auto simp: resolveSubtreeTip_def split: if_splits)
  then have "Some tip \<noteq> Some []" using wellFormedTreeD(6) [OF tree] by (auto simp: plainIds_def)
  with tip(2) show ?thesis using setActiveLeaf_wellFormed [OF wf] by blast
next
  case (MessageDelete k)
  with res wf show ?thesis by (simp add: deleteMessage_wellFormed)
next
  case (UserTurnReplace k)
  with res wf show ?thesis by (simp add: replaceLastUserTurn_wellFormed)
next
  case (MessageAppend r)
  with assms show ?thesis by (auto simp: returned_def intro: appendMessage_wellFormed)
next
  case (BranchSummaryAppend k p s dt h t)
  with assms show ?thesis by (auto simp: returned_def intro: appendBranchSummary_wellFormed)
next
  case (CustomAppend k ct v t)
  with assms show ?thesis by (auto simp: returned_def intro: appendCustom_wellFormed)
next
  case (SessionNameSet n)
  with assms show ?thesis by (auto simp: returned_def changed_def wellFormed_def)
next
  case (EntryLabelSet k tgt l t)
  with assms show ?thesis by (auto simp: returned_def intro: appendLabel_wellFormed)
qed

lemma apply_dispatch:
  "applyConversationDocumentCommand d cmd rv = Some (Inr res) \<Longrightarrow>
     dispatchCommand d cmd (revision d + 1) = Some (Inr res) \<and> (rv = None \<or> rv = Some (revision d + 1))"
  by (auto simp: applyConversationDocumentCommand_def Let_def split: option.splits if_splits)

end
