(* ===== verification/DocumentEvents.thy ===== *)
theory DocumentEvents
  imports DocumentCommands
begin

text \<open>
  The projection of stored kernel events to a conversation document, and what it and the
  append handlers do to the active branch and to the model messages read from it.
\<close>

section \<open>The branch after an append\<close>

lemma lookupEntry_append: "p \<noteq> Some (entryId e) \<Longrightarrow> lookupEntry (es @ [e]) p = lookupEntry es p"
  by (cases p) (auto simp: lookupEntry_def byId_append_old)

lemma upPath_append:
  assumes "parentsOk es" "entryId e \<notin> set (ids es)"
  shows "upPath es cur p \<Longrightarrow> set_option cur \<subseteq> set es \<Longrightarrow> upPath (es @ [e]) cur p"
proof (induction p arbitrary: cur)
  case Nil
  then show ?case by simp
next
  case (Cons a p)
  have "parentId a \<noteq> Some (entryId e) \<or> entryId e = []"
    using assms Cons.prems by (auto simp: parentsOk_def)
  then have "lookupEntry (es @ [e]) (parentId a) = lookupEntry es (parentId a)"
    using lookupEntry_append [of "parentId a" e es]
    by (cases "parentId a = Some (entryId e)") (auto simp: lookupEntry_def)
  with Cons show ?case by (auto dest: lookupEntry_Some)
qed

lemma selectBranch_append:
  assumes wf: "wellFormedTree es leaf" and new: "entryId e \<notin> set (ids es)" "entryId e \<noteq> []"
    and p: "parentId e = leaf" and b: "selectBranch es leaf = Some b"
  shows "selectBranch (es @ [e]) (Some (entryId e)) = Some (b @ [e])"
proof -
  note w = wellFormedTreeD [OF wf]
  have "leaf \<noteq> Some (entryId e)" using w(5) new by (auto simp: leafOk_def)
  then have look: "lookupEntry (es @ [e]) leaf = lookupEntry es leaf" by (rule lookupEntry_append)
  have "upPath (es @ [e]) (lookupEntry es leaf) (rev b)"
    using upPath_append [OF w(2) new(1)] b by (auto simp: selectBranch_upPath dest: lookupEntry_Some)
  moreover have "lookupEntry (es @ [e]) (Some (entryId e)) = Some e"
    using new by (simp add: lookupEntry_def byId_append) (simp add: byId_def)
  ultimately show ?thesis using p look by (simp add: selectBranch_upPath)
qed

lemma modelMessages_append:
  assumes wf: "wellFormed d" and new: "entryId e \<notin> set (ids (entries d))" "entryId e \<noteq> []"
    and p: "parentId e = activeLeafId d" and ns: "\<not> summarizes (body e)"
    and ms: "selectConversationDocumentModelMessages d = Some (Inr ms)"
    and d': "entries d' = entries d @ [e]" "activeLeafId d' = Some (entryId e)"
  shows "selectConversationDocumentModelMessages d' = Some (Inr (ms @ projectModelMessages e))"
proof -
  have tree: "wellFormedTree (entries d) (activeLeafId d)" using wf by (simp add: wellFormed_def)
  from ms obtain b where b: "selectBranch (entries d) (activeLeafId d) = Some b"
    and out: "(case findLastIndex (\<lambda>e. summarizes (body e)) b of
           None \<Rightarrow> Inr (concat (map projectModelMessages b))
         | Some i \<Rightarrow> modelMessagesAfter b i (body (b ! i))) = Inr ms"
    by (auto simp: selectConversationDocumentModelMessages_def)
  have b': "selectBranch (entries d') (activeLeafId d') = Some (b @ [e])"
    using selectBranch_append [OF tree new p b] d' by simp
  show ?thesis
  proof (cases "findLastIndex (\<lambda>e. summarizes (body e)) b")
    case None
    with out b' ns show ?thesis
      by (simp add: selectConversationDocumentModelMessages_def findLastIndex_snoc)
  next
    case (Some i)
    then have i: "i < length b" "summarizes (body (b ! i))" using findLastIndex_Some by fastforce+
    then obtain c where c: "body (b ! i) = Compaction c" by (cases "body (b ! i)") auto
    have "modelMessagesAfter (b @ [e]) i (Compaction c) = Inr (ms @ projectModelMessages e)"
      using out Some i(1) c
      by (auto simp: findIndex_append split: if_splits option.splits dest!: findIndex_Some)
    with b' ns Some i c show ?thesis
      by (simp add: selectConversationDocumentModelMessages_def findLastIndex_snoc nth_append)
  qed
qed

section \<open>Accepted events\<close>

text \<open>
  What the storage guarantees of the entry reference it stores with an event: the ids are
  not empty, and a compaction hangs below the leaf that was active.
\<close>

fun referenceOk :: "document \<Rightarrow> event_payload \<Rightarrow> entry_reference option \<Rightarrow> bool" where
  "referenceOk d p None = True"
| "referenceOk d p (Some r) =
     (refId r \<noteq> [] \<and> refParent r \<noteq> Some [] \<and>
      (isPersistentCompactionEvent p \<longrightarrow> refParent r = activeLeafId d))"

lemma eventBody_None: "eventBody p = None \<longleftrightarrow> conversationDocumentEntryPersistence p = NoEntry"
  by (cases p rule: eventBody.cases) auto

lemma applyEvent_cases:
  assumes "applyStoredEventToConversationDocument d ev sq ref = Some (Inr d')"
  obtains (skip) "eventSession ev = sessionId (docIdentity d)" "sq = journalVersion d + 1"
      "eventBody (payload ev) = None" "d' = d\<lparr>journalVersion := sq\<rparr>"
  | (entry) r b where "eventSession ev = sessionId (docIdentity d)" "sq = journalVersion d + 1"
      "eventBody (payload ev) = Some b" "entryReference d ev sq ref = Inr r" "refId r \<notin> set (ids (entries d))"
      "truthy (refParent r) \<Longrightarrow> the (refParent r) \<in> set (ids (entries d))"
      "firstKeptCheck d (payload ev) = Some (Inr ())" "d' = appendEventEntry d (payload ev) sq r"
proof (cases "eventBody (payload ev)")
  case None
  with assms skip show thesis
    by (auto simp: applyStoredEventToConversationDocument_def isConversationDocumentEntryEvent_def
        eventBody_None split: if_splits)
next
  case (Some b)
  with assms entry show thesis
    by (auto simp: applyStoredEventToConversationDocument_def isConversationDocumentEntryEvent_def
        eventBody_None [symmetric] split: if_splits sum.splits option.splits)
qed

lemma appendEventEntry_entry:
  assumes "eventBody p = Some b"
  shows "entries (appendEventEntry d p sq r) =
      entries d @ [\<lparr>entryId = refId r, parentId = refParent r, timestamp = refTime r, body = b\<rparr>]"
    "activeLeafId (appendEventEntry d p sq r) = Some (refId r)"
    "journalVersion (appendEventEntry d p sq r) = sq"
    "revision (appendEventEntry d p sq r) = eventRevision p (revision d)"
    "docIdentity (appendEventEntry d p sq r) = docIdentity d"
  using assms by (simp_all add: appendEventEntry_def)

lemma nativeId_nonempty: "nativeConversationEntryId n \<noteq> []"
  by (simp add: nativeConversationEntryId_def)

lemma entryReference_ok:
  assumes "entryReference d ev sq ref = Inr r" "referenceOk d (payload ev) ref" "activeLeafId d \<noteq> Some []"
  shows "refId r \<noteq> []" "refParent r \<noteq> Some []"
    "isPersistentCompactionEvent (payload ev) \<Longrightarrow> refParent r = activeLeafId d"
  using assms nativeId_nonempty by (auto simp: entryReference_def split: option.splits sum.splits)

lemma branch_reach:
  assumes wf: "wellFormedTree es leaf" and b: "selectBranch es leaf = Some b" and x: "x \<in> set (ids b)"
  shows "reach es leaf x"
proof -
  note w = wellFormedTreeD [OF wf]
  from b have up: "upPath es (lookupEntry es leaf) (rev b)" by (simp add: selectBranch_upPath)
  from x obtain e where e: "e \<in> set b" "entryId e = x" by auto
  with up obtain c where c: "lookupEntry es leaf = Some c" by (cases "rev b") auto
  then have "c \<in> set es" "leaf = Some (entryId c)" "entryId c \<noteq> []" by (auto dest: lookupEntry_Some)
  with upPath_reach [of es c "rev b" e] up c e w(1) show ?thesis by simp
qed

lemma event_refsOk:
  assumes wf: "wellFormedTree es leaf" and e: "eventBody p = Some b" and k: "k \<notin> set (ids es)" "k \<noteq> []"
    and chk: "\<And>c. b = Compaction c \<Longrightarrow>
      par = leaf \<and> (\<exists>br. selectBranch es leaf = Some br \<and> firstKeptEntryId c \<in> set (ids br))"
  shows "refsOk (es @ [\<lparr>entryId = k, parentId = par, timestamp = t, body = b\<rparr>])
    \<lparr>entryId = k, parentId = par, timestamp = t, body = b\<rparr>"
proof (cases "\<exists>c. b = Compaction c")
  case True
  then obtain c where c: "b = Compaction c" by blast
  let ?e = "\<lparr>entryId = k, parentId = par, timestamp = t, body = b\<rparr>"
  note w = wellFormedTreeD [OF wf]
  from chk [OF c] obtain br where br: "par = leaf" "selectBranch es leaf = Some br"
    "firstKeptEntryId c \<in> set (ids br)" by blast
  have mem: "firstKeptEntryId c \<in> set (ids es)" using branch_mem [OF br(2)] br(3) by auto
  have "reach (es @ [?e]) leaf (firstKeptEntryId c)"
    using reach_append [OF branch_reach [OF wf br(2,3)], of ?e] k by simp
  moreover have "parentIdOf (es @ [?e]) k = leaf"
    using br(1) by (simp add: parentIdOf_def byId_append) (simp add: byId_def)
  ultimately have "reach (es @ [?e]) (Some k) (firstKeptEntryId c)" using k by (auto intro: reach.up)
  with c mem show ?thesis by (auto simp: refsOk.simps)
next
  case False
  with e show ?thesis by (cases p rule: eventBody.cases) (auto simp: refsOk.simps)
qed

lemma event_wellFormed:
  assumes wf: "wellFormed d" and ok: "referenceOk d (payload ev) ref"
    and app: "applyStoredEventToConversationDocument d ev sq ref = Some (Inr d')"
  shows "wellFormed d'"
  using app
proof (cases rule: applyEvent_cases)
  case skip
  with wf show ?thesis by (simp add: wellFormed_def)
next
  case (entry r b)
  have tree: "wellFormedTree (entries d) (activeLeafId d)" using wf by (simp add: wellFormed_def)
  note ref = entryReference_ok [OF entry(4) ok leaf_parent(2) [OF wf]]
  have nolabel: "\<not> isLabelBody b" using entry(3) by (cases "payload ev" rule: eventBody.cases) auto
  have "refParent r = activeLeafId d \<and>
      (\<exists>br. selectBranch (entries d) (activeLeafId d) = Some br \<and> firstKeptEntryId c \<in> set (ids br))"
    if "b = Compaction c" for c
  proof -
    from entry(3) that obtain t where p: "payload ev = ContextCompacted t (ContextCompaction c)"
      by (cases "payload ev" rule: eventBody.cases) auto
    with entry(7) show ?thesis using ref(3) by (auto simp: selectBranch_ids split: option.splits if_splits)
  qed
  from event_refsOk [OF tree entry(3,5) ref(1) this]
  have "refsOk (entries d @ [\<lparr>entryId = refId r, parentId = refParent r, timestamp = refTime r, body = b\<rparr>])
      \<lparr>entryId = refId r, parentId = refParent r, timestamp = refTime r, body = b\<rparr>" by blast
  from append_wellFormed [OF wf entry(5) ref(1) entry(6) ref(2) this] nolabel
  show ?thesis unfolding wellFormed_def entry(8) appendEventEntry_entry [OF entry(3)] by blast
qed

end
