(* ===== verification/DocumentProperties.thy ===== *)
theory DocumentProperties
  imports DocumentEvents
begin

text \<open>
  The properties of the conversation document and its commands: the graph check, the
  preservation and termination of the command interpreter, revisions, the removal of
  messages and turns, and the projection of stored events.
\<close>

section \<open>Branches of the kept entries\<close>

lemma truthy_lookup:
  assumes "truthy cur \<Longrightarrow> the cur \<in> set (ids es)"
  shows "lookupEntry es cur = None \<longleftrightarrow> \<not> truthy cur"
  using assms lookupEntry_mem [of cur es] by (auto simp: lookupEntry_def)

lemma kept_upPath:
  assumes wf: "wellFormedTree es leaf"
  shows "upPath es (lookupEntry es cur) p \<Longrightarrow> (truthy cur \<Longrightarrow> the cur \<in> set (ids es)) \<Longrightarrow>
    resolveParent es R cur = Some q \<Longrightarrow>
    upPath (keptEntries es R repl) (lookupEntry (keptEntries es R repl) q)
      (map (rewrittenEntry es R repl) (filter (\<lambda>e. entryId e \<notin> set R) p))"
proof (induction p arbitrary: cur q)
  case Nil
  then have "\<not> truthy cur" using truthy_lookup [of cur es] by auto
  moreover from this Nil(3) have "q = cur" by (subst (asm) resolveParent.simps) simp
  ultimately show ?case by (simp add: lookupEntry_def)
next
  case (Cons e p)
  note w = wellFormedTreeD [OF wf]
  let ?K = "keptEntries es R repl"
  from Cons.prems(1) have look: "lookupEntry es cur = Some e"
    and up: "upPath es (lookupEntry es (parentId e)) p" by auto
  from look have e: "e \<in> set es" "cur = Some (entryId e)" "entryId e \<noteq> []" by (auto dest: lookupEntry_Some)
  have par: "truthy (parentId e) \<Longrightarrow> the (parentId e) \<in> set (ids es)" using w(2) e by (auto simp: parentsOk_def)
  obtain q' where q': "resolveParent es R (parentId e) = Some q'" by (rule resolveParent_Some [OF w(3)])
  note IH = Cons.IH [OF up par q']
  show ?case
  proof (cases "entryId e \<in> set R")
    case True
    with Cons.prems(3) e have "resolveParent es R (parentIdOf es (entryId e)) = Some q"
      by (subst (asm) resolveParent.simps) simp
    with q' e w(1) have "q = q'" by (simp add: parentIdOf_eq)
    with IH True show ?thesis by simp
  next
    case False
    with Cons.prems(3) e have q: "q = Some (entryId e)" by (subst (asm) resolveParent.simps) auto
    have "rewrittenEntry es R repl e \<in> set ?K" using e False by (auto simp: kept_mem)
    moreover have "distinct (ids ?K)" using w(1) by (simp add: ids_keptEntries)
    ultimately have "lookupEntry ?K q = Some (rewrittenEntry es R repl e)"
      using byId_eq [of ?K "rewrittenEntry es R repl e"] e by (simp add: lookupEntry_def q)
    moreover have "parentId (rewrittenEntry es R repl e) = q'" using q' by (simp add: rewrittenEntry_def)
    ultimately show ?thesis using IH False by simp
  qed
qed

lemma kept_branch:
  assumes wf: "wellFormedTree es leaf" and b: "selectBranch es leaf = Some b"
    and leaf': "resolveParent es R leaf = Some leaf'"
  shows "selectBranch (keptEntries es R repl) leaf' =
    Some (map (rewrittenEntry es R repl) (filter (\<lambda>e. entryId e \<notin> set R) b))"
proof -
  have "truthy leaf \<Longrightarrow> the leaf \<in> set (ids es)"
    using wellFormedTreeD(5) [OF wf] by (simp add: leafOk_def)
  with kept_upPath [OF wf, of leaf "rev b" R leaf' repl] b leaf' show ?thesis
    by (simp add: selectBranch_upPath rev_map rev_filter)
qed

section \<open>A check that does not return\<close>

text \<open>What the walk over \<open>byId.get(id)?.parentId ?? null\<close> has come to after some steps.\<close>

fun climb :: "entry list \<Rightarrow> string option \<Rightarrow> nat \<Rightarrow> string option" where
  "climb es cur 0 = cur"
| "climb es cur (Suc n) = (if truthy cur then climb es (parentIdOf es (the cur)) n else cur)"

lemma climb_idPath: "idPath es cur ks \<Longrightarrow> \<not> truthy (climb es cur (length ks))"
  by (induction ks arbitrary: cur) auto

lemma idPath_climb: "\<not> truthy (climb es cur n) \<Longrightarrow> \<exists>ks. idPath es cur ks"
proof (induction n arbitrary: cur)
  case 0
  then show ?case by (auto intro: exI [of _ "[]"])
next
  case (Suc n)
  show ?case
  proof (cases "truthy cur")
    case True
    with Suc obtain ks where "idPath es (parentIdOf es (the cur)) ks" by auto
    with True have "idPath es cur (the cur # ks)" by (auto simp: truthy_iff)
    then show ?thesis by blast
  qed (auto intro: exI [of _ "[]"])
qed

lemma climb_endless: "(\<forall>n. truthy (climb es cur n)) \<longleftrightarrow> (\<nexists>ks. idPath es cur ks)"
  using climb_idPath idPath_climb by blast

lemma isAncestorOrSelf_False:
  assumes "isAncestorOrSelf es a cur = Some r"
  shows "\<not> r \<Longrightarrow> \<exists>ks. idPath es cur ks"
proof -
  have "\<not> r \<longrightarrow> (\<exists>ks. idPath es cur ks)"
  proof (rule isAncestorOrSelf.raw_induct [where P = "\<lambda>es a cur r. \<not> r \<longrightarrow> (\<exists>ks. idPath es cur ks)", OF _ assms])
    fix walk es a cur r
    assume IH: "\<And>es a cur r. walk es a cur = Some r \<Longrightarrow> \<not> r \<longrightarrow> (\<exists>ks. idPath es cur ks)"
      and step: "(if truthy cur then if the cur = a then Some True
          else walk es a (parentIdOf es (the cur)) else Some False) = Some r"
    show "\<not> r \<longrightarrow> (\<exists>ks. idPath es cur ks)"
    proof (cases "truthy cur")
      case True
      then have cur: "cur = Some (the cur)" "the cur \<noteq> []" by (auto simp: truthy_iff)
      show ?thesis
      proof
        assume "\<not> r"
        with step True have "walk es a (parentIdOf es (the cur)) = Some r" by (auto split: if_splits)
        with IH \<open>\<not> r\<close> obtain ks where "idPath es (parentIdOf es (the cur)) ks" by blast
        with cur have "idPath es cur (the cur # ks)" by simp
        then show "\<exists>ks. idPath es cur ks" by blast
      qed
    qed (auto intro: exI [of _ "[]"])
  qed
  then show "\<not> r \<Longrightarrow> \<exists>ks. idPath es cur ks" by blast
qed

lemma reach_finite: "reach es cur a \<Longrightarrow> idPath es (Some a) ks \<Longrightarrow> \<exists>ks. idPath es cur ks"
proof (induction rule: reach.induct)
  case (up k a)
  then obtain ks' where "idPath es (parentIdOf es k) ks'" by blast
  with up have "idPath es (Some k) (k # ks')" by simp
  then show ?case by blast
qed blast

text \<open>The check of the references of an entry that is not above itself.\<close>

lemma checkReferences_hangs:
  assumes path: "idPath es (Some (entryId e)) ks"
  shows "checkReferences es e = None \<longleftrightarrow> (\<exists>c. body e = Compaction c \<and> firstKeptEntryId c \<in> set (ids es) \<and>
    (\<forall>n. truthy (climb es (Some (firstKeptEntryId c)) n)))"
proof (cases "body e")
  case (Compaction c)
  let ?k = "firstKeptEntryId c"
  have up: "isAncestorOrSelf es ?k (Some (entryId e)) = Some (?k \<in> set ks)"
    by (rule isAncestorOrSelf_idPath [OF path])
  have down: "isAncestorOrSelf es (entryId e) (Some ?k) = None \<longleftrightarrow> (\<nexists>ks. idPath es (Some ?k) ks)"
  proof (cases "isAncestorOrSelf es (entryId e) (Some ?k)")
    case None
    then show ?thesis using isAncestorOrSelf_idPath [of es "Some ?k"] by force
  next
    case (Some r)
    show ?thesis
    proof (cases r)
      case True
      with Some have "reach es (Some ?k) (entryId e)" using isAncestorOrSelf_sound by blast
      with path Some show ?thesis using reach_finite by fastforce
    next
      case False
      with Some show ?thesis using isAncestorOrSelf_False by fastforce
    qed
  qed
  have "?k \<in> set ks \<Longrightarrow> \<exists>ks. idPath es (Some ?k) ks"
    using path by (auto dest!: split_list intro: idPath_suffix)
  with up down show ?thesis
    by (auto simp: checkReferences.simps Compaction climb_endless byId_None split: option.splits bool.splits)
qed (simp_all add: checkReferences.simps)

lemma checkEntries_hangs:
  "checkEntries es rest = None \<longleftrightarrow> (\<exists>pre e post. rest = pre @ e # post \<and> checkEntries es pre = Some (Inr ()) \<and>
     \<not> (truthy (parentId e) \<and> byId es (the (parentId e)) = None) \<and>
     checkAncestors es [entryId e] (parentId e) = Inr () \<and> checkReferences es e = None)"
  (is "_ \<longleftrightarrow> ?hangs rest")
proof
  show "checkEntries es rest = None \<Longrightarrow> ?hangs rest"
  proof (induction rest)
    case (Cons e rest)
    let ?ok = "\<not> (truthy (parentId e) \<and> byId es (the (parentId e)) = None) \<and>
      checkAncestors es [entryId e] (parentId e) = Inr ()"
    from Cons.prems have ok: ?ok by (auto split: if_splits sum.splits)
    show ?case
    proof (cases "checkReferences es e")
      case None
      with ok have "e # rest = [] @ e # rest \<and> checkEntries es [] = Some (Inr ()) \<and> ?ok \<and> checkReferences es e = None"
        by simp
      then show ?thesis by blast
    next
      case (Some x)
      with Cons.prems ok have x: "x = Inr ()" and "checkEntries es rest = None"
        by (auto split: sum.splits if_splits)
      with Cons.IH obtain pre e' post where *: "rest = pre @ e' # post" "checkEntries es pre = Some (Inr ())"
        "\<not> (truthy (parentId e') \<and> byId es (the (parentId e')) = None)"
        "checkAncestors es [entryId e'] (parentId e') = Inr ()" "checkReferences es e' = None" by blast
      from * Some x ok have "e # rest = (e # pre) @ e' # post" "checkEntries es (e # pre) = Some (Inr ())"
        by simp_all
      with * show ?thesis by blast
    qed
  qed simp
next
  assume "?hangs rest"
  then obtain pre e post where rest: "rest = pre @ e # post" and pre: "checkEntries es pre = Some (Inr ())"
    and e: "\<not> (truthy (parentId e) \<and> byId es (the (parentId e)) = None)"
      "checkAncestors es [entryId e] (parentId e) = Inr ()" "checkReferences es e = None" by blast
  from pre have "checkEntries es (pre @ e # post) = None"
  proof (induction pre)
    case Nil
    with e show ?case by (simp split: if_splits)
  next
    case (Cons x pre)
    then show ?case by (auto split: if_splits sum.splits option.splits)
  qed
  with rest show "checkEntries es rest = None" by simp
qed

lemma checkAncestors_path:
  assumes "distinct (ids es)" "e \<in> set es" "checkAncestors es [entryId e] (parentId e) = Inr ()"
  obtains ks where "idPath es (Some (entryId e)) ks"
proof (cases "entryId e = []")
  case True
  then have "idPath es (Some (entryId e)) []" by simp
  then show thesis by (rule that)
next
  case False
  from assms(3) obtain ks where "idPath es (parentId e) ks" by (auto simp: checkAncestors_iff)
  with False assms(1,2) have "idPath es (Some (entryId e)) (entryId e # ks)" by (simp add: parentIdOf_eq)
  then show thesis by (rule that)
qed

text \<open>A compaction whose first kept entry lies on a cycle, listed before the cycle.\<close>

definition cyclicEntries :: "compaction \<Rightarrow> entry list" where
  "cyclicEntries c =
     [\<lparr>entryId = ''c'', parentId = None, timestamp = 1, body = Compaction c\<rparr>,
      \<lparr>entryId = ''a'', parentId = Some ''b'', timestamp = 2, body = ModelChange ''p'' ''m''\<rparr>,
      \<lparr>entryId = ''b'', parentId = Some ''a'', timestamp = 3, body = ModelChange ''p'' ''m''\<rparr>]"

lemma climb_cyclic: "cur \<in> {Some ''a'', Some ''b''} \<Longrightarrow> climb (cyclicEntries c) cur n \<in> {Some ''a'', Some ''b''}"
proof (induction n arbitrary: cur)
  case (Suc n)
  have "parentIdOf (cyclicEntries c) ''a'' = Some ''b''" "parentIdOf (cyclicEntries c) ''b'' = Some ''a''"
    by (simp_all add: parentIdOf_def byId_def cyclicEntries_def)
  with Suc.prems Suc.IH [of "Some ''a''"] Suc.IH [of "Some ''b''"] show ?case by auto
qed simp

section \<open>Results of the handlers\<close>

text \<open>
  What a result says of the document it comes with: \<open>rv\<close> is written exactly when
  something changed, and nothing but the entries, the leaf, the name and the revision moves.
\<close>

definition committed :: "document \<Rightarrow> int \<Rightarrow> command_result \<Rightarrow> bool" where
  "committed d rv res =
     ((if resultChanged res then revision (resultDocument res) = rv else resultDocument res = d) \<and>
      journalVersion (resultDocument res) = journalVersion d \<and> docIdentity (resultDocument res) = docIdentity d \<and>
      resultLeaf res = activeLeafId (resultDocument res))"

lemma committed_unchanged: "committed d rv (unchanged d)"
  by (simp add: committed_def unchanged_def)

lemma committed_changed:
  "revision d' = rv \<Longrightarrow> journalVersion d' = journalVersion d \<Longrightarrow> docIdentity d' = docIdentity d
    \<Longrightarrow> committed d rv (changed d')"
  by (simp add: committed_def changed_def)

lemma committed_appendEntry: "committed d rv (appendEntry d e rv)"
  by (simp add: appendEntry_def committed_changed)

lemma committed_leaf: "setActiveLeaf d leaf rv = Inr res \<Longrightarrow> committed d rv res"
  by (auto simp: setActiveLeaf_def intro: committed_changed committed_unchanged split: if_splits)

lemma rewriteAfterRemoval_fields:
  "rewriteAfterRemoval d R rv = Some d' \<Longrightarrow>
     revision d' = rv \<and> journalVersion d' = journalVersion d \<and> docIdentity d' = docIdentity d"
  by (auto simp: rewriteAfterRemoval_def Let_def split: option.splits if_splits)

lemma committed_delete: "deleteMessage d k rv = Some (Inr res) \<Longrightarrow> committed d rv res"
  by (auto simp: deleteMessage_def intro!: committed_changed dest: rewriteAfterRemoval_fields
      split: sum.splits if_splits)

lemma committed_replace: "replaceLastUserTurn d k rv = Some (Inr res) \<Longrightarrow> committed d rv res"
  by (auto simp: replaceLastUserTurn_def intro!: committed_changed dest: rewriteAfterRemoval_fields
      split: sum.splits if_splits option.splits)

lemma committed_message: "appendMessageEntry d r rv = Inr res \<Longrightarrow> committed d rv res"
  by (auto simp: appendMessageEntry_def Let_def simp del: recordBody.simps
      intro: committed_changed committed_unchanged split: if_splits sum.splits option.splits)

lemma committed_dispatch:
  assumes "dispatchCommand d cmd rv = Some (Inr res)"
  shows "committed d rv res"
proof (cases cmd)
  case (BranchSelect k)
  with assms show ?thesis by (auto simp: returned_def intro: committed_leaf split: option.splits sum.splits)
qed (use assms in \<open>auto simp: returned_def appendCustomEntry_def appendBranchSummaryEntry_def appendLabelEntry_def
       intro: committed_appendEntry committed_leaf committed_delete committed_replace committed_message committed_changed
       split: if_splits\<close>)

lemma sameAttributed_refl: "isMessageBody b \<Longrightarrow> (\<forall>t m v r. b \<noteq> LegacyMessage t m v r) \<Longrightarrow> sameAttributedMessage b b"
  by (cases b) auto

lemma recordBody_same: "sameAttributedMessage (recordBody r) (recordBody r)"
  by (rule sameAttributed_refl) (auto split: record_kind.splits)

section \<open>A sample conversation\<close>

definition sampleIdentity :: identity where
  "sampleIdentity = \<lparr>sessionId = ''s'', createdAt = 0, agentId = None, cwd = None, parentSessionPath = None,
     parentEntryId = None\<rparr>"

definition sampleEntries :: "entry list" where
  "sampleEntries =
     [\<lparr>entryId = ''m1'', parentId = None, timestamp = 1,
       body = UserMessage ''t1'' JNull (JObj [(''role'', JStr ''user'')]) None None\<rparr>,
      \<lparr>entryId = ''a1'', parentId = Some ''m1'', timestamp = 2,
       body = AgentMessage ''t1'' JNull (JObj [(''role'', JStr ''assistant'')]) None\<rparr>,
      \<lparr>entryId = ''l1'', parentId = Some ''a1'', timestamp = 3, body = Label ''m1'' (Some ''start'')\<rparr>,
      \<lparr>entryId = ''m2'', parentId = Some ''l1'', timestamp = 4,
       body = UserMessage ''t2'' JNull (JObj [(''role'', JStr ''user'')]) None None\<rparr>]"

definition sampleDocument :: document where
  "sampleDocument = \<lparr>docIdentity = sampleIdentity, journalVersion = 4, revision = 4, entries = sampleEntries,
     activeLeafId = Some ''m2'', docName = None\<rparr>"

lemma sample_wellFormed: "wellFormed sampleDocument"
proof -
  let ?rank = "\<lambda>k. if k = ''m1'' then 0 else if k = ''a1'' then 1 else if k = ''l1'' then 2 else 3 :: nat"
  have "ranked sampleEntries ?rank" by (simp add: ranked_def sampleEntries_def)
  then have "acyclic_tree sampleEntries" unfolding acyclic_tree_def by blast
  then show ?thesis
    by (simp add: wellFormed_def wellFormedTree_def graphOk_def sampleDocument_def)
      (simp add: sampleEntries_def parentsOk_def leafOk_def refsOk.simps plainIds_def labelsFlat_def)
qed

definition sampleDeleted :: document where
  "sampleDeleted = sampleDocument\<lparr>revision := 5,
     entries := [(sampleEntries ! 1)\<lparr>parentId := None\<rparr>, (sampleEntries ! 3)\<lparr>parentId := Some ''a1''\<rparr>]\<rparr>"

section \<open>Properties\<close>

text \<open>
  C1. Every command that meets \<open>commandOk\<close> and succeeds on a well-formed document leaves it
  well-formed: ids stay unique, parents exist, the tree stays acyclic, branch summaries, labels
  and compactions keep referring to entries that exist (a compaction to one on its own path), and
  the active leaf exists. It covers the two commands that remove entries and rewire what is left.
  The side condition is on what the caller passes, and the code does not check it: the ids of
  new entries, the parent of a branch summary and a selected leaf are not the empty string, and
  a label is put on an entry that is not itself a label. A label on a label can leave a dangling
  reference behind: \<open>delete_can_dangle\<close>.
\<close>

theorem command_keeps_wellFormed:
  assumes "wellFormed d" "commandOk d cmd" "applyConversationDocumentCommand d cmd rv = Some (Inr res)"
  shows "wellFormed (resultDocument res)"
  using dispatch_wellFormed [OF assms(1,2)] apply_dispatch [OF assms(3)] by blast

theorem command_keeps_wellFormed_witness:
  "wellFormed (resultDocument (changed sampleDeleted))"
proof -
  have "commandOk sampleDocument (MessageDelete ''m1'')"
    "applyConversationDocumentCommand sampleDocument (MessageDelete ''m1'') None =
       Some (Inr (changed sampleDeleted))" by code_simp+
  with command_keeps_wellFormed [OF sample_wellFormed] show ?thesis by blast
qed

text \<open>
  C5. On a well-formed document the interpreter always returns, with a result or an error:
  none of its pointer-following loops runs for ever.
\<close>

theorem command_returns:
  assumes "wellFormed d"
  shows "\<exists>r. applyConversationDocumentCommand d cmd rv = Some r"
proof -
  obtain r where "dispatchCommand d cmd (revision d + 1) = Some r"
    using dispatch_total [OF assms] by fastforce
  then show ?thesis
    by (cases "(case rv of None \<Rightarrow> revision d + 1 | Some n \<Rightarrow> n) = revision d + 1")
      (simp_all add: applyConversationDocumentCommand_def)
qed

theorem command_returns_witness:
  "\<exists>r. applyConversationDocumentCommand sampleDocument (UserTurnReplace ''m2'') None = Some r"
  by (rule command_returns [OF sample_wellFormed])

text \<open>
  C7. \<open>assertConversationDocumentGraph\<close> accepts exactly the trees that are graphs in
  the declarative sense: unique ids, existing parents, a rank that makes the parent relation
  acyclic, valid references and an existing leaf.
\<close>

theorem graph_check_decides:
  "assertConversationDocumentGraph es leaf = Some (Inr ()) \<longleftrightarrow> graphOk es leaf"
  by (rule assertGraph_iff)

text \<open>
  C8. When the graph check does not return. The ids are distinct, and a compaction comes up, after
  entries that passed, whose own parent exists and whose own ancestors end at a root, but whose first
  kept entry exists and has ancestors that never end: they run into a cycle. In no other case.
  The references of an entry are followed before the cycle check has reached the entries they
  point to.
\<close>

theorem graph_check_hangs:
  "assertConversationDocumentGraph es leaf = None \<longleftrightarrow>
     distinct (ids es) \<and>
     (\<exists>pre e post c. es = pre @ e # post \<and> checkEntries es pre = Some (Inr ()) \<and>
        \<not> (truthy (parentId e) \<and> byId es (the (parentId e)) = None) \<and>
        checkAncestors es [entryId e] (parentId e) = Inr () \<and>
        body e = Compaction c \<and> firstKeptEntryId c \<in> set (ids es) \<and>
        (\<forall>n. truthy (climb es (Some (firstKeptEntryId c)) n)))"
proof (cases "distinct (ids es)")
  case False
  then have "checkUniqueIds [] es \<noteq> Inr ()" by (simp add: checkUniqueIds_iff)
  with False show ?thesis by (auto simp: assertConversationDocumentGraph_def split: sum.split)
next
  case True
  have refs: "checkReferences es e = None \<longleftrightarrow> (\<exists>c. body e = Compaction c \<and> firstKeptEntryId c \<in> set (ids es) \<and>
      (\<forall>n. truthy (climb es (Some (firstKeptEntryId c)) n)))"
    if "es = pre @ e # post" "checkAncestors es [entryId e] (parentId e) = Inr ()" for pre e post
  proof -
    from that(1) have "e \<in> set es" by simp
    from checkAncestors_path [OF True this that(2)] obtain ks where "idPath es (Some (entryId e)) ks" .
    then show ?thesis by (rule checkReferences_hangs)
  qed
  have "checkUniqueIds [] es = Inr ()" using True by (simp add: checkUniqueIds_iff)
  then have "assertConversationDocumentGraph es leaf = None \<longleftrightarrow> checkEntries es es = None"
    by (auto simp: assertConversationDocumentGraph_def split: option.splits sum.splits)
  also have "\<dots> \<longleftrightarrow> (\<exists>pre e post. es = pre @ e # post \<and> checkEntries es pre = Some (Inr ()) \<and>
        \<not> (truthy (parentId e) \<and> byId es (the (parentId e)) = None) \<and>
        checkAncestors es [entryId e] (parentId e) = Inr () \<and>
        (\<exists>c. body e = Compaction c \<and> firstKeptEntryId c \<in> set (ids es) \<and>
          (\<forall>n. truthy (climb es (Some (firstKeptEntryId c)) n))))"
    unfolding checkEntries_hangs by (intro ex_cong1 conj_cong refl) (erule refs, assumption)
  finally show ?thesis using True by simp
qed

lemma graph_check_hangs_sample:
  "assertConversationDocumentGraph (cyclicEntries (c\<lparr>firstKeptEntryId := ''a''\<rparr>)) leaf = None"
proof -
  let ?c = "c\<lparr>firstKeptEntryId := ''a''\<rparr>"
  let ?es = "cyclicEntries ?c"
  have "truthy (climb ?es (Some ''a'') n)" for n using climb_cyclic [of "Some ''a''" ?c n] by auto
  moreover have "checkAncestors ?es [''c''] None = Inr ()" by (simp add: checkAncestors.simps)
  moreover have "idPath ?es (Some (entryId (hd ?es))) [''c'']"
    by (simp add: cyclicEntries_def parentIdOf_def byId_def)
  from checkReferences_hangs [OF this] have "checkReferences ?es (hd ?es) = None"
    using calculation by (simp add: cyclicEntries_def)
  moreover have "?es = hd ?es # tl ?es" "entryId (hd ?es) = ''c''" "parentId (hd ?es) = None"
    by (simp_all add: cyclicEntries_def)
  ultimately have "checkEntries ?es ?es = None"
    using checkEntries.simps(2) [of ?es "hd ?es" "tl ?es"] by simp
  moreover have "checkUniqueIds [] ?es = Inr ()" by (simp add: cyclicEntries_def)
  ultimately show ?thesis by (simp add: assertConversationDocumentGraph_def)
qed

text \<open>
  Optimistic concurrency: a command runs only at the next revision. A result that reports
  a change carries exactly that revision, a result that reports none returns the document it
  was given, and no command touches the journal version or the identity.
\<close>

theorem command_revision:
  assumes "applyConversationDocumentCommand d cmd rv = Some (Inr res)"
  shows "rv \<in> {None, Some (revision d + 1)} \<and>
    (if resultChanged res then revision (resultDocument res) = revision d + 1 else resultDocument res = d) \<and>
    journalVersion (resultDocument res) = journalVersion d \<and> docIdentity (resultDocument res) = docIdentity d \<and>
    resultLeaf res = activeLeafId (resultDocument res)"
  using apply_dispatch [OF assms] committed_dispatch by (auto simp: committed_def)

theorem command_revision_witness:
  "revision (resultDocument (changed sampleDeleted)) = revision sampleDocument + 1"
  using command_revision [of sampleDocument "MessageDelete ''m1''" None "changed sampleDeleted"]
  by code_simp

text \<open>
  C10. Deleting a message keeps the active branch: the branch of the new document is the old
  branch without the message and the labels put on it, in the old order.
\<close>

theorem delete_filters_branch:
  assumes "wellFormed d" "deleteMessage d k rv = Some (Inr res)" "selectBranchIds d = Some b"
  shows "selectBranchIds (resultDocument res) =
    Some (filter (\<lambda>x. x \<noteq> k \<and> x \<notin> set (labelIdsOn (entries d) k)) b)"
proof (rule deleteMessage_cases [OF assms(1,2)])
  fix repl leaf
  assume r: "resolveParent (entries d) (k # labelIdsOn (entries d) k) (activeLeafId d) = Some leaf"
    "resultDocument res = d\<lparr>revision := rv,
       entries := keptEntries (entries d) (k # labelIdsOn (entries d) k) repl, activeLeafId := leaf\<rparr>"
  from assms(3) obtain es where es: "selectBranch (entries d) (activeLeafId d) = Some es" "b = ids es"
    by (auto simp: selectBranch_ids)
  have tree: "wellFormedTree (entries d) (activeLeafId d)" using assms(1) by (simp add: wellFormed_def)
  show ?thesis
    using kept_branch [OF tree es(1) r(1), of repl] r(2)
    by (simp add: selectBranch_ids es(2) comp_def filter_map)
qed

theorem delete_filters_branch_witness:
  "selectBranchIds sampleDeleted = Some [''a1'', ''m2'']"
proof -
  have "deleteMessage sampleDocument ''m1'' 5 = Some (Inr (changed sampleDeleted))"
    "selectBranchIds sampleDocument = Some [''m1'', ''a1'', ''l1'', ''m2'']" by code_simp+
  from delete_filters_branch [OF sample_wellFormed this] show ?thesis
    by (simp add: changed_def labelIdsOn_def sampleDocument_def sampleEntries_def)
qed

text \<open>
  Replacing the last user turn removes exactly the entries of that turn: the user
  message, everything below it, and the labels put on any of those. The active leaf becomes
  the parent of the removed message when that entry stays, and empty otherwise.
\<close>

theorem replace_turn_removes_turn:
  assumes "wellFormed d" "replaceLastUserTurn d k rv = Some (Inr res)"
  shows "ids (entries (resultDocument res)) = ids (filter (\<lambda>e. \<not> inUserTurn (entries d) k e) (entries d)) \<and>
    (\<exists>e \<in> set (entries d). entryId e = k \<and> isUserEntry e \<and>
       activeLeafId (resultDocument res) =
         (if parentId e \<in> Some ` set (ids (entries (resultDocument res))) then parentId e else None))"
proof (rule replaceLastUserTurn_cases [OF assms])
  fix repl leaf and e :: entry
  let ?R = "turnRemoval (entries d) k"
  assume res: "resultDocument res = d\<lparr>revision := rv, entries := keptEntries (entries d) ?R repl,
       activeLeafId := (if truthy (parentId e) \<and>
            the (parentId e) \<in> set (ids (keptEntries (entries d) ?R repl)) then parentId e else None)\<rparr>"
    and e: "e \<in> set (entries d)" "entryId e = k" "isUserEntry e"
  have tree: "wellFormedTree (entries d) (activeLeafId d)" using assms(1) by (simp add: wellFormed_def)
  have k: "k \<in> set (ids (entries d))" using e by auto
  have "ids (keptEntries (entries d) ?R repl) = ids (filter (\<lambda>e. \<not> inUserTurn (entries d) k e) (entries d))"
    unfolding ids_keptEntries filter_map
    by (rule arg_cong [of _ _ ids], rule filter_cong [OF refl]) (simp add: turnRemoval_iff [OF tree k])
  moreover have "[] \<notin> set (ids (entries d))" using wellFormedTreeD(6) [OF tree] by (auto simp: plainIds_def)
  ultimately show ?thesis
    using e unfolding res by (cases "parentId e") (auto simp: image_iff intro!: bexI [of _ e])
qed

theorem replace_turn_removes_turn_witness:
  "ids (filter (\<lambda>e. \<not> inUserTurn (entries sampleDocument) ''m2'' e) (entries sampleDocument)) = [''m1'', ''a1'', ''l1'']"
proof -
  have "replaceLastUserTurn sampleDocument ''m2'' 5 =
      Some (Inr (changed (sampleDocument\<lparr>revision := 5, entries := take 3 sampleEntries, activeLeafId := Some ''l1''\<rparr>)))"
    by code_simp
  from replace_turn_removes_turn [OF sample_wellFormed this] show ?thesis
    by (simp add: changed_def sampleEntries_def)
qed

text \<open>
  Appending an attributed message is idempotent: after it succeeded, appending the same
  record again succeeds and reports no change.
\<close>

theorem append_message_idempotent:
  assumes "applyConversationDocumentCommand d (MessageAppend r) None = Some (Inr res)"
  shows "applyConversationDocumentCommand (resultDocument res) (MessageAppend r) None =
    Some (Inr (unchanged (resultDocument res)))"
proof -
  have "appendMessageEntry d r (revision d + 1) = Inr res"
    using apply_dispatch [OF assms] by (simp add: returned_def)
  then have "appendMessageEntry (resultDocument res) r rv = Inr (unchanged (resultDocument res))" for rv
    using recordBody_same [of r]
    by (auto simp: appendMessageEntry_def Let_def changed_def unchanged_def findEntry_def find_append
        simp del: recordBody.simps split: sum.splits option.splits if_splits)
  then show ?thesis by (simp add: applyConversationDocumentCommand_def returned_def)
qed

definition sampleRecord :: message_record where
  "sampleRecord = \<lparr>recordId = ''a2'', recordTurn = ''t2'', recordTime = 5, recordKind = AgentRecord,
     recordAuthor = JNull, recordMessage = JObj [(''role'', JStr ''assistant'')]\<rparr>"

theorem append_message_idempotent_witness:
  "\<exists>res. applyConversationDocumentCommand sampleDocument (MessageAppend sampleRecord) None = Some (Inr res) \<and>
     resultChanged res \<and>
     applyConversationDocumentCommand (resultDocument res) (MessageAppend sampleRecord) None =
       Some (Inr (unchanged (resultDocument res)))"
proof -
  let ?d = "sampleDocument\<lparr>revision := 5, entries := sampleEntries @
      [\<lparr>entryId = ''a2'', parentId = Some ''m2'', timestamp = 5,
        body = AgentMessage ''t2'' JNull (JObj [(''role'', JStr ''assistant'')]) None\<rparr>],
      activeLeafId := Some ''a2''\<rparr>"
  have "applyConversationDocumentCommand sampleDocument (MessageAppend sampleRecord) None = Some (Inr (changed ?d))"
    by code_simp
  moreover note append_message_idempotent [OF this]
  moreover have "resultChanged (changed ?d)" by (simp add: changed_def)
  ultimately show ?thesis by blast
qed

text \<open>
  C17. The projection of a stored event keeps the document well-formed, if the entry reference
  the storage kept with the event, when it kept one, meets \<open>referenceOk\<close>: its id and its parent are
  not the empty string, and a compaction hangs below the leaf that was active. The code does not
  check this of a reference. In particular the first kept entry of a compaction is on the path
  of the new compaction entry.
\<close>

theorem event_keeps_wellFormed:
  assumes "wellFormed d" "referenceOk d (payload ev) ref"
    "applyStoredEventToConversationDocument d ev sq ref = Some (Inr d')"
  shows "wellFormed d'"
  using assms by (rule event_wellFormed)

definition sampleCompaction :: compaction where
  "sampleCompaction = \<lparr>summary = ''s'', firstKeptEntryId = ''m2'', tokensBefore = Finite 10, details = None,
     fromHook = None, summaryMessage = Some (JObj [(''role'', JStr ''user'')]), reason = None\<rparr>"

definition sampleEvent :: stored_event where
  "sampleEvent = \<lparr>eventSession = ''s'', eventTime = 7,
     payload = ContextCompacted (Some ''t2'') (ContextCompaction sampleCompaction)\<rparr>"

definition sampleCompacted :: document where
  "sampleCompacted = sampleDocument\<lparr>journalVersion := 5, revision := 5,
     entries := sampleEntries @ [\<lparr>entryId = ''event-5'', parentId = Some ''m2'', timestamp = 7,
       body = Compaction sampleCompaction\<rparr>], activeLeafId := Some ''event-5''\<rparr>"

lemma sample_compacted:
  "applyStoredEventToConversationDocument sampleDocument sampleEvent 5 None = Some (Inr sampleCompacted)"
  by code_simp

theorem event_keeps_wellFormed_witness: "wellFormed sampleCompacted"
  by (rule event_keeps_wellFormed [OF sample_wellFormed _ sample_compacted]) simp

text \<open>
  After a compaction event with a summary message, the model messages of the active branch
  are the summary followed by the messages from the first kept entry on, which is found on the
  branch that was active.
\<close>

theorem compaction_event_projects_summary:
  assumes "wellFormed d" "applyStoredEventToConversationDocument d ev sq None = Some (Inr d')"
    "payload ev = ContextCompacted t (ContextCompaction c)" "truthyJson (summaryMessage c)"
    "selectBranch (entries d) (activeLeafId d) = Some b"
  shows "\<exists>k < length b. entryId (b ! k) = firstKeptEntryId c \<and>
    selectConversationDocumentModelMessages d' =
      Some (Inr (the (summaryMessage c) # concat (map projectModelMessages (drop k b))))"
  using assms(2)
proof (cases rule: applyEvent_cases)
  case skip
  with assms(3) show ?thesis by simp
next
  case (entry r bd)
  have tree: "wellFormedTree (entries d) (activeLeafId d)" using assms(1) by (simp add: wellFormed_def)
  note ref = entryReference_ok [OF entry(4) _ leaf_parent(2) [OF assms(1)]]
  let ?e = "\<lparr>entryId = refId r, parentId = refParent r, timestamp = refTime r, body = Compaction c\<rparr>"
  have d': "entries d' = entries d @ [?e]" "activeLeafId d' = Some (entryId ?e)"
    using entry(3) assms(3) appendEventEntry_entry [OF entry(3)] by (simp_all add: entry(8))
  have branch: "selectBranch (entries d') (activeLeafId d') = Some (b @ [?e])"
    unfolding d' by (rule selectBranch_append [OF tree _ _ _ assms(5)]) (use entry(5) ref assms(3) in simp_all)
  have "firstKeptEntryId c \<in> set (ids b)"
    using entry(7) assms(3,5) by (simp add: selectBranch_ids split: if_splits)
  then obtain k where k: "findIndex (\<lambda>e. entryId e = firstKeptEntryId c) b = Some k"
    using findIndex_mem [of entryId "firstKeptEntryId c" b] by auto
  have "summarizes (Compaction c)" using assms(4) by (cases "summaryMessage c") auto
  then have "selectConversationDocumentModelMessages d' =
      Some (Inr (the (summaryMessage c) # concat (map projectModelMessages (drop k b))))"
    using branch k assms(4) findIndex_Some [OF k]
    by (simp add: selectConversationDocumentModelMessages_def findLastIndex_snoc findIndex_append)
  with findIndex_Some [OF k] show ?thesis by blast
qed

theorem compaction_event_projects_summary_witness:
  "\<exists>k < length sampleEntries. entryId (sampleEntries ! k) = ''m2'' \<and>
    selectConversationDocumentModelMessages sampleCompacted =
      Some (Inr (JObj [(''role'', JStr ''user'')] # concat (map projectModelMessages (drop k sampleEntries))))"
proof -
  have "selectBranch (entries sampleDocument) (activeLeafId sampleDocument) = Some sampleEntries" by code_simp
  from compaction_event_projects_summary [OF sample_wellFormed sample_compacted _ _ this, of "Some ''t2''" sampleCompaction]
  show ?thesis by (simp add: sampleEvent_def sampleCompaction_def)
qed

text \<open>
  Appending a new message extends the model messages of the active branch by exactly that
  message, before and after a compaction.
\<close>

theorem append_extends_model_messages:
  assumes "wellFormed d" "appendMessageEntry d r rv = Inr res" "resultChanged res"
    "recordId r \<noteq> []" "isMessage (recordMessage r)" "selectConversationDocumentModelMessages d = Some (Inr ms)"
  shows "selectConversationDocumentModelMessages (resultDocument res) = Some (Inr (ms @ [recordMessage r]))"
proof -
  let ?e = "\<lambda>t. \<lparr>entryId = recordId r, parentId = activeLeafId d, timestamp = t, body = recordBody r\<rparr>"
  from assms(2,3) obtain t where "findEntry (entries d) (recordId r) = None"
    and d': "resultDocument res = d\<lparr>revision := rv, entries := entries d @ [?e t], activeLeafId := Some (recordId r)\<rparr>"
    by (auto simp: appendMessageEntry_def Let_def changed_def unchanged_def simp del: recordBody.simps
        split: sum.splits option.splits if_splits)
  moreover have "projectModelMessages (?e t) = [recordMessage r]" "\<not> summarizes (recordBody r)"
    using assms(5) by (auto simp: projectModelMessages_def split: record_kind.splits)
  ultimately show ?thesis
    using modelMessages_append [OF assms(1), of "?e t" ms "resultDocument res"] assms(4,6)
    by (simp add: findEntry_None)
qed

theorem append_extends_model_messages_witness:
  "\<exists>res. appendMessageEntry sampleCompacted sampleRecord 6 = Inr res \<and>
     selectConversationDocumentModelMessages (resultDocument res) =
       Some (Inr ([JObj [(''role'', JStr ''user'')], JObj [(''role'', JStr ''user'')]] @ [recordMessage sampleRecord]))"
proof -
  let ?d = "sampleCompacted\<lparr>revision := 6, entries := entries sampleCompacted @
      [\<lparr>entryId = ''a2'', parentId = Some ''event-5'', timestamp = 5,
        body = AgentMessage ''t2'' JNull (JObj [(''role'', JStr ''assistant'')]) None\<rparr>],
      activeLeafId := Some ''a2''\<rparr>"
  have "appendMessageEntry sampleCompacted sampleRecord 6 = Inr (changed ?d)"
    "resultChanged (changed ?d)" "recordId sampleRecord \<noteq> []" "isMessage (recordMessage sampleRecord)"
    "selectConversationDocumentModelMessages sampleCompacted =
       Some (Inr [JObj [(''role'', JStr ''user'')], JObj [(''role'', JStr ''user'')]])"
    by code_simp+
  with append_extends_model_messages [OF event_wellFormed [OF sample_wellFormed _ sample_compacted]]
  show ?thesis by fastforce
qed

text \<open>
  Deleting a message removes the labels put on it but not the labels put on those labels,
  which \<open>entry.label.set\<close> allows: the command succeeds and leaves a document that the
  graph check rejects.
\<close>

theorem delete_can_dangle:
  "\<exists>d1 d2. applyConversationDocumentCommand sampleDocument (EntryLabelSet ''l2'' ''l1'' None 5) None = Some (Inr d1) \<and>
     assertConversationDocumentGraph (entries (resultDocument d1)) (activeLeafId (resultDocument d1)) = Some (Inr ()) \<and>
     applyConversationDocumentCommand (resultDocument d1) (MessageDelete ''m1'') None = Some (Inr d2) \<and>
     assertConversationDocumentGraph (entries (resultDocument d2)) (activeLeafId (resultDocument d2)) =
       Some (Inl (LabelTargetMissing ''l1''))"
proof -
  let ?d1 = "sampleDocument\<lparr>revision := 5, entries := sampleEntries @
      [\<lparr>entryId = ''l2'', parentId = Some ''m2'', timestamp = 5, body = Label ''l1'' None\<rparr>],
      activeLeafId := Some ''l2''\<rparr>"
  let ?d2 = "?d1\<lparr>revision := 6, entries := [(sampleEntries ! 1)\<lparr>parentId := None\<rparr>,
      (sampleEntries ! 3)\<lparr>parentId := Some ''a1''\<rparr>,
      \<lparr>entryId = ''l2'', parentId = Some ''m2'', timestamp = 5, body = Label ''l1'' None\<rparr>]\<rparr>"
  have "applyConversationDocumentCommand sampleDocument (EntryLabelSet ''l2'' ''l1'' None 5) None = Some (Inr (changed ?d1))"
    by code_simp
  moreover have "assertConversationDocumentGraph (entries ?d1) (activeLeafId ?d1) = Some (Inr ())" by code_simp
  moreover have "applyConversationDocumentCommand ?d1 (MessageDelete ''m1'') None = Some (Inr (changed ?d2))" by code_simp
  moreover have "assertConversationDocumentGraph (entries ?d2) (activeLeafId ?d2) = Some (Inl (LabelTargetMissing ''l1''))"
    by code_simp
  ultimately show ?thesis by (intro exI [of _ "changed ?d1"] exI [of _ "changed ?d2"]) (simp add: changed_def)
qed

end
