(* ===== verification/InputSource.thy ===== *)
theory InputSource
  imports Prelude
begin

text \<open>
  The interface a turn uses to poll a queue of pending inputs: one call hands over a batch
  from the front and leaves the rest. \<open>drain\<close> is the client that polls until it is given
  nothing; it is what a turn does between its model calls.
\<close>

fun drain :: "('q \<Rightarrow> 'm list \<times> 'q) \<Rightarrow> nat \<Rightarrow> 'q \<Rightarrow> 'm list \<times> 'q" where
  "drain poll 0 q = ([], q)"
| "drain poll (Suc n) q =
     (case poll q of
        ([], q') \<Rightarrow> ([], q')
      | (m # ms, q') \<Rightarrow> (case drain poll n q' of (rest, q'') \<Rightarrow> ((m # ms) @ rest, q'')))"

locale input_source =
  fixes poll :: "'q \<Rightarrow> 'm list \<times> 'q"
    and waiting :: "'q \<Rightarrow> 'm list"
  assumes poll_front: "poll q = (ms, q') \<Longrightarrow> waiting q = ms @ waiting q'"
    and poll_progress: "poll q = ([], q') \<Longrightarrow> waiting q = []"
begin

lemma poll_empty: "waiting q = [] \<Longrightarrow> fst (poll q) = []"
  using poll_front [of q "fst (poll q)" "snd (poll q)"] by simp

lemma poll_shortens: "waiting q \<noteq> [] \<Longrightarrow> length (waiting (snd (poll q))) < length (waiting q)"
  using poll_front [of q "fst (poll q)" "snd (poll q)"] poll_progress [of q "snd (poll q)"]
  by (cases "poll q") auto

text \<open>Polling hands over everything that waits, in order and exactly once.\<close>

lemma drain_prefix: "waiting q = fst (drain poll n q) @ waiting (snd (drain poll n q))"
proof (induction n arbitrary: q)
  case 0
  then show ?case by simp
next
  case (Suc n)
  obtain ms q' where p: "poll q = (ms, q')" by (cases "poll q")
  with Suc [of q'] poll_front [OF p] show ?case
    by (cases ms) (auto split: prod.splits)
qed

lemma drain_all:
  "length (waiting q) \<le> n \<Longrightarrow> fst (drain poll n q) = waiting q \<and> waiting (snd (drain poll n q)) = []"
proof (induction n arbitrary: q)
  case 0
  then show ?case by simp
next
  case (Suc n)
  obtain ms q' where p: "poll q = (ms, q')" by (cases "poll q")
  show ?case
  proof (cases ms)
    case Nil
    with p poll_front [OF p] poll_progress [of q q'] show ?thesis by simp
  next
    case (Cons m rest)
    with p poll_front [OF p] Suc.prems have "length (waiting q') \<le> n" by simp
    from Suc.IH [OF this] show ?thesis using p poll_front [OF p] Cons by (auto split: prod.splits)
  qed
qed

end

end
