(* ===== verification/SessionQueue.thy ===== *)
theory SessionQueue
  imports InputSource "HOL-Library.Multiset"
begin

text \<open>
  The input queue of a session, from
  \<open>packages/runtime-core/src/kernel/session-input-queue.ts\<close>: the steering and follow-up
  slots, the two modes, the pause flag, and every operation of the class. The ids that
  \<open>createRuntimeId\<close> makes are arguments. The calls of \<open>onChange\<close> are the list
  \<open>notified\<close>, oldest first.
\<close>

section \<open>State\<close>

datatype queue_mode = AllInputs | OneAtATime

datatype behavior = Steer | FollowUp

datatype queue_operation = ContextCompact (customInstructions: "string option")

record queued_input =
  inputMessage :: "json option"
  inputMessageId :: "string option"
  inputContext :: "json list option"
  inputRequest :: "json option"
  inputOperation :: "queue_operation option"

record slot =
  slotId :: string
  slotInput :: queued_input
  slotInternal :: bool

record queue_entry =
  queuedId :: string
  queuedBehavior :: behavior
  queuedInput :: queued_input
  queuedInternal :: bool

record queue_snapshot =
  snapshotPaused :: bool
  snapshotEntries :: "queue_entry list"

record session_queue =
  steeringQueue :: "slot list"
  followUpQueue :: "slot list"
  currentSteeringMode :: queue_mode
  currentFollowUpMode :: queue_mode
  isPaused :: bool
  notified :: "queue_snapshot list"

definition newQueue :: "queue_mode option \<Rightarrow> queue_mode option \<Rightarrow> session_queue" where
  "newQueue sm fm =
     \<lparr>steeringQueue = [], followUpQueue = [],
      currentSteeringMode = (case sm of None \<Rightarrow> OneAtATime | Some m \<Rightarrow> m),
      currentFollowUpMode = (case fm of None \<Rightarrow> OneAtATime | Some m \<Rightarrow> m),
      isPaused = False, notified = []\<rparr>"

section \<open>Observation\<close>

definition toEntry :: "behavior \<Rightarrow> slot \<Rightarrow> queue_entry" where
  "toEntry b s = \<lparr>queuedId = slotId s, queuedBehavior = b, queuedInput = slotInput s, queuedInternal = slotInternal s\<rparr>"

definition listQueue :: "session_queue \<Rightarrow> queue_snapshot" where
  "listQueue q =
     \<lparr>snapshotPaused = isPaused q,
      snapshotEntries = map (toEntry Steer) (steeringQueue q) @ map (toEntry FollowUp) (followUpQueue q)\<rparr>"

definition notifyChange :: "session_queue \<Rightarrow> session_queue" where
  "notifyChange q = q\<lparr>notified := notified q @ [listQueue q]\<rparr>"

definition pendingCount :: "session_queue \<Rightarrow> nat" where
  "pendingCount q = length (steeringQueue q) + length (followUpQueue q)"

definition isOperation :: "slot \<Rightarrow> bool" where
  "isOperation s = (inputOperation (slotInput s) \<noteq> None)"

text \<open>There is one type of operation, so the optional type argument selects all of them.\<close>

definition hasOperation :: "session_queue \<Rightarrow> bool" where
  "hasOperation q = list_ex isOperation (steeringQueue q @ followUpQueue q)"

definition isSessionInput :: "queued_input \<Rightarrow> bool" where
  "isSessionInput i = (inputMessage i \<noteq> None)"

definition isExecutableInput :: "queued_input \<Rightarrow> bool" where
  "isExecutableInput i = (inputMessage i \<noteq> None \<or> inputRequest i \<noteq> None)"

definition steeringInputs :: "session_queue \<Rightarrow> queued_input list" where
  "steeringInputs q = filter isSessionInput (map slotInput (steeringQueue q))"

definition followUpInputs :: "session_queue \<Rightarrow> queued_input list" where
  "followUpInputs q = filter isSessionInput (map slotInput (followUpQueue q))"

definition setSteeringMode :: "queue_mode \<Rightarrow> session_queue \<Rightarrow> session_queue" where
  "setSteeringMode m q = q\<lparr>currentSteeringMode := m\<rparr>"

definition setFollowUpMode :: "queue_mode \<Rightarrow> session_queue \<Rightarrow> session_queue" where
  "setFollowUpMode m q = q\<lparr>currentFollowUpMode := m\<rparr>"

section \<open>Enqueueing\<close>

definition enqueueEntry :: "behavior \<Rightarrow> string \<Rightarrow> queued_input \<Rightarrow> session_queue \<Rightarrow> session_queue" where
  "enqueueEntry b k i q =
     (let s = \<lparr>slotId = k, slotInput = i, slotInternal = False\<rparr>
      in notifyChange
           (case b of
              Steer \<Rightarrow> q\<lparr>steeringQueue := steeringQueue q @ [s]\<rparr>
            | FollowUp \<Rightarrow> q\<lparr>followUpQueue := followUpQueue q @ [s]\<rparr>))"

definition messageInput :: "json \<Rightarrow> queued_input" where
  "messageInput m =
     \<lparr>inputMessage = Some m, inputMessageId = None, inputContext = None, inputRequest = None, inputOperation = None\<rparr>"

definition requestInput :: "json \<Rightarrow> queued_input" where
  "requestInput r =
     \<lparr>inputMessage = None, inputMessageId = None, inputContext = None, inputRequest = Some r, inputOperation = None\<rparr>"

definition contextInput :: "json list \<Rightarrow> queued_input" where
  "contextInput c =
     \<lparr>inputMessage = None, inputMessageId = None, inputContext = Some c, inputRequest = None, inputOperation = None\<rparr>"

definition operationInput :: "queue_operation \<Rightarrow> queued_input" where
  "operationInput p =
     \<lparr>inputMessage = None, inputMessageId = None, inputContext = None, inputRequest = None, inputOperation = Some p\<rparr>"

definition enqueue :: "behavior \<Rightarrow> string \<Rightarrow> queued_input \<Rightarrow> session_queue \<Rightarrow> nat \<times> session_queue" where
  "enqueue b k i q = (let q' = enqueueEntry b k i q in (pendingCount q', q'))"

definition enqueueWithId ::
    "behavior \<Rightarrow> string \<Rightarrow> queued_input \<Rightarrow> session_queue \<Rightarrow> (string \<times> nat) \<times> session_queue" where
  "enqueueWithId b k i q = (let q' = enqueueEntry b k i q in ((k, pendingCount q'), q'))"

definition enqueueRequestWithId ::
    "behavior \<Rightarrow> string \<Rightarrow> json \<Rightarrow> session_queue \<Rightarrow> (string \<times> nat) \<times> session_queue" where
  "enqueueRequestWithId b k r q = enqueueWithId b k (requestInput r) q"

definition enqueueContext :: "behavior \<Rightarrow> string \<Rightarrow> json list \<Rightarrow> session_queue \<Rightarrow> nat \<times> session_queue" where
  "enqueueContext b k c q = enqueue b k (contextInput c) q"

text \<open>An operation is queued once; the result says which entry stands for it.\<close>

definition enqueueOperationWithId ::
    "string \<Rightarrow> queue_operation \<Rightarrow> session_queue \<Rightarrow> (string \<times> nat \<times> bool) \<times> session_queue" where
  "enqueueOperationWithId k p q =
     (case find isOperation (steeringQueue q @ followUpQueue q) of
        Some s \<Rightarrow> ((slotId s, pendingCount q, False), q)
      | None \<Rightarrow>
          (let q' = enqueueEntry FollowUp k (operationInput p) q in ((k, pendingCount q', True), q')))"

text \<open>The messages come with the ids that are made for them.\<close>

definition enqueueFollowUps :: "(string \<times> json) list \<Rightarrow> bool \<Rightarrow> session_queue \<Rightarrow> session_queue" where
  "enqueueFollowUps ms internal q =
     (let q' = q\<lparr>followUpQueue := followUpQueue q @
                  map (\<lambda>(k, m). \<lparr>slotId = k, slotInput = messageInput m, slotInternal = internal\<rparr>) ms\<rparr>
      in if ms = [] then q' else notifyChange q')"

section \<open>Managing entries\<close>

text \<open>\<open>findIndex\<close> and \<open>splice(index, 1)\<close>.\<close>

fun removeSlot :: "(slot \<Rightarrow> bool) \<Rightarrow> slot list \<Rightarrow> (slot \<times> slot list) option" where
  "removeSlot P [] = None"
| "removeSlot P (s # ss) =
     (if P s then Some (s, ss) else map_option (\<lambda>(x, rest). (x, s # rest)) (removeSlot P ss))"

definition removeById :: "string \<Rightarrow> slot list \<Rightarrow> (slot \<times> slot list) option" where
  "removeById k ss = removeSlot (\<lambda>s. slotId s = k) ss"

definition removeEntry :: "string \<Rightarrow> session_queue \<Rightarrow> bool \<times> session_queue" where
  "removeEntry k q =
     (case removeById k (steeringQueue q) of
        Some (s, rest) \<Rightarrow> (True, notifyChange (q\<lparr>steeringQueue := rest\<rparr>))
      | None \<Rightarrow>
          (case removeById k (followUpQueue q) of
             Some (s, rest) \<Rightarrow> (True, notifyChange (q\<lparr>followUpQueue := rest\<rparr>))
           | None \<Rightarrow> (False, q)))"

text \<open>
  The loop over the wanted ids: \<open>byId\<close> is the map from ids to slots, as the list of the
  slots still in it (a later slot shadows an earlier one with the same id), and
  \<open>byId.delete(id)\<close> removes the id.
\<close>

fun pickByIds :: "string list \<Rightarrow> slot list \<Rightarrow> slot list \<times> slot list" where
  "pickByIds [] byId = ([], byId)"
| "pickByIds (k # ks) byId =
     (case find (\<lambda>s. slotId s = k) (rev byId) of
        None \<Rightarrow> pickByIds ks byId
      | Some s \<Rightarrow>
          (case pickByIds ks (filter (\<lambda>s'. slotId s' \<noteq> k) byId) of (picked, rest) \<Rightarrow> (s # picked, rest)))"

definition reorderFollowUps :: "string list \<Rightarrow> session_queue \<Rightarrow> session_queue" where
  "reorderFollowUps ks q =
     (case pickByIds ks (followUpQueue q) of
        (picked, byId) \<Rightarrow>
          notifyChange (q\<lparr>followUpQueue :=
            picked @ filter (\<lambda>s. slotId s \<in> slotId ` set byId) (followUpQueue q)\<rparr>))"

definition promoteToSteering :: "string \<Rightarrow> session_queue \<Rightarrow> bool \<times> session_queue" where
  "promoteToSteering k q =
     (case removeById k (followUpQueue q) of
        None \<Rightarrow> (False, q)
      | Some (s, rest) \<Rightarrow>
          (True, notifyChange (q\<lparr>followUpQueue := rest, steeringQueue := steeringQueue q @ [s]\<rparr>)))"

definition pauseQueue :: "session_queue \<Rightarrow> session_queue" where
  "pauseQueue q = (if isPaused q then q else notifyChange (q\<lparr>isPaused := True\<rparr>))"

definition resumeQueue :: "session_queue \<Rightarrow> session_queue" where
  "resumeQueue q = (if \<not> isPaused q then q else notifyChange (q\<lparr>isPaused := False\<rparr>))"

definition entrySlot :: "queue_entry \<Rightarrow> slot" where
  "entrySlot e = \<lparr>slotId = queuedId e, slotInput = queuedInput e, slotInternal = queuedInternal e\<rparr>"

definition restoreQueue :: "queue_snapshot \<Rightarrow> session_queue \<Rightarrow> session_queue" where
  "restoreQueue s q =
     notifyChange (q\<lparr>steeringQueue := map entrySlot (filter (\<lambda>e. queuedBehavior e = Steer) (snapshotEntries s)),
       followUpQueue := map entrySlot (filter (\<lambda>e. queuedBehavior e \<noteq> Steer) (snapshotEntries s)),
       isPaused := snapshotPaused s\<rparr>)"

section \<open>Taking inputs\<close>

definition availableCount :: "bool \<Rightarrow> slot list \<Rightarrow> nat" where
  "availableCount stopAtOperation ss =
     (case (if stopAtOperation then findIndex isOperation ss else None) of None \<Rightarrow> length ss | Some i \<Rightarrow> i)"

definition takeCount :: "queue_mode \<Rightarrow> nat \<Rightarrow> nat" where
  "takeCount m available = (case m of AllInputs \<Rightarrow> available | OneAtATime \<Rightarrow> 1)"

definition takeSlots :: "bool \<Rightarrow> slot list \<Rightarrow> queue_mode \<Rightarrow> bool \<Rightarrow> slot list \<times> slot list" where
  "takeSlots halted ss m stopAtOperation =
     (if halted \<or> ss = [] then ([], ss)
      else let available = availableCount stopAtOperation ss
           in if available = 0 then ([], ss)
              else (take (takeCount m available) ss, drop (takeCount m available) ss))"

definition takeSteeringInputs :: "session_queue \<Rightarrow> queued_input list \<times> session_queue" where
  "takeSteeringInputs q =
     (case takeSlots (isPaused q) (steeringQueue q) (currentSteeringMode q) False of
        (taken, rest) \<Rightarrow>
          (map slotInput taken, if taken = [] then q else notifyChange (q\<lparr>steeringQueue := rest\<rparr>)))"

definition takeFollowUpInputs :: "session_queue \<Rightarrow> queued_input list \<times> session_queue" where
  "takeFollowUpInputs q =
     (case takeSlots (isPaused q) (followUpQueue q) (currentFollowUpMode q) True of
        (taken, rest) \<Rightarrow>
          (map slotInput taken, if taken = [] then q else notifyChange (q\<lparr>followUpQueue := rest\<rparr>)))"

definition messagesOf :: "queued_input list \<Rightarrow> json list" where
  "messagesOf is = concat (map (\<lambda>i. case inputMessage i of None \<Rightarrow> [] | Some m \<Rightarrow> [m]) is)"

definition takeSteering :: "session_queue \<Rightarrow> json list \<times> session_queue" where
  "takeSteering q = (case takeSteeringInputs q of (is, q') \<Rightarrow> (messagesOf is, q'))"

definition takeFollowUps :: "session_queue \<Rightarrow> json list \<times> session_queue" where
  "takeFollowUps q = (case takeFollowUpInputs q of (is, q') \<Rightarrow> (messagesOf is, q'))"

text \<open>
  The explicit takes look at the slots before the first operation only, and skip over the
  slots there that they may not take.
\<close>

definition beforeOperation :: "slot list \<Rightarrow> slot list" where
  "beforeOperation ss = take (availableCount True ss) ss"

definition takeFirst :: "(slot \<Rightarrow> bool) \<Rightarrow> slot list \<Rightarrow> (slot \<times> slot list) option" where
  "takeFirst P ss =
     map_option (\<lambda>(s, rest). (s, rest @ drop (availableCount True ss) ss)) (removeSlot P (beforeOperation ss))"

definition takeById :: "string \<Rightarrow> session_queue \<Rightarrow> queued_input option \<times> session_queue" where
  "takeById k q =
     (let P = (\<lambda>s. slotId s = k \<and> \<not> isOperation s \<and> isExecutableInput (slotInput s))
      in case takeFirst P (steeringQueue q) of
           Some (s, rest) \<Rightarrow> (Some (slotInput s), notifyChange (q\<lparr>steeringQueue := rest\<rparr>))
         | None \<Rightarrow>
             (case takeFirst P (followUpQueue q) of
                Some (s, rest) \<Rightarrow> (Some (slotInput s), notifyChange (q\<lparr>followUpQueue := rest\<rparr>))
              | None \<Rightarrow> (None, q)))"

definition takeFollowUpHead :: "session_queue \<Rightarrow> queued_input option \<times> session_queue" where
  "takeFollowUpHead q =
     (case takeFirst (\<lambda>s. isExecutableInput (slotInput s)) (followUpQueue q) of
        Some (s, rest) \<Rightarrow> (Some (slotInput s), notifyChange (q\<lparr>followUpQueue := rest\<rparr>))
      | None \<Rightarrow> (None, q))"

definition peekFollowUpOperation :: "session_queue \<Rightarrow> (string \<times> queue_operation) option" where
  "peekFollowUpOperation q =
     (case followUpQueue q of
        [] \<Rightarrow> None
      | s # ss \<Rightarrow> map_option (Pair (slotId s)) (inputOperation (slotInput s)))"

definition takeFollowUpOperationHead :: "session_queue \<Rightarrow> (string \<times> queue_operation) option \<times> session_queue" where
  "takeFollowUpOperationHead q =
     (case peekFollowUpOperation q of
        None \<Rightarrow> (None, q)
      | Some x \<Rightarrow> (Some x, notifyChange (q\<lparr>followUpQueue := tl (followUpQueue q)\<rparr>)))"

definition clearQueue :: "session_queue \<Rightarrow> (queued_input list \<times> queued_input list) \<times> session_queue" where
  "clearQueue q =
     (let q' = q\<lparr>steeringQueue := [], followUpQueue := []\<rparr>
      in ((map slotInput (steeringQueue q), map slotInput (followUpQueue q)),
          if steeringQueue q \<noteq> [] \<or> followUpQueue q \<noteq> [] \<or> isPaused q
          then notifyChange (q'\<lparr>isPaused := False\<rparr>) else q'))"

end
