(* ===== verification/SessionQueueProperties.thy ===== *)
theory SessionQueueProperties
  imports SessionQueue
begin

text \<open>
  What the session input queue guarantees: no input is lost or duplicated, the host's mirror
  is exact, follow-ups never overtake an operation, a paused queue hands over nothing, and the
  two queues are sources in the sense of \<open>input_source\<close>.
\<close>

section \<open>The operations as one step function\<close>

datatype queue_op =
    OpEnqueue behavior string queued_input
  | OpOperation string queue_operation
  | OpFollowUps "(string \<times> json) list" bool
  | OpRemove string
  | OpReorder "string list"
  | OpPromote string
  | OpPause
  | OpResume
  | OpSteeringMode queue_mode
  | OpFollowUpMode queue_mode
  | OpTakeSteering
  | OpTakeFollowUps
  | OpTakeSteeringMessages
  | OpTakeFollowUpMessages
  | OpTakeById string
  | OpTakeHead
  | OpTakeOperation
  | OpClear
  | OpRestore queue_snapshot

text \<open>
  What the caller of an operation receives: whole inputs, the bare messages of
  \<open>takeSteering\<close> and \<open>takeFollowUps\<close>, or a host operation with its id.
\<close>

datatype queue_delivery =
    GivenInput queued_input
  | GivenMessage json
  | GivenOperation string queue_operation

text \<open>What the operation hands to its caller, and the new state.\<close>

fun queueStep :: "queue_op \<Rightarrow> session_queue \<Rightarrow> queue_delivery list \<times> session_queue" where
  "queueStep (OpEnqueue b k i) q = ([], snd (enqueue b k i q))"
| "queueStep (OpOperation k p) q = ([], snd (enqueueOperationWithId k p q))"
| "queueStep (OpFollowUps ms internal) q = ([], enqueueFollowUps ms internal q)"
| "queueStep (OpRemove k) q = ([], snd (removeEntry k q))"
| "queueStep (OpReorder ks) q = ([], reorderFollowUps ks q)"
| "queueStep (OpPromote k) q = ([], snd (promoteToSteering k q))"
| "queueStep OpPause q = ([], pauseQueue q)"
| "queueStep OpResume q = ([], resumeQueue q)"
| "queueStep (OpSteeringMode m) q = ([], setSteeringMode m q)"
| "queueStep (OpFollowUpMode m) q = ([], setFollowUpMode m q)"
| "queueStep OpTakeSteering q = map_prod (map GivenInput) id (takeSteeringInputs q)"
| "queueStep OpTakeFollowUps q = map_prod (map GivenInput) id (takeFollowUpInputs q)"
| "queueStep OpTakeSteeringMessages q = map_prod (map GivenMessage) id (takeSteering q)"
| "queueStep OpTakeFollowUpMessages q = map_prod (map GivenMessage) id (takeFollowUps q)"
| "queueStep (OpTakeById k) q =
     (case takeById k q of (i, q') \<Rightarrow> (case i of None \<Rightarrow> [] | Some x \<Rightarrow> [GivenInput x], q'))"
| "queueStep OpTakeHead q =
     (case takeFollowUpHead q of (i, q') \<Rightarrow> (case i of None \<Rightarrow> [] | Some x \<Rightarrow> [GivenInput x], q'))"
| "queueStep OpTakeOperation q =
     (case takeFollowUpOperationHead q of
        (x, q') \<Rightarrow> (case x of None \<Rightarrow> [] | Some (k, p) \<Rightarrow> [GivenOperation k p], q'))"
| "queueStep OpClear q = (case clearQueue q of ((a, b), q') \<Rightarrow> (map GivenInput (a @ b), q'))"
| "queueStep (OpRestore s) q = ([], restoreQueue s q)"

text \<open>The inputs an operation adds, given the ids in use, and the ids it makes.\<close>

fun acceptedInputs :: "queue_op \<Rightarrow> session_queue \<Rightarrow> queued_input list" where
  "acceptedInputs (OpEnqueue b k i) q = [i]"
| "acceptedInputs (OpOperation k p) q = (if hasOperation q then [] else [operationInput p])"
| "acceptedInputs (OpFollowUps ms internal) q = map (\<lambda>(k, m). messageInput m) ms"
| "acceptedInputs (OpRestore s) q = map queuedInput (snapshotEntries s)"
| "acceptedInputs _ q = []"

fun newIds :: "queue_op \<Rightarrow> string list" where
  "newIds (OpEnqueue b k i) = [k]"
| "newIds (OpOperation k p) = [k]"
| "newIds (OpFollowUps ms internal) = map fst ms"
| "newIds (OpRestore s) = map queuedId (snapshotEntries s)"
| "newIds _ = []"

definition allSlots :: "session_queue \<Rightarrow> slot list" where
  "allSlots q = steeringQueue q @ followUpQueue q"

definition queueInputs :: "session_queue \<Rightarrow> queued_input list" where
  "queueInputs q = map slotInput (allSlots q)"

definition queueIds :: "session_queue \<Rightarrow> string list" where
  "queueIds q = map slotId (allSlots q)"

text \<open>
  The ids an operation brings are new to the queue; those of a restored snapshot replace the
  ids of the queue.
\<close>

fun replacesQueue :: "queue_op \<Rightarrow> bool" where
  "replacesQueue (OpRestore s) = True"
| "replacesQueue _ = False"

definition freshOp :: "queue_op \<Rightarrow> session_queue \<Rightarrow> bool" where
  "freshOp op q =
     (distinct (newIds op) \<and> (replacesQueue op \<or> set (newIds op) \<inter> set (queueIds q) = {}))"

text \<open>
  The inputs an operation is meant to drop: the entry that is removed by its id, the taken
  inputs that carry no message where only messages are handed over, and everything that was
  queued when a snapshot replaces it. No other operation drops an input.
\<close>

fun droppedInputs :: "queue_op \<Rightarrow> session_queue \<Rightarrow> queued_input list" where
  "droppedInputs (OpRemove k) q =
     (case find (\<lambda>s. slotId s = k) (allSlots q) of None \<Rightarrow> [] | Some s \<Rightarrow> [slotInput s])"
| "droppedInputs OpTakeSteeringMessages q = filter (\<lambda>i. \<not> isSessionInput i) (fst (takeSteeringInputs q))"
| "droppedInputs OpTakeFollowUpMessages q = filter (\<lambda>i. \<not> isSessionInput i) (fst (takeFollowUpInputs q))"
| "droppedInputs (OpRestore s) q = queueInputs q"
| "droppedInputs _ q = []"

text \<open>A delivery stands for a queued input when it hands over what the input carries.\<close>

fun stands :: "queue_delivery \<Rightarrow> queued_input \<Rightarrow> bool" where
  "stands (GivenInput i) j = (i = j)"
| "stands (GivenMessage m) j = (inputMessage j = Some m)"
| "stands (GivenOperation k p) j = (inputOperation j = Some p)"

section \<open>Splitting a queue\<close>

lemma notifyChange_simps [simp]:
  "steeringQueue (notifyChange q) = steeringQueue q" "followUpQueue (notifyChange q) = followUpQueue q"
  "isPaused (notifyChange q) = isPaused q" "currentSteeringMode (notifyChange q) = currentSteeringMode q"
  "currentFollowUpMode (notifyChange q) = currentFollowUpMode q"
  "notified (notifyChange q) = notified q @ [listQueue q]" "listQueue (notifyChange q) = listQueue q"
  by (simp_all add: notifyChange_def listQueue_def)

lemma removeSlot_split:
  "removeSlot P ss = Some (s, rest) \<Longrightarrow>
     \<exists>a b. ss = a @ s # b \<and> rest = a @ b \<and> P s \<and> (\<forall>x \<in> set a. \<not> P x)"
proof (induction ss arbitrary: rest)
  case Nil
  then show ?case by simp
next
  case (Cons x ss)
  show ?case
  proof (cases "P x")
    case True
    with Cons.prems have "x # ss = [] @ s # ss \<and> rest = [] @ ss \<and> P s" by simp
    then show ?thesis by fastforce
  next
    case False
    with Cons.prems obtain r where r: "removeSlot P ss = Some (s, r)" "rest = x # r" by auto
    from Cons.IH [OF r(1)] obtain a b where
      "ss = a @ s # b" "r = a @ b" "P s" "\<forall>y \<in> set a. \<not> P y" by blast
    with r False have "x # ss = (x # a) @ s # b \<and> rest = (x # a) @ b \<and> P s \<and> (\<forall>y \<in> set (x # a). \<not> P y)" by simp
    then show ?thesis by blast
  qed
qed

lemma removeSlot_None: "removeSlot P ss = None \<longleftrightarrow> (\<forall>s \<in> set ss. \<not> P s)"
  by (induction ss) auto

lemma removeSlot_mset: "removeSlot P ss = Some (s, rest) \<Longrightarrow> mset ss = add_mset s (mset rest)"
  by (drule removeSlot_split) auto

lemma removeById_mset: "removeById k ss = Some (s, rest) \<Longrightarrow> mset ss = add_mset s (mset rest)"
  unfolding removeById_def by (rule removeSlot_mset)

lemma removeSlot_append:
  "removeSlot P (xs @ ys) =
     (case removeSlot P xs of
        Some (s, rest) \<Rightarrow> Some (s, rest @ ys)
      | None \<Rightarrow> map_option (\<lambda>(s, rest). (s, xs @ rest)) (removeSlot P ys))"
  by (induction xs) (auto split: option.splits simp: option.map_comp comp_def split_def option.map_ident)

lemma takeFirst_mset:
  assumes "takeFirst P ss = Some (s, rest)"
  shows "mset ss = add_mset s (mset rest)"
proof -
  from assms obtain r where r: "removeSlot P (beforeOperation ss) = Some (s, r)"
    "rest = r @ drop (availableCount True ss) ss" by (auto simp: takeFirst_def)
  have "mset ss = mset (beforeOperation ss) + mset (drop (availableCount True ss) ss)"
    unfolding beforeOperation_def by (metis append_take_drop_id mset_append)
  with removeSlot_mset [OF r(1)] r(2) show ?thesis by simp
qed

lemma takeSlots_split: "takeSlots p ss m st = (taken, rest) \<Longrightarrow> ss = taken @ rest"
  by (auto simp: takeSlots_def Let_def split: if_splits)

lemma availableCount_le: "availableCount st ss \<le> length ss"
  by (auto simp: availableCount_def split: option.splits dest: findIndex_Some)

lemma takeSlots_empty:
  "takeSlots p ss m st = ([], rest) \<Longrightarrow> p \<or> take (availableCount st ss) ss = []"
  by (auto simp: takeSlots_def takeCount_def Let_def split: if_splits queue_mode.splits)

lemma mset_filter_split: "mset (filter P xs) + mset (filter (\<lambda>x. \<not> P x) xs) = mset xs"
  by (induction xs) auto

lemma pickByIds_mset:
  assumes "distinct (map slotId ss)" "pickByIds ks ss = (picked, rest)"
  shows "mset ss = mset picked + mset rest \<and> distinct (map slotId rest) \<and> set rest \<subseteq> set ss"
  using assms
proof (induction ks arbitrary: ss picked)
  case Nil
  then show ?case by simp
next
  case (Cons k ks)
  show ?case
  proof (cases "find (\<lambda>s. slotId s = k) (rev ss)")
    case None
    with Cons show ?thesis by simp
  next
    case (Some s)
    then have s: "s \<in> set ss" "slotId s = k" using find_SomeD by fastforce+
    let ?ss = "filter (\<lambda>s'. slotId s' \<noteq> k) ss"
    obtain nx where nx: "pickByIds ks ?ss = (nx, rest)" "picked = s # nx"
      using Cons.prems(2) Some by (auto split: prod.splits)
    have d: "distinct (map slotId ?ss)" using Cons.prems(1) by (simp add: distinct_map inj_on_def)
    have f: "filter (\<lambda>s'. slotId s' = k) ss = [s]"
    proof -
      have "filter (\<lambda>s'. slotId s' = k) xs = [s]" if "s \<in> set xs" "distinct (map slotId xs)" for xs
        using that
      proof (induction xs)
        case Nil
        then show ?case by simp
      next
        case (Cons x xs)
        show ?case
        proof (cases "x = s")
          case True
          moreover have "filter (\<lambda>s'. slotId s' = k) xs = []"
            using Cons.prems True s(2) by (auto simp: filter_empty_conv image_iff)
          ultimately show ?thesis using s(2) by simp
        next
          case False
          with Cons have "slotId x \<noteq> k" using s(2) by force
          with False Cons show ?thesis by simp
        qed
      qed
      with s Cons.prems(1) show ?thesis by blast
    qed
    have "mset [s] + mset ?ss = mset ss"
      using mset_filter_split [of "\<lambda>s'. slotId s' = k" ss] unfolding f .
    then have eq: "mset ss = mset ?ss + {#s#}" by (metis add.commute mset.simps)
    note IH = Cons.IH [OF d nx(1)]
    have "mset ss = mset picked + mset rest" unfolding eq using IH nx(2) by (simp del: mset_filter)
    with IH show ?thesis by auto
  qed
qed

lemma reorder_rest:
  assumes "distinct (map slotId ss)" "mset ss = mset picked + mset rest"
  shows "mset (picked @ filter (\<lambda>s. slotId s \<in> slotId ` set rest) ss) = mset ss"
proof -
  have sub: "set rest \<subseteq> set ss" "set picked \<subseteq> set ss"
    using assms(2) by (metis UnCI set_mset_mset set_mset_union subsetI)+
  have "distinct ss" using assms(1) by (simp add: distinct_map)
  have "slotId s \<in> slotId ` set rest \<longleftrightarrow> s \<in> set rest" if "s \<in> set ss" for s
    using that sub assms(1) by (auto simp: distinct_map inj_on_def)
  then have "filter (\<lambda>s. slotId s \<in> slotId ` set rest) ss = filter (\<lambda>s. s \<in> set rest) ss"
    by (auto intro: filter_cong)
  moreover have "mset (filter (\<lambda>s. s \<in> set rest) ss) = mset rest"
  proof -
    have "mset (picked @ rest) = mset ss" using assms(2) by simp
    then have "distinct (picked @ rest)" using \<open>distinct ss\<close> mset_eq_imp_distinct_iff by blast
    then have "filter_mset (\<lambda>s. s \<in> set rest) (mset picked) = {#}" by (auto simp: mset_filter [symmetric] filter_empty_conv simp del: mset_filter)
    moreover have "filter_mset (\<lambda>s. s \<in> set rest) (mset rest) = mset rest"
      by (simp add: filter_mset_eq_conv)
    ultimately show ?thesis using assms(2) by simp
  qed
  ultimately show ?thesis using assms(2) by simp
qed

section \<open>One step\<close>

lemma listQueue_slots:
  "listQueue (q\<lparr>currentSteeringMode := m\<rparr>) = listQueue q" "listQueue (q\<lparr>currentFollowUpMode := m\<rparr>) = listQueue q"
  "steeringQueue q = [] \<Longrightarrow> followUpQueue q = [] \<Longrightarrow>
     listQueue (q\<lparr>steeringQueue := [], followUpQueue := []\<rparr>) = listQueue q"
  by (simp_all add: listQueue_def)

text \<open>The queued inputs that the deliveries of an operation stand for.\<close>

fun handedInputs :: "queue_op \<Rightarrow> session_queue \<Rightarrow> queued_input list" where
  "handedInputs OpTakeSteering q = fst (takeSteeringInputs q)"
| "handedInputs OpTakeFollowUps q = fst (takeFollowUpInputs q)"
| "handedInputs OpTakeSteeringMessages q = filter isSessionInput (fst (takeSteeringInputs q))"
| "handedInputs OpTakeFollowUpMessages q = filter isSessionInput (fst (takeFollowUpInputs q))"
| "handedInputs (OpTakeById k) q = (case fst (takeById k q) of None \<Rightarrow> [] | Some x \<Rightarrow> [x])"
| "handedInputs OpTakeHead q = (case fst (takeFollowUpHead q) of None \<Rightarrow> [] | Some x \<Rightarrow> [x])"
| "handedInputs OpTakeOperation q =
     (case peekFollowUpOperation q of None \<Rightarrow> [] | Some x \<Rightarrow> [slotInput (hd (followUpQueue q))])"
| "handedInputs OpClear q = (case fst (clearQueue q) of (a, b) \<Rightarrow> a @ b)"
| "handedInputs _ q = []"

lemma stands_messages: "list_all2 stands (map GivenMessage (messagesOf is)) (filter isSessionInput is)"
  by (induction "is") (auto simp: messagesOf_def isSessionInput_def)

lemma stands_inputs: "list_all2 stands (map GivenInput is) is"
  by (induction "is") auto

lemma stands_slots: "list_all2 stands (map (GivenInput \<circ> slotInput) ss) (map slotInput ss)"
  by (induction ss) auto

lemma handed_stand: "queueStep op q = (out, q') \<Longrightarrow> list_all2 stands out (handedInputs op q)"
  using stands_messages stands_inputs list_all2_appendI [OF stands_slots stands_slots]
  by (cases op)
    (auto simp: takeSteering_def takeFollowUps_def takeFollowUpOperationHead_def peekFollowUpOperation_def
      map_prod_def clearQueue_def Let_def split: prod.splits option.splits list.splits)

lemma removeSlot_find: "removeSlot P ss = None \<and> find P ss = None \<or> (\<exists>s rest. removeSlot P ss = Some (s, rest) \<and> find P ss = Some s)"
  by (induction ss) auto

lemma takes_conserved:
  "mset (queueInputs q) = mset (queueInputs (snd (takeSteeringInputs q))) + mset (fst (takeSteeringInputs q))"
  "mset (queueInputs q) = mset (queueInputs (snd (takeFollowUpInputs q))) + mset (fst (takeFollowUpInputs q))"
  by (auto simp: takeSteeringInputs_def takeFollowUpInputs_def queueInputs_def allSlots_def
      split: prod.splits if_splits dest!: takeSlots_split)

lemma messages_conserved:
  "mset (filter isSessionInput is) + mset (filter (\<lambda>i. \<not> isSessionInput i) is) = mset is"
  by (induction "is") auto

lemma restored_inputs: "mset (queueInputs (restoreQueue s q)) = mset (map queuedInput (snapshotEntries s))"
proof -
  have "mset (map (slotInput \<circ> entrySlot) (filter P es)) + mset (map (slotInput \<circ> entrySlot) (filter (\<lambda>e. \<not> P e) es)) =
      mset (map queuedInput es)" for P es
    by (induction es) (auto simp: entrySlot_def)
  from this [of "\<lambda>e. queuedBehavior e = Steer" "snapshotEntries s"] show ?thesis
    by (simp add: restoreQueue_def queueInputs_def allSlots_def del: mset_map)
qed

lemma restored_ids: "mset (queueIds (restoreQueue s q)) = mset (map queuedId (snapshotEntries s))"
proof -
  have "mset (map (slotId \<circ> entrySlot) (filter P es)) + mset (map (slotId \<circ> entrySlot) (filter (\<lambda>e. \<not> P e) es)) =
      mset (map queuedId es)" for P es
    by (induction es) (auto simp: entrySlot_def)
  from this [of "\<lambda>e. queuedBehavior e = Steer" "snapshotEntries s"] show ?thesis
    by (simp add: restoreQueue_def queueIds_def allSlots_def del: mset_map)
qed

lemma slots_conserved:
  assumes "distinct (queueIds q)" "queueStep op q = (out, q')"
  shows "mset (queueInputs q) + mset (acceptedInputs op q) =
      mset (queueInputs q') + (mset (handedInputs op q) + mset (droppedInputs op q))"
proof (cases op)
  case (OpOperation k p)
  show ?thesis
  proof (cases "find isOperation (steeringQueue q @ followUpQueue q)")
    case None
    then have "\<not> hasOperation q" by (auto simp: hasOperation_def list_ex_iff find_None_iff)
    with None OpOperation assms(2) show ?thesis
      by (auto simp: enqueueOperationWithId_def enqueueEntry_def queueInputs_def allSlots_def Let_def)
  next
    case (Some s)
    from find_SomeD [OF this] have "hasOperation q" by (auto simp: hasOperation_def list_ex_iff)
    with Some OpOperation assms(2) show ?thesis by (auto simp: enqueueOperationWithId_def)
  qed
next
  case (OpReorder ks)
  obtain picked rest where pick: "pickByIds ks (followUpQueue q) = (picked, rest)"
    by (cases "pickByIds ks (followUpQueue q)")
  have d: "distinct (map slotId (followUpQueue q))" using assms(1) by (simp add: queueIds_def allSlots_def)
  have "mset (followUpQueue q') = mset (followUpQueue q)" "steeringQueue q' = steeringQueue q"
    using assms(2) OpReorder pick reorder_rest [OF d] pickByIds_mset [OF d pick]
    by (auto simp: reorderFollowUps_def)
  then show ?thesis using OpReorder by (simp add: queueInputs_def allSlots_def mset_map)
next
  case (OpPromote k)
  with assms(2) show ?thesis
    by (auto simp: promoteToSteering_def queueInputs_def allSlots_def split: option.splits
        dest!: removeById_mset arg_cong [where f = "image_mset slotInput"])
next
  case (OpRemove k)
  let ?P = "\<lambda>s. slotId s = k"
  have "find ?P (allSlots q) = map_option fst (removeSlot ?P (steeringQueue q @ followUpQueue q))"
    using removeSlot_find [of ?P "allSlots q"] by (auto simp: allSlots_def)
  with assms(2) OpRemove show ?thesis
    by (auto simp: removeEntry_def removeById_def removeSlot_append queueInputs_def allSlots_def split: option.splits
        dest!: removeSlot_mset arg_cong [where f = "image_mset slotInput"])
next
  case (OpTakeById k)
  with assms(2) show ?thesis
    by (auto simp: takeById_def Let_def queueInputs_def allSlots_def split: option.splits prod.splits
        dest!: takeFirst_mset arg_cong [where f = "image_mset slotInput"])
next
  case OpTakeHead
  with assms(2) show ?thesis
    by (auto simp: takeFollowUpHead_def queueInputs_def allSlots_def split: option.splits prod.splits
        dest!: takeFirst_mset arg_cong [where f = "image_mset slotInput"])
next
  case OpTakeOperation
  with assms(2) show ?thesis
    by (cases "followUpQueue q")
      (auto simp: takeFollowUpOperationHead_def peekFollowUpOperation_def queueInputs_def allSlots_def
        split: option.splits)
next
  case OpTakeSteering
  with assms(2) show ?thesis using takes_conserved(1) [of q] by (auto simp: map_prod_def split: prod.splits)
next
  case OpTakeFollowUps
  with assms(2) show ?thesis using takes_conserved(2) [of q] by (auto simp: map_prod_def split: prod.splits)
next
  case OpTakeSteeringMessages
  with assms(2) have "q' = snd (takeSteeringInputs q)" by (auto simp: takeSteering_def split: prod.splits)
  then show ?thesis using takes_conserved(1) [of q] OpTakeSteeringMessages
    by (simp add: messages_conserved del: mset_filter)
next
  case OpTakeFollowUpMessages
  with assms(2) have "q' = snd (takeFollowUpInputs q)" by (auto simp: takeFollowUps_def split: prod.splits)
  then show ?thesis using takes_conserved(2) [of q] OpTakeFollowUpMessages
    by (simp add: messages_conserved del: mset_filter)
next
  case (OpRestore s)
  with assms(2) show ?thesis using restored_inputs [of s q] by auto
next
  case (OpFollowUps ms internal)
  with assms(2) have "queueInputs q' = queueInputs q @ acceptedInputs op q"
    by (auto simp: enqueueFollowUps_def queueInputs_def allSlots_def Let_def comp_def case_prod_beta)
  then show ?thesis using OpFollowUps by simp
qed (use assms(2) in \<open>auto simp: enqueue_def enqueueEntry_def pauseQueue_def resumeQueue_def setSteeringMode_def
       setFollowUpMode_def clearQueue_def queueInputs_def allSlots_def Let_def split: behavior.splits if_splits\<close>)

text \<open>Every observable change is announced with the new snapshot, and nothing else is.\<close>

lemma step_notified:
  assumes "queueStep op q = (out, q')"
  shows "notified q' = notified q \<and> listQueue q' = listQueue q \<or> notified q' = notified q @ [listQueue q']"
  using assms
  by (cases op)
    (auto simp: enqueue_def enqueueEntry_def enqueueOperationWithId_def enqueueFollowUps_def pauseQueue_def
      resumeQueue_def setSteeringMode_def setFollowUpMode_def clearQueue_def reorderFollowUps_def
      promoteToSteering_def removeEntry_def takeById_def takeFollowUpHead_def takeFollowUpOperationHead_def
      takeSteeringInputs_def takeFollowUpInputs_def takeSteering_def takeFollowUps_def restoreQueue_def
      listQueue_slots Let_def
      split: option.splits prod.splits if_splits behavior.splits)

lemma takes_ids:
  "mset (queueIds (snd (takeSteeringInputs q))) \<subseteq># mset (queueIds q) + ns"
  "mset (queueIds (snd (takeFollowUpInputs q))) \<subseteq># mset (queueIds q) + ns"
  by (auto simp: takeSteeringInputs_def takeFollowUpInputs_def queueIds_def allSlots_def
      split: prod.splits if_splits dest!: takeSlots_split)

lemma ids_step:
  assumes "distinct (queueIds q)" "queueStep op q = (out, q')"
  shows "mset (queueIds q') \<subseteq># mset (queueIds q) + mset (newIds op)"
proof (cases op)
  case (OpOperation k p)
  with assms(2) show ?thesis
    by (auto simp: enqueueOperationWithId_def enqueueEntry_def queueIds_def allSlots_def Let_def split: option.splits)
next
  case (OpReorder ks)
  obtain picked rest where pick: "pickByIds ks (followUpQueue q) = (picked, rest)"
    by (cases "pickByIds ks (followUpQueue q)")
  have d: "distinct (map slotId (followUpQueue q))" using assms(1) by (simp add: queueIds_def allSlots_def)
  have "mset (followUpQueue q') = mset (followUpQueue q)" "steeringQueue q' = steeringQueue q"
    using assms(2) OpReorder pick reorder_rest [OF d] pickByIds_mset [OF d pick]
    by (auto simp: reorderFollowUps_def)
  then show ?thesis using OpReorder by (simp add: queueIds_def allSlots_def)
next
  case (OpPromote k)
  with assms(2) show ?thesis
    by (auto simp: promoteToSteering_def queueIds_def allSlots_def split: option.splits
        dest!: removeById_mset arg_cong [where f = "image_mset slotId"])
next
  case (OpRemove k)
  with assms(2) have "q' = snd (removeEntry k q)" by auto
  then show ?thesis
    by (auto simp: removeEntry_def queueIds_def allSlots_def split: option.splits
        dest!: removeById_mset arg_cong [where f = "image_mset slotId"])
next
  case (OpTakeById k)
  with assms(2) show ?thesis
    by (auto simp: takeById_def Let_def queueIds_def allSlots_def split: option.splits prod.splits
        dest!: takeFirst_mset arg_cong [where f = "image_mset slotId"])
next
  case OpTakeHead
  with assms(2) show ?thesis
    by (auto simp: takeFollowUpHead_def queueIds_def allSlots_def split: option.splits prod.splits
        dest!: takeFirst_mset arg_cong [where f = "image_mset slotId"])
next
  case OpTakeOperation
  with assms(2) show ?thesis
    by (cases "followUpQueue q")
      (auto simp: takeFollowUpOperationHead_def peekFollowUpOperation_def queueIds_def allSlots_def
        split: option.splits)
next
  case OpTakeSteering
  with assms(2) have "q' = snd (takeSteeringInputs q)" by (auto simp: map_prod_def split: prod.splits)
  then show ?thesis by (simp add: takes_ids)
next
  case OpTakeFollowUps
  with assms(2) have "q' = snd (takeFollowUpInputs q)" by (auto simp: map_prod_def split: prod.splits)
  then show ?thesis by (simp add: takes_ids)
next
  case OpTakeSteeringMessages
  with assms(2) have "q' = snd (takeSteeringInputs q)" by (auto simp: takeSteering_def split: prod.splits)
  then show ?thesis by (simp add: takes_ids)
next
  case OpTakeFollowUpMessages
  with assms(2) have "q' = snd (takeFollowUpInputs q)" by (auto simp: takeFollowUps_def split: prod.splits)
  then show ?thesis by (simp add: takes_ids)
next
  case (OpRestore s)
  with assms(2) show ?thesis using restored_ids [of s q] by auto
next
  case (OpFollowUps ms internal)
  with assms(2) have "queueIds q' = queueIds q @ newIds op"
    by (auto simp: enqueueFollowUps_def queueIds_def allSlots_def Let_def comp_def case_prod_beta)
  then show ?thesis by simp
qed (use assms(2) in \<open>auto simp: enqueue_def enqueueEntry_def pauseQueue_def resumeQueue_def setSteeringMode_def
       setFollowUpMode_def clearQueue_def queueIds_def allSlots_def Let_def split: behavior.splits if_splits\<close>)

lemma distinct_submultiset:
  assumes "distinct ys" "mset xs \<subseteq># mset ys"
  shows "distinct xs"
proof -
  obtain zs where "mset ys = mset xs + mset zs"
    using assms(2) by (metis ex_mset subset_mset.le_iff_add)
  then have "mset (xs @ zs) = mset ys" by simp
  then have "distinct (xs @ zs)" using assms(1) mset_eq_imp_distinct_iff by blast
  then show ?thesis by simp
qed

lemma ids_distinct:
  assumes "distinct (queueIds q)" "freshOp op q" "queueStep op q = (out, q')"
  shows "distinct (queueIds q')"
proof (cases op)
  case (OpRestore s)
  with assms(3) have "mset (queueIds q') = mset (newIds op)" using restored_ids [of s q] by auto
  then show ?thesis using assms(2) mset_eq_imp_distinct_iff by (auto simp: freshOp_def)
qed (use assms ids_step [OF assms(1,3)] distinct_submultiset [of "queueIds q @ newIds op" "queueIds q'"]
      in \<open>auto simp: freshOp_def\<close>)

section \<open>Histories\<close>

text \<open>
  A history of operations: the inputs it accepted, what it handed out, the inputs it was meant
  to drop, and the last state.
\<close>

fun runQueue ::
    "queue_op list \<Rightarrow> session_queue \<Rightarrow> queued_input list \<times> queue_delivery list \<times> queued_input list \<times> session_queue" where
  "runQueue [] q = ([], [], [], q)"
| "runQueue (op # ops) q =
     (case queueStep op q of
        (out, q') \<Rightarrow>
          (case runQueue ops q' of
             (accepted, outs, dropped, q'') \<Rightarrow>
               (acceptedInputs op q @ accepted, out @ outs, droppedInputs op q @ dropped, q'')))"

fun freshRun :: "queue_op list \<Rightarrow> session_queue \<Rightarrow> bool" where
  "freshRun [] q = True"
| "freshRun (op # ops) q = (freshOp op q \<and> freshRun ops (snd (queueStep op q)))"

lemma run_conserves:
  "distinct (queueIds q) \<Longrightarrow> freshRun ops q \<Longrightarrow> runQueue ops q = (accepted, outs, dropped, q') \<Longrightarrow>
     distinct (queueIds q') \<and>
     (\<exists>handed. list_all2 stands outs handed \<and>
        mset (queueInputs q) + mset accepted = mset (queueInputs q') + (mset handed + mset dropped))"
proof (induction ops arbitrary: q accepted outs dropped q')
  case Nil
  then show ?case by auto
next
  case (Cons op ops)
  obtain out q1 where step: "queueStep op q = (out, q1)" by (cases "queueStep op q")
  obtain acc os ds q2 where run: "runQueue ops q1 = (acc, os, ds, q2)" by (cases "runQueue ops q1")
  have d: "distinct (queueIds q1)" using ids_distinct [OF _ _ step] Cons.prems by simp
  have eqs: "accepted = acceptedInputs op q @ acc" "outs = out @ os" "dropped = droppedInputs op q @ ds" "q' = q2"
    using Cons.prems(3) step run by auto
  obtain hs where tail: "list_all2 stands os hs" "distinct (queueIds q2)"
      "mset (queueInputs q1) + mset acc = mset (queueInputs q2) + (mset hs + mset ds)"
    using Cons.IH [OF d _ run] Cons.prems(2) step by auto
  have "mset (queueInputs q) + mset accepted =
      (mset (queueInputs q) + mset (acceptedInputs op q)) + mset acc" by (simp add: eqs add.assoc)
  also have "\<dots> = (mset (queueInputs q1) + mset acc) + (mset (handedInputs op q) + mset (droppedInputs op q))"
    unfolding slots_conserved [OF Cons.prems(1) step] by (simp only: ac_simps)
  also have "\<dots> = mset (queueInputs q') + (mset (handedInputs op q @ hs) + mset dropped)"
    unfolding tail(3) eqs mset_append by (simp only: ac_simps)
  finally show ?case
    using list_all2_appendI [OF handed_stand [OF step] tail(1)] tail(2) unfolding eqs by blast
qed

lemma run_mirror:
  "runQueue ops q = (accepted, outs, dropped, q') \<Longrightarrow> notified q \<noteq> [] \<Longrightarrow> last (notified q) = listQueue q \<Longrightarrow>
     notified q' \<noteq> [] \<and> last (notified q') = listQueue q'"
proof (induction ops arbitrary: q accepted outs dropped q')
  case Nil
  then show ?case by simp
next
  case (Cons op ops)
  obtain out q1 where step: "queueStep op q = (out, q1)" by (cases "queueStep op q")
  obtain acc os ds q2 where run: "runQueue ops q1 = (acc, os, ds, q2)" by (cases "runQueue ops q1")
  have "notified q1 \<noteq> [] \<and> last (notified q1) = listQueue q1"
    using step_notified [OF step] Cons.prems(2,3) by auto
  with Cons.IH [OF run] Cons.prems(1) step run show ?case by auto
qed

section \<open>The two queues as sources\<close>

definition waitingSteering :: "session_queue \<Rightarrow> queued_input list" where
  "waitingSteering q = (if isPaused q then [] else map slotInput (steeringQueue q))"

definition waitingFollowUps :: "session_queue \<Rightarrow> queued_input list" where
  "waitingFollowUps q = (if isPaused q then [] else map slotInput (beforeOperation (followUpQueue q)))"

lemma availableCount_Cons:
  "availableCount st (s # ss) = (if st \<and> isOperation s then 0 else Suc (availableCount st ss))"
  by (auto simp: availableCount_def split: option.splits)

lemma availableCount_Nil: "availableCount st [] = 0"
  by (simp add: availableCount_def)

lemma availableCount_drop:
  "n \<le> availableCount st ss \<Longrightarrow> availableCount st (drop n ss) = availableCount st ss - n"
proof (induction ss arbitrary: n)
  case Nil
  then show ?case by (simp add: availableCount_Nil)
next
  case (Cons s ss)
  then show ?case by (cases n) (auto simp: availableCount_Cons split: if_splits)
qed

lemma takeSlots_before:
  assumes "takeSlots p ss m True = (taken, rest)" "\<not> p"
  shows "beforeOperation ss = taken @ beforeOperation rest"
proof (cases "ss = [] \<or> availableCount True ss = 0")
  case True
  with assms have "taken = []" "rest = ss" by (auto simp: takeSlots_def Let_def split: if_splits)
  then show ?thesis by simp
next
  case False
  let ?n = "takeCount m (availableCount True ss)"
  from False have le: "?n \<le> availableCount True ss" by (cases m) (auto simp: takeCount_def)
  from False assms have eq: "taken = take ?n ss" "rest = drop ?n ss" by (auto simp: takeSlots_def Let_def split: if_splits)
  have "take (availableCount True ss) ss = take ?n ss @ take (availableCount True ss - ?n) (drop ?n ss)"
    using le by (metis le_add_diff_inverse take_add)
  then show ?thesis by (simp add: beforeOperation_def eq availableCount_drop [OF le])
qed

interpretation steering: input_source takeSteeringInputs waitingSteering
proof
  show "waitingSteering q = ms @ waitingSteering q'" if "takeSteeringInputs q = (ms, q')" for q ms q'
  proof (cases "isPaused q")
    case True
    with that show ?thesis by (auto simp: takeSteeringInputs_def waitingSteering_def takeSlots_def)
  next
    case False
    with that show ?thesis
      by (auto simp: takeSteeringInputs_def waitingSteering_def split: prod.splits if_splits
          dest!: takeSlots_split)
  qed
  show "waitingSteering q = []" if "takeSteeringInputs q = ([], q')" for q q'
    using that availableCount_def [of False "steeringQueue q"]
    by (auto simp: takeSteeringInputs_def waitingSteering_def split: prod.splits if_splits
        dest!: takeSlots_empty)
qed

interpretation followUps: input_source takeFollowUpInputs waitingFollowUps
proof
  show "waitingFollowUps q = ms @ waitingFollowUps q'" if "takeFollowUpInputs q = (ms, q')" for q ms q'
  proof (cases "isPaused q")
    case True
    with that show ?thesis by (auto simp: takeFollowUpInputs_def waitingFollowUps_def takeSlots_def)
  next
    case False
    with that show ?thesis
      by (auto simp: takeFollowUpInputs_def waitingFollowUps_def split: prod.splits if_splits
          dest!: takeSlots_before)
  qed
  show "waitingFollowUps q = []" if "takeFollowUpInputs q = ([], q')" for q q'
    using that
    by (auto simp: takeFollowUpInputs_def waitingFollowUps_def beforeOperation_def split: prod.splits if_splits
        dest!: takeSlots_empty)
qed

section \<open>Reordering and restoring\<close>

lemma find_distinct:
  assumes "distinct (map f xs)" "x \<in> set xs"
  shows "find (\<lambda>y. f y = f x) xs = Some x"
  using assms
proof (induction xs)
  case Nil
  then show ?case by simp
next
  case (Cons y ys)
  then show ?case by (cases "x = y") force+
qed

lemma pickByIds_spec:
  "distinct (map slotId ss) \<Longrightarrow> distinct ks \<Longrightarrow> pickByIds ks ss = (picked, rest) \<Longrightarrow>
     map slotId picked = filter (\<lambda>k. k \<in> slotId ` set ss) ks \<and> rest = filter (\<lambda>s. slotId s \<notin> set ks) ss"
proof (induction ks arbitrary: ss picked)
  case Nil
  then show ?case by simp
next
  case (Cons k ks)
  show ?case
  proof (cases "k \<in> slotId ` set ss")
    case False
    then have "find (\<lambda>s. slotId s = k) (rev ss) = None" by (auto simp: find_None_iff)
    moreover have "filter (\<lambda>s. slotId s \<notin> set (k # ks)) ss = filter (\<lambda>s. slotId s \<notin> set ks) ss"
      using False by (intro filter_cong) auto
    ultimately show ?thesis using Cons False by simp
  next
    case True
    then obtain s where s: "s \<in> set ss" "slotId s = k" by blast
    have "distinct (map slotId (rev ss))" using Cons.prems(1) by (simp flip: rev_map)
    then have f: "find (\<lambda>s. slotId s = k) (rev ss) = Some s" using find_distinct [of slotId "rev ss" s] s by simp
    let ?ss = "filter (\<lambda>s'. slotId s' \<noteq> k) ss"
    obtain nx where nx: "pickByIds ks ?ss = (nx, rest)" "picked = s # nx"
      using Cons.prems(3) f by (auto split: prod.splits)
    have d: "distinct (map slotId ?ss)" using Cons.prems(1) by (simp add: distinct_map inj_on_def)
    have "filter (\<lambda>j. j \<in> slotId ` set ?ss) ks = filter (\<lambda>j. j \<in> slotId ` set ss) ks"
      using Cons.prems(2) by (intro filter_cong) auto
    moreover have "filter (\<lambda>s. slotId s \<notin> set ks) ?ss = filter (\<lambda>s. slotId s \<notin> set (k # ks)) ss"
      by (auto intro: filter_cong)
    ultimately show ?thesis using Cons.IH [OF d _ nx(1)] Cons.prems(2) nx(2) s True by auto
  qed
qed

lemma entrySlot_toEntry: "entrySlot (toEntry b s) = s"
  by (simp add: entrySlot_def toEntry_def)

lemma queuedBehavior_toEntry: "queuedBehavior (toEntry b s) = b"
  by (simp add: toEntry_def)

section \<open>Properties\<close>

text \<open>
  C34. No input is lost or duplicated: over every history of the queue's operations from an
  empty queue, in any order (enqueueing, reordering, promoting, pausing, removing, the takes of
  inputs, of messages and of an operation, clearing, restoring a snapshot), each delivery hands
  over what one accepted input carries, and the accepted inputs are exactly those the
  deliveries stand for, those an operation is meant to drop and those still queued. Only a
  removal by id, a take of messages (the inputs without a message) and a restore (what was
  queued before) drop inputs. The ids of the queued entries stay distinct. New ids are
  assumed to be new to the queue, and a restored snapshot to have distinct ids.
\<close>

theorem queue_conserves_inputs:
  assumes "freshRun ops (newQueue sm fm)" "runQueue ops (newQueue sm fm) = (accepted, outs, dropped, q)"
  shows "(\<exists>handed. list_all2 stands outs handed \<and>
      mset accepted = mset handed + mset dropped + mset (queueInputs q)) \<and> distinct (queueIds q)"
  using run_conserves [OF _ assms]
  by (auto simp: newQueue_def queueIds_def queueInputs_def allSlots_def ac_simps)

definition sampleSnapshot :: queue_snapshot where
  "sampleSnapshot =
     \<lparr>snapshotPaused = False,
      snapshotEntries =
        [\<lparr>queuedId = ''b'', queuedBehavior = Steer, queuedInput = messageInput (JStr ''D''), queuedInternal = False\<rparr>,
         \<lparr>queuedId = ''e'', queuedBehavior = Steer, queuedInput = requestInput (JStr ''E''), queuedInternal = False\<rparr>]\<rparr>"

definition sampleHistory :: "queue_op list" where
  "sampleHistory =
     [OpEnqueue FollowUp ''a'' (messageInput (JStr ''A'')), OpOperation ''o'' (ContextCompact None),
      OpEnqueue FollowUp ''b'' (messageInput (JStr ''B'')), OpEnqueue Steer ''c'' (messageInput (JStr ''C'')),
      OpTakeFollowUps, OpTakeFollowUps, OpTakeOperation, OpReorder [''b''], OpTakeSteeringMessages, OpPause,
      OpTakeFollowUps, OpRestore sampleSnapshot, OpSteeringMode AllInputs, OpTakeSteeringMessages]"

theorem queue_conserves_inputs_witness:
  "\<exists>handed. list_all2 stands
       [GivenInput (messageInput (JStr ''A'')), GivenOperation ''o'' (ContextCompact None),
        GivenMessage (JStr ''C''), GivenMessage (JStr ''D'')] handed \<and>
     mset [messageInput (JStr ''A''), operationInput (ContextCompact None), messageInput (JStr ''B''),
         messageInput (JStr ''C''), messageInput (JStr ''D''), requestInput (JStr ''E'')] =
       mset handed + mset [messageInput (JStr ''B''), requestInput (JStr ''E'')]"
proof -
  have "freshRun sampleHistory (newQueue None None)" by code_simp
  moreover have "runQueue sampleHistory (newQueue None None) =
      ([messageInput (JStr ''A''), operationInput (ContextCompact None), messageInput (JStr ''B''),
        messageInput (JStr ''C''), messageInput (JStr ''D''), requestInput (JStr ''E'')],
       [GivenInput (messageInput (JStr ''A'')), GivenOperation ''o'' (ContextCompact None),
        GivenMessage (JStr ''C''), GivenMessage (JStr ''D'')],
       [messageInput (JStr ''B''), requestInput (JStr ''E'')],
       snd (snd (snd (runQueue sampleHistory (newQueue None None)))))" by code_simp
  moreover have "queueInputs (snd (snd (snd (runQueue sampleHistory (newQueue None None))))) = []" by code_simp
  ultimately show ?thesis using queue_conserves_inputs [of sampleHistory None None] by fastforce
qed

text \<open>
  The host's mirror is exact: after every history the snapshot of the queue is the last one
  announced through \<open>onChange\<close>, or the initial one when nothing was announced.
\<close>

theorem queue_mirror_exact:
  assumes "runQueue ops (newQueue sm fm) = (accepted, outs, dropped, q)"
  shows "listQueue q = (if notified q = [] then listQueue (newQueue sm fm) else last (notified q))"
proof -
  let ?q = "(newQueue sm fm)\<lparr>notified := [listQueue (newQueue sm fm)]\<rparr>"
  have "listQueue q' = (if notified q' = [] then s else last (notified q'))"
    if "runQueue ops q0 = (a, b, c, q')" "listQueue q0 = (if notified q0 = [] then s else last (notified q0))"
    for q0 a b c q' s
    using that
  proof (induction ops arbitrary: q0 a b c)
    case Nil
    then show ?case by simp
  next
    case (Cons op ops)
    obtain out q1 where step: "queueStep op q0 = (out, q1)" by (cases "queueStep op q0")
    obtain acc os ds q2 where run: "runQueue ops q1 = (acc, os, ds, q2)" by (cases "runQueue ops q1")
    have "q' = q2" using Cons.prems(1) step run by auto
    moreover have "listQueue q1 = (if notified q1 = [] then s else last (notified q1))"
      using step_notified [OF step] Cons.prems(2) by auto
    ultimately show ?case using Cons.IH run by blast
  qed
  from this [OF assms] show ?thesis by (simp add: newQueue_def)
qed

theorem queue_mirror_exact_witness:
  "listQueue (snd (snd (snd (runQueue sampleHistory (newQueue None None))))) =
     last (notified (snd (snd (snd (runQueue sampleHistory (newQueue None None))))))"
proof -
  let ?r = "runQueue sampleHistory (newQueue None None)"
  have "?r = (fst ?r, fst (snd ?r), fst (snd (snd ?r)), snd (snd (snd ?r)))" by simp
  from queue_mirror_exact [OF this] show ?thesis by code_simp
qed

text \<open>
  Polling the follow-ups until nothing comes hands over, in order and exactly once, the
  inputs in front of the first host operation and no operation; a paused queue hands over
  nothing. Steering inputs come out completely and in order.
\<close>

theorem queue_polling:
  "fst (drain takeFollowUpInputs (length (followUpQueue q)) q) =
     (if isPaused q then [] else map slotInput (takeWhile (\<lambda>s. \<not> isOperation s) (followUpQueue q))) \<and>
   fst (drain takeSteeringInputs (length (steeringQueue q)) q) =
     (if isPaused q then [] else map slotInput (steeringQueue q))"
proof -
  have "beforeOperation ss = takeWhile (\<lambda>s. \<not> isOperation s) ss" for ss
    unfolding beforeOperation_def by (induction ss) (simp_all add: availableCount_Cons availableCount_Nil)
  moreover have "length (beforeOperation ss) \<le> length ss" for ss by (simp add: beforeOperation_def)
  ultimately have "fst (drain takeFollowUpInputs (length (followUpQueue q)) q) =
     (if isPaused q then [] else map slotInput (takeWhile (\<lambda>s. \<not> isOperation s) (followUpQueue q)))"
    using followUps.drain_all [of q "length (followUpQueue q)"] by (simp add: waitingFollowUps_def)
  moreover have "fst (drain takeSteeringInputs (length (steeringQueue q)) q) =
     (if isPaused q then [] else map slotInput (steeringQueue q))"
    using steering.drain_all [of q "length (steeringQueue q)"] by (simp add: waitingSteering_def)
  ultimately show ?thesis by blast
qed

text \<open>
  Reordering the follow-ups puts the listed entries first, in the listed order, keeps the
  others behind them in their old order, ignores unknown ids and neither drops nor adds an
  entry.
\<close>

theorem queue_reorder:
  assumes "distinct (queueIds q)" "distinct ks"
  shows "map slotId (followUpQueue (reorderFollowUps ks q)) =
      filter (\<lambda>k. k \<in> slotId ` set (followUpQueue q)) ks @
      filter (\<lambda>k. k \<notin> set ks) (map slotId (followUpQueue q)) \<and>
    mset (followUpQueue (reorderFollowUps ks q)) = mset (followUpQueue q)"
proof -
  obtain picked rest where pick: "pickByIds ks (followUpQueue q) = (picked, rest)"
    by (cases "pickByIds ks (followUpQueue q)")
  have d: "distinct (map slotId (followUpQueue q))" using assms(1) by (simp add: queueIds_def allSlots_def)
  note spec = pickByIds_spec [OF d assms(2) pick]
  have "filter (\<lambda>s. slotId s \<in> slotId ` set rest) (followUpQueue q) =
      filter (\<lambda>s. slotId s \<notin> set ks) (followUpQueue q)"
    using spec by (intro filter_cong) auto
  then have "map slotId (followUpQueue (reorderFollowUps ks q)) =
      filter (\<lambda>k. k \<in> slotId ` set (followUpQueue q)) ks @
      filter (\<lambda>k. k \<notin> set ks) (map slotId (followUpQueue q))"
    using pick spec by (simp add: reorderFollowUps_def filter_map comp_def)
  moreover have "mset (picked @ filter (\<lambda>s. slotId s \<in> slotId ` set rest) (followUpQueue q)) = mset (followUpQueue q)"
    by (rule reorder_rest [OF d]) (use pickByIds_mset [OF d pick] in blast)
  then have "mset (followUpQueue (reorderFollowUps ks q)) = mset (followUpQueue q)"
    unfolding reorderFollowUps_def pick by simp
  ultimately show ?thesis by blast
qed

theorem queue_reorder_witness:
  "map slotId (followUpQueue (reorderFollowUps [''z'', ''b'']
      (enqueueFollowUps [(''a'', JNull), (''b'', JNull), (''c'', JNull)] False (newQueue None None)))) =
    [''b'', ''a'', ''c'']"
proof -
  let ?q = "enqueueFollowUps [(''a'', JNull), (''b'', JNull), (''c'', JNull)] False (newQueue None None)"
  have "distinct (queueIds ?q)" "distinct [''z'', ''b'']" by code_simp+
  from queue_reorder [OF this] show ?thesis by (simp add: enqueueFollowUps_def newQueue_def)
qed

text \<open>
  Persistence round trip: restoring the snapshot of a queue, whatever the queue restored
  into held, gives back its steering entries, its follow-ups and its pause flag, and announces
  that snapshot.
\<close>

theorem queue_restore_roundtrip:
  "steeringQueue (restoreQueue (listQueue q) q0) = steeringQueue q \<and>
   followUpQueue (restoreQueue (listQueue q) q0) = followUpQueue q \<and>
   isPaused (restoreQueue (listQueue q) q0) = isPaused q \<and>
   listQueue (restoreQueue (listQueue q) q0) = listQueue q \<and>
   notified (restoreQueue (listQueue q) q0) = notified q0 @ [listQueue q]"
  by (simp add: restoreQueue_def listQueue_def entrySlot_toEntry queuedBehavior_toEntry comp_def)

text \<open>
  An operation may be promoted to the steering queue, where nothing stops the next take:
  the turn is handed no message and the operation is gone without having run.
\<close>

theorem promoted_operation_lost:
  "let q1 = snd (enqueueOperationWithId k op (newQueue sm fm));
       (promoted, q2) = promoteToSteering k q1;
       (messages, q3) = takeSteering q2
   in hasOperation q1 \<and> promoted \<and> messages = [] \<and> \<not> hasOperation q3"
  by (cases "case sm of None \<Rightarrow> OneAtATime | Some m \<Rightarrow> m")
    (auto simp: enqueueOperationWithId_def newQueue_def enqueueEntry_def hasOperation_def isOperation_def
      operationInput_def promoteToSteering_def removeById_def takeSteering_def takeSteeringInputs_def takeSlots_def
      takeCount_def availableCount_def messagesOf_def Let_def split: option.splits queue_mode.splits)

end
