(* ===== verification/TurnEngine.thy ===== *)
theory TurnEngine
  imports Prelude
begin

text \<open>
  One agent turn: \<open>packages/agent/src/engine/run-agent-turn.ts\<close>, \<open>tool-executor.ts\<close> and
  \<open>limits.ts\<close>. The turn alternates model calls and tool batches, with checkpoints,
  recovery, steering input and an abort signal, and reports everything it does on an event
  stream.

  Everything the turn calls is the record \<open>host\<close>, a parameter: it acts on an environment of
  any type \<open>'e\<close>, which holds the abort signal and the clock. The environment changes only at
  calls of the host, as the program changes only at an \<open>await\<close>. A promise that a turn awaits
  settles, or the abort signal fires first.
\<close>

section \<open>Messages, tools and errors\<close>

record tool_call =
  callId :: string
  callName :: string
  callArguments :: json

datatype block = ToolCallBlock tool_call | OtherBlock json

record assistant =
  assistantContent :: "block list"
  stopReason :: string
  errorText :: string

record tool_result =
  resultCallId :: string
  resultToolName :: string
  resultContent :: "json list"
  resultDetails :: jsval
  resultIsError :: bool
  resultTime :: int

datatype chat_message = UserChat json | AssistantChat assistant | ToolChat tool_result

text \<open>The provider attributes of an \<open>AIError\<close> that a failure report copies.\<close>

record ai_attributes =
  statusCode :: "int option"
  provider :: "string option"
  modelId :: "string option"
  requestId :: "string option"
  providerCode :: "string option"
  callPhase :: "string option"
  url :: "string option"
  responseHeaders :: jsval
  responseBodyPreview :: "string option"
  retryAfterMs :: "int option"

record ai_error =
  aiCode :: string
  aiMessage :: string
  aiRetryable :: bool
  aiAttributes :: ai_attributes

text \<open>
  What can be thrown: an \<open>AIError\<close>, an \<open>AgentToolExecutionError\<close> with its details, another
  \<open>Error\<close> with its name, message and string \<open>code\<close> property, or any other value with its
  \<open>String(...)\<close> text.
\<close>

datatype thrown =
    AIFailure ai_error
  | ToolFailure string json
  | PlainError (errorName: string) (errorMessage: string) (errorCode: "string option")
  | OtherThrown string

record run_failure =
  failureCode :: string
  failureMessage :: string
  failureRetryable :: "bool option"
  failureOrigin :: "string option"
  failureDetails :: "ai_attributes option"

definition failureOf :: "thrown \<Rightarrow> run_failure" where
  "failureOf err =
     (case err of
        AIFailure x \<Rightarrow>
          \<lparr>failureCode = aiCode x, failureMessage = aiMessage x, failureRetryable = Some (aiRetryable x),
           failureOrigin = Some ''provider'', failureDetails = Some (aiAttributes x)\<rparr>
      | ToolFailure m d \<Rightarrow>
          \<lparr>failureCode = ''AgentToolExecutionError'', failureMessage = m, failureRetryable = None,
           failureOrigin = None, failureDetails = None\<rparr>
      | PlainError n m c \<Rightarrow>
          \<lparr>failureCode = (case c of Some k \<Rightarrow> k | None \<Rightarrow> n), failureMessage = m, failureRetryable = None,
           failureOrigin = None, failureDetails = None\<rparr>
      | OtherThrown s \<Rightarrow>
          \<lparr>failureCode = ''AGENT_RUN_FAILED'', failureMessage = s, failureRetryable = None,
           failureOrigin = None, failureDetails = None\<rparr>)"

definition abortError :: thrown where
  "abortError = PlainError ''AbortError'' ''Agent run aborted'' None"

text \<open>
  A tool, with its own validator when it has one. The schema is opaque: it is interpreted by
  the schema library only.
\<close>

record runtime_tool =
  toolIdent :: string
  inputSchema :: json
  validateInput :: "(json \<Rightarrow> thrown + json) option"

record tool_output =
  outputContent :: "json list"
  outputDetails :: jsval
  outputIsError :: "bool option"

text \<open>What a running tool reports before it ends.\<close>

datatype tool_signal = ToolUpdate tool_output | ToolPhase (phaseLabel: string) (phaseAt: int)

record resolved_call =
  resolvedCallId :: string
  snapshotId :: string

text \<open>The events of a model stream: the terminal error, or any other with its partial message.\<close>

datatype stream_event =
    StreamDelta json "assistant option"
  | StreamError assistant "ai_error option"

datatype input_kind = Steering | Continuation

datatype run_status = Completed | MaxModelCalls | MaxToolCalls | RecoveryExhausted | Aborted | Failed

record run_result =
  resultStatus :: run_status
  resultMessages :: "chat_message list"
  resultModelCalls :: nat
  resultToolCalls :: nat
  resultRecoveryAttempts :: nat
  resultAssistant :: "assistant option"
  resultFailure :: "run_failure option"

datatype run_event =
    RunStart
  | ModelCallStart nat string string
  | ModelEvent nat stream_event
  | ModelCallFinish nat "string option" bool
  | AssistantMessage assistant "ai_error option"
  | InputMessage input_kind chat_message
  | ToolValidation tool_call "string option"
  | ToolStart tool_call int
  | ToolUpdated tool_call tool_output
  | ToolPhased tool_call string int
  | ToolFinish tool_call tool_result int int "(string \<times> int) list"
  | Diagnostic string
  | RunFinish run_result

section \<open>Limits\<close>

record run_limits =
  maxModelCalls :: "jsnum option"
  maxToolCalls :: "jsnum option"
  maxRecoveryAttempts :: jsnum
  checkpointTimeoutMs :: jsnum
  deadlineMs :: "jsnum option"

definition positiveInteger :: "jsnum \<Rightarrow> string \<Rightarrow> string + unit" where
  "positiveInteger v limit =
     (if \<not> isSafeInteger v \<or> num_le v 0 then Inl limit else Inr ())"

definition nonNegativeInteger :: "jsnum \<Rightarrow> string \<Rightarrow> string + unit" where
  "nonNegativeInteger v limit =
     (if \<not> isSafeInteger v \<or> \<not> num_ge v 0 then Inl limit else Inr ())"

text \<open>The checks in order; the first that fails names its field in the \<open>RangeError\<close>.\<close>

fun firstError :: "(string + unit) list \<Rightarrow> string + unit" where
  "firstError [] = Inr ()"
| "firstError (Inl err # cs) = Inl err"
| "firstError (Inr u # cs) = firstError cs"

definition validateAgentRunLimits :: "run_limits \<Rightarrow> string + unit" where
  "validateAgentRunLimits l =
     firstError
       [case maxModelCalls l of None \<Rightarrow> Inr () | Some v \<Rightarrow> positiveInteger v ''maxModelCalls'',
        case maxToolCalls l of None \<Rightarrow> Inr () | Some v \<Rightarrow> positiveInteger v ''maxToolCalls'',
        nonNegativeInteger (maxRecoveryAttempts l) ''maxRecoveryAttempts'',
        positiveInteger (checkpointTimeoutMs l) ''checkpointTimeoutMs'',
        case deadlineMs l of None \<Rightarrow> Inr () | Some v \<Rightarrow> positiveInteger v ''deadlineMs'']"

text \<open>The value of a validated limit.\<close>

definition limitNat :: "jsnum \<Rightarrow> nat" where
  "limitNat v = (case v of Finite r \<Rightarrow> nat \<lfloor>r\<rfloor> | _ \<Rightarrow> 0)"

section \<open>The host and the run\<close>

datatype 'a settled = Fulfilled 'a | Rejected thrown | Interrupted

datatype checkpoint_reason = BeforeModelCall | AfterResult | AfterError

record checkpoint_result =
  viewMessages :: "chat_message list option"
  contextMessages :: "chat_message list option"
  retry :: bool

text \<open>
  \<open>salvage\<close> is the race of the pending result against the grace period; \<open>streamed\<close> are the
  events the provider's iterator yields, and the error it ends with if it throws.
\<close>

record 'e host =
  limits :: run_limits
  aborted :: "'e \<Rightarrow> bool"
  abortReason :: "'e \<Rightarrow> thrown"
  now :: "'e \<Rightarrow> int"
  observerError :: "run_event \<Rightarrow> string option"
  resolveTools :: "nat \<Rightarrow> chat_message list \<Rightarrow> 'e \<Rightarrow> runtime_tool list settled \<times> 'e"
  resolveModelCall :: "nat \<Rightarrow> chat_message list \<Rightarrow> runtime_tool list \<Rightarrow> 'e \<Rightarrow> resolved_call settled \<times> 'e"
  streamed :: "resolved_call \<Rightarrow> 'e \<Rightarrow> stream_event list \<times> thrown option"
  awaitEvent :: "'e \<Rightarrow> 'e"
  awaitResult :: "resolved_call \<Rightarrow> 'e \<Rightarrow> assistant settled \<times> 'e"
  salvage :: "resolved_call \<Rightarrow> 'e \<Rightarrow> assistant option \<times> 'e"
  checkpointHook :: "(checkpoint_reason \<Rightarrow> chat_message list \<Rightarrow> nat \<Rightarrow> nat \<Rightarrow> assistant option \<Rightarrow> 'e
     \<Rightarrow> checkpoint_result option settled option \<times> 'e) option"
  takeSteeringMessages :: "(nat \<Rightarrow> chat_message list \<Rightarrow> 'e \<Rightarrow> chat_message list settled \<times> 'e) option"
  takeContinuationMessages :: "(nat \<Rightarrow> chat_message list \<Rightarrow> 'e \<Rightarrow> chat_message list settled \<times> 'e) option"
  authorize :: "tool_call \<Rightarrow> runtime_tool \<Rightarrow> nat \<Rightarrow> chat_message list \<Rightarrow> 'e \<Rightarrow> unit settled \<times> 'e"
  executeTool :: "runtime_tool \<Rightarrow> json \<Rightarrow> string \<Rightarrow> chat_message list \<Rightarrow> 'e
     \<Rightarrow> (tool_signal list \<times> tool_output settled) \<times> 'e"
  schemaErrors :: "json \<Rightarrow> json \<Rightarrow> (string \<times> string) list"
  schemaDecode :: "json \<Rightarrow> json \<Rightarrow> thrown + json"

record 'e run =
  runMessages :: "chat_message list"
  modelCalls :: nat
  toolCalls :: nat
  recoveryAttempts :: nat
  consecutiveRecoveryAttempts :: nat
  lastAssistantMessage :: "assistant option"
  streamEvents :: "run_event list"
  streamDone :: bool
  env :: 'e

type_synonym ('e, 'a) action = "'e run \<Rightarrow> (thrown + 'a) \<times> 'e run"

definition give :: "'a \<Rightarrow> ('e, 'a) action" where
  "give x r = (Inr x, r)"

definition raise :: "thrown \<Rightarrow> ('e, 'a) action" where
  "raise err r = (Inl err, r)"

definition andThen :: "('e, 'a) action \<Rightarrow> ('a \<Rightarrow> ('e, 'b) action) \<Rightarrow> ('e, 'b) action" where
  "andThen m f r = (case m r of (Inl err, r') \<Rightarrow> (Inl err, r') | (Inr x, r') \<Rightarrow> f x r')"

definition rescue :: "('e, 'a) action \<Rightarrow> (thrown \<Rightarrow> ('e, 'a) action) \<Rightarrow> ('e, 'a) action" where
  "rescue m h r = (case m r of (Inl err, r') \<Rightarrow> h err r' | (Inr x, r') \<Rightarrow> (Inr x, r'))"

definition update :: "('e run \<Rightarrow> 'e run) \<Rightarrow> ('e, unit) action" where
  "update f r = (Inr (), f r)"

definition get :: "('e run \<Rightarrow> 'a) \<Rightarrow> ('e, 'a) action" where
  "get f r = (Inr (f r), r)"

section \<open>The event stream\<close>

text \<open>\<open>EventStream.push\<close>: nothing is delivered after the event that completes the stream.\<close>

fun isRunFinish :: "run_event \<Rightarrow> bool" where
  "isRunFinish (RunFinish result) = True"
| "isRunFinish _ = False"

definition push :: "run_event \<Rightarrow> 'e run \<Rightarrow> 'e run" where
  "push ev r =
     (if streamDone r then r
      else r\<lparr>streamEvents := streamEvents r @ [ev], streamDone := isRunFinish ev\<rparr>)"

definition emit :: "'e host \<Rightarrow> run_event \<Rightarrow> ('e, unit) action" where
  "emit h ev =
     update (\<lambda>r.
       (let r' = push ev r
        in case observerError h ev of None \<Rightarrow> r' | Some m \<Rightarrow> push (Diagnostic m) r'))"

section \<open>Awaiting\<close>

definition isAborted :: "'e host \<Rightarrow> ('e, bool) action" where
  "isAborted h = get (\<lambda>r. aborted h (env r))"

definition throwIfAborted :: "'e host \<Rightarrow> ('e, unit) action" where
  "throwIfAborted h r = (if aborted h (env r) then (Inl (abortReason h (env r)), r) else (Inr (), r))"

definition act :: "('e \<Rightarrow> 'a \<times> 'e) \<Rightarrow> ('e, 'a) action" where
  "act f r = (case f (env r) of (x, e) \<Rightarrow> (Inr x, r\<lparr>env := e\<rparr>))"

text \<open>
  \<open>interruptible(call, signal)\<close>: the call is made first; an abort that has happened rejects
  at once, one that fires while waiting rejects instead of the call.
\<close>

definition interruptible :: "'e host \<Rightarrow> ('e \<Rightarrow> 'a settled \<times> 'e) \<Rightarrow> ('e, 'a) action" where
  "interruptible h call =
     andThen (isAborted h) (\<lambda>early.
     andThen (act call) (\<lambda>s.
       if early then raise abortError
       else case s of Fulfilled x \<Rightarrow> give x | Rejected err \<Rightarrow> raise err | Interrupted \<Rightarrow> raise abortError))"

text \<open>
  A promise awaited inside the tool batch. The batch as a whole is interruptible, so an abort
  while it waits rejects the batch.
\<close>

definition awaited :: "('e \<Rightarrow> 'a settled \<times> 'e) \<Rightarrow> ('e, 'a) action" where
  "awaited call =
     andThen (act call) (\<lambda>s.
       case s of Fulfilled x \<Rightarrow> give x | Rejected err \<Rightarrow> raise err | Interrupted \<Rightarrow> raise abortError)"

text \<open>The checkpoint hook under its timeout; \<open>None\<close> is the timer firing first.\<close>

definition checkpointTimeout :: "nat \<Rightarrow> thrown" where
  "checkpointTimeout ms = PlainError ''Error'' (''Agent checkpoint exceeded '' @ digitsOf ms @ ''ms'') None"

definition withTimeout :: "'e host \<Rightarrow> ('e \<Rightarrow> 'a settled option \<times> 'e) \<Rightarrow> ('e, 'a) action" where
  "withTimeout h call =
     interruptible h (\<lambda>e. case call e of
       (None, e') \<Rightarrow> (Rejected (checkpointTimeout (limitNat (checkpointTimeoutMs (limits h)))), e') | (Some s, e') \<Rightarrow> (s, e'))"

definition checkpoint ::
    "'e host \<Rightarrow> checkpoint_reason \<Rightarrow> nat \<Rightarrow> assistant option \<Rightarrow> ('e, checkpoint_result option) action" where
  "checkpoint h reason idx asst =
     (case checkpointHook h of
        None \<Rightarrow> give None
      | Some hook \<Rightarrow>
          andThen (get (\<lambda>r. (runMessages r, consecutiveRecoveryAttempts r))) (\<lambda>(ms, attempt).
            withTimeout h (hook reason ms idx attempt asst)))"

definition takeInput :: "'e host \<Rightarrow> input_kind \<Rightarrow> ('e, (input_kind \<times> chat_message list) option) action" where
  "takeInput h kind =
     (case (case kind of Steering \<Rightarrow> takeSteeringMessages h | Continuation \<Rightarrow> takeContinuationMessages h) of
        None \<Rightarrow> give None
      | Some collect \<Rightarrow>
          andThen (get (\<lambda>r. (modelCalls r, runMessages r))) (\<lambda>(n, ms).
          andThen (interruptible h (collect n ms)) (\<lambda>input.
            give (if input = [] then None else Some (kind, input)))))"

definition addMessages :: "chat_message list \<Rightarrow> ('e, unit) action" where
  "addMessages ms = update (\<lambda>r. r\<lparr>runMessages := runMessages r @ ms\<rparr>)"

fun appendInput :: "'e host \<Rightarrow> input_kind \<Rightarrow> chat_message list \<Rightarrow> ('e, unit) action" where
  "appendInput h kind [] = give ()"
| "appendInput h kind (m # ms) =
     andThen (addMessages [m]) (\<lambda>_.
     andThen (emit h (InputMessage kind m)) (\<lambda>_.
       appendInput h kind ms))"

section \<open>The model call\<close>

text \<open>
  Forwarding the stream: the consumer stops at the first event that arrives after an abort,
  and remembers the last partial message.
\<close>

datatype consumed = StreamEnded | StreamFailed assistant thrown | StreamAborted

definition streamFailure :: "assistant \<Rightarrow> ai_error option \<Rightarrow> thrown" where
  "streamFailure asst failure =
     (case failure of Some x \<Rightarrow> AIFailure x | None \<Rightarrow> PlainError ''Error'' (errorText asst) None)"

fun forwardEvents ::
    "'e host \<Rightarrow> nat \<Rightarrow> stream_event list \<Rightarrow> assistant option \<Rightarrow> ('e, consumed \<times> assistant option) action" where
  "forwardEvents h idx [] partial =
     andThen (isAborted h) (\<lambda>stop. give (if stop then StreamAborted else StreamEnded, partial))"
| "forwardEvents h idx (ev # evs) partial =
     andThen (act (\<lambda>e. ((), awaitEvent h e))) (\<lambda>_.
     andThen (isAborted h) (\<lambda>stop.
       if stop then give (StreamAborted, partial)
       else andThen (emit h (ModelEvent idx ev)) (\<lambda>_.
              case ev of
                StreamDelta d p \<Rightarrow> forwardEvents h idx evs (case p of None \<Rightarrow> partial | Some a \<Rightarrow> Some a)
              | StreamError asst failure \<Rightarrow> give (StreamFailed asst (streamFailure asst failure), partial))))"

text \<open>Salvaging an interrupted response: the result within the grace period, or the partial.\<close>

definition salvageResponse ::
    "'e host \<Rightarrow> resolved_call \<Rightarrow> assistant option \<Rightarrow> thrown \<Rightarrow> ('e, assistant \<times> thrown option) action" where
  "salvageResponse h call partial err =
     andThen (isAborted h) (\<lambda>stop.
       if \<not> stop then raise err
       else andThen (act (salvage h call)) (\<lambda>late.
              case late of
                Some asst \<Rightarrow> give (asst, None)
              | None \<Rightarrow>
                  (case partial of
                     Some p \<Rightarrow>
                       (if assistantContent p \<noteq> [] then give (p\<lparr>stopReason := ''aborted''\<rparr>, None) else raise err)
                   | None \<Rightarrow> raise err)))"

definition consumeModelResponse ::
    "'e host \<Rightarrow> nat \<Rightarrow> resolved_call \<Rightarrow> ('e, assistant \<times> thrown option) action" where
  "consumeModelResponse h idx call =
     andThen (isAborted h) (\<lambda>early.
       if early then salvageResponse h call None abortError
       else andThen (get (\<lambda>r. streamed h call (env r))) (\<lambda>(evs, broken).
            andThen (forwardEvents h idx evs None) (\<lambda>(outcome, partial).
              case outcome of
                StreamAborted \<Rightarrow> salvageResponse h call partial abortError
              | StreamFailed asst err \<Rightarrow> give (asst, Some err)
              | StreamEnded \<Rightarrow>
                  (case broken of
                     Some err \<Rightarrow> salvageResponse h call partial err
                   | None \<Rightarrow>
                       rescue (andThen (interruptible h (awaitResult h call)) (\<lambda>asst. give (asst, None)))
                         (salvageResponse h call partial)))))"

section \<open>Tools\<close>

definition toolError :: "'e host \<Rightarrow> tool_call \<Rightarrow> string \<Rightarrow> string \<Rightarrow> jsval \<Rightarrow> ('e, tool_result) action" where
  "toolError h call text code dt =
     get (\<lambda>r. \<lparr>resultCallId = callId call, resultToolName = callName call,
       resultContent = [JObj [(''type'', JStr ''text''), (''text'', JStr text)]],
       resultDetails = (case dt of None \<Rightarrow> Some (JObj [(''code'', JStr code)]) | Some d \<Rightarrow> Some d),
       resultIsError = True, resultTime = now h (env r)\<rparr>)"

definition thrownMessage :: "thrown \<Rightarrow> string \<Rightarrow> string" where
  "thrownMessage err fallback =
     (case err of
        AIFailure x \<Rightarrow> aiMessage x
      | ToolFailure m d \<Rightarrow> m
      | PlainError n m c \<Rightarrow> m
      | OtherThrown t \<Rightarrow> fallback)"

definition joinErrors :: "(string \<times> string) list \<Rightarrow> string" where
  "joinErrors es =
     (case map (\<lambda>(path, m). (if path = [] then ''/'' else path) @ '': '' @ m) es of
        [] \<Rightarrow> []
      | x # xs \<Rightarrow> x @ concat (map (\<lambda>y. ''; '' @ y) xs))"

definition validateToolInput :: "'e host \<Rightarrow> runtime_tool \<Rightarrow> tool_call \<Rightarrow> string + json" where
  "validateToolInput h tool call =
     (let caught = (\<lambda>r. case r of Inl err \<Rightarrow> Inl (thrownMessage err ''Tool input validation failed'') | Inr v \<Rightarrow> Inr v)
      in case validateInput tool of
           Some check \<Rightarrow> caught (check (callArguments call))
         | None \<Rightarrow>
             (let errs = schemaErrors h (inputSchema tool) (callArguments call)
              in if errs \<noteq> [] then Inl (joinErrors errs)
                 else caught (schemaDecode h (inputSchema tool) (callArguments call))))"

text \<open>The updates and phases of a running tool, in order.\<close>

fun relaySignals :: "'e host \<Rightarrow> tool_call \<Rightarrow> tool_signal list \<Rightarrow> ('e, unit) action" where
  "relaySignals h call [] = give ()"
| "relaySignals h call (s # ss) =
     andThen (emit h (case s of ToolUpdate u \<Rightarrow> ToolUpdated call u | ToolPhase l t \<Rightarrow> ToolPhased call l t)) (\<lambda>_.
       relaySignals h call ss)"

definition phasesOf :: "tool_signal list \<Rightarrow> (string \<times> int) list" where
  "phasesOf ss = concat (map (\<lambda>s. case s of ToolPhase l t \<Rightarrow> [(l, t)] | ToolUpdate u \<Rightarrow> []) ss)"

definition settledTool :: "tool_output settled \<Rightarrow> ('e, tool_output) action" where
  "settledTool s =
     (case s of Fulfilled x \<Rightarrow> give x | Rejected err \<Rightarrow> raise err | Interrupted \<Rightarrow> raise abortError)"

definition toolFailed :: "'e host \<Rightarrow> tool_call \<Rightarrow> thrown \<Rightarrow> ('e, tool_result) action" where
  "toolFailed h call err =
     andThen (throwIfAborted h) (\<lambda>_.
       toolError h call (thrownMessage err ''Tool execution failed'') ''AGENT_TOOL_EXECUTION_FAILED''
         (case err of ToolFailure m d \<Rightarrow> Some d | _ \<Rightarrow> None))"

text \<open>The phases reported before a failure belong to the result as well.\<close>

definition executeValidatedTool ::
    "'e host \<Rightarrow> nat \<Rightarrow> chat_message list \<Rightarrow> tool_call \<Rightarrow> runtime_tool \<Rightarrow> json
      \<Rightarrow> ('e, tool_result \<times> (string \<times> int) list) action" where
  "executeValidatedTool h idx ms call tool input =
     andThen
       (rescue
          (andThen (awaited (authorize h call tool idx ms)) (\<lambda>_.
           andThen (act (executeTool h tool input (callId call) ms)) (\<lambda>(signals, outcome).
           andThen (relaySignals h call signals) (\<lambda>_.
             give (signals, outcome)))))
          (\<lambda>err. give ([], Rejected err)))
       (\<lambda>(signals, outcome).
     andThen
       (rescue
          (andThen (settledTool outcome) (\<lambda>out.
             get (\<lambda>r. \<lparr>resultCallId = callId call, resultToolName = callName call,
               resultContent = outputContent out, resultDetails = outputDetails out,
               resultIsError = (outputIsError out = Some True), resultTime = now h (env r)\<rparr>)))
          (toolFailed h call))
       (\<lambda>res. give (res, phasesOf signals)))"

definition executeOne ::
    "'e host \<Rightarrow> nat \<Rightarrow> runtime_tool list \<Rightarrow> chat_message list \<Rightarrow> tool_call \<Rightarrow> ('e, tool_result) action" where
  "executeOne h idx tools ms call =
     andThen (get (\<lambda>r. now h (env r))) (\<lambda>startedAt.
     andThen
       (case find (\<lambda>t. toolIdent t = callName call) tools of
          None \<Rightarrow>
            (let text = ''Tool '' @ callName call @ '' not found''
             in andThen (emit h (ToolValidation call (Some text))) (\<lambda>_.
                andThen (emit h (ToolStart call startedAt)) (\<lambda>_.
                andThen (toolError h call text ''AGENT_TOOL_NOT_FOUND'' None) (\<lambda>res. give (res, [])))))
        | Some tool \<Rightarrow>
            (case validateToolInput h tool call of
               Inl text \<Rightarrow>
                 andThen (emit h (ToolValidation call (Some text))) (\<lambda>_.
                 andThen (emit h (ToolStart call startedAt)) (\<lambda>_.
                 andThen (toolError h call text ''AGENT_TOOL_INPUT_INVALID'' None) (\<lambda>res. give (res, []))))
             | Inr input \<Rightarrow>
                 andThen (emit h (ToolValidation call None)) (\<lambda>_.
                 andThen (emit h (ToolStart call startedAt)) (\<lambda>_.
                   executeValidatedTool h idx ms call tool input))))
       (\<lambda>(res, phases).
     andThen (get (\<lambda>r. now h (env r))) (\<lambda>t.
     andThen (emit h (ToolFinish call res startedAt (t - startedAt) phases)) (\<lambda>_.
       give res))))"

definition skipToolCall :: "'e host \<Rightarrow> tool_call \<Rightarrow> ('e, tool_result) action" where
  "skipToolCall h call =
     andThen (get (\<lambda>r. now h (env r))) (\<lambda>startedAt.
     andThen (toolError h call ''Skipped due to queued user message.'' ''AGENT_TOOL_SKIPPED'' (Some (JObj []))) (\<lambda>res.
     andThen (emit h (ToolStart call startedAt)) (\<lambda>_.
     andThen (emit h (ToolFinish call res startedAt 0 [])) (\<lambda>_.
       give res))))"

fun skipCalls :: "'e host \<Rightarrow> tool_call list \<Rightarrow> ('e, tool_result list) action" where
  "skipCalls h [] = give []"
| "skipCalls h (c # cs) =
     andThen (skipToolCall h c) (\<lambda>res. andThen (skipCalls h cs) (\<lambda>rest. give (res # rest)))"

text \<open>The loop over the calls; \<open>results\<close> are those pushed so far.\<close>

fun executeCalls ::
    "'e host \<Rightarrow> nat \<Rightarrow> runtime_tool list \<Rightarrow> chat_message list \<Rightarrow> tool_result list \<Rightarrow> tool_call list
      \<Rightarrow> ('e, tool_result list \<times> chat_message list) action" where
  "executeCalls h idx tools ms results [] = give (results, [])"
| "executeCalls h idx tools ms results (c # cs) =
     andThen (throwIfAborted h) (\<lambda>_.
     andThen (executeOne h idx tools ms c) (\<lambda>res.
     andThen (case takeSteeringMessages h of
                None \<Rightarrow> give []
              | Some collect \<Rightarrow> awaited (collect (idx + 1) (ms @ map ToolChat (results @ [res])))) (\<lambda>steer.
       if steer \<noteq> []
       then andThen (skipCalls h cs) (\<lambda>skipped. give (results @ [res] @ skipped, steer))
       else executeCalls h idx tools ms (results @ [res]) cs)))"

text \<open>
  The batch under \<open>interruptible\<close>: whatever it throws once the signal has fired, the abort
  has rejected first.
\<close>

definition executeRuntimeToolCalls ::
    "'e host \<Rightarrow> nat \<Rightarrow> runtime_tool list \<Rightarrow> tool_call list \<Rightarrow> ('e, tool_result list \<times> chat_message list) action" where
  "executeRuntimeToolCalls h idx tools calls =
     andThen (get runMessages) (\<lambda>ms.
       rescue (executeCalls h idx tools ms [] calls)
         (\<lambda>err. andThen (isAborted h) (\<lambda>stop. raise (if stop then abortError else err))))"

section \<open>One round of the loop\<close>

datatype turn_next =
    NextRound "(input_kind \<times> chat_message list) option"
  | EndRun run_status "thrown option"

definition setMessages :: "chat_message list \<Rightarrow> ('e, unit) action" where
  "setMessages ms = update (\<lambda>r. r\<lparr>runMessages := ms\<rparr>)"

definition toolCallsOf :: "assistant \<Rightarrow> tool_call list" where
  "toolCallsOf a =
     concat (map (\<lambda>b. case b of ToolCallBlock c \<Rightarrow> [c] | OtherBlock v \<Rightarrow> []) (assistantContent a))"

definition pick :: "'a option \<Rightarrow> 'a \<Rightarrow> 'a" where
  "pick v fallback = (case v of None \<Rightarrow> fallback | Some x \<Rightarrow> x)"

text \<open>A retry asked for by a checkpoint, with its limit.\<close>

definition recover :: "'e host \<Rightarrow> checkpoint_result \<Rightarrow> thrown option \<Rightarrow> ('e, turn_next) action" where
  "recover h res err =
     andThen (get (\<lambda>r. (recoveryAttempts r, runMessages r))) (\<lambda>(n, ms).
       if n \<ge> limitNat (maxRecoveryAttempts (limits h)) then give (EndRun RecoveryExhausted err)
       else andThen (setMessages (pick (contextMessages res) (pick (viewMessages res) ms))) (\<lambda>_.
            andThen (update (\<lambda>r. r\<lparr>recoveryAttempts := recoveryAttempts r + 1,
                       consecutiveRecoveryAttempts := consecutiveRecoveryAttempts r + 1\<rparr>)) (\<lambda>_.
            andThen (takeInput h Steering) (\<lambda>input.
              give (NextRound input)))))"

text \<open>
  The \<open>try\<close> of a model call. The second component of an error says whether
  \<open>model_call_finish\<close> was sent and which message failed.
\<close>

datatype model_outcome =
    ModelDone
  | ModelFailed (callFinished: bool) (failedCall: "string option") (failedAssistant: "assistant option") thrown

definition recordAnswer ::
    "'e host \<Rightarrow> nat \<Rightarrow> string \<Rightarrow> assistant \<Rightarrow> thrown option \<Rightarrow> ('e, model_outcome) action" where
  "recordAnswer h idx call asst failure =
     andThen (update (\<lambda>r. r\<lparr>lastAssistantMessage := Some asst\<rparr>)) (\<lambda>_.
     andThen (addMessages [AssistantChat asst]) (\<lambda>_.
       case failure of
         Some err \<Rightarrow>
           andThen (emit h (ModelCallFinish idx (Some call) False)) (\<lambda>_.
           andThen (emit h (AssistantMessage asst (case err of AIFailure x \<Rightarrow> Some x | _ \<Rightarrow> None))) (\<lambda>_.
             give (ModelFailed True (Some call) (Some asst) err)))
       | None \<Rightarrow>
           andThen (emit h (ModelCallFinish idx (Some call) True)) (\<lambda>_.
           andThen (emit h (AssistantMessage asst None)) (\<lambda>_.
             give ModelDone))))"

definition callModel ::
    "'e host \<Rightarrow> nat \<Rightarrow> chat_message list \<Rightarrow> runtime_tool list \<Rightarrow> ('e, model_outcome) action" where
  "callModel h idx ms tools =
     rescue
       (andThen (interruptible h (resolveModelCall h idx ms tools)) (\<lambda>call.
        rescue
          (andThen (emit h (ModelCallStart idx (resolvedCallId call) (snapshotId call))) (\<lambda>_.
           andThen (consumeModelResponse h idx call) (\<lambda>(asst, failure).
             recordAnswer h idx (resolvedCallId call) asst failure)))
          (\<lambda>err. give (ModelFailed False (Some (resolvedCallId call)) None err))))
       (\<lambda>err. give (ModelFailed False None None err))"

text \<open>The \<open>catch\<close> of a model call.\<close>

definition modelFailed ::
    "'e host \<Rightarrow> nat \<Rightarrow> bool \<Rightarrow> string option \<Rightarrow> assistant option \<Rightarrow> thrown \<Rightarrow> ('e, turn_next) action" where
  "modelFailed h idx finished call asst err =
     andThen (if finished then give () else emit h (ModelCallFinish idx call False)) (\<lambda>_.
     andThen (isAborted h) (\<lambda>stop.
       if stop then raise err
       else andThen (checkpoint h AfterError idx asst) (\<lambda>recovery.
              case recovery of
                Some res \<Rightarrow> if retry res then recover h res (Some err) else give (EndRun Failed (Some err))
              | None \<Rightarrow> give (EndRun Failed (Some err)))))"

text \<open>A checkpoint may replace the messages of the run for good.\<close>

definition keepContext :: "checkpoint_result option \<Rightarrow> ('e, unit) action" where
  "keepContext res =
     (case res of
        None \<Rightarrow> give ()
      | Some x \<Rightarrow> (case contextMessages x of Some ms \<Rightarrow> setMessages ms | None \<Rightarrow> give ()))"

text \<open>An answer without tool calls: the run ends unless there is more input.\<close>

definition settleAnswer :: "'e host \<Rightarrow> ('e, turn_next) action" where
  "settleAnswer h =
     andThen (update (\<lambda>r. r\<lparr>consecutiveRecoveryAttempts := 0\<rparr>)) (\<lambda>_.
     andThen (takeInput h Steering) (\<lambda>steer.
     andThen (if steer = None then takeInput h Continuation else give steer) (\<lambda>input.
       give (if input = None then EndRun Completed None else NextRound input))))"

definition answerRound :: "'e host \<Rightarrow> nat \<Rightarrow> assistant option \<Rightarrow> ('e, turn_next) action" where
  "answerRound h idx asst =
     andThen (checkpoint h AfterResult idx asst) (\<lambda>completed.
     andThen (keepContext completed) (\<lambda>_.
       case completed of
         Some res \<Rightarrow> if retry res then recover h res None else settleAnswer h
       | None \<Rightarrow> settleAnswer h))"

text \<open>An answer with tool calls.\<close>

definition overLimit :: "jsnum option \<Rightarrow> nat \<Rightarrow> bool" where
  "overLimit limit n = (case limit of None \<Rightarrow> False | Some v \<Rightarrow> n > limitNat v)"

definition toolRound ::
    "'e host \<Rightarrow> nat \<Rightarrow> runtime_tool list \<Rightarrow> tool_call list \<Rightarrow> ('e, turn_next) action" where
  "toolRound h idx tools calls =
     andThen (get toolCalls) (\<lambda>n.
       if overLimit (maxToolCalls (limits h)) (n + length calls)
       then give (EndRun MaxToolCalls None)
       else andThen (update (\<lambda>r. r\<lparr>toolCalls := toolCalls r + length calls, consecutiveRecoveryAttempts := 0\<rparr>)) (\<lambda>_.
            andThen (executeRuntimeToolCalls h idx tools calls) (\<lambda>(results, steer).
            andThen (addMessages (map ToolChat results)) (\<lambda>_.
              give (NextRound (if steer = [] then None else Some (Steering, steer)))))))"

text \<open>The tools and the message view of the next model call.\<close>

definition prepareCall :: "'e host \<Rightarrow> nat \<Rightarrow> ('e, runtime_tool list \<times> chat_message list) action" where
  "prepareCall h idx =
     andThen (get runMessages) (\<lambda>ms0.
     andThen (interruptible h (resolveTools h idx ms0)) (\<lambda>tools.
     andThen (checkpoint h BeforeModelCall idx None) (\<lambda>prepared.
     andThen (keepContext prepared) (\<lambda>_.
     andThen (get runMessages) (\<lambda>ms1.
       give (tools, case prepared of Some res \<Rightarrow> pick (viewMessages res) ms1 | None \<Rightarrow> ms1))))))"

definition afterModel :: "'e host \<Rightarrow> nat \<Rightarrow> runtime_tool list \<Rightarrow> model_outcome \<Rightarrow> ('e, turn_next) action" where
  "afterModel h idx tools outcome =
     (case outcome of
        ModelFailed finished call asst err \<Rightarrow> modelFailed h idx finished call asst err
      | ModelDone \<Rightarrow>
          andThen (isAborted h) (\<lambda>stop.
            if stop then raise abortError
            else andThen (get lastAssistantMessage) (\<lambda>asst.
              let calls = (case asst of None \<Rightarrow> [] | Some a \<Rightarrow> toolCallsOf a)
              in if calls = [] then answerRound h idx asst else toolRound h idx tools calls)))"

definition modelRound :: "'e host \<Rightarrow> nat \<Rightarrow> ('e, turn_next) action" where
  "modelRound h idx =
     andThen (prepareCall h idx) (\<lambda>(tools, ms).
     andThen (update (\<lambda>r. r\<lparr>modelCalls := modelCalls r + 1\<rparr>)) (\<lambda>_.
     andThen (callModel h idx ms tools) (afterModel h idx tools)))"

definition atLimit :: "jsnum option \<Rightarrow> nat \<Rightarrow> bool" where
  "atLimit limit n = (case limit of None \<Rightarrow> False | Some v \<Rightarrow> n \<ge> limitNat v)"

definition turnRound :: "'e host \<Rightarrow> (input_kind \<times> chat_message list) option \<Rightarrow> ('e, turn_next) action" where
  "turnRound h pending =
     andThen (throwIfAborted h) (\<lambda>_.
     andThen (case pending of None \<Rightarrow> give () | Some (kind, ms) \<Rightarrow> appendInput h kind ms) (\<lambda>_.
     andThen (get modelCalls) (\<lambda>idx.
       if atLimit (maxModelCalls (limits h)) idx then give (EndRun MaxModelCalls None) else modelRound h idx)))"

section \<open>The run\<close>

definition finish :: "'e host \<Rightarrow> run_status \<Rightarrow> thrown option \<Rightarrow> 'e run \<Rightarrow> 'e run" where
  "finish h status err r =
     snd (emit h (RunFinish
       \<lparr>resultStatus = status, resultMessages = runMessages r, resultModelCalls = modelCalls r,
        resultToolCalls = toolCalls r, resultRecoveryAttempts = recoveryAttempts r,
        resultAssistant = lastAssistantMessage r, resultFailure = map_option failureOf err\<rparr>) r)"

definition finishThrown :: "'e host \<Rightarrow> thrown \<Rightarrow> 'e run \<Rightarrow> 'e run" where
  "finishThrown h err r = finish h (if aborted h (env r) then Aborted else Failed) (Some err) r"

partial_function (option) turnLoop ::
    "'e host \<Rightarrow> (input_kind \<times> chat_message list) option \<Rightarrow> 'e run \<Rightarrow> 'e run option" where
  "turnLoop h pending r =
     (case turnRound h pending r of
        (Inl err, r') \<Rightarrow> Some (finishThrown h err r')
      | (Inr (EndRun status err), r') \<Rightarrow> Some (finish h status err r')
      | (Inr (NextRound input), r') \<Rightarrow> turnLoop h input r')"

declare turnLoop.simps [code]

definition startRun :: "'e host \<Rightarrow> chat_message list \<Rightarrow> 'e \<Rightarrow> 'e run" where
  "startRun h ms e =
     snd (emit h RunStart
       \<lparr>runMessages = ms, modelCalls = 0, toolCalls = 0, recoveryAttempts = 0, consecutiveRecoveryAttempts = 0,
        lastAssistantMessage = None, streamEvents = [], streamDone = False, env = e\<rparr>)"

definition executeRun :: "'e host \<Rightarrow> chat_message list \<Rightarrow> 'e \<Rightarrow> 'e run option" where
  "executeRun h ms e =
     (case takeInput h Steering (startRun h ms e) of
        (Inl err, r) \<Rightarrow> Some (finishThrown h err r)
      | (Inr input, r) \<Rightarrow> turnLoop h input r)"

text \<open>Invalid limits are thrown before the run starts.\<close>

definition runAgentTurn :: "'e host \<Rightarrow> chat_message list \<Rightarrow> 'e \<Rightarrow> (string + 'e run) option" where
  "runAgentTurn h ms e =
     (case validateAgentRunLimits (limits h) of
        Inl err \<Rightarrow> Some (Inl err)
      | Inr _ \<Rightarrow> map_option Inr (executeRun h ms e))"

end
