(* ===== verification/TurnProperties.thy ===== *)
theory TurnProperties
  imports TurnEngine
begin

text \<open>
  What a turn guarantees whatever its host does: its limits, its termination, the shape of its
  event stream, one result per tool call, and how it ends.
\<close>

section \<open>Invariants of actions\<close>

text \<open>\<open>keeps I m\<close>: the action \<open>m\<close> keeps \<open>I\<close>, also when it throws.\<close>

definition keeps :: "('e run \<Rightarrow> bool) \<Rightarrow> ('e, 'a) action \<Rightarrow> bool" where
  "keeps I m = (\<forall>r. I r \<longrightarrow> I (snd (m r)))"

lemma keepsD: "keeps I m \<Longrightarrow> m r = (x, r') \<Longrightarrow> I r \<Longrightarrow> I r'"
  unfolding keeps_def by (metis snd_conv)

lemma keeps_basic [inv_intros]:
  "keeps I (give x)" "keeps I (raise err)" "keeps I (get g)" "keeps I (isAborted h)" "keeps I (throwIfAborted h)"
  by (simp_all add: keeps_def give_def raise_def get_def isAborted_def throwIfAborted_def)

lemma keeps_andThen [inv_intros]: "keeps I m \<Longrightarrow> (\<And>x. keeps I (g x)) \<Longrightarrow> keeps I (andThen m g)"
  by (auto simp: keeps_def andThen_def split: prod.split sum.split)

lemma keeps_rescue [inv_intros]: "keeps I m \<Longrightarrow> (\<And>err. keeps I (g err)) \<Longrightarrow> keeps I (rescue m g)"
  by (auto simp: keeps_def rescue_def split: prod.split sum.split)

lemma keeps_update: "(\<And>r. I r \<Longrightarrow> I (u r)) \<Longrightarrow> keeps I (update u)"
  by (simp add: keeps_def update_def)

text \<open>An invariant that events, the environment and the messages do not touch.\<close>

definition stable :: "('e run \<Rightarrow> bool) \<Rightarrow> bool" where
  "stable I = ((\<forall>r ev. I r \<longrightarrow> \<not> isRunFinish ev \<longrightarrow> I (push ev r)) \<and>
     (\<forall>r e. I r \<longrightarrow> I (r\<lparr>env := e\<rparr>)) \<and> (\<forall>r ms. I r \<longrightarrow> I (r\<lparr>runMessages := ms\<rparr>)))"

lemma stable_counters:
  "stable (\<lambda>r. modelCalls r = n)" "stable (\<lambda>r. toolCalls r = n)" "stable (\<lambda>r. recoveryAttempts r = n)"
  "stable (\<lambda>r. lastAssistantMessage r = a)"
  by (simp_all add: stable_def push_def)

lemma keeps_emit [inv_intros]: "stable I \<Longrightarrow> \<not> isRunFinish ev \<Longrightarrow> keeps I (emit h ev)"
  by (auto simp: emit_def Let_def stable_def intro!: keeps_update split: option.split)

lemma keeps_act [inv_intros]: "stable I \<Longrightarrow> keeps I (act call)"
  by (simp add: keeps_def act_def stable_def split: prod.split)

lemma keeps_messages [inv_intros]: "stable I \<Longrightarrow> keeps I (setMessages ms)" "stable I \<Longrightarrow> keeps I (addMessages ms)"
  by (auto simp: setMessages_def addMessages_def stable_def intro!: keeps_update)

lemma keeps_interruptible [inv_intros]:
  "stable I \<Longrightarrow> keeps I (interruptible h call)" "stable I \<Longrightarrow> keeps I (awaited call)"
  "stable I \<Longrightarrow> keeps I (withTimeout h call')"
  unfolding interruptible_def awaited_def withTimeout_def
  by (auto intro!: inv_intros split: settled.split)

lemma keeps_checkpoint [inv_intros]: "stable I \<Longrightarrow> keeps I (checkpoint h reason idx asst)"
  unfolding checkpoint_def by (auto intro!: inv_intros split: option.split)

lemma keeps_takeInput [inv_intros]: "stable I \<Longrightarrow> keeps I (takeInput h kind)"
  unfolding takeInput_def by (auto intro!: inv_intros split: option.split)

lemma keeps_appendInput [inv_intros]: "stable I \<Longrightarrow> keeps I (appendInput h kind ms)"
  by (induction ms) (auto intro!: inv_intros)

lemma keeps_forwardEvents [inv_intros]: "stable I \<Longrightarrow> keeps I (forwardEvents h idx evs partial)"
proof (induction evs arbitrary: partial)
  case Nil
  then show ?case by (auto intro!: inv_intros)
next
  case (Cons ev evs)
  then show ?case by (auto intro!: inv_intros split: stream_event.split)
qed

lemma keeps_salvage [inv_intros]: "stable I \<Longrightarrow> keeps I (salvageResponse h call partial err)"
  unfolding salvageResponse_def by (auto intro!: inv_intros split: option.split)

lemma keeps_consume [inv_intros]: "stable I \<Longrightarrow> keeps I (consumeModelResponse h idx call)"
  unfolding consumeModelResponse_def
  by (auto intro!: inv_intros split: option.split consumed.split)

lemma keeps_toolError [inv_intros]: "keeps I (toolError h call text code dt)"
  unfolding toolError_def by (rule inv_intros)

lemma keeps_toolFailed [inv_intros]: "keeps I (toolFailed h call err)"
  unfolding toolFailed_def by (auto intro!: inv_intros)

lemma keeps_relaySignals [inv_intros]: "stable I \<Longrightarrow> keeps I (relaySignals h call ss)"
  by (induction ss) (auto intro!: inv_intros split: tool_signal.split)

lemma keeps_executeOne [inv_intros]: "stable I \<Longrightarrow> keeps I (executeOne h idx tools ms call)"
  unfolding executeOne_def executeValidatedTool_def settledTool_def Let_def
  by (auto intro!: inv_intros split: option.split sum.split settled.split)

lemma keeps_skipCalls [inv_intros]: "stable I \<Longrightarrow> keeps I (skipCalls h calls)"
  by (induction calls) (auto simp: skipToolCall_def intro!: inv_intros)

lemma keeps_executeCalls [inv_intros]: "stable I \<Longrightarrow> keeps I (executeCalls h idx tools ms results calls)"
  by (induction calls arbitrary: results) (auto intro!: inv_intros split: option.split)

lemma keeps_toolBatch [inv_intros]: "stable I \<Longrightarrow> keeps I (executeRuntimeToolCalls h idx tools calls)"
  unfolding executeRuntimeToolCalls_def by (auto intro!: inv_intros)

lemma keeps_keepContext [inv_intros]: "stable I \<Longrightarrow> keeps I (keepContext res)"
  unfolding keepContext_def by (auto intro!: inv_intros split: option.split)

lemma keeps_callModel [inv_intros]:
  "stable I \<Longrightarrow> (\<And>r a. I r \<Longrightarrow> I (r\<lparr>lastAssistantMessage := a\<rparr>)) \<Longrightarrow> keeps I (callModel h idx ms tools)"
  unfolding callModel_def recordAnswer_def by (auto intro!: inv_intros keeps_update split: option.split)

lemma keeps_settleAnswer [inv_intros]:
  "stable I \<Longrightarrow> (\<And>r a. I r \<Longrightarrow> I (r\<lparr>consecutiveRecoveryAttempts := a\<rparr>)) \<Longrightarrow> keeps I (settleAnswer h)"
  unfolding settleAnswer_def by (auto intro!: inv_intros keeps_update)

lemma keeps_prepareCall [inv_intros]: "stable I \<Longrightarrow> keeps I (prepareCall h idx)"
  unfolding prepareCall_def by (auto intro!: inv_intros)

section \<open>The counters of one round\<close>

lemma keeps_get: "(\<And>r. I r \<Longrightarrow> I (snd (g (f r) r))) \<Longrightarrow> keeps I (andThen (get f) g)"
  by (simp add: keeps_def andThen_def get_def)

lemma update_then: "andThen (update u) g r = g () (u r)"
  by (simp add: andThen_def update_def)

text \<open>An invariant that does not look at the recovery counters or the last answer.\<close>

definition recoveryFree :: "('e run \<Rightarrow> bool) \<Rightarrow> bool" where
  "recoveryFree I = ((\<forall>r a b. I r \<longrightarrow> I (r\<lparr>recoveryAttempts := a, consecutiveRecoveryAttempts := b\<rparr>)) \<and>
     (\<forall>r b. I r \<longrightarrow> I (r\<lparr>consecutiveRecoveryAttempts := b\<rparr>)))"

lemma keeps_recover: "stable I \<Longrightarrow> recoveryFree I \<Longrightarrow> keeps I (recover h res err)"
  unfolding recover_def recoveryFree_def by (auto intro!: inv_intros keeps_update)

lemma keeps_modelFailed: "stable I \<Longrightarrow> recoveryFree I \<Longrightarrow> keeps I (modelFailed h idx fin call asst err)"
  unfolding modelFailed_def by (auto intro!: inv_intros keeps_recover split: option.split)

lemma keeps_answerRound: "stable I \<Longrightarrow> recoveryFree I \<Longrightarrow> keeps I (answerRound h idx asst)"
  unfolding answerRound_def
  by (auto intro!: inv_intros keeps_recover simp: recoveryFree_def split: option.split)

lemma keeps_toolRound:
  "stable I \<Longrightarrow> (\<And>r a b. I r \<Longrightarrow> I (r\<lparr>toolCalls := a, consecutiveRecoveryAttempts := b\<rparr>))
    \<Longrightarrow> keeps I (toolRound h idx tools calls)"
  unfolding toolRound_def by (auto intro!: inv_intros keeps_update)

lemma keeps_afterModel:
  "stable I \<Longrightarrow> recoveryFree I \<Longrightarrow> (\<And>r a b. I r \<Longrightarrow> I (r\<lparr>toolCalls := a, consecutiveRecoveryAttempts := b\<rparr>))
    \<Longrightarrow> keeps I (afterModel h idx tools outcome)"
  unfolding afterModel_def Let_def
  by (auto intro!: inv_intros keeps_modelFailed keeps_answerRound keeps_toolRound split: model_outcome.split)

text \<open>A round makes one model call, or throws before it makes one.\<close>

lemma modelRound_calls:
  assumes "modelRound h idx r = (res, r')"
  shows "modelCalls r' = Suc (modelCalls r) \<or> (\<exists>err. res = Inl err) \<and> modelCalls r' = modelCalls r"
proof (cases "prepareCall h idx r")
  case (Pair x r1)
  have same: "modelCalls r1 = modelCalls r"
    using keepsD [OF keeps_prepareCall [OF stable_counters(1)] Pair] by simp
  show ?thesis
  proof (cases x)
    case (Inl err)
    with assms Pair same show ?thesis by (auto simp: modelRound_def andThen_def)
  next
    case (Inr p)
    obtain tools ms where p: "p = (tools, ms)" by (cases p)
    let ?r2 = "r1\<lparr>modelCalls := Suc (modelCalls r1)\<rparr>"
    have "keeps (\<lambda>r. modelCalls r = Suc (modelCalls r1)) (andThen (callModel h idx ms tools) (afterModel h idx tools))"
      by (auto intro!: inv_intros keeps_afterModel stable_counters simp: recoveryFree_def)
    moreover have "andThen (callModel h idx ms tools) (afterModel h idx tools) ?r2 = (res, r')"
      using assms Pair Inr p by (simp add: modelRound_def andThen_def [of "prepareCall h idx"] update_then)
    ultimately have "modelCalls r' = Suc (modelCalls r1)" by (rule keepsD) simp
    with same show ?thesis by simp
  qed
qed

lemma turnRound_calls:
  assumes "turnRound h pending r = (res, r')"
  shows "modelCalls r' = modelCalls r \<and> (\<forall>input. res \<noteq> Inr (NextRound input)) \<or>
    modelCalls r' = Suc (modelCalls r) \<and> \<not> atLimit (maxModelCalls (limits h)) (modelCalls r)"
proof -
  let ?m = "andThen (throwIfAborted h) (\<lambda>_. case pending of None \<Rightarrow> give () | Some (kind, ms) \<Rightarrow> appendInput h kind ms)"
  have round: "turnRound h pending = andThen ?m (\<lambda>_. andThen (get modelCalls) (\<lambda>idx.
      if atLimit (maxModelCalls (limits h)) idx then give (EndRun MaxModelCalls None) else modelRound h idx))"
    by (rule ext) (simp add: turnRound_def andThen_def split: prod.split sum.split)
  obtain x r1 where pre: "?m r = (x, r1)" by (cases "?m r")
  have "keeps (\<lambda>r'. modelCalls r' = modelCalls r) ?m"
    by (auto intro!: inv_intros stable_counters split: option.split)
  with pre have same: "modelCalls r1 = modelCalls r" by (auto dest: keepsD)
  show ?thesis
  proof (cases x)
    case (Inl err)
    with assms pre same show ?thesis unfolding round by (auto simp: andThen_def [of ?m])
  next
    case (Inr u)
    show ?thesis
    proof (cases "atLimit (maxModelCalls (limits h)) (modelCalls r1)")
      case True
      with assms pre Inr have "give (EndRun MaxModelCalls None) r1 = (res, r')"
        unfolding round by (simp add: andThen_def [of ?m] andThen_def [of "get modelCalls"] get_def)
      with same show ?thesis by (auto simp: give_def)
    next
      case False
      with assms pre Inr have "modelRound h (modelCalls r1) r1 = (res, r')"
        unfolding round by (simp add: andThen_def [of ?m] andThen_def [of "get modelCalls"] get_def)
      with same False show ?thesis by (auto dest!: modelRound_calls)
    qed
  qed
qed

section \<open>The loop\<close>

lemma keeps_turnRound:
  assumes "stable I" "\<And>r a. I r \<Longrightarrow> I (r\<lparr>lastAssistantMessage := a\<rparr>)"
    "\<And>r n. I r \<Longrightarrow> I (r\<lparr>modelCalls := n\<rparr>)" "\<And>idx tools out. keeps I (afterModel h idx tools out)"
  shows "keeps I (turnRound h pending)"
  unfolding turnRound_def modelRound_def
  using assms by (auto intro!: inv_intros keeps_update split: option.split)

lemma keeps_if_update:
  assumes "\<And>r. I r \<Longrightarrow> \<not> P (f r) \<Longrightarrow> I (u r)" "keeps I (g ())"
  shows "keeps I (andThen (get f) (\<lambda>n. if P n then give x else andThen (update u) g))"
  using assms by (auto simp: keeps_def andThen_def get_def update_def give_def)

text \<open>The limits, as invariants of a round.\<close>

lemma round_toolCalls: "keeps (\<lambda>r. \<not> overLimit (maxToolCalls (limits h)) (toolCalls r)) (turnRound h pending)"
proof (rule keeps_turnRound)
  let ?I = "\<lambda>r. \<not> overLimit (maxToolCalls (limits h)) (toolCalls r)"
  show st: "stable ?I" by (simp add: stable_def push_def)
  have "keeps ?I (toolRound h idx tools calls)" for idx tools calls
    unfolding toolRound_def by (rule keeps_if_update) (auto intro!: inv_intros st)
  then show "keeps ?I (afterModel h idx tools out)" for idx tools out
    unfolding afterModel_def Let_def using st
    by (auto intro!: inv_intros keeps_modelFailed keeps_answerRound simp: recoveryFree_def split: model_outcome.split)
qed simp_all

lemma round_recovery:
  "keeps (\<lambda>r. recoveryAttempts r \<le> limitNat (maxRecoveryAttempts (limits h))) (turnRound h pending)"
proof (rule keeps_turnRound)
  let ?I = "\<lambda>r. recoveryAttempts r \<le> limitNat (maxRecoveryAttempts (limits h))"
  show st: "stable ?I" by (simp add: stable_def push_def)
  have rec: "keeps ?I (recover h res err)" for res err
  proof -
    have "?I (snd (recover h res err r))" if "?I r" for r
    proof (cases "limitNat (maxRecoveryAttempts (limits h)) \<le> recoveryAttempts r")
      case True
      with that show ?thesis by (simp add: recover_def andThen_def get_def give_def)
    next
      case False
      let ?ms = "pick (contextMessages res) (pick (viewMessages res) (runMessages r))"
      let ?r = "r\<lparr>runMessages := ?ms, recoveryAttempts := Suc (recoveryAttempts r),
          consecutiveRecoveryAttempts := Suc (consecutiveRecoveryAttempts r)\<rparr>"
      have "keeps ?I (andThen (takeInput h Steering) (\<lambda>input. give (NextRound input)))"
        by (auto intro!: inv_intros st)
      then have "?I (snd (andThen (takeInput h Steering) (\<lambda>input. give (NextRound input)) ?r))"
        using False by (simp add: keeps_def)
      with False show ?thesis
        by (simp add: recover_def andThen_def [of "get f" for f] get_def setMessages_def update_then)
    qed
    then show ?thesis by (simp add: keeps_def)
  qed
  have "keeps ?I (modelFailed h idx fin call asst err)" "keeps ?I (answerRound h idx asst)" for idx fin call asst err
    unfolding modelFailed_def answerRound_def using st rec by (auto intro!: inv_intros split: option.split)
  then show "keeps ?I (afterModel h idx tools out)" for idx tools out
    unfolding afterModel_def Let_def using st
    by (auto intro!: inv_intros keeps_toolRound split: model_outcome.split)
qed simp_all

lemma round_modelCalls: "keeps (\<lambda>r. \<not> overLimit (maxModelCalls (limits h)) (modelCalls r)) (turnRound h pending)"
  unfolding keeps_def
proof (intro allI impI)
  fix r :: "'a run"
  assume "\<not> overLimit (maxModelCalls (limits h)) (modelCalls r)"
  moreover obtain res r' where "turnRound h pending r = (res, r')" by (cases "turnRound h pending r")
  ultimately show "\<not> overLimit (maxModelCalls (limits h)) (modelCalls (snd (turnRound h pending r)))"
    using turnRound_calls [of h pending r res r']
    by (auto simp: overLimit_def atLimit_def split: option.splits)
qed

text \<open>The stream of a run that has not ended.\<close>

definition openStream :: "'e run \<Rightarrow> bool" where
  "openStream r = (\<not> streamDone r \<and> streamEvents r \<noteq> [] \<and> hd (streamEvents r) = RunStart \<and>
     (\<forall>ev \<in> set (streamEvents r). \<not> isRunFinish ev))"

lemma stable_openStream: "stable openStream"
  by (auto simp: stable_def openStream_def push_def)

lemma round_openStream: "keeps openStream (turnRound h pending)"
  by (rule keeps_turnRound)
    (auto intro!: stable_openStream keeps_afterModel simp: openStream_def recoveryFree_def)

definition goodRun :: "'e host \<Rightarrow> 'e run \<Rightarrow> bool" where
  "goodRun h r =
     (openStream r \<and> \<not> overLimit (maxModelCalls (limits h)) (modelCalls r) \<and>
      \<not> overLimit (maxToolCalls (limits h)) (toolCalls r) \<and>
      recoveryAttempts r \<le> limitNat (maxRecoveryAttempts (limits h)))"

lemma keeps_conj: "keeps I m \<Longrightarrow> keeps J m \<Longrightarrow> keeps (\<lambda>r. I r \<and> J r) m"
  by (simp add: keeps_def)

lemma round_good: "keeps (goodRun h) (turnRound h pending)"
  unfolding goodRun_def
  by (intro keeps_conj round_openStream round_modelCalls round_toolCalls round_recovery)

text \<open>How a loop ends: with the end of a round, or with what a round threw.\<close>

definition endedBy :: "'e host \<Rightarrow> run_status \<Rightarrow> thrown option \<Rightarrow> 'e run \<Rightarrow> bool" where
  "endedBy h status err r1 =
     (goodRun h r1 \<and>
      ((\<exists>pending r0. turnRound h pending r0 = (Inr (EndRun status err), r1)) \<or>
       (\<exists>x. err = Some x \<and> status = (if aborted h (env r1) then Aborted else Failed))))"

lemma turnLoop_ends:
  assumes "turnLoop h pending r = Some r'"
  shows "goodRun h r \<Longrightarrow> \<exists>status err r1. endedBy h status err r1 \<and> r' = finish h status err r1"
proof -
  let ?P = "\<lambda>h pending r r'. goodRun h r \<longrightarrow> (\<exists>status err r1. endedBy h status err r1 \<and> r' = finish h status err r1)"
  have "?P h pending r r'"
  proof (rule turnLoop.raw_induct [where P = ?P, OF _ assms])
    fix loop and h :: "'a host" and pending r r'
    assume IH: "\<And>h pending r r'. loop h pending r = Some r' \<Longrightarrow> ?P h pending r r'"
      and step: "(case turnRound h pending r of
        (Inl err, r') \<Rightarrow> Some (finishThrown h err r')
      | (Inr (NextRound input), r') \<Rightarrow> loop h input r'
      | (Inr (EndRun status err), r') \<Rightarrow> Some (finish h status err r')) = Some r'"
    obtain res r1 where round: "turnRound h pending r = (res, r1)" by (cases "turnRound h pending r")
    show "?P h pending r r'"
    proof
      assume "goodRun h r"
      then have good: "goodRun h r1" using keepsD [OF round_good round] by blast
      show "\<exists>status err r1. endedBy h status err r1 \<and> r' = finish h status err r1"
      proof (cases res)
        case (Inl err)
        then have "r' = finish h (if aborted h (env r1) then Aborted else Failed) (Some err) r1"
          using step round by (simp add: finishThrown_def)
        moreover have "endedBy h (if aborted h (env r1) then Aborted else Failed) (Some err) r1"
          by (simp add: endedBy_def good)
        ultimately show ?thesis by blast
      next
        case (Inr nxt)
        show ?thesis
        proof (cases nxt)
          case (NextRound input)
          then have "loop h input r1 = Some r'" using step round Inr by simp
          from IH [OF this] good show ?thesis by blast
        next
          case (EndRun status err)
          then have "r' = finish h status err r1" using step round Inr by simp
          moreover have "endedBy h status err r1" using round Inr EndRun good unfolding endedBy_def by blast
          ultimately show ?thesis by blast
        qed
      qed
    qed
  qed
  then show "goodRun h r \<Longrightarrow> \<exists>status err r1. endedBy h status err r1 \<and> r' = finish h status err r1" by blast
qed

lemma turnLoop_returns:
  assumes limit: "maxModelCalls (limits h) = Some v"
  shows "\<exists>r'. turnLoop h pending r = Some r'"
proof (induction "limitNat v - modelCalls r" arbitrary: pending r rule: less_induct)
  case less
  obtain res r1 where round: "turnRound h pending r = (res, r1)" by (cases "turnRound h pending r")
  show ?case
  proof (cases "\<exists>input. res = Inr (NextRound input)")
    case False
    with round show ?thesis by (subst turnLoop.simps) (auto split: sum.split turn_next.split)
  next
    case True
    then obtain input where res: "res = Inr (NextRound input)" by blast
    have "modelCalls r1 = Suc (modelCalls r)" "modelCalls r < limitNat v"
      using turnRound_calls [OF round] res limit by (auto simp: atLimit_def)
    then have "limitNat v - modelCalls r1 < limitNat v - modelCalls r" by linarith
    from less [OF this, of input] round res show ?thesis by (subst turnLoop.simps) simp
  qed
qed

lemma startRun_good: "goodRun h (startRun h ms e)"
  by (auto simp: goodRun_def openStream_def startRun_def emit_def update_def push_def Let_def overLimit_def
      split: option.split)

lemma stable_conj: "stable I \<Longrightarrow> stable J \<Longrightarrow> stable (\<lambda>r. I r \<and> J r)"
  by (simp add: stable_def)

lemma takeInput_good: "keeps (goodRun h) (takeInput h kind)"
proof -
  have "stable (goodRun h)"
    unfolding goodRun_def
    by (intro stable_conj stable_openStream) (simp_all add: stable_def push_def)
  then show ?thesis by (rule inv_intros)
qed

lemma executeRun_ends:
  assumes "executeRun h ms e = Some r'"
  obtains status err r1 where "endedBy h status err r1" "r' = finish h status err r1"
proof (cases "takeInput h Steering (startRun h ms e)")
  case (Pair res r)
  then have good: "goodRun h r" using keepsD [OF takeInput_good Pair startRun_good] by blast
  show thesis
  proof (cases res)
    case (Inl err)
    then have "r' = finish h (if aborted h (env r) then Aborted else Failed) (Some err) r"
      using assms Pair by (simp add: executeRun_def finishThrown_def)
    then show thesis by (rule that [rotated]) (simp add: endedBy_def good)
  next
    case (Inr input)
    then have "turnLoop h input r = Some r'" using assms Pair by (simp add: executeRun_def)
    from turnLoop_ends [OF this good] that show thesis by blast
  qed
qed

lemma executeRun_returns: "maxModelCalls (limits h) = Some v \<Longrightarrow> \<exists>r. executeRun h ms e = Some r"
  using turnLoop_returns [of h v]
  by (cases "takeInput h Steering (startRun h ms e)") (auto simp: executeRun_def split: sum.split)

lemma finish_stream:
  assumes "\<not> streamDone r"
  shows "\<exists>result. streamEvents (finish h status err r) = streamEvents r @ [RunFinish result] \<and>
    resultStatus result = status \<and> resultModelCalls result = modelCalls r \<and> resultToolCalls result = toolCalls r \<and>
    resultRecoveryAttempts result = recoveryAttempts r \<and> resultMessages result = runMessages r \<and>
    resultAssistant result = lastAssistantMessage r \<and> resultFailure result = map_option failureOf err"
  using assms by (auto simp: finish_def emit_def update_def push_def Let_def split: option.split)

section \<open>What an action returns\<close>

definition yields :: "('e, 'a) action \<Rightarrow> ('a \<Rightarrow> bool) \<Rightarrow> bool" where
  "yields m P = (\<forall>r x r'. m r = (Inr x, r') \<longrightarrow> P x)"

lemma yieldsD: "yields m P \<Longrightarrow> m r = (Inr x, r') \<Longrightarrow> P x"
  unfolding yields_def by blast

lemma andThen_cases:
  assumes "andThen m g r = (Inr y, r')"
  obtains x r1 where "m r = (Inr x, r1)" "g x r1 = (Inr y, r')"
  using assms by (auto simp: andThen_def split: prod.splits sum.splits)

lemma yields_basic:
  "P x \<Longrightarrow> yields (give x) P" "yields (raise err) P" "(\<And>r. P (f r)) \<Longrightarrow> yields (get f) P"
  by (simp_all add: yields_def give_def raise_def get_def)

lemma yields_bind: "yields m Q \<Longrightarrow> (\<And>x. Q x \<Longrightarrow> yields (g x) P) \<Longrightarrow> yields (andThen m g) P"
  unfolding yields_def andThen_def by (auto split: prod.splits sum.splits) blast

lemma yields_then: "(\<And>x. yields (g x) P) \<Longrightarrow> yields (andThen m g) P"
  by (auto simp: yields_def andThen_def split: prod.splits sum.splits)

lemma yields_rescue: "yields m P \<Longrightarrow> (\<And>err. yields (g err) P) \<Longrightarrow> yields (rescue m g) P"
  by (auto simp: yields_def rescue_def split: prod.splits sum.splits)

lemmas yields_rules = yields_basic yields_then yields_rescue

lemma toolError_yields: "yields (toolError h call text code dt) (\<lambda>res. resultCallId res = callId call \<and> resultIsError res)"
  by (simp add: toolError_def yields_def get_def)

lemma toolFailed_yields: "yields (toolFailed h call err) (\<lambda>res. resultCallId res = callId call)"
  unfolding toolFailed_def
  by (rule yields_then) (use toolError_yields in \<open>fastforce simp: yields_def\<close>)

lemma executeValidatedTool_yields:
  "yields (executeValidatedTool h idx ms call tool input) (\<lambda>(res, phases). resultCallId res = callId call)"
proof -
  let ?settle = "\<lambda>outcome. rescue (andThen (settledTool outcome) (\<lambda>out.
             get (\<lambda>r. \<lparr>resultCallId = callId call, resultToolName = callName call,
               resultContent = outputContent out, resultDetails = outputDetails out,
               resultIsError = (outputIsError out = Some True), resultTime = now h (env r)\<rparr>)))
          (toolFailed h call)"
  have "yields (?settle outcome) (\<lambda>res. resultCallId res = callId call)" for outcome
    by (auto intro!: yields_rules toolFailed_yields)
  then have "yields (andThen (?settle outcome) (\<lambda>res. give (res, phases)))
      (\<lambda>(res, phases). resultCallId res = callId call)" for outcome and phases :: "(string \<times> int) list"
    by (rule yields_bind) (auto intro: yields_basic)
  then show ?thesis
    unfolding executeValidatedTool_def by (intro yields_then) (auto split: prod.split)
qed

lemma executeOne_yields: "yields (executeOne h idx tools ms call) (\<lambda>res. resultCallId res = callId call)"
proof -
  have err: "yields (andThen (toolError h call t code dt) (\<lambda>res. give (res, [] :: (string \<times> int) list)))
      (\<lambda>(res, phases). resultCallId res = callId call)" for t code dt
    by (rule yields_bind [OF toolError_yields]) (auto intro: yields_basic)
  show ?thesis
    unfolding executeOne_def
    by (rule yields_then, rule yields_bind [where Q = "\<lambda>(res, phases). resultCallId res = callId call"])
      (auto intro!: yields_then err executeValidatedTool_yields intro: yields_basic simp: Let_def
        split: option.split sum.split)
qed

definition isSkipped :: "tool_call \<Rightarrow> tool_result \<Rightarrow> bool" where
  "isSkipped call res = (resultCallId res = callId call \<and> resultIsError res \<and> resultDetails res = Some (JObj []))"

lemma skipToolCall_yields: "yields (skipToolCall h call) (isSkipped call)"
proof -
  have err: "yields (toolError h call t code (Some (JObj []))) (isSkipped call)" for t code
    by (simp add: isSkipped_def yields_def toolError_def get_def)
  show ?thesis
    unfolding skipToolCall_def
    by (rule yields_then, rule yields_bind [OF err], intro yields_then, rule yields_basic)
qed

lemma skipCalls_yields: "yields (skipCalls h calls) (list_all2 isSkipped calls)"
proof (induction calls)
  case Nil
  then show ?case by (auto intro: yields_basic)
next
  case (Cons c cs)
  have "yields (andThen (skipCalls h cs) (\<lambda>rest. give (res # rest))) (list_all2 isSkipped (c # cs))"
    if "isSkipped c res" for res
    by (rule yields_bind [OF Cons.IH]) (auto intro!: yields_basic that)
  with skipToolCall_yields show ?case unfolding skipCalls.simps by (rule yields_bind)
qed

text \<open>
  One step of the batch: a call is executed, then the steering messages are asked for. The calls of
  \<open>quietCalls\<close> are those executed one after the other while nothing has come.
\<close>

definition callAndPoll ::
    "'e host \<Rightarrow> nat \<Rightarrow> runtime_tool list \<Rightarrow> chat_message list \<Rightarrow> tool_result list \<Rightarrow> tool_call
      \<Rightarrow> ('e, tool_result \<times> chat_message list) action" where
  "callAndPoll h idx tools ms results c =
     andThen (throwIfAborted h) (\<lambda>_.
     andThen (executeOne h idx tools ms c) (\<lambda>res.
     andThen (case takeSteeringMessages h of
                None \<Rightarrow> give []
              | Some collect \<Rightarrow> awaited (collect (idx + 1) (ms @ map ToolChat (results @ [res])))) (\<lambda>steer.
       give (res, steer))))"

fun quietCalls ::
    "'e host \<Rightarrow> nat \<Rightarrow> runtime_tool list \<Rightarrow> chat_message list \<Rightarrow> tool_result list \<Rightarrow> tool_call list
      \<Rightarrow> 'e run \<Rightarrow> (tool_result list \<times> 'e run) option" where
  "quietCalls h idx tools ms results [] r = Some (results, r)"
| "quietCalls h idx tools ms results (c # cs) r =
     (case callAndPoll h idx tools ms results c r of
        (Inr (res, []), r1) \<Rightarrow> quietCalls h idx tools ms (results @ [res]) cs r1
      | _ \<Rightarrow> None)"

lemma executeCalls_step:
  "executeCalls h idx tools ms results (c # cs) =
     andThen (callAndPoll h idx tools ms results c) (\<lambda>(res, steer).
       if steer \<noteq> []
       then andThen (skipCalls h cs) (\<lambda>skipped. give (results @ [res] @ skipped, steer))
       else executeCalls h idx tools ms (results @ [res]) cs)"
  by (rule ext) (simp add: callAndPoll_def andThen_def give_def split: prod.split sum.split)

lemma callAndPoll_yields: "yields (callAndPoll h idx tools ms results c) (\<lambda>(res, steer). resultCallId res = callId c)"
  unfolding callAndPoll_def
  by (rule yields_then, rule yields_bind [OF executeOne_yields]) (auto intro!: yields_then yields_basic)

text \<open>How a batch that started with \<open>results\<close> came to its end.\<close>

definition batchRan ::
    "'e host \<Rightarrow> nat \<Rightarrow> runtime_tool list \<Rightarrow> chat_message list \<Rightarrow> tool_result list \<Rightarrow> tool_call list
      \<Rightarrow> 'e run \<Rightarrow> tool_result list \<Rightarrow> chat_message list \<Rightarrow> 'e run \<Rightarrow> bool" where
  "batchRan h idx tools ms results calls r out steer r' =
     (if steer = [] then quietCalls h idx tools ms results calls r = Some (out, r')
      else \<exists>before c rest ran res skipped r1 r2.
        calls = before @ c # rest \<and> out = ran @ res # skipped \<and>
        quietCalls h idx tools ms results before r = Some (ran, r1) \<and>
        callAndPoll h idx tools ms ran c r1 = (Inr (res, steer), r2) \<and>
        skipCalls h rest r2 = (Inr skipped, r') \<and> list_all2 isSkipped rest skipped)"

lemma isSkipped_ids: "list_all2 isSkipped cs skipped \<Longrightarrow> map resultCallId skipped = map callId cs"
  by (induction rule: list_all2_induct) (auto simp: isSkipped_def)

lemma batchRan_step:
  assumes "callAndPoll h idx tools ms results c r = (Inr (res, []), r1)"
    and "batchRan h idx tools ms (results @ [res]) cs r1 out steer r'"
  shows "batchRan h idx tools ms results (c # cs) r out steer r'"
proof (cases "steer = []")
  case True
  with assms show ?thesis by (simp add: batchRan_def)
next
  case False
  with assms(2) obtain before d rest ran x skipped r2 r3 where
    *: "cs = before @ d # rest" "out = ran @ x # skipped"
      "quietCalls h idx tools ms (results @ [res]) before r1 = Some (ran, r2)"
      "callAndPoll h idx tools ms ran d r2 = (Inr (x, steer), r3)"
      "skipCalls h rest r3 = (Inr skipped, r')" "list_all2 isSkipped rest skipped"
    by (auto simp: batchRan_def)
  from *(3) assms(1) have "quietCalls h idx tools ms results (c # before) r = Some (ran, r2)" by simp
  with * False show ?thesis
    unfolding batchRan_def by (metis append_Cons)
qed

lemma executeCalls_ran:
  "executeCalls h idx tools ms results calls r = (Inr (out, steer), r') \<Longrightarrow>
     batchRan h idx tools ms results calls r out steer r' \<and>
     map resultCallId out = map resultCallId results @ map callId calls"
proof (induction calls arbitrary: results r)
  case Nil
  then show ?case by (auto simp: batchRan_def give_def)
next
  case (Cons c cs)
  obtain res s r1 where call: "callAndPoll h idx tools ms results c r = (Inr (res, s), r1)"
    and cont: "(if s \<noteq> [] then andThen (skipCalls h cs) (\<lambda>skipped. give (results @ [res] @ skipped, s))
       else executeCalls h idx tools ms (results @ [res]) cs) r1 = (Inr (out, steer), r')"
    using Cons.prems unfolding executeCalls_step by (auto elim!: andThen_cases)
  have id: "resultCallId res = callId c" using yieldsD [OF callAndPoll_yields call] by simp
  show ?case
  proof (cases "s = []")
    case True
    with cont have "executeCalls h idx tools ms (results @ [res]) cs r1 = (Inr (out, steer), r')" by simp
    from Cons.IH [OF this] batchRan_step [OF call [unfolded True]] id show ?thesis by simp
  next
    case False
    with cont obtain skipped where skip: "skipCalls h cs r1 = (Inr skipped, r')"
      and out: "out = results @ res # skipped" "steer = s"
      by (auto simp: give_def elim!: andThen_cases)
    have skipped: "list_all2 isSkipped cs skipped" by (rule yieldsD [OF skipCalls_yields skip])
    have "batchRan h idx tools ms results (c # cs) r out steer r'"
      unfolding batchRan_def using False out call skip skipped
      by (simp only: if_False, intro exI [of _ "[]"] exI [of _ c] exI [of _ cs] exI [of _ results] exI [of _ res]
          exI [of _ skipped] exI [of _ r] exI [of _ r1]) simp
    with out id isSkipped_ids [OF skipped] show ?thesis by simp
  qed
qed

section \<open>Completed runs\<close>

definition notCompleted :: "turn_next \<Rightarrow> bool" where
  "notCompleted x = (\<forall>err. x \<noteq> EndRun Completed err)"

lemma recover_notCompleted: "yields (recover h res err) notCompleted"
  unfolding recover_def
  by (intro yields_then) (auto intro!: yields_rules simp: notCompleted_def)

lemma modelFailed_notCompleted: "yields (modelFailed h idx fin call asst err) notCompleted"
  unfolding modelFailed_def
  by (auto intro!: yields_rules recover_notCompleted simp: notCompleted_def split: option.split)

lemma toolRound_notCompleted: "yields (toolRound h idx tools calls) notCompleted"
  unfolding toolRound_def by (auto intro!: yields_rules simp: notCompleted_def)

lemma settleAnswer_next: "yields (settleAnswer h) (\<lambda>x. \<forall>status err. x = EndRun status err \<longrightarrow> status = Completed \<and> err = None)"
  unfolding settleAnswer_def by (auto intro!: yields_rules split: if_splits)

lemma answerRound_completed: "yields (answerRound h idx asst) (\<lambda>x. \<forall>err. x = EndRun Completed err \<longrightarrow> err = None)"
proof -
  have "yields (recover h res err) (\<lambda>x. \<forall>err. x = EndRun Completed err \<longrightarrow> err = None)" for res err
    using recover_notCompleted unfolding yields_def notCompleted_def by blast
  moreover have "yields (settleAnswer h) (\<lambda>x. \<forall>err. x = EndRun Completed err \<longrightarrow> err = None)"
    using settleAnswer_next unfolding yields_def by blast
  ultimately show ?thesis
    unfolding answerRound_def by (auto intro!: yields_then split: option.split)
qed

lemma afterModel_completed:
  assumes "afterModel h idx tools outcome r = (Inr (EndRun Completed err), r')"
  shows "outcome = ModelDone \<and> err = None \<and> lastAssistantMessage r' = lastAssistantMessage r \<and>
    (case lastAssistantMessage r of None \<Rightarrow> True | Some a \<Rightarrow> toolCallsOf a = [])"
proof (cases outcome)
  case (ModelFailed fin call asst x)
  with assms have "modelFailed h idx fin call asst x r = (Inr (EndRun Completed err), r')"
    by (simp add: afterModel_def)
  from yieldsD [OF modelFailed_notCompleted this] show ?thesis by (simp add: notCompleted_def)
next
  case ModelDone
  let ?asst = "lastAssistantMessage r"
  let ?calls = "case ?asst of None \<Rightarrow> [] | Some a \<Rightarrow> toolCallsOf a"
  show ?thesis
  proof (cases "aborted h (env r)")
    case True
    with assms ModelDone show ?thesis
      by (simp add: afterModel_def isAborted_def andThen_def get_def raise_def)
  next
    case False
    show ?thesis
    proof (cases "?calls = []")
      case True
      with assms ModelDone False have ans: "answerRound h idx ?asst r = (Inr (EndRun Completed err), r')"
        by (simp add: afterModel_def isAborted_def andThen_def [of "get f" for f] get_def Let_def)
      have "keeps (\<lambda>r'. lastAssistantMessage r' = ?asst) (answerRound h idx ?asst)"
        by (rule keeps_answerRound) (simp_all add: stable_counters recoveryFree_def)
      from keepsD [OF this ans] yieldsD [OF answerRound_completed ans] True ModelDone
      show ?thesis by (auto split: option.splits)
    next
      case False
      with assms ModelDone \<open>\<not> aborted h (env r)\<close>
      have "toolRound h idx tools ?calls r = (Inr (EndRun Completed err), r')"
        by (simp add: afterModel_def isAborted_def andThen_def [of "get f" for f] get_def Let_def)
      from yieldsD [OF toolRound_notCompleted this] show ?thesis by (simp add: notCompleted_def)
    qed
  qed
qed

text \<open>What holds of the outcome and the run when an action returns.\<close>

definition post :: "('e, 'a) action \<Rightarrow> ('a \<Rightarrow> 'e run \<Rightarrow> bool) \<Rightarrow> bool" where
  "post m Q = (\<forall>r x r'. m r = (Inr x, r') \<longrightarrow> Q x r')"

lemma post_give: "(\<And>r. Q x r) \<Longrightarrow> post (give x) Q"
  by (simp add: post_def give_def)

lemma post_then: "(\<And>x. post (g x) Q) \<Longrightarrow> post (andThen m g) Q"
  by (auto simp: post_def andThen_def split: prod.splits sum.splits)

lemma post_rescue: "post m Q \<Longrightarrow> (\<And>err. post (g err) Q) \<Longrightarrow> post (rescue m g) Q"
  by (auto simp: post_def rescue_def split: prod.splits sum.splits)

lemma recordAnswer_post: "post (recordAnswer h idx call asst failure) (\<lambda>x r. lastAssistantMessage r \<noteq> None)"
proof -
  let ?I = "\<lambda>r. lastAssistantMessage r \<noteq> None"
  have st: "stable ?I" by (simp add: stable_def push_def)
  show ?thesis
    unfolding recordAnswer_def post_def update_then
    by (intro allI impI, erule keepsD [rotated]) (auto intro!: inv_intros st simp del: not_None_eq split: option.split)
qed

lemma callModel_post: "post (callModel h idx ms tools) (\<lambda>x r. x = ModelDone \<longrightarrow> lastAssistantMessage r \<noteq> None)"
proof -
  have "post (recordAnswer h idx call asst failure) (\<lambda>x r. x = ModelDone \<longrightarrow> lastAssistantMessage r \<noteq> None)"
    for call asst failure
    using recordAnswer_post unfolding post_def by blast
  then show ?thesis
    unfolding callModel_def by (auto intro!: post_rescue post_then post_give)
qed

lemma callModel_done: "callModel h idx ms tools r = (Inr ModelDone, r') \<Longrightarrow> lastAssistantMessage r' \<noteq> None"
  using callModel_post [of h idx ms tools] unfolding post_def by blast

lemma turnRound_completed:
  assumes "turnRound h pending r = (Inr (EndRun Completed err), r')"
  shows "err = None \<and> (\<exists>a. lastAssistantMessage r' = Some a \<and> toolCallsOf a = [])"
proof -
  from assms obtain idx r1 where "(if atLimit (maxModelCalls (limits h)) idx then give (EndRun MaxModelCalls None)
      else modelRound h idx) r1 = (Inr (EndRun Completed err), r')"
    unfolding turnRound_def by (elim andThen_cases)
  then have "modelRound h idx r1 = (Inr (EndRun Completed err), r')"
    by (cases "atLimit (maxModelCalls (limits h)) idx") (simp_all add: give_def)
  then obtain ms tools outcome r2 r3 where call: "callModel h idx ms tools r2 = (Inr outcome, r3)"
    and after: "afterModel h idx tools outcome r3 = (Inr (EndRun Completed err), r')"
    unfolding modelRound_def by (elim andThen_cases) (auto elim!: andThen_cases)
  from afterModel_completed [OF after] have end_state: "outcome = ModelDone" "err = None"
    "lastAssistantMessage r' = lastAssistantMessage r3"
    "case lastAssistantMessage r3 of None \<Rightarrow> True | Some a \<Rightarrow> toolCallsOf a = []" by simp_all
  then have "lastAssistantMessage r3 \<noteq> None" using callModel_done call by blast
  with end_state show ?thesis by auto
qed

section \<open>Proper ends\<close>

definition properEnd :: "run_status \<Rightarrow> thrown option \<Rightarrow> bool" where
  "properEnd status err =
     ((status \<in> {Aborted, Failed} \<longrightarrow> err \<noteq> None) \<and>
      (status \<in> {Completed, MaxModelCalls, MaxToolCalls} \<longrightarrow> err = None))"

text \<open>A recovery is given up only when the attempts are used up.\<close>

definition usedUp :: "'e host \<Rightarrow> run_status \<Rightarrow> 'e run \<Rightarrow> bool" where
  "usedUp h status r =
     (status = RecoveryExhausted \<longrightarrow> limitNat (maxRecoveryAttempts (limits h)) \<le> recoveryAttempts r)"

definition properNext :: "'e host \<Rightarrow> turn_next \<Rightarrow> 'e run \<Rightarrow> bool" where
  "properNext h x r = (\<forall>status err. x = EndRun status err \<longrightarrow> properEnd status err \<and> usedUp h status r)"

lemma properNext_simps [simp]:
  "properNext h (NextRound input) r"
  "properNext h (EndRun status err) r \<longleftrightarrow> properEnd status err \<and> usedUp h status r"
  by (simp_all add: properNext_def)

lemma post_raise: "post (raise err) Q"
  by (simp add: post_def raise_def)

lemma recover_proper: "post (recover h res err) (properNext h)"
  unfolding post_def
proof (intro allI impI)
  fix r x r'
  assume "recover h res err r = (Inr x, r')"
  then show "properNext h x r'"
    by (cases "limitNat (maxRecoveryAttempts (limits h)) \<le> recoveryAttempts r")
      (auto simp: recover_def andThen_def get_def give_def properEnd_def usedUp_def split: prod.splits sum.splits)
qed

lemmas proper_rules = post_then post_give post_raise recover_proper

lemma answerRound_proper: "post (answerRound h idx asst) (properNext h)"
  unfolding answerRound_def settleAnswer_def
  by (auto intro!: proper_rules simp: properEnd_def usedUp_def split: option.split)

lemma modelFailed_proper: "post (modelFailed h idx fin call asst err) (properNext h)"
  unfolding modelFailed_def
  by (auto intro!: proper_rules simp: properEnd_def usedUp_def split: option.split)

lemma toolRound_proper: "post (toolRound h idx tools calls) (properNext h)"
  unfolding toolRound_def by (auto intro!: proper_rules simp: properEnd_def usedUp_def)

lemma afterModel_proper: "post (afterModel h idx tools outcome) (properNext h)"
  unfolding afterModel_def Let_def
  by (auto intro!: proper_rules modelFailed_proper toolRound_proper answerRound_proper split: model_outcome.split)

lemma turnRound_proper: "post (turnRound h pending) (properNext h)"
proof -
  have "post (modelRound h idx) (properNext h)" for idx
    unfolding modelRound_def by (intro post_then) (auto intro!: post_then afterModel_proper)
  then show ?thesis
    unfolding turnRound_def
    by (intro post_then) (auto intro!: post_give simp: properEnd_def usedUp_def)
qed

lemma endedBy_proper:
  assumes "endedBy h status err r1"
  shows "properEnd status err" "usedUp h status r1"
proof -
  have "properEnd status err \<and> usedUp h status r1" if "turnRound h pending r0 = (Inr (EndRun status err), r1)" for pending r0
    using turnRound_proper that unfolding post_def by fastforce
  moreover have "properEnd (if stop then Aborted else Failed) (Some x) \<and> usedUp h (if stop then Aborted else Failed) r1"
    for stop x by (simp add: properEnd_def usedUp_def)
  ultimately have "properEnd status err \<and> usedUp h status r1" using assms unfolding endedBy_def by blast
  then show "properEnd status err" "usedUp h status r1" by simp_all
qed

section \<open>A sample host\<close>

text \<open>
  A host whose environment counts the answers given: the first asks for two tools, and a
  steering message arrives after the first of them; the second is an answer.
\<close>

definition sampleTool :: runtime_tool where
  "sampleTool = \<lparr>toolIdent = ''read'', inputSchema = JNull, validateInput = Some Inr\<rparr>"

definition sampleCall :: "string \<Rightarrow> tool_call" where
  "sampleCall k = \<lparr>callId = k, callName = ''read'', callArguments = JNull\<rparr>"

definition sampleAnswer :: "nat \<Rightarrow> assistant" where
  "sampleAnswer n =
     (if n = 0 then \<lparr>assistantContent = [ToolCallBlock (sampleCall ''c1''), ToolCallBlock (sampleCall ''c2'')],
                     stopReason = ''toolUse'', errorText = []\<rparr>
      else \<lparr>assistantContent = [OtherBlock JNull], stopReason = ''stop'', errorText = []\<rparr>)"

definition sampleLimits :: run_limits where
  "sampleLimits = \<lparr>maxModelCalls = Some (Finite 5), maxToolCalls = Some (Finite 10),
     maxRecoveryAttempts = Finite 2, checkpointTimeoutMs = Finite 1000, deadlineMs = None\<rparr>"

definition sampleHost :: "bool \<Rightarrow> nat host" where
  "sampleHost stopped =
     \<lparr>limits = sampleLimits,
      aborted = (\<lambda>e. stopped), abortReason = (\<lambda>e. OtherThrown ''stop''), now = (\<lambda>e. 0),
      observerError = (\<lambda>ev. None),
      resolveTools = (\<lambda>n ms e. (Fulfilled [sampleTool], e)),
      resolveModelCall = (\<lambda>n ms tools e. (Fulfilled \<lparr>resolvedCallId = ''m'', snapshotId = ''s''\<rparr>, e)),
      streamed = (\<lambda>call e. ([], None)),
      awaitEvent = (\<lambda>e. e),
      awaitResult = (\<lambda>call e. (Fulfilled (sampleAnswer e), Suc e)),
      salvage = (\<lambda>call e. (None, e)),
      checkpointHook = None,
      takeSteeringMessages = Some (\<lambda>n ms e. (Fulfilled (if e = 1 \<and> n = 1 then [UserChat JNull] else []), e)),
      takeContinuationMessages = None,
      authorize = (\<lambda>call tool n ms e. (Fulfilled (), e)),
      executeTool = (\<lambda>tool v k ms e.
        (([], Fulfilled \<lparr>outputContent = [], outputDetails = None, outputIsError = None\<rparr>), e)),
      schemaErrors = (\<lambda>s v. []), schemaDecode = (\<lambda>s v. Inr v)\<rparr>"

definition sampleRun :: "nat run" where
  "sampleRun = the (executeRun (sampleHost False) [UserChat JNull] 0)"

lemma sampleRun_runs: "executeRun (sampleHost False) [UserChat JNull] 0 = Some sampleRun"
proof -
  have "maxModelCalls (limits (sampleHost False)) = Some (Finite 5)" by (simp add: sampleHost_def sampleLimits_def)
  from executeRun_returns [OF this, of "[UserChat JNull]" 0] show ?thesis by (auto simp: sampleRun_def)
qed

section \<open>Properties\<close>

text \<open>
  C18. A turn with a model-call limit always returns, whatever the model, the tools, the
  checkpoints and the input sources do: a retry, a steering message or a tool batch can only
  lead to another round after a model call has been counted.
\<close>

theorem run_terminates:
  assumes "maxModelCalls (limits h) = Some v"
  shows "\<exists>r. executeRun h ms e = Some r"
  using assms by (rule executeRun_returns)

theorem run_terminates_witness: "\<exists>r. executeRun (sampleHost False) [UserChat JNull] 0 = Some r"
  by (rule run_terminates [of _ "Finite 5"]) (simp add: sampleHost_def sampleLimits_def)

text \<open>
  C21. A turn that returns reports model calls, tool calls and recovery attempts within its
  limits.
\<close>

theorem run_within_limits:
  assumes "executeRun h ms e = Some r"
  shows "\<exists>result. last (streamEvents r) = RunFinish result \<and>
    (\<forall>v. maxModelCalls (limits h) = Some v \<longrightarrow> resultModelCalls result \<le> limitNat v) \<and>
    (\<forall>v. maxToolCalls (limits h) = Some v \<longrightarrow> resultToolCalls result \<le> limitNat v) \<and>
    resultRecoveryAttempts result \<le> limitNat (maxRecoveryAttempts (limits h))"
proof (rule executeRun_ends [OF assms])
  fix status err r1
  assume "endedBy h status err r1" "r = finish h status err r1"
  moreover from this have "goodRun h r1" by (simp add: endedBy_def)
  ultimately show ?thesis
    using finish_stream [of r1 h status err]
    by (auto simp: goodRun_def openStream_def overLimit_def split: option.splits)
qed

theorem run_within_limits_witness:
  "\<exists>result. last (streamEvents sampleRun) = RunFinish result \<and> resultModelCalls result = 2 \<and> resultToolCalls result = 2 \<and>
     resultModelCalls result \<le> limitNat (Finite 5)"
proof -
  from run_within_limits [OF sampleRun_runs] obtain result where
    r: "last (streamEvents sampleRun) = RunFinish result" "resultModelCalls result \<le> limitNat (Finite 5)"
    by (auto simp: sampleHost_def sampleLimits_def)
  have "map_option (\<lambda>r. case last (streamEvents r) of RunFinish x \<Rightarrow> (resultModelCalls x, resultToolCalls x) | _ \<Rightarrow> (0, 0))
      (executeRun (sampleHost False) [UserChat JNull] 0) = Some (2, 2)" by code_simp
  with r show ?thesis by (simp add: sampleRun_runs)
qed

text \<open>
  C26. The event stream of a turn starts with \<open>run_start\<close>, ends with \<open>run_finish\<close> and has no
  other \<open>run_finish\<close>, even when the observer throws at every event; the result carries the
  messages of the run. An aborted or failed run carries a failure; a completed one and one that
  met a call limit carry none; a run reported as \<open>recovery_exhausted\<close>, which may carry the failure
  of its last model call, has made exactly the recovery attempts it was allowed.
\<close>

theorem run_stream_shape:
  assumes "executeRun h ms e = Some r"
  shows "\<exists>mid result. streamEvents r = RunStart # mid @ [RunFinish result] \<and>
    (\<forall>ev \<in> set mid. \<not> isRunFinish ev) \<and> resultMessages result = runMessages r \<and>
    (resultStatus result \<in> {Aborted, Failed} \<longrightarrow> resultFailure result \<noteq> None) \<and>
    (resultStatus result \<in> {Completed, MaxModelCalls, MaxToolCalls} \<longrightarrow> resultFailure result = None) \<and>
    (resultStatus result = RecoveryExhausted \<longrightarrow>
       resultRecoveryAttempts result = limitNat (maxRecoveryAttempts (limits h)))"
proof (rule executeRun_ends [OF assms])
  fix status err r1
  assume ended: "endedBy h status err r1" and r: "r = finish h status err r1"
  from ended have good: "openStream r1" "recoveryAttempts r1 \<le> limitNat (maxRecoveryAttempts (limits h))"
    by (simp_all add: endedBy_def goodRun_def)
  then have "\<not> streamDone r1" by (simp add: openStream_def)
  from finish_stream [OF this, of h status err] obtain result where
    res: "streamEvents r = streamEvents r1 @ [RunFinish result]" "resultStatus result = status"
      "resultMessages result = runMessages r1" "resultFailure result = map_option failureOf err"
      "resultRecoveryAttempts result = recoveryAttempts r1"
    unfolding r by blast
  obtain mid where mid: "streamEvents r1 = RunStart # mid" "\<forall>ev \<in> set mid. \<not> isRunFinish ev"
    using good(1) unfolding openStream_def by (metis list.exhaust_sel list.set_intros(2))
  have "runMessages r = runMessages r1"
    by (simp add: r finish_def emit_def update_def push_def Let_def split: option.split)
  moreover note endedBy_proper [OF ended]
  ultimately show ?thesis using res mid good(2) by (auto simp: properEnd_def usedUp_def)
qed

theorem run_stream_shape_witness:
  "\<exists>mid result. streamEvents sampleRun = RunStart # mid @ [RunFinish result] \<and> resultStatus result = Completed \<and>
     resultFailure result = None"
proof -
  from run_stream_shape [OF sampleRun_runs] obtain mid result where
    r: "streamEvents sampleRun = RunStart # mid @ [RunFinish result]"
      "resultStatus result = Completed \<longrightarrow> resultFailure result = None" by auto
  have "map_option (\<lambda>r. case last (streamEvents r) of RunFinish x \<Rightarrow> resultStatus x | _ \<Rightarrow> Failed)
      (executeRun (sampleHost False) [UserChat JNull] 0) = Some Completed" by code_simp
  with r show ?thesis by (simp add: sampleRun_runs)
qed

text \<open>
  C28. A tool batch that returns answers every tool call of the message exactly once and in
  order. Without a steering message every call was executed, and no poll after a call brought one.
  Otherwise the calls up to the first poll that brought something were executed, the batch returns
  just what that poll brought, and every later call was answered by the skip error, none executed.
\<close>

theorem tool_batch_answers:
  assumes "executeRuntimeToolCalls h idx tools calls r = (Inr (results, steer), r')"
  shows "map resultCallId results = map callId calls \<and>
    (steer = [] \<longrightarrow> quietCalls h idx tools (runMessages r) [] calls r = Some (results, r')) \<and>
    (steer \<noteq> [] \<longrightarrow> (\<exists>before c rest ran res skipped r1 r2.
       calls = before @ c # rest \<and> results = ran @ res # skipped \<and>
       quietCalls h idx tools (runMessages r) [] before r = Some (ran, r1) \<and>
       callAndPoll h idx tools (runMessages r) ran c r1 = (Inr (res, steer), r2) \<and>
       skipCalls h rest r2 = (Inr skipped, r') \<and> list_all2 isSkipped rest skipped))"
proof -
  have "executeCalls h idx tools (runMessages r) [] calls r = (Inr (results, steer), r')"
    using assms by (auto simp: executeRuntimeToolCalls_def andThen_def get_def rescue_def raise_def isAborted_def
        split: prod.splits sum.splits)
  from executeCalls_ran [OF this] show ?thesis by (auto simp: batchRan_def)
qed

theorem tool_batch_answers_witness:
  "\<exists>results steer r'. executeRuntimeToolCalls (sampleHost False) 0 [sampleTool] [sampleCall ''c1'', sampleCall ''c2'']
      (startRun (sampleHost False) [UserChat JNull] 1) = (Inr (results, steer), r') \<and>
     map resultCallId results = [''c1'', ''c2''] \<and> steer = [UserChat JNull]"
proof -
  let ?m = "executeRuntimeToolCalls (sampleHost False) 0 [sampleTool] [sampleCall ''c1'', sampleCall ''c2'']
      (startRun (sampleHost False) [UserChat JNull] 1)"
  have "(case fst ?m of Inr (results, steer) \<Rightarrow> steer = [UserChat JNull] | Inl err \<Rightarrow> False)" by code_simp
  then obtain results r' where m: "?m = (Inr (results, [UserChat JNull]), r')"
    by (cases ?m) (auto split: sum.splits prod.splits)
  from tool_batch_answers [OF m] m show ?thesis by (auto simp: sampleCall_def)
qed

text \<open>
  A turn that reports \<open>completed\<close> ends with an answer of the model that asks for no tool.
\<close>

theorem run_completed_answer:
  assumes "executeRun h ms e = Some r" "last (streamEvents r) = RunFinish result" "resultStatus result = Completed"
  shows "\<exists>a. resultAssistant result = Some a \<and> toolCallsOf a = [] \<and> resultFailure result = None"
proof (rule executeRun_ends [OF assms(1)])
  fix status err r1
  assume ended: "endedBy h status err r1" and r: "r = finish h status err r1"
  from ended have "\<not> streamDone r1" by (simp add: endedBy_def goodRun_def openStream_def)
  from finish_stream [OF this, of h status err] assms(2) have
    res: "resultStatus result = status" "resultAssistant result = lastAssistantMessage r1"
      "resultFailure result = map_option failureOf err"
    unfolding r by auto
  with assms(3) ended obtain pending r0 where "turnRound h pending r0 = (Inr (EndRun Completed err), r1)"
    by (auto simp: endedBy_def split: if_splits)
  from turnRound_completed [OF this] res show ?thesis by simp
qed

theorem run_completed_answer_witness:
  "\<exists>result a. last (streamEvents sampleRun) = RunFinish result \<and> resultAssistant result = Some a \<and> toolCallsOf a = []"
proof -
  have "map_option (\<lambda>r. case last (streamEvents r) of RunFinish x \<Rightarrow> resultStatus x = Completed | _ \<Rightarrow> False)
      (executeRun (sampleHost False) [UserChat JNull] 0) = Some True" by code_simp
  then obtain result where "last (streamEvents sampleRun) = RunFinish result" "resultStatus result = Completed"
    by (auto simp: sampleRun_runs split: run_event.splits)
  with run_completed_answer [OF sampleRun_runs this] show ?thesis by blast
qed

text \<open>
  A turn whose signal is aborted before it starts makes no model call, leaves the messages
  as they are and reports \<open>aborted\<close>, provided the input source does not undo the abort.
\<close>

theorem run_aborted_at_start:
  assumes "aborted h e"
    "\<And>collect n ms. takeSteeringMessages h = Some collect \<Longrightarrow> aborted h (snd (collect n ms e))"
  shows "\<exists>r result. executeRun h ms e = Some r \<and> last (streamEvents r) = RunFinish result \<and>
    resultStatus result = Aborted \<and> resultModelCalls result = 0 \<and> resultToolCalls result = 0 \<and>
    resultMessages result = ms"
proof -
  let ?r0 = "startRun h ms e"
  have start: "runMessages ?r0 = ms" "modelCalls ?r0 = 0" "toolCalls ?r0 = 0" "env ?r0 = e" "\<not> streamDone ?r0"
    by (auto simp: startRun_def emit_def update_def push_def Let_def split: option.split)
  have "\<exists>err r1. executeRun h ms e = Some (finish h Aborted (Some err) r1) \<and> runMessages r1 = ms \<and>
      modelCalls r1 = 0 \<and> toolCalls r1 = 0 \<and> \<not> streamDone r1"
  proof (cases "takeSteeringMessages h")
    case None
    have "turnRound h None ?r0 = (Inl (abortReason h e), ?r0)"
      using assms(1) start(4) by (simp add: turnRound_def andThen_def throwIfAborted_def)
    then have "executeRun h ms e = Some (finish h Aborted (Some (abortReason h e)) ?r0)"
      using None assms(1) start(4)
      by (simp add: executeRun_def takeInput_def give_def turnLoop.simps finishThrown_def)
    with start show ?thesis by blast
  next
    case (Some collect)
    obtain s e' where c: "collect 0 ms e = (s, e')" by (cases "collect 0 ms e")
    then have "aborted h e'" using assms(2) [OF Some, of 0 ms] by simp
    moreover have "takeInput h Steering ?r0 = (Inl abortError, ?r0\<lparr>env := e'\<rparr>)"
      using Some c assms(1) start
      by (simp add: takeInput_def interruptible_def andThen_def isAborted_def get_def act_def raise_def)
    ultimately have "executeRun h ms e = Some (finish h Aborted (Some abortError) (?r0\<lparr>env := e'\<rparr>))"
      by (simp add: executeRun_def finishThrown_def)
    with start show ?thesis by (intro exI [of _ abortError] exI [of _ "?r0\<lparr>env := e'\<rparr>"]) simp
  qed
  then obtain err r1 where r1: "executeRun h ms e = Some (finish h Aborted (Some err) r1)" "runMessages r1 = ms"
    "modelCalls r1 = 0" "toolCalls r1 = 0" "\<not> streamDone r1" by blast
  from finish_stream [OF r1(5), of h Aborted "Some err"] r1 show ?thesis by auto
qed

theorem run_aborted_at_start_witness:
  "\<exists>r result. executeRun (sampleHost True) [UserChat JNull] 0 = Some r \<and> last (streamEvents r) = RunFinish result \<and>
    resultStatus result = Aborted \<and> resultModelCalls result = 0"
  using run_aborted_at_start [of "sampleHost True" 0 "[UserChat JNull]"] by (auto simp: sampleHost_def)

end
