(* ===== verification/AgentQueue.thy ===== *)
theory AgentQueue
  imports InputSource
begin

text \<open>
  The message queue of an agent, \<open>packages/agent/src/runtime/message-queue.ts\<close>: two lists
  of messages with a mode each, and continuation messages injected by a provider. Messages are
  opaque, of any type \<open>'m\<close>.
\<close>

datatype message_mode = TakeAll | TakeOne

record 'm agent_queue =
  steeringMessages :: "'m list"
  followUpMessages :: "'m list"
  steeringModeOf :: message_mode
  followUpModeOf :: message_mode

definition enqueueSteering :: "'m \<Rightarrow> 'm agent_queue \<Rightarrow> 'm agent_queue" where
  "enqueueSteering m q = q\<lparr>steeringMessages := steeringMessages q @ [m]\<rparr>"

definition enqueueFollowUp :: "'m \<Rightarrow> 'm agent_queue \<Rightarrow> 'm agent_queue" where
  "enqueueFollowUp m q = q\<lparr>followUpMessages := followUpMessages q @ [m]\<rparr>"

definition dequeueMessages :: "message_mode \<Rightarrow> 'm list \<Rightarrow> 'm list \<times> 'm list" where
  "dequeueMessages mode ms =
     (case mode of
        TakeOne \<Rightarrow> (case ms of [] \<Rightarrow> ([], []) | m # rest \<Rightarrow> ([m], rest))
      | TakeAll \<Rightarrow> (ms, []))"

definition dequeueSteering :: "'m agent_queue \<Rightarrow> 'm list \<times> 'm agent_queue" where
  "dequeueSteering q =
     (case dequeueMessages (steeringModeOf q) (steeringMessages q) of
        (ms, rest) \<Rightarrow> (ms, q\<lparr>steeringMessages := rest\<rparr>))"

definition dequeueFollowUp :: "'m agent_queue \<Rightarrow> 'm list \<times> 'm agent_queue" where
  "dequeueFollowUp q =
     (case dequeueMessages (followUpModeOf q) (followUpMessages q) of
        (ms, rest) \<Rightarrow> (ms, q\<lparr>followUpMessages := rest\<rparr>))"

text \<open>\<open>injected\<close> is what the provider returned, empty when there is no provider.\<close>

definition collectContinuation :: "'m list \<Rightarrow> 'm agent_queue \<Rightarrow> 'm list \<times> 'm agent_queue" where
  "collectContinuation injected q =
     dequeueFollowUp (q\<lparr>followUpMessages := followUpMessages q @ injected\<rparr>)"

definition clearSteering :: "'m agent_queue \<Rightarrow> 'm agent_queue" where
  "clearSteering q = q\<lparr>steeringMessages := []\<rparr>"

definition clearFollowUp :: "'m agent_queue \<Rightarrow> 'm agent_queue" where
  "clearFollowUp q = q\<lparr>followUpMessages := []\<rparr>"

definition clearMessages :: "'m agent_queue \<Rightarrow> 'm agent_queue" where
  "clearMessages q = clearFollowUp (clearSteering q)"

definition hasMessages :: "'m agent_queue \<Rightarrow> bool" where
  "hasMessages q = (steeringMessages q \<noteq> [] \<or> followUpMessages q \<noteq> [])"

lemma dequeueMessages_front: "dequeueMessages mode ms = (taken, rest) \<Longrightarrow> ms = taken @ rest \<and> (taken = [] \<longrightarrow> ms = [])"
  by (auto simp: dequeueMessages_def split: message_mode.splits list.splits)

interpretation agentSteering: input_source dequeueSteering steeringMessages
  by unfold_locales (auto simp: dequeueSteering_def split: prod.splits dest: dequeueMessages_front)

interpretation agentFollowUps: input_source dequeueFollowUp followUpMessages
  by unfold_locales (auto simp: dequeueFollowUp_def split: prod.splits dest: dequeueMessages_front)

text \<open>
  A turn that polls the agent's steering queue after each tool, and its continuation once
  it has an answer, receives every message that was queued, in order and once, whatever the
  mode; injected continuation messages come after those already queued.
\<close>

theorem agent_queue_delivery:
  "fst (drain dequeueSteering (length (steeringMessages q)) q) = steeringMessages q \<and>
   fst (collectContinuation injected q) @
     fst (drain dequeueFollowUp (length (followUpMessages q @ injected)) (snd (collectContinuation injected q))) =
   followUpMessages q @ injected"
proof
  show "fst (drain dequeueSteering (length (steeringMessages q)) q) = steeringMessages q"
    using agentSteering.drain_all [of q "length (steeringMessages q)"] by simp
  let ?q = "q\<lparr>followUpMessages := followUpMessages q @ injected\<rparr>"
  obtain ms q' where take: "dequeueFollowUp ?q = (ms, q')" by (cases "dequeueFollowUp ?q")
  have split: "followUpMessages q @ injected = ms @ followUpMessages q'"
    using agentFollowUps.poll_front [OF take] by simp
  then have "length (followUpMessages q') \<le> length (followUpMessages q @ injected)" by simp
  then have "fst (drain dequeueFollowUp (length (followUpMessages q @ injected)) q') = followUpMessages q'"
    using agentFollowUps.drain_all [of q' "length (followUpMessages q @ injected)"] by blast
  then show "fst (collectContinuation injected q) @
     fst (drain dequeueFollowUp (length (followUpMessages q @ injected)) (snd (collectContinuation injected q))) =
   followUpMessages q @ injected"
    using take split by (simp add: collectContinuation_def)
qed

end
