(* ===== verification/ConversationLog.thy ===== *)
theory ConversationLog
  imports Document
begin

text \<open>
  The event log of a stored conversation and the recovery policy
  \<open>FailInterruptedTurnRecoveryPolicy\<close> of
  \<open>packages/runtime-core/src/kernel/conversation-recovery.ts\<close>: \<open>plan\<close> reads the log once
  and decides whether a restarted runtime may expose the session as it is, must first close
  the one turn a crash left open, or must reject the log.

  The grammar of the logs the policy is meant to accept is stated separately, as an inductive
  predicate over whole turns, and \<open>plan\<close> is shown to recognise it.
\<close>

section \<open>Stored conversations\<close>

record conversation =
  conversationId :: string
  conversationCreatedAt :: int
  version :: int
  messages :: "json list"
  events :: "stored_event list"

datatype protocol_error =
    ForeignEvent string string
  | TurnOverlap string string string
  | ContextInsideTurn string string
  | ManualCompactionInsideTurn string string
  | CompactionWithoutTurn string string
  | NoActiveTurn string string string
  | OtherTurnActive string string string string

datatype recovery_plan = Ready | Interrupt string

section \<open>The policy\<close>

definition assertActiveTurn :: "string \<Rightarrow> string option \<Rightarrow> string \<Rightarrow> string \<Rightarrow> protocol_error + unit" where
  "assertActiveTurn s active t eventType =
     (if \<not> truthy active then Inl (NoActiveTurn s eventType t)
      else if the active \<noteq> t then Inl (OtherTurnActive s eventType t (the active))
      else Inr ())"

text \<open>\<open>"reason" in event.record && event.record.reason === "manual"\<close>.\<close>

fun isManualCompaction :: "compaction_record \<Rightarrow> bool" where
  "isManualCompaction (ContextCompaction c) = (reason c = Some ''manual'')"
| "isManualCompaction (LegacyCompaction s a b r) = False"

text \<open>\<open>"reason" in event.record ? event.record.reason : "legacy"\<close>, for the error text.\<close>

fun compactionReason :: "compaction_record \<Rightarrow> string" where
  "compactionReason (ContextCompaction c) = (case reason c of Some r \<Rightarrow> r | None \<Rightarrow> ''legacy'')"
| "compactionReason (LegacyCompaction s a b r) = ''legacy''"

text \<open>One turn of the loop: the new \<open>activeTurnId\<close>, or the error it throws.\<close>

fun planPayload :: "string \<Rightarrow> string option \<Rightarrow> event_payload \<Rightarrow> protocol_error + string option" where
  "planPayload s active (TurnStarted t) =
     (if truthy active then Inl (TurnOverlap s t (the active)) else Inr (Some t))"
| "planPayload s active (TurnContinued t src snap why) =
     (if truthy active then Inl (TurnOverlap s t (the active)) else Inr (Some t))"
| "planPayload s active (MessageAppended t i m r) =
     (case assertActiveTurn s active t ''message.appended'' of Inl err \<Rightarrow> Inl err | Inr _ \<Rightarrow> Inr active)"
| "planPayload s active (ContextAppended t c) =
     (case assertActiveTurn s active t ''context.appended'' of Inl err \<Rightarrow> Inl err | Inr _ \<Rightarrow> Inr active)"
| "planPayload s active (ContextRecorded c) =
     (if truthy active then Inl (ContextInsideTurn s (the active)) else Inr active)"
| "planPayload s active (ContextCompacted t rec) =
     (if isManualCompaction rec
      then (if truthy active \<or> t \<noteq> None
            then Inl (ManualCompactionInsideTurn s (case active of Some a \<Rightarrow> a | None \<Rightarrow> the t))
            else Inr active)
      else if \<not> truthy t then Inl (CompactionWithoutTurn s (compactionReason rec))
      else case assertActiveTurn s active (the t) ''context.compacted'' of Inl err \<Rightarrow> Inl err | Inr _ \<Rightarrow> Inr active)"
| "planPayload s active (TurnCompleted t) =
     (case assertActiveTurn s active t ''turn.completed'' of Inl err \<Rightarrow> Inl err | Inr _ \<Rightarrow> Inr None)"
| "planPayload s active (TurnCancelled t) =
     (case assertActiveTurn s active t ''turn.cancelled'' of Inl err \<Rightarrow> Inl err | Inr _ \<Rightarrow> Inr None)"
| "planPayload s active (TurnFailed t e) =
     (case assertActiveTurn s active t ''turn.failed'' of Inl err \<Rightarrow> Inl err | Inr _ \<Rightarrow> Inr None)"
| "planPayload s active (TurnTransferred t target why) =
     (case assertActiveTurn s active t ''turn.transferred'' of Inl err \<Rightarrow> Inl err | Inr _ \<Rightarrow> Inr None)"

fun planLoop :: "string \<Rightarrow> string option \<Rightarrow> stored_event list \<Rightarrow> protocol_error + string option" where
  "planLoop s active [] = Inr active"
| "planLoop s active (ev # evs) =
     (if eventSession ev \<noteq> s then Inl (ForeignEvent s (eventSession ev))
      else case planPayload s active (payload ev) of
             Inl err \<Rightarrow> Inl err
           | Inr a \<Rightarrow> planLoop s a evs)"

definition recoveryPlan :: "conversation \<Rightarrow> protocol_error + recovery_plan" where
  "recoveryPlan c =
     (case planLoop (conversationId c) None (events c) of
        Inl err \<Rightarrow> Inl err
      | Inr active \<Rightarrow> Inr (if truthy active then Interrupt (the active) else Ready))"

text \<open>The text of the \<open>turnProtocolError\<close> that each refusal throws.\<close>

fun protocolMessage :: "protocol_error \<Rightarrow> string" where
  "protocolMessage (ForeignEvent s other) =
     ''Conversation '' @ s @ '' contains an event for session '' @ other"
| "protocolMessage (TurnOverlap s t a) =
     ''Conversation '' @ s @ '' starts turn '' @ t @ '' before turn '' @ a @ '' terminates''"
| "protocolMessage (ContextInsideTurn s a) =
     ''Conversation '' @ s @ '' records session context inside turn '' @ a"
| "protocolMessage (ManualCompactionInsideTurn s a) =
     ''Conversation '' @ s @ '' contains manual compaction inside turn '' @ a"
| "protocolMessage (CompactionWithoutTurn s r) =
     ''Conversation '' @ s @ '' contains '' @ r @ '' compaction without a turn''"
| "protocolMessage (NoActiveTurn s k t) =
     ''Conversation '' @ s @ '' contains '' @ k @ '' for turn '' @ t @ '' without an active turn''"
| "protocolMessage (OtherTurnActive s k t a) =
     ''Conversation '' @ s @ '' contains '' @ k @ '' for turn '' @ t @ '' while turn '' @ a @ '' is active''"

section \<open>The grammar of turn logs\<close>

text \<open>
  Outside a turn a log carries recorded session context and manual compactions. A turn opens
  with \<open>turn.started\<close> or \<open>turn.continued\<close>, carries messages, context and automatic
  compactions of its own, and closes with one of four terminal events. (An opening event with
  an empty turn id opens nothing.)
\<close>

fun opens :: "event_payload \<Rightarrow> string \<Rightarrow> bool" where
  "opens (TurnStarted t) u = (t = u)"
| "opens (TurnContinued t src snap why) u = (t = u)"
| "opens _ u = False"

fun carries :: "event_payload \<Rightarrow> string \<Rightarrow> bool" where
  "carries (MessageAppended t i m r) u = (t = u)"
| "carries (ContextAppended t c) u = (t = u)"
| "carries (ContextCompacted t rec) u = (t = Some u \<and> \<not> isManualCompaction rec)"
| "carries _ u = False"

fun closes :: "event_payload \<Rightarrow> string \<Rightarrow> bool" where
  "closes (TurnCompleted t) u = (t = u)"
| "closes (TurnCancelled t) u = (t = u)"
| "closes (TurnFailed t e) u = (t = u)"
| "closes (TurnTransferred t target why) u = (t = u)"
| "closes _ u = False"

fun betweenTurns :: "event_payload \<Rightarrow> bool" where
  "betweenTurns (ContextRecorded c) = True"
| "betweenTurns (ContextCompacted t rec) = (t = None \<and> isManualCompaction rec)"
| "betweenTurns p = opens p []"

inductive closedLog :: "event_payload list \<Rightarrow> bool" where
  empty: "closedLog []"
| between: "closedLog ps \<Longrightarrow> betweenTurns p \<Longrightarrow> closedLog (ps @ [p])"
| turn: "closedLog ps \<Longrightarrow> opens p t \<Longrightarrow> t \<noteq> [] \<Longrightarrow> \<forall>b \<in> set mid. carries b t \<Longrightarrow> closes q t
    \<Longrightarrow> closedLog (ps @ [p] @ mid @ [q])"

inductive openLog :: "event_payload list \<Rightarrow> string \<Rightarrow> bool" where
  "closedLog ps \<Longrightarrow> opens p t \<Longrightarrow> t \<noteq> [] \<Longrightarrow> \<forall>b \<in> set mid. carries b t \<Longrightarrow> openLog (ps @ [p] @ mid) t"

inductive_cases openLogE: "openLog ps t"

lemma openLog_start: "closedLog ps \<Longrightarrow> opens p t \<Longrightarrow> t \<noteq> [] \<Longrightarrow> openLog (ps @ [p]) t"
  using openLog.intros [of ps p t "[]"] by simp

lemma openLog_carry: "openLog ps t \<Longrightarrow> carries b t \<Longrightarrow> openLog (ps @ [b]) t"
  by (erule openLogE) (use openLog.intros in fastforce)

lemma openLog_close: "openLog ps t \<Longrightarrow> closes q t \<Longrightarrow> closedLog (ps @ [q])"
  by (erule openLogE) (use closedLog.turn in fastforce)

section \<open>The policy recognises the grammar\<close>

lemma planPayload_closed:
  assumes "\<not> truthy active"
  shows "planPayload s active p = Inr a \<longleftrightarrow>
    (betweenTurns p \<and> (a = active \<or> a = Some [] \<and> opens p []) \<and> (opens p [] \<longrightarrow> a = Some []) \<or>
     (\<exists>t. t \<noteq> [] \<and> opens p t \<and> a = Some t))"
  using assms
  by (cases p) (auto simp: assertActiveTurn_def split: option.splits)

lemma planPayload_open:
  assumes "t \<noteq> []"
  shows "planPayload s (Some t) p = Inr a \<longleftrightarrow> carries p t \<and> a = Some t \<or> closes p t \<and> a = None"
  using assms
  by (cases p) (auto simp: assertActiveTurn_def truthy_iff split: option.splits)

lemma planLoop_append:
  "planLoop s active (evs @ fs) =
     (case planLoop s active evs of Inl err \<Rightarrow> Inl err | Inr a \<Rightarrow> planLoop s a fs)"
  by (induction evs arbitrary: active) (auto split: sum.splits)

lemma planLoop_session: "planLoop s active evs = Inr a \<Longrightarrow> ev \<in> set evs \<Longrightarrow> eventSession ev = s"
  by (induction evs arbitrary: active) (auto split: sum.splits if_splits)

lemma planLoop_sound:
  "planLoop s None evs = Inr a \<Longrightarrow>
     (if truthy a then openLog (map payload evs) (the a) else closedLog (map payload evs))"
proof (induction evs arbitrary: a rule: rev_induct)
  case Nil
  then show ?case by (auto intro: closedLog.empty)
next
  case (snoc ev evs)
  from snoc.prems obtain b where b: "planLoop s None evs = Inr b"
    and step: "planPayload s b (payload ev) = Inr a"
    by (auto simp: planLoop_append split: sum.splits if_splits)
  show ?case
  proof (cases "truthy b")
    case True
    then obtain t where t: "b = Some t" "t \<noteq> []" by (auto simp: truthy_iff)
    with snoc.IH [OF b] have "openLog (map payload evs) t" by simp
    with step t planPayload_open [OF t(2)] show ?thesis
      by (auto intro: openLog_carry openLog_close)
  next
    case False
    with snoc.IH [OF b] have cl: "closedLog (map payload evs)" by simp
    from step planPayload_closed [OF False] consider
        "betweenTurns (payload ev)" "\<not> truthy a" | t where "t \<noteq> []" "opens (payload ev) t" "a = Some t"
      using False by (auto simp: truthy_iff)
    then show ?thesis
    proof cases
      case 1
      with cl show ?thesis by (auto intro: closedLog.between)
    next
      case 2
      with cl show ?thesis by (auto intro: openLog_start)
    qed
  qed
qed

text \<open>The loop on a log given by its payloads.\<close>

lemma planLoop_body:
  assumes "t \<noteq> []" "\<forall>b \<in> set (map payload evs). carries b t" "\<forall>ev \<in> set evs. eventSession ev = s"
  shows "planLoop s (Some t) evs = Inr (Some t)"
  using assms(2,3)
proof (induction evs)
  case Nil
  show ?case by simp
next
  case (Cons ev evs)
  then have "planPayload s (Some t) (payload ev) = Inr (Some t)"
    using planPayload_open [OF assms(1)] by simp
  with Cons show ?case by simp
qed

lemma planLoop_closed:
  "closedLog ps \<Longrightarrow> map payload evs = ps \<Longrightarrow> \<forall>ev \<in> set evs. eventSession ev = s \<Longrightarrow>
     \<exists>a. planLoop s None evs = Inr a \<and> \<not> truthy a"
proof (induction ps arbitrary: evs rule: closedLog.induct)
  case empty
  then show ?case by simp
next
  case (between ps p)
  then obtain fs f where evs: "evs = fs @ [f]" "map payload fs = ps" "payload f = p"
    by (auto simp: map_eq_append_conv)
  with between obtain a where a: "planLoop s None fs = Inr a" "\<not> truthy a" by fastforce
  define a' where "a' = (if opens p [] then Some [] else a)"
  have "planPayload s a p = Inr a'" "\<not> truthy a'"
    using planPayload_closed [OF a(2)] between.hyps a(2) by (auto simp: a'_def)
  with a evs between.prems show ?case by (auto simp: planLoop_append)
next
  case (turn ps p t mid q)
  then obtain fs rest where r: "evs = fs @ rest" "map payload fs = ps" "map payload rest = (p # mid) @ [q]"
    by (auto simp: map_eq_append_conv)
  from r(3) obtain f gs g where "rest = (f # gs) @ [g]" "payload f = p" "map payload gs = mid" "payload g = q"
    unfolding map_eq_append_conv by auto
  with r have evs: "evs = fs @ [f] @ gs @ [g]" "map payload fs = ps" "payload f = p"
    "map payload gs = mid" "payload g = q" by auto
  have sess: "\<forall>ev \<in> set fs. eventSession ev = s" "\<forall>ev \<in> set gs. eventSession ev = s"
    "eventSession f = s" "eventSession g = s"
    using turn.prems(2) evs(1) by simp_all
  from turn.IH [OF evs(2) sess(1)] obtain a where a: "planLoop s None fs = Inr a" "\<not> truthy a" by blast
  have "planPayload s a p = Inr (Some t)"
    using planPayload_closed [OF a(2)] turn.hyps by blast
  moreover have "planLoop s (Some t) gs = Inr (Some t)"
    using planLoop_body [OF turn.hyps(3) _ sess(2)] turn.hyps(4) evs(4) by blast
  moreover have "planPayload s (Some t) q = Inr None"
    using planPayload_open [OF \<open>t \<noteq> []\<close>] turn.hyps by blast
  ultimately have "planLoop s None evs = Inr None"
    unfolding evs(1) planLoop_append using a(1) evs(3,5) sess by simp
  then show ?case by simp
qed

lemma planLoop_open:
  assumes "openLog (map payload evs) t" "\<forall>ev \<in> set evs. eventSession ev = s"
  shows "planLoop s None evs = Inr (Some t)"
proof -
  from assms(1) obtain ps p mid where log: "map payload evs = ps @ p # mid" "closedLog ps" "opens p t"
    "t \<noteq> []" "\<forall>b \<in> set mid. carries b t"
    by (rule openLogE)
  then obtain fs f gs where evs: "evs = fs @ [f] @ gs" "map payload fs = ps" "payload f = p"
    "map payload gs = mid"
    by (auto simp: map_eq_append_conv)
  from planLoop_closed [OF log(2) evs(2)] evs(1) assms(2)
  obtain a where a: "planLoop s None fs = Inr a" "\<not> truthy a" by auto
  have "planPayload s a p = Inr (Some t)"
    using planPayload_closed [OF a(2)] log by blast
  moreover have "planLoop s (Some t) gs = Inr (Some t)"
    using log evs assms(2) by (intro planLoop_body) auto
  ultimately show ?thesis using a evs assms(2) by (auto simp: planLoop_append)
qed

lemma closedLog_prefix:
  assumes "planLoop s None evs = Inr a"
  shows "\<exists>b. planLoop s None (take n evs) = Inr b"
  using assms planLoop_append [of s None "take n evs" "drop n evs"] by (auto split: sum.splits)

end
