(* ===== verification/ConversationRepository.thy ===== *)
theory ConversationRepository
  imports Commands ConversationLog
begin

text \<open>
  The in-process conversation repository, from
  \<open>packages/runtime-node/src/conversation/in-memory-conversation-repository.ts\<close>. The two
  private \<open>Map\<close> fields are maps from session ids; the fresh id of \<open>randomUUID()\<close> and the time
  of \<open>Date.now()\<close> are arguments.

  A call returns the repository it leaves behind also when it throws, because \<open>execute\<close>,
  \<open>append\<close> and \<open>fork\<close> store the new document before they select the model messages,
  which may throw. \<open>None\<close> means that a pointer-following loop of the document does not
  return.
\<close>

section \<open>State, errors and calls\<close>

record repository =
  conversations :: "string \<rightharpoonup> conversation"
  documents :: "string \<rightharpoonup> document"
  isClosed :: bool

definition newRepository :: repository where
  "newRepository = \<lparr>conversations = Map.empty, documents = Map.empty, isClosed = False\<rparr>"

text \<open>The reasons of an \<open>INVALID_COMMAND\<close> error.\<close>

datatype invalid_command =
    RevisionRequired command
  | InactiveTurn string string
  | NoCompactionBoundary string

datatype repo_error =
    AlreadyExists string
  | ConversationNotFound string
  | DocumentNotFound string
  | InvalidCommand invalid_command
  | DocumentVersionConflict string int int
  | VersionConflict string int int
  | InvalidEvent string string
  | CorruptKeptTail string
  | SeedIdMissing string
  | SeedWithoutCompaction
  | RepositoryClosed
  | DocumentFailure doc_error
  | ProtocolFailure protocol_error

type_synonym 'a call = "repository \<Rightarrow> ((repo_error + 'a) \<times> repository) option"

definition deliver :: "'a \<Rightarrow> 'a call" where
  "deliver x r = Some (Inr x, r)"

definition refuse :: "repo_error \<Rightarrow> 'a call" where
  "refuse e r = Some (Inl e, r)"

definition chain :: "'a call \<Rightarrow> ('a \<Rightarrow> 'b call) \<Rightarrow> 'b call" where
  "chain m k r =
     (case m r of
        None \<Rightarrow> None
      | Some (Inl e, r') \<Rightarrow> Some (Inl e, r')
      | Some (Inr x, r') \<Rightarrow> k x r')"

definition storing :: "(repository \<Rightarrow> repository) \<Rightarrow> unit call" where
  "storing f r = Some (Inr (), f r)"

text \<open>A function of the document module: it may throw, and its loops may not return.\<close>

definition documentCall :: "(doc_error + 'a) option \<Rightarrow> 'a call" where
  "documentCall x r =
     (case x of
        None \<Rightarrow> None
      | Some (Inl e) \<Rightarrow> Some (Inl (DocumentFailure e), r)
      | Some (Inr y) \<Rightarrow> Some (Inr y, r))"

definition setConversation :: "string \<Rightarrow> conversation \<Rightarrow> unit call" where
  "setConversation s c = storing (\<lambda>r. r\<lparr>conversations := (conversations r)(s \<mapsto> c)\<rparr>)"

definition setDocument :: "string \<Rightarrow> document \<Rightarrow> unit call" where
  "setDocument s d = storing (\<lambda>r. r\<lparr>documents := (documents r)(s \<mapsto> d)\<rparr>)"

definition assertOpen :: "unit call" where
  "assertOpen r = (if isClosed r then refuse RepositoryClosed r else deliver () r)"

definition requireConversation :: "string \<Rightarrow> conversation call" where
  "requireConversation s r =
     (case conversations r s of
        Some c \<Rightarrow> deliver c r
      | None \<Rightarrow> refuse (ConversationNotFound s) r)"

definition requireDocument :: "string \<Rightarrow> document call" where
  "requireDocument s r =
     (case documents r s of
        Some d \<Rightarrow> deliver d r
      | None \<Rightarrow> refuse (DocumentNotFound s) r)"

section \<open>Creating and reading\<close>

definition emptyConversation :: "string \<Rightarrow> int \<Rightarrow> conversation" where
  "emptyConversation s t =
     \<lparr>conversationId = s, conversationCreatedAt = t, version = 0, messages = [], events = []\<rparr>"

definition newIdentity :: "string \<Rightarrow> int \<Rightarrow> string option \<Rightarrow> string option \<Rightarrow> string option \<Rightarrow> identity" where
  "newIdentity s t agent dir parent =
     \<lparr>sessionId = s, createdAt = t, agentId = agent, cwd = dir, parentSessionPath = None,
      parentEntryId = parent\<rparr>"

definition createConversation ::
    "string \<Rightarrow> int \<Rightarrow> string option \<Rightarrow> string option \<Rightarrow> conversation call" where
  "createConversation s t agent dir =
     chain assertOpen (\<lambda>_ r.
       if s \<in> dom (conversations r) then refuse (AlreadyExists s) r
       else chain (setConversation s (emptyConversation s t)) (\<lambda>_.
            chain (setDocument s (createEmptyConversationDocument (newIdentity s t agent dir None))) (\<lambda>_.
            deliver (emptyConversation s t))) r)"

definition loadConversation :: "string \<Rightarrow> conversation call" where
  "loadConversation s = chain assertOpen (\<lambda>_. requireConversation s)"

definition readDocument :: "string \<Rightarrow> document call" where
  "readDocument s = chain assertOpen (\<lambda>_. requireDocument s)"

section \<open>Executing a document command\<close>

fun needsRevision :: "command \<Rightarrow> bool" where
  "needsRevision (SessionNameSet n) = False"
| "needsRevision (CustomAppend k ct v t) = False"
| "needsRevision (EntryLabelSet k tgt l t) = False"
| "needsRevision _ = True"

definition replaceConversationMessages :: "string \<Rightarrow> document \<Rightarrow> unit call" where
  "replaceConversationMessages s d =
     chain (requireConversation s) (\<lambda>c.
     chain (documentCall (selectConversationDocumentModelMessages d)) (\<lambda>ms.
     setConversation s (c\<lparr>messages := ms\<rparr>)))"

definition executeCommand :: "string \<Rightarrow> int option \<Rightarrow> command \<Rightarrow> command_result call" where
  "executeCommand s expected cmd =
     chain assertOpen (\<lambda>_.
       if expected = None \<and> needsRevision cmd then refuse (InvalidCommand (RevisionRequired cmd))
       else chain (requireDocument s) (\<lambda>d.
         if expected \<noteq> None \<and> revision d \<noteq> the expected
         then refuse (DocumentVersionConflict s (revision d) (the expected))
         else chain (documentCall (applyConversationDocumentCommand d cmd None)) (\<lambda>res.
           if \<not> resultChanged res then deliver res
           else chain (setDocument s (resultDocument res)) (\<lambda>_.
                chain (replaceConversationMessages s (resultDocument res)) (\<lambda>_.
                deliver res)))))"

section \<open>Forking\<close>

definition ofSum :: "doc_error + 'a \<Rightarrow> (doc_error + 'a) option" where
  "ofSum x = Some x"

definition forkConversation :: "string \<Rightarrow> string \<Rightarrow> string \<Rightarrow> int \<Rightarrow> (string \<times> string) call" where
  "forkConversation s k fresh now =
     chain assertOpen (\<lambda>_.
     chain (requireDocument s) (\<lambda>source.
     chain (documentCall (ofSum (conversationDocumentEntry source k))) (\<lambda>selected.
     chain (documentCall (resolveConversationUserTurnTip source k)) (\<lambda>tip.
     chain (documentCall (map_option Inr (selectConversationDocumentEntries source (Some tip)))) (\<lambda>es.
     chain (documentCall (createSeededConversationDocument
              (newIdentity fresh now (agentId (docIdentity source)) (cwd (docIdentity source)) (Some k))
              es (if es = [] then None else Some (entryId (last es))))) (\<lambda>d.
     chain (setDocument fresh d) (\<lambda>_.
     chain (documentCall (selectConversationDocumentModelMessages d)) (\<lambda>ms.
     chain (setConversation fresh ((emptyConversation fresh now)\<lparr>messages := ms\<rparr>)) (\<lambda>_.
     deliver (fresh, extractConversationEntryText selected))))))))))"

section \<open>Appending events\<close>

fun applyEvents :: "document \<Rightarrow> int \<Rightarrow> stored_event list \<Rightarrow> (doc_error + document) option" where
  "applyEvents d sq [] = Some (Inr d)"
| "applyEvents d sq (ev # evs) =
     (case applyStoredEventToConversationDocument d ev (sq + 1) None of
        None \<Rightarrow> None
      | Some (Inl e) \<Rightarrow> Some (Inl e)
      | Some (Inr d') \<Rightarrow> applyEvents d' (sq + 1) evs)"

definition appendEvents :: "string \<Rightarrow> int \<Rightarrow> stored_event list \<Rightarrow> int call" where
  "appendEvents s expected evs =
     chain assertOpen (\<lambda>_.
     chain (requireConversation s) (\<lambda>c.
       if version c \<noteq> expected then refuse (VersionConflict s (version c) expected)
       else case find (\<lambda>ev. eventSession ev \<noteq> s) evs of
              Some ev \<Rightarrow> refuse (InvalidEvent (eventSession ev) s)
            | None \<Rightarrow>
                chain (requireDocument s) (\<lambda>d.
                chain (documentCall (applyEvents d expected evs)) (\<lambda>d'.
                chain (setDocument s d') (\<lambda>_.
                chain (documentCall (selectConversationDocumentModelMessages d')) (\<lambda>ms.
                chain (setConversation s (c\<lparr>version := expected + int (length evs), messages := ms,
                                            events := events c @ evs\<rparr>)) (\<lambda>_.
                deliver (expected + int (length evs)))))))))"

section \<open>Continuing a turn in a new conversation\<close>

text \<open>\<open>targetIds.get(k) ?? k\<close>.\<close>

definition retarget :: "(string \<times> string) list \<Rightarrow> string \<Rightarrow> string" where
  "retarget targetIds k = (case map_of (rev targetIds) k of Some i \<Rightarrow> i | None \<Rightarrow> k)"

fun rewriteBody :: "(string \<times> string) list \<Rightarrow> entry_body \<Rightarrow> entry_body" where
  "rewriteBody targetIds (BranchSummary src s dt h) = BranchSummary (retarget targetIds src) s dt h"
| "rewriteBody targetIds (Label tgt l) = Label (retarget targetIds tgt) l"
| "rewriteBody targetIds b = b"

definition rewriteContinuationEntry ::
    "entry \<Rightarrow> string \<Rightarrow> string option \<Rightarrow> (string \<times> string) list \<Rightarrow> entry" where
  "rewriteContinuationEntry e k p targetIds =
     e\<lparr>entryId := k, parentId := p, body := rewriteBody targetIds (body e)\<rparr>"

definition seedId :: "nat \<Rightarrow> string" where
  "seedId index = ''seed-'' @ decimal (int index + 1)"

definition seedIds :: "entry list \<Rightarrow> (string \<times> string) list" where
  "seedIds carried = zip (ids carried) (map seedId [0..<length carried])"

fun rewriteCarried ::
    "(string \<times> string) list \<Rightarrow> string option \<Rightarrow> entry list \<Rightarrow> repo_error + entry list" where
  "rewriteCarried targetIds p [] = Inr []"
| "rewriteCarried targetIds p (e # es) =
     (case map_of (rev targetIds) (entryId e) of
        None \<Rightarrow> Inl (SeedIdMissing (entryId e))
      | Some k \<Rightarrow>
          (if k = [] then Inl (SeedIdMissing (entryId e))
           else map_sum id ((#) (rewriteContinuationEntry e k p targetIds))
                  (rewriteCarried targetIds (Some k) es)))"

record carried_entries =
  sourceEntryId :: string
  carriedEntries :: "entry list"
  carriedLeaf :: "string option"

fun isSummarizing :: "entry_body \<Rightarrow> bool" where
  "isSummarizing (Compaction c) = truthyJson (summaryMessage c)"
| "isSummarizing _ = False"

text \<open>\<open>entries[0] = { ...first, firstKeptEntryId: entries[1]?.id ?? first.id }\<close>.\<close>

fun anchorSeed :: "entry list \<Rightarrow> repo_error + entry list" where
  "anchorSeed [] = Inl SeedWithoutCompaction"
| "anchorSeed (e # es) =
     (case body e of
        Compaction c \<Rightarrow>
          Inr (e\<lparr>body := Compaction (c\<lparr>firstKeptEntryId :=
                   (case es of [] \<Rightarrow> entryId e | e2 # _ \<Rightarrow> entryId e2)\<rparr>)\<rparr> # es)
      | _ \<Rightarrow> Inl SeedWithoutCompaction)"

definition seedEntries :: "entry list \<Rightarrow> repo_error + entry list" where
  "seedEntries carried =
     (case rewriteCarried (seedIds carried) None carried of
        Inl e \<Rightarrow> Inl e
      | Inr es \<Rightarrow> anchorSeed es)"

definition carriedBranch :: "entry list \<Rightarrow> nat \<Rightarrow> nat \<Rightarrow> entry list" where
  "carriedBranch branch k i = branch ! i # drop k (take i branch) @ drop (i + 1) branch"

fun buildFromBranch :: "string \<Rightarrow> entry list \<Rightarrow> nat \<Rightarrow> entry_body \<Rightarrow> repo_error + carried_entries option" where
  "buildFromBranch s branch i (Compaction c) =
     (case findIndex (\<lambda>e. entryId e = firstKeptEntryId c) branch of
        None \<Rightarrow> Inl (CorruptKeptTail s)
      | Some k \<Rightarrow>
          (if k \<ge> i then Inl (CorruptKeptTail s)
           else map_sum id (\<lambda>es. Some \<lparr>sourceEntryId = entryId (branch ! i), carriedEntries = es,
                                     carriedLeaf = (if es = [] then None else Some (entryId (last es)))\<rparr>)
                  (seedEntries (carriedBranch branch k i))))"
| "buildFromBranch s branch i _ = Inr None"

definition buildContinuationEntries :: "document \<Rightarrow> (repo_error + carried_entries option) option" where
  "buildContinuationEntries d =
     map_option (\<lambda>branch.
         case findLastIndex (\<lambda>e. isSummarizing (body e)) branch of
           None \<Rightarrow> Inr None
         | Some i \<Rightarrow> buildFromBranch (sessionId (docIdentity d)) branch i (body (branch ! i)))
       (selectConversationDocumentEntries d (activeLeafId d))"

record continue_input =
  sourceSessionId :: string
  expectedVersion :: int
  continueTurn :: string
  snapshotId :: string
  continueReason :: string
  continueTime :: int

record continuation =
  sourceVersion :: int
  targetSession :: string
  targetVersion :: int
  seedConversation :: conversation
  seedDocument :: document
  transferredEvent :: stored_event
  continuedEvent :: stored_event

definition transferEvent :: "continue_input \<Rightarrow> string \<Rightarrow> stored_event" where
  "transferEvent i fresh =
     \<lparr>eventSession = sourceSessionId i, eventTime = continueTime i,
      payload = TurnTransferred (continueTurn i) fresh (continueReason i)\<rparr>"

definition continueEvent :: "continue_input \<Rightarrow> string \<Rightarrow> stored_event" where
  "continueEvent i fresh =
     \<lparr>eventSession = fresh, eventTime = continueTime i,
      payload = TurnContinued (continueTurn i) (sourceSessionId i) (snapshotId i) (continueReason i)\<rparr>"

definition recoverable :: "conversation \<Rightarrow> recovery_plan call" where
  "recoverable c =
     (case recoveryPlan c of
        Inl e \<Rightarrow> refuse (ProtocolFailure e)
      | Inr p \<Rightarrow> deliver p)"

definition carriedCall :: "string \<Rightarrow> document \<Rightarrow> carried_entries call" where
  "carriedCall s d =
     (case buildContinuationEntries d of
        None \<Rightarrow> (\<lambda>r. None)
      | Some (Inl e) \<Rightarrow> refuse e
      | Some (Inr None) \<Rightarrow> refuse (InvalidCommand (NoCompactionBoundary s))
      | Some (Inr (Some carried)) \<Rightarrow> deliver carried)"

definition seedDocumentCall :: "continue_input \<Rightarrow> document \<Rightarrow> carried_entries \<Rightarrow> string \<Rightarrow> document call" where
  "seedDocumentCall i d carried fresh =
     documentCall (createSeededConversationDocument
       (newIdentity fresh (continueTime i) (agentId (docIdentity d)) (cwd (docIdentity d))
          (Some (sourceEntryId carried)))
       (carriedEntries carried) (carriedLeaf carried))"

definition continueConversation :: "continue_input \<Rightarrow> string \<Rightarrow> continuation call" where
  "continueConversation i fresh =
     chain assertOpen (\<lambda>_.
     chain (requireConversation (sourceSessionId i)) (\<lambda>c.
       if version c \<noteq> expectedVersion i
       then refuse (VersionConflict (sourceSessionId i) (version c) (expectedVersion i))
       else chain (recoverable c) (\<lambda>p.
         if p \<noteq> Interrupt (continueTurn i)
         then refuse (InvalidCommand (InactiveTurn (sourceSessionId i) (continueTurn i)))
         else chain (requireDocument (sourceSessionId i)) (\<lambda>d.
              chain (carriedCall (sourceSessionId i) d) (\<lambda>carried.
              chain (seedDocumentCall i d carried fresh) (\<lambda>seed.
              chain (documentCall (selectConversationDocumentModelMessages seed)) (\<lambda>ms.
              let seedConv = (emptyConversation fresh (continueTime i))\<lparr>messages := ms\<rparr> in
              chain (setConversation (sourceSessionId i)
                       (c\<lparr>version := expectedVersion i + 1, events := events c @ [transferEvent i fresh]\<rparr>)) (\<lambda>_.
              chain (setDocument fresh seed) (\<lambda>_.
              chain (setConversation fresh
                       (seedConv\<lparr>version := 1, events := [continueEvent i fresh]\<rparr>)) (\<lambda>_.
              deliver \<lparr>sourceVersion = expectedVersion i + 1, targetSession = fresh, targetVersion = 1,
                       seedConversation = seedConv, seedDocument = seed,
                       transferredEvent = transferEvent i fresh,
                       continuedEvent = continueEvent i fresh\<rparr>))))))))))"

section \<open>Snapshots and closing\<close>

definition saveSnapshot :: "string \<Rightarrow> string \<Rightarrow> int \<Rightarrow> unit call" where
  "saveSnapshot s snapshotSession snapshotVersion =
     chain assertOpen (\<lambda>_.
     chain (requireConversation s) (\<lambda>c.
       if snapshotSession \<noteq> s then refuse (InvalidEvent snapshotSession s)
       else if snapshotVersion \<noteq> version c then refuse (VersionConflict s snapshotVersion (version c))
       else deliver ()))"

definition closeRepository :: "unit call" where
  "closeRepository = storing (\<lambda>r. r\<lparr>isClosed := True\<rparr>)"

end
