(* ===== verification/LinearBranch.thy ===== *)
theory LinearBranch
  imports DocumentEvents
begin

text \<open>
  Documents that are a single branch. Forking a conversation and continuing a turn in a new
  one both store such a document: every entry's parent is the entry before it. Its graph
  passes the check as soon as its references stay inside the branch, and its active branch is
  the list itself.
\<close>

section \<open>Linked lists of entries\<close>

fun linked :: "string option \<Rightarrow> entry list \<Rightarrow> bool" where
  "linked p [] = True"
| "linked p (e # es) = (parentId e = p \<and> linked (Some (entryId e)) es)"

definition lastId :: "string option \<Rightarrow> entry list \<Rightarrow> string option" where
  "lastId p es = (if es = [] then p else Some (entryId (last es)))"

lemma lastId_simps [simp]: "lastId p [] = p" "lastId p (es @ [e]) = Some (entryId e)"
  "lastId p (e # es) = lastId (Some (entryId e)) es"
  by (simp_all add: lastId_def)

lemma linked_append: "linked p (es @ fs) \<longleftrightarrow> linked p es \<and> linked (lastId p es) fs"
  by (induction es arbitrary: p) auto

text \<open>The ids an entry refers to.\<close>

fun bodyRefs :: "entry_body \<Rightarrow> string set" where
  "bodyRefs (BranchSummary src t dt h) = {src} - {''root''}"
| "bodyRefs (Label tgt l) = {tgt}"
| "bodyRefs (Compaction c) = {firstKeptEntryId c}"
| "bodyRefs _ = {}"

definition selfContained :: "entry list \<Rightarrow> bool" where
  "selfContained es = (\<forall>e \<in> set es. bodyRefs (body e) \<subseteq> set (ids es))"

definition isBranch :: "entry list \<Rightarrow> bool" where
  "isBranch es = (linked None es \<and> distinct (ids es) \<and> [] \<notin> set (ids es))"

lemma linear_prefix: "isBranch (es @ fs) \<Longrightarrow> isBranch es"
  by (auto simp: isBranch_def linked_append)

lemma linear_lastId: "isBranch es \<Longrightarrow> lastId None es \<noteq> Some []"
  unfolding isBranch_def lastId_def by (metis last_in_set list.set_map imageI option.distinct(1) option.inject)

lemma linear_lookup:
  assumes "isBranch es" "e \<in> set es"
  shows "lookupEntry es (Some (entryId e)) = Some e"
  using assms byId_eq [of es e] by (auto simp: isBranch_def lookupEntry_def image_iff)

lemma linear_parent: "isBranch (xs @ x # ys) \<Longrightarrow> parentId x = lastId None xs"
  by (simp add: isBranch_def linked_append)

lemma linear_upPath:
  assumes "isBranch (xs @ ys)"
  shows "upPath (xs @ ys) (lookupEntry (xs @ ys) (lastId None xs)) (rev xs)"
  using assms
proof (induction xs arbitrary: ys rule: rev_induct)
  case Nil
  then show ?case by simp
next
  case (snoc x xs)
  from snoc.prems have "parentId x = lastId None xs" using linear_parent [of xs x ys] by simp
  moreover have "lookupEntry ((xs @ [x]) @ ys) (Some (entryId x)) = Some x"
    using linear_lookup [OF snoc.prems, of x] by simp
  ultimately show ?case using snoc.IH [of "x # ys"] snoc.prems by simp
qed

lemma linear_branch:
  assumes "isBranch es"
  shows "selectBranch es (lastId None es) = Some es"
  using linear_upPath [of es "[]"] assms by (simp add: selectBranch_upPath)

lemma linear_reach:
  assumes l: "isBranch es" and i: "i \<le> j" "j < length es"
  shows "reach es (Some (entryId (es ! j))) (entryId (es ! i))"
proof -
  let ?e = "es ! j"
  have "isBranch (take (Suc j) es @ drop (Suc j) es)" using l by simp
  from linear_upPath [OF this] have up: "upPath es (lookupEntry es (lastId None (take (Suc j) es))) (rev (take (Suc j) es))"
    by simp
  have "lastId None (take (Suc j) es) = Some (entryId ?e)"
    using i by (simp add: take_Suc_conv_app_nth)
  with up linear_lookup [OF l, of ?e] i(2)
  have "upPath es (Some ?e) (rev (take (Suc j) es))" by simp
  moreover have "es ! i \<in> set (rev (take (Suc j) es))"
    using i by (auto simp: in_set_conv_nth intro!: exI [of _ i])
  moreover have "entryId ?e \<in> set (ids es)" using i by simp
  then have "entryId ?e \<noteq> []" using l unfolding isBranch_def by metis
  ultimately show ?thesis
    using upPath_reach [of es ?e _ "es ! i"] l i by (simp add: isBranch_def)
qed

lemma linear_ranked:
  assumes l: "isBranch es"
  shows "acyclic_tree es"
proof -
  define rank where "rank k = the (findIndex (\<lambda>e. entryId e = k) es)" for k
  have rank: "rank (entryId (es ! j)) = j" if "j < length es" for j
  proof -
    have "findIndex (\<lambda>e. entryId e = entryId (es ! j)) es \<noteq> None"
      using that by (auto simp: findIndex_None)
    then obtain i where i: "findIndex (\<lambda>e. entryId e = entryId (es ! j)) es = Some i" by blast
    with findIndex_Some [OF i] that l have "i = j"
      by (metis length_map isBranch_def nth_eq_iff_index_eq nth_map)
    with i show ?thesis by (simp add: rank_def)
  qed
  have "rank (the (parentId e)) < rank (entryId e)" if e: "e \<in> set es" "truthy (parentId e)" for e
  proof -
    from e(1) obtain j where j: "j < length es" "e = es ! j" by (auto simp: in_set_conv_nth)
    then have es: "es = take j es @ e # drop (Suc j) es" by (simp add: id_take_nth_drop)
    with l have "parentId e = lastId None (take j es)" using linear_parent by metis
    with e(2) j have "j \<noteq> 0" "parentId e = Some (entryId (es ! (j - 1)))"
      by (auto simp: lastId_def last_conv_nth split: if_splits)
    with j rank show ?thesis by simp
  qed
  then show ?thesis unfolding acyclic_tree_def ranked_def by blast
qed

lemma linear_parentsOk:
  assumes l: "isBranch es"
  shows "parentsOk es"
  unfolding parentsOk_def
proof (intro ballI impI)
  fix e assume e: "e \<in> set es" "truthy (parentId e)"
  then obtain xs ys where es: "es = xs @ e # ys" by (meson split_list)
  with l have "parentId e = lastId None xs" using linear_parent by metis
  with e(2) es show "the (parentId e) \<in> set (ids es)"
    by (cases xs rule: rev_cases) auto
qed

lemma linear_refsOk:
  assumes l: "isBranch es" and e: "e \<in> set es" and refs: "bodyRefs (body e) \<subseteq> set (ids es)"
  shows "refsOk es e"
proof (cases "body e")
  case (Compaction c)
  with refs obtain x where x: "x \<in> set es" "entryId x = firstKeptEntryId c" by auto
  from e obtain j where j: "j < length es" "e = es ! j" by (auto simp: in_set_conv_nth)
  from x obtain i where i: "i < length es" "x = es ! i" by (auto simp: in_set_conv_nth)
  have "reach es (Some (entryId e)) (entryId x) \<or> reach es (Some (entryId x)) (entryId e)"
    using linear_reach [OF l, of i j] linear_reach [OF l, of j i] i j by (cases "i \<le> j") auto
  moreover have "firstKeptEntryId c \<in> set (ids es)" using Compaction refs by simp
  ultimately show ?thesis using Compaction x(2) by (simp add: refsOk.simps)
qed (use refs in \<open>auto simp: refsOk.simps\<close>)

theorem linear_graphOk:
  assumes "isBranch es" "selfContained es"
  shows "graphOk es (lastId None es)"
  using assms linear_ranked linear_parentsOk linear_refsOk
  by (auto simp: graphOk_def selfContained_def leafOk_def lastId_def) (auto simp: isBranch_def)

text \<open>Conversely, a checked list only refers to its own entries.\<close>

lemma graphOk_selfContained: "graphOk es leaf \<Longrightarrow> selfContained es"
  unfolding selfContained_def
proof
  fix e assume "graphOk es leaf" "e \<in> set es"
  then have "refsOk es e" by (simp add: graphOk_def)
  then show "bodyRefs (body e) \<subseteq> set (ids es)" by (cases "body e") (auto simp: refsOk.simps)
qed

lemma seeded_linear:
  assumes "isBranch es"
  shows "createSeededConversationDocument i es (lastId None es) =
    Some (Inr \<lparr>docIdentity = i, journalVersion = 0, revision = int (length es), entries = es,
               activeLeafId = lastId None es, docName = None\<rparr>) \<longleftrightarrow> selfContained es"
proof
  assume "createSeededConversationDocument i es (lastId None es) =
    Some (Inr \<lparr>docIdentity = i, journalVersion = 0, revision = int (length es), entries = es,
               activeLeafId = lastId None es, docName = None\<rparr>)"
  then have "assertConversationDocumentGraph es (lastId None es) = Some (Inr ())"
    by (auto simp: createSeededConversationDocument_def split: option.splits sum.splits)
  then show "selfContained es" using assertGraph_iff graphOk_selfContained by blast
next
  assume "selfContained es"
  with assms have "assertConversationDocumentGraph es (lastId None es) = Some (Inr ())"
    by (simp add: assertGraph_iff linear_graphOk)
  then show "createSeededConversationDocument i es (lastId None es) =
    Some (Inr \<lparr>docIdentity = i, journalVersion = 0, revision = int (length es), entries = es,
               activeLeafId = lastId None es, docName = None\<rparr>)"
    by (simp add: createSeededConversationDocument_def)
qed

section \<open>The active branch is a linked list\<close>

lemma upPath_linked:
  assumes wf: "wellFormedTree es leaf"
  shows "upPath es cur p \<Longrightarrow> set_option cur \<subseteq> set es \<Longrightarrow>
    linked None (rev p) \<and> lastId None (rev p) = map_option entryId cur"
proof (induction p arbitrary: cur)
  case Nil
  then show ?case by simp
next
  case (Cons e p)
  let ?up = "lookupEntry es (parentId e)"
  have e: "cur = Some e" "e \<in> set es" "upPath es ?up p" using Cons.prems by auto
  have "linked None (rev p) \<and> lastId None (rev p) = map_option entryId ?up"
    using Cons.IH [OF e(3)] by (auto dest: lookupEntry_Some)
  moreover have "parentId e = map_option entryId ?up"
    using lookup_parent [OF wf e(2)] by (cases ?up) auto
  ultimately show ?case using e(1) by (simp add: linked_append)
qed

lemma branch_linear:
  assumes wf: "wellFormedTree es leaf" and b: "selectBranch es k = Some b"
  shows "isBranch b" "set b \<subseteq> set es" "lastId None b = map_option entryId (lookupEntry es k)"
proof -
  have up: "upPath es (lookupEntry es k) (rev b)" using b by (simp add: selectBranch_upPath)
  have sub: "set_option (lookupEntry es k) \<subseteq> set es" by (auto dest: lookupEntry_Some)
  from upPath_linked [OF wf up sub] have l: "linked None b" "lastId None b = map_option entryId (lookupEntry es k)"
    by simp_all
  show mem: "set b \<subseteq> set es" using upPath_mem [OF up sub] by simp
  have "distinct b" using upPath_distinct [OF up] by simp
  moreover have "inj_on entryId (set es)"
    using wellFormedTreeD(1) [OF wf] by (simp add: distinct_map)
  ultimately have "distinct (ids b)" using mem by (simp add: distinct_map inj_on_subset)
  moreover have "[] \<notin> set (ids b)"
    using wellFormedTreeD(6) [OF wf] mem unfolding plainIds_def by (metis imageE list.set_map subsetD)
  ultimately show "isBranch b" using l by (simp add: isBranch_def)
  show "lastId None b = map_option entryId (lookupEntry es k)" by (rule l(2))
qed

text \<open>A checked single-branch copy of a well-formed tree is well-formed.\<close>

lemma sublist_wellFormed:
  assumes wf: "wellFormedTree es leaf" and sub: "set b \<subseteq> set es" and g: "graphOk b k" and k: "k \<noteq> Some []"
  shows "wellFormedTree b k"
  using assms by (auto simp: wellFormedTree_def plainIds_def labelsFlat_def)

end
