(* ===== verification/RepositoryInvariant.thy ===== *)
theory RepositoryInvariant
  imports ConversationRepository LinearBranch
begin

text \<open>
  The invariant of the in-process conversation repository: the conversation and the document
  stored under a session id describe the same session, at the same version, and the cached
  messages are the model messages of the document. Only \<open>continueConversation\<close> breaks the
  agreement of the versions: the sessions it wrote to, collected in a set, are ahead of their documents.
\<close>

section \<open>Calls that succeed\<close>

lemma chain_Inr:
  "chain m k r = Some (Inr y, r') \<longleftrightarrow> (\<exists>x r1. m r = Some (Inr x, r1) \<and> k x r1 = Some (Inr y, r'))"
  by (auto simp: chain_def split: option.splits prod.splits sum.splits)

lemma deliver_Inr [simp]: "deliver x r = Some (Inr y, r') \<longleftrightarrow> x = y \<and> r = r'"
  by (auto simp: deliver_def)

lemma refuse_Inr [simp]: "refuse e r \<noteq> Some (Inr y, r')"
  by (simp add: refuse_def)

lemma assertOpen_Inr [simp]: "assertOpen r = Some (Inr y, r') \<longleftrightarrow> \<not> isClosed r \<and> r' = r"
  by (auto simp: assertOpen_def)

lemma requireConversation_Inr [simp]:
  "requireConversation s r = Some (Inr c, r') \<longleftrightarrow> conversations r s = Some c \<and> r' = r"
  by (auto simp: requireConversation_def split: option.splits)

lemma requireDocument_Inr [simp]:
  "requireDocument s r = Some (Inr d, r') \<longleftrightarrow> documents r s = Some d \<and> r' = r"
  by (auto simp: requireDocument_def split: option.splits)

lemma documentCall_Inr [simp]: "documentCall x r = Some (Inr y, r') \<longleftrightarrow> x = Some (Inr y) \<and> r' = r"
  by (auto simp: documentCall_def split: option.splits sum.splits)

lemma setConversation_Inr [simp]:
  "setConversation s c r = Some (Inr y, r') \<longleftrightarrow> r' = r\<lparr>conversations := (conversations r)(s \<mapsto> c)\<rparr>"
  by (auto simp: setConversation_def storing_def)

lemma setDocument_Inr [simp]:
  "setDocument s d r = Some (Inr y, r') \<longleftrightarrow> r' = r\<lparr>documents := (documents r)(s \<mapsto> d)\<rparr>"
  by (auto simp: setDocument_def storing_def)

lemma recoverable_Inr [simp]: "recoverable c r = Some (Inr p, r') \<longleftrightarrow> recoveryPlan c = Inr p \<and> r' = r"
  by (auto simp: recoverable_def split: sum.splits)

lemma carriedCall_Inr [simp]:
  "carriedCall s d r = Some (Inr x, r') \<longleftrightarrow> buildContinuationEntries d = Some (Inr (Some x)) \<and> r' = r"
  by (auto simp: carriedCall_def split: option.splits sum.splits)

lemmas call_simps = chain_Inr ofSum_def

section \<open>The invariant\<close>

definition conversationOk :: "bool \<Rightarrow> string \<Rightarrow> conversation \<Rightarrow> document \<Rightarrow> bool" where
  "conversationOk moved s c d =
     (conversationId c = s \<and> sessionId (docIdentity d) = s \<and>
      (if moved then journalVersion d < version c else version c = journalVersion d) \<and>
      selectConversationDocumentModelMessages d = Some (Inr (messages c)) \<and> wellFormed d)"

definition repoOk :: "string set \<Rightarrow> repository \<Rightarrow> bool" where
  "repoOk M r =
     (dom (conversations r) = dom (documents r) \<and>
      (\<forall>s c d. conversations r s = Some c \<longrightarrow> documents r s = Some d \<longrightarrow> conversationOk (s \<in> M) s c d))"

lemma newRepository_ok: "repoOk M newRepository"
  by (simp add: repoOk_def newRepository_def)

lemma repoOkD:
  "repoOk M r \<Longrightarrow> conversations r s = Some c \<Longrightarrow> documents r s = Some d \<Longrightarrow> conversationOk (s \<in> M) s c d"
  by (simp add: repoOk_def)

lemma repoOk_store:
  assumes "repoOk M r" "conversationOk (s \<in> N) s c d" "\<And>x. x \<noteq> s \<Longrightarrow> x \<in> N \<longleftrightarrow> x \<in> M"
    "conversations r' = (conversations r)(s \<mapsto> c)" "documents r' = (documents r)(s \<mapsto> d)"
  shows "repoOk N r'"
  using assms by (auto simp: repoOk_def)

lemma repoOk_closed [simp]: "repoOk M (r\<lparr>isClosed := b\<rparr>) \<longleftrightarrow> repoOk M r"
  by (simp add: repoOk_def)

lemma create_ok [inv_intros]:
  assumes "repoOk M r" "createConversation s t agent dir r = Some (Inr c, r')"
  shows "repoOk (M - {s}) r'"
proof (rule repoOk_store [OF assms(1)])
  let ?d = "createEmptyConversationDocument (newIdentity s t agent dir None)"
  have "selectConversationDocumentModelMessages ?d = Some (Inr [])"
    by (simp add: selectConversationDocumentModelMessages_def createEmptyConversationDocument_def selectBranch_def
        walkUp.simps)
  then show "conversationOk (s \<in> M - {s}) s (emptyConversation s t) ?d"
    by (simp add: conversationOk_def emptyConversation_def empty_wellFormed)
      (simp add: createEmptyConversationDocument_def newIdentity_def)
qed (use assms(2) in \<open>auto simp: createConversation_def call_simps split: if_splits\<close>)

lemma dispatch_identity:
  assumes "dispatchCommand d cmd rv = Some (Inr res)"
  shows "docIdentity (resultDocument res) = docIdentity d"
    "journalVersion (resultDocument res) = journalVersion d"
proof -
  have "docIdentity (resultDocument res) = docIdentity d \<and> journalVersion (resultDocument res) = journalVersion d"
    using assms
    by (cases cmd)
      (auto simp: returned_def setActiveLeaf_def changed_def unchanged_def deleteMessage_def replaceLastUserTurn_def
        rewriteAfterRemoval_def appendMessageEntry_def appendBranchSummaryEntry_def appendCustomEntry_def
        appendLabelEntry_def appendEntry_def Let_def
        simp del: recordBody.simps split: option.splits sum.splits if_splits)
  then show "docIdentity (resultDocument res) = docIdentity d"
    "journalVersion (resultDocument res) = journalVersion d" by simp_all
qed

lemma execute_ok [inv_intros]:
  assumes ok: "repoOk M r" and cmd: "\<And>d. documents r s = Some d \<Longrightarrow> commandOk d cmd"
    and run: "executeCommand s expected cmd r = Some (Inr res, r')"
  shows "repoOk M r'"
proof -
  from run obtain d where d: "documents r s = Some d"
    and app: "applyConversationDocumentCommand d cmd None = Some (Inr res)"
    and rest: "if resultChanged res then (\<exists>c ms. conversations r s = Some c \<and>
        selectConversationDocumentModelMessages (resultDocument res) = Some (Inr ms) \<and>
        r' = r\<lparr>documents := (documents r)(s \<mapsto> resultDocument res),
               conversations := (conversations r)(s \<mapsto> c\<lparr>messages := ms\<rparr>)\<rparr>) else r' = r"
    by (auto simp: executeCommand_def replaceConversationMessages_def call_simps split: if_splits)
  show ?thesis
  proof (cases "resultChanged res")
    case False
    with rest ok show ?thesis by simp
  next
    case True
    with rest obtain c ms where c: "conversations r s = Some c"
      and ms: "selectConversationDocumentModelMessages (resultDocument res) = Some (Inr ms)"
      and r': "r' = r\<lparr>documents := (documents r)(s \<mapsto> resultDocument res),
               conversations := (conversations r)(s \<mapsto> c\<lparr>messages := ms\<rparr>)\<rparr>" by auto
    have old: "conversationOk (s \<in> M) s c d" by (rule repoOkD [OF ok c d])
    from apply_dispatch [OF app] have dis: "dispatchCommand d cmd (revision d + 1) = Some (Inr res)" ..
    have "conversationOk (s \<in> M) s (c\<lparr>messages := ms\<rparr>) (resultDocument res)"
      using old ms dispatch_identity [OF dis] dispatch_wellFormed [OF _ cmd [OF d] dis]
      by (simp add: conversationOk_def)
    with ok show ?thesis by (rule repoOk_store) (simp_all add: r')
  qed
qed

lemma applyEvents_ok:
  "applyEvents d sq evs = Some (Inr d') \<Longrightarrow> wellFormed d \<Longrightarrow> journalVersion d = sq \<Longrightarrow>
     wellFormed d' \<and> journalVersion d' = sq + int (length evs) \<and> docIdentity d' = docIdentity d"
proof (induction evs arbitrary: d sq)
  case Nil
  then show ?case by simp
next
  case (Cons ev evs)
  from Cons.prems(1) obtain d1 where d1: "applyStoredEventToConversationDocument d ev (sq + 1) None = Some (Inr d1)"
    "applyEvents d1 (sq + 1) evs = Some (Inr d')"
    by (auto split: option.splits sum.splits)
  have "wellFormed d1" using event_wellFormed [OF Cons.prems(2) _ d1(1)] by simp
  moreover from d1(1) have "journalVersion d1 = sq + 1" "docIdentity d1 = docIdentity d"
    by (auto elim!: applyEvent_cases simp: appendEventEntry_entry)
  ultimately show ?case using Cons.IH [OF d1(2)] by simp
qed

lemma append_ok [inv_intros]:
  assumes ok: "repoOk M r" and run: "appendEvents s expected evs r = Some (Inr v, r')"
  shows "repoOk M r'"
proof -
  from run obtain c d d' ms where c: "conversations r s = Some c" "version c = expected"
    and d: "documents r s = Some d" "applyEvents d expected evs = Some (Inr d')"
    and ms: "selectConversationDocumentModelMessages d' = Some (Inr ms)"
    and r': "r' = r\<lparr>documents := (documents r)(s \<mapsto> d'),
        conversations := (conversations r)(s \<mapsto> c\<lparr>version := expected + int (length evs), messages := ms,
          events := events c @ evs\<rparr>)\<rparr>"
    by (auto simp: appendEvents_def call_simps split: if_splits option.splits)
  have old: "conversationOk (s \<in> M) s c d" by (rule repoOkD [OF ok c(1) d(1)])
  have "conversationOk (s \<in> M) s (c\<lparr>version := expected + int (length evs), messages := ms, events := events c @ evs\<rparr>) d'"
  proof (cases "evs = [] \<or> s \<notin> M")
    case True
    then show ?thesis
    proof
      assume "s \<notin> M"
      with old have "wellFormed d" "journalVersion d = expected" using c(2) by (simp_all add: conversationOk_def)
      from applyEvents_ok [OF d(2) this] \<open>s \<notin> M\<close> old ms show ?thesis by (simp add: conversationOk_def)
    next
      assume "evs = []"
      with old d(2) c(2) ms show ?thesis by (auto simp: conversationOk_def)
    qed
  next
    case False
    then obtain ev rest where "evs = ev # rest" "journalVersion d < expected"
      using old c(2) by (cases evs) (auto simp: conversationOk_def)
    with d(2) show ?thesis
      by (auto simp: applyStoredEventToConversationDocument_def split: option.splits sum.splits if_splits)
  qed
  with ok show ?thesis by (rule repoOk_store) (simp_all add: r')
qed

lemma createSeeded_Inr:
  "createSeededConversationDocument i es leaf = Some (Inr d) \<longleftrightarrow>
     graphOk es leaf \<and>
     d = \<lparr>docIdentity = i, journalVersion = 0, revision = int (length es), entries = es, activeLeafId = leaf,
          docName = None\<rparr>"
  unfolding assertGraph_iff [symmetric]
  by (auto simp: createSeededConversationDocument_def split: option.splits sum.splits)

text \<open>The document a fork stores, and the conversation beside it.\<close>

definition forkedDocument :: "document \<Rightarrow> string \<Rightarrow> string \<Rightarrow> int \<Rightarrow> entry list \<Rightarrow> document" where
  "forkedDocument d k fresh now b =
     \<lparr>docIdentity = newIdentity fresh now (agentId (docIdentity d)) (cwd (docIdentity d)) (Some k),
      journalVersion = 0, revision = int (length b), entries = b, activeLeafId = lastId None b,
      docName = None\<rparr>"

lemma fork_Inr:
  assumes "forkConversation s k fresh now r = Some (Inr out, r')"
  obtains d e tip b ms where "\<not> isClosed r" "documents r s = Some d" "conversationDocumentEntry d k = Inr e"
    "resolveConversationUserTurnTip d k = Some (Inr tip)" "selectBranch (entries d) (Some tip) = Some b"
    "graphOk b (lastId None b)" "out = (fresh, extractConversationEntryText e)"
    "r' = r\<lparr>documents := (documents r)(fresh \<mapsto> forkedDocument d k fresh now b),
            conversations := (conversations r)(fresh \<mapsto> (emptyConversation fresh now)\<lparr>messages := ms\<rparr>)\<rparr>"
    "selectConversationDocumentModelMessages (forkedDocument d k fresh now b) = Some (Inr ms)"
  using assms
  by (auto simp: forkConversation_def call_simps createSeeded_Inr selectConversationDocumentEntries_def
      lastId_def [symmetric] forkedDocument_def [symmetric])

lemma fork_ok [inv_intros]:
  assumes ok: "repoOk M r" and run: "forkConversation s k fresh now r = Some (Inr out, r')"
  shows "repoOk (M - {fresh}) r'"
  using run
proof (rule fork_Inr)
  fix d e tip b ms
  let ?d = "forkedDocument d k fresh now b"
  assume d: "documents r s = Some d" and b: "selectBranch (entries d) (Some tip) = Some b"
    and g: "graphOk b (lastId None b)" and ms: "selectConversationDocumentModelMessages ?d = Some (Inr ms)"
    and r': "r' = r\<lparr>documents := (documents r)(fresh \<mapsto> ?d),
            conversations := (conversations r)(fresh \<mapsto> (emptyConversation fresh now)\<lparr>messages := ms\<rparr>)\<rparr>"
  from ok d obtain c where "conversations r s = Some c" by (auto simp: repoOk_def dom_def) blast
  with ok d have "wellFormed d" using repoOkD by (fastforce simp: conversationOk_def)
  then have tree: "wellFormedTree (entries d) (activeLeafId d)" by (simp add: wellFormed_def)
  note lin = branch_linear [OF tree b]
  have "lastId None b \<noteq> Some []" by (rule linear_lastId [OF lin(1)])
  from sublist_wellFormed [OF tree lin(2) g this] have "wellFormed ?d" by (simp add: wellFormed_def forkedDocument_def)
  with ms have "conversationOk (fresh \<in> M - {fresh}) fresh ((emptyConversation fresh now)\<lparr>messages := ms\<rparr>) ?d"
    by (simp add: conversationOk_def emptyConversation_def newIdentity_def forkedDocument_def)
  with ok show "repoOk (M - {fresh}) r'" by (rule repoOk_store) (simp_all add: r')
qed

end
