(* ===== verification/ContinuationSeed.thy ===== *)
theory ContinuationSeed
  imports RepositoryInvariant
begin

text \<open>
  The seed a continuation builds: the ids of the carried entries are renamed to
  \<open>seed-1, seed-2, ...\<close> in branch order, every parent is the entry before, and the
  compaction at the front keeps everything after it. The lemmas say what the renaming leaves
  alone, and that the seed projects to the model messages of the branch it was built from.
\<close>

section \<open>Renaming the carried entries\<close>

lemma map_sum_Inr: "map_sum id f x = Inr y \<longleftrightarrow> (\<exists>z. x = Inr z \<and> y = f z)"
  by (cases x) auto

lemma truthyJson_present: "truthyJson v \<Longrightarrow> v \<noteq> None"
  by (cases v) auto

lemma seedId_inject: "seedId m = seedId n \<longleftrightarrow> m = n"
  by (simp add: seedId_def decimal_inject)

lemma seedId_not_Nil: "seedId n \<noteq> []"
  by (simp add: seedId_def)

lemma project_rewritten [simp]:
  "projectModelMessages (rewriteContinuationEntry e k p T) = projectModelMessages e"
  by (cases "body e") (auto simp: projectModelMessages_def rewriteContinuationEntry_def)

lemma summarizes_rewritten [simp]:
  "summarizes (body (rewriteContinuationEntry e k p T)) = summarizes (body e)"
  by (cases "body e") (auto simp: rewriteContinuationEntry_def)

lemma rewriteCarried_Inr:
  "rewriteCarried T p es = Inr out \<Longrightarrow>
     linked p out \<and> length out = length es \<and> map projectModelMessages out = map projectModelMessages es \<and>
     map body out = map (\<lambda>e. rewriteBody T (body e)) es \<and>
     (\<forall>j < length es. map_of (rev T) (entryId (es ! j)) = Some (entryId (out ! j)))"
proof (induction es arbitrary: p out)
  case Nil
  then show ?case by simp
next
  case (Cons e es)
  from Cons.prems obtain k rest where k: "map_of (rev T) (entryId e) = Some k" "k \<noteq> []"
    and rest: "rewriteCarried T (Some k) es = Inr rest"
    and out: "out = rewriteContinuationEntry e k p T # rest"
    by (auto simp: map_sum_Inr split: option.splits if_splits)
  from Cons.IH [OF rest] have IH: "linked (Some k) rest" "length rest = length es"
    "map projectModelMessages rest = map projectModelMessages es"
    "map body rest = map (\<lambda>e. rewriteBody T (body e)) es"
    "\<forall>j < length es. map_of (rev T) (entryId (es ! j)) = Some (entryId (rest ! j))" by auto
  have head: "entryId (rewriteContinuationEntry e k p T) = k" "parentId (rewriteContinuationEntry e k p T) = p"
    "body (rewriteContinuationEntry e k p T) = rewriteBody T (body e)"
    by (simp_all add: rewriteContinuationEntry_def)
  have "map_of (rev T) (entryId ((e # es) ! j)) = Some (entryId (out ! j))" if "j < Suc (length es)" for j
    using that IH(5) k(1) head(1) out by (cases j) auto
  with IH head out show ?case by simp
qed

lemma rewriteCarried_ids:
  assumes d: "distinct (ids es)" and out: "rewriteCarried (seedIds es) None es = Inr out"
  shows "ids out = map seedId [0..<length es]"
proof (rule nth_equalityI)
  from rewriteCarried_Inr [OF out] have len: "length out = length es"
    and ids: "\<forall>j < length es. map_of (rev (seedIds es)) (entryId (es ! j)) = Some (entryId (out ! j))" by auto
  from len show "length (ids out) = length (map seedId [0..<length es])" by simp
  fix j assume "j < length (ids out)"
  with len have j: "j < length es" by simp
  have "distinct (map fst (rev (seedIds es)))"
    using d by (simp add: seedIds_def rev_map [symmetric])
  moreover have "(entryId (es ! j), seedId j) \<in> set (rev (seedIds es))"
    using j by (auto simp: seedIds_def set_zip intro!: exI [of _ j])
  ultimately have "map_of (rev (seedIds es)) (entryId (es ! j)) = Some (seedId j)" by (rule map_of_is_SomeI)
  with ids j len show "ids out ! j = map seedId [0..<length es] ! j" by simp
qed

section \<open>The seed is one branch\<close>

lemma anchorSeed_Inr:
  assumes "anchorSeed es = Inr out"
  obtains e c rest where "es = e # rest" "body e = Compaction c"
    "out = e\<lparr>body := Compaction (c\<lparr>firstKeptEntryId := (case rest of [] \<Rightarrow> entryId e | e2 # _ \<Rightarrow> entryId e2)\<rparr>)\<rparr> # rest"
  using assms by (cases es) (auto split: entry_body.splits)

lemma seedEntries_Inr:
  assumes dist: "distinct (ids carried)" and seed: "seedEntries carried = Inr out"
  obtains e c rest where "carried \<noteq> []" "out = e # rest" "isBranch out"
    "body (hd carried) = Compaction c"
    "body e = Compaction (c\<lparr>firstKeptEntryId := (case rest of [] \<Rightarrow> entryId e | e2 # _ \<Rightarrow> entryId e2)\<rparr>)"
    "map projectModelMessages rest = map projectModelMessages (tl carried)"
proof -
  from seed obtain es where es: "rewriteCarried (seedIds carried) None carried = Inr es" "anchorSeed es = Inr out"
    by (auto simp: seedEntries_def split: sum.splits)
  from es(2) obtain e c rest where a: "es = e # rest" "body e = Compaction c"
    "out = e\<lparr>body := Compaction (c\<lparr>firstKeptEntryId := (case rest of [] \<Rightarrow> entryId e | e2 # _ \<Rightarrow> entryId e2)\<rparr>)\<rparr> # rest"
    by (rule anchorSeed_Inr)
  note rw = rewriteCarried_Inr [OF es(1)]
  with a(1) obtain x xs where carried: "carried = x # xs" by (cases carried) auto
  have "rewriteBody (seedIds carried) (body x) = Compaction c" using rw a(1,2) carried by simp
  then have x: "body (hd carried) = Compaction c" using carried by (cases "body x") auto
  have "ids out = map seedId [0..<length carried]" using rewriteCarried_ids [OF dist es(1)] a by simp
  moreover have "linked None out" using rw a by simp
  ultimately have "isBranch out"
    using seedId_not_Nil [THEN not_sym] by (auto simp: isBranch_def distinct_map inj_on_def seedId_inject simp del: list.set_map)
  moreover have "map projectModelMessages rest = map projectModelMessages (tl carried)"
    using rw a(1) carried by simp
  ultimately show thesis
    using carried by (intro that [OF _ a(3) _ x]) (auto simp: a(3) split: list.splits)
qed

lemma seed_model_messages:
  assumes out: "out = e # rest" "isBranch out"
    and e: "body e = Compaction (c\<lparr>firstKeptEntryId := (case rest of [] \<Rightarrow> entryId e | e2 # _ \<Rightarrow> entryId e2)\<rparr>)"
    and s: "truthyJson (summaryMessage c)" and tail: "\<forall>x \<in> set rest. \<not> summarizes (body x)"
    and d: "entries d = out" "activeLeafId d = lastId None out"
  shows "selectConversationDocumentModelMessages d =
    Some (Inr (the (summaryMessage c) # concat (map projectModelMessages rest)))"
proof -
  have b: "selectBranch (entries d) (activeLeafId d) = Some out" using linear_branch [OF out(2)] d by simp
  have sm: "summaryMessage c \<noteq> None" by (rule truthyJson_present [OF s])
  have last: "findLastIndex (\<lambda>x. summarizes (body x)) out = Some 0"
    using tail e sm out(1) findLastIndex_None [of "\<lambda>x. summarizes (body x)" rest] by simp
  have "modelMessagesAfter out 0 (body e) = Inr (the (summaryMessage c) # concat (map projectModelMessages rest))"
  proof (cases rest)
    case Nil
    with e s out show ?thesis by simp
  next
    case (Cons e2 rest')
    have "entryId e \<noteq> entryId e2" using out Cons by (simp add: isBranch_def)
    with Cons e s out show ?thesis by simp
  qed
  with b last out(1) show ?thesis by (simp add: selectConversationDocumentModelMessages_def)
qed

text \<open>Messages can be selected from every single branch that contains its references.\<close>

lemma branch_selects:
  assumes es: "isBranch es" "selfContained es" and d: "entries d = es" "activeLeafId d = lastId None es"
  shows "\<exists>ms. selectConversationDocumentModelMessages d = Some (Inr ms)"
proof -
  have b: "selectBranch (entries d) (activeLeafId d) = Some es" using linear_branch [OF es(1)] d by simp
  show ?thesis
  proof (cases "findLastIndex (\<lambda>e. summarizes (body e)) es")
    case None
    with b show ?thesis by (simp add: selectConversationDocumentModelMessages_def)
  next
    case (Some i)
    then have i: "i < length es" "summarizes (body (es ! i))" using findLastIndex_Some by fastforce+
    then obtain c where c: "body (es ! i) = Compaction c" by (cases "body (es ! i)") auto
    have "bodyRefs (body (es ! i)) \<subseteq> set (ids es)" using es(2) i(1) by (simp add: selfContained_def)
    then have "findIndex (\<lambda>e. entryId e = firstKeptEntryId c) es \<noteq> None"
      unfolding findIndex_mem using c by simp
    then have "\<exists>ms. modelMessagesAfter es i (Compaction c) = Inr ms" by auto
    with b Some c show ?thesis by (auto simp: selectConversationDocumentModelMessages_def)
  qed
qed

section \<open>The branch a fork copies\<close>

lemma fork_branch:
  assumes wf: "wellFormed d" and e: "conversationDocumentEntry d k = Inr e" "isUserEntry e"
  obtains tip b where "resolveConversationUserTurnTip d k = Some (Inr tip)"
    "selectConversationDocumentEntries d (Some tip) = Some b" "isBranch b" "set b \<subseteq> set (entries d)"
    "lastId None b = Some tip"
proof -
  have tree: "wellFormedTree (entries d) (activeLeafId d)" using wf by (simp add: wellFormed_def)
  from e(1) have "k \<in> set (ids (entries d))"
    by (auto simp: conversationDocumentEntry_def dest: findEntry_mem split: option.splits)
  from tipLoop_total [OF tree this, of notLabelNorUser] obtain tip
    where tip: "tipLoop notLabelNorUser (entries d) k = Some tip" "tip \<in> set (ids (entries d))" by blast
  obtain b where b: "selectBranch (entries d) (Some tip) = Some b"
    using selectBranch_total [OF wellFormedTreeD(3) [OF tree]] by blast
  from tip(2) obtain x where x: "x \<in> set (entries d)" "entryId x = tip" by auto
  then have "lookupEntry (entries d) (Some tip) = Some x"
    using wellFormedTreeD(1,6) [OF tree] byId_eq [of "entries d" x] by (auto simp: lookupEntry_def plainIds_def)
  with branch_linear [OF tree b] x(2) have "isBranch b" "set b \<subseteq> set (entries d)" "lastId None b = Some tip"
    by simp_all
  with tip(1) b e show thesis
    by (intro that [of tip b]) (simp_all add: resolveConversationUserTurnTip_def selectConversationDocumentEntries_def)
qed

section \<open>The branch a continuation starts from\<close>

lemma buildContinuation_Some:
  assumes "buildContinuationEntries d = Some (Inr (Some carried))"
  obtains b i c k where "selectBranch (entries d) (activeLeafId d) = Some b"
    "findLastIndex (\<lambda>e. isSummarizing (body e)) b = Some i" "body (b ! i) = Compaction c"
    "findIndex (\<lambda>e. entryId e = firstKeptEntryId c) b = Some k" "k < i"
    "seedEntries (carriedBranch b k i) = Inr (carriedEntries carried)"
    "carriedLeaf carried = lastId None (carriedEntries carried)" "sourceEntryId carried = entryId (b ! i)"
proof -
  from assms obtain b i where b: "selectBranch (entries d) (activeLeafId d) = Some b"
    and i: "findLastIndex (\<lambda>e. isSummarizing (body e)) b = Some i"
    and f: "buildFromBranch (sessionId (docIdentity d)) b i (body (b ! i)) = Inr (Some carried)"
    by (auto simp: buildContinuationEntries_def selectConversationDocumentEntries_def split: option.splits)
  from f obtain c where c: "body (b ! i) = Compaction c" by (cases "body (b ! i)") auto
  with f obtain k es where k: "findIndex (\<lambda>e. entryId e = firstKeptEntryId c) b = Some k" "k < i"
    and es: "seedEntries (carriedBranch b k i) = Inr es"
    and carried: "carried = \<lparr>sourceEntryId = entryId (b ! i), carriedEntries = es,
      carriedLeaf = (if es = [] then None else Some (entryId (last es)))\<rparr>"
    by (auto simp: map_sum_Inr split: option.splits if_splits)
  with that [OF b i c k] show thesis by (simp add: lastId_def)
qed

lemma carriedBranch_distinct:
  assumes "distinct (ids b)" "i < length b" "k < i"
  shows "distinct (ids (carriedBranch b k i))"
proof -
  have b: "b = take k b @ drop k (take i b) @ b ! i # drop (Suc i) b"
  proof -
    have "take k b @ drop k (take i b) = take i b"
      using assms(3) by (metis append_take_drop_id less_imp_le_nat min_def take_take)
    then show ?thesis using id_take_nth_drop [OF assms(2)] by (metis append.assoc)
  qed
  have "distinct (ids (take k b @ drop k (take i b) @ b ! i # drop (Suc i) b))"
    using assms(1) b by metis
  then show ?thesis by (auto simp: carriedBranch_def)
qed

text \<open>A summary message is an object, never \<open>null\<close> or a falsy value.\<close>

definition summariesPresent :: "entry list \<Rightarrow> bool" where
  "summariesPresent es = (\<forall>e \<in> set es. summarizes (body e) \<longrightarrow> isSummarizing (body e))"

lemma isSummarizing_summarizes: "isSummarizing b \<Longrightarrow> summarizes b"
  by (cases b) (simp_all add: truthyJson_present)

lemma findLastIndex_cong: "(\<And>x. x \<in> set xs \<Longrightarrow> P x = Q x) \<Longrightarrow> findLastIndex P xs = findLastIndex Q xs"
  by (induction xs) (auto split: option.splits)

lemma source_model_messages:
  assumes wf: "wellFormed d" and pres: "summariesPresent (entries d)"
    and b: "selectBranch (entries d) (activeLeafId d) = Some b"
    and i: "findLastIndex (\<lambda>e. isSummarizing (body e)) b = Some i" and c: "body (b ! i) = Compaction c"
    and k: "findIndex (\<lambda>e. entryId e = firstKeptEntryId c) b = Some k" "k < i"
  shows "truthyJson (summaryMessage c)"
    "selectConversationDocumentModelMessages d =
       Some (Inr (the (summaryMessage c) # concat (map projectModelMessages (tl (carriedBranch b k i)))))"
proof -
  have tree: "wellFormedTree (entries d) (activeLeafId d)" using wf by (simp add: wellFormed_def)
  show s: "truthyJson (summaryMessage c)"
    using findLastIndex_Some [OF i] c by simp
  have "findLastIndex (\<lambda>e. summarizes (body e)) b = findLastIndex (\<lambda>e. isSummarizing (body e)) b"
    using pres branch_linear(2) [OF tree b] isSummarizing_summarizes
    by (intro findLastIndex_cong) (auto simp: summariesPresent_def)
  with b i c s k show "selectConversationDocumentModelMessages d =
       Some (Inr (the (summaryMessage c) # concat (map projectModelMessages (tl (carriedBranch b k i)))))"
    by (simp add: selectConversationDocumentModelMessages_def carriedBranch_def)
qed

end
