(* ===== verification/RepositoryHistory.thy ===== *)
theory RepositoryHistory
  imports ContinuationSeed
begin

text \<open>
  Histories of requests to the in-process conversation repository, continuations included. A
  continuation stores a seed document and leaves its two sessions one version ahead of their
  documents; the set of the sessions so moved is carried along with the history.
\<close>

section \<open>What a continuation stores\<close>

definition continuedDocument :: "continue_input \<Rightarrow> document \<Rightarrow> carried_entries \<Rightarrow> string \<Rightarrow> document" where
  "continuedDocument i d carried fresh =
     \<lparr>docIdentity = newIdentity fresh (continueTime i) (agentId (docIdentity d)) (cwd (docIdentity d))
        (Some (sourceEntryId carried)),
      journalVersion = 0, revision = int (length (carriedEntries carried)), entries = carriedEntries carried,
      activeLeafId = carriedLeaf carried, docName = None\<rparr>"

lemma continue_Inr:
  assumes "continueConversation i fresh r = Some (Inr out, r')"
  obtains c d carried ms where "\<not> isClosed r" "conversations r (sourceSessionId i) = Some c"
    "version c = expectedVersion i" "documents r (sourceSessionId i) = Some d"
    "buildContinuationEntries d = Some (Inr (Some carried))"
    "graphOk (carriedEntries carried) (carriedLeaf carried)"
    "selectConversationDocumentModelMessages (continuedDocument i d carried fresh) = Some (Inr ms)"
    "r' = r\<lparr>documents := (documents r)(fresh \<mapsto> continuedDocument i d carried fresh),
           conversations := (conversations r)
             (sourceSessionId i \<mapsto> c\<lparr>version := expectedVersion i + 1, events := events c @ [transferEvent i fresh]\<rparr>,
              fresh \<mapsto> (emptyConversation fresh (continueTime i))\<lparr>messages := ms, version := 1,
                events := [continueEvent i fresh]\<rparr>)\<rparr>"
  using assms
  by (auto simp: continueConversation_def call_simps seedDocumentCall_def createSeeded_Inr Let_def
      continuedDocument_def [symmetric] split: if_splits)

text \<open>Every label of a list is put on an entry of the list.\<close>

definition labelsCarried :: "entry list \<Rightarrow> bool" where
  "labelsCarried es = list_all (\<lambda>e. isLabelBody (body e) \<longrightarrow> targetId (body e) \<in> set (ids es)) es"

lemma seed_entry:
  assumes dist: "distinct (ids carried)" and seed: "seedEntries carried = Inr out"
  shows "length out = length carried"
    "\<And>j. j < length carried \<Longrightarrow> entryId (out ! j) = seedId j \<and>
      isLabelBody (body (out ! j)) = isLabelBody (body (carried ! j)) \<and>
      (isLabelBody (body (out ! j)) \<longrightarrow> targetId (body (out ! j)) = retarget (seedIds carried) (targetId (body (carried ! j))))"
    "\<And>j. j < length carried \<Longrightarrow> retarget (seedIds carried) (entryId (carried ! j)) = seedId j"
proof -
  from seed obtain es where es: "rewriteCarried (seedIds carried) None carried = Inr es" "anchorSeed es = Inr out"
    by (auto simp: seedEntries_def split: sum.splits)
  from es(2) obtain e c rest where a: "es = e # rest" "body e = Compaction c"
    "out = e\<lparr>body := Compaction (c\<lparr>firstKeptEntryId := (case rest of [] \<Rightarrow> entryId e | e2 # _ \<Rightarrow> entryId e2)\<rparr>)\<rparr> # rest"
    by (rule anchorSeed_Inr)
  note rw = rewriteCarried_Inr [OF es(1)]
  have ids: "ids es = map seedId [0..<length carried]" by (rule rewriteCarried_ids [OF dist es(1)])
  have len: "length es = length carried" using rw by simp
  then show "length out = length carried" using a by simp
  have id: "entryId (es ! j) = seedId j" if "j < length carried" for j
    using arg_cong [OF ids, of "\<lambda>xs. xs ! j"] that len by simp
  have bd: "body (es ! j) = rewriteBody (seedIds carried) (body (carried ! j))" if "j < length carried" for j
  proof -
    have "map body es = map (\<lambda>e. rewriteBody (seedIds carried) (body e)) carried" using rw by simp
    from arg_cong [OF this, of "\<lambda>xs. xs ! j"] that len show ?thesis by simp
  qed
  have label: "isLabelBody (rewriteBody T b) = isLabelBody b"
    "isLabelBody b \<Longrightarrow> targetId (rewriteBody T b) = retarget T (targetId b)" for T b
    by (cases b; simp)+
  show "entryId (out ! j) = seedId j \<and> isLabelBody (body (out ! j)) = isLabelBody (body (carried ! j)) \<and>
      (isLabelBody (body (out ! j)) \<longrightarrow> targetId (body (out ! j)) = retarget (seedIds carried) (targetId (body (carried ! j))))"
    if "j < length carried" for j
  proof (cases j)
    case 0
    with bd [OF that] a(1,2) have "rewriteBody (seedIds carried) (body (carried ! 0)) = Compaction c" by simp
    then have "\<not> isLabelBody (body (carried ! 0))" by (cases "body (carried ! 0)") simp_all
    with id [OF that] 0 a show ?thesis by simp
  next
    case (Suc n)
    with id [OF that] bd [OF that] label [where T = "seedIds carried" and b = "body (carried ! j)"] a
    show ?thesis by auto
  qed
  show "retarget (seedIds carried) (entryId (carried ! j)) = seedId j" if "j < length carried" for j
    using rw id [OF that] that by (simp add: retarget_def)
qed

lemma seed_labelsFlat:
  assumes dist: "distinct (ids carried)" and seed: "seedEntries carried = Inr out"
    and flat: "labelsFlat carried" and targets: "labelsCarried carried"
  shows "labelsFlat out"
  unfolding labelsFlat_def
proof (intro ballI impI)
  fix l e assume l: "l \<in> set out" "isLabelBody (body l)" and e: "e \<in> set out" and eq: "targetId (body l) = entryId e"
  note seeded = seed_entry [OF dist seed]
  from l(1) e obtain i j where i: "i < length carried" "l = out ! i" and j: "j < length carried" "e = out ! j"
    unfolding in_set_conv_nth seeded(1) by blast
  from seeded(2) [OF i(1)] l(2) i have old: "isLabelBody (body (carried ! i))"
    and tgt: "targetId (body l) = retarget (seedIds carried) (targetId (body (carried ! i)))" by auto
  from targets old i(1) have "targetId (body (carried ! i)) \<in> set (ids carried)"
    by (auto simp: labelsCarried_def list_all_iff)
  then obtain m where m: "m < length carried" "targetId (body (carried ! i)) = entryId (carried ! m)"
    unfolding in_set_conv_nth by auto
  with tgt eq seeded(2) [OF j(1)] seeded(3) [OF m(1)] j have "m = j" by (simp add: seedId_inject)
  then have "targetId (body (carried ! i)) = entryId (carried ! j)" using m by simp
  with flat old i(1) j(1) have "\<not> isLabelBody (body (carried ! j))" unfolding labelsFlat_def by (metis nth_mem)
  with seeded(2) [OF j(1)] j show "\<not> isLabelBody (body e)" by simp
qed

lemma linked_parents: "linked p es \<Longrightarrow> p \<noteq> Some [] \<Longrightarrow> [] \<notin> set (ids es) \<Longrightarrow> e \<in> set es \<Longrightarrow> parentId e \<noteq> Some []"
proof (induction es arbitrary: p)
  case (Cons x es)
  then show ?case by (cases "e = x") force+
qed simp

lemma branch_plainIds: "isBranch es \<Longrightarrow> plainIds es"
  unfolding isBranch_def plainIds_def using linked_parents [of None es] by force

text \<open>The labels of the branch a continuation carries are put on entries it carries.\<close>

definition continuationOk :: "document \<Rightarrow> bool" where
  "continuationOk d =
     (case selectBranch (entries d) (activeLeafId d) of
        None \<Rightarrow> True
      | Some b \<Rightarrow>
          (case findLastIndex (\<lambda>e. isSummarizing (body e)) b of
             None \<Rightarrow> True
           | Some i \<Rightarrow>
               (case body (b ! i) of
                  Compaction c \<Rightarrow>
                    (case findIndex (\<lambda>e. entryId e = firstKeptEntryId c) b of
                       None \<Rightarrow> True
                     | Some k \<Rightarrow> labelsCarried (carriedBranch b k i))
                | _ \<Rightarrow> True)))"

lemma set_carriedBranch: "i < length b \<Longrightarrow> set (carriedBranch b k i) \<subseteq> set b"
  by (auto simp: carriedBranch_def dest: in_set_dropD in_set_takeD)

lemma seed_wellFormed:
  assumes wf: "wellFormed d" and ok: "continuationOk d" and build: "buildContinuationEntries d = Some (Inr (Some carried))"
    and g: "graphOk (carriedEntries carried) (carriedLeaf carried)"
  shows "wellFormedTree (carriedEntries carried) (carriedLeaf carried)"
  using build
proof (rule buildContinuation_Some)
  fix b i c k
  assume b: "selectBranch (entries d) (activeLeafId d) = Some b"
    and i: "findLastIndex (\<lambda>e. isSummarizing (body e)) b = Some i" and c: "body (b ! i) = Compaction c"
    and k: "findIndex (\<lambda>e. entryId e = firstKeptEntryId c) b = Some k" "k < i"
    and seed: "seedEntries (carriedBranch b k i) = Inr (carriedEntries carried)"
    and leaf: "carriedLeaf carried = lastId None (carriedEntries carried)"
  have tree: "wellFormedTree (entries d) (activeLeafId d)" using wf by (simp add: wellFormed_def)
  note lin = branch_linear [OF tree b]
  have len: "i < length b" using findLastIndex_Some [OF i] by simp
  have "distinct (ids b)" using lin(1) by (simp add: isBranch_def)
  then have dist: "distinct (ids (carriedBranch b k i))" by (rule carriedBranch_distinct [OF _ len k(2)])
  have "set (carriedBranch b k i) \<subseteq> set (entries d)" using set_carriedBranch [OF len] lin(2) by blast
  with wellFormedTreeD(7) [OF tree] have flat: "labelsFlat (carriedBranch b k i)" by (auto simp: labelsFlat_def)
  have "labelsCarried (carriedBranch b k i)" using ok b i c k by (simp add: continuationOk_def)
  from seed_labelsFlat [OF dist seed flat this] have "labelsFlat (carriedEntries carried)" .
  moreover have "isBranch (carriedEntries carried)" using seedEntries_Inr [OF dist seed] by blast
  ultimately show ?thesis
    using g branch_plainIds linear_lastId leaf by (simp add: wellFormedTree_def)
qed

lemma continue_ok:
  assumes ok: "repoOk M r" and cont: "\<And>d. documents r (sourceSessionId i) = Some d \<Longrightarrow> continuationOk d"
    and run: "continueConversation i fresh r = Some (Inr out, r')"
  shows "repoOk (insert fresh (insert (sourceSessionId i) M)) r'"
  using run
proof (rule continue_Inr)
  fix c :: conversation and d carried ms
  let ?s = "sourceSessionId i" and ?c = "c\<lparr>version := expectedVersion i + 1, events := events c @ [transferEvent i fresh]\<rparr>"
  let ?seed = "continuedDocument i d carried fresh"
  let ?f = "(emptyConversation fresh (continueTime i))\<lparr>messages := ms, version := 1, events := [continueEvent i fresh]\<rparr>"
  let ?r = "r\<lparr>conversations := (conversations r)(?s \<mapsto> ?c)\<rparr>"
  assume c: "conversations r ?s = Some c" "version c = expectedVersion i" and d: "documents r ?s = Some d"
    and build: "buildContinuationEntries d = Some (Inr (Some carried))"
    and g: "graphOk (carriedEntries carried) (carriedLeaf carried)"
    and ms: "selectConversationDocumentModelMessages ?seed = Some (Inr ms)"
    and r': "r' = r\<lparr>documents := (documents r)(fresh \<mapsto> ?seed), conversations := (conversations r)(?s \<mapsto> ?c, fresh \<mapsto> ?f)\<rparr>"
  have old: "conversationOk (?s \<in> M) ?s c d" by (rule repoOkD [OF ok c(1) d])
  then have "conversationOk (?s \<in> insert ?s M) ?s ?c d"
    using c(2) by (auto simp: conversationOk_def split: if_splits)
  from repoOk_store [OF ok this, of ?r] d have moved: "repoOk (insert ?s M) ?r"
    by (simp add: fun_upd_idem)
  have "wellFormed d" using old by (simp add: conversationOk_def)
  from seed_wellFormed [OF this cont [OF d] build g] have "wellFormed ?seed"
    by (simp add: wellFormed_def continuedDocument_def)
  then have "conversationOk (fresh \<in> insert fresh (insert ?s M)) fresh ?f ?seed"
    using ms by (simp add: conversationOk_def emptyConversation_def newIdentity_def continuedDocument_def)
  with moved show ?thesis by (rule repoOk_store) (simp_all add: r')
qed

section \<open>Histories of requests\<close>

datatype request =
    Create string int "string option" "string option"
  | Load string
  | ReadDocument string
  | Execute string "int option" command
  | Fork string string string int
  | Continue continue_input string
  | Append string int "stored_event list"
  | SaveSnapshot string string int
  | Close

fun perform :: "request \<Rightarrow> unit call" where
  "perform (Create s t agent dir) = chain (createConversation s t agent dir) (\<lambda>_. deliver ())"
| "perform (Load s) = chain (loadConversation s) (\<lambda>_. deliver ())"
| "perform (ReadDocument s) = chain (readDocument s) (\<lambda>_. deliver ())"
| "perform (Execute s expected cmd) = chain (executeCommand s expected cmd) (\<lambda>_. deliver ())"
| "perform (Fork s k fresh now) = chain (forkConversation s k fresh now) (\<lambda>_. deliver ())"
| "perform (Continue i fresh) = chain (continueConversation i fresh) (\<lambda>_. deliver ())"
| "perform (Append s v evs) = chain (appendEvents s v evs) (\<lambda>_. deliver ())"
| "perform (SaveSnapshot s snapshotSession v) = saveSnapshot s snapshotSession v"
| "perform Close = closeRepository"

text \<open>
  What a request owes: a command meets \<open>commandOk\<close>, and a continuation finds the labels it carries
  on entries it carries. The code checks neither.
\<close>

fun requestOk :: "repository \<Rightarrow> request \<Rightarrow> bool" where
  "requestOk r (Execute s expected cmd) = (case documents r s of Some d \<Rightarrow> commandOk d cmd | None \<Rightarrow> True)"
| "requestOk r (Continue i fresh) =
     (case documents r (sourceSessionId i) of Some d \<Rightarrow> continuationOk d | None \<Rightarrow> True)"
| "requestOk r _ = True"

text \<open>The sessions a continuation has written to since they were created.\<close>

fun movedBy :: "request \<Rightarrow> string set \<Rightarrow> string set" where
  "movedBy (Create s t agent dir) M = M - {s}"
| "movedBy (Fork s k fresh now) M = M - {fresh}"
| "movedBy (Continue i fresh) M = insert fresh (insert (sourceSessionId i) M)"
| "movedBy q M = M"

inductive reachable :: "string set \<Rightarrow> repository \<Rightarrow> bool" where
  start: "reachable {} newRepository"
| request: "reachable M r \<Longrightarrow> requestOk r q \<Longrightarrow> perform q r = Some (Inr (), r') \<Longrightarrow> reachable (movedBy q M) r'"

lemma perform_ok:
  assumes ok: "repoOk M r" "requestOk r q" and run: "perform q r = Some (Inr (), r')"
  shows "repoOk (movedBy q M) r'"
proof (cases q)
  case (Continue i fresh)
  with run obtain out where "continueConversation i fresh r = Some (Inr out, r')" by (auto simp: chain_Inr)
  from continue_ok [OF ok(1) _ this] ok(2) Continue show ?thesis by (simp split: option.splits)
next
  case (Execute s expected cmd)
  with run obtain res where "executeCommand s expected cmd r = Some (Inr res, r')" by (auto simp: chain_Inr)
  from execute_ok [OF ok(1) _ this] ok(2) Execute show ?thesis by (simp split: option.splits)
next
  case (Create s t agent dir)
  with run ok(1) show ?thesis by (auto simp: chain_Inr intro: inv_intros)
next
  case (Append s v evs)
  with run ok(1) show ?thesis by (auto simp: chain_Inr intro: inv_intros)
next
  case (Fork s k fresh now)
  with run ok(1) show ?thesis by (auto simp: chain_Inr intro: inv_intros)
next
  case (Load s)
  with run ok show ?thesis by (auto simp: loadConversation_def chain_Inr)
next
  case (ReadDocument s)
  with run ok show ?thesis by (auto simp: readDocument_def chain_Inr)
next
  case (SaveSnapshot s snapshotSession v)
  with run ok show ?thesis by (auto simp: saveSnapshot_def chain_Inr split: if_splits)
next
  case Close
  with run ok show ?thesis by (auto simp: closeRepository_def storing_def repoOk_closed)
qed

lemma reachable_ok: "reachable M r \<Longrightarrow> repoOk M r"
  by (induction rule: reachable.induct) (auto intro: newRepository_ok perform_ok)

end
