(* ===== verification/ConversationProperties.thy ===== *)
theory ConversationProperties
  imports RepositoryHistory DocumentProperties
begin

text \<open>
  The properties of the stored conversations: what the recovery policy accepts and how a
  crash is repaired, what the in-process repository keeps of its invariant, and what forking a
  conversation and continuing a turn in a new one do.
\<close>

section \<open>Recovery\<close>

text \<open>
  C9. The recovery policy accepts exactly the logs of its grammar: a log without open turn is
  ready, a log that ends inside the turn \<open>t\<close> asks to interrupt \<open>t\<close>, and every other
  log (overlapping turns, messages outside their turn, an automatic compaction outside a turn,
  an event of another session) is rejected.
\<close>

theorem recovery_recognises_turns:
  "(recoveryPlan c = Inr Ready \<longleftrightarrow>
      closedLog (map payload (events c)) \<and> (\<forall>ev \<in> set (events c). eventSession ev = conversationId c)) \<and>
   (recoveryPlan c = Inr (Interrupt t) \<longleftrightarrow>
      openLog (map payload (events c)) t \<and> (\<forall>ev \<in> set (events c). eventSession ev = conversationId c))"
proof -
  let ?s = "conversationId c" and ?evs = "events c"
  have ready: "recoveryPlan c = Inr Ready \<longleftrightarrow> (\<exists>a. planLoop ?s None ?evs = Inr a \<and> \<not> truthy a)"
    by (auto simp: recoveryPlan_def split: sum.splits)
  have stop: "recoveryPlan c = Inr (Interrupt t) \<longleftrightarrow> planLoop ?s None ?evs = Inr (Some t) \<and> t \<noteq> []" for t
    by (auto simp: recoveryPlan_def truthy_iff split: sum.splits)
  have ne: "openLog (map payload ?evs) t \<Longrightarrow> t \<noteq> []" by (erule openLogE) simp
  show ?thesis
    unfolding ready stop
    using planLoop_sound [of ?s ?evs] planLoop_session [of ?s None ?evs]
      planLoop_closed [of "map payload ?evs" ?evs ?s] planLoop_open [of ?evs t ?s] ne
    by fastforce
qed

definition sampleTurn :: conversation where
  "sampleTurn = \<lparr>conversationId = ''s'', conversationCreatedAt = 0, version = 3, messages = [],
     events = map (\<lambda>p. \<lparr>eventSession = ''s'', eventTime = 1, payload = p\<rparr>)
       [TurnStarted ''t1'', MessageAppended ''t1'' None JNull None, TurnCompleted ''t1'']\<rparr>"

theorem recovery_recognises_turns_witness:
  "closedLog (map payload (events sampleTurn)) \<and> \<not> openLog (map payload (events sampleTurn)) ''t1''"
proof -
  have "recoveryPlan sampleTurn = Inr Ready" by code_simp
  moreover have "\<forall>ev \<in> set (events sampleTurn). eventSession ev = conversationId sampleTurn"
    by (simp add: sampleTurn_def)
  ultimately show ?thesis using recovery_recognises_turns [of sampleTurn "''t1''"] by auto
qed

text \<open>
  C16. Recovery converges: whatever accepted log a crash cut off, and wherever it cut it, the
  policy accepts what is left, and one terminal event for the turn it names makes the log
  ready.
\<close>

theorem recovery_after_crash:
  assumes "recoveryPlan c = Inr p"
  shows "recoveryPlan (c\<lparr>events := take n (events c)\<rparr>) = Inr Ready \<or>
    (\<exists>t. recoveryPlan (c\<lparr>events := take n (events c)\<rparr>) = Inr (Interrupt t) \<and>
       recoveryPlan (c\<lparr>events := take n (events c) @
         [\<lparr>eventSession = conversationId c, eventTime = now, payload = TurnFailed t err\<rparr>]\<rparr>) = Inr Ready)"
proof -
  let ?s = "conversationId c"
  from assms obtain a where "planLoop ?s None (events c) = Inr a"
    by (auto simp: recoveryPlan_def split: sum.splits)
  then obtain b where b: "planLoop ?s None (take n (events c)) = Inr b" using closedLog_prefix by blast
  show ?thesis
  proof (cases "truthy b")
    case True
    then obtain t where "b = Some t" "t \<noteq> []" by (auto simp: truthy_iff)
    with b show ?thesis by (simp add: recoveryPlan_def planLoop_append assertActiveTurn_def)
  next
    case False
    with b show ?thesis by (simp add: recoveryPlan_def)
  qed
qed

theorem recovery_after_crash_witness:
  "recoveryPlan (sampleTurn\<lparr>events := take 2 (events sampleTurn) @
     [\<lparr>eventSession = ''s'', eventTime = 9, payload = TurnFailed ''t1'' JNull\<rparr>]\<rparr>) = Inr Ready"
proof -
  have "recoveryPlan sampleTurn = Inr Ready" by code_simp
  from recovery_after_crash [OF this, of 2 9 JNull]
  have "recoveryPlan (sampleTurn\<lparr>events := take 2 (events sampleTurn)\<rparr>) = Inr Ready \<or>
    recoveryPlan (sampleTurn\<lparr>events := take 2 (events sampleTurn) @
         [\<lparr>eventSession = ''s'', eventTime = 9, payload = TurnFailed ''t1'' JNull\<rparr>]\<rparr>) = Inr Ready"
    by (auto simp: sampleTurn_def recoveryPlan_def assertActiveTurn_def)
  moreover have "recoveryPlan (sampleTurn\<lparr>events := take 2 (events sampleTurn)\<rparr>) \<noteq> Inr Ready" by code_simp
  ultimately show ?thesis by blast
qed

section \<open>The repository\<close>

text \<open>
  C2. After every history of successful requests (creating, reading, executing document
  commands, appending events, forking, continuing, saving snapshots, closing), in which every
  command meets \<open>commandOk\<close> and every continuation finds the labels it carries on entries it carries
  (\<open>requestOk\<close>; the code checks neither), each stored conversation has a document of the same session,
  which is well-formed and whose model messages are the cached ones. The conversation is at the
  version of its document, except in the sessions a continuation has written to: there it is ahead of
  its document.
\<close>

theorem repository_consistent:
  assumes "reachable M r" "conversations r s = Some c"
  shows "\<exists>d. documents r s = Some d \<and> sessionId (docIdentity d) = s \<and>
    (if s \<in> M then journalVersion d < version c else version c = journalVersion d) \<and>
    selectConversationDocumentModelMessages d = Some (Inr (messages c)) \<and> wellFormed d"
proof -
  have ok: "repoOk M r" using assms(1) by (rule reachable_ok)
  with assms(2) have "s \<in> dom (documents r)" unfolding repoOk_def by (metis domI)
  then obtain d where "documents r s = Some d" by blast
  with repoOkD [OF ok assms(2) this] show ?thesis by (auto simp: conversationOk_def)
qed

definition storedCompaction :: compaction where
  "storedCompaction = sampleCompaction\<lparr>firstKeptEntryId := ''event-3''\<rparr>"

definition sampleHistory :: "stored_event list" where
  "sampleHistory = map (\<lambda>p. \<lparr>eventSession = ''s'', eventTime = 1, payload = p\<rparr>)
     [TurnStarted ''t1'',
      MessageAppended ''t1'' None (JObj [(''role'', JStr ''user'')]) None,
      MessageAppended ''t1'' None (JObj [(''role'', JStr ''assistant'')]) None,
      ContextCompacted (Some ''t1'') (ContextCompaction storedCompaction)]"

definition sampleStored :: document where
  "sampleStored =
     \<lparr>docIdentity = newIdentity ''s'' 0 None None None, journalVersion = 4, revision = 3,
      entries =
        [\<lparr>entryId = ''event-2'', parentId = None, timestamp = 1,
          body = LegacyMessage (Some ''t1'') None (JObj [(''role'', JStr ''user'')]) None\<rparr>,
         \<lparr>entryId = ''event-3'', parentId = Some ''event-2'', timestamp = 1,
          body = LegacyMessage (Some ''t1'') None (JObj [(''role'', JStr ''assistant'')]) None\<rparr>,
         \<lparr>entryId = ''event-4'', parentId = Some ''event-3'', timestamp = 1, body = Compaction storedCompaction\<rparr>],
      activeLeafId = Some ''event-4'', docName = None\<rparr>"

definition sampleConversation :: conversation where
  "sampleConversation =
     \<lparr>conversationId = ''s'', conversationCreatedAt = 0, version = 4,
      messages = [JObj [(''role'', JStr ''user'')], JObj [(''role'', JStr ''assistant'')]], events = sampleHistory\<rparr>"

definition sampleRepository :: repository where
  "sampleRepository =
     \<lparr>conversations = [''s'' \<mapsto> sampleConversation], documents = [''s'' \<mapsto> sampleStored], isClosed = False\<rparr>"

lemma sample_applied:
  "applyEvents (createEmptyConversationDocument (newIdentity ''s'' 0 None None None)) 0 sampleHistory =
     Some (Inr sampleStored)"
  "selectConversationDocumentModelMessages sampleStored = Some (Inr (messages sampleConversation))"
  by code_simp+

lemma sample_reachable: "reachable {} sampleRepository"
proof -
  let ?d = "createEmptyConversationDocument (newIdentity ''s'' 0 None None None)"
  let ?r = "\<lparr>conversations = [''s'' \<mapsto> emptyConversation ''s'' 0], documents = [''s'' \<mapsto> ?d], isClosed = False\<rparr>"
  have run: "perform (Create ''s'' 0 None None) newRepository = Some (Inr (), ?r)"
    by (simp add: createConversation_def chain_Inr newRepository_def)
  have r: "reachable {} ?r" using reachable.request [OF reachable.start _ run] by simp
  have "find (\<lambda>ev. eventSession ev \<noteq> ''s'') sampleHistory = None"
    by (simp add: sampleHistory_def)
  then have "appendEvents ''s'' 0 sampleHistory ?r = Some (Inr 4, sampleRepository)"
    by (simp add: appendEvents_def chain_Inr sample_applied emptyConversation_def sampleRepository_def
        sampleConversation_def) (simp add: sampleHistory_def)
  then have run: "perform (Append ''s'' 0 sampleHistory) ?r = Some (Inr (), sampleRepository)"
    by (simp add: chain_Inr)
  show ?thesis using reachable.request [OF r _ run] by simp
qed

definition sampleContinue :: continue_input where
  "sampleContinue =
     \<lparr>sourceSessionId = ''s'', expectedVersion = 4, continueTurn = ''t1'', snapshotId = ''x'',
      continueReason = ''r'', continueTime = 9\<rparr>"

definition sampleContinued :: repository where
  "sampleContinued = (case continueConversation sampleContinue ''n'' sampleRepository of
     Some (x, r') \<Rightarrow> r' | None \<Rightarrow> sampleRepository)"

lemma sample_continued:
  obtains out where "continueConversation sampleContinue ''n'' sampleRepository = Some (Inr out, sampleContinued)"
proof -
  have "(case continueConversation sampleContinue ''n'' sampleRepository of Some (Inr out, r') \<Rightarrow> True | _ \<Rightarrow> False)"
    by code_simp
  then show thesis
    by (auto simp: sampleContinued_def intro: that split: option.splits prod.splits sum.splits)
qed

lemma continued_reachable: "reachable {''n'', ''s''} sampleContinued"
proof -
  obtain out where "continueConversation sampleContinue ''n'' sampleRepository = Some (Inr out, sampleContinued)"
    by (rule sample_continued)
  then have "perform (Continue sampleContinue ''n'') sampleRepository = Some (Inr (), sampleContinued)"
    by (auto simp: chain_Inr)
  moreover have "continuationOk sampleStored" by code_simp
  then have "requestOk sampleRepository (Continue sampleContinue ''n'')"
    by (simp add: sampleRepository_def sampleContinue_def)
  ultimately show ?thesis using reachable.request [OF sample_reachable] by (fastforce simp: sampleContinue_def)
qed

theorem repository_consistent_witness:
  "(selectConversationDocumentModelMessages sampleStored = Some (Inr (messages sampleConversation)) \<and> wellFormed sampleStored) \<and>
   (\<exists>c d. conversations sampleContinued ''n'' = Some c \<and> documents sampleContinued ''n'' = Some d \<and>
      journalVersion d < version c \<and> wellFormed d)"
proof -
  have "conversations sampleContinued ''n'' \<noteq> None" by code_simp
  then obtain c where c: "conversations sampleContinued ''n'' = Some c" by blast
  show ?thesis
    using repository_consistent [OF sample_reachable, of "''s''" sampleConversation]
      repository_consistent [OF continued_reachable c] c
    by (auto simp: sampleRepository_def)
qed

text \<open>
  A fork succeeds exactly when every label, branch summary and compaction on the forked
  branch refers to an entry of that branch; otherwise the copy fails the graph check.
\<close>

theorem fork_needs_own_references:
  assumes "wellFormed d" "documents r s = Some d" "\<not> isClosed r"
    "conversationDocumentEntry d k = Inr e" "isUserEntry e"
  shows "\<exists>tip b. resolveConversationUserTurnTip d k = Some (Inr tip) \<and>
    selectConversationDocumentEntries d (Some tip) = Some b \<and>
    ((\<exists>out r'. forkConversation s k fresh now r = Some (Inr out, r')) \<longleftrightarrow> selfContained b)"
proof -
  from fork_branch [OF assms(1,4,5)] obtain tip b where
    b: "resolveConversationUserTurnTip d k = Some (Inr tip)" "selectConversationDocumentEntries d (Some tip) = Some b"
      "isBranch b" by blast
  have "(\<exists>out r'. forkConversation s k fresh now r = Some (Inr out, r')) \<longleftrightarrow>
      graphOk b (lastId None b) \<and>
      (\<exists>ms. selectConversationDocumentModelMessages (forkedDocument d k fresh now b) = Some (Inr ms))"
    using assms(2-4) b(1,2)
    by (simp add: forkConversation_def call_simps createSeeded_Inr lastId_def [symmetric] forkedDocument_def
        [symmetric])
  also have "\<dots> \<longleftrightarrow> selfContained b"
    using linear_graphOk [OF b(3)] graphOk_selfContained branch_selects [OF b(3)]
    by (auto simp: forkedDocument_def)
  finally show ?thesis using b(1,2) by blast
qed

text \<open>The sample conversation has the label \<open>l1\<close> on its branch, and its target too.\<close>

definition sampleForkable :: repository where
  "sampleForkable =
     \<lparr>conversations = Map.empty, documents = [''s'' \<mapsto> sampleDocument], isClosed = False\<rparr>"

definition sampleBranch :: "entry list" where
  "sampleBranch = take 2 sampleEntries"

theorem fork_needs_own_references_witness:
  "\<exists>out r'. forkConversation ''s'' ''m1'' ''f'' 9 sampleForkable = Some (Inr out, r')"
proof -
  have e: "conversationDocumentEntry sampleDocument ''m1'' = Inr (sampleEntries ! 0)" "isUserEntry (sampleEntries ! 0)"
    by code_simp+
  have "documents sampleForkable ''s'' = Some sampleDocument" "\<not> isClosed sampleForkable"
    by (simp_all add: sampleForkable_def)
  from fork_needs_own_references [OF sample_wellFormed this e, of "''f''" 9]
  obtain tip b where "resolveConversationUserTurnTip sampleDocument ''m1'' = Some (Inr tip)"
    "selectConversationDocumentEntries sampleDocument (Some tip) = Some b"
    "(\<exists>out r'. forkConversation ''s'' ''m1'' ''f'' 9 sampleForkable = Some (Inr out, r')) \<longleftrightarrow> selfContained b"
    by blast
  moreover have "resolveConversationUserTurnTip sampleDocument ''m1'' = Some (Inr ''a1'')"
    "selectConversationDocumentEntries sampleDocument (Some ''a1'') = Some sampleBranch"
    by code_simp+
  moreover have "selfContained sampleBranch"
    by (simp add: selfContained_def sampleBranch_def sampleEntries_def numeral_2_eq_2)
  ultimately show ?thesis by simp
qed

text \<open>
  A fork stores a copy of the branch from the root to the tip of the chosen user turn under
  the fresh session, at version 0, with the model messages the source has at that tip, and
  touches no other session.
\<close>

theorem fork_copies_branch:
  assumes "wellFormed d" "documents r s = Some d" "forkConversation s k fresh now r = Some (Inr out, r')"
  shows "\<exists>tip b d' c'. resolveConversationUserTurnTip d k = Some (Inr tip) \<and>
    selectConversationDocumentEntries d (Some tip) = Some b \<and>
    documents r' = (documents r)(fresh \<mapsto> d') \<and> conversations r' = (conversations r)(fresh \<mapsto> c') \<and>
    entries d' = b \<and> activeLeafId d' = Some tip \<and> version c' = 0 \<and> journalVersion d' = 0 \<and>
    selectConversationDocumentModelMessages (d\<lparr>activeLeafId := Some tip\<rparr>) = Some (Inr (messages c'))"
  using assms(3)
proof (rule fork_Inr)
  fix d2 e tip b ms
  assume d2: "documents r s = Some d2" "conversationDocumentEntry d2 k = Inr e"
    "resolveConversationUserTurnTip d2 k = Some (Inr tip)" "selectBranch (entries d2) (Some tip) = Some b"
    and r': "r' = r\<lparr>documents := (documents r)(fresh \<mapsto> forkedDocument d2 k fresh now b),
      conversations := (conversations r)(fresh \<mapsto> (emptyConversation fresh now)\<lparr>messages := ms\<rparr>)\<rparr>"
    and ms: "selectConversationDocumentModelMessages (forkedDocument d2 k fresh now b) = Some (Inr ms)"
  have d: "d2 = d" using d2(1) assms(2) by simp
  have "isUserEntry e" using d2(2,3) by (auto simp: resolveConversationUserTurnTip_def split: if_splits)
  from fork_branch [OF assms(1) d2(2) [unfolded d] this] obtain tip' b' where
    f: "resolveConversationUserTurnTip d k = Some (Inr tip')"
      "selectConversationDocumentEntries d (Some tip') = Some b'" "isBranch b'" "lastId None b' = Some tip'"
    by blast
  have "tip' = tip" using f(1) d2(3) d by simp
  moreover have "b' = b" using f(2) d2(4) d calculation by (simp add: selectConversationDocumentEntries_def)
  ultimately have lin: "isBranch b" "lastId None b = Some tip" using f(3,4) by simp_all
  have "selectConversationDocumentModelMessages (d\<lparr>activeLeafId := Some tip\<rparr>) = Some (Inr ms)"
    using ms d2(4) d linear_branch [OF lin(1)]
    by (simp add: selectConversationDocumentModelMessages_def forkedDocument_def)
  with d2(3,4) d r' lin(2) show ?thesis
    by (intro exI [of _ tip] exI [of _ b] exI [of _ "forkedDocument d k fresh now b"]
        exI [of _ "(emptyConversation fresh now)\<lparr>messages := ms\<rparr>"])
      (simp add: selectConversationDocumentEntries_def forkedDocument_def emptyConversation_def)
qed

definition sampleForkRepository :: repository where
  "sampleForkRepository = (case forkConversation ''s'' ''m1'' ''f'' 9 sampleForkable of
     Some (x, r') \<Rightarrow> r' | None \<Rightarrow> sampleForkable)"

theorem fork_copies_branch_witness:
  "\<exists>d'. documents sampleForkRepository ''f'' = Some d' \<and> activeLeafId d' = Some ''a1''"
proof -
  have ok: "(case forkConversation ''s'' ''m1'' ''f'' 9 sampleForkable of
      Some (Inr out, r') \<Rightarrow> out = (''f'', []) | _ \<Rightarrow> False)" by code_simp
  then have "forkConversation ''s'' ''m1'' ''f'' 9 sampleForkable = Some (Inr (''f'', []), sampleForkRepository)"
    by (auto simp: sampleForkRepository_def split: option.splits prod.splits sum.splits)
  moreover have "documents sampleForkable ''s'' = Some sampleDocument" by (simp add: sampleForkable_def)
  ultimately obtain tip d' where "resolveConversationUserTurnTip sampleDocument ''m1'' = Some (Inr tip)"
    "documents sampleForkRepository = (documents sampleForkable)(''f'' \<mapsto> d')" "activeLeafId d' = Some tip"
    using fork_copies_branch [OF sample_wellFormed] by blast
  moreover have "resolveConversationUserTurnTip sampleDocument ''m1'' = Some (Inr ''a1'')" by code_simp
  ultimately show ?thesis by simp
qed

section \<open>Continuing a turn in a new conversation\<close>

text \<open>
  C6. The seed of a continuation: the document is created exactly when the carried entries refer to
  each other only, and then it projects to exactly the model messages of the source document, if
  the kept tail holds no older summary and every summary message of the source is an object, as
  its type says. The code checks neither of the two conditions; with an older summary in the tail the
  seed is projected from that one.
\<close>

theorem continuation_preserves_context:
  assumes "wellFormed d" "buildContinuationEntries d = Some (Inr (Some carried))"
  shows "((\<exists>seed. createSeededConversationDocument i (carriedEntries carried) (carriedLeaf carried) = Some (Inr seed)) \<longleftrightarrow>
      selfContained (carriedEntries carried)) \<and>
    (\<forall>seed. createSeededConversationDocument i (carriedEntries carried) (carriedLeaf carried) = Some (Inr seed) \<longrightarrow>
      (\<forall>e \<in> set (tl (carriedEntries carried)). \<not> summarizes (body e)) \<longrightarrow> summariesPresent (entries d) \<longrightarrow>
      selectConversationDocumentModelMessages seed = selectConversationDocumentModelMessages d)"
  using assms(2)
proof (rule buildContinuation_Some)
  fix b i' c k
  assume b: "selectBranch (entries d) (activeLeafId d) = Some b"
    and i': "findLastIndex (\<lambda>e. isSummarizing (body e)) b = Some i'" and c: "body (b ! i') = Compaction c"
    and k: "findIndex (\<lambda>e. entryId e = firstKeptEntryId c) b = Some k" "k < i'"
    and seed: "seedEntries (carriedBranch b k i') = Inr (carriedEntries carried)"
    and leaf: "carriedLeaf carried = lastId None (carriedEntries carried)"
  have tree: "wellFormedTree (entries d) (activeLeafId d)" using assms(1) by (simp add: wellFormed_def)
  have "distinct (ids b)" using branch_linear(1) [OF tree b] by (simp add: isBranch_def)
  then have dist: "distinct (ids (carriedBranch b k i'))"
    by (rule carriedBranch_distinct [OF _ _ k(2)]) (use findLastIndex_Some [OF i'] in simp)
  from seedEntries_Inr [OF dist seed] obtain e c' rest where s: "carriedEntries carried = e # rest"
      "isBranch (carriedEntries carried)" "body (hd (carriedBranch b k i')) = Compaction c'"
      "body e = Compaction (c'\<lparr>firstKeptEntryId := (case rest of [] \<Rightarrow> entryId e | e2 # _ \<Rightarrow> entryId e2)\<rparr>)"
      "map projectModelMessages rest = map projectModelMessages (tl (carriedBranch b k i'))"
    by blast
  have c': "c' = c" using s(3) c by (simp add: carriedBranch_def)
  let ?seed = "\<lparr>docIdentity = i, journalVersion = 0, revision = int (length (carriedEntries carried)),
      entries = carriedEntries carried, activeLeafId = carriedLeaf carried, docName = None\<rparr>"
  let ?create = "createSeededConversationDocument i (carriedEntries carried) (carriedLeaf carried)"
  have only: "seed = ?seed" if "?create = Some (Inr seed)" for seed
    using that by (auto simp: createSeededConversationDocument_def split: option.splits sum.splits)
  have "?create = Some (Inr ?seed) \<longleftrightarrow> selfContained (carriedEntries carried)"
    using seeded_linear [OF s(2)] leaf by simp
  then have "(\<exists>seed. ?create = Some (Inr seed)) \<longleftrightarrow> selfContained (carriedEntries carried)"
    using only by blast
  moreover have "selectConversationDocumentModelMessages ?seed = selectConversationDocumentModelMessages d"
    if "\<forall>e \<in> set (tl (carriedEntries carried)). \<not> summarizes (body e)" "summariesPresent (entries d)"
  proof -
    note src = source_model_messages [OF assms(1) that(2) b i' c k]
    have "\<forall>x \<in> set rest. \<not> summarizes (body x)" using that(1) s(1) by simp
    from seed_model_messages [OF s(1,2,4) _ this, of ?seed] src leaf s(5) c' show ?thesis by simp
  qed
  ultimately show ?thesis using only by blast
qed

definition sampleCarried :: carried_entries where
  "sampleCarried = (case buildContinuationEntries sampleCompacted of
     Some (Inr (Some carried)) \<Rightarrow> carried
   | _ \<Rightarrow> \<lparr>sourceEntryId = [], carriedEntries = [], carriedLeaf = None\<rparr>)"

theorem continuation_preserves_context_witness:
  "\<exists>seed. createSeededConversationDocument sampleIdentity (carriedEntries sampleCarried) (carriedLeaf sampleCarried) =
       Some (Inr seed) \<and>
     selectConversationDocumentModelMessages seed = selectConversationDocumentModelMessages sampleCompacted"
proof -
  have wf: "wellFormed sampleCompacted"
    by (rule event_wellFormed [OF sample_wellFormed _ sample_compacted]) simp
  have "(case buildContinuationEntries sampleCompacted of Some (Inr (Some carried)) \<Rightarrow> True | _ \<Rightarrow> False)"
    by code_simp
  then have build: "buildContinuationEntries sampleCompacted = Some (Inr (Some sampleCarried))"
    by (auto simp: sampleCarried_def split: option.splits sum.splits)
  have seed: "carriedEntries sampleCarried =
    [\<lparr>entryId = ''seed-1'', parentId = None, timestamp = 7,
      body = Compaction (sampleCompaction\<lparr>firstKeptEntryId := ''seed-2''\<rparr>)\<rparr>,
     (sampleEntries ! 3)\<lparr>entryId := ''seed-2'', parentId := Some ''seed-1''\<rparr>]"
    by code_simp
  have "selfContained (carriedEntries sampleCarried)"
    by (simp add: seed selfContained_def) (simp add: sampleEntries_def)
  moreover have "\<forall>e \<in> set (tl (carriedEntries sampleCarried)). \<not> summarizes (body e)"
    by (simp add: seed) (simp add: sampleEntries_def)
  moreover have "summariesPresent (entries sampleCompacted)"
    by (simp add: summariesPresent_def sampleCompacted_def sampleEntries_def sampleCompaction_def)
  ultimately show ?thesis using continuation_preserves_context [OF wf build, of sampleIdentity] by blast
qed

lemma append_gap:
  assumes "\<not> isClosed r" "conversations r s = Some c" "documents r s = Some d" "sessionId (docIdentity d) = s"
    "version c = journalVersion d + 1" "\<forall>x \<in> set (ev # evs). eventSession x = s"
  shows "appendEvents s (version c) (ev # evs) r =
    Some (Inl (DocumentFailure (SequenceGap (version c + 1) (journalVersion d))), r)"
proof -
  have "find (\<lambda>x. eventSession x \<noteq> s) (ev # evs) = None" using assms(6) by (simp add: find_None_iff)
  with assms show ?thesis
    by (simp add: appendEvents_def chain_def assertOpen_def requireConversation_def requireDocument_def deliver_def
        documentCall_def applyStoredEventToConversationDocument_def)
qed

text \<open>
  After a successful continuation neither conversation accepts another event: the stored
  conversations are one version ahead of the documents they are stored with, so the first
  event appended to either fails with a sequence gap.
\<close>

theorem continuation_blocks_appends:
  assumes "continueConversation i fresh r = Some (Inr out, r')" "fresh \<noteq> sourceSessionId i"
    "repoOk M r" "sourceSessionId i \<notin> M" "s \<in> {fresh, sourceSessionId i}" "\<forall>x \<in> set (ev # evs). eventSession x = s"
  shows "\<exists>c d. conversations r' s = Some c \<and> documents r' s = Some d \<and>
    appendEvents s (version c) (ev # evs) r' =
      Some (Inl (DocumentFailure (SequenceGap (version c + 1) (journalVersion d))), r') \<and>
    version c = journalVersion d + 1"
  using assms(1)
proof (rule continue_Inr)
  fix c d carried ms
  assume c: "\<not> isClosed r" "conversations r (sourceSessionId i) = Some c" "version c = expectedVersion i"
      "documents r (sourceSessionId i) = Some d"
    and r': "r' = r\<lparr>documents := (documents r)(fresh \<mapsto> continuedDocument i d carried fresh),
           conversations := (conversations r)
             (sourceSessionId i \<mapsto> c\<lparr>version := expectedVersion i + 1, events := events c @ [transferEvent i fresh]\<rparr>,
              fresh \<mapsto> (emptyConversation fresh (continueTime i))\<lparr>messages := ms, version := 1,
                events := [continueEvent i fresh]\<rparr>)\<rparr>"
  have old: "sessionId (docIdentity d) = sourceSessionId i" "version c = journalVersion d"
    using repoOkD [OF assms(3) c(2,4)] assms(4) by (simp_all add: conversationOk_def)
  have opened: "\<not> isClosed r'" using c(1) r' by simp
  from assms(5) consider "s = fresh" | "s = sourceSessionId i" by blast
  then show ?thesis
  proof cases
    case 1
    let ?c = "(emptyConversation fresh (continueTime i))\<lparr>messages := ms, version := 1,
                events := [continueEvent i fresh]\<rparr>"
    have "conversations r' s = Some ?c" "documents r' s = Some (continuedDocument i d carried fresh)" using 1 r' by simp_all
    moreover have "sessionId (docIdentity (continuedDocument i d carried fresh)) = s"
      "version ?c = journalVersion (continuedDocument i d carried fresh) + 1"
      using 1 by (simp_all add: continuedDocument_def newIdentity_def)
    ultimately show ?thesis using append_gap [OF opened _ _ _ _ assms(6)] by blast
  next
    case 2
    let ?c = "c\<lparr>version := expectedVersion i + 1, events := events c @ [transferEvent i fresh]\<rparr>"
    have "conversations r' s = Some ?c" "documents r' s = Some d" using 2 r' c(4) assms(2) by simp_all
    moreover have "sessionId (docIdentity d) = s" "version ?c = journalVersion d + 1"
      using 2 old c(3) by simp_all
    ultimately show ?thesis using append_gap [OF opened _ _ _ _ assms(6)] by blast
  qed
qed

theorem continuation_blocks_appends_witness:
  "\<exists>c d. conversations sampleContinued ''n'' = Some c \<and> documents sampleContinued ''n'' = Some d \<and>
     version c = journalVersion d + 1"
proof -
  obtain out where "continueConversation sampleContinue ''n'' sampleRepository = Some (Inr out, sampleContinued)"
    by (rule sample_continued)
  then show ?thesis
    using continuation_blocks_appends [of sampleContinue "''n''" sampleRepository out sampleContinued "{}" "''n''"
        "\<lparr>eventSession = ''n'', eventTime = 1, payload = TurnCompleted ''t1''\<rparr>" "[]"]
      reachable_ok [OF sample_reachable]
    by (auto simp: sampleContinue_def)
qed

text \<open>
  A fork starts again at version 0 but copies entries named after the source's sequence
  numbers, so a turn that starts in it fails as soon as its first message gets an id of the
  branch: with \<open>event-2\<close> on the branch, the first message of the fork is rejected.
\<close>

theorem fork_id_collision:
  assumes "forkConversation s k fresh now r = Some (Inr out, r')" "documents r' fresh = Some d'"
    "nativeConversationEntryId 2 \<in> set (ids (entries d'))" "\<bar>t\<bar> \<le> 8640000000000000"
  shows "appendEvents fresh 0
      [\<lparr>eventSession = fresh, eventTime = t, payload = TurnStarted u\<rparr>,
       \<lparr>eventSession = fresh, eventTime = t, payload = MessageAppended u i m q\<rparr>] r' =
    Some (Inl (DocumentFailure (EntryExists (nativeConversationEntryId 2))), r')"
  using assms(1)
proof (rule fork_Inr)
  fix d e tip b ms
  assume "\<not> isClosed r" and r': "r' = r\<lparr>documents := (documents r)(fresh \<mapsto> forkedDocument d k fresh now b),
      conversations := (conversations r)(fresh \<mapsto> (emptyConversation fresh now)\<lparr>messages := ms\<rparr>)\<rparr>"
  then have st: "\<not> isClosed r'" "conversations r' fresh = Some ((emptyConversation fresh now)\<lparr>messages := ms\<rparr>)"
    by simp_all
  have "d' = forkedDocument d k fresh now b" using r' assms(2) by simp
  then have d': "sessionId (docIdentity d') = fresh" "journalVersion d' = 0"
    by (simp_all add: forkedDocument_def newIdentity_def)
  let ?d = "d'\<lparr>journalVersion := 1\<rparr>"
  let ?start = "\<lparr>eventSession = fresh, eventTime = t, payload = TurnStarted u\<rparr>"
  let ?msg = "\<lparr>eventSession = fresh, eventTime = t, payload = MessageAppended u i m q\<rparr>"
  have one: "applyStoredEventToConversationDocument d' ?start 1 None = Some (Inr ?d)"
    using d' by (simp add: applyStoredEventToConversationDocument_def isConversationDocumentEntryEvent_def)
  have two: "applyStoredEventToConversationDocument ?d ?msg 2 None =
      Some (Inl (EntryExists (nativeConversationEntryId 2)))"
    using d'(1) assms(3,4)
    by (simp add: applyStoredEventToConversationDocument_def isConversationDocumentEntryEvent_def entryReference_def
        toISOString_def)
  show ?thesis
    using st assms(2) one two
    by (simp add: appendEvents_def chain_def assertOpen_def requireConversation_def requireDocument_def deliver_def
        documentCall_def emptyConversation_def)
qed

definition sampleForked :: repository where
  "sampleForked = (case forkConversation ''s'' ''event-2'' ''f'' 9 sampleRepository of
     Some (x, r') \<Rightarrow> r' | None \<Rightarrow> sampleRepository)"

theorem fork_id_collision_witness:
  "\<exists>e. appendEvents ''f'' 0
      [\<lparr>eventSession = ''f'', eventTime = 1, payload = TurnStarted ''t2''\<rparr>,
       \<lparr>eventSession = ''f'', eventTime = 1, payload = MessageAppended ''t2'' None JNull None\<rparr>] sampleForked =
    Some (Inl e, sampleForked)"
proof -
  have "(case forkConversation ''s'' ''event-2'' ''f'' 9 sampleRepository of Some (Inr out, r') \<Rightarrow> True | _ \<Rightarrow> False)"
    by code_simp
  then obtain out where "forkConversation ''s'' ''event-2'' ''f'' 9 sampleRepository = Some (Inr out, sampleForked)"
    by (auto simp: sampleForked_def split: option.splits prod.splits sum.splits)
  moreover have "(case documents sampleForked ''f'' of Some d' \<Rightarrow> ''event-2'' \<in> set (ids (entries d')) | None \<Rightarrow> False)"
    by code_simp
  then obtain d' where "documents sampleForked ''f'' = Some d'" "''event-2'' \<in> set (ids (entries d'))"
    by (auto split: option.splits)
  moreover have "nativeConversationEntryId 2 = ''event-2''" by code_simp
  ultimately show ?thesis
    using fork_id_collision [of "''s''" "''event-2''" "''f''" 9 sampleRepository out sampleForked d' 1 "''t2''" None JNull None]
    by simp
qed

end
