(* ===== verification/SessionProjection.thy ===== *)
theory SessionProjection
  imports ConversationRepository DocumentProperties
begin

text \<open>
  The synchronous projection of a stored conversation that the runtime host reads from,
  \<open>RuntimeSessionProjection\<close> in
  \<open>packages/runtime-core/src/runtime-host/runtime-session-projection.ts\<close>, and its refinement:
  the message list it extends event by event is the list the document module selects from the
  document.
\<close>

section \<open>The projection\<close>

record projection =
  projectedSession :: string
  projectedMessages :: "json list"
  projectedDocument :: document

datatype projection_error =
    SessionMismatch string string
  | VersionMismatch int int
  | ForeignSession string string
  | JournalBehind int int
  | DocumentRejected doc_error

definition assertMatchingConversation :: "conversation \<Rightarrow> document \<Rightarrow> projection_error + unit" where
  "assertMatchingConversation c d =
     (if conversationId c \<noteq> sessionId (docIdentity d)
      then Inl (SessionMismatch (conversationId c) (sessionId (docIdentity d)))
      else if version c \<noteq> journalVersion d then Inl (VersionMismatch (version c) (journalVersion d))
      else Inr ())"

text \<open>The constructor; its two checks are those of \<open>assertMatchingConversation\<close>.\<close>

definition newProjection :: "conversation \<Rightarrow> document \<Rightarrow> (projection_error + projection) option" where
  "newProjection c d =
     (case assertMatchingConversation c d of
        Inl e \<Rightarrow> Some (Inl e)
      | Inr _ \<Rightarrow>
          map_option (\<lambda>ms. Inr \<lparr>projectedSession = conversationId c, projectedMessages = ms, projectedDocument = d\<rparr>)
            (selectConversationDocumentMessages d))"

text \<open>A method returns the projection it leaves behind, also when it throws.\<close>

type_synonym projection_call = "((projection_error + unit) \<times> projection) option"

definition pushMessage :: "event_payload \<Rightarrow> projection \<Rightarrow> projection" where
  "pushMessage p pr =
     (case p of
        MessageAppended t i m q \<Rightarrow> pr\<lparr>projectedMessages := projectedMessages pr @ [m]\<rparr>
      | _ \<Rightarrow> pr)"

definition applyProjection :: "projection \<Rightarrow> stored_event \<Rightarrow> projection_call" where
  "applyProjection pr ev =
     (if eventSession ev \<noteq> projectedSession pr
      then Some (Inl (ForeignSession (projectedSession pr) (eventSession ev)), pr)
      else let pushed = pushMessage (payload ev) pr in
           case applyStoredEventToConversationDocument (projectedDocument pushed) ev
                  (journalVersion (projectedDocument pushed) + 1) None of
             None \<Rightarrow> None
           | Some (Inl e) \<Rightarrow> Some (Inl (DocumentRejected e), pushed)
           | Some (Inr d) \<Rightarrow> Some (Inr (), pushed\<lparr>projectedDocument := d\<rparr>))"

definition replaceDocument :: "projection \<Rightarrow> document \<Rightarrow> projection_call" where
  "replaceDocument pr d =
     (if sessionId (docIdentity d) \<noteq> projectedSession pr
      then Some (Inl (ForeignSession (projectedSession pr) (sessionId (docIdentity d))), pr)
      else if journalVersion d < journalVersion (projectedDocument pr)
      then Some (Inl (JournalBehind (journalVersion d) (journalVersion (projectedDocument pr))), pr)
      else map_option (\<lambda>ms. (Inr (), pr\<lparr>projectedDocument := d, projectedMessages := ms\<rparr>))
             (selectConversationDocumentMessages d))"

definition replaceConversation :: "projection \<Rightarrow> conversation \<Rightarrow> document \<Rightarrow> projection_call" where
  "replaceConversation pr c d =
     (case assertMatchingConversation c d of
        Inl e \<Rightarrow> Some (Inl e, pr)
      | Inr _ \<Rightarrow>
          map_option (\<lambda>ms. (Inr (), \<lparr>projectedSession = conversationId c, projectedMessages = ms,
                                    projectedDocument = d\<rparr>))
            (selectConversationDocumentMessages d))"

definition readMessages :: "projection \<Rightarrow> json list" where
  "readMessages pr = projectedMessages pr"

definition readMessageCount :: "projection \<Rightarrow> nat" where
  "readMessageCount pr = length (projectedMessages pr)"

section \<open>The refinement\<close>

text \<open>The projection shows its document.\<close>

definition projectionOk :: "projection \<Rightarrow> bool" where
  "projectionOk pr =
     (projectedSession pr = sessionId (docIdentity (projectedDocument pr)) \<and>
      selectConversationDocumentMessages (projectedDocument pr) = Some (projectedMessages pr) \<and>
      wellFormed (projectedDocument pr))"

lemma newProjection_ok [inv_intros]:
  "newProjection c d = Some (Inr pr) \<Longrightarrow> wellFormed d \<Longrightarrow> projectionOk pr"
  by (auto simp: newProjection_def assertMatchingConversation_def projectionOk_def split: sum.splits if_splits)

lemma replaceDocument_ok [inv_intros]:
  "replaceDocument pr d = Some (Inr (), pr') \<Longrightarrow> wellFormed d \<Longrightarrow> projectionOk pr'"
  by (auto simp: replaceDocument_def projectionOk_def split: if_splits)

lemma replaceConversation_ok [inv_intros]:
  "replaceConversation pr c d = Some (Inr (), pr') \<Longrightarrow> wellFormed d \<Longrightarrow> projectionOk pr'"
  by (auto simp: replaceConversation_def assertMatchingConversation_def projectionOk_def
      split: sum.splits if_splits)

text \<open>The messages an event adds to the document's branch.\<close>

lemma messages_append:
  assumes wf: "wellFormed d" and new: "entryId e \<notin> set (ids (entries d))" "entryId e \<noteq> []"
    and p: "parentId e = activeLeafId d" and ms: "selectConversationDocumentMessages d = Some ms"
    and d': "entries d' = entries d @ [e]" "activeLeafId d' = Some (entryId e)"
  shows "selectConversationDocumentMessages d' =
    Some (ms @ (if isMessageBody (body e) \<and> isMessage (message (body e)) then [message (body e)] else []))"
proof -
  have tree: "wellFormedTree (entries d) (activeLeafId d)" using wf by (simp add: wellFormed_def)
  from ms obtain b where b: "selectBranch (entries d) (activeLeafId d) = Some b"
    "ms = concat (map (\<lambda>e. if isMessageBody (body e) \<and> isMessage (message (body e)) then [message (body e)] else []) b)"
    by (auto simp: selectConversationDocumentMessages_def)
  from selectBranch_append [OF tree new p b(1)] d' b(2) show ?thesis
    by (simp add: selectConversationDocumentMessages_def)
qed

lemma eventMessages:
  assumes "eventBody p = Some b" "\<And>t i m q. p = MessageAppended t i m q \<Longrightarrow> isMessage m"
  shows "projectedMessages (pushMessage p pr) =
    projectedMessages pr @ (if isMessageBody b \<and> isMessage (message b) then [message b] else [])"
  using assms by (cases p rule: eventBody.cases) (auto simp: pushMessage_def)

lemma pushMessage_fields [simp]:
  "projectedDocument (pushMessage p pr) = projectedDocument pr"
  "projectedSession (pushMessage p pr) = projectedSession pr"
  by (simp_all add: pushMessage_def split: event_payload.splits)

lemma pushMessage_none: "eventBody p = None \<Longrightarrow> pushMessage p pr = pr"
  by (cases p rule: eventBody.cases) (auto simp: pushMessage_def)

text \<open>
  C33. The host's incremental message list refines the document: after an applied event it is
  the list of messages selected from the projected document's active branch, for every event
  whose message is a model message.
\<close>

theorem projection_tracks_document:
  assumes "projectionOk pr" "applyProjection pr ev = Some (Inr (), pr')"
    "\<forall>t i m q. payload ev = MessageAppended t i m q \<longrightarrow> isMessage m"
  shows "projectionOk pr' \<and> selectConversationDocumentMessages (projectedDocument pr') = Some (readMessages pr')"
proof -
  let ?d = "projectedDocument pr"
  from assms(1) have ok: "projectedSession pr = sessionId (docIdentity ?d)" "wellFormed ?d"
    "selectConversationDocumentMessages ?d = Some (projectedMessages pr)"
    by (simp_all add: projectionOk_def)
  from assms(2) obtain d' where d': "applyStoredEventToConversationDocument ?d ev (journalVersion ?d + 1) None = Some (Inr d')"
    and pr': "pr' = (pushMessage (payload ev) pr)\<lparr>projectedDocument := d'\<rparr>"
    by (auto simp: applyProjection_def Let_def split: if_splits option.splits sum.splits)
  have wf: "wellFormed d'" using event_wellFormed [OF ok(2) _ d'] by simp
  have "docIdentity d' = docIdentity ?d \<and> selectConversationDocumentMessages d' = Some (projectedMessages pr')"
    using d'
  proof (cases rule: applyEvent_cases)
    case skip
    with ok(3) pr' show ?thesis by (simp add: pushMessage_none selectConversationDocumentMessages_def)
  next
    case (entry r b)
    let ?e = "\<lparr>entryId = refId r, parentId = refParent r, timestamp = refTime r, body = b\<rparr>"
    have r: "refId r \<noteq> []" "refParent r = activeLeafId ?d"
      using entry(4) nativeId_nonempty by (auto simp: entryReference_def split: sum.splits)
    note app = appendEventEntry_entry [OF entry(3), of ?d "journalVersion ?d + 1" r]
    have "selectConversationDocumentMessages d' = Some (projectedMessages pr @
        (if isMessageBody b \<and> isMessage (message b) then [message b] else []))"
      using messages_append [OF ok(2) _ _ _ ok(3), of ?e d'] entry(5,8) r app by simp
    with eventMessages [OF entry(3), of pr] assms(3) pr' entry(8) app(5) show ?thesis by auto
  qed
  with wf ok(1) pr' show ?thesis by (simp add: projectionOk_def readMessages_def)
qed

definition sampleProjection :: projection where
  "sampleProjection =
     \<lparr>projectedSession = ''s'',
      projectedMessages = [JObj [(''role'', JStr ''user'')], JObj [(''role'', JStr ''assistant'')],
        JObj [(''role'', JStr ''user'')]],
      projectedDocument = sampleDocument\<rparr>"

definition sampleReply :: stored_event where
  "sampleReply = \<lparr>eventSession = ''s'', eventTime = 7,
     payload = MessageAppended ''t2'' None (JObj [(''role'', JStr ''assistant'')]) None\<rparr>"

definition sampleProjected :: projection where
  "sampleProjected = (case applyProjection sampleProjection sampleReply of
     Some (x, pr) \<Rightarrow> pr | None \<Rightarrow> sampleProjection)"

theorem projection_tracks_document_witness:
  "projectionOk sampleProjected \<and>
   readMessages sampleProjected = projectedMessages sampleProjection @ [JObj [(''role'', JStr ''assistant'')]]"
proof -
  have "selectConversationDocumentMessages sampleDocument = Some (projectedMessages sampleProjection)"
    by code_simp
  then have ok: "projectionOk sampleProjection"
    using sample_wellFormed
    by (simp add: projectionOk_def sampleProjection_def) (simp add: sampleDocument_def sampleIdentity_def)
  have "(case applyProjection sampleProjection sampleReply of Some (Inr x, pr) \<Rightarrow> True | _ \<Rightarrow> False)"
    by code_simp
  then have run: "applyProjection sampleProjection sampleReply = Some (Inr (), sampleProjected)"
    unfolding sampleProjected_def
    by (cases "applyProjection sampleProjection sampleReply") (auto split: prod.splits sum.splits)
  have ms: "readMessages sampleProjected = projectedMessages sampleProjection @ [JObj [(''role'', JStr ''assistant'')]]"
    by code_simp
  have "projectionOk sampleProjected"
    using projection_tracks_document [OF ok run] by (auto simp: sampleReply_def isMessage_def hasRole_def isLiteral_def)
  with ms show ?thesis by blast
qed

text \<open>
  A rejected message event is the exception: \<open>apply\<close> has pushed the message before the
  document refuses the event, and keeps it.
\<close>

lemma rejected_message_stays:
  assumes "applyProjection pr ev = Some (Inl (DocumentRejected e), pr')" "payload ev = MessageAppended t i m q"
  shows "projectedMessages pr' = projectedMessages pr @ [m]" "projectedDocument pr' = projectedDocument pr"
  using assms by (auto simp: applyProjection_def Let_def pushMessage_def split: if_splits option.splits sum.splits)

end
