(* ===== verification/TeamIdentity.thy ===== *)
theory TeamIdentity
  imports Prelude "HOL-Library.Word"
begin

text \<open>
  The stable identifiers of the agent teams, from
  \<open>packages/agent-team/src/context-projector.ts\<close>: a list of parts is written in a
  length-prefixed canonical form, hashed twice with 64-bit FNV-1a over its UTF-8 bytes, and
  printed in hexadecimal. The source computes with \<open>BigInt\<close> and a mask; the model does the
  same on naturals, and the arithmetic is shown to be that of 64-bit words.
\<close>

unbundle bit_operations_syntax

section \<open>FNV-1a\<close>

definition FNV_OFFSET :: nat where
  "FNV_OFFSET = 0xcbf29ce484222325"

definition FNV_PRIME :: nat where
  "FNV_PRIME = 0x100000001b3"

definition MASK_64 :: nat where
  "MASK_64 = 0xffffffffffffffff"

text \<open>\<open>new TextEncoder().encode\<close>, for code units below 256.\<close>

definition utf8 :: "char \<Rightarrow> nat list" where
  "utf8 c = (let n = of_char c in if n < 128 then [n] else [192 + n div 64, 128 + n mod 64])"

definition fnvStep :: "nat \<Rightarrow> nat \<Rightarrow> nat" where
  "fnvStep b h = ((h XOR b) * FNV_PRIME) AND MASK_64"

definition fnvHash :: "string \<Rightarrow> nat \<Rightarrow> nat" where
  "fnvHash s seed = fold fnvStep (concat (map utf8 s)) seed"

definition hexDigit :: "nat \<Rightarrow> char" where
  "hexDigit n = (if n < 10 then char_of (48 + n) else char_of (87 + n))"

text \<open>\<open>toString(16)\<close>.\<close>

fun hexOf :: "nat \<Rightarrow> string" where
  "hexOf n = (if n < 16 then [hexDigit n] else hexOf (n div 16) @ [hexDigit (n mod 16)])"

declare hexOf.simps [simp del]

definition padStart :: "nat \<Rightarrow> char \<Rightarrow> string \<Rightarrow> string" where
  "padStart k c s = replicate (k - length s) c @ s"

definition fnv64 :: "string \<Rightarrow> nat \<Rightarrow> string" where
  "fnv64 s seed = padStart 16 CHR ''0'' (hexOf (fnvHash s seed))"

section \<open>Canonical parts and identifiers\<close>

definition canonicalPart :: "string \<Rightarrow> string" where
  "canonicalPart p = digitsOf (length p) @ CHR '':'' # p"

definition canonicalParts :: "string list \<Rightarrow> string" where
  "canonicalParts ps = joinWith ''|'' (map canonicalPart ps)"

definition stableTeamEventId :: "string list \<Rightarrow> string" where
  "stableTeamEventId ps =
     ''team-v1-'' @ fnv64 (canonicalParts ps) FNV_OFFSET @ fnv64 (canonicalParts ps) (FNV_OFFSET XOR MASK_64)"

definition teamUserMessageId :: "string \<Rightarrow> string \<Rightarrow> string" where
  "teamUserMessageId sess req = stableTeamEventId [''user-message'', sess, req]"

definition teamMemberResultMessageId :: "string \<Rightarrow> string \<Rightarrow> string \<Rightarrow> string \<Rightarrow> string" where
  "teamMemberResultMessageId sess req mem turn = stableTeamEventId [''member-result'', sess, req, mem, turn]"

definition teamDelegationActivityId :: "string \<Rightarrow> string \<Rightarrow> string \<Rightarrow> string \<Rightarrow> string" where
  "teamDelegationActivityId sess req src tgt = stableTeamEventId [''member-delegation'', sess, req, src, tgt]"

section \<open>The arithmetic is that of 64-bit words\<close>

fun fnvWord :: "nat list \<Rightarrow> 64 word \<Rightarrow> 64 word" where
  "fnvWord [] h = h"
| "fnvWord (b # bs) h = fnvWord bs ((h XOR word_of_nat b) * 0x100000001b3)"

lemma MASK_64_mask: "MASK_64 = mask 64"
  by (simp add: MASK_64_def mask_eq_exp_minus_1)

lemma word_of_masked: "word_of_nat (n AND MASK_64) = (word_of_nat n :: 64 word)"
  unfolding MASK_64_mask by (rule bit_word_eqI) (simp add: bit_simps)

lemma fnvStep_word: "word_of_nat (fnvStep b h) = ((word_of_nat h XOR word_of_nat b) * 0x100000001b3 :: 64 word)"
proof -
  have "word_of_nat (fnvStep b h) = (word_of_nat ((h XOR b) * FNV_PRIME) :: 64 word)"
    unfolding fnvStep_def by (rule word_of_masked)
  also have "\<dots> = word_of_nat (h XOR b) * word_of_nat FNV_PRIME" by simp
  also have "word_of_nat (h XOR b) = (word_of_nat h XOR word_of_nat b :: 64 word)"
    by (rule bit_word_eqI) (simp add: bit_simps)
  also have "word_of_nat FNV_PRIME = (0x100000001b3 :: 64 word)" by (simp add: FNV_PRIME_def)
  finally show ?thesis .
qed

lemma fnvStep_bound: "fnvStep b h < 2 ^ 64"
  unfolding fnvStep_def MASK_64_mask take_bit_eq_mask [symmetric] by (rule take_bit_nat_less_exp)

lemma fold_fnv_word: "word_of_nat (fold fnvStep bs h) = fnvWord bs (word_of_nat h :: 64 word)"
  by (induction bs arbitrary: h) (simp_all add: fnvStep_word)

lemma fold_fnv_bound: "h < 2 ^ 64 \<Longrightarrow> fold fnvStep bs h < 2 ^ 64"
proof (induction bs arbitrary: h)
  case (Cons b bs)
  show ?case using Cons.IH [OF fnvStep_bound] by simp
qed simp

lemma fnvHash_word:
  assumes "seed < 2 ^ 64"
  shows "fnvHash s seed = unat (fnvWord (concat (map utf8 s)) (word_of_nat seed))"
  using fold_fnv_bound [OF assms, of "concat (map utf8 s)"]
  by (simp add: fnvHash_def take_bit_nat_eq_self flip: fold_fnv_word) (simp add: unsigned_of_nat take_bit_nat_eq_self)

section \<open>Shape of an identifier\<close>

lemma length_hexOf: "n < 16 ^ k \<Longrightarrow> 0 < k \<Longrightarrow> length (hexOf n) \<le> k"
proof (induction n arbitrary: k rule: hexOf.induct)
  case (1 n)
  show ?case
  proof (cases "n < 16")
    case True
    with 1 show ?thesis by (simp add: hexOf.simps [of n])
  next
    case False
    from "1.prems" obtain j where j: "k = Suc j" by (cases k) auto
    moreover have "0 < j" using "1.prems" False j by (cases j) auto
    ultimately have k: "k = Suc j" "0 < j" by auto
    with "1.prems" have "n div 16 < 16 ^ j" by (simp add: less_mult_imp_div_less mult.commute)
    with "1.IH" [OF False this k(2)] False k show ?thesis by (simp add: hexOf.simps [of n])
  qed
qed

definition isHex :: "char \<Rightarrow> bool" where
  "isHex c = (c \<in> set ''0123456789abcdef'')"

lemma hexDigit_isHex: "n < 16 \<Longrightarrow> isHex (hexDigit n)"
proof -
  assume "n < 16"
  then have "n \<in> set [0..<16]" by simp
  moreover have "\<forall>n \<in> set [0..<16]. isHex (hexDigit n)" by code_simp
  ultimately show ?thesis by blast
qed

lemma hexOf_isHex: "c \<in> set (hexOf n) \<Longrightarrow> isHex c"
proof (induction n rule: hexOf.induct)
  case (1 n)
  show ?case
  proof (cases "n < 16")
    case True
    with "1.prems" show ?thesis by (simp add: hexOf.simps [of n] hexDigit_isHex)
  next
    case False
    with "1.prems" have "c \<in> set (hexOf (n div 16)) \<or> c = hexDigit (n mod 16)"
      by (auto simp: hexOf.simps [of n])
    with "1.IH" [OF False] show ?thesis by (auto simp: hexDigit_isHex)
  qed
qed

lemma fnv64_shape:
  assumes "seed < 2 ^ 64"
  shows "length (fnv64 s seed) = 16" "list_all isHex (fnv64 s seed)"
proof -
  have "fnvHash s seed < 16 ^ 16" using fold_fnv_bound [OF assms] by (simp add: fnvHash_def)
  then have "length (hexOf (fnvHash s seed)) \<le> 16" by (rule length_hexOf) simp
  then show "length (fnv64 s seed) = 16" by (simp add: fnv64_def padStart_def)
  have "isHex CHR ''0''" by (simp add: isHex_def)
  then show "list_all isHex (fnv64 s seed)"
    by (auto simp: fnv64_def padStart_def list_all_iff intro: hexOf_isHex)
qed

lemma FNV_seeds: "FNV_OFFSET < 2 ^ 64" "FNV_OFFSET XOR MASK_64 < 2 ^ 64"
  by (simp_all add: FNV_OFFSET_def MASK_64_def)

section \<open>The canonical form is injective\<close>

lemma digits_colon_inject:
  assumes "digitsOf m @ CHR '':'' # s = digitsOf n @ CHR '':'' # t"
  shows "m = n \<and> s = t"
proof -
  have nc: "CHR '':'' \<notin> set (digitsOf k)" for k
    using digitsOf_below [of "CHR '':''" k] by auto
  have "takeWhile (\<lambda>c. c \<noteq> CHR '':'') (digitsOf k @ CHR '':'' # u) = digitsOf k" for k u
    using nc by (subst takeWhile_append2) auto
  with assms have "digitsOf m = digitsOf n" by metis
  with assms show ?thesis by (auto dest: digitsOf_inject)
qed

lemma canonicalPart_prefix: "canonicalPart p @ s = canonicalPart q @ t \<Longrightarrow> p = q \<and> s = t"
  unfolding canonicalPart_def using digits_colon_inject [of "length p" "p @ s" "length q" "q @ t"]
  by (auto simp: append_eq_append_conv)

lemma canonicalPart_not_Nil [simp]: "canonicalPart p \<noteq> []"
  by (simp add: canonicalPart_def)

lemma canonicalParts_Cons:
  "canonicalParts (p # ps) = canonicalPart p @ (if ps = [] then [] else CHR ''|'' # canonicalParts ps)"
  by (cases ps) (simp_all add: canonicalParts_def)

lemma canonicalParts_inject_nonempty: "ps \<noteq> [] \<Longrightarrow> qs \<noteq> [] \<Longrightarrow> canonicalParts ps = canonicalParts qs \<Longrightarrow> ps = qs"
proof (induction ps arbitrary: qs)
  case Nil
  then show ?case by simp
next
  case (Cons p ps)
  then obtain q qs' where qs: "qs = q # qs'" by (cases qs) auto
  with Cons.prems have eq: "canonicalPart p @ (if ps = [] then [] else CHR ''|'' # canonicalParts ps) =
      canonicalPart q @ (if qs' = [] then [] else CHR ''|'' # canonicalParts qs')"
    by (simp add: canonicalParts_Cons)
  from canonicalPart_prefix [OF eq] have "p = q" and
    rest: "(if ps = [] then [] else CHR ''|'' # canonicalParts ps) =
      (if qs' = [] then [] else CHR ''|'' # canonicalParts qs')" by auto
  moreover have "ps = qs'" using rest Cons.IH [of qs'] by (auto split: if_splits)
  ultimately show ?case using qs by simp
qed

text \<open>
  C40. The form that is hashed determines the parts: no two lists of parts share it, whatever
  characters they contain, so ids of different events differ unless the hashes collide.
\<close>

theorem canonical_parts_injective: "canonicalParts ps = canonicalParts qs \<longleftrightarrow> ps = qs"
proof
  assume eq: "canonicalParts ps = canonicalParts qs"
  have nil: "canonicalParts rs = [] \<longleftrightarrow> rs = []" for rs
    by (cases rs) (simp_all add: canonicalParts_Cons, simp add: canonicalParts_def)
  show "ps = qs"
    using eq nil [of ps] nil [of qs] canonicalParts_inject_nonempty [of ps qs] by metis
qed simp

text \<open>
  Every identifier is the version prefix followed by 32 lower-case hexadecimal digits, and
  the two hashes it prints, computed on unbounded integers with a mask, are the 64-bit
  wrap-around FNV-1a hashes of the canonical form.
\<close>

theorem team_event_id_shape:
  "length (stableTeamEventId ps) = 40 \<and> list_all isHex (drop 8 (stableTeamEventId ps)) \<and>
   fnvHash (canonicalParts ps) FNV_OFFSET =
     unat (fnvWord (concat (map utf8 (canonicalParts ps))) 0xcbf29ce484222325)"
  using fnv64_shape [OF FNV_seeds(1)] fnv64_shape [OF FNV_seeds(2)] fnvHash_word [OF FNV_seeds(1)]
  by (simp add: stableTeamEventId_def FNV_OFFSET_def)

end
