(* ===== verification/TeamDomain.thy ===== *)
theory TeamDomain
  imports Prelude
begin

text \<open>
  Agent profiles, teams and the rules of a team document, from \<open>packages/agent-team/src\<close>:
  the data of \<open>contracts.ts\<close>, the queries and invariants of \<open>domain.ts\<close>, the policy
  registry of \<open>extensions.ts\<close> and the document schema and checks of \<open>validation.ts\<close>. A
  record below has exactly the properties its schema names; what the schema asks of the
  values is a predicate on the record.

  \<open>normalizeMentionHandle\<close> starts with Unicode NFKC normalisation. It is an argument
  \<open>nfkc\<close> of the functions that use it, and nothing is assumed of it.
\<close>

section \<open>Data\<close>

record abilities =
  selectionMode :: "string option"
  skills :: "string list"
  mcpServers :: "string list"
  plugins :: "string list"
  extensionAbilities :: "(string \<times> string list) list option"

record resource_source =
  pluginId :: string
  nameKey :: "string option"
  descriptionKey :: "string option"

datatype profile_scope = LibraryScope | TeamScope string

record profile =
  profileId :: string
  profileRevision :: int
  profileName :: string
  profileDescription :: string
  avatar :: "string option"
  mentionHandle :: string
  blueprintId :: string
  systemPrompt :: "string option"
  profileAbilities :: abilities
  profileScope :: profile_scope
  copiedFrom :: "string option"
  profileSource :: "resource_source option"
  profileCreatedAt :: int
  profileUpdatedAt :: int

datatype binding = Reference (boundProfile: string) | Copy (boundProfile: string)

record assignment =
  responsibility :: "string option"
  instructions :: "string option"

record member =
  memberId :: string
  memberHandle :: string
  memberBinding :: binding
  memberAssignment :: "assignment option"

record team =
  maxAutomaticRetries :: "int option"
  teamId :: string
  teamRevision :: int
  teamName :: string
  teamDescription :: string
  leaderMemberId :: string
  members :: "member list"
  orchestrationPolicyId :: string
  contextPolicyId :: string
  teamSource :: "resource_source option"
  teamCreatedAt :: int
  teamUpdatedAt :: int

record team_document =
  documentRevision :: int
  agents :: "profile list"
  teams :: "team list"

datatype team_error =
    InvalidShape
  | NoMembers
  | LeaderNotMember
  | DuplicateMember string
  | EmptyHandle
  | DuplicateHandle string
  | ProfileNotFound string
  | CopyOutsideTeam string
  | ReferenceOutsideLibrary string
  | DuplicateProfile string
  | DuplicateLibraryHandle string
  | DuplicateTeam string
  | UnknownOrchestration string
  | UnknownContext string
  | UnknownTeamOfProfile string
  | UnknownTarget string
  | UnknownMention string
  | InvalidMention string
  | MentionsNotTargets

section \<open>The schema of a document\<close>

text \<open>\<open>Number.MAX_SAFE_INTEGER\<close>, and the pattern of an id: no white space at its ends and no line
  break inside.\<close>

definition maxSafeInteger :: int where
  "maxSafeInteger = 9007199254740991"

text \<open>The bounds \<open>minLength\<close>, \<open>maxLength\<close> and \<open>maxItems\<close>.\<close>

definition atMost :: "int \<Rightarrow> 'a list \<Rightarrow> bool" where
  "atMost n xs = (int (length xs) \<le> n)"

lemma atMost_shorter: "atMost n xs \<Longrightarrow> length ys \<le> length xs \<Longrightarrow> atMost n ys"
  by (simp add: atMost_def)

lemma atMost_filter: "atMost n xs \<Longrightarrow> atMost n (filter P xs)"
  by (erule atMost_shorter) (rule length_filter_le)

definition idPattern :: "string \<Rightarrow> bool" where
  "idPattern s = (s \<noteq> [] \<and> \<not> isSpace (hd s) \<and> \<not> isSpace (last s) \<and> list_all (\<lambda>c. of_char c \<notin> {10, 13 :: int}) s)"

definition idSchema :: "string \<Rightarrow> bool" where
  "idSchema s = (atMost 256 s \<and> idPattern s)"

definition textSchema :: "string \<Rightarrow> bool" where
  "textSchema s = (atMost 64000 s)"

definition nameSchema :: "string \<Rightarrow> bool" where
  "nameSchema s = (s \<noteq> [] \<and> atMost 128 s \<and> list_ex (\<lambda>c. \<not> isSpace c) s)"

definition positiveRevision :: "int \<Rightarrow> bool" where
  "positiveRevision i = (1 \<le> i \<and> i \<le> maxSafeInteger)"

definition stringListSchema :: "string list \<Rightarrow> bool" where
  "stringListSchema xs = (atMost 512 xs \<and> distinct xs \<and> list_all idSchema xs)"

definition given :: "('a \<Rightarrow> bool) \<Rightarrow> 'a option \<Rightarrow> bool" where
  "given P x = (case x of None \<Rightarrow> True | Some v \<Rightarrow> P v)"

definition abilitiesSchema :: "abilities \<Rightarrow> bool" where
  "abilitiesSchema b =
     (given (\<lambda>m. m = ''all'' \<or> m = ''custom'') (selectionMode b) \<and> stringListSchema (skills b) \<and>
      stringListSchema (mcpServers b) \<and> stringListSchema (plugins b) \<and>
      given (list_all (\<lambda>(k, v). \<not> idPattern k \<or> stringListSchema v)) (extensionAbilities b))"

definition sourceSchema :: "resource_source \<Rightarrow> bool" where
  "sourceSchema x = (idSchema (pluginId x) \<and> given idSchema (nameKey x) \<and> given idSchema (descriptionKey x))"

definition profileSchema :: "profile \<Rightarrow> bool" where
  "profileSchema a =
     (idSchema (profileId a) \<and> positiveRevision (profileRevision a) \<and> nameSchema (profileName a) \<and>
      textSchema (profileDescription a) \<and> given (atMost 2048) (avatar a) \<and> idSchema (mentionHandle a) \<and>
      idSchema (blueprintId a) \<and> given textSchema (systemPrompt a) \<and> abilitiesSchema (profileAbilities a) \<and>
      (case profileScope a of LibraryScope \<Rightarrow> True | TeamScope t \<Rightarrow> idSchema t) \<and>
      given idSchema (copiedFrom a) \<and> given sourceSchema (profileSource a) \<and>
      0 \<le> profileCreatedAt a \<and> 0 \<le> profileUpdatedAt a)"

definition dutyText :: "int \<Rightarrow> string \<Rightarrow> bool" where
  "dutyText n s = (s \<noteq> [] \<and> atMost n s \<and> list_ex (\<lambda>c. \<not> isSpace c) s)"

definition assignmentSchema :: "assignment \<Rightarrow> bool" where
  "assignmentSchema x = (given (dutyText 2048) (responsibility x) \<and> given (dutyText 32768) (instructions x))"

definition memberSchema :: "member \<Rightarrow> bool" where
  "memberSchema m =
     (idSchema (memberId m) \<and> idSchema (memberHandle m) \<and> idSchema (boundProfile (memberBinding m)) \<and>
      given assignmentSchema (memberAssignment m))"

definition teamSchema :: "team \<Rightarrow> bool" where
  "teamSchema t =
     (given (\<lambda>n. 0 \<le> n \<and> n \<le> 10) (maxAutomaticRetries t) \<and> idSchema (teamId t) \<and>
      positiveRevision (teamRevision t) \<and> nameSchema (teamName t) \<and> textSchema (teamDescription t) \<and>
      idSchema (leaderMemberId t) \<and> members t \<noteq> [] \<and> atMost 32 (members t) \<and>
      list_all memberSchema (members t) \<and> idSchema (orchestrationPolicyId t) \<and> idSchema (contextPolicyId t) \<and>
      given sourceSchema (teamSource t) \<and> 0 \<le> teamCreatedAt t \<and> 0 \<le> teamUpdatedAt t)"

definition agentTeamDocumentSchema :: "team_document \<Rightarrow> bool" where
  "agentTeamDocumentSchema d =
     (0 \<le> documentRevision d \<and> documentRevision d \<le> maxSafeInteger \<and>
      atMost 1024 (agents d) \<and> list_all profileSchema (agents d) \<and>
      atMost 1024 (teams d) \<and> list_all teamSchema (teams d))"

section \<open>Handles and members\<close>

text \<open>\<open>toLocaleLowerCase("en-US")\<close> on code units below 256.\<close>

definition lowerChar :: "char \<Rightarrow> char" where
  "lowerChar c =
     (let n = of_char c :: int
      in if 65 \<le> n \<and> n \<le> 90 \<or> 192 \<le> n \<and> n \<le> 222 \<and> n \<noteq> 215 then char_of (n + 32) else c)"

definition normalizeMentionHandle :: "(string \<Rightarrow> string) \<Rightarrow> string \<Rightarrow> string" where
  "normalizeMentionHandle nfkc v = map lowerChar (dropWhile (\<lambda>c. c = CHR ''@'') (trim (nfkc v)))"

definition findProfile :: "profile list \<Rightarrow> string \<Rightarrow> profile option" where
  "findProfile as k = find (\<lambda>a. profileId a = k) as"

definition findMember :: "team \<Rightarrow> string \<Rightarrow> member option" where
  "findMember t k = find (\<lambda>m. memberId m = k) (members t)"

definition resolveMemberByHandle :: "(string \<Rightarrow> string) \<Rightarrow> team \<Rightarrow> string \<Rightarrow> member option" where
  "resolveMemberByHandle nfkc t h =
     find (\<lambda>m. normalizeMentionHandle nfkc (memberHandle m) = normalizeMentionHandle nfkc h) (members t)"

definition resolveMemberProfile :: "profile list \<Rightarrow> member \<Rightarrow> team_error + profile" where
  "resolveMemberProfile as m =
     (case findProfile as (boundProfile (memberBinding m)) of
        None \<Rightarrow> Inl (ProfileNotFound (boundProfile (memberBinding m)))
      | Some a \<Rightarrow> Inr a)"

text \<open>\<open>member.assignment?.responsibility ?? profile.description\<close>.\<close>

definition resolveMemberResponsibility :: "profile \<Rightarrow> member \<Rightarrow> string" where
  "resolveMemberResponsibility a m =
     (case Option.bind (memberAssignment m) responsibility of
        Some r \<Rightarrow> r
      | None \<Rightarrow> profileDescription a)"

section \<open>Message targets\<close>

text \<open>\<open>[...new Set(xs)]\<close>: the first occurrences, in order.\<close>

fun uniqueInOrder :: "'a list \<Rightarrow> 'a list" where
  "uniqueInOrder [] = []"
| "uniqueInOrder (x # xs) = x # filter (\<lambda>y. y \<noteq> x) (uniqueInOrder xs)"

text \<open>The default orchestration policy, \<open>leader-delegates-v1\<close>.\<close>

definition resolveTargets :: "team \<Rightarrow> string list \<Rightarrow> team_error + string list" where
  "resolveTargets t requested =
     (let unique = uniqueInOrder (if requested = [] then [leaderMemberId t] else requested)
      in case find (\<lambda>k. k \<notin> memberId ` set (members t)) unique of
           Some k \<Rightarrow> Inl (UnknownTarget k)
         | None \<Rightarrow> Inr unique)"

record mention =
  mentionParticipant :: string
  mentionHandleText :: string
  mentionStart :: jsnum
  mentionEnd :: jsnum

text \<open>\<open>text.slice(start, end)\<close> for integers \<open>0 <= start <= end <= text.length\<close>.\<close>

definition sliceText :: "string \<Rightarrow> nat \<Rightarrow> nat \<Rightarrow> string" where
  "sliceText s a b = take (b - a) (drop a s)"

definition mentionOk :: "(string \<Rightarrow> string) \<Rightarrow> string \<Rightarrow> int \<Rightarrow> mention \<Rightarrow> member \<Rightarrow> bool" where
  "mentionOk nfkc txt previousEnd a m =
     (isInteger (mentionStart a) \<and> isInteger (mentionEnd a) \<and>
      previousEnd \<le> asInt (mentionStart a) \<and> asInt (mentionStart a) < asInt (mentionEnd a) \<and>
      asInt (mentionEnd a) \<le> int (length txt) \<and>
      sliceText txt (nat (asInt (mentionStart a))) (nat (asInt (mentionEnd a))) =
        CHR ''@'' # mentionHandleText a \<and>
      normalizeMentionHandle nfkc (mentionHandleText a) = normalizeMentionHandle nfkc (memberHandle m))"

fun checkMentions :: "(string \<Rightarrow> string) \<Rightarrow> team \<Rightarrow> string \<Rightarrow> int \<Rightarrow> mention list \<Rightarrow> team_error + unit" where
  "checkMentions nfkc t txt previousEnd [] = Inr ()"
| "checkMentions nfkc t txt previousEnd (a # as) =
     (case findMember t (mentionParticipant a) of
        None \<Rightarrow> Inl (UnknownMention (mentionParticipant a))
      | Some m \<Rightarrow>
          (if mentionOk nfkc txt previousEnd a m then checkMentions nfkc t txt (asInt (mentionEnd a)) as
           else Inl (InvalidMention (mentionParticipant a))))"

definition validateTeamMessageMentions ::
    "(string \<Rightarrow> string) \<Rightarrow> team \<Rightarrow> string \<Rightarrow> mention list option \<Rightarrow> string list \<Rightarrow> team_error + unit" where
  "validateTeamMessageMentions nfkc t txt ms targets =
     (case ms of
        None \<Rightarrow> Inr ()
      | Some as \<Rightarrow>
          (case checkMentions nfkc t txt 0 as of
             Inl e \<Rightarrow> Inl e
           | Inr _ \<Rightarrow>
               (if uniqueInOrder (map mentionParticipant as) = targets then Inr () else Inl MentionsNotTargets)))"

section \<open>Previews\<close>

definition referencesProfile :: "string \<Rightarrow> member \<Rightarrow> bool" where
  "referencesProfile k m = (memberBinding m = Reference k)"

definition previewAgentProfileUpdate :: "team_document \<Rightarrow> string \<Rightarrow> (string \<times> string) list" where
  "previewAgentProfileUpdate d k =
     map (\<lambda>t. (teamId t, teamName t)) (filter (\<lambda>t. list_ex (referencesProfile k) (members t)) (teams d))"

record delete_impact =
  impactTeam :: string
  impactRevision :: int
  impactName :: string
  removedMemberIds :: "string list"
  deletesTeam :: bool
  nextLeaderMemberId :: "string option"
  nextLeaderName :: "string option"

definition remainingMembers :: "string \<Rightarrow> team \<Rightarrow> member list" where
  "remainingMembers k t =
     (let removedIds = map memberId (filter (referencesProfile k) (members t))
      in filter (\<lambda>m. memberId m \<notin> set removedIds) (members t))"

definition teamDeleteImpact :: "profile list \<Rightarrow> string \<Rightarrow> team \<Rightarrow> delete_impact list" where
  "teamDeleteImpact as k t =
     (let removed = filter (referencesProfile k) (members t);
          remaining = remainingMembers k t;
          nextLeader = (if leaderMemberId t \<in> set (map memberId removed)
                        then (case remaining of [] \<Rightarrow> None | m # _ \<Rightarrow> Some m) else None)
      in if removed = [] then []
         else [\<lparr>impactTeam = teamId t, impactRevision = teamRevision t, impactName = teamName t,
                removedMemberIds = map memberId removed, deletesTeam = (remaining = []),
                nextLeaderMemberId = map_option memberId nextLeader,
                nextLeaderName = map_option (\<lambda>m.
                    case findProfile as (boundProfile (memberBinding m)) of
                      Some a \<Rightarrow> profileName a
                    | None \<Rightarrow> memberHandle m) nextLeader\<rparr>])"

definition previewAgentProfileDelete :: "team_document \<Rightarrow> string \<Rightarrow> delete_impact list" where
  "previewAgentProfileDelete d k = concat (map (teamDeleteImpact (agents d) k) (teams d))"

definition listLibraryAgentProfiles :: "team_document \<Rightarrow> profile list" where
  "listLibraryAgentProfiles d = filter (\<lambda>a. profileScope a = LibraryScope) (agents d)"

section \<open>Invariants of a team and of a document\<close>

definition checkBinding :: "team \<Rightarrow> profile list \<Rightarrow> member \<Rightarrow> team_error + unit" where
  "checkBinding t as m =
     (case findProfile as (boundProfile (memberBinding m)) of
        None \<Rightarrow> Inl (ProfileNotFound (boundProfile (memberBinding m)))
      | Some a \<Rightarrow>
          (case memberBinding m of
             Copy k \<Rightarrow> if profileScope a = TeamScope (teamId t) then Inr () else Inl (CopyOutsideTeam (profileId a))
           | Reference k \<Rightarrow>
               if profileScope a = LibraryScope then Inr () else Inl (ReferenceOutsideLibrary (profileId a))))"

fun checkMembers ::
    "(string \<Rightarrow> string) \<Rightarrow> team \<Rightarrow> profile list \<Rightarrow> string list \<Rightarrow> string list \<Rightarrow> member list \<Rightarrow> team_error + unit" where
  "checkMembers nfkc t as ks hs [] = Inr ()"
| "checkMembers nfkc t as ks hs (m # ms) =
     (let h = normalizeMentionHandle nfkc (memberHandle m)
      in if memberId m \<in> set ks then Inl (DuplicateMember (memberId m))
         else if h = [] then Inl EmptyHandle
         else if h \<in> set hs then Inl (DuplicateHandle (memberHandle m))
         else case checkBinding t as m of
                Inl e \<Rightarrow> Inl e
              | Inr _ \<Rightarrow> checkMembers nfkc t as (memberId m # ks) (h # hs) ms)"

definition assertTeamInvariants :: "(string \<Rightarrow> string) \<Rightarrow> team \<Rightarrow> profile list \<Rightarrow> team_error + unit" where
  "assertTeamInvariants nfkc t as =
     (if members t = [] then Inl NoMembers
      else if \<not> list_ex (\<lambda>m. memberId m = leaderMemberId t) (members t) then Inl LeaderNotMember
      else checkMembers nfkc t as [] [] (members t))"

text \<open>The two policy maps of an extension registry, by their keys.\<close>

record registry =
  orchestrationPolicies :: "string list"
  contextPolicies :: "string list"

definition defaultRegistry :: registry where
  "defaultRegistry = \<lparr>orchestrationPolicies = [''leader-delegates-v1''], contextPolicies = [''public-results-v1'']\<rparr>"

definition requireTeamPolicies :: "string \<Rightarrow> string \<Rightarrow> registry \<Rightarrow> team_error + unit" where
  "requireTeamPolicies p q r =
     (if p \<notin> set (orchestrationPolicies r) then Inl (UnknownOrchestration p)
      else if q \<notin> set (contextPolicies r) then Inl (UnknownContext q)
      else Inr ())"

fun checkProfiles :: "(string \<Rightarrow> string) \<Rightarrow> string list \<Rightarrow> string list \<Rightarrow> profile list \<Rightarrow> team_error + unit" where
  "checkProfiles nfkc ks hs [] = Inr ()"
| "checkProfiles nfkc ks hs (a # as) =
     (let h = normalizeMentionHandle nfkc (mentionHandle a)
      in if profileId a \<in> set ks then Inl (DuplicateProfile (profileId a))
         else if profileScope a = LibraryScope
         then (if h \<in> set hs then Inl (DuplicateLibraryHandle (mentionHandle a))
               else checkProfiles nfkc (profileId a # ks) (h # hs) as)
         else checkProfiles nfkc (profileId a # ks) hs as)"

fun checkTeams :: "(string \<Rightarrow> string) \<Rightarrow> registry \<Rightarrow> profile list \<Rightarrow> string list \<Rightarrow> team list \<Rightarrow> team_error + unit" where
  "checkTeams nfkc r as ks [] = Inr ()"
| "checkTeams nfkc r as ks (t # ts) =
     (if teamId t \<in> set ks then Inl (DuplicateTeam (teamId t))
      else case assertTeamInvariants nfkc t as of
             Inl e \<Rightarrow> Inl e
           | Inr _ \<Rightarrow>
               (case requireTeamPolicies (orchestrationPolicyId t) (contextPolicyId t) r of
                  Inl e \<Rightarrow> Inl e
                | Inr _ \<Rightarrow> checkTeams nfkc r as (teamId t # ks) ts))"

definition scopeKnown :: "team list \<Rightarrow> profile \<Rightarrow> bool" where
  "scopeKnown ts a = (case profileScope a of TeamScope k \<Rightarrow> k \<in> set (map teamId ts) | LibraryScope \<Rightarrow> True)"

definition parseAgentTeamDocument ::
    "(string \<Rightarrow> string) \<Rightarrow> registry \<Rightarrow> team_document \<Rightarrow> team_error + team_document" where
  "parseAgentTeamDocument nfkc r d =
     (if \<not> agentTeamDocumentSchema d then Inl InvalidShape
      else case checkProfiles nfkc [] [] (agents d) of
        Inl e \<Rightarrow> Inl e
      | Inr _ \<Rightarrow>
          (case checkTeams nfkc r (agents d) [] (teams d) of
             Inl e \<Rightarrow> Inl e
           | Inr _ \<Rightarrow>
               (case find (\<lambda>a. \<not> scopeKnown (teams d) a) (agents d) of
                  Some a \<Rightarrow> Inl (UnknownTeamOfProfile (profileId a))
                | None \<Rightarrow> Inr d)))"

section \<open>What the checks decide\<close>

definition bindingOk :: "team \<Rightarrow> profile list \<Rightarrow> member \<Rightarrow> bool" where
  "bindingOk t as m =
     (\<exists>a. findProfile as (boundProfile (memberBinding m)) = Some a \<and>
        profileScope a = (case memberBinding m of Copy k \<Rightarrow> TeamScope (teamId t) | Reference k \<Rightarrow> LibraryScope))"

lemma bindingOk_code [code]:
  "bindingOk t as m =
     (case findProfile as (boundProfile (memberBinding m)) of
        None \<Rightarrow> False
      | Some a \<Rightarrow> profileScope a = (case memberBinding m of Copy k \<Rightarrow> TeamScope (teamId t) | Reference k \<Rightarrow> LibraryScope))"
  by (auto simp: bindingOk_def split: option.split)

definition handlesOf :: "(string \<Rightarrow> string) \<Rightarrow> member list \<Rightarrow> string list" where
  "handlesOf nfkc ms = map (\<lambda>m. normalizeMentionHandle nfkc (memberHandle m)) ms"

definition teamOk :: "(string \<Rightarrow> string) \<Rightarrow> profile list \<Rightarrow> team \<Rightarrow> bool" where
  "teamOk nfkc as t =
     (leaderMemberId t \<in> memberId ` set (members t) \<and> distinct (map memberId (members t)) \<and>
      distinct (handlesOf nfkc (members t)) \<and> [] \<notin> set (handlesOf nfkc (members t)) \<and>
      list_all (bindingOk t as) (members t))"

definition libraryHandles :: "(string \<Rightarrow> string) \<Rightarrow> profile list \<Rightarrow> string list" where
  "libraryHandles nfkc as =
     map (\<lambda>a. normalizeMentionHandle nfkc (mentionHandle a)) (filter (\<lambda>a. profileScope a = LibraryScope) as)"

definition documentOk :: "(string \<Rightarrow> string) \<Rightarrow> registry \<Rightarrow> team_document \<Rightarrow> bool" where
  "documentOk nfkc r d =
     (distinct (map profileId (agents d)) \<and> distinct (libraryHandles nfkc (agents d)) \<and>
      distinct (map teamId (teams d)) \<and>
      (\<forall>t \<in> set (teams d). teamOk nfkc (agents d) t \<and> orchestrationPolicyId t \<in> set (orchestrationPolicies r) \<and>
         contextPolicyId t \<in> set (contextPolicies r)) \<and>
      (\<forall>a \<in> set (agents d). scopeKnown (teams d) a))"

definition validDocument :: "(string \<Rightarrow> string) \<Rightarrow> registry \<Rightarrow> team_document \<Rightarrow> bool" where
  "validDocument nfkc r d = (agentTeamDocumentSchema d \<and> documentOk nfkc r d)"

lemma checkBinding_iff: "checkBinding t as m = Inr () \<longleftrightarrow> bindingOk t as m"
  by (auto simp: checkBinding_def bindingOk_def split: option.splits binding.splits)

lemma checkMembers_iff:
  "checkMembers nfkc t as ks hs ms = Inr () \<longleftrightarrow>
     distinct (map memberId ms) \<and> set ks \<inter> memberId ` set ms = {} \<and>
     distinct (handlesOf nfkc ms) \<and> set hs \<inter> set (handlesOf nfkc ms) = {} \<and> [] \<notin> set (handlesOf nfkc ms) \<and>
     list_all (bindingOk t as) ms"
proof (induction ms arbitrary: ks hs)
  case Nil
  then show ?case by (simp add: handlesOf_def)
next
  case (Cons m ms)
  have "checkMembers nfkc t as ks hs (m # ms) = Inr () \<longleftrightarrow>
      memberId m \<notin> set ks \<and> normalizeMentionHandle nfkc (memberHandle m) \<notin> set hs \<and>
      normalizeMentionHandle nfkc (memberHandle m) \<noteq> [] \<and> bindingOk t as m \<and>
      checkMembers nfkc t as (memberId m # ks) (normalizeMentionHandle nfkc (memberHandle m) # hs) ms = Inr ()"
    by (auto simp: Let_def checkBinding_iff [symmetric] split: sum.splits)
  then show ?case unfolding Cons.IH by (auto simp: handlesOf_def)
qed

lemma assertTeamInvariants_iff: "assertTeamInvariants nfkc t as = Inr () \<longleftrightarrow> teamOk nfkc as t"
proof -
  have "list_ex (\<lambda>m. memberId m = leaderMemberId t) (members t) \<longleftrightarrow> leaderMemberId t \<in> memberId ` set (members t)"
    unfolding list_ex_iff by force
  then show ?thesis by (auto simp: assertTeamInvariants_def checkMembers_iff teamOk_def)
qed

lemma checkProfiles_iff:
  "checkProfiles nfkc ks hs as = Inr () \<longleftrightarrow>
     distinct (map profileId as) \<and> set ks \<inter> profileId ` set as = {} \<and>
     distinct (libraryHandles nfkc as) \<and> set hs \<inter> set (libraryHandles nfkc as) = {}"
  by (induction as arbitrary: ks hs) (auto simp: Let_def libraryHandles_def)

lemma checkTeams_iff:
  "checkTeams nfkc r as ks ts = Inr () \<longleftrightarrow>
     distinct (map teamId ts) \<and> set ks \<inter> teamId ` set ts = {} \<and>
     (\<forall>t \<in> set ts. teamOk nfkc as t \<and> orchestrationPolicyId t \<in> set (orchestrationPolicies r) \<and>
        contextPolicyId t \<in> set (contextPolicies r))"
proof (induction ts arbitrary: ks)
  case Nil
  then show ?case by simp
next
  case (Cons t ts)
  have "checkTeams nfkc r as ks (t # ts) = Inr () \<longleftrightarrow>
      teamId t \<notin> set ks \<and> teamOk nfkc as t \<and> orchestrationPolicyId t \<in> set (orchestrationPolicies r) \<and>
      contextPolicyId t \<in> set (contextPolicies r) \<and> checkTeams nfkc r as (teamId t # ks) ts = Inr ()"
    by (auto simp: assertTeamInvariants_iff [symmetric] requireTeamPolicies_def split: sum.splits)
  then show ?case unfolding Cons.IH by auto
qed

lemma parse_iff: "parseAgentTeamDocument nfkc r d = Inr d' \<longleftrightarrow> validDocument nfkc r d \<and> d' = d"
proof -
  have "checkProfiles nfkc [] [] (agents d) = Inr () \<and> checkTeams nfkc r (agents d) [] (teams d) = Inr () \<and>
      find (\<lambda>a. \<not> scopeKnown (teams d) a) (agents d) = None \<longleftrightarrow> documentOk nfkc r d"
    by (simp add: checkProfiles_iff checkTeams_iff documentOk_def find_None_iff2) (auto simp: find_None_iff)
  then show ?thesis
    by (auto simp: parseAgentTeamDocument_def validDocument_def split: sum.splits option.splits if_splits)
qed

end
