(* ===== verification/TeamStore.thy ===== *)
theory TeamStore
  imports TeamDomain
begin

text \<open>
  The configuration store of the agent teams,
  \<open>apps/desktop/src/main/agent-teams/agent-team-store.ts\<close>. A mutation is a function of the
  current document; \<open>mutate\<close> validates what it returns, writes it and only then makes it the
  current document. Mutations are queued one after the other, so a history of calls is a list.

  The ids of \<open>createId\<close> (numbered by the calls a mutation makes), the clock, the blueprint
  registry and the success of the write are arguments.
\<close>

section \<open>Inputs, errors and the store\<close>

datatype store_error =
    UnknownBlueprint string
  | NoSuchProfile string
  | ProvidedByExtension
  | ProfileChanged
  | ReferencesChanged
  | NoSuchTeam string
  | TeamChanged
  | NoTeamMembers
  | NotOneLeader nat
  | RepeatedMember string
  | NoSuchMember string
  | RepeatedSource string
  | NoSuchLibraryProfile string
  | MentionHandleEmpty
  | MentionHandleExists string
  | InvalidDocument team_error
  | WriteFailed

record store_config =
  nfkcOf :: "string \<Rightarrow> string"
  policies :: registry
  blueprintOf :: "string \<Rightarrow> abilities option"

record abilities_input =
  inSelectionMode :: "string option"
  inSkills :: "string list option"
  inMcpServers :: "string list option"
  inPlugins :: "string list option"
  inExtensions :: "(string \<times> string list) list option"

record create_profile_input =
  cpName :: string
  cpDescription :: "string option"
  cpAvatar :: "string option"
  cpMentionHandle :: string
  cpBlueprintId :: string
  cpAbilities :: "abilities_input option"

record update_profile_input =
  upExpectedRevision :: int
  upName :: string
  upDescription :: string
  upAvatar :: "string option"
  upMentionHandle :: string
  upSystemPrompt :: "string option"
  upAbilities :: abilities

record delete_profile_input =
  dpExpectedRevision :: int
  dpExpectedTeamIds :: "string list option"
  dpExpectedTeamRevisions :: "(string \<times> int) list option"

datatype binding_kind = ReferenceKind | CopyKind

record create_member_input =
  cmProfile :: string
  cmHandle :: string
  cmKind :: binding_kind
  cmLeader :: bool
  cmAssignment :: "assignment option"

record create_team_input =
  ctMaxRetries :: "int option"
  ctName :: string
  ctDescription :: "string option"
  ctMembers :: "create_member_input list"
  ctOrchestration :: "string option"
  ctContext :: "string option"

datatype update_member_input =
    ExistingMember string bool "assignment option"
  | NewMember string binding_kind bool "assignment option"

record update_team_input =
  utMaxRetries :: "int option"
  utExpectedRevision :: int
  utName :: string
  utDescription :: string
  utMembers :: "update_member_input list"

section \<open>Helpers\<close>

text \<open>\<open>input?.x?.trim()\<close>, dropped when empty.\<close>

definition trimmed :: "string option \<Rightarrow> string option" where
  "trimmed s = (case s of Some v \<Rightarrow> (if trim v = [] then None else Some (trim v)) | None \<Rightarrow> None)"

definition normalizeTeamMemberAssignment :: "assignment option \<Rightarrow> assignment option" where
  "normalizeTeamMemberAssignment a =
     (let r = trimmed (Option.bind a responsibility); i = trimmed (Option.bind a instructions)
      in if r = None \<and> i = None then None else Some \<lparr>responsibility = r, instructions = i\<rparr>)"

definition orElse :: "'a option \<Rightarrow> 'a \<Rightarrow> 'a" where
  "orElse x d = (case x of Some v \<Rightarrow> v | None \<Rightarrow> d)"

definition createAgentAbilities :: "abilities_input option \<Rightarrow> abilities \<Rightarrow> abilities" where
  "createAgentAbilities inp defaults =
     (case inp of
        None \<Rightarrow> defaults\<lparr>selectionMode := Some (orElse (selectionMode defaults) ''custom'')\<rparr>
      | Some i \<Rightarrow>
          \<lparr>selectionMode = Some (orElse (inSelectionMode i) ''custom''),
           skills = orElse (inSkills i) (skills defaults),
           mcpServers = orElse (inMcpServers i) (mcpServers defaults),
           plugins = orElse (inPlugins i) (plugins defaults),
           extensionAbilities = inExtensions i\<rparr>)"

definition ensureUniqueHandle :: "team_document \<Rightarrow> string \<Rightarrow> string option \<Rightarrow> store_error + unit" where
  "ensureUniqueHandle d h exceptId =
     (if h = [] then Inl MentionHandleEmpty
      else if list_ex (\<lambda>a. Some (profileId a) \<noteq> exceptId \<and> mentionHandle a = h) (agents d)
      then Inl (MentionHandleExists h)
      else Inr ())"

definition sameIds :: "string list \<Rightarrow> string list \<Rightarrow> bool" where
  "sameIds l r = (length l = length r \<and> list_all (\<lambda>k. k \<in> set r) l)"

definition createTeamCopy :: "profile \<Rightarrow> string \<Rightarrow> string \<Rightarrow> int \<Rightarrow> profile" where
  "createTeamCopy source k tid now =
     source\<lparr>profileId := k, profileRevision := 1, profileScope := TeamScope tid,
            copiedFrom := Some (profileId source), profileCreatedAt := now, profileUpdatedAt := now\<rparr>"

section \<open>Profiles\<close>

definition createAgent ::
    "store_config \<Rightarrow> (nat \<Rightarrow> string) \<Rightarrow> int \<Rightarrow> create_profile_input \<Rightarrow> team_document
      \<Rightarrow> store_error + team_document \<times> profile" where
  "createAgent cfg gen now i d =
     (case blueprintOf cfg (cpBlueprintId i) of
        None \<Rightarrow> Inl (UnknownBlueprint (cpBlueprintId i))
      | Some defaults \<Rightarrow>
          (let created =
             \<lparr>profileId = gen 0, profileRevision = 1, profileName = trim (cpName i),
              profileDescription = (case cpDescription i of Some s \<Rightarrow> trim s | None \<Rightarrow> []),
              avatar = (if truthy (cpAvatar i) then cpAvatar i else None),
              mentionHandle = normalizeMentionHandle (nfkcOf cfg) (cpMentionHandle i),
              blueprintId = cpBlueprintId i, systemPrompt = None,
              profileAbilities = createAgentAbilities (cpAbilities i) defaults,
              profileScope = LibraryScope, copiedFrom = None, profileSource = None,
              profileCreatedAt = now, profileUpdatedAt = now\<rparr>
           in case ensureUniqueHandle d (mentionHandle created) None of
                Inl e \<Rightarrow> Inl e
              | Inr _ \<Rightarrow>
                  Inr (d\<lparr>documentRevision := documentRevision d + 1, agents := agents d @ [created]\<rparr>, created)))"

definition updatedProfile :: "store_config \<Rightarrow> int \<Rightarrow> update_profile_input \<Rightarrow> profile \<Rightarrow> profile" where
  "updatedProfile cfg now i current =
     current\<lparr>profileName := trim (upName i), profileDescription := trim (upDescription i),
       systemPrompt := (case upSystemPrompt i of None \<Rightarrow> systemPrompt current | Some s \<Rightarrow> trimmed (Some s)),
       avatar := (if truthy (upAvatar i) then upAvatar i else None),
       mentionHandle := normalizeMentionHandle (nfkcOf cfg) (upMentionHandle i),
       profileAbilities := (upAbilities i)\<lparr>selectionMode := Some (orElse (selectionMode (upAbilities i)) ''custom'')\<rparr>,
       profileRevision := profileRevision current + 1, profileUpdatedAt := now\<rparr>"

definition updateAgent ::
    "store_config \<Rightarrow> int \<Rightarrow> string \<Rightarrow> update_profile_input \<Rightarrow> team_document
      \<Rightarrow> store_error + team_document \<times> profile" where
  "updateAgent cfg now k i d =
     (case findIndex (\<lambda>a. profileId a = k) (agents d) of
        None \<Rightarrow> Inl (NoSuchProfile k)
      | Some n \<Rightarrow>
          (let current = agents d ! n
           in if profileSource current \<noteq> None then Inl ProvidedByExtension
              else if profileRevision current \<noteq> upExpectedRevision i then Inl ProfileChanged
              else case ensureUniqueHandle d (normalizeMentionHandle (nfkcOf cfg) (upMentionHandle i)) (Some k) of
                     Inl e \<Rightarrow> Inl e
                   | Inr _ \<Rightarrow>
                       (let nextProfile = updatedProfile cfg now i current
                        in Inr (d\<lparr>documentRevision := documentRevision d + 1,
                                  agents := (agents d)[n := nextProfile]\<rparr>, nextProfile))))"

definition withoutMembers :: "int \<Rightarrow> delete_impact \<Rightarrow> team \<Rightarrow> team" where
  "withoutMembers now im t =
     t\<lparr>teamRevision := teamRevision t + 1,
       leaderMemberId := orElse (nextLeaderMemberId im) (leaderMemberId t),
       members := filter (\<lambda>m. memberId m \<notin> set (removedMemberIds im)) (members t),
       teamUpdatedAt := now\<rparr>"

definition teamAfterDelete :: "int \<Rightarrow> delete_impact list \<Rightarrow> team \<Rightarrow> team list" where
  "teamAfterDelete now impacts t =
     (case map_of (rev (map (\<lambda>im. (impactTeam im, im)) impacts)) (teamId t) of
        None \<Rightarrow> [t]
      | Some im \<Rightarrow> if deletesTeam im then [] else [withoutMembers now im t])"

definition deleteAgent ::
    "int \<Rightarrow> string \<Rightarrow> delete_profile_input \<Rightarrow> team_document \<Rightarrow> store_error + team_document \<times> profile" where
  "deleteAgent now k i d =
     (case findProfile (agents d) k of
        None \<Rightarrow> Inl (NoSuchProfile k)
      | Some a \<Rightarrow>
          (if profileSource a \<noteq> None then Inl ProvidedByExtension
           else if profileRevision a \<noteq> dpExpectedRevision i then Inl ProfileChanged
           else
             (let impacts = previewAgentProfileDelete d k;
                  revisionsMatch = list_all (\<lambda>im.
                    Option.bind (dpExpectedTeamRevisions i) (\<lambda>rs. map_of rs (impactTeam im)) = Some (impactRevision im))
                    impacts;
                  deletedTeamIds = map impactTeam (filter deletesTeam impacts)
              in if \<not> sameIds (orElse (dpExpectedTeamIds i) []) (map impactTeam impacts) \<or> \<not> revisionsMatch
                 then Inl ReferencesChanged
                 else Inr (d\<lparr>documentRevision := documentRevision d + 1,
                             agents := filter (\<lambda>b. profileId b \<noteq> k \<and>
                               (case profileScope b of TeamScope t \<Rightarrow> t \<notin> set deletedTeamIds | LibraryScope \<Rightarrow> True))
                               (agents d),
                             teams := concat (map (teamAfterDelete now impacts) (teams d))\<rparr>, a))))"

section \<open>Teams\<close>

definition newMember :: "string \<Rightarrow> string \<Rightarrow> binding \<Rightarrow> assignment option \<Rightarrow> member" where
  "newMember k h b a =
     \<lparr>memberId = k, memberHandle = h, memberBinding = b, memberAssignment = normalizeTeamMemberAssignment a\<rparr>"

text \<open>
  The \<open>input.members.map\<close> of \<open>createTeam\<close>, which appends the copies it makes to
  \<open>agents\<close>; \<open>n\<close> counts the calls of \<open>createId\<close>.
\<close>

fun createMembers ::
    "store_config \<Rightarrow> (nat \<Rightarrow> string) \<Rightarrow> int \<Rightarrow> string \<Rightarrow> nat \<Rightarrow> profile list \<Rightarrow> create_member_input list
      \<Rightarrow> store_error + profile list \<times> (member \<times> bool) list" where
  "createMembers cfg gen now tid n as [] = Inr (as, [])"
| "createMembers cfg gen now tid n as (i # is) =
     (case findProfile as (cmProfile i) of
        None \<Rightarrow> Inl (NoSuchProfile (cmProfile i))
      | Some source \<Rightarrow>
          (let h = normalizeMentionHandle (nfkcOf cfg) (cmHandle i) in
           case cmKind i of
             CopyKind \<Rightarrow>
               (let copy = createTeamCopy source (gen n) tid now
                in map_sum id (map_prod id (Cons (newMember (gen (n + 1)) h (Copy (profileId copy)) (cmAssignment i), cmLeader i)))
                     (createMembers cfg gen now tid (n + 2) (as @ [copy]) is))
           | ReferenceKind \<Rightarrow>
               map_sum id (map_prod id (Cons (newMember (gen n) h (Reference (profileId source)) (cmAssignment i), cmLeader i)))
                 (createMembers cfg gen now tid (n + 1) as is)))"

definition leaderIds :: "(member \<times> bool) list \<Rightarrow> string list" where
  "leaderIds ms = map (\<lambda>(m, l). memberId m) (filter snd ms)"

definition createTeam ::
    "store_config \<Rightarrow> (nat \<Rightarrow> string) \<Rightarrow> int \<Rightarrow> create_team_input \<Rightarrow> team_document
      \<Rightarrow> store_error + team_document \<times> team" where
  "createTeam cfg gen now i d =
     (if ctMembers i = [] then Inl NoTeamMembers
      else case createMembers cfg gen now (gen 0) 1 (agents d) (ctMembers i) of
             Inl e \<Rightarrow> Inl e
           | Inr (as, ms) \<Rightarrow>
               (case leaderIds ms of
                  [leader] \<Rightarrow>
                    (let created =
                       \<lparr>maxAutomaticRetries = ctMaxRetries i, teamId = gen 0, teamRevision = 1,
                        teamName = trim (ctName i),
                        teamDescription = (case ctDescription i of Some s \<Rightarrow> trim s | None \<Rightarrow> []),
                        leaderMemberId = leader, members = map fst ms,
                        orchestrationPolicyId = orElse (ctOrchestration i) ''leader-delegates-v1'',
                        contextPolicyId = orElse (ctContext i) ''public-results-v1'',
                        teamSource = None, teamCreatedAt = now, teamUpdatedAt = now\<rparr>
                     in case requireTeamPolicies (orchestrationPolicyId created) (contextPolicyId created) (policies cfg) of
                          Inl e \<Rightarrow> Inl (InvalidDocument e)
                        | Inr _ \<Rightarrow>
                            (case assertTeamInvariants (nfkcOf cfg) created as of
                               Inl e \<Rightarrow> Inl (InvalidDocument e)
                             | Inr _ \<Rightarrow>
                                 Inr (d\<lparr>documentRevision := documentRevision d + 1, agents := as,
                                        teams := teams d @ [created]\<rparr>, created)))
                | ls \<Rightarrow> Inl (NotOneLeader (length ls))))"

fun updateMembers ::
    "(nat \<Rightarrow> string) \<Rightarrow> int \<Rightarrow> team \<Rightarrow> nat \<Rightarrow> string list \<Rightarrow> string list \<Rightarrow> profile list \<Rightarrow> update_member_input list
      \<Rightarrow> store_error + profile list \<times> (member \<times> bool) list" where
  "updateMembers gen now t n existing sources as [] = Inr (as, [])"
| "updateMembers gen now t n existing sources as (ExistingMember k leader a # is) =
     (if k \<in> set existing then Inl (RepeatedMember k)
      else case findMember t k of
             None \<Rightarrow> Inl (NoSuchMember k)
           | Some m \<Rightarrow>
               (let m' = m\<lparr>memberAssignment :=
                    (case a of None \<Rightarrow> memberAssignment m | Some x \<Rightarrow> normalizeTeamMemberAssignment (Some x))\<rparr>
                in map_sum id (map_prod id (Cons (m', leader)))
                     (updateMembers gen now t n (k # existing) sources as is)))"
| "updateMembers gen now t n existing sources as (NewMember k kind leader a # is) =
     (if k \<in> set sources then Inl (RepeatedSource k)
      else case findProfile as k of
             None \<Rightarrow> Inl (NoSuchLibraryProfile k)
           | Some source \<Rightarrow>
               (if profileScope source \<noteq> LibraryScope then Inl (NoSuchLibraryProfile k)
                else case kind of
                  CopyKind \<Rightarrow>
                    (let copy = createTeamCopy source (gen n) (teamId t) now
                     in map_sum id (map_prod id (Cons
                            (newMember (gen (n + 1)) (mentionHandle source) (Copy (profileId copy)) a, leader)))
                          (updateMembers gen now t (n + 2) existing (k # sources) (as @ [copy]) is))
                | ReferenceKind \<Rightarrow>
                    map_sum id (map_prod id (Cons
                        (newMember (gen n) (mentionHandle source) (Reference (profileId source)) a, leader)))
                      (updateMembers gen now t (n + 1) existing (k # sources) as is)))"

fun retainedId :: "update_member_input \<Rightarrow> string list" where
  "retainedId (ExistingMember k leader a) = [k]"
| "retainedId (NewMember k kind leader a) = []"

definition removedCopyProfileIds :: "team \<Rightarrow> update_member_input list \<Rightarrow> string list" where
  "removedCopyProfileIds t is =
     concat (map (\<lambda>m. case memberBinding m of
         Copy k \<Rightarrow> if memberId m \<in> set (concat (map retainedId is)) then [] else [k]
       | Reference k \<Rightarrow> []) (members t))"

definition updateTeam ::
    "store_config \<Rightarrow> (nat \<Rightarrow> string) \<Rightarrow> int \<Rightarrow> string \<Rightarrow> update_team_input \<Rightarrow> team_document
      \<Rightarrow> store_error + team_document \<times> team" where
  "updateTeam cfg gen now k i d =
     (case findIndex (\<lambda>t. teamId t = k) (teams d) of
        None \<Rightarrow> Inl (NoSuchTeam k)
      | Some n \<Rightarrow>
          (let current = teams d ! n
           in if teamSource current \<noteq> None then Inl ProvidedByExtension
              else if teamRevision current \<noteq> utExpectedRevision i then Inl TeamChanged
              else case updateMembers gen now current 0 [] [] (agents d) (utMembers i) of
                     Inl e \<Rightarrow> Inl e
                   | Inr (as, ms) \<Rightarrow>
                       (let kept = filter (\<lambda>a. profileId a \<notin> set (removedCopyProfileIds current (utMembers i))) as
                        in case leaderIds ms of
                             [leader] \<Rightarrow>
                               (let nextTeam = current\<lparr>teamRevision := teamRevision current + 1,
                                    maxAutomaticRetries := (case utMaxRetries i of None \<Rightarrow> maxAutomaticRetries current
                                      | Some m \<Rightarrow> Some m),
                                    teamName := trim (utName i), teamDescription := trim (utDescription i),
                                    leaderMemberId := leader, members := map fst ms, teamUpdatedAt := now\<rparr>
                                in case assertTeamInvariants (nfkcOf cfg) nextTeam kept of
                                     Inl e \<Rightarrow> Inl (InvalidDocument e)
                                   | Inr _ \<Rightarrow>
                                       Inr (d\<lparr>documentRevision := documentRevision d + 1, agents := kept,
                                              teams := (teams d)[n := nextTeam]\<rparr>, nextTeam))
                           | ls \<Rightarrow> Inl (NotOneLeader (length ls)))))"

definition deleteTeam :: "string \<Rightarrow> int \<Rightarrow> team_document \<Rightarrow> store_error + team_document \<times> team" where
  "deleteTeam k expectedRevision d =
     (case find (\<lambda>t. teamId t = k) (teams d) of
        None \<Rightarrow> Inl (NoSuchTeam k)
      | Some t \<Rightarrow>
          (if teamSource t \<noteq> None then Inl ProvidedByExtension
           else if teamRevision t \<noteq> expectedRevision then Inl TeamChanged
           else Inr (d\<lparr>documentRevision := documentRevision d + 1,
                       agents := filter (\<lambda>a. profileScope a \<noteq> TeamScope k) (agents d),
                       teams := filter (\<lambda>c. teamId c \<noteq> k) (teams d)\<rparr>, t)))"

section \<open>Persisting a mutation\<close>

text \<open>\<open>persist\<close>: validate, write, and only then replace the current document.\<close>

definition persist :: "store_config \<Rightarrow> bool \<Rightarrow> team_document \<Rightarrow> store_error + team_document" where
  "persist cfg writeOk d =
     (case parseAgentTeamDocument (nfkcOf cfg) (policies cfg) d of
        Inl e \<Rightarrow> Inl (InvalidDocument e)
      | Inr normalized \<Rightarrow> if writeOk then Inr normalized else Inl WriteFailed)"

text \<open>The result of a mutation, and the document the store holds afterwards.\<close>

definition mutate ::
    "store_config \<Rightarrow> bool \<Rightarrow> (team_document \<Rightarrow> store_error + team_document \<times> 'r) \<Rightarrow> team_document
      \<Rightarrow> (store_error + 'r) \<times> team_document" where
  "mutate cfg writeOk f current =
     (case f current of
        Inl e \<Rightarrow> (Inl e, current)
      | Inr (d, res) \<Rightarrow>
          (case persist cfg writeOk d of
             Inl e \<Rightarrow> (Inl e, current)
           | Inr normalized \<Rightarrow> (Inr res, normalized)))"

datatype team_call =
    CreateAgent "nat \<Rightarrow> string" int create_profile_input
  | UpdateAgent int string update_profile_input
  | DeleteAgent int string delete_profile_input
  | CreateTeam "nat \<Rightarrow> string" int create_team_input
  | UpdateTeam "nat \<Rightarrow> string" int string update_team_input
  | DeleteTeam string int

definition toUnit :: "store_error + team_document \<times> 'r \<Rightarrow> store_error + team_document \<times> unit" where
  "toUnit x = map_sum id (\<lambda>(d, res). (d, ())) x"

fun mutation :: "store_config \<Rightarrow> team_call \<Rightarrow> team_document \<Rightarrow> store_error + team_document \<times> unit" where
  "mutation cfg (CreateAgent gen now i) d = toUnit (createAgent cfg gen now i d)"
| "mutation cfg (UpdateAgent now k i) d = toUnit (updateAgent cfg now k i d)"
| "mutation cfg (DeleteAgent now k i) d = toUnit (deleteAgent now k i d)"
| "mutation cfg (CreateTeam gen now i) d = toUnit (createTeam cfg gen now i d)"
| "mutation cfg (UpdateTeam gen now k i) d = toUnit (updateTeam cfg gen now k i d)"
| "mutation cfg (DeleteTeam k v) d = toUnit (deleteTeam k v d)"

text \<open>The queued calls, each with the outcome of its write.\<close>

fun runCalls :: "store_config \<Rightarrow> (team_call \<times> bool) list \<Rightarrow> team_document \<Rightarrow> (store_error + unit) list \<times> team_document" where
  "runCalls cfg [] d = ([], d)"
| "runCalls cfg ((c, w) # cs) d =
     (let (res, d') = mutate cfg w (mutation cfg c) d; (rest, d'') = runCalls cfg cs d' in (res # rest, d''))"

end
