(* ===== verification/TeamDeletion.thy ===== *)
theory TeamDeletion
  imports TeamStore
begin

text \<open>
  Deleting a profile or a team from a valid document. Both operations rewrite teams and
  profiles together, and the document they return is validated before it is written: the
  lemmas here show that a deletion whose expectations are met always passes that validation.
\<close>

section \<open>Fewer profiles\<close>

lemma find_filter: "find Q xs = Some a \<Longrightarrow> P a \<Longrightarrow> find Q (filter P xs) = Some a"
  by (induction xs) (auto split: if_splits)

lemma bindingOk_kept:
  assumes "bindingOk t as m"
    and "\<And>a. a \<in> set as \<Longrightarrow> profileId a = boundProfile (memberBinding m) \<Longrightarrow>
       profileScope a = LibraryScope \<or> profileScope a = TeamScope (teamId t) \<Longrightarrow> P a"
    and "teamId t' = teamId t"
  shows "bindingOk t' (filter P as) m"
proof -
  obtain a where a: "findProfile as (boundProfile (memberBinding m)) = Some a"
      "profileScope a = (case memberBinding m of Copy k \<Rightarrow> TeamScope (teamId t) | Reference k \<Rightarrow> LibraryScope)"
    using assms(1) by (auto simp: bindingOk_def)
  then have "a \<in> set as" "profileId a = boundProfile (memberBinding m)"
    by (auto simp: findProfile_def dest: find_SomeD)
  moreover have "profileScope a = LibraryScope \<or> profileScope a = TeamScope (teamId t)"
    using a(2) by (simp split: binding.splits)
  ultimately have "P a" using assms(2) by blast
  then have "findProfile (filter P as) (boundProfile (memberBinding m)) = Some a"
    using a(1) unfolding findProfile_def by (intro find_filter)
  then show ?thesis using a(2) assms(3) by (simp add: bindingOk_def split: binding.splits)
qed

lemma distinct_libraryHandles_filter:
  "distinct (libraryHandles nfkc as) \<Longrightarrow> distinct (libraryHandles nfkc (filter P as))"
  by (induction as) (auto simp: libraryHandles_def)

lemma list_all_filter: "list_all P xs \<Longrightarrow> list_all P (filter Q xs)"
  by (simp add: list_all_iff)

lemma knownScopeE:
  assumes "validDocument nfkc r d" "a \<in> set (agents d)" "profileScope a = TeamScope k"
  obtains t where "t \<in> set (teams d)" "teamId t = k"
proof -
  have "scopeKnown (teams d) a" using assms(1,2) by (simp add: validDocument_def documentOk_def)
  then show thesis using assms(3) that by (auto simp: scopeKnown_def)
qed

section \<open>What a team loses\<close>

text \<open>The entry of a team in the map that \<open>deleteAgent\<close> builds from the preview.\<close>

lemma impactTeam_of: "im \<in> set (teamDeleteImpact as k t) \<Longrightarrow> impactTeam im = teamId t"
  by (auto simp: teamDeleteImpact_def Let_def split: if_splits)

lemma teamDeleteImpact_cases:
  obtains "teamDeleteImpact as k t = []" "filter (referencesProfile k) (members t) = []"
  | im where "teamDeleteImpact as k t = [im]" "filter (referencesProfile k) (members t) \<noteq> []"
      "removedMemberIds im = map memberId (filter (referencesProfile k) (members t))"
      "deletesTeam im = (remainingMembers k t = [])" "impactTeam im = teamId t" "impactRevision im = teamRevision t"
      "nextLeaderMemberId im =
         (if leaderMemberId t \<in> set (removedMemberIds im)
          then (case remainingMembers k t of [] \<Rightarrow> None | m # _ \<Rightarrow> Some (memberId m)) else None)"
  by (cases "filter (referencesProfile k) (members t) = []")
     (auto simp: teamDeleteImpact_def Let_def split: list.splits)

lemma impact_keys:
  assumes "distinct (map teamId ts)"
  shows "distinct (map impactTeam (concat (map (teamDeleteImpact as k) ts)))"
  using assms
proof (induction ts)
  case (Cons t ts)
  have new: "teamId t \<notin> impactTeam ` set (concat (map (teamDeleteImpact as k) ts))"
    using Cons.prems by (auto dest!: impactTeam_of)
  show ?case
    by (cases rule: teamDeleteImpact_cases [of as k t]) (use Cons new in auto)
qed simp

lemma impact_entry:
  assumes "distinct (map teamId ts)" "t \<in> set ts"
  shows "map_of (rev (map (\<lambda>im. (impactTeam im, im)) (concat (map (teamDeleteImpact as k) ts)))) (teamId t) =
    (case teamDeleteImpact as k t of [] \<Rightarrow> None | im # _ \<Rightarrow> Some im)" (is "map_of (rev ?es) _ = _")
proof -
  have keys: "map fst ?es = map impactTeam (concat (map (teamDeleteImpact as k) ts))" by simp
  then have "map_of (rev ?es) = map_of ?es"
    using impact_keys [OF assms(1), of as k] by (subst map_of_inject_set) (simp_all add: rev_map [symmetric] comp_def)
  moreover have "map_of ?es (teamId t) = (case teamDeleteImpact as k t of [] \<Rightarrow> None | im # _ \<Rightarrow> Some im)"
    using assms
  proof (induction ts)
    case (Cons u us)
    have miss: "map_of (map (\<lambda>im. (impactTeam im, im)) (concat (map (teamDeleteImpact as k) us))) (teamId u) = None"
      using Cons.prems(1) by (auto simp: map_of_eq_None_iff dest!: impactTeam_of)
    show ?case
    proof (cases "t = u")
      case True
      then show ?thesis
        by (cases rule: teamDeleteImpact_cases [of as k u]) (use miss in auto)
    next
      case False
      then have "t \<in> set us" "teamId u \<noteq> teamId t" using Cons.prems by auto
      then show ?thesis
        by (cases rule: teamDeleteImpact_cases [of as k u]) (use Cons in auto)
    qed
  qed simp
  ultimately show ?thesis by simp
qed

lemma remainingMembers_iff:
  "m \<in> set (remainingMembers k t) \<Longrightarrow> m \<in> set (members t) \<and> \<not> referencesProfile k m"
  by (auto simp: remainingMembers_def Let_def)

lemma kept_leader:
  assumes "leaderMemberId t \<in> memberId ` set (members t)"
    and "leaderMemberId t \<notin> memberId ` {m \<in> set (members t). referencesProfile k m}"
  shows "leaderMemberId t \<in> memberId ` set (remainingMembers k t)"
  using assms by (auto simp: remainingMembers_def Let_def)

text \<open>The teams of the document after the deletion of profile \<open>k\<close>, one by one.\<close>

lemma teamAfterDelete_cases:
  assumes "distinct (map teamId (teams d))" "t \<in> set (teams d)"
    "leaderMemberId t \<in> memberId ` set (members t)"
    "t' \<in> set (teamAfterDelete now (previewAgentProfileDelete d k) t)"
  obtains "t' = t" "filter (referencesProfile k) (members t) = []"
  | im where "t' = withoutMembers now im t" "remainingMembers k t \<noteq> []"
      "im \<in> set (previewAgentProfileDelete d k)"
      "members t' = remainingMembers k t"
      "leaderMemberId t' \<in> memberId ` set (remainingMembers k t)"
proof (cases rule: teamDeleteImpact_cases [of "agents d" k t])
  case 1
  then have "t' = t"
    using assms by (simp add: teamAfterDelete_def previewAgentProfileDelete_def impact_entry)
  then show thesis using 1 that(1) by blast
next
  case (2 im)
  then have t': "\<not> deletesTeam im" "t' = withoutMembers now im t"
    using assms by (auto simp: teamAfterDelete_def previewAgentProfileDelete_def impact_entry split: if_splits)
  then have rest: "remainingMembers k t \<noteq> []" using 2 by simp
  have "im \<in> set (previewAgentProfileDelete d k)"
    using 2(1) assms(2) by (force simp: previewAgentProfileDelete_def)
  moreover have "members t' = remainingMembers k t"
    using t' 2 by (simp add: withoutMembers_def remainingMembers_def Let_def)
  moreover have "leaderMemberId t' \<in> memberId ` set (remainingMembers k t)"
  proof (cases "leaderMemberId t \<in> memberId ` {m \<in> set (members t). referencesProfile k m}")
    case True
    obtain m ms where "remainingMembers k t = m # ms" using rest by (cases "remainingMembers k t") auto
    then show ?thesis using True 2 t' by (simp add: withoutMembers_def orElse_def)
  next
    case False
    then show ?thesis using kept_leader [OF assms(3)] 2 t' by (simp add: withoutMembers_def orElse_def)
  qed
  ultimately show thesis using that(2) t'(2) rest by blast
qed

lemma remaining_members_ok:
  assumes ok: "teamOk nfkc as t" and ms: "members t' = filter Q (members t)" "teamId t' = teamId t"
    and leader: "leaderMemberId t' \<in> memberId ` set (members t')"
    and kept: "\<And>m a. m \<in> set (members t') \<Longrightarrow> a \<in> set as \<Longrightarrow> profileId a = boundProfile (memberBinding m) \<Longrightarrow>
       profileScope a = LibraryScope \<or> profileScope a = TeamScope (teamId t) \<Longrightarrow> P a"
  shows "teamOk nfkc (filter P as) t'"
proof -
  have "bindingOk t' (filter P as) m" if "m \<in> set (members t')" for m
    using that ok ms by (intro bindingOk_kept [where t = t]) (auto simp: teamOk_def list_all_iff intro: kept)
  moreover have "distinct (map memberId (members t'))" "distinct (handlesOf nfkc (members t'))"
    using ok ms by (auto simp: teamOk_def handlesOf_def distinct_map_filter)
  moreover have "[] \<notin> set (handlesOf nfkc (members t'))"
    using ok ms by (auto simp: teamOk_def handlesOf_def)
  ultimately show ?thesis using leader by (simp add: teamOk_def list_all_iff)
qed

section \<open>Deleting keeps a document valid\<close>

text \<open>The bounds of the schema on the counters and the clock that a deletion may move.\<close>

definition countersBelowMax :: "team_document \<Rightarrow> bool" where
  "countersBelowMax d =
     (documentRevision d < maxSafeInteger \<and> (\<forall>t \<in> set (teams d). teamRevision t < maxSafeInteger))"

definition afterDeleteAgent :: "int \<Rightarrow> string \<Rightarrow> team_document \<Rightarrow> team_document" where
  "afterDeleteAgent now k d =
     (let impacts = previewAgentProfileDelete d k
      in d\<lparr>documentRevision := documentRevision d + 1,
           agents := filter (\<lambda>b. profileId b \<noteq> k \<and>
             (case profileScope b of TeamScope t \<Rightarrow> t \<notin> set (map impactTeam (filter deletesTeam impacts)) | LibraryScope \<Rightarrow> True))
             (agents d),
           teams := concat (map (teamAfterDelete now impacts) (teams d))\<rparr>)"

lemma teamAfterDelete_id:
  "t' \<in> set (teamAfterDelete now impacts t) \<Longrightarrow> teamId t' = teamId t"
  by (auto simp: teamAfterDelete_def withoutMembers_def split: option.splits if_splits)

lemma teamAfterDelete_length: "length (teamAfterDelete now impacts t) \<le> 1"
  by (simp add: teamAfterDelete_def split: option.splits)

lemma concat_at_most_one:
  assumes "\<And>x. length (f x) \<le> 1"
  shows "length (concat (map f xs)) \<le> length xs"
  using assms by (induction xs) (auto intro: le_trans [OF add_le_mono] simp: add_le_mono [of _ 1, simplified])

lemma distinct_ids_after:
  assumes "distinct (map teamId ts)"
  shows "distinct (map teamId (concat (map (teamAfterDelete now impacts) ts)))"
  using assms
proof (induction ts)
  case (Cons t ts)
  have "length (teamAfterDelete now impacts t) \<le> 1" by (rule teamAfterDelete_length)
  then have "distinct (map teamId (teamAfterDelete now impacts t))"
    by (cases "teamAfterDelete now impacts t") auto
  moreover have "set (map teamId (teamAfterDelete now impacts t)) \<subseteq> {teamId t}"
    "set (map teamId (concat (map (teamAfterDelete now impacts) ts))) \<subseteq> set (map teamId ts)"
    by (auto dest: teamAfterDelete_id)
  then have "set (map teamId (teamAfterDelete now impacts t)) \<inter>
      set (map teamId (concat (map (teamAfterDelete now impacts) ts))) \<subseteq> {teamId t} \<inter> set (map teamId ts)"
    by (rule Int_mono)
  moreover have "{teamId t} \<inter> set (map teamId ts) = {}" using Cons.prems by simp
  ultimately show ?case
    using Cons unfolding list.map concat.simps map_append distinct_append distinct.simps by blast
qed simp

lemma deleted_team_gone:
  assumes "distinct (map teamId (teams d))" "t \<in> set (teams d)"
    "teamId t \<notin> set (map impactTeam (filter deletesTeam (previewAgentProfileDelete d k)))"
  shows "teamAfterDelete now (previewAgentProfileDelete d k) t \<noteq> []"
proof (cases rule: teamDeleteImpact_cases [of "agents d" k t])
  case 1
  then show ?thesis
    using assms by (simp add: teamAfterDelete_def previewAgentProfileDelete_def impact_entry)
next
  case (2 im)
  then have "im \<in> set (previewAgentProfileDelete d k)"
    using assms(2) by (force simp: previewAgentProfileDelete_def)
  then have "\<not> deletesTeam im" using assms(3) 2(5) 
    by (auto simp: image_iff)
  then show ?thesis
    using 2 assms by (simp add: teamAfterDelete_def previewAgentProfileDelete_def impact_entry)
qed

lemma notDeletedI:
  assumes "distinct (map teamId (teams d))" "t \<in> set (teams d)"
    "t' \<in> set (teamAfterDelete now (previewAgentProfileDelete d k) t)"
  shows "teamId t \<notin> set (map impactTeam (filter deletesTeam (previewAgentProfileDelete d k)))"
proof
  assume "teamId t \<in> set (map impactTeam (filter deletesTeam (previewAgentProfileDelete d k)))"
  then obtain im u where im: "deletesTeam im" "impactTeam im = teamId t" "u \<in> set (teams d)"
      "im \<in> set (teamDeleteImpact (agents d) k u)"
    by (auto simp: previewAgentProfileDelete_def)
  then have "u = t" using assms(1,2) by (metis distinct_map impactTeam_of inj_onD)
  with im show False
    using assms by (cases rule: teamDeleteImpact_cases [of "agents d" k t])
      (auto simp: teamAfterDelete_def previewAgentProfileDelete_def impact_entry)
qed

lemma boundElsewhere:
  assumes "teamOk nfkc as t" "m \<in> set (members t)" "\<not> referencesProfile k m"
    "findProfile as k = Some a" "profileScope a = LibraryScope"
  shows "boundProfile (memberBinding m) \<noteq> k"
  using assms by (cases "memberBinding m") (auto simp: teamOk_def list_all_iff bindingOk_def referencesProfile_def)

lemma teamSchema_withoutMembers:
  assumes "teamSchema t" "members t' = filter Q (members t)" "members t' \<noteq> []"
    "leaderMemberId t' \<in> memberId ` set (members t')" "t' = withoutMembers now im t"
    "teamRevision t < maxSafeInteger" "0 \<le> now"
  shows "teamSchema t'"
proof -
  have members: "list_all memberSchema (members t')" "atMost 32 (members t')" "members t' \<noteq> []"
    using assms atMost_filter by (auto simp: teamSchema_def list_all_iff)
  then have "idSchema (leaderMemberId t')"
    using assms(4) by (auto simp: list_all_iff memberSchema_def)
  with members show ?thesis
    using assms(1,5,6,7) by (simp add: teamSchema_def withoutMembers_def positiveRevision_def)
qed

theorem afterDeleteAgent_valid:
  assumes valid: "validDocument nfkc r d" and scope: "findProfile (agents d) k = Some a" "profileScope a = LibraryScope"
    and room: "countersBelowMax d" "0 \<le> now"
  shows "validDocument nfkc r (afterDeleteAgent now k d)"
proof -
  let ?kept = "\<lambda>b. profileId b \<noteq> k \<and> (case profileScope b of
      TeamScope t \<Rightarrow> t \<notin> set (map impactTeam (filter deletesTeam (previewAgentProfileDelete d k))) | LibraryScope \<Rightarrow> True)"
  let ?d = "afterDeleteAgent now k d"
  have ags: "agents ?d = filter ?kept (agents d)"
    and tms: "teams ?d = concat (map (teamAfterDelete now (previewAgentProfileDelete d k)) (teams d))"
    by (simp_all add: afterDeleteAgent_def Let_def)
  have ids: "distinct (map teamId (teams d))" and pids: "distinct (map profileId (agents d))"
    using valid by (auto simp: validDocument_def documentOk_def)
  have a: "a \<in> set (agents d)" "profileId a = k"
    using scope(1) by (auto simp: findProfile_def dest: find_SomeD)
  have team: "teamOk nfkc (agents ?d) t' \<and> teamSchema t' \<and> orchestrationPolicyId t' = orchestrationPolicyId t \<and>
      contextPolicyId t' = contextPolicyId t"
    if t: "t \<in> set (teams d)" and t': "t' \<in> set (teamAfterDelete now (previewAgentProfileDelete d k) t)" for t t'
  proof -
    have ok: "teamOk nfkc (agents d) t" "teamSchema t" "teamRevision t < maxSafeInteger"
      using valid t room by (auto simp: validDocument_def documentOk_def agentTeamDocumentSchema_def list_all_iff countersBelowMax_def)
    then have leader: "leaderMemberId t \<in> memberId ` set (members t)" by (simp add: teamOk_def)
    have notDeleted: "teamId t \<notin> set (map impactTeam (filter deletesTeam (previewAgentProfileDelete d k)))"
      by (rule notDeletedI [OF ids t t'])
    have kept: "?kept b"
      if "m \<in> set (members t)" "\<not> referencesProfile k m" "b \<in> set (agents d)" "profileId b = boundProfile (memberBinding m)"
         "profileScope b = LibraryScope \<or> profileScope b = TeamScope (teamId t)" for m b
      using boundElsewhere [OF ok(1) that(1,2) scope] that notDeleted by (auto split: profile_scope.split)
    show ?thesis
      using ids t leader t'
    proof (cases rule: teamAfterDelete_cases)
      case 1
      have "teamOk nfkc (agents ?d) t" unfolding ags
      proof (rule remaining_members_ok [OF ok(1), where Q = "\<lambda>_. True"])
        fix m b
        assume m: "m \<in> set (members t)" "b \<in> set (agents d)" "profileId b = boundProfile (memberBinding m)"
          "profileScope b = LibraryScope \<or> profileScope b = TeamScope (teamId t)"
        have "\<not> referencesProfile k m" using 1(2) m(1) by (simp add: filter_empty_conv)
        then show "?kept b" by (rule kept [OF m(1) _ m(2-4)])
      qed (simp_all add: leader)
      then show ?thesis using 1 ok(2) by simp
    next
      case (2 im)
      have sub: "members t' = filter (\<lambda>m. memberId m \<notin> set (map memberId (filter (referencesProfile k) (members t)))) (members t)"
        using 2(4) by (simp add: remainingMembers_def Let_def)
      have "teamOk nfkc (agents ?d) t'" unfolding ags
      proof (rule remaining_members_ok [OF ok(1) sub])
        fix m b
        assume m: "m \<in> set (members t')" "b \<in> set (agents d)" "profileId b = boundProfile (memberBinding m)"
          "profileScope b = LibraryScope \<or> profileScope b = TeamScope (teamId t)"
        have "m \<in> set (members t)" "\<not> referencesProfile k m" using remainingMembers_iff m(1) 2(4) by metis+
        then show "?kept b" by (rule kept [OF _ _ m(2-4)])
      qed (use 2 in \<open>simp_all add: withoutMembers_def\<close>)
      moreover have "teamSchema t'"
        using 2 ok room by (intro teamSchema_withoutMembers [OF ok(2) sub]) auto
      ultimately show ?thesis using 2(1) by (simp add: withoutMembers_def)
    qed
  qed
  have scopes: "scopeKnown (teams ?d) b" if b: "b \<in> set (agents ?d)" for b
  proof (cases "profileScope b")
    case (TeamScope t)
    have "b \<in> set (agents d)" using b unfolding ags by simp
    then obtain tm where tm: "tm \<in> set (teams d)" "teamId tm = t"
      using knownScopeE [OF valid _ TeamScope] by blast
    have "?kept b" using b unfolding ags by simp
    then have "teamId tm \<notin> set (map impactTeam (filter deletesTeam (previewAgentProfileDelete d k)))"
      using TeamScope tm(2) by simp
    then have "teamAfterDelete now (previewAgentProfileDelete d k) tm \<noteq> []"
      by (rule deleted_team_gone [OF ids tm(1)])
    then obtain t' where t': "t' \<in> set (teamAfterDelete now (previewAgentProfileDelete d k) tm)"
      by (meson list.set_sel(1))
    then have "t' \<in> set (teams ?d)" using tm(1) unfolding tms set_concat set_map by blast
    moreover have "teamId t' = t" using teamAfterDelete_id [OF t'] tm(2) by simp
    ultimately show ?thesis using TeamScope by (auto simp: scopeKnown_def)
  qed (simp add: scopeKnown_def)
  have "agentTeamDocumentSchema ?d"
    using valid room team atMost_filter atMost_shorter [OF _ concat_at_most_one [OF teamAfterDelete_length]]
    unfolding validDocument_def agentTeamDocumentSchema_def tms ags list_all_iff
    by (auto simp: afterDeleteAgent_def Let_def countersBelowMax_def)
  moreover have "documentOk nfkc r ?d"
    using valid team scopes distinct_ids_after [OF ids] distinct_libraryHandles_filter pids
    unfolding validDocument_def documentOk_def tms by (auto simp: ags distinct_map_filter)
  ultimately show ?thesis by (simp add: validDocument_def)
qed

end
