(* ===== verification/TeamStoreProperties.thy ===== *)
theory TeamStoreProperties
  imports TeamDeletion
begin

text \<open>
  Properties of the configuration store of the agent teams: deletions whose expectations are
  met pass validation, a history of queued calls keeps the document valid and counts its
  successes, copies are owned by a member of their team, and a profile that a team has copied
  can no longer be saved under its own handle.
\<close>

section \<open>Deletions\<close>

definition expectationsOf :: "team_document \<Rightarrow> string \<Rightarrow> int \<Rightarrow> delete_profile_input" where
  "expectationsOf d k revision =
     (let impacts = previewAgentProfileDelete d k
      in \<lparr>dpExpectedRevision = revision, dpExpectedTeamIds = Some (map impactTeam impacts),
          dpExpectedTeamRevisions = Some (map (\<lambda>im. (impactTeam im, impactRevision im)) impacts)\<rparr>)"

lemma deleteAgent_expected:
  assumes "findProfile (agents d) k = Some a" "profileSource a = None" "distinct (map teamId (teams d))"
  shows "deleteAgent now k (expectationsOf d k (profileRevision a)) d = Inr (afterDeleteAgent now k d, a)"
proof -
  let ?ims = "previewAgentProfileDelete d k"
  have "distinct (map fst (map (\<lambda>im. (impactTeam im, impactRevision im)) ?ims))"
    using impact_keys [OF assms(3), of "agents d" k] by (simp add: previewAgentProfileDelete_def comp_def)
  then have "map_of (map (\<lambda>im. (impactTeam im, impactRevision im)) ?ims) (impactTeam im) = Some (impactRevision im)"
    if "im \<in> set ?ims" for im
    using that by (intro map_of_is_SomeI) auto
  then show ?thesis
    using assms(1,2) by (simp add: deleteAgent_def expectationsOf_def afterDeleteAgent_def Let_def sameIds_def orElse_def list_all_iff)
qed

lemma afterDeleteAgent_unreferenced:
  assumes "validDocument nfkc r (afterDeleteAgent now k d)" "t \<in> set (teams (afterDeleteAgent now k d))" "m \<in> set (members t)"
  shows "boundProfile (memberBinding m) \<noteq> k"
proof -
  have "bindingOk t (agents (afterDeleteAgent now k d)) m"
    using assms by (auto simp: validDocument_def documentOk_def teamOk_def list_all_iff)
  then show ?thesis
    by (auto simp: bindingOk_def findProfile_def afterDeleteAgent_def Let_def dest!: find_SomeD)
qed

text \<open>
  Deleting an unmaintained library profile with the revisions that its preview showed
  always succeeds: the result is a valid document one revision later, in which the profile is
  gone, no member of any team is bound to it, every remaining team still has its leader among
  its members, and no other library profile is lost.
\<close>

theorem delete_agent_succeeds:
  assumes "validDocument (nfkcOf cfg) (policies cfg) d" "findProfile (agents d) k = Some a"
    and "profileScope a = LibraryScope" "profileSource a = None" "countersBelowMax d" "0 \<le> now"
  shows "\<exists>d'. mutate cfg True (deleteAgent now k (expectationsOf d k (profileRevision a))) d = (Inr a, d') \<and>
    validDocument (nfkcOf cfg) (policies cfg) d' \<and> documentRevision d' = documentRevision d + 1 \<and>
    findProfile (agents d') k = None \<and>
    (\<forall>t \<in> set (teams d'). leaderMemberId t \<in> memberId ` set (members t) \<and>
       (\<forall>m \<in> set (members t). boundProfile (memberBinding m) \<noteq> k)) \<and>
    listLibraryAgentProfiles d' = filter (\<lambda>b. profileId b \<noteq> k) (listLibraryAgentProfiles d)"
proof (intro exI conjI ballI)
  let ?d = "afterDeleteAgent now k d"
  have ids: "distinct (map teamId (teams d))"
    using assms(1) by (simp add: validDocument_def documentOk_def)
  show valid: "validDocument (nfkcOf cfg) (policies cfg) ?d"
    by (rule afterDeleteAgent_valid) (fact assms)+
  then show "mutate cfg True (deleteAgent now k (expectationsOf d k (profileRevision a))) d = (Inr a, ?d)"
    using deleteAgent_expected [OF assms(2,4) ids, of now]
    by (simp add: mutate_def persist_def parse_iff split: sum.splits) (metis Inr_inject parse_iff sum.distinct(1))
  show "documentRevision ?d = documentRevision d + 1" by (simp add: afterDeleteAgent_def Let_def)
  show "findProfile (agents ?d) k = None"
    by (auto simp: findProfile_def find_None_iff afterDeleteAgent_def Let_def)
  show "leaderMemberId t \<in> memberId ` set (members t)" if "t \<in> set (teams ?d)" for t
    using valid that by (simp add: validDocument_def documentOk_def teamOk_def)
  show "boundProfile (memberBinding m) \<noteq> k" if "t \<in> set (teams ?d)" "m \<in> set (members t)" for t m
    using valid that by (rule afterDeleteAgent_unreferenced)
  show "listLibraryAgentProfiles ?d = filter (\<lambda>b. profileId b \<noteq> k) (listLibraryAgentProfiles d)"
    by (auto simp: listLibraryAgentProfiles_def afterDeleteAgent_def Let_def intro!: filter_cong)
qed

lemma deleteTeam_valid:
  assumes valid: "validDocument nfkc r d" and del: "deleteTeam k v d = Inr (d', t)" and room: "countersBelowMax d"
  shows "validDocument nfkc r d'"
proof -
  have d': "agents d' = filter (\<lambda>a. profileScope a \<noteq> TeamScope k) (agents d)"
    "teams d' = filter (\<lambda>c. teamId c \<noteq> k) (teams d)" "documentRevision d' = documentRevision d + 1"
    using del by (auto simp: deleteTeam_def split: option.splits if_splits)
  have "teamOk nfkc (agents d') u" if "u \<in> set (teams d')" for u
    unfolding d'(1)
  proof (rule remaining_members_ok [where t = u and Q = "\<lambda>_. True"])
    show "teamOk nfkc (agents d) u" "leaderMemberId u \<in> memberId ` set (members u)"
      using valid that d'(2) by (auto simp: validDocument_def documentOk_def teamOk_def)
  qed (use that d'(2) in auto)
  moreover have "scopeKnown (teams d') a" if "a \<in> set (agents d')" for a
  proof (cases "profileScope a")
    case (TeamScope u)
    have "a \<in> set (agents d)" "u \<noteq> k" using that d'(1) TeamScope by auto
    then obtain tm where "tm \<in> set (teams d)" "teamId tm = u"
      using knownScopeE [OF valid _ TeamScope] by blast
    then show ?thesis using TeamScope \<open>u \<noteq> k\<close> by (auto simp: scopeKnown_def d'(2))
  qed (simp add: scopeKnown_def)
  ultimately have "documentOk nfkc r d'"
    using valid d' by (auto simp: validDocument_def documentOk_def distinct_map_filter distinct_libraryHandles_filter)
  moreover have "agentTeamDocumentSchema d'"
    using valid room d'
    by (auto simp: validDocument_def agentTeamDocumentSchema_def list_all_iff countersBelowMax_def atMost_filter)
  ultimately show ?thesis by (simp add: validDocument_def)
qed

section \<open>Copies are owned\<close>

text \<open>Every profile of a team's scope is the copy of one of the team's members.\<close>

definition copyOwned :: "team list \<Rightarrow> profile \<Rightarrow> bool" where
  "copyOwned ts a =
     (case profileScope a of
        LibraryScope \<Rightarrow> True
      | TeamScope k \<Rightarrow>
          list_ex (\<lambda>t. teamId t = k \<and> list_ex (\<lambda>m. memberBinding m = Copy (profileId a)) (members t)) ts)"




lemma copyOwned_library [simp]: "profileScope a = LibraryScope \<Longrightarrow> copyOwned ts a"
  by (simp add: copyOwned_def)









lemma createMembers_copies:
  assumes "createMembers cfg gen now tid n as ins = Inr (as', ms)"
  shows "\<exists>new. as' = as @ new \<and>
    (\<forall>c \<in> set new. profileScope c = TeamScope tid \<and> (\<exists>m \<in> fst ` set ms. memberBinding m = Copy (profileId c)))"
  using assms
proof (induction ins arbitrary: n as as' ms)
  case (Cons i ins)
  obtain source where source: "findProfile as (cmProfile i) = Some source"
    using Cons.prems by (cases "findProfile as (cmProfile i)") auto
  show ?case
  proof (cases "cmKind i")
    case CopyKind
    let ?copy = "createTeamCopy source (gen n) tid now"
    obtain ms' where rest: "createMembers cfg gen now tid (n + 2) (as @ [?copy]) ins = Inr (as', ms')"
        "ms = (newMember (gen (n + 1)) (normalizeMentionHandle (nfkcOf cfg) (cmHandle i)) (Copy (profileId ?copy)) (cmAssignment i), cmLeader i) # ms'"
      using Cons.prems source CopyKind
      by (cases "createMembers cfg gen now tid (n + 2) (as @ [?copy]) ins") (auto simp: Let_def)
    from Cons.IH [OF rest(1)] show ?thesis
      by (auto simp: rest(2) createTeamCopy_def newMember_def)
  next
    case ReferenceKind
    then obtain ms' where rest: "createMembers cfg gen now tid (n + 1) as ins = Inr (as', ms')"
        "ms = (newMember (gen n) (normalizeMentionHandle (nfkcOf cfg) (cmHandle i)) (Reference (profileId source)) (cmAssignment i), cmLeader i) # ms'"
      using Cons.prems source
      by (cases "createMembers cfg gen now tid (n + 1) as ins") (auto simp: Let_def)
    from Cons.IH [OF rest(1)] show ?thesis by (auto simp: rest(2))
  qed
qed simp

lemma createTeam_document:
  assumes "createTeam cfg gen now i d = Inr (d', t)"
  obtains as ms where "createMembers cfg gen now (gen 0) 1 (agents d) (ctMembers i) = Inr (as, ms)"
    "agents d' = as" "teams d' = teams d @ [t]" "teamId t = gen 0" "members t = map fst ms"
    "documentRevision d' = documentRevision d + 1"
  using assms that by (auto simp: createTeam_def Let_def split: if_splits sum.splits prod.splits list.splits)










section \<open>Histories of calls\<close>



lemma mutate_cases:
  obtains e where "mutate cfg w f d = (Inl e, d)"
  | d' x where "mutate cfg w f d = (Inr x, d')" "f d = Inr (d', x)" "validDocument (nfkcOf cfg) (policies cfg) d'"
proof (cases "mutate cfg w f d")
  case (Pair res d')
  show thesis
  proof (cases res)
    case (Inl e)
    then have "d' = d" using Pair by (auto simp: mutate_def split: sum.splits prod.splits)
    then show ?thesis using Pair Inl that(1) by blast
  next
    case (Inr x)
    then obtain d2 where d2: "f d = Inr (d2, x)" "persist cfg w d2 = Inr d'"
      using Pair by (auto simp: mutate_def split: sum.splits prod.splits)
    then have "parseAgentTeamDocument (nfkcOf cfg) (policies cfg) d2 = Inr d'"
      by (auto simp: persist_def split: sum.splits if_splits)
    then show ?thesis using d2(1) Pair Inr that(2) by (auto simp: parse_iff)
  qed
qed



section \<open>A copied profile\<close>

lemma createMembers_copy:
  assumes "createMembers cfg gen now tid n as ins = Inr (as', ms)" "x \<in> set ins" "cmKind x = CopyKind"
    and "findProfile as (cmProfile x) = Some a"
  shows "\<exists>c \<in> set (drop (length as) as'). profileScope c = TeamScope tid \<and> copiedFrom c = Some (profileId a) \<and>
    mentionHandle c = mentionHandle a \<and> profileSource c = profileSource a"
  using assms
proof (induction ins arbitrary: n as as' ms)
  case (Cons i ins)
  obtain source where source: "findProfile as (cmProfile i) = Some source"
    using Cons.prems by (cases "findProfile as (cmProfile i)") auto
  define extra where "extra = (case cmKind i of CopyKind \<Rightarrow> [createTeamCopy source (gen n) tid now] | ReferenceKind \<Rightarrow> [])"
  obtain n' ms' where rest: "createMembers cfg gen now tid n' (as @ extra) ins = Inr (as', ms')"
    using Cons.prems(1) source unfolding extra_def
    by (cases "cmKind i"; cases "createMembers cfg gen now tid (n + 1) as ins";
        cases "createMembers cfg gen now tid (n + 2) (as @ [createTeamCopy source (gen n) tid now]) ins")
       (auto simp: Let_def)
  obtain new where new: "as' = (as @ extra) @ new" using createMembers_copies [OF rest] by blast
  show ?case
  proof (cases "x = i")
    case True
    then show ?thesis using Cons.prems source new by (simp add: extra_def createTeamCopy_def)
  next
    case False
    have "findProfile (as @ extra) (cmProfile x) = Some a"
      using Cons.prems(4) by (simp add: findProfile_def find_append)
    with Cons.IH [OF rest] Cons.prems(2,3) False show ?thesis unfolding new by auto
  qed
qed simp

lemma updateAgent_blocked:
  assumes "distinct (map profileId (agents d))" "a \<in> set (agents d)" "b \<in> set (agents d)" "profileId b \<noteq> profileId a"
    and "mentionHandle b = h" "h \<noteq> []" "profileSource a = None" "upExpectedRevision u = profileRevision a"
    and "normalizeMentionHandle (nfkcOf cfg) (upMentionHandle u) = h"
  shows "updateAgent cfg now (profileId a) u d = Inl (MentionHandleExists h)"
proof -
  obtain n where n: "findIndex (\<lambda>x. profileId x = profileId a) (agents d) = Some n"
    using assms(2) findIndex_None [of "\<lambda>x. profileId x = profileId a" "agents d"] by (cases "findIndex (\<lambda>x. profileId x = profileId a) (agents d)") auto
  then have "agents d ! n = a"
    using findIndex_Some [OF n] assms(1,2) by (metis distinct_map inj_onD nth_mem)
  moreover have "list_ex (\<lambda>x. Some (profileId x) \<noteq> Some (profileId a) \<and> mentionHandle x = h) (agents d)"
    using assms(3,4,5) by (auto simp: list_ex_iff)
  ultimately show ?thesis
    using n assms(6-9) by (simp add: updateAgent_def ensureUniqueHandle_def Let_def)
qed

text \<open>
  Once a team has been created with a copy of a profile, neither the profile nor the copy
  can be saved under the handle they carry: whatever else the update changes, it fails
  because the other one has the same handle.
\<close>

theorem copied_profile_blocks_update:
  assumes "mutate cfg w (createTeam cfg gen now i) d = (Inr t, d')"
    and "x \<in> set (ctMembers i)" "cmKind x = CopyKind" "findProfile (agents d) (cmProfile x) = Some a"
    and "profileSource a = None" "normalizeMentionHandle (nfkcOf cfg) (upMentionHandle u) = mentionHandle a"
  shows "updateAgent cfg later (profileId a) (u\<lparr>upExpectedRevision := profileRevision a\<rparr>) d' =
      Inl (MentionHandleExists (mentionHandle a)) \<and>
    (\<exists>c \<in> set (agents d'). profileScope c = TeamScope (teamId t) \<and> copiedFrom c = Some (profileId a) \<and>
       updateAgent cfg later (profileId c) (u\<lparr>upExpectedRevision := profileRevision c\<rparr>) d' =
         Inl (MentionHandleExists (mentionHandle a)))"
proof -
  have created: "createTeam cfg gen now i d = Inr (d', t)" "validDocument (nfkcOf cfg) (policies cfg) d'"
    using assms(1) by (cases rule: mutate_cases [of cfg w "createTeam cfg gen now i" d]; simp)+
  from created(1) obtain as ms where ms: "createMembers cfg gen now (gen 0) 1 (agents d) (ctMembers i) = Inr (as, ms)"
      "agents d' = as" "teamId t = gen 0"
    by (rule createTeam_document)
  obtain new where new: "as = agents d @ new" using createMembers_copies [OF ms(1)] by blast
  have a: "a \<in> set (agents d)" using assms(4) by (auto simp: findProfile_def dest: find_SomeD)
  obtain c where c: "c \<in> set new" "profileScope c = TeamScope (teamId t)" "copiedFrom c = Some (profileId a)"
      "mentionHandle c = mentionHandle a" "profileSource c = None"
    using createMembers_copy [OF ms(1) assms(2-4)] assms(5) ms(3) unfolding new by auto
  have ids: "distinct (map profileId (agents d'))"
    using created(2) by (simp add: validDocument_def documentOk_def)
  then have "profileId c \<noteq> profileId a" using a c(1) unfolding ms(2) new by auto
  moreover have "mentionHandle a \<noteq> []"
    using created(2) a ms(2) new by (auto simp: validDocument_def agentTeamDocumentSchema_def list_all_iff profileSchema_def idSchema_def idPattern_def)
  moreover have "a \<in> set (agents d')" "c \<in> set (agents d')" using a c(1) ms(2) new by auto
  ultimately have
    "updateAgent cfg later (profileId a) (u\<lparr>upExpectedRevision := profileRevision a\<rparr>) d' = Inl (MentionHandleExists (mentionHandle a))"
    "updateAgent cfg later (profileId c) (u\<lparr>upExpectedRevision := profileRevision c\<rparr>) d' = Inl (MentionHandleExists (mentionHandle a))"
    using updateAgent_blocked [OF ids, of a c "mentionHandle a" "u\<lparr>upExpectedRevision := profileRevision a\<rparr>"]
      updateAgent_blocked [OF ids, of c a "mentionHandle a" "u\<lparr>upExpectedRevision := profileRevision c\<rparr>"] c assms(5,6)
    by simp_all
  then show ?thesis using c \<open>c \<in> set (agents d')\<close> by blast
qed

section \<open>A sample store\<close>

definition sampleAbilities :: abilities where
  "sampleAbilities = \<lparr>selectionMode = None, skills = [''review''], mcpServers = [], plugins = [], extensionAbilities = None\<rparr>"

definition sampleStoreConfig :: store_config where
  "sampleStoreConfig = \<lparr>nfkcOf = (\<lambda>s. s), policies = defaultRegistry,
     blueprintOf = (\<lambda>b. if b = ''general'' then Some sampleAbilities else None)\<rparr>"

definition sampleIds :: "char \<Rightarrow> nat \<Rightarrow> string" where
  "sampleIds c n = [c, CHR ''-''] @ digitsOf n"

definition sampleProfileInput :: "string \<Rightarrow> create_profile_input" where
  "sampleProfileInput h = \<lparr>cpName = '' Ada '', cpDescription = None, cpAvatar = None, cpMentionHandle = CHR ''@'' # h,
     cpBlueprintId = ''general'', cpAbilities = None\<rparr>"

definition sampleMemberInput :: create_member_input where
  "sampleMemberInput = \<lparr>cmProfile = ''b-0'', cmHandle = ''Second'', cmKind = CopyKind, cmLeader = False, cmAssignment = None\<rparr>"

definition sampleTeamInput :: create_team_input where
  "sampleTeamInput = \<lparr>ctMaxRetries = Some 3, ctName = ''Crew'', ctDescription = None,
     ctMembers = [\<lparr>cmProfile = ''a-0'', cmHandle = ''First'', cmKind = ReferenceKind, cmLeader = True, cmAssignment = None\<rparr>,
       sampleMemberInput],
     ctOrchestration = None, ctContext = None\<rparr>"

definition emptyTeamDocument :: team_document where
  "emptyTeamDocument = \<lparr>documentRevision = 0, agents = [], teams = []\<rparr>"

definition sampleCalls :: "(team_call \<times> bool) list" where
  "sampleCalls =
     [(CreateAgent (sampleIds CHR ''a'') 10 (sampleProfileInput ''lead''), True),
      (CreateAgent (sampleIds CHR ''x'') 10 (sampleProfileInput ''lead''), True),
      (CreateAgent (sampleIds CHR ''b'') 11 (sampleProfileInput ''helper''), True)]"

definition sampleProfiles :: team_document where
  "sampleProfiles = snd (runCalls sampleStoreConfig sampleCalls emptyTeamDocument)"

definition sampleTeamDocument :: team_document where
  "sampleTeamDocument = snd (mutate sampleStoreConfig True (createTeam sampleStoreConfig (sampleIds CHR ''t'') 12 sampleTeamInput) sampleProfiles)"

definition sampleUpdate :: update_profile_input where
  "sampleUpdate = \<lparr>upExpectedRevision = 1, upName = ''Ada L.'', upDescription = [], upAvatar = None, upMentionHandle = ''Helper'',
     upSystemPrompt = None, upAbilities = sampleAbilities\<rparr>"

text \<open>The team of the sample keeps its copy as the only member and the new leader.\<close>

theorem delete_agent_succeeds_witness:
  "case findProfile (agents sampleTeamDocument) ''a-0'' of
     None \<Rightarrow> False
   | Some a \<Rightarrow> \<exists>d'. mutate sampleStoreConfig True
       (deleteAgent 20 ''a-0'' (expectationsOf sampleTeamDocument ''a-0'' (profileRevision a))) sampleTeamDocument = (Inr a, d') \<and>
       documentRevision d' = 4"
proof -
  obtain a where a: "findProfile (agents sampleTeamDocument) ''a-0'' = Some a" "profileScope a = LibraryScope" "profileSource a = None"
  proof -
    have "case findProfile (agents sampleTeamDocument) ''a-0'' of None \<Rightarrow> False
        | Some a \<Rightarrow> profileScope a = LibraryScope \<and> profileSource a = None" by code_simp
    then show thesis using that by (auto split: option.splits)
  qed
  have valid: "validDocument (nfkcOf sampleStoreConfig) (policies sampleStoreConfig) sampleTeamDocument" by code_simp
  have room: "countersBelowMax sampleTeamDocument" by code_simp
  have "documentRevision sampleTeamDocument = 3" by code_simp
  with delete_agent_succeeds [OF valid a(1,2,3) room, of 20] a(1) show ?thesis by auto
qed


theorem copied_profile_blocks_update_witness:
  "updateAgent sampleStoreConfig 30 ''b-0'' sampleUpdate sampleTeamDocument = Inl (MentionHandleExists ''helper'')"
proof -
  obtain t where t: "mutate sampleStoreConfig True (createTeam sampleStoreConfig (sampleIds CHR ''t'') 12 sampleTeamInput) sampleProfiles =
      (Inr t, sampleTeamDocument)"
  proof -
    have "case fst (mutate sampleStoreConfig True (createTeam sampleStoreConfig (sampleIds CHR ''t'') 12 sampleTeamInput) sampleProfiles) of
        Inr t \<Rightarrow> True | Inl e \<Rightarrow> False" by code_simp
    then show thesis using that unfolding sampleTeamDocument_def
      by (cases "mutate sampleStoreConfig True (createTeam sampleStoreConfig (sampleIds CHR ''t'') 12 sampleTeamInput) sampleProfiles")
         (auto split: sum.splits)
  qed
  obtain a where a: "findProfile (agents sampleProfiles) (cmProfile sampleMemberInput) = Some a" "profileId a = ''b-0''"
      "mentionHandle a = ''helper''" "profileSource a = None" "profileRevision a = 1"
  proof -
    have "case findProfile (agents sampleProfiles) (cmProfile sampleMemberInput) of None \<Rightarrow> False
        | Some a \<Rightarrow> profileId a = ''b-0'' \<and> mentionHandle a = ''helper'' \<and> profileSource a = None \<and> profileRevision a = 1" by code_simp
    then show thesis using that by (auto split: option.splits)
  qed
  have "sampleMemberInput \<in> set (ctMembers sampleTeamInput)" "cmKind sampleMemberInput = CopyKind"
    by (simp_all add: sampleTeamInput_def sampleMemberInput_def)
  moreover have "normalizeMentionHandle (nfkcOf sampleStoreConfig) (upMentionHandle sampleUpdate) = mentionHandle a"
    unfolding a(3) by code_simp
  moreover have "sampleUpdate\<lparr>upExpectedRevision := 1\<rparr> = sampleUpdate" by (simp add: sampleUpdate_def)
  ultimately show ?thesis
    using copied_profile_blocks_update [OF t _ _ a(1,4), of sampleUpdate 30] a(2,3,5) by simp
qed

end
