(* ===== verification/TeamCollaboration.thy ===== *)
theory TeamCollaboration
  imports TeamDomain
begin

text \<open>
  Work between team members, from \<open>packages/agent-team/src\<close>: the records, transition tables,
  issue classification and validators of \<open>collaboration.ts\<close>, the retry budget of
  \<open>task-recovery.ts\<close> and the action rule of \<open>task-control.ts\<close>.

  The two transition functions (work items and message deliveries) share a contract, the
  locale \<open>lifecycle\<close>: a step follows the table, and evidence of the outcome appears exactly
  with the final state.
\<close>

section \<open>Issues and failures\<close>

datatype issue_category =
    Network | RateLimit | ProviderUnavailable | InsufficientCredit | Authentication
  | HostInterrupted | ContextOverflow | InvalidRequest | PolicyRejected | UnknownIssue

datatype retry_class = Automatic | Manual | AfterExternalChange | Never

record execution_issue =
  issueCategory :: issue_category
  retryability :: retry_class
  issueCode :: string
  issueProvider :: "string option"
  issueModel :: "string option"
  retryAfter :: "jsnum option"

datatype failure_origin = FromRuntime | FromProvider | FromTool | FromExtension

record failure_details =
  detailProvider :: "string option"
  detailModel :: "string option"
  detailProviderCode :: "string option"
  detailRetryAfter :: "jsnum option"

record runtime_failure =
  failureCode :: string
  failureRetryable :: bool
  failureOrigin :: failure_origin
  failureDetails :: "failure_details option"

text \<open>The regular expressions of the classification: literals, and literals with one optional
  character between them (\<open>.\<close> does not match a line break).\<close>

fun tails :: "string \<Rightarrow> string list" where
  "tails [] = [[]]"
| "tails (c # cs) = (c # cs) # tails cs"

definition occurs :: "string \<Rightarrow> string \<Rightarrow> bool" where
  "occurs p s = list_ex (startsWith p) (tails s)"

definition occursGap :: "string \<Rightarrow> string \<Rightarrow> string \<Rightarrow> bool" where
  "occursGap p q s =
     list_ex (\<lambda>t. startsWith p t \<and>
       (startsWith q (drop (length p) t) \<or>
        (case drop (length p) t of c # r \<Rightarrow> (of_char c :: int) \<notin> {10, 13} \<and> startsWith q r | [] \<Rightarrow> False)))
       (tails s)"

definition orEmpty :: "string option \<Rightarrow> string" where
  "orEmpty s = (case s of Some v \<Rightarrow> v | None \<Rightarrow> [])"

definition nonEmpty :: "string option \<Rightarrow> string option" where
  "nonEmpty s = (if truthy s then s else None)"

definition classifyTeamExecutionIssue :: "runtime_failure \<Rightarrow> execution_issue" where
  "classifyTeamExecutionIssue f =
     (let details = failureDetails f;
          code = map lowerChar (failureCode f @ '' '' @ orEmpty (Option.bind details detailProviderCode));
          after = Option.bind details detailRetryAfter;
          issue = (\<lambda>category retry ra. \<lparr>issueCategory = category, retryability = retry, issueCode = failureCode f,
            issueProvider = nonEmpty (Option.bind details detailProvider),
            issueModel = nonEmpty (Option.bind details detailModel), retryAfter = ra\<rparr>)
      in if occurs ''credit'' code \<or> occurs ''billing'' code \<or> occurs ''balance'' code \<or> occurs ''quota_exhausted'' code
         then issue InsufficientCredit AfterExternalChange after
         else if occurs ''auth'' code \<or> occurs ''unauthorized'' code \<or> occurs ''forbidden'' code \<or> occursGap ''api'' ''key'' code
         then issue Authentication AfterExternalChange None
         else if occurs ''rate'' code \<or> occurs ''429'' code \<or> occurs ''too_many_requests'' code
         then issue RateLimit Automatic after
         else if occurs ''network'' code \<or> occurs ''timeout'' code \<or> occursGap ''timed'' ''out'' code \<or>
                 occurs ''connection'' code \<or> occurs ''econn'' code
         then issue Network Automatic after
         else if occurs ''context'' code \<or> occursGap ''token'' ''limit'' code \<or> occurs ''length'' code
         then issue ContextOverflow Manual None
         else if occurs ''invalid'' code \<or> occursGap ''bad'' ''request'' code \<or> occurs ''400'' code
         then issue InvalidRequest Never None
         else issue (if failureOrigin f = FromProvider then ProviderUnavailable else UnknownIssue)
                (if failureRetryable f then Automatic else Never) after)"

record condition_change =
  changeCategory :: issue_category
  changeProvider :: "string option"
  changeModel :: "string option"

text \<open>\<open>a && b && a !== b\<close> on optional strings.\<close>

definition differs :: "string option \<Rightarrow> string option \<Rightarrow> bool" where
  "differs a b = (truthy a \<and> truthy b \<and> a \<noteq> b)"

definition matchesTeamExternalConditionChange :: "execution_issue option \<Rightarrow> condition_change \<Rightarrow> bool" where
  "matchesTeamExternalConditionChange issue change =
     (case issue of
        None \<Rightarrow> False
      | Some i \<Rightarrow>
          (if retryability i \<noteq> AfterExternalChange \<or> issueCategory i \<noteq> changeCategory change then False
           else if differs (changeProvider change) (issueProvider i) then False
           else if differs (changeModel change) (issueModel i) then False
           else True))"

section \<open>Attempts\<close>

datatype attempt_state =
    Scheduled | AttemptRunning | WaitingRetry | Interrupted | AwaitingResource
  | AttemptCompleted | AttemptCancelled | NonRetryableFailure

definition classifyTeamAttemptTerminal ::
    "bool \<Rightarrow> bool \<Rightarrow> execution_issue option \<Rightarrow> attempt_state \<times> execution_issue option" where
  "classifyTeamAttemptTerminal hasPublishableMessage cancelled issue =
     (if cancelled then (AttemptCancelled, None)
      else if hasPublishableMessage then (AttemptCompleted, None)
      else case issue of
             None \<Rightarrow> (Interrupted, None)
           | Some i \<Rightarrow>
               (if retryability i = Automatic then (WaitingRetry, Some i)
                else if retryability i = Manual \<or> retryability i = AfterExternalChange then (AwaitingResource, Some i)
                else (NonRetryableFailure, Some i)))"

section \<open>Work items\<close>

datatype work_state = Queued | Running | Waiting | AttentionRequired | Completed | Failed | Cancelled

datatype work_kind = Task | Question

record task_recovery =
  maxRetries :: int
  usedRetries :: int

record work_item =
  workRecovery :: "task_recovery option"
  notificationIds :: "string list option"
  workId :: string
  requestTurnId :: string
  originToolCallId :: "string option"
  createdByParticipantId :: string
  assignedToParticipantId :: string
  objective :: string
  workKind :: "work_kind option"
  contextEntryIds :: "string list"
  artifactRefs :: "json list option"
  workState :: work_state
  resultMessageId :: "string option"
  currentAttemptId :: "string option"
  lastIssue :: "execution_issue option"
  workCreatedAt :: jsnum
  workUpdatedAt :: jsnum
  workRevision :: int

record work_input =
  wantedState :: work_state
  wantedAt :: jsnum
  wantedResult :: "string option"
  wantedAttempt :: "string option"
  wantedIssue :: "execution_issue option"

datatype flow_error = InvalidTransition | ResultRequired | ResultForbidden | ReplyMismatch

fun workItemTransitions :: "work_state \<Rightarrow> work_state list" where
  "workItemTransitions Queued = [Running, Waiting, AttentionRequired, Cancelled, Failed]"
| "workItemTransitions Running = [Waiting, AttentionRequired, Completed, Cancelled, Failed]"
| "workItemTransitions Waiting = [Queued, Running, AttentionRequired, Completed, Cancelled, Failed]"
| "workItemTransitions AttentionRequired = [Queued, Waiting, Completed, Cancelled, Failed]"
| "workItemTransitions Completed = []"
| "workItemTransitions Failed = []"
| "workItemTransitions Cancelled = []"

definition advancedWorkItem :: "work_item \<Rightarrow> work_input \<Rightarrow> work_item" where
  "advancedWorkItem item i =
     item\<lparr>workState := wantedState i, workUpdatedAt := wantedAt i, workRevision := workRevision item + 1,
       resultMessageId := (if truthy (wantedResult i) then wantedResult i else resultMessageId item),
       currentAttemptId := (if truthy (wantedAttempt i) then wantedAttempt i else currentAttemptId item),
       lastIssue := (case wantedIssue i of Some x \<Rightarrow> Some x | None \<Rightarrow> lastIssue item)\<rparr>"

definition transitionTeamWorkItem :: "work_item \<Rightarrow> work_input \<Rightarrow> flow_error + work_item" where
  "transitionTeamWorkItem item i =
     (if wantedState i \<notin> set (workItemTransitions (workState item)) then Inl InvalidTransition
      else if wantedState i = Completed \<and> \<not> truthy (wantedResult i) then Inl ResultRequired
      else if wantedState i \<noteq> Completed \<and> truthy (wantedResult i) then Inl ResultForbidden
      else Inr (advancedWorkItem item i))"

section \<open>Message deliveries\<close>

datatype delivery_state = Pending | Delivered | DeliveryWaiting | Responded | DeliveryFailed | DeliveryCancelled

datatype message_intent = Inform | Ask

record delivery =
  deliveryId :: string
  deliveryMessageId :: string
  fromParticipantId :: string
  toParticipantId :: string
  deliveryIntent :: message_intent
  deliveryState :: delivery_state
  replyMessageId :: "string option"
  deliveryWorkItem :: "string option"
  deliverySourceTurn :: "string option"
  deliveryToolCall :: "string option"
  deliveryCreatedAt :: jsnum
  deliveryUpdatedAt :: jsnum

record delivery_input =
  nextDelivery :: delivery_state
  nextDeliveryAt :: jsnum
  nextReply :: "string option"

fun deliveryTransitions :: "delivery_state \<Rightarrow> delivery_state list" where
  "deliveryTransitions Pending = [Delivered, DeliveryWaiting, DeliveryFailed, DeliveryCancelled]"
| "deliveryTransitions Delivered = []"
| "deliveryTransitions DeliveryWaiting = [Responded, DeliveryFailed, DeliveryCancelled]"
| "deliveryTransitions Responded = []"
| "deliveryTransitions DeliveryFailed = []"
| "deliveryTransitions DeliveryCancelled = []"

definition transitionTeamMessageDelivery :: "delivery \<Rightarrow> delivery_input \<Rightarrow> flow_error + delivery" where
  "transitionTeamMessageDelivery d i =
     (if nextDelivery i \<notin> set (deliveryTransitions (deliveryState d)) then Inl InvalidTransition
      else if (nextDelivery i = Responded) \<noteq> truthy (nextReply i) then Inl ReplyMismatch
      else Inr (d\<lparr>deliveryState := nextDelivery i, deliveryUpdatedAt := nextDeliveryAt i,
          replyMessageId := (if truthy (nextReply i) then nextReply i else replyMessageId d)\<rparr>))"

section \<open>The contract of a lifecycle\<close>

text \<open>Requests made one after the other; a rejected one leaves the item as it is.\<close>

fun applyAll :: "('x \<Rightarrow> 'i \<Rightarrow> 'e + 'x) \<Rightarrow> 'x \<Rightarrow> 'i list \<Rightarrow> 'x" where
  "applyAll step x [] = x"
| "applyAll step x (i # ins) = applyAll step (case step x i of Inl e \<Rightarrow> x | Inr y \<Rightarrow> y) ins"

definition follows :: "('s \<Rightarrow> 's list) \<Rightarrow> ('s \<times> 's) set" where
  "follows table = {(a, b). b \<in> set (table a)}"

locale lifecycle =
  fixes stateOf :: "'x \<Rightarrow> 's"
    and wanted :: "'i \<Rightarrow> 's"
    and table :: "'s \<Rightarrow> 's list"
    and step :: "'x \<Rightarrow> 'i \<Rightarrow> 'e + 'x"
    and evidence :: "'x \<Rightarrow> bool"
    and final :: 's
  assumes step_state: "step x i = Inr y \<Longrightarrow> wanted i \<in> set (table (stateOf x)) \<and> stateOf y = wanted i"
    and step_evidence: "step x i = Inr y \<Longrightarrow> evidence y \<longleftrightarrow> evidence x \<or> wanted i = final"
    and final_stuck: "table final = []"
begin

lemma settled: "table (stateOf x) = [] \<Longrightarrow> applyAll step x ins = x"
proof (induction ins)
  case (Cons i ins)
  then show ?case using step_state [of x i] by (auto split: sum.splits)
qed simp

lemma reaches: "(stateOf x, stateOf (applyAll step x ins)) \<in> (follows table)\<^sup>*"
proof (induction ins arbitrary: x)
  case (Cons i ins)
  show ?case
  proof (cases "step x i")
    case (Inl e)
    then show ?thesis using Cons by simp
  next
    case (Inr y)
    then have "(stateOf x, stateOf y) \<in> follows table" using step_state by (simp add: follows_def)
    with Cons [of y] Inr show ?thesis by (simp add: converse_rtrancl_into_rtrancl)
  qed
qed simp

lemma coherent: "evidence x = (stateOf x = final) \<Longrightarrow>
  evidence (applyAll step x ins) = (stateOf (applyAll step x ins) = final)"
proof (induction ins arbitrary: x)
  case (Cons i ins)
  show ?case
  proof (cases "step x i")
    case (Inr y)
    then have "stateOf x \<noteq> final" using step_state [OF Inr] final_stuck by auto
    then have "evidence y = (stateOf y = final)"
      using step_state [OF Inr] step_evidence [OF Inr] Cons.prems by simp
    then show ?thesis using Cons.IH Inr by simp
  qed (use Cons in simp)
qed simp

end

interpretation work: lifecycle workState wantedState workItemTransitions transitionTeamWorkItem
    "\<lambda>w. truthy (resultMessageId w)" Completed
  by unfold_locales (auto simp: transitionTeamWorkItem_def advancedWorkItem_def split: if_splits)

interpretation reply: lifecycle deliveryState nextDelivery deliveryTransitions transitionTeamMessageDelivery
    "\<lambda>d. truthy (replyMessageId d)" Responded
  by unfold_locales (auto simp: transitionTeamMessageDelivery_def split: if_splits)

end
