(* ===== verification/TeamRecords.thy ===== *)
theory TeamRecords
  imports TeamCollaboration
begin

text \<open>
  The runtime validators of \<open>collaboration.ts\<close> and \<open>task-recovery.ts\<close>, which decide whether a
  value read back from a Conversation is one of the team records, the roster snapshot, the tool
  filter, the retry budget and the action rule; then the properties of work items, deliveries
  and failure classification.
\<close>

section \<open>Recovery budget and permitted actions\<close>

definition isTeamRetryLimit :: "jsval \<Rightarrow> bool" where
  "isTeamRetryLimit v = (case v of Some (JNum n) \<Rightarrow> isInteger n \<and> num_ge n 0 \<and> num_le n 10 | _ \<Rightarrow> False)"

text \<open>\<open>typeof value === "object" && value !== null\<close> also admits arrays, which have neither property.\<close>

definition isTeamTaskRecovery :: "json \<Rightarrow> bool" where
  "isTeamTaskRecovery v =
     ((case v of JObj kvs \<Rightarrow> True | JArr vs \<Rightarrow> True | _ \<Rightarrow> False) \<and> isTeamRetryLimit (field v ''maxAutomaticRetries'') \<and>
      (case field v ''automaticRetries'' of Some (JNum n) \<Rightarrow> isSafeInteger n \<and> num_ge n 0 | _ \<Rightarrow> False))"

definition teamTaskRecovery :: "work_item \<Rightarrow> task_recovery" where
  "teamTaskRecovery w =
     (case workRecovery w of Some r \<Rightarrow> r | None \<Rightarrow> \<lparr>maxRetries = 2, usedRetries = 0\<rparr>)"

definition canAutomaticallyRecoverTeamTask :: "work_item \<Rightarrow> bool" where
  "canAutomaticallyRecoverTeamTask w = (usedRetries (teamTaskRecovery w) < maxRetries (teamTaskRecovery w))"

definition teamAutomaticRetryDelay :: "nat \<Rightarrow> rat option \<Rightarrow> rat" where
  "teamAutomaticRetryDelay retries providerDelay =
     (case providerDelay of
        None \<Rightarrow> min (1000 * 2 ^ retries) 30000
      | Some d \<Rightarrow> max 0 (min d 60000))"

datatype task_action = DelegateTask | ResumeTask | CancelTask

definition isDefaultTeamTaskActionAllowed :: "task_action \<Rightarrow> string \<Rightarrow> string \<Rightarrow> string \<Rightarrow> bool" where
  "isDefaultTeamTaskActionAllowed action leader source target =
     (if action = DelegateTask then source = leader \<and> source \<noteq> target
      else if action = CancelTask then source = leader \<and> source \<noteq> target
      else source = leader \<or> source = target)"

definition teamSubagentToolNames :: "string list" where
  "teamSubagentToolNames = [''spawn_agent'', ''dispatch_workflows'', ''list_agents'', ''wait_agent'', ''interrupt_agent'',
     ''send_message'', ''followup_task'']"

definition filterTeamMemberActiveToolNames :: "string list \<Rightarrow> string list" where
  "filterTeamMemberActiveToolNames names = filter (\<lambda>n. n \<notin> set teamSubagentToolNames) names"

definition resolveProfileResponsibility :: "profile \<Rightarrow> string" where
  "resolveProfileResponsibility a =
     (if trim (profileDescription a) = [] then profileName a else trim (profileDescription a))"

section \<open>The roster\<close>

datatype availability = Idle | Busy | Unavailable

record roster_member =
  rosterId :: string
  rosterHandle :: string
  rosterName :: string
  rosterLeader :: bool
  rosterRole :: string
  rosterResponsibility :: string
  rosterCapabilities :: "json list"
  rosterAvailability :: availability
  rosterRevision :: int

record roster =
  rosterTeam :: string
  rosterTeamName :: string
  rosterTeamRevision :: int
  rosterLeaderId :: string
  rosterMembers :: "roster_member list"

definition rosterMember ::
    "profile list \<Rightarrow> team \<Rightarrow> (string \<Rightarrow> json list option) \<Rightarrow> (string \<Rightarrow> availability option) \<Rightarrow> member
      \<Rightarrow> team_error + roster_member" where
  "rosterMember as t caps avail m =
     (case resolveMemberProfile as m of
        Inl e \<Rightarrow> Inl e
      | Inr a \<Rightarrow> Inr \<lparr>rosterId = memberId m, rosterHandle = memberHandle m, rosterName = profileName a,
          rosterLeader = (memberId m = leaderMemberId t), rosterRole = blueprintId a,
          rosterResponsibility = resolveMemberResponsibility a m,
          rosterCapabilities = (case caps (memberId m) of Some c \<Rightarrow> c | None \<Rightarrow> []),
          rosterAvailability = (case avail (memberId m) of Some x \<Rightarrow> x | None \<Rightarrow> Idle),
          rosterRevision = profileRevision a\<rparr>)"

fun mapSum :: "('a \<Rightarrow> 'e + 'b) \<Rightarrow> 'a list \<Rightarrow> 'e + 'b list" where
  "mapSum f [] = Inr []"
| "mapSum f (x # xs) =
     (case f x of Inl e \<Rightarrow> Inl e | Inr y \<Rightarrow> (case mapSum f xs of Inl e \<Rightarrow> Inl e | Inr ys \<Rightarrow> Inr (y # ys)))"

definition buildTeamRosterSnapshot ::
    "profile list \<Rightarrow> team \<Rightarrow> (string \<Rightarrow> json list option) \<Rightarrow> (string \<Rightarrow> availability option) \<Rightarrow> team_error + roster" where
  "buildTeamRosterSnapshot as t caps avail =
     (case mapSum (rosterMember as t caps avail) (members t) of
        Inl e \<Rightarrow> Inl e
      | Inr ms \<Rightarrow> Inr \<lparr>rosterTeam = teamId t, rosterTeamName = teamName t, rosterTeamRevision = teamRevision t,
          rosterLeaderId = leaderMemberId t, rosterMembers = ms\<rparr>)"

section \<open>Validators\<close>

definition oneOf :: "string list \<Rightarrow> jsval \<Rightarrow> bool" where
  "oneOf ss v = list_ex (isLiteral v) ss"

definition isIntegerValue :: "jsval \<Rightarrow> bool" where
  "isIntegerValue v = (case v of Some (JNum n) \<Rightarrow> isInteger n | _ \<Rightarrow> False)"

definition isArray :: "jsval \<Rightarrow> bool" where
  "isArray v = (case v of Some (JArr vs) \<Rightarrow> True | _ \<Rightarrow> False)"

definition recordField :: "(json \<Rightarrow> bool) \<Rightarrow> jsval \<Rightarrow> bool" where
  "recordField P v = (case v of Some x \<Rightarrow> P x | None \<Rightarrow> False)"

definition isTeamWorkItemState :: "jsval \<Rightarrow> bool" where
  "isTeamWorkItemState =
     oneOf [''queued'', ''running'', ''waiting'', ''attention-required'', ''completed'', ''failed'', ''cancelled'']"

definition isTeamMemberTurnAttemptState :: "jsval \<Rightarrow> bool" where
  "isTeamMemberTurnAttemptState =
     oneOf [''scheduled'', ''running'', ''waiting-retry'', ''interrupted'', ''awaiting-resource'', ''completed'',
       ''cancelled'', ''non-retryable-failure'']"

definition isTeamExecutionIssueCategory :: "jsval \<Rightarrow> bool" where
  "isTeamExecutionIssueCategory =
     oneOf [''network'', ''rate-limit'', ''provider-unavailable'', ''insufficient-credit'', ''authentication'',
       ''host-interrupted'', ''context-overflow'', ''invalid-request'', ''policy-rejected'', ''unknown'']"

definition isTeamExecutionIssue :: "json \<Rightarrow> bool" where
  "isTeamExecutionIssue v =
     (isRecord v \<and> isTeamExecutionIssueCategory (field v ''category'') \<and>
      oneOf [''automatic'', ''manual'', ''after-external-change'', ''never''] (field v ''retryability'') \<and>
      isNonEmptyString (field v ''code'') \<and> optionally isNonEmptyString (field v ''provider'') \<and>
      optionally isNonEmptyString (field v ''modelId'') \<and> optionally isNumber (field v ''retryAfter''))"

definition isTeamWorkItem :: "json \<Rightarrow> bool" where
  "isTeamWorkItem v =
     (isRecord v \<and> isNonEmptyString (field v ''id'') \<and> isNonEmptyString (field v ''requestTurnId'') \<and>
      optionally isNonEmptyString (field v ''originToolCallId'') \<and>
      isNonEmptyString (field v ''createdByParticipantId'') \<and> isNonEmptyString (field v ''assignedToParticipantId'') \<and>
      isNonEmptyString (field v ''objective'') \<and> optionally (oneOf [''task'', ''question'']) (field v ''kind'') \<and>
      isArray (field v ''contextEntryIds'') \<and> isTeamWorkItemState (field v ''state'') \<and>
      optionally (recordField isTeamTaskRecovery) (field v ''recovery'') \<and>
      optionally (arrayOf (\<lambda>x. isString (Some x))) (field v ''notificationIds'') \<and>
      optionally (recordField isTeamExecutionIssue) (field v ''lastIssue'') \<and>
      isNumber (field v ''createdAt'') \<and> isNumber (field v ''updatedAt'') \<and> isIntegerValue (field v ''revision''))"

definition isTeamMemberTurnAttempt :: "json \<Rightarrow> bool" where
  "isTeamMemberTurnAttempt v =
     (isRecord v \<and> isNonEmptyString (field v ''id'') \<and> isNonEmptyString (field v ''workItemId'') \<and>
      isNonEmptyString (field v ''participantConversationId'') \<and> isNonEmptyString (field v ''sourceTurnId'') \<and>
      isIntegerValue (field v ''attempt'') \<and> oneOf [''initial'', ''continue'', ''retry'', ''recovery''] (field v ''mode'') \<and>
      isTeamMemberTurnAttemptState (field v ''state'') \<and> optionally (recordField isTeamExecutionIssue) (field v ''issue'') \<and>
      optionally isNumber (field v ''nextRetryAt'') \<and> isNumber (field v ''lastProgressAt''))"

definition isTeamMessageDelivery :: "json \<Rightarrow> bool" where
  "isTeamMessageDelivery v =
     (isRecord v \<and> isNonEmptyString (field v ''id'') \<and> isNonEmptyString (field v ''messageId'') \<and>
      isNonEmptyString (field v ''fromParticipantId'') \<and> isNonEmptyString (field v ''toParticipantId'') \<and>
      oneOf [''inform'', ''question''] (field v ''intent'') \<and>
      oneOf [''pending'', ''delivered'', ''waiting'', ''responded'', ''failed'', ''cancelled''] (field v ''state'') \<and>
      optionally isNonEmptyString (field v ''replyMessageId'') \<and> optionally isNonEmptyString (field v ''workItemId'') \<and>
      optionally isNonEmptyString (field v ''sourceTurnId'') \<and> optionally isNonEmptyString (field v ''toolCallId'') \<and>
      isNumber (field v ''createdAt'') \<and> isNumber (field v ''updatedAt''))"

definition isTeamPublicationOperationRecord :: "json \<Rightarrow> bool" where
  "isTeamPublicationOperationRecord v =
     (isRecord v \<and> isLiteral (field v ''customType'') ''agent-team.publication-operation.v1'' \<and>
      isNonEmptyString (field v ''operationId'') \<and> isNonEmptyString (field v ''workItemId'') \<and>
      optionally (oneOf [''result'', ''terminal-partial'']) (field v ''purpose'') \<and>
      isNonEmptyString (field v ''sourceParticipantConversationId'') \<and> isNonEmptyString (field v ''sourceTurnId'') \<and>
      isNonEmptyString (field v ''sourceMessageEntryId'') \<and> optionally isNonEmptyString (field v ''publicMessageEntryId'') \<and>
      oneOf [''prepared'', ''message-published'', ''completed'', ''needs-recovery''] (field v ''state'') \<and>
      isIntegerValue (field v ''generation''))"

definition isResultSource :: "json \<Rightarrow> bool" where
  "isResultSource v =
     (isRecord v \<and> isNonEmptyString (field v ''messageEntryId'') \<and> isNonEmptyString (field v ''sourceTurnId''))"

definition isTeamLegacyEventsMigrationRecord :: "json \<Rightarrow> bool" where
  "isTeamLegacyEventsMigrationRecord v =
     (isRecord v \<and> isLiteral (field v ''customType'') ''agent-team.legacy-events-migration.v1'' \<and>
      isNonEmptyString (field v ''teamSessionId'') \<and> isNonEmptyString (field v ''coordinationConversationId'') \<and>
      isNonEmptyString (field v ''sourceFingerprint'') \<and> arrayOf (\<lambda>x. isNonEmptyString (Some x)) (field v ''migratedEventIds'') \<and>
      arrayOf isResultSource (field v ''resultSources'') \<and> isNumber (field v ''completedAt''))"

section \<open>The values of the records\<close>

text \<open>The object that is a record: the absent properties are those that are \<open>None\<close>.\<close>

definition maybe :: "string \<Rightarrow> json option \<Rightarrow> (string \<times> json) list" where
  "maybe k v = (case v of Some x \<Rightarrow> [(k, x)] | None \<Rightarrow> [])"

definition str :: "string option \<Rightarrow> json option" where
  "str s = map_option JStr s"

definition intValue :: "int \<Rightarrow> json" where
  "intValue i = JNum (Finite (of_int i))"

fun categoryText :: "issue_category \<Rightarrow> string" where
  "categoryText Network = ''network''"
| "categoryText RateLimit = ''rate-limit''"
| "categoryText ProviderUnavailable = ''provider-unavailable''"
| "categoryText InsufficientCredit = ''insufficient-credit''"
| "categoryText Authentication = ''authentication''"
| "categoryText HostInterrupted = ''host-interrupted''"
| "categoryText ContextOverflow = ''context-overflow''"
| "categoryText InvalidRequest = ''invalid-request''"
| "categoryText PolicyRejected = ''policy-rejected''"
| "categoryText UnknownIssue = ''unknown''"

fun retryText :: "retry_class \<Rightarrow> string" where
  "retryText Automatic = ''automatic''"
| "retryText Manual = ''manual''"
| "retryText AfterExternalChange = ''after-external-change''"
| "retryText Never = ''never''"

fun workStateText :: "work_state \<Rightarrow> string" where
  "workStateText Queued = ''queued''"
| "workStateText Running = ''running''"
| "workStateText Waiting = ''waiting''"
| "workStateText AttentionRequired = ''attention-required''"
| "workStateText Completed = ''completed''"
| "workStateText Failed = ''failed''"
| "workStateText Cancelled = ''cancelled''"

fun workKindText :: "work_kind \<Rightarrow> string" where
  "workKindText Task = ''task''"
| "workKindText Question = ''question''"

definition issueValue :: "execution_issue \<Rightarrow> json" where
  "issueValue i = JObj (
     [(''category'', JStr (categoryText (issueCategory i))), (''retryability'', JStr (retryText (retryability i))),
      (''code'', JStr (issueCode i))] @ maybe ''provider'' (str (issueProvider i)) @ maybe ''modelId'' (str (issueModel i)) @
     maybe ''retryAfter'' (map_option JNum (retryAfter i)))"

definition recoveryValue :: "task_recovery \<Rightarrow> json" where
  "recoveryValue r = JObj [(''maxAutomaticRetries'', intValue (maxRetries r)), (''automaticRetries'', intValue (usedRetries r))]"

definition workItemValue :: "work_item \<Rightarrow> json" where
  "workItemValue w = JObj (
     maybe ''recovery'' (map_option recoveryValue (workRecovery w)) @
     maybe ''notificationIds'' (map_option (\<lambda>ks. JArr (map JStr ks)) (notificationIds w)) @
     [(''id'', JStr (workId w)), (''requestTurnId'', JStr (requestTurnId w))] @
     maybe ''originToolCallId'' (str (originToolCallId w)) @
     [(''createdByParticipantId'', JStr (createdByParticipantId w)),
      (''assignedToParticipantId'', JStr (assignedToParticipantId w)), (''objective'', JStr (objective w))] @
     maybe ''kind'' (map_option (\<lambda>k. JStr (workKindText k)) (workKind w)) @
     [(''contextEntryIds'', JArr (map JStr (contextEntryIds w)))] @
     maybe ''artifactRefs'' (map_option JArr (artifactRefs w)) @
     [(''state'', JStr (workStateText (workState w)))] @
     maybe ''resultMessageId'' (str (resultMessageId w)) @ maybe ''currentAttemptId'' (str (currentAttemptId w)) @
     maybe ''lastIssue'' (map_option issueValue (lastIssue w)) @
     [(''createdAt'', JNum (workCreatedAt w)), (''updatedAt'', JNum (workUpdatedAt w)),
      (''revision'', intValue (workRevision w))])"

lemma map_of_maybe: "map_of (maybe k v @ kvs) j = (if j = k \<and> v \<noteq> None then v else map_of kvs j)"
  by (cases v) (auto simp: maybe_def)

lemma isInteger_of_int [simp]: "isInteger (Finite (of_int i))"
  by simp

lemma isIntegerValue_int [simp]: "isIntegerValue (Some (intValue i))"
  by (simp add: isIntegerValue_def intValue_def)

definition issueOk :: "execution_issue \<Rightarrow> bool" where
  "issueOk i = (issueCode i \<noteq> [] \<and> issueProvider i \<noteq> Some [] \<and> issueModel i \<noteq> Some [])"

definition recoveryOk :: "task_recovery \<Rightarrow> bool" where
  "recoveryOk r = (0 \<le> maxRetries r \<and> maxRetries r \<le> 10 \<and> 0 \<le> usedRetries r \<and> usedRetries r \<le> maxSafeInteger)"

definition workItemOk :: "work_item \<Rightarrow> bool" where
  "workItemOk w =
     (workId w \<noteq> [] \<and> requestTurnId w \<noteq> [] \<and> originToolCallId w \<noteq> Some [] \<and> createdByParticipantId w \<noteq> [] \<and>
      assignedToParticipantId w \<noteq> [] \<and> objective w \<noteq> [] \<and> given recoveryOk (workRecovery w) \<and> given issueOk (lastIssue w))"

lemma str_nonempty: "optionally isNonEmptyString (str s) \<longleftrightarrow> s \<noteq> Some []"
  by (cases s) (auto simp: str_def optionally_def)

lemma issueValue_ok: "isTeamExecutionIssue (issueValue i) \<longleftrightarrow> issueOk i"
proof -
  have "optionally isNumber (map_option JNum (retryAfter i))" by (cases "retryAfter i") (simp_all add: optionally_def)
  moreover have "oneOf [''automatic'', ''manual'', ''after-external-change'', ''never''] (Some (JStr (retryText (retryability i))))"
    by (cases "retryability i") (simp_all add: oneOf_def isLiteral_def)
  moreover have "isTeamExecutionIssueCategory (Some (JStr (categoryText (issueCategory i))))"
    by (cases "issueCategory i") (simp_all add: isTeamExecutionIssueCategory_def oneOf_def isLiteral_def)
  ultimately show ?thesis
    using str_nonempty [of "issueProvider i"] str_nonempty [of "issueModel i"]
    by (auto simp: isTeamExecutionIssue_def issueValue_def issueOk_def str_def maybe_def split: option.splits)
qed

lemma recoveryValue_ok: "isTeamTaskRecovery (recoveryValue r) \<longleftrightarrow> recoveryOk r"
  by (auto simp: isTeamTaskRecovery_def recoveryValue_def isTeamRetryLimit_def recoveryOk_def intValue_def maxSafeInteger_def)

lemma optional_record: "optionally (recordField P) (map_option f x) \<longleftrightarrow> given (\<lambda>v. P (f v)) x"
  by (cases x) (auto simp: optionally_def recordField_def given_def)

lemma workItemValue_fields:
  "field (workItemValue w) ''id'' = Some (JStr (workId w))"
  "field (workItemValue w) ''requestTurnId'' = Some (JStr (requestTurnId w))"
  "field (workItemValue w) ''originToolCallId'' = str (originToolCallId w)"
  "field (workItemValue w) ''createdByParticipantId'' = Some (JStr (createdByParticipantId w))"
  "field (workItemValue w) ''assignedToParticipantId'' = Some (JStr (assignedToParticipantId w))"
  "field (workItemValue w) ''objective'' = Some (JStr (objective w))"
  "field (workItemValue w) ''kind'' = map_option (\<lambda>k. JStr (workKindText k)) (workKind w)"
  "field (workItemValue w) ''contextEntryIds'' = Some (JArr (map JStr (contextEntryIds w)))"
  "field (workItemValue w) ''state'' = Some (JStr (workStateText (workState w)))"
  "field (workItemValue w) ''recovery'' = map_option recoveryValue (workRecovery w)"
  "field (workItemValue w) ''notificationIds'' = map_option (\<lambda>ks. JArr (map JStr ks)) (notificationIds w)"
  "field (workItemValue w) ''lastIssue'' = map_option issueValue (lastIssue w)"
  "field (workItemValue w) ''createdAt'' = Some (JNum (workCreatedAt w))"
  "field (workItemValue w) ''updatedAt'' = Some (JNum (workUpdatedAt w))"
  "field (workItemValue w) ''revision'' = Some (intValue (workRevision w))"
  by (simp_all add: workItemValue_def str_def map_of_maybe del: map_of_append)

text \<open>The validator accepts exactly the well-formed records, whatever their state.\<close>

lemma workItemValue_ok: "isTeamWorkItem (workItemValue w) \<longleftrightarrow> workItemOk w"
proof -
  have "isTeamWorkItemState (Some (JStr (workStateText (workState w))))"
    by (cases "workState w") (simp_all add: isTeamWorkItemState_def oneOf_def isLiteral_def)
  moreover have "optionally (oneOf [''task'', ''question'']) (map_option (\<lambda>k. JStr (workKindText k)) (workKind w))"
    by (cases "workKind w"; cases "the (workKind w)") (simp_all add: optionally_def oneOf_def isLiteral_def)
  moreover have "optionally (arrayOf (\<lambda>x. isString (Some x))) (map_option (\<lambda>ks. JArr (map JStr ks)) (notificationIds w))"
    by (cases "notificationIds w") (simp_all add: optionally_def list_all_iff)
  moreover have "isRecord (workItemValue w)" by (simp add: workItemValue_def)
  ultimately show ?thesis
    unfolding isTeamWorkItem_def workItemOk_def workItemValue_fields optional_record issueValue_ok recoveryValue_ok str_nonempty
    by (simp add: isArray_def)
qed

section \<open>Properties of work items\<close>

lemma transition_item: "transitionTeamWorkItem w i = Inr y \<Longrightarrow> y = advancedWorkItem w i"
  by (simp add: transitionTeamWorkItem_def split: if_split_asm)

lemma advanced_ok: "workItemOk w \<Longrightarrow> given issueOk (wantedIssue i) \<Longrightarrow> workItemOk (advancedWorkItem w i)"
  by (simp add: workItemOk_def advancedWorkItem_def given_def split: option.split option.split_asm)

lemma transition_ok:
  "workItemOk w \<Longrightarrow> given issueOk (wantedIssue i) \<Longrightarrow> transitionTeamWorkItem w i = Inr y \<Longrightarrow> workItemOk y"
  by (drule transition_item) (simp add: advanced_ok)

lemma transition_revision: "transitionTeamWorkItem w i = Inr y \<Longrightarrow> workRevision y = workRevision w + 1"
  by (drule transition_item) (simp add: advancedWorkItem_def)

lemma applyAll_revision: "workRevision w \<le> workRevision (applyAll transitionTeamWorkItem w ins)"
proof (induction ins arbitrary: w)
  case (Cons i ins)
  show ?case
  proof (cases "transitionTeamWorkItem w i")
    case (Inr y)
    then show ?thesis using Cons [of y] transition_revision [OF Inr] by simp
  qed (use Cons in simp)
qed simp

lemma applyAll_ok:
  "workItemOk w \<Longrightarrow> list_all (\<lambda>i. given issueOk (wantedIssue i)) ins \<Longrightarrow> workItemOk (applyAll transitionTeamWorkItem w ins)"
proof (induction ins arbitrary: w)
  case (Cons i ins)
  then show ?case by (auto intro: transition_ok split: sum.split)
qed simp

lemma terminal_states: "workItemTransitions s = [] \<longleftrightarrow> s \<in> {Completed, Failed, Cancelled}"
  by (cases s) simp_all

text \<open>
  Whatever transitions are requested of a work item, and whichever of them are rejected,
  it has a result message exactly when it is completed if that was so at the start, its state
  moved along the transition table, its revision did not go back, and an item that was
  completed, failed or cancelled is unchanged.
\<close>

theorem work_item_lifecycle:
  assumes "truthy (resultMessageId w) = (workState w = Completed)"
  shows "let y = applyAll transitionTeamWorkItem w ins
    in truthy (resultMessageId y) = (workState y = Completed) \<and>
       (workState w, workState y) \<in> (follows workItemTransitions)\<^sup>* \<and> workRevision w \<le> workRevision y \<and>
       (workState w \<in> {Completed, Failed, Cancelled} \<longrightarrow> y = w)"
  using work.coherent [OF assms] work.reaches [of w ins] applyAll_revision [of w ins] work.settled [of w ins]
  by (auto simp: Let_def terminal_states)

text \<open>
  C38. A work item that the validator accepts when it is read back is still accepted after any
  sequence of transitions whose issues have a code and no empty provider or model name.
\<close>

theorem work_items_stay_readable:
  assumes "isTeamWorkItem (workItemValue w)" "list_all (\<lambda>i. given issueOk (wantedIssue i)) ins"
  shows "isTeamWorkItem (workItemValue (applyAll transitionTeamWorkItem w ins))"
  using applyAll_ok assms by (simp add: workItemValue_ok)

text \<open>The same contract for deliveries: a reply message is there exactly for a responded one.\<close>

lemma delivery_lifecycle:
  assumes "truthy (replyMessageId d) = (deliveryState d = Responded)"
  shows "truthy (replyMessageId (applyAll transitionTeamMessageDelivery d ins)) =
    (deliveryState (applyAll transitionTeamMessageDelivery d ins) = Responded)"
  by (rule reply.coherent [OF assms])

section \<open>Properties of failure handling\<close>

lemma classified_issue:
  "issueCode (classifyTeamExecutionIssue f) = failureCode f"
  "issueProvider (classifyTeamExecutionIssue f) = nonEmpty (Option.bind (failureDetails f) detailProvider)"
  "issueModel (classifyTeamExecutionIssue f) = nonEmpty (Option.bind (failureDetails f) detailModel)"
  "retryability (classifyTeamExecutionIssue f) = AfterExternalChange \<longleftrightarrow>
     issueCategory (classifyTeamExecutionIssue f) \<in> {InsufficientCredit, Authentication}"
  "issueCategory (classifyTeamExecutionIssue f) \<notin> {HostInterrupted, PolicyRejected}"
  by (simp_all add: classifyTeamExecutionIssue_def Let_def)

lemma classified_ok: "failureCode f \<noteq> [] \<Longrightarrow> issueOk (classifyTeamExecutionIssue f)"
  by (auto simp: issueOk_def classified_issue nonEmpty_def)

lemma attempt_parked:
  "fst (classifyTeamAttemptTerminal False False (Some i)) = AwaitingResource \<longleftrightarrow>
     retryability i \<in> {Manual, AfterExternalChange}"
  by (cases "retryability i") (simp_all add: classifyTeamAttemptTerminal_def)

text \<open>
  An attempt that ends without a message on a failure is woken by a change of an external
  condition exactly when the failure was classified under that condition and neither the
  provider nor the model of the two differ; such an attempt is parked, and its issue, carried
  by the failure, is one the validator accepts.
\<close>

theorem parked_attempt_wakes_up:
  assumes "failureCode f \<noteq> []"
  shows "let issue = classifyTeamExecutionIssue f; provider = Option.bind (failureDetails f) detailProvider;
             model = Option.bind (failureDetails f) detailModel
    in isTeamExecutionIssue (issueValue issue) \<and>
       (matchesTeamExternalConditionChange (Some issue) change \<longleftrightarrow>
          issueCategory issue \<in> {InsufficientCredit, Authentication} \<and> issueCategory issue = changeCategory change \<and>
          \<not> differs (changeProvider change) provider \<and> \<not> differs (changeModel change) model) \<and>
       (matchesTeamExternalConditionChange (Some issue) change \<longrightarrow>
          classifyTeamAttemptTerminal False False (Some issue) = (AwaitingResource, Some issue))"
proof -
  have same: "differs x (nonEmpty y) = differs x y" for x y
    by (auto simp: differs_def nonEmpty_def)
  let ?i = "classifyTeamExecutionIssue f"
  have "matchesTeamExternalConditionChange (Some ?i) change \<longleftrightarrow>
      issueCategory ?i \<in> {InsufficientCredit, Authentication} \<and> issueCategory ?i = changeCategory change \<and>
      \<not> differs (changeProvider change) (Option.bind (failureDetails f) detailProvider) \<and>
      \<not> differs (changeModel change) (Option.bind (failureDetails f) detailModel)"
    by (auto simp: matchesTeamExternalConditionChange_def classified_issue same)
  moreover have "classifyTeamAttemptTerminal False False (Some ?i) = (AwaitingResource, Some ?i)"
    if "matchesTeamExternalConditionChange (Some ?i) change"
    using that by (simp add: matchesTeamExternalConditionChange_def classifyTeamAttemptTerminal_def split: if_splits)
  moreover have "isTeamExecutionIssue (issueValue ?i)" using classified_ok [OF assms] by (simp add: issueValue_ok)
  ultimately show ?thesis unfolding Let_def by blast
qed

lemma retry_delay_bounds: "0 \<le> teamAutomaticRetryDelay n d \<and> teamAutomaticRetryDelay n d \<le> 60000"
  by (auto simp: teamAutomaticRetryDelay_def min_def max_def split: option.split)

lemma roster_of_ok_team:
  assumes "teamOk nfkc as t"
  shows "\<exists>r. buildTeamRosterSnapshot as t caps avail = Inr r \<and> map rosterId (rosterMembers r) = map memberId (members t)"
proof -
  have "list_all (bindingOk t as) ms \<Longrightarrow>
      \<exists>rs. mapSum (rosterMember as t caps avail) ms = Inr rs \<and> map rosterId rs = map memberId ms" for ms
  proof (induction ms)
    case (Cons m ms)
    then obtain rs where rs: "mapSum (rosterMember as t caps avail) ms = Inr rs" "map rosterId rs = map memberId ms" by auto
    moreover obtain r where "rosterMember as t caps avail m = Inr r" "rosterId r = memberId m"
      using Cons.prems by (auto simp: bindingOk_def rosterMember_def resolveMemberProfile_def)
    ultimately show ?case by simp
  qed simp
  from this [of "members t"] show ?thesis
    using assms by (auto simp: buildTeamRosterSnapshot_def teamOk_def)
qed

section \<open>Samples\<close>

definition sampleWorkItem :: work_item where
  "sampleWorkItem = \<lparr>workRecovery = Some \<lparr>maxRetries = 2, usedRetries = 1\<rparr>, notificationIds = None, workId = ''w-1'',
     requestTurnId = ''turn-1'', originToolCallId = None, createdByParticipantId = ''lead'', assignedToParticipantId = ''helper'',
     objective = ''check'', workKind = Some Task, contextEntryIds = [''e-1''], artifactRefs = None, workState = Queued,
     resultMessageId = None, currentAttemptId = None, lastIssue = None, workCreatedAt = Finite 1, workUpdatedAt = Finite 1,
     workRevision = 1\<rparr>"

definition sampleFailure :: runtime_failure where
  "sampleFailure = \<lparr>failureCode = ''AI_QUOTA'', failureRetryable = True, failureOrigin = FromProvider,
     failureDetails = Some \<lparr>detailProvider = Some ''acme'', detailModel = Some ''m-1'', detailProviderCode = Some ''insufficient_balance'',
       detailRetryAfter = Some (Finite 9)\<rparr>\<rparr>"

definition workStep :: "work_state \<Rightarrow> string option \<Rightarrow> execution_issue option \<Rightarrow> work_input" where
  "workStep s r i = \<lparr>wantedState = s, wantedAt = Finite 2, wantedResult = r, wantedAttempt = Some ''a-1'', wantedIssue = i\<rparr>"

definition sampleSteps :: "work_input list" where
  "sampleSteps = [workStep Running None None, workStep Completed None None,
     workStep Waiting None (Some (classifyTeamExecutionIssue sampleFailure)), workStep Completed (Some ''m-9'') None,
     workStep Running None None]"

definition sampleChange :: condition_change where
  "sampleChange = \<lparr>changeCategory = InsufficientCredit, changeProvider = Some ''acme'', changeModel = None\<rparr>"

theorem work_item_lifecycle_witness:
  "(let y = applyAll transitionTeamWorkItem sampleWorkItem sampleSteps
    in truthy (resultMessageId y) = (workState y = Completed)) \<and>
   workState (applyAll transitionTeamWorkItem sampleWorkItem sampleSteps) = Completed"
proof -
  have "truthy (resultMessageId sampleWorkItem) = (workState sampleWorkItem = Completed)" by (simp add: sampleWorkItem_def)
  from work_item_lifecycle [OF this, of sampleSteps]
  have "let y = applyAll transitionTeamWorkItem sampleWorkItem sampleSteps
    in truthy (resultMessageId y) = (workState y = Completed)" by (simp add: Let_def)
  moreover have "workState (applyAll transitionTeamWorkItem sampleWorkItem sampleSteps) = Completed" by code_simp
  ultimately show ?thesis by blast
qed

theorem work_items_stay_readable_witness:
  "isTeamWorkItem (workItemValue (applyAll transitionTeamWorkItem sampleWorkItem sampleSteps))"
proof (rule work_items_stay_readable)
  show "isTeamWorkItem (workItemValue sampleWorkItem)"
    by (simp add: workItemValue_ok workItemOk_def sampleWorkItem_def given_def recoveryOk_def maxSafeInteger_def)
  show "list_all (\<lambda>i. given issueOk (wantedIssue i)) sampleSteps"
    by (simp add: sampleSteps_def workStep_def given_def classified_ok sampleFailure_def)
qed

theorem parked_attempt_wakes_up_witness:
  "classifyTeamAttemptTerminal False False (Some (classifyTeamExecutionIssue sampleFailure)) =
     (AwaitingResource, Some (classifyTeamExecutionIssue sampleFailure)) \<and>
   matchesTeamExternalConditionChange (Some (classifyTeamExecutionIssue sampleFailure)) sampleChange"
proof -
  have "failureCode sampleFailure \<noteq> []" by (simp add: sampleFailure_def)
  moreover have "matchesTeamExternalConditionChange (Some (classifyTeamExecutionIssue sampleFailure)) sampleChange" by code_simp
  ultimately show ?thesis using parked_attempt_wakes_up [of sampleFailure sampleChange] by (simp add: Let_def)
qed

end
