(* ===== verification/SubagentPool.thy ===== *)
theory SubagentPool
  imports Prelude
begin

text \<open>
  The data of \<open>packages/runtime-subagents/src\<close>: snapshots (\<open>contracts.ts\<close>, \<open>snapshot.ts\<close>), the
  type registry (\<open>type-registry.ts\<close>), the slot pool (\<open>subagent-pool.ts\<close>) and the normalisation of
  recovered snapshots (\<open>recovery.ts\<close>).

  A run is an object with identity; the pool maps ids to runs, so it holds references into a
  heap of runs, and the functions that look at a run take its snapshot from an accessor. A
  JavaScript \<open>Map\<close> is its list of entries in insertion order, a \<open>Set\<close> its list of elements.
\<close>

section \<open>Snapshots\<close>

datatype subagent_status = StQueued | StPending | StRunning | StCompleted | StFailed | StInterrupted

record subagent_usage =
  usageInput :: jsnum
  usageOutput :: jsnum
  usageCacheRead :: jsnum
  usageCacheWrite :: jsnum
  usageCost :: jsnum

definition emptyUsage :: subagent_usage where
  "emptyUsage = \<lparr>usageInput = Finite 0, usageOutput = Finite 0, usageCacheRead = Finite 0, usageCacheWrite = Finite 0,
     usageCost = Finite 0\<rparr>"

datatype delivery_mode = TerminalDelivery | BatchDelivery

record snapshot =
  agentId :: string
  taskName :: string
  agentPath :: string
  agentType :: string
  agentStatus :: subagent_status
  agentTask :: string
  parentSession :: string
  originCall :: "string option"
  sessionFile :: "string option"
  startedAt :: int
  endedAt :: "int option"
  finalText :: "string option"
  errorMessage :: "string option"
  agentUsage :: subagent_usage
  generation :: nat
  agentTitle :: "string option"
  deliveryMode :: "delivery_mode option"
  batchId :: "string option"

record spawn_request =
  reqTaskName :: string
  reqOriginCall :: "string option"
  reqMessage :: string
  reqType :: string
  reqTitle :: "string option"
  reqDelivery :: "delivery_mode option"
  reqBatch :: "string option"

definition isActiveStatus :: "subagent_status \<Rightarrow> bool" where
  "isActiveStatus s = (s = StPending \<or> s = StRunning)"

definition isTerminalStatus :: "subagent_status \<Rightarrow> bool" where
  "isTerminalStatus s = (s = StCompleted \<or> s = StFailed \<or> s = StInterrupted)"

definition isTaskStart :: "char \<Rightarrow> bool" where
  "isTaskStart c = (let n = of_char c :: int in 97 \<le> n \<and> n \<le> 122)"

definition isTaskChar :: "char \<Rightarrow> bool" where
  "isTaskChar c = (let n = of_char c :: int in 97 \<le> n \<and> n \<le> 122 \<or> 48 \<le> n \<and> n \<le> 57 \<or> n = 95)"

definition isValidTaskName :: "string \<Rightarrow> bool" where
  "isValidTaskName s = (s \<noteq> [] \<and> s \<noteq> ''root'' \<and> isTaskStart (hd s) \<and> list_all isTaskChar (tl s))"

definition taskPath :: "string \<Rightarrow> string" where
  "taskPath s = ''/root/'' @ s"

text \<open>The notice that replaces the end of a long text holds the character U+2026, given as an argument.\<close>

definition clipFinalText :: "string \<Rightarrow> nat \<Rightarrow> string option \<Rightarrow> string option" where
  "clipFinalText ellipsis limit s =
     (case s of
        None \<Rightarrow> None
      | Some t \<Rightarrow>
          if length t \<le> limit then Some t
          else Some (take limit t @ [char_of (10 :: nat)] @ ellipsis @ ''[truncated '' @ digitsOf (length t - limit) @
            '' chars; see child transcript]''))"

section \<open>Errors\<close>

datatype subagent_error =
    Disposed
  | NotEmpty
  | BadMaxConcurrent
  | IdRegistered string
  | TaskNameUsed string
  | NotOwned string
  | TooMany
  | SlotChanged
  | NoWorkflows
  | DuplicateTaskName string
  | InvalidTaskName string
  | EmptyMessage
  | UnknownType string
  | RunNotFound string
  | NoLiveSession
  | TypeIdEmpty
  | TypeRegistered string
  | DuplicateRecoveredId string
  | DuplicateRecoveredName string
  | ForeignParent string
  | BadIdentity string

section \<open>The type registry\<close>

text \<open>Only the ids matter to the scheduler; a definition is kept as its JSON value.\<close>

type_synonym type_registry = "(string \<times> json) list"

definition mapSet :: "string \<Rightarrow> 'v \<Rightarrow> (string \<times> 'v) list \<Rightarrow> (string \<times> 'v) list" where
  "mapSet k v m = (if k \<in> set (map fst m) then map (\<lambda>(a, b). if a = k then (k, v) else (a, b)) m else m @ [(k, v)])"

definition mapDelete :: "string \<Rightarrow> (string \<times> 'v) list \<Rightarrow> (string \<times> 'v) list" where
  "mapDelete k m = filter (\<lambda>(a, b). a \<noteq> k) m"

definition registerType :: "string \<Rightarrow> json \<Rightarrow> type_registry \<Rightarrow> subagent_error + type_registry" where
  "registerType i d r =
     (if trim i = [] then Inl TypeIdEmpty
      else if trim i \<in> set (map fst r) then Inl (TypeRegistered (trim i))
      else Inr (mapSet (trim i) d r))"

definition upsertType :: "string \<Rightarrow> json \<Rightarrow> type_registry \<Rightarrow> subagent_error + type_registry" where
  "upsertType i d r = (if trim i = [] then Inl TypeIdEmpty else Inr (mapSet (trim i) d r))"

definition knownType :: "type_registry \<Rightarrow> string \<Rightarrow> bool" where
  "knownType r i = (map_of r i \<noteq> None)"

section \<open>The pool\<close>

record pool =
  maxConcurrent :: nat
  entries :: "(string \<times> nat) list"
  byTaskName :: "(string \<times> string) list"
  active :: "string list"
  waitingIds :: "string list"

definition newPool :: "jsnum \<Rightarrow> subagent_error + pool" where
  "newPool n =
     (if \<not> isInteger n \<or> \<not> num_ge n 1 then Inl BadMaxConcurrent
      else Inr \<lparr>maxConcurrent = nat (asInt n), entries = [], byTaskName = [], active = [], waitingIds = []\<rparr>)"

definition hasCapacity :: "pool \<Rightarrow> bool" where
  "hasCapacity p = (length (active p) < maxConcurrent p)"

definition poolValues :: "pool \<Rightarrow> nat list" where
  "poolValues p = map snd (entries p)"

definition listSnapshots :: "(nat \<Rightarrow> snapshot) \<Rightarrow> pool \<Rightarrow> snapshot list" where
  "listSnapshots snap p = sort_key startedAt (map snap (poolValues p))"

definition resolveTarget :: "pool \<Rightarrow> string \<Rightarrow> nat option" where
  "resolveTarget p target =
     (case map_of (entries p) target of
        Some r \<Rightarrow> Some r
      | None \<Rightarrow>
          (let name = (if startsWith ''/root/'' target then drop 6 target else target)
           in case map_of (byTaskName p) name of
                Some i \<Rightarrow> (if i = [] then None else map_of (entries p) i)
              | None \<Rightarrow> None))"

definition hasTaskName :: "pool \<Rightarrow> string \<Rightarrow> bool" where
  "hasTaskName p name = (map_of (byTaskName p) name \<noteq> None)"

definition addRun :: "nat \<Rightarrow> string \<Rightarrow> string \<Rightarrow> pool \<Rightarrow> subagent_error + pool" where
  "addRun r i name p =
     (if map_of (entries p) i \<noteq> None then Inl (IdRegistered i)
      else if hasTaskName p name then Inl (TaskNameUsed name)
      else Inr (p\<lparr>entries := mapSet i r (entries p), byTaskName := mapSet name i (byTaskName p)\<rparr>))"

definition setAdd :: "'a \<Rightarrow> 'a list \<Rightarrow> 'a list" where
  "setAdd x xs = (if x \<in> set xs then xs else xs @ [x])"

definition replaceFirst :: "'a \<Rightarrow> 'a \<Rightarrow> 'a list \<Rightarrow> 'a list" where
  "replaceFirst x y xs = (case findIndex (\<lambda>z. z = x) xs of Some i \<Rightarrow> xs[i := y] | None \<Rightarrow> xs)"

definition rekey :: "nat \<Rightarrow> string \<Rightarrow> string \<Rightarrow> string \<Rightarrow> pool \<Rightarrow> subagent_error + pool" where
  "rekey r name previous nextId p =
     (if previous = nextId then Inr p
      else if map_of (entries p) nextId \<noteq> None \<and> map_of (entries p) nextId \<noteq> Some r then Inl (IdRegistered nextId)
      else if map_of (entries p) previous \<noteq> Some r then Inl (NotOwned name)
      else Inr (p\<lparr>entries := mapSet nextId r (mapDelete previous (entries p)),
                 byTaskName := mapSet name nextId (byTaskName p),
                 active := (if previous \<in> set (active p) then setAdd nextId (removeAll previous (active p)) else active p),
                 waitingIds := replaceFirst previous nextId (waitingIds p)\<rparr>))"

definition acquire :: "string \<Rightarrow> pool \<Rightarrow> bool \<times> pool" where
  "acquire i p =
     (if \<not> hasCapacity p \<or> i \<in> set (active p) then (False, p) else (True, p\<lparr>active := active p @ [i]\<rparr>))"

definition enqueueRun :: "string \<Rightarrow> pool \<Rightarrow> pool" where
  "enqueueRun i p = p\<lparr>waitingIds := setAdd i (waitingIds p)\<rparr>"

fun takeLoop :: "(nat \<Rightarrow> snapshot) \<Rightarrow> (string \<times> nat) list \<Rightarrow> string list \<Rightarrow> (string \<times> nat) option \<times> string list" where
  "takeLoop snap es [] = (None, [])"
| "takeLoop snap es (i # q) =
     (if i = [] then takeLoop snap es q
      else case map_of es i of
             None \<Rightarrow> takeLoop snap es q
           | Some r \<Rightarrow> if agentStatus (snap r) \<noteq> StQueued then takeLoop snap es q else (Some (i, r), q))"

definition takeNext :: "(nat \<Rightarrow> snapshot) \<Rightarrow> pool \<Rightarrow> nat option \<times> pool" where
  "takeNext snap p =
     (if \<not> hasCapacity p then (None, p)
      else case takeLoop snap (entries p) (waitingIds p) of
             (None, q) \<Rightarrow> (None, p\<lparr>waitingIds := q\<rparr>)
           | (Some (i, r), q) \<Rightarrow> (Some r, p\<lparr>active := setAdd i (active p), waitingIds := q\<rparr>))"

definition releaseSlot :: "string \<Rightarrow> pool \<Rightarrow> pool" where
  "releaseSlot i p = p\<lparr>active := removeAll i (active p)\<rparr>"

definition removeQueued :: "string \<Rightarrow> pool \<Rightarrow> pool" where
  "removeQueued i p = p\<lparr>waitingIds := remove1 i (waitingIds p)\<rparr>"

definition removeRun :: "nat \<Rightarrow> snapshot \<Rightarrow> pool \<Rightarrow> bool \<times> pool" where
  "removeRun r s p =
     (if map_of (entries p) (agentId s) \<noteq> Some r then (False, p)
      else let p1 = releaseSlot (agentId s) (removeQueued (agentId s) p)
           in (True, p1\<lparr>entries := mapDelete (agentId s) (entries p1), byTaskName := mapDelete (taskName s) (byTaskName p1)\<rparr>))"

fun removeFinishedFrom :: "(nat \<Rightarrow> snapshot) \<Rightarrow> (snapshot \<Rightarrow> bool) \<Rightarrow> nat list \<Rightarrow> pool \<Rightarrow> nat list \<times> pool" where
  "removeFinishedFrom snap P [] p = ([], p)"
| "removeFinishedFrom snap P (r # rs) p =
     (if \<not> isTerminalStatus (agentStatus (snap r)) \<or> \<not> P (snap r) then removeFinishedFrom snap P rs p
      else let (ok, p1) = removeRun r (snap r) p; (removed, p2) = removeFinishedFrom snap P rs p1
           in (if ok then r # removed else removed, p2))"

definition removeFinished :: "(nat \<Rightarrow> snapshot) \<Rightarrow> (snapshot \<Rightarrow> bool) \<Rightarrow> pool \<Rightarrow> nat list \<times> pool" where
  "removeFinished snap P p = removeFinishedFrom snap P (poolValues p) p"

definition clearScheduling :: "pool \<Rightarrow> pool" where
  "clearScheduling p = p\<lparr>active := [], waitingIds := []\<rparr>"

section \<open>Recovery\<close>

definition recovered :: "int \<Rightarrow> snapshot \<Rightarrow> snapshot" where
  "recovered now s =
     (if isTerminalStatus (agentStatus s) then s
      else s\<lparr>agentStatus := (if truthy (sessionFile s) then StInterrupted else StFailed), endedAt := Some now,
             generation := generation s + 1,
             errorMessage := Some (if truthy (sessionFile s)
               then ''Parent runtime restarted while the subagent was active''
               else ''Parent runtime restarted before the child session was created'')\<rparr>)"

fun normalizeFrom :: "string list \<Rightarrow> string list \<Rightarrow> string \<Rightarrow> int \<Rightarrow> snapshot list \<Rightarrow> subagent_error + snapshot list" where
  "normalizeFrom ids names parent now [] = Inr []"
| "normalizeFrom ids names parent now (s # ss) =
     (if agentId s \<in> set ids then Inl (DuplicateRecoveredId (agentId s))
      else if taskName s \<in> set names then Inl (DuplicateRecoveredName (taskName s))
      else if parentSession s \<noteq> parent then Inl (ForeignParent (agentId s))
      else if \<not> isValidTaskName (taskName s) \<or> agentPath s \<noteq> taskPath (taskName s) then Inl (BadIdentity (agentId s))
      else map_sum id (Cons (recovered now s)) (normalizeFrom (agentId s # ids) (taskName s # names) parent now ss))"

definition normalizeSubagentRecoveryState :: "snapshot list \<Rightarrow> string \<Rightarrow> int \<Rightarrow> subagent_error + snapshot list" where
  "normalizeSubagentRecoveryState ss parent now = normalizeFrom [] [] parent now ss"

definition recoverableAgents :: "string \<Rightarrow> snapshot list \<Rightarrow> bool" where
  "recoverableAgents parent ss =
     (distinct (map agentId ss) \<and> distinct (map taskName ss) \<and>
      list_all (\<lambda>s. parentSession s = parent \<and> isValidTaskName (taskName s) \<and> agentPath s = taskPath (taskName s)) ss)"

lemma normalizeFrom_iff:
  "normalizeFrom ids names parent now ss = Inr out \<longleftrightarrow>
     distinct (map agentId ss) \<and> distinct (map taskName ss) \<and> set ids \<inter> agentId ` set ss = {} \<and>
     set names \<inter> taskName ` set ss = {} \<and>
     list_all (\<lambda>s. parentSession s = parent \<and> isValidTaskName (taskName s) \<and> agentPath s = taskPath (taskName s)) ss \<and>
     out = map (recovered now) ss"
proof (induction ss arbitrary: ids names out)
  case Nil
  then show ?case by auto
next
  case (Cons s ss)
  have split: "map_sum id (Cons x) y = Inr out \<longleftrightarrow> (\<exists>zs. y = Inr zs \<and> out = x # zs)" for x :: snapshot and y :: "subagent_error + snapshot list"
    by (cases y) auto
  show ?case by (auto simp: split Cons.IH)
qed

lemma normalize_iff:
  "normalizeSubagentRecoveryState ss parent now = Inr out \<longleftrightarrow> recoverableAgents parent ss \<and> out = map (recovered now) ss"
  by (auto simp: normalizeSubagentRecoveryState_def normalizeFrom_iff recoverableAgents_def)

lemma recovered_terminal [simp]: "isTerminalStatus (agentStatus (recovered now s))"
  by (simp add: recovered_def isTerminalStatus_def)

lemma recovered_identity [simp]:
  "agentId (recovered now s) = agentId s" "taskName (recovered now s) = taskName s"
  "parentSession (recovered now s) = parentSession s" "agentPath (recovered now s) = agentPath s"
  by (simp_all add: recovered_def)

end
