(* ===== verification/SubagentRun.thy ===== *)
theory SubagentRun
  imports SubagentPool
begin

text \<open>
  The execution of subagents: \<open>subagent-run.ts\<close> and \<open>subagent-dispatcher.ts\<close> of
  \<open>packages/runtime-subagents/src\<close>.

  The world is the heap of runs, the slot pool, and the suspended continuations: every
  \<open>await\<close> of the two classes that has an effect after it is a constructor of \<open>cont\<close>, and a step of
  the scheduler resumes any one of them that is ready, with the answer the child, the factory or
  the lifecycle hook gave. Code between two awaits is a function of the world. What is published
  to the coordinator (\<open>onTerminal\<close>) is recorded in order; \<open>onUpdate\<close> and \<open>onError\<close> observers do not
  change the state and are left out. An \<open>await\<close> whose only effect is to throw or to return is
  joined with what follows it.

  A child is seen through what it answers: the last text and usage it reports
  (\<open>child_view\<close>, one per run) and the events it emits. \<open>prompted\<close> is not a field of the class; it
  records that the attached child has been prompted, which the environment needs before it ends a
  turn.
\<close>

section \<open>Runs, continuations and the world\<close>

record child_handle =
  handleSession :: string
  handleFile :: "string option"

record agent_run =
  snap :: snapshot
  childHandle :: "child_handle option"
  queuedRequest :: "spawn_request option"
  startCompleted :: bool
  stopCount :: nat
  epoch :: nat
  endingEpoch :: "nat option"
  isSettled :: bool
  settlement :: nat
  runDisposed :: bool
  prompted :: bool

datatype cont =
    CreateWait nat nat spawn_request
  | StartFailed nat
  | BeforeStartWait nat nat string
  | PromptWait nat nat string
  | StopWait nat nat
  | AbortWait nat nat
  | IntStopWait nat nat
  | FailRelease nat
  | FollowUpSettle nat nat string
  | FollowActive nat string
  | ResumeSettle nat nat string
  | ReopenWait nat nat string
  | ResumeFailed nat
  | DisposeSettle nat nat

record world =
  runs :: "agent_run list"
  slots :: pool
  halted :: bool
  conts :: "cont list"
  published :: "(nat \<times> snapshot) list"

record config =
  typeRegistry :: type_registry
  canReopen :: bool
  formatInitial :: "snapshot \<Rightarrow> string \<Rightarrow> string"
  parentId :: string

record child_view =
  lastText :: "string option"
  reportedUsage :: "subagent_usage option"

type_synonym views = "nat \<Rightarrow> child_view"

definition newRun :: "snapshot \<Rightarrow> spawn_request option \<Rightarrow> agent_run" where
  "newRun s q =
     \<lparr>snap = s, childHandle = None, queuedRequest = q, startCompleted = (sessionFile s \<noteq> None), stopCount = 0,
      epoch = (if agentStatus s = StQueued then 0 else 1), endingEpoch = None,
      isSettled = isTerminalStatus (agentStatus s), settlement = 0, runDisposed = False, prompted = False\<rparr>"

definition runOf :: "world \<Rightarrow> nat \<Rightarrow> agent_run" where
  "runOf w r = runs w ! r"

definition snapOf :: "world \<Rightarrow> nat \<Rightarrow> snapshot" where
  "snapOf w r = snap (runOf w r)"

abbreviation statusOf :: "world \<Rightarrow> nat \<Rightarrow> subagent_status" where
  "statusOf w r \<equiv> agentStatus (snapOf w r)"

definition updRun :: "nat \<Rightarrow> (agent_run \<Rightarrow> agent_run) \<Rightarrow> world \<Rightarrow> world" where
  "updRun r f w = w\<lparr>runs := (runs w)[r := f (runs w ! r)]\<rparr>"

definition updSnap :: "nat \<Rightarrow> (snapshot \<Rightarrow> snapshot) \<Rightarrow> world \<Rightarrow> world" where
  "updSnap r f = updRun r (\<lambda>x. x\<lparr>snap := f (snap x)\<rparr>)"

definition suspend :: "cont \<Rightarrow> world \<Rightarrow> world" where
  "suspend c w = w\<lparr>conts := conts w @ [c]\<rparr>"

definition isCurrent :: "world \<Rightarrow> nat \<Rightarrow> nat \<Rightarrow> bool" where
  "isCurrent w r e = (epoch (runOf w r) = e \<and> \<not> runDisposed (runOf w r))"

section \<open>Terminal states\<close>

definition releaseHandle :: "nat \<Rightarrow> world \<Rightarrow> world" where
  "releaseHandle r = updRun r (\<lambda>x. x\<lparr>childHandle := None\<rparr>)"

definition maxTerminalHandles :: nat where
  "maxTerminalHandles = 50"

definition endedTime :: "world \<Rightarrow> nat \<Rightarrow> int" where
  "endedTime w r = (case endedAt (snapOf w r) of Some t \<Rightarrow> t | None \<Rightarrow> 0)"

definition trimTerminalHandles :: "world \<Rightarrow> world" where
  "trimTerminalHandles w =
     (let terminal = sort_key (endedTime w)
        (filter (\<lambda>r. isTerminalStatus (statusOf w r) \<and> childHandle (runOf w r) \<noteq> None) (poolValues (slots w)))
      in fold releaseHandle (take (length terminal - maxTerminalHandles) terminal) w)"

definition handleTerminal :: "nat \<Rightarrow> world \<Rightarrow> world" where
  "handleTerminal r w = (trimTerminalHandles w)\<lparr>published := published w @ [(r, snapOf w r)]\<rparr>"

definition commitTerminal :: "subagent_status \<Rightarrow> string option \<Rightarrow> int \<Rightarrow> nat \<Rightarrow> world \<Rightarrow> world" where
  "commitTerminal st err now r =
     updSnap r (\<lambda>s. s\<lparr>agentStatus := st, endedAt := Some now, errorMessage := err, generation := generation s + 1\<rparr>)"

definition updateUsage :: "views \<Rightarrow> nat \<Rightarrow> world \<Rightarrow> world" where
  "updateUsage v r w =
     (case (childHandle (runOf w r), reportedUsage (v r)) of
        (Some h, Some u) \<Rightarrow> updSnap r (\<lambda>s. s\<lparr>agentUsage := u\<rparr>) w
      | _ \<Rightarrow> w)"

text \<open>\<open>handle?.getLastAssistantText() ?? snapshot.finalText\<close>.\<close>

definition keepFinalText :: "views \<Rightarrow> nat \<Rightarrow> world \<Rightarrow> world" where
  "keepFinalText v r w =
     (case (childHandle (runOf w r), lastText (v r)) of
        (Some h, Some t) \<Rightarrow> updSnap r (\<lambda>s. s\<lparr>finalText := Some t\<rparr>) w
      | _ \<Rightarrow> w)"

section \<open>Starting and settling\<close>

definition activateQueued :: "nat \<Rightarrow> world \<Rightarrow> world" where
  "activateQueued r w = updSnap r (\<lambda>s. s\<lparr>agentStatus := StPending\<rparr>) (updRun r (\<lambda>x. x\<lparr>epoch := epoch x + 1\<rparr>) w)"

text \<open>\<open>startSubagent\<close> up to the \<open>await\<close> of the factory; an unknown type rejects before anything has changed.\<close>

definition startSubagent :: "config \<Rightarrow> string \<Rightarrow> nat \<Rightarrow> world \<Rightarrow> world" where
  "startSubagent cfg ty r w =
     (if \<not> knownType (typeRegistry cfg) ty then w
      else case queuedRequest (runOf w r) of
             None \<Rightarrow> suspend (StartFailed r) w
           | Some q \<Rightarrow>
               suspend (CreateWait r (epoch (runOf w r)) q) (updRun r (\<lambda>x. x\<lparr>queuedRequest := None\<rparr>) w))"

lemma takeLoop_shorter: "takeLoop sn es q = (Some x, q') \<Longrightarrow> length q' < length q"
  by (induction sn es q rule: takeLoop.induct) (auto split: if_splits option.splits)

lemma takeNext_shorter: "takeNext sn p = (Some r, p') \<Longrightarrow> length (waitingIds p') < length (waitingIds p)"
  by (auto simp: takeNext_def takeLoop_shorter split: if_splits prod.splits option.splits dest!: takeLoop_shorter)

lemma slots_upd [simp]:
  "slots (updRun r f w) = slots w" "slots (updSnap r g w) = slots w" "slots (suspend c w) = slots w"
  "slots (activateQueued r w) = slots w" "slots (startSubagent cfg ty r w) = slots w"
  by (simp_all add: updRun_def updSnap_def suspend_def activateQueued_def startSubagent_def split: option.splits)

function drainQueue :: "config \<Rightarrow> world \<Rightarrow> world" where
  "drainQueue cfg w =
     (if halted w then w
      else if \<not> hasCapacity (slots w) then w
      else case takeNext (snapOf w) (slots w) of
             (None, p) \<Rightarrow> w\<lparr>slots := p\<rparr>
           | (Some r, p) \<Rightarrow>
               drainQueue cfg (startSubagent cfg (agentType (snapOf w r)) r (activateQueued r (w\<lparr>slots := p\<rparr>))))"
  by pat_completeness auto

termination
  by (relation "measure (\<lambda>(cfg, w). length (waitingIds (slots w)))") (auto dest: takeNext_shorter [OF sym])

declare drainQueue.simps [simp del]

definition markSettled :: "config \<Rightarrow> nat \<Rightarrow> world \<Rightarrow> world" where
  "markSettled cfg r w =
     (if isSettled (runOf w r) then w
      else let w1 = updRun r (\<lambda>x. x\<lparr>isSettled := True\<rparr>) w
           in drainQueue cfg (w1\<lparr>slots := releaseSlot (agentId (snapOf w1 r)) (slots w1)\<rparr>))"

text \<open>\<open>settleInterruptedExecution\<close> up to its first \<open>await\<close>, and after the child has been aborted.\<close>

definition settleAborted :: "config \<Rightarrow> nat \<Rightarrow> nat \<Rightarrow> world \<Rightarrow> world" where
  "settleAborted cfg r e w =
     (if startCompleted (runOf w r) then suspend (IntStopWait r e) w
      else if epoch (runOf w r) = e + 1 then markSettled cfg r w
      else w)"

definition settleInterruptedExecution :: "config \<Rightarrow> nat \<Rightarrow> nat \<Rightarrow> child_handle option \<Rightarrow> world \<Rightarrow> world" where
  "settleInterruptedExecution cfg r e h w =
     (case h of Some x \<Rightarrow> suspend (AbortWait r e) w | None \<Rightarrow> settleAborted cfg r e w)"

definition stopExecution :: "subagent_status \<Rightarrow> string option \<Rightarrow> int \<Rightarrow> views \<Rightarrow> nat \<Rightarrow> world \<Rightarrow> world" where
  "stopExecution st err now v r w =
     handleTerminal r (commitTerminal st err now r (updateUsage v r (keepFinalText v r
       (updRun r (\<lambda>x. x\<lparr>epoch := epoch x + 1, queuedRequest := None\<rparr>) w))))"

definition interruptRun :: "config \<Rightarrow> int \<Rightarrow> views \<Rightarrow> nat \<Rightarrow> world \<Rightarrow> world" where
  "interruptRun cfg now v r w =
     (if isTerminalStatus (statusOf w r) then w
      else settleInterruptedExecution cfg r (epoch (runOf w r)) (childHandle (runOf w r))
             (stopExecution StInterrupted None now v r w))"

definition failRun :: "string \<Rightarrow> int \<Rightarrow> views \<Rightarrow> nat \<Rightarrow> world \<Rightarrow> world" where
  "failRun err now v r w =
     (if isTerminalStatus (statusOf w r) then w
      else suspend (FailRelease r) (releaseHandle r (stopExecution StFailed (Some err) now v r w)))"

section \<open>Executing\<close>

definition attachHandle :: "child_handle \<Rightarrow> nat \<Rightarrow> world \<Rightarrow> subagent_error + world" where
  "attachHandle h r w =
     (case rekey r (taskName (snapOf w r)) (agentId (snapOf w r)) (handleSession h) (slots w) of
        Inl e \<Rightarrow> Inl e
      | Inr p \<Rightarrow> Inr (updRun r (\<lambda>x. x\<lparr>snap := (snap x)\<lparr>agentId := handleSession h, sessionFile := handleFile h\<rparr>,
                     childHandle := Some h, prompted := False\<rparr>) (w\<lparr>slots := p\<rparr>)))"

definition runPrompt :: "nat \<Rightarrow> nat \<Rightarrow> string \<Rightarrow> world \<Rightarrow> world" where
  "runPrompt r e msg w =
     (if childHandle (runOf w r) = None \<or> \<not> isCurrent w r e then w
      else suspend (PromptWait r e msg)
             (updRun r (\<lambda>x. x\<lparr>snap := (snap x)\<lparr>agentStatus := StRunning\<rparr>, prompted := True\<rparr>) w))"

definition clearEnding :: "nat \<Rightarrow> nat \<Rightarrow> world \<Rightarrow> world" where
  "clearEnding r e = updRun r (\<lambda>x. if endingEpoch x = Some e then x\<lparr>endingEpoch := None\<rparr> else x)"

text \<open>\<open>onChildAgentEnd\<close> after the \<open>beforeStop\<close> hook, and before it.\<close>

definition maxStopContinuations :: nat where
  "maxStopContinuations = 8"

definition finishEnd :: "config \<Rightarrow> int \<Rightarrow> nat \<Rightarrow> nat \<Rightarrow> string option \<Rightarrow> world \<Rightarrow> world" where
  "finishEnd cfg now r e continuation w =
     (if \<not> isCurrent w r e \<or> \<not> isActiveStatus (statusOf w r) then clearEnding r e w
      else if truthy continuation \<and> childHandle (runOf w r) \<noteq> None \<and> stopCount (runOf w r) < maxStopContinuations
      then clearEnding r e (runPrompt r e (the continuation)
             (updRun r (\<lambda>x. x\<lparr>stopCount := stopCount x + 1, endingEpoch := None\<rparr>) w))
      else clearEnding r e (markSettled cfg r (handleTerminal r (commitTerminal StCompleted None now r w))))"

definition onChildAgentEnd :: "config \<Rightarrow> int \<Rightarrow> views \<Rightarrow> nat \<Rightarrow> nat \<Rightarrow> world \<Rightarrow> world" where
  "onChildAgentEnd cfg now v r e w =
     (if \<not> isCurrent w r e \<or> \<not> isActiveStatus (statusOf w r) \<or> endingEpoch (runOf w r) = Some e then w
      else let w1 = updateUsage v r (updRun r (\<lambda>x. x\<lparr>endingEpoch := Some e, snap := (snap x)\<lparr>finalText :=
             (case childHandle x of Some h \<Rightarrow> lastText (v r) | None \<Rightarrow> None)\<rparr>\<rparr>) w)
           in if startCompleted (runOf w1 r) then suspend (StopWait r e) w1 else finishEnd cfg now r e None w1)"

definition beginExecution :: "string \<Rightarrow> nat \<Rightarrow> world \<Rightarrow> world" where
  "beginExecution msg r =
     updRun r (\<lambda>x. x\<lparr>epoch := epoch x + 1, stopCount := 0, endingEpoch := None, isSettled := False,
       settlement := settlement x + 1,
       snap := (snap x)\<lparr>agentStatus := StRunning, agentTask := msg, endedAt := None, errorMessage := None\<rparr>\<rparr>)"

section \<open>Resuming a continuation\<close>

datatype reply =
    Rejected
  | Done
  | Handle child_handle
  | StartReply "string option" "string option"
  | PromptReply bool
  | StopReply "string option"

text \<open>The settlement that a waiter took: it resolves when its run settles, and stays resolved.\<close>

definition settledAt :: "world \<Rightarrow> nat \<Rightarrow> nat \<Rightarrow> bool" where
  "settledAt w r k = (settlement (runOf w r) \<noteq> k \<or> isSettled (runOf w r))"

fun ready :: "world \<Rightarrow> cont \<Rightarrow> bool" where
  "ready w (FollowUpSettle r k msg) = settledAt w r k"
| "ready w (ResumeSettle r k msg) = settledAt w r k"
| "ready w (DisposeSettle r k) = settledAt w r k"
| "ready w c = True"

text \<open>\<open>start\<close> and \<open>resume\<close> once the factory has answered.\<close>

definition created :: "nat \<Rightarrow> nat \<Rightarrow> spawn_request \<Rightarrow> reply \<Rightarrow> world \<Rightarrow> world" where
  "created r e q x w =
     (case x of
        Handle h \<Rightarrow>
          (if \<not> isCurrent w r e then suspend (StartFailed r) w
           else case attachHandle h r w of
                  Inl err \<Rightarrow> suspend (StartFailed r) w
                | Inr w1 \<Rightarrow> suspend (BeforeStartWait r e (reqMessage q)) w1)
      | _ \<Rightarrow> suspend (StartFailed r) w)"

definition lifecycleStarted :: "config \<Rightarrow> nat \<Rightarrow> nat \<Rightarrow> string \<Rightarrow> reply \<Rightarrow> world \<Rightarrow> world" where
  "lifecycleStarted cfg r e msg x w =
     (let (message, blocked) = (case x of StartReply m b \<Rightarrow> (m, b) | _ \<Rightarrow> (None, None))
      in if x = Rejected then suspend (StartFailed r) w
         else if \<not> isCurrent w r e then w
         else if truthy blocked then suspend (StartFailed r) w
         else let w1 = updRun r (\<lambda>x. x\<lparr>startCompleted := True\<rparr>) w
              in runPrompt r e (formatInitial cfg (snapOf w1 r) (case message of Some m \<Rightarrow> m | None \<Rightarrow> msg)) w1)"

definition promptDone :: "config \<Rightarrow> int \<Rightarrow> views \<Rightarrow> nat \<Rightarrow> nat \<Rightarrow> reply \<Rightarrow> world \<Rightarrow> world" where
  "promptDone cfg now v r e x w =
     (case x of
        Rejected \<Rightarrow>
          (if isCurrent w r e \<and> isActiveStatus (statusOf w r) then failRun ''prompt rejected'' now v r w else w)
      | PromptReply True \<Rightarrow> w
      | _ \<Rightarrow>
          (if isCurrent w r e \<and> statusOf w r = StRunning then onChildAgentEnd cfg now v r e w else w))"

definition followUpSettled :: "config \<Rightarrow> nat \<Rightarrow> string \<Rightarrow> world \<Rightarrow> world" where
  "followUpSettled cfg r msg w =
     (case acquire (agentId (snapOf w r)) (slots w) of
        (False, p) \<Rightarrow> w
      | (True, p) \<Rightarrow>
          (let w1 = w\<lparr>slots := p\<rparr>
           in if \<not> knownType (typeRegistry cfg) (agentType (snapOf w r)) then w1
              else if \<not> isTerminalStatus (statusOf w r) then suspend (ResumeFailed r) w1
              else suspend (ResumeSettle r (settlement (runOf w r)) msg) w1))"

definition resumeSettled :: "config \<Rightarrow> nat \<Rightarrow> string \<Rightarrow> world \<Rightarrow> world" where
  "resumeSettled cfg r msg w =
     (let w1 = beginExecution msg r w; e = epoch (runOf w1 r)
      in if childHandle (runOf w1 r) \<noteq> None then runPrompt r e msg w1
         else if \<not> canReopen cfg then suspend (ResumeFailed r) w1
         else suspend (ReopenWait r e msg) w1)"

definition reopened :: "nat \<Rightarrow> nat \<Rightarrow> string \<Rightarrow> reply \<Rightarrow> world \<Rightarrow> world" where
  "reopened r e msg x w =
     (case x of
        Handle h \<Rightarrow>
          (if \<not> isCurrent w r e then suspend (ResumeFailed r) w
           else case attachHandle h r w of
                  Inl err \<Rightarrow> suspend (ResumeFailed r) w
                | Inr w1 \<Rightarrow> runPrompt r e msg w1)
      | _ \<Rightarrow> suspend (ResumeFailed r) w)"

definition followedActive :: "nat \<Rightarrow> string \<Rightarrow> reply \<Rightarrow> world \<Rightarrow> world" where
  "followedActive r msg x w =
     (if x \<noteq> Rejected \<and> isActiveStatus (statusOf w r) then updSnap r (\<lambda>s. s\<lparr>agentTask := msg\<rparr>) w else w)"

fun resumeCont :: "config \<Rightarrow> int \<Rightarrow> views \<Rightarrow> cont \<Rightarrow> reply \<Rightarrow> world \<Rightarrow> world" where
  "resumeCont cfg now v (CreateWait r e q) x w = created r e q x w"
| "resumeCont cfg now v (StartFailed r) x w = failRun ''start failed'' now v r w"
| "resumeCont cfg now v (BeforeStartWait r e msg) x w = lifecycleStarted cfg r e msg x w"
| "resumeCont cfg now v (PromptWait r e msg) x w = promptDone cfg now v r e x w"
| "resumeCont cfg now v (StopWait r e) x w =
     finishEnd cfg now r e (case x of StopReply c \<Rightarrow> c | _ \<Rightarrow> None) w"
| "resumeCont cfg now v (AbortWait r e) x w = settleAborted cfg r e w"
| "resumeCont cfg now v (IntStopWait r e) x w = (if epoch (runOf w r) = e + 1 then markSettled cfg r w else w)"
| "resumeCont cfg now v (FailRelease r) x w = markSettled cfg r w"
| "resumeCont cfg now v (FollowUpSettle r k msg) x w = followUpSettled cfg r msg w"
| "resumeCont cfg now v (FollowActive r msg) x w = followedActive r msg x w"
| "resumeCont cfg now v (ResumeSettle r k msg) x w = resumeSettled cfg r msg w"
| "resumeCont cfg now v (ReopenWait r e msg) x w = reopened r e msg x w"
| "resumeCont cfg now v (ResumeFailed r) x w = failRun ''Unable to reopen subagent'' now v r w"
| "resumeCont cfg now v (DisposeSettle r k) x w = releaseHandle r w"

text \<open>
  What the promise of \<open>SubagentRun.start\<close> settles with at the \<open>await\<close> it resumes from; \<open>None\<close> when it
  goes on to another one. \<open>startRun\<close>, and so \<open>spawn\<close>, waits for it: a rejection suspends
  \<open>StartFailed\<close>, which fails the run and then throws the same error to the caller of \<open>spawn\<close>, and
  otherwise \<open>spawn\<close> returns the snapshot.
\<close>

datatype start_error =
    CreateRejected
  | SpawnDisposed
  | SpawnChanged
  | IdentityConflict subagent_error
  | BeforeStartRejected
  | StartBlocked string

fun startAnswer :: "world \<Rightarrow> cont \<Rightarrow> reply \<Rightarrow> (start_error + unit) option" where
  "startAnswer w (CreateWait r e q) x =
     (case x of
        Handle h \<Rightarrow>
          (if \<not> isCurrent w r e
           then Some (Inl (if runDisposed (runOf w r) \<or> halted w then SpawnDisposed else SpawnChanged))
           else case attachHandle h r w of
                  Inl err \<Rightarrow> Some (Inl (IdentityConflict err))
                | Inr w1 \<Rightarrow> None)
      | _ \<Rightarrow> Some (Inl CreateRejected))"
| "startAnswer w (BeforeStartWait r e msg) x =
     (let blocked = (case x of StartReply m b \<Rightarrow> b | _ \<Rightarrow> None)
      in if x = Rejected then Some (Inl BeforeStartRejected)
         else if \<not> isCurrent w r e then Some (Inr ())
         else if truthy blocked then Some (Inl (StartBlocked (the blocked)))
         else Some (Inr ()))"
| "startAnswer w c x = None"

section \<open>Calls of the dispatcher\<close>

definition createRun :: "snapshot \<Rightarrow> spawn_request option \<Rightarrow> world \<Rightarrow> subagent_error + world" where
  "createRun s q w =
     (case addRun (length (runs w)) (agentId s) (taskName s) (slots w) of
        Inl e \<Rightarrow> Inl e
      | Inr p \<Rightarrow> Inr (w\<lparr>runs := runs w @ [newRun s q], slots := p\<rparr>))"

fun restoreAll :: "snapshot list \<Rightarrow> world \<Rightarrow> subagent_error + world" where
  "restoreAll [] w = Inr w"
| "restoreAll (s # ss) w = (case createRun s None w of Inl e \<Rightarrow> Inl e | Inr w1 \<Rightarrow> restoreAll ss w1)"

definition restoreAgents :: "config \<Rightarrow> int \<Rightarrow> snapshot list \<Rightarrow> world \<Rightarrow> subagent_error + world" where
  "restoreAgents cfg now ss w =
     (if halted w then Inl Disposed
      else if entries (slots w) \<noteq> [] then Inl NotEmpty
      else case normalizeSubagentRecoveryState ss (parentId cfg) now of
             Inl e \<Rightarrow> Inl e
           | Inr out \<Rightarrow> restoreAll out w)"

definition disposeRun :: "config \<Rightarrow> int \<Rightarrow> views \<Rightarrow> nat \<Rightarrow> world \<Rightarrow> world" where
  "disposeRun cfg now v r w =
     (if runDisposed (runOf w r) then w
      else let w1 = updRun r (\<lambda>x. x\<lparr>runDisposed := True\<rparr>) w;
               w2 = interruptRun cfg now v r w1
           in suspend (DisposeSettle r (settlement (runOf w2 r))) w2)"

definition clearRuns :: "config \<Rightarrow> int \<Rightarrow> views \<Rightarrow> (snapshot \<Rightarrow> bool) \<Rightarrow> world \<Rightarrow> world" where
  "clearRuns cfg now v P w =
     (let (removed, p) = removeFinished (snapOf w) P (slots w)
      in fold (disposeRun cfg now v) removed (w\<lparr>slots := p\<rparr>))"

definition clearFinished :: "config \<Rightarrow> int \<Rightarrow> views \<Rightarrow> world \<Rightarrow> world" where
  "clearFinished cfg now v w = (if halted w then w else clearRuns cfg now v (\<lambda>s. True) w)"

definition validateRequest :: "config \<Rightarrow> world \<Rightarrow> string list \<Rightarrow> spawn_request \<Rightarrow> subagent_error + string" where
  "validateRequest cfg w reusable q =
     (let name = trim (reqTaskName q)
      in if \<not> isValidTaskName name then Inl (InvalidTaskName (reqTaskName q))
         else if trim (reqMessage q) = [] then Inl EmptyMessage
         else if \<not> knownType (typeRegistry cfg) (reqType q) then Inl (UnknownType (reqType q))
         else if hasTaskName (slots w) name \<and> name \<notin> set reusable then Inl (TaskNameUsed name)
         else Inr name)"

definition reservedSnapshot :: "config \<Rightarrow> int \<Rightarrow> string \<Rightarrow> spawn_request \<Rightarrow> string \<Rightarrow> subagent_status \<Rightarrow> snapshot" where
  "reservedSnapshot cfg now gen q name st =
     \<lparr>agentId = ''pending-'' @ name @ ''-'' @ gen, taskName = name, agentPath = taskPath name, agentType = reqType q,
      agentStatus = st, agentTask = reqMessage q, parentSession = parentId cfg,
      originCall = (if truthy (reqOriginCall q) then reqOriginCall q else None), sessionFile = None, startedAt = now,
      endedAt = None, finalText = None, errorMessage = None, agentUsage = emptyUsage, generation = 0,
      agentTitle = (case reqTitle q of Some t \<Rightarrow> if trim t = [] then None else Some (trim t) | None \<Rightarrow> None),
      deliveryMode = Some (case reqDelivery q of Some m \<Rightarrow> m | None \<Rightarrow> TerminalDelivery), batchId = reqBatch q\<rparr>"

text \<open>
  \<open>reserve\<close>, then the slot or the queue, then the start: the part that \<open>spawn\<close> and \<open>spawnMany\<close>
  share. An error after the reservation leaves the reserved run behind.
\<close>

definition admit :: "config \<Rightarrow> int \<Rightarrow> string \<Rightarrow> spawn_request \<Rightarrow> string \<Rightarrow> bool \<Rightarrow> world \<Rightarrow> (subagent_error + nat) \<times> world" where
  "admit cfg now gen q name hasSlot w =
     (case createRun (reservedSnapshot cfg now gen q name (if hasSlot then StPending else StQueued)) (Some q) w of
        Inl e \<Rightarrow> (Inl e, w)
      | Inr w1 \<Rightarrow>
          (let r = length (runs w); i = agentId (snapOf w1 r)
           in if \<not> hasSlot then (Inr r, w1\<lparr>slots := enqueueRun i (slots w1)\<rparr>)
              else case acquire i (slots w1) of
                     (False, p) \<Rightarrow> (Inl SlotChanged, w1)
                   | (True, p) \<Rightarrow> (Inr r, startSubagent cfg (reqType q) r (w1\<lparr>slots := p\<rparr>))))"

text \<open>
  \<open>spawn\<close> up to its \<open>await\<close> of the start: an error rejects at once, \<open>Inr r\<close> waits for the start of
  the new run \<open>r\<close>, which \<open>startAnswer\<close> settles.
\<close>

definition spawnAgent :: "config \<Rightarrow> int \<Rightarrow> string \<Rightarrow> spawn_request \<Rightarrow> world \<Rightarrow> (subagent_error + nat) \<times> world" where
  "spawnAgent cfg now gen q w =
     (if halted w then (Inl Disposed, w)
      else case validateRequest cfg w [] q of
             Inl e \<Rightarrow> (Inl e, w)
           | Inr name \<Rightarrow>
               (if \<not> hasCapacity (slots w) then (Inl TooMany, w)
                else admit cfg now gen q name True w))"

fun validateMany :: "config \<Rightarrow> world \<Rightarrow> string list \<Rightarrow> string list \<Rightarrow> spawn_request list
    \<Rightarrow> subagent_error + (spawn_request \<times> string) list" where
  "validateMany cfg w reusable seen [] = Inr []"
| "validateMany cfg w reusable seen (q # qs) =
     (case validateRequest cfg w reusable q of
        Inl e \<Rightarrow> Inl e
      | Inr name \<Rightarrow>
          (if name \<in> set seen then Inl (DuplicateTaskName name)
           else map_sum id (Cons (q, name)) (validateMany cfg w reusable (name # seen) qs)))"

fun admitMany :: "config \<Rightarrow> int \<Rightarrow> (nat \<Rightarrow> string) \<Rightarrow> nat \<Rightarrow> (spawn_request \<times> string) list \<Rightarrow> world
    \<Rightarrow> (subagent_error + nat list) \<times> world" where
  "admitMany cfg now gens n [] w = (Inr [], w)"
| "admitMany cfg now gens n ((q, name) # qs) w =
     (case admit cfg now (gens n) q name (hasCapacity (slots w)) w of
        (Inl e, w1) \<Rightarrow> (Inl e, w1)
      | (Inr r, w1) \<Rightarrow>
          (case admitMany cfg now gens (n + 1) qs w1 of
             (Inl e, w2) \<Rightarrow> (Inl e, w2)
           | (Inr rs, w2) \<Rightarrow> (Inr (r # rs), w2)))"

definition reusableOf :: "string list \<Rightarrow> snapshot \<Rightarrow> bool" where
  "reusableOf types s = (agentType s \<in> set types \<and> (agentStatus s = StCompleted \<or> agentStatus s = StFailed))"

definition spawnMany :: "config \<Rightarrow> int \<Rightarrow> views \<Rightarrow> (nat \<Rightarrow> string) \<Rightarrow> spawn_request list \<Rightarrow> world
    \<Rightarrow> (subagent_error + nat list) \<times> world" where
  "spawnMany cfg now v gens qs w =
     (if halted w then (Inl Disposed, w)
      else if qs = [] then (Inl NoWorkflows, w)
      else let types = map reqType qs;
               reusable = map (\<lambda>r. taskName (snapOf w r))
                 (filter (\<lambda>r. reusableOf types (snapOf w r)) (poolValues (slots w)))
           in case validateMany cfg w reusable [] qs of
                Inl e \<Rightarrow> (Inl e, w)
              | Inr validated \<Rightarrow> admitMany cfg now gens 0 validated (clearRuns cfg now v (reusableOf types) w))"

definition sendMessage :: "string \<Rightarrow> string \<Rightarrow> world \<Rightarrow> subagent_error + nat" where
  "sendMessage target msg w =
     (if halted w then Inl Disposed
      else if trim msg = [] then Inl EmptyMessage
      else case resolveTarget (slots w) target of
             None \<Rightarrow> Inl (RunNotFound target)
           | Some r \<Rightarrow> if childHandle (runOf w r) = None then Inl NoLiveSession else Inr r)"

definition followUp :: "string \<Rightarrow> string \<Rightarrow> world \<Rightarrow> (subagent_error + nat) \<times> world" where
  "followUp target msg w =
     (if halted w then (Inl Disposed, w)
      else if trim msg = [] then (Inl EmptyMessage, w)
      else case resolveTarget (slots w) target of
             None \<Rightarrow> (Inl (RunNotFound target), w)
           | Some r \<Rightarrow>
               (if \<not> isTerminalStatus (statusOf w r)
                then (if childHandle (runOf w r) = None then (Inl NoLiveSession, w)
                      else (Inr r, suspend (FollowActive r msg) w))
                else (Inr r, suspend (FollowUpSettle r (settlement (runOf w r)) msg) w)))"

definition interruptRef :: "config \<Rightarrow> int \<Rightarrow> views \<Rightarrow> nat \<Rightarrow> world \<Rightarrow> world" where
  "interruptRef cfg now v r w =
     interruptRun cfg now v r
       (if statusOf w r = StQueued then w\<lparr>slots := removeQueued (agentId (snapOf w r)) (slots w)\<rparr> else w)"

definition interruptTarget :: "config \<Rightarrow> int \<Rightarrow> views \<Rightarrow> string \<Rightarrow> world \<Rightarrow> (subagent_error + nat) \<times> world" where
  "interruptTarget cfg now v target w =
     (if halted w then (Inl Disposed, w)
      else case resolveTarget (slots w) target of
             None \<Rightarrow> (Inl (RunNotFound target), w)
           | Some r \<Rightarrow> (Inr r, interruptRef cfg now v r w))"

fun interruptEach :: "config \<Rightarrow> int \<Rightarrow> views \<Rightarrow> string list \<Rightarrow> world \<Rightarrow> world" where
  "interruptEach cfg now v [] w = w"
| "interruptEach cfg now v (i # ids) w =
     (case interruptTarget cfg now v i w of
        (Inl e, w1) \<Rightarrow> w1
      | (Inr r, w1) \<Rightarrow> interruptEach cfg now v ids w1)"

definition interruptAll :: "config \<Rightarrow> int \<Rightarrow> views \<Rightarrow> world \<Rightarrow> world" where
  "interruptAll cfg now v w =
     (if halted w then w
      else interruptEach cfg now v
        (map agentId (filter (\<lambda>s. \<not> isTerminalStatus (agentStatus s)) (listSnapshots (snapOf w) (slots w)))) w)"

definition disposeAll :: "config \<Rightarrow> int \<Rightarrow> views \<Rightarrow> world \<Rightarrow> world" where
  "disposeAll cfg now v w =
     (if halted w then w
      else let w1 = w\<lparr>halted := True, slots := clearScheduling (slots w)\<rparr>
           in fold (disposeRun cfg now v) (poolValues (slots w1)) w1)"

section \<open>Events of a child\<close>

definition childStarted :: "nat \<Rightarrow> world \<Rightarrow> world" where
  "childStarted r w =
     (if childHandle (runOf w r) \<noteq> None \<and> statusOf w r = StPending
      then updSnap r (\<lambda>s. s\<lparr>agentStatus := StRunning\<rparr>) w else w)"

definition childEnded :: "config \<Rightarrow> int \<Rightarrow> views \<Rightarrow> nat \<Rightarrow> world \<Rightarrow> world" where
  "childEnded cfg now v r w =
     (if childHandle (runOf w r) \<noteq> None then onChildAgentEnd cfg now v r (epoch (runOf w r)) w else w)"

section \<open>Steps\<close>

text \<open>
  What the environment promises: a generated id is that of no run, the session id of a child and
  the ids of restored snapshots are not those of runs the pool has forgotten, and a child ends a
  turn only after it has been prompted.
\<close>

definition fresh :: "world \<Rightarrow> string \<Rightarrow> bool" where
  "fresh w i = (\<forall>r < length (runs w). agentId (snapOf w r) \<noteq> i)"

definition unused :: "world \<Rightarrow> string \<Rightarrow> bool" where
  "unused w i = (\<forall>r < length (runs w). r \<notin> set (poolValues (slots w)) \<longrightarrow> agentId (snapOf w r) \<noteq> i)"

fun honest :: "world \<Rightarrow> reply \<Rightarrow> bool" where
  "honest w (Handle h) = unused w (handleSession h)"
| "honest w x = True"

inductive step :: "config \<Rightarrow> world \<Rightarrow> world \<Rightarrow> bool" for cfg where
  step_restore: "restoreAgents cfg now ss w = Inr w' \<Longrightarrow> \<forall>s \<in> set ss. unused w (agentId s) \<Longrightarrow> step cfg w w'"
| step_spawn: "\<forall>name. fresh w (''pending-'' @ name @ ''-'' @ gen) \<Longrightarrow> step cfg w (snd (spawnAgent cfg now gen q w))"
| step_spawnMany: "\<forall>name n. fresh w (''pending-'' @ name @ ''-'' @ gens n) \<Longrightarrow> step cfg w (snd (spawnMany cfg now v gens qs w))"
| step_followUp: "step cfg w (snd (followUp target msg w))"
| step_interrupt: "step cfg w (snd (interruptTarget cfg now v target w))"
| step_interruptAll: "step cfg w (interruptAll cfg now v w)"
| step_clear: "step cfg w (clearFinished cfg now v w)"
| step_dispose: "step cfg w (disposeAll cfg now v w)"
| step_resume: "c \<in> set (conts w) \<Longrightarrow> ready w c \<Longrightarrow> honest w x \<Longrightarrow>
    step cfg w (resumeCont cfg now v c x (w\<lparr>conts := remove1 c (conts w)\<rparr>))"
| step_started: "r < length (runs w) \<Longrightarrow> step cfg w (childStarted r w)"
| step_ended: "r < length (runs w) \<Longrightarrow> prompted (runOf w r) \<Longrightarrow> step cfg w (childEnded cfg now v r w)"

inductive_cases stepE: "step cfg w w'"

definition initialWorld :: "pool \<Rightarrow> world" where
  "initialWorld p = \<lparr>runs = [], slots = p, halted = False, conts = [], published = []\<rparr>"

definition reachableWorld :: "config \<Rightarrow> nat \<Rightarrow> world \<Rightarrow> bool" where
  "reachableWorld cfg n w =
     (step cfg)\<^sup>*\<^sup>* (initialWorld \<lparr>maxConcurrent = n, entries = [], byTaskName = [], active = [], waitingIds = []\<rparr>) w"

end
