(* ===== verification/SubagentInvariant.thy ===== *)
theory SubagentInvariant
  imports SubagentRun
begin

text \<open>
  The invariant of the subagent scheduler. \<open>poolOk\<close> relates the pool to the heap; \<open>good\<close> says of
  one run of the pool, from its fields, its suspended continuations and whether it holds a slot,
  what makes its execution sound: an unsettled run that is not queued holds its slot, and at most
  one continuation is about to start it, to settle it or to resume it. \<open>slotInv R\<close> exempts the runs of
  \<open>R\<close>, so that an operation on one run opens the invariant for it and closes it at the end.
\<close>

section \<open>Continuations of a run\<close>

fun refOf :: "cont \<Rightarrow> nat" where
  "refOf (CreateWait r e q) = r"
| "refOf (StartFailed r) = r"
| "refOf (BeforeStartWait r e m) = r"
| "refOf (PromptWait r e m) = r"
| "refOf (StopWait r e) = r"
| "refOf (AbortWait r e) = r"
| "refOf (IntStopWait r e) = r"
| "refOf (FailRelease r) = r"
| "refOf (FollowUpSettle r k m) = r"
| "refOf (FollowActive r m) = r"
| "refOf (ResumeSettle r k m) = r"
| "refOf (ReopenWait r e m) = r"
| "refOf (ResumeFailed r) = r"
| "refOf (DisposeSettle r k) = r"

fun starter :: "nat \<Rightarrow> cont \<Rightarrow> bool" where
  "starter e (CreateWait r e' q) = (e' = e)"
| "starter e (BeforeStartWait r e' m) = (e' = e)"
| "starter e (ReopenWait r e' m) = (e' = e)"
| "starter e c = False"

fun busy :: "nat \<Rightarrow> cont \<Rightarrow> bool" where
  "busy e (PromptWait r e' m) = (e' = e)"
| "busy e (StopWait r e') = (e' = e)"
| "busy e c = False"

fun settler :: "nat \<Rightarrow> cont \<Rightarrow> bool" where
  "settler e (AbortWait r e') = (e' + 1 = e)"
| "settler e (IntStopWait r e') = (e' + 1 = e)"
| "settler e (FailRelease r) = True"
| "settler e c = False"

fun resumer :: "cont \<Rightarrow> bool" where
  "resumer (ResumeSettle r k m) = True"
| "resumer c = False"

fun epochBound :: "nat \<Rightarrow> cont \<Rightarrow> bool" where
  "epochBound e (CreateWait r e' q) = (e' \<le> e)"
| "epochBound e (BeforeStartWait r e' m) = (e' \<le> e)"
| "epochBound e (ReopenWait r e' m) = (e' \<le> e)"
| "epochBound e (PromptWait r e' m) = (e' \<le> e)"
| "epochBound e (StopWait r e') = (e' \<le> e)"
| "epochBound e (AbortWait r e') = (e' < e)"
| "epochBound e (IntStopWait r e') = (e' < e)"
| "epochBound e c = True"

definition contsOf :: "nat \<Rightarrow> world \<Rightarrow> cont list" where
  "contsOf r w = filter (\<lambda>c. refOf c = r) (conts w)"

text \<open>How many of the continuations of a run are of a kind.\<close>

definition howMany :: "(cont \<Rightarrow> bool) \<Rightarrow> cont list \<Rightarrow> nat" where
  "howMany P cs = length (filter P cs)"

lemma howMany_simps [simp]:
  "howMany P [] = 0" "howMany P (cs @ ds) = howMany P cs + howMany P ds"
  "howMany P [c] = (if P c then 1 else 0)"
  by (simp_all add: howMany_def)

lemma howMany_remove1: "c \<in> set cs \<Longrightarrow> howMany P (remove1 c cs) = howMany P cs - (if P c then 1 else 0)"
  by (simp add: howMany_def filter_remove1 length_remove1)

lemma howMany_0: "howMany P cs = 0 \<longleftrightarrow> (\<forall>c \<in> set cs. \<not> P c)"
  by (simp add: howMany_def filter_empty_conv)

lemma howMany_pos: "c \<in> set cs \<Longrightarrow> P c \<Longrightarrow> 0 < howMany P cs"
  by (metis howMany_0 gr0I)

definition good :: "agent_run \<Rightarrow> cont list \<Rightarrow> bool \<Rightarrow> bool" where
  "good x cs slot =
     (let st = agentStatus (snap x); e = epoch x
      in (isSettled x \<or> st = StQueued \<or> slot) \<and>
         (isSettled x \<longrightarrow> isTerminalStatus st) \<and>
         (st = StQueued \<longrightarrow> childHandle x = None \<and> \<not> startCompleted x \<and> cs = []) \<and>
         list_all (epochBound e) cs \<and>
         howMany (starter e) cs + howMany (settler e) cs + howMany resumer cs \<le> 1 \<and>
         (0 < howMany (starter e) cs \<longrightarrow>
            \<not> isSettled x \<and> (childHandle x = None \<or> \<not> prompted x) \<and> howMany (busy e) cs = 0) \<and>
         (0 < howMany (settler e) cs \<longrightarrow> isTerminalStatus st \<and> \<not> isSettled x) \<and>
         (0 < howMany resumer cs \<longrightarrow> isSettled x \<and> slot))"

section \<open>The invariant\<close>

definition poolOk :: "world \<Rightarrow> bool" where
  "poolOk w =
     (distinct (map fst (entries (slots w))) \<and> distinct (poolValues (slots w)) \<and>
      (\<forall>(k, r) \<in> set (entries (slots w)). r < length (runs w) \<and> agentId (snapOf w r) = k) \<and>
      (\<forall>r < length (runs w). r \<notin> set (poolValues (slots w)) \<longrightarrow>
         agentId (snapOf w r) \<notin> set (map fst (entries (slots w)))) \<and>
      distinct (active (slots w)) \<and> length (active (slots w)) \<le> maxConcurrent (slots w) \<and>
      (\<forall>i \<in> set (active (slots w)). \<exists>r < length (runs w). agentId (snapOf w r) = i) \<and>
      (\<forall>c \<in> set (conts w). refOf c < length (runs w)))"

definition holdsSlot :: "world \<Rightarrow> nat \<Rightarrow> bool" where
  "holdsSlot w r = (agentId (snapOf w r) \<in> set (active (slots w)))"

definition goodAt :: "world \<Rightarrow> nat \<Rightarrow> bool" where
  "goodAt w r = good (runOf w r) (contsOf r w) (holdsSlot w r)"

definition slotInv :: "nat set \<Rightarrow> world \<Rightarrow> bool" where
  "slotInv R w = (poolOk w \<and> (\<not> halted w \<longrightarrow> (\<forall>r \<in> set (poolValues (slots w)). r \<notin> R \<longrightarrow> goodAt w r)))"

lemma poolOkD:
  assumes "poolOk w"
  shows "(k, r) \<in> set (entries (slots w)) \<Longrightarrow> r < length (runs w)"
    "(k, r) \<in> set (entries (slots w)) \<Longrightarrow> agentId (snapOf w r) = k"
    "r \<in> set (poolValues (slots w)) \<Longrightarrow> r < length (runs w)"
    "r \<in> set (poolValues (slots w)) \<Longrightarrow> (agentId (snapOf w r), r) \<in> set (entries (slots w))"
  using assms by (auto simp: poolOk_def poolValues_def)

lemma ids_differ:
  assumes "poolOk w" "r \<in> set (poolValues (slots w))" "s < length (runs w)" "s \<noteq> r"
  shows "agentId (snapOf w s) \<noteq> agentId (snapOf w r)"
proof (cases "s \<in> set (poolValues (slots w))")
  case True
  have "(agentId (snapOf w s), s) \<in> set (entries (slots w))" "(agentId (snapOf w r), r) \<in> set (entries (slots w))"
    using poolOkD(4) [OF assms(1)] True assms(2) by blast+
  moreover have "distinct (map fst (entries (slots w)))" using assms(1) by (simp add: poolOk_def)
  ultimately show ?thesis using assms(4) by (metis map_of_is_SomeI option.inject)
next
  case False
  then have "agentId (snapOf w s) \<notin> set (map fst (entries (slots w)))"
    using assms(1,3) by (simp add: poolOk_def)
  moreover have "agentId (snapOf w r) \<in> set (map fst (entries (slots w)))"
    using poolOkD(4) [OF assms(1,2)] by force
  ultimately show ?thesis by metis
qed

lemma inv_weaken: "slotInv R w \<Longrightarrow> R \<subseteq> S \<Longrightarrow> slotInv S w"
  by (auto simp: slotInv_def)

lemma inv_close:
  assumes "slotInv (insert r R) w" "\<not> halted w \<Longrightarrow> r \<in> set (poolValues (slots w)) \<Longrightarrow> r \<notin> R \<Longrightarrow> goodAt w r"
  shows "slotInv R w"
  using assms by (auto simp: slotInv_def)

section \<open>Updates of one run\<close>

lemma length_upd [simp]:
  "length (runs (updRun r f w)) = length (runs w)" "length (runs (updSnap r g w)) = length (runs w)"
  "length (runs (suspend c w)) = length (runs w)" "length (runs (releaseHandle r w)) = length (runs w)"
  by (simp_all add: updRun_def updSnap_def suspend_def releaseHandle_def)

lemma upd_fields [simp]:
  "conts (updRun r f w) = conts w" "halted (updRun r f w) = halted w" "published (updRun r f w) = published w"
  "conts (updSnap r g w) = conts w" "halted (updSnap r g w) = halted w" "published (updSnap r g w) = published w"
  "conts (suspend c w) = conts w @ [c]" "halted (suspend c w) = halted w" "published (suspend c w) = published w"
  "runs (suspend c w) = runs w"
  "conts (releaseHandle r w) = conts w" "halted (releaseHandle r w) = halted w" "published (releaseHandle r w) = published w"
  "slots (releaseHandle r w) = slots w"
  by (simp_all add: updRun_def updSnap_def suspend_def releaseHandle_def)

lemma runOf_upd: "r < length (runs w) \<Longrightarrow> runOf (updRun r f w) s = (if s = r then f (runOf w r) else runOf w s)"
  by (simp add: runOf_def updRun_def)

lemma runOf_same [simp]:
  "runOf (suspend c w) s = runOf w s" "runOf (w\<lparr>slots := p\<rparr>) s = runOf w s" "runOf (w\<lparr>conts := cs\<rparr>) s = runOf w s"
  "runOf (w\<lparr>published := ps\<rparr>) s = runOf w s" "runOf (w\<lparr>halted := b\<rparr>) s = runOf w s"
  by (simp_all add: runOf_def suspend_def)

lemma snapOf_same [simp]:
  "snapOf (suspend c w) = snapOf w" "snapOf (w\<lparr>slots := p\<rparr>) = snapOf w" "snapOf (w\<lparr>conts := cs\<rparr>) = snapOf w"
  "snapOf (w\<lparr>published := ps\<rparr>) = snapOf w" "snapOf (w\<lparr>halted := b\<rparr>) = snapOf w"
  by (simp_all add: snapOf_def fun_eq_iff)

lemma contsOf_simps [simp]:
  "contsOf s (suspend c w) = contsOf s w @ (if refOf c = s then [c] else [])"
  "contsOf s (updRun r f w) = contsOf s w" "contsOf s (w\<lparr>slots := p\<rparr>) = contsOf s w"
  "contsOf s (w\<lparr>published := ps\<rparr>) = contsOf s w" "contsOf s (w\<lparr>halted := b\<rparr>) = contsOf s w"
  "contsOf s (updSnap r g w) = contsOf s w"
  by (simp_all add: contsOf_def)

lemma snapOf_upd: "r < length (runs w) \<Longrightarrow> snapOf (updRun r f w) s = (if s = r then snap (f (runOf w r)) else snapOf w s)"
  by (simp add: snapOf_def runOf_upd)

text \<open>An update keeps identity when it does not touch the id of the snapshot.\<close>

definition keepsId :: "(agent_run \<Rightarrow> agent_run) \<Rightarrow> bool" where
  "keepsId f = (\<forall>x. agentId (snap (f x)) = agentId (snap x))"

lemma agentId_upd:
  assumes "keepsId f"
  shows "agentId (snapOf (updRun r f w) s) = agentId (snapOf w s)"
proof (cases "r < length (runs w)")
  case False
  then show ?thesis by (simp add: updRun_def snapOf_def runOf_def list_update_beyond)
next
  case True
  then show ?thesis using assms unfolding snapOf_upd [OF True] by (simp add: keepsId_def snapOf_def)
qed

lemma poolOk_upd: "keepsId f \<Longrightarrow> poolOk (updRun r f w) \<longleftrightarrow> poolOk w"
  by (simp add: poolOk_def agentId_upd)

lemma inv_upd:
  assumes "slotInv R w" "keepsId f" "r \<in> R"
  shows "slotInv R (updRun r f w)"
proof -
  have "goodAt (updRun r f w) s = goodAt w s" if "s \<noteq> r" for s
  proof (cases "r < length (runs w)")
    case True
    then show ?thesis using that assms(2) by (simp add: goodAt_def holdsSlot_def agentId_upd runOf_upd)
  next
    case False
    then show ?thesis by (simp add: updRun_def list_update_beyond)
  qed
  then have "goodAt (updRun r f w) s = goodAt w s" if "s \<notin> R" for s
    using that assms(3) by metis
  then show ?thesis using assms by (simp add: slotInv_def poolOk_upd)
qed

lemma inv_suspend: "slotInv R w \<Longrightarrow> refOf c \<in> R \<Longrightarrow> refOf c < length (runs w) \<Longrightarrow> slotInv R (suspend c w)"
  by (auto simp: slotInv_def poolOk_def goodAt_def holdsSlot_def)

lemma contsOf_remove1:
  "contsOf s (w\<lparr>conts := remove1 c (conts w)\<rparr>) = (if refOf c = s then remove1 c (contsOf s w) else contsOf s w)"
  by (simp add: contsOf_def filter_remove1 remove1_idem)

lemma inv_remove: "slotInv R w \<Longrightarrow> refOf c \<in> R \<Longrightarrow> slotInv R (w\<lparr>conts := remove1 c (conts w)\<rparr>)"
  by (auto simp: slotInv_def poolOk_def goodAt_def holdsSlot_def contsOf_remove1 dest: in_set_remove1 [THEN iffD1, rotated] notin_set_remove1)

lemma good_without_handle: "good x cs slot \<Longrightarrow> good (x\<lparr>childHandle := None\<rparr>) cs slot"
  by (simp add: good_def Let_def)

lemma keepsId_handle [simp]: "keepsId (\<lambda>x. x\<lparr>childHandle := None\<rparr>)"
  by (simp add: keepsId_def)

lemma releaseHandle_run: "runOf (releaseHandle r w) s =
    (if s = r \<and> r < length (runs w) then (runOf w s)\<lparr>childHandle := None\<rparr> else runOf w s)"
  by (auto simp: releaseHandle_def runOf_def updRun_def nth_list_update list_update_beyond)

lemma contsOf_release [simp]: "contsOf s (releaseHandle r w) = contsOf s w"
  by (simp add: releaseHandle_def)

lemma inv_release: "slotInv R w \<Longrightarrow> slotInv R (releaseHandle r w)"
proof -
  assume inv: "slotInv R w"
  have "goodAt (releaseHandle r w) s" if "goodAt w s" for s
    using that agentId_upd [of "\<lambda>x. x\<lparr>childHandle := None\<rparr>" r w s]
    by (auto simp: goodAt_def holdsSlot_def releaseHandle_run good_without_handle simp flip: releaseHandle_def)
  then show ?thesis
    using inv poolOk_upd [of "\<lambda>x. x\<lparr>childHandle := None\<rparr>" r w] by (auto simp: slotInv_def simp flip: releaseHandle_def)
qed

lemma inv_trim: "slotInv R w \<Longrightarrow> slotInv R (trimTerminalHandles w)"
proof -
  have "slotInv R w \<Longrightarrow> slotInv R (fold releaseHandle rs w)" for rs
    by (induction rs arbitrary: w) (auto intro: inv_release)
  then show "slotInv R w \<Longrightarrow> slotInv R (trimTerminalHandles w)" by (simp add: trimTerminalHandles_def Let_def)
qed

text \<open>What trimming leaves of a world: everything but the handles of some terminal runs.\<close>

definition sameBut :: "world \<Rightarrow> world \<Rightarrow> bool" where
  "sameBut w w' =
     (slots w' = slots w \<and> halted w' = halted w \<and> conts w' = conts w \<and> published w' = published w \<and>
      length (runs w') = length (runs w) \<and>
      (\<forall>s. runOf w' s = runOf w s \<or> runOf w' s = (runOf w s)\<lparr>childHandle := None\<rparr>))"

lemma sameBut_refl: "sameBut w w"
  by (simp add: sameBut_def)

lemma sameBut_release:
  assumes "sameBut w w'"
  shows "sameBut w (releaseHandle r w')"
proof -
  have "(runOf w' s)\<lparr>childHandle := None\<rparr> = (runOf w s)\<lparr>childHandle := None\<rparr>" for s
  proof -
    have "runOf w' s = runOf w s \<or> runOf w' s = (runOf w s)\<lparr>childHandle := None\<rparr>" using assms by (simp add: sameBut_def)
    then show ?thesis by (elim disjE) simp_all
  qed
  then show ?thesis using assms unfolding sameBut_def releaseHandle_run by auto
qed

lemma sameBut_trim: "sameBut w (trimTerminalHandles w)"
proof -
  have "sameBut w w' \<Longrightarrow> sameBut w (fold releaseHandle rs w')" for rs w'
    by (induction rs arbitrary: w') (auto intro: sameBut_release)
  then show ?thesis by (simp add: trimTerminalHandles_def Let_def sameBut_refl)
qed

lemma sameBut_snap: "sameBut w w' \<Longrightarrow> snapOf w' s = snapOf w s"
  unfolding sameBut_def snapOf_def by (metis agent_run.select_convs(1) agent_run.surjective agent_run.update_convs(2))

lemma trim_fields [simp]:
  "slots (trimTerminalHandles w) = slots w" "halted (trimTerminalHandles w) = halted w"
  "conts (trimTerminalHandles w) = conts w" "published (trimTerminalHandles w) = published w"
  "length (runs (trimTerminalHandles w)) = length (runs w)" "snapOf (trimTerminalHandles w) = snapOf w"
  using sameBut_trim [of w] sameBut_snap [OF sameBut_trim [of w]] by (auto simp: sameBut_def)

lemma terminal_fields [simp]:
  "slots (handleTerminal r w) = slots w" "halted (handleTerminal r w) = halted w" "conts (handleTerminal r w) = conts w"
  "length (runs (handleTerminal r w)) = length (runs w)" "snapOf (handleTerminal r w) = snapOf w"
  "contsOf s (handleTerminal r w) = contsOf s w"
  by (simp_all add: handleTerminal_def contsOf_def)

lemma terminal_run: "runOf (handleTerminal r w) s = runOf w s \<or> runOf (handleTerminal r w) s = (runOf w s)\<lparr>childHandle := None\<rparr>"
  using sameBut_trim [of w] by (simp add: handleTerminal_def sameBut_def)

lemma inv_published: "slotInv R (w\<lparr>published := ps\<rparr>) \<longleftrightarrow> slotInv R w"
  by (simp add: slotInv_def poolOk_def goodAt_def holdsSlot_def)

lemma inv_terminal: "slotInv R w \<Longrightarrow> slotInv R (handleTerminal r w)"
  by (simp add: handleTerminal_def inv_published inv_trim)

section \<open>Slots\<close>

text \<open>A change of the pool that keeps its runs.\<close>

lemma inv_slots:
  assumes "slotInv R w" "entries p = entries (slots w)" "distinct (active p)" "length (active p) \<le> maxConcurrent p"
    and "\<And>i. i \<in> set (active p) \<Longrightarrow> i \<in> set (active (slots w)) \<or> (\<exists>r < length (runs w). agentId (snapOf w r) = i)"
    and "\<And>s. s \<in> set (poolValues (slots w)) \<Longrightarrow> s \<notin> R \<Longrightarrow>
       agentId (snapOf w s) \<in> set (active p) \<longleftrightarrow> agentId (snapOf w s) \<in> set (active (slots w))"
  shows "slotInv R (w\<lparr>slots := p\<rparr>)"
proof -
  have "\<exists>r < length (runs w). agentId (snapOf w r) = i" if "i \<in> set (active p)" for i
    using assms(5) [OF that] assms(1) by (auto simp: slotInv_def poolOk_def)
  then have "poolOk (w\<lparr>slots := p\<rparr>)" using assms(1-4) by (simp add: slotInv_def poolOk_def poolValues_def)
  then show ?thesis using assms(1,2,6) by (simp add: slotInv_def goodAt_def holdsSlot_def poolValues_def)
qed

lemma removeAll_active: "distinct xs \<Longrightarrow> length xs \<le> n \<Longrightarrow> distinct (removeAll x xs) \<and> length (removeAll x xs) \<le> n"
  using order_trans [OF length_filter_le [of "(\<noteq>) x" xs]] by (simp add: removeAll_filter_not_eq)

lemma inv_releaseSlot:
  assumes "slotInv R w" "r \<in> R" "r < length (runs w)"
  shows "slotInv R (w\<lparr>slots := releaseSlot (agentId (snapOf w r)) (slots w)\<rparr>)"
proof (rule inv_slots [OF assms(1)])
  have ok: "poolOk w" using assms(1) by (simp add: slotInv_def)
  then have "distinct (active (slots w))" "length (active (slots w)) \<le> maxConcurrent (slots w)"
    by (auto simp: poolOk_def)
  then show "distinct (active (releaseSlot (agentId (snapOf w r)) (slots w)))"
    "length (active (releaseSlot (agentId (snapOf w r)) (slots w))) \<le> maxConcurrent (releaseSlot (agentId (snapOf w r)) (slots w))"
    using removeAll_active [of "active (slots w)" "maxConcurrent (slots w)" "agentId (snapOf w r)"]
    by (simp_all add: releaseSlot_def)
  show "agentId (snapOf w s) \<in> set (active (releaseSlot (agentId (snapOf w r)) (slots w))) \<longleftrightarrow>
      agentId (snapOf w s) \<in> set (active (slots w))" if "s \<in> set (poolValues (slots w))" "s \<notin> R" for s
    using ids_differ [OF ok that(1) assms(3)] that(2) assms(2) by (auto simp: releaseSlot_def dest: sym)
qed (simp_all add: releaseSlot_def)

lemma acquire_slots:
  assumes "acquire i p = (b, p')"
  shows "entries p' = entries p" "maxConcurrent p' = maxConcurrent p" "b \<Longrightarrow> active p' = active p @ [i] \<and> i \<notin> set (active p) \<and> hasCapacity p"
    "\<not> b \<Longrightarrow> p' = p"
  using assms by (auto simp: acquire_def split: if_splits)

lemma inv_acquire:
  assumes "slotInv R w" "r \<in> R" "r < length (runs w)" "acquire (agentId (snapOf w r)) (slots w) = (b, p)"
  shows "slotInv R (w\<lparr>slots := p\<rparr>)"
proof (cases b)
  case True
  note p = acquire_slots [OF assms(4)]
  have ok: "poolOk w" using assms(1) by (simp add: slotInv_def)
  show ?thesis
  proof (rule inv_slots [OF assms(1)])
    show "distinct (active p)" "length (active p) \<le> maxConcurrent p"
      using ok p True by (auto simp: poolOk_def hasCapacity_def)
    show "agentId (snapOf w s) \<in> set (active p) \<longleftrightarrow> agentId (snapOf w s) \<in> set (active (slots w))"
      if "s \<in> set (poolValues (slots w))" "s \<notin> R" for s
      using ids_differ [OF ok that(1) assms(3)] that(2) assms(2) p(3) True by (auto dest: sym)
    show "i \<in> set (active (slots w)) \<or> (\<exists>r < length (runs w). agentId (snapOf w r) = i)" if "i \<in> set (active p)" for i
      using p(3) True that assms(3) by auto
  qed (simp add: p)
next
  case False
  then show ?thesis using acquire_slots(4) [OF assms(4)] assms(1) by simp
qed

end
