(* ===== verification/SubagentOperations.thy ===== *)
theory SubagentOperations
  imports SubagentInvariant
begin

text \<open>
  Every operation of a run keeps the invariant: starting and draining the queue, settling,
  interrupting and failing, the end of a turn, and each continuation when it is resumed.
\<close>

section \<open>What good asks in the situations that arise\<close>

lemma goodAtD:
  assumes "goodAt w r"
  shows "isSettled (runOf w r) \<or> statusOf w r = StQueued \<or> holdsSlot w r"
    "isSettled (runOf w r) \<Longrightarrow> isTerminalStatus (statusOf w r)"
    "statusOf w r = StQueued \<Longrightarrow> childHandle (runOf w r) = None \<and> \<not> startCompleted (runOf w r) \<and> contsOf r w = []"
    "list_all (epochBound (epoch (runOf w r))) (contsOf r w)"
    "howMany (starter (epoch (runOf w r))) (contsOf r w) + howMany (settler (epoch (runOf w r))) (contsOf r w) +
       howMany resumer (contsOf r w) \<le> 1"
    "0 < howMany (starter (epoch (runOf w r))) (contsOf r w) \<Longrightarrow> \<not> isSettled (runOf w r) \<and>
       (childHandle (runOf w r) = None \<or> \<not> prompted (runOf w r)) \<and> howMany (busy (epoch (runOf w r))) (contsOf r w) = 0"
    "0 < howMany (settler (epoch (runOf w r))) (contsOf r w) \<Longrightarrow> isTerminalStatus (statusOf w r) \<and> \<not> isSettled (runOf w r)"
    "0 < howMany resumer (contsOf r w) \<Longrightarrow> isSettled (runOf w r) \<and> holdsSlot w r"
  using assms by (auto simp: goodAt_def good_def Let_def snapOf_def)

lemma terminal_not_queued [simp]: "\<not> isTerminalStatus StQueued" "\<not> isTerminalStatus StPending" "\<not> isTerminalStatus StRunning"
  "isTerminalStatus StCompleted" "isTerminalStatus StFailed" "isTerminalStatus StInterrupted"
  by (simp_all add: isTerminalStatus_def)

lemma terminal_not_active: "isActiveStatus s \<Longrightarrow> \<not> isTerminalStatus s" "isActiveStatus s \<Longrightarrow> s \<noteq> StQueued"
  by (auto simp: isActiveStatus_def)

text \<open>A continuation of an older epoch is of no kind that counts at a newer one.\<close>

lemma older_epoch:
  assumes "list_all (epochBound e) cs"
  shows "howMany (starter (Suc e)) cs = 0" "howMany (busy (Suc e)) cs = 0"
    "howMany (settler (Suc e)) cs = 0 \<longleftrightarrow> (\<forall>c \<in> set cs. \<forall>r. c \<noteq> FailRelease r)"
    "list_all (epochBound (Suc e)) cs"
proof -
  have c: "\<not> starter (Suc e) c" "\<not> busy (Suc e) c" "settler (Suc e) c \<longleftrightarrow> (\<exists>r. c = FailRelease r)" "epochBound (Suc e) c"
    if "epochBound e c" for c
    using that by (cases c; auto)+
  then show "howMany (starter (Suc e)) cs = 0" "howMany (busy (Suc e)) cs = 0"
    "howMany (settler (Suc e)) cs = 0 \<longleftrightarrow> (\<forall>c \<in> set cs. \<forall>r. c \<noteq> FailRelease r)" "list_all (epochBound (Suc e)) cs"
    using assms by (auto simp: howMany_0 list_all_iff)
qed

lemma no_settler_next:
  assumes "list_all (epochBound e) cs" "howMany (settler e) cs = 0"
  shows "howMany (settler (Suc e)) cs = 0"
  unfolding older_epoch(3) [OF assms(1)] using assms(2) by (auto simp: howMany_0)

text \<open>A run about to settle.\<close>

definition closing :: "agent_run \<Rightarrow> cont list \<Rightarrow> bool" where
  "closing x cs =
     (isTerminalStatus (agentStatus (snap x)) \<and> list_all (epochBound (epoch x)) cs \<and>
      howMany (starter (epoch x)) cs + howMany (settler (epoch x)) cs + howMany resumer cs = 0)"

lemma closing_good: "closing x cs \<Longrightarrow> isSettled x \<Longrightarrow> good x cs slot"
  by (auto simp: closing_def good_def Let_def)

text \<open>A run that executes: it holds its slot and nothing is about to start, settle or resume it.\<close>

definition executing :: "agent_run \<Rightarrow> cont list \<Rightarrow> bool \<Rightarrow> bool" where
  "executing x cs slot =
     (slot \<and> \<not> isSettled x \<and> agentStatus (snap x) \<noteq> StQueued \<and> list_all (epochBound (epoch x)) cs \<and>
      howMany (starter (epoch x)) cs + howMany (settler (epoch x)) cs + howMany resumer cs = 0)"

lemma executing_good: "executing x cs slot \<Longrightarrow> good x cs slot"
  by (auto simp: executing_def good_def Let_def)

section \<open>Starting\<close>

lemma keepsId_simps [simp]:
  "keepsId (\<lambda>x. x\<lparr>queuedRequest := q\<rparr>)" "keepsId (\<lambda>x. x\<lparr>epoch := f x\<rparr>)" "keepsId (\<lambda>x. x\<lparr>isSettled := b\<rparr>)"
  "keepsId (\<lambda>x. x\<lparr>startCompleted := b\<rparr>)" "keepsId (\<lambda>x. x\<lparr>runDisposed := b\<rparr>)"
  "keepsId (\<lambda>x. x\<lparr>epoch := f x, queuedRequest := q\<rparr>)"
  "keepsId (\<lambda>x. x\<lparr>stopCount := g x, endingEpoch := n\<rparr>)"
  "keepsId (\<lambda>x. if endingEpoch x = n then x\<lparr>endingEpoch := m\<rparr> else x)"
  "keepsId (\<lambda>x. x\<lparr>snap := (snap x)\<lparr>agentStatus := st\<rparr>, prompted := b\<rparr>)"
  "keepsId (\<lambda>x. x\<lparr>endingEpoch := n, snap := (snap x)\<lparr>finalText := h x\<rparr>\<rparr>)"
  "keepsId (\<lambda>x. x\<lparr>epoch := f x, stopCount := k, endingEpoch := n, isSettled := b, settlement := g x,
     snap := (snap x)\<lparr>agentStatus := st, agentTask := t, endedAt := tm, errorMessage := err\<rparr>\<rparr>)"
  by (simp_all add: keepsId_def)

lemma keepsId_snap: "(\<And>s. agentId (g s) = agentId s) \<Longrightarrow> keepsId (\<lambda>x. x\<lparr>snap := g (snap x)\<rparr>)"
  by (simp add: keepsId_def)

lemma inv_updSnap: "slotInv R w \<Longrightarrow> (\<And>s. agentId (g s) = agentId s) \<Longrightarrow> r \<in> R \<Longrightarrow> slotInv R (updSnap r g w)"
  unfolding updSnap_def by (intro inv_upd keepsId_snap)

lemma holdsSlot_upd: "keepsId f \<Longrightarrow> holdsSlot (updRun r f w) s = holdsSlot w s"
  by (simp add: holdsSlot_def agentId_upd)

lemma holdsSlot_same [simp]:
  "holdsSlot (suspend c w) s = holdsSlot w s" "holdsSlot (w\<lparr>conts := cs\<rparr>) s = holdsSlot w s"
  "holdsSlot (handleTerminal r w) s = holdsSlot w s"
  by (simp_all add: holdsSlot_def)

lemma inv_startSubagent:
  assumes "slotInv {r} w" "r < length (runs w)" "holdsSlot w r" "\<not> isSettled (runOf w r)" "statusOf w r \<noteq> StQueued"
    "childHandle (runOf w r) = None" "contsOf r w = []"
  shows "slotInv {} (startSubagent cfg ty r w)"
proof (rule inv_close [where r = r])
  show "slotInv (insert r {}) (startSubagent cfg ty r w)"
    using assms(1,2) by (auto simp: startSubagent_def intro!: inv_suspend inv_upd split: option.split)
  show "goodAt (startSubagent cfg ty r w) r"
    using assms by (auto simp: startSubagent_def goodAt_def good_def Let_def runOf_upd holdsSlot_upd snapOf_def howMany_def split: option.split)
qed

lemma takeLoop_found:
  "takeLoop sn es q = (Some (i, r), q') \<Longrightarrow> map_of es i = Some r \<and> agentStatus (sn r) = StQueued"
  by (induction sn es q rule: takeLoop.induct) (auto split: if_splits option.splits)

lemma takeNext_found:
  assumes "takeNext sn p = (Some r, p')"
  obtains i where "map_of (entries p) i = Some r" "agentStatus (sn r) = StQueued" "hasCapacity p"
    "entries p' = entries p" "maxConcurrent p' = maxConcurrent p" "active p' = setAdd i (active p)"
  using assms that by (auto simp: takeNext_def dest: takeLoop_found split: if_splits prod.splits option.splits)

lemma takeNext_none: "takeNext sn p = (None, p') \<Longrightarrow> entries p' = entries p \<and> maxConcurrent p' = maxConcurrent p \<and> active p' = active p"
  by (auto simp: takeNext_def split: if_splits prod.splits option.splits)

lemma inv_takeNext:
  assumes "slotInv {} w" "takeNext (snapOf w) (slots w) = (Some r, p)" "\<not> halted w"
  shows "slotInv {r} (w\<lparr>slots := p\<rparr>)" "r \<in> set (poolValues (slots w))" "statusOf w r = StQueued" "holdsSlot (w\<lparr>slots := p\<rparr>) r"
proof -
  obtain i where i: "map_of (entries (slots w)) i = Some r" "statusOf w r = StQueued" "hasCapacity (slots w)"
      "entries p = entries (slots w)" "maxConcurrent p = maxConcurrent (slots w)" "active p = setAdd i (active (slots w))"
    using assms(2) by (rule takeNext_found)
  have ok: "poolOk w" using assms(1) by (simp add: slotInv_def)
  have mem: "(i, r) \<in> set (entries (slots w))" using i(1) by (rule map_of_SomeD)
  then have id: "agentId (snapOf w r) = i" "r < length (runs w)" using poolOkD(1,2) [OF ok] by blast+
  show "r \<in> set (poolValues (slots w))" using mem by (force simp: poolValues_def)
  show "statusOf w r = StQueued" by (rule i(2))
  show "holdsSlot (w\<lparr>slots := p\<rparr>) r" using i(6) id by (auto simp: holdsSlot_def setAdd_def)
  show "slotInv {r} (w\<lparr>slots := p\<rparr>)"
  proof (rule inv_slots)
    show "slotInv {r} w" using assms(1) by (rule inv_weaken) simp
    show "distinct (active p)" "length (active p) \<le> maxConcurrent p"
      using ok i by (auto simp: poolOk_def setAdd_def hasCapacity_def)
    show "agentId (snapOf w s) \<in> set (active p) \<longleftrightarrow> agentId (snapOf w s) \<in> set (active (slots w))"
      if "s \<in> set (poolValues (slots w))" "s \<notin> {r}" for s
      using ids_differ [OF ok that(1) id(2)] that(2) i(6) id(1) by (auto simp: setAdd_def)
    show "j \<in> set (active (slots w)) \<or> (\<exists>s < length (runs w). agentId (snapOf w s) = j)" if "j \<in> set (active p)" for j
      using that i(6) id by (auto simp: setAdd_def split: if_splits)
  qed (rule i(4))
qed

lemma activate_run:
  "r < length (runs w) \<Longrightarrow> runOf (activateQueued r w) r =
     (runOf w r)\<lparr>epoch := epoch (runOf w r) + 1, snap := (snap (runOf w r))\<lparr>agentStatus := StPending\<rparr>\<rparr>"
  by (simp add: activateQueued_def updSnap_def runOf_upd)

lemma activate_fields [simp]:
  "length (runs (activateQueued r w)) = length (runs w)" "contsOf s (activateQueued r w) = contsOf s w"
  "halted (activateQueued r w) = halted w"
  by (simp_all add: activateQueued_def)

lemma inv_activate: "slotInv R w \<Longrightarrow> r \<in> R \<Longrightarrow> slotInv R (activateQueued r w)"
  unfolding activateQueued_def by (intro inv_updSnap inv_upd) simp_all

lemma holdsSlot_activate [simp]: "holdsSlot (activateQueued r w) s = holdsSlot w s"
  unfolding activateQueued_def updSnap_def by (simp add: holdsSlot_upd keepsId_snap)

theorem inv_drain: "slotInv {} w \<Longrightarrow> slotInv {} (drainQueue cfg w)"
proof (induction cfg w rule: drainQueue.induct)
  case (1 cfg w)
  show ?case
  proof (cases "halted w \<or> \<not> hasCapacity (slots w)")
    case True
    then show ?thesis using "1.prems" by (auto simp: drainQueue.simps [of cfg w])
  next
    case False
    show ?thesis
    proof (cases "takeNext (snapOf w) (slots w)")
      case (Pair found p)
      show ?thesis
      proof (cases found)
        case None
        have "slotInv {} (w\<lparr>slots := p\<rparr>)"
          using takeNext_none [of "snapOf w" "slots w" p] Pair None "1.prems"
          by (intro inv_slots) (auto simp: slotInv_def poolOk_def)
        then show ?thesis using False Pair None by (simp add: drainQueue.simps [of cfg w])
      next
        case (Some r)
        note t = inv_takeNext [OF "1.prems" Pair [unfolded Some]]
        let ?w = "activateQueued r (w\<lparr>slots := p\<rparr>)"
        have r: "r < length (runs w)" using t(2) "1.prems" False poolOkD(3) by (simp add: slotInv_def)
        have good: "goodAt w r" using "1.prems" t(2) False by (simp add: slotInv_def)
        have "slotInv {} (startSubagent cfg (agentType (snapOf w r)) r ?w)"
        proof (rule inv_startSubagent)
          show "slotInv {r} ?w" using t(1) False by (intro inv_activate) simp_all
          show "holdsSlot ?w r" using t(4) False by simp
          show "\<not> isSettled (runOf ?w r)" "childHandle (runOf ?w r) = None" "contsOf r ?w = []" "statusOf ?w r \<noteq> StQueued"
            using goodAtD(2,3) [OF good] t(3) False r by (auto simp: activate_run snapOf_def)
        qed (use r in simp)
        then have "slotInv {} (drainQueue cfg (startSubagent cfg (agentType (snapOf w r)) r ?w))"
          using False Pair Some by (intro "1.IH") auto
        then show ?thesis using False Pair Some by (simp add: drainQueue.simps [of cfg w])
      qed
    qed
  qed
qed

section \<open>Settling\<close>

lemma inv_markSettled:
  assumes "slotInv {r} w" "r < length (runs w)"
    and "\<not> halted w \<Longrightarrow> r \<in> set (poolValues (slots w)) \<Longrightarrow> closing (runOf w r) (contsOf r w)"
  shows "slotInv {} (markSettled cfg r w)"
proof (cases "isSettled (runOf w r)")
  case True
  then have "goodAt w r" if "\<not> halted w" "r \<in> set (poolValues (slots w))"
    using assms(3) [OF that] closing_good by (auto simp: goodAt_def)
  then have "slotInv {} w" using assms(1) by (intro inv_close [where r = r and R = "{}"]) auto
  then show ?thesis using True by (simp add: markSettled_def)
next
  case False
  let ?w1 = "updRun r (\<lambda>x. x\<lparr>isSettled := True\<rparr>) w"
  let ?w2 = "?w1\<lparr>slots := releaseSlot (agentId (snapOf ?w1 r)) (slots ?w1)\<rparr>"
  have "slotInv {r} ?w2" using assms(1,2) by (intro inv_releaseSlot inv_upd) simp_all
  then have "slotInv {} ?w2"
  proof (rule inv_close [where R = "{}"])
    assume "\<not> halted ?w2" "r \<in> set (poolValues (slots ?w2))"
    then have "closing (runOf w r) (contsOf r w)" using assms(3) by (simp add: releaseSlot_def poolValues_def)
    then have "closing (runOf ?w2 r) (contsOf r ?w2)" using assms(2) by (simp add: closing_def runOf_upd)
    then show "goodAt ?w2 r" unfolding goodAt_def by (rule closing_good) (use assms(2) in \<open>simp add: runOf_upd\<close>)
  qed
  then show ?thesis using False by (simp add: markSettled_def Let_def inv_drain)
qed

section \<open>Stopping an execution\<close>

lemma usage_final_run:
  assumes "r < length (runs w)"
  shows "epoch (runOf (updateUsage v r (keepFinalText v r w)) r) = epoch (runOf w r)"
    "isSettled (runOf (updateUsage v r (keepFinalText v r w)) r) = isSettled (runOf w r)"
    "childHandle (runOf (updateUsage v r (keepFinalText v r w)) r) = childHandle (runOf w r)"
    "startCompleted (runOf (updateUsage v r (keepFinalText v r w)) r) = startCompleted (runOf w r)"
    "prompted (runOf (updateUsage v r (keepFinalText v r w)) r) = prompted (runOf w r)"
  using assms by (auto simp: updateUsage_def keepFinalText_def updSnap_def runOf_upd split: option.splits)

lemma inv_usage: "slotInv R w \<Longrightarrow> r \<in> R \<Longrightarrow> slotInv R (updateUsage v r w)"
  by (auto simp: updateUsage_def intro!: inv_updSnap split: option.splits)

lemma inv_finalText: "slotInv R w \<Longrightarrow> r \<in> R \<Longrightarrow> slotInv R (keepFinalText v r w)"
  by (auto simp: keepFinalText_def intro!: inv_updSnap split: option.splits)

lemma usage_fields [simp]:
  "slots (updateUsage v r w) = slots w" "halted (updateUsage v r w) = halted w" "conts (updateUsage v r w) = conts w"
  "length (runs (updateUsage v r w)) = length (runs w)" "contsOf s (updateUsage v r w) = contsOf s w"
  "slots (keepFinalText v r w) = slots w" "halted (keepFinalText v r w) = halted w" "conts (keepFinalText v r w) = conts w"
  "length (runs (keepFinalText v r w)) = length (runs w)" "contsOf s (keepFinalText v r w) = contsOf s w"
  by (auto simp: updateUsage_def keepFinalText_def split: option.splits)

lemma commit_fields [simp]:
  "slots (commitTerminal st err now r w) = slots w" "halted (commitTerminal st err now r w) = halted w"
  "conts (commitTerminal st err now r w) = conts w" "length (runs (commitTerminal st err now r w)) = length (runs w)"
  "contsOf s (commitTerminal st err now r w) = contsOf s w"
  by (simp_all add: commitTerminal_def)

lemma inv_commit: "slotInv R w \<Longrightarrow> r \<in> R \<Longrightarrow> slotInv R (commitTerminal st err now r w)"
  unfolding commitTerminal_def by (intro inv_updSnap) simp_all

lemma agentId_updSnap:
  "(\<And>x. agentId (g x) = agentId x) \<Longrightarrow> agentId (snapOf (updSnap r g w) s) = agentId (snapOf w s)"
  unfolding updSnap_def by (intro agentId_upd keepsId_snap)

lemma agentId_usage [simp]:
  "agentId (snapOf (updateUsage v r w) s) = agentId (snapOf w s)"
  "agentId (snapOf (keepFinalText v r w) s) = agentId (snapOf w s)"
  "agentId (snapOf (commitTerminal st err now r w) s) = agentId (snapOf w s)"
  by (auto simp: updateUsage_def keepFinalText_def commitTerminal_def agentId_updSnap split: option.splits)

lemma commit_run: "r < length (runs w) \<Longrightarrow> runOf (commitTerminal st err now r w) r =
    (runOf w r)\<lparr>snap := (snap (runOf w r))\<lparr>agentStatus := st, endedAt := Some now, errorMessage := err,
       generation := generation (snap (runOf w r)) + 1\<rparr>\<rparr>"
  by (simp add: commitTerminal_def updSnap_def runOf_upd)

text \<open>The parts of a run that the invariant looks at, after it has been published as terminal.\<close>

lemma terminal_view:
  assumes "r < length (runs w)"
  shows "epoch (runOf (handleTerminal s (commitTerminal st err now r w)) r) = epoch (runOf w r)"
    "isSettled (runOf (handleTerminal s (commitTerminal st err now r w)) r) = isSettled (runOf w r)"
    "startCompleted (runOf (handleTerminal s (commitTerminal st err now r w)) r) = startCompleted (runOf w r)"
    "agentStatus (snap (runOf (handleTerminal s (commitTerminal st err now r w)) r)) = st"
  using terminal_run [of s "commitTerminal st err now r w" r] commit_run [OF assms, of st err now] by auto

lemma stop_fields [simp]:
  "slots (stopExecution st err now v r w) = slots w" "halted (stopExecution st err now v r w) = halted w"
  "conts (stopExecution st err now v r w) = conts w" "length (runs (stopExecution st err now v r w)) = length (runs w)"
  "contsOf s (stopExecution st err now v r w) = contsOf s w"
  "agentId (snapOf (stopExecution st err now v r w) s) = agentId (snapOf w s)"
  by (simp_all add: stopExecution_def agentId_upd)

lemma stop_view:
  assumes "r < length (runs w)"
  shows "epoch (runOf (stopExecution st err now v r w) r) = Suc (epoch (runOf w r))"
    "isSettled (runOf (stopExecution st err now v r w) r) = isSettled (runOf w r)"
    "startCompleted (runOf (stopExecution st err now v r w) r) = startCompleted (runOf w r)"
    "agentStatus (snap (runOf (stopExecution st err now v r w) r)) = st"
  using assms by (simp_all add: stopExecution_def terminal_view usage_final_run runOf_upd)

lemma inv_stop: "slotInv R w \<Longrightarrow> r \<in> R \<Longrightarrow> slotInv R (stopExecution st err now v r w)"
  unfolding stopExecution_def by (intro inv_terminal inv_commit inv_usage inv_finalText inv_upd) simp_all

text \<open>A run that was not terminal has, once stopped, nothing left that counts.\<close>

lemma stopped_closing:
  assumes "goodAt w r" "\<not> isTerminalStatus (statusOf w r)" "r < length (runs w)" "isTerminalStatus st"
  shows "closing (runOf (stopExecution st err now v r w) r) (contsOf r w)"
proof -
  note g = goodAtD [OF assms(1)]
  have "\<not> isSettled (runOf w r)" using g(2) assms(2) by blast
  then have "howMany resumer (contsOf r w) = 0" using g(8) by blast
  moreover have "howMany (settler (epoch (runOf w r))) (contsOf r w) = 0" using g(7) assms(2) by blast
  ultimately show ?thesis
    using assms(3,4) g(4) older_epoch [OF g(4)] no_settler_next [OF g(4)]
    by (simp add: closing_def stop_view)
qed

lemma good_settling:
  assumes "closing x cs" "settler (epoch x) c" "epochBound (epoch x) c" "\<not> isSettled x" "slot"
  shows "good x (cs @ [c]) slot"
proof -
  have "\<not> starter (epoch x) c" "\<not> resumer c" using assms(2) by (cases c; simp)+
  then show ?thesis using assms by (auto simp: closing_def good_def Let_def)
qed

lemma inv_settleAborted:
  assumes "slotInv {r} w" "r < length (runs w)"
    and "\<not> halted w \<Longrightarrow> r \<in> set (poolValues (slots w)) \<Longrightarrow> closing (runOf w r) (contsOf r w) \<and>
      epoch (runOf w r) = e + 1 \<and> (startCompleted (runOf w r) \<longrightarrow> \<not> isSettled (runOf w r) \<and> holdsSlot w r)"
  shows "slotInv {} (settleAborted cfg r e w)"
proof (cases "startCompleted (runOf w r)")
  case True
  have "slotInv {} (suspend (IntStopWait r e) w)"
  proof (rule inv_close [where r = r])
    show "slotInv (insert r {}) (suspend (IntStopWait r e) w)" using assms(1,2) by (intro inv_suspend) simp_all
    show "goodAt (suspend (IntStopWait r e) w) r" if "\<not> halted (suspend (IntStopWait r e) w)"
      "r \<in> set (poolValues (slots (suspend (IntStopWait r e) w)))"
      using assms(3) that True unfolding goodAt_def by (auto intro!: good_settling)
  qed
  then show ?thesis using True by (simp add: settleAborted_def)
next
  case False
  have "slotInv {} w" if "epoch (runOf w r) \<noteq> e + 1"
    using assms(1,3) that by (intro inv_close [where r = r and R = "{}"]) auto
  then show ?thesis
    using False inv_markSettled [OF assms(1,2)] assms(3) by (auto simp: settleAborted_def)
qed

theorem inv_interrupt:
  assumes "slotInv {} w" "r < length (runs w)"
  shows "slotInv {} (interruptRun cfg now v r w)"
proof (cases "isTerminalStatus (statusOf w r)")
  case True
  then show ?thesis using assms by (simp add: interruptRun_def)
next
  case False
  let ?w = "stopExecution StInterrupted None now v r w"
  have inv: "slotInv {r} ?w" using inv_weaken [OF assms(1)] by (intro inv_stop) simp_all
  have good: "goodAt w r" if "\<not> halted ?w" "r \<in> set (poolValues (slots ?w))"
    using assms(1) that by (simp add: slotInv_def)
  have closing: "closing (runOf ?w r) (contsOf r ?w)" if "\<not> halted ?w" "r \<in> set (poolValues (slots ?w))"
    using stopped_closing [OF good [OF that] False assms(2)] by simp
  have slot: "\<not> isSettled (runOf ?w r) \<and> holdsSlot ?w r"
    if "\<not> halted ?w" "r \<in> set (poolValues (slots ?w))" "childHandle (runOf w r) \<noteq> None \<or> startCompleted (runOf w r)"
    using goodAtD(1,2,3) [OF good [OF that(1,2)]] that(3) False assms(2) by (auto simp: stop_view holdsSlot_def)
  have "slotInv {} (settleInterruptedExecution cfg r (epoch (runOf w r)) (childHandle (runOf w r)) ?w)"
  proof (cases "childHandle (runOf w r)")
    case None
    then show ?thesis
      using inv_settleAborted [OF inv, of "epoch (runOf w r)" cfg] closing slot assms(2)
      by (simp add: settleInterruptedExecution_def stop_view)
  next
    case (Some h)
    have "slotInv {} (suspend (AbortWait r (epoch (runOf w r))) ?w)"
    proof (rule inv_close [where r = r])
      show "slotInv (insert r {}) (suspend (AbortWait r (epoch (runOf w r))) ?w)"
        using inv assms(2) by (intro inv_suspend) simp_all
      show "goodAt (suspend (AbortWait r (epoch (runOf w r))) ?w) r"
        if "\<not> halted (suspend (AbortWait r (epoch (runOf w r))) ?w)"
          "r \<in> set (poolValues (slots (suspend (AbortWait r (epoch (runOf w r))) ?w)))"
        using closing slot that Some assms(2) unfolding goodAt_def by (auto intro!: good_settling simp: stop_view)
    qed
    then show ?thesis using Some by (simp add: settleInterruptedExecution_def)
  qed
  then show ?thesis using False by (simp add: interruptRun_def)
qed

text \<open>A failing run releases its child before it settles.\<close>

theorem inv_fail:
  assumes "slotInv {r} w" "r < length (runs w)"
    and "\<not> halted w \<Longrightarrow> r \<in> set (poolValues (slots w)) \<Longrightarrow> goodAt w r \<and> statusOf w r \<noteq> StQueued"
  shows "slotInv {} (failRun err now v r w)"
proof (cases "isTerminalStatus (statusOf w r)")
  case True
  then show ?thesis using assms by (auto simp: failRun_def intro!: inv_close [where r = r and R = "{}"])
next
  case False
  let ?w = "stopExecution StFailed (Some err) now v r w"
  have "slotInv {} (suspend (FailRelease r) (releaseHandle r ?w))"
  proof (rule inv_close [where r = r])
    show "slotInv (insert r {}) (suspend (FailRelease r) (releaseHandle r ?w))"
      using assms(1,2) by (intro inv_suspend inv_release inv_stop) simp_all
    show "goodAt (suspend (FailRelease r) (releaseHandle r ?w)) r"
      if "\<not> halted (suspend (FailRelease r) (releaseHandle r ?w))"
        "r \<in> set (poolValues (slots (suspend (FailRelease r) (releaseHandle r ?w))))"
    proof -
      have good: "goodAt w r" "statusOf w r \<noteq> StQueued" using assms(3) that by simp_all
      note g = goodAtD [OF good(1)]
      have closing: "closing (runOf ?w r) (contsOf r w)"
        using stopped_closing [OF good(1) False assms(2)] by simp
      have "\<not> isSettled (runOf w r)" "holdsSlot w r" using g(1,2) good(2) False by blast+
      then have "good (runOf ?w r) (contsOf r w @ [FailRelease r]) True"
        using closing assms(2) by (intro good_settling) (simp_all add: stop_view)
      moreover have "holdsSlot (suspend (FailRelease r) (releaseHandle r ?w)) r"
        using \<open>holdsSlot w r\<close> by (simp add: holdsSlot_def releaseHandle_def agentId_upd)
      ultimately show ?thesis
        using assms(2) by (simp add: goodAt_def releaseHandle_run good_without_handle)
    qed
  qed
  then show ?thesis using False by (simp add: failRun_def)
qed

section \<open>Prompting and ending a turn\<close>

lemma good_prompting:
  assumes "executing x cs slot" "refOf c = r" "busy (epoch x) c"
  shows "good (x\<lparr>snap := (snap x)\<lparr>agentStatus := StRunning\<rparr>, prompted := True\<rparr>) (cs @ [c]) slot"
proof -
  have "\<not> starter (epoch x) c" "\<not> settler (epoch x) c" "\<not> resumer c" "epochBound (epoch x) c"
    using assms(3) by (cases c; simp)+
  then show ?thesis using assms(1) by (auto simp: executing_def good_def Let_def)
qed

lemma inv_runPrompt:
  assumes "slotInv {r} w" "r < length (runs w)"
    and "\<not> halted w \<Longrightarrow> r \<in> set (poolValues (slots w)) \<Longrightarrow> executing (runOf w r) (contsOf r w) (holdsSlot w r)"
  shows "slotInv {} (runPrompt r e msg w)"
proof (cases "childHandle (runOf w r) = None \<or> \<not> isCurrent w r e")
  case True
  have "slotInv {} w"
    using assms by (intro inv_close [where r = r and R = "{}"]) (auto simp: goodAt_def executing_good)
  then show ?thesis using True by (simp add: runPrompt_def)
next
  case False
  let ?f = "\<lambda>x. x\<lparr>snap := (snap x)\<lparr>agentStatus := StRunning\<rparr>, prompted := True\<rparr>"
  have "slotInv {} (suspend (PromptWait r e msg) (updRun r ?f w))"
  proof (rule inv_close [where r = r])
    show "slotInv (insert r {}) (suspend (PromptWait r e msg) (updRun r ?f w))"
      using assms(1,2) by (intro inv_suspend inv_upd) simp_all
    show "goodAt (suspend (PromptWait r e msg) (updRun r ?f w)) r"
      if "\<not> halted (suspend (PromptWait r e msg) (updRun r ?f w))"
        "r \<in> set (poolValues (slots (suspend (PromptWait r e msg) (updRun r ?f w))))"
      using assms(2,3) that False good_prompting [of "runOf w r" "contsOf r w" "holdsSlot w r" "PromptWait r e msg" r]
      by (simp add: goodAt_def runOf_upd holdsSlot_upd isCurrent_def)
  qed
  then show ?thesis using False by (auto simp: runPrompt_def)
qed

lemma clearEnding_good: "goodAt w s \<Longrightarrow> goodAt (clearEnding r e w) s"
proof -
  assume good: "goodAt w s"
  have "holdsSlot (clearEnding r e w) s = holdsSlot w s" by (simp add: clearEnding_def holdsSlot_upd)
  moreover have "good (runOf (clearEnding r e w) s) cs slot \<longleftrightarrow> good (runOf w s) cs slot" for cs slot
  proof (cases "r < length (runs w)")
    case True
    then show ?thesis by (simp add: clearEnding_def runOf_upd good_def Let_def)
  next
    case False
    then show ?thesis by (simp add: clearEnding_def updRun_def list_update_beyond)
  qed
  ultimately show ?thesis using good by (simp add: goodAt_def clearEnding_def)
qed

lemma inv_clearEnding: "slotInv R w \<Longrightarrow> slotInv R (clearEnding r e w)"
  using clearEnding_good [of w _ r e] poolOk_upd [of "\<lambda>x. if endingEpoch x = Some e then x\<lparr>endingEpoch := None\<rparr> else x" r w]
  by (simp add: slotInv_def clearEnding_def)

lemma executing_cong:
  "epoch y = epoch x \<Longrightarrow> isSettled y = isSettled x \<Longrightarrow> agentStatus (snap y) = agentStatus (snap x) \<Longrightarrow>
     executing y cs slot = executing x cs slot"
  by (simp add: executing_def)

theorem inv_finishEnd:
  assumes "slotInv {r} w" "r < length (runs w)"
    and "\<not> halted w \<Longrightarrow> r \<in> set (poolValues (slots w)) \<Longrightarrow> goodAt w r"
    and "\<not> halted w \<Longrightarrow> r \<in> set (poolValues (slots w)) \<Longrightarrow> isCurrent w r e \<Longrightarrow> isActiveStatus (statusOf w r) \<Longrightarrow>
      executing (runOf w r) (contsOf r w) (holdsSlot w r)"
  shows "slotInv {} (finishEnd cfg now r e continuation w)"
proof (cases "\<not> isCurrent w r e \<or> \<not> isActiveStatus (statusOf w r)")
  case True
  have "slotInv {} w" using assms(1,3) by (intro inv_close [where r = r and R = "{}"]) auto
  then show ?thesis using True by (simp add: finishEnd_def inv_clearEnding)
next
  case False
  let ?f = "\<lambda>x. x\<lparr>stopCount := stopCount x + 1, endingEpoch := None\<rparr>"
  have "slotInv {} (runPrompt r e msg (updRun r ?f w))" for msg
  proof (rule inv_runPrompt)
    show "slotInv {r} (updRun r ?f w)" using assms(1) by (intro inv_upd) simp_all
    show "executing (runOf (updRun r ?f w) r) (contsOf r (updRun r ?f w)) (holdsSlot (updRun r ?f w) r)"
      if "\<not> halted (updRun r ?f w)" "r \<in> set (poolValues (slots (updRun r ?f w)))"
      using assms(2,4) that False by (simp add: runOf_upd holdsSlot_upd executing_def)
  qed (use assms(2) in simp)
  moreover have "slotInv {} (markSettled cfg r (handleTerminal r (commitTerminal StCompleted None now r w)))"
  proof (rule inv_markSettled)
    show "slotInv {r} (handleTerminal r (commitTerminal StCompleted None now r w))"
      using assms(1) by (intro inv_terminal inv_commit) simp_all
    show "closing (runOf (handleTerminal r (commitTerminal StCompleted None now r w)) r)
        (contsOf r (handleTerminal r (commitTerminal StCompleted None now r w)))"
      if "\<not> halted (handleTerminal r (commitTerminal StCompleted None now r w))"
        "r \<in> set (poolValues (slots (handleTerminal r (commitTerminal StCompleted None now r w))))"
      using assms(2,4) that False by (simp add: closing_def executing_def terminal_view)
  qed (use assms(2) in simp)
  ultimately show ?thesis using False by (simp add: finishEnd_def inv_clearEnding)
qed

text \<open>At the end of a turn of the current epoch nothing is starting the run.\<close>

lemma executing_active:
  assumes "goodAt w r" "isActiveStatus (statusOf w r)" "howMany (starter (epoch (runOf w r))) (contsOf r w) = 0"
  shows "executing (runOf w r) (contsOf r w) (holdsSlot w r)"
proof -
  note g = goodAtD [OF assms(1)]
  have "\<not> isSettled (runOf w r)" "statusOf w r \<noteq> StQueued" using g(2) assms(2) terminal_not_active by blast+
  moreover have "howMany (settler (epoch (runOf w r))) (contsOf r w) = 0" using g(7) assms(2) terminal_not_active by blast
  moreover have "howMany resumer (contsOf r w) = 0" using g(8) calculation(1) by blast
  ultimately show ?thesis using g(1,4) assms(3) by (simp add: executing_def snapOf_def)
qed

theorem inv_onChildAgentEnd:
  assumes "slotInv {r} w" "r < length (runs w)"
    and "\<not> halted w \<Longrightarrow> r \<in> set (poolValues (slots w)) \<Longrightarrow> goodAt w r"
    and "\<not> halted w \<Longrightarrow> r \<in> set (poolValues (slots w)) \<Longrightarrow> isCurrent w r e \<Longrightarrow> isActiveStatus (statusOf w r) \<Longrightarrow>
      howMany (starter e) (contsOf r w) = 0"
  shows "slotInv {} (onChildAgentEnd cfg now v r e w)"
proof (cases "\<not> isCurrent w r e \<or> \<not> isActiveStatus (statusOf w r) \<or> endingEpoch (runOf w r) = Some e")
  case True
  have "slotInv {} w" using assms(1,3) by (intro inv_close [where r = r and R = "{}"]) auto
  then show ?thesis using True by (simp add: onChildAgentEnd_def)
next
  case False
  let ?g = "\<lambda>x. x\<lparr>endingEpoch := Some e, snap := (snap x)\<lparr>finalText :=
    (case childHandle x of Some h \<Rightarrow> lastText (v r) | None \<Rightarrow> None)\<rparr>\<rparr>"
  let ?w = "updateUsage v r (updRun r ?g w)"
  have inv: "slotInv {r} ?w" using assms(1) by (intro inv_usage inv_upd) simp_all
  have view: "epoch (runOf ?w r) = epoch (runOf w r)" "isSettled (runOf ?w r) = isSettled (runOf w r)"
      "agentStatus (snap (runOf ?w r)) = agentStatus (snap (runOf w r))" "runDisposed (runOf ?w r) = runDisposed (runOf w r)"
    using assms(2) by (auto simp: updateUsage_def updSnap_def runOf_upd split: option.splits)
  have slot: "holdsSlot ?w r = holdsSlot w r" by (simp add: holdsSlot_def agentId_upd)
  have run: "executing (runOf ?w r) (contsOf r ?w) (holdsSlot ?w r)" if "\<not> halted ?w" "r \<in> set (poolValues (slots ?w))"
  proof -
    have "executing (runOf w r) (contsOf r w) (holdsSlot w r)"
      using assms(3,4) that False by (intro executing_active) (auto simp: isCurrent_def)
    then show ?thesis using slot by (simp add: executing_def view)
  qed
  have "slotInv {} (suspend (StopWait r e) ?w)"
  proof (rule inv_close [where r = r])
    show "slotInv (insert r {}) (suspend (StopWait r e) ?w)" using inv assms(2) by (intro inv_suspend) simp_all
    show "goodAt (suspend (StopWait r e) ?w) r" if "\<not> halted (suspend (StopWait r e) ?w)"
        "r \<in> set (poolValues (slots (suspend (StopWait r e) ?w)))"
    proof -
      have "epochBound (epoch (runOf ?w r)) (StopWait r e)" using False by (simp add: isCurrent_def view)
      then show ?thesis using run that by (auto simp: goodAt_def executing_def good_def Let_def)
    qed
  qed
  moreover have "slotInv {} (finishEnd cfg now r e None ?w)"
    using inv assms(2) run by (intro inv_finishEnd) (auto simp: goodAt_def executing_good)
  ultimately show ?thesis using False by (simp add: onChildAgentEnd_def Let_def)
qed

end
