(* ===== verification/SubagentSteps.thy ===== *)
theory SubagentSteps
  imports SubagentOperations
begin

text \<open>
  The invariant of the subagent scheduler over its steps: a resumed continuation, a call of the
  dispatcher, an event of a child. The result is \<open>reachable_inv\<close>.
\<close>

section \<open>Taking a continuation\<close>

fun neutral :: "cont \<Rightarrow> bool" where
  "neutral (StartFailed r) = True"
| "neutral (FollowUpSettle r k m) = True"
| "neutral (FollowActive r m) = True"
| "neutral (ResumeFailed r) = True"
| "neutral (DisposeSettle r k) = True"
| "neutral c = False"

lemma neutral_counts: "neutral c \<Longrightarrow> \<not> starter e c \<and> \<not> busy e c \<and> \<not> settler e c \<and> \<not> resumer c \<and> epochBound e c"
  by (cases c) simp_all

lemma good_remove: "good x cs slot \<Longrightarrow> c \<in> set cs \<Longrightarrow> good x (remove1 c cs) slot"
  using set_remove1_subset [of c cs] by (auto simp: good_def Let_def howMany_remove1 list_all_iff)

lemma good_add: "good x cs slot \<Longrightarrow> neutral c \<Longrightarrow> agentStatus (snap x) \<noteq> StQueued \<Longrightarrow> good x (cs @ [c]) slot"
  using neutral_counts [of c] by (auto simp: good_def Let_def)

lemma good_starter:
  assumes "good x cs slot" "c \<in> set cs" "starter (epoch x) c"
  shows "executing x (remove1 c cs) slot" "childHandle x = None \<or> \<not> prompted x" "howMany (busy (epoch x)) (remove1 c cs) = 0"
proof -
  have "0 < howMany (starter (epoch x)) cs" using assms(2,3) by (rule howMany_pos)
  moreover have "cs \<noteq> []" using assms(2) by auto
  ultimately show "executing x (remove1 c cs) slot" "childHandle x = None \<or> \<not> prompted x"
    "howMany (busy (epoch x)) (remove1 c cs) = 0"
    using assms set_remove1_subset [of c cs]
    by (auto simp: good_def executing_def Let_def howMany_remove1 list_all_iff)
qed

lemma good_settler:
  assumes "good x cs slot" "c \<in> set cs" "settler (epoch x) c"
  shows "closing x (remove1 c cs)" "\<not> isSettled x" "slot"
proof -
  have "0 < howMany (settler (epoch x)) cs" using assms(2,3) by (rule howMany_pos)
  then show "closing x (remove1 c cs)" "\<not> isSettled x" "slot"
    using assms set_remove1_subset [of c cs]
    by (auto simp: good_def closing_def Let_def howMany_remove1 list_all_iff)
qed

lemma good_resumer:
  assumes "good x cs slot" "c \<in> set cs" "resumer c"
  shows "closing x (remove1 c cs)" "isSettled x" "slot"
proof -
  have "0 < howMany resumer cs" using assms(2,3) by (rule howMany_pos)
  then show "closing x (remove1 c cs)" "isSettled x" "slot"
    using assms set_remove1_subset [of c cs]
    by (auto simp: good_def closing_def Let_def howMany_remove1 list_all_iff)
qed

text \<open>The world that \<open>step_resume\<close> continues from.\<close>

definition taken :: "cont \<Rightarrow> world \<Rightarrow> world" where
  "taken c w = w\<lparr>conts := remove1 c (conts w)\<rparr>"

lemma taken_fields [simp]:
  "runs (taken c w) = runs w" "slots (taken c w) = slots w" "halted (taken c w) = halted w"
  "published (taken c w) = published w" "runOf (taken c w) s = runOf w s" "snapOf (taken c w) = snapOf w"
  "holdsSlot (taken c w) s = holdsSlot w s" "isCurrent (taken c w) s e = isCurrent w s e"
  "contsOf (refOf c) (taken c w) = remove1 c (contsOf (refOf c) w)"
  by (simp_all add: taken_def isCurrent_def contsOf_remove1)

lemma taken_step:
  assumes "slotInv {} w" "c \<in> set (conts w)"
  shows "slotInv {} (taken c w)" "refOf c < length (runs w)" "c \<in> set (contsOf (refOf c) w)"
    "\<not> halted w \<Longrightarrow> refOf c \<in> set (poolValues (slots w)) \<Longrightarrow> goodAt w (refOf c) \<and> goodAt (taken c w) (refOf c) \<and>
       statusOf w (refOf c) \<noteq> StQueued"
proof -
  show bound: "refOf c < length (runs w)" using assms by (auto simp: slotInv_def poolOk_def)
  show mem: "c \<in> set (contsOf (refOf c) w)" using assms(2) by (simp add: contsOf_def)
  show good: "goodAt w (refOf c) \<and> goodAt (taken c w) (refOf c) \<and> statusOf w (refOf c) \<noteq> StQueued"
    if "\<not> halted w" "refOf c \<in> set (poolValues (slots w))"
  proof -
    have "goodAt w (refOf c)" using assms(1) that by (simp add: slotInv_def)
    then show ?thesis using mem goodAtD(3) [of w "refOf c"] by (auto simp: goodAt_def good_remove)
  qed
  show "slotInv {} (taken c w)"
  proof (rule inv_close [where r = "refOf c"])
    show "slotInv (insert (refOf c) {}) (taken c w)"
      unfolding taken_def using inv_weaken [OF assms(1)] by (intro inv_remove) simp_all
  qed (use good in auto)
qed

lemma inv_neutral:
  assumes "slotInv {} w" "neutral c" "refOf c < length (runs w)"
    and "\<not> halted w \<Longrightarrow> refOf c \<in> set (poolValues (slots w)) \<Longrightarrow> statusOf w (refOf c) \<noteq> StQueued"
  shows "slotInv {} (suspend c w)"
proof (rule inv_close [where r = "refOf c"])
  show "slotInv (insert (refOf c) {}) (suspend c w)" using inv_weaken [OF assms(1)] assms(3) by (intro inv_suspend) simp_all
  show "goodAt (suspend c w) (refOf c)"
    if "\<not> halted (suspend c w)" "refOf c \<in> set (poolValues (slots (suspend c w)))" "refOf c \<notin> {}"
    using assms that by (auto simp: slotInv_def goodAt_def snapOf_def intro!: good_add)
qed

section \<open>Attaching a child\<close>

lemma attach_pool:
  assumes "poolOk w" "r < length (runs w)" "unused w (handleSession h)" "attachHandle h r w = Inr w1"
  shows "poolOk w1" "set (poolValues (slots w1)) = set (poolValues (slots w))"
    "s \<noteq> r \<Longrightarrow> s \<in> set (poolValues (slots w)) \<Longrightarrow> holdsSlot w1 s = holdsSlot w s"
    "holdsSlot w r \<Longrightarrow> holdsSlot w1 r"
    "runs w1 = (runs w)[r := (runOf w r)\<lparr>snap := (snap (runOf w r))\<lparr>agentId := handleSession h, sessionFile := handleFile h\<rparr>,
       childHandle := Some h, prompted := False\<rparr>]"
    "halted w1 = halted w" "conts w1 = conts w" "published w1 = published w"
proof -
  let ?i = "agentId (snapOf w r)" and ?j = "handleSession h" and ?p = "slots w"
  obtain p where p: "rekey r (taskName (snapOf w r)) ?i ?j ?p = Inr p"
    and w1: "w1 = updRun r (\<lambda>x. x\<lparr>snap := (snap x)\<lparr>agentId := ?j, sessionFile := handleFile h\<rparr>, childHandle := Some h,
       prompted := False\<rparr>) (w\<lparr>slots := p\<rparr>)"
    using assms(4) by (auto simp: attachHandle_def split: sum.splits)
  show runs: "runs w1 = (runs w)[r := (runOf w r)\<lparr>snap := (snap (runOf w r))\<lparr>agentId := ?j, sessionFile := handleFile h\<rparr>,
       childHandle := Some h, prompted := False\<rparr>]" and rest: "halted w1 = halted w" "conts w1 = conts w" "published w1 = published w"
    by (simp_all add: w1 updRun_def runOf_def)
  have slots: "slots w1 = p" by (simp add: w1)
  have ids: "agentId (snapOf w1 s) = (if s = r then ?j else agentId (snapOf w s))" for s
    using assms(2) by (simp add: snapOf_def runOf_def runs nth_list_update)
  have len: "length (runs w1) = length (runs w)" by (simp add: runs)
  note ok = assms(1) [unfolded poolOk_def]
  have all: "poolOk w1 \<and> set (poolValues (slots w1)) = set (poolValues ?p) \<and>
    (\<forall>s. s \<noteq> r \<longrightarrow> s \<in> set (poolValues ?p) \<longrightarrow> holdsSlot w1 s = holdsSlot w s) \<and> (holdsSlot w r \<longrightarrow> holdsSlot w1 r)"
  proof (cases "?i = ?j")
    case True
    then have "p = ?p" using p by (simp add: rekey_def)
    have same: "agentId (snapOf w1 s) = agentId (snapOf w s)" for s using True by (simp add: ids)
    have "poolOk w1" using assms(1) by (simp add: poolOk_def same len rest slots \<open>p = ?p\<close>)
    then show ?thesis by (simp add: slots holdsSlot_def same \<open>p = ?p\<close>)
  next
    case False
    then have prev: "map_of (entries ?p) ?i = Some r" and new: "map_of (entries ?p) ?j = None \<or> map_of (entries ?p) ?j = Some r"
      and p_eq: "p = ?p\<lparr>entries := mapSet ?j r (mapDelete ?i (entries ?p)), byTaskName := mapSet (taskName (snapOf w r)) ?j (byTaskName ?p),
         active := (if ?i \<in> set (active ?p) then setAdd ?j (removeAll ?i (active ?p)) else active ?p),
         waitingIds := replaceFirst ?i ?j (waitingIds ?p)\<rparr>"
      using p by (auto simp: rekey_def split: if_splits)
    have "map_of (entries ?p) ?j \<noteq> Some r" using poolOkD(2) [OF assms(1) map_of_SomeD] False by blast
    then have free: "?j \<notin> fst ` set (entries ?p)" using new by (simp add: map_of_eq_None_iff)
    have mem: "(?i, r) \<in> set (entries ?p)" using prev by (rule map_of_SomeD)
    then have inPool: "r \<in> set (poolValues ?p)" by (force simp: poolValues_def)
    have only: "k = ?i \<longleftrightarrow> s = r" if "(k, s) \<in> set (entries ?p)" for k s
      using poolOkD(2) [OF assms(1) that] ids_differ [OF assms(1) inPool poolOkD(1) [OF assms(1) that]] by auto
    have rest_entries: "mapDelete ?i (entries ?p) = filter (\<lambda>e. snd e \<noteq> r) (entries ?p)"
      unfolding mapDelete_def by (rule filter_cong) (use only in \<open>force split: prod.split\<close>)+
    have entries: "entries p = filter (\<lambda>e. snd e \<noteq> r) (entries ?p) @ [(?j, r)]"
      using free by (auto simp: p_eq mapSet_def rest_entries)
    have vals: "set (poolValues p) = set (poolValues ?p)"
      using inPool by (auto simp: poolValues_def entries)
    have others: "agentId (snapOf w s) \<noteq> ?j \<and> agentId (snapOf w s) \<noteq> ?i" if "s < length (runs w)" "s \<noteq> r" for s
    proof (cases "s \<in> set (poolValues ?p)")
      case True
      then have "agentId (snapOf w s) \<in> fst ` set (entries ?p)" using poolOkD(4) [OF assms(1)] by force
      then show ?thesis using free ids_differ [OF assms(1) inPool that] by metis
    next
      case False
      then show ?thesis using assms(3) that ids_differ [OF assms(1) inPool that] by (auto simp: unused_def)
    qed
    have act: "i \<in> set (active p) \<longleftrightarrow> i = ?j \<and> ?i \<in> set (active ?p) \<or> i \<noteq> ?i \<and> i \<in> set (active ?p)" for i
      using False by (auto simp: p_eq setAdd_def)
    have "distinct (active p)" "length (active p) \<le> maxConcurrent p"
    proof -
      have old: "distinct (active ?p)" "length (active ?p) \<le> maxConcurrent ?p" using ok by blast+
      have "removeAll ?i (active ?p) = remove1 ?i (active ?p)" using old(1) by (simp add: distinct_remove1_removeAll)
      then show "distinct (active p)" "length (active p) \<le> maxConcurrent p"
        using old by (auto simp: p_eq setAdd_def length_remove1 dest: length_pos_if_in_set)
    qed
    moreover have "distinct (map fst (entries p))" "distinct (poolValues p)"
      using ok free by (auto simp: entries poolValues_def distinct_map_filter)
    moreover have "\<forall>(k, s) \<in> set (entries p). s < length (runs w1) \<and> agentId (snapOf w1 s) = k"
      using poolOkD(1,2) [OF assms(1)] assms(2) by (auto simp: entries ids len)
    moreover have "\<forall>s < length (runs w1). s \<notin> set (poolValues p) \<longrightarrow> agentId (snapOf w1 s) \<notin> set (map fst (entries p))"
    proof (intro allI impI)
      fix s assume s: "s < length (runs w1)" "s \<notin> set (poolValues p)"
      then have "s \<noteq> r" "s \<notin> set (poolValues ?p)" using inPool vals by auto
      then have "agentId (snapOf w s) \<notin> fst ` set (entries ?p)" using ok s(1) len by simp
      then show "agentId (snapOf w1 s) \<notin> set (map fst (entries p))"
        using others [of s] \<open>s \<noteq> r\<close> s(1) by (auto simp: entries ids len image_iff)
    qed
    moreover have "\<forall>i \<in> set (active p). \<exists>s < length (runs w1). agentId (snapOf w1 s) = i"
    proof
      fix i assume "i \<in> set (active p)"
      then consider "i = ?j" | "i \<noteq> ?i" "i \<in> set (active ?p)" using act by blast
      then show "\<exists>s < length (runs w1). agentId (snapOf w1 s) = i"
      proof cases
        case 1
        then show ?thesis using assms(2) by (intro exI [of _ r]) (simp add: ids len)
      next
        case 2
        then obtain s where "s < length (runs w)" "agentId (snapOf w s) = i" using ok by blast
        then show ?thesis using 2(1) by (intro exI [of _ s]) (auto simp: ids len)
      qed
    qed
    moreover have "\<forall>c \<in> set (conts w1). refOf c < length (runs w1)" using ok by (simp add: rest len)
    ultimately have "poolOk w1" by (simp add: poolOk_def slots)
    moreover have "holdsSlot w1 s = holdsSlot w s" if "s \<noteq> r" "s \<in> set (poolValues ?p)" for s
      using others [OF poolOkD(3) [OF assms(1) that(2)] that(1)] that(1) by (simp add: holdsSlot_def ids slots act)
    moreover have "holdsSlot w r \<Longrightarrow> holdsSlot w1 r" by (simp add: holdsSlot_def ids slots act)
    ultimately show ?thesis using vals by (simp add: slots)
  qed
  then show "poolOk w1"  "set (poolValues (slots w1)) = set (poolValues (slots w))"
    "s \<noteq> r \<Longrightarrow> s \<in> set (poolValues (slots w)) \<Longrightarrow> holdsSlot w1 s = holdsSlot w s"
    "holdsSlot w r \<Longrightarrow> holdsSlot w1 r"
    by blast+
qed

lemma inv_attach:
  assumes "slotInv {} w" "r < length (runs w)" "unused w (handleSession h)" "attachHandle h r w = Inr w1"
  shows "slotInv {r} w1" "length (runs w1) = length (runs w)" "halted w1 = halted w"
    "set (poolValues (slots w1)) = set (poolValues (slots w))"
    "executing (runOf w r) (contsOf r w) (holdsSlot w r) \<Longrightarrow> executing (runOf w1 r) (contsOf r w1) (holdsSlot w1 r)"
    "\<not> prompted (runOf w1 r)" "epoch (runOf w1 r) = epoch (runOf w r)" "contsOf r w1 = contsOf r w"
proof -
  have ok: "poolOk w" using assms(1) by (simp add: slotInv_def)
  note a = attach_pool [OF ok assms(2-4)]
  have conts: "contsOf s w1 = contsOf s w" for s by (simp add: contsOf_def a(7))
  have others: "runOf w1 s = runOf w s" if "s \<noteq> r" for s using that by (simp add: runOf_def a(5))
  have this_run: "runOf w1 r = (runOf w r)\<lparr>snap := (snap (runOf w r))\<lparr>agentId := handleSession h, sessionFile := handleFile h\<rparr>,
       childHandle := Some h, prompted := False\<rparr>"
    using assms(2) by (simp add: runOf_def a(5))
  show "slotInv {r} w1" using assms(1) a(1,2,3,6) conts others by (auto simp: slotInv_def goodAt_def)
  show "length (runs w1) = length (runs w)" "halted w1 = halted w" "set (poolValues (slots w1)) = set (poolValues (slots w))"
    "\<not> prompted (runOf w1 r)" "epoch (runOf w1 r) = epoch (runOf w r)" "contsOf r w1 = contsOf r w"
    using a conts by (simp_all add: this_run)
  show "executing (runOf w r) (contsOf r w) (holdsSlot w r) \<Longrightarrow> executing (runOf w1 r) (contsOf r w1) (holdsSlot w1 r)"
    using a(4) by (simp add: executing_def this_run conts)
qed

section \<open>Resuming each continuation\<close>

text \<open>A continuation of the current epoch that was about to start its run leaves it executing.\<close>

lemma taken_starter:
  assumes "slotInv {} w" "c \<in> set (conts w)" "starter (epoch (runOf w (refOf c))) c" "\<not> halted w"
    "refOf c \<in> set (poolValues (slots w))"
  shows "executing (runOf w (refOf c)) (contsOf (refOf c) (taken c w)) (holdsSlot w (refOf c))"
    "childHandle (runOf w (refOf c)) = None \<or> \<not> prompted (runOf w (refOf c))"
    "howMany (busy (epoch (runOf w (refOf c)))) (contsOf (refOf c) (taken c w)) = 0"
proof -
  have "good (runOf w (refOf c)) (contsOf (refOf c) w) (holdsSlot w (refOf c))"
    using taken_step(4) [OF assms(1,2,4,5)] by (simp add: goodAt_def)
  note g = good_starter [OF this taken_step(3) [OF assms(1,2)] assms(3)]
  show "executing (runOf w (refOf c)) (contsOf (refOf c) (taken c w)) (holdsSlot w (refOf c))"
    "childHandle (runOf w (refOf c)) = None \<or> \<not> prompted (runOf w (refOf c))"
    "howMany (busy (epoch (runOf w (refOf c)))) (contsOf (refOf c) (taken c w)) = 0"
    using g by simp_all
qed

lemma inv_stuck:
  assumes "slotInv {} w" "c \<in> set (conts w)" "neutral d" "refOf d = refOf c"
  shows "slotInv {} (suspend d (taken c w))"
  using taken_step [OF assms(1,2)] assms(3,4) by (intro inv_neutral) auto

lemma good_starting:
  assumes "executing x cs slot" "starter (epoch x) c" "childHandle x = None \<or> \<not> prompted x" "howMany (busy (epoch x)) cs = 0"
  shows "good x (cs @ [c]) slot"
proof -
  have "\<not> settler (epoch x) c" "\<not> resumer c" "\<not> busy (epoch x) c" "epochBound (epoch x) c"
    using assms(2) by (cases c; simp)+
  then show ?thesis using assms by (auto simp: executing_def good_def Let_def)
qed

lemma inv_created:
  assumes "slotInv {} w" "c = CreateWait r e q" "c \<in> set (conts w)" "honest w x"
  shows "slotInv {} (created r e q x (taken c w))"
proof -
  note t = taken_step [OF assms(1,3)]
  have stuck: "slotInv {} (suspend (StartFailed r) (taken c w))" using assms(2) by (intro inv_stuck [OF assms(1,3)]) simp_all
  have "slotInv {} (suspend (BeforeStartWait r e m) w1)"
    if h: "x = Handle h" and cur: "isCurrent w r e" and att: "attachHandle h r (taken c w) = Inr w1" for h w1 m
  proof -
    have un: "unused (taken c w) (handleSession h)" using assms(4) h by (simp add: unused_def)
    have r: "r < length (runs (taken c w))" using t(2) assms(2) by simp
    note a = inv_attach [OF t(1) r un att]
    show ?thesis
    proof (rule inv_close [where r = r])
      show "slotInv (insert r {}) (suspend (BeforeStartWait r e m) w1)" using a(1,2) r by (intro inv_suspend) simp_all
      show "goodAt (suspend (BeforeStartWait r e m) w1) r"
        if "\<not> halted (suspend (BeforeStartWait r e m) w1)" "r \<in> set (poolValues (slots (suspend (BeforeStartWait r e m) w1)))"
      proof -
        have "\<not> halted w" "refOf c \<in> set (poolValues (slots w))" "starter (epoch (runOf w (refOf c))) c"
          using that a(3,4) assms(2) cur by (simp_all add: isCurrent_def)
        note s = taken_starter [OF assms(1,3) this(3,1,2)]
        then have "executing (runOf w1 r) (contsOf r w1) (holdsSlot w1 r)" "howMany (busy (epoch (runOf w1 r))) (contsOf r w1) = 0"
          using a(5,7,8) assms(2) by simp_all
        then show ?thesis using a(6,7) cur by (auto simp: goodAt_def isCurrent_def intro!: good_starting)
      qed
    qed
  qed
  then show ?thesis using stuck by (auto simp: created_def split: reply.splits sum.splits)
qed

lemma inv_reopened:
  assumes "slotInv {} w" "c = ReopenWait r e msg" "c \<in> set (conts w)" "honest w x"
  shows "slotInv {} (reopened r e msg x (taken c w))"
proof -
  note t = taken_step [OF assms(1,3)]
  have stuck: "slotInv {} (suspend (ResumeFailed r) (taken c w))" using assms(2) by (intro inv_stuck [OF assms(1,3)]) simp_all
  have "slotInv {} (runPrompt r e msg w1)"
    if h: "x = Handle h" and cur: "isCurrent w r e" and att: "attachHandle h r (taken c w) = Inr w1" for h w1
  proof -
    have un: "unused (taken c w) (handleSession h)" using assms(4) h by (simp add: unused_def)
    have r: "r < length (runs (taken c w))" using t(2) assms(2) by simp
    note a = inv_attach [OF t(1) r un att]
    show ?thesis
    proof (rule inv_runPrompt [OF a(1)])
      show "executing (runOf w1 r) (contsOf r w1) (holdsSlot w1 r)" if "\<not> halted w1" "r \<in> set (poolValues (slots w1))"
      proof -
        have "\<not> halted w" "refOf c \<in> set (poolValues (slots w))" "starter (epoch (runOf w (refOf c))) c"
          using that a(3,4) assms(2) cur by (simp_all add: isCurrent_def)
        note s = taken_starter [OF assms(1,3) this(3,1,2)]
        then show ?thesis using a(5) assms(2) by simp
      qed
    qed (use a(2) r in simp)
  qed
  then show ?thesis using stuck by (auto simp: reopened_def split: reply.splits sum.splits)
qed

lemma inv_lifecycleStarted:
  assumes "slotInv {} w" "c = BeforeStartWait r e msg" "c \<in> set (conts w)"
  shows "slotInv {} (lifecycleStarted cfg r e msg x (taken c w))"
proof -
  note t = taken_step [OF assms(1,3)]
  have stuck: "slotInv {} (suspend (StartFailed r) (taken c w))" using assms(2) by (intro inv_stuck [OF assms(1,3)]) simp_all
  have r: "r < length (runs w)" using t(2) assms(2) by simp
  let ?w = "updRun r (\<lambda>x. x\<lparr>startCompleted := True\<rparr>) (taken c w)"
  have "slotInv {} (runPrompt r e m ?w)" if cur: "isCurrent w r e" for m
  proof (rule inv_runPrompt)
    show "slotInv {r} ?w" using inv_weaken [OF t(1)] by (intro inv_upd) simp_all
    show "executing (runOf ?w r) (contsOf r ?w) (holdsSlot ?w r)" if "\<not> halted ?w" "r \<in> set (poolValues (slots ?w))"
    proof -
      have "\<not> halted w" "refOf c \<in> set (poolValues (slots w))" "starter (epoch (runOf w (refOf c))) c"
        using that assms(2) cur by (simp_all add: isCurrent_def)
      note s = taken_starter(1) [OF assms(1,3) this(3,1,2)]
      then show ?thesis using assms(2) r by (simp add: runOf_upd holdsSlot_upd executing_def)
    qed
  qed (use r in simp)
  then show ?thesis using stuck t(1) by (simp add: lifecycleStarted_def Let_def split: prod.split)
qed

lemma inv_taken_fail:
  assumes "slotInv {} w" "c \<in> set (conts w)"
  shows "slotInv {} (failRun err now v (refOf c) (taken c w))"
  using taken_step [OF assms] inv_weaken [OF taken_step(1) [OF assms]] by (intro inv_fail) auto

text \<open>A continuation that was busy at the current epoch has no starter beside it.\<close>

lemma taken_busy:
  assumes "slotInv {} w" "c \<in> set (conts w)" "busy (epoch (runOf w (refOf c))) c" "\<not> halted w"
    "refOf c \<in> set (poolValues (slots w))"
  shows "howMany (starter (epoch (runOf w (refOf c)))) (contsOf (refOf c) (taken c w)) = 0"
proof -
  have good: "goodAt w (refOf c)" using taken_step(4) [OF assms(1,2,4,5)] by simp
  have "0 < howMany (busy (epoch (runOf w (refOf c)))) (contsOf (refOf c) w)"
    using taken_step(3) [OF assms(1,2)] assms(3) by (rule howMany_pos)
  then have "howMany (starter (epoch (runOf w (refOf c)))) (contsOf (refOf c) w) = 0" using goodAtD(6) [OF good] by auto
  then show ?thesis using taken_step(3) [OF assms(1,2)] by (simp add: howMany_remove1)
qed

lemma inv_promptDone:
  assumes "slotInv {} w" "c = PromptWait r e msg" "c \<in> set (conts w)"
  shows "slotInv {} (promptDone cfg now v r e x (taken c w))"
proof -
  note t = taken_step [OF assms(1,3)]
  have "slotInv {} (failRun err now v r (taken c w))" for err
    using inv_taken_fail [OF assms(1,3)] assms(2) by simp
  moreover have "slotInv {} (onChildAgentEnd cfg now v r e (taken c w))"
  proof (rule inv_onChildAgentEnd)
    show "slotInv {r} (taken c w)" using t(1) by (rule inv_weaken) simp
    show "howMany (starter e) (contsOf r (taken c w)) = 0"
      if "\<not> halted (taken c w)" "r \<in> set (poolValues (slots (taken c w)))" "isCurrent (taken c w) r e"
      using taken_busy [OF assms(1,3)] that assms(2) by (auto simp: isCurrent_def)
  qed (use t assms(2) in auto)
  ultimately show ?thesis using t(1) by (cases "x = PromptReply True") (auto simp: promptDone_def split: reply.splits bool.splits)
qed

lemma inv_stopDone:
  assumes "slotInv {} w" "c = StopWait r e" "c \<in> set (conts w)"
  shows "slotInv {} (finishEnd cfg now r e continuation (taken c w))"
proof -
  note t = taken_step [OF assms(1,3)]
  show ?thesis
  proof (rule inv_finishEnd)
    show "slotInv {r} (taken c w)" using t(1) by (rule inv_weaken) simp
    show "executing (runOf (taken c w) r) (contsOf r (taken c w)) (holdsSlot (taken c w) r)"
      if "\<not> halted (taken c w)" "r \<in> set (poolValues (slots (taken c w)))" "isCurrent (taken c w) r e"
        "isActiveStatus (statusOf (taken c w) r)"
    proof (rule executing_active)
      show "goodAt (taken c w) r" using t(4) that assms(2) by simp
      show "howMany (starter (epoch (runOf (taken c w) r))) (contsOf r (taken c w)) = 0"
        using taken_busy [OF assms(1,3)] that assms(2) by (auto simp: isCurrent_def)
    qed (rule that(4))
  qed (use t assms(2) in auto)
qed

lemma taken_settler:
  assumes "slotInv {} w" "c \<in> set (conts w)" "settler (epoch (runOf w (refOf c))) c" "\<not> halted w"
    "refOf c \<in> set (poolValues (slots w))"
  shows "closing (runOf w (refOf c)) (contsOf (refOf c) (taken c w))" "\<not> isSettled (runOf w (refOf c))" "holdsSlot w (refOf c)"
proof -
  have "good (runOf w (refOf c)) (contsOf (refOf c) w) (holdsSlot w (refOf c))"
    using taken_step(4) [OF assms(1,2,4,5)] by (simp add: goodAt_def)
  note g = good_settler [OF this taken_step(3) [OF assms(1,2)] assms(3)]
  then show "closing (runOf w (refOf c)) (contsOf (refOf c) (taken c w))" "\<not> isSettled (runOf w (refOf c))" "holdsSlot w (refOf c)"
    by simp_all
qed

lemma inv_taken_settle:
  assumes "slotInv {} w" "c \<in> set (conts w)" "settler (epoch (runOf w (refOf c))) c"
  shows "slotInv {} (markSettled cfg (refOf c) (taken c w))"
proof (rule inv_markSettled)
  show "slotInv {refOf c} (taken c w)" using taken_step(1) [OF assms(1,2)] by (rule inv_weaken) simp
  show "closing (runOf (taken c w) (refOf c)) (contsOf (refOf c) (taken c w))"
    if "\<not> halted (taken c w)" "refOf c \<in> set (poolValues (slots (taken c w)))"
    using taken_settler(1) [OF assms] that by simp
qed (use taken_step(2) [OF assms(1,2)] in simp)

lemma good_old_wait: "good x cs slot \<Longrightarrow> agentStatus (snap x) \<noteq> StQueued \<Longrightarrow> Suc e < epoch x \<Longrightarrow> good x (cs @ [IntStopWait r e]) slot"
  by (auto simp: good_def Let_def)

lemma inv_abortDone:
  assumes "slotInv {} w" "c = AbortWait r e" "c \<in> set (conts w)"
  shows "slotInv {} (settleAborted cfg r e (taken c w))"
proof (cases "epoch (runOf w r) = e + 1")
  case True
  have s: "settler (epoch (runOf w (refOf c))) c" using True assms(2) by simp
  show ?thesis
  proof (rule inv_settleAborted)
    show "slotInv {r} (taken c w)" using taken_step(1) [OF assms(1,3)] by (rule inv_weaken) simp
    show "closing (runOf (taken c w) r) (contsOf r (taken c w)) \<and> epoch (runOf (taken c w) r) = e + 1 \<and>
        (startCompleted (runOf (taken c w) r) \<longrightarrow> \<not> isSettled (runOf (taken c w) r) \<and> holdsSlot (taken c w) r)"
      if "\<not> halted (taken c w)" "r \<in> set (poolValues (slots (taken c w)))"
      using taken_settler [OF assms(1,3) s] that True assms(2) by simp
  qed (use taken_step(2) [OF assms(1,3)] assms(2) in simp)
next
  case False
  note t = taken_step [OF assms(1,3)]
  have "slotInv {} (suspend (IntStopWait r e) (taken c w))"
  proof (rule inv_close [where r = r])
    show "slotInv (insert r {}) (suspend (IntStopWait r e) (taken c w))"
      using inv_weaken [OF t(1)] t(2) assms(2) by (intro inv_suspend) simp_all
    show "goodAt (suspend (IntStopWait r e) (taken c w)) r"
      if "\<not> halted (suspend (IntStopWait r e) (taken c w))" "r \<in> set (poolValues (slots (suspend (IntStopWait r e) (taken c w))))"
    proof -
      have g: "goodAt w r \<and> goodAt (taken c w) r \<and> statusOf w r \<noteq> StQueued" using t(4) that assms(2) by simp
      have "epochBound (epoch (runOf w r)) c" using g goodAtD(4) [of w r] t(3) assms(2) by (auto simp: list_all_iff)
      then have "Suc e < epoch (runOf w r)" using False assms(2) by simp
      then show ?thesis using g by (auto simp: goodAt_def snapOf_def intro: good_old_wait)
    qed
  qed
  then show ?thesis using t(1) False by (simp add: settleAborted_def)
qed

lemma inv_followUpSettled:
  assumes "slotInv {} w" "c = FollowUpSettle r k msg" "c \<in> set (conts w)"
  shows "slotInv {} (followUpSettled cfg r msg (taken c w))"
proof -
  note t = taken_step [OF assms(1,3)]
  have r: "r < length (runs w)" using t(2) assms(2) by simp
  show ?thesis
  proof (cases "acquire (agentId (snapOf w r)) (slots w)")
    case (Pair b p)
    show ?thesis
    proof (cases b)
      case False
      then show ?thesis using Pair t(1) by (simp add: followUpSettled_def)
    next
      case True
      let ?w = "(taken c w)\<lparr>slots := p\<rparr>"
      note p = acquire_slots [OF Pair]
      have inv: "slotInv {r} ?w"
        using inv_weaken [OF t(1)] r Pair by (intro inv_acquire [of "{r}" "taken c w" r b]) simp_all
      have settled: "isSettled (runOf w r)" "closing (runOf w r) (contsOf r (taken c w))" "holdsSlot ?w r"
        if pool: "\<not> halted w" "r \<in> set (poolValues (slots w))"
      proof -
        have good: "goodAt w r" "goodAt (taken c w) r" "statusOf w r \<noteq> StQueued" using t(4) pool assms(2) by simp_all
        have "\<not> holdsSlot w r" using p(3) True by (simp add: holdsSlot_def)
        then show settled: "isSettled (runOf w r)" using goodAtD(1) [OF good(1)] good(3) by simp
        then show "closing (runOf w r) (contsOf r (taken c w))"
          using goodAtD(2,4,6,7,8) [OF good(2)] \<open>\<not> holdsSlot w r\<close> by (auto simp: closing_def snapOf_def)
        show "holdsSlot ?w r" using p(3) True by (simp add: holdsSlot_def)
      qed
      have acquired: "slotInv {} ?w"
        using inv settled by (intro inv_close [where r = r and R = "{}"]) (auto simp: goodAt_def closing_good poolValues_def p(1))
      have "slotInv {} (suspend (ResumeFailed r) ?w)"
        using acquired r t(4) assms(2) by (intro inv_neutral) (auto simp: poolValues_def p(1))
      moreover have "slotInv {} (suspend (ResumeSettle r j msg) ?w)" for j
      proof (rule inv_close [where r = r])
        show "slotInv (insert r {}) (suspend (ResumeSettle r j msg) ?w)" using inv r by (intro inv_suspend) simp_all
        show "goodAt (suspend (ResumeSettle r j msg) ?w) r"
          if "\<not> halted (suspend (ResumeSettle r j msg) ?w)" "r \<in> set (poolValues (slots (suspend (ResumeSettle r j msg) ?w)))"
          using settled that by (auto simp: goodAt_def closing_def good_def Let_def poolValues_def p(1))
      qed
      ultimately show ?thesis using Pair True acquired by (simp add: followUpSettled_def Let_def)
    qed
  qed
qed

lemma inv_followedActive:
  assumes "slotInv {} w" "c = FollowActive r msg" "c \<in> set (conts w)"
  shows "slotInv {} (followedActive r msg x (taken c w))"
proof -
  note t = taken_step [OF assms(1,3)]
  have "slotInv {} (updSnap r (\<lambda>s. s\<lparr>agentTask := msg\<rparr>) (taken c w))"
  proof (rule inv_close [where r = r])
    show "slotInv (insert r {}) (updSnap r (\<lambda>s. s\<lparr>agentTask := msg\<rparr>) (taken c w))"
      using inv_weaken [OF t(1)] by (intro inv_updSnap) simp_all
    show "goodAt (updSnap r (\<lambda>s. s\<lparr>agentTask := msg\<rparr>) (taken c w)) r"
      if "\<not> halted (updSnap r (\<lambda>s. s\<lparr>agentTask := msg\<rparr>) (taken c w))"
        "r \<in> set (poolValues (slots (updSnap r (\<lambda>s. s\<lparr>agentTask := msg\<rparr>) (taken c w))))"
      using t(2,4) that assms(2) by (simp add: goodAt_def updSnap_def runOf_upd holdsSlot_upd keepsId_def good_def Let_def)
  qed
  then show ?thesis using t(1) by (simp add: followedActive_def)
qed

lemma inv_resumeSettled:
  assumes "slotInv {} w" "c = ResumeSettle r k msg" "c \<in> set (conts w)"
  shows "slotInv {} (resumeSettled cfg r msg (taken c w))"
proof -
  note t = taken_step [OF assms(1,3)]
  have r: "r < length (runs w)" using t(2) assms(2) by simp
  let ?w = "beginExecution msg r (taken c w)"
  have fields: "length (runs ?w) = length (runs w)" "slots ?w = slots w" "halted ?w = halted w" "contsOf r ?w = contsOf r (taken c w)"
    "holdsSlot ?w r = holdsSlot w r"
    by (simp_all add: beginExecution_def holdsSlot_upd)
  have view: "isSettled (runOf ?w r) = False" "epoch (runOf ?w r) = Suc (epoch (runOf w r))"
    "agentStatus (snap (runOf ?w r)) = StRunning" "childHandle (runOf ?w r) = childHandle (runOf w r)"
    using r by (simp_all add: beginExecution_def runOf_upd)
  have inv: "slotInv {r} ?w"
    unfolding beginExecution_def using inv_weaken [OF t(1)] by (intro inv_upd) simp_all
  have run: "executing (runOf ?w r) (contsOf r ?w) (holdsSlot ?w r)" "howMany (busy (epoch (runOf ?w r))) (contsOf r ?w) = 0"
    if "\<not> halted ?w" "r \<in> set (poolValues (slots ?w))"
  proof -
    have "good (runOf w r) (contsOf r w) (holdsSlot w r)" using t(4) that fields assms(2) by (simp add: goodAt_def)
    note g = good_resumer [OF this, of c]
    have "contsOf r (taken c w) = remove1 c (contsOf r w)" using taken_fields(9) [of c w] assms(2) by simp
    then have c: "closing (runOf w r) (contsOf r (taken c w))" "holdsSlot w r" using g t(3) assms(2) by auto
    note o = older_epoch [of "epoch (runOf w r)" "contsOf r (taken c w)"]
    show "executing (runOf ?w r) (contsOf r ?w) (holdsSlot ?w r)" "howMany (busy (epoch (runOf ?w r))) (contsOf r ?w) = 0"
      using c o(1,2,4) no_settler_next [of "epoch (runOf w r)" "contsOf r (taken c w)"]
      by (simp_all add: executing_def closing_def view fields)
  qed
  have "slotInv {} (runPrompt r e msg ?w)" for e
    using run r fields by (intro inv_runPrompt [OF inv]) simp_all
  moreover have "slotInv {} (suspend (ResumeFailed r) ?w)"
    using inv run r fields view
    by (intro inv_neutral inv_close [where r = r and R = "{}"]) (auto simp: goodAt_def executing_good snapOf_def)
  moreover have "slotInv {} (suspend (ReopenWait r (epoch (runOf ?w r)) msg) ?w)" if "childHandle (runOf w r) = None"
  proof (rule inv_close [where r = r])
    show "slotInv (insert r {}) (suspend (ReopenWait r (epoch (runOf ?w r)) msg) ?w)" using inv r fields by (intro inv_suspend) simp_all
    show "goodAt (suspend (ReopenWait r (epoch (runOf ?w r)) msg) ?w) r"
      if "\<not> halted (suspend (ReopenWait r (epoch (runOf ?w r)) msg) ?w)"
        "r \<in> set (poolValues (slots (suspend (ReopenWait r (epoch (runOf ?w r)) msg) ?w)))"
      using run that view \<open>childHandle (runOf w r) = None\<close> by (auto simp: goodAt_def intro!: good_starting)
  qed
  ultimately show ?thesis using view(4) by (simp add: resumeSettled_def Let_def)
qed

theorem inv_resumeCont:
  assumes "slotInv {} w" "c \<in> set (conts w)" "honest w x"
  shows "slotInv {} (resumeCont cfg now v c x (taken c w))"
proof (cases c)
  case (CreateWait r e q)
  then show ?thesis using inv_created [OF assms(1) CreateWait assms(2,3)] by simp
next
  case (StartFailed r)
  then show ?thesis using inv_taken_fail [OF assms(1,2)] by simp
next
  case (BeforeStartWait r e m)
  then show ?thesis using inv_lifecycleStarted [OF assms(1) BeforeStartWait assms(2)] by simp
next
  case (PromptWait r e m)
  then show ?thesis using inv_promptDone [OF assms(1) PromptWait assms(2)] by simp
next
  case (StopWait r e)
  then show ?thesis using inv_stopDone [OF assms(1) StopWait assms(2)] by simp
next
  case (AbortWait r e)
  then show ?thesis using inv_abortDone [OF assms(1) AbortWait assms(2)] by simp
next
  case (IntStopWait r e)
  then show ?thesis using inv_taken_settle [OF assms(1,2)] taken_step(1) [OF assms(1,2)] by simp
next
  case (FailRelease r)
  then show ?thesis using inv_taken_settle [OF assms(1,2)] by simp
next
  case (FollowUpSettle r k m)
  then show ?thesis using inv_followUpSettled [OF assms(1) FollowUpSettle assms(2)] by simp
next
  case (FollowActive r m)
  then show ?thesis using inv_followedActive [OF assms(1) FollowActive assms(2)] by simp
next
  case (ResumeSettle r k m)
  then show ?thesis using inv_resumeSettled [OF assms(1) ResumeSettle assms(2)] by simp
next
  case (ReopenWait r e m)
  then show ?thesis using inv_reopened [OF assms(1) ReopenWait assms(2,3)] by simp
next
  case (ResumeFailed r)
  then show ?thesis using inv_taken_fail [OF assms(1,2)] by simp
next
  case (DisposeSettle r k)
  then show ?thesis using inv_release [OF taken_step(1) [OF assms(1,2)]] by simp
qed

end
