(* ===== verification/SubagentCalls.thy ===== *)
theory SubagentCalls
  imports SubagentSteps
begin

text \<open>
  The invariant of the subagent scheduler over the calls of the dispatcher and the events of the
  children, and, with the continuations of \<open>SubagentSteps\<close>, over every reachable world.
\<close>

section \<open>Calls\<close>

lemma createRun_pool:
  assumes "poolOk w" "createRun s q w = Inr w1" "unused w (agentId s)"
  shows "poolOk w1" "runs w1 = runs w @ [newRun s q]" "poolValues (slots w1) = poolValues (slots w) @ [length (runs w)]"
    "active (slots w1) = active (slots w)" "conts w1 = conts w" "halted w1 = halted w" "published w1 = published w"
    "maxConcurrent (slots w1) = maxConcurrent (slots w)" "waitingIds (slots w1) = waitingIds (slots w)"
    "agentId s \<notin> fst ` set (entries (slots w))"
proof -
  let ?n = "length (runs w)"
  have free: "agentId s \<notin> fst ` set (entries (slots w))"
    and w1: "w1 = w\<lparr>runs := runs w @ [newRun s q], slots := (slots w)\<lparr>entries := entries (slots w) @ [(agentId s, ?n)],
      byTaskName := mapSet (taskName s) (agentId s) (byTaskName (slots w))\<rparr>\<rparr>"
    using assms(2) by (auto simp: createRun_def addRun_def mapSet_def map_of_eq_None_iff split: sum.splits if_splits)
  have view: "snapOf w1 r = (if r = ?n then s else snapOf w r)" if "r < Suc ?n" for r
    using that by (auto simp: w1 snapOf_def runOf_def newRun_def nth_append)
  note ok = assms(1) [unfolded poolOk_def]
  have "?n \<notin> set (poolValues (slots w))" using poolOkD(3) [OF assms(1)] by blast
  then have "distinct (map fst (entries (slots w1)))" "distinct (poolValues (slots w1))"
    using ok free by (simp_all add: w1 poolValues_def)
  moreover have "\<forall>(k, r) \<in> set (entries (slots w1)). r < length (runs w1) \<and> agentId (snapOf w1 r) = k"
  proof safe
    fix k r assume "(k, r) \<in> set (entries (slots w1))"
    then consider "k = agentId s \<and> r = ?n" | "(k, r) \<in> set (entries (slots w))" by (auto simp: w1)
    then have "r < Suc ?n \<and> agentId (snapOf w1 r) = k"
    proof cases
      case 2
      then show ?thesis using poolOkD(1,2) [OF assms(1) 2] view [of r] by simp
    qed (simp add: view)
    then show "r < length (runs w1)" "agentId (snapOf w1 r) = k" by (simp_all add: w1)
  qed
  moreover have "\<forall>r < length (runs w1). r \<notin> set (poolValues (slots w1)) \<longrightarrow> agentId (snapOf w1 r) \<notin> set (map fst (entries (slots w1)))"
  proof (intro allI impI)
    fix r assume r: "r < length (runs w1)" "r \<notin> set (poolValues (slots w1))"
    then have "r < ?n" "r \<notin> set (poolValues (slots w))" by (auto simp: w1 poolValues_def)
    then show "agentId (snapOf w1 r) \<notin> set (map fst (entries (slots w1)))"
      using ok assms(3) view [of r] by (simp add: unused_def) (simp add: w1)
  qed
  moreover have "\<forall>i \<in> set (active (slots w1)). \<exists>r < length (runs w1). agentId (snapOf w1 r) = i"
  proof
    fix i assume "i \<in> set (active (slots w1))"
    then obtain r where "r < ?n" "agentId (snapOf w r) = i" using ok by (auto simp: w1)
    then show "\<exists>r < length (runs w1). agentId (snapOf w1 r) = i"
      by (intro exI [of _ r]) (simp add: view, simp add: w1)
  qed
  moreover have "\<forall>c \<in> set (conts w1). refOf c < length (runs w1)" using ok by (auto simp: w1)
  moreover have "distinct (active (slots w1)) \<and> length (active (slots w1)) \<le> maxConcurrent (slots w1)" using ok by (simp add: w1)
  ultimately show "poolOk w1" unfolding poolOk_def by blast
  show "runs w1 = runs w @ [newRun s q]" "poolValues (slots w1) = poolValues (slots w) @ [length (runs w)]"
    "active (slots w1) = active (slots w)" "conts w1 = conts w" "halted w1 = halted w" "published w1 = published w"
    "maxConcurrent (slots w1) = maxConcurrent (slots w)" "waitingIds (slots w1) = waitingIds (slots w)"
    "agentId s \<notin> fst ` set (entries (slots w))"
    using free by (simp_all add: w1 poolValues_def)
qed

lemma inv_createRun:
  assumes "slotInv {} w" "createRun s q w = Inr w1" "unused w (agentId s)"
  shows "slotInv {length (runs w)} w1" "runOf w1 (length (runs w)) = newRun s q" "contsOf (length (runs w)) w1 = []"
    "length (runs w) < length (runs w1)" "snapOf w1 (length (runs w)) = s"
proof -
  have ok: "poolOk w" using assms(1) by (simp add: slotInv_def)
  note c = createRun_pool [OF ok assms(2,3)]
  have old: "goodAt w1 r = goodAt w r" if "r < length (runs w)" for r
    using that by (simp add: goodAt_def holdsSlot_def contsOf_def snapOf_def runOf_def c nth_append)
  show "slotInv {length (runs w)} w1"
    using assms(1) c(1) old poolOkD(3) [OF ok] by (auto simp: slotInv_def c)
  show new: "runOf w1 (length (runs w)) = newRun s q" by (simp add: runOf_def c)
  then show "snapOf w1 (length (runs w)) = s" by (simp add: snapOf_def newRun_def)
  show "contsOf (length (runs w)) w1 = []" using ok by (auto simp: contsOf_def c poolOk_def filter_empty_conv)
  show "length (runs w) < length (runs w1)" by (simp add: c)
qed

text \<open>A new run always gets the slot that was seen to be free, so \<open>SlotChanged\<close> is never raised.\<close>

lemma acquire_new:
  assumes "poolOk w" "createRun s q w = Inr w1" "unused w (agentId s)" "hasCapacity (slots w)"
  shows "\<exists>p. acquire (agentId s) (slots w1) = (True, p) \<and> active p = active (slots w) @ [agentId s]"
proof -
  note c = createRun_pool [OF assms(1-3)]
  have "agentId (snapOf w r) \<noteq> agentId s" if "r < length (runs w)" for r
  proof (cases "r \<in> set (poolValues (slots w))")
    case True
    then show ?thesis using poolOkD(4) [OF assms(1) True] c(10) by force
  next
    case False
    then show ?thesis using assms(3) that by (simp add: unused_def)
  qed
  then have "agentId s \<notin> set (active (slots w))" using assms(1) by (auto simp: poolOk_def)
  then show ?thesis using assms(4) by (simp add: acquire_def hasCapacity_def c)
qed

lemma fresh_unused: "fresh w i \<Longrightarrow> unused w i"
  by (simp add: fresh_def unused_def)

lemma inv_admit:
  assumes "slotInv {} w" "unused w (''pending-'' @ name @ ''-'' @ gen)" "hasSlot \<longrightarrow> hasCapacity (slots w)"
  shows "slotInv {} (snd (admit cfg now gen q name hasSlot w))"
proof -
  let ?s = "reservedSnapshot cfg now gen q name (if hasSlot then StPending else StQueued)"
  let ?r = "length (runs w)"
  have ok: "poolOk w" using assms(1) by (simp add: slotInv_def)
  have s: "agentId ?s = ''pending-'' @ name @ ''-'' @ gen" "agentStatus ?s = (if hasSlot then StPending else StQueued)" "sessionFile ?s = None"
    by (simp_all add: reservedSnapshot_def)
  have un: "unused w (agentId ?s)" using assms(2) by (simp add: s)
  show ?thesis
  proof (cases "createRun ?s (Some q) w")
    case (Inl e)
    then show ?thesis using assms(1) by (simp add: admit_def)
  next
    case (Inr w1)
    note c = inv_createRun [OF assms(1) Inr un]
    show ?thesis
    proof (cases hasSlot)
      case True
      obtain p where p: "acquire (agentId ?s) (slots w1) = (True, p)"
        using acquire_new [OF ok Inr un] assms(3) True by blast
      have "slotInv {} (startSubagent cfg (reqType q) ?r (w1\<lparr>slots := p\<rparr>))"
      proof (rule inv_startSubagent)
        show "slotInv {?r} (w1\<lparr>slots := p\<rparr>)" using inv_acquire [OF c(1) _ c(4)] p c(5) by simp
        show "holdsSlot (w1\<lparr>slots := p\<rparr>) ?r" using acquire_slots(3) [OF p] c(5) by (simp add: holdsSlot_def)
      qed (use c True s in \<open>simp_all add: newRun_def\<close>)
      then show ?thesis using Inr True p c(5) by (simp add: admit_def Let_def)
    next
      case False
      have "slotInv {} w1"
      proof (rule inv_close [OF c(1)])
        show "goodAt w1 ?r" using False s by (simp add: goodAt_def c newRun_def good_def)
      qed
      then have "slotInv {} (w1\<lparr>slots := enqueueRun i (slots w1)\<rparr>)" for i
        by (intro inv_slots) (auto simp: enqueueRun_def slotInv_def poolOk_def)
      then show ?thesis using Inr False by (simp add: admit_def Let_def)
    qed
  qed
qed

lemma inv_spawn:
  assumes "slotInv {} w" "\<forall>name. fresh w (''pending-'' @ name @ ''-'' @ gen)"
  shows "slotInv {} (snd (spawnAgent cfg now gen q w))"
  using assms fresh_unused by (auto simp: spawnAgent_def intro!: inv_admit split: sum.split)

lemma inv_restoreAll:
  assumes "slotInv {} w" "restoreAll ss w = Inr w'" "\<forall>s \<in> set ss. unused w (agentId s) \<and> isTerminalStatus (agentStatus s)"
  shows "slotInv {} w'"
  using assms
proof (induction ss arbitrary: w)
  case (Cons s ss)
  from Cons.prems(2) obtain w1 where w1: "createRun s None w = Inr w1" "restoreAll ss w1 = Inr w'" by (auto split: sum.splits)
  have un: "unused w (agentId s)" using Cons.prems(3) by simp
  have ok: "poolOk w" using Cons.prems(1) by (simp add: slotInv_def)
  note c = inv_createRun [OF Cons.prems(1) w1(1) un] and p = createRun_pool [OF ok w1(1) un]
  have "slotInv {} w1"
    using Cons.prems(3) by (intro inv_close [OF c(1)]) (auto simp: goodAt_def c newRun_def good_def)
  moreover have "unused w1 i" if "unused w i" for i
    using that c(5) by (auto simp: unused_def snapOf_def runOf_def p nth_append less_Suc_eq)
  ultimately show ?case using Cons.IH w1(2) Cons.prems(3) by simp
qed simp

lemma inv_restore:
  assumes "slotInv {} w" "restoreAgents cfg now ss w = Inr w'" "\<forall>s \<in> set ss. unused w (agentId s)"
  shows "slotInv {} w'"
proof -
  obtain out where out: "normalizeSubagentRecoveryState ss (parentId cfg) now = Inr out" "restoreAll out w = Inr w'"
    using assms(2) by (auto simp: restoreAgents_def split: if_splits sum.splits)
  have "out = map (recovered now) ss" using out(1) by (simp add: normalize_iff)
  then show ?thesis using assms(3) by (intro inv_restoreAll [OF assms(1) out(2)]) auto
qed

section \<open>Removing runs\<close>

lemma removeRun_pool:
  assumes "poolOk w" "removeRun r (snapOf w r) (slots w) = (b, p)"
  shows "b \<longleftrightarrow> r \<in> set (poolValues (slots w))" "\<not> b \<Longrightarrow> p = slots w"
    "b \<Longrightarrow> entries p = filter (\<lambda>e. snd e \<noteq> r) (entries (slots w))"
    "b \<Longrightarrow> active p = removeAll (agentId (snapOf w r)) (active (slots w))" "maxConcurrent p = maxConcurrent (slots w)"
proof -
  let ?i = "agentId (snapOf w r)"
  have iff: "map_of (entries (slots w)) ?i = Some r \<longleftrightarrow> r \<in> set (poolValues (slots w))"
  proof
    show "map_of (entries (slots w)) ?i = Some r \<Longrightarrow> r \<in> set (poolValues (slots w))"
      by (drule map_of_SomeD) (force simp: poolValues_def)
    show "r \<in> set (poolValues (slots w)) \<Longrightarrow> map_of (entries (slots w)) ?i = Some r"
      using poolOkD(4) [OF assms(1)] assms(1) by (simp add: poolOk_def)
  qed
  have same: "mapDelete ?i (entries (slots w)) = filter (\<lambda>e. snd e \<noteq> r) (entries (slots w))" if pool: "r \<in> set (poolValues (slots w))"
  proof -
    have "k = ?i \<longleftrightarrow> s = r" if "(k, s) \<in> set (entries (slots w))" for k s
      using poolOkD(2) [OF assms(1) that] ids_differ [OF assms(1) pool poolOkD(1) [OF assms(1) that]] by auto
    then show ?thesis unfolding mapDelete_def by (intro filter_cong) (force split: prod.split)+
  qed
  show "b \<longleftrightarrow> r \<in> set (poolValues (slots w))" "\<not> b \<Longrightarrow> p = slots w"
    "b \<Longrightarrow> entries p = filter (\<lambda>e. snd e \<noteq> r) (entries (slots w))"
    "b \<Longrightarrow> active p = removeAll (agentId (snapOf w r)) (active (slots w))" "maxConcurrent p = maxConcurrent (slots w)"
    using assms(2) same by (auto simp: removeRun_def Let_def releaseSlot_def removeQueued_def iff split: if_splits)
qed

lemma inv_removeRun:
  assumes "slotInv {} w" "removeRun r (snapOf w r) (slots w) = (b, p)"
  shows "slotInv {} (w\<lparr>slots := p\<rparr>)" "set (poolValues p) = set (poolValues (slots w)) - {r}"
proof -
  have ok: "poolOk w" using assms(1) by (simp add: slotInv_def)
  note p = removeRun_pool [OF ok assms(2)]
  show vals: "set (poolValues p) = set (poolValues (slots w)) - {r}"
    using p(1-3) by (cases b) (auto simp: poolValues_def)
  show "slotInv {} (w\<lparr>slots := p\<rparr>)"
  proof (cases b)
    case False
    then show ?thesis using p(2) assms(1) by simp
  next
    case True
    then have r: "r < length (runs w)" using p(1) poolOkD(3) [OF ok] by simp
    note w = ok [unfolded poolOk_def]
    have "distinct (map fst (entries p))" "distinct (poolValues p)"
      using w p(3) [OF True] by (simp_all add: poolValues_def distinct_map_filter)
    moreover have "\<forall>(k, s) \<in> set (entries p). s < length (runs w) \<and> agentId (snapOf w s) = k"
      using w p(3) [OF True] by auto
    moreover have "agentId (snapOf w s) \<notin> set (map fst (entries p))" if s: "s < length (runs w)" "s \<notin> set (poolValues p)" for s
    proof
      assume "agentId (snapOf w s) \<in> set (map fst (entries p))"
      then obtain t where t: "(agentId (snapOf w s), t) \<in> set (entries (slots w))" "t \<noteq> r"
        using p(3) [OF True] by auto
      then have pool: "t \<in> set (poolValues (slots w))" by (force simp: poolValues_def)
      then have "s \<noteq> t" using s(2) vals t(2) by blast
      then show False using ids_differ [OF ok pool s(1)] poolOkD(2) [OF ok t(1)] by simp
    qed
    moreover have "distinct (active p)" "length (active p) \<le> maxConcurrent p"
      using removeAll_active [of "active (slots w)" "maxConcurrent (slots w)" "agentId (snapOf w r)"] w p(4,5) True by simp_all
    moreover have "\<forall>i \<in> set (active p). \<exists>s < length (runs w). agentId (snapOf w s) = i" using w p(4) [OF True] by auto
    moreover have "\<forall>c \<in> set (conts w). refOf c < length (runs w)" using w by blast
    ultimately have "poolOk (w\<lparr>slots := p\<rparr>)" by (simp add: poolOk_def)
    moreover have "goodAt (w\<lparr>slots := p\<rparr>) s = goodAt w s" if "s \<in> set (poolValues p)" for s
      using ids_differ [OF ok _ r, of s] that vals p(4) [OF True] by (auto simp: goodAt_def holdsSlot_def)
    ultimately show ?thesis using assms(1) vals by (simp add: slotInv_def)
  qed
qed

lemma inv_removeFinished:
  "slotInv {} (w\<lparr>slots := p\<rparr>) \<Longrightarrow> removeFinishedFrom (snapOf w) P rs p = (out, p') \<Longrightarrow>
     slotInv {} (w\<lparr>slots := p'\<rparr>) \<and> set (poolValues p') = set (poolValues p) - set out \<and>
     (\<forall>r \<in> set out. r \<in> set (poolValues p) \<and> isTerminalStatus (statusOf w r))"
proof (induction rs arbitrary: p out p')
  case (Cons r rs)
  show ?case
  proof (cases "\<not> isTerminalStatus (statusOf w r) \<or> \<not> P (snapOf w r)")
    case True
    then show ?thesis using Cons.IH [OF Cons.prems(1)] Cons.prems(2) by simp
  next
    case False
    obtain b p1 where r: "removeRun r (snapOf w r) p = (b, p1)" by fastforce
    obtain out1 p2 where rest: "removeFinishedFrom (snapOf w) P rs p1 = (out1, p2)" by fastforce
    have res: "out = (if b then r # out1 else out1)" "p' = p2" using Cons.prems(2) False r rest by (auto split: if_splits)
    have inv: "slotInv {} (w\<lparr>slots := p1\<rparr>)" "set (poolValues p1) = set (poolValues p) - {r}"
      using inv_removeRun [OF Cons.prems(1), of r b p1] r by simp_all
    have b: "b \<longleftrightarrow> r \<in> set (poolValues p)"
      using removeRun_pool(1) [of "w\<lparr>slots := p\<rparr>" r b p1] Cons.prems(1) r by (simp add: slotInv_def)
    note ih = Cons.IH [OF inv(1) rest]
    show ?thesis using ih inv(2) b False by (auto simp: res)
  qed
qed simp

text \<open>A run that the pool has let go is disposed without a trace in the rest of the world.\<close>

lemma disposeRun_removed:
  assumes "slotInv {} w" "r < length (runs w)" "r \<notin> set (poolValues (slots w))" "isTerminalStatus (statusOf w r)"
  shows "slotInv {} (disposeRun cfg now v r w)" "length (runs (disposeRun cfg now v r w)) = length (runs w)"
    "slots (disposeRun cfg now v r w) = slots w" "snapOf (disposeRun cfg now v r w) s = snapOf w s"
proof -
  let ?w = "updRun r (\<lambda>x. x\<lparr>runDisposed := True\<rparr>) w"
  have st: "snapOf ?w s = snapOf w s" for s using assms(2) by (simp add: snapOf_upd) (simp add: snapOf_def)
  have dispose: "disposeRun cfg now v r w = (if runDisposed (runOf w r) then w else suspend (DisposeSettle r (settlement (runOf ?w r))) ?w)"
    using assms(4) st by (simp add: disposeRun_def Let_def interruptRun_def)
  have "slotInv {r} ?w" using inv_weaken [OF assms(1)] by (intro inv_upd) simp_all
  then have "slotInv {} ?w" using assms(3) by (intro inv_close [where r = r and R = "{}"]) auto
  then have "slotInv {} (suspend (DisposeSettle r (settlement (runOf ?w r))) ?w)"
    using assms(2,3) by (intro inv_neutral) simp_all
  then show "slotInv {} (disposeRun cfg now v r w)" using assms(1) by (simp add: dispose)
  show "length (runs (disposeRun cfg now v r w)) = length (runs w)"
    "slots (disposeRun cfg now v r w) = slots w" "snapOf (disposeRun cfg now v r w) s = snapOf w s"
    using st by (simp_all add: dispose)
qed

lemma dispose_fold:
  assumes "slotInv {} w" "\<forall>r \<in> set rs. r < length (runs w) \<and> r \<notin> set (poolValues (slots w)) \<and> isTerminalStatus (statusOf w r)"
  shows "slotInv {} (fold (disposeRun cfg now v) rs w) \<and> length (runs (fold (disposeRun cfg now v) rs w)) = length (runs w) \<and>
    slots (fold (disposeRun cfg now v) rs w) = slots w \<and> (\<forall>s. snapOf (fold (disposeRun cfg now v) rs w) s = snapOf w s)"
  using assms
proof (induction rs arbitrary: w)
  case (Cons r rs)
  have "r < length (runs w)" "r \<notin> set (poolValues (slots w))" "isTerminalStatus (statusOf w r)" using Cons.prems(2) by simp_all
  note d = disposeRun_removed [OF Cons.prems(1) this, of cfg now v]
  show ?case using Cons.IH [OF d(1)] Cons.prems(2) d(2-4) by simp
qed simp

lemma inv_clearRuns:
  assumes "slotInv {} w"
  shows "slotInv {} (clearRuns cfg now v P w)" "fresh w i \<Longrightarrow> fresh (clearRuns cfg now v P w) i"
proof -
  obtain out p where out: "removeFinished (snapOf w) P (slots w) = (out, p)" by fastforce
  have r: "slotInv {} (w\<lparr>slots := p\<rparr>)" "\<forall>r \<in> set out. r \<notin> set (poolValues p) \<and> r \<in> set (poolValues (slots w)) \<and> isTerminalStatus (statusOf w r)"
    using inv_removeFinished [of "slots w" w P _ out p] assms out by (auto simp: removeFinished_def)
  have ok: "poolOk w" using assms by (simp add: slotInv_def)
  have "\<forall>r \<in> set out. r < length (runs (w\<lparr>slots := p\<rparr>)) \<and> r \<notin> set (poolValues (slots (w\<lparr>slots := p\<rparr>))) \<and>
      isTerminalStatus (statusOf (w\<lparr>slots := p\<rparr>) r)"
    using r(2) poolOkD(3) [OF ok] by auto
  note d = dispose_fold [OF r(1) this, of cfg now v]
  show "slotInv {} (clearRuns cfg now v P w)" "fresh w i \<Longrightarrow> fresh (clearRuns cfg now v P w) i"
    using d out by (simp_all add: clearRuns_def fresh_def)
qed

section \<open>Spawning many\<close>

lemma unused_startSubagent: "unused (startSubagent cfg ty r w) i = unused w i"
  by (auto simp: startSubagent_def unused_def agentId_upd split: option.split)

lemma admit_unused:
  assumes "poolOk w" "unused w i" "unused w (''pending-'' @ name @ ''-'' @ gen)"
  shows "unused (snd (admit cfg now gen q name hasSlot w)) i"
proof -
  let ?s = "reservedSnapshot cfg now gen q name (if hasSlot then StPending else StQueued)"
  have un: "unused w (agentId ?s)" using assms(3) by (simp add: reservedSnapshot_def)
  show ?thesis
  proof (cases "createRun ?s (Some q) w")
    case (Inl e)
    then show ?thesis using assms(2) by (simp add: admit_def)
  next
    case (Inr w1)
    note c = createRun_pool [OF assms(1) Inr un]
    have w1: "unused w1 i" using assms(2) by (auto simp: unused_def snapOf_def runOf_def c nth_append less_Suc_eq)
    have slots: "unused (w1\<lparr>slots := p\<rparr>) i" if "entries p = entries (slots w1)" for p
      using w1 that by (simp add: unused_def poolValues_def)
    show ?thesis
    proof (cases hasSlot)
      case True
      show ?thesis
      proof (cases "acquire (agentId (snapOf w1 (length (runs w)))) (slots w1)")
        case (Pair b p)
        show ?thesis using acquire_slots(1) [OF Pair] Inr True Pair w1 slots
          by (cases b) (simp_all add: admit_def Let_def unused_startSubagent)
      qed
    next
      case False
      then show ?thesis using Inr slots by (simp add: admit_def Let_def enqueueRun_def)
    qed
  qed
qed

lemma inv_admitMany:
  "slotInv {} w \<Longrightarrow> \<forall>name k. unused w (''pending-'' @ name @ ''-'' @ gens k) \<Longrightarrow> slotInv {} (snd (admitMany cfg now gens n qs w))"
proof (induction cfg now gens n qs w rule: admitMany.induct)
  case (2 cfg now gens n q name qs w)
  let ?out = "admit cfg now (gens n) q name (hasCapacity (slots w)) w"
  have ok: "poolOk w" using "2.prems"(1) by (simp add: slotInv_def)
  have inv: "slotInv {} (snd ?out)" using "2.prems" by (intro inv_admit) simp_all
  have un: "\<forall>name k. unused (snd ?out) (''pending-'' @ name @ ''-'' @ gens k)" using "2.prems"(2) admit_unused [OF ok] by blast
  show ?case
  proof (cases ?out)
    case (Pair res w1)
    show ?thesis
    proof (cases res)
      case (Inl e)
      then show ?thesis using Pair inv by simp
    next
      case (Inr r)
      have "slotInv {} (snd (admitMany cfg now gens (n + 1) qs w1))"
        using "2.IH" [OF Pair [symmetric, unfolded Inr] refl] inv un Pair by simp
      then show ?thesis using Pair Inr by (auto split: prod.split sum.split)
    qed
  qed
qed simp

lemma inv_spawnMany:
  assumes "slotInv {} w" "\<forall>name n. fresh w (''pending-'' @ name @ ''-'' @ gens n)"
  shows "slotInv {} (snd (spawnMany cfg now v gens qs w))"
proof -
  have "slotInv {} (snd (admitMany cfg now gens 0 validated (clearRuns cfg now v P w)))" for validated P
    using assms(2) by (intro inv_admitMany inv_clearRuns(1) [OF assms(1)] allI fresh_unused inv_clearRuns(2) [OF assms(1)]) simp
  then show ?thesis using assms(1) by (auto simp: spawnMany_def Let_def split: sum.split)
qed

section \<open>Interrupting\<close>

lemma resolveTarget_pool: "resolveTarget p target = Some r \<Longrightarrow> r \<in> set (poolValues p)"
  by (auto simp: resolveTarget_def Let_def poolValues_def split: option.splits if_splits dest!: map_of_SomeD) force+

lemma inv_interruptRef:
  assumes "slotInv {} w" "r < length (runs w)"
  shows "slotInv {} (interruptRef cfg now v r w)"
proof -
  have "slotInv {} (w\<lparr>slots := removeQueued i (slots w)\<rparr>)" for i
    using assms(1) by (intro inv_slots) (auto simp: removeQueued_def slotInv_def poolOk_def)
  then show ?thesis using assms by (simp add: interruptRef_def inv_interrupt)
qed

lemma inv_interruptTarget:
  assumes "slotInv {} w"
  shows "slotInv {} (snd (interruptTarget cfg now v target w))"
proof -
  have "r < length (runs w)" if "resolveTarget (slots w) target = Some r" for r
    using resolveTarget_pool [OF that] assms poolOkD(3) by (auto simp: slotInv_def)
  then show ?thesis using assms by (auto simp: interruptTarget_def inv_interruptRef split: option.split)
qed

lemma inv_interruptEach: "slotInv {} w \<Longrightarrow> slotInv {} (interruptEach cfg now v ids w)"
proof (induction cfg now v ids w rule: interruptEach.induct)
  case (2 cfg now v i ids w)
  have "slotInv {} (snd (interruptTarget cfg now v i w))" using "2.prems" by (rule inv_interruptTarget)
  then show ?case using "2.IH" by (auto split: prod.split sum.split)
qed simp

section \<open>Disposal and events\<close>

text \<open>Once the coordinator is halted the pool and the heap are all that is left to keep in order.\<close>

lemma halted_dispose:
  assumes "slotInv {} w" "halted w" "r < length (runs w)"
  shows "slotInv {} (disposeRun cfg now v r w) \<and> halted (disposeRun cfg now v r w) \<and>
    length (runs (disposeRun cfg now v r w)) = length (runs w)"
proof -
  let ?w = "updRun r (\<lambda>x. x\<lparr>runDisposed := True\<rparr>) w"
  have "slotInv {r} ?w" using inv_weaken [OF assms(1)] by (intro inv_upd) simp_all
  then have "slotInv {} ?w" using assms(2) by (simp add: slotInv_def)
  then have inv: "slotInv {} (interruptRun cfg now v r ?w)" using assms(3) by (intro inv_interrupt) simp_all
  have "halted w' \<Longrightarrow> halted (markSettled cfg r w') \<and> length (runs (markSettled cfg r w')) = length (runs w')" for w'
    by (simp add: markSettled_def Let_def drainQueue.simps)
  then have fields: "halted (interruptRun cfg now v r ?w) \<and> length (runs (interruptRun cfg now v r ?w)) = length (runs w)"
    using assms(2) by (auto simp: interruptRun_def settleInterruptedExecution_def settleAborted_def split: option.split)
  then have "slotInv {} (suspend (DisposeSettle r k) (interruptRun cfg now v r ?w))" for k
    using inv assms(3) by (intro inv_neutral) simp_all
  then show ?thesis using fields assms by (simp add: disposeRun_def Let_def)
qed

lemma inv_disposeAll:
  assumes "slotInv {} w"
  shows "slotInv {} (disposeAll cfg now v w)"
proof -
  have ok: "poolOk w" using assms by (simp add: slotInv_def)
  have each: "slotInv {} w' \<Longrightarrow> halted w' \<Longrightarrow> \<forall>r \<in> set rs. r < length (runs w') \<Longrightarrow> slotInv {} (fold (disposeRun cfg now v) rs w')" for rs w'
  proof (induction rs arbitrary: w')
    case (Cons r rs)
    then show ?case using halted_dispose [OF Cons.prems(1,2), of r cfg now v] by simp
  qed simp
  let ?w = "w\<lparr>halted := True, slots := clearScheduling (slots w)\<rparr>"
  have "slotInv {} ?w" using ok by (auto simp: slotInv_def poolOk_def clearScheduling_def poolValues_def snapOf_def runOf_def)
  moreover have "\<forall>r \<in> set (poolValues (slots ?w)). r < length (runs ?w)"
    using poolOkD(3) [OF ok] by (simp add: clearScheduling_def poolValues_def)
  ultimately show ?thesis using assms each [of ?w "poolValues (slots ?w)"] by (simp add: disposeAll_def Let_def)
qed

lemma inv_childStarted:
  assumes "slotInv {} w" "r < length (runs w)"
  shows "slotInv {} (childStarted r w)"
proof (cases "childHandle (runOf w r) \<noteq> None \<and> statusOf w r = StPending")
  case True
  let ?w = "updSnap r (\<lambda>s. s\<lparr>agentStatus := StRunning\<rparr>) w"
  have "slotInv {} ?w"
  proof (rule inv_close [where r = r])
    show "slotInv (insert r {}) ?w" using inv_weaken [OF assms(1)] by (intro inv_updSnap) simp_all
    show "goodAt ?w r" if "\<not> halted ?w" "r \<in> set (poolValues (slots ?w))"
    proof -
      have "goodAt w r" using assms(1) that by (simp add: slotInv_def)
      then show ?thesis using True assms(2)
        by (auto simp: goodAt_def good_def Let_def updSnap_def runOf_upd holdsSlot_upd keepsId_def snapOf_def)
    qed
  qed
  then show ?thesis using True by (simp add: childStarted_def)
qed (use assms in \<open>auto simp: childStarted_def\<close>)

lemma inv_childEnded:
  assumes "slotInv {} w" "r < length (runs w)" "prompted (runOf w r)"
  shows "slotInv {} (childEnded cfg now v r w)"
proof -
  have "slotInv {} (onChildAgentEnd cfg now v r (epoch (runOf w r)) w)" if h: "childHandle (runOf w r) \<noteq> None"
  proof (rule inv_onChildAgentEnd)
    show "slotInv {r} w" using assms(1) by (rule inv_weaken) simp
    show good: "goodAt w r" if "\<not> halted w" "r \<in> set (poolValues (slots w))" using assms(1) that by (simp add: slotInv_def)
    show "howMany (starter (epoch (runOf w r))) (contsOf r w) = 0" if "\<not> halted w" "r \<in> set (poolValues (slots w))"
      using goodAtD(6) [OF good [OF that]] h assms(3) by auto
  qed (rule assms(2))
  then show ?thesis using assms(1) by (simp add: childEnded_def)
qed

section \<open>Every step\<close>

theorem step_inv: "step cfg w w' \<Longrightarrow> slotInv {} w \<Longrightarrow> slotInv {} w'"
proof (induction rule: step.induct)
  case (step_restore now ss w w')
  then show ?case using inv_restore by blast
next
  case (step_spawn w gen now q)
  then show ?case using inv_spawn by blast
next
  case (step_spawnMany w gens now v qs)
  then show ?case using inv_spawnMany by blast
next
  case (step_followUp w target msg)
  have r: "r < length (runs w)" if "resolveTarget (slots w) target = Some r" for r
    using resolveTarget_pool [OF that] step_followUp poolOkD(3) by (auto simp: slotInv_def)
  have "slotInv {} (suspend c w)"
    if "neutral c" "resolveTarget (slots w) target = Some (refOf c)" "statusOf w (refOf c) \<noteq> StQueued" for c
    using step_followUp that r by (intro inv_neutral) simp_all
  moreover have "statusOf w r \<noteq> StQueued" if "childHandle (runOf w r) \<noteq> None" "resolveTarget (slots w) target = Some r" "\<not> halted w" for r
    using step_followUp that resolveTarget_pool goodAtD(3) by (auto simp: slotInv_def)
  moreover have "statusOf w r \<noteq> StQueued" if "isTerminalStatus (statusOf w r)" for r
    using that by (auto simp del: not_None_eq)
  ultimately show ?case using step_followUp by (auto simp: followUp_def split: option.split)
next
  case (step_interrupt w now v target)
  then show ?case by (rule inv_interruptTarget)
next
  case (step_interruptAll w now v)
  then show ?case by (simp add: interruptAll_def inv_interruptEach)
next
  case (step_clear w now v)
  then show ?case by (simp add: clearFinished_def inv_clearRuns)
next
  case (step_dispose w now v)
  then show ?case by (rule inv_disposeAll)
next
  case (step_resume c w x now v)
  then show ?case using inv_resumeCont by (simp add: taken_def)
next
  case (step_started r w)
  then show ?case by (simp add: inv_childStarted)
next
  case (step_ended r w now v)
  then show ?case by (simp add: inv_childEnded)
qed

theorem reachable_inv: "reachableWorld cfg n w \<Longrightarrow> slotInv {} w"
proof -
  have init: "slotInv {} (initialWorld \<lparr>maxConcurrent = n, entries = [], byTaskName = [], active = [], waitingIds = []\<rparr>)"
    by (simp add: initialWorld_def slotInv_def poolOk_def poolValues_def)
  have "(step cfg)\<^sup>*\<^sup>* w0 w \<Longrightarrow> slotInv {} w0 \<Longrightarrow> slotInv {} w" for w0
    by (induction rule: rtranclp_induct) (auto intro: step_inv)
  then show "reachableWorld cfg n w \<Longrightarrow> slotInv {} w" using init by (auto simp: reachableWorld_def)
qed

end
