(* ===== verification/SubagentPublication.thy ===== *)
theory SubagentPublication
  imports SubagentCalls
begin

text \<open>
  What the scheduler publishes to the coordinator: every time a run ends its generation is raised
  by one and the snapshot is published, so the published snapshots of a run carry consecutive
  generations up to its present one. \<open>pubInv\<close> says so and every step keeps it.
\<close>

definition generationsOf :: "nat \<Rightarrow> world \<Rightarrow> nat list" where
  "generationsOf r w = map (\<lambda>p. generation (snd p)) (filter (\<lambda>p. fst p = r) (published w))"

definition pubInv :: "world \<Rightarrow> bool" where
  "pubInv w =
     ((\<forall>p \<in> set (published w). fst p < length (runs w) \<and> isTerminalStatus (agentStatus (snd p))) \<and>
      (\<forall>r < length (runs w). \<exists>g \<le> generation (snapOf w r). generationsOf r w = [Suc g..<Suc (generation (snapOf w r))]))"

lemma pubInv_generations: "pubInv w \<Longrightarrow> r < length (runs w) \<Longrightarrow>
    \<exists>g \<le> generation (snapOf w r). generationsOf r w = [Suc g..<Suc (generation (snapOf w r))]"
  by (simp add: pubInv_def del: upt_Suc)

section \<open>What does not publish\<close>

definition keepsGeneration :: "(agent_run \<Rightarrow> agent_run) \<Rightarrow> bool" where
  "keepsGeneration f = (\<forall>x. generation (snap (f x)) = generation (snap x))"

lemma generation_upd: "keepsGeneration f \<Longrightarrow> generation (snapOf (updRun r f w) s) = generation (snapOf w s)"
  using snapOf_upd [of r w f s]
  by (cases "r < length (runs w)") (auto simp: snapOf_def keepsGeneration_def updRun_def list_update_beyond)

lemma pub_upd: "keepsGeneration f \<Longrightarrow> pubInv (updRun r f w) = pubInv w"
  by (simp add: pubInv_def generationsOf_def generation_upd)

lemma pub_updSnap: "(\<And>s. generation (g s) = generation s) \<Longrightarrow> pubInv (updSnap r g w) = pubInv w"
  unfolding updSnap_def by (rule pub_upd) (simp add: keepsGeneration_def)

lemma pub_same [simp]:
  "pubInv (w\<lparr>slots := p\<rparr>) = pubInv w" "pubInv (w\<lparr>conts := cs\<rparr>) = pubInv w" "pubInv (w\<lparr>halted := b\<rparr>) = pubInv w"
  "pubInv (suspend c w) = pubInv w" "pubInv (taken c w) = pubInv w"
  by (simp_all add: pubInv_def generationsOf_def taken_def)

lemma keepsGeneration_simps [simp]:
  "keepsGeneration (\<lambda>x. x\<lparr>childHandle := h\<rparr>)" "keepsGeneration (\<lambda>x. x\<lparr>queuedRequest := q\<rparr>)"
  "keepsGeneration (\<lambda>x. x\<lparr>epoch := f x\<rparr>)" "keepsGeneration (\<lambda>x. x\<lparr>isSettled := b\<rparr>)"
  "keepsGeneration (\<lambda>x. x\<lparr>startCompleted := b\<rparr>)" "keepsGeneration (\<lambda>x. x\<lparr>runDisposed := b\<rparr>)"
  "keepsGeneration (\<lambda>x. x\<lparr>epoch := f x, queuedRequest := q\<rparr>)"
  "keepsGeneration (\<lambda>x. x\<lparr>stopCount := g x, endingEpoch := n\<rparr>)"
  "keepsGeneration (\<lambda>x. if endingEpoch x = n then x\<lparr>endingEpoch := m\<rparr> else x)"
  "keepsGeneration (\<lambda>x. x\<lparr>snap := (snap x)\<lparr>agentStatus := st\<rparr>, prompted := b\<rparr>)"
  "keepsGeneration (\<lambda>x. x\<lparr>endingEpoch := n, snap := (snap x)\<lparr>finalText := h' x\<rparr>\<rparr>)"
  "keepsGeneration (\<lambda>x. x\<lparr>snap := (snap x)\<lparr>agentId := i, sessionFile := p\<rparr>, childHandle := h, prompted := b\<rparr>)"
  "keepsGeneration (\<lambda>x. x\<lparr>epoch := f x, stopCount := k, endingEpoch := n, isSettled := b, settlement := g x,
     snap := (snap x)\<lparr>agentStatus := st, agentTask := t, endedAt := tm, errorMessage := err\<rparr>\<rparr>)"
  by (simp_all add: keepsGeneration_def)

lemma pub_release [simp]: "pubInv (releaseHandle r w) = pubInv w"
  by (simp add: releaseHandle_def pub_upd)

lemma pub_start [simp]:
  "pubInv (startSubagent cfg ty r w) = pubInv w" "pubInv (activateQueued r w) = pubInv w"
  by (simp_all add: startSubagent_def activateQueued_def pub_upd pub_updSnap split: option.split)

lemma pub_drain [simp]: "pubInv (drainQueue cfg w) = pubInv w"
proof (induction cfg w rule: drainQueue.induct)
  case (1 cfg w)
  show ?case
  proof (cases "halted w \<or> \<not> hasCapacity (slots w)")
    case True
    then show ?thesis by (auto simp: drainQueue.simps [of cfg w])
  next
    case False
    show ?thesis
    proof (cases "takeNext (snapOf w) (slots w)")
      case (Pair found p)
      then show ?thesis using False 1 by (cases found) (simp_all add: drainQueue.simps [of cfg w])
    qed
  qed
qed

lemma pub_settle [simp]:
  "pubInv (markSettled cfg r w) = pubInv w" "pubInv (settleAborted cfg r e w) = pubInv w"
  "pubInv (settleInterruptedExecution cfg r e h w) = pubInv w"
  by (simp_all add: markSettled_def settleAborted_def settleInterruptedExecution_def Let_def pub_upd split: option.split)

lemma pub_prompt [simp]:
  "pubInv (runPrompt r e msg w) = pubInv w" "pubInv (clearEnding r e w) = pubInv w"
  "pubInv (beginExecution msg r w) = pubInv w" "pubInv (updateUsage v r w) = pubInv w" "pubInv (keepFinalText v r w) = pubInv w"
  by (simp_all add: runPrompt_def clearEnding_def beginExecution_def updateUsage_def keepFinalText_def pub_upd pub_updSnap
      split: option.split)

section \<open>What publishes\<close>

lemma pub_terminal:
  assumes "pubInv w" "r < length (runs w)" "isTerminalStatus st"
  shows "pubInv (handleTerminal r (commitTerminal st err now r w))"
proof -
  let ?w = "handleTerminal r (commitTerminal st err now r w)" and ?c = "commitTerminal st err now r w"
  have snap: "snapOf ?c s = (if s = r then (snapOf w r)\<lparr>agentStatus := st, endedAt := Some now, errorMessage := err,
       generation := generation (snapOf w r) + 1\<rparr> else snapOf w s)" for s
    using assms(2) by (simp add: commitTerminal_def updSnap_def snapOf_upd) (simp add: snapOf_def)
  have pub: "published ?w = published w @ [(r, snapOf ?c r)]"
    by (simp add: handleTerminal_def commitTerminal_def)
  have gens: "generationsOf s ?w = generationsOf s w @ (if s = r then [Suc (generation (snapOf w r))] else [])" for s
    by (simp add: generationsOf_def pub snap)
  have "\<exists>g \<le> generation (snapOf ?w s). generationsOf s ?w = [Suc g..<Suc (generation (snapOf ?w s))]"
    if s: "s < length (runs w)" for s
  proof -
    obtain g where "g \<le> generation (snapOf w s)" "generationsOf s w = [Suc g..<Suc (generation (snapOf w s))]"
      using pubInv_generations [OF assms(1) s] by blast
    then show ?thesis by (intro exI [of _ g]) (auto simp: gens snap)
  qed
  then show ?thesis using assms by (auto simp: pubInv_def pub snap simp del: upt_Suc)
qed

lemma pub_stop:
  assumes "pubInv w" "r < length (runs w)" "isTerminalStatus st"
  shows "pubInv (stopExecution st err now v r w)"
  using assms unfolding stopExecution_def by (intro pub_terminal) (simp_all add: pub_upd)

lemma pub_interrupt: "pubInv w \<Longrightarrow> r < length (runs w) \<Longrightarrow> pubInv (interruptRun cfg now v r w)"
  by (simp add: interruptRun_def pub_stop)

lemma pub_fail: "pubInv w \<Longrightarrow> r < length (runs w) \<Longrightarrow> pubInv (failRun err now v r w)"
  by (simp add: failRun_def pub_stop)

lemma pub_finishEnd: "pubInv w \<Longrightarrow> r < length (runs w) \<Longrightarrow> pubInv (finishEnd cfg now r e c w)"
  by (simp add: finishEnd_def pub_terminal pub_upd)

lemma pub_end: "pubInv w \<Longrightarrow> r < length (runs w) \<Longrightarrow> pubInv (onChildAgentEnd cfg now v r e w)"
  by (simp add: onChildAgentEnd_def Let_def pub_finishEnd pub_upd)

lemma pub_attach: "attachHandle h r w = Inr w1 \<Longrightarrow> pubInv w1 = pubInv w"
  by (auto simp: attachHandle_def pub_upd split: sum.splits)

lemmas pub_simps = pub_fail pub_finishEnd pub_end pub_interrupt pub_upd pub_updSnap

lemma pub_resumeCont:
  assumes "pubInv w" "refOf c < length (runs w)"
  shows "pubInv (resumeCont cfg now v c x w)"
proof (cases c)
  case (CreateWait r e q)
  then show ?thesis using assms by (auto simp: created_def pub_attach split: reply.split sum.split)
next
  case (BeforeStartWait r e m)
  then show ?thesis using assms by (simp add: lifecycleStarted_def Let_def pub_upd split: prod.split)
next
  case (PromptWait r e m)
  then show ?thesis using assms
    by (cases "x = PromptReply True") (auto simp: promptDone_def pub_simps split: reply.split bool.split)
next
  case (FollowUpSettle r k m)
  then show ?thesis using assms by (auto simp: followUpSettled_def Let_def split: prod.split bool.split)
next
  case (FollowActive r m)
  then show ?thesis using assms by (simp add: followedActive_def pub_updSnap)
next
  case (ResumeSettle r k m)
  then show ?thesis using assms by (simp add: resumeSettled_def Let_def)
next
  case (ReopenWait r e m)
  then show ?thesis using assms by (auto simp: reopened_def pub_attach split: reply.split sum.split)
qed (use assms in \<open>simp_all add: pub_simps\<close>)

section \<open>Calls\<close>

lemma pub_createRun:
  assumes "createRun s q w = Inr w1" "pubInv w"
  shows "pubInv w1"
proof -
  have w1: "runs w1 = runs w @ [newRun s q]" "published w1 = published w"
    using assms(1) by (auto simp: createRun_def split: sum.splits)
  have old: "snapOf w1 r = snapOf w r" if "r < length (runs w)" for r
    using that by (simp add: snapOf_def runOf_def w1 nth_append)
  have "filter (\<lambda>p. fst p = length (runs w)) (published w) = []" using assms(2) by (auto simp: pubInv_def filter_empty_conv)
  then have "generationsOf (length (runs w)) w1 = []" by (simp add: generationsOf_def w1)
  moreover have "generationsOf r w1 = generationsOf r w" for r by (simp add: generationsOf_def w1)
  ultimately show ?thesis using assms(2) old by (auto simp: pubInv_def w1 less_Suc_eq simp del: upt_Suc)
qed

lemma pub_admit: "pubInv w \<Longrightarrow> pubInv (snd (admit cfg now gen q name hasSlot w))"
  by (auto simp: admit_def Let_def pub_createRun split: sum.split prod.split bool.split)

lemma pub_restoreAll: "pubInv w \<Longrightarrow> restoreAll ss w = Inr w' \<Longrightarrow> pubInv w'"
  by (induction ss arbitrary: w) (auto split: sum.splits dest: pub_createRun)

lemma pub_restore: "restoreAgents cfg now ss w = Inr w' \<Longrightarrow> pubInv w \<Longrightarrow> pubInv w'"
  by (auto simp: restoreAgents_def pub_restoreAll split: if_splits sum.splits)

lemma pub_admitMany: "pubInv w \<Longrightarrow> pubInv (snd (admitMany cfg now gens n qs w))"
proof (induction cfg now gens n qs w rule: admitMany.induct)
  case (2 cfg now gens n q name qs w)
  have "pubInv (snd (admit cfg now (gens n) q name (hasCapacity (slots w)) w))" using "2.prems" by (rule pub_admit)
  then show ?case using "2.IH" by (auto split: prod.split sum.split)
qed simp

lemma pub_dispose:
  assumes "pubInv w" "r < length (runs w)"
  shows "pubInv (disposeRun cfg now v r w)"
  using assms by (simp add: disposeRun_def Let_def pub_interrupt pub_upd)

lemma pub_clearRuns:
  assumes "slotInv {} w" "pubInv w"
  shows "pubInv (clearRuns cfg now v P w)"
proof -
  have ok: "poolOk w" using assms(1) by (simp add: slotInv_def)
  obtain out p where out: "removeFinished (snapOf w) P (slots w) = (out, p)" by fastforce
  have r: "slotInv {} (w\<lparr>slots := p\<rparr>)" "\<forall>r \<in> set out. r \<notin> set (poolValues p) \<and> r \<in> set (poolValues (slots w)) \<and> isTerminalStatus (statusOf w r)"
    using inv_removeFinished [of "slots w" w P _ out p] assms(1) out by (auto simp: removeFinished_def)
  have "pubInv (fold (disposeRun cfg now v) rs w')"
    if "slotInv {} w'" "pubInv w'"
      "\<forall>r \<in> set rs. r < length (runs w') \<and> r \<notin> set (poolValues (slots w')) \<and> isTerminalStatus (statusOf w' r)" for rs w'
    using that
  proof (induction rs arbitrary: w')
    case (Cons r rs)
    have "r < length (runs w')" "r \<notin> set (poolValues (slots w'))" "isTerminalStatus (statusOf w' r)" using Cons.prems(3) by simp_all
    note d = disposeRun_removed [OF Cons.prems(1) this, of cfg now v] and p = pub_dispose [OF Cons.prems(2) this(1)]
    show ?case using Cons.IH [OF d(1) p] Cons.prems(3) d(2-4) by simp
  qed simp
  moreover have "\<forall>r \<in> set out. r < length (runs (w\<lparr>slots := p\<rparr>)) \<and> r \<notin> set (poolValues (slots (w\<lparr>slots := p\<rparr>))) \<and>
      isTerminalStatus (statusOf (w\<lparr>slots := p\<rparr>) r)"
    using r(2) poolOkD(3) [OF ok] by auto
  ultimately show ?thesis using out r(1) assms(2) by (simp add: clearRuns_def)
qed

lemma pub_interruptTarget:
  assumes "slotInv {} w" "pubInv w"
  shows "pubInv (snd (interruptTarget cfg now v target w))"
proof -
  have "r < length (runs w)" if "resolveTarget (slots w) target = Some r" for r
    using resolveTarget_pool [OF that] assms(1) poolOkD(3) by (auto simp: slotInv_def)
  then show ?thesis using assms(2) by (auto simp: interruptTarget_def interruptRef_def pub_interrupt split: option.split)
qed

lemma pub_interruptEach: "slotInv {} w \<Longrightarrow> pubInv w \<Longrightarrow> pubInv (interruptEach cfg now v ids w)"
proof (induction cfg now v ids w rule: interruptEach.induct)
  case (2 cfg now v i ids w)
  have "pubInv (snd (interruptTarget cfg now v i w))" "slotInv {} (snd (interruptTarget cfg now v i w))"
    using "2.prems" by (auto intro: pub_interruptTarget inv_interruptTarget)
  then show ?case using "2.IH" by (auto split: prod.split sum.split)
qed simp

lemma pub_disposeAll:
  assumes "slotInv {} w" "pubInv w"
  shows "pubInv (disposeAll cfg now v w)"
proof -
  have ok: "poolOk w" using assms(1) by (simp add: slotInv_def)
  have each: "slotInv {} w' \<Longrightarrow> halted w' \<Longrightarrow> pubInv w' \<Longrightarrow> \<forall>r \<in> set rs. r < length (runs w') \<Longrightarrow>
      pubInv (fold (disposeRun cfg now v) rs w')" for rs w'
  proof (induction rs arbitrary: w')
    case (Cons r rs)
    then show ?case using halted_dispose [OF Cons.prems(1,2), of r cfg now v] pub_dispose [OF Cons.prems(3), of r cfg now v] by simp
  qed simp
  let ?w = "w\<lparr>halted := True, slots := clearScheduling (slots w)\<rparr>"
  have "slotInv {} ?w" using ok by (auto simp: slotInv_def poolOk_def clearScheduling_def poolValues_def snapOf_def runOf_def)
  moreover have "\<forall>r \<in> set (poolValues (slots ?w)). r < length (runs ?w)"
    using poolOkD(3) [OF ok] by (simp add: clearScheduling_def poolValues_def)
  ultimately show ?thesis using assms(2) each [of ?w "poolValues (slots ?w)"] by (simp add: disposeAll_def Let_def)
qed

theorem step_pub: "step cfg w w' \<Longrightarrow> slotInv {} w \<Longrightarrow> pubInv w \<Longrightarrow> pubInv w'"
proof (induction rule: step.induct)
  case (step_restore now ss w w')
  then show ?case using pub_restore by blast
next
  case (step_spawn w gen now q)
  then show ?case by (auto simp: spawnAgent_def pub_admit split: sum.split)
next
  case (step_spawnMany w gens now v qs)
  then show ?case by (auto simp: spawnMany_def Let_def pub_admitMany pub_clearRuns split: sum.split)
next
  case (step_followUp w target msg)
  then show ?case by (auto simp: followUp_def split: option.split)
next
  case (step_interrupt w now v target)
  then show ?case by (rule pub_interruptTarget)
next
  case (step_interruptAll w now v)
  then show ?case by (simp add: interruptAll_def pub_interruptEach)
next
  case (step_clear w now v)
  then show ?case by (simp add: clearFinished_def pub_clearRuns)
next
  case (step_dispose w now v)
  then show ?case by (rule pub_disposeAll)
next
  case (step_resume c w x now v)
  then have "refOf c < length (runs w)" by (auto simp: slotInv_def poolOk_def)
  then show ?case using step_resume by (intro pub_resumeCont) simp_all
next
  case (step_started r w)
  then show ?case by (simp add: childStarted_def pub_updSnap)
next
  case (step_ended r w now v)
  then show ?case by (simp add: childEnded_def pub_end)
qed

theorem reachable_pub: "reachableWorld cfg n w \<Longrightarrow> pubInv w"
proof -
  have init: "slotInv {} (initialWorld \<lparr>maxConcurrent = n, entries = [], byTaskName = [], active = [], waitingIds = []\<rparr>)"
    "pubInv (initialWorld \<lparr>maxConcurrent = n, entries = [], byTaskName = [], active = [], waitingIds = []\<rparr>)"
    by (simp_all add: initialWorld_def slotInv_def poolOk_def poolValues_def pubInv_def)
  have "(step cfg)\<^sup>*\<^sup>* w0 w \<Longrightarrow> slotInv {} w0 \<Longrightarrow> pubInv w0 \<Longrightarrow> slotInv {} w \<and> pubInv w" for w0
    by (induction rule: rtranclp_induct) (auto intro: step_inv step_pub)
  then show "reachableWorld cfg n w \<Longrightarrow> pubInv w" using init by (auto simp: reachableWorld_def)
qed

section \<open>The number of slots\<close>

text \<open>No step changes how many slots there are.\<close>

abbreviation limitOf :: "world \<Rightarrow> nat" where
  "limitOf w \<equiv> maxConcurrent (slots w)"

lemma limit_acquire: "acquire i p = (b, p') \<Longrightarrow> maxConcurrent p' = maxConcurrent p"
  by (rule acquire_slots(2))

lemma limit_drain [simp]: "limitOf (drainQueue cfg w) = limitOf w"
proof (induction cfg w rule: drainQueue.induct)
  case (1 cfg w)
  show ?case
  proof (cases "halted w \<or> \<not> hasCapacity (slots w)")
    case True
    then show ?thesis by (auto simp: drainQueue.simps [of cfg w])
  next
    case False
    show ?thesis
    proof (cases "takeNext (snapOf w) (slots w)")
      case (Pair found p)
      have "maxConcurrent p = limitOf w"
        using Pair takeNext_none [of "snapOf w" "slots w" p] takeNext_found [of "snapOf w" "slots w" _ p]
        by (cases found) metis+
      then show ?thesis using False 1 Pair by (cases found) (simp_all add: drainQueue.simps [of cfg w])
    qed
  qed
qed

lemma limit_ops [simp]:
  "limitOf (taken c w) = limitOf w" "limitOf (markSettled cfg r w) = limitOf w" "limitOf (settleAborted cfg r e w) = limitOf w"
  "limitOf (settleInterruptedExecution cfg r e h w) = limitOf w" "limitOf (interruptRun cfg now v r w) = limitOf w"
  "limitOf (failRun err now v r w) = limitOf w" "limitOf (runPrompt r e msg w) = limitOf w" "limitOf (clearEnding r e w) = limitOf w"
  "limitOf (beginExecution msg r w) = limitOf w"
  by (simp_all add: markSettled_def Let_def releaseSlot_def settleAborted_def settleInterruptedExecution_def interruptRun_def
      failRun_def runPrompt_def clearEnding_def beginExecution_def split: option.split)

lemma limit_end [simp]:
  "limitOf (finishEnd cfg now r e c w) = limitOf w" "limitOf (onChildAgentEnd cfg now v r e w) = limitOf w"
  by (simp_all add: finishEnd_def onChildAgentEnd_def Let_def)

lemma limit_attach: "attachHandle h r w = Inr w1 \<Longrightarrow> limitOf w1 = limitOf w"
  by (auto simp: attachHandle_def rekey_def split: sum.splits if_splits)

lemma limit_resumeCont: "limitOf (resumeCont cfg now v c x w) = limitOf w"
proof (cases c)
  case (CreateWait r e q)
  then show ?thesis by (auto simp: created_def limit_attach split: reply.split sum.split)
next
  case (BeforeStartWait r e m)
  then show ?thesis by (simp add: lifecycleStarted_def Let_def split: prod.split)
next
  case (PromptWait r e m)
  then show ?thesis by (cases "x = PromptReply True") (auto simp: promptDone_def split: reply.split bool.split)
next
  case (FollowUpSettle r k m)
  then show ?thesis by (auto simp: followUpSettled_def Let_def limit_acquire split: prod.split bool.split)
next
  case (FollowActive r m)
  then show ?thesis by (simp add: followedActive_def)
next
  case (ResumeSettle r k m)
  then show ?thesis by (simp add: resumeSettled_def Let_def)
next
  case (ReopenWait r e m)
  then show ?thesis by (auto simp: reopened_def limit_attach split: reply.split sum.split)
qed simp_all

lemma limit_createRun: "createRun s q w = Inr w1 \<Longrightarrow> limitOf w1 = limitOf w"
  by (auto simp: createRun_def addRun_def split: sum.splits if_splits)

lemma limit_admit [simp]: "limitOf (snd (admit cfg now gen q name b w)) = limitOf w"
  by (auto simp: admit_def Let_def limit_createRun limit_acquire enqueueRun_def split: sum.split prod.split bool.split)

lemma limit_admitMany [simp]: "limitOf (snd (admitMany cfg now gens n qs w)) = limitOf w"
proof (induction cfg now gens n qs w rule: admitMany.induct)
  case (2 cfg now gens n q name qs w)
  show ?case
  proof (cases "admit cfg now (gens n) q name (hasCapacity (slots w)) w")
    case (Pair res w1)
    then have "limitOf w1 = limitOf w" by (metis limit_admit snd_conv)
    then show ?thesis using Pair "2.IH" by (auto split: prod.split sum.split)
  qed
qed simp

lemma limit_restoreAll: "restoreAll ss w = Inr w' \<Longrightarrow> limitOf w' = limitOf w"
  by (induction ss arbitrary: w) (auto split: sum.splits dest: limit_createRun)

lemma limit_dispose [simp]: "limitOf (fold (disposeRun cfg now v) rs w) = limitOf w"
  by (induction rs arbitrary: w) (simp_all add: disposeRun_def Let_def)

lemma limit_removeFinished: "removeFinishedFrom sn P rs p = (out, p') \<Longrightarrow> maxConcurrent p' = maxConcurrent p"
proof (induction rs arbitrary: p out)
  case (Cons r rs)
  have "removeRun r (sn r) p = (b, p1) \<Longrightarrow> maxConcurrent p1 = maxConcurrent p" for b p1
    by (auto simp: removeRun_def Let_def releaseSlot_def removeQueued_def split: if_splits)
  then show ?case using Cons by (auto split: if_splits prod.splits)
qed simp

lemma limit_clearRuns [simp]: "limitOf (clearRuns cfg now v P w) = limitOf w"
  by (auto simp: clearRuns_def removeFinished_def limit_removeFinished split: prod.split)

lemma limit_interruptTarget [simp]: "limitOf (snd (interruptTarget cfg now v t w)) = limitOf w"
  by (simp add: interruptTarget_def interruptRef_def removeQueued_def split: option.split)

lemma limit_interruptEach [simp]: "limitOf (interruptEach cfg now v ids w) = limitOf w"
proof (induction cfg now v ids w rule: interruptEach.induct)
  case (2 cfg now v i ids w)
  show ?case
  proof (cases "interruptTarget cfg now v i w")
    case (Pair res w1)
    then have "limitOf w1 = limitOf w" by (metis limit_interruptTarget snd_conv)
    then show ?thesis using Pair "2.IH" by (auto split: prod.split sum.split)
  qed
qed simp

lemma step_limit: "step cfg w w' \<Longrightarrow> limitOf w' = limitOf w"
proof (induction rule: step.induct)
  case (step_restore now ss w w')
  then show ?case by (auto simp: restoreAgents_def limit_restoreAll split: if_splits sum.splits)
next
  case (step_spawn w gen now q)
  then show ?case by (auto simp: spawnAgent_def split: sum.split)
next
  case (step_spawnMany w gens now v qs)
  then show ?case by (auto simp: spawnMany_def Let_def split: sum.split)
next
  case (step_followUp w target msg)
  then show ?case by (auto simp: followUp_def split: option.split)
next
  case (step_resume c w x now v)
  then show ?case by (simp add: limit_resumeCont)
qed (simp_all add: interruptAll_def clearFinished_def disposeAll_def Let_def clearScheduling_def childStarted_def childEnded_def)

lemma reachable_limit: "reachableWorld cfg n w \<Longrightarrow> limitOf w = n"
proof -
  have "(step cfg)\<^sup>*\<^sup>* w0 w \<Longrightarrow> limitOf w = limitOf w0" for w0
    by (induction rule: rtranclp_induct) (auto dest: step_limit)
  then show "reachableWorld cfg n w \<Longrightarrow> limitOf w = n" by (auto simp: reachableWorld_def initialWorld_def)
qed

end
