(* ===== verification/SubagentEndings.thy ===== *)
theory SubagentEndings
  imports SubagentPublication
begin

text \<open>
  What one step publishes: for every run it ends the snapshot the run ends with, once, in a new
  generation, and nothing else. \<open>endsOnce\<close> says this of a piece of a step and adds that an ended
  run keeps its snapshot, so that it composes; \<open>noEnd\<close> is for the pieces that end nothing but may
  touch an ended run.
\<close>

section \<open>What a step records\<close>

definition publishedOf :: "nat \<Rightarrow> world \<Rightarrow> snapshot list" where
  "publishedOf r w = map snd (filter (\<lambda>p. fst p = r) (published w))"

definition endedIn :: "world \<Rightarrow> world \<Rightarrow> nat \<Rightarrow> bool" where
  "endedIn w w' r = (\<not> isTerminalStatus (statusOf w r) \<and> isTerminalStatus (statusOf w' r))"

definition recorded :: "world \<Rightarrow> world \<Rightarrow> nat \<Rightarrow> bool" where
  "recorded w w' r =
     (publishedOf r w' = publishedOf r w @ (if endedIn w w' r then [snapOf w' r] else []) \<and>
      generation (snapOf w' r) = generation (snapOf w r) + (if endedIn w w' r then 1 else 0))"

definition endsOnce :: "world \<Rightarrow> world \<Rightarrow> bool" where
  "endsOnce w w' =
     (length (runs w) \<le> length (runs w') \<and>
      (\<forall>r < length (runs w). recorded w w' r \<and> (isTerminalStatus (statusOf w r) \<longrightarrow> snapOf w' r = snapOf w r)))"

definition noEnd :: "world \<Rightarrow> world \<Rightarrow> bool" where
  "noEnd w w' =
     (length (runs w) \<le> length (runs w') \<and>
      (\<forall>r < length (runs w). publishedOf r w' = publishedOf r w \<and>
         generation (snapOf w' r) = generation (snapOf w r) \<and>
         (isTerminalStatus (statusOf w' r) \<longrightarrow> isTerminalStatus (statusOf w r))))"

lemma endsOnce_refl [simp]: "endsOnce w w"
  by (simp add: endsOnce_def recorded_def endedIn_def)

lemma noEnd_refl [simp]: "noEnd w w"
  by (simp add: noEnd_def)

lemma endsOnce_trans:
  assumes "endsOnce w w1" "endsOnce w1 w2"
  shows "endsOnce w w2"
proof -
  have "recorded w w2 r \<and> (isTerminalStatus (statusOf w r) \<longrightarrow> snapOf w2 r = snapOf w r)" if r: "r < length (runs w)" for r
  proof -
    have "r < length (runs w1)" using assms(1) r by (simp add: endsOnce_def)
    with assms r have "recorded w w1 r" "isTerminalStatus (statusOf w r) \<longrightarrow> snapOf w1 r = snapOf w r"
      "recorded w1 w2 r" "isTerminalStatus (statusOf w1 r) \<longrightarrow> snapOf w2 r = snapOf w1 r"
      by (auto simp: endsOnce_def)
    then show ?thesis
      by (cases "isTerminalStatus (statusOf w r)"; cases "isTerminalStatus (statusOf w1 r)")
        (auto simp: recorded_def endedIn_def)
  qed
  with assms show ?thesis by (auto simp: endsOnce_def)
qed

lemma noEnd_trans: "noEnd w w1 \<Longrightarrow> noEnd w1 w2 \<Longrightarrow> noEnd w w2"
  by (auto simp: noEnd_def)

lemma endsOnce_recorded: "endsOnce w w' \<Longrightarrow> r < length (runs w) \<Longrightarrow> recorded w w' r"
  by (simp add: endsOnce_def)

lemma noEnd_recorded: "noEnd w w' \<Longrightarrow> r < length (runs w) \<Longrightarrow> recorded w w' r"
  by (auto simp: noEnd_def recorded_def endedIn_def)

section \<open>Pieces that touch no snapshot\<close>

definition calm :: "world \<Rightarrow> world \<Rightarrow> bool" where
  "calm w w' =
     (length (runs w) \<le> length (runs w') \<and> published w' = published w \<and>
      (\<forall>r < length (runs w). snapOf w' r = snapOf w r))"

lemma calm_endsOnce: "calm w w' \<Longrightarrow> endsOnce w w'"
  by (simp add: calm_def endsOnce_def recorded_def endedIn_def publishedOf_def)

lemma calm_noEnd: "calm w w' \<Longrightarrow> noEnd w w'"
  by (simp add: calm_def noEnd_def publishedOf_def)

lemma calm_basic [simp]:
  "calm w w" "calm w (suspend c w)" "calm w (w\<lparr>slots := p\<rparr>)" "calm w (w\<lparr>conts := cs\<rparr>)" "calm w (w\<lparr>halted := b\<rparr>)"
  "calm w (w\<lparr>halted := b, slots := p\<rparr>)" "calm w (taken c w)"
  by (simp_all add: calm_def taken_def) (simp_all add: snapOf_def runOf_def)?

lemma calm_trans: "calm w w1 \<Longrightarrow> calm w1 w2 \<Longrightarrow> calm w w2"
  by (simp add: calm_def)

lemma snapOf_updRun: "snapOf (updRun r f w) s = (if s = r \<and> r < length (runs w) then snap (f (runOf w r)) else snapOf w s)"
  by (cases "r < length (runs w)") (auto simp: snapOf_upd, simp_all add: updRun_def snapOf_def runOf_def list_update_beyond)

lemma calm_upd: "(\<And>x. snap (f x) = snap x) \<Longrightarrow> calm w (updRun r f w)"
  by (simp add: calm_def snapOf_updRun) (simp add: snapOf_def)

lemma calm_release [simp]: "calm w (releaseHandle r w)"
  unfolding releaseHandle_def by (rule calm_upd) simp

lemma calm_start [simp]: "calm w (startSubagent cfg ty r w)"
proof -
  have "calm w (suspend c (updRun r (\<lambda>x. x\<lparr>queuedRequest := None\<rparr>) w))" for c
    by (rule calm_trans [OF calm_upd calm_basic(2)]) simp
  then show ?thesis by (simp add: startSubagent_def split: option.split)
qed

lemma calm_clearEnding [simp]: "calm w (clearEnding r e w)"
  unfolding clearEnding_def by (rule calm_upd) simp

lemma calm_create: "createRun s q w = Inr w1 \<Longrightarrow> calm w w1"
  by (auto simp: createRun_def calm_def snapOf_def runOf_def nth_append split: sum.splits)

section \<open>Pieces that change a run\<close>

lemma live_upd:
  assumes "r < length (runs w) \<Longrightarrow> \<not> isTerminalStatus (statusOf w r) \<and>
    \<not> isTerminalStatus (agentStatus (snap (f (runOf w r)))) \<and> generation (snap (f (runOf w r))) = generation (snapOf w r)"
  shows "endsOnce w (updRun r f w)"
  using assms by (auto simp: endsOnce_def recorded_def endedIn_def publishedOf_def snapOf_updRun)

lemma free_upd:
  assumes "r < length (runs w) \<Longrightarrow> generation (snap (f (runOf w r))) = generation (snapOf w r) \<and>
    (isTerminalStatus (agentStatus (snap (f (runOf w r)))) \<longrightarrow> isTerminalStatus (statusOf w r))"
  shows "noEnd w (updRun r f w)"
  using assms by (auto simp: noEnd_def publishedOf_def snapOf_updRun)

lemma drain_endsOnce: "endsOnce w (drainQueue cfg w)"
proof (induction cfg w rule: drainQueue.induct)
  case (1 cfg w)
  show ?case
  proof (cases "halted w \<or> \<not> hasCapacity (slots w)")
    case True
    then show ?thesis by (auto simp: drainQueue.simps [of cfg w])
  next
    case False
    show ?thesis
    proof (cases "takeNext (snapOf w) (slots w)")
      case (Pair found p)
      show ?thesis
      proof (cases found)
        case None
        then show ?thesis using False Pair by (simp add: drainQueue.simps [of cfg w] calm_endsOnce)
      next
        case (Some r)
        let ?p = "w\<lparr>slots := p\<rparr>" and ?up = "updRun r (\<lambda>x. x\<lparr>epoch := epoch x + 1\<rparr>)"
        have queued: "statusOf w r = StQueued" using Pair Some by (auto elim: takeNext_found)
        have "calm w (?up ?p)" by (rule calm_trans [OF calm_basic(3) calm_upd]) simp
        moreover have "endsOnce (?up ?p) (activateQueued r ?p)"
          unfolding activateQueued_def updSnap_def by (rule live_upd) (simp add: snapOf_updRun queued, simp add: runOf_upd queued flip: snapOf_def)
        ultimately have "endsOnce w (activateQueued r ?p)" using calm_endsOnce endsOnce_trans by blast
        then have "endsOnce w (startSubagent cfg ty r (activateQueued r ?p))" for ty
          using calm_endsOnce [OF calm_start] endsOnce_trans by blast
        then show ?thesis
          using "1.IH" [OF _ _ Pair [symmetric] Some] False Pair Some
          by (auto simp: drainQueue.simps [of cfg w] intro: endsOnce_trans)
      qed
    qed
  qed
qed

lemma settled_endsOnce: "endsOnce w (markSettled cfg r w)"
proof -
  let ?w = "updRun r (\<lambda>x. x\<lparr>isSettled := True\<rparr>) w"
  have "calm w (?w\<lparr>slots := p\<rparr>)" for p by (rule calm_trans [OF calm_upd calm_basic(3)]) simp
  then have "endsOnce w (drainQueue cfg (?w\<lparr>slots := p\<rparr>))" for p
    using calm_endsOnce drain_endsOnce endsOnce_trans by blast
  then show ?thesis by (simp add: markSettled_def Let_def)
qed

lemma aborted_endsOnce: "endsOnce w (settleAborted cfg r e w)"
  by (simp add: settleAborted_def settled_endsOnce calm_endsOnce)

section \<open>Ending a run\<close>

lemma terminal_endsOnce:
  assumes "r < length (runs w)" "\<not> isTerminalStatus (statusOf w r)" "isTerminalStatus st"
  shows "endsOnce w (handleTerminal r (commitTerminal st err now r w))"
proof -
  let ?c = "commitTerminal st err now r w" and ?w = "handleTerminal r (commitTerminal st err now r w)"
  have snap: "snapOf ?c s = (if s = r then (snapOf w r)\<lparr>agentStatus := st, endedAt := Some now, errorMessage := err,
       generation := generation (snapOf w r) + 1\<rparr> else snapOf w s)" for s
    using assms(1) by (simp add: commitTerminal_def updSnap_def snapOf_upd) (simp add: snapOf_def)
  have same: "snapOf ?w s = snapOf ?c s" for s
    using sameBut_snap [OF sameBut_trim, of ?c s] by (simp add: handleTerminal_def)
  have pub: "published ?w = published w @ [(r, snapOf ?c r)]"
    by (simp add: handleTerminal_def commitTerminal_def)
  have "length (runs ?w) = length (runs w)"
    using sameBut_trim [of ?c] by (simp add: handleTerminal_def sameBut_def)
  then show ?thesis
    using assms(2,3) by (auto simp: endsOnce_def recorded_def endedIn_def publishedOf_def pub same snap)
qed

lemma statusOf_updRun:
  "(\<And>x. agentStatus (snap (f x)) = agentStatus (snap x)) \<Longrightarrow> statusOf (updRun r f w) s = statusOf w s"
  by (simp add: snapOf_updRun) (simp add: snapOf_def)

lemma text_usage_status:
  "statusOf (keepFinalText v r w) s = statusOf w s" "statusOf (updateUsage v r w) s = statusOf w s"
  by (simp_all add: keepFinalText_def updateUsage_def updSnap_def statusOf_updRun split: option.split)

lemma text_usage_endsOnce:
  assumes "\<not> isTerminalStatus (statusOf w r)"
  shows "endsOnce w (keepFinalText v r w)" "endsOnce w (updateUsage v r w)"
  using assms by (auto simp: keepFinalText_def updateUsage_def updSnap_def intro!: live_upd simp flip: snapOf_def split: option.split)

lemma stop_endsOnce:
  assumes r: "r < length (runs w)" "\<not> isTerminalStatus (statusOf w r)" and st: "isTerminalStatus st"
  shows "endsOnce w (stopExecution st err now v r w)"
proof -
  let ?w1 = "updRun r (\<lambda>x. x\<lparr>epoch := epoch x + 1, queuedRequest := None\<rparr>) w"
  let ?w2 = "keepFinalText v r ?w1" let ?w3 = "updateUsage v r ?w2"
  have "statusOf ?w1 r = statusOf w r" by (simp add: statusOf_updRun)
  then have live: "\<not> isTerminalStatus (statusOf ?w1 r)" "\<not> isTerminalStatus (statusOf ?w2 r)" "\<not> isTerminalStatus (statusOf ?w3 r)"
    using r(2) by (simp_all add: text_usage_status)
  have "endsOnce w ?w1" by (intro calm_endsOnce calm_upd) simp
  moreover have "endsOnce ?w1 ?w2" "endsOnce ?w2 ?w3" using live text_usage_endsOnce by blast+
  moreover have "endsOnce ?w3 (handleTerminal r (commitTerminal st err now r ?w3))"
    using r live(3) st by (intro terminal_endsOnce) simp_all
  ultimately show ?thesis unfolding stopExecution_def by (meson endsOnce_trans)
qed

lemma interrupt_endsOnce:
  assumes "r < length (runs w)"
  shows "endsOnce w (interruptRun cfg now v r w)"
proof -
  have "endsOnce w' (settleInterruptedExecution cfg r e h w')" for e h w'
    by (simp add: settleInterruptedExecution_def aborted_endsOnce calm_endsOnce split: option.split)
  then show ?thesis
    using endsOnce_trans [OF stop_endsOnce [OF assms, of StInterrupted None now v]] by (simp add: interruptRun_def)
qed

lemma fail_endsOnce:
  assumes "r < length (runs w)"
  shows "endsOnce w (failRun err now v r w)"
proof -
  have "endsOnce w' (suspend c (releaseHandle r w'))" for c w'
    by (intro calm_endsOnce calm_trans [OF calm_release calm_basic(2)])
  then show ?thesis
    using endsOnce_trans [OF stop_endsOnce [OF assms, of StFailed "Some err" now v]] by (simp add: failRun_def)
qed

lemma prompt_endsOnce:
  assumes "\<not> isTerminalStatus (statusOf w r)"
  shows "endsOnce w (runPrompt r e msg w)"
proof -
  have "endsOnce w (updRun r (\<lambda>x. x\<lparr>snap := (snap x)\<lparr>agentStatus := StRunning\<rparr>, prompted := True\<rparr>) w)"
    using assms by (intro live_upd) (simp flip: snapOf_def)
  then show ?thesis using endsOnce_trans [OF _ calm_endsOnce [OF calm_basic(2)]] by (simp add: runPrompt_def)
qed

lemma finishEnd_endsOnce:
  assumes r: "r < length (runs w)"
  shows "endsOnce w (finishEnd cfg now r e c w)"
proof -
  let ?w = "updRun r (\<lambda>x. x\<lparr>stopCount := stopCount x + 1, endingEpoch := None\<rparr>) w"
  have clear: "endsOnce w w' \<Longrightarrow> endsOnce w (clearEnding r e w')" for w'
    using endsOnce_trans calm_endsOnce [OF calm_clearEnding] by blast
  have "endsOnce w (runPrompt r e m ?w)" if "isActiveStatus (statusOf w r)" for m
  proof -
    have "\<not> isTerminalStatus (statusOf ?w r)"
      using that terminal_not_active by (simp add: snapOf_updRun) (auto simp: snapOf_def)
    moreover have "endsOnce w ?w" by (intro calm_endsOnce calm_upd) simp
    ultimately show ?thesis using prompt_endsOnce endsOnce_trans by blast
  qed
  moreover have "endsOnce w (markSettled cfg r (handleTerminal r (commitTerminal StCompleted None now r w)))"
    if "isActiveStatus (statusOf w r)"
    using endsOnce_trans [OF terminal_endsOnce [OF r, of StCompleted None now] settled_endsOnce] that terminal_not_active
    by simp
  ultimately show ?thesis using clear by (auto simp: finishEnd_def)
qed

lemma end_endsOnce:
  assumes r: "r < length (runs w)"
  shows "endsOnce w (onChildAgentEnd cfg now v r e w)"
proof (cases "\<not> isCurrent w r e \<or> \<not> isActiveStatus (statusOf w r) \<or> endingEpoch (runOf w r) = Some e")
  case True
  then show ?thesis by (auto simp: onChildAgentEnd_def)
next
  case False
  let ?w1 = "updRun r (\<lambda>x. x\<lparr>endingEpoch := Some e, snap := (snap x)\<lparr>finalText :=
             (case childHandle x of Some h \<Rightarrow> lastText (v r) | None \<Rightarrow> None)\<rparr>\<rparr>) w"
  let ?w2 = "updateUsage v r ?w1"
  have live: "\<not> isTerminalStatus (statusOf w r)" using False terminal_not_active by blast
  then have live1: "\<not> isTerminalStatus (statusOf ?w1 r)" using r by (simp add: snapOf_updRun flip: snapOf_def)
  have "endsOnce w ?w1" using live by (intro live_upd) (simp flip: snapOf_def)
  moreover have "endsOnce ?w1 ?w2"
    using live1 by (rule text_usage_endsOnce)
  ultimately have two: "endsOnce w ?w2" by (rule endsOnce_trans)
  have "endsOnce ?w2 (suspend (StopWait r e) ?w2)" "endsOnce ?w2 (finishEnd cfg now r e None ?w2)"
    using r by (simp_all add: calm_endsOnce finishEnd_endsOnce)
  then show ?thesis using two endsOnce_trans False by (auto simp: onChildAgentEnd_def Let_def)
qed

section \<open>Resumed continuations\<close>

lemma attach_noEnd: "attachHandle h r w = Inr w1 \<Longrightarrow> noEnd w w1"
  by (auto simp: attachHandle_def split: sum.splits simp flip: snapOf_def
      intro!: noEnd_trans [OF calm_noEnd [OF calm_basic(3)] free_upd])

lemma prompt_noEnd: "noEnd w (runPrompt r e msg w)"
proof -
  have "noEnd w (updRun r (\<lambda>x. x\<lparr>snap := (snap x)\<lparr>agentStatus := StRunning\<rparr>, prompted := True\<rparr>) w)"
    by (intro free_upd) (simp flip: snapOf_def)
  then show ?thesis using noEnd_trans [OF _ calm_noEnd [OF calm_basic(2)]] by (simp add: runPrompt_def)
qed

lemma resumeSettled_noEnd: "noEnd w (resumeSettled cfg r msg w)"
proof -
  have "noEnd w (beginExecution msg r w)"
    unfolding beginExecution_def by (intro free_upd) (simp flip: snapOf_def)
  then have "noEnd w (suspend c (beginExecution msg r w))" "noEnd w (runPrompt r e msg (beginExecution msg r w))" for c e
    using calm_noEnd [OF calm_basic(2)] prompt_noEnd noEnd_trans by blast+
  then show ?thesis by (simp add: resumeSettled_def Let_def)
qed

lemma lifecycle_noEnd: "noEnd w (lifecycleStarted cfg r e msg x w)"
proof -
  let ?w = "updRun r (\<lambda>x. x\<lparr>startCompleted := True\<rparr>) w"
  have "noEnd w ?w" by (intro calm_noEnd calm_upd) simp
  then have "noEnd w (runPrompt r e m ?w)" for m using prompt_noEnd noEnd_trans by blast
  then show ?thesis by (simp add: lifecycleStarted_def Let_def calm_noEnd split: prod.split)
qed

lemma created_noEnd: "noEnd w (created r e q x w)" "noEnd w (reopened r e msg x w)"
proof -
  have "noEnd w (suspend c w1)" "noEnd w (runPrompt r e msg w1)" if "attachHandle h r w = Inr w1" for c h w1
    using attach_noEnd [OF that] calm_noEnd [OF calm_basic(2)] prompt_noEnd noEnd_trans by blast+
  then show "noEnd w (created r e q x w)" "noEnd w (reopened r e msg x w)"
    by (auto simp: created_def reopened_def calm_noEnd split: reply.split sum.split)
qed

lemma followUpSettled_calm: "calm w (followUpSettled cfg r msg w)"
proof -
  have "calm w (suspend c (w\<lparr>slots := p\<rparr>))" for c p by (rule calm_trans [OF calm_basic(3,2)])
  then show ?thesis by (simp add: followUpSettled_def Let_def split: prod.split bool.split)
qed

lemma resumeCont_recorded:
  assumes "refOf c < length (runs w)" "r < length (runs w)"
  shows "recorded w (resumeCont cfg now v c x w) r"
proof -
  have "endsOnce w (resumeCont cfg now v c x w) \<or> noEnd w (resumeCont cfg now v c x w)"
  proof (cases c)
    case (PromptWait s e m)
    then have "endsOnce w (promptDone cfg now v s e x w)"
      using assms(1) by (auto simp: promptDone_def fail_endsOnce end_endsOnce split: reply.split bool.split)
    then show ?thesis using PromptWait by simp
  next
    case (FollowActive s m)
    have "endsOnce w (updSnap s (\<lambda>y. y\<lparr>agentTask := m\<rparr>) w)" if "isActiveStatus (statusOf w s)"
      using that terminal_not_active unfolding updSnap_def by (intro live_upd) (auto simp flip: snapOf_def)
    then show ?thesis using FollowActive by (simp add: followedActive_def)
  qed (use assms(1) in \<open>auto simp: created_noEnd lifecycle_noEnd resumeSettled_noEnd fail_endsOnce finishEnd_endsOnce
      aborted_endsOnce settled_endsOnce calm_endsOnce followUpSettled_calm\<close>)
  then show ?thesis using assms(2) endsOnce_recorded noEnd_recorded by blast
qed

section \<open>Calls\<close>

lemma admit_calm: "calm w (snd (admit cfg now gen q name hasSlot w))"
proof -
  have "calm w w2" if "createRun s (Some q) w = Inr w1" "calm w1 w2" for s w1 w2
    using calm_create [OF that(1)] that(2) calm_trans by blast
  moreover have "calm w1 (startSubagent cfg ty r (w1\<lparr>slots := p\<rparr>))" for ty r w1 p
    by (rule calm_trans [OF calm_basic(3) calm_start])
  ultimately show ?thesis
    by (auto simp: admit_def Let_def split: sum.split prod.split bool.split)
qed

lemma admitMany_calm: "calm w (snd (admitMany cfg now gens n qs w))"
proof (induction cfg now gens n qs w rule: admitMany.induct)
  case (2 cfg now gens n q name qs w)
  show ?case
  proof (cases "admit cfg now (gens n) q name (hasCapacity (slots w)) w")
    case (Pair res w1)
    then have "calm w w1" using admit_calm [of w cfg now "gens n" q name "hasCapacity (slots w)"] by simp
    then show ?thesis using Pair "2.IH" calm_trans by (force split: prod.split sum.split)
  qed
qed simp

lemma restoreAll_calm: "restoreAll ss w = Inr w' \<Longrightarrow> calm w w'"
proof (induction ss arbitrary: w)
  case (Cons s ss)
  then show ?case using calm_create calm_trans by (fastforce split: sum.splits)
qed simp

lemma dispose_endsOnce:
  assumes "r < length (runs w)"
  shows "endsOnce w (disposeRun cfg now v r w)"
proof -
  let ?w1 = "updRun r (\<lambda>x. x\<lparr>runDisposed := True\<rparr>) w"
  have "endsOnce w ?w1" by (intro calm_endsOnce calm_upd) simp
  moreover have "endsOnce ?w1 (interruptRun cfg now v r ?w1)" using assms by (simp add: interrupt_endsOnce)
  ultimately have "endsOnce w (suspend c (interruptRun cfg now v r ?w1))" for c
    using calm_endsOnce [OF calm_basic(2)] endsOnce_trans by blast
  then show ?thesis by (simp add: disposeRun_def Let_def)
qed

lemma disposeEach_endsOnce: "\<forall>r \<in> set rs. r < length (runs w) \<Longrightarrow> endsOnce w (fold (disposeRun cfg now v) rs w)"
proof (induction rs arbitrary: w)
  case (Cons r rs)
  have one: "endsOnce w (disposeRun cfg now v r w)" using Cons.prems by (simp add: dispose_endsOnce)
  then have "length (runs w) \<le> length (runs (disposeRun cfg now v r w))" by (simp add: endsOnce_def)
  with Cons.prems have "\<forall>s \<in> set rs. s < length (runs (disposeRun cfg now v r w))" by auto
  then have "endsOnce (disposeRun cfg now v r w) (fold (disposeRun cfg now v) rs (disposeRun cfg now v r w))" by (rule Cons.IH)
  with one show ?case by (simp add: endsOnce_trans)
qed simp

lemma clearRuns_endsOnce:
  assumes "slotInv {} w"
  shows "endsOnce w (clearRuns cfg now v P w)"
proof -
  obtain out p where out: "removeFinished (snapOf w) P (slots w) = (out, p)" by fastforce
  have ok: "poolOk w" using assms by (simp add: slotInv_def)
  have "\<forall>r \<in> set out. r \<in> set (poolValues (slots w))"
    using inv_removeFinished [of "slots w" w P _ out p] assms out by (auto simp: removeFinished_def)
  then have "\<forall>r \<in> set out. r < length (runs (w\<lparr>slots := p\<rparr>))" using poolOkD(3) [OF ok] by auto
  from endsOnce_trans [OF calm_endsOnce [OF calm_basic(3)] disposeEach_endsOnce [OF this]] show ?thesis
    using out by (simp add: clearRuns_def)
qed

lemma interruptTarget_endsOnce:
  assumes "slotInv {} w"
  shows "endsOnce w (snd (interruptTarget cfg now v target w))"
proof -
  have "endsOnce w (interruptRef cfg now v r w)" if "resolveTarget (slots w) target = Some r" for r
  proof -
    have "r < length (runs w)"
      using resolveTarget_pool [OF that] assms poolOkD(3) by (auto simp: slotInv_def)
    then have "endsOnce w (interruptRun cfg now v r (w\<lparr>slots := p\<rparr>))" for p
      by (intro endsOnce_trans [OF calm_endsOnce [OF calm_basic(3)] interrupt_endsOnce]) simp
    moreover have "endsOnce w (interruptRun cfg now v r w)" using \<open>r < length (runs w)\<close> by (rule interrupt_endsOnce)
    ultimately show ?thesis by (simp add: interruptRef_def)
  qed
  then show ?thesis by (simp add: interruptTarget_def split: option.split)
qed

lemma interruptEach_endsOnce: "slotInv {} w \<Longrightarrow> endsOnce w (interruptEach cfg now v ids w)"
proof (induction cfg now v ids w rule: interruptEach.induct)
  case (2 cfg now v i ids w)
  have "endsOnce w (snd (interruptTarget cfg now v i w))" "slotInv {} (snd (interruptTarget cfg now v i w))"
    using "2.prems" by (auto intro: interruptTarget_endsOnce inv_interruptTarget)
  then show ?case using "2.IH" by (auto intro: endsOnce_trans split: prod.split sum.split)
qed simp

theorem step_recorded:
  assumes "step cfg w w'" "slotInv {} w" "r < length (runs w)"
  shows "recorded w w' r"
proof -
  have ok: "poolOk w" using assms(2) by (simp add: slotInv_def)
  from assms(1) show ?thesis
  proof (cases rule: step.cases)
    case (step_restore now ss)
    then have "calm w w'" by (auto simp: restoreAgents_def restoreAll_calm split: if_splits sum.splits)
    then show ?thesis using assms(3) calm_noEnd noEnd_recorded by blast
  next
    case (step_spawn gen now q)
    then have "calm w w'" by (auto simp: spawnAgent_def admit_calm split: sum.split)
    then show ?thesis using assms(3) calm_noEnd noEnd_recorded by blast
  next
    case (step_spawnMany gens now v qs)
    have "endsOnce w (snd (admitMany cfg now gens 0 qs' (clearRuns cfg now v P w)))" for qs' P
      using clearRuns_endsOnce [OF assms(2)] calm_endsOnce [OF admitMany_calm] endsOnce_trans by blast
    then have "endsOnce w w'" using step_spawnMany by (auto simp: spawnMany_def Let_def split: sum.split)
    then show ?thesis using assms(3) endsOnce_recorded by blast
  next
    case (step_followUp target msg)
    then have "calm w w'" by (auto simp: followUp_def split: option.split)
    then show ?thesis using assms(3) calm_noEnd noEnd_recorded by blast
  next
    case (step_interrupt now v target)
    then show ?thesis using interruptTarget_endsOnce [OF assms(2)] assms(3) endsOnce_recorded by blast
  next
    case (step_interruptAll now v)
    then have "endsOnce w w'" using interruptEach_endsOnce [OF assms(2)] by (simp add: interruptAll_def)
    then show ?thesis using assms(3) endsOnce_recorded by blast
  next
    case (step_clear now v)
    then have "endsOnce w w'" using clearRuns_endsOnce [OF assms(2)] by (simp add: clearFinished_def)
    then show ?thesis using assms(3) endsOnce_recorded by blast
  next
    case (step_dispose now v)
    let ?w = "w\<lparr>halted := True, slots := clearScheduling (slots w)\<rparr>"
    have "\<forall>r \<in> set (poolValues (slots ?w)). r < length (runs ?w)"
      using poolOkD(3) [OF ok] by (simp add: clearScheduling_def poolValues_def)
    from disposeEach_endsOnce [OF this] have "endsOnce w (fold (disposeRun cfg now v) (poolValues (slots ?w)) ?w)"
      using endsOnce_trans [OF calm_endsOnce [OF calm_basic(6)]] by blast
    then have "endsOnce w w'" using step_dispose by (simp add: disposeAll_def Let_def)
    then show ?thesis using assms(3) endsOnce_recorded by blast
  next
    case (step_resume c x now v)
    have "refOf c < length (runs w)" using step_resume(2) ok by (simp add: poolOk_def)
    then have "recorded (w\<lparr>conts := remove1 c (conts w)\<rparr>) w' r"
      using resumeCont_recorded [of c "w\<lparr>conts := remove1 c (conts w)\<rparr>" r] assms(3) step_resume(1) by simp
    then show ?thesis by (simp add: recorded_def endedIn_def publishedOf_def)
  next
    case (step_started s)
    have "noEnd w (updSnap s (\<lambda>y. y\<lparr>agentStatus := StRunning\<rparr>) w)"
      unfolding updSnap_def by (intro free_upd) (simp flip: snapOf_def)
    then have "noEnd w w'" using step_started by (simp add: childStarted_def)
    then show ?thesis using assms(3) noEnd_recorded by blast
  next
    case (step_ended s now v)
    then have "endsOnce w w'" by (simp add: childEnded_def end_endsOnce)
    then show ?thesis using assms(3) endsOnce_recorded by blast
  qed
qed

end
