(* ===== verification/SubagentProperties.thy ===== *)
theory SubagentProperties
  imports SubagentEndings
begin

text \<open>
  The properties of the subagent scheduler. They rest on \<open>reachable_inv\<close> (the slots and the
  continuations of every run), \<open>reachable_pub\<close> (what is published) and \<open>reachable_limit\<close>.
\<close>

section \<open>A sample\<close>

definition sampleConfig :: config where
  "sampleConfig = \<lparr>typeRegistry = [(''coder'', JNull)], canReopen = False, formatInitial = (\<lambda>s m. m), parentId = ''p''\<rparr>"

definition sampleRequest :: "string \<Rightarrow> spawn_request" where
  "sampleRequest name = \<lparr>reqTaskName = name, reqOriginCall = None, reqMessage = ''go'', reqType = ''coder'', reqTitle = None,
     reqDelivery = None, reqBatch = None\<rparr>"

definition emptyPool :: "nat \<Rightarrow> pool" where
  "emptyPool n = \<lparr>maxConcurrent = n, entries = [], byTaskName = [], active = [], waitingIds = []\<rparr>"

definition silentViews :: views where
  "silentViews r = \<lparr>lastText = None, reportedUsage = None\<rparr>"

text \<open>Two workflows are dispatched to one slot: the first starts, the second waits.\<close>

definition sampleWorld :: world where
  "sampleWorld = snd (spawnMany sampleConfig 5 silentViews (\<lambda>n. digitsOf n) [sampleRequest ''a'', sampleRequest ''b'']
     (initialWorld (emptyPool 1)))"

lemma sampleWorld_step: "step sampleConfig (initialWorld (emptyPool 1)) sampleWorld"
  unfolding sampleWorld_def by (rule step_spawnMany) (simp add: fresh_def initialWorld_def)

lemma sampleWorld_reachable: "reachableWorld sampleConfig 1 sampleWorld"
  unfolding reachableWorld_def using sampleWorld_step by (auto simp: emptyPool_def)

text \<open>The first is interrupted before its child exists, which settles it and starts the second.\<close>

definition sampleNext :: world where
  "sampleNext = snd (interruptTarget sampleConfig 6 silentViews ''a'' sampleWorld)"

lemma sampleNext_reachable: "reachableWorld sampleConfig 1 sampleNext"
proof -
  have "step sampleConfig sampleWorld sampleNext" unfolding sampleNext_def by (rule step_interrupt)
  then show ?thesis using sampleWorld_reachable unfolding reachableWorld_def by (rule rtranclp.rtrancl_into_rtrancl [rotated])
qed

section \<open>Slots\<close>





text \<open>
  When a run settles its slot goes to the queue: unless the coordinator is disposed, either
  no slot is free afterwards or no queued subagent waits for one.
\<close>

lemma drain_queue_done:
  "\<not> halted w \<Longrightarrow> hasCapacity (slots (drainQueue cfg w)) \<longrightarrow> waitingIds (slots (drainQueue cfg w)) = []"
proof (induction cfg w rule: drainQueue.induct)
  case (1 cfg w)
  show ?case
  proof (cases "hasCapacity (slots w)")
    case False
    then show ?thesis using "1.prems" by (simp add: drainQueue.simps [of cfg w])
  next
    case True
    have none: "takeLoop sn es q = (None, q') \<Longrightarrow> q' = []" for sn es q q'
      by (induction sn es q rule: takeLoop.induct) (auto split: if_splits option.splits)
    have halted_start: "halted (startSubagent cfg ty r w') = halted w'" for ty r w' by (simp add: startSubagent_def split: option.split)
    show ?thesis
    proof (cases "takeNext (snapOf w) (slots w)")
      case (Pair found p)
      show ?thesis
      proof (cases found)
        case None
        then have "waitingIds p = []" using Pair True none by (auto simp: takeNext_def split: prod.splits option.splits)
        then show ?thesis using True Pair None "1.prems" by (simp add: drainQueue.simps [of cfg w])
      next
        case (Some r)
        then show ?thesis using "1.IH" True Pair "1.prems" by (simp add: drainQueue.simps [of cfg w] halted_start)
      qed
    qed
  qed
qed

theorem settled_slot_is_reused:
  assumes "\<not> halted w" "\<not> isSettled (runOf w r)"
  shows "let p = slots (markSettled cfg r w) in if hasCapacity p then waitingIds p = [] else maxConcurrent p \<le> length (active p)"
proof -
  have "halted (w\<lparr>slots := p\<rparr>) = halted w" for p by simp
  then show ?thesis
    using assms drain_queue_done
      [of "(updRun r (\<lambda>x. x\<lparr>isSettled := True\<rparr>) w)\<lparr>slots := releaseSlot (agentId (snapOf (updRun r (\<lambda>x. x\<lparr>isSettled := True\<rparr>) w) r))
        (slots w)\<rparr>" cfg]
    by (auto simp: markSettled_def Let_def hasCapacity_def split: if_splits)
qed

lemma settled_slot_is_reused_witness:
  "\<not> isSettled (runOf sampleWorld 0) \<and> waitingIds (slots sampleWorld) = [''pending-b-1''] \<and>
   (let p = slots (markSettled sampleConfig 0 sampleWorld)
    in active p = [''pending-b-1''] \<and> (if hasCapacity p then waitingIds p = [] else maxConcurrent p \<le> length (active p)))"
proof -
  have h: "\<not> halted sampleWorld" "\<not> isSettled (runOf sampleWorld 0)" by code_simp+
  moreover have "waitingIds (slots sampleWorld) = [''pending-b-1'']"
    "active (slots (markSettled sampleConfig 0 sampleWorld)) = [''pending-b-1'']" by code_simp+
  ultimately show ?thesis using settled_slot_is_reused [OF h, of sampleConfig] by (simp add: Let_def)
qed

section \<open>What is published\<close>

text \<open>
  C22. Whatever interrupts, failures and ends race for an execution, its end is published exactly
  once. A step that takes a subagent from a status that is not terminal to a terminal one appends
  the snapshot it ends with to what is published for it and raises its generation by one; every other
  step publishes nothing for it and leaves its generation. All that is published is terminal, and
  the published generations of a subagent are consecutive up to its present one.
\<close>

theorem terminal_published_once:
  assumes "reachableWorld cfg n w" "step cfg w w'" "r < length (runs w)"
  shows "publishedOf r w' = publishedOf r w @
      (if \<not> isTerminalStatus (statusOf w r) \<and> isTerminalStatus (statusOf w' r) then [snapOf w' r] else []) \<and>
    generation (snapOf w' r) = generation (snapOf w r) +
      (if \<not> isTerminalStatus (statusOf w r) \<and> isTerminalStatus (statusOf w' r) then 1 else 0) \<and>
    list_all (\<lambda>p. isTerminalStatus (agentStatus (snd p))) (published w) \<and>
    (\<exists>g \<le> generation (snapOf w r). generationsOf r w = [Suc g..<Suc (generation (snapOf w r))])"
  using reachable_pub [OF assms(1)] pubInv_generations [OF _ assms(3)]
    step_recorded [OF assms(2) reachable_inv [OF assms(1)] assms(3)]
  by (auto simp: recorded_def endedIn_def pubInv_def list_all_iff simp del: upt_Suc)

lemma terminal_published_once_witness:
  "publishedOf 0 sampleWorld = [] \<and> publishedOf 0 sampleNext = [snapOf sampleNext 0] \<and>
   generation (snapOf sampleNext 0) = 1 \<and> statusOf sampleNext 0 = StInterrupted"
proof -
  have s: "step sampleConfig sampleWorld sampleNext" unfolding sampleNext_def by (rule step_interrupt)
  have st: "statusOf sampleWorld 0 = StPending" "statusOf sampleNext 0 = StInterrupted" "0 < length (runs sampleWorld)"
    "publishedOf 0 sampleWorld = []" "generation (snapOf sampleWorld 0) = 0"
    by code_simp+
  from terminal_published_once [OF sampleWorld_reachable s st(3)] st show ?thesis by simp
qed

section \<open>Calls\<close>

text \<open>
  How a single spawn begins, on every branch: the coordinator is disposed, the request is
  invalid, no slot is free, or a new run was reserved and its start is awaited. With a fresh generated
  id neither the reservation nor the acquisition of the slot can fail.
\<close>

lemma validateRequest_name: "validateRequest cfg w [] q = Inr name \<Longrightarrow> \<not> hasTaskName (slots w) name"
  by (auto simp: validateRequest_def Let_def split: if_splits)

theorem spawn_outcome:
  assumes "reachableWorld cfg n w" "fresh w (''pending-'' @ trim (reqTaskName q) @ ''-'' @ gen)"
  shows "fst (spawnAgent cfg now gen q w) =
    (if halted w then Inl Disposed
     else case validateRequest cfg w [] q of
            Inl e \<Rightarrow> Inl e
          | Inr name \<Rightarrow> if hasCapacity (slots w) then Inr (length (runs w)) else Inl TooMany)"
proof -
  have inv: "slotInv {} w" using assms(1) by (rule reachable_inv)
  then have ok: "poolOk w" by (simp add: slotInv_def)
  have "fst (admit cfg now gen q name True w) = Inr (length (runs w))"
    if valid: "validateRequest cfg w [] q = Inr name" and cap: "hasCapacity (slots w)" for name
  proof -
    let ?s = "reservedSnapshot cfg now gen q name StPending"
    have name: "name = trim (reqTaskName q)" using valid by (auto simp: validateRequest_def Let_def split: if_splits)
    have id: "agentId ?s = ''pending-'' @ name @ ''-'' @ gen" "taskName ?s = name" by (simp_all add: reservedSnapshot_def)
    have fr: "fresh w (agentId ?s)" using assms(2) by (simp only: id(1) name [symmetric])
    then have un: "unused w (agentId ?s)" by (rule fresh_unused)
    have "agentId ?s \<notin> fst ` set (entries (slots w))"
      using poolOkD(1,2) [OF ok] fr by (force simp: fresh_def)
    then obtain w1 where w1: "createRun ?s (Some q) w = Inr w1"
      using validateRequest_name [OF valid] id(2) by (auto simp: createRun_def addRun_def map_of_eq_None_iff)
    obtain p where "acquire (agentId ?s) (slots w1) = (True, p)" using acquire_new [OF ok w1 un cap] by blast
    then show ?thesis using w1 inv_createRun(5) [OF inv w1 un] by (simp add: admit_def Let_def)
  qed
  then show ?thesis by (auto simp: spawnAgent_def split: sum.split)
qed

lemma spawn_outcome_witness:
  "fst (spawnAgent sampleConfig 9 ''x'' (sampleRequest ''a'') sampleNext) = Inl (TaskNameUsed ''a'') \<and>
   fst (spawnAgent sampleConfig 9 ''x'' (sampleRequest ''c'') sampleNext) = Inl TooMany"
proof -
  have "fresh sampleNext (''pending-'' @ trim (reqTaskName (sampleRequest ''c'')) @ ''-'' @ ''x'')" by code_simp
  from spawn_outcome [OF sampleNext_reachable this, of 9]
  have "fst (spawnAgent sampleConfig 9 ''x'' (sampleRequest ''c'') sampleNext) =
    (if halted sampleNext then Inl Disposed
     else case validateRequest sampleConfig sampleNext [] (sampleRequest ''c'') of Inl e \<Rightarrow> Inl e
       | Inr name \<Rightarrow> if hasCapacity (slots sampleNext) then Inr (length (runs sampleNext)) else Inl TooMany)" .
  also have "\<dots> = Inl TooMany" by code_simp
  finally show ?thesis by (intro conjI) code_simp
qed

text \<open>
  How a start that fails ends.
\<close>

lemma startAnswer_suspends:
  assumes "startAnswer w c x = Some (Inl err)"
  shows "resumeCont cfg now v c x w = suspend (StartFailed (refOf c)) w"
proof (cases c)
  case (CreateWait r e q)
  then show ?thesis using assms
    by (cases x) (simp_all add: created_def split: if_splits sum.splits)
next
  case (BeforeStartWait r e m)
  then show ?thesis using assms
    by (cases x) (simp_all add: lifecycleStarted_def Let_def split: if_splits)
qed (use assms in simp_all)

lemma settled_upd:
  assumes "\<And>x. isSettled (f x) = isSettled x"
  shows "isSettled (runOf (updRun r f w) s) = isSettled (runOf w s)"
proof (cases "r < length (runs w)")
  case True
  then show ?thesis by (simp add: runOf_upd assms)
next
  case False
  then show ?thesis by (simp add: updRun_def runOf_def list_update_beyond)
qed

lemma drain_settled: "isSettled (runOf (drainQueue cfg w) s) = isSettled (runOf w s)"
proof (induction cfg w rule: drainQueue.induct)
  case (1 cfg w)
  show ?case
  proof (cases "halted w \<or> \<not> hasCapacity (slots w)")
    case True
    then show ?thesis by (auto simp: drainQueue.simps [of cfg w])
  next
    case False
    have start: "isSettled (runOf (startSubagent cfg ty r w') s) = isSettled (runOf w' s)"
      "isSettled (runOf (activateQueued r w') s) = isSettled (runOf w' s)" for ty r w'
      by (simp_all add: startSubagent_def activateQueued_def updSnap_def settled_upd split: option.split)
    show ?thesis
    proof (cases "takeNext (snapOf w) (slots w)")
      case (Pair found p)
      then show ?thesis using False 1 start by (cases found) (simp_all add: drainQueue.simps [of cfg w])
    qed
  qed
qed

lemma markSettled_settles: "r < length (runs w) \<Longrightarrow> isSettled (runOf (markSettled cfg r w) r)"
  by (simp add: markSettled_def Let_def drain_settled runOf_upd)

lemma failRun_ends:
  assumes r: "r < length (runs w)"
  shows "isTerminalStatus (statusOf (failRun err now v r w) r)"
    "\<not> isTerminalStatus (statusOf w r) \<Longrightarrow> statusOf (failRun err now v r w) r = StFailed \<and>
       FailRelease r \<in> set (conts (failRun err now v r w)) \<and> length (runs (failRun err now v r w)) = length (runs w)"
proof -
  have "statusOf (releaseHandle r w') r = statusOf w' r" for w'
    by (simp add: snapOf_def releaseHandle_run)
  then show "\<not> isTerminalStatus (statusOf w r) \<Longrightarrow> statusOf (failRun err now v r w) r = StFailed \<and>
       FailRelease r \<in> set (conts (failRun err now v r w)) \<and> length (runs (failRun err now v r w)) = length (runs w)"
    using stop_view(4) [OF r, of StFailed] by (simp add: failRun_def snapOf_def)
  then show "isTerminalStatus (statusOf (failRun err now v r w) r)"
    by (cases "isTerminalStatus (statusOf w r)") (simp_all add: failRun_def)
qed

text \<open>
  C39. A subagent whose start fails ends. Whenever the start that a spawn awaits rejects (the factory
  rejects, the coordinator was disposed or the run changed meanwhile, the child has the identity of
  another one, the hook before the start rejects or blocks), the failure is pending. Once it is
  taken up, before the caller of the spawn gets the error, the subagent is terminal: it has ended
  before, with nothing published now, or it is failed, which is published once; releasing its child then
  settles it.
\<close>

theorem failed_start_ends_run:
  assumes "reachableWorld cfg n w" "c \<in> set (conts w)"
    and "startAnswer (taken c w) c x = Some (Inl err)"
    and "w1 = resumeCont cfg now v c x (taken c w)"
    and "w2 = resumeCont cfg now' v' (StartFailed (refOf c)) Done (taken (StartFailed (refOf c)) w1)"
    and "w3 = resumeCont cfg now' v' (FailRelease (refOf c)) Done (taken (FailRelease (refOf c)) w2)"
  shows "StartFailed (refOf c) \<in> set (conts w1) \<and> isTerminalStatus (statusOf w2 (refOf c)) \<and>
    publishedOf (refOf c) w2 =
      publishedOf (refOf c) w @ (if isTerminalStatus (statusOf w (refOf c)) then [] else [snapOf w2 (refOf c)]) \<and>
    (\<not> isTerminalStatus (statusOf w (refOf c)) \<longrightarrow>
       statusOf w2 (refOf c) = StFailed \<and> FailRelease (refOf c) \<in> set (conts w2) \<and> isSettled (runOf w3 (refOf c)))"
proof -
  let ?r = "refOf c" and ?w1 = "taken (StartFailed (refOf c)) w1"
  have r: "?r < length (runs w)" by (rule taken_step(2) [OF reachable_inv [OF assms(1)] assms(2)])
  have "w1 = suspend (StartFailed ?r) (taken c w)" unfolding assms(4) by (rule startAnswer_suspends [OF assms(3)])
  then have rejected: "StartFailed ?r \<in> set (conts w1)" "snapOf w1 = snapOf w" "published w1 = published w"
    "length (runs w1) = length (runs w)" by simp_all
  have r1: "?r < length (runs ?w1)" using r rejected(4) by simp
  have w2: "w2 = failRun ''start failed'' now' v' ?r ?w1" by (simp add: assms(5))
  have "recorded ?w1 w2 ?r" unfolding w2 by (rule endsOnce_recorded [OF fail_endsOnce [OF r1] r1])
  moreover have "publishedOf ?r ?w1 = publishedOf ?r w" "statusOf ?w1 ?r = statusOf w ?r"
    using rejected(2,3) by (simp_all add: publishedOf_def)
  ultimately have pub: "publishedOf ?r w2 = publishedOf ?r w @ (if isTerminalStatus (statusOf w ?r) then [] else [snapOf w2 ?r])"
    using failRun_ends(1) [OF r1] by (simp add: recorded_def endedIn_def w2)
  note failed = failRun_ends [OF r1, of "''start failed''" now' v', folded w2]
  have "isSettled (runOf w3 ?r)" if "\<not> isTerminalStatus (statusOf w ?r)"
  proof -
    have "?r < length (runs (taken (FailRelease ?r) w2))"
      using failed(2) that rejected(2) r1 by simp
    then show ?thesis unfolding assms(6) by (simp add: markSettled_settles)
  qed
  then show ?thesis using rejected(1,2) pub failed by simp
qed

text \<open>The factory rejects the first of the two workflows.\<close>

lemma failed_start_ends_run_witness:
  "let w1 = resumeCont sampleConfig 7 silentViews (CreateWait 0 1 (sampleRequest ''a'')) Rejected
         (taken (CreateWait 0 1 (sampleRequest ''a'')) sampleWorld);
       w2 = resumeCont sampleConfig 8 silentViews (StartFailed 0) Done (taken (StartFailed 0) w1)
   in statusOf w2 0 = StFailed \<and> publishedOf 0 w2 = [snapOf w2 0]"
proof -
  let ?c = "CreateWait 0 1 (sampleRequest ''a'')"
  have c: "?c \<in> set (conts sampleWorld)" "\<not> isTerminalStatus (statusOf sampleWorld 0)" "publishedOf 0 sampleWorld = []"
    by code_simp+
  have "startAnswer (taken ?c sampleWorld) ?c Rejected = Some (Inl CreateRejected)" by simp
  from failed_start_ends_run [OF sampleWorld_reachable c(1) this refl refl refl] c show ?thesis
    by (simp add: Let_def)
qed

text \<open>
  A settled subagent whose type is not registered (a recovered one) takes a slot for good when
  the parent follows up: the type is looked up after the slot is taken and outside the block that
  fails the run, so the call throws with the run settled, nothing suspended that would release
  the slot, and one slot less.
\<close>

theorem follow_up_unknown_type_leaks_slot:
  assumes "\<not> halted w" "trim msg \<noteq> []" "resolveTarget (slots w) target = Some r" "isTerminalStatus (statusOf w r)"
    and "contsOf r w = []" "\<not> knownType (typeRegistry cfg) (agentType (snapOf w r))"
    and "hasCapacity (slots w)" "\<not> holdsSlot w r"
  shows "let w1 = snd (followUp target msg w); c = FollowUpSettle r (settlement (runOf w r)) msg;
             w2 = resumeCont cfg now v c Done (w1\<lparr>conts := remove1 c (conts w1)\<rparr>)
    in fst (followUp target msg w) = Inr r \<and> last (conts w1) = c \<and> conts w2 = conts w \<and> runs w2 = runs w \<and>
       active (slots w2) = active (slots w) @ [agentId (snapOf w r)]"
proof -
  let ?c = "FollowUpSettle r (settlement (runOf w r)) msg"
  have "?c \<notin> set (conts w)" using assms(5) by (auto simp: contsOf_def filter_empty_conv)
  then have take: "remove1 ?c (conts w @ [?c]) = conts w" by (simp add: remove1_append)
  have "followUp target msg w = (Inr r, suspend ?c w)" using assms(1-4) by (simp add: followUp_def)
  moreover have "acquire (agentId (snapOf w r)) (slots w) = (True, (slots w)\<lparr>active := active (slots w) @ [agentId (snapOf w r)]\<rparr>)"
    using assms(7,8) by (simp add: acquire_def holdsSlot_def)
  ultimately show ?thesis using assms(6) take by (simp add: followUpSettled_def suspend_def)
qed

definition recoveredAgent :: snapshot where
  "recoveredAgent = (reservedSnapshot sampleConfig 0 ''0'' (sampleRequest ''old'') ''old'' StCompleted)
     \<lparr>agentType := ''gone'', sessionFile := Some ''f''\<rparr>"

definition leakyWorld :: world where
  "leakyWorld = projr (restoreAgents sampleConfig 1 [recoveredAgent] (initialWorld (emptyPool 1)))"

lemma follow_up_unknown_type_leaks_slot_witness:
  "let w1 = snd (followUp ''old'' ''hi'' leakyWorld); c = FollowUpSettle 0 0 ''hi'';
       w2 = resumeCont sampleConfig 2 silentViews c Done (w1\<lparr>conts := remove1 c (conts w1)\<rparr>)
   in active (slots w2) = [''pending-old-0''] \<and> conts w2 = [] \<and>
      fst (spawnAgent sampleConfig 3 ''y'' (sampleRequest ''a'') w2) = Inl TooMany"
proof -
  have h: "\<not> halted leakyWorld" "trim ''hi'' \<noteq> []" "resolveTarget (slots leakyWorld) ''old'' = Some 0"
    "isTerminalStatus (statusOf leakyWorld 0)" "contsOf 0 leakyWorld = []"
    "\<not> knownType (typeRegistry sampleConfig) (agentType (snapOf leakyWorld 0))" "hasCapacity (slots leakyWorld)"
    "\<not> holdsSlot leakyWorld 0"
    by code_simp+
  have s: "settlement (runOf leakyWorld 0) = 0" "conts leakyWorld = []" "active (slots leakyWorld) = []"
    "agentId (snapOf leakyWorld 0) = ''pending-old-0''"
    by code_simp+
  have "fst (spawnAgent sampleConfig 3 ''y'' (sampleRequest ''a'')
     (let w1 = snd (followUp ''old'' ''hi'' leakyWorld); c = FollowUpSettle 0 0 ''hi''
      in resumeCont sampleConfig 2 silentViews c Done (w1\<lparr>conts := remove1 c (conts w1)\<rparr>))) = Inl TooMany"
    by code_simp
  then show ?thesis using follow_up_unknown_type_leaks_slot [OF h, of 2 silentViews] s by (simp add: Let_def)
qed

section \<open>Recovery\<close>

text \<open>
  Recovery accepts exactly the lists of subagents of this parent with distinct ids, distinct
  valid task names and matching paths, and then every agent it returns is terminal: one that was
  alive is interrupted, or failed if its session was never created, in a new generation.
\<close>

theorem recovery_settles_agents:
  "normalizeSubagentRecoveryState ss parent now = Inr out \<longleftrightarrow>
     recoverableAgents parent ss \<and> out = map (recovered now) ss \<and> list_all (\<lambda>s. isTerminalStatus (agentStatus s)) out"
  using normalize_iff [of ss parent now out] by (auto simp: list_all_iff)

end
