(* ===== verification/SubagentDelivery.thy ===== *)
theory SubagentDelivery
  imports SubagentRun
begin

text \<open>
  Handing finished subagents to the parent: \<open>delivery-tracker.ts\<close>, \<open>delivery.ts\<close> and the routing of
  \<open>coordinator.ts\<close> in \<open>packages/runtime-subagents/src\<close>.

  A waiter is a call of \<open>wait\<close> that did not return at once; its closure is the list of targets it
  asked for, and it is open until \<open>finishWait\<close> runs. Timers are events of the environment: the
  notification timer and the timer of each open waiter fire when a step says so. What the parent
  receives is recorded: the answers of the waiters, those that returned at once included, and the
  batches given to \<open>onNotify\<close>; so are the markers given to \<open>onDeliveryClaimed\<close>, whose exceptions are
  caught. An exception in a timer callback ends the callback, so the waiter it
  belonged to is never answered; it is recorded in \<open>lost\<close>.
\<close>

section \<open>State\<close>

record subagent_delivery =
  deliveredKeys :: "string list"
  claimedMarkers :: "(string \<times> nat) list"
  subscribed :: "nat list"
  openWaits :: "(nat \<times> string list option) list"
  nextWait :: nat
  notifyBuffer :: "snapshot list"
  notifyTimer :: bool
  notificationsClosed :: bool
  notices :: "snapshot list list"
  answers :: "(nat \<times> bool \<times> snapshot list) list"
  lost :: "nat list"

definition newDelivery :: subagent_delivery where
  "newDelivery = \<lparr>deliveredKeys = [], claimedMarkers = [], subscribed = [], openWaits = [], nextWait = 0, notifyBuffer = [], notifyTimer = False,
     notificationsClosed = False, notices = [], answers = [], lost = []\<rparr>"

text \<open>Whether the host gave an \<open>onNotify\<close>, and the character U+2026 of the clipping notice.\<close>

record delivery_config =
  hasNotify :: bool
  ellipsisText :: string

section \<open>The tracker\<close>

definition markerKey :: "string \<Rightarrow> nat \<Rightarrow> string" where
  "markerKey i g = i @ ''#'' @ digitsOf g"

definition isDelivered :: "string \<Rightarrow> nat \<Rightarrow> subagent_delivery \<Rightarrow> bool" where
  "isDelivered i g d = (markerKey i g \<in> set (deliveredKeys d))"

definition tryClaim :: "string \<Rightarrow> nat \<Rightarrow> subagent_delivery \<Rightarrow> bool \<times> subagent_delivery" where
  "tryClaim i g d =
     (if markerKey i g \<in> set (deliveredKeys d) then (False, d)
      else (True, d\<lparr>deliveredKeys := deliveredKeys d @ [markerKey i g]\<rparr>))"

definition restoreMarkers :: "(string \<times> nat) list \<Rightarrow> subagent_delivery \<Rightarrow> subagent_delivery" where
  "restoreMarkers ms d = d\<lparr>deliveredKeys := fold (\<lambda>(i, g) ks. setAdd (markerKey i g) ks) ms (deliveredKeys d)\<rparr>"

section \<open>Claiming\<close>

definition hasUndelivered :: "snapshot \<Rightarrow> subagent_delivery \<Rightarrow> bool" where
  "hasUndelivered s d = (isTerminalStatus (agentStatus s) \<and> \<not> isDelivered (agentId s) (generation s) d)"

definition maxFinalText :: nat where
  "maxFinalText = 16384"

definition claim :: "delivery_config \<Rightarrow> snapshot \<Rightarrow> subagent_delivery \<Rightarrow> snapshot option \<times> subagent_delivery" where
  "claim cfg s d =
     (case tryClaim (agentId s) (generation s) d of
        (False, d1) \<Rightarrow> (None, d1)
      | (True, d1) \<Rightarrow>
          (Some (s\<lparr>finalText := clipFinalText (ellipsisText cfg) maxFinalText (finalText s)\<rparr>),
           d1\<lparr>claimedMarkers := claimedMarkers d1 @ [(agentId s, generation s)]\<rparr>))"

fun claimEach :: "delivery_config \<Rightarrow> snapshot list \<Rightarrow> subagent_delivery \<Rightarrow> snapshot list \<times> subagent_delivery" where
  "claimEach cfg [] d = ([], d)"
| "claimEach cfg (s # ss) d =
     (let (c, d1) = claim cfg s d; (rest, d2) = claimEach cfg ss d1
      in (case c of None \<Rightarrow> rest | Some x \<Rightarrow> x # rest, d2))"

section \<open>Automatic notification\<close>

definition enqueueDelivery :: "delivery_config \<Rightarrow> snapshot \<Rightarrow> subagent_delivery \<Rightarrow> subagent_delivery" where
  "enqueueDelivery cfg s d =
     (if notificationsClosed d \<or> \<not> hasNotify cfg then d
      else if \<not> hasUndelivered s d then d
      else d\<lparr>notifyBuffer := notifyBuffer d @ [s], notifyTimer := True\<rparr>)"

definition flush :: "delivery_config \<Rightarrow> subagent_delivery \<Rightarrow> subagent_delivery" where
  "flush cfg d =
     (if notificationsClosed d \<or> \<not> hasNotify cfg then d\<lparr>notifyBuffer := []\<rparr>
      else let (batch, d1) = claimEach cfg (notifyBuffer d) d;
               d2 = d1\<lparr>notifyBuffer := []\<rparr>
           in if batch = [] then d2 else d2\<lparr>notices := notices d2 @ [batch]\<rparr>)"

definition notifyTimerFires :: "delivery_config \<Rightarrow> subagent_delivery \<Rightarrow> subagent_delivery" where
  "notifyTimerFires cfg d = (if notifyTimer d then flush cfg (d\<lparr>notifyTimer := False\<rparr>) else d)"

definition closeNotifications :: "subagent_delivery \<Rightarrow> subagent_delivery" where
  "closeNotifications d = d\<lparr>notificationsClosed := True, notifyTimer := False, notifyBuffer := []\<rparr>"

section \<open>Waiting\<close>

text \<open>\<open>resolveTargets\<close> of the dispatcher.\<close>

fun requireEach :: "world \<Rightarrow> string list \<Rightarrow> subagent_error + snapshot list" where
  "requireEach w [] = Inr []"
| "requireEach w (t # ts) =
     (case resolveTarget (slots w) t of
        None \<Rightarrow> Inl (RunNotFound t)
      | Some r \<Rightarrow> map_sum id (Cons (snapOf w r)) (requireEach w ts))"

definition listTargets :: "world \<Rightarrow> string list option \<Rightarrow> subagent_error + snapshot list" where
  "listTargets w targets =
     (case targets of
        None \<Rightarrow> Inr (listSnapshots (snapOf w) (slots w))
      | Some ts \<Rightarrow> if ts = [] then Inr (listSnapshots (snapOf w) (slots w)) else requireEach w ts)"

definition collectReady :: "delivery_config \<Rightarrow> snapshot list \<Rightarrow> subagent_delivery \<Rightarrow> snapshot list \<times> subagent_delivery" where
  "collectReady cfg ss d = claimEach cfg (filter (\<lambda>s. isTerminalStatus (agentStatus s)) ss) d"

definition waitTimeout :: "int option \<Rightarrow> int" where
  "waitTimeout t = min 300000 (max 1000 (case t of Some n \<Rightarrow> n | None \<Rightarrow> 30000))"

text \<open>The answer to a wait: given at once, or the number of the waiter left open.\<close>

datatype wait_result = Answered bool "snapshot list" | Waiting nat

definition waitFor :: "delivery_config \<Rightarrow> string list option \<Rightarrow> world \<Rightarrow> subagent_delivery
    \<Rightarrow> (subagent_error + wait_result) \<times> subagent_delivery" where
  "waitFor cfg targets w d =
     (case listTargets w targets of
        Inl e \<Rightarrow> (Inl e, d)
      | Inr ss \<Rightarrow>
          (let (ready, d1) = collectReady cfg ss d; k = nextWait d
           in if ready \<noteq> [] then (Inr (Answered False ready), d1\<lparr>answers := answers d1 @ [(k, False, ready)], nextWait := k + 1\<rparr>)
              else if list_all (\<lambda>s. isTerminalStatus (agentStatus s)) ss
              then (Inr (Answered False []), d1\<lparr>answers := answers d1 @ [(k, False, [])], nextWait := k + 1\<rparr>)
              else (Inr (Waiting k), d1\<lparr>subscribed := subscribed d1 @ [k], openWaits := openWaits d1 @ [(k, targets)], nextWait := k + 1\<rparr>)))"

definition finishWait :: "delivery_config \<Rightarrow> bool \<Rightarrow> nat \<Rightarrow> world \<Rightarrow> subagent_delivery \<Rightarrow> subagent_delivery" where
  "finishWait cfg timedOut k w d =
     (case map_of (openWaits d) k of
        None \<Rightarrow> d
      | Some targets \<Rightarrow>
          (let d1 = d\<lparr>openWaits := filter (\<lambda>e. fst e \<noteq> k) (openWaits d), subscribed := removeAll k (subscribed d)\<rparr>
           in case listTargets w targets of
                Inl e \<Rightarrow> d1\<lparr>lost := lost d1 @ [k]\<rparr>
              | Inr ss \<Rightarrow> (let (ready, d2) = collectReady cfg ss d1 in d2\<lparr>answers := answers d2 @ [(k, timedOut, ready)]\<rparr>)))"

text \<open>\<open>onWake\<close>: an exception of \<open>resolveTargets\<close> is caught by the loop that wakes.\<close>

definition onWake :: "delivery_config \<Rightarrow> world \<Rightarrow> nat \<Rightarrow> subagent_delivery \<Rightarrow> subagent_delivery" where
  "onWake cfg w k d =
     (case map_of (openWaits d) k of
        None \<Rightarrow> d
      | Some targets \<Rightarrow>
          (case listTargets w targets of
             Inl e \<Rightarrow> d
           | Inr ss \<Rightarrow> if list_ex (\<lambda>s. isTerminalStatus (agentStatus s) \<and> hasUndelivered s d) ss then finishWait cfg False k w d else d))"

definition wake :: "delivery_config \<Rightarrow> world \<Rightarrow> subagent_delivery \<Rightarrow> subagent_delivery" where
  "wake cfg w d = fold (onWake cfg w) (subscribed d) d"

definition clearWaiters :: "subagent_delivery \<Rightarrow> subagent_delivery" where
  "clearWaiters d = d\<lparr>subscribed := []\<rparr>"

section \<open>Routing of the coordinator\<close>

definition inBatch :: "string option \<Rightarrow> snapshot \<Rightarrow> bool" where
  "inBatch b s = (deliveryMode s = Some BatchDelivery \<and> batchId s = b)"

definition queueAutomaticDelivery :: "delivery_config \<Rightarrow> world \<Rightarrow> snapshot \<Rightarrow> subagent_delivery \<Rightarrow> subagent_delivery" where
  "queueAutomaticDelivery cfg w s d =
     (if deliveryMode s \<noteq> Some BatchDelivery \<or> \<not> truthy (batchId s) then enqueueDelivery cfg s d
      else let batch = filter (inBatch (batchId s)) (listSnapshots (snapOf w) (slots w))
           in if batch = [] \<or> list_ex (\<lambda>c. \<not> isTerminalStatus (agentStatus c)) batch then d
              else fold (enqueueDelivery cfg) batch d)"

definition onTerminal :: "delivery_config \<Rightarrow> world \<Rightarrow> snapshot \<Rightarrow> subagent_delivery \<Rightarrow> subagent_delivery" where
  "onTerminal cfg w s d = queueAutomaticDelivery cfg w s (wake cfg w d)"

section \<open>Histories\<close>

datatype delivery_event =
    Restored "(string \<times> nat) list"
  | Terminal world snapshot
  | NotifyTimer
  | Wait world "string list option"
  | WaitTimer world nat
  | CloseNotifications
  | ClearWaiters

fun deliveryStep :: "delivery_config \<Rightarrow> delivery_event \<Rightarrow> subagent_delivery \<Rightarrow> subagent_delivery" where
  "deliveryStep cfg (Restored ms) d = restoreMarkers ms d"
| "deliveryStep cfg (Terminal w s) d = onTerminal cfg w s d"
| "deliveryStep cfg NotifyTimer d = notifyTimerFires cfg d"
| "deliveryStep cfg (Wait w ts) d = snd (waitFor cfg ts w d)"
| "deliveryStep cfg (WaitTimer w k) d = finishWait cfg True k w d"
| "deliveryStep cfg CloseNotifications d = closeNotifications d"
| "deliveryStep cfg ClearWaiters d = clearWaiters d"

definition runDelivery :: "delivery_config \<Rightarrow> delivery_event list \<Rightarrow> subagent_delivery" where
  "runDelivery cfg es = fold (deliveryStep cfg) es newDelivery"

definition keyOf :: "snapshot \<Rightarrow> string" where
  "keyOf s = markerKey (agentId s) (generation s)"

text \<open>Everything the parent has received.\<close>

definition received :: "subagent_delivery \<Rightarrow> snapshot list" where
  "received d = concat (notices d) @ concat (map (\<lambda>a. snd (snd a)) (answers d))"

end
