(* ===== verification/SubagentDeliveryProperties.thy ===== *)
theory SubagentDeliveryProperties
  imports SubagentDelivery SubagentProperties "HOL-Library.Multiset"
begin

text \<open>
  The properties of the delivery of finished subagents: nothing is handed over twice, nothing
  that was queued is forgotten, a batch is queued as a whole, and the wait that is never answered.
\<close>

section \<open>Keys\<close>

lemma set_setAdd: "set (setAdd x xs) = insert x (set xs)"
  by (auto simp: setAdd_def)

lemma digitsOf_no_hash: "CHR ''#'' \<notin> set (digitsOf n)"
  using digitsOf_chars by fastforce

lemma markerKey_inject: "markerKey i g = markerKey j h \<longleftrightarrow> i = j \<and> g = h"
proof
  assume eq: "markerKey i g = markerKey j h"
  have tail: "takeWhile (\<lambda>c. c \<noteq> CHR ''#'') (rev (markerKey k n)) = rev (digitsOf n)" for k n
  proof -
    have "\<forall>c \<in> set (rev (digitsOf n)). c \<noteq> CHR ''#''" using digitsOf_no_hash [of n] by auto
    then show ?thesis by (simp add: markerKey_def takeWhile_append)
  qed
  have "digitsOf g = digitsOf h" using tail [of i g] tail [of j h] eq by simp
  then show "i = j \<and> g = h" using eq digitsOf_inject by (auto simp: markerKey_def)
qed simp

definition markerOf :: "snapshot \<Rightarrow> string \<times> nat" where
  "markerOf s = (agentId s, generation s)"

lemma keyOf_eq: "keyOf s = case_prod markerKey (markerOf s)"
  by (simp add: keyOf_def markerOf_def)

lemma inj_marker: "inj (case_prod markerKey)"
  by (auto simp: inj_def markerKey_inject)

section \<open>Claims\<close>

lemma claim_cases:
  obtains "keyOf s \<in> set (deliveredKeys d)" "claim cfg s d = (None, d)"
  | x where "keyOf s \<notin> set (deliveredKeys d)" "claim cfg s d = (Some x, d\<lparr>deliveredKeys := deliveredKeys d @ [keyOf s],
        claimedMarkers := claimedMarkers d @ [markerOf s]\<rparr>)"
      "markerOf x = markerOf s" "agentStatus x = agentStatus s"
  by (cases "keyOf s \<in> set (deliveredKeys d)")
    (auto simp: claim_def tryClaim_def keyOf_def markerOf_def)

lemma claimEach_spec:
  assumes "claimEach cfg ss d = (out, d')"
  shows "distinct (map keyOf out)" "set (map keyOf out) \<inter> set (deliveredKeys d) = {}"
    "set (deliveredKeys d') = set (deliveredKeys d) \<union> set (map keyOf out)" "keyOf ` set ss \<subseteq> set (deliveredKeys d')"
    "list_all (\<lambda>s. isTerminalStatus (agentStatus s)) ss \<Longrightarrow> list_all (\<lambda>s. isTerminalStatus (agentStatus s)) out"
proof -
  have "claimEach cfg ss d = (out, d') \<Longrightarrow> distinct (map keyOf out) \<and> set (map keyOf out) \<inter> set (deliveredKeys d) = {} \<and>
    set (deliveredKeys d') = set (deliveredKeys d) \<union> set (map keyOf out) \<and> keyOf ` set ss \<subseteq> set (deliveredKeys d') \<and>
    (list_all (\<lambda>s. isTerminalStatus (agentStatus s)) ss \<longrightarrow> list_all (\<lambda>s. isTerminalStatus (agentStatus s)) out)"
  proof (induction cfg ss d arbitrary: out rule: claimEach.induct)
    case (2 cfg s ss d)
    obtain rest d2 where rest: "claimEach cfg ss (snd (claim cfg s d)) = (rest, d2)" by fastforce
    note ih = "2.IH" [OF refl prod.collapse, of rest]
    show ?case
    proof (cases rule: claim_cases [of s d cfg])
      case 1
      then have "claimEach cfg (s # ss) d = (rest, d2)" using rest by simp
      then show ?thesis using ih rest 1 "2.prems" by auto
    next
      case (2 x)
      have "claimEach cfg (s # ss) d = (x # rest, d2)" using rest 2 by simp
      then have res: "out = x # rest" "d' = d2" using "2.prems" by simp_all
      have key: "keyOf x = keyOf s" using 2(3) by (simp add: keyOf_eq)
      have "claimEach cfg ss (d\<lparr>deliveredKeys := deliveredKeys d @ [keyOf s],
          claimedMarkers := claimedMarkers d @ [markerOf s]\<rparr>) = (rest, d2)" using rest 2 by simp
      then show ?thesis using ih 2 by (auto simp: res key)
    qed
  qed simp
  note all = this [OF assms]
  then show "distinct (map keyOf out)" "set (map keyOf out) \<inter> set (deliveredKeys d) = {}"
    "set (deliveredKeys d') = set (deliveredKeys d) \<union> set (map keyOf out)" "keyOf ` set ss \<subseteq> set (deliveredKeys d')"
    "list_all (\<lambda>s. isTerminalStatus (agentStatus s)) ss \<Longrightarrow> list_all (\<lambda>s. isTerminalStatus (agentStatus s)) out"
    by blast+
qed

lemma claimEach_fields:
  "claimEach cfg ss d = (out, d') \<Longrightarrow> notices d' = notices d \<and> answers d' = answers d \<and> notifyBuffer d' = notifyBuffer d \<and>
     notifyTimer d' = notifyTimer d \<and> notificationsClosed d' = notificationsClosed d \<and> openWaits d' = openWaits d \<and>
     subscribed d' = subscribed d \<and> nextWait d' = nextWait d"
proof (induction cfg ss d arbitrary: out rule: claimEach.induct)
  case (2 cfg s ss d)
  obtain rest d2 where rest: "claimEach cfg ss (snd (claim cfg s d)) = (rest, d2)" by fastforce
  then have "d' = d2" using "2.prems" by (auto simp: Let_def split: prod.splits)
  then show ?case using "2.IH" [OF refl prod.collapse, of rest] rest
    by (cases rule: claim_cases [of s d cfg]) simp_all
qed simp

lemma claimEach_from: "claimEach cfg ss d = (out, d') \<Longrightarrow> keyOf ` set out \<subseteq> keyOf ` set ss"
proof (induction cfg ss d arbitrary: out rule: claimEach.induct)
  case (2 cfg s ss d)
  obtain rest d2 where rest: "claimEach cfg ss (snd (claim cfg s d)) = (rest, d2)" by fastforce
  note ih = "2.IH" [OF refl prod.collapse, of rest]
  show ?case
  proof (cases rule: claim_cases [of s d cfg])
    case 1
    then show ?thesis using "2.prems" rest ih by (auto simp: Let_def)
  next
    case (2 x)
    have "out = x # rest" using "2.prems" rest 2(2) by simp
    moreover have "keyOf x = keyOf s" using 2(3) by (simp add: keyOf_eq)
    moreover have "d' = d2" using "2.prems" rest 2(2) by simp
    ultimately show ?thesis using rest ih by auto
  qed
qed simp

lemma claimEach_markers: "claimEach cfg ss d = (out, d') \<Longrightarrow> claimedMarkers d' = claimedMarkers d @ map markerOf out"
proof (induction cfg ss d arbitrary: out rule: claimEach.induct)
  case (2 cfg s ss d)
  obtain rest d2 where rest: "claimEach cfg ss (snd (claim cfg s d)) = (rest, d2)" by fastforce
  then have "d' = d2" using "2.prems" by (auto simp: Let_def split: prod.splits)
  then show ?case using "2.IH" [OF refl prod.collapse, of rest] rest "2.prems"
    by (cases rule: claim_cases [of s d cfg]) auto
qed simp

text \<open>Every key that becomes delivered is that of a claimed marker, or it is in \<open>X\<close>.\<close>

definition claimsOnly :: "string set \<Rightarrow> subagent_delivery \<Rightarrow> subagent_delivery \<Rightarrow> bool" where
  "claimsOnly X d d' =
     (set (claimedMarkers d) \<subseteq> set (claimedMarkers d') \<and>
      set (deliveredKeys d') \<subseteq> set (deliveredKeys d) \<union> X \<union> case_prod markerKey ` set (claimedMarkers d'))"

lemma claimsOnly_same:
  "deliveredKeys d' = deliveredKeys d \<Longrightarrow> claimedMarkers d' = claimedMarkers d \<Longrightarrow> claimsOnly X d d'"
  by (auto simp: claimsOnly_def)

lemma claimsOnly_trans: "claimsOnly X d d1 \<Longrightarrow> claimsOnly Y d1 d2 \<Longrightarrow> claimsOnly (X \<union> Y) d d2"
  unfolding claimsOnly_def by blast

lemma claimsOnly_claim:
  assumes "claimEach cfg ss d0 = (out, d1)" "deliveredKeys d0 = deliveredKeys d" "claimedMarkers d0 = claimedMarkers d"
    and "deliveredKeys d' = deliveredKeys d1" "claimedMarkers d' = claimedMarkers d1"
  shows "claimsOnly {} d d'"
  using claimEach_spec(3) [OF assms(1)] claimEach_markers [OF assms(1)] assms(2-)
  by (auto simp: claimsOnly_def keyOf_eq)

lemma claimsOnly_fold: "(\<And>x d. claimsOnly {} d (f x d)) \<Longrightarrow> claimsOnly {} d (fold f xs d)"
proof (induction xs arbitrary: d)
  case Nil
  show ?case by (simp add: claimsOnly_same)
next
  case (Cons x xs)
  from claimsOnly_trans [OF Cons.prems Cons.IH [OF Cons.prems]] show ?case by simp
qed

lemma enqueue_claims: "claimsOnly {} d (enqueueDelivery cfg s d)"
  by (rule claimsOnly_same) (simp_all add: enqueueDelivery_def)

lemma queue_claims: "claimsOnly {} d (queueAutomaticDelivery cfg w s d)"
  using claimsOnly_fold [of "enqueueDelivery cfg", OF enqueue_claims]
  by (simp add: queueAutomaticDelivery_def Let_def enqueue_claims claimsOnly_same)

lemma timer_claims: "claimsOnly {} d (notifyTimerFires cfg d)"
proof (cases "notifyTimer d \<and> \<not> notificationsClosed d \<and> hasNotify cfg")
  case True
  obtain batch d1 where c: "claimEach cfg (notifyBuffer d) (d\<lparr>notifyTimer := False\<rparr>) = (batch, d1)" by fastforce
  then show ?thesis using True
    by (intro claimsOnly_claim [OF c]) (simp_all add: notifyTimerFires_def flush_def Let_def)
next
  case False
  then show ?thesis by (intro claimsOnly_same) (auto simp: notifyTimerFires_def flush_def)
qed

lemma finish_claims: "claimsOnly {} d (finishWait cfg t k w d)"
proof (cases "map_of (openWaits d) k")
  case None
  then show ?thesis by (simp add: finishWait_def claimsOnly_same)
next
  case (Some targets)
  let ?d = "d\<lparr>openWaits := filter (\<lambda>e. fst e \<noteq> k) (openWaits d), subscribed := removeAll k (subscribed d)\<rparr>"
  show ?thesis
  proof (cases "listTargets w targets")
    case (Inl e)
    then show ?thesis using Some by (intro claimsOnly_same) (simp_all add: finishWait_def Let_def)
  next
    case (Inr ss)
    obtain ready d1 where c: "claimEach cfg (filter (\<lambda>s. isTerminalStatus (agentStatus s)) ss) ?d = (ready, d1)" by fastforce
    then show ?thesis using Some Inr
      by (intro claimsOnly_claim [OF c]) (simp_all add: finishWait_def collectReady_def Let_def)
  qed
qed

lemma wake_claims: "claimsOnly {} d (wake cfg w d)"
  unfolding wake_def
  by (rule claimsOnly_fold) (simp add: onWake_def finish_claims claimsOnly_same split: option.split sum.split)

lemma wait_claims: "claimsOnly {} d (snd (waitFor cfg targets w d))"
proof (cases "listTargets w targets")
  case (Inl e)
  then show ?thesis by (simp add: waitFor_def claimsOnly_same)
next
  case (Inr ss)
  obtain ready d1 where c: "claimEach cfg (filter (\<lambda>s. isTerminalStatus (agentStatus s)) ss) d = (ready, d1)" by fastforce
  then show ?thesis using Inr
    by (intro claimsOnly_claim [OF c]) (simp_all add: waitFor_def collectReady_def Let_def)
qed

text \<open>The markers a history restores.\<close>

fun restoredBy :: "delivery_event \<Rightarrow> (string \<times> nat) set" where
  "restoredBy (Restored ms) = set ms"
| "restoredBy e = {}"

definition restoredIn :: "delivery_event list \<Rightarrow> (string \<times> nat) set" where
  "restoredIn es = \<Union> (set (map restoredBy es))"

lemma restore_keys: "set (fold (\<lambda>(i, g). setAdd (markerKey i g)) ms ks) = set ks \<union> case_prod markerKey ` set ms"
  by (induction ms arbitrary: ks) (auto simp: set_setAdd)

lemma step_claims: "claimsOnly (case_prod markerKey ` restoredBy e) d (deliveryStep cfg e d)"
proof (cases e)
  case (Terminal w s)
  then show ?thesis using claimsOnly_trans [OF wake_claims queue_claims] by (simp add: onTerminal_def)
next
  case (Restored ms)
  then show ?thesis by (auto simp: claimsOnly_def restoreMarkers_def restore_keys)
qed (simp_all add: timer_claims wait_claims finish_claims closeNotifications_def clearWaiters_def claimsOnly_same)

lemma run_claims: "claimsOnly (case_prod markerKey ` restoredIn es) d (fold (deliveryStep cfg) es d)"
proof (induction es arbitrary: d)
  case Nil
  show ?case by (simp add: claimsOnly_same)
next
  case (Cons e es)
  from claimsOnly_trans [OF step_claims Cons.IH] show ?case by (simp add: restoredIn_def image_Un)
qed

section \<open>The invariant\<close>

text \<open>\<open>K\<close> are the keys that had been delivered before the history began.\<close>

definition handedOk :: "string set \<Rightarrow> string set \<Rightarrow> snapshot list \<Rightarrow> bool" where
  "handedOk K ks xs =
     (distinct (map keyOf xs) \<and> K \<union> keyOf ` set xs \<subseteq> ks \<and> K \<inter> keyOf ` set xs = {} \<and>
      list_all (\<lambda>s. isTerminalStatus (agentStatus s)) xs)"

definition bufferOk :: "delivery_config \<Rightarrow> subagent_delivery \<Rightarrow> bool" where
  "bufferOk cfg d =
     (list_all (\<lambda>s. isTerminalStatus (agentStatus s)) (notifyBuffer d) \<and>
      (notifyBuffer d \<noteq> [] \<longrightarrow> notifyTimer d \<and> \<not> notificationsClosed d \<and> hasNotify cfg))"

definition deliveryInv :: "delivery_config \<Rightarrow> string set \<Rightarrow> subagent_delivery \<Rightarrow> bool" where
  "deliveryInv cfg K d =
     (handedOk K (set (deliveredKeys d)) (received d) \<and> bufferOk cfg d \<and>
      set (claimedMarkers d) = markerOf ` set (received d))"

text \<open>The buffer is emptied, or it and what it depends on stay.\<close>

definition bufferKept :: "subagent_delivery \<Rightarrow> subagent_delivery \<Rightarrow> bool" where
  "bufferKept d d' =
     (notifyBuffer d' = [] \<or> notifyBuffer d' = notifyBuffer d \<and> notifyTimer d' = notifyTimer d \<and>
      notificationsClosed d' = notificationsClosed d)"

lemma bufferKept_ok: "bufferKept d d' \<Longrightarrow> bufferOk cfg d \<Longrightarrow> bufferOk cfg d'"
  by (auto simp: bufferKept_def bufferOk_def)

lemma inv_same:
  assumes "deliveryInv cfg K d" "notices d' = notices d" "answers d' = answers d" "set (deliveredKeys d) \<subseteq> set (deliveredKeys d')"
    and "bufferKept d d'" "claimedMarkers d' = claimedMarkers d"
  shows "deliveryInv cfg K d'"
proof -
  have "received d' = received d" using assms(2,3) by (simp add: received_def)
  then have "handedOk K (set (deliveredKeys d')) (received d')"
    using assms(1,4) unfolding deliveryInv_def handedOk_def by (metis subset_trans)
  then show ?thesis using assms(1,5,6) \<open>received d' = received d\<close> bufferKept_ok by (simp add: deliveryInv_def)
qed

text \<open>What is claimed is new, so it can be handed over.\<close>

lemma handedOk_append:
  assumes "handedOk K ks xs" "distinct (map keyOf out)" "keyOf ` set out \<inter> ks = {}"
    and "list_all (\<lambda>s. isTerminalStatus (agentStatus s)) out" "mset ys = mset (xs @ out)"
  shows "handedOk K (ks \<union> keyOf ` set out) ys"
proof -
  have "mset (map keyOf ys) = mset (map keyOf (xs @ out))" using assms(5) by simp
  then have "distinct (map keyOf ys) \<longleftrightarrow> distinct (map keyOf (xs @ out))" by (rule mset_eq_imp_distinct_iff)
  moreover have "distinct (map keyOf (xs @ out))" using assms(1-3) by (simp add: handedOk_def) blast
  moreover have "set ys = set xs \<union> set out" using mset_eq_setD [OF assms(5)] by simp
  ultimately show ?thesis using assms(1,3,4) by (auto simp: handedOk_def list_all_iff)
qed

lemma inv_receive:
  assumes "deliveryInv cfg K d" "claimEach cfg ss d0 = (out, d1)" "deliveredKeys d0 = deliveredKeys d"
    and "list_all (\<lambda>s. isTerminalStatus (agentStatus s)) ss"
    and "deliveredKeys d' = deliveredKeys d1" "mset (received d') = mset (received d @ out)" "bufferKept d d'"
    and "claimedMarkers d0 = claimedMarkers d" "claimedMarkers d' = claimedMarkers d1"
  shows "deliveryInv cfg K d'"
proof -
  note c = claimEach_spec [OF assms(2)]
  have "handedOk K (set (deliveredKeys d) \<union> keyOf ` set out) (received d')"
    using assms(1,3,4,6) c(1,2,5) by (intro handedOk_append) (simp_all add: deliveryInv_def)
  moreover have "set (deliveredKeys d') = set (deliveredKeys d) \<union> keyOf ` set out" using c(3) assms(3,5) by simp
  moreover have "set (received d') = set (received d) \<union> set out" using mset_eq_setD [OF assms(6)] by simp
  then have "set (claimedMarkers d') = markerOf ` set (received d')"
    using assms(1,8,9) claimEach_markers [OF assms(2)] by (simp add: deliveryInv_def image_Un)
  ultimately show ?thesis using assms(1,7) bufferKept_ok by (simp add: deliveryInv_def)
qed

lemma inv_enqueueDelivery: "deliveryInv cfg K d \<Longrightarrow> deliveryInv cfg K (enqueueDelivery cfg s d)"
  by (auto simp: enqueueDelivery_def deliveryInv_def bufferOk_def received_def hasUndelivered_def)

lemma inv_enqueue_fold: "deliveryInv cfg K d \<Longrightarrow> deliveryInv cfg K (fold (enqueueDelivery cfg) ss d)"
  by (induction ss arbitrary: d) (auto intro: inv_enqueueDelivery)

lemma inv_notifyTimer:
  assumes "deliveryInv cfg K d"
  shows "deliveryInv cfg K (notifyTimerFires cfg d)"
proof (cases "notifyTimer d \<and> \<not> notificationsClosed d \<and> hasNotify cfg")
  case True
  let ?d = "d\<lparr>notifyTimer := False\<rparr>"
  obtain batch d1 where c: "claimEach cfg (notifyBuffer d) ?d = (batch, d1)" by fastforce
  let ?e = "d1\<lparr>notifyBuffer := [], notices := notices d1 @ (if batch = [] then [] else [batch])\<rparr>"
  have step: "notifyTimerFires cfg d = ?e" using True c by (simp add: notifyTimerFires_def flush_def)
  have "mset (received ?e) = mset (received d @ batch)" using claimEach_fields [OF c] by (simp add: received_def)
  moreover have "list_all (\<lambda>s. isTerminalStatus (agentStatus s)) (notifyBuffer d)" using assms by (simp add: deliveryInv_def bufferOk_def)
  ultimately show ?thesis unfolding step by (intro inv_receive [OF assms c]) (simp_all add: bufferKept_def)
next
  case False
  then show ?thesis using assms by (auto simp: notifyTimerFires_def flush_def bufferKept_def intro!: inv_same [OF assms])
qed

lemma collect_terminal: "list_all (\<lambda>s. isTerminalStatus (agentStatus s)) (filter (\<lambda>s. isTerminalStatus (agentStatus s)) ss)"
  by (simp add: list_all_iff)

lemma inv_waitFor:
  assumes "deliveryInv cfg K d"
  shows "deliveryInv cfg K (snd (waitFor cfg targets w d))"
proof (cases "listTargets w targets")
  case (Inl e)
  then show ?thesis using assms by (simp add: waitFor_def)
next
  case (Inr ss)
  obtain ready d1 where c: "claimEach cfg (filter (\<lambda>s. isTerminalStatus (agentStatus s)) ss) d = (ready, d1)" by fastforce
  have same: "notices d1 = notices d" "answers d1 = answers d" "notifyBuffer d1 = notifyBuffer d" "notifyTimer d1 = notifyTimer d"
    "notificationsClosed d1 = notificationsClosed d"
    using claimEach_fields [OF c] by simp_all
  have "deliveryInv cfg K (d1\<lparr>answers := answers d1 @ [(k, b, ready)], nextWait := n\<rparr>)" for k b n
    using same by (intro inv_receive [OF assms c]) (simp_all add: received_def collect_terminal bufferKept_def)
  moreover have "deliveryInv cfg K (d1\<lparr>subscribed := xs, openWaits := ys, nextWait := n\<rparr>)" if "ready = []" for xs ys n
    using same that by (intro inv_receive [OF assms c]) (simp_all add: received_def collect_terminal bufferKept_def)
  ultimately show ?thesis using Inr c by (auto simp: waitFor_def collectReady_def Let_def)
qed

lemma inv_finish:
  assumes "deliveryInv cfg K d"
  shows "deliveryInv cfg K (finishWait cfg t k w d)"
proof (cases "map_of (openWaits d) k")
  case None
  then show ?thesis using assms by (simp add: finishWait_def)
next
  case (Some targets)
  let ?d = "d\<lparr>openWaits := filter (\<lambda>e. fst e \<noteq> k) (openWaits d), subscribed := removeAll k (subscribed d)\<rparr>"
  have base: "deliveryInv cfg K ?d" using assms by (rule inv_same) (simp_all add: bufferKept_def)
  show ?thesis
  proof (cases "listTargets w targets")
    case (Inl e)
    then show ?thesis using Some base by (simp add: finishWait_def Let_def) (rule inv_same [OF base], simp_all add: bufferKept_def)
  next
    case (Inr ss)
    obtain ready d1 where c: "claimEach cfg (filter (\<lambda>s. isTerminalStatus (agentStatus s)) ss) ?d = (ready, d1)" by fastforce
    have same: "notices d1 = notices d" "answers d1 = answers d" "notifyBuffer d1 = notifyBuffer d" "notifyTimer d1 = notifyTimer d"
      "notificationsClosed d1 = notificationsClosed d"
      using claimEach_fields [OF c] by simp_all
    have "deliveryInv cfg K (d1\<lparr>answers := answers d1 @ [(k, t, ready)]\<rparr>)"
      using same by (intro inv_receive [OF base c]) (simp_all add: received_def collect_terminal bufferKept_def)
    then show ?thesis using Some Inr c by (simp add: finishWait_def collectReady_def Let_def)
  qed
qed

lemma inv_onWake: "deliveryInv cfg K d \<Longrightarrow> deliveryInv cfg K (onWake cfg w k d)"
  by (auto simp: onWake_def intro: inv_finish split: option.split sum.split)

lemma inv_wake: "deliveryInv cfg K d \<Longrightarrow> deliveryInv cfg K (wake cfg w d)"
proof -
  have "deliveryInv cfg K d \<Longrightarrow> deliveryInv cfg K (fold (onWake cfg w) ks d)" for ks
    by (induction ks arbitrary: d) (auto intro: inv_onWake)
  then show "deliveryInv cfg K d \<Longrightarrow> deliveryInv cfg K (wake cfg w d)" by (simp add: wake_def)
qed

lemma inv_restoreMarkers: "deliveryInv cfg K d \<Longrightarrow> deliveryInv cfg K (restoreMarkers ms d)"
proof -
  have "set (fold (\<lambda>(i, g). setAdd (markerKey i g)) ms ks) = set ks \<union> (\<lambda>(i, g). markerKey i g) ` set ms" for ks
    by (induction ms arbitrary: ks) (auto simp: set_setAdd)
  then show "deliveryInv cfg K d \<Longrightarrow> deliveryInv cfg K (restoreMarkers ms d)"
    by (elim inv_same) (auto simp: restoreMarkers_def bufferKept_def)
qed

theorem deliveryStep_inv: "deliveryInv cfg K d \<Longrightarrow> deliveryInv cfg K (deliveryStep cfg e d)"
proof (cases e)
  case (Terminal w s)
  then show "deliveryInv cfg K d \<Longrightarrow> ?thesis"
    by (auto simp: onTerminal_def queueAutomaticDelivery_def Let_def intro: inv_enqueueDelivery inv_enqueue_fold inv_wake)
next
  case CloseNotifications
  then show "deliveryInv cfg K d \<Longrightarrow> ?thesis" by (simp add: closeNotifications_def) (erule inv_same, simp_all add: bufferKept_def)
next
  case ClearWaiters
  then show "deliveryInv cfg K d \<Longrightarrow> ?thesis" by (simp add: clearWaiters_def) (erule inv_same, simp_all add: bufferKept_def)
qed (simp_all add: inv_restoreMarkers inv_notifyTimer inv_waitFor inv_finish)

lemma run_inv: "deliveryInv cfg K d \<Longrightarrow> deliveryInv cfg K (fold (deliveryStep cfg) es d)"
  by (induction es arbitrary: d) (auto intro: deliveryStep_inv)

lemma restored_inv: "deliveryInv cfg (case_prod markerKey ` set ms) (restoreMarkers ms newDelivery)"
proof -
  have "set (fold (\<lambda>(i, g). setAdd (markerKey i g)) ms ks) = set ks \<union> (\<lambda>(i, g). markerKey i g) ` set ms" for ks
    by (induction ms arbitrary: ks) (auto simp: set_setAdd)
  then show ?thesis by (simp add: deliveryInv_def handedOk_def bufferOk_def received_def restoreMarkers_def newDelivery_def case_prod_unfold)
qed

section \<open>The properties\<close>

text \<open>
  C27. Exactly what the markers are for: over every history of terminal runs, timers, waits and
  restarts, no generation of a subagent is handed to the parent twice, neither by a notification
  nor by a wait, and none that an earlier process had handed over; all that is handed over is
  terminal.
\<close>

theorem delivered_at_most_once:
  "distinct (map markerOf (received (runDelivery cfg (Restored ms # es)))) \<and>
   set ms \<inter> set (map markerOf (received (runDelivery cfg (Restored ms # es)))) = {} \<and>
   list_all (\<lambda>s. isTerminalStatus (agentStatus s)) (received (runDelivery cfg (Restored ms # es)))"
proof -
  let ?d = "runDelivery cfg (Restored ms # es)"
  have inv: "deliveryInv cfg (case_prod markerKey ` set ms) ?d"
    using run_inv [OF restored_inv] by (simp add: runDelivery_def)
  have keys: "map keyOf (received ?d) = map (case_prod markerKey) (map markerOf (received ?d))" by (simp add: keyOf_eq)
  have "distinct (map (case_prod markerKey) (map markerOf (received ?d)))"
    using inv unfolding keys [symmetric] by (simp add: deliveryInv_def handedOk_def)
  then have "distinct (map markerOf (received ?d))" by (rule distinct_map [THEN iffD1, THEN conjunct1])
  moreover have "set ms \<inter> set (map markerOf (received ?d)) = {}"
  proof -
    have "case_prod markerKey ` set ms \<inter> case_prod markerKey ` set (map markerOf (received ?d)) = {}"
      using inv by (simp add: deliveryInv_def handedOk_def keyOf_eq image_image)
    then show ?thesis by blast
  qed
  ultimately show ?thesis using inv by (simp add: deliveryInv_def handedOk_def del: distinct_map)
qed

text \<open>
  C29. Nothing that was queued for the parent is forgotten. Whenever something is queued the
  timer is armed and notifications are open. When it fires the buffer is emptied, and what was queued
  and has not been delivered is handed to \<open>onNotify\<close>, in one batch and each generation once; so
  the parent has then received every queued generation, by a notification or a wait, unless its
  marker was restored from an earlier process, and the markers given to \<open>onDeliveryClaimed\<close> are those
  of what the parent has received.
\<close>

theorem queued_is_delivered:
  assumes "d = runDelivery cfg es" "notifyBuffer d \<noteq> []"
  shows "notifyTimer d \<and> \<not> notificationsClosed d \<and> notifyBuffer (notifyTimerFires cfg d) = [] \<and>
    (\<exists>batch. notices (notifyTimerFires cfg d) = notices d @ (if batch = [] then [] else [batch]) \<and>
       answers (notifyTimerFires cfg d) = answers d \<and> distinct (map markerOf batch) \<and>
       set (map markerOf batch) = {markerOf s |s. s \<in> set (notifyBuffer d) \<and> \<not> isDelivered (agentId s) (generation s) d}) \<and>
    set (map markerOf (notifyBuffer d)) \<subseteq> set (map markerOf (received (notifyTimerFires cfg d))) \<union> restoredIn es \<and>
    set (claimedMarkers (notifyTimerFires cfg d)) = set (map markerOf (received (notifyTimerFires cfg d)))"
proof -
  have "deliveryInv cfg {} newDelivery" by (simp add: deliveryInv_def handedOk_def bufferOk_def newDelivery_def received_def)
  then have inv: "deliveryInv cfg {} d" using run_inv assms(1) by (simp add: runDelivery_def)
  then have on: "notifyTimer d" "\<not> notificationsClosed d" "hasNotify cfg" using assms(2) by (auto simp: deliveryInv_def bufferOk_def)
  obtain batch d1 where c: "claimEach cfg (notifyBuffer d) (d\<lparr>notifyTimer := False\<rparr>) = (batch, d1)" by fastforce
  let ?d' = "notifyTimerFires cfg d"
  note spec = claimEach_spec [OF c] and fields = claimEach_fields [OF c]
  have step: "deliveredKeys ?d' = deliveredKeys d1" "notifyBuffer ?d' = []" "answers ?d' = answers d"
    "notices ?d' = notices d @ (if batch = [] then [] else [batch])"
    using on c fields by (simp_all add: notifyTimerFires_def flush_def Let_def)
  have from_buffer: "\<exists>s \<in> set (notifyBuffer d). keyOf x = keyOf s \<and> keyOf s \<notin> set (deliveredKeys d)" if "x \<in> set batch" for x
  proof -
    have "keyOf x \<in> keyOf ` set (notifyBuffer d)" using claimEach_from [OF c] that by blast
    moreover have "keyOf x \<notin> set (deliveredKeys d)" using spec(2) that by auto
    ultimately show ?thesis by auto
  qed
  have to_batch: "\<exists>x \<in> set batch. keyOf x = keyOf s" if "s \<in> set (notifyBuffer d)" "keyOf s \<notin> set (deliveredKeys d)" for s
  proof -
    have "keyOf s \<in> set (deliveredKeys d) \<union> set (map keyOf batch)" using spec(3,4) that(1) by auto
    then show ?thesis using that(2) by auto
  qed
  have inj: "keyOf s = keyOf t \<longleftrightarrow> markerOf s = markerOf t" for s t using inj_marker by (simp add: keyOf_eq inj_eq)
  have markers: "set (map markerOf batch) = {markerOf s |s. s \<in> set (notifyBuffer d) \<and> \<not> isDelivered (agentId s) (generation s) d}"
    (is "_ = ?M")
  proof
    show "set (map markerOf batch) \<subseteq> ?M"
      using from_buffer by (fastforce simp: inj isDelivered_def keyOf_def [symmetric])
    show "?M \<subseteq> set (map markerOf batch)"
    proof
      fix m assume "m \<in> ?M"
      then obtain s where s: "m = markerOf s" "s \<in> set (notifyBuffer d)" "keyOf s \<notin> set (deliveredKeys d)"
        by (auto simp: isDelivered_def keyOf_def)
      from to_batch [OF s(2,3)] obtain x where "x \<in> set batch" "markerOf x = m" by (auto simp: inj s(1))
      then show "m \<in> set (map markerOf batch)" by auto
    qed
  qed
  have "distinct (map markerOf batch)"
    using spec(1) inj_marker by (auto simp: keyOf_eq distinct_map inj_on_def)
  moreover have all: "set (claimedMarkers ?d') = set (map markerOf (received ?d'))"
    using inv_notifyTimer [OF inv] by (simp add: deliveryInv_def)
  moreover have "set (map markerOf (notifyBuffer d)) \<subseteq> set (map markerOf (received ?d')) \<union> restoredIn es"
  proof -
    have "claimsOnly (case_prod markerKey ` restoredIn es) newDelivery ?d'"
      using claimsOnly_trans [OF run_claims timer_claims] assms(1) by (simp add: runDelivery_def)
    then have "set (deliveredKeys ?d') \<subseteq> case_prod markerKey ` (restoredIn es \<union> set (map markerOf (received ?d')))"
      unfolding claimsOnly_def all by (simp add: newDelivery_def image_Un)
    moreover have "case_prod markerKey ` set (map markerOf (notifyBuffer d)) \<subseteq> set (deliveredKeys ?d')"
      using spec(4) unfolding step(1) by (simp add: image_image keyOf_eq)
    ultimately have "case_prod markerKey ` set (map markerOf (notifyBuffer d)) \<subseteq>
        case_prod markerKey ` (restoredIn es \<union> set (map markerOf (received ?d')))"
      by (rule order_trans [rotated])
    then show ?thesis using inj_image_subset_iff [OF inj_marker] by blast
  qed
  ultimately show ?thesis using on step markers by blast
qed

text \<open>
  A batch reaches the parent as a whole: the end of one of its subagents queues nothing while
  another is still alive, and every undelivered one of them, in order, when all have ended.
\<close>

lemma enqueue_fold:
  assumes "\<not> notificationsClosed d" "hasNotify cfg"
  shows "fold (enqueueDelivery cfg) ss d =
    d\<lparr>notifyBuffer := notifyBuffer d @ filter (\<lambda>s. hasUndelivered s d) ss,
      notifyTimer := (notifyTimer d \<or> filter (\<lambda>s. hasUndelivered s d) ss \<noteq> [])\<rparr>"
  using assms(1)
proof (induction ss arbitrary: d)
  case (Cons s ss)
  have "hasUndelivered x (enqueueDelivery cfg s d) = hasUndelivered x d" "\<not> notificationsClosed (enqueueDelivery cfg s d)" for x
    using Cons.prems by (auto simp: enqueueDelivery_def hasUndelivered_def isDelivered_def)
  then show ?case using Cons.IH [of "enqueueDelivery cfg s d"] Cons.prems assms(2) by (simp add: enqueueDelivery_def)
qed simp

theorem batch_is_queued_whole:
  assumes "\<not> notificationsClosed d" "hasNotify cfg" "deliveryMode s = Some BatchDelivery" "truthy (batchId s)"
  shows "notifyBuffer (queueAutomaticDelivery cfg w s d) = notifyBuffer d @
    (let batch = filter (inBatch (batchId s)) (listSnapshots (snapOf w) (slots w))
     in if list_all (\<lambda>c. isTerminalStatus (agentStatus c)) batch
        then filter (\<lambda>c. \<not> isDelivered (agentId c) (generation c) d) batch else [])"
proof -
  let ?batch = "filter (inBatch (batchId s)) (listSnapshots (snapOf w) (slots w))"
  have "filter (\<lambda>c. hasUndelivered c d) ?batch = filter (\<lambda>c. \<not> isDelivered (agentId c) (generation c) d) ?batch"
    if "list_all (\<lambda>c. isTerminalStatus (agentStatus c)) ?batch"
    using that by (intro filter_cong [OF refl]) (simp add: hasUndelivered_def list_all_iff)
  moreover have "list_ex (\<lambda>c. \<not> isTerminalStatus (agentStatus c)) ?batch \<longleftrightarrow> \<not> list_all (\<lambda>c. isTerminalStatus (agentStatus c)) ?batch"
    by (auto simp: list_ex_iff list_all_iff)
  ultimately show ?thesis
    using assms enqueue_fold [OF assms(1,2), of ?batch] by (simp add: queueAutomaticDelivery_def Let_def del: filter_filter)
qed

section \<open>Waiters\<close>

text \<open>
  What a step does to the waiters, as an abstract move: nothing, closing an open waiter with or
  without an answer, answering a new one at once, or leaving a new one open.
\<close>

inductive waitMove :: "subagent_delivery \<Rightarrow> subagent_delivery \<Rightarrow> bool" where
  keep: "nextWait d' = nextWait d \<Longrightarrow> openWaits d' = openWaits d \<Longrightarrow> answers d' = answers d \<Longrightarrow> waitMove d d'"
| close: "k \<in> fst ` set (openWaits d) \<Longrightarrow> nextWait d' = nextWait d \<Longrightarrow>
    openWaits d' = filter (\<lambda>e. fst e \<noteq> k) (openWaits d) \<Longrightarrow> answers d' = answers d @ as \<Longrightarrow> as = [] \<or> as = [(k, r)] \<Longrightarrow> waitMove d d'"
| answer: "nextWait d' = nextWait d + 1 \<Longrightarrow> openWaits d' = openWaits d \<Longrightarrow>
    answers d' = answers d @ [(nextWait d, r)] \<Longrightarrow> waitMove d d'"
| leave: "nextWait d' = nextWait d + 1 \<Longrightarrow> openWaits d' = openWaits d @ [(nextWait d, ts)] \<Longrightarrow> answers d' = answers d \<Longrightarrow> waitMove d d'"

abbreviation waitMoves :: "subagent_delivery \<Rightarrow> subagent_delivery \<Rightarrow> bool" where
  "waitMoves \<equiv> waitMove\<^sup>*\<^sup>*"

lemma finishWait_move: "waitMoves d (finishWait cfg t k w d)"
proof (cases "map_of (openWaits d) k")
  case None
  then show ?thesis by (simp add: finishWait_def)
next
  case (Some targets)
  let ?d = "d\<lparr>openWaits := filter (\<lambda>e. fst e \<noteq> k) (openWaits d), subscribed := removeAll k (subscribed d)\<rparr>"
  have k: "k \<in> fst ` set (openWaits d)" using map_of_SomeD [OF Some] by force
  show ?thesis
  proof (cases "listTargets w targets")
    case (Inl e)
    then show ?thesis using Some by (intro r_into_rtranclp waitMove.close [OF k, of _ "[]"]) (simp_all add: finishWait_def Let_def)
  next
    case (Inr ss)
    obtain ready d1 where c: "claimEach cfg (filter (\<lambda>s. isTerminalStatus (agentStatus s)) ss) ?d = (ready, d1)" by fastforce
    then show ?thesis using Some Inr claimEach_fields [OF c]
      by (intro r_into_rtranclp waitMove.close [OF k, of _ "[(k, t, ready)]"]) (simp_all add: finishWait_def collectReady_def Let_def)
  qed
qed

lemma fold_moves: "(\<And>x d. waitMoves d (f x d)) \<Longrightarrow> waitMoves d (fold f xs d)"
proof (induction xs arbitrary: d)
  case (Cons x xs)
  then show ?case using rtranclp_trans [of waitMove d "f x d"] by simp
qed simp

lemma wake_move: "waitMoves d (wake cfg w d)"
  unfolding wake_def by (rule fold_moves) (simp add: onWake_def finishWait_move split: option.split sum.split)

lemma waitFor_move: "waitMoves d (snd (waitFor cfg targets w d))"
proof (cases "listTargets w targets")
  case (Inl e)
  then show ?thesis by (simp add: waitFor_def)
next
  case (Inr ss)
  obtain ready d1 where c: "claimEach cfg (filter (\<lambda>s. isTerminalStatus (agentStatus s)) ss) d = (ready, d1)" by fastforce
  note f = claimEach_fields [OF c]
  have "waitMove d (d1\<lparr>answers := answers d1 @ [(nextWait d, r)], nextWait := nextWait d + 1\<rparr>)" for r
    using f by (intro waitMove.answer) simp_all
  moreover have "waitMove d (d1\<lparr>subscribed := xs, openWaits := openWaits d1 @ [(nextWait d, targets)], nextWait := nextWait d + 1\<rparr>)" for xs
    using f by (intro waitMove.leave) simp_all
  ultimately show ?thesis using Inr c by (auto simp: waitFor_def collectReady_def Let_def)
qed

lemma enqueue_move: "waitMoves d (enqueueDelivery cfg s d)"
  by (intro r_into_rtranclp waitMove.keep) (simp_all add: enqueueDelivery_def)

lemma queue_move: "waitMoves d (queueAutomaticDelivery cfg w s d)"
  using fold_moves [of "enqueueDelivery cfg", OF enqueue_move]
  by (simp add: queueAutomaticDelivery_def Let_def enqueue_move)

lemma timer_move: "waitMoves d (notifyTimerFires cfg d)"
proof (cases "claimEach cfg (notifyBuffer d) (d\<lparr>notifyTimer := False\<rparr>)")
  case (Pair batch d1)
  then show ?thesis using claimEach_fields [OF Pair]
    by (intro r_into_rtranclp waitMove.keep) (auto simp: notifyTimerFires_def flush_def Let_def)
qed

lemma deliveryStep_moves: "waitMoves d (deliveryStep cfg e d)"
proof (cases e)
  case (Terminal w s)
  have "waitMoves d (queueAutomaticDelivery cfg w s (wake cfg w d))"
    using wake_move queue_move by (rule rtranclp_trans)
  then show ?thesis using Terminal by (simp add: onTerminal_def)
next
  case (Restored ms)
  then show ?thesis by (intro r_into_rtranclp waitMove.keep) (simp_all add: restoreMarkers_def)
next
  case CloseNotifications
  then show ?thesis by (intro r_into_rtranclp waitMove.keep) (simp_all add: closeNotifications_def)
next
  case ClearWaiters
  then show ?thesis by (intro r_into_rtranclp waitMove.keep) (simp_all add: clearWaiters_def)
qed (simp_all add: finishWait_move waitFor_move timer_move)

lemma history_moves: "waitMoves d (fold (deliveryStep cfg) es d)"
  by (rule fold_moves) (rule deliveryStep_moves)

definition openIds :: "subagent_delivery \<Rightarrow> nat set" where
  "openIds d = fst ` set (openWaits d)"

definition answered :: "subagent_delivery \<Rightarrow> nat list" where
  "answered d = map fst (answers d)"

lemma waitMove_ids:
  assumes "waitMove d d'"
  obtains "nextWait d' = nextWait d" "openIds d' = openIds d" "answered d' = answered d"
  | k where "k \<in> openIds d" "nextWait d' = nextWait d" "openIds d' = openIds d - {k}" "answered d' = answered d \<or> answered d' = answered d @ [k]"
  | "nextWait d' = Suc (nextWait d)" "openIds d' = openIds d" "answered d' = answered d @ [nextWait d]"
  | "nextWait d' = Suc (nextWait d)" "openIds d' = insert (nextWait d) (openIds d)" "answered d' = answered d"
  using assms
proof (cases rule: waitMove.cases)
  case keep
  then show ?thesis using that(1) by (simp add: openIds_def answered_def)
next
  case (close k as r)
  moreover have "fst ` set (filter (\<lambda>e. fst e \<noteq> k) (openWaits d)) = openIds d - {k}" unfolding openIds_def by force
  ultimately show ?thesis using that(2) [of k] by (auto simp: openIds_def answered_def simp del: set_filter)
next
  case (answer r)
  then show ?thesis using that(3) by (simp add: openIds_def answered_def)
next
  case (leave ts)
  then show ?thesis using that(4) by (simp add: openIds_def answered_def)
qed

text \<open>A waiter that is no longer open and was not answered stays so; an open one has not been answered.\<close>

definition waitClosed :: "nat \<Rightarrow> subagent_delivery \<Rightarrow> bool" where
  "waitClosed k d = (k < nextWait d \<and> k \<notin> openIds d \<and> k \<notin> set (answered d))"

definition waitsOk :: "subagent_delivery \<Rightarrow> bool" where
  "waitsOk d =
     ((\<forall>k \<in> openIds d. k < nextWait d \<and> k \<notin> set (answered d)) \<and> (\<forall>k \<in> set (answered d). k < nextWait d) \<and>
      distinct (answered d))"

lemma waitClosed_moves: "waitMoves d d' \<Longrightarrow> waitClosed k d \<Longrightarrow> waitClosed k d'"
proof (induction rule: rtranclp_induct)
  case (step d1 d2)
  have closed: "waitClosed k d1" using step by blast
  from step(2) show ?case
  proof (cases rule: waitMove_ids)
    case (2 j)
    then show ?thesis using closed unfolding waitClosed_def by (elim disjE conjE) (simp_all, blast)
  qed (use closed in \<open>simp_all add: waitClosed_def\<close>)
qed simp

lemma waitsOk_moves: "waitMoves d d' \<Longrightarrow> waitsOk d \<Longrightarrow> waitsOk d'"
proof (induction rule: rtranclp_induct)
  case (step d1 d2)
  have ok: "waitsOk d1" using step by blast
  from step(2) show ?case
  proof (cases rule: waitMove_ids)
    case (2 j)
    then show ?thesis using ok unfolding waitsOk_def by (elim disjE conjE) simp_all
  next
    case 3
    then show ?thesis using ok by (force simp: waitsOk_def less_Suc_eq)
  next
    case 4
    then show ?thesis using ok by (force simp: waitsOk_def less_Suc_eq)
  qed (use ok in \<open>simp_all add: waitsOk_def\<close>)
qed simp

lemma history_waitsOk: "waitsOk (runDelivery cfg es)"
  unfolding runDelivery_def by (rule waitsOk_moves [OF history_moves]) (simp add: waitsOk_def openIds_def answered_def newDelivery_def)

text \<open>
  No wait is answered twice, and a wait whose target has left the pool is never answered:
  nothing wakes it, and its timer closes it before it fails to resolve the target inside the
  callback.
\<close>

theorem cleared_target_loses_wait:
  assumes "map_of (openWaits (runDelivery cfg es)) k = Some targets" "listTargets w targets = Inl e"
  shows "onWake cfg w k (runDelivery cfg es) = runDelivery cfg es \<and> lost (finishWait cfg True k w (runDelivery cfg es)) =
      lost (runDelivery cfg es) @ [k] \<and> k \<notin> set (map fst (answers (runDelivery cfg (es @ WaitTimer w k # later)))) \<and>
    distinct (map fst (answers (runDelivery cfg (es @ WaitTimer w k # later))))"
proof -
  let ?d = "runDelivery cfg es"
  have "k \<in> openIds ?d" using map_of_SomeD [OF assms(1)] by (force simp: openIds_def)
  then have "k < nextWait ?d" "k \<notin> set (answered ?d)" using history_waitsOk [of cfg es] by (auto simp: waitsOk_def)
  then have "waitClosed k (finishWait cfg True k w ?d)"
    using assms by (auto simp: finishWait_def Let_def waitClosed_def openIds_def answered_def)
  then have "waitClosed k (runDelivery cfg (es @ WaitTimer w k # later))"
    using waitClosed_moves [OF history_moves] by (simp add: runDelivery_def)
  moreover have "waitsOk (runDelivery cfg (es @ WaitTimer w k # later))" by (rule history_waitsOk)
  ultimately show ?thesis
    using assms by (simp add: onWake_def finishWait_def Let_def waitClosed_def waitsOk_def answered_def)
qed

section \<open>Samples\<close>

definition sampleDelivery :: delivery_config where
  "sampleDelivery = \<lparr>hasNotify = True, ellipsisText = ''...''\<rparr>"

text \<open>The first subagent of the sample is interrupted and its end is announced.\<close>

definition announced :: "delivery_event list" where
  "announced = [Terminal sampleNext (snapOf sampleNext 0)]"

lemma queued_is_delivered_witness:
  "map markerOf (notifyBuffer (runDelivery sampleDelivery announced)) = [(''pending-a-0'', 1)] \<and>
   notifyBuffer (notifyTimerFires sampleDelivery (runDelivery sampleDelivery announced)) = [] \<and>
   (''pending-a-0'', 1) \<in> set (map markerOf (received (notifyTimerFires sampleDelivery (runDelivery sampleDelivery announced))))"
proof -
  have buf: "map markerOf (notifyBuffer (runDelivery sampleDelivery announced)) = [(''pending-a-0'', 1)]" by code_simp
  then have some: "notifyBuffer (runDelivery sampleDelivery announced) \<noteq> []" by (metis list.map_disc_iff list.distinct(1))
  have none: "restoredIn announced = {}" by (simp add: restoredIn_def announced_def)
  from queued_is_delivered [OF refl some] show ?thesis unfolding buf none by simp
qed

definition batchRequest :: "string \<Rightarrow> spawn_request" where
  "batchRequest name = (sampleRequest name)\<lparr>reqDelivery := Some BatchDelivery, reqBatch := Some ''b1''\<rparr>"

definition batchWorld :: world where
  "batchWorld = snd (interruptTarget sampleConfig 6 silentViews ''a''
     (snd (spawnMany sampleConfig 5 silentViews (\<lambda>n. digitsOf n) [batchRequest ''a'', batchRequest ''b'']
       (initialWorld (emptyPool 1)))))"

definition batchEnded :: world where
  "batchEnded = snd (interruptTarget sampleConfig 7 silentViews ''b'' batchWorld)"

text \<open>The first end of the batch is held back; the second queues both.\<close>

lemma batch_is_queued_whole_witness:
  "notifyBuffer (queueAutomaticDelivery sampleDelivery batchWorld (snapOf batchWorld 0) newDelivery) = [] \<and>
   map markerOf (notifyBuffer (queueAutomaticDelivery sampleDelivery batchEnded (snapOf batchEnded 1) newDelivery)) =
     [(''pending-a-0'', 1), (''pending-b-1'', 1)]"
proof -
  have d: "\<not> notificationsClosed newDelivery" "hasNotify sampleDelivery" by code_simp+
  have a: "deliveryMode (snapOf batchWorld 0) = Some BatchDelivery" "truthy (batchId (snapOf batchWorld 0))" by code_simp+
  have b: "deliveryMode (snapOf batchEnded 1) = Some BatchDelivery" "truthy (batchId (snapOf batchEnded 1))" by code_simp+
  show ?thesis unfolding batch_is_queued_whole [OF d a] batch_is_queued_whole [OF d b] by code_simp
qed

text \<open>
  The parent waits for both after the end of the first has been delivered, and clears the
  finished subagents while it waits.
\<close>

definition waiting :: "delivery_event list" where
  "waiting = announced @ [NotifyTimer, Wait sampleNext (Some [''a'', ''b''])]"

definition clearedWorld :: world where
  "clearedWorld = clearFinished sampleConfig 8 silentViews sampleNext"

lemma cleared_target_loses_wait_witness:
  "map_of (openWaits (runDelivery sampleDelivery waiting)) 0 = Some (Some [''a'', ''b'']) \<and>
   0 \<notin> set (map fst (answers (runDelivery sampleDelivery (waiting @ WaitTimer clearedWorld 0 # [NotifyTimer]))))"
proof -
  have w: "map_of (openWaits (runDelivery sampleDelivery waiting)) 0 = Some (Some [''a'', ''b''])" by code_simp
  have "listTargets clearedWorld (Some [''a'', ''b'']) = Inl (RunNotFound ''a'')" by code_simp
  from cleared_target_loses_wait [OF w this, of "[NotifyTimer]"] show ?thesis using w by blast
qed

end
