(* ===== verification/TurnRetry.thy ===== *)
theory TurnRetry
  imports Prelude
begin

text \<open>
  The automatic retry of failed turns, from \<open>packages/runtime-core/src/retry\<close>: the policies of
  \<open>policy.ts\<close> and the coordinator of \<open>coordinator.ts\<close>.

  A call of \<open>run\<close> is cut at its awaits. The state of the coordinator holds one \<open>operation\<close> per
  call under way, with what it waits for: the initial execution, the delay, or the retry. Each way
  an await may settle is a function of its own, and \<open>retry_step\<close> is the relation of all of them,
  so that several calls and \<open>abortRetry\<close> interleave freely.
  The settings are read anew at every decision and are an argument. The functions the coordinator
  is given may throw: \<open>readSettings\<close> and \<open>readFailure\<close> answer with a sum, and the listener
  behind \<open>emit\<close> and the observation publisher with a \<open>reply\<close>, which also says whether they call
  \<open>abortRetry\<close> while they are told. An error of theirs leaves the \<open>try\<close> block, and the
  \<open>finally\<close> block runs.
\<close>

section \<open>Failures and settings\<close>

record turn_failure =
  turnFailureCode :: string
  turnFailureMessage :: string
  turnFailureRetryable :: bool
  turnFailureOrigin :: string
  turnRetryAfterMs :: "jsnum option"

text \<open>A thrown value: a provider error carries its own failure.\<close>

datatype thrown_value = AIError string turn_failure | OtherError string

record retry_settings =
  retryEnabled :: bool
  maxRetries :: jsnum
  baseDelayMs :: jsnum
  maxDelayMs :: "jsnum option"

datatype stop_reason =
  Disabled | NotRetryable | AttemptsExhausted | RetryAfterExceedsMaxDelay | InvalidSettings

datatype decision =
    DoRetry (nextAttempt: nat) (maxAttempts: jsnum) (delayMs: jsnum)
  | StopRetry stop_reason

section \<open>The policies\<close>

definition isValidSettings :: "retry_settings \<Rightarrow> bool" where
  "isValidSettings s =
     (isInteger (maxRetries s) \<and> num_ge (maxRetries s) 0 \<and>
      isFinite (baseDelayMs s) \<and> num_ge (baseDelayMs s) 0 \<and>
      (case maxDelayMs s of None \<Rightarrow> True | Some m \<Rightarrow> isFinite m \<and> num_ge m 0))"

text \<open>
  Double arithmetic of the delay. A product of a double with a power of two is exact until it
  overflows; \<open>2 ** n\<close> is infinite from 1024 on, and zero times infinity is not a number.
  \<open>Math.max\<close> and \<open>Math.min\<close> are not a number when an argument is not.
\<close>

fun timesPowerOfTwo :: "jsnum \<Rightarrow> nat \<Rightarrow> jsnum" where
  "timesPowerOfTwo (Finite r) n =
     (if 1024 \<le> n then (if r = 0 then NaN else if 0 < r then PosInfinity else NegInfinity)
      else if 2 ^ 1024 \<le> r * 2 ^ n then PosInfinity
      else if r * 2 ^ n \<le> - (2 ^ 1024) then NegInfinity
      else Finite (r * 2 ^ n))"
| "timesPowerOfTwo x n = x"

fun jsMax :: "jsnum \<Rightarrow> jsnum \<Rightarrow> jsnum" where
  "jsMax (Finite a) (Finite b) = Finite (max a b)"
| "jsMax NaN y = NaN"
| "jsMax x NaN = NaN"
| "jsMax PosInfinity y = PosInfinity"
| "jsMax x PosInfinity = PosInfinity"
| "jsMax NegInfinity y = y"
| "jsMax x NegInfinity = x"

fun jsMin :: "jsnum \<Rightarrow> jsnum \<Rightarrow> jsnum" where
  "jsMin (Finite a) (Finite b) = Finite (min a b)"
| "jsMin NaN y = NaN"
| "jsMin x NaN = NaN"
| "jsMin NegInfinity y = NegInfinity"
| "jsMin x NegInfinity = NegInfinity"
| "jsMin PosInfinity y = y"
| "jsMin x PosInfinity = x"

fun num_gt :: "jsnum \<Rightarrow> jsnum \<Rightarrow> bool" where
  "num_gt (Finite a) (Finite b) = (b < a)"
| "num_gt PosInfinity (Finite b) = True"
| "num_gt PosInfinity NegInfinity = True"
| "num_gt (Finite a) NegInfinity = True"
| "num_gt _ _ = False"

definition retryDelay :: "retry_settings \<Rightarrow> turn_failure \<Rightarrow> nat \<Rightarrow> jsnum" where
  "retryDelay s f attempt =
     jsMin (jsMax (timesPowerOfTwo (baseDelayMs s) (attempt - 1))
              (case turnRetryAfterMs f of Some r \<Rightarrow> r | None \<Rightarrow> Finite 0))
       (case maxDelayMs s of Some m \<Rightarrow> m | None \<Rightarrow> PosInfinity)"

definition decideWith :: "retry_settings \<Rightarrow> turn_failure \<Rightarrow> nat \<Rightarrow> decision" where
  "decideWith s f completed =
     (if \<not> isValidSettings s then StopRetry InvalidSettings
      else if \<not> retryEnabled s then StopRetry Disabled
      else if num_le (maxRetries s) (of_nat completed) then StopRetry AttemptsExhausted
      else if (case turnRetryAfterMs f of Some r \<Rightarrow> \<not> isFinite r \<or> num_gt (Finite 0) r | None \<Rightarrow> False)
        then StopRetry InvalidSettings
      else if (case turnRetryAfterMs f of
                 Some r \<Rightarrow> num_gt r (case maxDelayMs s of Some m \<Rightarrow> m | None \<Rightarrow> PosInfinity)
               | None \<Rightarrow> False)
        then StopRetry RetryAfterExceedsMaxDelay
      else DoRetry (completed + 1) (maxRetries s) (retryDelay s f (completed + 1)))"

text \<open>What \<open>readSettings\<close> returns or throws matters only for a retryable failure.\<close>

definition decideConfigurable ::
    "thrown_value + retry_settings \<Rightarrow> turn_failure \<Rightarrow> nat \<Rightarrow> thrown_value + decision" where
  "decideConfigurable rs f completed =
     (if \<not> turnFailureRetryable f then Inr (StopRetry NotRetryable)
      else (case rs of Inl e \<Rightarrow> Inl e | Inr s \<Rightarrow> Inr (decideWith s f completed)))"

definition decideNever ::
    "thrown_value + retry_settings \<Rightarrow> turn_failure \<Rightarrow> nat \<Rightarrow> thrown_value + decision" where
  "decideNever rs f completed = Inr (StopRetry Disabled)"

section \<open>Errors and events\<close>

fun retryErrorMessage :: "thrown_value \<Rightarrow> string" where
  "retryErrorMessage (AIError m f) = m"
| "retryErrorMessage (OtherError m) = m"

fun runtimeFailureFromError :: "thrown_value \<Rightarrow> string option \<Rightarrow> turn_failure" where
  "runtimeFailureFromError (AIError m f) code = f"
| "runtimeFailureFromError (OtherError m) code =
     \<lparr>turnFailureCode = (case code of Some c \<Rightarrow> c | None \<Rightarrow> ''INTERNAL_ERROR''), turnFailureMessage = m,
      turnFailureRetryable = False, turnFailureOrigin = ''runtime'', turnRetryAfterMs = None\<rparr>"

datatype retry_event =
    AutoRetryStart (eventAttempt: nat) jsnum jsnum string "turn_failure option"
  | AutoRetryEnd (endSuccess: bool) (eventAttempt: nat) "string option" "turn_failure option"

datatype issue_reason = StoppedFor stop_reason | ConcurrentOwner | RetryExecutionFailed

datatype observation =
    Scheduled nat jsnum jsnum string string
  | CompletedRetry nat
  | CancelledRetry nat
  | Issue issue_reason nat "(string \<times> string) option"

section \<open>The state of the coordinator\<close>

datatype 'r phase =
    ExecutingInitial
  | Delaying nat 'r
  | ExecutingRetry nat 'r

record 'r operation =
  operationId :: nat
  readFailure :: "'r \<Rightarrow> thrown_value + turn_failure option"
  phaseOf :: "'r phase"
  completedRetries :: nat
  isAborted :: bool

datatype 'r run_answer = Returned 'r | Threw thrown_value

text \<open>
  What the outside sees, oldest first, with the operation it comes from (the events themselves do
  not name it): an event told to the listener, an error thrown by one of the functions the
  coordinator was given, the answer of a call.
\<close>

datatype 'r happening = Told retry_event | Escaped thrown_value | Settled "'r run_answer"

record 'r coordinator =
  activeOperations :: "'r operation list"
  retryOwner :: "nat option"
  attempt :: nat
  history :: "(nat \<times> 'r happening) list"
  observed :: "observation list"

definition newCoordinator :: "'r coordinator" where
  "newCoordinator = \<lparr>activeOperations = [], retryOwner = None, attempt = 0, history = [], observed = []\<rparr>"

fun toldIn :: "(nat \<times> 'r happening) list \<Rightarrow> (nat \<times> retry_event) list" where
  "toldIn [] = []"
| "toldIn ((i, Told ev) # hs) = (i, ev) # toldIn hs"
| "toldIn (x # hs) = toldIn hs"

fun settledIn :: "(nat \<times> 'r happening) list \<Rightarrow> (nat \<times> 'r run_answer) list" where
  "settledIn [] = []"
| "settledIn ((i, Settled a) # hs) = (i, a) # settledIn hs"
| "settledIn (x # hs) = settledIn hs"

definition emitted :: "'r coordinator \<Rightarrow> (nat \<times> retry_event) list" where
  "emitted c = toldIn (history c)"

definition answered :: "'r coordinator \<Rightarrow> (nat \<times> 'r run_answer) list" where
  "answered c = settledIn (history c)"

definition retryAttempt :: "'r coordinator \<Rightarrow> nat" where
  "retryAttempt c = attempt c"

definition isRetrying :: "'r coordinator \<Rightarrow> bool" where
  "isRetrying c = (0 < attempt c)"

definition abortRetry :: "'r coordinator \<Rightarrow> 'r coordinator" where
  "abortRetry c = c\<lparr>activeOperations := map (\<lambda>p. p\<lparr>isAborted := True\<rparr>) (activeOperations c)\<rparr>"

definition operationOf :: "nat \<Rightarrow> 'r coordinator \<Rightarrow> 'r operation option" where
  "operationOf i c = find (\<lambda>p. operationId p = i) (activeOperations c)"

definition aborted :: "nat \<Rightarrow> 'r coordinator \<Rightarrow> bool" where
  "aborted i c = (case operationOf i c of Some p \<Rightarrow> isAborted p | None \<Rightarrow> False)"

definition setPhase :: "nat \<Rightarrow> 'r phase \<Rightarrow> nat \<Rightarrow> 'r coordinator \<Rightarrow> 'r coordinator" where
  "setPhase i ph n c = c\<lparr>activeOperations :=
     map (\<lambda>p. if operationId p = i then p\<lparr>phaseOf := ph, completedRetries := n\<rparr> else p) (activeOperations c)\<rparr>"

section \<open>Functions that may throw\<close>

text \<open>
  The listener and the observation publisher: whether they abort the retries while they are told,
  and what they throw.
\<close>

record reply =
  replyAborts :: bool
  replyThrows :: "thrown_value option"

record surroundings =
  onEvent :: "retry_event \<Rightarrow> reply"
  onRecord :: "observation \<Rightarrow> reply"

text \<open>A part of the body of \<open>run\<close>: the error that left it, if any, and the state.\<close>

type_synonym 'r ran = "thrown_value option \<times> 'r coordinator"

definition escape :: "nat \<Rightarrow> thrown_value \<Rightarrow> 'r coordinator \<Rightarrow> 'r ran" where
  "escape i e c = (Some e, c\<lparr>history := history c @ [(i, Escaped e)]\<rparr>)"

definition callBack :: "nat \<Rightarrow> reply \<Rightarrow> 'r coordinator \<Rightarrow> 'r ran" where
  "callBack i a c =
     (let c' = (if replyAborts a then abortRetry c else c)
      in case replyThrows a of None \<Rightarrow> (None, c') | Some e \<Rightarrow> escape i e c')"

definition thenRun :: "'r ran \<Rightarrow> ('r coordinator \<Rightarrow> 'r ran) \<Rightarrow> 'r ran" where
  "thenRun m k = (case m of (Some e, c) \<Rightarrow> (Some e, c) | (None, c) \<Rightarrow> k c)"

definition observe :: "surroundings \<Rightarrow> nat \<Rightarrow> observation \<Rightarrow> 'r coordinator \<Rightarrow> 'r ran" where
  "observe h i ob c = callBack i (onRecord h ob) (c\<lparr>observed := observed c @ [ob]\<rparr>)"

definition emitEvent :: "surroundings \<Rightarrow> nat \<Rightarrow> retry_event \<Rightarrow> 'r coordinator \<Rightarrow> 'r ran" where
  "emitEvent h i ev c = callBack i (onEvent h ev) (c\<lparr>history := history c @ [(i, Told ev)]\<rparr>)"

section \<open>Ending an operation\<close>

text \<open>The \<open>finally\<close> block, and the promise of the call.\<close>

definition release :: "nat \<Rightarrow> 'r run_answer \<Rightarrow> 'r coordinator \<Rightarrow> 'r coordinator" where
  "release i a c =
     (let c1 = c\<lparr>activeOperations := filter (\<lambda>p. operationId p \<noteq> i) (activeOperations c)\<rparr>;
          c2 = (if retryOwner c1 = Some i then c1\<lparr>retryOwner := None, attempt := 0\<rparr> else c1)
      in c2\<lparr>history := history c2 @ [(i, Settled a)]\<rparr>)"

text \<open>An error that left the body rejects the call; otherwise the body goes on.\<close>

definition orReject :: "nat \<Rightarrow> 'r ran \<Rightarrow> ('r coordinator \<Rightarrow> 'r coordinator) \<Rightarrow> 'r coordinator" where
  "orReject i m k = (case m of (Some e, c) \<Rightarrow> release i (Threw e) c | (None, c) \<Rightarrow> k c)"

definition emitRetryEnd ::
    "surroundings \<Rightarrow> nat \<Rightarrow> bool \<Rightarrow> thrown_value \<Rightarrow> nat \<Rightarrow> string option \<Rightarrow> 'r coordinator \<Rightarrow> 'r ran" where
  "emitRetryEnd h i ok e n code c =
     emitEvent h i (AutoRetryEnd ok n (Some (retryErrorMessage e)) (Some (runtimeFailureFromError e code))) c"

definition recordIssue ::
    "surroundings \<Rightarrow> nat \<Rightarrow> issue_reason \<Rightarrow> nat \<Rightarrow> turn_failure option \<Rightarrow> 'r coordinator \<Rightarrow> 'r ran" where
  "recordIssue h i reason n f c =
     observe h i (Issue reason n (map_option (\<lambda>f. (turnFailureCode f, turnFailureOrigin f)) f)) c"

definition finishCancelled :: "surroundings \<Rightarrow> nat \<Rightarrow> 'r \<Rightarrow> nat \<Rightarrow> 'r coordinator \<Rightarrow> 'r coordinator" where
  "finishCancelled h i r n c =
     orReject i
       (if 0 < n
        then thenRun (emitRetryEnd h i False (OtherError ''Retry cancelled'') n (Some ''RETRY_CANCELLED'') c)
               (observe h i (CancelledRetry n))
        else (None, c))
       (release i (Returned r))"

text \<open>What follows the loop.\<close>

definition afterLoop ::
    "surroundings \<Rightarrow> nat \<Rightarrow> 'r \<Rightarrow> turn_failure option \<Rightarrow> nat \<Rightarrow> 'r coordinator \<Rightarrow> 'r coordinator" where
  "afterLoop h i r f n c =
     (if aborted i c then finishCancelled h i r n c
      else orReject i
        (if 0 < n
         then thenRun (emitEvent h i (AutoRetryEnd (f = None) n (map_option turnFailureMessage f) f) c)
                (if f = None then observe h i (CompletedRetry n) else Pair None)
         else (None, c))
        (release i (Returned r)))"

section \<open>The loop\<close>

text \<open>The part of the loop after a decision to retry, up to the delay.\<close>

definition scheduleRetry ::
    "surroundings \<Rightarrow> nat \<Rightarrow> 'r \<Rightarrow> turn_failure \<Rightarrow> nat \<Rightarrow> nat \<times> jsnum \<times> jsnum \<Rightarrow> 'r coordinator \<Rightarrow> 'r coordinator" where
  "scheduleRetry h i r f n d c =
     (case d of (k, most, ms) \<Rightarrow>
       orReject i
         (thenRun (emitEvent h i (AutoRetryStart k most ms (turnFailureMessage f) (Some f))
                     (c\<lparr>retryOwner := Some i, attempt := k\<rparr>))
            (observe h i (Scheduled k most ms (turnFailureCode f) (turnFailureOrigin f))))
         (\<lambda>c2. if aborted i c2 then finishCancelled h i r k c2 else setPhase i (Delaying k r) n c2))"

text \<open>
  One pass through the head of the loop with the result \<open>r\<close> after \<open>n\<close> retries: the loop
  ends, or the operation waits for its next delay. \<open>judged\<close> is what \<open>readFailure\<close> made of the
  result, \<open>decide\<close> the policy with the settings it reads now; both may throw.
\<close>

definition loopHead ::
    "(turn_failure \<Rightarrow> nat \<Rightarrow> thrown_value + decision) \<Rightarrow> surroundings \<Rightarrow> nat \<Rightarrow> 'r \<Rightarrow>
     thrown_value + turn_failure option \<Rightarrow> nat \<Rightarrow> 'r coordinator \<Rightarrow> 'r coordinator" where
  "loopHead decide h i r judged n c =
     (case judged of
        Inl e \<Rightarrow> orReject i (escape i e c) id
      | Inr None \<Rightarrow> afterLoop h i r None n c
      | Inr (Some f) \<Rightarrow>
          (if aborted i c then afterLoop h i r (Some f) n c
           else (case decide f n of
                   Inl e \<Rightarrow> orReject i (escape i e c) id
                 | Inr (StopRetry reason) \<Rightarrow>
                     orReject i
                       (if turnFailureRetryable f \<and> reason \<noteq> Disabled
                        then recordIssue h i (StoppedFor reason) n (Some f) c else (None, c))
                       (afterLoop h i r (Some f) n)
                 | Inr (DoRetry k most ms) \<Rightarrow>
                     (if retryOwner c \<noteq> None \<and> retryOwner c \<noteq> Some i
                      then orReject i (recordIssue h i ConcurrentOwner n (Some f) c) (afterLoop h i r (Some f) n)
                      else scheduleRetry h i r f n (k, most, ms) c))))"

section \<open>The ways an await settles\<close>

text \<open>
  \<open>run\<close> starts the initial execution at once. The functions below apply to an operation
  in the phase their name says and leave the coordinator alone otherwise.
\<close>

definition startRetryRun :: "nat \<Rightarrow> ('r \<Rightarrow> thrown_value + turn_failure option) \<Rightarrow> 'r coordinator \<Rightarrow> 'r coordinator" where
  "startRetryRun i rf c = c\<lparr>activeOperations := activeOperations c @
     [\<lparr>operationId = i, readFailure = rf, phaseOf = ExecutingInitial, completedRetries = 0, isAborted = False\<rparr>]\<rparr>"

definition initialReturned ::
    "(turn_failure \<Rightarrow> nat \<Rightarrow> thrown_value + decision) \<Rightarrow> surroundings \<Rightarrow> nat \<Rightarrow> 'r \<Rightarrow> 'r coordinator \<Rightarrow> 'r coordinator" where
  "initialReturned decide h i r c =
     (case operationOf i c of
        Some p \<Rightarrow> (case phaseOf p of ExecutingInitial \<Rightarrow> loopHead decide h i r (readFailure p r) 0 c | _ \<Rightarrow> c)
      | None \<Rightarrow> c)"

definition initialThrew :: "nat \<Rightarrow> thrown_value \<Rightarrow> 'r coordinator \<Rightarrow> 'r coordinator" where
  "initialThrew i e c =
     (case operationOf i c of
        Some p \<Rightarrow> (case phaseOf p of ExecutingInitial \<Rightarrow> release i (Threw e) c | _ \<Rightarrow> c)
      | None \<Rightarrow> c)"

text \<open>The \<open>catch\<close> block around the delay and the retry.\<close>

definition retryThrew ::
    "surroundings \<Rightarrow> nat \<Rightarrow> 'r \<Rightarrow> nat \<Rightarrow> thrown_value \<Rightarrow> 'r coordinator \<Rightarrow> 'r coordinator" where
  "retryThrew h i r k e c =
     (if aborted i c then finishCancelled h i r k c
      else orReject i (thenRun (recordIssue h i RetryExecutionFailed k None c) (emitRetryEnd h i False e k None))
             (release i (Threw e)))"

definition delayEnded :: "surroundings \<Rightarrow> nat \<Rightarrow> 'r coordinator \<Rightarrow> 'r coordinator" where
  "delayEnded h i c =
     (case operationOf i c of
        Some p \<Rightarrow>
          (case phaseOf p of
             Delaying k r \<Rightarrow>
               (if isAborted p then finishCancelled h i r k c
                else setPhase i (ExecutingRetry k r) (completedRetries p) c)
           | _ \<Rightarrow> c)
      | None \<Rightarrow> c)"

definition delayThrew :: "surroundings \<Rightarrow> nat \<Rightarrow> thrown_value \<Rightarrow> 'r coordinator \<Rightarrow> 'r coordinator" where
  "delayThrew h i e c =
     (case operationOf i c of
        Some p \<Rightarrow> (case phaseOf p of Delaying k r \<Rightarrow> retryThrew h i r k e c | _ \<Rightarrow> c)
      | None \<Rightarrow> c)"

definition retryReturned ::
    "(turn_failure \<Rightarrow> nat \<Rightarrow> thrown_value + decision) \<Rightarrow> surroundings \<Rightarrow> nat \<Rightarrow> 'r \<Rightarrow> 'r coordinator \<Rightarrow> 'r coordinator" where
  "retryReturned decide h i r c =
     (case operationOf i c of
        Some p \<Rightarrow> (case phaseOf p of ExecutingRetry k old \<Rightarrow> loopHead decide h i r (readFailure p r) k c | _ \<Rightarrow> c)
      | None \<Rightarrow> c)"

definition retryFailed :: "surroundings \<Rightarrow> nat \<Rightarrow> thrown_value \<Rightarrow> 'r coordinator \<Rightarrow> 'r coordinator" where
  "retryFailed h i e c =
     (case operationOf i c of
        Some p \<Rightarrow> (case phaseOf p of ExecutingRetry k r \<Rightarrow> retryThrew h i r k e c | _ \<Rightarrow> c)
      | None \<Rightarrow> c)"

inductive retry_step :: "(thrown_value + retry_settings \<Rightarrow> turn_failure \<Rightarrow> nat \<Rightarrow> thrown_value + decision) \<Rightarrow> 'r coordinator \<Rightarrow> 'r coordinator \<Rightarrow> bool"
  for decide where
  step_start: "i \<notin> operationId ` set (activeOperations c) \<Longrightarrow> i \<notin> fst ` set (answered c) \<Longrightarrow>
     retry_step decide c (startRetryRun i rf c)"
| step_initial_returned: "retry_step decide c (initialReturned (decide rs) h i r c)"
| step_initial_threw: "retry_step decide c (initialThrew i e c)"
| step_delay_ended: "retry_step decide c (delayEnded h i c)"
| step_delay_threw: "retry_step decide c (delayThrew h i e c)"
| step_retry_returned: "retry_step decide c (retryReturned (decide rs) h i r c)"
| step_retry_failed: "retry_step decide c (retryFailed h i e c)"
| step_abort: "retry_step decide c (abortRetry c)"

end
