(* ===== verification/TurnRetryProperties.thy ===== *)
theory TurnRetryProperties
  imports TurnRetry
begin

text \<open>
  The retry coordinator under every interleaving: what its state says about the events it has
  emitted, who may retry, the delays and the number of retries of the configurable policy, and the
  answer of a call. A policy is any function that numbers its retries consecutively, the locale
  \<open>retry_policy\<close>; both policies of the code are interpretations.
\<close>

section \<open>The trace of a coordinator\<close>

text \<open>
  The specification of the event stream: at any time at most one operation is between its first
  \<open>auto_retry_start\<close> and its \<open>auto_retry_end\<close>; its starts are numbered from one without
  a gap, and the end carries the number of the last start.
\<close>

fun bracketStep :: "nat option \<times> nat \<Rightarrow> nat \<times> retry_event \<Rightarrow> (nat option \<times> nat) option" where
  "bracketStep (ow, n) (i, AutoRetryStart k most ms m f) =
     (if (ow = None \<or> ow = Some i) \<and> k = Suc n then Some (Some i, k) else None)"
| "bracketStep (ow, n) (i, AutoRetryEnd ok k m f) = (if ow = Some i \<and> k = n then Some (None, 0) else None)"

fun bracketFrom :: "nat option \<times> nat \<Rightarrow> (nat \<times> retry_event) list \<Rightarrow> (nat option \<times> nat) option" where
  "bracketFrom t [] = Some t"
| "bracketFrom t (ev # evs) = (case bracketStep t ev of Some t' \<Rightarrow> bracketFrom t' evs | None \<Rightarrow> None)"

text \<open>
  The specification of everything the outside sees. The events are bracketed as above; a call is
  answered outside its bracket, unless an error of a function the coordinator was given has just
  left the call: then the very next thing is that the same call rejects with that error, and
  its bracket, if it was in one, is given up.
\<close>

type_synonym trace_state = "(nat option \<times> nat) \<times> (nat \<times> thrown_value) option"

fun traceStep :: "trace_state \<Rightarrow> nat \<times> 'r happening \<Rightarrow> trace_state option" where
  "traceStep (t, None) (i, Told ev) = (case bracketStep t (i, ev) of Some t' \<Rightarrow> Some (t', None) | None \<Rightarrow> None)"
| "traceStep (t, None) (i, Escaped e) = Some (t, Some (i, e))"
| "traceStep (t, None) (i, Settled a) = (if fst t = Some i then None else Some (t, None))"
| "traceStep (t, Some (j, e)) (i, Settled (Threw e')) =
     (if i = j \<and> e' = e then Some (if fst t = Some i then (None, 0) else t, None) else None)"
| "traceStep (t, Some x) y = None"

fun traceFrom :: "trace_state \<Rightarrow> (nat \<times> 'r happening) list \<Rightarrow> trace_state option" where
  "traceFrom t [] = Some t"
| "traceFrom t (x # xs) = (case traceStep t x of Some t' \<Rightarrow> traceFrom t' xs | None \<Rightarrow> None)"

lemma traceFrom_snoc:
  "traceFrom t (xs @ [x]) = (case traceFrom t xs of Some t' \<Rightarrow> traceStep t' x | None \<Rightarrow> None)"
  by (induction xs arbitrary: t) (auto split: option.split)

definition traced :: "trace_state \<Rightarrow> 'r coordinator \<Rightarrow> bool" where
  "traced t c = (traceFrom ((None, 0), None) (history c) = Some t)"

lemma toldIn_append [simp]: "toldIn (xs @ ys) = toldIn xs @ toldIn ys"
  by (induction xs rule: toldIn.induct) auto

lemma settledIn_append [simp]: "settledIn (xs @ ys) = settledIn xs @ settledIn ys"
  by (induction xs rule: settledIn.induct) auto

text \<open>Where no error escapes, the events alone are bracketed.\<close>

lemma quiet_bracketed:
  "traceFrom (t, None) hs = Some (t', x) \<Longrightarrow> \<forall>i e. (i, Escaped e) \<notin> set hs \<Longrightarrow>
     bracketFrom t (toldIn hs) = Some t'"
proof (induction hs arbitrary: t)
  case Nil
  then show ?case by simp
next
  case (Cons y hs)
  obtain i z where y: "y = (i, z)" by (cases y)
  show ?case
  proof (cases z)
    case (Told ev)
    with Cons y show ?thesis by (auto split: option.splits)
  next
    case (Escaped e)
    with y have "(i, Escaped e) \<in> set (y # hs)" by simp
    with Cons.prems(2) show ?thesis by blast
  next
    case (Settled a)
    with Cons y show ?thesis by (auto split: if_splits)
  qed
qed

section \<open>The invariant\<close>

definition activeIds :: "'r coordinator \<Rightarrow> nat list" where
  "activeIds c = map operationId (activeOperations c)"

definition answeredIds :: "'r coordinator \<Rightarrow> nat list" where
  "answeredIds c = map fst (answered c)"

lemma active_mem [simp]: "p \<in> set (activeOperations c) \<Longrightarrow> operationId p \<in> set (activeIds c)"
  by (simp add: activeIds_def)

definition phaseOk :: "'r coordinator \<Rightarrow> 'r operation \<Rightarrow> bool" where
  "phaseOk c p =
     (case phaseOf p of
        ExecutingInitial \<Rightarrow> retryOwner c \<noteq> Some (operationId p)
      | Delaying k r \<Rightarrow> retryOwner c = Some (operationId p) \<and> attempt c = k \<and> k = Suc (completedRetries p)
      | ExecutingRetry k r \<Rightarrow> retryOwner c = Some (operationId p) \<and> attempt c = k)"

definition ownerOk :: "'r coordinator \<Rightarrow> bool" where
  "ownerOk c =
     (case retryOwner c of
        None \<Rightarrow> attempt c = 0
      | Some i \<Rightarrow> 0 < attempt c \<and> i \<in> set (activeIds c))"

text \<open>The operations in \<open>X\<close> are in the middle of a step.\<close>

definition opsInv :: "nat set \<Rightarrow> 'r coordinator \<Rightarrow> bool" where
  "opsInv X c =
     (distinct (activeIds c) \<and> distinct (answeredIds c) \<and> set (activeIds c) \<inter> set (answeredIds c) = {} \<and>
      (\<forall>p \<in> set (activeOperations c). operationId p \<in> X \<or> phaseOk c p) \<and> ownerOk c)"

definition retryInv :: "'r coordinator \<Rightarrow> bool" where
  "retryInv c = (opsInv {} c \<and> traced ((retryOwner c, attempt c), None) c)"

lemma opsInv_mono: "opsInv X c \<Longrightarrow> X \<subseteq> Y \<Longrightarrow> opsInv Y c"
  by (auto simp: opsInv_def)

lemma abortRetry_fields [simp]:
  "retryOwner (abortRetry c) = retryOwner c" "attempt (abortRetry c) = attempt c"
  "history (abortRetry c) = history c" "answered (abortRetry c) = answered c" "emitted (abortRetry c) = emitted c"
  by (simp_all add: abortRetry_def answered_def emitted_def)

lemma abortRetry_ids [simp]: "activeIds (abortRetry c) = activeIds c" "answeredIds (abortRetry c) = answeredIds c"
  by (simp_all add: abortRetry_def activeIds_def answeredIds_def answered_def comp_def)

lemma update_ids [simp]:
  "activeIds (c\<lparr>history := hs\<rparr>) = activeIds c" "activeIds (c\<lparr>observed := obs\<rparr>) = activeIds c"
  "answered (c\<lparr>observed := obs\<rparr>) = answered c"
  "answered (c\<lparr>history := history c @ [(i, Told ev)]\<rparr>) = answered c"
  "answered (c\<lparr>history := history c @ [(i, Escaped e)]\<rparr>) = answered c"
  "answered (c\<lparr>retryOwner := ow, attempt := n\<rparr>) = answered c"
  "activeIds (c\<lparr>retryOwner := ow, attempt := n\<rparr>) = activeIds c"
  by (simp_all add: activeIds_def answered_def)

lemma opsInv_same:
  assumes "opsInv X c" "activeOperations d = activeOperations c" "retryOwner d = retryOwner c"
    "attempt d = attempt c" "answered d = answered c"
  shows "opsInv X d"
proof -
  have "activeIds d = activeIds c" "answeredIds d = answeredIds c" "phaseOk d = phaseOk c"
    using assms by (simp_all add: activeIds_def answeredIds_def fun_eq_iff phaseOk_def cong: phase.case_cong)
  then show ?thesis using assms by (auto simp: opsInv_def ownerOk_def split: option.splits)
qed

lemma opsInv_abort: "opsInv X c \<Longrightarrow> opsInv X (abortRetry c)"
proof -
  have "phaseOk (abortRetry c) (p\<lparr>isAborted := True\<rparr>) = phaseOk c p" for p
    by (simp add: phaseOk_def cong: phase.case_cong)
  then show "opsInv X c \<Longrightarrow> opsInv X (abortRetry c)"
    unfolding opsInv_def ownerOk_def abortRetry_ids abortRetry_fields by (simp add: abortRetry_def)
qed

lemma opsInv_updates:
  "opsInv X c \<Longrightarrow> opsInv X (c\<lparr>history := history c @ [(i, Told ev)]\<rparr>)"
  "opsInv X c \<Longrightarrow> opsInv X (c\<lparr>history := history c @ [(i, Escaped e)]\<rparr>)"
  "opsInv X c \<Longrightarrow> opsInv X (c\<lparr>observed := obs\<rparr>)"
  by (auto intro: opsInv_same)

section \<open>Ending an operation\<close>

lemma release_fields:
  "activeOperations (release i a c) = filter (\<lambda>p. operationId p \<noteq> i) (activeOperations c)"
  "retryOwner (release i a c) = (if retryOwner c = Some i then None else retryOwner c)"
  "attempt (release i a c) = (if retryOwner c = Some i then 0 else attempt c)"
  "history (release i a c) = history c @ [(i, Settled a)]"
  "answered (release i a c) = answered c @ [(i, a)]"
  "emitted (release i a c) = emitted c"
  "activeIds (release i a c) = filter (\<lambda>j. j \<noteq> i) (activeIds c)"
  "answeredIds (release i a c) = answeredIds c @ [i]"
  by (auto simp: release_def Let_def activeIds_def answeredIds_def answered_def emitted_def filter_map comp_def)

lemma release_opsInv:
  assumes inv: "opsInv {i} c" and i: "i \<in> set (activeIds c)"
  shows "opsInv {} (release i a c)"
proof -
  have "phaseOk (release i a c) p" if p: "p \<in> set (activeOperations c)" "operationId p \<noteq> i" for p
  proof -
    have "phaseOk c p" using inv p by (auto simp: opsInv_def)
    then show ?thesis using p(2) by (auto simp: phaseOk_def release_fields split: phase.splits)
  qed
  moreover have "ownerOk (release i a c)"
    using inv by (auto simp: opsInv_def ownerOk_def release_fields split: option.splits)
  ultimately show ?thesis
    using inv i by (auto simp: opsInv_def release_fields)
qed

text \<open>
  The operation \<open>i\<close> is in the middle of a step, and the trace is at \<open>t\<close>: where the coordinator
  is, or behind the end of the bracket of \<open>i\<close>.
\<close>

definition midway :: "(nat \<times> thrown_value) option \<Rightarrow> nat option \<times> nat \<Rightarrow> nat \<Rightarrow> 'r coordinator \<Rightarrow> bool" where
  "midway x t i c =
     (opsInv {i} c \<and> i \<in> set (activeIds c) \<and> traced (t, x) c \<and>
      (t = (retryOwner c, attempt c) \<or> t = (None, 0) \<and> retryOwner c = Some i))"

text \<open>A part of the body leads to \<open>P\<close>, or an error has just left it.\<close>

definition leads :: "('r coordinator \<Rightarrow> bool) \<Rightarrow> nat \<Rightarrow> 'r ran \<Rightarrow> bool" where
  "leads P i m = (case m of (None, c) \<Rightarrow> P c | (Some e, c) \<Rightarrow> \<exists>t. midway (Some (i, e)) t i c)"

lemma leads_None [simp]: "leads P i (None, c) = P c"
  by (simp add: leads_def)

lemma leads_Some: "leads P i (Some e, c) = (\<exists>t. midway (Some (i, e)) t i c)"
  by (simp add: leads_def)

lemma leads_thenRun:
  assumes "leads P i m" "\<And>c. P c \<Longrightarrow> leads Q i (k c)"
  shows "leads Q i (thenRun m k)"
proof (cases m)
  case (Pair x c)
  then show ?thesis using assms by (cases x) (auto simp: thenRun_def leads_Some)
qed

lemma escape_leads: "midway None t i c \<Longrightarrow> leads P i (escape i e c)"
  by (auto simp: leads_def escape_def midway_def traced_def traceFrom_snoc opsInv_updates intro!: exI [of _ t])

lemma midway_abort: "midway x t i c \<Longrightarrow> midway x t i (abortRetry c)"
  by (simp add: midway_def opsInv_abort traced_def)

lemma callBack_leads:
  assumes "midway None t i c" "P c" "P (abortRetry c)"
  shows "leads P i (callBack i a c)"
  using assms escape_leads [OF assms(1)] escape_leads [OF midway_abort [OF assms(1)]]
  by (auto simp: callBack_def Let_def split: option.split)

lemma release_closed:
  assumes "midway None t i c" "fst t \<noteq> Some i"
  shows "retryInv (release i a c)"
proof -
  have "opsInv {} (release i a c)" using assms(1) by (intro release_opsInv) (auto simp: midway_def)
  moreover have "traced (t, None) (release i a c)"
    using assms by (cases t) (auto simp: midway_def traced_def release_fields traceFrom_snoc)
  ultimately show ?thesis using assms by (auto simp: retryInv_def midway_def release_fields)
qed

lemma release_thrown:
  assumes "midway (Some (i, e)) t i c"
  shows "retryInv (release i (Threw e) c)"
proof -
  have "opsInv {} (release i (Threw e) c)" using assms by (intro release_opsInv) (auto simp: midway_def)
  moreover have "traced (if fst t = Some i then (None, 0) else t, None) (release i (Threw e) c)"
    using assms by (auto simp: midway_def traced_def release_fields traceFrom_snoc)
  ultimately show ?thesis using assms by (auto simp: retryInv_def midway_def release_fields split: if_splits)
qed

lemma orReject_inv:
  "leads P i m \<Longrightarrow> (\<And>c. P c \<Longrightarrow> retryInv (k c)) \<Longrightarrow> retryInv (orReject i m k)"
  by (auto simp: leads_def orReject_def release_thrown split: prod.splits option.splits)

text \<open>The number of the last start of the operation, zero when it has none.\<close>

definition startsOf :: "nat \<Rightarrow> 'r coordinator \<Rightarrow> nat" where
  "startsOf i c = (if retryOwner c = Some i then attempt c else 0)"

definition ready :: "nat \<Rightarrow> nat \<Rightarrow> 'r coordinator \<Rightarrow> bool" where
  "ready i n c = (midway None (retryOwner c, attempt c) i c \<and> n = startsOf i c)"

lemma ready_starts: "ready i n c \<Longrightarrow> 0 < n \<Longrightarrow> retryOwner c = Some i \<and> attempt c = n"
  by (simp add: ready_def startsOf_def split: if_splits)

lemma ready_abort: "ready i n c \<Longrightarrow> ready i n (abortRetry c)"
  by (simp add: ready_def midway_abort startsOf_def)

lemma observed_same:
  "midway x t i (c\<lparr>observed := obs\<rparr>) = midway x t i c" "ready i n (c\<lparr>observed := obs\<rparr>) = ready i n c"
proof -
  have "opsInv {i} (c\<lparr>observed := obs\<rparr>) = opsInv {i} c"
    using opsInv_updates(3) [of "{i}" c obs] opsInv_updates(3) [of "{i}" "c\<lparr>observed := obs\<rparr>" "observed c"] by auto
  then show "midway x t i (c\<lparr>observed := obs\<rparr>) = midway x t i c" "ready i n (c\<lparr>observed := obs\<rparr>) = ready i n c"
    by (simp_all add: ready_def midway_def traced_def startsOf_def)
qed

lemma observe_leads: "midway None t i c \<Longrightarrow> leads (midway None t i) i (observe h i ob c)"
  unfolding observe_def by (intro callBack_leads) (simp_all add: observed_same midway_abort)

lemma observe_ready:
  assumes "ready i n c"
  shows "leads (ready i n) i (observe h i ob c)" "leads (ready i n) i (recordIssue h i q m f c)"
proof -
  show "leads (ready i n) i (observe h i ob c)" for ob
  proof -
    have "midway None (retryOwner c, attempt c) i c" using assms by (simp add: ready_def)
    with assms show ?thesis
      unfolding observe_def
      by (intro callBack_leads [of "(retryOwner c, attempt c)"]) (simp_all add: observed_same ready_abort)
  qed
  then show "leads (ready i n) i (recordIssue h i q m f c)" unfolding recordIssue_def .
qed

lemma end_leads:
  assumes "ready i n c" "0 < n"
  shows "leads (midway None (None, 0) i) i (emitEvent h i (AutoRetryEnd ok n m f) c)"
proof -
  have "midway None (None, 0) i (c\<lparr>history := history c @ [(i, Told (AutoRetryEnd ok n m f))]\<rparr>)"
    using assms(1) ready_starts [OF assms]
    by (simp add: ready_def midway_def opsInv_updates traced_def traceFrom_snoc)
  then show ?thesis unfolding emitEvent_def by (intro callBack_leads) (simp_all add: midway_abort)
qed

lemma release_quiet: "ready i 0 c \<Longrightarrow> retryInv (release i a c)"
  unfolding ready_def
  by (rule release_closed [of "(retryOwner c, attempt c)"])
    (auto simp: startsOf_def midway_def opsInv_def ownerOk_def split: option.splits)

lemma release_ended: "midway None (None, 0) i c \<Longrightarrow> retryInv (release i a c)"
  by (rule release_closed) auto

lemma finishCancelled_inv:
  assumes "ready i n c"
  shows "retryInv (finishCancelled h i r n c)"
proof (cases "n = 0")
  case True
  then show ?thesis using assms release_quiet by (simp add: finishCancelled_def orReject_def)
next
  case False
  then have "leads (midway None (None, 0) i) i
      (thenRun (emitRetryEnd h i False (OtherError ''Retry cancelled'') n (Some ''RETRY_CANCELLED'') c)
        (observe h i (CancelledRetry n)))"
    unfolding emitRetryEnd_def using assms by (intro leads_thenRun [OF end_leads] observe_leads) simp_all
  with False show ?thesis unfolding finishCancelled_def by (simp add: orReject_inv release_ended)
qed

lemma afterLoop_inv:
  assumes "ready i n c"
  shows "retryInv (afterLoop h i r f n c)"
proof (cases "n = 0")
  case True
  then show ?thesis
    using assms release_quiet [of i c] finishCancelled_inv [OF assms] by (auto simp: afterLoop_def orReject_def)
next
  case False
  then have "leads (midway None (None, 0) i) i
      (thenRun (emitEvent h i (AutoRetryEnd (f = None) n (map_option turnFailureMessage f) f) c)
        (if f = None then observe h i (CompletedRetry n) else Pair None))"
    using assms by (intro leads_thenRun [OF end_leads]) (simp_all add: observe_leads)
  with False show ?thesis
    unfolding afterLoop_def by (simp add: orReject_inv release_ended finishCancelled_inv [OF assms])
qed

lemma retryThrew_inv:
  assumes "ready i n c" "0 < n"
  shows "retryInv (retryThrew h i r n e c)"
proof -
  have "leads (midway None (None, 0) i) i
      (thenRun (recordIssue h i RetryExecutionFailed n None c) (emitRetryEnd h i False e n None))"
    unfolding emitRetryEnd_def using assms by (intro leads_thenRun [OF observe_ready(2)] end_leads)
  then show ?thesis
    using finishCancelled_inv [OF assms(1)] by (simp add: retryThrew_def orReject_inv release_ended)
qed

section \<open>Going on\<close>

lemma operationOf_Some: "operationOf i c = Some p \<Longrightarrow> p \<in> set (activeOperations c) \<and> operationId p = i"
  by (auto simp: operationOf_def dest: find_SomeD)

lemma setPhase_fields [simp]:
  "retryOwner (setPhase i ph n c) = retryOwner c" "attempt (setPhase i ph n c) = attempt c"
  "history (setPhase i ph n c) = history c" "answered (setPhase i ph n c) = answered c"
  "emitted (setPhase i ph n c) = emitted c"
  by (simp_all add: setPhase_def answered_def emitted_def)

lemma setPhase_set: "set (activeOperations (setPhase i ph n c)) =
    (\<lambda>p. if operationId p = i then p\<lparr>phaseOf := ph, completedRetries := n\<rparr> else p) ` set (activeOperations c)"
  by (simp add: setPhase_def)

lemma setPhase_inv:
  assumes inv: "opsInv {i} c" and own: "retryOwner c = Some i"
    and ph: "ph = Delaying (attempt c) r \<and> attempt c = Suc n \<or> ph = ExecutingRetry (attempt c) r"
  shows "opsInv {} (setPhase i ph n c)"
proof -
  let ?g = "\<lambda>p. if operationId p = i then p\<lparr>phaseOf := ph, completedRetries := n\<rparr> else p"
  have ids: "operationId (?g p) = operationId p" for p by simp
  have "phaseOk (setPhase i ph n c) (?g p)" if p: "p \<in> set (activeOperations c)" for p
  proof (cases "operationId p = i")
    case True
    then show ?thesis using own ph by (auto simp: phaseOk_def)
  next
    case False
    then have "phaseOk c p" using inv p by (auto simp: opsInv_def)
    with False show ?thesis by (simp add: phaseOk_def cong: phase.case_cong)
  qed
  then have "\<forall>p \<in> set (activeOperations (setPhase i ph n c)). phaseOk (setPhase i ph n c) p"
    unfolding setPhase_set by blast
  moreover have "activeIds (setPhase i ph n c) = activeIds c" "answeredIds (setPhase i ph n c) = answeredIds c"
    by (simp_all add: activeIds_def answeredIds_def answered_def setPhase_def comp_def if_distrib cong: if_cong)
  ultimately show ?thesis
    using inv own unfolding opsInv_def ownerOk_def setPhase_fields by simp
qed

lemma start_leads:
  assumes rdy: "ready i n c" and own: "retryOwner c = None \<or> retryOwner c = Some i"
  shows "leads (\<lambda>d. ready i (Suc n) d \<and> retryOwner d = Some i \<and> attempt d = Suc n) i
    (emitEvent h i (AutoRetryStart (Suc n) most ms m f) (c\<lparr>retryOwner := Some i, attempt := Suc n\<rparr>))"
proof -
  define c1 where "c1 = c\<lparr>retryOwner := Some i, attempt := Suc n\<rparr>"
  define c2 where "c2 = c1\<lparr>history := history c1 @ [(i, Told (AutoRetryStart (Suc n) most ms m f))]\<rparr>"
  have inv: "opsInv {i} c" and mem: "i \<in> set (activeIds c)"
    and tr: "traced ((retryOwner c, attempt c), None) c" and n: "n = startsOf i c"
    using rdy by (auto simp: ready_def midway_def)
  have att: "attempt c = n" using inv n own by (auto simp: startsOf_def opsInv_def ownerOk_def)
  have "phaseOk c1 p" if "p \<in> set (activeOperations c)" "operationId p \<noteq> i" for p
    using inv own that by (auto simp: opsInv_def phaseOk_def c1_def split: phase.splits)
  then have "opsInv {i} c1"
    using inv mem by (auto simp: opsInv_def ownerOk_def answeredIds_def c1_def)
  then have "opsInv {i} c2" unfolding c2_def by (rule opsInv_updates)
  moreover have "traced ((Some i, Suc n), None) c2"
    using tr own att by (auto simp: traced_def traceFrom_snoc c1_def c2_def)
  ultimately have "midway None (Some i, Suc n) i c2" using mem by (simp add: midway_def c1_def c2_def)
  moreover from this have "ready i (Suc n) c2 \<and> retryOwner c2 = Some i \<and> attempt c2 = Suc n"
    by (simp add: ready_def startsOf_def c1_def c2_def)
  ultimately show ?thesis
    unfolding emitEvent_def c1_def [symmetric] c2_def [symmetric]
    by (intro callBack_leads) (simp_all add: ready_abort)
qed

lemma scheduleRetry_inv:
  assumes "ready i n c" "retryOwner c = None \<or> retryOwner c = Some i"
  shows "retryInv (scheduleRetry h i r f n (Suc n, most, ms) c)"
proof -
  let ?P = "\<lambda>d. ready i (Suc n) d"
  have "leads ?P i (thenRun (emitEvent h i (AutoRetryStart (Suc n) most ms (turnFailureMessage f) (Some f))
      (c\<lparr>retryOwner := Some i, attempt := Suc n\<rparr>)) (observe h i (Scheduled (Suc n) most ms (turnFailureCode f) (turnFailureOrigin f))))"
    by (intro leads_thenRun [OF start_leads [OF assms]] observe_ready) simp
  moreover have "retryInv (if aborted i d then finishCancelled h i r (Suc n) d else setPhase i (Delaying (Suc n) r) n d)"
    if d: "ready i (Suc n) d" for d
  proof -
    have own: "retryOwner d = Some i" "attempt d = Suc n" using ready_starts [OF d] by simp_all
    have "retryInv (setPhase i (Delaying (Suc n) r) n d)"
      using setPhase_inv [of i d "Delaying (Suc n) r" r n] d own
      by (simp add: retryInv_def ready_def midway_def traced_def)
    then show ?thesis using finishCancelled_inv [OF d] by simp
  qed
  ultimately show ?thesis unfolding scheduleRetry_def prod.case by (rule orReject_inv)
qed

lemma ready_of_phase:
  assumes "retryInv c" "operationOf i c = Some p"
  shows "ready i (case phaseOf p of ExecutingInitial \<Rightarrow> 0 | Delaying k r \<Rightarrow> k | ExecutingRetry k r \<Rightarrow> k) c"
proof -
  have "p \<in> set (activeOperations c)" "operationId p = i" using operationOf_Some [OF assms(2)] by auto
  moreover from this have "phaseOk c p" using assms(1) by (auto simp: retryInv_def opsInv_def)
  moreover have "opsInv {i} c" using assms(1) by (auto simp: retryInv_def intro: opsInv_mono)
  ultimately show ?thesis
    using assms(1) by (auto simp: ready_def midway_def retryInv_def startsOf_def phaseOk_def split: phase.splits)
qed

lemma phase_positive:
  assumes "retryInv c" "operationOf i c = Some p" "phaseOf p = Delaying k r \<or> phaseOf p = ExecutingRetry k r"
  shows "retryOwner c = Some i" "attempt c = k" "0 < k" "phaseOf p = Delaying k r \<Longrightarrow> k = Suc (completedRetries p)"
proof -
  have "p \<in> set (activeOperations c)" "operationId p = i" using operationOf_Some [OF assms(2)] by auto
  moreover from this have "phaseOk c p" "ownerOk c" using assms(1) by (auto simp: retryInv_def opsInv_def)
  ultimately show "retryOwner c = Some i" "attempt c = k" "0 < k" "phaseOf p = Delaying k r \<Longrightarrow> k = Suc (completedRetries p)"
    using assms(3) by (auto simp: phaseOk_def ownerOk_def)
qed

section \<open>Policies that number their retries\<close>

locale retry_policy =
  fixes decide :: "thrown_value + retry_settings \<Rightarrow> turn_failure \<Rightarrow> nat \<Rightarrow> thrown_value + decision"
  assumes consecutive: "decide rs f n = Inr (DoRetry k most ms) \<Longrightarrow> k = Suc n"
begin

lemma loopHead_inv:
  assumes "ready i n c"
  shows "retryInv (loopHead (decide rs) h i r judged n c)"
proof -
  have escaped: "retryInv (orReject i (escape i e c) id)" for e
    using escape_leads [of "(retryOwner c, attempt c)" i c retryInv e] assms
    by (intro orReject_inv [of retryInv]) (auto simp: ready_def)
  have issue: "retryInv (orReject i (recordIssue h i q n g c) (afterLoop h i r f n))" for q g f
    using observe_ready(2) [OF assms] by (rule orReject_inv) (rule afterLoop_inv)
  have quiet: "retryInv (orReject i (None, c) (afterLoop h i r f n))" for f
    using assms by (simp add: orReject_def afterLoop_inv)
  show ?thesis
  proof (cases "\<exists>f k most ms. judged = Inr (Some f) \<and> decide rs f n = Inr (DoRetry k most ms)")
    case True
    then obtain f k most ms where eqs: "judged = Inr (Some f)" "decide rs f n = Inr (DoRetry k most ms)" by blast
    have "\<not> (retryOwner c \<noteq> None \<and> retryOwner c \<noteq> Some i) \<Longrightarrow>
        retryInv (scheduleRetry h i r f n (Suc n, most, ms) c)"
      using assms by (intro scheduleRetry_inv) auto
    then show ?thesis using assms consecutive [OF eqs(2)] eqs issue by (auto simp: loopHead_def afterLoop_inv)
  next
    case False
    then show ?thesis using assms escaped issue quiet
      by (auto simp: loopHead_def afterLoop_inv split: sum.split option.split decision.split)
  qed
qed

lemma retry_step_inv:
  assumes "retry_step decide c d" "retryInv c"
  shows "retryInv d"
  using assms
proof cases
  case (step_start i rf)
  have fresh: "i \<notin> set (activeIds c)" "i \<notin> set (answeredIds c)"
    using step_start by (simp_all add: activeIds_def answeredIds_def)
  have ids: "activeIds d = activeIds c @ [i]" "answeredIds d = answeredIds c"
    using step_start by (simp_all add: activeIds_def answeredIds_def answered_def startRetryRun_def)
  have "phaseOk d p" if "p \<in> set (activeOperations c)" for p
    using assms(2) that step_start
    by (auto simp: retryInv_def opsInv_def phaseOk_def startRetryRun_def cong: phase.case_cong)
  moreover have "retryOwner c \<noteq> Some i"
    using assms(2) fresh by (auto simp: retryInv_def opsInv_def ownerOk_def)
  then have "phaseOk d \<lparr>operationId = i, readFailure = rf, phaseOf = ExecutingInitial, completedRetries = 0, isAborted = False\<rparr>"
    using step_start by (simp add: phaseOk_def startRetryRun_def)
  moreover have "ownerOk d"
    using assms(2) step_start ids by (auto simp: retryInv_def opsInv_def ownerOk_def startRetryRun_def split: option.splits)
  ultimately show ?thesis
    using assms(2) step_start fresh ids by (auto simp: retryInv_def opsInv_def startRetryRun_def traced_def answeredIds_def answered_def)
next
  case (step_initial_returned rs h i r)
  then show ?thesis
    using assms(2) ready_of_phase [OF assms(2), of i]
    by (auto simp: initialReturned_def loopHead_inv split: option.split phase.split)
next
  case (step_initial_threw i e)
  then show ?thesis
    using assms(2) ready_of_phase [OF assms(2), of i]
    by (auto simp: initialThrew_def release_quiet split: option.split phase.split)
next
  case (step_delay_ended h i)
  show ?thesis
  proof (cases "operationOf i c")
    case (Some p)
    have "retryInv (setPhase i (ExecutingRetry k r) (completedRetries p) c)" if "phaseOf p = Delaying k r" for k r
      using setPhase_inv [of i c "ExecutingRetry k r" r] phase_positive [OF assms(2) Some] that
        ready_of_phase [OF assms(2) Some]
      by (auto simp: retryInv_def ready_def midway_def traced_def)
    with Some show ?thesis
      using assms(2) step_delay_ended ready_of_phase [OF assms(2) Some]
      by (auto simp: delayEnded_def finishCancelled_inv split: phase.split)
  qed (use assms(2) step_delay_ended in \<open>simp add: delayEnded_def\<close>)
next
  case (step_delay_threw h i e)
  then show ?thesis
    using assms(2) ready_of_phase [OF assms(2), of i] phase_positive [OF assms(2), of i]
    by (auto simp: delayThrew_def intro!: retryThrew_inv split: option.split phase.split)
next
  case (step_retry_returned rs h i r)
  then show ?thesis
    using assms(2) ready_of_phase [OF assms(2), of i]
    by (auto simp: retryReturned_def loopHead_inv split: option.split phase.split)
next
  case (step_retry_failed h i e)
  then show ?thesis
    using assms(2) ready_of_phase [OF assms(2), of i] phase_positive [OF assms(2), of i]
    by (auto simp: retryFailed_def intro!: retryThrew_inv split: option.split phase.split)
next
  case step_abort
  then show ?thesis using assms(2) by (auto simp: retryInv_def opsInv_abort traced_def)
qed

text \<open>Every announced retry is a decision of the policy.\<close>

definition decided :: "nat \<times> retry_event \<Rightarrow> bool" where
  "decided e =
     (case snd e of
        AutoRetryStart k most ms m f \<Rightarrow> (\<exists>rs g n. f = Some g \<and> m = turnFailureMessage g \<and> decide rs g n = Inr (DoRetry k most ms))
      | AutoRetryEnd ok k m f \<Rightarrow> True)"

definition justified :: "'r coordinator \<Rightarrow> bool" where
  "justified c = list_all decided (emitted c)"

lemma justified_basic [simp]:
  "justified (release i a c) = justified c" "justified (setPhase i ph n c) = justified c"
  "justified (abortRetry c) = justified c" "justified (c\<lparr>observed := obs\<rparr>) = justified c"
  "justified (c\<lparr>retryOwner := ow, attempt := k\<rparr>) = justified c"
  "decided (i, AutoRetryEnd ok k m f)"
  by (simp_all add: justified_def release_fields decided_def emitted_def [of "observed_update _ _"]
      emitted_def [of "attempt_update _ _"] emitted_def [of c])

lemma justified_calls [simp]:
  "justified (snd (escape i e c)) = justified c" "justified (snd (callBack i a c)) = justified c"
  "justified (snd (observe h i ob c)) = justified c" "justified (snd (recordIssue h i q n f c)) = justified c"
  "justified (snd (emitEvent h i ev c)) = (justified c \<and> decided (i, ev))"
  by (auto simp: escape_def callBack_def Let_def recordIssue_def observe_def emitEvent_def justified_def emitted_def
      list_all_append split: option.split)

lemma justified_thenRun: "justified (snd m) \<Longrightarrow> (\<And>c. justified c \<Longrightarrow> justified (snd (k c))) \<Longrightarrow> justified (snd (thenRun m k))"
  by (auto simp: thenRun_def split: prod.splits option.splits)

lemma justified_orReject: "justified (snd m) \<Longrightarrow> (\<And>c. justified c \<Longrightarrow> justified (k c)) \<Longrightarrow> justified (orReject i m k)"
  by (auto simp: orReject_def split: prod.splits option.splits)

lemmas justified_runs = justified_thenRun justified_orReject

lemma justified_ends:
  assumes "justified c"
  shows "justified (finishCancelled h i r n c)" "justified (afterLoop h i r f n c)" "justified (retryThrew h i r n e c)"
proof -
  show cancelled: "justified (finishCancelled h i r n c)" for r
    using assms by (auto simp: finishCancelled_def emitRetryEnd_def intro!: justified_runs)
  then show "justified (afterLoop h i r f n c)"
    using assms by (auto simp: afterLoop_def intro!: justified_runs)
  show "justified (retryThrew h i r n e c)"
    using assms cancelled by (auto simp: retryThrew_def emitRetryEnd_def intro!: justified_runs)
qed

lemma justified_loopHead:
  assumes "justified c"
  shows "justified (loopHead (decide rs) h i r judged n c)"
proof -
  have "justified (scheduleRetry h i r g n (k, most, ms) c)" if "decide rs g n = Inr (DoRetry k most ms)" for g k most ms
  proof -
    have "decided (i, AutoRetryStart k most ms (turnFailureMessage g) (Some g))"
      using that by (auto simp: decided_def)
    then show ?thesis using assms by (auto simp: scheduleRetry_def justified_ends intro!: justified_runs)
  qed
  then show ?thesis
    using assms by (auto simp: loopHead_def justified_ends intro!: justified_orReject
        split: sum.split option.split decision.split)
qed

lemma retry_step_justified: "retry_step decide c d \<Longrightarrow> justified c \<Longrightarrow> justified d"
  by (induction rule: retry_step.induct)
    (auto simp: initialReturned_def initialThrew_def delayEnded_def delayThrew_def retryReturned_def retryFailed_def
      justified_loopHead justified_ends startRetryRun_def split: option.split phase.split, simp_all add: justified_def emitted_def)

lemma coordinator_justified: "(retry_step decide)\<^sup>*\<^sup>* newCoordinator c \<Longrightarrow> justified c"
  by (induction rule: rtranclp_induct) (auto simp: newCoordinator_def justified_def emitted_def intro: retry_step_justified [unfolded justified_def emitted_def])

lemma coordinator_inv: "(retry_step decide)\<^sup>*\<^sup>* newCoordinator c \<Longrightarrow> retryInv c"
proof (induction rule: rtranclp_induct)
  case base
  show ?case
    by (simp add: retryInv_def opsInv_def ownerOk_def newCoordinator_def traced_def activeIds_def answeredIds_def answered_def)
next
  case (step c d)
  then show ?case by (blast intro: retry_step_inv)
qed

end

interpretation configurable: retry_policy decideConfigurable
  by unfold_locales (auto simp: decideConfigurable_def decideWith_def split: if_splits sum.splits)

interpretation never: retry_policy decideNever
  by unfold_locales (simp add: decideNever_def)

section \<open>The delay\<close>

lemma isInteger_next:
  assumes "isInteger (Finite r)" "\<not> r \<le> of_nat n"
  shows "of_nat (Suc n) \<le> r"
proof -
  obtain a where "quotient_of r = (a, 1)" using assms(1) by (cases "quotient_of r") auto
  then have r: "r = of_int a" using quotient_of_div [of r a 1] by simp
  with assms(2) have "int n < a" by (metis not_le of_int_le_iff of_int_of_nat_eq)
  then have "int (Suc n) \<le> a" by simp
  then show ?thesis unfolding r by (metis of_int_le_iff of_int_of_nat_eq)
qed

lemma timesPowerOfTwo_base:
  assumes "0 \<le> (b::rat)"
  shows "timesPowerOfTwo (Finite b) n = (if 1024 \<le> n \<and> b = 0 then NaN
     else if n < 1024 \<and> b * 2 ^ n < 2 ^ 1024 then Finite (b * 2 ^ n) else PosInfinity)"
proof -
  have "0 \<le> b * 2 ^ n" using assms by simp
  moreover have "- (2 ^ 1024) < (0::rat)" by (simp only: neg_less_0_iff_less) (rule zero_less_power, simp)
  ultimately have "\<not> b * 2 ^ n \<le> - (2 ^ 1024)" by linarith
  then show ?thesis using assms by (auto simp: not_le not_less simp del: power_numeral)
qed

lemma delay_cases:
  assumes "0 \<le> b" "0 \<le> ra"
  shows "jsMax (timesPowerOfTwo (Finite b) n) (Finite ra) =
    (if 1024 \<le> n \<and> b = 0 then NaN
     else if n < 1024 \<and> b * 2 ^ n < 2 ^ 1024 then Finite (max (b * 2 ^ n) ra) else PosInfinity)"
  unfolding timesPowerOfTwo_base [OF assms(1)] by simp

lemma decision_bounds:
  assumes conf: "decideConfigurable (Inr s) g n = Inr (DoRetry k most ms)"
  shows "\<exists>b ra. isValidSettings s \<and> retryEnabled s \<and> baseDelayMs s = Finite b \<and> 0 \<le> b \<and> turnFailureRetryable g \<and>
    (case turnRetryAfterMs g of None \<Rightarrow> ra = 0 | Some r \<Rightarrow> r = Finite ra \<and> 0 \<le> ra) \<and>
    most = maxRetries s \<and> 0 < k \<and> num_ge most (of_nat k) \<and>
    (k \<le> 1024 \<longrightarrow> b * 2 ^ (k - 1) < 2 ^ 1024 \<longrightarrow>
       (case maxDelayMs s of
          None \<Rightarrow> ms = Finite (max (b * 2 ^ (k - 1)) ra)
        | Some d \<Rightarrow> \<exists>q. d = Finite q \<and> ra \<le> q \<and> ms = Finite (min (max (b * 2 ^ (k - 1)) ra) q))) \<and>
    (\<forall>q. maxDelayMs s = Some (Finite q) \<longrightarrow> ms \<noteq> NaN \<longrightarrow> num_le ms q) \<and>
    (ms = NaN \<longleftrightarrow> 1024 < k \<and> b = 0)"
proof -
  have assms: "decideWith s g n = DoRetry k most ms" and "turnFailureRetryable g"
    using conf by (auto simp: decideConfigurable_def split: if_splits)
  have ok: "turnFailureRetryable g" "isValidSettings s" "retryEnabled s" "\<not> num_le (maxRetries s) (of_nat n)"
    and k: "k = Suc n" and most: "most = maxRetries s" and ms: "ms = retryDelay s g (Suc n)"
    using assms \<open>turnFailureRetryable g\<close> by (auto simp: decideWith_def split: if_splits)
  obtain b where b: "baseDelayMs s = Finite b" "0 \<le> b"
    using ok(2) by (cases "baseDelayMs s") (auto simp: isValidSettings_def)
  obtain N where N: "maxRetries s = Finite N" using ok(2) by (cases "maxRetries s") (auto simp: isValidSettings_def)
  have bound: "num_ge most (of_nat k)"
    using isInteger_next [of N n] ok N by (simp add: most k isValidSettings_def del: of_nat_Suc)
  obtain ra where ra: "0 \<le> ra" "(case turnRetryAfterMs g of Some r \<Rightarrow> r | None \<Rightarrow> Finite 0) = Finite ra"
    and ra': "case turnRetryAfterMs g of None \<Rightarrow> ra = 0 | Some r \<Rightarrow> r = Finite ra \<and> 0 \<le> ra"
  proof (cases "turnRetryAfterMs g")
    case (Some r)
    then obtain q where "r = Finite q" "0 \<le> q"
      using assms by (cases r) (auto simp: decideWith_def not_less split: if_splits)
    with Some show thesis by (intro that [of q]) auto
  qed auto
  have le: "ra \<le> q" if "maxDelayMs s = Some (Finite q)" for q
    using assms ra that
    by (cases "turnRetryAfterMs g") (auto simp: decideWith_def isValidSettings_def not_less split: if_splits)
  have delay: "ms = jsMin (if 1024 \<le> n \<and> b = 0 then NaN
      else if n < 1024 \<and> b * 2 ^ n < 2 ^ 1024 then Finite (max (b * 2 ^ n) ra) else PosInfinity)
       (case maxDelayMs s of Some m \<Rightarrow> m | None \<Rightarrow> PosInfinity)"
    unfolding ms retryDelay_def b(1) ra(2) diff_Suc_1 delay_cases [OF b(2) ra(1)] ..
  have cap: "maxDelayMs s = None \<or> (\<exists>q. maxDelayMs s = Some (Finite q) \<and> ra \<le> q)"
  proof (cases "maxDelayMs s")
    case (Some d)
    then obtain q where "d = Finite q" using ok(2) by (cases d) (auto simp: isValidSettings_def)
    with Some le show ?thesis by simp
  qed simp
  have nan: "ms = NaN \<longleftrightarrow> 1024 < k \<and> b = 0"
    using cap unfolding delay k by (auto simp del: power_numeral)
  have val: "k \<le> 1024 \<longrightarrow> b * 2 ^ (k - 1) < 2 ^ 1024 \<longrightarrow>
       (case maxDelayMs s of
          None \<Rightarrow> ms = Finite (max (b * 2 ^ (k - 1)) ra)
        | Some d \<Rightarrow> \<exists>q. d = Finite q \<and> ra \<le> q \<and> ms = Finite (min (max (b * 2 ^ (k - 1)) ra) q))"
    using cap unfolding delay k by (auto simp del: power_numeral)
  have most_le: "\<forall>q. maxDelayMs s = Some (Finite q) \<longrightarrow> ms \<noteq> NaN \<longrightarrow> num_le ms q"
    using cap unfolding delay by (auto simp del: power_numeral)
  have pos: "0 < k" by (simp add: k)
  show ?thesis
    by (intro exI [of _ b] exI [of _ ra] conjI ok b ra' most pos bound val most_le nan)
qed

section \<open>Properties\<close>

text \<open>
  C32. Under every interleaving of calls, settled executions, delays, aborts and errors of the
  functions the coordinator is given (the listener, the observation publisher, the settings,
  the reader of failures), the retry events are bracketed: at most one call is between its
  first \<open>auto_retry_start\<close> and its \<open>auto_retry_end\<close>, its starts are numbered 1, 2, ... and the end
  carries the last number. A call is answered outside its bracket, with one exception: when an
  error of such a function leaves the call, the very next thing is that this call rejects
  with that error, and its bracket is given up without an end. Where no such error occurs, every
  answered call has closed its bracket. The call inside the bracket is the owner the coordinator
  remembers, \<open>retryAttempt\<close> is the number of its last start and \<open>isRetrying\<close> says that there is one;
  the owner is still under way, and no call is answered twice.
\<close>

theorem retry_events_bracketed:
  assumes "(retry_step decideConfigurable)\<^sup>*\<^sup>* newCoordinator c"
  shows "traceFrom ((None, 0), None) (history c) = Some ((retryOwner c, retryAttempt c), None) \<and>
    ((\<forall>i e. (i, Escaped e) \<notin> set (history c)) \<longrightarrow>
       bracketFrom (None, 0) (emitted c) = Some (retryOwner c, retryAttempt c)) \<and>
    (isRetrying c \<longleftrightarrow> retryOwner c \<noteq> None) \<and>
    (\<forall>i. retryOwner c = Some i \<longrightarrow> i \<in> operationId ` set (activeOperations c) \<and> i \<notin> fst ` set (answered c)) \<and>
    distinct (map fst (answered c))"
proof -
  have inv: "retryInv c" using assms by (rule configurable.coordinator_inv)
  then have "(isRetrying c \<longleftrightarrow> retryOwner c \<noteq> None) \<and> distinct (map fst (answered c)) \<and>
      (\<forall>i. retryOwner c = Some i \<longrightarrow> i \<in> set (activeIds c) \<and> i \<notin> set (answeredIds c))"
    by (auto simp: retryInv_def opsInv_def ownerOk_def isRetrying_def answeredIds_def split: option.splits)
  moreover have tr: "traceFrom ((None, 0), None) (history c) = Some ((retryOwner c, retryAttempt c), None)"
    using inv by (simp add: retryInv_def traced_def retryAttempt_def)
  moreover note quiet_bracketed [OF tr]
  ultimately show ?thesis by (simp add: emitted_def activeIds_def answeredIds_def)
qed

text \<open>
  Every announced retry is within the settings it was decided under: its number is at most
  \<open>maxRetries\<close>, and its delay is \<open>baseDelayMs\<close> doubled for every earlier retry, but not below
  the delay the provider asked for and not above \<open>maxDelayMs\<close>. The delay is a number as long as
  the powers of two are: from the 1025th attempt on, a base delay of zero gives \<open>NaN\<close>.
\<close>

theorem retry_start_bounds:
  assumes "(retry_step decideConfigurable)\<^sup>*\<^sup>* newCoordinator c" "(i, AutoRetryStart k most ms m f) \<in> set (emitted c)"
  shows "\<exists>s b ra g. isValidSettings s \<and> retryEnabled s \<and> baseDelayMs s = Finite b \<and> 0 \<le> b \<and>
    f = Some g \<and> turnFailureRetryable g \<and>
    (case turnRetryAfterMs g of None \<Rightarrow> ra = 0 | Some r \<Rightarrow> r = Finite ra \<and> 0 \<le> ra) \<and>
    most = maxRetries s \<and> 0 < k \<and> num_ge most (of_nat k) \<and>
    (k \<le> 1024 \<longrightarrow> b * 2 ^ (k - 1) < 2 ^ 1024 \<longrightarrow>
       (case maxDelayMs s of
          None \<Rightarrow> ms = Finite (max (b * 2 ^ (k - 1)) ra)
        | Some d \<Rightarrow> \<exists>q. d = Finite q \<and> ra \<le> q \<and> ms = Finite (min (max (b * 2 ^ (k - 1)) ra) q))) \<and>
    (\<forall>q. maxDelayMs s = Some (Finite q) \<longrightarrow> ms \<noteq> NaN \<longrightarrow> num_le ms q) \<and>
    (ms = NaN \<longleftrightarrow> 1024 < k \<and> b = 0)"
proof -
  obtain rs g n where f: "f = Some g" and dec: "decideConfigurable rs g n = Inr (DoRetry k most ms)"
    using configurable.coordinator_justified [OF assms(1)] assms(2)
    by (force simp: configurable.justified_def list_all_iff configurable.decided_def)
  then obtain s where "rs = Inr s" by (cases rs) (auto simp: decideConfigurable_def split: if_splits)
  with dec have dec: "decideConfigurable (Inr s) g n = Inr (DoRetry k most ms)" by simp
  show ?thesis using decision_bounds [OF dec] f by blast
qed

text \<open>
  An abort that arrives while a retry runs does not undo the retry: when the execution
  succeeds all the same, the call returns its result, but the listener is told that the retry
  failed with \<open>RETRY_CANCELLED\<close>.
\<close>

theorem aborted_retry_reports_failure:
  assumes "(retry_step decideConfigurable)\<^sup>*\<^sup>* newCoordinator c"
    and "operationOf i c = Some p" "phaseOf p = ExecutingRetry k old" "isAborted p" "readFailure p r = Inr None"
    and "\<forall>ev. replyThrows (onEvent h ev) = None" "\<forall>ob. replyThrows (onRecord h ob) = None"
  shows "\<exists>m f. emitted (retryReturned decide h i r c) = emitted c @ [(i, AutoRetryEnd False k m (Some f))] \<and>
    turnFailureCode f = ''RETRY_CANCELLED'' \<and>
    answered (retryReturned decide h i r c) = answered c @ [(i, Returned r)]"
proof -
  have "0 < k" using phase_positive [OF configurable.coordinator_inv [OF assms(1)]] assms(2,3) by blast
  moreover have "aborted i c" using assms(2,4) by (simp add: aborted_def)
  ultimately show ?thesis
    using assms(2,3,5,6,7)
    by (auto simp: retryReturned_def loopHead_def afterLoop_def finishCancelled_def emitRetryEnd_def thenRun_def
        orReject_def emitEvent_def observe_def callBack_def Let_def release_fields emitted_def [of "_\<lparr>history := _\<rparr>"]
        emitted_def [of c] emitted_def [of "observed_update _ _"])
qed

section \<open>A retry, step by step\<close>

definition sampleTurnFailure :: turn_failure where
  "sampleTurnFailure = \<lparr>turnFailureCode = ''OVERLOADED'', turnFailureMessage = ''busy'', turnFailureRetryable = True,
     turnFailureOrigin = ''provider'', turnRetryAfterMs = Some (Finite 3)\<rparr>"

definition sampleSettings :: retry_settings where
  "sampleSettings = \<lparr>retryEnabled = True, maxRetries = Finite 2, baseDelayMs = Finite 1, maxDelayMs = Some (Finite 5)\<rparr>"

definition sampleReader :: "turn_failure option \<Rightarrow> thrown_value + turn_failure option" where
  "sampleReader r = Inr r"

definition calm :: surroundings where
  "calm = \<lparr>onEvent = \<lambda>ev. \<lparr>replyAborts = False, replyThrows = None\<rparr>,
     onRecord = \<lambda>ob. \<lparr>replyAborts = False, replyThrows = None\<rparr>\<rparr>"

text \<open>A listener that throws when it is told of a retry.\<close>

definition throwingListener :: surroundings where
  "throwingListener = calm\<lparr>onEvent := \<lambda>ev. \<lparr>replyAborts = False, replyThrows = Some (OtherError ''broken'')\<rparr>\<rparr>"

text \<open>
  A call whose first execution fails, the same call when it is aborted during its retry, and when
  the listener throws.
\<close>

definition sampleCall :: "turn_failure option coordinator" where
  "sampleCall = startRetryRun 7 sampleReader newCoordinator"

definition sampleFailed :: "turn_failure option coordinator" where
  "sampleFailed = initialReturned (decideConfigurable (Inr sampleSettings)) calm 7 (Some sampleTurnFailure) sampleCall"

definition sampleAborted :: "turn_failure option coordinator" where
  "sampleAborted = abortRetry (delayEnded calm 7 sampleFailed)"

definition sampleBroken :: "turn_failure option coordinator" where
  "sampleBroken =
     initialReturned (decideConfigurable (Inr sampleSettings)) throwingListener 7 (Some sampleTurnFailure) sampleCall"

lemma samples_reachable:
  "(retry_step decideConfigurable)\<^sup>*\<^sup>* newCoordinator sampleFailed"
  "(retry_step decideConfigurable)\<^sup>*\<^sup>* newCoordinator sampleAborted"
  "(retry_step decideConfigurable)\<^sup>*\<^sup>* newCoordinator sampleBroken"
proof -
  have call: "(retry_step decideConfigurable)\<^sup>*\<^sup>* newCoordinator sampleCall"
    unfolding sampleCall_def by (rule r_into_rtranclp) (rule step_start; simp add: newCoordinator_def answered_def)
  have returned: "retry_step decideConfigurable sampleCall (initialReturned (decideConfigurable (Inr sampleSettings)) h 7 r sampleCall)" for h r
    by (rule step_initial_returned)
  show failed: "(retry_step decideConfigurable)\<^sup>*\<^sup>* newCoordinator sampleFailed"
    unfolding sampleFailed_def using call returned by (rule rtranclp.rtrancl_into_rtrancl)
  show "(retry_step decideConfigurable)\<^sup>*\<^sup>* newCoordinator sampleBroken"
    unfolding sampleBroken_def using call returned by (rule rtranclp.rtrancl_into_rtrancl)
  have "retry_step decideConfigurable sampleFailed (delayEnded calm 7 sampleFailed)"
    by (rule step_delay_ended)
  moreover have "retry_step decideConfigurable (delayEnded calm 7 sampleFailed) sampleAborted"
    unfolding sampleAborted_def by (rule step_abort)
  ultimately show "(retry_step decideConfigurable)\<^sup>*\<^sup>* newCoordinator sampleAborted"
    using failed by (simp add: rtranclp.rtrancl_into_rtrancl)
qed

lemmas sample_eval = sampleCall_def startRetryRun_def newCoordinator_def initialReturned_def operationOf_def loopHead_def
  aborted_def decideConfigurable_def decideWith_def sampleSettings_def isValidSettings_def retryDelay_def
  sampleTurnFailure_def scheduleRetry_def Let_def observe_def emitEvent_def callBack_def escape_def thenRun_def
  orReject_def setPhase_def calm_def throwingListener_def sampleReader_def release_def

lemma sampleFailed_value:
  "sampleFailed =
    \<lparr>activeOperations = [\<lparr>operationId = 7, readFailure = sampleReader, phaseOf = Delaying 1 (Some sampleTurnFailure),
       completedRetries = 0, isAborted = False\<rparr>],
     retryOwner = Some 7, attempt = 1,
     history = [(7, Told (AutoRetryStart 1 (Finite 2) (Finite 3) ''busy'' (Some sampleTurnFailure)))],
     observed = [Scheduled 1 (Finite 2) (Finite 3) ''OVERLOADED'' ''provider'']\<rparr>"
  by (simp add: sampleFailed_def sample_eval)

lemma sampleBroken_value:
  "sampleBroken =
    \<lparr>activeOperations = [], retryOwner = None, attempt = 0,
     history = [(7, Told (AutoRetryStart 1 (Finite 2) (Finite 3) ''busy'' (Some sampleTurnFailure))),
       (7, Escaped (OtherError ''broken'')), (7, Settled (Threw (OtherError ''broken'')))],
     observed = []\<rparr>"
  by (simp add: sampleBroken_def sample_eval)

text \<open>
  A listener that throws on \<open>auto_retry_start\<close> takes the whole call with it: nothing was executed
  again, the call rejects with the listener's error instead of returning the failed result, and
  no \<open>auto_retry_end\<close> closes the bracket although nobody is retrying any more.
\<close>

theorem listener_error_ends_call:
  "\<exists>c :: turn_failure option coordinator. (retry_step decideConfigurable)\<^sup>*\<^sup>* newCoordinator c \<and>
     (\<exists>k most ms m f. emitted c = [(7, AutoRetryStart k most ms m f)]) \<and>
     answered c = [(7, Threw (OtherError ''broken''))] \<and> \<not> isRetrying c \<and> activeOperations c = []"
  using samples_reachable(3)
  by (intro exI [of _ sampleBroken]) (simp add: sampleBroken_value emitted_def answered_def isRetrying_def)

text \<open>The properties of this section at these states.\<close>

theorem retry_events_bracketed_witness:
  "traceFrom ((None, 0), None) (history sampleFailed) = Some ((Some 7, 1), None) \<and>
   bracketFrom (None, 0) (emitted sampleFailed) = Some (Some 7, 1) \<and>
   isRetrying sampleFailed \<and> 7 \<notin> fst ` set (answered sampleFailed) \<and>
   traceFrom ((None, 0), None) (history sampleBroken) = Some ((None, 0), None) \<and> \<not> isRetrying sampleBroken"
  using retry_events_bracketed [OF samples_reachable(1)] retry_events_bracketed [OF samples_reachable(3)]
  by (simp add: sampleFailed_value sampleBroken_value retryAttempt_def isRetrying_def)

theorem retry_start_bounds_witness:
  "\<exists>s b. isValidSettings s \<and> baseDelayMs s = Finite b \<and> maxRetries s = Finite 2 \<and> 0 \<le> b"
  using retry_start_bounds [OF samples_reachable(1), of 7 1 "Finite 2" "Finite 3" "''busy''" "Some sampleTurnFailure"]
  by (auto simp: sampleFailed_value emitted_def)

theorem aborted_retry_reports_failure_witness:
  "\<exists>m f. emitted (retryReturned (decideNever (Inr sampleSettings)) calm 7 None sampleAborted) =
       emitted sampleAborted @ [(7, AutoRetryEnd False 1 m (Some f))] \<and>
     answered (retryReturned (decideNever (Inr sampleSettings)) calm 7 None sampleAborted) = [(7, Returned None)]"
  using aborted_retry_reports_failure [OF samples_reachable(2), of 7
      "\<lparr>operationId = 7, readFailure = sampleReader, phaseOf = ExecutingRetry 1 (Some sampleTurnFailure), completedRetries = 0, isAborted = True\<rparr>"
      1 "Some sampleTurnFailure" None calm "decideNever (Inr sampleSettings)"]
  by (auto simp: sampleAborted_def sampleFailed_value delayEnded_def operationOf_def setPhase_def abortRetry_def
      sampleReader_def calm_def answered_def)

end
