(* ===== verification/AgentSession.thy ===== *)
theory AgentSession
  imports SessionQueueProperties
begin

text \<open>
  A session of the runtime kernel, \<open>packages/runtime-core/src/kernel/agent-session.ts\<close>: the
  state machine that admits turns over the input queue, with continuations, queued host
  operations, cancellation and closing.

  A method is cut at its awaits. What follows an await is a \<open>task\<close>, resumed by a later event:
  a task behind \<open>contextWrite\<close> waits for the context writes issued before it, a task behind a
  turn waits until that turn has settled. The work of the pipeline (a turn) and of the host (a
  queued operation) is a \<open>work\<close> with a number; it polls the queue while it is under way and
  settles with any outcome. Ids made by \<open>createRuntimeId\<close> are arguments; messages, requests and
  preparers are opaque. Every call carries a number, under which its answer is recorded.
\<close>

section \<open>State\<close>

datatype session_state = Idle | Running | Cancelling | Closing | Closed | RecoveryRequired

datatype session_error =
    SessionClosedError | SessionBusyError | TurnPersistenceError | ContinuationCancelledError
  | AbortedByCaller | EmptyInputError

datatype turn_status = TurnCompleted | TurnHandled | TurnCancelled | TurnFailed

datatype turn_outcome = TurnEnded turn_status | TurnLostPersistence | TurnThrew

datatype session_work =
    InputTurn queued_input "json list"
  | RequestTurn json "nat option"
  | ContinuationTurn "json list"
  | RetryTurn
  | OperationWork string queue_operation

record work =
  workId :: nat
  workKind :: session_work
  workAborted :: bool

datatype session_answer =
    TurnAnswer turn_outcome
  | QueuedAnswer behavior nat "string option"
  | IdleAnswer
  | MissingAnswer
  | StartedAnswer nat
  | VoidAnswer
  | FailedAnswer session_error

datatype task =
    SendTask nat queued_input "json list" "behavior option"
  | RequestTask nat json "behavior option" "nat option"
  | QueueIfRunningTask nat json behavior "nat option"
  | WhenAvailableTask nat json "nat option"
  | WhenReleasedTask nat json "nat option" "nat option"
  | ContinueTask nat
  | RetryTask nat
  | AwaitTurn nat nat
  | CancelWait nat "nat option" bool
  | SendNowCancel nat queued_input "nat option"
  | SendNowReady nat queued_input
  | ResumeTask nat
  | CloseIdle nat
  | CloseWait nat nat
  | AfterOperation
  | DrainTurn "nat list" nat
  | DrainEnd

record context_write =
  writeCall :: nat
  writeContext :: "json list"
  writeStarted :: bool

record agent_session =
  currentState :: session_state
  activeController :: "nat option"
  activeTurn :: "nat option"
  activeQueueOperation :: "(string \<times> queue_operation) option"
  continuationRequested :: bool
  continuationDrain :: bool
  inputRequestPreparer :: "nat option"
  continuationContext :: "json list"
  nextTurnContext :: "json list"
  continuationWaiters :: "nat list"
  inputQueue :: session_queue
  works :: "work list"
  nextWork :: nat
  outcomes :: "(nat \<times> turn_outcome) list"
  tasks :: "(nat \<times> task) list"
  contextWrites :: "context_write list"
  contextDone :: nat
  answers :: "(nat \<times> session_answer) list"

definition newSession :: "queue_mode option \<Rightarrow> queue_mode option \<Rightarrow> agent_session" where
  "newSession sm fm =
     \<lparr>currentState = Idle, activeController = None, activeTurn = None, activeQueueOperation = None,
      continuationRequested = False, continuationDrain = False, inputRequestPreparer = None,
      continuationContext = [], nextTurnContext = [], continuationWaiters = [], inputQueue = newQueue sm fm,
      works = [], nextWork = 0, outcomes = [], tasks = [], contextWrites = [], contextDone = 0, answers = []\<rparr>"

section \<open>Small steps\<close>

definition answer :: "nat \<Rightarrow> session_answer \<Rightarrow> agent_session \<Rightarrow> agent_session" where
  "answer c a s = s\<lparr>answers := answers s @ [(c, a)]\<rparr>"

definition onQueue :: "(session_queue \<Rightarrow> 'a \<times> session_queue) \<Rightarrow> agent_session \<Rightarrow> 'a \<times> agent_session" where
  "onQueue f s = (case f (inputQueue s) of (x, q) \<Rightarrow> (x, s\<lparr>inputQueue := q\<rparr>))"

definition updateQueue :: "(session_queue \<Rightarrow> session_queue) \<Rightarrow> agent_session \<Rightarrow> agent_session" where
  "updateQueue f s = s\<lparr>inputQueue := f (inputQueue s)\<rparr>"

text \<open>An await: a task behind the context writes issued so far, or behind nothing of the kind.\<close>

definition afterWrites :: "task \<Rightarrow> agent_session \<Rightarrow> agent_session" where
  "afterWrites t s = s\<lparr>tasks := tasks s @ [(contextDone s + length (contextWrites s), t)]\<rparr>"

definition later :: "task \<Rightarrow> agent_session \<Rightarrow> agent_session" where
  "later t s = s\<lparr>tasks := tasks s @ [(0, t)]\<rparr>"

definition abortWork :: "nat option \<Rightarrow> agent_session \<Rightarrow> agent_session" where
  "abortWork w s = s\<lparr>works := map (\<lambda>x. if Some (workId x) = w then x\<lparr>workAborted := True\<rparr> else x) (works s)\<rparr>"

text \<open>The guards of the entry points.\<close>

definition isShut :: "agent_session \<Rightarrow> bool" where
  "isShut s = (currentState s = Closed \<or> currentState s = Closing)"

definition refusal :: "agent_session \<Rightarrow> session_error option" where
  "refusal s =
     (if isShut s then Some SessionClosedError
      else if currentState s = RecoveryRequired then Some TurnPersistenceError
      else None)"

definition queueBehaviorAfterOperations :: "behavior \<Rightarrow> agent_session \<Rightarrow> behavior" where
  "queueBehaviorAfterOperations b s =
     (if activeQueueOperation s \<noteq> None \<or> hasOperation (inputQueue s) then FollowUp else b)"

definition rejectContinuationWaiters :: "session_error \<Rightarrow> agent_session \<Rightarrow> agent_session" where
  "rejectContinuationWaiters e s =
     s\<lparr>continuationRequested := False, continuationContext := [], continuationWaiters := [],
       answers := answers s @ map (\<lambda>c. (c, FailedAnswer e)) (continuationWaiters s)\<rparr>"

section \<open>Starting work\<close>

text \<open>The state and controller of a new turn or operation.\<close>

definition beginWork :: "session_work \<Rightarrow> agent_session \<Rightarrow> nat \<times> agent_session" where
  "beginWork k s =
     (let w = nextWork s
      in (w, s\<lparr>currentState := Running, activeController := Some w, activeTurn := Some w, nextWork := Suc w,
               works := works s @ [\<lparr>workId = w, workKind = k, workAborted = False\<rparr>]\<rparr>))"

text \<open>A call that starts a turn and waits for it.\<close>

definition startFor :: "nat \<Rightarrow> session_work \<Rightarrow> agent_session \<Rightarrow> agent_session" where
  "startFor c k s = (case beginWork k s of (w, s') \<Rightarrow> later (AwaitTurn c w) s')"

definition startQueuedInput :: "queued_input \<Rightarrow> agent_session \<Rightarrow> (session_error + nat) \<times> agent_session" where
  "startQueuedInput i s =
     (case inputRequest i of
        Some r \<Rightarrow> (case beginWork (RequestTurn r (inputRequestPreparer s)) s of (w, s') \<Rightarrow> (Inr w, s'))
      | None \<Rightarrow>
          (case inputMessage i of
             Some m \<Rightarrow> (case beginWork (InputTurn i []) s of (w, s') \<Rightarrow> (Inr w, s'))
           | None \<Rightarrow> (Inl EmptyInputError, s)))"

definition startQueuedOperation :: "string \<times> queue_operation \<Rightarrow> agent_session \<Rightarrow> agent_session" where
  "startQueuedOperation entry s =
     snd (beginWork (OperationWork (fst entry) (snd entry)) (s\<lparr>activeQueueOperation := Some entry\<rparr>))"

definition startQueuedOperationIfHead :: "agent_session \<Rightarrow> bool \<times> agent_session" where
  "startQueuedOperationIfHead s =
     (if currentState s \<noteq> Idle \<or> isPaused (inputQueue s) \<or> peekFollowUpOperation (inputQueue s) = None then (False, s)
      else (case onQueue takeFollowUpOperationHead s of
              (None, s') \<Rightarrow> (False, s')
            | (Some entry, s') \<Rightarrow> (True, startQueuedOperation entry s')))"

section \<open>Continuations\<close>

text \<open>
  \<open>drainRequestedContinuations\<close> from the head of its loop: it starts a continuation and waits
  for it, or ends.
\<close>

definition drainLoop :: "agent_session \<Rightarrow> agent_session" where
  "drainLoop s =
     (if continuationRequested s \<and> currentState s = Idle
      then (let ws = continuationWaiters s; ctx = continuationContext s;
                s1 = s\<lparr>continuationRequested := False, continuationWaiters := [], continuationContext := []\<rparr>
            in (case beginWork (ContinuationTurn ctx) s1 of (w, s2) \<Rightarrow> later (DrainTurn ws w) s2))
      else later DrainEnd s)"

definition scheduleRequestedContinuations :: "agent_session \<Rightarrow> agent_session" where
  "scheduleRequestedContinuations s =
     (if \<not> continuationRequested s \<or> continuationDrain s then s
      else if isShut s then rejectContinuationWaiters SessionClosedError s
      else if currentState s \<noteq> Idle then s
      else (drainLoop s)\<lparr>continuationDrain := True\<rparr>)"

definition drainTurnSettled :: "nat list \<Rightarrow> turn_outcome \<Rightarrow> agent_session \<Rightarrow> agent_session" where
  "drainTurnSettled ws oc s = drainLoop (s\<lparr>answers := answers s @ map (\<lambda>c. (c, TurnAnswer oc)) ws\<rparr>)"

definition drainEnded :: "agent_session \<Rightarrow> agent_session" where
  "drainEnded s =
     (let s1 = s\<lparr>continuationDrain := False\<rparr>
      in if continuationRequested s1 then scheduleRequestedContinuations s1 else s1)"

section \<open>Ending work\<close>

definition finishActiveTurn :: "bool \<Rightarrow> agent_session \<Rightarrow> agent_session" where
  "finishActiveTurn deferContinuations s =
     (let s1 = s\<lparr>activeController := None, activeTurn := None,
                 currentState := (case currentState s of Closing \<Rightarrow> Closed | RecoveryRequired \<Rightarrow> RecoveryRequired | _ \<Rightarrow> Idle)\<rparr>
      in (case startQueuedOperationIfHead s1 of
            (started, s2) \<Rightarrow> if \<not> deferContinuations \<and> \<not> started then scheduleRequestedContinuations s2 else s2))"

definition pauseIfPending :: "agent_session \<Rightarrow> agent_session" where
  "pauseIfPending s = (if 0 < pendingCount (inputQueue s) then updateQueue pauseQueue s else s)"

text \<open>The statuses after which the rest of the queue stays consumable.\<close>

definition endsWell :: "session_work \<Rightarrow> turn_status \<Rightarrow> bool" where
  "endsWell k st = (st = TurnCompleted \<or> (st = TurnHandled \<and> (case k of RequestTurn r p \<Rightarrow> True | _ \<Rightarrow> False)))"

definition removeWork :: "nat \<Rightarrow> turn_outcome \<Rightarrow> agent_session \<Rightarrow> agent_session" where
  "removeWork w oc s =
     s\<lparr>works := filter (\<lambda>x. workId x \<noteq> w) (works s), outcomes := outcomes s @ [(w, oc)]\<rparr>"

definition turnSettled :: "work \<Rightarrow> turn_outcome \<Rightarrow> agent_session \<Rightarrow> agent_session" where
  "turnSettled x oc s =
     (let s1 = removeWork (workId x) oc s
      in finishActiveTurn False
           (case oc of
              TurnEnded st \<Rightarrow> if endsWell (workKind x) st then s1 else pauseIfPending s1
            | TurnLostPersistence \<Rightarrow> pauseIfPending (s1\<lparr>currentState := RecoveryRequired\<rparr>)
            | TurnThrew \<Rightarrow> pauseIfPending s1))"

text \<open>The operation ends the same way whether its handler returns or throws.\<close>

definition operationSettled :: "work \<Rightarrow> string \<Rightarrow> agent_session \<Rightarrow> agent_session" where
  "operationSettled x k s =
     (let s1 = removeWork (workId x) (TurnEnded TurnHandled) s;
          s2 = (case activeQueueOperation s1 of
                  Some (k', p) \<Rightarrow> if k' = k then s1\<lparr>activeQueueOperation := None\<rparr> else s1
                | None \<Rightarrow> s1)
      in later AfterOperation (finishActiveTurn True s2))"

definition workSettled :: "nat \<Rightarrow> turn_outcome \<Rightarrow> agent_session \<Rightarrow> agent_session" where
  "workSettled w oc s =
     (case find (\<lambda>x. workId x = w) (works s) of
        None \<Rightarrow> s
      | Some x \<Rightarrow> (case workKind x of OperationWork k p \<Rightarrow> operationSettled x k s | _ \<Rightarrow> turnSettled x oc s))"

text \<open>The microtask of \<open>scheduleQueueAfterOperation\<close>.\<close>

definition afterOperation :: "agent_session \<Rightarrow> agent_session" where
  "afterOperation s =
     (if currentState s \<noteq> Idle \<or> isPaused (inputQueue s) then s
      else (case onQueue takeFollowUpOperationHead s of
              (Some entry, s1) \<Rightarrow> startQueuedOperation entry s1
            | (None, s1) \<Rightarrow>
                (case onQueue takeFollowUpHead s1 of
                   (None, s2) \<Rightarrow> scheduleRequestedContinuations s2
                 | (Some i, s2) \<Rightarrow> snd (startQueuedInput i s2))))"

section \<open>Sending\<close>

definition queueInput :: "nat \<Rightarrow> behavior \<Rightarrow> string \<Rightarrow> queued_input \<Rightarrow> agent_session \<Rightarrow> agent_session" where
  "queueInput c b k i s =
     (case refusal s of
        Some e \<Rightarrow> answer c (FailedAnswer e) s
      | None \<Rightarrow>
          (let b' = queueBehaviorAfterOperations b s
           in (case onQueue (enqueueWithId b' k i) s of
                 ((k', n), s') \<Rightarrow> answer c (QueuedAnswer b' n (Some k')) s')))"

definition queueRequest :: "nat \<Rightarrow> behavior \<Rightarrow> string \<Rightarrow> json \<Rightarrow> agent_session \<Rightarrow> agent_session" where
  "queueRequest c b k r s =
     (let b' = queueBehaviorAfterOperations b s
      in (case onQueue (enqueueRequestWithId b' k r) s of
            ((k', n), s') \<Rightarrow> answer c (QueuedAnswer b' n (Some k')) s'))"

definition sendResumed ::
    "nat \<Rightarrow> queued_input \<Rightarrow> json list \<Rightarrow> behavior option \<Rightarrow> string \<Rightarrow> agent_session \<Rightarrow> agent_session" where
  "sendResumed c i trailing streaming k s =
     (case refusal s of
        Some e \<Rightarrow> answer c (FailedAnswer e) s
      | None \<Rightarrow>
          (if currentState s \<noteq> Idle
           then (case streaming of
                   None \<Rightarrow> answer c (FailedAnswer SessionBusyError) s
                 | Some b \<Rightarrow> queueInput c b k i s)
           else startFor c (InputTurn i (trailing @ nextTurnContext s)) (s\<lparr>nextTurnContext := []\<rparr>)))"

definition orPreparer :: "nat option \<Rightarrow> agent_session \<Rightarrow> nat option" where
  "orPreparer p s = (case p of Some x \<Rightarrow> Some x | None \<Rightarrow> inputRequestPreparer s)"

definition bindPreparer :: "nat option \<Rightarrow> agent_session \<Rightarrow> agent_session" where
  "bindPreparer p s = (case p of Some x \<Rightarrow> s\<lparr>inputRequestPreparer := Some x\<rparr> | None \<Rightarrow> s)"

definition requestResumed ::
    "nat \<Rightarrow> json \<Rightarrow> behavior option \<Rightarrow> nat option \<Rightarrow> string \<Rightarrow> agent_session \<Rightarrow> agent_session" where
  "requestResumed c r streaming p k s0 =
     (let s = bindPreparer p s0
      in (case refusal s of
            Some e \<Rightarrow> answer c (FailedAnswer e) s
          | None \<Rightarrow>
              (if currentState s \<noteq> Idle
               then (case streaming of
                       None \<Rightarrow> answer c (FailedAnswer SessionBusyError) s
                     | Some b \<Rightarrow> queueRequest c b k r s)
               else startFor c (RequestTurn r (orPreparer p s)) s)))"

definition queueIfRunningResumed ::
    "nat \<Rightarrow> json \<Rightarrow> behavior \<Rightarrow> nat option \<Rightarrow> string \<Rightarrow> agent_session \<Rightarrow> agent_session" where
  "queueIfRunningResumed c r b p k s0 =
     (let s = bindPreparer p s0
      in (case refusal s of
            Some e \<Rightarrow> answer c (FailedAnswer e) s
          | None \<Rightarrow> if currentState s = Idle then answer c IdleAnswer s else queueRequest c b k r s))"

text \<open>One pass of the loop of \<open>sendRequestWhenAvailable\<close>, after the context writes.\<close>

definition whenAvailableResumed ::
    "nat \<Rightarrow> json \<Rightarrow> nat option \<Rightarrow> bool \<Rightarrow> agent_session \<Rightarrow> agent_session" where
  "whenAvailableResumed c r p callerAborted s =
     (if callerAborted then answer c (FailedAnswer AbortedByCaller) s
      else (case refusal s of
              Some e \<Rightarrow> answer c (FailedAnswer e) s
            | None \<Rightarrow>
                (if currentState s = Idle then startFor c (RequestTurn r (orPreparer p s)) s
                 else later (WhenReleasedTask c r p (activeTurn s)) s)))"

definition whenReleased :: "nat \<Rightarrow> json \<Rightarrow> nat option \<Rightarrow> bool \<Rightarrow> agent_session \<Rightarrow> agent_session" where
  "whenReleased c r p callerAborted s =
     (if callerAborted then answer c (FailedAnswer AbortedByCaller) s
      else afterWrites (WhenAvailableTask c r p) s)"

definition restartResumed :: "nat \<Rightarrow> session_work \<Rightarrow> agent_session \<Rightarrow> agent_session" where
  "restartResumed c k s =
     (case refusal s of
        Some e \<Rightarrow> answer c (FailedAnswer e) s
      | None \<Rightarrow> if currentState s \<noteq> Idle then answer c (FailedAnswer SessionBusyError) s else startFor c k s)"

definition requestContinuation :: "nat \<Rightarrow> json list \<Rightarrow> agent_session \<Rightarrow> agent_session" where
  "requestContinuation c ctx s =
     (if isShut s then answer c (FailedAnswer SessionClosedError) s
      else if currentState s = Cancelling then answer c (FailedAnswer ContinuationCancelledError) s
      else if currentState s = RecoveryRequired then answer c (FailedAnswer TurnPersistenceError) s
      else scheduleRequestedContinuations
             (s\<lparr>continuationRequested := True, continuationContext := continuationContext s @ ctx,
               continuationWaiters := continuationWaiters s @ [c]\<rparr>))"

section \<open>Queueing\<close>

definition queueContext :: "nat \<Rightarrow> behavior \<Rightarrow> string \<Rightarrow> json list \<Rightarrow> agent_session \<Rightarrow> agent_session" where
  "queueContext c b k ctx s =
     (case refusal s of
        Some e \<Rightarrow> answer c (FailedAnswer e) s
      | None \<Rightarrow>
          (let b' = queueBehaviorAfterOperations b s
           in (case onQueue (enqueueContext b' k ctx) s of (n, s') \<Rightarrow> answer c (QueuedAnswer b' n None) s')))"

text \<open>There is one type of operation, so any active operation stands for the new one.\<close>

definition queueOperation :: "nat \<Rightarrow> string \<Rightarrow> queue_operation \<Rightarrow> agent_session \<Rightarrow> agent_session" where
  "queueOperation c k p s =
     (case refusal s of
        Some e \<Rightarrow> answer c (FailedAnswer e) s
      | None \<Rightarrow>
          (case activeQueueOperation s of
             Some (k', p') \<Rightarrow> answer c (QueuedAnswer FollowUp (pendingCount (inputQueue s) + 1) (Some k')) s
           | None \<Rightarrow>
               (case onQueue (enqueueOperationWithId k p) s of
                  ((k', n, created), s1) \<Rightarrow>
                    answer c (QueuedAnswer FollowUp n (Some k')) (snd (startQueuedOperationIfHead s1)))))"

definition queueNextTurnContext :: "nat \<Rightarrow> json list \<Rightarrow> agent_session \<Rightarrow> agent_session" where
  "queueNextTurnContext c ctx s =
     (case refusal s of
        Some e \<Rightarrow> answer c (FailedAnswer e) s
      | None \<Rightarrow> answer c VoidAnswer (s\<lparr>nextTurnContext := nextTurnContext s @ ctx\<rparr>))"

definition restoreSessionQueue :: "queue_snapshot \<Rightarrow> agent_session \<Rightarrow> agent_session" where
  "restoreSessionQueue snap s = snd (startQueuedOperationIfHead (updateQueue (restoreQueue snap) s))"

section \<open>Context writes\<close>

definition recordContext :: "nat \<Rightarrow> json list \<Rightarrow> agent_session \<Rightarrow> agent_session" where
  "recordContext c ctx s =
     (case refusal s of
        Some e \<Rightarrow> answer c (FailedAnswer e) s
      | None \<Rightarrow> s\<lparr>contextWrites := contextWrites s @ [\<lparr>writeCall = c, writeContext = ctx, writeStarted = False\<rparr>]\<rparr>)"

text \<open>The next write of the chain begins, and the write under way ends.\<close>

definition endWrite :: "context_write \<Rightarrow> session_answer \<Rightarrow> agent_session \<Rightarrow> agent_session" where
  "endWrite w a s = answer (writeCall w) a (s\<lparr>contextWrites := tl (contextWrites s), contextDone := Suc (contextDone s)\<rparr>)"

definition writeBegins :: "agent_session \<Rightarrow> agent_session" where
  "writeBegins s =
     (case contextWrites s of
        [] \<Rightarrow> s
      | w # rest \<Rightarrow>
          (if writeStarted w then s
           else if currentState s \<noteq> Idle then endWrite w (FailedAnswer SessionBusyError) s
           else s\<lparr>contextWrites := w\<lparr>writeStarted := True\<rparr> # rest\<rparr>))"

definition writeEnds :: "session_answer \<Rightarrow> agent_session \<Rightarrow> agent_session" where
  "writeEnds a s =
     (case contextWrites s of [] \<Rightarrow> s | w # rest \<Rightarrow> if writeStarted w then endWrite w a s else s)"

section \<open>Cancelling and closing\<close>

text \<open>The synchronous part of \<open>cancel\<close>; \<open>None\<close> when there is nothing to cancel.\<close>

definition cancelNow :: "agent_session \<Rightarrow> nat option option \<times> agent_session" where
  "cancelNow s =
     (if currentState s \<noteq> Running \<and> currentState s \<noteq> Cancelling then (None, s)
      else (Some (activeTurn s),
            abortWork (activeController s)
              (rejectContinuationWaiters ContinuationCancelledError (s\<lparr>currentState := Cancelling\<rparr>))))"

definition cancelSession :: "nat \<Rightarrow> bool \<Rightarrow> agent_session \<Rightarrow> agent_session" where
  "cancelSession c bounded s =
     (case cancelNow s of
        (None, s') \<Rightarrow> answer c VoidAnswer s'
      | (Some w, s') \<Rightarrow> later (CancelWait c w bounded) s')"

definition sendQueuedNow :: "nat \<Rightarrow> string \<Rightarrow> agent_session \<Rightarrow> agent_session" where
  "sendQueuedNow c k s =
     (case refusal s of
        Some e \<Rightarrow> answer c (FailedAnswer e) s
      | None \<Rightarrow>
          (if activeQueueOperation s \<noteq> None then answer c MissingAnswer s
           else (case onQueue (takeById k) s of
                   (None, s1) \<Rightarrow> answer c MissingAnswer s1
                 | (Some i, s1) \<Rightarrow>
                     (if currentState s1 \<noteq> Idle
                      then (case cancelNow s1 of
                              (None, s2) \<Rightarrow> later (SendNowCancel c i None) s2
                            | (Some w, s2) \<Rightarrow> later (SendNowCancel c i w) s2)
                      else afterWrites (SendNowReady c i) s1))))"

definition sendNowReady :: "nat \<Rightarrow> queued_input \<Rightarrow> agent_session \<Rightarrow> agent_session" where
  "sendNowReady c i s =
     (case startQueuedInput i (updateQueue resumeQueue s) of
        (Inl e, s') \<Rightarrow> answer c (FailedAnswer e) s'
      | (Inr w, s') \<Rightarrow> answer c (StartedAnswer w) s')"

definition resumeSessionQueue :: "nat \<Rightarrow> agent_session \<Rightarrow> agent_session" where
  "resumeSessionQueue c s =
     (case refusal s of
        Some e \<Rightarrow> answer c (FailedAnswer e) s
      | None \<Rightarrow>
          (let s1 = updateQueue resumeQueue s
           in if currentState s1 \<noteq> Idle then answer c VoidAnswer s1 else afterWrites (ResumeTask c) s1))"

definition resumeResumed :: "nat \<Rightarrow> agent_session \<Rightarrow> agent_session" where
  "resumeResumed c s =
     (if currentState s \<noteq> Idle then answer c VoidAnswer s
      else (case startQueuedOperationIfHead s of
              (True, s1) \<Rightarrow> answer c VoidAnswer s1
            | (False, s1) \<Rightarrow>
                (case onQueue takeFollowUpHead s1 of
                   (None, s2) \<Rightarrow> answer c VoidAnswer s2
                 | (Some i, s2) \<Rightarrow>
                     (case startQueuedInput i s2 of
                        (Inl e, s3) \<Rightarrow> answer c (FailedAnswer e) s3
                      | (Inr w, s3) \<Rightarrow> later (AwaitTurn c w) s3))))"

definition shutDown :: "nat \<Rightarrow> agent_session \<Rightarrow> agent_session" where
  "shutDown c s =
     answer c VoidAnswer (rejectContinuationWaiters SessionClosedError
       ((updateQueue (snd \<circ> clearQueue) s)\<lparr>nextTurnContext := [], currentState := Closed\<rparr>))"

definition closeSession :: "nat \<Rightarrow> agent_session \<Rightarrow> agent_session" where
  "closeSession c s =
     (if currentState s = Closed then answer c VoidAnswer s
      else (case activeTurn s of
              None \<Rightarrow> afterWrites (CloseIdle c) s
            | Some w \<Rightarrow> later (CloseWait c w) (abortWork (activeController s) (s\<lparr>currentState := Closing\<rparr>))))"

text \<open>The caller of a request aborts after its turn has started.\<close>

definition isRequest :: "work \<Rightarrow> bool" where
  "isRequest x = (case workKind x of RequestTurn r p \<Rightarrow> True | _ \<Rightarrow> False)"

definition callerAborts :: "nat \<Rightarrow> agent_session \<Rightarrow> agent_session" where
  "callerAborts w s =
     (if activeController s \<noteq> Some w \<or> \<not> list_ex (\<lambda>x. workId x = w \<and> isRequest x) (works s) then s
      else abortWork (Some w) (s\<lparr>currentState := Cancelling\<rparr>))"

section \<open>Events\<close>

datatype session_event =
    DoSend nat queued_input "json list" "behavior option"
  | DoSendRequest nat json "behavior option" "nat option"
  | DoSendWhenAvailable nat json "nat option"
  | DoQueueIfRunning nat json behavior "nat option"
  | DoContinue nat
  | DoRetry nat
  | DoRequestContinuation nat "json list"
  | DoQueueInput nat behavior string queued_input
  | DoQueueContext nat behavior string "json list"
  | DoQueueOperation nat string queue_operation
  | DoQueueNextTurnContext nat "json list"
  | DoRecordContext nat "json list"
  | DoQueue queue_op
  | DoRestoreQueue queue_snapshot
  | DoSendQueuedNow nat string
  | DoResumeQueue nat
  | DoCancel nat bool
  | DoClose nat
  | WriteBegins
  | WriteEnds session_answer
  | TaskResumes nat string bool
  | WorkSettles nat turn_outcome
  | CallerAborts nat

text \<open>
  The queue operations that reach the queue without passing through the state machine: the
  management of the host, and what a turn under way does with the queue it was given.
\<close>

fun exposed :: "queue_op \<Rightarrow> agent_session \<Rightarrow> bool" where
  "exposed (OpRemove k) s = True"
| "exposed (OpReorder ks) s = True"
| "exposed (OpPromote k) s = True"
| "exposed (OpSteeringMode m) s = True"
| "exposed (OpFollowUpMode m) s = True"
| "exposed OpClear s = True"
| "exposed OpTakeSteering s = (works s \<noteq> [])"
| "exposed OpTakeFollowUps s = (works s \<noteq> [])"
| "exposed (OpFollowUps ms internal) s = (works s \<noteq> [])"
| "exposed op s = False"

text \<open>
  The outcome of an awaited turn; \<open>Some None\<close> when nothing was awaited, \<open>None\<close> while the
  turn is under way.
\<close>

definition awaited :: "nat option \<Rightarrow> agent_session \<Rightarrow> turn_outcome option option" where
  "awaited w s = (case w of None \<Rightarrow> Some None | Some n \<Rightarrow> map_option Some (map_of (outcomes s) n))"

definition threw :: "turn_outcome option \<Rightarrow> bool" where
  "threw oc = (oc = Some TurnLostPersistence \<or> oc = Some TurnThrew)"

text \<open>The turn a task waits for has settled; a bounded cancellation may stop waiting.\<close>

fun waitsFor :: "task \<Rightarrow> nat option" where
  "waitsFor (WhenReleasedTask c r p w) = w"
| "waitsFor (AwaitTurn c w) = Some w"
| "waitsFor (CancelWait c w bounded) = (if bounded then None else w)"
| "waitsFor (SendNowCancel c i w) = w"
| "waitsFor (CloseWait c w) = Some w"
| "waitsFor (DrainTurn ws w) = Some w"
| "waitsFor t = None"

definition resumable :: "nat \<times> task \<Rightarrow> agent_session \<Rightarrow> bool" where
  "resumable bt s = (fst bt \<le> contextDone s \<and> awaited (waitsFor (snd bt)) s \<noteq> None)"

text \<open>
  What follows the await of a task; \<open>k\<close> is the id a queue entry would get and \<open>callerAborted\<close> the
  state of the caller's signal. An awaited turn that rejected makes the call reject with it.
\<close>

definition outcomeOf :: "nat option \<Rightarrow> agent_session \<Rightarrow> turn_outcome option" where
  "outcomeOf w s = (case w of None \<Rightarrow> None | Some n \<Rightarrow> map_of (outcomes s) n)"

fun resumeTask :: "task \<Rightarrow> string \<Rightarrow> bool \<Rightarrow> agent_session \<Rightarrow> agent_session" where
  "resumeTask (SendTask c i trailing b) k ab s = sendResumed c i trailing b k s"
| "resumeTask (RequestTask c r b p) k ab s = requestResumed c r b p k s"
| "resumeTask (QueueIfRunningTask c r b p) k ab s = queueIfRunningResumed c r b p k s"
| "resumeTask (WhenAvailableTask c r p) k ab s = whenAvailableResumed c r p ab s"
| "resumeTask (WhenReleasedTask c r p w) k ab s = whenReleased c r p ab s"
| "resumeTask (ContinueTask c) k ab s = restartResumed c (ContinuationTurn []) s"
| "resumeTask (RetryTask c) k ab s = restartResumed c RetryTurn s"
| "resumeTask (AwaitTurn c w) k ab s =
     (case outcomeOf (Some w) s of Some oc \<Rightarrow> answer c (TurnAnswer oc) s | None \<Rightarrow> s)"
| "resumeTask (CancelWait c w bounded) k ab s =
     (if threw (outcomeOf w s) then answer c (TurnAnswer (the (outcomeOf w s))) s else answer c VoidAnswer s)"
| "resumeTask (SendNowCancel c i w) k ab s =
     (if threw (outcomeOf w s) then answer c (TurnAnswer (the (outcomeOf w s))) s
      else afterWrites (SendNowReady c i) s)"
| "resumeTask (SendNowReady c i) k ab s = sendNowReady c i s"
| "resumeTask (ResumeTask c) k ab s = resumeResumed c s"
| "resumeTask (CloseIdle c) k ab s = shutDown c s"
| "resumeTask (CloseWait c w) k ab s =
     (if threw (outcomeOf (Some w) s) then answer c (TurnAnswer (the (outcomeOf (Some w) s))) s else shutDown c s)"
| "resumeTask AfterOperation k ab s = afterOperation s"
| "resumeTask (DrainTurn ws w) k ab s =
     (case outcomeOf (Some w) s of Some oc \<Rightarrow> drainTurnSettled ws oc s | None \<Rightarrow> s)"
| "resumeTask DrainEnd k ab s = drainEnded s"

fun sessionEvent :: "session_event \<Rightarrow> agent_session \<Rightarrow> agent_session" where
  "sessionEvent (DoSend c i trailing b) s = afterWrites (SendTask c i trailing b) s"
| "sessionEvent (DoSendRequest c r b p) s = afterWrites (RequestTask c r b p) s"
| "sessionEvent (DoSendWhenAvailable c r p) s = afterWrites (WhenAvailableTask c r p) (bindPreparer p s)"
| "sessionEvent (DoQueueIfRunning c r b p) s = afterWrites (QueueIfRunningTask c r b p) s"
| "sessionEvent (DoContinue c) s = afterWrites (ContinueTask c) s"
| "sessionEvent (DoRetry c) s = afterWrites (RetryTask c) s"
| "sessionEvent (DoRequestContinuation c ctx) s = requestContinuation c ctx s"
| "sessionEvent (DoQueueInput c b k i) s = queueInput c b k i s"
| "sessionEvent (DoQueueContext c b k ctx) s = queueContext c b k ctx s"
| "sessionEvent (DoQueueOperation c k p) s = queueOperation c k p s"
| "sessionEvent (DoQueueNextTurnContext c ctx) s = queueNextTurnContext c ctx s"
| "sessionEvent (DoRecordContext c ctx) s = recordContext c ctx s"
| "sessionEvent (DoQueue op) s = (if exposed op s then updateQueue (snd \<circ> queueStep op) s else s)"
| "sessionEvent (DoRestoreQueue snap) s = restoreSessionQueue snap s"
| "sessionEvent (DoSendQueuedNow c k) s = sendQueuedNow c k s"
| "sessionEvent (DoResumeQueue c) s = resumeSessionQueue c s"
| "sessionEvent (DoCancel c bounded) s = cancelSession c bounded s"
| "sessionEvent (DoClose c) s = closeSession c s"
| "sessionEvent WriteBegins s = writeBegins s"
| "sessionEvent (WriteEnds a) s = writeEnds a s"
| "sessionEvent (TaskResumes n k ab) s =
     (if n < length (tasks s) \<and> resumable (tasks s ! n) s
      then resumeTask (snd (tasks s ! n)) k ab (s\<lparr>tasks := take n (tasks s) @ drop (Suc n) (tasks s)\<rparr>)
      else s)"
| "sessionEvent (WorkSettles w oc) s = workSettled w oc s"
| "sessionEvent (CallerAborts w) s = callerAborts w s"

end
