(* ===== verification/AgentSessionInvariant.thy ===== *)
theory AgentSessionInvariant
  imports AgentSession
begin

text \<open>
  The invariant of a session over its events: one work at a time, owned by the state machine; a
  close that waits is answered by the settling turn; and every requested continuation has
  somebody who will start or reject it. It holds for orderly histories, which leave out three
  interleavings that the code does not guard against (a queued input started by
  \<open>sendQueuedNow\<close> after something else has begun, a \<open>close\<close> that overtakes a send, an abort by
  the caller while the session closes) and a restored queue in the middle of a session.
\<close>

section \<open>Orderly histories\<close>

definition orderlyTask :: "task \<Rightarrow> agent_session \<Rightarrow> bool" where
  "orderlyTask t s =
     (case t of SendNowReady c i \<Rightarrow> currentState s = Idle | CloseIdle c \<Rightarrow> activeTurn s = None | _ \<Rightarrow> True)"

fun orderly :: "session_event \<Rightarrow> agent_session \<Rightarrow> bool" where
  "orderly (TaskResumes n k ab) s = (n < length (tasks s) \<longrightarrow> orderlyTask (snd (tasks s ! n)) s)"
| "orderly (CallerAborts w) s = (currentState s \<noteq> Closing)"
| "orderly (DoRestoreQueue snap) s = (works s = [] \<and> tasks s = [])"
| "orderly ev s = True"

fun orderlyRun :: "session_event list \<Rightarrow> agent_session \<Rightarrow> bool" where
  "orderlyRun [] s = True"
| "orderlyRun (ev # evs) s = (orderly ev s \<and> orderlyRun evs (sessionEvent ev s))"

definition runEvents :: "session_event list \<Rightarrow> agent_session \<Rightarrow> agent_session" where
  "runEvents evs s = fold sessionEvent evs s"

lemma orderlyRun_append: "orderlyRun (as @ bs) s = (orderlyRun as s \<and> orderlyRun bs (runEvents as s))"
  by (induction as arbitrary: s) (auto simp: runEvents_def)

section \<open>The invariant\<close>

definition kinds :: "agent_session \<Rightarrow> task set" where
  "kinds s = snd ` set (tasks s)"

definition operationOfWork :: "work \<Rightarrow> (string \<times> queue_operation) option" where
  "operationOfWork x = (case workKind x of OperationWork k p \<Rightarrow> Some (k, p) | _ \<Rightarrow> None)"

definition atRest :: "agent_session \<Rightarrow> bool" where
  "atRest s = (works s = [] \<and> activeTurn s = None \<and> activeController s = None \<and> activeQueueOperation s = None \<and>
     currentState s \<in> {Idle, Closed, RecoveryRequired})"

definition atWork :: "work \<Rightarrow> agent_session \<Rightarrow> bool" where
  "atWork x s = (works s = [x] \<and> activeTurn s = Some (workId x) \<and> activeController s = Some (workId x) \<and>
     activeQueueOperation s = operationOfWork x \<and> currentState s \<in> {Running, Cancelling, Closing})"

definition numbered :: "agent_session \<Rightarrow> bool" where
  "numbered s = ((\<forall>w \<in> workId ` set (works s). w < nextWork s \<and> w \<notin> fst ` set (outcomes s)) \<and>
     (\<forall>w \<in> fst ` set (outcomes s). w < nextWork s))"

definition closeCase :: "agent_session \<Rightarrow> nat \<Rightarrow> bool" where
  "closeCase s w = (currentState s = Closing \<and> activeTurn s = Some w \<or> currentState s = Closed \<or>
     threw (map_of (outcomes s) w))"

text \<open>\<open>X\<close> are tasks that are being resumed.\<close>

definition base :: "task set \<Rightarrow> agent_session \<Rightarrow> bool" where
  "base X s =
     ((atRest s \<or> (\<exists>x. atWork x s)) \<and> numbered s \<and>
      (\<forall>c w. CloseWait c w \<in> X \<union> kinds s \<longrightarrow> closeCase s w) \<and>
      (currentState s = Closing \<longrightarrow> (\<exists>c w. CloseWait c w \<in> X \<union> kinds s \<and> activeTurn s = Some w)) \<and>
      (activeQueueOperation s \<noteq> None \<longrightarrow> \<not> isPaused (inputQueue s)) \<and>
      (continuationWaiters s \<noteq> [] \<longrightarrow> continuationRequested s))"

definition draining :: "task set \<Rightarrow> agent_session \<Rightarrow> bool" where
  "draining X s = (continuationDrain s \<longrightarrow> DrainEnd \<in> X \<union> kinds s \<or> (\<exists>ws w. DrainTurn ws w \<in> X \<union> kinds s))"

text \<open>Who will take care of a requested continuation.\<close>

definition wakeable :: "task set \<Rightarrow> agent_session \<Rightarrow> bool" where
  "wakeable X s =
     (continuationRequested s \<longrightarrow>
        works s \<noteq> [] \<or> continuationDrain s \<or> currentState s = RecoveryRequired \<or>
        (currentState s = Idle \<and> AfterOperation \<in> X \<union> kinds s \<and> \<not> isPaused (inputQueue s)) \<or>
        (currentState s = Closed \<and>
          (\<exists>c w. CloseWait c w \<in> X \<union> kinds s \<and> map_of (outcomes s) w \<noteq> None \<and> \<not> threw (map_of (outcomes s) w))))"

definition sessionInv :: "task set \<Rightarrow> agent_session \<Rightarrow> bool" where
  "sessionInv X s = (base X s \<and> draining X s \<and> wakeable X s)"

section \<open>What the invariant does not look at\<close>

definition core where
  "core s = (currentState s, activeController s, activeTurn s, activeQueueOperation s, continuationRequested s,
     continuationDrain s, continuationWaiters s, works s, nextWork s, outcomes s, kinds s, isPaused (inputQueue s))"

lemma core_cong:
  assumes "core t = core s"
  shows "base X t = base X s" "draining X t = draining X s" "wakeable X t = wakeable X s" "sessionInv X t = sessionInv X s"
proof -
  have f: "currentState t = currentState s" "activeController t = activeController s" "activeTurn t = activeTurn s"
    "activeQueueOperation t = activeQueueOperation s" "continuationRequested t = continuationRequested s"
    "continuationDrain t = continuationDrain s" "continuationWaiters t = continuationWaiters s" "works t = works s"
    "nextWork t = nextWork s" "outcomes t = outcomes s" "kinds t = kinds s"
    "isPaused (inputQueue t) = isPaused (inputQueue s)"
    using assms by (simp_all add: core_def)
  show "base X t = base X s"
    unfolding base_def atRest_def atWork_def numbered_def closeCase_def f ..
  moreover show "draining X t = draining X s" unfolding draining_def f ..
  moreover show "wakeable X t = wakeable X s" unfolding wakeable_def f ..
  ultimately show "sessionInv X t = sessionInv X s" by (simp add: sessionInv_def)
qed

lemma core_quiet [simp]:
  "core (answer c a s) = core s"
  "core (s\<lparr>nextTurnContext := ctx\<rparr>) = core s"
  "core (s\<lparr>inputRequestPreparer := p\<rparr>) = core s"
  "core (s\<lparr>contextWrites := ws\<rparr>) = core s"
  "core (s\<lparr>contextWrites := ws, contextDone := n\<rparr>) = core s"
  "core (s\<lparr>answers := as\<rparr>) = core s"
  "core (bindPreparer q s) = core s"
  by (simp_all add: core_def answer_def kinds_def bindPreparer_def split: option.split)

lemma core_updateQueue: "isPaused (f (inputQueue s)) = isPaused (inputQueue s) \<Longrightarrow> core (updateQueue f s) = core s"
  by (simp add: core_def updateQueue_def kinds_def)

lemma core_onQueue:
  "onQueue f s = (x, t) \<Longrightarrow> isPaused (snd (f (inputQueue s))) = isPaused (inputQueue s) \<Longrightarrow> core t = core s"
  by (auto simp: core_def onQueue_def kinds_def split: prod.splits)

text \<open>The queue operations that leave the pause flag alone.\<close>

lemma paused_same [simp]:
  "isPaused (enqueueEntry b k i q) = isPaused q"
  "isPaused (snd (enqueueWithId b k i q)) = isPaused q"
  "isPaused (snd (enqueueRequestWithId b k r q)) = isPaused q"
  "isPaused (snd (enqueueContext b k ctx q)) = isPaused q"
  "isPaused (snd (enqueueOperationWithId k p q)) = isPaused q"
  "isPaused (enqueueFollowUps ms internal q) = isPaused q"
  "isPaused (snd (removeEntry k q)) = isPaused q"
  "isPaused (reorderFollowUps ks q) = isPaused q"
  "isPaused (snd (promoteToSteering k q)) = isPaused q"
  "isPaused (snd (takeSteeringInputs q)) = isPaused q"
  "isPaused (snd (takeFollowUpInputs q)) = isPaused q"
  "isPaused (snd (takeById k q)) = isPaused q"
  "isPaused (snd (takeFollowUpHead q)) = isPaused q"
  "isPaused (snd (takeFollowUpOperationHead q)) = isPaused q"
  "isPaused (setSteeringMode m q) = isPaused q" "isPaused (setFollowUpMode m q) = isPaused q"
  by (simp_all add: enqueueEntry_def enqueueWithId_def enqueueRequestWithId_def enqueueContext_def enqueue_def
      enqueueOperationWithId_def enqueueFollowUps_def removeEntry_def reorderFollowUps_def promoteToSteering_def
      takeSteeringInputs_def takeFollowUpInputs_def takeById_def takeFollowUpHead_def takeFollowUpOperationHead_def
      setSteeringMode_def setFollowUpMode_def Let_def split: behavior.split option.split prod.split)

lemma paused_resume [simp]: "isPaused (resumeQueue q) = False" "isPaused (snd (clearQueue q)) = False"
  by (auto simp: resumeQueue_def clearQueue_def Let_def)

section \<open>Tasks\<close>

lemma kinds_update [simp]:
  "kinds (currentState_update f1 s) = kinds s" "kinds (activeController_update f2 s) = kinds s"
  "kinds (activeTurn_update f2 s) = kinds s" "kinds (activeQueueOperation_update f3 s) = kinds s"
  "kinds (continuationRequested_update f4 s) = kinds s" "kinds (continuationDrain_update f4 s) = kinds s"
  "kinds (continuationWaiters_update f5 s) = kinds s" "kinds (continuationContext_update f6 s) = kinds s"
  "kinds (nextTurnContext_update f6 s) = kinds s" "kinds (inputQueue_update f7 s) = kinds s"
  "kinds (works_update f8 s) = kinds s" "kinds (answers_update f9 s) = kinds s"
  by (simp_all add: kinds_def)

lemma kinds_afterWrites [simp]: "kinds (afterWrites t s) = insert t (kinds s)" "kinds (later t s) = insert t (kinds s)"
  by (auto simp: kinds_def afterWrites_def later_def)

lemma afterWrites_fields [simp]:
  "currentState (afterWrites t s) = currentState s" "activeController (afterWrites t s) = activeController s"
  "activeTurn (afterWrites t s) = activeTurn s" "activeQueueOperation (afterWrites t s) = activeQueueOperation s"
  "continuationRequested (afterWrites t s) = continuationRequested s"
  "continuationDrain (afterWrites t s) = continuationDrain s"
  "continuationWaiters (afterWrites t s) = continuationWaiters s" "works (afterWrites t s) = works s"
  "nextWork (afterWrites t s) = nextWork s" "outcomes (afterWrites t s) = outcomes s"
  "inputQueue (afterWrites t s) = inputQueue s"
  by (simp_all add: afterWrites_def)

lemma later_fields [simp]:
  "currentState (later t s) = currentState s" "activeController (later t s) = activeController s"
  "activeTurn (later t s) = activeTurn s" "activeQueueOperation (later t s) = activeQueueOperation s"
  "continuationRequested (later t s) = continuationRequested s"
  "continuationDrain (later t s) = continuationDrain s"
  "continuationWaiters (later t s) = continuationWaiters s" "works (later t s) = works s"
  "nextWork (later t s) = nextWork s" "outcomes (later t s) = outcomes s"
  "inputQueue (later t s) = inputQueue s"
  by (simp_all add: later_def)

text \<open>A task that no clause of the invariant mentions.\<close>

fun plainTask :: "task \<Rightarrow> bool" where
  "plainTask (CloseWait c w) = False"
| "plainTask AfterOperation = False"
| "plainTask (DrainTurn ws w) = False"
| "plainTask DrainEnd = False"
| "plainTask t = True"

lemma base_add_task:
  assumes "base X s" "\<And>c w. t \<noteq> CloseWait c w"
  shows "base X (afterWrites t s)" "base X (later t s)"
  using assms(1) assms(2) [symmetric] unfolding base_def atRest_def atWork_def numbered_def closeCase_def by auto

lemma sessionInv_add_task:
  assumes "sessionInv X s" "\<And>c w. t \<noteq> CloseWait c w"
  shows "sessionInv X (afterWrites t s)" "sessionInv X (later t s)"
proof -
  have d: "draining X (afterWrites t s)" "draining X (later t s)" "wakeable X (afterWrites t s)" "wakeable X (later t s)"
    using assms(1) by (auto simp: sessionInv_def draining_def wakeable_def)
  then show "sessionInv X (afterWrites t s)" "sessionInv X (later t s)"
    using assms base_add_task unfolding sessionInv_def by blast+
qed

lemma sessionInv_drop_plain: "sessionInv (insert t X) s \<Longrightarrow> plainTask t \<Longrightarrow> sessionInv X s"
  unfolding sessionInv_def base_def draining_def wakeable_def by (cases t) auto

lemma sessionInv_baseD: "sessionInv X s \<Longrightarrow> base X s"
  by (simp add: sessionInv_def)

section \<open>Starting work\<close>

lemma idle_at_rest: "base X s \<Longrightarrow> currentState s = Idle \<Longrightarrow> atRest s"
  by (auto simp: base_def atWork_def)

lemma beginWork_fields:
  "beginWork k s = (w, t) \<Longrightarrow> currentState t = Running \<and> activeController t = Some w \<and> activeTurn t = Some w \<and>
     w = nextWork s \<and> nextWork t = Suc w \<and> works t = works s @ [\<lparr>workId = w, workKind = k, workAborted = False\<rparr>] \<and>
     activeQueueOperation t = activeQueueOperation s \<and> continuationRequested t = continuationRequested s \<and>
     continuationDrain t = continuationDrain s \<and> continuationWaiters t = continuationWaiters s \<and>
     outcomes t = outcomes s \<and> kinds t = kinds s \<and> inputQueue t = inputQueue s \<and> tasks t = tasks s"
  by (auto simp: beginWork_def Let_def kinds_def)

lemma beginWork_base:
  assumes b: "base X s" and i: "currentState s = Idle" and st: "beginWork k s = (w, t)"
    and op: "case k of OperationWork j p \<Rightarrow> False | _ \<Rightarrow> True"
  shows "base X t" "works t \<noteq> []"
proof -
  note f = beginWork_fields [OF st]
  have rest: "atRest s" using b i by (rule idle_at_rest)
  then have "atWork \<lparr>workId = w, workKind = k, workAborted = False\<rparr> t"
    using f op by (auto simp: atWork_def atRest_def operationOfWork_def split: session_work.splits)
  moreover have "numbered t" using b f rest by (auto simp: base_def numbered_def atRest_def less_Suc_eq)
  ultimately show "base X t"
    using b f i unfolding base_def closeCase_def by auto
  show "works t \<noteq> []" using f by simp
qed

lemma beginWork_inv:
  assumes "base X s" "draining X s" "currentState s = Idle" "beginWork k s = (w, t)"
    "case k of OperationWork j p \<Rightarrow> False | _ \<Rightarrow> True"
  shows "sessionInv X t"
  using beginWork_base [OF assms(1,3,4,5)] beginWork_fields [OF assms(4)] assms(2)
  by (auto simp: sessionInv_def draining_def wakeable_def)

lemma startFor_inv:
  assumes "sessionInv X s" "currentState s = Idle" "case k of OperationWork j p \<Rightarrow> False | _ \<Rightarrow> True"
  shows "sessionInv X (startFor c k s)"
proof -
  obtain w t where st: "beginWork k s = (w, t)" by (cases "beginWork k s")
  have "sessionInv X t" using assms by (intro beginWork_inv [OF _ _ _ st]) (auto simp: sessionInv_def)
  then show ?thesis by (simp add: startFor_def st sessionInv_add_task)
qed

lemma startQueuedInput_inv:
  assumes "base X s" "draining X s" "currentState s = Idle" "wakeable X s"
  shows "sessionInv X (snd (startQueuedInput i s))"
proof -
  have "sessionInv X t" if "beginWork k s = (w, t)" "case k of OperationWork j p \<Rightarrow> False | _ \<Rightarrow> True" for k w t
    using beginWork_inv [OF assms(1-3)] that by blast
  moreover have "sessionInv X s" using assms by (simp add: sessionInv_def)
  ultimately show ?thesis
    unfolding startQueuedInput_def by (simp split: option.split prod.split)
qed

lemma startQueuedOperation_inv:
  assumes b: "base X s" "draining X s" and i: "currentState s = Idle" and p: "\<not> isPaused (inputQueue s)"
  shows "sessionInv X (startQueuedOperation e s)"
proof -
  obtain k op where e: "e = (k, op)" by (cases e)
  let ?s = "s\<lparr>activeQueueOperation := Some e\<rparr>"
  obtain w t where st: "beginWork (OperationWork k op) ?s = (w, t)" by (cases "beginWork (OperationWork k op) ?s")
  note f = beginWork_fields [OF st, simplified]
  have rest: "atRest s" using b(1) i by (rule idle_at_rest)
  have kinds: "kinds t = kinds s" using f by (simp add: kinds_def)
  have "atWork \<lparr>workId = w, workKind = OperationWork k op, workAborted = False\<rparr> t"
    using f rest e by (auto simp: atWork_def atRest_def operationOfWork_def)
  moreover have "numbered t" using b(1) f rest by (auto simp: base_def numbered_def atRest_def less_Suc_eq)
  ultimately have "base X t"
    using b(1) f i p kinds unfolding base_def closeCase_def by auto
  then have "sessionInv X t"
    using b(2) f kinds by (auto simp: sessionInv_def draining_def wakeable_def)
  then show ?thesis using st e by (simp add: startQueuedOperation_def)
qed

lemma startQueuedOperationIfHead_cases:
  assumes "startQueuedOperationIfHead s = (started, t)" "base X s" "draining X s"
  shows "(started \<and> sessionInv X t) \<or> (\<not> started \<and> core t = core s)"
proof (cases "currentState s \<noteq> Idle \<or> isPaused (inputQueue s) \<or> peekFollowUpOperation (inputQueue s) = None")
  case True
  then show ?thesis using assms(1) by (auto simp: startQueuedOperationIfHead_def)
next
  case False
  obtain e u where u: "onQueue takeFollowUpOperationHead s = (e, u)" by (cases "onQueue takeFollowUpOperationHead s")
  have c: "core u = core s" using core_onQueue [OF u] by simp
  then have "currentState u = Idle" "\<not> isPaused (inputQueue u)" using False by (simp_all add: core_def)
  moreover have "base X u" "draining X u" using core_cong [OF c] assms(2,3) by auto
  ultimately have "sessionInv X (startQueuedOperation y u)" for y by (intro startQueuedOperation_inv)
  then show ?thesis
    using assms(1) u c False by (auto simp: startQueuedOperationIfHead_def split: option.splits)
qed

section \<open>Continuations\<close>

lemma reject_inv:
  assumes "base X s" "draining X s"
  shows "sessionInv X (rejectContinuationWaiters e s)"
proof -
  have k: "kinds (rejectContinuationWaiters e s) = kinds s" by (simp add: rejectContinuationWaiters_def kinds_def)
  show ?thesis
    using assms unfolding sessionInv_def base_def atRest_def atWork_def numbered_def closeCase_def draining_def wakeable_def k
    by (simp add: rejectContinuationWaiters_def)
qed

lemma drainLoop_inv:
  assumes b: "base X s"
  shows "base X (drainLoop s)" "draining X (drainLoop s)" "continuationDrain (drainLoop s) = continuationDrain s"
    "currentState s \<noteq> Idle \<Longrightarrow> wakeable X s \<Longrightarrow> wakeable X (drainLoop s)"
    "currentState s = Idle \<Longrightarrow> wakeable X (drainLoop s)"
    "DrainEnd \<in> kinds (drainLoop s) \<or> (\<exists>ws w. DrainTurn ws w \<in> kinds (drainLoop s))"
proof -
  let ?s = "s\<lparr>continuationRequested := False, continuationWaiters := [], continuationContext := []\<rparr>"
  obtain w t where st: "beginWork (ContinuationTurn (continuationContext s)) ?s = (w, t)"
    by (cases "beginWork (ContinuationTurn (continuationContext s)) ?s")
  have k: "kinds ?s = kinds s" by (simp add: kinds_def)
  have b': "base X ?s"
    using b unfolding base_def atRest_def atWork_def numbered_def closeCase_def k by simp
  have go: "drainLoop s = (if continuationRequested s \<and> currentState s = Idle
      then later (DrainTurn (continuationWaiters s) w) t else later DrainEnd s)"
    by (simp add: drainLoop_def Let_def st)
  have bt: "base X t" if "currentState s = Idle" using beginWork_base [OF b' _ st] that by simp
  note f = beginWork_fields [OF st, simplified]
  show "base X (drainLoop s)" using b bt by (simp add: go base_add_task)
  show "draining X (drainLoop s)" by (auto simp: go draining_def)
  show "continuationDrain (drainLoop s) = continuationDrain s" using f by (simp add: go)
  show "currentState s \<noteq> Idle \<Longrightarrow> wakeable X s \<Longrightarrow> wakeable X (drainLoop s)" by (auto simp: go wakeable_def)
  show "currentState s = Idle \<Longrightarrow> wakeable X (drainLoop s)" using f by (auto simp: go wakeable_def)
  show "DrainEnd \<in> kinds (drainLoop s) \<or> (\<exists>ws w. DrainTurn ws w \<in> kinds (drainLoop s))" by (auto simp: go)
qed

lemma schedule_inv:
  assumes b: "base X s" and d: "draining X s"
  shows "sessionInv X (scheduleRequestedContinuations s)"
proof -
  consider (quiet) "\<not> continuationRequested s \<or> continuationDrain s" | (shut) "isShut s"
    | (busy) "\<not> isShut s" "currentState s \<noteq> Idle"
    | (go) "continuationRequested s" "\<not> continuationDrain s" "currentState s = Idle" "\<not> isShut s" by blast
  then show ?thesis
  proof cases
    case quiet
    then show ?thesis using b d by (simp add: scheduleRequestedContinuations_def sessionInv_def wakeable_def)
  next
    case shut
    then show ?thesis
      using b d reject_inv [OF b d]
      by (auto simp: scheduleRequestedContinuations_def sessionInv_def wakeable_def)
  next
    case busy
    then have "works s \<noteq> [] \<or> currentState s = RecoveryRequired"
      using b by (auto simp: base_def atRest_def atWork_def isShut_def)
    then show ?thesis using busy b d by (auto simp: scheduleRequestedContinuations_def sessionInv_def wakeable_def)
  next
    case go
    let ?t = "(drainLoop s)\<lparr>continuationDrain := True\<rparr>"
    have k: "kinds ?t = kinds (drainLoop s)" by (simp add: kinds_def)
    have "base X ?t"
      using drainLoop_inv(1) [OF b] unfolding base_def atRest_def atWork_def numbered_def closeCase_def k by simp
    moreover have "draining X ?t" using drainLoop_inv(6) [OF b] by (auto simp: draining_def k)
    moreover have "wakeable X ?t" by (simp add: wakeable_def)
    ultimately show ?thesis using go by (simp add: scheduleRequestedContinuations_def sessionInv_def)
  qed
qed

section \<open>Ending work\<close>

lemma map_of_snoc: "map_of (xs @ [(w, v)]) k = (case map_of xs k of Some y \<Rightarrow> Some y | None \<Rightarrow> if k = w then Some v else None)"
  by (auto simp: map_add_def split: option.split)

lemma settled_base:
  assumes b: "base X s" and d: "draining X s" and x: "atWork x s"
    and t: "works t = []" "activeTurn t = None" "activeController t = None" "activeQueueOperation t = None"
      "outcomes t = outcomes s @ [(workId x, oc)]" "nextWork t = nextWork s" "kinds t = kinds s"
      "continuationWaiters t = continuationWaiters s" "continuationRequested t = continuationRequested s"
      "continuationDrain t = continuationDrain s"
      "currentState t = (if oc = TurnLostPersistence then RecoveryRequired
         else if currentState s = Closing then Closed else Idle)"
  shows "base X t" "draining X t"
proof -
  have n: "workId x \<notin> fst ` set (outcomes s)" "workId x < nextWork s"
    using b x by (auto simp: base_def numbered_def atWork_def)
  then have fresh: "map_of (outcomes s) (workId x) = None" by (simp add: map_of_eq_None_iff)
  have old: "threw (map_of (outcomes s) w) \<Longrightarrow> threw (map_of (outcomes t) w)" for w
    unfolding t(5) map_of_snoc by (auto simp: threw_def split: option.split)
  have new: "map_of (outcomes t) (workId x) = Some oc" unfolding t(5) map_of_snoc by (simp add: fresh)
  have "closeCase t w" if "CloseWait c w \<in> X \<union> kinds s" for c w
  proof -
    have "closeCase s w" using b that by (auto simp: base_def)
    then consider "currentState s = Closing" "w = workId x" | "threw (map_of (outcomes s) w)"
      using x by (auto simp: closeCase_def atWork_def)
    then show ?thesis
    proof cases
      case 1
      then show ?thesis using t(11) new by (auto simp: closeCase_def threw_def)
    next
      case 2
      then show ?thesis using old by (simp add: closeCase_def)
    qed
  qed
  moreover have "atRest t" using t by (simp add: atRest_def)
  moreover have "numbered t" using b x n t by (auto simp: base_def numbered_def atWork_def)
  ultimately show "base X t" using b t unfolding base_def by auto
  show "draining X t" using d t by (simp add: draining_def)
qed

lemma finish_inv:
  assumes b: "base X t" and d: "draining X t"
    and t: "t = s\<lparr>activeController := None, activeTurn := None,
      currentState := (case currentState s of Closing \<Rightarrow> Closed | RecoveryRequired \<Rightarrow> RecoveryRequired | _ \<Rightarrow> Idle)\<rparr>"
  shows "sessionInv X (finishActiveTurn False s)"
    "sessionInv X (finishActiveTurn True s) \<or> core (finishActiveTurn True s) = core t"
proof -
  obtain started u where u: "startQueuedOperationIfHead t = (started, u)" by (cases "startQueuedOperationIfHead t")
  have cases: "(started \<and> sessionInv X u) \<or> (\<not> started \<and> core u = core t)"
    using startQueuedOperationIfHead_cases [OF u b d] .
  have fin: "finishActiveTurn df s = (if \<not> df \<and> \<not> started then scheduleRequestedContinuations u else u)" for df
    by (simp add: finishActiveTurn_def Let_def t [symmetric] u)
  show "sessionInv X (finishActiveTurn False s)"
    using cases core_cong(1,2) [of u t X] b d by (auto simp: fin intro: schedule_inv)
  show "sessionInv X (finishActiveTurn True s) \<or> core (finishActiveTurn True s) = core t"
    using cases by (auto simp: fin)
qed

lemma pauseIfPending_fields [simp]:
  "currentState (pauseIfPending s) = currentState s" "works (pauseIfPending s) = works s"
  "activeTurn (pauseIfPending s) = activeTurn s" "activeController (pauseIfPending s) = activeController s"
  "activeQueueOperation (pauseIfPending s) = activeQueueOperation s" "outcomes (pauseIfPending s) = outcomes s"
  "nextWork (pauseIfPending s) = nextWork s" "kinds (pauseIfPending s) = kinds s"
  "continuationWaiters (pauseIfPending s) = continuationWaiters s"
  "continuationRequested (pauseIfPending s) = continuationRequested s"
  "continuationDrain (pauseIfPending s) = continuationDrain s"
  by (simp_all add: pauseIfPending_def updateQueue_def kinds_def)

lemma removeWork_fields [simp]:
  "currentState (removeWork w oc s) = currentState s" "works (removeWork w oc s) = filter (\<lambda>x. workId x \<noteq> w) (works s)"
  "activeTurn (removeWork w oc s) = activeTurn s" "activeController (removeWork w oc s) = activeController s"
  "activeQueueOperation (removeWork w oc s) = activeQueueOperation s"
  "outcomes (removeWork w oc s) = outcomes s @ [(w, oc)]"
  "nextWork (removeWork w oc s) = nextWork s" "kinds (removeWork w oc s) = kinds s"
  "continuationWaiters (removeWork w oc s) = continuationWaiters s"
  "continuationRequested (removeWork w oc s) = continuationRequested s"
  "continuationDrain (removeWork w oc s) = continuationDrain s" "inputQueue (removeWork w oc s) = inputQueue s"
  by (simp_all add: removeWork_def kinds_def)

lemma turnSettled_inv:
  assumes inv: "sessionInv X s" and x: "atWork x s" and k: "operationOfWork x = None"
  shows "sessionInv X (turnSettled x oc s)"
proof -
  define u where "u = (let s1 = removeWork (workId x) oc s in
    case oc of TurnEnded st \<Rightarrow> if endsWell (workKind x) st then s1 else pauseIfPending s1
      | TurnLostPersistence \<Rightarrow> pauseIfPending (s1\<lparr>currentState := RecoveryRequired\<rparr>)
      | TurnThrew \<Rightarrow> pauseIfPending s1)"
  define t where "t = u\<lparr>activeController := None, activeTurn := None,
      currentState := (case currentState u of Closing \<Rightarrow> Closed | RecoveryRequired \<Rightarrow> RecoveryRequired | _ \<Rightarrow> Idle)\<rparr>"
  have b: "base X s" "draining X s" using inv by (simp_all add: sessionInv_def)
  have "base X t \<and> draining X t"
    using x k
    by (intro conjI settled_base [OF b x, of t oc])
      (auto simp: t_def u_def Let_def atWork_def split: turn_outcome.split)
  then have "sessionInv X (finishActiveTurn False u)" by (intro finish_inv(1) [OF _ _ t_def]) auto
  then show ?thesis by (simp add: turnSettled_def u_def Let_def)
qed

lemma operationSettled_inv:
  assumes inv: "sessionInv X s" and x: "atWork x s" and k: "operationOfWork x = Some (k, p)"
  shows "sessionInv X (operationSettled x k s)"
proof -
  define u where "u = (removeWork (workId x) (TurnEnded TurnHandled) s)\<lparr>activeQueueOperation := None\<rparr>"
  define t where "t = u\<lparr>activeController := None, activeTurn := None,
      currentState := (case currentState u of Closing \<Rightarrow> Closed | RecoveryRequired \<Rightarrow> RecoveryRequired | _ \<Rightarrow> Idle)\<rparr>"
  have b: "base X s" "draining X s" using inv by (simp_all add: sessionInv_def)
  have "base X t \<and> draining X t"
    using x
    by (intro conjI settled_base [OF b x, of t "TurnEnded TurnHandled"]) (auto simp: t_def u_def atWork_def)
  then have bt: "base X t" "draining X t" by auto
  have fin: "operationSettled x k s = later AfterOperation (finishActiveTurn True u)"
    using x k by (simp add: operationSettled_def u_def Let_def atWork_def)
  from finish_inv(2) [OF bt t_def] show ?thesis
  proof
    assume "sessionInv X (finishActiveTurn True u)"
    then show ?thesis by (simp add: fin sessionInv_add_task)
  next
    let ?f = "finishActiveTurn True u"
    assume c: "core ?f = core t"
    have bf: "base X ?f" "draining X ?f" using core_cong [OF c] bt by auto
    have "\<not> isPaused (inputQueue s)" using b(1) x k by (simp add: base_def atWork_def)
    then have p: "\<not> isPaused (inputQueue ?f)" using c by (simp add: core_def t_def u_def)
    have st: "currentState ?f = (if currentState s = Closing then Closed else Idle)"
      using c x by (auto simp: core_def t_def u_def atWork_def)
    let ?l = "later AfterOperation ?f"
    have cl: "\<exists>c w. CloseWait c w \<in> X \<union> kinds ?l \<and> map_of (outcomes ?l) w \<noteq> None \<and> \<not> threw (map_of (outcomes ?l) w)"
      if closing: "currentState s = Closing"
    proof -
      obtain c' where mem: "CloseWait c' (workId x) \<in> X \<union> kinds s"
        using b(1) closing x by (auto simp: base_def atWork_def)
      have "workId x \<notin> fst ` set (outcomes s)" using b(1) x by (auto simp: base_def numbered_def atWork_def)
      then have m: "map_of (outcomes s @ [(workId x, TurnEnded TurnHandled)]) (workId x) = Some (TurnEnded TurnHandled)"
        unfolding map_of_snoc by (simp add: map_of_eq_None_iff [symmetric] split: option.split)
      have o: "outcomes ?f = outcomes s @ [(workId x, TurnEnded TurnHandled)]" "kinds ?f = kinds s"
        using c by (simp_all add: core_def t_def u_def)
      show ?thesis
        using mem unfolding kinds_afterWrites later_fields o
        by (intro exI [of _ c'] exI [of _ "workId x"], unfold m) (simp add: threw_def)
    qed
    have "wakeable X ?l"
    proof (cases "currentState s = Closing")
      case True
      then show ?thesis using cl st unfolding wakeable_def by simp
    next
      case False
      then show ?thesis using p st unfolding wakeable_def by simp
    qed
    then show ?thesis
      using bf base_add_task [OF bf(1), of AfterOperation] by (auto simp: fin sessionInv_def draining_def)
  qed
qed

lemma workSettled_inv:
  assumes "sessionInv X s"
  shows "sessionInv X (workSettled w oc s)"
proof (cases "find (\<lambda>x. workId x = w) (works s)")
  case (Some x)
  then have x: "atWork x s"
    using assms by (auto simp: sessionInv_def base_def atRest_def atWork_def split: if_splits)
  show ?thesis
    using turnSettled_inv [OF assms x, of oc] operationSettled_inv [OF assms x] Some
    by (auto simp: workSettled_def operationOfWork_def split: session_work.split)
qed (use assms in \<open>simp add: workSettled_def\<close>)

lemma afterOperation_inv:
  assumes inv: "sessionInv (insert AfterOperation X) s"
  shows "sessionInv X (afterOperation s)"
proof -
  have b: "base X s" and d: "draining X s" using inv by (auto simp: sessionInv_def base_def draining_def)
  show ?thesis
  proof (cases "currentState s \<noteq> Idle \<or> isPaused (inputQueue s)")
    case True
    then show ?thesis using inv b d by (auto simp: afterOperation_def sessionInv_def wakeable_def)
  next
    case False
    obtain e u where u: "onQueue takeFollowUpOperationHead s = (e, u)" by (cases "onQueue takeFollowUpOperationHead s")
    obtain i v where v: "onQueue takeFollowUpHead u = (i, v)" by (cases "onQueue takeFollowUpHead u")
    have cu: "core u = core s" using core_onQueue [OF u] by simp
    have cv: "core v = core s" using core_onQueue [OF v] cu by simp
    have "currentState u = Idle" "\<not> isPaused (inputQueue u)" "base X u" "draining X u"
      using False b d cu core_cong [OF cu] by (auto simp: core_def)
    then have "sessionInv X (startQueuedOperation y u)" for y by (intro startQueuedOperation_inv)
    moreover have st: "currentState v = Idle" "base X v" "draining X v"
      using False b d cv core_cong [OF cv] by (auto simp: core_def)
    have "sessionInv X (scheduleRequestedContinuations v)" using schedule_inv [OF st(2,3)] .
    moreover have "sessionInv X (snd (startQueuedInput y v))" if y: "i = Some y" for y
    proof -
      obtain q where "takeFollowUpHead (inputQueue u) = (Some y, q)"
        using v y by (auto simp: onQueue_def split: prod.splits)
      then have ex: "isExecutableInput y"
        by (auto simp: takeFollowUpHead_def takeFirst_def split: option.splits prod.splits dest!: removeSlot_split)
      have "sessionInv X t" if "beginWork k v = (w, t)" "case k of OperationWork j p \<Rightarrow> False | _ \<Rightarrow> True" for k w t
        using beginWork_inv [OF st(2,3,1)] that by blast
      then show ?thesis using ex
        by (auto simp: startQueuedInput_def isExecutableInput_def split: option.split prod.split)
    qed
    ultimately show ?thesis
      using False u v by (auto simp: afterOperation_def split: option.split prod.split)
  qed
qed

end
