(* ===== verification/AgentSessionEvents.thy ===== *)
theory AgentSessionEvents
  imports AgentSessionInvariant
begin

text \<open>
  Every event of an orderly history keeps the invariant of the session: the calls, the resumption
  of each task, and the settling of work.
\<close>

section \<open>Calls\<close>

lemma inv_core: "sessionInv X s \<Longrightarrow> core t = core s \<Longrightarrow> sessionInv X t"
  using core_cong(4) by blast

lemma inv_answer [simp]: "sessionInv X (answer c a s) = sessionInv X s"
  by (rule core_cong(4)) simp

lemma queueInput_core: "core (queueInput c b k i s) = core s"
proof -
  have "core t = core s" if "onQueue (enqueueWithId b' k i) s = (x, t)" for b' x t
    using core_onQueue [OF that] by simp
  then show ?thesis by (auto simp: queueInput_def Let_def split: option.split prod.split)
qed

lemma queueRequest_core: "core (queueRequest c b k r s) = core s"
proof -
  have "core t = core s" if "onQueue (enqueueRequestWithId b' k r) s = (x, t)" for b' x t
    using core_onQueue [OF that] by simp
  then show ?thesis by (auto simp: queueRequest_def Let_def split: prod.split)
qed

lemma queueContext_core: "core (queueContext c b k ctx s) = core s"
proof -
  have "core t = core s" if "onQueue (enqueueContext b' k ctx) s = (x, t)" for b' x t
    using core_onQueue [OF that] by simp
  then show ?thesis by (auto simp: queueContext_def Let_def split: option.split prod.split)
qed

lemma idle_core: "core t = core s \<Longrightarrow> currentState t = currentState s"
  by (simp add: core_def)

lemma sendResumed_inv: "sessionInv X s \<Longrightarrow> sessionInv X (sendResumed c i tr b k s)"
proof -
  assume inv: "sessionInv X s"
  have "sessionInv X (startFor c (InputTurn i tr') (s\<lparr>nextTurnContext := []\<rparr>))" if "currentState s = Idle" for tr'
    using that inv by (intro startFor_inv) (auto intro: inv_core)
  then show ?thesis
    using inv by (auto simp: sendResumed_def intro: inv_core [OF inv] queueInput_core split: option.split)
qed

lemma requestResumed_inv: "sessionInv X s \<Longrightarrow> sessionInv X (requestResumed c r b p k s)"
proof -
  assume "sessionInv X s"
  then have inv: "sessionInv X (bindPreparer p s)" by (rule inv_core) simp
  show ?thesis
    using inv startFor_inv [OF inv]
    by (auto simp: requestResumed_def Let_def intro: inv_core [OF inv] queueRequest_core split: option.split)
qed

lemma queueIfRunningResumed_inv: "sessionInv X s \<Longrightarrow> sessionInv X (queueIfRunningResumed c r b p k s)"
proof -
  assume "sessionInv X s"
  then have inv: "sessionInv X (bindPreparer p s)" by (rule inv_core) simp
  show ?thesis
    by (auto simp: queueIfRunningResumed_def Let_def intro: inv_core [OF inv] queueRequest_core split: option.split)
qed

lemma whenAvailable_inv:
  assumes inv: "sessionInv X s"
  shows "sessionInv X (whenAvailableResumed c r p ab s)" "sessionInv X (whenReleased c r p ab s)"
    "sessionInv X (restartResumed c RetryTurn s)" "sessionInv X (restartResumed c (ContinuationTurn ctx) s)"
  using inv startFor_inv [OF inv] sessionInv_add_task [OF inv]
  by (auto simp: whenAvailableResumed_def whenReleased_def restartResumed_def intro: inv_core [OF inv] split: option.split)

lemma requestContinuation_inv:
  assumes inv: "sessionInv X s"
  shows "sessionInv X (requestContinuation c ctx s)"
proof -
  let ?s = "s\<lparr>continuationRequested := True, continuationContext := continuationContext s @ ctx,
    continuationWaiters := continuationWaiters s @ [c]\<rparr>"
  have "base X ?s" "draining X ?s"
    using inv by (auto simp: sessionInv_def base_def atRest_def atWork_def numbered_def closeCase_def draining_def)
  then have "sessionInv X (scheduleRequestedContinuations ?s)" by (rule schedule_inv)
  then show ?thesis by (auto simp: requestContinuation_def intro: inv_core [OF inv])
qed

lemma startIfHead_inv:
  assumes "sessionInv X s"
  shows "sessionInv X (snd (startQueuedOperationIfHead s))"
proof -
  obtain st t where t: "startQueuedOperationIfHead s = (st, t)" by (cases "startQueuedOperationIfHead s")
  show ?thesis using startQueuedOperationIfHead_cases [OF t] assms inv_core [OF assms] t by (auto simp: sessionInv_def)
qed

lemma queueOperation_inv:
  assumes inv: "sessionInv X s"
  shows "sessionInv X (queueOperation c k p s)"
proof -
  have "sessionInv X (snd (startQueuedOperationIfHead t))" if "onQueue (enqueueOperationWithId k p) s = (x, t)" for x t
    using core_onQueue [OF that] by (intro startIfHead_inv inv_core [OF inv]) simp
  then show ?thesis
    by (auto simp: queueOperation_def intro: inv_core [OF inv] inv_core split: option.split prod.split)
qed

lemma unpause_inv:
  assumes "sessionInv X s" "\<not> isPaused (f (inputQueue s))"
  shows "sessionInv X (updateQueue f s)"
  using assms
  by (auto simp: sessionInv_def base_def atRest_def atWork_def numbered_def closeCase_def draining_def wakeable_def updateQueue_def)

lemma abortWork_inv:
  assumes "sessionInv X s"
  shows "sessionInv X (abortWork w s)"
proof -
  let ?f = "\<lambda>x. if Some (workId x) = w then x\<lparr>workAborted := True\<rparr> else x"
  let ?t = "abortWork w s"
  have ids: "workId (?f x) = workId x" "operationOfWork (?f x) = operationOfWork x" for x
    by (simp_all add: operationOfWork_def)
  have f: "currentState ?t = currentState s" "activeTurn ?t = activeTurn s" "activeController ?t = activeController s"
    "activeQueueOperation ?t = activeQueueOperation s" "outcomes ?t = outcomes s" "nextWork ?t = nextWork s"
    "kinds ?t = kinds s" "continuationWaiters ?t = continuationWaiters s"
    "continuationRequested ?t = continuationRequested s" "continuationDrain ?t = continuationDrain s"
    "inputQueue ?t = inputQueue s" "works ?t = map ?f (works s)"
    by (simp_all add: abortWork_def)
  have "atRest ?t = atRest s" by (simp add: atRest_def f)
  moreover have "atWork (?f x) ?t" if "atWork x s" for x using that ids [of x] by (auto simp: atWork_def f)
  moreover have "workId ` set (map ?f (works s)) = workId ` set (works s)" by (simp only: set_map image_image ids)
  then have "numbered ?t = numbered s" by (simp only: numbered_def f)
  ultimately show ?thesis
    using assms unfolding sessionInv_def base_def draining_def wakeable_def closeCase_def f by auto
qed

lemma setState_inv:
  assumes inv: "sessionInv X s" and x: "atWork x s" and st: "currentState s \<noteq> Closing" "v \<in> {Running, Cancelling}"
  shows "sessionInv X (s\<lparr>currentState := v\<rparr>)"
proof -
  have "atWork x (s\<lparr>currentState := v\<rparr>)" using x st by (auto simp: atWork_def)
  moreover have "numbered (s\<lparr>currentState := v\<rparr>)" using inv by (simp add: sessionInv_def base_def numbered_def)
  moreover have "currentState s \<noteq> Closed" "works s \<noteq> []" using x by (auto simp: atWork_def)
  ultimately show ?thesis
    using inv st unfolding sessionInv_def base_def draining_def wakeable_def closeCase_def by auto
qed

lemma cancelNow_inv:
  assumes inv: "sessionInv X s"
  shows "sessionInv X (snd (cancelNow s))"
proof (cases "currentState s \<noteq> Running \<and> currentState s \<noteq> Cancelling")
  case False
  then obtain x where "atWork x s" using inv by (auto simp: sessionInv_def base_def atRest_def)
  then have "sessionInv X (s\<lparr>currentState := Cancelling\<rparr>)" using inv False by (intro setState_inv) auto
  then have "sessionInv X (rejectContinuationWaiters e (s\<lparr>currentState := Cancelling\<rparr>))" for e
    by (intro reject_inv) (simp_all add: sessionInv_def)
  then show ?thesis using False by (auto simp: cancelNow_def intro: abortWork_inv)
qed (use inv in \<open>simp add: cancelNow_def\<close>)

lemma cancelSession_inv: "sessionInv X s \<Longrightarrow> sessionInv X (cancelSession c b s)"
proof -
  assume inv: "sessionInv X s"
  obtain w t where t: "cancelNow s = (w, t)" by (cases "cancelNow s")
  have "sessionInv X t" using cancelNow_inv [OF inv] t by simp
  then show ?thesis using t by (auto simp: cancelSession_def sessionInv_add_task intro: inv_core split: option.split)
qed

lemma sendQueuedNow_inv: "sessionInv X s \<Longrightarrow> sessionInv X (sendQueuedNow c k s)"
proof -
  assume inv: "sessionInv X s"
  obtain i s1 where s1: "onQueue (takeById k) s = (i, s1)" by (cases "onQueue (takeById k) s")
  have inv1: "sessionInv X s1" by (rule inv_core [OF inv]) (use core_onQueue [OF s1] in simp)
  obtain w t where t: "cancelNow s1 = (w, t)" by (cases "cancelNow s1")
  have "sessionInv X t" using cancelNow_inv [OF inv1] t by simp
  then show ?thesis
    using inv inv1 s1 t
    by (auto simp: sendQueuedNow_def sessionInv_add_task intro: inv_core split: option.split)
qed

lemma sendNowReady_inv:
  assumes inv: "sessionInv X s" and i: "currentState s = Idle"
  shows "sessionInv X (sendNowReady c q s)"
proof -
  let ?s = "updateQueue resumeQueue s"
  have inv': "sessionInv X ?s" using inv by (rule unpause_inv) simp
  have "currentState ?s = Idle" using i by (simp add: updateQueue_def)
  with inv' have "sessionInv X (snd (startQueuedInput q ?s))"
    by (intro startQueuedInput_inv) (auto simp: sessionInv_def)
  then show ?thesis
    by (cases "startQueuedInput q ?s") (auto simp: sendNowReady_def intro: inv_core split: sum.split)
qed

lemma resumeSessionQueue_inv: "sessionInv X s \<Longrightarrow> sessionInv X (resumeSessionQueue c s)"
proof -
  assume inv: "sessionInv X s"
  then have "sessionInv X (updateQueue resumeQueue s)" by (rule unpause_inv) simp
  then show ?thesis using inv
    by (auto simp: resumeSessionQueue_def Let_def sessionInv_add_task intro: inv_core split: option.split)
qed

lemma resumeResumed_inv:
  assumes inv: "sessionInv X s"
  shows "sessionInv X (resumeResumed c s)"
proof (cases "currentState s = Idle")
  case True
  obtain st s1 where s1: "startQueuedOperationIfHead s = (st, s1)" by (cases "startQueuedOperationIfHead s")
  have cases: "(st \<and> sessionInv X s1) \<or> (\<not> st \<and> core s1 = core s)"
    using startQueuedOperationIfHead_cases [OF s1] inv by (simp add: sessionInv_def)
  obtain i s2 where s2: "onQueue takeFollowUpHead s1 = (i, s2)" by (cases "onQueue takeFollowUpHead s1")
  have c2: "core s2 = core s1" using core_onQueue [OF s2] by simp
  have inv2: "sessionInv X s2" "currentState s2 = Idle" if "\<not> st"
    using cases that c2 inv_core [OF inv] idle_core [of s2 s] True by auto
  then have "sessionInv X (snd (startQueuedInput j s2))" if "\<not> st" for j
    using that by (intro startQueuedInput_inv) (auto simp: sessionInv_def)
  then have "sessionInv X s3" if "\<not> st" "startQueuedInput j s2 = (r, s3)" for j r s3
    using that by (metis snd_conv)
  then show ?thesis
    using True s1 s2 cases inv2
    by (auto simp: resumeResumed_def sessionInv_add_task intro: inv_core split: bool.split option.split prod.split sum.split)
qed (use inv in \<open>auto simp: resumeResumed_def intro: inv_core\<close>)

lemma shutDown_inv:
  assumes b: "base X s" and d: "draining Y s" and r: "atRest s"
  shows "sessionInv Y (shutDown c s)"
proof -
  let ?s = "rejectContinuationWaiters SessionClosedError
    ((updateQueue (snd \<circ> clearQueue) s)\<lparr>nextTurnContext := [], currentState := Closed\<rparr>)"
  have k: "kinds ?s = kinds s" by (simp add: updateQueue_def rejectContinuationWaiters_def)
  have "atRest ?s" using r by (simp add: atRest_def updateQueue_def rejectContinuationWaiters_def)
  moreover have "numbered ?s"
    using b by (simp add: base_def numbered_def updateQueue_def rejectContinuationWaiters_def)
  ultimately have "sessionInv Y ?s"
    using d r k unfolding sessionInv_def base_def closeCase_def draining_def wakeable_def
    by (simp add: updateQueue_def rejectContinuationWaiters_def atRest_def)
  then show ?thesis by (simp add: shutDown_def)
qed

lemma closeIdle_inv:
  assumes "sessionInv X s" "activeTurn s = None"
  shows "sessionInv X (shutDown c s)"
proof -
  have "base X s" "draining X s" using assms(1) by (simp_all add: sessionInv_def)
  moreover have "atRest s" using assms by (auto simp: sessionInv_def base_def atWork_def)
  ultimately show ?thesis by (rule shutDown_inv)
qed

lemma active_unsettled:
  assumes "sessionInv X s" "activeTurn s = Some w"
  shows "map_of (outcomes s) w = None"
proof -
  obtain x where "atWork x s" using assms by (auto simp: sessionInv_def base_def atRest_def)
  then have "w \<in> workId ` set (works s)" using assms(2) by (auto simp: atWork_def)
  moreover have "numbered s" using assms(1) by (simp add: sessionInv_def base_def)
  ultimately have "w \<notin> fst ` set (outcomes s)" unfolding numbered_def by blast
  then show ?thesis by (simp add: map_of_eq_None_iff)
qed

text \<open>A close that waited for the turn \<open>w\<close>.\<close>

lemma closeWait_rest:
  assumes inv: "sessionInv X s" and m: "CloseWait c w \<in> X" and oc: "map_of (outcomes s) w = Some oc" "\<not> threw (Some oc)"
  shows "atRest s"
proof -
  have "closeCase s w" using inv m by (auto simp: sessionInv_def base_def)
  moreover have "activeTurn s \<noteq> Some w" using active_unsettled [OF inv, of w] oc(1) by auto
  ultimately have "currentState s = Closed" using oc by (simp add: closeCase_def)
  then show ?thesis using inv by (auto simp: sessionInv_def base_def atWork_def)
qed

lemma closeWait_threw:
  assumes inv: "sessionInv (insert (CloseWait c w) X) s" and oc: "threw (map_of (outcomes s) w)"
  shows "sessionInv X s"
proof -
  have "activeTurn s \<noteq> Some w" using active_unsettled [OF inv, of w] oc by (auto simp: threw_def)
  then have ne: "activeTurn s = Some w' \<Longrightarrow> w' \<noteq> w" for w' by auto
  have sub: "X \<union> kinds s \<subseteq> insert (CloseWait c w) X \<union> kinds s" by auto
  have other: "CloseWait c' w' \<in> insert (CloseWait c w) X \<union> kinds s \<Longrightarrow> w' \<noteq> w \<Longrightarrow> CloseWait c' w' \<in> X \<union> kinds s"
    for c' w' by auto
  have b: "base (insert (CloseWait c w) X) s" and k: "wakeable (insert (CloseWait c w) X) s" and d: "draining X s"
    using inv by (auto simp: sessionInv_def draining_def)
  have "base X s"
    unfolding base_def
  proof (intro conjI)
    show "\<forall>c w. CloseWait c w \<in> X \<union> kinds s \<longrightarrow> closeCase s w" using b sub unfolding base_def by blast
    show "currentState s = Closing \<longrightarrow> (\<exists>c w. CloseWait c w \<in> X \<union> kinds s \<and> activeTurn s = Some w)"
      using b other ne unfolding base_def by blast
  qed (use b in \<open>simp_all add: base_def\<close>)
  moreover have "wakeable X s"
  proof (cases "currentState s = Closed \<and> continuationRequested s \<and> works s = [] \<and> \<not> continuationDrain s")
    case True
    then obtain c' w' where cw: "CloseWait c' w' \<in> insert (CloseWait c w) X \<union> kinds s"
      "map_of (outcomes s) w' \<noteq> None" "\<not> threw (map_of (outcomes s) w')"
      using k unfolding wakeable_def by auto
    then have "w' \<noteq> w" using oc by auto
    then show ?thesis using cw other unfolding wakeable_def using True by blast
  qed (use k in \<open>auto simp: wakeable_def\<close>)
  ultimately show ?thesis using d by (simp add: sessionInv_def)
qed

lemma closeWait_inv:
  assumes inv: "sessionInv (insert (CloseWait c w) X) s" and oc: "map_of (outcomes s) w = Some oc"
  shows "sessionInv X (resumeTask (CloseWait c w) k ab s)"
proof (cases "threw (Some oc)")
  case True
  then show ?thesis using closeWait_threw [OF inv] oc by (simp add: outcomeOf_def)
next
  case False
  have r: "atRest s" by (rule closeWait_rest [OF inv insertI1 oc False])
  have "base (insert (CloseWait c w) X) s" "draining X s"
    using inv by (auto simp: sessionInv_def draining_def)
  then have "sessionInv X (shutDown c s)" using r by (rule shutDown_inv)
  then show ?thesis using False oc by (simp add: outcomeOf_def)
qed

lemma closeSession_inv:
  assumes inv: "sessionInv X s"
  shows "sessionInv X (closeSession c s)"
proof (cases "activeTurn s")
  case None
  then show ?thesis using inv by (simp add: closeSession_def sessionInv_add_task)
next
  case (Some w)
  then obtain x where x: "atWork x s" using inv by (auto simp: sessionInv_def base_def atRest_def)
  let ?s = "later (CloseWait c w) (s\<lparr>currentState := Closing\<rparr>)"
  have "atWork x ?s" "numbered ?s" "works ?s \<noteq> []"
    using x inv by (auto simp: atWork_def sessionInv_def base_def numbered_def)
  moreover have "currentState s \<noteq> Closed" using x by (auto simp: atWork_def)
  ultimately have "sessionInv X ?s"
    using inv Some unfolding sessionInv_def base_def draining_def wakeable_def closeCase_def by auto
  then have "sessionInv X (abortWork v ?s)" for v by (rule abortWork_inv)
  moreover have "abortWork v ?s = later (CloseWait c w) (abortWork v (s\<lparr>currentState := Closing\<rparr>))" for v
    by (simp add: abortWork_def later_def)
  moreover have "currentState s \<noteq> Closed" using x by (auto simp: atWork_def)
  ultimately show ?thesis using Some by (simp add: closeSession_def)
qed

lemma callerAborts_inv:
  assumes inv: "sessionInv X s" and "currentState s \<noteq> Closing"
  shows "sessionInv X (callerAborts w s)"
proof (cases "activeController s = Some w")
  case True
  then obtain x where "atWork x s" using inv by (auto simp: sessionInv_def base_def atRest_def)
  then have "sessionInv X (s\<lparr>currentState := Cancelling\<rparr>)" using inv assms by (intro setState_inv) auto
  then show ?thesis using inv by (auto simp: callerAborts_def intro: abortWork_inv)
qed (use inv in \<open>simp add: callerAborts_def\<close>)

lemma exposed_inv:
  assumes inv: "sessionInv X s" and e: "exposed op s"
  shows "sessionInv X (updateQueue (snd \<circ> queueStep op) s)"
proof (cases "op = OpClear")
  case True
  have "\<not> isPaused (snd (queueStep OpClear q))" for q
    using paused_resume(2) [of q] by (cases "clearQueue q") (auto split: prod.split)
  then show ?thesis using inv True by (intro unpause_inv) simp_all
next
  case False
  then have "isPaused (snd (queueStep op q)) = isPaused q" for q using e by (cases op) simp_all
  then show ?thesis by (intro inv_core [OF inv] core_updateQueue) simp
qed

lemma restore_inv:
  assumes inv: "sessionInv {} s" and e: "works s = []" "tasks s = []"
  shows "sessionInv {} (restoreSessionQueue snap s)"
proof -
  have "sessionInv {} (updateQueue (restoreQueue snap) s)"
    using inv e unfolding sessionInv_def base_def atRest_def atWork_def numbered_def closeCase_def draining_def wakeable_def
    by (auto simp: updateQueue_def kinds_def)
  then show ?thesis unfolding restoreSessionQueue_def by (rule startIfHead_inv)
qed

lemma writes_core: "core (writeBegins s) = core s" "core (writeEnds a s) = core s" "core (recordContext c ctx s) = core s"
  "core (queueNextTurnContext c ctx s) = core s"
  by (simp_all add: writeBegins_def writeEnds_def endWrite_def recordContext_def queueNextTurnContext_def
      split: list.split option.split)

section \<open>Resuming a task\<close>

lemma drainTurn_inv:
  assumes inv: "sessionInv (insert (DrainTurn ws w) X) s"
  shows "sessionInv X (drainTurnSettled ws oc s)"
proof -
  let ?s = "s\<lparr>answers := answers s @ map (\<lambda>c. (c, TurnAnswer oc)) ws\<rparr>"
  have "base (insert (DrainTurn ws w) X) ?s" "wakeable (insert (DrainTurn ws w) X) ?s"
    using inv core_cong(1,3) [of ?s s] by (auto simp: sessionInv_def)
  then have b: "base X ?s" and k: "wakeable X ?s" by (auto simp: base_def wakeable_def)
  show ?thesis
    using drainLoop_inv [OF b] k unfolding drainTurnSettled_def sessionInv_def
    by (cases "currentState s = Idle") auto
qed

lemma drainEnded_inv:
  assumes inv: "sessionInv (insert DrainEnd X) s"
  shows "sessionInv X (drainEnded s)"
proof -
  let ?s = "s\<lparr>continuationDrain := False\<rparr>"
  have "base X ?s" "draining X ?s"
    using inv unfolding sessionInv_def base_def atRest_def atWork_def numbered_def closeCase_def draining_def by auto
  then show ?thesis
    using schedule_inv [of X ?s] unfolding drainEnded_def Let_def
    by (auto simp: sessionInv_def wakeable_def)
qed

lemma resumeTask_inv:
  assumes inv: "sessionInv (insert t X) s" and o: "orderlyTask t s" and w: "awaited (waitsFor t) s \<noteq> None"
  shows "sessionInv X (resumeTask t k ab s)"
proof (cases "plainTask t")
  case True
  have inv': "sessionInv X s" by (rule sessionInv_drop_plain [OF inv True])
  show ?thesis
    using True o sessionInv_add_task [OF inv'] inv'
    by (cases t) (auto simp: orderlyTask_def sendResumed_inv requestResumed_inv queueIfRunningResumed_inv
        whenAvailable_inv sendNowReady_inv resumeResumed_inv closeIdle_inv split: option.split)
next
  case False
  then show ?thesis
  proof (cases t)
    case (CloseWait c v)
    then obtain oc where "map_of (outcomes s) v = Some oc" using w by (auto simp: awaited_def)
    then show ?thesis using inv unfolding CloseWait by (intro closeWait_inv)
  next
    case AfterOperation
    then show ?thesis using inv afterOperation_inv by simp
  next
    case (DrainTurn ws v)
    then show ?thesis using inv w drainTurn_inv by (auto simp: awaited_def outcomeOf_def)
  next
    case DrainEnd
    then show ?thesis using inv drainEnded_inv by simp
  qed auto
qed

lemma remove_task:
  assumes "n < length (tasks s)"
  shows "insert (snd (tasks s ! n)) (kinds (s\<lparr>tasks := take n (tasks s) @ drop (Suc n) (tasks s)\<rparr>)) = kinds s"
proof -
  have "set (tasks s) = insert (tasks s ! n) (set (take n (tasks s)) \<union> set (drop (Suc n) (tasks s)))"
    by (metis Un_insert_right assms id_take_nth_drop list.simps(15) set_append)
  then show ?thesis by (auto simp: kinds_def)
qed

lemma sessionInv_move:
  assumes "sessionInv {} s" "currentState u = currentState s" "activeController u = activeController s"
    "activeTurn u = activeTurn s" "activeQueueOperation u = activeQueueOperation s"
    "continuationRequested u = continuationRequested s" "continuationDrain u = continuationDrain s"
    "continuationWaiters u = continuationWaiters s" "works u = works s" "nextWork u = nextWork s"
    "outcomes u = outcomes s" "inputQueue u = inputQueue s" "insert t (kinds u) = kinds s"
  shows "sessionInv {t} u"
proof -
  have k: "{t} \<union> kinds u = {} \<union> kinds s" using assms(13) by simp
  show ?thesis
    using assms(1)
    unfolding sessionInv_def base_def atRest_def atWork_def numbered_def closeCase_def draining_def wakeable_def k
      assms(2-12) .
qed

lemma sessionEvent_inv:
  assumes inv: "sessionInv {} s" and o: "orderly ev s"
  shows "sessionInv {} (sessionEvent ev s)"
proof (cases ev)
  case (TaskResumes n k ab)
  show ?thesis
  proof (cases "n < length (tasks s) \<and> resumable (tasks s ! n) s")
    case True
    let ?s = "s\<lparr>tasks := take n (tasks s) @ drop (Suc n) (tasks s)\<rparr>"
    let ?t = "snd (tasks s ! n)"
    have "sessionInv {?t} ?s" using inv remove_task [of n s] True by (intro sessionInv_move) simp_all
    moreover have "orderlyTask ?t ?s" using o True TaskResumes by (simp add: orderlyTask_def cong: task.case_cong)
    moreover have "awaited (waitsFor ?t) ?s \<noteq> None"
      using True by (simp add: resumable_def awaited_def cong: option.case_cong)
    ultimately show ?thesis using resumeTask_inv [of ?t "{}" ?s k ab] True TaskResumes by simp
  qed (use inv TaskResumes in auto)
next
  case (DoQueue op)
  then show ?thesis using inv exposed_inv by simp
next
  case (DoSendWhenAvailable c r p)
  have "sessionInv {} (bindPreparer p s)" by (rule inv_core [OF inv]) simp
  then show ?thesis using DoSendWhenAvailable by (simp add: sessionInv_add_task)
qed (use inv o in \<open>auto simp: sessionInv_add_task requestContinuation_inv queueOperation_inv restore_inv sendQueuedNow_inv
    resumeSessionQueue_inv cancelSession_inv closeSession_inv workSettled_inv callerAborts_inv
    intro: inv_core [OF inv] queueInput_core queueContext_core writes_core\<close>)

lemma orderlyRun_inv: "orderlyRun evs s \<Longrightarrow> sessionInv {} s \<Longrightarrow> sessionInv {} (runEvents evs s)"
  by (induction evs arbitrary: s) (auto simp: runEvents_def sessionEvent_inv)

lemma newSession_inv: "sessionInv {} (newSession sm fm)"
  by (simp add: sessionInv_def base_def atRest_def numbered_def draining_def wakeable_def newSession_def kinds_def)

end
