(* ===== verification/AgentSessionProperties.thy ===== *)
theory AgentSessionProperties
  imports AgentSessionEvents
begin

text \<open>
  The properties of a session over its histories, and what the interleavings do that an orderly
  history leaves out.
\<close>

section \<open>Closed sessions\<close>

lemma closed_refuses: "currentState s = Closed \<Longrightarrow> refusal s = Some SessionClosedError"
  by (simp add: refusal_def isShut_def)

lemma closed_quiet:
  assumes "currentState s = Closed"
  shows "startQueuedOperationIfHead s = (False, s)" "drainLoop s = later DrainEnd s" "cancelNow s = (None, s)"
    "afterOperation s = s" "resumeResumed c s = answer c VoidAnswer s"
    "currentState (scheduleRequestedContinuations s) = Closed" "currentState (drainEnded s) = Closed"
  using assms
  by (simp_all add: startQueuedOperationIfHead_def drainLoop_def cancelNow_def afterOperation_def resumeResumed_def
      scheduleRequestedContinuations_def isShut_def rejectContinuationWaiters_def drainEnded_def Let_def)

lemma state_fields [simp]:
  "currentState (answer c a s) = currentState s" "currentState (bindPreparer p s) = currentState s"
  "currentState (updateQueue f s) = currentState s"
  by (simp_all add: answer_def bindPreparer_def updateQueue_def split: option.split)

lemma task_keeps_closed:
  assumes c: "currentState s = Closed" and o: "orderlyTask t s"
  shows "currentState (resumeTask t k ab s) = Closed"
proof (cases t)
  case (RequestTask c r b p)
  then show ?thesis using c closed_refuses [of "bindPreparer p s"] by (simp add: requestResumed_def Let_def)
next
  case (QueueIfRunningTask c r b p)
  then show ?thesis using c closed_refuses [of "bindPreparer p s"] by (simp add: queueIfRunningResumed_def Let_def)
next
  case (DrainTurn ws w)
  have "currentState (drainTurnSettled ws oc s) = Closed" for oc
    using c closed_quiet(2) [of "s\<lparr>answers := answers s @ map (\<lambda>c. (c, TurnAnswer oc)) ws\<rparr>"]
    by (simp add: drainTurnSettled_def)
  then show ?thesis using DrainTurn c by (simp split: option.split)
qed (use c o in \<open>auto simp: closed_refuses sendResumed_def whenAvailableResumed_def whenReleased_def restartResumed_def
    closed_quiet shutDown_def rejectContinuationWaiters_def orderlyTask_def split: option.split\<close>)

lemma event_keeps_closed:
  assumes inv: "sessionInv {} s" and c: "currentState s = Closed" and o: "orderly ev s"
  shows "currentState (sessionEvent ev s) = Closed"
proof -
  have w: "works s = []" "activeTurn s = None" "activeController s = None"
    using inv c by (auto simp: sessionInv_def base_def atRest_def atWork_def)
  show ?thesis
  proof (cases ev)
    case (TaskResumes n k ab)
    have "orderlyTask t (s\<lparr>tasks := ts\<rparr>) = orderlyTask t s" for t ts
      by (simp add: orderlyTask_def cong: task.case_cong)
    then show ?thesis using TaskResumes o c by (auto intro: task_keeps_closed)
  next
    case (WorkSettles v oc)
    then show ?thesis using w c by (simp add: workSettled_def)
  next
    case (DoRestoreQueue snap)
    then show ?thesis using c closed_quiet(1) [of "updateQueue (restoreQueue snap) s"] by (simp add: restoreSessionQueue_def)
  qed (use c w in \<open>auto simp: closed_refuses requestContinuation_def isShut_def queueInput_def queueContext_def
      queueOperation_def queueNextTurnContext_def recordContext_def sendQueuedNow_def resumeSessionQueue_def
      cancelSession_def closed_quiet closeSession_def writeBegins_def writeEnds_def endWrite_def callerAborts_def
      split: list.split\<close>)
qed

lemma run_keeps_closed:
  "sessionInv {} s \<Longrightarrow> currentState s = Closed \<Longrightarrow> orderlyRun evs s \<Longrightarrow>
     currentState (runEvents evs s) = Closed \<and> works (runEvents evs s) = []"
proof (induction evs arbitrary: s)
  case Nil
  then show ?case by (auto simp: runEvents_def sessionInv_def base_def atRest_def atWork_def)
next
  case (Cons ev evs)
  then have "sessionInv {} (sessionEvent ev s)" "currentState (sessionEvent ev s) = Closed"
    by (auto intro: sessionEvent_inv event_keeps_closed)
  with Cons show ?case by (simp add: runEvents_def)
qed

section \<open>The queue of a session\<close>

text \<open>One queue operation, and any number of them.\<close>

definition queueMoves :: "session_queue \<Rightarrow> session_queue \<Rightarrow> bool" where
  "queueMoves q q' = (\<exists>op. q' = snd (queueStep op q))"

definition announced :: "queue_snapshot \<Rightarrow> session_queue \<Rightarrow> bool" where
  "announced first q = (listQueue q = (if notified q = [] then first else last (notified q)))"

lemma queueStep_announced: "announced f q \<Longrightarrow> announced f (snd (queueStep op q))"
  using step_notified [of op q "fst (queueStep op q)" "snd (queueStep op q)"] by (auto simp: announced_def)

lemma restore_announced: "announced f (restoreQueue snap q)"
  by (simp add: announced_def restoreQueue_def notifyChange_def listQueue_def)

lemma op_announced:
  assumes "announced f q"
  shows "announced f (snd (enqueueWithId b k i q))" "announced f (snd (enqueueRequestWithId b k r q))"
    "announced f (snd (enqueueContext b k ctx q))" "announced f (snd (enqueueOperationWithId k p q))"
    "announced f (snd (takeById k q))" "announced f (snd (takeFollowUpHead q))"
    "announced f (snd (takeFollowUpOperationHead q))" "announced f (pauseQueue q)" "announced f (resumeQueue q)"
    "announced f (snd (clearQueue q))"
  using queueStep_announced [OF assms, of "OpEnqueue b k i"] queueStep_announced [OF assms, of "OpEnqueue b k (requestInput r)"]
    queueStep_announced [OF assms, of "OpEnqueue b k (contextInput ctx)"] queueStep_announced [OF assms, of "OpOperation k p"]
    queueStep_announced [OF assms, of "OpTakeById k"] queueStep_announced [OF assms, of OpTakeHead]
    queueStep_announced [OF assms, of OpTakeOperation] queueStep_announced [OF assms, of OpPause]
    queueStep_announced [OF assms, of OpResume] queueStep_announced [OF assms, of OpClear]
  by (simp_all add: enqueue_def enqueueWithId_def enqueueRequestWithId_def enqueueContext_def Let_def case_prod_unfold)

definition mirrors :: "queue_snapshot \<Rightarrow> agent_session \<Rightarrow> bool" where
  "mirrors f s = announced f (inputQueue s)"

lemma mirrors_quiet [simp]:
  "mirrors f (answer c a s) = mirrors f s" "mirrors f (later t s) = mirrors f s" "mirrors f (afterWrites t s) = mirrors f s"
  "mirrors f (abortWork w s) = mirrors f s" "mirrors f (rejectContinuationWaiters e s) = mirrors f s"
  "mirrors f (bindPreparer p s) = mirrors f s" "mirrors f (removeWork wk oc s) = mirrors f s"
  "mirrors f (snd (beginWork k s)) = mirrors f s" "mirrors f (startFor c k s) = mirrors f s"
  by (simp_all add: mirrors_def answer_def later_def afterWrites_def abortWork_def rejectContinuationWaiters_def
      bindPreparer_def removeWork_def beginWork_def startFor_def Let_def split: option.split)

lemma mirrors_update [simp]:
  "mirrors f (currentState_update g0 s) = mirrors f s" "mirrors f (activeController_update g1 s) = mirrors f s"
  "mirrors f (activeTurn_update g2 s) = mirrors f s" "mirrors f (activeQueueOperation_update g3 s) = mirrors f s"
  "mirrors f (continuationRequested_update g4 s) = mirrors f s" "mirrors f (continuationDrain_update g5 s) = mirrors f s"
  "mirrors f (continuationContext_update g6 s) = mirrors f s" "mirrors f (nextTurnContext_update g7 s) = mirrors f s"
  "mirrors f (continuationWaiters_update g8 s) = mirrors f s" "mirrors f (tasks_update g9 s) = mirrors f s"
  "mirrors f (contextWrites_update g10 s) = mirrors f s" "mirrors f (contextDone_update g11 s) = mirrors f s"
  "mirrors f (answers_update g12 s) = mirrors f s"
  by (simp_all add: mirrors_def)

lemma beginWork_mirrors: "beginWork k s = (w, t) \<Longrightarrow> mirrors f t = mirrors f s"
  by (metis mirrors_quiet(8) snd_conv)

lemma onQueue_mirrors:
  "onQueue g s = (x, t) \<Longrightarrow> (\<And>q. announced f q \<Longrightarrow> announced f (snd (g q))) \<Longrightarrow> mirrors f s \<Longrightarrow> mirrors f t"
  by (auto simp: onQueue_def mirrors_def split: prod.splits) (metis snd_conv)

lemma updateQueue_mirrors:
  "(\<And>q. announced f q \<Longrightarrow> announced f (g q)) \<Longrightarrow> mirrors f s \<Longrightarrow> mirrors f (updateQueue g s)"
  by (simp add: updateQueue_def mirrors_def)

lemma start_mirrors:
  assumes "mirrors f s"
  shows "mirrors f (snd (startQueuedInput i s))" "mirrors f (startQueuedOperation e s)"
    "mirrors f (snd (startQueuedOperationIfHead s))" "mirrors f (drainLoop s)"
    "mirrors f (scheduleRequestedContinuations s)"
proof -
  show "mirrors f (snd (startQueuedInput i s))"
    using assms by (auto simp: startQueuedInput_def beginWork_mirrors split: option.split prod.split)
  have op: "mirrors f (startQueuedOperation e t)" if "mirrors f t" for t e
    using that by (simp add: startQueuedOperation_def)
  then show "mirrors f (startQueuedOperation e s)" using assms .
  have "mirrors f t" if "onQueue takeFollowUpOperationHead s = (x, t)" for x t
    by (rule onQueue_mirrors [OF that op_announced(7) assms])
  then show "mirrors f (snd (startQueuedOperationIfHead s))"
    using assms op by (auto simp: startQueuedOperationIfHead_def split: prod.split option.split)
  have "mirrors f (drainLoop t)" if "mirrors f t" for t
    using that by (auto simp: drainLoop_def Let_def beginWork_mirrors split: prod.split)
  then show "mirrors f (drainLoop s)" "mirrors f (scheduleRequestedContinuations s)"
    using assms by (auto simp: scheduleRequestedContinuations_def)
qed

lemma finish_mirrors: "mirrors f s \<Longrightarrow> mirrors f (finishActiveTurn df s)"
proof -
  assume "mirrors f s"
  then have "mirrors f (snd (startQueuedOperationIfHead (s\<lparr>activeController := None, activeTurn := None,
      currentState := a\<rparr>)))" for a
    by (intro start_mirrors) simp
  then show ?thesis
    unfolding finishActiveTurn_def Let_def
    by (auto intro!: start_mirrors(5) split: prod.split) (metis snd_conv)+
qed

lemma workSettled_mirrors: "mirrors f s \<Longrightarrow> mirrors f (workSettled w oc s)"
proof -
  have p: "mirrors f t \<Longrightarrow> mirrors f (pauseIfPending t)" for t
    by (simp add: pauseIfPending_def updateQueue_mirrors op_announced)
  assume "mirrors f s"
  then show ?thesis
    by (auto simp: workSettled_def turnSettled_def operationSettled_def Let_def finish_mirrors p
        split: option.split session_work.split turn_outcome.split)
qed

lemma takeHead_mirrors: "onQueue takeFollowUpHead s = (x, t) \<Longrightarrow> mirrors f s \<Longrightarrow> mirrors f t"
  by (rule onQueue_mirrors [OF _ op_announced(6)])

lemma queueing_mirrors:
  assumes "mirrors f s"
  shows "mirrors f (queueInput c b k i s)" "mirrors f (queueRequest c b k r s)" "mirrors f (queueContext c b k ctx s)"
    "mirrors f (queueOperation c k p s)"
proof -
  have "mirrors f t" if "onQueue (enqueueWithId b' k i) s = (x, t)" for b' x t
    by (rule onQueue_mirrors [OF that op_announced(1) assms])
  then show "mirrors f (queueInput c b k i s)"
    using assms by (auto simp: queueInput_def Let_def split: option.split prod.split)
  have "mirrors f t" if "onQueue (enqueueRequestWithId b' k r) s = (x, t)" for b' x t
    by (rule onQueue_mirrors [OF that op_announced(2) assms])
  then show "mirrors f (queueRequest c b k r s)" by (auto simp: queueRequest_def Let_def split: prod.split)
  have "mirrors f t" if "onQueue (enqueueContext b' k ctx) s = (x, t)" for b' x t
    by (rule onQueue_mirrors [OF that op_announced(3) assms])
  then show "mirrors f (queueContext c b k ctx s)"
    using assms by (auto simp: queueContext_def Let_def split: option.split prod.split)
  have "mirrors f t" if "onQueue (enqueueOperationWithId k p) s = (x, t)" for x t
    by (rule onQueue_mirrors [OF that op_announced(4) assms])
  then show "mirrors f (queueOperation c k p s)"
    using assms by (auto simp: queueOperation_def start_mirrors split: option.split prod.split)
qed

lemma cancelNow_mirrors: "cancelNow s = (w, t) \<Longrightarrow> mirrors f s \<Longrightarrow> mirrors f t"
  by (auto simp: cancelNow_def split: if_splits)

lemma shutDown_mirrors: "mirrors f s \<Longrightarrow> mirrors f (shutDown c s)"
  by (simp add: shutDown_def updateQueue_mirrors op_announced)

lemma task_mirrors:
  assumes m: "mirrors f s"
  shows "mirrors f (resumeTask t k ab s)"
proof (cases t)
  case (SendNowReady c i)
  have "mirrors f (updateQueue resumeQueue s)" using m by (intro updateQueue_mirrors op_announced)
  from start_mirrors(1) [OF this, of i] show ?thesis
    using SendNowReady by (cases "startQueuedInput i (updateQueue resumeQueue s)")
      (auto simp: sendNowReady_def split: sum.split)
next
  case (ResumeTask c)
  obtain st s1 where s1: "startQueuedOperationIfHead s = (st, s1)" by (cases "startQueuedOperationIfHead s")
  obtain i s2 where s2: "onQueue takeFollowUpHead s1 = (i, s2)" by (cases "onQueue takeFollowUpHead s1")
  have m1: "mirrors f s1" using start_mirrors(3) [OF m] s1 by simp
  have m2: "mirrors f s2" using takeHead_mirrors [OF s2 m1] .
  have "mirrors f s3" if "startQueuedInput j s2 = (r, s3)" for j r s3
    using start_mirrors(1) [OF m2, of j] that by simp
  then show ?thesis
    using ResumeTask m m1 m2 s1 s2
    by (auto simp: resumeResumed_def split: bool.split option.split prod.split sum.split)
next
  case AfterOperation
  obtain e s1 where s1: "onQueue takeFollowUpOperationHead s = (e, s1)" by (cases "onQueue takeFollowUpOperationHead s")
  obtain i s2 where s2: "onQueue takeFollowUpHead s1 = (i, s2)" by (cases "onQueue takeFollowUpHead s1")
  have m1: "mirrors f s1" by (rule onQueue_mirrors [OF s1 op_announced(7) m])
  have m2: "mirrors f s2" using takeHead_mirrors [OF s2 m1] .
  show ?thesis
    using AfterOperation m m1 m2 s1 s2 start_mirrors
    by (auto simp: afterOperation_def split: option.split prod.split)
next
  case (DrainTurn ws w)
  then show ?thesis using m by (auto simp: drainTurnSettled_def intro!: start_mirrors split: option.split)
next
  case DrainEnd
  then show ?thesis using m by (auto simp: drainEnded_def Let_def intro!: start_mirrors)
qed (use m in \<open>auto simp: sendResumed_def requestResumed_def queueIfRunningResumed_def whenAvailableResumed_def
    whenReleased_def restartResumed_def queueing_mirrors shutDown_mirrors Let_def split: option.split\<close>)

lemma event_mirrors:
  assumes m: "mirrors f s"
  shows "mirrors f (sessionEvent ev s)"
proof (cases ev)
  case (DoQueue op)
  then show ?thesis using m by (auto intro!: updateQueue_mirrors queueStep_announced)
next
  case (DoRestoreQueue snap)
  have "mirrors f (updateQueue (restoreQueue snap) s)"
    using m restore_announced by (intro updateQueue_mirrors) auto
  then show ?thesis using DoRestoreQueue by (simp add: restoreSessionQueue_def start_mirrors)
next
  case (DoSendQueuedNow c k)
  obtain i s1 where s1: "onQueue (takeById k) s = (i, s1)" by (cases "onQueue (takeById k) s")
  obtain w s2 where s2: "cancelNow s1 = (w, s2)" by (cases "cancelNow s1")
  have m1: "mirrors f s1" by (rule onQueue_mirrors [OF s1 op_announced(5) m])
  have "mirrors f s2" by (rule cancelNow_mirrors [OF s2 m1])
  then show ?thesis using DoSendQueuedNow m m1 s1 s2 by (auto simp: sendQueuedNow_def split: option.split)
next
  case (DoResumeQueue c)
  have "mirrors f (updateQueue resumeQueue s)" using m by (intro updateQueue_mirrors op_announced)
  then show ?thesis using DoResumeQueue m by (auto simp: resumeSessionQueue_def Let_def split: option.split)
next
  case (DoCancel c b)
  obtain w t where "cancelNow s = (w, t)" by (cases "cancelNow s")
  then show ?thesis using DoCancel cancelNow_mirrors m by (auto simp: cancelSession_def split: option.split)
next
  case (TaskResumes n k ab)
  then show ?thesis using m by (auto intro!: task_mirrors)
qed (use m in \<open>auto simp: requestContinuation_def start_mirrors queueing_mirrors queueNextTurnContext_def recordContext_def
    closeSession_def writeBegins_def writeEnds_def endWrite_def workSettled_mirrors callerAborts_def
    split: option.split list.split\<close>)

lemma run_mirrors: "mirrors f s \<Longrightarrow> mirrors f (runEvents evs s)"
  by (induction evs arbitrary: s) (auto simp: runEvents_def event_mirrors)

section \<open>Properties\<close>

text \<open>
  C11. After every orderly history at most one turn or host operation is under way. The state is
  \<open>running\<close>, \<open>cancelling\<close> or \<open>closing\<close> exactly while there is one, the active turn and its controller
  belong to it, and the active queue operation is the one under way. Once the session is closed it
  stays closed, and nothing starts any more.
\<close>

theorem session_single_turn:
  assumes "orderlyRun (evs @ evs') (newSession sm fm)"
  shows "(let s = runEvents evs (newSession sm fm); t = runEvents evs' s
    in ((works s = [] \<and> activeTurn s = None \<and> activeController s = None \<and> activeQueueOperation s = None \<and>
           currentState s \<in> {Idle, Closed, RecoveryRequired}) \<or>
        (\<exists>x. works s = [x] \<and> activeTurn s = Some (workId x) \<and> activeController s = Some (workId x) \<and>
           activeQueueOperation s = operationOfWork x \<and> currentState s \<in> {Running, Cancelling, Closing})) \<and>
       (currentState s = Closed \<longrightarrow> currentState t = Closed \<and> works t = []))"
proof -
  let ?s = "runEvents evs (newSession sm fm)"
  have inv: "sessionInv {} ?s" using assms by (auto simp: orderlyRun_append intro: orderlyRun_inv newSession_inv)
  then have "atRest ?s \<or> (\<exists>x. atWork x ?s)" by (simp add: sessionInv_def base_def)
  moreover have "currentState ?s = Closed \<longrightarrow> currentState (runEvents evs' ?s) = Closed \<and> works (runEvents evs' ?s) = []"
    using run_keeps_closed [OF inv] assms by (simp add: orderlyRun_append)
  ultimately show ?thesis by (auto simp: Let_def atRest_def atWork_def)
qed

text \<open>A session that works on a message while another is queued and a continuation is requested.\<close>

definition busyEvents :: "session_event list" where
  "busyEvents = [DoSend 1 (messageInput (JStr ''go'')) [] None, TaskResumes 0 ''q0'' False,
     DoQueueInput 2 FollowUp ''a'' (messageInput (JStr ''next'')), DoRequestContinuation 3 []]"

definition closeEvents :: "session_event list" where
  "closeEvents = [DoClose 4, WorkSettles 0 (TurnEnded TurnCancelled), TaskResumes 1 ''q1'' False]"

lemmas session_eval = runEvents_def afterWrites_def later_def startFor_def beginWork_def answer_def newSession_def
  messageInput_def refusal_def isShut_def sendResumed_def queueInput_def onQueue_def enqueueWithId_def enqueueEntry_def
  notifyChange_def newQueue_def queueBehaviorAfterOperations_def hasOperation_def requestContinuation_def
  scheduleRequestedContinuations_def resumable_def awaited_def workSettled_def turnSettled_def removeWork_def
  finishActiveTurn_def startQueuedOperationIfHead_def pauseIfPending_def updateQueue_def pauseQueue_def pendingCount_def
  outcomeOf_def threw_def shutDown_def clearQueue_def rejectContinuationWaiters_def closeSession_def abortWork_def
  endsWell_def isOperation_def peekFollowUpOperation_def drainLoop_def drainTurnSettled_def cancelNow_def sendQueuedNow_def
  takeById_def takeFirst_def beforeOperation_def availableCount_def isExecutableInput_def sendNowReady_def resumeQueue_def
  startQueuedInput_def orderlyTask_def listQueue_def toEntry_def

theorem session_single_turn_witness:
  "currentState (runEvents (busyEvents @ closeEvents) (newSession None None)) = Closed \<and>
   works (runEvents (busyEvents @ closeEvents) (newSession None None)) = []"
proof -
  have o: "orderlyRun ((busyEvents @ closeEvents) @ []) (newSession None None)"
    by (simp add: busyEvents_def closeEvents_def session_eval)
  have c: "currentState (runEvents (busyEvents @ closeEvents) (newSession None None)) = Closed"
    by (simp add: busyEvents_def closeEvents_def session_eval)
  show ?thesis using session_single_turn [OF o] c by (auto simp: Let_def)
qed

text \<open>
  C12. No requested continuation is forgotten by an orderly history. Orderly (\<open>orderlyRun\<close>)
  means that a queue is restored only while nothing is under way and no task is pending, that a
  send-now and a close that have seen the session idle go on before another turn has started, and that
  no caller aborts a turn of a session that is closing. After every such history, a continuation whose
  caller still waits will be looked at: something is under way, the drain is running, the task
  after an operation is pending, or a close that will reject it is. So when nothing is left to
  happen, nobody waits, unless the session requires recovery.
  Of other histories nothing is claimed.
\<close>

theorem continuation_not_forgotten:
  assumes "orderlyRun evs (newSession sm fm)" "s = runEvents evs (newSession sm fm)"
    and "continuationWaiters s \<noteq> []" "currentState s \<noteq> RecoveryRequired"
  shows "works s \<noteq> [] \<or>
    (continuationDrain s \<and> (\<exists>t \<in> snd ` set (tasks s). t = DrainEnd \<or> (\<exists>ws w. t = DrainTurn ws w))) \<or>
    (currentState s = Idle \<and> AfterOperation \<in> snd ` set (tasks s) \<and> \<not> isPaused (inputQueue s)) \<or>
    (currentState s = Closed \<and>
      (\<exists>c w oc. CloseWait c w \<in> snd ` set (tasks s) \<and> map_of (outcomes s) w = Some oc \<and> \<not> threw (Some oc)))"
proof -
  have inv: "sessionInv {} s" unfolding assms(2) by (rule orderlyRun_inv [OF assms(1) newSession_inv])
  then have "continuationRequested s" using assms(3) by (simp add: sessionInv_def base_def)
  then have "works s \<noteq> [] \<or> continuationDrain s \<or> currentState s = RecoveryRequired \<or>
        (currentState s = Idle \<and> AfterOperation \<in> kinds s \<and> \<not> isPaused (inputQueue s)) \<or>
        (currentState s = Closed \<and>
          (\<exists>c w. CloseWait c w \<in> kinds s \<and> map_of (outcomes s) w \<noteq> None \<and> \<not> threw (map_of (outcomes s) w)))"
    using inv by (simp add: sessionInv_def wakeable_def)
  moreover have "continuationDrain s \<longrightarrow> (\<exists>t \<in> kinds s. t = DrainEnd \<or> (\<exists>ws w. t = DrainTurn ws w))"
    using inv by (auto simp: sessionInv_def draining_def)
  ultimately show ?thesis using assms(4) unfolding kinds_def [symmetric] by auto
qed

theorem continuation_not_forgotten_witness:
  "continuationWaiters (runEvents busyEvents (newSession None None)) = [3] \<and>
   works (runEvents busyEvents (newSession None None)) \<noteq> []"
proof -
  have o: "orderlyRun busyEvents (newSession None None)"
    by (simp add: busyEvents_def session_eval)
  have c: "continuationWaiters (runEvents busyEvents (newSession None None)) = [3]"
    "currentState (runEvents busyEvents (newSession None None)) = Running"
    "continuationDrain (runEvents busyEvents (newSession None None)) = False"
    by (simp_all add: busyEvents_def session_eval)
  show ?thesis using continuation_not_forgotten [OF o refl] c by simp
qed

text \<open>
  C35. Whatever happens to a session (orderly or not, restored queues included), the snapshot of the
  queue last announced to the host is the content of its queue.
\<close>

theorem session_mirror_exact:
  "(let q = inputQueue (runEvents evs (newSession sm fm))
    in listQueue q = (if notified q = [] then listQueue (newQueue sm fm) else last (notified q)))"
proof -
  have "mirrors (listQueue (newQueue sm fm)) (newSession sm fm)"
    by (simp add: mirrors_def announced_def newSession_def newQueue_def)
  then have "mirrors (listQueue (newQueue sm fm)) (runEvents evs (newSession sm fm))" by (rule run_mirrors)
  then show ?thesis by (simp add: mirrors_def announced_def Let_def)
qed

section \<open>Interleavings that are not orderly\<close>

text \<open>
  A message sent to a new session that is closed in the same tick: the close finds no active
  turn, waits behind the context writes, and marks the session closed after the send has started
  its turn, without aborting it. When that turn ends the closed session is idle again, and accepts
  the next message.
\<close>

theorem close_overtaken_by_send:
  "(let s = runEvents [DoSend 1 i [] None, DoClose 2, TaskResumes 0 k False, TaskResumes 0 k False] (newSession sm fm);
        t = runEvents [WorkSettles 0 (TurnEnded TurnCompleted)] s;
        u = runEvents [DoSend 3 i [] None, TaskResumes 1 k False] t
    in currentState s = Closed \<and> (2, VoidAnswer) \<in> set (answers s) \<and>
       works s = [\<lparr>workId = 0, workKind = InputTurn i [], workAborted = False\<rparr>] \<and>
       currentState t = Idle \<and> currentState u = Running)"
  by (simp add: session_eval Let_def)

text \<open>
  Sending two queued messages now, one after the other, while a turn is running: both calls
  take their message and wait for the cancelled turn, and both start a turn when it has settled, so
  that two turns of one session run at a time.
\<close>

theorem send_now_twice_starts_two_turns:
  "(let s = runEvents [DoSend 1 (messageInput m) [] None, TaskResumes 0 k False,
          DoQueueInput 2 FollowUp ''a'' (messageInput ma), DoQueueInput 3 FollowUp ''b'' (messageInput mb),
          DoSendQueuedNow 4 ''a'', DoSendQueuedNow 5 ''b'', WorkSettles 0 (TurnEnded TurnCancelled),
          TaskResumes 1 k False, TaskResumes 1 k False, TaskResumes 1 k False, TaskResumes 1 k False] (newSession sm fm)
    in map workKind (works s) = [InputTurn (messageInput ma) [], InputTurn (messageInput mb) []] \<and>
       map workAborted (works s) = [False, False])"
  by (simp add: session_eval Let_def)

text \<open>
  When the interrupted turn throws, the queued message is gone: it has left the queue before the
  interruption, the call fails, and no turn has started with it.
\<close>

theorem send_now_loses_message:
  "(let s = runEvents [DoSend 1 (messageInput m) [] None, TaskResumes 0 k False,
          DoQueueInput 2 FollowUp ''a'' (messageInput ma), DoSendQueuedNow 4 ''a'',
          WorkSettles 0 TurnThrew, TaskResumes 0 k False, TaskResumes 0 k False] (newSession sm fm)
    in works s = [] \<and> tasks s = [] \<and> queueInputs (inputQueue s) = [] \<and> (4, TurnAnswer TurnThrew) \<in> set (answers s))"
  by (simp add: session_eval queueInputs_def allSlots_def Let_def)

text \<open>
  A continuation requested during a turn that loses its persistence is neither started nor
  rejected: its caller waits until the session is closed.
\<close>

theorem recovery_keeps_waiters:
  "(let s = runEvents [DoSend 1 (messageInput m) [] None, TaskResumes 0 k False, DoRequestContinuation 2 ctx,
          WorkSettles 0 TurnLostPersistence, TaskResumes 0 k False] (newSession sm fm)
    in currentState s = RecoveryRequired \<and> works s = [] \<and> tasks s = [] \<and> continuationWaiters s = [2])"
  by (simp add: session_eval Let_def)

end
