(* ===== verification/ConfigurationJson.thy ===== *)
theory ConfigurationJson
  imports Prelude
begin

text \<open>
  Configuration values, from \<open>packages/runtime-core/src/configuration\<close>: the check, merge and
  redaction of JSON objects (\<open>json.ts\<close>, \<open>catalog-projection.ts\<close>) and the normalisation of layers
  (\<open>layer-normalization.ts\<close>).

  An object is the list of its properties, in insertion order and with distinct keys; the key
  \<open>__proto__\<close> is assumed not to occur. Values are trees, so that cycles, which the code guards
  against, cannot arise; freezing and cloning leave a value as it is.
\<close>

section \<open>Objects\<close>

text \<open>\<open>isRuntimeConfigurationJsonObject\<close>: a plain object all of whose numbers are finite.\<close>

fun isJsonValue :: "json \<Rightarrow> bool" where
  "isJsonValue (JNum n) = isFinite n"
| "isJsonValue (JArr vs) = list_all isJsonValue vs"
| "isJsonValue (JObj kvs) = list_all (\<lambda>(k, v). isJsonValue v) kvs"
| "isJsonValue v = True"

definition isJsonObject :: "json \<Rightarrow> bool" where
  "isJsonObject v = (isRecord v \<and> isJsonValue v)"

text \<open>The objects of the program: no key occurs twice.\<close>

fun distinctKeys :: "json \<Rightarrow> bool" where
  "distinctKeys (JArr vs) = list_all distinctKeys vs"
| "distinctKeys (JObj kvs) = (distinct (map fst kvs) \<and> list_all (\<lambda>(k, v). distinctKeys v) kvs)"
| "distinctKeys v = True"

section \<open>Merging\<close>

text \<open>
  \<open>mergeRuntimeConfigurationObjects\<close>, on the properties of the two objects: nested objects are
  merged, everything else is overridden.
\<close>

function mergeObjects :: "(string \<times> json) list \<Rightarrow> (string \<times> json) list \<Rightarrow> (string \<times> json) list" where
  "mergeObjects base [] = base"
| "mergeObjects base ((k, v) # rest) =
     mergeObjects
       (setKey k
          (case map_of base k of
             Some (JObj current) \<Rightarrow> (case v of JObj kvs \<Rightarrow> JObj (mergeObjects current kvs) | _ \<Rightarrow> v)
           | _ \<Rightarrow> v)
          base)
       rest"
  by pat_completeness auto
termination
  by (relation "measure (\<lambda>(base, override). size (JObj override))") auto

section \<open>Redaction\<close>

text \<open>\<open>pointer.slice(1).split("/")\<close>, and the two escapes of a segment.\<close>

fun splitSlash :: "string \<Rightarrow> string list" where
  "splitSlash [] = [[]]"
| "splitSlash (c # cs) =
     (if c = CHR ''/'' then [] # splitSlash cs
      else (case splitSlash cs of s # ss \<Rightarrow> (c # s) # ss | [] \<Rightarrow> [[c]]))"

fun replacePair :: "char \<Rightarrow> char \<Rightarrow> string \<Rightarrow> string" where
  "replacePair d r (a # b # cs) =
     (if a = CHR ''~'' \<and> b = d then r # replacePair d r cs else a # replacePair d r (b # cs))"
| "replacePair d r cs = cs"

definition unescapeSegment :: "string \<Rightarrow> string" where
  "unescapeSegment s = replacePair (CHR ''0'') (CHR ''~'') (replacePair (CHR ''1'') (CHR ''/'') s)"

definition pointerSegments :: "string \<Rightarrow> string list" where
  "pointerSegments p = map unescapeSegment (splitSlash (drop 1 p))"

definition deleteKey :: "string \<Rightarrow> (string \<times> json) list \<Rightarrow> (string \<times> json) list" where
  "deleteKey k kvs = filter (\<lambda>(k', v). k' \<noteq> k) kvs"

text \<open>
  Following the segments but the last, then \<open>delete\<close>. An array on the way, or a missing
  property, ends the walk.
\<close>

fun removeAt :: "string list \<Rightarrow> json \<Rightarrow> json" where
  "removeAt [k] (JObj kvs) = JObj (deleteKey k kvs)"
| "removeAt (k # k' # ks) (JObj kvs) =
     (case map_of kvs k of
        Some v \<Rightarrow> JObj (setKey k (removeAt (k' # ks) v) kvs)
      | None \<Rightarrow> JObj kvs)"
| "removeAt ks v = v"

definition removeJsonPointer :: "json \<Rightarrow> string \<Rightarrow> json" where
  "removeJsonPointer v p =
     (case pointerSegments p of [] \<Rightarrow> v | s # ss \<Rightarrow> if s = [] then v else removeAt (s # ss) v)"

definition redactConfigurationObject :: "json \<Rightarrow> string list \<Rightarrow> json" where
  "redactConfigurationObject v paths = foldl removeJsonPointer v paths"

text \<open>What a JSON pointer denotes in a value: a property of an object or an element of an array.\<close>

fun indexOf :: "string \<Rightarrow> nat option" where
  "indexOf s = (if s \<noteq> [] \<and> list_all (\<lambda>c. c \<in> set ''0123456789'') s
     then Some (foldl (\<lambda>n c. 10 * n + (of_char c - 48)) 0 s) else None)"

fun valueAt :: "string list \<Rightarrow> json \<Rightarrow> json option" where
  "valueAt [] v = Some v"
| "valueAt (k # ks) (JObj kvs) = (case map_of kvs k of Some v \<Rightarrow> valueAt ks v | None \<Rightarrow> None)"
| "valueAt (k # ks) (JArr vs) =
     (case indexOf k of Some i \<Rightarrow> if i < length vs then valueAt ks (vs ! i) else None | None \<Rightarrow> None)"
| "valueAt (k # ks) v = None"

text \<open>The same through objects only.\<close>

fun memberAt :: "string list \<Rightarrow> json \<Rightarrow> json option" where
  "memberAt [] v = Some v"
| "memberAt (k # ks) (JObj kvs) = (case map_of kvs k of Some v \<Rightarrow> memberAt ks v | None \<Rightarrow> None)"
| "memberAt (k # ks) v = None"

section \<open>Layers\<close>

record layer =
  layerId :: string
  layerRevision :: string
  precedence :: jsnum
  layerValues :: "(string \<times> json) list"

datatype configuration_error =
    RegistryClosed
  | InvalidDefinition string
  | InvalidLayer string
  | LayerSourceConflict string string string
  | NotFound string
  | SourceConflict string string string
  | Unavailable string

definition trimmedId :: "string \<Rightarrow> bool" where
  "trimmedId s = (trim s \<noteq> [] \<and> s = trim s)"

fun checkValues :: "(string \<times> json) list \<Rightarrow> configuration_error option" where
  "checkValues [] = None"
| "checkValues ((k, v) # rest) =
     (if \<not> trimmedId k then Some (InvalidLayer ''configuration id'')
      else if \<not> isJsonObject v then Some (InvalidLayer ''value'')
      else checkValues rest)"

definition checkLayer :: "string set \<Rightarrow> jsnum set \<Rightarrow> layer \<Rightarrow> configuration_error option" where
  "checkLayer seen precs l =
     (if \<not> trimmedId (layerId l) then Some (InvalidLayer ''id'')
      else if \<not> trimmedId (layerRevision l) then Some (InvalidLayer ''revision'')
      else if layerId l \<in> seen then Some (InvalidLayer ''duplicate id'')
      else if \<not> isSafeInteger (precedence l) then Some (InvalidLayer ''precedence'')
      else if precedence l \<in> precs then Some (InvalidLayer ''duplicate precedence'')
      else checkValues (layerValues l))"

fun checkLayers :: "string set \<Rightarrow> jsnum set \<Rightarrow> layer list \<Rightarrow> configuration_error option" where
  "checkLayers seen precs [] = None"
| "checkLayers seen precs (l # ls) =
     (case checkLayer seen precs l of
        Some e \<Rightarrow> Some e
      | None \<Rightarrow> checkLayers (insert (layerId l) seen) (insert (precedence l) precs) ls)"

definition normalizeLayers :: "layer list \<Rightarrow> configuration_error + layer list" where
  "normalizeLayers ls =
     (case checkLayers {} {} ls of
        Some e \<Rightarrow> Inl e
      | None \<Rightarrow> Inr (sort_key (\<lambda>l. asInt (precedence l)) ls))"

end
