(* ===== verification/ConfigurationRegistry.thy ===== *)
theory ConfigurationRegistry
  imports ConfigurationJson "HOL-Library.List_Lexorder" "HOL-Library.Char_ord"
begin

text \<open>
  The registry of configuration definitions, \<open>packages/runtime-core/src/configuration/registry.ts\<close>:
  publishing by source, retirement, leases on generations and their disposal, and closing.

  A generation is named by its revision id. The generator of ids and the time are arguments. Disposal is asynchronous: \<open>disposeIfRetired\<close> creates the promise, \<open>disposeRuns\<close> is the
  call of \<open>dispose\<close>, \<open>disposeSettles\<close> its end. A lease is a fresh number with the generations it holds;
  releasing it twice does nothing. Observations are left out.
\<close>

section \<open>Definitions\<close>

datatype apply_mode = NextTurn | NextSession | Restart

record source_ref =
  sourceRefId :: string
  sourceRefRevision :: string

record config_descriptor =
  descriptorTitle :: string
  descriptorDescription :: "string option"
  descriptorSchema :: json
  descriptorPresentation :: "json option"
  sensitivePaths :: "string list"

record configuration_definition =
  definitionId :: string
  schemaVersion :: jsnum
  descriptor :: config_descriptor
  decode :: "json \<Rightarrow> string + json"
  defaultValue :: json
  applyMode :: apply_mode

record config_revision =
  revisionId :: string
  revisionSequence :: nat
  revisionConfiguration :: string
  revisionSource :: source_ref
  publishedAt :: int
  revisionDefinition :: configuration_definition

definition validateSource :: "source_ref \<Rightarrow> configuration_error + source_ref" where
  "validateSource s =
     (if \<not> trimmedId (sourceRefId s) then Inl (InvalidDefinition ''source id'')
      else if \<not> trimmedId (sourceRefRevision s) then Inl (InvalidDefinition ''source revision'')
      else Inr s)"

text \<open>The result carries the default value that the codec returned.\<close>

definition validateDefinition :: "configuration_definition \<Rightarrow> configuration_error + configuration_definition" where
  "validateDefinition d =
     (if \<not> trimmedId (definitionId d) then Inl (InvalidDefinition ''definition id'')
      else if \<not> isInteger (schemaVersion d) \<or> \<not> num_ge (schemaVersion d) 1
        then Inl (InvalidDefinition ''schemaVersion'')
      else if \<not> trimmedId (descriptorTitle (descriptor d)) then Inl (InvalidDefinition ''title'')
      else if \<not> isJsonObject (descriptorSchema (descriptor d)) then Inl (InvalidDefinition ''schema'')
      else if (case descriptorPresentation (descriptor d) of Some p \<Rightarrow> \<not> isJsonObject p | None \<Rightarrow> False)
        then Inl (InvalidDefinition ''presentation'')
      else if \<not> distinct (sensitivePaths (descriptor d)) \<or> \<not> list_all (startsWith ''/'') (sensitivePaths (descriptor d))
        then Inl (InvalidDefinition ''sensitive paths'')
      else (case decode d (defaultValue d) of
              Inl e \<Rightarrow> Inl (InvalidDefinition ''default value'')
            | Inr v \<Rightarrow>
                if \<not> isJsonObject v then Inl (InvalidDefinition ''codec result'')
                else Inr (d\<lparr>defaultValue := v\<rparr>)))"

section \<open>State\<close>

datatype disposal = NotDisposed | DisposeScheduled | Disposing

record generation =
  generationRevision :: config_revision
  activeLeases :: nat
  isRetired :: bool
  disposal :: disposal

record config_entry =
  entrySource :: string
  entryActive :: bool
  entryCurrent :: "string option"
  lastRevisionId :: string

record config_registry =
  configEntries :: "(string \<times> config_entry) list"
  generations :: "generation list"
  revisionIds :: "string list"
  revisionCounter :: nat
  registryVersion :: nat
  registryClosed :: bool
  closeTasks :: "string list"
  leases :: "(nat \<times> string list) list"
  nextLease :: nat
  disposedIds :: "string list"
  cleanupErrors :: "string list"

definition newRegistry :: config_registry where
  "newRegistry =
     \<lparr>configEntries = [], generations = [], revisionIds = [], revisionCounter = 0, registryVersion = 0,
      registryClosed = False, closeTasks = [], leases = [], nextLease = 0, disposedIds = [], cleanupErrors = []\<rparr>"

definition generationId :: "generation \<Rightarrow> string" where
  "generationId g = revisionId (generationRevision g)"

definition updateGeneration :: "string \<Rightarrow> (generation \<Rightarrow> generation) \<Rightarrow> config_registry \<Rightarrow> config_registry" where
  "updateGeneration k f r = r\<lparr>generations := map (\<lambda>g. if generationId g = k then f g else g) (generations r)\<rparr>"

text \<open>\<open>entries.set\<close> and \<open>entries.delete\<close>.\<close>

fun setEntry :: "string \<Rightarrow> config_entry \<Rightarrow> (string \<times> config_entry) list \<Rightarrow> (string \<times> config_entry) list" where
  "setEntry k e [] = [(k, e)]"
| "setEntry k e ((k', e') # es) = (if k' = k then (k, e) # es else (k', e') # setEntry k e es)"

definition deleteEntry :: "string \<Rightarrow> (string \<times> config_entry) list \<Rightarrow> (string \<times> config_entry) list" where
  "deleteEntry k es = filter (\<lambda>(k', e). k' \<noteq> k) es"

definition entryOf :: "string \<Rightarrow> config_registry \<Rightarrow> config_entry option" where
  "entryOf k r = map_of (configEntries r) k"

section \<open>Generations\<close>

text \<open>
  \<open>disposeIfRetired\<close>, up to its await: a retired generation without leases gets its disposal
  promise, once.
\<close>

definition scheduleDisposal :: "generation \<Rightarrow> generation" where
  "scheduleDisposal g =
     (if \<not> isRetired g \<or> 0 < activeLeases g then g
      else if disposal g = NotDisposed then g\<lparr>disposal := DisposeScheduled\<rparr> else g)"

definition disposeIfRetired :: "string \<Rightarrow> config_registry \<Rightarrow> config_registry" where
  "disposeIfRetired k r = updateGeneration k scheduleDisposal r"

definition retireGeneration :: "string \<Rightarrow> config_registry \<Rightarrow> config_registry" where
  "retireGeneration k r = disposeIfRetired k (updateGeneration k (\<lambda>g. g\<lparr>isRetired := True\<rparr>) r)"

definition acquireGeneration :: "string \<Rightarrow> config_registry \<Rightarrow> config_registry" where
  "acquireGeneration k r = updateGeneration k (\<lambda>g. g\<lparr>activeLeases := activeLeases g + 1\<rparr>) r"

definition releaseGeneration :: "string \<Rightarrow> config_registry \<Rightarrow> config_registry" where
  "releaseGeneration k r = disposeIfRetired k (updateGeneration k (\<lambda>g. g\<lparr>activeLeases := activeLeases g - 1\<rparr>) r)"

text \<open>
  A new generation: the counter advances and a good id is remembered, also when a later candidate
  of the same call fails. The error comes with the registry it leaves behind. Every call makes one
  id, so the generator is a function \<open>ids\<close> of the counter.
\<close>

definition createGeneration ::
    "(nat \<Rightarrow> string) \<Rightarrow> int \<Rightarrow> source_ref \<times> configuration_definition \<Rightarrow> config_registry \<Rightarrow>
       (configuration_error + generation) \<times> config_registry" where
  "createGeneration ids now c r =
     (let r1 = r\<lparr>revisionCounter := Suc (revisionCounter r)\<rparr>; k = ids (revisionCounter r1)
      in if k = [] \<or> k \<in> set (revisionIds r1) then (Inl (InvalidDefinition k), r1)
         else (Inr \<lparr>generationRevision =
                  \<lparr>revisionId = k, revisionSequence = revisionCounter r1, revisionConfiguration = definitionId (snd c),
                   revisionSource = fst c, publishedAt = now, revisionDefinition = snd c\<rparr>,
                activeLeases = 0, isRetired = False, disposal = NotDisposed\<rparr>,
               r1\<lparr>revisionIds := revisionIds r1 @ [k]\<rparr>))"

fun createGenerations ::
    "(nat \<Rightarrow> string) \<Rightarrow> int \<Rightarrow> (source_ref \<times> configuration_definition) list \<Rightarrow> config_registry \<Rightarrow>
       (configuration_error + generation list) \<times> config_registry" where
  "createGenerations ids now [] r = (Inr [], r)"
| "createGenerations ids now (c # cs) r =
     (case createGeneration ids now c r of
        (Inl e, r1) \<Rightarrow> (Inl e, r1)
      | (Inr g, r1) \<Rightarrow>
          (case createGenerations ids now cs r1 of
             (Inl e, r2) \<Rightarrow> (Inl e, r2)
           | (Inr gs, r2) \<Rightarrow> (Inr (g # gs), r2)))"

section \<open>Publishing\<close>

definition assertSourceOwnership :: "string \<Rightarrow> string \<Rightarrow> config_registry \<Rightarrow> configuration_error option" where
  "assertSourceOwnership k s r =
     (case entryOf k r of
        Some e \<Rightarrow> if entrySource e \<noteq> s then Some (SourceConflict k (entrySource e) s) else None
      | None \<Rightarrow> None)"

definition currentOf :: "string \<Rightarrow> config_registry \<Rightarrow> string option" where
  "currentOf k r = (case entryOf k r of Some e \<Rightarrow> entryCurrent e | None \<Rightarrow> None)"

text \<open>\<open>generations.add\<close> and \<open>entries.set\<close>.\<close>

definition installGeneration :: "string \<Rightarrow> generation \<Rightarrow> config_registry \<Rightarrow> config_registry" where
  "installGeneration s g r =
     r\<lparr>generations := generations r @ [g],
       configEntries := setEntry (revisionConfiguration (generationRevision g))
         \<lparr>entrySource = s, entryActive = True, entryCurrent = Some (generationId g), lastRevisionId = generationId g\<rparr>
         (configEntries r)\<rparr>"

definition bumpVersion :: "config_registry \<Rightarrow> config_registry" where
  "bumpVersion r = r\<lparr>registryVersion := Suc (registryVersion r)\<rparr>"

definition upsertDefinition ::
    "(nat \<Rightarrow> string) \<Rightarrow> int \<Rightarrow> source_ref \<Rightarrow> configuration_definition \<Rightarrow> config_registry \<Rightarrow>
       (configuration_error + config_revision) \<times> config_registry" where
  "upsertDefinition ids now src d r =
     (if registryClosed r then (Inl RegistryClosed, r)
      else (case validateSource src of
              Inl e \<Rightarrow> (Inl e, r)
            | Inr s \<Rightarrow>
                (case validateDefinition d of
                   Inl e \<Rightarrow> (Inl e, r)
                 | Inr d' \<Rightarrow>
                     (case assertSourceOwnership (definitionId d') (sourceRefId s) r of
                        Some e \<Rightarrow> (Inl e, r)
                      | None \<Rightarrow>
                          (case createGeneration ids now (s, d') r of
                             (Inl e, r1) \<Rightarrow> (Inl e, r1)
                           | (Inr g, r1) \<Rightarrow>
                               (Inr (generationRevision g),
                                bumpVersion
                                  (case currentOf (definitionId d') r1 of
                                     Some p \<Rightarrow> retireGeneration p (installGeneration (sourceRefId s) g r1)
                                   | None \<Rightarrow> installGeneration (sourceRefId s) g r1)))))))"

fun validateAll ::
    "source_ref \<Rightarrow> configuration_definition list \<Rightarrow> configuration_error + (source_ref \<times> configuration_definition) list" where
  "validateAll s [] = Inr []"
| "validateAll s (d # ds) =
     (case validateDefinition d of
        Inl e \<Rightarrow> Inl e
      | Inr d' \<Rightarrow> (case validateAll s ds of Inl e \<Rightarrow> Inl e | Inr cs \<Rightarrow> Inr ((s, d') # cs)))"

fun checkCandidates ::
    "string list \<Rightarrow> (source_ref \<times> configuration_definition) list \<Rightarrow> config_registry \<Rightarrow> configuration_error option" where
  "checkCandidates seen [] r = None"
| "checkCandidates seen (c # cs) r =
     (if definitionId (snd c) \<in> set seen then Some (InvalidDefinition (definitionId (snd c)))
      else (case assertSourceOwnership (definitionId (snd c)) (sourceRefId (fst c)) r of
              Some e \<Rightarrow> Some e
            | None \<Rightarrow> checkCandidates (definitionId (snd c) # seen) cs r))"

text \<open>The entries of the source that its new set of definitions no longer has.\<close>

definition removedConfigurations :: "string \<Rightarrow> string list \<Rightarrow> config_registry \<Rightarrow> string list" where
  "removedConfigurations s ids r =
     sort (map fst (filter (\<lambda>(k, e). entrySource e = s \<and> k \<notin> set ids) (configEntries r)))"

fun dropEntries :: "string list \<Rightarrow> config_registry \<Rightarrow> string list \<times> config_registry" where
  "dropEntries [] r = ([], r)"
| "dropEntries (k # ks) r =
     (case dropEntries ks (r\<lparr>configEntries := deleteEntry k (configEntries r)\<rparr>) of
        (ps, r') \<Rightarrow> ((case currentOf k r of Some p \<Rightarrow> [p] | None \<Rightarrow> []) @ ps, r'))"

fun installAll :: "string \<Rightarrow> generation list \<Rightarrow> config_registry \<Rightarrow> string list \<times> config_registry" where
  "installAll s [] r = ([], r)"
| "installAll s (g # gs) r =
     (case installAll s gs (installGeneration s g r) of
        (ps, r') \<Rightarrow>
          ((case currentOf (revisionConfiguration (generationRevision g)) r of Some p \<Rightarrow> [p] | None \<Rightarrow> []) @ ps, r'))"

definition replaceSource ::
    "(nat \<Rightarrow> string) \<Rightarrow> int \<Rightarrow> source_ref \<Rightarrow> configuration_definition list \<Rightarrow> config_registry \<Rightarrow>
       (configuration_error + config_revision list \<times> string list) \<times> config_registry" where
  "replaceSource ids now src ds r =
     (if registryClosed r then (Inl RegistryClosed, r)
      else (case validateSource src of
              Inl e \<Rightarrow> (Inl e, r)
            | Inr s \<Rightarrow>
                (case validateAll s ds of
                   Inl e \<Rightarrow> (Inl e, r)
                 | Inr cs \<Rightarrow>
                     (case checkCandidates [] cs r of
                        Some e \<Rightarrow> (Inl e, r)
                      | None \<Rightarrow>
                          (case createGenerations ids now cs r of
                             (Inl e, r1) \<Rightarrow> (Inl e, r1)
                           | (Inr gs, r1) \<Rightarrow>
                               (let removed = removedConfigurations (sourceRefId s) (map (definitionId \<circ> snd) cs) r1
                                in (case dropEntries removed r1 of
                                      (ps, r2) \<Rightarrow>
                                        (case installAll (sourceRefId s) gs r2 of
                                           (qs, r3) \<Rightarrow>
                                             (Inr (map generationRevision gs, removed),
                                              bumpVersion (fold retireGeneration (ps @ qs) r3))))))))))"

definition retireDefinition :: "string \<Rightarrow> config_registry \<Rightarrow> (configuration_error + bool) \<times> config_registry" where
  "retireDefinition k r =
     (if registryClosed r then (Inl RegistryClosed, r)
      else (case entryOf k r of
              None \<Rightarrow> (Inr False, r)
            | Some e \<Rightarrow>
                if \<not> entryActive e then (Inr False, r)
                else (let r1 = r\<lparr>configEntries := setEntry k (e\<lparr>entryActive := False, entryCurrent := None\<rparr>) (configEntries r)\<rparr>
                      in (Inr True,
                          bumpVersion (case entryCurrent e of Some p \<Rightarrow> retireGeneration p r1 | None \<Rightarrow> r1)))))"

definition removeDefinition :: "string \<Rightarrow> config_registry \<Rightarrow> (configuration_error + bool) \<times> config_registry" where
  "removeDefinition k r =
     (if registryClosed r then (Inl RegistryClosed, r)
      else (case entryOf k r of
              None \<Rightarrow> (Inr False, r)
            | Some e \<Rightarrow>
                (let r1 = r\<lparr>configEntries := deleteEntry k (configEntries r)\<rparr>
                 in (Inr True,
                     bumpVersion (case entryCurrent e of Some p \<Rightarrow> retireGeneration p r1 | None \<Rightarrow> r1)))))"

section \<open>Leases\<close>

definition holdLease :: "string list \<Rightarrow> config_registry \<Rightarrow> config_registry" where
  "holdLease gs r = r\<lparr>leases := leases r @ [(nextLease r, gs)], nextLease := Suc (nextLease r)\<rparr>"

definition acquireLease :: "string \<Rightarrow> config_registry \<Rightarrow> (configuration_error + nat \<times> string) \<times> config_registry" where
  "acquireLease k r =
     (if registryClosed r then (Inl RegistryClosed, r)
      else (case entryOf k r of
              None \<Rightarrow> (Inl (NotFound k), r)
            | Some e \<Rightarrow>
                (case entryCurrent e of
                   None \<Rightarrow> (Inl (Unavailable k), r)
                 | Some g \<Rightarrow>
                     if \<not> entryActive e then (Inl (Unavailable k), r)
                     else (Inr (nextLease r, g), holdLease [g] (acquireGeneration g r)))))"

definition activeGenerations :: "config_registry \<Rightarrow> string list" where
  "activeGenerations r =
     map snd (sort_key fst
       (concat (map (\<lambda>(k, e). case entryCurrent e of Some g \<Rightarrow> if entryActive e then [(k, g)] else [] | None \<Rightarrow> [])
         (configEntries r))))"

definition acquireSnapshot :: "config_registry \<Rightarrow> (configuration_error + nat \<times> nat \<times> string list) \<times> config_registry" where
  "acquireSnapshot r =
     (if registryClosed r then (Inl RegistryClosed, r)
      else (let gs = activeGenerations r
            in (Inr (nextLease r, registryVersion r, gs), holdLease gs (fold acquireGeneration gs r))))"

definition releaseLease :: "nat \<Rightarrow> config_registry \<Rightarrow> config_registry" where
  "releaseLease n r =
     (case map_of (leases r) n of
        None \<Rightarrow> r
      | Some gs \<Rightarrow> fold releaseGeneration gs (r\<lparr>leases := filter (\<lambda>(m, gs). m \<noteq> n) (leases r)\<rparr>))"

section \<open>Disposal and closing\<close>

definition disposeRuns :: "string \<Rightarrow> config_registry \<Rightarrow> config_registry" where
  "disposeRuns k r =
     (if list_ex (\<lambda>g. generationId g = k \<and> disposal g = DisposeScheduled) (generations r)
      then (updateGeneration k (\<lambda>g. g\<lparr>disposal := Disposing\<rparr>) r)\<lparr>disposedIds := disposedIds r @ [k]\<rparr>
      else r)"

definition disposeSettles :: "string \<Rightarrow> bool \<Rightarrow> config_registry \<Rightarrow> config_registry" where
  "disposeSettles k ok r =
     (if list_ex (\<lambda>g. generationId g = k \<and> disposal g = Disposing) (generations r)
      then r\<lparr>generations := filter (\<lambda>g. generationId g \<noteq> k) (generations r),
             cleanupErrors := (if ok then cleanupErrors r else cleanupErrors r @ [k])\<rparr>
      else r)"

definition closeRegistry :: "config_registry \<Rightarrow> config_registry" where
  "closeRegistry r =
     (if registryClosed r then r
      else r\<lparr>registryClosed := True, generations := map (\<lambda>g. g\<lparr>isRetired := True\<rparr>) (generations r),
             closeTasks := map generationId (generations r)\<rparr>)"

text \<open>A generation that \<open>disposeAll\<close> waits for is unused.\<close>

definition closeResumes :: "string \<Rightarrow> config_registry \<Rightarrow> config_registry" where
  "closeResumes k r =
     (if k \<in> set (closeTasks r) \<and> list_all (\<lambda>g. generationId g = k \<longrightarrow> activeLeases g = 0) (generations r)
      then disposeIfRetired k (r\<lparr>closeTasks := filter (\<lambda>k'. k' \<noteq> k) (closeTasks r)\<rparr>)
      else r)"

text \<open>Every disposal has settled: the entries are cleared and the errors reported.\<close>

definition closeEnds :: "config_registry \<Rightarrow> string list option \<times> config_registry" where
  "closeEnds r =
     (if registryClosed r \<and> closeTasks r = [] \<and> generations r = []
      then (Some (cleanupErrors r), r\<lparr>configEntries := []\<rparr>)
      else (None, r))"

section \<open>Events\<close>

datatype registry_event =
    EvUpsert "nat \<Rightarrow> string" int source_ref configuration_definition
  | EvReplaceSource "nat \<Rightarrow> string" int source_ref "configuration_definition list"
  | EvRetire string
  | EvRemove string
  | EvAcquire string
  | EvAcquireSnapshot
  | EvRelease nat
  | EvDisposeRuns string
  | EvDisposeSettles string bool
  | EvClose
  | EvCloseResumes string
  | EvCloseEnds

fun registryEvent :: "registry_event \<Rightarrow> config_registry \<Rightarrow> config_registry" where
  "registryEvent (EvUpsert ids now s d) r = snd (upsertDefinition ids now s d r)"
| "registryEvent (EvReplaceSource ids now s ds) r = snd (replaceSource ids now s ds r)"
| "registryEvent (EvRetire k) r = snd (retireDefinition k r)"
| "registryEvent (EvRemove k) r = snd (removeDefinition k r)"
| "registryEvent (EvAcquire k) r = snd (acquireLease k r)"
| "registryEvent EvAcquireSnapshot r = snd (acquireSnapshot r)"
| "registryEvent (EvRelease n) r = releaseLease n r"
| "registryEvent (EvDisposeRuns k) r = disposeRuns k r"
| "registryEvent (EvDisposeSettles k ok) r = disposeSettles k ok r"
| "registryEvent EvClose r = closeRegistry r"
| "registryEvent (EvCloseResumes k) r = closeResumes k r"
| "registryEvent EvCloseEnds r = snd (closeEnds r)"

end
