(* ===== verification/ConfigurationInvariant.thy ===== *)
theory ConfigurationInvariant
  imports ConfigurationRegistry "HOL-Library.Multiset"
begin

text \<open>
  The invariant of the definition registry: generations are counted by the leases that hold them,
  are disposed of only when retired and unused, and are unretired exactly while they are current.
\<close>

section \<open>The invariant\<close>

definition generationIds :: "config_registry \<Rightarrow> string list" where
  "generationIds r = map generationId (generations r)"

definition leaseCount :: "config_registry \<Rightarrow> string \<Rightarrow> nat" where
  "leaseCount r k = count_list (concat (map snd (leases r))) k"

definition currents :: "config_registry \<Rightarrow> string set" where
  "currents r = {p. \<exists>k e. (k, e) \<in> set (configEntries r) \<and> entryCurrent e = Some p}"

definition generationOk :: "string set \<Rightarrow> config_registry \<Rightarrow> generation \<Rightarrow> bool" where
  "generationOk X r g =
     (activeLeases g = leaseCount r (generationId g) \<and>
      (disposal g \<noteq> NotDisposed \<longrightarrow> isRetired g \<and> activeLeases g = 0) \<and>
      (\<not> isRetired g \<longrightarrow> generationId g \<in> currents r \<union> X) \<and>
      (isRetired g \<and> \<not> registryClosed r \<longrightarrow> generationId g \<notin> currents r) \<and>
      (registryClosed r \<longrightarrow> isRetired g) \<and>
      (isRetired g \<and> activeLeases g = 0 \<longrightarrow> disposal g \<noteq> NotDisposed \<or> generationId g \<in> set (closeTasks r)) \<and>
      (generationId g \<in> set (disposedIds r) \<longleftrightarrow> disposal g = Disposing))"

definition entryOk :: "config_registry \<Rightarrow> string \<times> config_entry \<Rightarrow> bool" where
  "entryOk r ke =
     (entryActive (snd ke) = (entryCurrent (snd ke) \<noteq> None) \<and>
      (\<forall>p. entryCurrent (snd ke) = Some p \<longrightarrow> \<not> registryClosed r \<longrightarrow>
         (\<exists>g \<in> set (generations r). generationId g = p \<and> revisionConfiguration (generationRevision g) = fst ke \<and>
            sourceRefId (revisionSource (generationRevision g)) = entrySource (snd ke))))"

text \<open>The generations in \<open>X\<close> have been replaced and are about to be retired.\<close>

definition registryInv :: "string set \<Rightarrow> config_registry \<Rightarrow> bool" where
  "registryInv X r =
     (distinct (generationIds r) \<and> set (generationIds r) \<subseteq> set (revisionIds r) \<and>
      (\<forall>(n, gs) \<in> set (leases r). n < nextLease r \<and> distinct gs \<and> set gs \<subseteq> set (generationIds r)) \<and> distinct (map fst (leases r)) \<and>
      distinct (map fst (configEntries r)) \<and> list_all (entryOk r) (configEntries r) \<and>
      distinct (disposedIds r) \<and> set (disposedIds r) \<subseteq> set (revisionIds r) \<and>
      list_all (generationOk X r) (generations r) \<and> X \<inter> currents r = {} \<and>
      X \<subseteq> set (generationIds r) \<and> (\<not> registryClosed r \<longrightarrow> closeTasks r = []))"

lemma newRegistry_inv: "registryInv {} newRegistry"
  by (simp add: registryInv_def newRegistry_def generationIds_def currents_def)

section \<open>Updating one generation\<close>

lemma updateGeneration_fields [simp]:
  "configEntries (updateGeneration k f r) = configEntries r" "revisionIds (updateGeneration k f r) = revisionIds r"
  "revisionCounter (updateGeneration k f r) = revisionCounter r"
  "registryVersion (updateGeneration k f r) = registryVersion r"
  "registryClosed (updateGeneration k f r) = registryClosed r" "closeTasks (updateGeneration k f r) = closeTasks r"
  "leases (updateGeneration k f r) = leases r" "nextLease (updateGeneration k f r) = nextLease r"
  "disposedIds (updateGeneration k f r) = disposedIds r" "cleanupErrors (updateGeneration k f r) = cleanupErrors r"
  "currents (updateGeneration k f r) = currents r" "leaseCount (updateGeneration k f r) = leaseCount r"
  by (simp_all add: updateGeneration_def currents_def leaseCount_def fun_eq_iff)

lemma updateGeneration_generations:
  "generations (updateGeneration k f r) = map (\<lambda>g. if generationId g = k then f g else g) (generations r)"
  by (simp add: updateGeneration_def)

text \<open>A step that updates the generations in place.\<close>

lemma generations_inv:
  assumes inv: "registryInv X r" and rev: "\<And>g. generationRevision (f g) = generationRevision g"
    and gens: "generations r' = map f (generations r)"
    and same: "configEntries r' = configEntries r" "revisionIds r' = revisionIds r"
    and mono: "registryClosed r \<longrightarrow> registryClosed r'" "\<not> registryClosed r' \<longrightarrow> closeTasks r' = []"
    and disp: "distinct (disposedIds r')" "set (disposedIds r') \<subseteq> set (revisionIds r)"
    and held: "\<And>n gs. (n, gs) \<in> set (leases r') \<Longrightarrow> n < nextLease r' \<and> distinct gs \<and> set gs \<subseteq> set (generationIds r)"
      "distinct (map fst (leases r'))"
    and Y: "Y \<subseteq> X"
    and ok: "\<And>g. g \<in> set (generations r) \<Longrightarrow> generationOk X r g \<Longrightarrow> generationOk Y r' (f g)"
  shows "registryInv Y r'"
proof -
  have ids: "generationIds r' = generationIds r"
    using rev by (simp add: gens generationIds_def generationId_def)
  have cur: "currents r' = currents r" by (simp add: currents_def same)
  have "entryOk r' ke" if "entryOk r ke" for ke
    using that mono(1) rev unfolding entryOk_def gens by (auto simp: generationId_def)
  then have "list_all (entryOk r') (configEntries r')"
    using inv by (auto simp: registryInv_def list_all_iff same)
  moreover have "list_all (generationOk Y r') (generations r')"
    using inv ok unfolding registryInv_def gens list_all_iff by auto
  moreover have "\<forall>(n, gs) \<in> set (leases r'). n < nextLease r' \<and> distinct gs \<and> set gs \<subseteq> set (generationIds r)"
    using held(1) by auto
  moreover have "Y \<inter> currents r = {}" "Y \<subseteq> set (generationIds r)" "distinct (generationIds r)"
    "set (generationIds r) \<subseteq> set (revisionIds r)" "distinct (map fst (configEntries r))"
    using inv Y by (auto simp: registryInv_def)
  ultimately show ?thesis
    using mono(2) disp held(2) by (simp add: registryInv_def ids cur same)
qed

lemma updateGeneration_inv:
  assumes inv: "registryInv X r" and f: "\<And>g. generationRevision (f g) = generationRevision g"
    and Y: "Y \<subseteq> X" "\<And>g. g \<in> set (generations r) \<Longrightarrow> generationId g \<noteq> k \<Longrightarrow> \<not> isRetired g \<Longrightarrow> generationId g \<in> X \<Longrightarrow> generationId g \<in> Y"
    and ok: "\<And>g. g \<in> set (generations r) \<Longrightarrow> generationId g = k \<Longrightarrow> generationOk X r g \<Longrightarrow> generationOk Y r (f g)"
  shows "registryInv Y (updateGeneration k f r)"
proof (rule generations_inv [OF inv _ updateGeneration_generations])
  show "generationRevision (if generationId g = k then f g else g) = generationRevision g" for g using f by simp
  have eq: "generationOk Y (updateGeneration k f r) = generationOk Y r" by (simp add: fun_eq_iff generationOk_def)
  show "generationOk Y (updateGeneration k f r) (if generationId g = k then f g else g)"
    if g: "g \<in> set (generations r)" "generationOk X r g" for g
    unfolding eq using ok [OF g(1) _ g(2)] g(2) Y(2) [OF g(1)] by (auto simp: generationOk_def)
qed (use inv Y(1) in \<open>auto simp: registryInv_def\<close>)

lemma schedule_revision [simp]: "generationRevision (scheduleDisposal g) = generationRevision g"
  by (simp add: scheduleDisposal_def)

lemma disposeIfRetired_inv:
  assumes "registryInv X r"
  shows "registryInv X (disposeIfRetired k r)"
  unfolding disposeIfRetired_def
  by (rule updateGeneration_inv [OF assms]) (auto simp: generationOk_def scheduleDisposal_def generationId_def)

lemma updateGeneration_twice:
  assumes "\<And>g. generationRevision (f g) = generationRevision g"
  shows "updateGeneration k h (updateGeneration k f r) = updateGeneration k (\<lambda>g. h (f g)) r"
  using assms by (simp add: updateGeneration_def generationId_def)

lemma retireGeneration_inv:
  assumes inv: "registryInv (insert p X) r"
  shows "registryInv X (retireGeneration p r)"
proof -
  have nc: "p \<notin> currents r" using inv by (auto simp: registryInv_def)
  have "retireGeneration p r = updateGeneration p (\<lambda>g. scheduleDisposal (g\<lparr>isRetired := True\<rparr>)) r"
    unfolding retireGeneration_def disposeIfRetired_def by (rule updateGeneration_twice) simp
  moreover have "registryInv X (updateGeneration p (\<lambda>g. scheduleDisposal (g\<lparr>isRetired := True\<rparr>)) r)"
    by (rule updateGeneration_inv [OF inv])
      (use nc in \<open>auto simp: generationOk_def scheduleDisposal_def generationId_def\<close>)
  ultimately show ?thesis by simp
qed

lemma retireAll_inv: "registryInv (set ps \<union> X) r \<Longrightarrow> registryInv X (fold retireGeneration ps r)"
proof (induction ps arbitrary: r)
  case (Cons p ps)
  then show ?case using retireGeneration_inv [of p "set ps \<union> X" r] by simp
qed simp

section \<open>Changing the entries\<close>

lemma setEntry_keys: "map fst (setEntry k e es) = (if k \<in> set (map fst es) then map fst es else map fst es @ [k])"
  by (induction es) (auto simp: rev_image_eqI)

lemma setEntry_set:
  "distinct (map fst es) \<Longrightarrow> set (setEntry k e es) = insert (k, e) {ke \<in> set es. fst ke \<noteq> k}"
  by (induction k e es rule: setEntry.induct) (auto simp: image_iff split: if_splits)

lemma entryOf_mem: "entryOf k r = Some e \<Longrightarrow> (k, e) \<in> set (configEntries r)"
  by (simp add: entryOf_def map_of_SomeD)

lemma entry_generation:
  assumes "registryInv X r" "\<not> registryClosed r" "(k, e) \<in> set (configEntries r)" "entryCurrent e = Some p"
  obtains g where "g \<in> set (generations r)" "generationId g = p"
    "revisionConfiguration (generationRevision g) = k" "sourceRefId (revisionSource (generationRevision g)) = entrySource e"
proof -
  have "entryOk r (k, e)" using assms(1,3) by (simp add: registryInv_def list_all_iff)
  then show ?thesis using that assms(2,4) by (auto simp: entryOk_def)
qed

lemma generation_unique:
  assumes "registryInv X r" "g \<in> set (generations r)" "g' \<in> set (generations r)" "generationId g = generationId g'"
  shows "g = g'"
proof -
  have "inj_on generationId (set (generations r))"
    using assms(1) by (simp add: registryInv_def generationIds_def distinct_map)
  then show ?thesis using assms(2-4) by (simp add: inj_on_eq_iff)
qed

lemma entry_unique:
  assumes inv: "registryInv X r" and o: "\<not> registryClosed r"
    and "(k, e) \<in> set (configEntries r)" "entryCurrent e = Some p"
    and "(k', e') \<in> set (configEntries r)" "entryCurrent e' = Some p"
  shows "k = k'"
  using entry_generation [OF inv o assms(3,4)] entry_generation [OF inv o assms(5,6)] generation_unique [OF inv]
  by metis

text \<open>The entries change outside one key; the generation that was current there is about to be retired.\<close>

lemma entries_inv:
  assumes inv: "registryInv X r" and o: "\<not> registryClosed r"
    and d: "distinct (map fst es)"
    and es: "\<And>ke. ke \<in> set es \<Longrightarrow> ke \<in> set (configEntries r) \<and> fst ke \<noteq> k \<or> (ke = (k, e) \<and> entryCurrent e = None \<and> \<not> entryActive e)"
    and keep: "\<And>ke. ke \<in> set (configEntries r) \<Longrightarrow> fst ke \<noteq> k \<Longrightarrow> ke \<in> set es"
  shows "registryInv (set_option (currentOf k r) \<union> X) (r\<lparr>configEntries := es\<rparr>)"
proof -
  let ?r = "r\<lparr>configEntries := es\<rparr>"
  let ?p = "set_option (currentOf k r)"
  have dk: "distinct (map fst (configEntries r))" using inv by (simp add: registryInv_def)
  have cur: "currents ?r = currents r - ?p"
  proof (rule set_eqI)
    fix q
    show "q \<in> currents ?r \<longleftrightarrow> q \<in> currents r - ?p"
    proof
      assume "q \<in> currents ?r"
      then obtain k' e' where m: "(k', e') \<in> set es" "entryCurrent e' = Some q" by (auto simp: currents_def)
      then have old: "(k', e') \<in> set (configEntries r)" "k' \<noteq> k" using es [OF m(1)] by auto
      have "q \<notin> ?p"
      proof
        assume "q \<in> ?p"
        then obtain e0 where e0: "entryOf k r = Some e0" "entryCurrent e0 = Some q"
          by (auto simp: currentOf_def split: option.splits)
        show False using entry_unique [OF inv o entryOf_mem [OF e0(1)] e0(2) old(1) m(2)] old(2) by simp
      qed
      then show "q \<in> currents r - ?p" using old m(2) by (auto simp: currents_def)
    next
      assume q: "q \<in> currents r - ?p"
      then obtain k' e' where m: "(k', e') \<in> set (configEntries r)" "entryCurrent e' = Some q" by (auto simp: currents_def)
      have "k' \<noteq> k"
      proof
        assume "k' = k"
        then have "entryOf k r = Some e'" using m(1) dk by (simp add: entryOf_def)
        then show False using q m(2) by (simp add: currentOf_def)
      qed
      then show "q \<in> currents ?r" using keep [OF m(1)] m(2) by (auto simp: currents_def)
    qed
  qed
  have "list_all (entryOk ?r) es"
  proof (unfold list_all_iff, rule ballI)
    fix ke assume "ke \<in> set es"
    from es [OF this] show "entryOk ?r ke"
      using inv by (auto simp: registryInv_def list_all_iff entryOk_def)
  qed
  moreover have "list_all (generationOk (?p \<union> X) ?r) (generations r)"
    using inv o unfolding registryInv_def list_all_iff generationOk_def cur by (auto simp: leaseCount_def)
  moreover have "X \<inter> currents r = {}" using inv by (simp add: registryInv_def)
  moreover have "?p \<subseteq> set (generationIds r)"
  proof
    fix p assume "p \<in> ?p"
    then obtain e where "entryOf k r = Some e" "entryCurrent e = Some p" by (auto simp: currentOf_def split: option.splits)
    then show "p \<in> set (generationIds r)"
      using entry_generation [OF inv o entryOf_mem] by (metis generationIds_def image_eqI set_map)
  qed
  ultimately show ?thesis
    using inv d cur unfolding registryInv_def by (auto simp: generationIds_def)
qed

lemma delete_inv:
  assumes "registryInv X r" "\<not> registryClosed r"
  shows "registryInv (set_option (currentOf k r) \<union> X) (r\<lparr>configEntries := deleteEntry k (configEntries r)\<rparr>)"
proof (rule entries_inv [OF assms])
  show "distinct (map fst (deleteEntry k (configEntries r)))"
    using assms(1) by (simp add: registryInv_def deleteEntry_def distinct_map_filter)
qed (auto simp: deleteEntry_def)

lemma retireEntry_inv:
  assumes "registryInv X r" "\<not> registryClosed r"
  shows "registryInv (set_option (currentOf k r) \<union> X)
    (r\<lparr>configEntries := setEntry k (e\<lparr>entryActive := False, entryCurrent := None\<rparr>) (configEntries r)\<rparr>)"
proof (rule entries_inv [OF assms])
  have d: "distinct (map fst (configEntries r))" using assms(1) by (simp add: registryInv_def)
  then show "distinct (map fst (setEntry k e' (configEntries r)))" for e' unfolding setEntry_keys by simp
  show "ke \<in> set (setEntry k (e\<lparr>entryActive := False, entryCurrent := None\<rparr>) (configEntries r)) \<Longrightarrow>
      ke \<in> set (configEntries r) \<and> fst ke \<noteq> k \<or>
      (ke = (k, e\<lparr>entryActive := False, entryCurrent := None\<rparr>) \<and>
       entryCurrent (e\<lparr>entryActive := False, entryCurrent := None\<rparr>) = None \<and>
       \<not> entryActive (e\<lparr>entryActive := False, entryCurrent := None\<rparr>))" for ke
    unfolding setEntry_set [OF d] by auto
  show "ke \<in> set (configEntries r) \<Longrightarrow> fst ke \<noteq> k \<Longrightarrow>
      ke \<in> set (setEntry k (e\<lparr>entryActive := False, entryCurrent := None\<rparr>) (configEntries r))" for ke
    unfolding setEntry_set [OF d] by auto
qed

end
