(* ===== verification/ConfigurationOperations.thy ===== *)
theory ConfigurationOperations
  imports ConfigurationInvariant
begin

text \<open>
  Every operation of the definition registry keeps its invariant, and the behaviour of
  \<open>replaceSource\<close>.
\<close>

section \<open>Installing generations\<close>

definition freshGeneration :: "config_registry \<Rightarrow> generation \<Rightarrow> bool" where
  "freshGeneration r g =
     (generationId g \<notin> set (generationIds r) \<and> generationId g \<notin> set (disposedIds r) \<and>
      generationId g \<in> set (revisionIds r) \<and> activeLeases g = 0 \<and> \<not> isRetired g \<and> disposal g = NotDisposed)"

lemma entries_same_set:
  assumes inv: "registryInv X r" and es: "set es = set (configEntries r)" "distinct (map fst es)"
  shows "registryInv X (r\<lparr>configEntries := es\<rparr>)"
proof -
  let ?r = "r\<lparr>configEntries := es\<rparr>"
  have cur: "currents ?r = currents r" by (simp add: currents_def es)
  have "entryOk ?r = entryOk r" by (simp add: fun_eq_iff entryOk_def)
  moreover have "generationOk X ?r = generationOk X r" unfolding fun_eq_iff generationOk_def cur by (simp add: leaseCount_def)
  ultimately show ?thesis
    using inv es unfolding registryInv_def list_all_iff cur by (simp add: generationIds_def)
qed

lemma unknown_not_leased:
  assumes "registryInv X r" "p \<notin> set (generationIds r)"
  shows "leaseCount r p = 0"
proof -
  have "p \<notin> set gs" if "(n, gs) \<in> set (leases r)" for n gs
    using assms that by (auto simp: registryInv_def)
  then show ?thesis by (auto simp: leaseCount_def count_list_0_iff)
qed

lemma add_inv:
  assumes inv: "registryInv X r" and o: "\<not> registryClosed r" and new: "k \<notin> set (map fst (configEntries r))"
    and g: "freshGeneration r g" "revisionConfiguration (generationRevision g) = k"
    and e: "entryActive e" "entryCurrent e = Some (generationId g)"
      "entrySource e = sourceRefId (revisionSource (generationRevision g))"
  shows "registryInv X (r\<lparr>generations := generations r @ [g], configEntries := (k, e) # configEntries r\<rparr>)"
proof -
  let ?r = "r\<lparr>generations := generations r @ [g], configEntries := (k, e) # configEntries r\<rparr>"
  have cur: "currents ?r = insert (generationId g) (currents r)" using e(2) by (auto simp: currents_def)
  have ids: "generationIds ?r = generationIds r @ [generationId g]" by (simp add: generationIds_def)
  have lc: "leaseCount ?r = leaseCount r" by (simp add: fun_eq_iff leaseCount_def)
  have old: "generationId h \<noteq> generationId g" if "h \<in> set (generations r)" for h
    using g(1) that unfolding freshGeneration_def generationIds_def set_map by (metis imageI)
  have "generationOk X ?r h" if h: "h \<in> set (generations r)" "generationOk X r h" for h
    using h(2) old [OF h(1)] unfolding generationOk_def cur lc by auto
  moreover have "generationOk X ?r g"
    using g(1) o unknown_not_leased [OF inv] unfolding generationOk_def cur lc by (simp add: freshGeneration_def)
  moreover have "entryOk ?r ke" if "entryOk r ke" for ke
    using that by (auto simp: entryOk_def)
  moreover have "entryOk ?r (k, e)" using e g(2) by (simp add: entryOk_def)
  moreover have "generationId g \<notin> X" using inv g(1) by (auto simp: registryInv_def freshGeneration_def)
  ultimately show ?thesis
    using inv new g(1) unfolding registryInv_def ids cur list_all_iff by (auto simp: freshGeneration_def)
qed

lemma install_inv:
  assumes inv: "registryInv X r" and o: "\<not> registryClosed r" and g: "freshGeneration r g"
    and s: "sourceRefId (revisionSource (generationRevision g)) = s"
  shows "registryInv (set_option (currentOf (revisionConfiguration (generationRevision g)) r) \<union> X) (installGeneration s g r)"
proof -
  let ?k = "revisionConfiguration (generationRevision g)"
  let ?e = "\<lparr>entrySource = s, entryActive = True, entryCurrent = Some (generationId g), lastRevisionId = generationId g\<rparr>"
  let ?r1 = "r\<lparr>configEntries := deleteEntry ?k (configEntries r)\<rparr>"
  let ?r2 = "?r1\<lparr>generations := generations ?r1 @ [g], configEntries := (?k, ?e) # configEntries ?r1\<rparr>"
  let ?X = "set_option (currentOf ?k r) \<union> X"
  have d: "distinct (map fst (configEntries r))" using inv by (simp add: registryInv_def)
  have "freshGeneration ?r1 g" using g by (simp add: freshGeneration_def generationIds_def)
  moreover have "?k \<notin> set (map fst (configEntries ?r1))" by (auto simp: deleteEntry_def)
  ultimately have 2: "registryInv ?X ?r2"
    using add_inv [OF delete_inv [OF inv o, of ?k], of ?k g ?e] o s by simp
  have "set (setEntry ?k ?e (configEntries r)) = set (configEntries ?r2)"
    unfolding setEntry_set [OF d] by (auto simp: deleteEntry_def)
  moreover have "distinct (map fst (setEntry ?k ?e (configEntries r)))" using d by (simp add: setEntry_keys)
  ultimately have "registryInv ?X (?r2\<lparr>configEntries := setEntry ?k ?e (configEntries r)\<rparr>)"
    by (rule entries_same_set [OF 2])
  then show ?thesis by (simp add: installGeneration_def)
qed

section \<open>New generations\<close>

lemma counters_inv:
  assumes "registryInv X r" "set (revisionIds r) \<subseteq> set ids"
  shows "registryInv X (r\<lparr>revisionCounter := n, revisionIds := ids\<rparr>)"
proof -
  let ?r = "r\<lparr>revisionCounter := n, revisionIds := ids\<rparr>"
  have "generationOk X ?r = generationOk X r" "entryOk ?r = entryOk r" "currents ?r = currents r"
    "generationIds ?r = generationIds r"
    by (simp_all add: fun_eq_iff generationOk_def entryOk_def currents_def leaseCount_def generationIds_def)
  then show ?thesis using assms by (auto simp: registryInv_def)
qed

text \<open>
  What creating generations does, on every branch: only the counter and the ids change; on
  success the generations are new and carry the candidates in order.
\<close>

definition newlyCreated :: "(source_ref \<times> configuration_definition) list \<Rightarrow> config_registry \<Rightarrow> generation list \<Rightarrow> config_registry \<Rightarrow> bool" where
  "newlyCreated cs r gs r' =
     (map (\<lambda>g. (revisionSource (generationRevision g), revisionDefinition (generationRevision g))) gs = cs \<and>
      list_all (\<lambda>g. revisionConfiguration (generationRevision g) = definitionId (revisionDefinition (generationRevision g)) \<and>
         activeLeases g = 0 \<and> \<not> isRetired g \<and> disposal g = NotDisposed) gs \<and>
      distinct (map generationId gs) \<and> set (map generationId gs) \<inter> set (revisionIds r) = {} \<and>
      set (map generationId gs) \<subseteq> set (revisionIds r'))"

definition countersOnly :: "config_registry \<Rightarrow> config_registry \<Rightarrow> bool" where
  "countersOnly r r' =
     (\<exists>n ids. r' = r\<lparr>revisionCounter := n, revisionIds := ids\<rparr> \<and> set (revisionIds r) \<subseteq> set ids)"

lemma countersOnly_refl: "countersOnly r r"
  unfolding countersOnly_def by (rule exI [of _ "revisionCounter r"], rule exI [of _ "revisionIds r"]) simp

lemma countersOnly_trans: "countersOnly r r1 \<Longrightarrow> countersOnly r1 r2 \<Longrightarrow> countersOnly r r2"
  unfolding countersOnly_def by fastforce

lemma countersOnly_inv: "registryInv X r \<Longrightarrow> countersOnly r r' \<Longrightarrow> registryInv X r'"
  by (auto simp: countersOnly_def counters_inv)

lemma countersOnly_fields:
  "countersOnly r r' \<Longrightarrow> configEntries r' = configEntries r \<and> generations r' = generations r \<and>
     registryClosed r' = registryClosed r \<and> registryVersion r' = registryVersion r \<and> leases r' = leases r \<and>
     nextLease r' = nextLease r \<and> disposedIds r' = disposedIds r \<and> set (revisionIds r) \<subseteq> set (revisionIds r')"
  by (auto simp: countersOnly_def)

lemma createGeneration_counters: "createGeneration ids now c r = (res, r') \<Longrightarrow> countersOnly r r'"
  unfolding countersOnly_def
  by (rule exI [of _ "revisionCounter r'"], rule exI [of _ "revisionIds r'"])
    (auto simp: createGeneration_def Let_def split: if_splits)

lemma createGeneration_created: "createGeneration ids now c r = (Inr g, r') \<Longrightarrow> newlyCreated [c] r [g] r'"
  by (auto simp: createGeneration_def Let_def newlyCreated_def generationId_def split: if_splits)

lemma createGenerations_counters: "createGenerations ids now cs r = (res, r') \<Longrightarrow> countersOnly r r'"
proof (induction ids now cs r arbitrary: res r' rule: createGenerations.induct)
  case (2 ids now c cs r)
  obtain res1 r1 where one: "createGeneration ids now c r = (res1, r1)" by fastforce
  note c1 = createGeneration_counters [OF one]
  show ?case
  proof (cases res1)
    case (Inl e)
    then show ?thesis using 2(2) one c1 by simp
  next
    case (Inr g)
    obtain res2 r2 where two: "createGenerations ids now cs r1 = (res2, r2)" by fastforce
    have "countersOnly r1 r2" using 2(1) [OF one [symmetric] Inr two] .
    then show ?thesis using 2(2) one two Inr countersOnly_trans [OF c1] by (auto split: sum.splits)
  qed
qed (simp add: countersOnly_refl)

lemma created_Cons:
  assumes "newlyCreated [c] r [g] r1" "newlyCreated cs r1 gs r2" "countersOnly r r1" "countersOnly r1 r2"
  shows "newlyCreated (c # cs) r (g # gs) r2"
  using assms(1,2) countersOnly_fields [OF assms(3)] countersOnly_fields [OF assms(4)]
  unfolding newlyCreated_def by auto

lemma createGenerations_created: "createGenerations ids now cs r = (Inr gs, r') \<Longrightarrow> newlyCreated cs r gs r'"
proof (induction ids now cs r arbitrary: gs r' rule: createGenerations.induct)
  case (1 ids now r)
  then show ?case by (simp add: newlyCreated_def)
next
  case (2 ids now c cs r)
  then obtain g r1 gs' where one: "createGeneration ids now c r = (Inr g, r1)"
    and two: "createGenerations ids now cs r1 = (Inr gs', r')" and gs: "gs = g # gs'"
    by (auto split: prod.splits sum.splits)
  have "newlyCreated cs r1 gs' r'" using 2(1) [OF one [symmetric] refl two] .
  then show ?case unfolding gs
    by (rule created_Cons [OF createGeneration_created [OF one] _ createGeneration_counters [OF one]
          createGenerations_counters [OF two]])
qed

section \<open>Publishing\<close>

lemma dropEntries_entries:
  "dropEntries ks r = (ps, r') \<Longrightarrow> r' = r\<lparr>configEntries := filter (\<lambda>(k, e). k \<notin> set ks) (configEntries r)\<rparr>"
proof (induction ks arbitrary: r ps r')
  case (Cons k ks)
  obtain qs r1 where d: "dropEntries ks (r\<lparr>configEntries := deleteEntry k (configEntries r)\<rparr>) = (qs, r1)" by fastforce
  then have "r' = r1" using Cons.prems by simp
  then show ?case using Cons.IH [OF d] by (simp add: deleteEntry_def case_prod_unfold conj_commute cong: conj_cong)
qed simp

lemma dropEntries_inv:
  "dropEntries ks r = (ps, r') \<Longrightarrow> registryInv X r \<Longrightarrow> \<not> registryClosed r \<Longrightarrow> registryInv (set ps \<union> X) r'"
proof (induction ks arbitrary: r ps X r')
  case (Cons k ks)
  let ?r = "r\<lparr>configEntries := deleteEntry k (configEntries r)\<rparr>"
  obtain qs r1 where d: "dropEntries ks ?r = (qs, r1)" by fastforce
  then have eqs: "r' = r1" "set ps = set_option (currentOf k r) \<union> set qs"
    using Cons.prems(1) by (auto split: option.splits)
  have "registryInv (set qs \<union> (set_option (currentOf k r) \<union> X)) r1"
    using Cons.IH [OF d delete_inv [OF Cons.prems(2,3)]] Cons.prems(3) by simp
  then show ?case by (simp add: eqs Un_ac)
qed simp

abbreviation generationEntry :: "string \<Rightarrow> generation \<Rightarrow> config_entry" where
  "generationEntry s g \<equiv>
     \<lparr>entrySource = s, entryActive = True, entryCurrent = Some (generationId g), lastRevisionId = generationId g\<rparr>"

lemma installAll_entries:
  "installAll s gs r = (ps, r') \<Longrightarrow>
     r' = r\<lparr>generations := generations r @ gs,
            configEntries := fold (\<lambda>g. setEntry (revisionConfiguration (generationRevision g)) (generationEntry s g)) gs
              (configEntries r)\<rparr>"
proof (induction gs arbitrary: r ps r')
  case (Cons g gs)
  obtain qs r1 where d: "installAll s gs (installGeneration s g r) = (qs, r1)" by fastforce
  then have "r' = r1" using Cons.prems by simp
  then show ?case using Cons.IH [OF d] by (simp add: installGeneration_def)
qed simp

lemma installAll_inv:
  "installAll s gs r = (ps, r') \<Longrightarrow> registryInv X r \<Longrightarrow> \<not> registryClosed r \<Longrightarrow> list_all (freshGeneration r) gs \<Longrightarrow>
     distinct (map generationId gs) \<Longrightarrow> list_all (\<lambda>g. sourceRefId (revisionSource (generationRevision g)) = s) gs \<Longrightarrow>
     registryInv (set ps \<union> X) r'"
proof (induction gs arbitrary: r ps X r')
  case (Cons g gs)
  let ?r = "installGeneration s g r"
  let ?p = "set_option (currentOf (revisionConfiguration (generationRevision g)) r)"
  obtain qs r1 where d: "installAll s gs ?r = (qs, r1)" by fastforce
  then have eqs: "r' = r1" "set ps = ?p \<union> set qs"
    using Cons.prems(1) by (auto split: option.splits)
  have "registryInv (?p \<union> X) ?r" using Cons.prems by (intro install_inv) simp_all
  moreover have "list_all (freshGeneration ?r) gs"
  proof (unfold list_all_iff, rule ballI)
    fix h assume h: "h \<in> set gs"
    then have "generationId h \<noteq> generationId g" using Cons.prems(5) by (metis distinct.simps(2) imageI list.simps(9) set_map)
    then show "freshGeneration ?r h"
      using Cons.prems(4) h by (simp add: list_all_iff freshGeneration_def installGeneration_def generationIds_def)
  qed
  ultimately have "registryInv (set qs \<union> (?p \<union> X)) r1"
    using Cons.prems by (intro Cons.IH [OF d]) (simp_all add: installGeneration_def)
  then show ?case by (simp add: eqs Un_ac)
qed simp

lemma bumpVersion_inv: "registryInv X r \<Longrightarrow> registryInv X (bumpVersion r)"
proof -
  assume inv: "registryInv X r"
  have "generationOk X (bumpVersion r) = generationOk X r" "entryOk (bumpVersion r) = entryOk r"
    "currents (bumpVersion r) = currents r" "generationIds (bumpVersion r) = generationIds r"
    by (simp_all add: bumpVersion_def fun_eq_iff generationOk_def entryOk_def currents_def leaseCount_def generationIds_def)
  then show ?thesis using inv by (simp add: registryInv_def) (simp add: bumpVersion_def)
qed

lemma created_fresh:
  assumes inv: "registryInv X r" and c: "newlyCreated cs r gs r'" "countersOnly r r'"
  shows "list_all (freshGeneration r') gs"
proof -
  have old: "set (generationIds r') \<subseteq> set (revisionIds r)" "set (disposedIds r') \<subseteq> set (revisionIds r)"
    using inv countersOnly_fields [OF c(2)] by (auto simp: registryInv_def generationIds_def)
  show ?thesis
  proof (unfold list_all_iff, rule ballI)
    fix g assume g: "g \<in> set gs"
    then have "generationId g \<in> set (map generationId gs)" by simp
    then have "generationId g \<notin> set (revisionIds r)" "generationId g \<in> set (revisionIds r')"
      using c(1) unfolding newlyCreated_def by blast+
    then show "freshGeneration r' g"
      using c(1) g old unfolding newlyCreated_def freshGeneration_def list_all_iff by blast
  qed
qed

lemma created_source:
  "newlyCreated cs r gs r' \<Longrightarrow> list_all (\<lambda>c. fst c = s) cs \<Longrightarrow> list_all (\<lambda>g. revisionSource (generationRevision g) = s) gs"
  by (auto simp: newlyCreated_def list_all_iff)

lemma validateAll_sources: "validateAll s ds = Inr cs \<Longrightarrow> list_all (\<lambda>c. fst c = s) cs"
  by (induction ds arbitrary: cs) (auto split: sum.splits)

lemma installGeneration_open [simp]: "registryClosed (installGeneration s g r) = registryClosed r"
  by (simp add: installGeneration_def)

lemma countersOnly_currentOf: "countersOnly r r' \<Longrightarrow> currentOf k r' = currentOf k r"
  by (auto simp: countersOnly_def currentOf_def entryOf_def)

lemma retireOption_inv:
  "registryInv (set_option p \<union> X) r \<Longrightarrow>
     registryInv X (case p of Some p \<Rightarrow> retireGeneration p r | None \<Rightarrow> r)"
  by (cases p) (simp_all add: retireGeneration_inv)

text \<open>The outcomes of \<open>upsert\<close>.\<close>

lemma upsertDefinition_cases:
  assumes "upsertDefinition ids now src d r = (res, r')"
  obtains (failed) e where "res = Inl e" "countersOnly r r'"
  | (published) s d' g r1 where "validateSource src = Inr s" "validateDefinition d = Inr d'"
      "assertSourceOwnership (definitionId d') (sourceRefId s) r = None" "\<not> registryClosed r"
      "createGeneration ids now (s, d') r = (Inr g, r1)" "res = Inr (generationRevision g)"
      "r' = bumpVersion (case currentOf (definitionId d') r1 of
                 Some p \<Rightarrow> retireGeneration p (installGeneration (sourceRefId s) g r1)
               | None \<Rightarrow> installGeneration (sourceRefId s) g r1)"
  using assms countersOnly_refl [of r] createGeneration_counters
  by (auto simp: upsertDefinition_def split: if_splits sum.splits option.splits prod.splits)

lemma upsertDefinition_inv:
  assumes inv: "registryInv {} r"
  shows "registryInv {} (snd (upsertDefinition ids now src d r))"
proof -
  obtain res r' where u: "upsertDefinition ids now src d r = (res, r')" by fastforce
  from u have "registryInv {} r'"
  proof (cases rule: upsertDefinition_cases)
    case (failed e)
    then show ?thesis using countersOnly_inv [OF inv] by simp
  next
    case (published s d' g r1)
    note c = createGeneration_counters [OF published(5)] and n = createGeneration_created [OF published(5)]
    have "freshGeneration r1 g" using created_fresh [OF inv n c] by simp
    moreover have "revisionConfiguration (generationRevision g) = definitionId d'"
      "sourceRefId (revisionSource (generationRevision g)) = sourceRefId s"
      using n by (simp_all add: newlyCreated_def)
    moreover have "\<not> registryClosed r1" using published(4) countersOnly_fields [OF c] by simp
    ultimately have "registryInv (set_option (currentOf (definitionId d') r1) \<union> {}) (installGeneration (sourceRefId s) g r1)"
      using install_inv [OF countersOnly_inv [OF inv c]] by metis
    then show ?thesis unfolding published(7) by (intro bumpVersion_inv retireOption_inv)
  qed
  then show ?thesis by (simp add: u)
qed

lemma replaceSource_cases:
  assumes "replaceSource ids now src ds r = (res, r')"
  obtains (failed) e where "res = Inl e" "countersOnly r r'"
  | (published) s cs gs removed r1 ps r2 qs r3 where "validateSource src = Inr s" "validateAll s ds = Inr cs"
      "checkCandidates [] cs r = None" "\<not> registryClosed r" "createGenerations ids now cs r = (Inr gs, r1)"
      "removed = removedConfigurations (sourceRefId s) (map (definitionId \<circ> snd) cs) r1"
      "dropEntries removed r1 = (ps, r2)" "installAll (sourceRefId s) gs r2 = (qs, r3)"
      "res = Inr (map generationRevision gs, removed)" "r' = bumpVersion (fold retireGeneration (ps @ qs) r3)"
  using assms countersOnly_refl [of r] createGenerations_counters
  by (auto simp: replaceSource_def Let_def split: if_splits sum.splits option.splits prod.splits)

lemma replaceSource_inv:
  assumes inv: "registryInv {} r"
  shows "registryInv {} (snd (replaceSource ids now src ds r))"
proof -
  obtain res r' where u: "replaceSource ids now src ds r = (res, r')" by fastforce
  from u have "registryInv {} r'"
  proof (cases rule: replaceSource_cases)
    case (failed e)
    then show ?thesis using countersOnly_inv [OF inv] by simp
  next
    case (published s cs gs removed r1 ps r2 qs r3)
    note c = createGenerations_counters [OF published(5)] and n = createGenerations_created [OF published(5)]
    have o1: "\<not> registryClosed r1" using published(4) countersOnly_fields [OF c] by simp
    note r2 = dropEntries_entries [OF published(7)]
    have "list_all (freshGeneration r2) gs"
      using created_fresh [OF inv n c] by (simp add: r2 list_all_iff freshGeneration_def generationIds_def)
    moreover have "list_all (\<lambda>g. sourceRefId (revisionSource (generationRevision g)) = sourceRefId s) gs"
      using created_source [OF n validateAll_sources [OF published(2)]] by (simp add: list_all_iff)
    moreover have "distinct (map generationId gs)" using n by (simp add: newlyCreated_def)
    moreover have "registryInv (set ps \<union> {}) r2"
      by (rule dropEntries_inv [OF published(7) countersOnly_inv [OF inv c] o1])
    ultimately have "registryInv (set qs \<union> (set ps \<union> {})) r3"
      using o1 by (intro installAll_inv [OF published(8)]) (simp_all add: r2)
    then have "registryInv (set (ps @ qs) \<union> {}) r3" by (simp add: Un_commute)
    then show ?thesis unfolding published(10) by (intro bumpVersion_inv retireAll_inv)
  qed
  then show ?thesis by (simp add: u)
qed

lemma currentOf_entry: "entryOf k r = Some e \<Longrightarrow> currentOf k r = entryCurrent e"
  by (simp add: currentOf_def)

lemma retireDefinition_cases:
  obtains (unchanged) "snd (retireDefinition k r) = r"
  | (retired) e where "\<not> registryClosed r" "entryOf k r = Some e" "entryActive e"
      "snd (retireDefinition k r) =
         bumpVersion (case currentOf k r of
             Some p \<Rightarrow> retireGeneration p
               (r\<lparr>configEntries := setEntry k (e\<lparr>entryActive := False, entryCurrent := None\<rparr>) (configEntries r)\<rparr>)
           | None \<Rightarrow> r\<lparr>configEntries := setEntry k (e\<lparr>entryActive := False, entryCurrent := None\<rparr>) (configEntries r)\<rparr>)"
  by (cases "entryOf k r"; cases "registryClosed r"; cases "entryActive (the (entryOf k r))")
    (auto simp: retireDefinition_def Let_def currentOf_entry)

lemma retireDefinition_inv:
  assumes inv: "registryInv {} r"
  shows "registryInv {} (snd (retireDefinition k r))"
proof (cases rule: retireDefinition_cases [of k r])
  case (retired e)
  show ?thesis unfolding retired(4)
    by (intro bumpVersion_inv retireOption_inv retireEntry_inv inv retired(1))
qed (simp add: inv)

lemma removeDefinition_cases:
  obtains (unchanged) "snd (removeDefinition k r) = r"
  | (removed) e where "\<not> registryClosed r" "entryOf k r = Some e"
      "snd (removeDefinition k r) =
         bumpVersion (case currentOf k r of
             Some p \<Rightarrow> retireGeneration p (r\<lparr>configEntries := deleteEntry k (configEntries r)\<rparr>)
           | None \<Rightarrow> r\<lparr>configEntries := deleteEntry k (configEntries r)\<rparr>)"
  by (cases "entryOf k r"; cases "registryClosed r") (auto simp: removeDefinition_def Let_def currentOf_entry)

lemma removeDefinition_inv:
  assumes inv: "registryInv {} r"
  shows "registryInv {} (snd (removeDefinition k r))"
proof (cases rule: removeDefinition_cases [of k r])
  case (removed e)
  show ?thesis unfolding removed(3)
    by (intro bumpVersion_inv retireOption_inv delete_inv inv removed(1))
qed (simp add: inv)

section \<open>Leases\<close>

lemma acquireAll_generations:
  "fold acquireGeneration gs r =
     r\<lparr>generations := map (\<lambda>g. g\<lparr>activeLeases := activeLeases g + count_list gs (generationId g)\<rparr>) (generations r)\<rparr>"
proof (induction gs arbitrary: r)
  case (Cons p gs)
  show ?case unfolding fold.simps o_apply Cons.IH
    by (auto simp: acquireGeneration_def updateGeneration_def generationId_def)
qed simp

lemma count_list_distinct: "distinct xs \<Longrightarrow> count_list xs x = (if x \<in> set xs then 1 else 0)"
  by (induction xs) auto

lemma hold_inv:
  assumes inv: "registryInv {} r" and o: "\<not> registryClosed r"
    and gs: "distinct gs" "set gs \<subseteq> currents r"
  shows "registryInv {} (holdLease gs (fold acquireGeneration gs r))"
proof (rule generations_inv [OF inv])
  let ?f = "\<lambda>g. g\<lparr>activeLeases := activeLeases g + count_list gs (generationId g)\<rparr>"
  let ?r = "holdLease gs (fold acquireGeneration gs r)"
  note [simp] = acquireAll_generations holdLease_def
  show "generationRevision (?f g) = generationRevision g" for g by simp
  show "generations ?r = map ?f (generations r)" by simp
  have held: "set gs \<subseteq> set (generationIds r)"
  proof
    fix p assume "p \<in> set gs"
    then obtain k e where "(k, e) \<in> set (configEntries r)" "entryCurrent e = Some p"
      using gs(2) by (auto simp: currents_def)
    then show "p \<in> set (generationIds r)"
      using entry_generation [OF inv o] unfolding generationIds_def set_map by (metis imageI)
  qed
  show "n < nextLease ?r \<and> distinct hs \<and> set hs \<subseteq> set (generationIds r)" if "(n, hs) \<in> set (leases ?r)" for n hs
    using that inv held gs(1) by (fastforce simp: registryInv_def)
  show "distinct (map fst (leases ?r))" using inv by (fastforce simp: registryInv_def)
  show "generationOk {} ?r (?f g)" if "generationOk {} r g" for g
    using that gs o count_list_distinct [OF gs(1), of "generationId g"]
    by (auto simp: generationOk_def leaseCount_def currents_def generationId_def subset_iff)
qed (use inv in \<open>auto simp: registryInv_def acquireAll_generations holdLease_def\<close>)

lemma acquireLease_inv:
  assumes inv: "registryInv {} r"
  shows "registryInv {} (snd (acquireLease k r))"
proof -
  have "registryInv {} (holdLease [p] (acquireGeneration p r))"
    if "entryOf k r = Some e" "entryCurrent e = Some p" "\<not> registryClosed r" for e p
    using hold_inv [OF inv that(3), of "[p]"] entryOf_mem [OF that(1)] that(2) by (auto simp: currents_def)
  then show ?thesis using inv by (auto simp: acquireLease_def split: option.splits)
qed

definition activePairs :: "(string \<times> config_entry) list \<Rightarrow> (string \<times> string) list" where
  "activePairs es =
     concat (map (\<lambda>(k, e). case entryCurrent e of Some g \<Rightarrow> if entryActive e then [(k, g)] else [] | None \<Rightarrow> []) es)"

lemma activePairs_mem: "(k, p) \<in> set (activePairs es) \<longleftrightarrow> (\<exists>e. (k, e) \<in> set es \<and> entryActive e \<and> entryCurrent e = Some p)"
  by (force simp: activePairs_def split: option.splits if_splits)

lemma activePairs_distinct:
  "distinct (map fst es) \<Longrightarrow>
     (\<And>k e k' e' p. (k, e) \<in> set es \<Longrightarrow> entryCurrent e = Some p \<Longrightarrow> (k', e') \<in> set es \<Longrightarrow> entryCurrent e' = Some p \<Longrightarrow> k = k') \<Longrightarrow>
     distinct (map snd (activePairs es))"
proof (induction es)
  case (Cons ke es)
  obtain k e where ke: "ke = (k, e)" by fastforce
  have d: "distinct (map snd (activePairs es))" using Cons.prems by (intro Cons.IH) (simp, meson list.set_intros(2))
  have "p \<notin> snd ` set (activePairs es)" if p: "entryCurrent e = Some p" for p
  proof
    assume "p \<in> snd ` set (activePairs es)"
    then obtain k' e' where m: "(k', e') \<in> set es" "entryCurrent e' = Some p" by (auto simp: activePairs_mem)
    have "k = k'" using Cons.prems(2) [of k e p k' e'] m p ke by simp
    then show False using Cons.prems(1) m(1) ke by (auto simp: image_iff)
  qed
  then show ?case using d by (auto simp: ke activePairs_def split: option.splits)
qed (simp add: activePairs_def)

lemma activeGenerations_pairs: "activeGenerations r = map snd (sort_key fst (activePairs (configEntries r)))"
  by (simp add: activeGenerations_def activePairs_def)

lemma activeGenerations_ok:
  assumes inv: "registryInv {} r" and o: "\<not> registryClosed r"
  shows "distinct (activeGenerations r)" "set (activeGenerations r) \<subseteq> currents r"
proof -
  have "distinct (map snd (activePairs (configEntries r)))"
    using inv entry_unique [OF inv o] by (intro activePairs_distinct) (simp add: registryInv_def)
  moreover have "mset (activeGenerations r) = mset (map snd (activePairs (configEntries r)))"
    by (simp add: activeGenerations_pairs)
  ultimately show "distinct (activeGenerations r)" by (metis mset_eq_imp_distinct_iff)
  show "set (activeGenerations r) \<subseteq> currents r"
    by (fastforce simp: activeGenerations_pairs activePairs_mem currents_def)
qed

lemma acquireSnapshot_inv:
  assumes inv: "registryInv {} r"
  shows "registryInv {} (snd (acquireSnapshot r))"
  using inv hold_inv [OF inv _ activeGenerations_ok [OF inv]] by (simp add: acquireSnapshot_def Let_def)

text \<open>Releasing the generations of a lease.\<close>

definition dropLease :: "generation \<Rightarrow> generation" where
  "dropLease g = scheduleDisposal (g\<lparr>activeLeases := activeLeases g - 1\<rparr>)"

lemma dropLease_revision [simp]: "generationRevision (dropLease g) = generationRevision g"
  by (simp add: dropLease_def)

lemma releaseGeneration_update: "releaseGeneration k r = updateGeneration k dropLease r"
  unfolding releaseGeneration_def disposeIfRetired_def dropLease_def by (rule updateGeneration_twice) simp

lemma releaseAll_generations:
  "distinct gs \<Longrightarrow>
     fold releaseGeneration gs r =
       r\<lparr>generations := map (\<lambda>g. if generationId g \<in> set gs then dropLease g else g) (generations r)\<rparr>"
proof (induction gs arbitrary: r)
  case (Cons p gs)
  have IH: "fold releaseGeneration gs r' =
      r'\<lparr>generations := map (\<lambda>g. if generationId g \<in> set gs then dropLease g else g) (generations r')\<rparr>" for r'
    using Cons.prems by (intro Cons.IH) simp
  show ?case unfolding fold.simps o_apply IH using Cons.prems
    by (auto simp: releaseGeneration_update updateGeneration_def generationId_def)
qed simp

lemma leases_remove:
  "distinct (map fst ls) \<Longrightarrow> (n, gs) \<in> set ls \<Longrightarrow>
     count_list (concat (map snd ls)) p =
       count_list gs p + count_list (concat (map snd (filter (\<lambda>(m, hs). m \<noteq> n) ls))) p"
proof (induction ls)
  case (Cons l ls)
  show ?case
  proof (cases "fst l = n")
    case True
    then have "filter (\<lambda>(m, hs). m \<noteq> n) ls = ls"
      using Cons.prems(1) by (intro filter_True) (auto simp: image_iff)
    moreover have "l = (n, gs)" using Cons.prems True by (cases l) (auto simp: image_iff)
    ultimately show ?thesis by simp
  next
    case False
    then show ?thesis using Cons by (cases l) auto
  qed
qed simp

lemma releaseLease_inv:
  assumes inv: "registryInv {} r"
  shows "registryInv {} (releaseLease n r)"
proof (cases "map_of (leases r) n")
  case None
  then show ?thesis using inv by (simp add: releaseLease_def)
next
  case (Some gs)
  let ?f = "\<lambda>g. if generationId g \<in> set gs then dropLease g else g"
  have m: "(n, gs) \<in> set (leases r)" using Some by (rule map_of_SomeD)
  have d: "distinct gs" "distinct (map fst (leases r))" using inv m by (auto simp: registryInv_def)
  have r': "releaseLease n r = r\<lparr>leases := filter (\<lambda>(m, gs). m \<noteq> n) (leases r), generations := map ?f (generations r)\<rparr>"
    using Some by (simp add: releaseLease_def releaseAll_generations [OF d(1)])
  show ?thesis
  proof (rule generations_inv [OF inv])
    show "generations (releaseLease n r) = map ?f (generations r)" by (simp add: r')
    show "generationRevision (?f g) = generationRevision g" for g by simp
    show "m < nextLease (releaseLease n r) \<and> distinct hs \<and> set hs \<subseteq> set (generationIds r)"
      if "(m, hs) \<in> set (leases (releaseLease n r))" for m hs
      using that inv by (auto simp: r' registryInv_def)
    show "distinct (map fst (leases (releaseLease n r)))" using d(2) by (simp add: r' distinct_map_filter)
    have lc: "leaseCount r p = count_list gs p + leaseCount (releaseLease n r) p" for p
      unfolding leaseCount_def r' using leases_remove [OF d(2) m, of p] by simp
    have cur: "currents (releaseLease n r) = currents r" by (simp add: currents_def r')
    have fields: "registryClosed (releaseLease n r) = registryClosed r" "closeTasks (releaseLease n r) = closeTasks r"
      "disposedIds (releaseLease n r) = disposedIds r" by (simp_all add: r')
    show "generationOk {} (releaseLease n r) (?f g)" if "generationOk {} r g" for g
      using that lc [of "generationId g"] count_list_distinct [OF d(1), of "generationId g"]
      unfolding generationOk_def cur fields by (auto simp: dropLease_def scheduleDisposal_def generationId_def)
  qed (use inv in \<open>auto simp: registryInv_def r'\<close>)
qed

section \<open>Disposal and closing\<close>

lemma disposeRuns_inv:
  assumes inv: "registryInv {} r"
  shows "registryInv {} (disposeRuns k r)"
proof (cases "list_ex (\<lambda>g. generationId g = k \<and> disposal g = DisposeScheduled) (generations r)")
  case True
  then obtain h where h: "h \<in> set (generations r)" "generationId h = k" "disposal h = DisposeScheduled"
    by (auto simp: list_ex_iff)
  let ?f = "\<lambda>g. if generationId g = k then g\<lparr>disposal := Disposing\<rparr> else g"
  have r': "disposeRuns k r = r\<lparr>generations := map ?f (generations r), disposedIds := disposedIds r @ [k]\<rparr>"
    using True by (simp add: disposeRuns_def updateGeneration_def)
  have hok: "generationOk {} r h" using inv h(1) by (simp add: registryInv_def list_all_iff)
  then have fresh: "k \<notin> set (disposedIds r)" using h(2,3) by (simp add: generationOk_def)
  have k: "k \<in> set (revisionIds r)"
    using inv h(1,2) unfolding registryInv_def generationIds_def set_map by (metis imageI subsetD)
  show ?thesis
  proof (rule generations_inv [OF inv])
    show "generations (disposeRuns k r) = map ?f (generations r)" by (simp add: r')
    show "generationOk {} (disposeRuns k r) (?f g)" if g: "g \<in> set (generations r)" "generationOk {} r g" for g
    proof (cases "generationId g = k")
      case True
      then have "g = h" using generation_unique [OF inv g(1) h(1)] h(2) by simp
      then show ?thesis using hok h by (auto simp: r' generationOk_def leaseCount_def currents_def generationId_def)
    next
      case False
      then show ?thesis using g(2) by (auto simp: r' generationOk_def leaseCount_def currents_def)
    qed
  qed (use inv fresh k in \<open>auto simp: registryInv_def r'\<close>)
next
  case False
  then have "disposeRuns k r = r" unfolding disposeRuns_def by (rule if_not_P)
  then show ?thesis using inv by simp
qed

lemma disposeSettles_inv:
  assumes inv: "registryInv {} r"
  shows "registryInv {} (disposeSettles k ok r)"
proof (cases "list_ex (\<lambda>g. generationId g = k \<and> disposal g = Disposing) (generations r)")
  case True
  then obtain h where h: "h \<in> set (generations r)" "generationId h = k" "disposal h = Disposing"
    by (auto simp: list_ex_iff)
  let ?e = "if ok then cleanupErrors r else cleanupErrors r @ [k]"
  have r': "disposeSettles k ok r =
      r\<lparr>generations := filter (\<lambda>g. generationId g \<noteq> k) (generations r), cleanupErrors := ?e\<rparr>"
    using True unfolding disposeSettles_def by (rule if_P)
  have "generationOk {} r h" using inv h(1) by (simp add: registryInv_def list_all_iff)
  then have free: "leaseCount r k = 0" "\<not> registryClosed r \<Longrightarrow> k \<notin> currents r"
    using h(2,3) by (auto simp: generationOk_def)
  have gok: "generationOk {} (disposeSettles k ok r) = generationOk {} r" and cur: "currents (disposeSettles k ok r) = currents r"
    by (simp_all add: r' fun_eq_iff generationOk_def leaseCount_def currents_def)
  have "entryOk (disposeSettles k ok r) ke" if ke: "ke \<in> set (configEntries r)" "entryOk r ke" for ke
  proof -
    have "entryCurrent (snd ke) \<noteq> Some k" if "\<not> registryClosed r"
      using free(2) [OF that] ke(1) by (cases ke) (auto simp: currents_def)
    then show ?thesis using ke(2) by (auto simp: entryOk_def r')
  qed
  then have "list_all (entryOk (disposeSettles k ok r)) (configEntries (disposeSettles k ok r))"
    using inv by (simp add: registryInv_def list_all_iff r')
  moreover have "list_all (generationOk {} r) (generations (disposeSettles k ok r))"
    using inv by (simp add: registryInv_def list_all_iff r')
  moreover have ids: "generationIds (disposeSettles k ok r) = filter (\<lambda>p. p \<noteq> k) (generationIds r)"
    by (simp add: r' generationIds_def filter_map comp_def)
  moreover have "n < nextLease r \<and> distinct gs \<and> set gs \<subseteq> set (filter (\<lambda>p. p \<noteq> k) (generationIds r))"
    if l: "(n, gs) \<in> set (leases r)" for n gs
  proof -
    have "k \<notin> set gs" using free(1) l by (force simp: leaseCount_def count_list_0_iff)
    then show ?thesis using inv l by (auto simp: registryInv_def)
  qed
  then have "\<forall>(n, gs) \<in> set (leases (disposeSettles k ok r)). n < nextLease (disposeSettles k ok r) \<and> distinct gs \<and>
      set gs \<subseteq> set (generationIds (disposeSettles k ok r))"
    unfolding ids by (auto simp: r')
  moreover have "set (generationIds (disposeSettles k ok r)) \<subseteq> set (revisionIds r)" "distinct (generationIds (disposeSettles k ok r))"
    using inv unfolding ids registryInv_def by auto
  moreover have "distinct (map fst (leases r))" "distinct (map fst (configEntries r))" "distinct (disposedIds r)"
    "set (disposedIds r) \<subseteq> set (revisionIds r)" "\<not> registryClosed r \<longrightarrow> closeTasks r = []"
    using inv by (simp_all add: registryInv_def)
  moreover have "revisionIds (disposeSettles k ok r) = revisionIds r" "leases (disposeSettles k ok r) = leases r"
    "configEntries (disposeSettles k ok r) = configEntries r" "disposedIds (disposeSettles k ok r) = disposedIds r"
    "registryClosed (disposeSettles k ok r) = registryClosed r" "closeTasks (disposeSettles k ok r) = closeTasks r"
    by (simp_all add: r')
  ultimately show ?thesis unfolding registryInv_def gok cur by simp
next
  case False
  then have "disposeSettles k ok r = r" unfolding disposeSettles_def by (rule if_not_P)
  then show ?thesis using inv by simp
qed

lemma closeRegistry_inv:
  assumes inv: "registryInv {} r"
  shows "registryInv {} (closeRegistry r)"
proof (cases "registryClosed r")
  case False
  let ?f = "\<lambda>g. g\<lparr>isRetired := True\<rparr>"
  have r': "closeRegistry r = r\<lparr>registryClosed := True, generations := map ?f (generations r),
      closeTasks := map generationId (generations r)\<rparr>"
    using False by (simp add: closeRegistry_def)
  show ?thesis
  proof (rule generations_inv [OF inv])
    show "generations (closeRegistry r) = map ?f (generations r)" by (simp add: r')
    show "generationOk {} (closeRegistry r) (?f g)" if "g \<in> set (generations r)" "generationOk {} r g" for g
      using that by (auto simp: r' generationOk_def leaseCount_def generationId_def)
  qed (use inv in \<open>auto simp: registryInv_def r'\<close>)
qed (simp add: closeRegistry_def inv)

lemma closeResumes_inv:
  assumes inv: "registryInv {} r"
  shows "registryInv {} (closeResumes k r)"
proof (cases "k \<in> set (closeTasks r) \<and> list_all (\<lambda>g. generationId g = k \<longrightarrow> activeLeases g = 0) (generations r)")
  case True
  let ?f = "\<lambda>g. if generationId g = k then scheduleDisposal g else g"
  have r': "closeResumes k r =
      r\<lparr>closeTasks := filter (\<lambda>k'. k' \<noteq> k) (closeTasks r), generations := map ?f (generations r)\<rparr>"
    using True by (simp add: closeResumes_def disposeIfRetired_def updateGeneration_def)
  show ?thesis
  proof (rule generations_inv [OF inv])
    show "generations (closeResumes k r) = map ?f (generations r)" by (simp add: r')
    show "generationOk {} (closeResumes k r) (?f g)" if "g \<in> set (generations r)" "generationOk {} r g" for g
      using that by (auto simp: r' generationOk_def leaseCount_def currents_def scheduleDisposal_def generationId_def)
  qed (use inv in \<open>auto simp: registryInv_def r'\<close>)
next
  case False
  then have "closeResumes k r = r" unfolding closeResumes_def by (rule if_not_P)
  then show ?thesis using inv by simp
qed

lemma closeEnds_inv:
  assumes inv: "registryInv {} r"
  shows "registryInv {} (snd (closeEnds r))"
  using inv by (auto simp: closeEnds_def registryInv_def currents_def generationIds_def)

section \<open>Reachable registries\<close>

lemma registryEvent_inv: "registryInv {} r \<Longrightarrow> registryInv {} (registryEvent ev r)"
  by (cases ev)
    (simp_all add: upsertDefinition_inv replaceSource_inv retireDefinition_inv removeDefinition_inv acquireLease_inv
      acquireSnapshot_inv releaseLease_inv disposeRuns_inv disposeSettles_inv closeRegistry_inv closeResumes_inv closeEnds_inv)

inductive registryReachable :: "config_registry \<Rightarrow> bool" where
  registry_new: "registryReachable newRegistry"
| registry_step: "registryReachable r \<Longrightarrow> registryReachable (registryEvent ev r)"

lemma registryReachable_inv: "registryReachable r \<Longrightarrow> registryInv {} r"
  by (induction rule: registryReachable.induct) (simp_all add: newRegistry_inv registryEvent_inv)

lemma registryReachable_run: "registryReachable r \<Longrightarrow> registryReachable (fold registryEvent evs r)"
  by (induction evs arbitrary: r) (simp_all add: registry_step)

end
