(* ===== verification/ConfigurationResolver.thy ===== *)
theory ConfigurationResolver
  imports ConfigurationOperations
begin

text \<open>
  Configuration snapshots, \<open>packages/runtime-core/src/configuration/resolver.ts\<close> and
  \<open>catalog-projection.ts\<close>: the definitions of the registry resolved against the layers of a host,
  under a lease, and the redacted catalog of a snapshot.

  \<open>capture\<close> is synchronous. A failed \<open>decode\<close> gives the text by which \<open>safeFailure\<close> describes its
  error. Strings stand for their UTF-8 bytes where an identifier is percent-encoded.
\<close>

section \<open>Snapshots\<close>

datatype diagnostic_code = InvalidLayerValue | UnknownDefinition

record diagnostic =
  diagnosticCode :: diagnostic_code
  diagnosticConfiguration :: string
  diagnosticLayer :: string
  diagnosticFailure :: "string option"

record resolved_entry =
  resolvedId :: string
  resolvedRevision :: string
  resolvedSource :: string
  resolvedSchemaVersion :: jsnum
  resolvedApply :: apply_mode
  resolvedDescriptor :: config_descriptor
  resolvedDefault :: json
  resolvedValue :: json
  appliedLayerIds :: "string list"

record layer_ref =
  refLayerId :: string
  refLayerRevision :: string
  refPrecedence :: jsnum

record config_snapshot =
  snapshotId :: string
  definitionVersion :: nat
  snapshotLayers :: "layer_ref list"
  snapshotEntries :: "resolved_entry list"
  snapshotDiagnostics :: "diagnostic list"

section \<open>Resolving one definition\<close>

text \<open>\<open>mergeRuntimeConfigurationObjects\<close> on two values that are objects.\<close>

fun mergeJson :: "json \<Rightarrow> json \<Rightarrow> json" where
  "mergeJson (JObj base) (JObj override) = JObj (mergeObjects base override)"
| "mergeJson v w = w"

definition decodeLayer :: "configuration_definition \<Rightarrow> json \<Rightarrow> json \<Rightarrow> string + json" where
  "decodeLayer d v patch =
     (case decode d (mergeJson v patch) of
        Inl e \<Rightarrow> Inl e
      | Inr w \<Rightarrow> if isJsonObject w then Inr w else Inl ''TypeError'')"

text \<open>The loop over the layers: the value so far, the layers applied and the diagnostics.\<close>

fun resolveLayers :: "configuration_definition \<Rightarrow> layer list \<Rightarrow> json \<Rightarrow> json \<times> string list \<times> diagnostic list" where
  "resolveLayers d [] v = (v, [], [])"
| "resolveLayers d (l # ls) v =
     (case map_of (layerValues l) (definitionId d) of
        None \<Rightarrow> resolveLayers d ls v
      | Some patch \<Rightarrow>
          (case decodeLayer d v patch of
             Inr w \<Rightarrow> (case resolveLayers d ls w of (x, ids, ds) \<Rightarrow> (x, layerId l # ids, ds))
           | Inl e \<Rightarrow>
               (case resolveLayers d ls v of
                  (x, ids, ds) \<Rightarrow>
                    (x, ids,
                     \<lparr>diagnosticCode = InvalidLayerValue, diagnosticConfiguration = definitionId d,
                      diagnosticLayer = layerId l, diagnosticFailure = Some e\<rparr> # ds))))"

definition resolveDefinition :: "layer list \<Rightarrow> config_revision \<Rightarrow> resolved_entry \<times> diagnostic list" where
  "resolveDefinition ls revision =
     (let d = revisionDefinition revision
      in case resolveLayers d ls (defaultValue d) of
           (v, ids, ds) \<Rightarrow>
             (\<lparr>resolvedId = definitionId d, resolvedRevision = revisionId revision, resolvedSource = sourceRefId (revisionSource revision),
               resolvedSchemaVersion = schemaVersion d, resolvedApply = applyMode d,
               resolvedDescriptor = descriptor d, resolvedDefault = defaultValue d,
               resolvedValue = v, appliedLayerIds = ids\<rparr>, ds))"

section \<open>Capturing\<close>

definition unknownDefinitions :: "string list \<Rightarrow> layer list \<Rightarrow> diagnostic list" where
  "unknownDefinitions known ls =
     concat (map (\<lambda>l.
       map (\<lambda>k. \<lparr>diagnosticCode = UnknownDefinition, diagnosticConfiguration = k, diagnosticLayer = layerId l,
                 diagnosticFailure = None\<rparr>)
         (filter (\<lambda>k. k \<notin> set known) (sort (map fst (layerValues l))))) ls)"

fun isUnreserved :: "char \<Rightarrow> bool" where
  "isUnreserved c =
     (let n = of_char c :: nat
      in 65 \<le> n \<and> n \<le> 90 \<or> 97 \<le> n \<and> n \<le> 122 \<or> 48 \<le> n \<and> n \<le> 57 \<or> c \<in> set ''-_.!~*()'' \<or> n = 39)"

declare isUnreserved.simps [simp del]

definition hexDigit :: "nat \<Rightarrow> char" where
  "hexDigit n = (if n < 10 then char_of (48 + n) else char_of (55 + n))"

definition encodeChar :: "char \<Rightarrow> string" where
  "encodeChar c =
     (if isUnreserved c then [c]
      else [CHR ''%'', hexDigit (of_char c div 16), hexDigit (of_char c mod 16)])"

definition encodeURIComponent :: "string \<Rightarrow> string" where
  "encodeURIComponent s = concat (map encodeChar s)"

definition layerRef :: "layer \<Rightarrow> layer_ref" where
  "layerRef l = \<lparr>refLayerId = layerId l, refLayerRevision = layerRevision l, refPrecedence = precedence l\<rparr>"

definition snapshotIdOf :: "nat \<Rightarrow> layer_ref list \<Rightarrow> string" where
  "snapshotIdOf version refs =
     joinWith ''|''
       ((''definitions@'' @ decimal (int version)) #
        map (\<lambda>l. encodeURIComponent (refLayerId l) @ ''@'' @ encodeURIComponent (refLayerRevision l)) refs)"

definition createSnapshot ::
    "nat \<Rightarrow> layer list \<Rightarrow> resolved_entry list \<Rightarrow> diagnostic list \<Rightarrow> config_snapshot" where
  "createSnapshot version ls es ds =
     \<lparr>snapshotId = snapshotIdOf version (map layerRef ls), definitionVersion = version,
      snapshotLayers = map layerRef ls, snapshotEntries = es, snapshotDiagnostics = ds\<rparr>"

text \<open>\<open>snapshot.get\<close>, on the map of the entries: the last entry of an id counts; \<open>snapshot.read\<close> also compares the version.\<close>

definition entryById :: "config_snapshot \<Rightarrow> string \<Rightarrow> resolved_entry option" where
  "entryById s k = map_of (map (\<lambda>e. (resolvedId e, e)) (rev (snapshotEntries s))) k"

definition snapshotGet :: "config_snapshot \<Rightarrow> string \<Rightarrow> json option" where
  "snapshotGet s k = map_option resolvedValue (entryById s k)"

definition snapshotRead :: "config_snapshot \<Rightarrow> configuration_definition \<Rightarrow> json option" where
  "snapshotRead s d =
     (case entryById s (definitionId d) of
        Some e \<Rightarrow> if resolvedSchemaVersion e = schemaVersion d then Some (resolvedValue e) else None
      | None \<Rightarrow> None)"

definition revisionsOf :: "string list \<Rightarrow> config_registry \<Rightarrow> config_revision list" where
  "revisionsOf ps r =
     concat (map (\<lambda>p. map generationRevision (filter (\<lambda>g. generationId g = p) (generations r))) ps)"

text \<open>The snapshot of some revisions under normalised layers.\<close>

definition resolveSnapshot :: "nat \<Rightarrow> config_revision list \<Rightarrow> layer list \<Rightarrow> config_snapshot" where
  "resolveSnapshot version revs ls =
     (let unknown = unknownDefinitions (map revisionConfiguration revs) ls; resolved = map (resolveDefinition ls) revs
      in createSnapshot version ls (map fst resolved) (unknown @ concat (map snd resolved)))"

definition capture ::
    "layer list \<Rightarrow> config_registry \<Rightarrow> (configuration_error + nat \<times> config_snapshot) \<times> config_registry" where
  "capture layers r =
     (case acquireSnapshot r of
        (Inl e, r1) \<Rightarrow> (Inl e, r1)
      | (Inr (lease, version, ps), r1) \<Rightarrow>
          (case normalizeLayers layers of
             Inl e \<Rightarrow> (Inl e, releaseLease lease r1)
           | Inr ls \<Rightarrow> (Inr (lease, resolveSnapshot version (revisionsOf ps r1) ls), r1)))"

section \<open>The catalog\<close>

record catalog_entry =
  catalogId :: string
  catalogRevision :: string
  catalogSource :: string
  catalogSchemaVersion :: jsnum
  catalogApply :: apply_mode
  catalogDescriptor :: config_descriptor
  catalogDefault :: json
  catalogValue :: json
  redactedPaths :: "string list"
  catalogLayers :: "string list"
  catalogDiagnostics :: "diagnostic list"

definition catalogEntry :: "config_snapshot \<Rightarrow> resolved_entry \<Rightarrow> catalog_entry" where
  "catalogEntry s e =
     \<lparr>catalogId = resolvedId e, catalogRevision = resolvedRevision e, catalogSource = resolvedSource e,
      catalogSchemaVersion = resolvedSchemaVersion e, catalogApply = resolvedApply e, catalogDescriptor = resolvedDescriptor e,
      catalogDefault = redactConfigurationObject (resolvedDefault e) (sensitivePaths (resolvedDescriptor e)),
      catalogValue = redactConfigurationObject (resolvedValue e) (sensitivePaths (resolvedDescriptor e)),
      redactedPaths = sensitivePaths (resolvedDescriptor e), catalogLayers = appliedLayerIds e,
      catalogDiagnostics = filter (\<lambda>d. diagnosticConfiguration d = resolvedId e) (snapshotDiagnostics s)\<rparr>"

definition projectCatalog :: "config_snapshot \<Rightarrow> string \<times> nat \<times> catalog_entry list" where
  "projectCatalog s = (snapshotId s, definitionVersion s, map (catalogEntry s) (snapshotEntries s))"

end
