(* ===== verification/ConfigurationCatalog.thy ===== *)
theory ConfigurationCatalog
  imports ConfigurationResolver "HOL-Library.Sublist"
begin

text \<open>
  What the redaction of a catalog removes, \<open>catalog-projection.ts\<close>: every sensitive path that
  goes through objects, and nothing beside it; paths through arrays are not followed.
\<close>

section \<open>Removing one path\<close>

lemma deleteKey_lookup: "map_of (deleteKey k kvs) k' = (if k' = k then None else map_of kvs k')"
  by (induction kvs) (auto simp: deleteKey_def)

lemma memberAt_none: "ks \<noteq> [] \<Longrightarrow> \<not> isRecord v \<Longrightarrow> memberAt ks v = None"
  by (cases ks; cases v) simp_all

lemma remove_self: "ks \<noteq> [] \<Longrightarrow> memberAt ks (removeAt ks v) = None"
  by (induction ks v rule: removeAt.induct) (auto simp: memberAt_none deleteKey_lookup map_of_setKey split: option.splits)

lemma remove_none: "memberAt ks v = None \<Longrightarrow> memberAt ks (removeAt js v) = None"
proof (induction js v arbitrary: ks rule: removeAt.induct)
  case (1 k kvs)
  then show ?case by (cases ks) (auto simp: deleteKey_lookup)
next
  case (2 k k' js kvs)
  show ?case
  proof (cases ks)
    case (Cons i is')
    show ?thesis
    proof (cases "map_of kvs k")
      case None
      then show ?thesis using 2 by simp
    next
      case (Some v)
      then show ?thesis using 2(1) [OF Some, of is'] 2(2) Cons by (auto simp: map_of_setKey)
    qed
  qed (use 2 in simp)
qed simp_all

lemma remove_other: "\<not> prefix js ks \<Longrightarrow> \<not> prefix ks js \<Longrightarrow> memberAt ks (removeAt js v) = memberAt ks v"
proof (induction js v arbitrary: ks rule: removeAt.induct)
  case (1 k kvs)
  then show ?case by (cases ks) (auto simp: deleteKey_lookup)
next
  case (2 k k' js kvs)
  show ?case
  proof (cases ks)
    case (Cons i is')
    show ?thesis
    proof (cases "map_of kvs k")
      case (Some v)
      then show ?thesis using 2(1) [OF Some, of is'] 2(2,3) Cons by (auto simp: map_of_setKey)
    qed simp
  qed (use 2 in simp)
qed simp_all

section \<open>Redaction\<close>

definition followed :: "string \<Rightarrow> bool" where
  "followed p = (pointerSegments p \<noteq> [] \<and> hd (pointerSegments p) \<noteq> [])"

lemma removeJsonPointer_followed: "followed p \<Longrightarrow> removeJsonPointer v p = removeAt (pointerSegments p) v"
  by (auto simp: followed_def removeJsonPointer_def split: list.splits)

lemma removeJsonPointer_not: "\<not> followed p \<Longrightarrow> removeJsonPointer v p = v"
  by (auto simp: followed_def removeJsonPointer_def split: list.splits)

lemma redact_none: "memberAt ks v = None \<Longrightarrow> memberAt ks (redactConfigurationObject v ps) = None"
  unfolding redactConfigurationObject_def
proof (induction ps arbitrary: v)
  case (Cons p ps)
  then show ?case
    by (cases "followed p") (simp_all add: removeJsonPointer_followed removeJsonPointer_not remove_none)
qed simp

lemma redact_removes: "p \<in> set ps \<Longrightarrow> followed p \<Longrightarrow> memberAt (pointerSegments p) (redactConfigurationObject v ps) = None"
proof (induction ps arbitrary: v)
  case (Cons q ps)
  have step: "redactConfigurationObject v (q # ps) = redactConfigurationObject (removeJsonPointer v q) ps"
    by (simp add: redactConfigurationObject_def)
  show ?case
  proof (cases "p = q")
    case True
    then show ?thesis unfolding step using Cons.prems(2)
      by (intro redact_none) (simp add: removeJsonPointer_followed remove_self followed_def)
  next
    case False
    then show ?thesis unfolding step using Cons by simp
  qed
qed simp

lemma redact_keeps:
  "list_all (\<lambda>p. \<not> prefix (pointerSegments p) ks \<and> \<not> prefix ks (pointerSegments p)) ps \<Longrightarrow>
     memberAt ks (redactConfigurationObject v ps) = memberAt ks v"
  unfolding redactConfigurationObject_def
proof (induction ps arbitrary: v)
  case (Cons p ps)
  then show ?case
    by (cases "followed p") (simp_all add: removeJsonPointer_followed removeJsonPointer_not remove_other)
qed simp

text \<open>
  C30. The catalog of a snapshot shows none of the sensitive properties of an entry, neither in the
  value nor in the default, for every path that goes through objects and does not begin with an
  empty segment; and every property that is neither above nor below a sensitive path is shown
  unchanged.
\<close>

theorem catalog_redacts:
  "(\<forall>p. p \<in> set (redactedPaths (catalogEntry s e)) \<and> followed p \<longrightarrow>
      memberAt (pointerSegments p) (catalogValue (catalogEntry s e)) = None \<and>
      memberAt (pointerSegments p) (catalogDefault (catalogEntry s e)) = None) \<and>
   (\<forall>ks. list_all (\<lambda>p. \<not> prefix (pointerSegments p) ks \<and> \<not> prefix ks (pointerSegments p)) (redactedPaths (catalogEntry s e)) \<longrightarrow>
      memberAt ks (catalogValue (catalogEntry s e)) = memberAt ks (resolvedValue e) \<and>
      memberAt ks (catalogDefault (catalogEntry s e)) = memberAt ks (resolvedDefault e))"
  by (simp add: catalogEntry_def redact_removes redact_keeps)

definition exampleResolved :: resolved_entry where
  "exampleResolved =
     \<lparr>resolvedId = ''mcp'', resolvedRevision = ''r'', resolvedSource = ''s'', resolvedSchemaVersion = Finite 1,
      resolvedApply = NextTurn,
      resolvedDescriptor = \<lparr>descriptorTitle = ''t'', descriptorDescription = None, descriptorSchema = JObj [],
        descriptorPresentation = None, sensitivePaths = [''/auth/token'']\<rparr>,
      resolvedDefault = JObj [],
      resolvedValue = JObj [(''auth'', JObj [(''token'', JStr ''x''), (''user'', JStr ''u'')])],
      appliedLayerIds = []\<rparr>"

theorem catalog_redacts_witness:
  "memberAt [''auth'', ''token''] (catalogValue (catalogEntry (createSnapshot 0 [] [] []) exampleResolved)) = None \<and>
   memberAt [''auth'', ''user''] (catalogValue (catalogEntry (createSnapshot 0 [] [] []) exampleResolved)) = Some (JStr ''u'')"
proof -
  let ?c = "catalogEntry (createSnapshot 0 [] [] []) exampleResolved"
  have paths: "redactedPaths ?c = [''/auth/token'']" by (simp add: catalogEntry_def exampleResolved_def)
  have segs: "pointerSegments ''/auth/token'' = [''auth'', ''token'']" by code_simp
  have "memberAt [''auth'', ''user''] (resolvedValue exampleResolved) = Some (JStr ''u'')" by code_simp
  then show ?thesis
    using catalog_redacts [of "createSnapshot 0 [] [] []" exampleResolved] unfolding paths
    by (auto simp: segs followed_def dest!: spec [of _ "''/auth/token''"] spec [of _ "[''auth'', ''user'']"])
qed

text \<open>
  A sensitive path whose first segment is empty, as that of \<open>/\<close> or \<open>//x\<close>, is accepted by the validation
  of a definition and listed as redacted, but its value is left in place, as is one reached through
  an array.
\<close>

lemma redaction_skips_empty_segment:
  "list_all (\<lambda>p. \<not> followed p) ps \<Longrightarrow> redactConfigurationObject v ps = v"
  unfolding redactConfigurationObject_def
  by (induction ps) (simp_all add: removeJsonPointer_not)

lemma redaction_skips_empty_segment_sample:
  "redactConfigurationObject (JObj [([], secret)]) [''/''] = JObj [([], secret)] \<and>
   memberAt (pointerSegments ''/'') (JObj [([], secret)]) = Some secret"
proof -
  have "pointerSegments ''/'' = [[]]" by code_simp
  then show ?thesis
    using redaction_skips_empty_segment [of "[''/'']" "JObj [([], secret)]"] by (simp add: followed_def)
qed

lemma redaction_stops_at_arrays:
  "redactConfigurationObject (JObj [(''servers'', JArr [JObj [(''token'', secret)]])]) [''/servers/0/token''] =
     JObj [(''servers'', JArr [JObj [(''token'', secret)]])] \<and>
   valueAt (pointerSegments ''/servers/0/token'') (JObj [(''servers'', JArr [JObj [(''token'', secret)]])]) = Some secret"
proof -
  have "pointerSegments ''/servers/0/token'' = [''servers'', ''0'', ''token'']" by code_simp
  then show ?thesis by (simp add: redactConfigurationObject_def removeJsonPointer_def)
qed

end
