(* ===== verification/ConfigurationProperties.thy ===== *)
theory ConfigurationProperties
  imports ConfigurationOperations
begin

text \<open>
  The properties of the definition registry: leases protect revisions, retired revisions do not
  leak, a source is replaced as a whole, and closing completes.
\<close>

section \<open>Replacing a source\<close>

lemma setEntry_lookup: "map_of (setEntry k e es) k' = (if k' = k then Some e else map_of es k')"
  by (induction k e es rule: setEntry.induct) auto

lemma filter_lookup: "map_of (filter (\<lambda>(k, e). k \<notin> K) es) k = (if k \<in> K then None else map_of es k)"
  by (induction es) auto

lemma installed_entry:
  "distinct (map c gs) \<Longrightarrow> g \<in> set gs \<Longrightarrow> map_of (fold (\<lambda>g. setEntry (c g) (f g)) gs es) (c g) = Some (f g)"
proof (induction gs rule: rev_induct)
  case (snoc h gs)
  show ?case
  proof (cases "g = h")
    case False
    then have "g \<in> set gs" "c g \<noteq> c h" using snoc.prems by (auto simp: image_iff)
    then show ?thesis using snoc by (simp add: setEntry_lookup)
  qed (simp add: setEntry_lookup)
qed simp

lemma installed_other:
  "k \<notin> c ` set gs \<Longrightarrow> map_of (fold (\<lambda>g. setEntry (c g) (f g)) gs es) k = map_of es k"
  by (induction gs rule: rev_induct) (simp_all add: setEntry_lookup)

lemma retireGeneration_entries [simp]:
  "configEntries (retireGeneration p r) = configEntries r" "registryVersion (retireGeneration p r) = registryVersion r"
  by (simp_all add: retireGeneration_def disposeIfRetired_def)

lemma retireAll_entries [simp]:
  "configEntries (fold retireGeneration ps r) = configEntries r"
  "registryVersion (fold retireGeneration ps r) = registryVersion r"
  by (induction ps arbitrary: r) simp_all

lemma validateSource_same: "validateSource src = Inr s \<Longrightarrow> s = src"
  by (simp add: validateSource_def split: if_splits)

lemma validateDefinition_id: "validateDefinition d = Inr d' \<Longrightarrow> definitionId d' = definitionId d"
  by (auto simp: validateDefinition_def split: if_splits sum.splits)

lemma validateAll_ids: "validateAll s ds = Inr cs \<Longrightarrow> map (definitionId \<circ> snd) cs = map definitionId ds"
  by (induction ds arbitrary: cs) (auto split: sum.splits simp: validateDefinition_id)

lemma checkCandidates_ok:
  "checkCandidates seen cs r = None \<Longrightarrow>
     distinct (map (definitionId \<circ> snd) cs) \<and> set (map (definitionId \<circ> snd) cs) \<inter> set seen = {} \<and>
     list_all (\<lambda>c. assertSourceOwnership (definitionId (snd c)) (sourceRefId (fst c)) r = None) cs"
  by (induction seen cs r rule: checkCandidates.induct) (auto split: if_splits option.splits)

lemma owned_source:
  "assertSourceOwnership k s r = None \<Longrightarrow> entryOf k r = Some e \<Longrightarrow> entrySource e = s"
  by (simp add: assertSourceOwnership_def split: if_splits)

lemma removed_set:
  assumes "distinct (map fst (configEntries r))"
  shows "set (removedConfigurations s ks r) = {k. (\<exists>e. entryOf k r = Some e \<and> entrySource e = s) \<and> k \<notin> set ks}"
  using assms by (force simp: removedConfigurations_def entryOf_def)

lemma created_configurations:
  "newlyCreated cs r gs r' \<Longrightarrow> map (\<lambda>g. revisionConfiguration (generationRevision g)) gs = map (definitionId \<circ> snd) cs"
  by (auto simp: newlyCreated_def list_all_iff)

text \<open>
  C20. Replacing a source is atomic. A rejected set leaves every entry, generation, lease and the
  version as they were. An accepted one publishes exactly the given definitions, in order, drops
  exactly the other definitions of that source and touches no definition of another source.
\<close>

theorem replaceSource_atomic:
  assumes reach: "registryReachable r" and run: "replaceSource ids now src ds r = (res, r')"
  shows "case res of
      Inl e \<Rightarrow> configEntries r' = configEntries r \<and> generations r' = generations r \<and> leases r' = leases r \<and>
               registryVersion r' = registryVersion r
    | Inr (revs, removed) \<Rightarrow>
        map revisionConfiguration revs = map definitionId ds \<and>
        set removed = {k. (\<exists>e. entryOf k r = Some e \<and> entrySource e = sourceRefId src) \<and> k \<notin> set (map definitionId ds)} \<and>
        (\<forall>v. v \<in> set revs \<longrightarrow> revisionSource v = src \<and>
           entryOf (revisionConfiguration v) r' =
             Some \<lparr>entrySource = sourceRefId src, entryActive = True, entryCurrent = Some (revisionId v), lastRevisionId = revisionId v\<rparr>) \<and>
        (\<forall>k. k \<notin> set (map definitionId ds) \<longrightarrow> entryOf k r' = (if k \<in> set removed then None else entryOf k r)) \<and>
        (\<forall>k e. entryOf k r = Some e \<and> entrySource e \<noteq> sourceRefId src \<longrightarrow> entryOf k r' = Some e) \<and>
        registryVersion r' = Suc (registryVersion r)"
  using run
proof (cases rule: replaceSource_cases)
  case (failed e)
  then show ?thesis using countersOnly_fields [of r r'] by simp
next
  case (published s cs gs removed r1 ps r2 qs r3)
  let ?c = "\<lambda>g. revisionConfiguration (generationRevision g)"
  note c = countersOnly_fields [OF createGenerations_counters [OF published(5)]]
    and n = createGenerations_created [OF published(5)]
  have s: "s = src" by (rule validateSource_same [OF published(1)])
  note ids = validateAll_ids [OF published(2)] and ok = checkCandidates_ok [OF published(3)]
  have confs: "map ?c gs = map definitionId ds" using created_configurations [OF n] ids by simp
  have d: "distinct (map ?c gs)" using ok ids confs by simp
  have r': "configEntries r' = fold (\<lambda>g. setEntry (?c g) (generationEntry (sourceRefId src) g)) gs
      (filter (\<lambda>(k, e). k \<notin> set removed) (configEntries r))" "registryVersion r' = Suc (registryVersion r)"
    unfolding published(10) installAll_entries [OF published(8)] dropEntries_entries [OF published(7)] s
    using c by (simp_all add: bumpVersion_def)
  have new: "entryOf (?c g) r' = Some (generationEntry (sourceRefId src) g)" if "g \<in> set gs" for g
    unfolding entryOf_def r' by (rule installed_entry [OF d that])
  have old: "entryOf k r' = (if k \<in> set removed then None else entryOf k r)" if "k \<notin> set (map definitionId ds)" for k
  proof -
    have "k \<notin> ?c ` set gs" using that unfolding confs [symmetric] by simp
    then show ?thesis unfolding entryOf_def r' by (subst installed_other) (simp_all add: filter_lookup)
  qed
  have "distinct (map fst (configEntries r1))" using registryReachable_inv [OF reach] c by (simp add: registryInv_def)
  from removed_set [OF this] have rem: "set removed =
      {k. (\<exists>e. entryOf k r = Some e \<and> entrySource e = sourceRefId src) \<and> k \<notin> set (map definitionId ds)}"
    unfolding published(6) ids s using c by (simp add: entryOf_def)
  have foreign: "entryOf k r' = Some e" if "entryOf k r = Some e" "entrySource e \<noteq> sourceRefId src" for k e
  proof -
    have "definitionId (snd x) \<noteq> k" if "x \<in> set cs" for x
    proof -
      have "assertSourceOwnership (definitionId (snd x)) (sourceRefId src) r = None"
        using ok that validateAll_sources [OF published(2)] by (auto simp: list_all_iff s)
      then show ?thesis using owned_source \<open>entryOf k r = Some e\<close> \<open>entrySource e \<noteq> sourceRefId src\<close> by blast
    qed
    then have "k \<notin> set (map (definitionId \<circ> snd) cs)" by auto
    then show ?thesis using old [of k] that unfolding ids rem by simp
  qed
  have "revisionSource (generationRevision g) = src" if "g \<in> set gs" for g
    using created_source [OF n validateAll_sources [OF published(2)]] that by (simp add: list_all_iff s)
  then have "\<forall>v. v \<in> set (map generationRevision gs) \<longrightarrow> revisionSource v = src \<and>
      entryOf (revisionConfiguration v) r' =
        Some \<lparr>entrySource = sourceRefId src, entryActive = True, entryCurrent = Some (revisionId v), lastRevisionId = revisionId v\<rparr>"
    using new by (auto simp: generationId_def)
  then show ?thesis
    unfolding published(9) using confs rem old foreign r'(2) by (simp add: comp_def)
qed

section \<open>Leases and disposal\<close>

lemma leased_kept:
  assumes inv: "registryInv {} r" and lease: "(n, ps) \<in> set (leases r)" "p \<in> set ps"
  shows "(\<exists>g \<in> set (generations r). generationId g = p \<and> 0 < activeLeases g \<and> disposal g = NotDisposed) \<and>
    p \<notin> set (disposedIds r) \<and> distinct (disposedIds r)"
proof -
  have "p \<in> set (generationIds r)" using inv lease by (auto simp: registryInv_def)
  then obtain g where g: "g \<in> set (generations r)" "generationId g = p" unfolding generationIds_def set_map by blast
  have "p \<in> set (concat (map snd (leases r)))" using lease by force
  then have "leaseCount r p \<noteq> 0" unfolding leaseCount_def count_list_0_iff by blast
  moreover have "generationOk {} r g" using inv g(1) by (simp add: registryInv_def list_all_iff)
  ultimately show ?thesis using inv g by (auto simp: generationOk_def registryInv_def)
qed

text \<open>
  C14. Whatever is published, retired, removed, released or closed in between, a revision that a
  lease holds stays in the registry, its disposal not even scheduled; and no revision is disposed
  of twice.
\<close>

theorem leased_revision_kept:
  assumes reach: "registryReachable r" and lease: "(n, ps) \<in> set (leases r)" "p \<in> set ps"
  shows "(\<exists>g \<in> set (generations r). generationId g = p \<and> 0 < activeLeases g \<and> disposal g = NotDisposed) \<and>
    p \<notin> set (disposedIds r) \<and> distinct (disposedIds r)"
  by (rule leased_kept [OF registryReachable_inv [OF reach] lease])

text \<open>
  C1. Nothing leaks: a generation that no lease holds is either the current one of its
  configuration, or its disposal is under way, or \<open>close\<close> is about to dispose of it.
\<close>

theorem unused_generation_disposed:
  assumes reach: "registryReachable r" and g: "g \<in> set (generations r)"
    and unused: "\<not> (\<exists>n ps. (n, ps) \<in> set (leases r) \<and> generationId g \<in> set ps)"
  shows "(\<not> registryClosed r \<and> currentOf (revisionConfiguration (generationRevision g)) r = Some (generationId g)) \<or>
    disposal g \<noteq> NotDisposed \<or> generationId g \<in> set (closeTasks r)"
proof -
  have inv: "registryInv {} r" using reach by (rule registryReachable_inv)
  have ok: "generationOk {} r g" using inv g by (simp add: registryInv_def list_all_iff)
  have "leaseCount r (generationId g) = 0" using unused by (auto simp: leaseCount_def count_list_0_iff)
  then have "\<not> isRetired g \<or> disposal g \<noteq> NotDisposed \<or> generationId g \<in> set (closeTasks r)"
    using ok by (auto simp: generationOk_def)
  moreover have "\<not> registryClosed r \<and> currentOf (revisionConfiguration (generationRevision g)) r = Some (generationId g)"
    if "\<not> isRetired g"
  proof -
    have o: "\<not> registryClosed r" and "generationId g \<in> currents r" using ok that by (auto simp: generationOk_def)
    then obtain k e where e: "(k, e) \<in> set (configEntries r)" "entryCurrent e = Some (generationId g)"
      by (auto simp: currents_def)
    obtain h where h: "h \<in> set (generations r)" "generationId h = generationId g" "revisionConfiguration (generationRevision h) = k"
      using entry_generation [OF inv o e] .
    then have "h = g" using generation_unique [OF inv _ g] by blast
    moreover have "entryOf k r = Some e" using inv e(1) by (simp add: entryOf_def registryInv_def)
    ultimately show ?thesis using o e(2) h(3) by (auto simp: currentOf_def)
  qed
  ultimately show ?thesis by blast
qed

section \<open>Closing\<close>

text \<open>One generation on its way out of a closed registry.\<close>

definition closeRound :: "(string \<Rightarrow> bool) \<Rightarrow> string \<Rightarrow> config_registry \<Rightarrow> config_registry" where
  "closeRound ok k r = disposeSettles k (ok k) (disposeRuns k (closeResumes k r))"

definition closing :: "config_registry \<Rightarrow> bool" where
  "closing r = (registryInv {} r \<and> registryClosed r \<and> leases r = [])"

lemma closing_resumes:
  assumes c: "closing r"
  shows "closing (closeResumes k r)" "generationIds (closeResumes k r) = generationIds r"
    "closeTasks (closeResumes k r) = filter (\<lambda>k'. k' \<noteq> k) (closeTasks r)"
    "cleanupErrors (closeResumes k r) = cleanupErrors r"
proof -
  have inv: "registryInv {} r" using c by (simp add: closing_def)
  have "activeLeases g = 0" if "g \<in> set (generations r)" for g
    using c inv that by (auto simp: closing_def registryInv_def list_all_iff generationOk_def leaseCount_def)
  then have all: "list_all (\<lambda>g. generationId g = k \<longrightarrow> activeLeases g = 0) (generations r)" by (simp add: list_all_iff)
  have r': "closeResumes k r =
      (if k \<in> set (closeTasks r) then disposeIfRetired k (r\<lparr>closeTasks := filter (\<lambda>k'. k' \<noteq> k) (closeTasks r)\<rparr>) else r)"
    using all by (simp add: closeResumes_def)
  show "closeTasks (closeResumes k r) = filter (\<lambda>k'. k' \<noteq> k) (closeTasks r)"
    unfolding r' by (auto simp: disposeIfRetired_def intro!: filter_True [symmetric])
  show "cleanupErrors (closeResumes k r) = cleanupErrors r" unfolding r' by (simp add: disposeIfRetired_def)
  show "generationIds (closeResumes k r) = generationIds r"
    unfolding r' disposeIfRetired_def
    by (auto simp: updateGeneration_def generationIds_def generationId_def scheduleDisposal_def)
  show "closing (closeResumes k r)"
    using closeResumes_inv [OF inv, of k] c unfolding closing_def by (simp add: r' disposeIfRetired_def)
qed

lemma closing_runs:
  assumes c: "closing r" and t: "k \<notin> set (closeTasks r)"
  shows "closing (disposeRuns k r)" "generationIds (disposeRuns k r) = generationIds r"
    "closeTasks (disposeRuns k r) = closeTasks r" "cleanupErrors (disposeRuns k r) = cleanupErrors r"
    "\<And>g. g \<in> set (generations (disposeRuns k r)) \<Longrightarrow> generationId g = k \<Longrightarrow> disposal g = Disposing"
proof -
  have inv: "registryInv {} r" using c by (simp add: closing_def)
  have "leases (disposeRuns k r) = leases r" "registryClosed (disposeRuns k r) = registryClosed r"
    by (simp_all add: disposeRuns_def)
  then show "closing (disposeRuns k r)" using c disposeRuns_inv [OF inv] by (simp add: closing_def)
  show "generationIds (disposeRuns k r) = generationIds r"
    by (auto simp: disposeRuns_def updateGeneration_def generationIds_def generationId_def)
  show "closeTasks (disposeRuns k r) = closeTasks r" "cleanupErrors (disposeRuns k r) = cleanupErrors r"
    by (simp_all add: disposeRuns_def)
  fix g assume g: "g \<in> set (generations (disposeRuns k r))" "generationId g = k"
  have started: "disposal h \<noteq> NotDisposed" if "h \<in> set (generations r)" "generationId h = k" for h
  proof -
    have "generationOk {} r h" using inv that(1) by (simp add: registryInv_def list_all_iff)
    then show ?thesis using c t that(2) by (auto simp: closing_def generationOk_def leaseCount_def)
  qed
  show "disposal g = Disposing"
  proof (cases "list_ex (\<lambda>g. generationId g = k \<and> disposal g = DisposeScheduled) (generations r)")
    case True
    then have "g \<in> set (generations (updateGeneration k (\<lambda>g. g\<lparr>disposal := Disposing\<rparr>) r))"
      using g(1) by (simp add: disposeRuns_def)
    then show ?thesis using g(2) unfolding updateGeneration_generations by auto
  next
    case False
    then have "disposeRuns k r = r" unfolding disposeRuns_def by (rule if_not_P)
    then have "g \<in> set (generations r)" using g(1) by simp
    then show ?thesis using started [OF _ g(2)] False g(2) by (cases "disposal g") (auto simp: list_ex_iff)
  qed
qed

lemma closing_settles:
  assumes c: "closing r" and d: "\<And>g. g \<in> set (generations r) \<Longrightarrow> generationId g = k \<Longrightarrow> disposal g = Disposing"
  shows "closing (disposeSettles k b r)" "generationIds (disposeSettles k b r) = filter (\<lambda>p. p \<noteq> k) (generationIds r)"
    "closeTasks (disposeSettles k b r) = closeTasks r"
    "set (cleanupErrors (disposeSettles k b r)) = set (cleanupErrors r) \<union> (if k \<in> set (generationIds r) \<and> \<not> b then {k} else {})"
proof -
  have inv: "registryInv {} r" using c by (simp add: closing_def)
  have "list_ex (\<lambda>g. generationId g = k \<and> disposal g = Disposing) (generations r) = (k \<in> set (generationIds r))"
    using d by (auto simp: list_ex_iff generationIds_def)
  then have r': "disposeSettles k b r =
      (if k \<in> set (generationIds r)
       then r\<lparr>generations := filter (\<lambda>g. generationId g \<noteq> k) (generations r),
              cleanupErrors := (if b then cleanupErrors r else cleanupErrors r @ [k])\<rparr>
       else r)"
    unfolding disposeSettles_def by presburger
  have "leases (disposeSettles k b r) = leases r" "registryClosed (disposeSettles k b r) = registryClosed r"
    by (simp_all add: r')
  then show "closing (disposeSettles k b r)" using c disposeSettles_inv [OF inv] by (simp add: closing_def)
  show "closeTasks (disposeSettles k b r) = closeTasks r"
    "set (cleanupErrors (disposeSettles k b r)) = set (cleanupErrors r) \<union> (if k \<in> set (generationIds r) \<and> \<not> b then {k} else {})"
    by (simp_all add: r')
  have "filter (\<lambda>p. p \<noteq> k) (generationIds r) = generationIds r" if "k \<notin> set (generationIds r)"
    using that by (intro filter_True) auto
  then show "generationIds (disposeSettles k b r) = filter (\<lambda>p. p \<noteq> k) (generationIds r)"
    by (simp add: r') (simp add: generationIds_def filter_map comp_def)
qed

lemma closeRound_step:
  assumes c: "closing r"
  shows "closing (closeRound ok k r)" "generationIds (closeRound ok k r) = filter (\<lambda>p. p \<noteq> k) (generationIds r)"
    "closeTasks (closeRound ok k r) = filter (\<lambda>p. p \<noteq> k) (closeTasks r)"
    "set (cleanupErrors (closeRound ok k r)) =
       set (cleanupErrors r) \<union> (if k \<in> set (generationIds r) \<and> \<not> ok k then {k} else {})"
proof -
  note 1 = closing_resumes [OF c, of k]
  have t: "k \<notin> set (closeTasks (closeResumes k r))" by (simp add: 1)
  note 2 = closing_runs [OF 1(1) t]
  note 3 = closing_settles [OF 2(1) 2(5)]
  show "closing (closeRound ok k r)" unfolding closeRound_def by (rule 3(1))
  show "generationIds (closeRound ok k r) = filter (\<lambda>p. p \<noteq> k) (generationIds r)"
    unfolding closeRound_def by (simp add: 3 2 1)
  show "closeTasks (closeRound ok k r) = filter (\<lambda>p. p \<noteq> k) (closeTasks r)"
    unfolding closeRound_def by (simp add: 3 2 1)
  show "set (cleanupErrors (closeRound ok k r)) =
      set (cleanupErrors r) \<union> (if k \<in> set (generationIds r) \<and> \<not> ok k then {k} else {})"
    using 3(4) [where b = "ok k"] unfolding closeRound_def 2(2,4) 1(2,4) .
qed

lemma closeRounds:
  "closing r \<Longrightarrow>
     closing (fold (closeRound ok) ks r) \<and>
     generationIds (fold (closeRound ok) ks r) = filter (\<lambda>p. p \<notin> set ks) (generationIds r) \<and>
     closeTasks (fold (closeRound ok) ks r) = filter (\<lambda>p. p \<notin> set ks) (closeTasks r) \<and>
     set (cleanupErrors (fold (closeRound ok) ks r)) =
       set (cleanupErrors r) \<union> {k. k \<in> set ks \<and> k \<in> set (generationIds r) \<and> \<not> ok k}"
proof (induction ks arbitrary: r)
  case (Cons k ks)
  note step = closeRound_step [OF Cons.prems, of ok k]
  show ?case using Cons.IH [OF step(1)] by (auto simp: step)
qed simp

text \<open>
  Closing completes. Once every lease is released, disposing of what is left, in any order and
  whether or not a \<open>dispose\<close> fails, empties the registry, and \<open>close\<close> reports exactly the
  revisions whose disposal failed, earlier or now.
\<close>

theorem close_completes:
  assumes reach: "registryReachable r" and closed: "registryClosed r" and free: "leases r = []"
    and ks: "set (generationIds r) \<union> set (closeTasks r) \<subseteq> set ks"
  shows "\<exists>errors r'. closeEnds (fold (closeRound ok) ks r) = (Some errors, r') \<and>
    set errors = set (cleanupErrors r) \<union> {k \<in> set (generationIds r). \<not> ok k} \<and>
    generations r' = [] \<and> configEntries r' = []"
proof -
  let ?r = "fold (closeRound ok) ks r"
  have "closing r" using registryReachable_inv [OF reach] closed free by (simp add: closing_def)
  note end_state = closeRounds [OF this, of ok ks]
  have "filter (\<lambda>p. p \<notin> set ks) (generationIds r) = []" "filter (\<lambda>p. p \<notin> set ks) (closeTasks r) = []"
    using ks by (auto simp: filter_empty_conv)
  then have "generations ?r = []" "closeTasks ?r = []" "registryClosed ?r"
    using end_state by (simp_all add: generationIds_def closing_def)
  moreover have "set (cleanupErrors ?r) = set (cleanupErrors r) \<union> {k \<in> set (generationIds r). \<not> ok k}"
    using end_state ks by auto
  ultimately show ?thesis by (simp add: closeEnds_def)
qed

section \<open>A registry in use\<close>

definition exampleDefinition :: "string \<Rightarrow> configuration_definition" where
  "exampleDefinition k =
     \<lparr>definitionId = k, schemaVersion = Finite 1,
      descriptor = \<lparr>descriptorTitle = ''t'', descriptorDescription = None, descriptorSchema = JObj [],
        descriptorPresentation = None, sensitivePaths = []\<rparr>,
      decode = Inr,
      defaultValue = JObj [], applyMode = NextTurn\<rparr>"

definition exampleSource :: source_ref where
  "exampleSource = \<lparr>sourceRefId = ''s'', sourceRefRevision = ''1''\<rparr>"

definition exampleIds :: "nat \<Rightarrow> string" where
  "exampleIds n = replicate n (CHR ''r'')"

text \<open>Two definitions are published, one is leased, and its source withdraws it.\<close>

definition exampleEvents :: "registry_event list" where
  "exampleEvents =
     [EvReplaceSource exampleIds 0 exampleSource [exampleDefinition ''a'', exampleDefinition ''b''], EvAcquire ''a'',
      EvReplaceSource exampleIds 1 exampleSource [exampleDefinition ''b'']]"

definition exampleRegistry :: config_registry where
  "exampleRegistry = fold registryEvent exampleEvents newRegistry"

lemma exampleRegistry_reachable: "registryReachable exampleRegistry"
  unfolding exampleRegistry_def by (intro registryReachable_run registry_new)

lemma exampleRegistry_leases: "leases exampleRegistry = [(0, [''r''])]"
  by code_simp

theorem leased_revision_kept_witness:
  "(0, [''r'']) \<in> set (leases exampleRegistry) \<and> ''r'' \<notin> set (disposedIds exampleRegistry)"
proof
  show lease: "(0, [''r'']) \<in> set (leases exampleRegistry)" by (simp add: exampleRegistry_leases)
  show "''r'' \<notin> set (disposedIds exampleRegistry)"
    using leased_revision_kept [OF exampleRegistry_reachable lease, of "''r''"] by simp
qed

theorem replaceSource_atomic_witness:
  "\<exists>revs r'. replaceSource exampleIds 0 exampleSource [exampleDefinition ''b''] newRegistry = (Inr (revs, []), r') \<and>
     entryOf ''c'' r' = None \<and> map revisionConfiguration revs = [''b'']"
proof -
  obtain res r' where run: "replaceSource exampleIds 0 exampleSource [exampleDefinition ''b''] newRegistry = (res, r')"
    by fastforce
  moreover have "\<not> isl (fst (replaceSource exampleIds 0 exampleSource [exampleDefinition ''b''] newRegistry))" by code_simp
  ultimately obtain revs removed where res: "res = Inr (revs, removed)" by (cases res) auto
  have "definitionId (exampleDefinition ''b'') = ''b''" by (simp add: exampleDefinition_def)
  then have "map revisionConfiguration revs = [''b'']" "set removed = {}" "entryOf ''c'' r' = None"
    using replaceSource_atomic [OF registry_new run] by (auto simp: res newRegistry_def entryOf_def)
  then show ?thesis using run res by simp
qed

theorem unused_generation_disposed_witness:
  "\<exists>g. g \<in> set (generations exampleRegistry) \<and> generationId g = ''rr'' \<and> disposal g \<noteq> NotDisposed"
proof -
  have "list_ex (\<lambda>g. generationId g = ''rr'' \<and> revisionConfiguration (generationRevision g) = ''b'') (generations exampleRegistry)"
    by code_simp
  then obtain g where g: "g \<in> set (generations exampleRegistry)" "generationId g = ''rr''"
    "revisionConfiguration (generationRevision g) = ''b''" by (auto simp: list_ex_iff)
  have "currentOf ''b'' exampleRegistry = Some ''rrr''" "closeTasks exampleRegistry = []" by code_simp+
  then have "disposal g \<noteq> NotDisposed"
    using unused_generation_disposed [OF exampleRegistry_reachable g(1)] g(2,3) by (auto simp: exampleRegistry_leases)
  then show ?thesis using g by blast
qed

definition closedExample :: config_registry where
  "closedExample = fold registryEvent [EvRelease 0, EvClose] exampleRegistry"

theorem close_completes_witness:
  "\<exists>errors r'. closeEnds (fold (closeRound (\<lambda>k. k \<noteq> ''rr'')) [''r'', ''rr'', ''rrr''] closedExample) = (Some errors, r') \<and>
     set errors = {''rr''} \<and> generations r' = []"
proof -
  have reach: "registryReachable closedExample"
    unfolding closedExample_def by (intro registryReachable_run exampleRegistry_reachable)
  have facts: "registryClosed closedExample" "leases closedExample = []" "cleanupErrors closedExample = []"
    "generationIds closedExample = [''r'', ''rr'', ''rrr'']" "closeTasks closedExample = [''r'', ''rr'', ''rrr'']"
    by code_simp+
  have "{k \<in> set (generationIds closedExample). \<not> k \<noteq> ''rr''} = {''rr''}" by (auto simp: facts)
  then show ?thesis
    using close_completes [OF reach facts(1,2), of "[''r'', ''rr'', ''rrr'']" "\<lambda>k. k \<noteq> ''rr''"] facts by fastforce
qed

end
