(* ===== verification/ConfigurationResolverProperties.thy ===== *)
theory ConfigurationResolverProperties
  imports ConfigurationResolver ConfigurationProperties
begin

text \<open>
  The properties of configuration snapshots: layers are applied or reported, never lost; a failed
  capture holds nothing; the order in which a host lists its layers is irrelevant; the id of a
  snapshot determines what it was built from; and what redaction removes.
\<close>

section \<open>Layers\<close>

abbreviation hasPatch :: "string \<Rightarrow> layer \<Rightarrow> bool" where
  "hasPatch k l \<equiv> map_of (layerValues l) k \<noteq> None"

lemma resolveLayers_ids: "resolveLayers d ls v = (w, ids, ds) \<Longrightarrow> set ids \<subseteq> layerId ` set ls"
  by (induction d ls v arbitrary: w ids ds rule: resolveLayers.induct)
    (fastforce split: option.splits sum.splits prod.splits)+

lemma resolveLayers_partition:
  "distinct (map layerId ls) \<Longrightarrow> resolveLayers d ls v = (w, ids, ds) \<Longrightarrow>
     ids = map layerId (filter (\<lambda>l. layerId l \<in> set ids) ls) \<and>
     map diagnosticLayer ds = map layerId (filter (\<lambda>l. hasPatch (definitionId d) l \<and> layerId l \<notin> set ids) ls) \<and>
     resolveLayers d (filter (\<lambda>l. layerId l \<in> set ids) ls) v = (w, ids, [])"
proof (induction ls arbitrary: v w ids ds)
  case (Cons l ls)
  have d: "distinct (map layerId ls)" and new: "layerId l \<notin> layerId ` set ls" using Cons.prems(1) by simp_all
  show ?case
  proof (cases "map_of (layerValues l) (definitionId d)")
    case None
    then have r: "resolveLayers d ls v = (w, ids, ds)" using Cons.prems(2) by simp
    then have "layerId l \<notin> set ids" using resolveLayers_ids new by fast
    then show ?thesis using Cons.IH [OF d r] None by simp
  next
    case (Some patch)
    show ?thesis
    proof (cases "decodeLayer d v patch")
      case (Inl e)
      obtain x js es where r: "resolveLayers d ls v = (x, js, es)" by (metis prod_cases3)
      then have eqs: "w = x" "ids = js" "ds = \<lparr>diagnosticCode = InvalidLayerValue, diagnosticConfiguration = definitionId d,
          diagnosticLayer = layerId l, diagnosticFailure = Some e\<rparr> # es"
        using Cons.prems(2) Some Inl by simp_all
      have "layerId l \<notin> set js" using resolveLayers_ids [OF r] new by fast
      then show ?thesis using Cons.IH [OF d r] Some by (simp add: eqs)
    next
      case (Inr y)
      obtain x js es where r: "resolveLayers d ls y = (x, js, es)" by (metis prod_cases3)
      then have eqs: "w = x" "ids = layerId l # js" "ds = es"
        using Cons.prems(2) Some Inr by simp_all
      have "filter (\<lambda>m. layerId m \<in> set ids) ls = filter (\<lambda>m. layerId m \<in> set js) ls"
        "filter (\<lambda>m. hasPatch (definitionId d) m \<and> layerId m \<notin> set ids) ls =
         filter (\<lambda>m. hasPatch (definitionId d) m \<and> layerId m \<notin> set js) ls"
        using new by (auto simp: eqs image_iff intro!: filter_cong)
      then show ?thesis using Cons.IH [OF d r] Some Inr by (simp add: eqs)
    qed
  qed
qed simp

lemma decodeLayer_object: "decodeLayer d v patch = Inr w \<Longrightarrow> isJsonObject w"
  by (auto simp: decodeLayer_def split: sum.splits if_splits)

lemma resolveLayers_object: "isJsonObject v \<Longrightarrow> isJsonObject (fst (resolveLayers d ls v))"
proof (induction ls arbitrary: v)
  case (Cons l ls)
  then show ?case
    by (cases "map_of (layerValues l) (definitionId d)"; cases "decodeLayer d v (the (map_of (layerValues l) (definitionId d)))")
      (simp_all add: case_prod_unfold decodeLayer_object)
qed simp

text \<open>What normalising the layers establishes.\<close>

definition layerOk :: "layer \<Rightarrow> bool" where
  "layerOk l =
     (trimmedId (layerId l) \<and> trimmedId (layerRevision l) \<and> isSafeInteger (precedence l) \<and> checkValues (layerValues l) = None)"

lemma checkLayers_ok:
  "checkLayers ids precs ls = None \<longleftrightarrow>
     list_all layerOk ls \<and> distinct (map layerId ls) \<and> layerId ` set ls \<inter> ids = {} \<and>
     distinct (map precedence ls) \<and> precedence ` set ls \<inter> precs = {}"
  by (induction ls arbitrary: ids precs) (auto simp: checkLayer_def layerOk_def split: if_splits option.splits)

lemma safeInteger_int:
  assumes "isSafeInteger a"
  shows "a = Finite (of_int (asInt a))"
proof -
  obtain x where a: "a = Finite x" and q: "snd (quotient_of x) = 1" using assms by (cases a) auto
  have "x = of_int (fst (quotient_of x))" using quotient_of_div [of x "fst (quotient_of x)" 1] q by (simp add: prod_eq_iff)
  then have "of_int \<lfloor>x\<rfloor> = x" by (metis floor_of_int)
  then have "Finite (of_int \<lfloor>x\<rfloor>) = Finite x" by (rule arg_cong)
  then show ?thesis unfolding a asInt.simps by (rule sym)
qed

lemma safeInteger_eq: "isSafeInteger a \<Longrightarrow> isSafeInteger b \<Longrightarrow> asInt a = asInt b \<Longrightarrow> a = b"
  by (metis safeInteger_int)

lemma precedence_inj: "list_all layerOk ls \<Longrightarrow> distinct (map precedence ls) \<Longrightarrow> inj_on (\<lambda>l. asInt (precedence l)) (set ls)"
  by (rule inj_onI)
    (auto simp: list_all_iff layerOk_def distinct_map dest!: safeInteger_eq [rotated -1] dest: inj_onD)

lemma normalizeLayers_ok:
  "normalizeLayers ls = Inr ms \<Longrightarrow>
     list_all layerOk ms \<and> distinct (map layerId ms) \<and> distinct (map precedence ms) \<and> mset ms = mset ls \<and>
     sorted (map (\<lambda>l. asInt (precedence l)) ms)"
  by (auto simp: normalizeLayers_def checkLayers_ok list_all_iff distinct_map split: option.splits)

lemma normalizeLayers_perm:
  assumes "mset ls = mset ms" "normalizeLayers ls = Inr xs"
  shows "normalizeLayers ms = Inr xs"
proof -
  have c: "checkLayers {} {} ls = None" and xs: "xs = sort_key (\<lambda>l. asInt (precedence l)) ls"
    using assms(2) by (simp_all add: normalizeLayers_def split: option.splits)
  have same: "set ls = set ms" using assms(1) by (metis set_mset_mset)
  have "distinct (map layerId ms)" "distinct (map precedence ms)"
    using c assms(1) unfolding checkLayers_ok by (metis mset_eq_imp_distinct_iff mset_map)+
  then have ok: "checkLayers {} {} ms = None" using c same unfolding checkLayers_ok by (simp add: list_all_iff)
  have "inj_on (\<lambda>l. asInt (precedence l)) (set ms)"
    using ok unfolding checkLayers_ok by (intro precedence_inj) simp_all
  then have "sort_key (\<lambda>l. asInt (precedence l)) ms = xs"
    unfolding xs using assms(1) by (intro sort_key_inj_key_eq) simp_all
  then show ?thesis using ok by (simp add: normalizeLayers_def)
qed

section \<open>What the registry publishes\<close>

definition revisionOk :: "config_revision \<Rightarrow> bool" where
  "revisionOk v =
     (isJsonObject (defaultValue (revisionDefinition v)) \<and> revisionConfiguration v = definitionId (revisionDefinition v))"

definition published :: "config_registry \<Rightarrow> config_revision set" where
  "published r = generationRevision ` set (generations r)"

lemma updateGeneration_published:
  assumes "\<And>g. generationRevision (f g) = generationRevision g"
  shows "published (updateGeneration k f r) = published r"
proof -
  have "map generationRevision (generations (updateGeneration k f r)) = map generationRevision (generations r)"
    using assms by (simp add: updateGeneration_generations)
  then show ?thesis unfolding published_def by (metis set_map)
qed

lemma published_retire [simp]: "published (retireGeneration k r) = published r"
  by (simp add: retireGeneration_def disposeIfRetired_def updateGeneration_published)

lemma published_retireAll [simp]: "published (fold retireGeneration ps r) = published r"
  by (induction ps arbitrary: r) simp_all

lemma published_acquire [simp]: "published (acquireGeneration k r) = published r"
  by (simp add: acquireGeneration_def updateGeneration_published)

lemma published_acquireAll [simp]: "published (fold acquireGeneration ps r) = published r"
  by (induction ps arbitrary: r) simp_all

lemma published_release [simp]: "published (releaseGeneration k r) = published r"
  by (simp add: releaseGeneration_update updateGeneration_published)

lemma published_releaseAll [simp]: "published (fold releaseGeneration ps r) = published r"
  by (induction ps arbitrary: r) simp_all

lemma published_fields [simp]:
  "published (holdLease gs r) = published r" "published (bumpVersion r) = published r"
  "published (r\<lparr>leases := ls\<rparr>) = published r" "published (r\<lparr>configEntries := es\<rparr>) = published r"
  by (simp_all add: published_def holdLease_def bumpVersion_def)

lemma published_install [simp]: "published (installGeneration s g r) = insert (generationRevision g) (published r)"
  by (auto simp: published_def installGeneration_def)

lemma published_counters: "countersOnly r r' \<Longrightarrow> published r' = published r"
  by (auto simp: published_def dest: countersOnly_fields)

lemma validateDefinition_ok: "validateDefinition d = Inr d' \<Longrightarrow> isJsonObject (defaultValue d')"
  by (auto simp: validateDefinition_def split: if_splits sum.splits)

lemma validateAll_ok: "validateAll s ds = Inr cs \<Longrightarrow> c \<in> set cs \<Longrightarrow> isJsonObject (defaultValue (snd c))"
  by (induction ds arbitrary: cs) (auto split: sum.splits simp: validateDefinition_ok)

lemma created_ok:
  assumes "newlyCreated cs r gs r'" "\<And>c. c \<in> set cs \<Longrightarrow> isJsonObject (defaultValue (snd c))" "g \<in> set gs"
  shows "revisionOk (generationRevision g)"
proof -
  have "(revisionSource (generationRevision g), revisionDefinition (generationRevision g)) \<in> set cs"
    using assms(1,3) by (force simp: newlyCreated_def)
  then have "isJsonObject (defaultValue (revisionDefinition (generationRevision g)))" using assms(2) by fastforce
  then show ?thesis using assms(1,3) by (simp add: revisionOk_def newlyCreated_def list_all_iff)
qed

lemma upsert_published:
  assumes ok: "\<forall>v \<in> published r. revisionOk v"
  shows "\<forall>v \<in> published (snd (upsertDefinition ids now src d r)). revisionOk v"
proof -
  obtain res r' where u: "upsertDefinition ids now src d r = (res, r')" by fastforce
  from u have "\<forall>v \<in> published r'. revisionOk v"
  proof (cases rule: upsertDefinition_cases)
    case (failed e)
    then show ?thesis using ok by (simp add: published_counters)
  next
    case (published s d' g r1)
    have "revisionOk (generationRevision g)"
      using created_ok [OF createGeneration_created [OF published(5)]] validateDefinition_ok [OF published(2)] by simp
    then show ?thesis
      using ok published_counters [OF createGeneration_counters [OF published(5)]]
      by (simp add: published(7) split: option.split)
  qed
  then show ?thesis by (simp add: u)
qed

lemma replaceSource_published:
  assumes ok: "\<forall>v \<in> published r. revisionOk v"
  shows "\<forall>v \<in> published (snd (replaceSource ids now src ds r)). revisionOk v"
proof -
  obtain res r' where u: "replaceSource ids now src ds r = (res, r')" by fastforce
  from u have "\<forall>v \<in> published r'. revisionOk v"
  proof (cases rule: replaceSource_cases)
    case (failed e)
    then show ?thesis using ok by (simp add: published_counters)
  next
    case (published s cs gs removed r1 ps r2 qs r3)
    have new: "revisionOk (generationRevision g)" if "g \<in> set gs" for g
      using created_ok [OF createGenerations_created [OF published(5)] validateAll_ok [OF published(2)] that] .
    have "published r3 = generationRevision ` set gs \<union> published r"
      using published_counters [OF createGenerations_counters [OF published(5)]]
      by (auto simp: installAll_entries [OF published(8)] dropEntries_entries [OF published(7)] published_def)
    then show ?thesis using ok new by (auto simp: published(10))
  qed
  then show ?thesis by (simp add: u)
qed

lemma registryEvent_published:
  assumes ok: "\<forall>v \<in> published r. revisionOk v"
  shows "\<forall>v \<in> published (registryEvent ev r). revisionOk v"
proof (cases ev)
  case (EvRetire k)
  then show ?thesis using ok by (cases rule: retireDefinition_cases [of k r]) (simp_all split: option.split)
next
  case (EvRemove k)
  then show ?thesis using ok by (cases rule: removeDefinition_cases [of k r]) (simp_all split: option.split)
next
  case (EvAcquire k)
  then show ?thesis using ok by (simp add: acquireLease_def split: option.split)
next
  case EvAcquireSnapshot
  then show ?thesis using ok by (simp add: acquireSnapshot_def Let_def)
next
  case (EvRelease n)
  then show ?thesis using ok by (simp add: releaseLease_def split: option.split)
next
  case (EvDisposeSettles k b)
  then show ?thesis using ok by (auto simp: disposeSettles_def published_def)
next
  case EvClose
  then show ?thesis using ok by (auto simp: closeRegistry_def published_def)
next
  case EvCloseEnds
  then show ?thesis using ok by (simp add: closeEnds_def)
next
  case (EvDisposeRuns k)
  have "published (disposeRuns k r) = published (updateGeneration k (\<lambda>g. g\<lparr>disposal := Disposing\<rparr>) r) \<or>
      published (disposeRuns k r) = published r"
    by (simp add: disposeRuns_def published_def)
  then show ?thesis using ok EvDisposeRuns by (auto simp: updateGeneration_published)
next
  case (EvCloseResumes k)
  have "published (closeResumes k r) = published r"
    by (simp add: closeResumes_def disposeIfRetired_def updateGeneration_published) (simp add: published_def)
  then show ?thesis using ok EvCloseResumes by simp
qed (use upsert_published [OF ok] replaceSource_published [OF ok] in simp_all)

lemma reachable_published: "registryReachable r \<Longrightarrow> v \<in> published r \<Longrightarrow> revisionOk v"
proof (induction arbitrary: v rule: registryReachable.induct)
  case (registry_step r ev)
  then show ?case using registryEvent_published [of r ev] by blast
qed (simp add: newRegistry_def published_def)

section \<open>Captures\<close>

lemma hold_release:
  assumes inv: "registryInv {} r" and o: "\<not> registryClosed r" and gs: "distinct gs" "set gs \<subseteq> currents r"
  shows "releaseLease (nextLease r) (holdLease gs (fold acquireGeneration gs r)) = r\<lparr>nextLease := Suc (nextLease r)\<rparr>"
proof -
  let ?up = "\<lambda>g. g\<lparr>activeLeases := activeLeases g + count_list gs (generationId g)\<rparr>"
  have old: "n < nextLease r" if "(n, hs) \<in> set (leases r)" for n hs using inv that by (auto simp: registryInv_def)
  have "map_of (leases r) (nextLease r) = None" using old by (fastforce simp: map_of_eq_None_iff)
  then have m: "map_of (leases r @ [(nextLease r, gs)]) (nextLease r) = Some gs" by (simp add: map_add_def)
  have f: "filter (\<lambda>(m, gs). m \<noteq> nextLease r) (leases r @ [(nextLease r, gs)]) = leases r"
    using old by (fastforce intro: filter_True)
  have "(if generationId (?up g) \<in> set gs then dropLease (?up g) else ?up g) = g" if g: "g \<in> set (generations r)" for g
  proof (cases "generationId g \<in> set gs")
    case True
    have "generationOk {} r g" using inv g by (simp add: registryInv_def list_all_iff)
    then have "\<not> isRetired g" using True gs(2) o by (auto simp: generationOk_def)
    then show ?thesis
      using True count_list_distinct [OF gs(1), of "generationId g"]
      by (simp add: dropLease_def scheduleDisposal_def generationId_def)
  next
    case False
    then show ?thesis using count_list_distinct [OF gs(1), of "generationId g"] by (simp add: generationId_def)
  qed
  then have "map (\<lambda>g. if generationId g \<in> set gs then dropLease g else g) (map ?up (generations r)) = generations r"
    by (simp add: map_idI)
  then show ?thesis
    unfolding acquireAll_generations holdLease_def releaseLease_def
    using m f by (simp add: releaseAll_generations [OF gs(1)])
qed

lemma acquireSnapshot_cases:
  obtains (closed) "registryClosed r" "acquireSnapshot r = (Inl RegistryClosed, r)"
  | (acquired) "\<not> registryClosed r"
      "acquireSnapshot r = (Inr (nextLease r, registryVersion r, activeGenerations r),
         holdLease (activeGenerations r) (fold acquireGeneration (activeGenerations r) r))"
  by (cases "registryClosed r") (simp_all add: acquireSnapshot_def Let_def)

lemma capture_failed:
  assumes inv: "registryInv {} r" and run: "capture layers r = (Inl e, r')"
  shows "r' = r \<or> r' = r\<lparr>nextLease := Suc (nextLease r)\<rparr>"
proof (cases rule: acquireSnapshot_cases [of r])
  case closed
  then show ?thesis using run by (simp add: capture_def)
next
  case acquired
  show ?thesis
    using run acquired hold_release [OF inv acquired(1) activeGenerations_ok [OF inv acquired(1)]]
    by (simp add: capture_def split: sum.splits)
qed

text \<open>
  C1. A capture that fails, because the registry is closed or a layer is malformed, leaves every
  generation, lease and entry as it was: only a lease number may have been used up.
\<close>

theorem failed_capture_holds_nothing:
  assumes "registryReachable r" and "capture layers r = (Inl e, r')"
  shows "r' = r \<or> r' = r\<lparr>nextLease := Suc (nextLease r)\<rparr>"
  by (rule capture_failed [OF registryReachable_inv [OF assms(1)] assms(2)])

lemma captured:
  assumes "capture layers r = (Inr (n, s), r')"
  obtains ls where "normalizeLayers layers = Inr ls" "\<not> registryClosed r" "n = nextLease r"
    "r' = holdLease (activeGenerations r) (fold acquireGeneration (activeGenerations r) r)"
    "s = resolveSnapshot (registryVersion r) (revisionsOf (activeGenerations r) r') ls"
  using assms by (cases rule: acquireSnapshot_cases [of r]) (auto simp: capture_def split: sum.splits)

lemma capture_inv: "registryInv {} r \<Longrightarrow> registryInv {} (snd (capture layers r))"
  using acquireSnapshot_inv [of r] releaseLease_inv
  by (auto simp: capture_def split: sum.splits prod.splits)

text \<open>
  C1. The order in which a host lists its layers is irrelevant: their precedences alone decide how
  they are merged.
\<close>

theorem capture_ignores_layer_order:
  assumes "mset layers = mset layers'" and "capture layers r = (Inr result, r')"
  shows "capture layers' r = (Inr result, r')"
proof (cases rule: acquireSnapshot_cases [of r])
  case closed
  then show ?thesis using assms(2) by (simp add: capture_def)
next
  case acquired
  obtain n s where "result = (n, s)" by fastforce
  then obtain ls where "normalizeLayers layers = Inr ls" using captured assms(2) by metis
  then show ?thesis using normalizeLayers_perm [OF assms(1)] assms(2) acquired by (auto simp: capture_def)
qed

lemma revisionsOf_published: "v \<in> set (revisionsOf ps r) \<Longrightarrow> v \<in> published r"
  by (auto simp: revisionsOf_def published_def)

text \<open>
  C23. A captured snapshot accounts for every layer. For each of its entries, the layers that have a
  value for that configuration are, in order of precedence, either applied or reported as invalid;
  the resolved value is a JSON object, and it is the one the applied layers alone give, so a
  rejected layer changes nothing.
\<close>

theorem captured_layers_accounted:
  assumes reach: "registryReachable r" and run: "capture layers r = (Inr (n, s), r')"
    and e: "e \<in> set (snapshotEntries s)"
  shows "\<exists>ls v. normalizeLayers layers = Inr ls \<and> v \<in> published r' \<and> resolvedRevision e = revisionId v \<and>
    appliedLayerIds e = map layerId (filter (\<lambda>l. layerId l \<in> set (appliedLayerIds e)) ls) \<and>
    map diagnosticLayer (snd (resolveDefinition ls v)) =
      map layerId (filter (\<lambda>l. hasPatch (resolvedId e) l \<and> layerId l \<notin> set (appliedLayerIds e)) ls) \<and>
    set (snd (resolveDefinition ls v)) \<subseteq> set (snapshotDiagnostics s) \<and>
    isJsonObject (resolvedValue e) \<and>
    resolveDefinition (filter (\<lambda>l. layerId l \<in> set (appliedLayerIds e)) ls) v = (e, [])"
proof -
  obtain ls where ls: "normalizeLayers layers = Inr ls"
    and r': "r' = holdLease (activeGenerations r) (fold acquireGeneration (activeGenerations r) r)"
    and s: "s = resolveSnapshot (registryVersion r) (revisionsOf (activeGenerations r) r') ls"
    using captured [OF run] by metis
  obtain v where v: "v \<in> set (revisionsOf (activeGenerations r) r')" and ev: "e = fst (resolveDefinition ls v)"
    using e by (auto simp: s resolveSnapshot_def Let_def createSnapshot_def)
  have pub: "v \<in> published r'" using revisionsOf_published [OF v] .
  then have ok: "revisionOk v" using reachable_published [OF reach] by (simp add: r')
  let ?d = "revisionDefinition v"
  obtain w ids ds where res: "resolveLayers ?d ls (defaultValue ?d) = (w, ids, ds)" by (metis prod_cases3)
  have d: "distinct (map layerId ls)" using normalizeLayers_ok [OF ls] by simp
  note parts = resolveLayers_partition [OF d res]
  have fields: "resolvedId e = definitionId ?d" "resolvedRevision e = revisionId v" "appliedLayerIds e = ids" "resolvedValue e = w"
    "snd (resolveDefinition ls v) = ds"
    by (simp_all add: ev resolveDefinition_def Let_def res)
  have "isJsonObject w" using resolveLayers_object [of "defaultValue ?d" ?d ls] ok res by (simp add: revisionOk_def)
  moreover have "set ds \<subseteq> set (snapshotDiagnostics s)"
    using v fields(5) by (force simp: s resolveSnapshot_def Let_def createSnapshot_def)
  moreover have "resolveDefinition (filter (\<lambda>l. layerId l \<in> set ids) ls) v = (e, [])"
    using parts by (simp add: ev resolveDefinition_def Let_def res)
  ultimately show ?thesis
    using ls pub parts unfolding fields(1-4) fields(5) [symmetric] by blast
qed

text \<open>A layer over the registry of the example, where only \<open>b\<close> is left.\<close>

definition exampleLayer :: layer where
  "exampleLayer =
     \<lparr>layerId = ''user'', layerRevision = ''1'', precedence = Finite 10,
      layerValues = [(''b'', JObj [(''on'', JBool True)])]\<rparr>"

theorem captured_layers_accounted_witness:
  "\<exists>n s r' e. capture [exampleLayer] exampleRegistry = (Inr (n, s), r') \<and> e \<in> set (snapshotEntries s) \<and>
     resolvedId e = ''b'' \<and> isJsonObject (resolvedValue e)"
proof -
  have shape: "case capture [exampleLayer] exampleRegistry of
      (Inr (n, s), r') \<Rightarrow> map resolvedId (snapshotEntries s) = [''b''] | (Inl e, r') \<Rightarrow> False"
    by code_simp
  then obtain n s r' where run: "capture [exampleLayer] exampleRegistry = (Inr (n, s), r')"
    and ids: "map resolvedId (snapshotEntries s) = [''b'']"
    by (auto split: prod.splits sum.splits)
  then obtain e where e: "e \<in> set (snapshotEntries s)" "resolvedId e = ''b''" by (cases "snapshotEntries s") auto
  show ?thesis using captured_layers_accounted [OF exampleRegistry_reachable run e(1)] run e by blast
qed

section \<open>The id of a snapshot\<close>

lemma hexDigit_inject: "m < 16 \<Longrightarrow> n < 16 \<Longrightarrow> hexDigit m = hexDigit n \<Longrightarrow> m = n"
  by (auto simp: hexDigit_def split: if_splits dest!: arg_cong [of _ _ "of_char :: char \<Rightarrow> nat"])

lemma encodeChar_cases:
  "isUnreserved c \<and> encodeChar c = [c] \<and> c \<noteq> CHR ''%'' \<or>
   \<not> isUnreserved c \<and> encodeChar c = [CHR ''%'', hexDigit (of_char c div 16), hexDigit (of_char c mod 16)]"
  by (auto simp: encodeChar_def isUnreserved.simps)

lemma char_nibble: "of_char (c :: char) div 16 < (16 :: nat)"
proof -
  have "of_char c < (256 :: nat)" by simp
  then show ?thesis by (simp add: less_mult_imp_div_less)
qed

lemma char_from_hex:
  fixes c d :: char
  assumes "hexDigit (of_char c div 16) = hexDigit (of_char d div 16)" "hexDigit (of_char c mod 16) = hexDigit (of_char d mod 16)"
  shows "c = d"
proof -
  have "of_char c div 16 = (of_char d div 16 :: nat)" "of_char c mod 16 = (of_char d mod 16 :: nat)"
    using assms char_nibble by (auto intro!: hexDigit_inject)
  then have "of_char c = (of_char d :: nat)" by (metis div_mult_mod_eq)
  then show ?thesis by simp
qed

lemma encodeChar_plain: "isUnreserved c \<Longrightarrow> encodeChar c = [c]" "\<not> isUnreserved CHR ''%''"
  by (simp_all add: encodeChar_def isUnreserved.simps)

lemma encodeChar_escaped:
  "\<not> isUnreserved c \<Longrightarrow> encodeChar c = [CHR ''%'', hexDigit (of_char c div 16), hexDigit (of_char c mod 16)]"
  by (simp add: encodeChar_def)

lemma encodeChar_inject:
  assumes eq: "encodeChar c @ xs = encodeChar d @ ys"
  shows "c = d \<and> xs = ys"
proof (cases "isUnreserved c"; cases "isUnreserved d")
  assume e: "\<not> isUnreserved c" "\<not> isUnreserved d"
  from eq have "hexDigit (of_char c div 16) = hexDigit (of_char d div 16) \<and> hexDigit (of_char c mod 16) = hexDigit (of_char d mod 16) \<and> xs = ys"
    unfolding encodeChar_escaped [OF e(1)] encodeChar_escaped [OF e(2)] append_Cons append_Nil list.inject by blast
  then show ?thesis using char_from_hex by blast
qed (use eq encodeChar_plain in \<open>auto simp: encodeChar_escaped\<close>)

lemma encodeChar_not_Nil [simp]: "encodeChar c \<noteq> []"
  by (simp add: encodeChar_def)

lemma encodeURIComponent_simps [simp]:
  "encodeURIComponent [] = []" "encodeURIComponent (c # s) = encodeChar c @ encodeURIComponent s"
  by (simp_all add: encodeURIComponent_def)

lemma encodeURIComponent_inject: "encodeURIComponent s = encodeURIComponent t \<Longrightarrow> s = t"
proof (induction s arbitrary: t)
  case Nil
  then show ?case by (cases t) simp_all
next
  case (Cons c s)
  then obtain d u where t: "t = d # u" by (cases t) simp_all
  have "encodeChar c @ encodeURIComponent s = encodeChar d @ encodeURIComponent u" using Cons.prems by (simp add: t)
  then show ?case using encodeChar_inject Cons.IH t by blast
qed

lemma hexDigit_alnum: "n < 16 \<Longrightarrow> hexDigit n \<noteq> CHR ''@'' \<and> hexDigit n \<noteq> CHR ''|''"
  by (auto simp: hexDigit_def dest!: arg_cong [of _ _ "of_char :: char \<Rightarrow> nat"])

lemma encodeURIComponent_safe: "CHR ''@'' \<notin> set (encodeURIComponent s)" "CHR ''|'' \<notin> set (encodeURIComponent s)"
proof -
  have "CHR ''@'' \<notin> set (encodeChar c) \<and> CHR ''|'' \<notin> set (encodeChar c)" for c
    using encodeChar_cases [of c] hexDigit_alnum [OF char_nibble, of c] hexDigit_alnum [of "of_char c mod 16"]
    by (cases "isUnreserved c") (auto simp: isUnreserved.simps)
  then show "CHR ''@'' \<notin> set (encodeURIComponent s)" "CHR ''|'' \<notin> set (encodeURIComponent s)"
    by (auto simp: encodeURIComponent_def)
qed

lemma split_at_char: "c \<notin> set xs \<Longrightarrow> c \<notin> set ys \<Longrightarrow> xs @ c # us = ys @ c # vs \<Longrightarrow> xs = ys \<and> us = vs"
proof (induction xs arbitrary: ys)
  case Nil
  then show ?case by (cases ys) auto
next
  case (Cons x xs)
  then show ?case by (cases ys) auto
qed

lemma map_eq_weaken:
  "map f xs = map f ys \<Longrightarrow> (\<And>x y. f x = f y \<Longrightarrow> g x = g y) \<Longrightarrow> map g xs = map g ys"
proof (induction xs arbitrary: ys)
  case (Cons x xs)
  obtain y zs where ys: "ys = y # zs" "f x = f y" "map f xs = map f zs" using Cons.prems(1) by (cases ys) auto
  have "map g xs = map g zs" "g x = g y"
    using Cons.IH [OF ys(3) Cons.prems(2)] Cons.prems(2) [OF ys(2)] by blast+
  then show ?case by (simp add: ys(1))
qed simp

lemma joinWith_inject:
  "c \<notin> \<Union> (set ` set xs) \<Longrightarrow> c \<notin> \<Union> (set ` set ys) \<Longrightarrow> xs \<noteq> [] \<Longrightarrow> ys \<noteq> [] \<Longrightarrow> joinWith [c] xs = joinWith [c] ys \<Longrightarrow> xs = ys"
proof (induction "[c]" xs arbitrary: ys rule: joinWith.induct)
  case (2 s)
  then show ?case by (cases ys; cases "tl ys") auto
next
  case (3 s t ts)
  then obtain u us where ys: "ys = u # us" by (cases ys) auto
  have c: "c \<notin> set s" "c \<notin> set u" using 3 ys by auto
  show ?case
  proof (cases us)
    case Nil
    then have "c \<in> set u" using 3(6) ys by (metis append_Cons in_set_conv_decomp joinWith.simps(2,3) self_append_conv2)
    then show ?thesis using c by simp
  next
    case (Cons w ws)
    then have "s @ c # joinWith [c] (t # ts) = u @ c # joinWith [c] us" using 3(6) ys by simp
    then have "s = u" "joinWith [c] (t # ts) = joinWith [c] us" using split_at_char [OF c] by auto
    then show ?thesis using 3(1) [of us] 3(2,3) ys Cons by auto
  qed
qed simp

text \<open>
  C1. The id of a snapshot determines what it was built from: the version of the definitions and,
  in order, the id and revision of every layer, whatever characters those contain.
\<close>

theorem snapshotId_determines:
  "snapshotIdOf v ls = snapshotIdOf w ms \<longleftrightarrow>
     v = w \<and> map (\<lambda>l. (refLayerId l, refLayerRevision l)) ls = map (\<lambda>l. (refLayerId l, refLayerRevision l)) ms"
proof
  let ?part = "\<lambda>l. encodeURIComponent (refLayerId l) @ ''@'' @ encodeURIComponent (refLayerRevision l)"
  let ?parts = "\<lambda>v ls. (''definitions@'' @ decimal (int v)) # map ?part ls"
  assume eq: "snapshotIdOf v ls = snapshotIdOf w ms"
  have "CHR ''|'' \<notin> set (digitsOf n)" for n
    using digitsOf_below [of "CHR ''|''" n] by auto
  then have safe: "CHR ''|'' \<notin> \<Union> (set ` set (?parts v ls))" for v ls
    by (auto simp: decimal_def encodeURIComponent_safe)
  have "?parts v ls = ?parts w ms"
    by (rule joinWith_inject [OF safe safe]) (use eq in \<open>simp_all add: snapshotIdOf_def\<close>)
  then have vw: "v = w" and parts: "map ?part ls = map ?part ms" by (simp_all add: decimal_inject)
  have "(refLayerId l, refLayerRevision l) = (refLayerId m, refLayerRevision m)" if "?part l = ?part m" for l m
  proof -
    have "encodeURIComponent (refLayerId l) @ CHR ''@'' # encodeURIComponent (refLayerRevision l) =
        encodeURIComponent (refLayerId m) @ CHR ''@'' # encodeURIComponent (refLayerRevision m)" using that by simp
    from split_at_char [OF encodeURIComponent_safe(1) encodeURIComponent_safe(1) this]
    show ?thesis using encodeURIComponent_inject by blast
  qed
  then have "map (\<lambda>l. (refLayerId l, refLayerRevision l)) ls = map (\<lambda>l. (refLayerId l, refLayerRevision l)) ms"
    by (rule map_eq_weaken [OF parts])
  with vw show "v = w \<and> map (\<lambda>l. (refLayerId l, refLayerRevision l)) ls = map (\<lambda>l. (refLayerId l, refLayerRevision l)) ms" ..
next
  assume eq: "v = w \<and> map (\<lambda>l. (refLayerId l, refLayerRevision l)) ls = map (\<lambda>l. (refLayerId l, refLayerRevision l)) ms"
  let ?part = "\<lambda>p. encodeURIComponent (fst p) @ ''@'' @ encodeURIComponent (snd p)"
  have by_parts: "snapshotIdOf u ks = joinWith ''|'' ((''definitions@'' @ decimal (int u)) # map ?part (map (\<lambda>l. (refLayerId l, refLayerRevision l)) ks))" for u ks
    by (simp add: snapshotIdOf_def comp_def)
  show "snapshotIdOf v ls = snapshotIdOf w ms" unfolding by_parts using eq by (simp only:)
qed

end
