(* ===== verification/ConfigurationLayers.thy ===== *)
theory ConfigurationLayers
  imports ConfigurationResolverProperties
begin

text \<open>
  The registry of configuration layers, \<open>packages/runtime-core/src/configuration/layer-registry.ts\<close>,
  and the center that resolves against it (\<open>center.ts\<close>): sources publish whole sets of layers, the
  snapshot is cached, and the cache is shown to be what recomputing would give.
\<close>

section \<open>State\<close>

record layer_source =
  layerSourceRevision :: string
  sourceLayers :: "layer list"

record layers_snapshot =
  layersVersion :: nat
  layersWereClosed :: bool
  layersSources :: "(string \<times> string \<times> string list) list"
  layersList :: "layer list"

record layer_registry =
  layerSources :: "(string \<times> layer_source) list"
  layerVersion :: nat
  layersClosed :: bool
  cachedSnapshot :: "layers_snapshot option"

datatype layer_publish =
    LayersUnchanged string
  | LayersPublished string "string list" "string list"

definition newLayerRegistry :: layer_registry where
  "newLayerRegistry = \<lparr>layerSources = [], layerVersion = 0, layersClosed = False, cachedSnapshot = None\<rparr>"

definition createLayersSnapshot :: "nat \<Rightarrow> bool \<Rightarrow> (string \<times> layer_source) list \<Rightarrow> layer list \<Rightarrow> layers_snapshot" where
  "createLayersSnapshot version wasClosed sources ls =
     \<lparr>layersVersion = version, layersWereClosed = wasClosed,
      layersSources =
        map (\<lambda>(k, s). (k, layerSourceRevision s, sort (map layerId (sourceLayers s)))) (sort_key fst sources),
      layersList = ls\<rparr>"

section \<open>Operations\<close>

definition normalizeSource :: "source_ref \<Rightarrow> configuration_error + source_ref" where
  "normalizeSource s =
     (if \<not> trimmedId (sourceRefId s) then Inl (InvalidLayer ''source id'')
      else if \<not> trimmedId (sourceRefRevision s) then Inl (InvalidLayer ''source revision'')
      else Inr s)"

fun setSource :: "string \<Rightarrow> layer_source \<Rightarrow> (string \<times> layer_source) list \<Rightarrow> (string \<times> layer_source) list" where
  "setSource k s [] = [(k, s)]"
| "setSource k s ((k', s') # ss) = (if k' = k then (k, s) # ss else (k', s') # setSource k s ss)"

definition otherSources :: "string \<Rightarrow> (string \<times> layer_source) list \<Rightarrow> (string \<times> layer_source) list" where
  "otherSources k ss = filter (\<lambda>(k', s). k' \<noteq> k) ss"

definition allLayers :: "(string \<times> layer_source) list \<Rightarrow> layer list" where
  "allLayers ss = concat (map (sourceLayers \<circ> snd) ss)"

text \<open>\<open>layersExcept\<close> and \<open>layerOwnership\<close>; of two sources with a layer, the map keeps the later.\<close>

definition layersExcept :: "string \<Rightarrow> layer_registry \<Rightarrow> layer list" where
  "layersExcept k r = allLayers (otherSources k (layerSources r))"

definition layerOwner :: "string \<Rightarrow> string \<Rightarrow> layer_registry \<Rightarrow> string option" where
  "layerOwner k l r =
     map_of (rev (concat (map (\<lambda>(k', s). map (\<lambda>x. (layerId x, k')) (sourceLayers s)) (otherSources k (layerSources r))))) l"

fun ownershipConflict :: "string \<Rightarrow> layer list \<Rightarrow> layer_registry \<Rightarrow> configuration_error option" where
  "ownershipConflict k [] r = None"
| "ownershipConflict k (l # ls) r =
     (case layerOwner k (layerId l) r of
        Some owner \<Rightarrow> if owner \<noteq> [] then Some (LayerSourceConflict (layerId l) owner k) else ownershipConflict k ls r
      | None \<Rightarrow> ownershipConflict k ls r)"

text \<open>\<open>replaceSource\<close>, once the revision is known to be new.\<close>

definition publishLayers ::
    "source_ref \<Rightarrow> layer list \<Rightarrow> layer_registry \<Rightarrow> (configuration_error + layer_publish) \<times> layer_registry" where
  "publishLayers s input r =
     (case normalizeLayers input of
        Inl e \<Rightarrow> (Inl e, r)
      | Inr ls \<Rightarrow>
          (case ownershipConflict (sourceRefId s) ls r of
             Some e \<Rightarrow> (Inl e, r)
           | None \<Rightarrow>
               (case normalizeLayers (layersExcept (sourceRefId s) r @ ls) of
                  Inl e \<Rightarrow> (Inl e, r)
                | Inr combined \<Rightarrow>
                    (let previous = (case map_of (layerSources r) (sourceRefId s) of
                           Some x \<Rightarrow> map layerId (sourceLayers x) | None \<Rightarrow> []);
                         sources = setSource (sourceRefId s)
                           \<lparr>layerSourceRevision = sourceRefRevision s, sourceLayers = ls\<rparr> (layerSources r)
                     in (Inr (LayersPublished (sourceRefRevision s) (sort (map layerId ls))
                           (sort (filter (\<lambda>i. i \<notin> set (map layerId ls)) previous))),
                         r\<lparr>layerSources := sources, layerVersion := Suc (layerVersion r),
                           cachedSnapshot := Some (createLayersSnapshot (Suc (layerVersion r)) False sources combined)\<rparr>)))))"

definition replaceLayerSource ::
    "source_ref \<Rightarrow> layer list \<Rightarrow> layer_registry \<Rightarrow> (configuration_error + layer_publish) \<times> layer_registry" where
  "replaceLayerSource src input r =
     (if layersClosed r then (Inl RegistryClosed, r)
      else (case normalizeSource src of
              Inl e \<Rightarrow> (Inl e, r)
            | Inr s \<Rightarrow>
                if (case map_of (layerSources r) (sourceRefId s) of
                      Some x \<Rightarrow> layerSourceRevision x = sourceRefRevision s | None \<Rightarrow> False)
                then (Inr (LayersUnchanged (sourceRefRevision s)), r)
                else publishLayers s input r))"

definition removeLayerSource :: "string \<Rightarrow> layer_registry \<Rightarrow> (configuration_error + bool) \<times> layer_registry" where
  "removeLayerSource k r =
     (if layersClosed r then (Inl RegistryClosed, r)
      else if \<not> trimmedId k then (Inl (InvalidLayer ''source id''), r)
      else (case map_of (layerSources r) k of
              None \<Rightarrow> (Inr False, r)
            | Some s \<Rightarrow>
                (Inr True, r\<lparr>layerSources := otherSources k (layerSources r), layerVersion := Suc (layerVersion r),
                             cachedSnapshot := None\<rparr>)))"

definition readLayers :: "layer_registry \<Rightarrow> (configuration_error + layers_snapshot) \<times> layer_registry" where
  "readLayers r =
     (case cachedSnapshot r of
        Some s \<Rightarrow> (Inr s, r)
      | None \<Rightarrow>
          (case normalizeLayers (allLayers (layerSources r)) of
             Inl e \<Rightarrow> (Inl e, r)
           | Inr ls \<Rightarrow>
               (let s = createLayersSnapshot (layerVersion r) (layersClosed r) (layerSources r) ls
                in (Inr s, r\<lparr>cachedSnapshot := Some s\<rparr>))))"

definition closeLayers :: "layer_registry \<Rightarrow> layer_registry" where
  "closeLayers r =
     (if layersClosed r then r
      else r\<lparr>layersClosed := True, layerSources := [],
             cachedSnapshot := Some (createLayersSnapshot (layerVersion r) True [] [])\<rparr>)"

datatype layer_event =
    LayerReplace source_ref "layer list"
  | LayerRemove string
  | LayerRead
  | LayerClose

fun layerEvent :: "layer_event \<Rightarrow> layer_registry \<Rightarrow> layer_registry" where
  "layerEvent (LayerReplace s ls) r = snd (replaceLayerSource s ls r)"
| "layerEvent (LayerRemove k) r = snd (removeLayerSource k r)"
| "layerEvent LayerRead r = snd (readLayers r)"
| "layerEvent LayerClose r = closeLayers r"

section \<open>The cache\<close>

text \<open>
  The layers of all sources together are well formed, and a cached snapshot is the one that would
  be computed now.
\<close>

definition layersInv :: "layer_registry \<Rightarrow> bool" where
  "layersInv r =
     (distinct (map fst (layerSources r)) \<and>
      (\<exists>ls. normalizeLayers (allLayers (layerSources r)) = Inr ls \<and>
         (\<forall>s. cachedSnapshot r = Some s \<longrightarrow>
            s = createLayersSnapshot (layerVersion r) (layersClosed r) (layerSources r) ls)))"

lemma setSource_keys: "map fst (setSource k s ss) = (if k \<in> set (map fst ss) then map fst ss else map fst ss @ [k])"
  by (induction ss) (auto simp: rev_image_eqI)

lemma setSource_layers:
  "distinct (map fst ss) \<Longrightarrow>
     mset (allLayers (setSource k s ss)) = mset (allLayers (otherSources k ss) @ sourceLayers s)"
proof (induction k s ss rule: setSource.induct)
  case (2 k s k' s' ss)
  then show ?case
  proof (cases "k' = k")
    case True
    then have "filter (\<lambda>(k', s). k' \<noteq> k) ss = ss" using 2(2) by (intro filter_True) (auto simp: image_iff)
    then show ?thesis using True by (simp add: allLayers_def otherSources_def)
  qed (simp add: allLayers_def otherSources_def)
qed (simp add: allLayers_def otherSources_def)

lemma normalize_prefix:
  assumes "normalizeLayers (ls @ ms) = Inr xs"
  shows "\<exists>ys. normalizeLayers ls = Inr ys"
proof -
  have "checkLayers {} {} (ls @ ms) = None" using assms by (simp add: normalizeLayers_def split: option.splits)
  then have "checkLayers {} {} ls = None" unfolding checkLayers_ok by simp
  then show ?thesis by (simp add: normalizeLayers_def)
qed

lemma otherSources_layers:
  "mset (allLayers ss) = mset (allLayers (otherSources k ss) @ allLayers (filter (\<lambda>(k', s). k' = k) ss))"
  by (induction ss) (auto simp: allLayers_def otherSources_def)

lemma checkLayers_subset:
  assumes "normalizeLayers (allLayers ss) = Inr ls"
  shows "\<exists>ms. normalizeLayers (allLayers (otherSources k ss)) = Inr ms"
  using normalize_prefix [OF normalizeLayers_perm [OF otherSources_layers assms]] .

lemma normalizeSource_same: "normalizeSource src = Inr s \<Longrightarrow> s = src"
  by (simp add: normalizeSource_def split: if_splits)

lemma publishLayers_cases:
  assumes "publishLayers s input r = (res, r')"
  obtains (failed) e where "res = Inl e" "r' = r"
  | (published) ls combined previous where "normalizeLayers input = Inr ls"
      "normalizeLayers (layersExcept (sourceRefId s) r @ ls) = Inr combined"
      "res = Inr (LayersPublished (sourceRefRevision s) (sort (map layerId ls)) previous)"
      "r' = r\<lparr>layerSources := setSource (sourceRefId s) \<lparr>layerSourceRevision = sourceRefRevision s, sourceLayers = ls\<rparr> (layerSources r),
               layerVersion := Suc (layerVersion r),
               cachedSnapshot := Some (createLayersSnapshot (Suc (layerVersion r)) False
                 (setSource (sourceRefId s) \<lparr>layerSourceRevision = sourceRefRevision s, sourceLayers = ls\<rparr> (layerSources r)) combined)\<rparr>"
proof (cases "normalizeLayers input")
  case (Inl e)
  then have "res = Inl e" "r' = r" using assms by (simp_all add: publishLayers_def)
  then show ?thesis by (rule failed)
next
  case ls: (Inr ls)
  show ?thesis
  proof (cases "ownershipConflict (sourceRefId s) ls r")
    case (Some e)
    then have "res = Inl e" "r' = r" using assms ls by (simp_all add: publishLayers_def)
    then show ?thesis by (rule failed)
  next
    case None
    show ?thesis
    proof (cases "normalizeLayers (layersExcept (sourceRefId s) r @ ls)")
      case (Inl e)
      then have "res = Inl e" "r' = r" using assms ls None by (simp_all add: publishLayers_def)
      then show ?thesis by (rule failed)
    next
      case (Inr combined)
      show ?thesis
        by (rule published [OF ls Inr]; insert assms ls None Inr, unfold publishLayers_def Let_def, simp, (erule conjE)?, (rule sym, assumption)?)
    qed
  qed
qed

lemma replaceLayerSource_cases:
  assumes "replaceLayerSource src input r = (res, r')"
  obtains (failed) e where "res = Inl e" "r' = r"
  | (unchanged) v where "res = Inr (LayersUnchanged v)" "r' = r"
  | (new) "\<not> layersClosed r" "publishLayers src input r = (res, r')"
  using assms normalizeSource_same [of src]
  by (auto simp: replaceLayerSource_def split: if_splits sum.splits)

lemma replaceLayerSource_inv:
  assumes inv: "layersInv r"
  shows "layersInv (snd (replaceLayerSource src input r))"
proof -
  obtain res r' where run: "replaceLayerSource src input r = (res, r')" by fastforce
  then have "layersInv r'"
  proof (cases rule: replaceLayerSource_cases)
    case new
    from new(2) show ?thesis
    proof (cases rule: publishLayers_cases)
      case (published ls combined previous)
      let ?s = "\<lparr>layerSourceRevision = sourceRefRevision src, sourceLayers = ls\<rparr>"
      have d: "distinct (map fst (layerSources r))" using inv by (simp add: layersInv_def)
      have "mset (layersExcept (sourceRefId src) r @ ls) = mset (allLayers (setSource (sourceRefId src) ?s (layerSources r)))"
        unfolding setSource_layers [OF d] by (simp add: layersExcept_def)
      then have "normalizeLayers (allLayers (setSource (sourceRefId src) ?s (layerSources r))) = Inr combined"
        using published(2) by (rule normalizeLayers_perm)
      moreover have "distinct (map fst (setSource (sourceRefId src) ?s (layerSources r)))" using d by (simp add: setSource_keys)
      ultimately show ?thesis using new(1) unfolding published(4) by (simp add: layersInv_def)
    qed (use inv in simp)
  qed (use inv in simp_all)
  then show ?thesis by (simp add: run)
qed

lemma removeLayerSource_inv:
  assumes inv: "layersInv r"
  shows "layersInv (snd (removeLayerSource k r))"
proof -
  obtain ls where "normalizeLayers (allLayers (layerSources r)) = Inr ls" using inv by (auto simp: layersInv_def)
  note rest = checkLayers_subset [OF this, of k]
  have "distinct (map fst (otherSources k (layerSources r)))"
    using inv by (simp add: layersInv_def otherSources_def distinct_map_filter)
  then show ?thesis using inv rest by (auto simp: removeLayerSource_def layersInv_def split: option.splits)
qed

lemma readLayers_inv:
  assumes inv: "layersInv r"
  obtains ls where "normalizeLayers (allLayers (layerSources r)) = Inr ls"
    "readLayers r = (Inr (createLayersSnapshot (layerVersion r) (layersClosed r) (layerSources r) ls),
       r\<lparr>cachedSnapshot := Some (createLayersSnapshot (layerVersion r) (layersClosed r) (layerSources r) ls)\<rparr>)"
proof -
  obtain ls where ls: "normalizeLayers (allLayers (layerSources r)) = Inr ls"
    "\<And>s. cachedSnapshot r = Some s \<Longrightarrow> s = createLayersSnapshot (layerVersion r) (layersClosed r) (layerSources r) ls"
    using inv by (auto simp: layersInv_def)
  show ?thesis
  proof (rule that [OF ls(1)], cases "cachedSnapshot r")
    case None
    then show "readLayers r = (Inr (createLayersSnapshot (layerVersion r) (layersClosed r) (layerSources r) ls),
        r\<lparr>cachedSnapshot := Some (createLayersSnapshot (layerVersion r) (layersClosed r) (layerSources r) ls)\<rparr>)"
      using ls(1) by (simp add: readLayers_def Let_def)
  next
    case (Some s)
    then have "r\<lparr>cachedSnapshot := Some s\<rparr> = r" by simp
    then show "readLayers r = (Inr (createLayersSnapshot (layerVersion r) (layersClosed r) (layerSources r) ls),
        r\<lparr>cachedSnapshot := Some (createLayersSnapshot (layerVersion r) (layersClosed r) (layerSources r) ls)\<rparr>)"
      using Some ls(2) [OF Some] by (simp add: readLayers_def)
  qed
qed

lemma readLayers_keeps: "layersInv r \<Longrightarrow> layersInv (snd (readLayers r))"
  by (rule readLayers_inv) (auto simp: layersInv_def)

lemma normalize_empty: "normalizeLayers [] = Inr []"
  by (simp add: normalizeLayers_def)

lemma closeLayers_inv: "layersInv r \<Longrightarrow> layersInv (closeLayers r)"
  by (cases "layersClosed r") (simp_all add: closeLayers_def layersInv_def allLayers_def normalize_empty)

lemma layerEvent_inv: "layersInv r \<Longrightarrow> layersInv (layerEvent ev r)"
  by (cases ev) (simp_all add: replaceLayerSource_inv removeLayerSource_inv readLayers_keeps closeLayers_inv)

inductive layersReachable :: "layer_registry \<Rightarrow> bool" where
  layers_new: "layersReachable newLayerRegistry"
| layers_step: "layersReachable r \<Longrightarrow> layersReachable (layerEvent ev r)"

lemma layersReachable_inv: "layersReachable r \<Longrightarrow> layersInv r"
proof (induction rule: layersReachable.induct)
  case layers_new
  then show ?case by (simp add: layersInv_def newLayerRegistry_def allLayers_def normalize_empty)
qed (rule layerEvent_inv)

text \<open>
  C31. The snapshot of the layers never fails and is always current: whatever was published,
  withdrawn, read or closed before, it is what normalising the layers of all sources gives now, at
  the current version. A publication that succeeds is visible at once and as a whole, merged with
  the layers of the other sources by precedence; one that fails changes nothing.
\<close>

theorem layers_snapshot_current:
  assumes reach: "layersReachable r"
  shows "(\<exists>ls. normalizeLayers (allLayers (layerSources r)) = Inr ls \<and>
      fst (readLayers r) = Inr (createLayersSnapshot (layerVersion r) (layersClosed r) (layerSources r) ls)) \<and>
    (case replaceLayerSource src input r of
       (Inl e, r') \<Rightarrow> r' = r
     | (Inr (LayersUnchanged v), r') \<Rightarrow> r' = r
     | (Inr (LayersPublished v ids removed), r') \<Rightarrow>
         (\<exists>s. fst (readLayers r') = Inr s \<and> layersVersion s = Suc (layerVersion r) \<and>
            mset (layersList s) = mset (layersExcept (sourceRefId src) r @ input) \<and>
            distinct (map layerId (layersList s)) \<and> sorted (map (\<lambda>l. asInt (precedence l)) (layersList s))))"
proof
  show "\<exists>ls. normalizeLayers (allLayers (layerSources r)) = Inr ls \<and>
      fst (readLayers r) = Inr (createLayersSnapshot (layerVersion r) (layersClosed r) (layerSources r) ls)"
    by (rule readLayers_inv [OF layersReachable_inv [OF reach]]) simp
  obtain res r' where run: "replaceLayerSource src input r = (res, r')" by fastforce
  then show "case replaceLayerSource src input r of
       (Inl e, r') \<Rightarrow> r' = r
     | (Inr (LayersUnchanged v), r') \<Rightarrow> r' = r
     | (Inr (LayersPublished v ids removed), r') \<Rightarrow>
         (\<exists>s. fst (readLayers r') = Inr s \<and> layersVersion s = Suc (layerVersion r) \<and>
            mset (layersList s) = mset (layersExcept (sourceRefId src) r @ input) \<and>
            distinct (map layerId (layersList s)) \<and> sorted (map (\<lambda>l. asInt (precedence l)) (layersList s)))"
  proof (cases rule: replaceLayerSource_cases)
    case new
    from new(2) show ?thesis
    proof (cases rule: publishLayers_cases)
      case (published ls combined previous)
      then show ?thesis
        using normalizeLayers_ok [OF published(1)] normalizeLayers_ok [OF published(2)]
        by (simp add: run readLayers_def createLayersSnapshot_def)
    qed (simp add: run)
  qed (simp_all add: run)
qed

theorem layers_snapshot_current_witness:
  "\<exists>ls. fst (readLayers (layerEvent (LayerReplace exampleSource [exampleLayer]) newLayerRegistry)) =
     Inr (createLayersSnapshot 1 False [(''s'', \<lparr>layerSourceRevision = ''1'', sourceLayers = [exampleLayer]\<rparr>)] ls)"
proof -
  let ?r = "layerEvent (LayerReplace exampleSource [exampleLayer]) newLayerRegistry"
  have "layerVersion ?r = 1" "layersClosed ?r = False"
    "layerSources ?r = [(''s'', \<lparr>layerSourceRevision = ''1'', sourceLayers = [exampleLayer]\<rparr>)]"
    by code_simp+
  then show ?thesis
    using conjunct1 [OF layers_snapshot_current [OF layers_step [OF layers_new, of "LayerReplace exampleSource [exampleLayer]"]]]
    by auto
qed

end
