(* ===== verification/ConfigurationCenter.thy ===== *)
theory ConfigurationCenter
  imports ConfigurationLayers
begin

text \<open>
  The configuration center, \<open>packages/runtime-core/src/configuration/center.ts\<close>: definitions and
  layers behind one source of snapshot leases; and the coordinator that shares one lease among the
  consumers of a binding, \<open>snapshot-coordinator.ts\<close>, over any source of leases.
\<close>

section \<open>The center\<close>

record config_center =
  centerDefinitions :: config_registry
  centerLayers :: layer_registry

definition newCenter :: config_center where
  "newCenter = \<lparr>centerDefinitions = newRegistry, centerLayers = newLayerRegistry\<rparr>"

type_synonym snapshot_lease = "nat \<times> config_snapshot"

definition centerAcquire :: "config_center \<Rightarrow> (configuration_error + snapshot_lease) \<times> config_center" where
  "centerAcquire c =
     (case readLayers (centerLayers c) of
        (Inl e, ls) \<Rightarrow> (Inl e, c\<lparr>centerLayers := ls\<rparr>)
      | (Inr s, ls) \<Rightarrow>
          (case capture (layersList s) (centerDefinitions c) of
             (res, d) \<Rightarrow> (res, c\<lparr>centerLayers := ls, centerDefinitions := d\<rparr>)))"

definition centerRelease :: "snapshot_lease \<Rightarrow> config_center \<Rightarrow> config_center" where
  "centerRelease l c = c\<lparr>centerDefinitions := releaseLease (fst l) (centerDefinitions c)\<rparr>"

definition closeCenter :: "config_center \<Rightarrow> config_center" where
  "closeCenter c =
     c\<lparr>centerLayers := closeLayers (centerLayers c), centerDefinitions := closeRegistry (centerDefinitions c)\<rparr>"

definition centerOk :: "config_center \<Rightarrow> bool" where
  "centerOk c = (registryInv {} (centerDefinitions c) \<and> layersInv (centerLayers c))"

definition heldLeases :: "config_center \<Rightarrow> nat set" where
  "heldLeases c = set (map fst (leases (centerDefinitions c)))"

section \<open>The coordinator\<close>

text \<open>
  A binding is an object shared by the closures of its consumers; it is named by a number. The map
  \<open>bindings\<close> takes the key of a binding to its object.
\<close>

record acquire_context =
  scopeId :: "string option"
  bindingId :: string
  signalAborted :: bool

datatype coordinator_error = Aborted | BindingError configuration_error

datatype 'l consumer = Direct 'l | Bound string nat

record 'l shared_binding =
  bindingLease :: 'l
  activeConsumers :: nat

record 'l snapshot_coordinator =
  bindings :: "(string \<times> nat) list"
  bindingObjects :: "(nat \<times> 'l shared_binding) list"
  consumers :: "(nat \<times> 'l consumer) list"
  nextObject :: nat
  nextConsumer :: nat

definition newSnapshotCoordinator :: "'l snapshot_coordinator" where
  "newSnapshotCoordinator = \<lparr>bindings = [], bindingObjects = [], consumers = [], nextObject = 0, nextConsumer = 0\<rparr>"

definition normalizeBindingId :: "string \<Rightarrow> string \<Rightarrow> configuration_error + string" where
  "normalizeBindingId v label = (if trimmedId v then Inr v else Inl (InvalidLayer label))"

definition createBindingKey :: "string option \<Rightarrow> string \<Rightarrow> configuration_error + string" where
  "createBindingKey scope b =
     (case normalizeBindingId b ''binding id'' of
        Inl e \<Rightarrow> Inl e
      | Inr b \<Rightarrow>
          (case scope of
             None \<Rightarrow> Inr b
           | Some s \<Rightarrow>
               (case normalizeBindingId s ''scope id'' of Inl e \<Rightarrow> Inl e | Inr s \<Rightarrow> Inr (s @ CHR 0x00 # b))))"

text \<open>The handle of a new consumer: its number, and the lease whose snapshot it shows.\<close>

definition addConsumer :: "'l consumer \<Rightarrow> 'l snapshot_coordinator \<Rightarrow> 'l snapshot_coordinator" where
  "addConsumer x c = c\<lparr>consumers := consumers c @ [(nextConsumer c, x)], nextConsumer := Suc (nextConsumer c)\<rparr>"

definition updateBinding :: "nat \<Rightarrow> ('l shared_binding \<Rightarrow> 'l shared_binding) \<Rightarrow> 'l snapshot_coordinator \<Rightarrow> 'l snapshot_coordinator" where
  "updateBinding i f c = c\<lparr>bindingObjects := map (\<lambda>(j, b). (j, if j = i then f b else b)) (bindingObjects c)\<rparr>"

definition useBinding :: "string \<Rightarrow> nat \<Rightarrow> 'l snapshot_coordinator \<Rightarrow> 'l snapshot_coordinator" where
  "useBinding k i c = addConsumer (Bound k i) (updateBinding i (\<lambda>b. b\<lparr>activeConsumers := activeConsumers b + 1\<rparr>) c)"

definition newBinding :: "string \<Rightarrow> 'l \<Rightarrow> 'l snapshot_coordinator \<Rightarrow> 'l snapshot_coordinator" where
  "newBinding k l c =
     c\<lparr>bindings := bindings c @ [(k, nextObject c)],
       bindingObjects := bindingObjects c @ [(nextObject c, \<lparr>bindingLease = l, activeConsumers = 0\<rparr>)],
       nextObject := Suc (nextObject c)\<rparr>"

definition coordinatorAcquire ::
    "('s \<Rightarrow> (configuration_error + 'l) \<times> 's) \<Rightarrow> acquire_context option \<Rightarrow> 'l snapshot_coordinator \<times> 's \<Rightarrow>
       (coordinator_error + nat) \<times> 'l snapshot_coordinator \<times> 's" where
  "coordinatorAcquire acq ctx cs =
     (case cs of (c, s) \<Rightarrow>
        (case ctx of
           None \<Rightarrow>
             (case acq s of
                (Inl e, s') \<Rightarrow> (Inl (BindingError e), c, s')
              | (Inr l, s') \<Rightarrow> (Inr (nextConsumer c), addConsumer (Direct l) c, s'))
         | Some x \<Rightarrow>
             if signalAborted x then (Inl Aborted, c, s)
             else (case createBindingKey (scopeId x) (bindingId x) of
                     Inl e \<Rightarrow> (Inl (BindingError e), c, s)
                   | Inr k \<Rightarrow>
                       (case map_of (bindings c) k of
                          Some i \<Rightarrow> (Inr (nextConsumer c), useBinding k i c, s)
                        | None \<Rightarrow>
                            (case acq s of
                               (Inl e, s') \<Rightarrow> (Inl (BindingError e), c, s')
                             | (Inr l, s') \<Rightarrow>
                                 (Inr (nextConsumer c), useBinding k (nextObject c) (newBinding k l c), s'))))))"

definition dropConsumer :: "nat \<Rightarrow> 'l snapshot_coordinator \<Rightarrow> 'l snapshot_coordinator" where
  "dropConsumer n c = c\<lparr>consumers := filter (\<lambda>(m, x). m \<noteq> n) (consumers c)\<rparr>"

text \<open>
  A handle is released once. The last consumer of a binding deletes the key and releases the lease;
  its object is garbage then.
\<close>

definition endBinding :: "string \<Rightarrow> nat \<Rightarrow> 'l snapshot_coordinator \<Rightarrow> 'l snapshot_coordinator" where
  "endBinding k i c =
     c\<lparr>bindings := filter (\<lambda>(k', j). k' \<noteq> k) (bindings c), bindingObjects := filter (\<lambda>(j, b). j \<noteq> i) (bindingObjects c)\<rparr>"

definition dropUse :: "'l shared_binding \<Rightarrow> 'l shared_binding" where
  "dropUse b = b\<lparr>activeConsumers := activeConsumers b - 1\<rparr>"

definition coordinatorRelease ::
    "('l \<Rightarrow> 's \<Rightarrow> 's) \<Rightarrow> nat \<Rightarrow> 'l snapshot_coordinator \<times> 's \<Rightarrow> 'l snapshot_coordinator \<times> 's" where
  "coordinatorRelease rel n cs =
     (case cs of (c, s) \<Rightarrow>
        (case map_of (consumers c) n of
           None \<Rightarrow> (c, s)
         | Some (Direct l) \<Rightarrow> (dropConsumer n c, rel l s)
         | Some (Bound k i) \<Rightarrow>
             (let c1 = updateBinding i dropUse (dropConsumer n c)
              in case map_of (bindingObjects c1) i of
                   None \<Rightarrow> (c1, s)
                 | Some b \<Rightarrow>
                     if 0 < activeConsumers b then (c1, s)
                     else (endBinding k i c1, rel (bindingLease b) s))))"

end
