(* ===== verification/ConfigurationCoordinator.thy ===== *)
theory ConfigurationCoordinator
  imports ConfigurationCenter
begin

text \<open>
  The coordinator of configuration snapshots over any source of leases, and over the configuration
  center: consumers of one binding share one lease, the source keeps it as long as one of them
  holds on, and the last one gives it back.
\<close>

section \<open>The invariant\<close>

fun directKeys :: "('l \<Rightarrow> nat) \<Rightarrow> (nat \<times> 'l consumer) list \<Rightarrow> nat list" where
  "directKeys key [] = []"
| "directKeys key ((n, Direct l) # cs) = key l # directKeys key cs"
| "directKeys key ((n, Bound k i) # cs) = directKeys key cs"

definition objectKeys :: "('l \<Rightarrow> nat) \<Rightarrow> 'l snapshot_coordinator \<Rightarrow> nat list" where
  "objectKeys key c = map (\<lambda>(i, b). key (bindingLease b)) (bindingObjects c)"

definition liveLeases :: "('l \<Rightarrow> nat) \<Rightarrow> 'l snapshot_coordinator \<Rightarrow> nat list" where
  "liveLeases key c = directKeys key (consumers c) @ objectKeys key c"

definition users :: "string \<Rightarrow> nat \<Rightarrow> 'l snapshot_coordinator \<Rightarrow> nat" where
  "users k i c = length (filter (\<lambda>(n, x). x = Bound k i) (consumers c))"

definition bindingsOk :: "'l snapshot_coordinator \<Rightarrow> bool" where
  "bindingsOk c =
     (distinct (map fst (consumers c)) \<and> (\<forall>n x. (n, x) \<in> set (consumers c) \<longrightarrow> n < nextConsumer c) \<and>
      distinct (map fst (bindings c)) \<and> distinct (map snd (bindings c)) \<and>
      map snd (bindings c) = map fst (bindingObjects c) \<and>
      (\<forall>k i. (k, i) \<in> set (bindings c) \<longrightarrow> i < nextObject c) \<and>
      (\<forall>k i b. (k, i) \<in> set (bindings c) \<longrightarrow> (i, b) \<in> set (bindingObjects c) \<longrightarrow> activeConsumers b = users k i c) \<and>
      (\<forall>n k i. (n, Bound k i) \<in> set (consumers c) \<longrightarrow> (k, i) \<in> set (bindings c)))"

lemma bindingsOk_count:
  "bindingsOk c \<Longrightarrow> (k, i) \<in> set (bindings c) \<Longrightarrow> (i, b) \<in> set (bindingObjects c) \<Longrightarrow> activeConsumers b = users k i c"
  unfolding bindingsOk_def by blast

lemma bindingsOk_objects: "bindingsOk c \<Longrightarrow> distinct (map fst (bindingObjects c))"
proof -
  assume ok: "bindingsOk c"
  then have "map snd (bindings c) = map fst (bindingObjects c)" "distinct (map snd (bindings c))"
    unfolding bindingsOk_def by blast+
  then show ?thesis by (simp only:)
qed

definition bindingsUsed :: "'l snapshot_coordinator \<Rightarrow> bool" where
  "bindingsUsed c = (\<forall>k i. (k, i) \<in> set (bindings c) \<longrightarrow> 0 < users k i c)"

definition leasesOk :: "('l \<Rightarrow> nat) \<Rightarrow> nat set \<Rightarrow> 'l snapshot_coordinator \<Rightarrow> bool" where
  "leasesOk key H c = (distinct (liveLeases key c) \<and> set (liveLeases key c) \<subseteq> H)"

definition coordinatorInv :: "('l \<Rightarrow> nat) \<Rightarrow> nat set \<Rightarrow> 'l snapshot_coordinator \<Rightarrow> bool" where
  "coordinatorInv key H c = (bindingsOk c \<and> bindingsUsed c \<and> leasesOk key H c)"

lemma newSnapshotCoordinator_inv: "coordinatorInv key H newSnapshotCoordinator"
  by (simp add: coordinatorInv_def bindingsOk_def bindingsUsed_def leasesOk_def newSnapshotCoordinator_def liveLeases_def objectKeys_def)

section \<open>Consumers\<close>

lemma directKeys_append: "directKeys key (cs @ ds) = directKeys key cs @ directKeys key ds"
  by (induction key cs rule: directKeys.induct) simp_all

lemma directKeys_mem: "(n, Direct l) \<in> set cs \<Longrightarrow> key l \<in> set (directKeys key cs)"
  by (induction key cs rule: directKeys.induct) auto

lemma directKeys_drop:
  "distinct (map fst cs) \<Longrightarrow> (n, Direct l) \<in> set cs \<Longrightarrow> distinct (directKeys key cs) \<Longrightarrow>
     distinct (directKeys key (filter (\<lambda>(m, x). m \<noteq> n) cs)) \<and>
     set (directKeys key (filter (\<lambda>(m, x). m \<noteq> n) cs)) = set (directKeys key cs) - {key l}"
proof (induction key cs rule: directKeys.induct)
  case (2 key m l' cs)
  show ?case
  proof (cases "m = n")
    case True
    then have "filter (\<lambda>(m, x). m \<noteq> n) cs = cs" "l' = l"
      using 2(2,3) by (auto intro!: filter_True simp: image_iff)
    then show ?thesis using True 2(4) by auto
  next
    case False
    then have mem: "(n, Direct l) \<in> set cs" using 2(3) by simp
    then have "key l' \<noteq> key l" using directKeys_mem [OF mem, of key] 2(4) by auto
    then show ?thesis using 2 mem False by auto
  qed
qed auto

lemma directKeys_drop_bound:
  "distinct (map fst cs) \<Longrightarrow> (n, Bound k i) \<in> set cs \<Longrightarrow> directKeys key (filter (\<lambda>(m, x). m \<noteq> n) cs) = directKeys key cs"
proof (induction key cs rule: directKeys.induct)
  case (3 key m k' i' cs)
  show ?case
  proof (cases "m = n")
    case True
    then have "filter (\<lambda>(m, x). m \<noteq> n) cs = cs" using 3(2) by (auto intro!: filter_True simp: image_iff)
    then show ?thesis using True by simp
  qed (use 3 in auto)
qed (auto simp: image_iff)

lemma users_add: "users k i (addConsumer x c) = users k i c + (if x = Bound k i then 1 else 0)"
  by (simp add: users_def addConsumer_def)

lemma users_drop:
  "distinct (map fst (consumers c)) \<Longrightarrow> (n, x) \<in> set (consumers c) \<Longrightarrow>
     users k i c = users k i (dropConsumer n c) + (if x = Bound k i then 1 else 0)"
proof -
  have "distinct (map fst cs) \<Longrightarrow> (n, x) \<in> set cs \<Longrightarrow>
      length (filter (\<lambda>(m, y). y = Bound k i) cs) =
        length (filter (\<lambda>(m, y). y = Bound k i) (filter (\<lambda>(m, y). m \<noteq> n) cs)) + (if x = Bound k i then 1 else 0)" for cs
  proof (induction cs)
    case (Cons a cs)
    show ?case
    proof (cases "fst a = n")
      case True
      then have "filter (\<lambda>(m, y). m \<noteq> n) cs = cs" "a = (n, x)"
        using Cons.prems by (cases a; auto intro!: filter_True simp: image_iff)+
      then show ?thesis by simp
    next
      case False
      then show ?thesis using Cons by (cases a) auto
    qed
  qed simp
  then show "distinct (map fst (consumers c)) \<Longrightarrow> (n, x) \<in> set (consumers c) \<Longrightarrow>
     users k i c = users k i (dropConsumer n c) + (if x = Bound k i then 1 else 0)"
    by (simp add: users_def dropConsumer_def)
qed

lemma users_fields [simp]:
  "users k i (updateBinding j f c) = users k i c" "users k i (newBinding k' l c) = users k i c"
  "users k i (endBinding k' j c) = users k i c"
  by (simp_all add: users_def updateBinding_def newBinding_def endBinding_def)

lemma addDirect_ok:
  assumes "bindingsOk c" "bindingsUsed c"
  shows "bindingsOk (addConsumer (Direct l) c)" "bindingsUsed (addConsumer (Direct l) c)"
  using assms by (auto simp: bindingsOk_def bindingsUsed_def users_add) (auto simp: addConsumer_def less_Suc_eq)

lemma addDirect_leases:
  "leasesOk key H c \<Longrightarrow> key l \<notin> H \<Longrightarrow> leasesOk key (insert (key l) H) (addConsumer (Direct l) c)"
  by (auto simp: leasesOk_def liveLeases_def objectKeys_def addConsumer_def directKeys_append)

section \<open>Bindings\<close>

lemma updateBinding_keys:
  "(\<And>b. bindingLease (f b) = bindingLease b) \<Longrightarrow> liveLeases key (updateBinding i f c) = liveLeases key c"
  by (auto simp: liveLeases_def objectKeys_def updateBinding_def)

lemma updateBinding_ids: "map fst (bindingObjects (updateBinding i f c)) = map fst (bindingObjects c)"
  by (simp add: updateBinding_def comp_def case_prod_unfold)

lemma updateBinding_mem:
  "(j, b) \<in> set (bindingObjects (updateBinding i f c)) \<longleftrightarrow>
     (\<exists>b'. (j, b') \<in> set (bindingObjects c) \<and> b = (if j = i then f b' else b'))"
  by (force simp: updateBinding_def)

lemma binding_key_unique: "bindingsOk c \<Longrightarrow> (k, i) \<in> set (bindings c) \<Longrightarrow> (k', i) \<in> set (bindings c) \<Longrightarrow> k' = k"
  unfolding bindingsOk_def distinct_map by (metis inj_onD prod.inject snd_conv)

lemma binding_object_unique: "bindingsOk c \<Longrightarrow> (k, i) \<in> set (bindings c) \<Longrightarrow> (k, j) \<in> set (bindings c) \<Longrightarrow> j = i"
  unfolding bindingsOk_def distinct_map by (metis inj_onD prod.inject fst_conv)

lemma useBinding_ok:
  assumes ok: "bindingsOk c" and k: "(k, i) \<in> set (bindings c)"
  shows "bindingsOk (useBinding k i c)"
proof -
  have fields: "bindings (useBinding k i c) = bindings c" "nextObject (useBinding k i c) = nextObject c"
    "consumers (useBinding k i c) = consumers c @ [(nextConsumer c, Bound k i)]"
    "nextConsumer (useBinding k i c) = Suc (nextConsumer c)"
    "bindingObjects (useBinding k i c) = bindingObjects (updateBinding i (\<lambda>b. b\<lparr>activeConsumers := activeConsumers b + 1\<rparr>) c)"
    by (simp_all add: useBinding_def addConsumer_def updateBinding_def)
  have key: "k' = k" if "(k', i) \<in> set (bindings c)" for k'
    by (rule binding_key_unique [OF ok k that])
  have count: "activeConsumers b = users k' j (useBinding k i c)"
    if kj: "(k', j) \<in> set (bindings c)" and b: "(j, b) \<in> set (bindingObjects (useBinding k i c))" for k' j b
  proof -
    obtain b' where b': "(j, b') \<in> set (bindingObjects c)" "b = (if j = i then b'\<lparr>activeConsumers := activeConsumers b' + 1\<rparr> else b')"
      using b unfolding fields updateBinding_mem by blast
    then have "activeConsumers b' = users k' j c" using ok kj by (auto simp: bindingsOk_def)
    then show ?thesis using b'(2) key kj by (auto simp: useBinding_def users_add)
  qed
  show ?thesis
    unfolding bindingsOk_def
  proof (intro conjI allI impI)
    show "map snd (bindings (useBinding k i c)) = map fst (bindingObjects (useBinding k i c))"
      unfolding fields updateBinding_ids using ok by (simp add: bindingsOk_def)
    show "(k', j) \<in> set (bindings (useBinding k i c)) \<Longrightarrow> (j, b) \<in> set (bindingObjects (useBinding k i c)) \<Longrightarrow>
        activeConsumers b = users k' j (useBinding k i c)" for k' j b using count fields(1) by simp
  qed (use ok k in \<open>auto simp: bindingsOk_def fields less_Suc_eq\<close>)
qed

lemma useBinding_used:
  assumes "\<And>k' j. (k', j) \<in> set (bindings c) \<Longrightarrow> (k', j) \<noteq> (k, i) \<Longrightarrow> 0 < users k' j c"
  shows "bindingsUsed (useBinding k i c)"
  using assms by (auto simp: bindingsUsed_def useBinding_def users_add) (auto simp: addConsumer_def updateBinding_def)

lemma useBinding_leases: "leasesOk key H c \<Longrightarrow> leasesOk key H (useBinding k i c)"
proof -
  have "liveLeases key (addConsumer (Bound k i) c) = liveLeases key c" for c
    by (simp add: liveLeases_def addConsumer_def directKeys_append objectKeys_def)
  then show "leasesOk key H c \<Longrightarrow> leasesOk key H (useBinding k i c)"
    by (simp add: leasesOk_def useBinding_def updateBinding_keys)
qed

lemma newBinding_ok:
  assumes ok: "bindingsOk c" and k: "k \<notin> set (map fst (bindings c))"
  shows "bindingsOk (newBinding k l c)"
proof -
  have new: "(k', nextObject c) \<notin> set (bindings c)" for k' using ok by (auto simp: bindingsOk_def)
  have ids: "snd ` set (bindings c) = fst ` set (bindingObjects c)" using ok by (metis bindingsOk_def set_map)
  then have new': "(nextObject c, b) \<notin> set (bindingObjects c)" for b
    using new by (force simp: image_iff set_eq_iff)
  have none: "users k (nextObject c) c = 0"
    using ok new unfolding users_def bindingsOk_def length_0_conv filter_empty_conv by blast
  have fields: "bindings (newBinding k l c) = bindings c @ [(k, nextObject c)]"
    "bindingObjects (newBinding k l c) = bindingObjects c @ [(nextObject c, \<lparr>bindingLease = l, activeConsumers = 0\<rparr>)]"
    "consumers (newBinding k l c) = consumers c" "nextConsumer (newBinding k l c) = nextConsumer c"
    "nextObject (newBinding k l c) = Suc (nextObject c)"
    by (simp_all add: newBinding_def)
  have "nextObject c \<notin> snd ` set (bindings c)" using new by force
  then show ?thesis
    using ok k none new new' unfolding bindingsOk_def fields users_fields by (auto simp: less_Suc_eq)
qed

lemma newBinding_leases:
  "leasesOk key H c \<Longrightarrow> key l \<notin> H \<Longrightarrow> leasesOk key (insert (key l) H) (newBinding k l c)"
  by (auto simp: leasesOk_def liveLeases_def objectKeys_def newBinding_def)

section \<open>Releases\<close>

lemma dropUse_fields [simp]:
  "bindingLease (dropUse b) = bindingLease b" "activeConsumers (dropUse b) = activeConsumers b - 1"
  by (simp_all add: dropUse_def)

lemma dropConsumer_fields [simp]:
  "bindings (dropConsumer n c) = bindings c" "bindingObjects (dropConsumer n c) = bindingObjects c"
  "nextObject (dropConsumer n c) = nextObject c" "nextConsumer (dropConsumer n c) = nextConsumer c"
  by (simp_all add: dropConsumer_def)

lemma dropDirect:
  assumes ok: "bindingsOk c" and used: "bindingsUsed c" and x: "(n, Direct l) \<in> set (consumers c)"
  shows "bindingsOk (dropConsumer n c)" "bindingsUsed (dropConsumer n c)"
proof -
  have d: "distinct (map fst (consumers c))" using ok by (simp add: bindingsOk_def)
  have same: "users k i (dropConsumer n c) = users k i c" for k i using users_drop [OF d x, of k i] by simp
  have "distinct (map fst (consumers (dropConsumer n c)))" using d by (simp add: dropConsumer_def distinct_map_filter)
  moreover have "m < nextConsumer c" "x = Bound k i \<Longrightarrow> (k, i) \<in> set (bindings c)"
    if "(m, x) \<in> set (consumers (dropConsumer n c))" for m x k i
    using ok that by (auto simp: bindingsOk_def dropConsumer_def)
  ultimately show "bindingsOk (dropConsumer n c)"
    using ok unfolding bindingsOk_def dropConsumer_fields same by blast
  show "bindingsUsed (dropConsumer n c)" using used by (simp add: bindingsUsed_def same)
qed

lemma dropDirect_leases:
  assumes ok: "bindingsOk c" and x: "(n, Direct l) \<in> set (consumers c)" and leases: "leasesOk key H c"
  shows "leasesOk key (H - {key l}) (dropConsumer n c)"
proof -
  have d: "distinct (map fst (consumers c))" using ok by (simp add: bindingsOk_def)
  have l: "distinct (directKeys key (consumers c))" "distinct (objectKeys key c)"
    "set (directKeys key (consumers c)) \<inter> set (objectKeys key c) = {}" "set (liveLeases key c) \<subseteq> H"
    using leases by (simp_all add: leasesOk_def liveLeases_def)
  have live: "liveLeases key (dropConsumer n c) = directKeys key (filter (\<lambda>(m, x). m \<noteq> n) (consumers c)) @ objectKeys key c"
    by (simp add: liveLeases_def objectKeys_def) (simp add: dropConsumer_def)
  have "key l \<notin> set (objectKeys key c)" using directKeys_mem [OF x, of key] l(3) by blast
  then show ?thesis
    using directKeys_drop [OF d x l(1)] l(2-4) unfolding leasesOk_def live by (auto simp: liveLeases_def)
qed

lemma dropBound:
  assumes ok: "bindingsOk c" and x: "(n, Bound k i) \<in> set (consumers c)"
    and c1: "c1 = updateBinding i dropUse (dropConsumer n c)"
  shows "bindingsOk c1" "(k, i) \<in> set (bindings c1)" "users k i c = Suc (users k i c1)"
    "\<And>k' j. (k', j) \<noteq> (k, i) \<Longrightarrow> users k' j c1 = users k' j c" "bindings c1 = bindings c"
proof -
  have d: "distinct (map fst (consumers c))" using ok by (simp add: bindingsOk_def)
  have ki: "(k, i) \<in> set (bindings c)" using ok x by (auto simp: bindingsOk_def)
  note drop = users_drop [OF d x]
  show "users k i c = Suc (users k i c1)" using drop [of k i] by (simp add: c1)
  show other: "users k' j c1 = users k' j c" if "(k', j) \<noteq> (k, i)" for k' j using drop [of k' j] that by (auto simp: c1)
  have fields: "bindings c1 = bindings c" "nextObject c1 = nextObject c" "nextConsumer c1 = nextConsumer c"
    "consumers c1 = filter (\<lambda>(m, x). m \<noteq> n) (consumers c)"
    by (simp_all add: c1 updateBinding_def) (simp add: dropConsumer_def)
  show "bindings c1 = bindings c" "(k, i) \<in> set (bindings c1)" by (simp_all add: fields ki)
  have count: "activeConsumers b = users k' j c1" if kj: "(k', j) \<in> set (bindings c)" and b: "(j, b) \<in> set (bindingObjects c1)" for k' j b
  proof -
    obtain b' where b': "(j, b') \<in> set (bindingObjects c)" "b = (if j = i then dropUse b' else b')"
      using b unfolding c1 updateBinding_mem by auto
    have a: "activeConsumers b' = users k' j c" using ok kj b'(1) by (auto simp: bindingsOk_def)
    show ?thesis
    proof (cases "j = i")
      case True
      then have "k' = k" using binding_key_unique [OF ok ki] kj by simp
      then show ?thesis using True a b'(2) drop [of k i] by (simp add: c1)
    next
      case False
      then show ?thesis using a b'(2) other [of k' j] by simp
    qed
  qed
  have ids: "map fst (bindingObjects c1) = map snd (bindings c)"
    using ok by (simp add: c1 updateBinding_ids bindingsOk_def)
  have "distinct (map fst (consumers c1))" using d by (simp add: fields distinct_map_filter)
  moreover have "m < nextConsumer c" "x = Bound k i \<Longrightarrow> (k, i) \<in> set (bindings c)"
    if "(m, x) \<in> set (consumers c1)" for m x k i
    using ok that by (auto simp: bindingsOk_def fields)
  ultimately show "bindingsOk c1"
    using ok count unfolding bindingsOk_def fields(1-3) ids by blast
qed

lemma dropBound_leases:
  assumes ok: "bindingsOk c" and x: "(n, Bound k i) \<in> set (consumers c)"
  shows "liveLeases key (updateBinding i dropUse (dropConsumer n c)) = liveLeases key c"
proof -
  have "distinct (map fst (consumers c))" using ok by (simp add: bindingsOk_def)
  then have "liveLeases key (dropConsumer n c) = liveLeases key c"
    using directKeys_drop_bound [OF _ x] by (simp add: liveLeases_def objectKeys_def) (simp add: dropConsumer_def)
  then show ?thesis by (simp add: updateBinding_keys)
qed

lemma binding_object:
  assumes "bindingsOk c" "(k, i) \<in> set (bindings c)"
  obtains b where "(i, b) \<in> set (bindingObjects c)" "map_of (bindingObjects c) i = Some b"
proof -
  have "i \<in> fst ` set (bindingObjects c)" using assms by (metis bindingsOk_def image_eqI set_map snd_conv)
  then obtain b where b: "(i, b) \<in> set (bindingObjects c)" by force
  have "distinct (map fst (bindingObjects c))" using assms by (metis bindingsOk_def)
  then show ?thesis using that b by simp
qed

lemma endBinding_key: "k \<notin> fst ` set (bindings (endBinding k i c))"
  by (auto simp: endBinding_def)

lemma endBinding_ok:
  assumes ok: "bindingsOk c" and ki: "(k, i) \<in> set (bindings c)" and unused: "users k i c = 0"
    and used: "\<And>k' j. (k', j) \<in> set (bindings c) \<Longrightarrow> (k', j) \<noteq> (k, i) \<Longrightarrow> 0 < users k' j c"
  shows "bindingsOk (endBinding k i c)" "bindingsUsed (endBinding k i c)"
proof -
  have same: "k' = k \<longleftrightarrow> j = i" if "(k', j) \<in> set (bindings c)" for k' j
    using binding_key_unique [OF ok ki] binding_object_unique [OF ok ki] that by blast
  have "filter (\<lambda>(k', j). k' \<noteq> k) (bindings c) = filter (\<lambda>x. snd x \<noteq> i) (bindings c)"
  proof (rule filter_cong [OF refl])
    fix x assume "x \<in> set (bindings c)"
    then show "(case x of (k', j) \<Rightarrow> k' \<noteq> k) = (snd x \<noteq> i)" using same [of "fst x" "snd x"] by (simp add: case_prod_unfold)
  qed
  then have "map snd (filter (\<lambda>(k', j). k' \<noteq> k) (bindings c)) = filter (\<lambda>j. j \<noteq> i) (map snd (bindings c))"
    by (simp add: filter_map comp_def)
  moreover have "map fst (filter (\<lambda>(j, b). j \<noteq> i) (bindingObjects c)) = filter (\<lambda>j. j \<noteq> i) (map fst (bindingObjects c))"
    unfolding filter_map comp_def by (auto intro!: arg_cong [of _ _ "map fst"] filter_cong)
  ultimately have ids: "map snd (bindings (endBinding k i c)) = map fst (bindingObjects (endBinding k i c))"
    using ok by (simp add: endBinding_def bindingsOk_def)
  have "\<And>n. (n, Bound k i) \<notin> set (consumers c)" using unused by (auto simp: users_def filter_empty_conv)
  then have bound: "k' \<noteq> k" if "(n, Bound k' j) \<in> set (consumers c)" for n k' j
    using ok that same [of k' j] by (auto simp: bindingsOk_def)
  have "distinct (map fst (bindings (endBinding k i c)))" "distinct (map snd (bindings (endBinding k i c)))"
  proof -
    have "distinct (map fst (bindings c))" "distinct (map snd (bindings c))" using ok unfolding bindingsOk_def by blast+
    then show "distinct (map fst (bindings (endBinding k i c)))" "distinct (map snd (bindings (endBinding k i c)))"
      by (simp_all add: endBinding_def distinct_map_filter)
  qed
  then show "bindingsOk (endBinding k i c)"
    using ok ids bound unfolding bindingsOk_def users_fields by (auto simp: endBinding_def)
  show "bindingsUsed (endBinding k i c)"
    using used unfolding bindingsUsed_def users_fields by (auto simp: endBinding_def)
qed

lemma endBinding_leases:
  assumes ok: "bindingsOk c" and b: "(i, b) \<in> set (bindingObjects c)" and leases: "leasesOk key H c"
  shows "leasesOk key (H - {key (bindingLease b)}) (endBinding k i c)"
proof -
  have d: "distinct (map fst (bindingObjects c))" using ok by (metis bindingsOk_def)
  have live: "liveLeases key (endBinding k i c) =
      directKeys key (consumers c) @ map (\<lambda>(j, b). key (bindingLease b)) (filter (\<lambda>(j, b). j \<noteq> i) (bindingObjects c))"
    by (simp add: liveLeases_def objectKeys_def endBinding_def)
  have l: "distinct (map (\<lambda>(j, b). key (bindingLease b)) (bindingObjects c))" using leases by (simp add: leasesOk_def liveLeases_def objectKeys_def)
  have "key (bindingLease b') \<noteq> key (bindingLease b)" if "(j, b') \<in> set (bindingObjects c)" "j \<noteq> i" for j b'
    using l b that by (force simp: distinct_map inj_on_def)
  moreover have "key (bindingLease b) \<notin> set (directKeys key (consumers c))"
    using leases b by (force simp: leasesOk_def liveLeases_def objectKeys_def)
  ultimately show ?thesis
    using leases unfolding leasesOk_def live
    by (auto simp: liveLeases_def objectKeys_def distinct_map_filter)
qed

section \<open>Sources of leases\<close>

text \<open>
  What the coordinator needs of a source: a new lease has a number that is not in use and holds it,
  a failed acquisition holds nothing new, and releasing gives up that number only.
\<close>

locale lease_source =
  fixes acq :: "'s \<Rightarrow> (configuration_error + 'l) \<times> 's"
    and rel :: "'l \<Rightarrow> 's \<Rightarrow> 's"
    and key :: "'l \<Rightarrow> nat"
    and held :: "'s \<Rightarrow> nat set"
    and invar :: "'s \<Rightarrow> bool"
  assumes acq_fresh: "invar s \<Longrightarrow> acq s = (Inr l, s') \<Longrightarrow> invar s' \<and> key l \<notin> held s \<and> held s' = insert (key l) (held s)"
    and acq_failed: "invar s \<Longrightarrow> acq s = (Inl e, s') \<Longrightarrow> invar s' \<and> held s' = held s"
    and rel_held: "invar s \<Longrightarrow> invar (rel l s) \<and> held (rel l s) = held s - {key l}"
begin

lemma acquire_keeps:
  assumes inv: "coordinatorInv key (held s) c" and s: "invar s" and run: "coordinatorAcquire acq ctx (c, s) = (res, c', s')"
  shows "coordinatorInv key (held s') c' \<and> invar s' \<and> held s \<subseteq> held s'"
proof (cases ctx)
  case None
  show ?thesis
  proof (cases "acq s")
    case (Pair x t)
    show ?thesis
    proof (cases x)
      case (Inl e)
      then show ?thesis using None Pair run inv acq_failed [OF s, of e t] by (simp add: coordinatorAcquire_def)
    next
      case (Inr l)
      have "c' = addConsumer (Direct l) c" "s' = t" using None Pair Inr run by (simp_all add: coordinatorAcquire_def)
      then show ?thesis
        using acq_fresh [OF s, of l t] Pair Inr inv addDirect_ok [of c l] addDirect_leases [of key "held s" c l]
        by (auto simp: coordinatorInv_def)
    qed
  qed
next
  case (Some x)
  show ?thesis
  proof (cases "signalAborted x \<or> isl (createBindingKey (scopeId x) (bindingId x))")
    case True
    then have "c' = c \<and> s' = s"
      using Some run by (auto simp: coordinatorAcquire_def isl_def split: if_splits)
    then show ?thesis using inv s by simp
  next
    case False
    then obtain k where k: "createBindingKey (scopeId x) (bindingId x) = Inr k" "\<not> signalAborted x"
      by (cases "createBindingKey (scopeId x) (bindingId x)") auto
    show ?thesis
    proof (cases "map_of (bindings c) k")
      case (Some i)
      then have ki: "(k, i) \<in> set (bindings c)" by (rule map_of_SomeD)
      have "c' = useBinding k i c" "s' = s" using Some k \<open>ctx = Some x\<close> run by (simp_all add: coordinatorAcquire_def)
      then show ?thesis
        using inv s useBinding_ok [OF _ ki] useBinding_used [of c k i] useBinding_leases [of key "held s" c k i]
        by (auto simp: coordinatorInv_def bindingsUsed_def)
    next
      case None
      obtain y t where a: "acq s = (y, t)" by fastforce
      show ?thesis
      proof (cases y)
        case (Inl e)
        then have "c' = c" "s' = t" using None k \<open>ctx = Some x\<close> a run by (simp_all add: coordinatorAcquire_def)
        then show ?thesis using inv acq_failed [OF s, of e t] a Inl by simp
      next
        case (Inr l)
        let ?c = "newBinding k l c"
        have c': "c' = useBinding k (nextObject c) ?c" "s' = t"
          using None k \<open>ctx = Some x\<close> a Inr run by (simp_all add: coordinatorAcquire_def)
        have ok: "bindingsOk ?c"
          by (rule newBinding_ok) (use inv None in \<open>simp_all add: coordinatorInv_def map_of_eq_None_iff\<close>)
        have mem: "(k, nextObject c) \<in> set (bindings ?c)" by (simp add: newBinding_def)
        have "bindingsUsed c'"
          unfolding c' by (rule useBinding_used) (use inv in \<open>auto simp: newBinding_def users_def coordinatorInv_def bindingsUsed_def\<close>)
        then show ?thesis
          using useBinding_ok [OF ok mem] useBinding_leases newBinding_leases [of key "held s" c l k] acq_fresh [OF s, of l t] a Inr inv
          by (auto simp: coordinatorInv_def c')
      qed
    qed
  qed
qed

lemma release_keeps:
  assumes inv: "coordinatorInv key (held s) c" and s: "invar s" and run: "coordinatorRelease rel n (c, s) = (c', s')"
  shows "coordinatorInv key (held s') c' \<and> invar s'"
proof (cases "map_of (consumers c) n")
  case None
  then show ?thesis using inv s run by (simp add: coordinatorRelease_def)
next
  case (Some x)
  have ok: "bindingsOk c" and used: "bindingsUsed c" and leases: "leasesOk key (held s) c"
    using inv by (simp_all add: coordinatorInv_def)
  have mem: "(n, x) \<in> set (consumers c)" using Some by (rule map_of_SomeD)
  show ?thesis
  proof (cases x)
    case (Direct l)
    then have "c' = dropConsumer n c" "s' = rel l s" using Some run by (simp_all add: coordinatorRelease_def)
    then show ?thesis
      using mem Direct rel_held [OF s, of l] dropDirect [OF ok used] dropDirect_leases [OF ok _ leases]
      by (auto simp: coordinatorInv_def)
  next
    case (Bound k i)
    let ?c = "updateBinding i dropUse (dropConsumer n c)"
    have x: "(n, Bound k i) \<in> set (consumers c)" using mem Bound by simp
    note drop = dropBound [OF ok x refl]
    obtain b where b: "(i, b) \<in> set (bindingObjects ?c)" "map_of (bindingObjects ?c) i = Some b"
      using binding_object [OF drop(1,2)] .
    have count: "activeConsumers b = users k i ?c" by (rule bindingsOk_count [OF drop(1,2) b(1)])
    have others: "0 < users k' j ?c" if "(k', j) \<in> set (bindings ?c)" "(k', j) \<noteq> (k, i)" for k' j
      using used drop(4) [OF that(2)] that(1) drop(5) by (simp add: bindingsUsed_def)
    have l: "leasesOk key (held s) ?c" using leases by (simp add: leasesOk_def dropBound_leases [OF ok x])
    show ?thesis
    proof (cases "0 < activeConsumers b")
      case True
      then have "bindingsUsed ?c" using others count unfolding bindingsUsed_def by (metis prod.inject)
      then show ?thesis using True run Some Bound b drop(1) l s by (simp add: coordinatorRelease_def Let_def coordinatorInv_def)
    next
      case False
      then have "c' = endBinding k i ?c" "s' = rel (bindingLease b) s"
        using run Some Bound b by (simp_all add: coordinatorRelease_def Let_def)
      then show ?thesis
        using endBinding_ok [OF drop(1,2) _ others] False count endBinding_leases [OF drop(1) b(1) l] rel_held [OF s, of "bindingLease b"]
        by (auto simp: coordinatorInv_def)
    qed
  qed
qed

lemma last_release:
  assumes inv: "coordinatorInv key (held s) c" and s: "invar s" and run: "coordinatorRelease rel n (c, s) = (c', s')"
    and x: "(n, Bound k i) \<in> set (consumers c)" and b: "(i, b) \<in> set (bindingObjects c)"
  shows "if users k i c = 1 then k \<notin> fst ` set (bindings c') \<and> held s' = held s - {key (bindingLease b)}
    else (k, i) \<in> set (bindings c') \<and> s' = s"
proof -
  let ?c = "updateBinding i dropUse (dropConsumer n c)"
  have ok: "bindingsOk c" using inv by (simp add: coordinatorInv_def)
  note drop = dropBound [OF ok x refl]
  have "distinct (map fst (consumers c))" using ok by (simp add: bindingsOk_def)
  then have Some: "map_of (consumers c) n = Some (Bound k i)" using x by simp
  have b1: "(i, dropUse b) \<in> set (bindingObjects ?c)"
    unfolding updateBinding_mem using b by auto
  have m: "map_of (bindingObjects ?c) i = Some (dropUse b)"
    by (rule map_of_is_SomeI [OF bindingsOk_objects [OF drop(1)] b1])
  have count: "activeConsumers b - 1 = users k i ?c" using bindingsOk_count [OF drop(1,2) b1] by simp
  show ?thesis
  proof (cases "users k i ?c = 0")
    case True
    then have "c' = endBinding k i ?c" "s' = rel (bindingLease b) s"
      using run Some m count by (simp_all add: coordinatorRelease_def Let_def)
    moreover have "held (rel (bindingLease b) s) = held s - {key (bindingLease b)}" using rel_held [OF s] by blast
    ultimately show ?thesis using True drop(3) endBinding_key by simp
  next
    case False
    then have "Suc 0 < activeConsumers b" using count by simp
    then have "c' = ?c" "s' = s" using run Some m by (simp_all add: coordinatorRelease_def Let_def)
    then show ?thesis using False drop(2,3) by simp
  qed
qed

end

section \<open>The center as a source\<close>

lemma acquire_lease_fresh:
  assumes "registryInv {} r" shows "nextLease r \<notin> set (map fst (leases r))"
  using assms by (fastforce simp: registryInv_def)

lemma capture_leases:
  assumes "capture layers r = (Inr (n, s), r')"
  shows "n = nextLease r \<and> leases r' = leases r @ [(n, activeGenerations r)]"
proof (rule captured [OF assms])
  fix ls assume n: "n = nextLease r" and r': "r' = holdLease (activeGenerations r) (fold acquireGeneration (activeGenerations r) r)"
  show ?thesis unfolding n r' by (simp add: holdLease_def acquireAll_generations)
qed

interpretation center: lease_source centerAcquire centerRelease fst heldLeases centerOk
proof
  fix s :: config_center and l :: snapshot_lease and s'
  assume ok: "centerOk s" and run: "centerAcquire s = (Inr l, s')"
  have inv: "registryInv {} (centerDefinitions s)" "layersInv (centerLayers s)" using ok by (simp_all add: centerOk_def)
  obtain x ls where read: "readLayers (centerLayers s) = (Inr x, ls)" by (rule readLayers_inv [OF inv(2)]) blast
  then have ls: "layersInv ls" using readLayers_keeps [OF inv(2)] by simp
  obtain d where cap: "capture (layersList x) (centerDefinitions s) = (Inr l, d)"
    and s': "s' = s\<lparr>centerLayers := ls, centerDefinitions := d\<rparr>"
    using run by (cases "capture (layersList x) (centerDefinitions s)") (simp add: centerAcquire_def read)
  obtain n y where l: "l = (n, y)" by fastforce
  have d: "registryInv {} d" using capture_inv [OF inv(1), of "layersList x"] cap by simp
  have n: "n = nextLease (centerDefinitions s)" and "leases d = leases (centerDefinitions s) @ [(n, activeGenerations (centerDefinitions s))]"
    using capture_leases [OF cap [unfolded l]] by blast+
  then show "centerOk s' \<and> fst l \<notin> heldLeases s \<and> heldLeases s' = insert (fst l) (heldLeases s)"
    using acquire_lease_fresh [OF inv(1)] d ls by (simp add: s' l centerOk_def heldLeases_def)
next
  fix s :: config_center and e s'
  assume ok: "centerOk s" and run: "centerAcquire s = (Inl e, s')"
  have inv: "registryInv {} (centerDefinitions s)" "layersInv (centerLayers s)" using ok by (simp_all add: centerOk_def)
  obtain x ls where read: "readLayers (centerLayers s) = (Inr x, ls)" by (rule readLayers_inv [OF inv(2)]) blast
  then have ls: "layersInv ls" using readLayers_keeps [OF inv(2)] by simp
  obtain d where cap: "capture (layersList x) (centerDefinitions s) = (Inl e, d)"
    and s': "s' = s\<lparr>centerLayers := ls, centerDefinitions := d\<rparr>"
    using run by (cases "capture (layersList x) (centerDefinitions s)") (simp add: centerAcquire_def read)
  have "registryInv {} d" using capture_inv [OF inv(1), of "layersList x"] cap by simp
  moreover have "leases d = leases (centerDefinitions s)" using capture_failed [OF inv(1) cap] by auto
  ultimately show "centerOk s' \<and> heldLeases s' = heldLeases s" using ls by (simp add: s' centerOk_def heldLeases_def)
next
  fix s :: config_center and l :: snapshot_lease
  assume ok: "centerOk s"
  have "set (map fst (leases (releaseLease n r))) = set (map fst (leases r)) - {n}" if "registryInv {} r" for n r
  proof (cases "map_of (leases r) n")
    case None
    then have "n \<notin> set (map fst (leases r))" by (simp add: map_of_eq_None_iff)
    then show ?thesis using None by (simp add: releaseLease_def)
  next
    case (Some gs)
    then have "distinct gs" using \<open>registryInv {} r\<close> map_of_SomeD [OF Some] by (auto simp: registryInv_def)
    then show ?thesis using Some by (auto simp: releaseLease_def releaseAll_generations)
  qed
  then show "centerOk (centerRelease l s) \<and> heldLeases (centerRelease l s) = heldLeases s - {fst l}"
    using ok releaseLease_inv by (simp add: centerOk_def centerRelease_def heldLeases_def)
qed

section \<open>The system\<close>

text \<open>
  Consumers of the coordinator, other holders of leases, and the publishers of definitions and
  layers act in any order. A lease can be released only by its holder, so nobody else releases the
  leases of the coordinator.
\<close>

datatype center_event =
    ConsumerAcquire "acquire_context option"
  | ConsumerRelease nat
  | DefinitionsEvent registry_event
  | LayersEvent layer_event
  | CenterCapture
  | CenterClose

fun releasesOf :: "registry_event \<Rightarrow> nat option" where
  "releasesOf (EvRelease n) = Some n"
| "releasesOf ev = None"

definition centerEvent ::
    "center_event \<Rightarrow> snapshot_lease snapshot_coordinator \<times> config_center \<Rightarrow> snapshot_lease snapshot_coordinator \<times> config_center" where
  "centerEvent ev cs =
     (case ev of
        ConsumerAcquire ctx \<Rightarrow> snd (coordinatorAcquire centerAcquire ctx cs)
      | ConsumerRelease n \<Rightarrow> coordinatorRelease centerRelease n cs
      | DefinitionsEvent e \<Rightarrow>
          if set_option (releasesOf e) \<inter> set (liveLeases fst (fst cs)) = {}
          then (fst cs, (snd cs)\<lparr>centerDefinitions := registryEvent e (centerDefinitions (snd cs))\<rparr>) else cs
      | LayersEvent e \<Rightarrow> (fst cs, (snd cs)\<lparr>centerLayers := layerEvent e (centerLayers (snd cs))\<rparr>)
      | CenterCapture \<Rightarrow> (fst cs, snd (centerAcquire (snd cs)))
      | CenterClose \<Rightarrow> (fst cs, closeCenter (snd cs)))"

inductive centerReachable :: "snapshot_lease snapshot_coordinator \<times> config_center \<Rightarrow> bool" where
  center_new: "centerReachable (newSnapshotCoordinator, newCenter)"
| center_step: "centerReachable cs \<Longrightarrow> centerReachable (centerEvent ev cs)"

section \<open>The invariant of the system\<close>

lemma leases_kept [simp]:
  "leases (retireGeneration p r) = leases r" "leases (bumpVersion r) = leases r" "leases (installGeneration s g r) = leases r"
  "leases (acquireGeneration p r) = leases r" "leases (disposeIfRetired p r) = leases r"
  by (simp_all add: retireGeneration_def disposeIfRetired_def bumpVersion_def installGeneration_def acquireGeneration_def)

lemma leases_retireAll [simp]: "leases (fold retireGeneration ps r) = leases r"
  by (induction ps arbitrary: r) simp_all

lemma upsert_leases: "leases (snd (upsertDefinition ids now src d r)) = leases r"
proof -
  obtain res r' where u: "upsertDefinition ids now src d r = (res, r')" by fastforce
  then have "leases r' = leases r"
  proof (cases rule: upsertDefinition_cases)
    case (failed e)
    then show ?thesis using countersOnly_fields by blast
  next
    case (published s d' g r1)
    then show ?thesis using countersOnly_fields [OF createGeneration_counters [OF published(5)]] by (simp split: option.split)
  qed
  then show ?thesis by (simp add: u)
qed

lemma replaceSource_leases: "leases (snd (replaceSource ids now src ds r)) = leases r"
proof -
  obtain res r' where u: "replaceSource ids now src ds r = (res, r')" by fastforce
  then have "leases r' = leases r"
  proof (cases rule: replaceSource_cases)
    case (failed e)
    then show ?thesis using countersOnly_fields by blast
  next
    case (published s cs gs removed r1 ps r2 qs r3)
    have "leases r3 = leases r1"
      unfolding installAll_entries [OF published(8)] dropEntries_entries [OF published(7)] by simp
    then show ?thesis using countersOnly_fields [OF createGenerations_counters [OF published(5)]] by (simp add: published(10))
  qed
  then show ?thesis by (simp add: u)
qed

lemma registryEvent_leases:
  assumes inv: "registryInv {} r"
  shows "set (map fst (leases r)) - set_option (releasesOf ev) \<subseteq> set (map fst (leases (registryEvent ev r)))"
proof (cases ev)
  case (EvRelease n)
  have "leases (releaseLease n r) = (if map_of (leases r) n = None then leases r else filter (\<lambda>(m, gs). m \<noteq> n) (leases r))"
  proof (cases "map_of (leases r) n")
    case (Some gs)
    then have "distinct gs" using inv map_of_SomeD [OF Some] by (auto simp: registryInv_def)
    then show ?thesis using Some by (simp add: releaseLease_def releaseAll_generations)
  qed (simp add: releaseLease_def)
  then show ?thesis using EvRelease by auto
next
  case (EvRetire k)
  have "leases (snd (retireDefinition k r)) = leases r"
    by (cases rule: retireDefinition_cases [of k r]) (simp_all split: option.split)
  then show ?thesis using EvRetire by simp
next
  case (EvRemove k)
  have "leases (snd (removeDefinition k r)) = leases r"
    by (cases rule: removeDefinition_cases [of k r]) (simp_all split: option.split)
  then show ?thesis using EvRemove by simp
next
  case (EvAcquire k)
  then show ?thesis by (auto simp: acquireLease_def holdLease_def split: option.split)
next
  case EvAcquireSnapshot
  then show ?thesis by (auto simp: acquireSnapshot_def Let_def holdLease_def acquireAll_generations)
next
  case (EvDisposeRuns k)
  then show ?thesis by (simp add: disposeRuns_def)
next
  case (EvDisposeSettles k b)
  then show ?thesis by (simp add: disposeSettles_def)
next
  case EvClose
  then show ?thesis by (simp add: closeRegistry_def)
next
  case (EvCloseResumes k)
  then show ?thesis by (simp add: closeResumes_def)
next
  case EvCloseEnds
  then show ?thesis by (simp add: closeEnds_def)
qed (simp_all add: upsert_leases replaceSource_leases)

definition systemInv :: "snapshot_lease snapshot_coordinator \<times> config_center \<Rightarrow> bool" where
  "systemInv cs = (coordinatorInv fst (heldLeases (snd cs)) (fst cs) \<and> centerOk (snd cs))"

lemma coordinatorInv_mono:
  "coordinatorInv key H c \<Longrightarrow> set (liveLeases key c) \<inter> (H - H') = {} \<Longrightarrow> coordinatorInv key H' c"
  by (auto simp: coordinatorInv_def leasesOk_def)

lemma centerEvent_inv:
  assumes inv: "systemInv cs"
  shows "systemInv (centerEvent ev cs)"
proof -
  obtain c s where cs: "cs = (c, s)" by fastforce
  have c: "coordinatorInv fst (heldLeases s) c" and s: "centerOk s" using inv by (simp_all add: systemInv_def cs)
  have d: "registryInv {} (centerDefinitions s)" and l: "layersInv (centerLayers s)" using s by (simp_all add: centerOk_def)
  show ?thesis
  proof (cases ev)
    case (ConsumerAcquire ctx)
    obtain res c' s' where run: "coordinatorAcquire centerAcquire ctx (c, s) = (res, c', s')" by (metis prod_cases3)
    show ?thesis using center.acquire_keeps [OF c s run] by (simp add: ConsumerAcquire centerEvent_def cs run systemInv_def)
  next
    case (ConsumerRelease n)
    obtain c' s' where run: "coordinatorRelease centerRelease n (c, s) = (c', s')" by fastforce
    show ?thesis using center.release_keeps [OF c s run] by (simp add: ConsumerRelease centerEvent_def cs run systemInv_def)
  next
    case (DefinitionsEvent e)
    let ?s = "s\<lparr>centerDefinitions := registryEvent e (centerDefinitions s)\<rparr>"
    have "heldLeases s - set_option (releasesOf e) \<subseteq> heldLeases ?s"
      using registryEvent_leases [OF d, of e] by (simp add: heldLeases_def)
    moreover have "centerOk ?s" using registryEvent_inv [OF d] l by (simp add: centerOk_def)
    ultimately show ?thesis
      using c s coordinatorInv_mono [OF c, of "heldLeases ?s"] by (auto simp: DefinitionsEvent centerEvent_def cs systemInv_def)
  next
    case (LayersEvent e)
    then show ?thesis using c d layerEvent_inv [OF l] by (simp add: centerEvent_def cs systemInv_def centerOk_def heldLeases_def)
  next
    case CenterCapture
    obtain res s' where run: "centerAcquire s = (res, s')" by fastforce
    have "centerOk s' \<and> heldLeases s \<subseteq> heldLeases s'"
      using center.acq_fresh [OF s] center.acq_failed [OF s] run by (cases res) auto
    then show ?thesis using coordinatorInv_mono [OF c, of "heldLeases s'"] by (auto simp: CenterCapture centerEvent_def cs run systemInv_def)
  next
    case CenterClose
    have "heldLeases (closeCenter s) = heldLeases s" by (simp add: closeCenter_def heldLeases_def closeRegistry_def)
    then show ?thesis
      using c closeLayers_inv [OF l] closeRegistry_inv [OF d] by (simp add: CenterClose centerEvent_def cs systemInv_def centerOk_def closeCenter_def)
  qed
qed

lemma centerReachable_inv: "centerReachable cs \<Longrightarrow> systemInv cs"
proof (induction rule: centerReachable.induct)
  case center_new
  have "layersInv newLayerRegistry" by (rule layersReachable_inv [OF layers_new])
  then show ?case by (simp add: systemInv_def newSnapshotCoordinator_inv newCenter_def centerOk_def newRegistry_inv)
qed (rule centerEvent_inv)

lemma centerReachable_run: "centerReachable cs \<Longrightarrow> centerReachable (fold centerEvent evs cs)"
  by (induction evs arbitrary: cs) (simp_all add: center_step)

end
