(* ===== verification/ConfigurationCenterProperties.thy ===== *)
theory ConfigurationCenterProperties
  imports ConfigurationCoordinator
begin

text \<open>The properties of the configuration center and of the coordinator over it.\<close>

text \<open>
  C15. Consumers of a binding share one snapshot and can rely on it. While a consumer holds on,
  whatever else happens to the definitions, the layers, the other consumers and the center, all
  consumers under that key use the same lease, the registry holds it, and none of its revisions is
  disposed of.
\<close>

theorem bound_snapshot_kept:
  assumes reach: "centerReachable (c, s)" and x: "(n, Bound k i) \<in> set (consumers c)"
  shows "\<exists>b ps. map_of (bindingObjects c) i = Some b \<and>
    (fst (bindingLease b), ps) \<in> set (leases (centerDefinitions s)) \<and>
    (\<forall>p. p \<in> set ps \<longrightarrow>
       p \<notin> set (disposedIds (centerDefinitions s)) \<and>
       (\<exists>g. g \<in> set (generations (centerDefinitions s)) \<and> generationId g = p \<and> disposal g = NotDisposed)) \<and>
    (\<forall>m j. (m, Bound k j) \<in> set (consumers c) \<longrightarrow> j = i)"
proof -
  have inv: "coordinatorInv fst (heldLeases s) c" and d: "registryInv {} (centerDefinitions s)"
    using centerReachable_inv [OF reach] by (simp_all add: systemInv_def centerOk_def)
  have ok: "bindingsOk c" using inv by (simp add: coordinatorInv_def)
  have bound: "(k, j) \<in> set (bindings c)" if "(m, Bound k j) \<in> set (consumers c)" for m j
    using ok that unfolding bindingsOk_def by blast
  obtain b where b: "(i, b) \<in> set (bindingObjects c)" "map_of (bindingObjects c) i = Some b"
    using binding_object [OF ok bound [OF x]] .
  have "fst (bindingLease b) \<in> set (objectKeys fst c)" using b(1) by (force simp: objectKeys_def)
  then have "fst (bindingLease b) \<in> heldLeases s" using inv by (auto simp: coordinatorInv_def leasesOk_def liveLeases_def)
  then obtain ps where ps: "(fst (bindingLease b), ps) \<in> set (leases (centerDefinitions s))"
    by (auto simp: heldLeases_def)
  have "j = i" if "(m, Bound k j) \<in> set (consumers c)" for m j
    by (rule binding_object_unique [OF ok bound [OF x] bound [OF that]])
  moreover have "p \<notin> set (disposedIds (centerDefinitions s)) \<and>
      (\<exists>g. g \<in> set (generations (centerDefinitions s)) \<and> generationId g = p \<and> disposal g = NotDisposed)" if "p \<in> set ps" for p
    using leased_kept [OF d ps that] by blast
  ultimately show ?thesis using b(2) ps by blast
qed

text \<open>
  A lease does not outlive its consumers: when the last consumer of a binding releases, the
  binding is forgotten and the registry no longer holds its lease, nor loses any other; while
  others remain, releasing does not touch the registry.
\<close>

theorem last_consumer_releases:
  assumes reach: "centerReachable (c, s)" and x: "(n, Bound k i) \<in> set (consumers c)"
    and b: "map_of (bindingObjects c) i = Some b"
  shows "case coordinatorRelease centerRelease n (c, s) of (c', s') \<Rightarrow>
    if users k i c = 1
    then map_of (bindings c') k = None \<and> heldLeases s' = heldLeases s - {fst (bindingLease b)}
    else map_of (bindings c') k = Some i \<and> s' = s"
proof -
  have inv: "coordinatorInv fst (heldLeases s) c" and s: "centerOk s"
    using centerReachable_inv [OF reach] by (simp_all add: systemInv_def)
  obtain c' s' where run: "coordinatorRelease centerRelease n (c, s) = (c', s')" by fastforce
  have "bindingsOk c'" using center.release_keeps [OF inv s run] by (simp add: coordinatorInv_def)
  then have "distinct (map fst (bindings c'))" by (simp add: bindingsOk_def)
  then show ?thesis
    using center.last_release [OF inv s run x map_of_SomeD [OF b]] by (simp add: run map_of_eq_None_iff split: if_splits)
qed

text \<open>
  C1. While the center is open, acquiring a snapshot always succeeds: layers are checked when they
  are published, never when a turn needs them.
\<close>

theorem open_center_acquires:
  assumes reach: "centerReachable (c, s)" and o: "\<not> registryClosed (centerDefinitions s)"
  shows "\<exists>l s'. centerAcquire s = (Inr l, s')"
proof -
  have l: "layersInv (centerLayers s)" using centerReachable_inv [OF reach] by (simp add: systemInv_def centerOk_def)
  obtain ls where ls: "normalizeLayers (allLayers (layerSources (centerLayers s))) = Inr ls"
    and read: "fst (readLayers (centerLayers s)) =
      Inr (createLayersSnapshot (layerVersion (centerLayers s)) (layersClosed (centerLayers s)) (layerSources (centerLayers s)) ls)"
    by (rule readLayers_inv [OF l]) simp
  have "mset (allLayers (layerSources (centerLayers s))) = mset ls" using normalizeLayers_ok [OF ls] by simp
  then have "normalizeLayers ls = Inr ls" using ls by (rule normalizeLayers_perm)
  then show ?thesis
    using read o by (cases "readLayers (centerLayers s)")
      (simp add: centerAcquire_def createLayersSnapshot_def capture_def acquireSnapshot_def Let_def)
qed

section \<open>A system in use\<close>

definition exampleContext :: "acquire_context option" where
  "exampleContext = Some \<lparr>scopeId = Some ''s'', bindingId = ''turn'', signalAborted = False\<rparr>"

text \<open>A definition is published, two consumers bind the same turn, and the definition is withdrawn.\<close>

definition exampleSystem :: "snapshot_lease snapshot_coordinator \<times> config_center" where
  "exampleSystem =
     fold centerEvent
       [DefinitionsEvent (EvReplaceSource exampleIds 0 exampleSource [exampleDefinition ''a'']),
        ConsumerAcquire exampleContext, ConsumerAcquire exampleContext,
        DefinitionsEvent (EvReplaceSource exampleIds 1 exampleSource [])]
       (newSnapshotCoordinator, newCenter)"

lemma exampleSystem_reachable: "centerReachable (fst exampleSystem, snd exampleSystem)"
  unfolding prod.collapse exampleSystem_def by (rule centerReachable_run [OF center_new])

lemma exampleSystem_consumers:
  "consumers (fst exampleSystem) = [(0, Bound (''s'' @ CHR 0x00 # ''turn'') 0), (1, Bound (''s'' @ CHR 0x00 # ''turn'') 0)]"
  by code_simp

theorem bound_snapshot_kept_witness:
  "\<exists>b ps. map_of (bindingObjects (fst exampleSystem)) 0 = Some b \<and>
     (fst (bindingLease b), ps) \<in> set (leases (centerDefinitions (snd exampleSystem)))"
proof -
  have "(0, Bound (''s'' @ CHR 0x00 # ''turn'') 0) \<in> set (consumers (fst exampleSystem))" by (simp add: exampleSystem_consumers)
  from bound_snapshot_kept [OF exampleSystem_reachable this] show ?thesis by blast
qed

theorem last_consumer_releases_witness:
  "\<exists>c'. coordinatorRelease centerRelease 0 exampleSystem = (c', snd exampleSystem) \<and>
     map_of (bindings c') (''s'' @ CHR 0x00 # ''turn'') = Some 0"
proof -
  have x: "(0, Bound (''s'' @ CHR 0x00 # ''turn'') 0) \<in> set (consumers (fst exampleSystem))" by (simp add: exampleSystem_consumers)
  have "map_option activeConsumers (map_of (bindingObjects (fst exampleSystem)) 0) = Some 2" by code_simp
  then obtain b where b: "map_of (bindingObjects (fst exampleSystem)) 0 = Some b" by (cases "map_of (bindingObjects (fst exampleSystem)) 0") simp_all
  have "users (''s'' @ CHR 0x00 # ''turn'') 0 (fst exampleSystem) = 2" by (simp add: users_def exampleSystem_consumers)
  then show ?thesis
    using last_consumer_releases [OF exampleSystem_reachable x b]
    by (cases "coordinatorRelease centerRelease 0 (fst exampleSystem, snd exampleSystem)") simp
qed

theorem open_center_acquires_witness: "\<exists>l s'. centerAcquire (snd exampleSystem) = (Inr l, s')"
proof (rule open_center_acquires [OF exampleSystem_reachable])
  show "\<not> registryClosed (centerDefinitions (snd exampleSystem))" by code_simp
qed

end
