(* ===== verification/TurnContext.thy ===== *)
theory TurnContext
  imports Document
begin

text \<open>
  The model's view of a conversation as the turn pipeline builds it: the envelopes of
  \<open>packages/runtime-core/src/runtime-execution-observation.ts\<close>, their alignment with the
  messages a context strategy returns (\<open>kernel/runtime-message-context.ts\<close>), and the two list
  functions at the end of \<open>kernel/turn-pipeline.ts\<close>.

  An envelope keeps the product identity of a message beside what the model sees of it, which may
  be nothing. The theorems say that the alignment changes neither: the model sees exactly the
  messages of the strategy, and nothing the model does not see gets lost or reordered.
\<close>

section \<open>Envelopes\<close>

datatype envelope =
    MessageEnvelope json "string option" "string option" "string option"
  | ContextEnvelope context_record "string option" instant
  | OpaqueEnvelope json "string option" "json option" instant

definition toRuntimeMessageEnvelope :: "json \<Rightarrow> envelope" where
  "toRuntimeMessageEnvelope m = MessageEnvelope m None None None"

definition userMessage :: "json \<Rightarrow> instant \<Rightarrow> json" where
  "userMessage c t =
     JObj [(''role'', JStr ''user''), (''content'', c), (''timestamp'', JNum (Finite (of_int t)))]"

fun projectRuntimeMessageEnvelope :: "envelope \<Rightarrow> json option" where
  "projectRuntimeMessageEnvelope (MessageEnvelope m i k r) = Some m"
| "projectRuntimeMessageEnvelope (OpaqueEnvelope i k m t) = m"
| "projectRuntimeMessageEnvelope (ContextEnvelope c k t) =
     (if contextVisible c then Some (userMessage (contextContent c) t) else None)"

definition projectRuntimeModelMessages :: "envelope list \<Rightarrow> json list" where
  "projectRuntimeModelMessages es = List.map_filter projectRuntimeMessageEnvelope es"

definition isHidden :: "envelope \<Rightarrow> bool" where
  "isHidden e = (projectRuntimeMessageEnvelope e = None)"

section \<open>Aligning envelopes with messages\<close>

text \<open>A text and the list with one text block are the same content.\<close>

fun normalizeTextContent :: "json \<Rightarrow> json" where
  "normalizeTextContent (JObj kvs) =
     (case map_of kvs ''content'' of
        Some (JStr s) \<Rightarrow>
          JObj (setKey ''content'' (JArr [JObj [(''type'', JStr ''text''), (''text'', JStr s)]]) kvs)
      | _ \<Rightarrow> JObj kvs)"
| "normalizeTextContent m = m"

definition messagesEqual :: "json \<Rightarrow> json \<Rightarrow> bool" where
  "messagesEqual l r =
     (l = r \<or> sameJson (Some (normalizeTextContent l)) (Some (normalizeTextContent r)))"

definition matches :: "json \<Rightarrow> envelope \<Rightarrow> bool" where
  "matches m e =
     (case projectRuntimeMessageEnvelope e of None \<Rightarrow> False | Some p \<Rightarrow> messagesEqual p m)"

text \<open>The list of candidates starts at \<open>candidateIndex\<close>.\<close>

fun reconcileRuntimeMessageEnvelopes :: "json list \<Rightarrow> envelope list \<Rightarrow> envelope list" where
  "reconcileRuntimeMessageEnvelopes [] cs = filter isHidden cs"
| "reconcileRuntimeMessageEnvelopes (m # ms) cs =
     (case findIndex (matches m) cs of
        None \<Rightarrow> toRuntimeMessageEnvelope m # reconcileRuntimeMessageEnvelopes ms cs
      | Some i \<Rightarrow>
          filter isHidden (take i cs) @ [cs ! i] @ reconcileRuntimeMessageEnvelopes ms (drop (i + 1) cs))"

text \<open>\<open>modelHistory\<close> of a retried turn: the history without its last failed assistant message.\<close>

definition isFailedAssistant :: "envelope \<Rightarrow> bool" where
  "isFailedAssistant e =
     (case projectRuntimeMessageEnvelope e of
        None \<Rightarrow> False
      | Some m \<Rightarrow> isLiteral (field m ''role'') ''assistant'' \<and> isLiteral (field m ''stopReason'') ''error'')"

definition omitLastFailedAssistant :: "envelope list \<Rightarrow> envelope list" where
  "omitLastFailedAssistant es =
     (case findLastIndex isFailedAssistant es of
        None \<Rightarrow> es
      | Some i \<Rightarrow> take i es @ drop (i + 1) es)"

section \<open>What the alignment keeps\<close>

text \<open>The message as \<open>messagesEqual\<close> compares it.\<close>

definition canonicalMessage :: "json \<Rightarrow> json" where
  "canonicalMessage m = stringified (normalizeTextContent m)"

lemma messagesEqual_canonical: "messagesEqual l r \<longleftrightarrow> canonicalMessage l = canonicalMessage r"
  by (auto simp: messagesEqual_def canonicalMessage_def sameJson_def)

lemma matches_projection:
  "matches m e \<longleftrightarrow>
     (\<exists>p. projectRuntimeMessageEnvelope e = Some p \<and> canonicalMessage p = canonicalMessage m)"
  by (auto simp: matches_def messagesEqual_canonical split: option.splits)

lemma projectRuntimeModelMessages_simps [simp]:
  "projectRuntimeModelMessages [] = []"
  "projectRuntimeModelMessages (e # es) =
     (case projectRuntimeMessageEnvelope e of
        None \<Rightarrow> projectRuntimeModelMessages es | Some m \<Rightarrow> m # projectRuntimeModelMessages es)"
  "projectRuntimeModelMessages (es @ fs) = projectRuntimeModelMessages es @ projectRuntimeModelMessages fs"
  by (auto simp: projectRuntimeModelMessages_def List.map_filter_def split: option.splits)

lemma projectRuntimeModelMessages_hidden [simp]: "projectRuntimeModelMessages (filter isHidden es) = []"
  by (induction es) (auto simp: isHidden_def)

lemma split_at:
  assumes "findIndex P xs = Some i"
  shows "xs = take i xs @ xs ! i # drop (i + 1) xs" "P (xs ! i)" "i < length xs"
  using findIndex_Some [of P xs i] assms by (auto simp: id_take_nth_drop)

lemma reconcile_projects:
  "map canonicalMessage (projectRuntimeModelMessages (reconcileRuntimeMessageEnvelopes ms cs)) =
     map canonicalMessage ms"
proof (induction ms cs rule: reconcileRuntimeMessageEnvelopes.induct)
  case (2 m ms cs)
  show ?case
  proof (cases "findIndex (matches m) cs")
    case None
    with 2 show ?thesis by (simp add: toRuntimeMessageEnvelope_def)
  next
    case (Some i)
    with split_at [OF Some] obtain p where "projectRuntimeMessageEnvelope (cs ! i) = Some p"
      "canonicalMessage p = canonicalMessage m"
      unfolding matches_projection by blast
    with 2 Some show ?thesis by simp
  qed
qed simp

lemma reconcile_hidden:
  "filter isHidden (reconcileRuntimeMessageEnvelopes ms cs) = filter isHidden cs"
proof (induction ms cs rule: reconcileRuntimeMessageEnvelopes.induct)
  case (2 m ms cs)
  show ?case
  proof (cases "findIndex (matches m) cs")
    case None
    with 2 show ?thesis by (simp add: toRuntimeMessageEnvelope_def isHidden_def)
  next
    case (Some i)
    note at = split_at [OF Some]
    have "filter isHidden cs =
        filter isHidden (take i cs) @ filter isHidden [cs ! i] @ filter isHidden (drop (i + 1) cs)"
      by (subst at(1)) simp
    with 2(2) [OF Some] Some show ?thesis by simp
  qed
qed simp

text \<open>No identity is made up: what is not a bare message comes from the candidates.\<close>

lemma reconcile_candidates:
  "set (reconcileRuntimeMessageEnvelopes ms cs) \<subseteq> set cs \<union> toRuntimeMessageEnvelope ` set ms"
proof (induction ms cs rule: reconcileRuntimeMessageEnvelopes.induct)
  case (2 m ms cs)
  show ?case
  proof (cases "findIndex (matches m) cs")
    case None
    with 2 show ?thesis by auto
  next
    case (Some i)
    note at = split_at [OF Some]
    have "cs ! i \<in> set cs" "set (take i cs) \<subseteq> set cs" "set (drop (i + 1) cs) \<subseteq> set cs"
      using at(3) by (auto dest: in_set_takeD in_set_dropD)
    with 2(2) [OF Some] Some show ?thesis by auto
  qed
qed simp

lemma reconcile_identity:
  "reconcileRuntimeMessageEnvelopes (projectRuntimeModelMessages es) es = es"
proof (induction es)
  case (Cons e es)
  show ?case
  proof (cases "projectRuntimeMessageEnvelope e")
    case (Some m)
    then have "matches m e" unfolding matches_projection by simp
    with Some Cons show ?thesis by simp
  next
    case None
    then have h: "isHidden e" and nm: "\<And>m. \<not> matches m e" by (auto simp: isHidden_def matches_projection)
    have "reconcileRuntimeMessageEnvelopes ms (e # cs) = e # reconcileRuntimeMessageEnvelopes ms cs"
      if "ms = projectRuntimeModelMessages cs" for ms cs
      using that
    proof (cases ms)
      case Nil
      then show ?thesis using h by simp
    next
      case (Cons m' ms')
      then have "m' \<in> set (projectRuntimeModelMessages cs)" using that by simp
      then obtain c where "c \<in> set cs" "matches m' c"
        by (auto simp: projectRuntimeModelMessages_def List.map_filter_def matches_projection)
      then have "findIndex (matches m') cs \<noteq> None" by (auto simp: findIndex_None)
      then show ?thesis using Cons h nm by auto
    qed
    with None Cons show ?thesis by simp
  qed
qed simp

lemma omit_none: "findLastIndex isFailedAssistant es = None \<Longrightarrow> omitLastFailedAssistant es = es"
  by (simp add: omitLastFailedAssistant_def)

lemma omit_some:
  assumes "\<exists>e \<in> set es. isFailedAssistant e"
  shows "\<exists>xs e ys. es = xs @ e # ys \<and> isFailedAssistant e \<and> (\<forall>y \<in> set ys. \<not> isFailedAssistant y) \<and>
    omitLastFailedAssistant es = xs @ ys"
proof -
  from assms obtain i where i: "findLastIndex isFailedAssistant es = Some i"
    using findLastIndex_None [of isFailedAssistant es] by blast
  note last = findLastIndex_Some [OF i]
  then have "es = take i es @ es ! i # drop (i + 1) es" by (simp add: id_take_nth_drop)
  with i last show ?thesis unfolding omitLastFailedAssistant_def by auto
qed

end
