(* ===== verification/PipelineState.thy ===== *)
theory PipelineState
  imports TurnContext ConversationRepository
begin

text \<open>
  The state of one call of the turn pipeline, \<open>packages/runtime-core/src/kernel/turn-pipeline.ts\<close>,
  what it calls, and its small operations: publishing, observers, appends, the buffer of runtime
  context (\<open>kernel/session-context-buffer.ts\<close>) and the commit of a compaction
  (\<open>kernel/context-compaction-committer.ts\<close>).

  What the pipeline calls is a record of functions. The conversation repository acts on a store of
  any type \<open>'r\<close>, which only it can touch; everything else (snapshots, strategies, the engine,
  observers, the event sink, the clock, the abort signals) acts on surroundings of any type
  \<open>'e\<close>, which change only at an \<open>await\<close>. Every call may fail with any error.
\<close>

section \<open>Errors\<close>

record kernel_failure =
  failureCode :: string
  failureMessage :: string
  failureRetryable :: bool
  failureOrigin :: string
  failureDetails :: jsval

text \<open>
  What can be thrown: a \<open>TurnExecutionError\<close> (its name is the code of its failure), a
  \<open>KernelError\<close> with code and message, a \<open>TurnPersistenceError\<close>, another \<open>Error\<close> with name and
  message, a string, or any other value with its \<open>String(...)\<close> text.
\<close>

datatype pipeline_error =
    ExecutionError kernel_failure
  | KernelError string string
  | PersistenceError string "(string \<times> kernel_failure) option"
  | NamedError string string
  | ThrownString string
  | ThrownOther string

fun isAbortError :: "pipeline_error \<Rightarrow> bool" where
  "isAbortError (ExecutionError f) = (failureCode f = ''AbortError'')"
| "isAbortError (NamedError n m) = (n = ''AbortError'')"
| "isAbortError _ = False"

fun errorMessage :: "pipeline_error \<Rightarrow> string" where
  "errorMessage (ExecutionError f) = failureMessage f"
| "errorMessage (KernelError c m) = m"
| "errorMessage (PersistenceError m x) = m"
| "errorMessage (NamedError n m) = m"
| "errorMessage (ThrownString s) = s"
| "errorMessage (ThrownOther s) = s"

fun isErrorObject :: "pipeline_error \<Rightarrow> bool" where
  "isErrorObject (ThrownString s) = False"
| "isErrorObject (ThrownOther s) = False"
| "isErrorObject _ = True"

definition runtimeFailure :: "string \<Rightarrow> string \<Rightarrow> kernel_failure" where
  "runtimeFailure code m =
     \<lparr>failureCode = code, failureMessage = m, failureRetryable = False, failureOrigin = ''runtime'',
      failureDetails = None\<rparr>"

fun normalizeError :: "pipeline_error \<Rightarrow> kernel_failure" where
  "normalizeError (ExecutionError f) = f"
| "normalizeError (KernelError c m) = runtimeFailure c m"
| "normalizeError (PersistenceError m x) = runtimeFailure ''turn_persistence'' m"
| "normalizeError e = runtimeFailure ''turn_failed'' (errorMessage e)"

definition turnProtocolError :: "string \<Rightarrow> pipeline_error" where
  "turnProtocolError m = KernelError ''turn_protocol'' m"

definition turnPersistenceError ::
    "pipeline_error \<Rightarrow> (string \<times> kernel_failure) option \<Rightarrow> pipeline_error" where
  "turnPersistenceError cause x =
     PersistenceError
       (''Turn terminal state could not be persisted; session recovery is required.'' @
        (if isErrorObject cause \<and> errorMessage cause \<noteq> [] then '' Cause: '' @ errorMessage cause else [])) x"

definition failureJson :: "kernel_failure \<Rightarrow> json" where
  "failureJson f =
     JObj ([(''code'', JStr (failureCode f)), (''message'', JStr (failureMessage f)),
            (''retryable'', JBool (failureRetryable f)), (''origin'', JStr (failureOrigin f))] @
           (case failureDetails f of None \<Rightarrow> [] | Some d \<Rightarrow> [(''details'', d)]))"

text \<open>
  \<open>runtimeFailureFromAIErrorDetails\<close> on the failure a provider attached to its message, an
  object of the documented type.
\<close>

definition textField :: "json \<Rightarrow> string \<Rightarrow> string" where
  "textField v k = (case field v k of Some (JStr s) \<Rightarrow> s | _ \<Rightarrow> [])"

definition presentFields :: "string list \<Rightarrow> json \<Rightarrow> (string \<times> json) list" where
  "presentFields ks v = List.map_filter (\<lambda>k. map_option (Pair k) (field v k)) ks"

definition aiDetailsToRuntimeDetails :: "json \<Rightarrow> jsval" where
  "aiDetailsToRuntimeDetails v =
     (let kvs = presentFields [''statusCode'', ''provider'', ''modelId'', ''requestId'', ''providerCode'', ''phase'',
                 ''url'', ''responseHeaders'', ''responseBodyPreview'', ''retryAfterMs''] v
      in if kvs = [] then None else Some (JObj kvs))"

definition runtimeFailureFromAIErrorDetails :: "json \<Rightarrow> kernel_failure" where
  "runtimeFailureFromAIErrorDetails v =
     \<lparr>failureCode = textField v ''code'', failureMessage = textField v ''message'',
      failureRetryable = (field v ''retryable'' = Some (JBool True)), failureOrigin = ''provider'',
      failureDetails = aiDetailsToRuntimeDetails v\<rparr>"

section \<open>What a turn is given and what it binds\<close>

record session_input =
  inputMessage :: json
  inputMessageId :: "string option"
  inputContext :: "context_record list option"
  trailingContext :: "context_record list option"

record input_request =
  requestPayload :: json
  requestText :: string
  requestMessageId :: "string option"

datatype request_preparation = RequestHandled | RequestPrepared session_input

text \<open>Capabilities of a snapshot are known by numbers, observers by their ids.\<close>

record bound_snapshot =
  snapshotIdent :: string
  requestPreparer :: "nat option"
  contextProviders :: "nat list"
  agentRunPreparer :: "nat option"
  contextProjector :: "nat option"
  observers :: "string list"

record lease =
  leaseNumber :: nat
  leaseSnapshot :: bound_snapshot
  leaseModel :: jsval
  leaseBinding :: "nat option"

datatype stage =
    Admission | SnapshotBinding | ConversationLoading | ContextAssembly | ContextPreparation
  | Execution | Finalization

datatype kernel_event =
    Stored stored_event
  | PipelineStage string string stage int
  | ExecutionFailed string string kernel_failure int
  | ObserverFailed string "string option" string string int
  | SessionObservation string string json int
  | ExecutionObservation string string json int
  | ConversationContinued string string string string conversation document int

text \<open>The signal of the turn, the one an engine passes with a checkpoint, and the fresh one of a terminal event.\<close>

datatype turn_signal = TurnSignal | CheckpointSignal | TerminalSignal

section \<open>What a turn calls\<close>

record continuation_answer = continuation +
  answeredSource :: string

record 'r conversation_port =
  createStored :: "string \<Rightarrow> int \<Rightarrow> string option \<Rightarrow> string option \<Rightarrow> 'r \<Rightarrow> (pipeline_error + unit) \<times> 'r"
  loadStored :: "string \<Rightarrow> 'r \<Rightarrow> (pipeline_error + conversation) \<times> 'r"
  appendStored :: "string \<Rightarrow> int \<Rightarrow> stored_event list \<Rightarrow> 'r \<Rightarrow> (pipeline_error + int) \<times> 'r"
  readStoredDocument :: "(string \<Rightarrow> 'r \<Rightarrow> pipeline_error + document) option"
  continueStored :: "(continue_input \<Rightarrow> 'r \<Rightarrow> (pipeline_error + continuation_answer) \<times> 'r) option"

record preparation_input =
  preparationSession :: string
  preparationMessages :: "json list"
  preparationHistory :: "json list"
  preparationTransient :: "json list"
  preparationReason :: string
  preparationCallIndex :: "int option"
  preparationAssistant :: jsval
  preparationAttempt :: "int option"
  preparationModel :: jsval
  preparationDocument :: "document option"
  preparationSource :: "document option"

record prepared_context =
  preparedMessages :: "json list"
  preparedCompaction :: "compaction option"
  preparedRetry :: "bool option"

record commit_result =
  continueExecution :: bool
  continuationDirective :: "string option"

record run_preparation =
  preparationContext :: "context_record list option"
  instructionOverride :: jsval

datatype engine_event =
    EngineObservation json
  | EngineExecutionObservation json
  | EngineMessage json "string option" "kernel_failure option" "string option"
  | EngineCompleted string

record checkpoint_request =
  checkpointReason :: string
  checkpointMessages :: "json list"
  checkpointCallIndex :: "int option"
  checkpointAssistant :: jsval
  checkpointAttempt :: int

record checkpoint_answer =
  answerMessages :: "json list"
  answerContext :: "json list option"
  answerEnvelopes :: "envelope list option"
  answerRetry :: "bool option"

datatype engine_answer =
    ContextQueued | CheckpointDone "checkpoint_answer option" | CallbackThrew pipeline_error

text \<open>
  A run of the turn engine as the pipeline sees it: what it yields, the calls it makes in between
  with what it does for each answer, and how it ends. It ends after finitely many steps whatever
  it is answered; the termination of the engine is shown where the engine is modelled.
\<close>

datatype engine =
    EngineDone
  | EngineThrows pipeline_error
  | Yields engine_event engine
  | Reports json engine
  | QueuesContext "context_record list" "engine_answer \<Rightarrow> engine"
  | Checkpoints checkpoint_request "engine_answer \<Rightarrow> engine"

record engine_request =
  engineMessages :: "json list"
  engineContext :: "envelope list"
  engineInitial :: "envelope list"
  engineFrame :: jsval
  engineOverride :: jsval
  engineInput :: "session_input option"

record ('r, 'e) pipeline_host =
  port :: "'r conversation_port"
  clockNow :: "'e \<Rightarrow> int"
  abortedBy :: "turn_signal \<Rightarrow> 'e \<Rightarrow> pipeline_error option"
  sinkPublish :: "kernel_event \<Rightarrow> 'e \<Rightarrow> 'e"
  observeEvent :: "string \<Rightarrow> stored_event \<Rightarrow> 'e \<Rightarrow> pipeline_error option \<times> 'e"
  awaitStore :: "'e \<Rightarrow> 'e"
  acquireLease :: "session_input option \<Rightarrow> input_request option \<Rightarrow> 'e \<Rightarrow> (pipeline_error + lease) \<times> 'e"
  releaseLease :: "nat \<Rightarrow> 'e \<Rightarrow> pipeline_error option \<times> 'e"
  bindPreparer :: "nat \<Rightarrow> input_request \<Rightarrow> 'e \<Rightarrow> (pipeline_error + nat) \<times> 'e"
  releasePreparer :: "nat \<Rightarrow> 'e \<Rightarrow> pipeline_error option \<times> 'e"
  prepareRequest :: "nat \<Rightarrow> input_request \<Rightarrow> jsval \<Rightarrow> 'e \<Rightarrow> (pipeline_error + request_preparation) \<times> 'e"
  provideContext :: "nat \<Rightarrow> conversation \<Rightarrow> session_input option \<Rightarrow> 'e \<Rightarrow> (pipeline_error + json list) \<times> 'e"
  projectContext :: "nat \<Rightarrow> document \<Rightarrow> pipeline_error + envelope list"
  prepareContext :: "bound_snapshot \<Rightarrow> preparation_input \<Rightarrow> 'e \<Rightarrow> (json list \<times> (pipeline_error + prepared_context)) \<times> 'e"
  onCompactionCommitted :: "(compaction \<Rightarrow> preparation_input \<Rightarrow> document option \<Rightarrow> 'e
     \<Rightarrow> (pipeline_error + commit_result) \<times> 'e) option"
  onContinuationCommitted :: "(compaction \<Rightarrow> continuation_answer \<Rightarrow> 'e \<Rightarrow> (pipeline_error + bool) \<times> 'e) option"
  onContinuationFailed :: "(compaction \<Rightarrow> pipeline_error \<Rightarrow> 'e \<Rightarrow> pipeline_error option \<times> 'e) option"
  onConversationContinued :: "(continuation_answer \<Rightarrow> 'e \<Rightarrow> pipeline_error option \<times> 'e) option"
  prepareRun :: "nat \<Rightarrow> session_input \<Rightarrow> json list \<Rightarrow> jsval \<Rightarrow> 'e
     \<Rightarrow> (pipeline_error + run_preparation option \<times> jsval) \<times> 'e"
  startEngine :: "bound_snapshot \<Rightarrow> engine_request \<Rightarrow> 'e \<Rightarrow> engine \<times> 'e"
  awaitEngine :: "'e \<Rightarrow> 'e"
  returnEngine :: "'e \<Rightarrow> 'e"
  incomingContext :: "('e \<Rightarrow> context_record list \<times> 'e) option"

text \<open>
  \<open>incomingContext\<close> takes what producers have put into the buffer since it was last asked; it is
  absent when the pipeline has no buffer.
\<close>

section \<open>The state\<close>

record ('r, 'e) pipe =
  activeSession :: string
  identitySession :: string
  turnVersion :: int
  turnStarted :: bool
  boundSnapshot :: "bound_snapshot option"
  turnMessages :: "json list"
  heldLease :: "lease option"
  contextBuffer :: "context_record list"
  releasedLeases :: "nat list"
  published :: "kernel_event list"
  store :: 'r
  surroundings :: 'e

type_synonym ('r, 'e, 'a) doing = "('r, 'e) pipe \<Rightarrow> (pipeline_error + 'a) \<times> ('r, 'e) pipe"

definition pass :: "'a \<Rightarrow> ('r, 'e, 'a) doing" where
  "pass x s = (Inr x, s)"

definition abandon :: "pipeline_error \<Rightarrow> ('r, 'e, 'a) doing" where
  "abandon e s = (Inl e, s)"

definition next_do :: "('r, 'e, 'a) doing \<Rightarrow> ('a \<Rightarrow> ('r, 'e, 'b) doing) \<Rightarrow> ('r, 'e, 'b) doing" where
  "next_do m f s = (case m s of (Inl e, s') \<Rightarrow> (Inl e, s') | (Inr x, s') \<Rightarrow> f x s')"

definition attempt :: "('r, 'e, 'a) doing \<Rightarrow> (pipeline_error + 'a \<Rightarrow> ('r, 'e, 'b) doing) \<Rightarrow> ('r, 'e, 'b) doing" where
  "attempt m f s = (case m s of (x, s') \<Rightarrow> f x s')"

definition look :: "(('r, 'e) pipe \<Rightarrow> ('r, 'e, 'a) doing) \<Rightarrow> ('r, 'e, 'a) doing" where
  "look f s = f s s"

definition alter :: "(('r, 'e) pipe \<Rightarrow> ('r, 'e) pipe) \<Rightarrow> ('r, 'e, unit) doing" where
  "alter f s = (Inr (), f s)"

definition ofResult :: "pipeline_error + 'a \<Rightarrow> ('r, 'e, 'a) doing" where
  "ofResult x s = (x, s)"

definition ask :: "('e \<Rightarrow> 'a \<times> 'e) \<Rightarrow> ('r, 'e, 'a) doing" where
  "ask f s = (case f (surroundings s) of (x, e) \<Rightarrow> (Inr x, s\<lparr>surroundings := e\<rparr>))"

definition asking :: "('e \<Rightarrow> (pipeline_error + 'a) \<times> 'e) \<Rightarrow> ('r, 'e, 'a) doing" where
  "asking f s = (case f (surroundings s) of (x, e) \<Rightarrow> (x, s\<lparr>surroundings := e\<rparr>))"

definition onStore :: "('r, 'e) pipeline_host \<Rightarrow> ('r \<Rightarrow> (pipeline_error + 'a) \<times> 'r) \<Rightarrow> ('r, 'e, 'a) doing" where
  "onStore h f s =
     (case f (store s) of (x, r) \<Rightarrow> (x, s\<lparr>store := r, surroundings := awaitStore h (surroundings s)\<rparr>))"

definition now :: "('r, 'e) pipeline_host \<Rightarrow> ('r, 'e) pipe \<Rightarrow> int" where
  "now h s = clockNow h (surroundings s)"

definition throwIfSignalled :: "('r, 'e) pipeline_host \<Rightarrow> turn_signal \<Rightarrow> ('r, 'e, unit) doing" where
  "throwIfSignalled h sig =
     look (\<lambda>s. case abortedBy h sig (surroundings s) of None \<Rightarrow> pass () | Some e \<Rightarrow> abandon e)"

section \<open>Publishing\<close>

definition publishSafely :: "('r, 'e) pipeline_host \<Rightarrow> kernel_event \<Rightarrow> ('r, 'e, unit) doing" where
  "publishSafely h ev =
     alter (\<lambda>s. s\<lparr>published := published s @ [ev], surroundings := sinkPublish h ev (surroundings s)\<rparr>)"

definition enterStage :: "('r, 'e) pipeline_host \<Rightarrow> string \<Rightarrow> stage \<Rightarrow> ('r, 'e, unit) doing" where
  "enterStage h t st = look (\<lambda>s. publishSafely h (PipelineStage (activeSession s) t st (now h s)))"

definition publishObservation :: "('r, 'e) pipeline_host \<Rightarrow> string \<Rightarrow> json \<Rightarrow> ('r, 'e, unit) doing" where
  "publishObservation h t ob =
     look (\<lambda>s. publishSafely h (SessionObservation (activeSession s) t ob
       (case field ob ''timestamp'' of Some (JNum n) \<Rightarrow> asInt n | _ \<Rightarrow> now h s)))"

fun publishObservations :: "('r, 'e) pipeline_host \<Rightarrow> string \<Rightarrow> json list \<Rightarrow> ('r, 'e, unit) doing" where
  "publishObservations h t [] = pass ()"
| "publishObservations h t (ob # obs) = next_do (publishObservation h t ob) (\<lambda>_. publishObservations h t obs)"

definition publishExecutionObservation ::
    "('r, 'e) pipeline_host \<Rightarrow> string \<Rightarrow> json \<Rightarrow> ('r, 'e, unit) doing" where
  "publishExecutionObservation h t ob =
     look (\<lambda>s. publishSafely h (ExecutionObservation (activeSession s) t ob (now h s)))"

definition publishObserverFailed ::
    "('r, 'e) pipeline_host \<Rightarrow> string \<Rightarrow> string option \<Rightarrow> string \<Rightarrow> pipeline_error \<Rightarrow> ('r, 'e, unit) doing" where
  "publishObserverFailed h session t ob e =
     look (\<lambda>s. publishSafely h (ObserverFailed session t ob (errorMessage e) (now h s)))"

fun payloadTurn :: "event_payload \<Rightarrow> string option" where
  "payloadTurn (TurnStarted t) = Some t"
| "payloadTurn (TurnContinued t src snap why) = Some t"
| "payloadTurn (MessageAppended t i m r) = Some t"
| "payloadTurn (ContextAppended t c) = Some t"
| "payloadTurn (ContextRecorded c) = None"
| "payloadTurn (ContextCompacted t c) = t"
| "payloadTurn (TurnCompleted t) = Some t"
| "payloadTurn (TurnCancelled t) = Some t"
| "payloadTurn (TurnFailed t e) = Some t"
| "payloadTurn (TurnTransferred t target why) = Some t"

fun notifyEach :: "('r, 'e) pipeline_host \<Rightarrow> stored_event \<Rightarrow> string list \<Rightarrow> ('r, 'e, unit) doing" where
  "notifyEach h ev [] = pass ()"
| "notifyEach h ev (ob # obs) =
     next_do (ask (observeEvent h ob ev)) (\<lambda>failed.
     next_do (case failed of
                None \<Rightarrow> pass ()
              | Some e \<Rightarrow> publishObserverFailed h (eventSession ev)
                  (Some (case payloadTurn (payload ev) of Some t \<Rightarrow> t | None \<Rightarrow> ''manual-context-compaction'')) ob e)
       (\<lambda>_. notifyEach h ev obs))"

definition notifyObserversSafely :: "('r, 'e) pipeline_host \<Rightarrow> stored_event \<Rightarrow> ('r, 'e, unit) doing" where
  "notifyObserversSafely h ev =
     look (\<lambda>s. case boundSnapshot s of None \<Rightarrow> pass () | Some sn \<Rightarrow> notifyEach h ev (observers sn))"

fun publishStored :: "('r, 'e) pipeline_host \<Rightarrow> stored_event list \<Rightarrow> ('r, 'e, unit) doing" where
  "publishStored h [] = pass ()"
| "publishStored h (ev # evs) =
     next_do (publishSafely h (Stored ev)) (\<lambda>_.
     next_do (notifyObserversSafely h ev) (\<lambda>_. publishStored h evs))"

section \<open>Appending\<close>

definition storedEvent :: "('r, 'e) pipe \<Rightarrow> int \<Rightarrow> event_payload \<Rightarrow> stored_event" where
  "storedEvent s time p = \<lparr>eventSession = activeSession s, eventTime = time, payload = p\<rparr>"

definition appendAll :: "('r, 'e) pipeline_host \<Rightarrow> stored_event list \<Rightarrow> ('r, 'e, unit) doing" where
  "appendAll h evs =
     look (\<lambda>s.
     next_do (onStore h (appendStored (port h) (activeSession s) (turnVersion s) evs)) (\<lambda>v.
     next_do (alter (\<lambda>s. s\<lparr>turnVersion := v\<rparr>)) (\<lambda>_. publishStored h evs)))"

definition contextTime :: "context_record \<Rightarrow> int \<Rightarrow> int" where
  "contextTime c time = (case contextTimestamp c of Some x \<Rightarrow> x | None \<Rightarrow> time)"

definition contextEvents :: "('r, 'e) pipe \<Rightarrow> string \<Rightarrow> int \<Rightarrow> context_record list \<Rightarrow> stored_event list" where
  "contextEvents s t time cs = map (\<lambda>c. storedEvent s (contextTime c time) (ContextAppended t c)) cs"

definition appendContext :: "('r, 'e) pipeline_host \<Rightarrow> string \<Rightarrow> context_record list \<Rightarrow> ('r, 'e, unit) doing" where
  "appendContext h t cs = look (\<lambda>s. appendAll h (contextEvents s t (now h s) cs))"

definition takeIncoming :: "('r, 'e) pipeline_host \<Rightarrow> ('r, 'e, unit) doing" where
  "takeIncoming h s =
     (case incomingContext h of
        None \<Rightarrow> (Inr (), s)
      | Some f \<Rightarrow> (case f (surroundings s) of
          (cs, e) \<Rightarrow> (Inr (), s\<lparr>contextBuffer := contextBuffer s @ cs, surroundings := e\<rparr>)))"

text \<open>\<open>flush\<close> with the consumer of \<open>appendRuntimeContext\<close>: what is written is taken off the front.\<close>

definition appendRuntimeContext :: "('r, 'e) pipeline_host \<Rightarrow> string \<Rightarrow> ('r, 'e, unit) doing" where
  "appendRuntimeContext h t =
     (if incomingContext h = None then pass ()
      else next_do (takeIncoming h) (\<lambda>_.
        look (\<lambda>s. if contextBuffer s = [] then pass ()
          else next_do (appendContext h t (contextBuffer s)) (\<lambda>_.
               alter (\<lambda>s'. s'\<lparr>contextBuffer := drop (length (contextBuffer s)) (contextBuffer s')\<rparr>)))))"

definition clearRuntimeContext :: "('r, 'e) pipeline_host \<Rightarrow> ('r, 'e, unit) doing" where
  "clearRuntimeContext h =
     (if incomingContext h = None then pass ()
      else next_do (takeIncoming h) (\<lambda>_. alter (\<lambda>s. s\<lparr>contextBuffer := []\<rparr>)))"

section \<open>Committing a compaction\<close>

definition readTurnDocument :: "('r, 'e) pipeline_host \<Rightarrow> ('r, 'e, document option) doing" where
  "readTurnDocument h =
     look (\<lambda>s. case readStoredDocument (port h) of
       None \<Rightarrow> pass None
     | Some f \<Rightarrow> onStore h (\<lambda>r. (map_sum id Some (f (activeSession s) r), r)))"

text \<open>\<open>ContextCompactionCommitter.commit\<close>: the new version is known to the caller only when the document could be read again.\<close>

definition commitRecord ::
    "('r, 'e) pipeline_host \<Rightarrow> string \<Rightarrow> turn_signal \<Rightarrow> compaction \<Rightarrow> ('r, 'e, int \<times> document option) doing" where
  "commitRecord h t sig c =
     next_do (throwIfSignalled h sig) (\<lambda>_.
     look (\<lambda>s. let ev = storedEvent s (now h s) (ContextCompacted (Some t) (ContextCompaction c)) in
     next_do (onStore h (appendStored (port h) (activeSession s) (turnVersion s) [ev])) (\<lambda>v.
     next_do (publishStored h [ev]) (\<lambda>_.
     next_do (readTurnDocument h) (\<lambda>d. pass (v, d))))))"

definition compactionEnd :: "compaction \<Rightarrow> pipeline_error \<Rightarrow> json" where
  "compactionEnd c e =
     JObj [(''type'', JStr ''compaction.end''), (''success'', JBool False),
           (''reason'', JStr (case reason c of Some r \<Rightarrow> r | None \<Rightarrow> [])),
           (''errorMessage'', JStr (''Failed to persist context compaction: '' @ errorMessage e)),
           (''source'', JStr ''runtime-core'')]"

definition commitCompaction ::
    "('r, 'e) pipeline_host \<Rightarrow> string \<Rightarrow> turn_signal \<Rightarrow> compaction \<Rightarrow> ('r, 'e, document option) doing" where
  "commitCompaction h t sig c =
     attempt (commitRecord h t sig c) (\<lambda>res. case res of
       Inr (v, d) \<Rightarrow> next_do (alter (\<lambda>s. s\<lparr>turnVersion := v\<rparr>)) (\<lambda>_. pass d)
     | Inl e \<Rightarrow>
         next_do (if reason c \<noteq> Some ''manual'' then publishObservation h t (compactionEnd c e) else pass ())
           (\<lambda>_. abandon e))"

end
