(* ===== verification/TurnPipeline.thy ===== *)
theory TurnPipeline
  imports PipelineState
begin

text \<open>
  The phases of a turn and \<open>runTurn\<close>, from
  \<open>packages/runtime-core/src/kernel/turn-pipeline.ts\<close>: admission and snapshot, the events that
  open the turn, the assembly and preparation of the context, the loop over the engine with its
  callbacks, the continuation in a new conversation, and the terminal event on every way out.
  The id of the turn, which \<open>idGenerator\<close> makes, is the argument \<open>t\<close>.
\<close>

section \<open>Continuing in another conversation\<close>

definition consistentTransition :: "string \<Rightarrow> string \<Rightarrow> int \<Rightarrow> string \<Rightarrow> string \<Rightarrow> continuation_answer \<Rightarrow> bool" where
  "consistentTransition t src v snap why a =
     (answeredSource a = src \<and> sourceVersion a = v + 1 \<and>
      eventSession (transferredEvent a) = src \<and>
      payload (transferredEvent a) = TurnTransferred t (targetSession a) why \<and>
      eventSession (continuedEvent a) = targetSession a \<and>
      payload (continuedEvent a) = TurnContinued t src snap why \<and>
      conversationId (seedConversation a) = targetSession a \<and>
      sessionId (docIdentity (seedDocument a)) = targetSession a \<and>
      version (seedConversation a) = 0 \<and> journalVersion (seedDocument a) = 0 \<and> targetVersion a = 1)"

definition announceTarget :: "('r, 'e) pipeline_host \<Rightarrow> continuation_answer \<Rightarrow> ('r, 'e, unit) doing" where
  "announceTarget h a =
     next_do (case onConversationContinued h of
                None \<Rightarrow> pass ()
              | Some f \<Rightarrow> next_do (ask (f a)) (\<lambda>failed. case failed of None \<Rightarrow> pass () | Some e \<Rightarrow> abandon e))
       (\<lambda>_. notifyObserversSafely h (continuedEvent a))"

definition moveToTarget :: "('r, 'e) pipeline_host \<Rightarrow> string \<Rightarrow> string \<Rightarrow> string \<Rightarrow> continuation_answer \<Rightarrow> ('r, 'e, unit) doing" where
  "moveToTarget h t src why a =
     next_do (publishStored h [transferredEvent a]) (\<lambda>_.
     next_do (alter (\<lambda>s. s\<lparr>identitySession := targetSession a, activeSession := targetSession a, turnVersion := 0\<rparr>)) (\<lambda>_.
     next_do (publishSafely h (ConversationContinued src (targetSession a) t why (seedConversation a) (seedDocument a)
                (eventTime (continuedEvent a)))) (\<lambda>_.
     next_do (publishSafely h (Stored (continuedEvent a))) (\<lambda>_.
     next_do (alter (\<lambda>s. s\<lparr>turnVersion := targetVersion a\<rparr>)) (\<lambda>_. announceTarget h a)))))"

definition continueAfterCompaction ::
    "('r, 'e) pipeline_host \<Rightarrow> string \<Rightarrow> turn_signal \<Rightarrow> string \<Rightarrow> ('r, 'e, continuation_answer) doing" where
  "continueAfterCompaction h t sig why =
     (case continueStored (port h) of
        None \<Rightarrow> abandon (turnProtocolError ''Context strategy requested continuation without a continuation store'')
      | Some f \<Rightarrow> look (\<lambda>s. case boundSnapshot s of
          None \<Rightarrow> abandon (turnProtocolError ''Conversation continuation requires a bound runtime snapshot'')
        | Some sn \<Rightarrow>
            next_do (throwIfSignalled h sig) (\<lambda>_.
            next_do (onStore h (f \<lparr>sourceSessionId = activeSession s, expectedVersion = turnVersion s,
                       continueTurn = t, snapshotId = snapshotIdent sn, continueReason = why,
                       continueTime = now h s\<rparr>)) (\<lambda>a.
            if \<not> consistentTransition t (activeSession s) (turnVersion s) (snapshotIdent sn) why a
            then abandon (turnProtocolError ''Conversation continuation store returned an inconsistent transition'')
            else next_do (moveToTarget h t (activeSession s) why a) (\<lambda>_. pass a)))))"

definition reportContinuationFailure ::
    "('r, 'e) pipeline_host \<Rightarrow> string \<Rightarrow> compaction \<Rightarrow> pipeline_error \<Rightarrow> ('r, 'e, unit) doing" where
  "reportContinuationFailure h t c e =
     (case onContinuationFailed h of
        None \<Rightarrow> pass ()
      | Some f \<Rightarrow> next_do (ask (f c e)) (\<lambda>failed. case failed of
          None \<Rightarrow> pass ()
        | Some e' \<Rightarrow> look (\<lambda>s. publishObserverFailed h (activeSession s) (Some t)
            ''context-strategy.continuation-failed'' e')))"

definition finalizeCommittedCompaction ::
    "('r, 'e) pipeline_host \<Rightarrow> string \<Rightarrow> turn_signal \<Rightarrow> compaction \<Rightarrow> preparation_input \<Rightarrow> document option
       \<Rightarrow> ('r, 'e, commit_result option) doing" where
  "finalizeCommittedCompaction h t sig c i d =
     (case onCompactionCommitted h of
        None \<Rightarrow> pass None
      | Some committed \<Rightarrow> next_do (asking (committed c i d)) (\<lambda>res.
          case continuationDirective res of
            None \<Rightarrow> pass (Some res)
          | Some why \<Rightarrow> attempt (continueAfterCompaction h t sig why) (\<lambda>outcome. case outcome of
              Inl e \<Rightarrow> next_do (reportContinuationFailure h t c e) (\<lambda>_. abandon e)
            | Inr a \<Rightarrow> (case onContinuationCommitted h of
                None \<Rightarrow> pass (Some res)
              | Some f \<Rightarrow> next_do (asking (f c a)) (\<lambda>b. pass (Some (res\<lparr>continueExecution := b\<rparr>)))))))"

section \<open>Admission and snapshot\<close>

definition attachPreparer ::
    "('r, 'e) pipeline_host \<Rightarrow> lease \<Rightarrow> nat \<Rightarrow> input_request \<Rightarrow> ('r, 'e, unit) doing" where
  "attachPreparer h l p rq =
     attempt (asking (bindPreparer h p rq)) (\<lambda>res. case res of
       Inr bound \<Rightarrow> alter (\<lambda>s. s\<lparr>heldLease :=
         Some (l\<lparr>leaseSnapshot := (leaseSnapshot l)\<lparr>requestPreparer := Some bound\<rparr>, leaseBinding := Some bound\<rparr>)\<rparr>)
     | Inl e \<Rightarrow>
         next_do (alter (\<lambda>s. s\<lparr>releasedLeases := releasedLeases s @ [leaseNumber l]\<rparr>)) (\<lambda>_.
         next_do (ask (releaseLease h (leaseNumber l))) (\<lambda>failed.
           abandon (case failed of None \<Rightarrow> e | Some e' \<Rightarrow> e'))))"

definition bindSnapshot ::
    "('r, 'e) pipeline_host \<Rightarrow> string \<Rightarrow> session_input option \<Rightarrow> input_request option \<Rightarrow> nat option
       \<Rightarrow> ('r, 'e, bound_snapshot \<times> jsval) doing" where
  "bindSnapshot h t input request fallback =
     next_do (enterStage h t Admission) (\<lambda>_.
     next_do (throwIfSignalled h TurnSignal) (\<lambda>_.
     next_do (enterStage h t SnapshotBinding) (\<lambda>_.
     next_do (asking (acquireLease h input request)) (\<lambda>l.
     next_do (alter (\<lambda>s. s\<lparr>heldLease := Some l\<rparr>)) (\<lambda>_.
     next_do (case (request, requestPreparer (leaseSnapshot l), fallback) of
                (Some rq, None, Some p) \<Rightarrow> attachPreparer h l p rq | _ \<Rightarrow> pass ()) (\<lambda>_.
     look (\<lambda>s. let l' = (case heldLease s of Some x \<Rightarrow> x | None \<Rightarrow> l) in
     next_do (alter (\<lambda>s. s\<lparr>boundSnapshot := Some (leaseSnapshot l')\<rparr>)) (\<lambda>_.
     next_do (throwIfSignalled h TurnSignal) (\<lambda>_.
     pass (leaseSnapshot l', leaseModel l'))))))))))"

text \<open>\<open>None\<close>: the preparer has handled the request and there is no turn.\<close>

definition admitRequest ::
    "('r, 'e) pipeline_host \<Rightarrow> bound_snapshot \<Rightarrow> jsval \<Rightarrow> input_request \<Rightarrow> ('r, 'e, session_input option) doing" where
  "admitRequest h sn model rq =
     (case requestPreparer sn of
        None \<Rightarrow> abandon (NamedError ''Error'' ''Runtime snapshot does not provide an input request preparer'')
      | Some p \<Rightarrow>
          next_do (asking (prepareRequest h p rq model)) (\<lambda>prepared.
          next_do (throwIfSignalled h TurnSignal) (\<lambda>_.
          case prepared of
            RequestHandled \<Rightarrow> pass None
          | RequestPrepared i \<Rightarrow>
              pass (Some (if truthy (requestMessageId rq) \<and> \<not> truthy (inputMessageId i)
                          then i\<lparr>inputMessageId := requestMessageId rq\<rparr> else i)))))"

section \<open>Opening the turn\<close>

definition kernelMessageId :: "string \<Rightarrow> int \<Rightarrow> string" where
  "kernelMessageId t n = ''message:'' @ t @ '':'' @ decimal n"

definition turnContext :: "session_input option \<Rightarrow> context_record list \<Rightarrow> context_record list" where
  "turnContext input cs =
     (case input of None \<Rightarrow> cs | Some i \<Rightarrow> (case inputContext i of None \<Rightarrow> cs | Some x \<Rightarrow> x))"

definition turnTrailing :: "session_input option \<Rightarrow> context_record list" where
  "turnTrailing input =
     (case input of None \<Rightarrow> [] | Some i \<Rightarrow> (case trailingContext i of None \<Rightarrow> [] | Some x \<Rightarrow> x))"

definition startEvents ::
    "('r, 'e) pipe \<Rightarrow> string \<Rightarrow> int \<Rightarrow> session_input option \<Rightarrow> context_record list \<Rightarrow> stored_event list" where
  "startEvents s t time input cs =
     [storedEvent s time (TurnStarted t)] @ contextEvents s t time (turnContext input cs) @
     (case input of
        None \<Rightarrow> []
      | Some i \<Rightarrow>
          [storedEvent s time (MessageAppended t
             (Some (case inputMessageId i of
                Some k \<Rightarrow> k
              | None \<Rightarrow> kernelMessageId t (turnVersion s + int (1 + length (turnContext input cs)) + 1)))
             (inputMessage i) None)]) @
     contextEvents s t time (turnTrailing input)"

definition openTurn ::
    "('r, 'e) pipeline_host \<Rightarrow> string \<Rightarrow> session_input option \<Rightarrow> context_record list
       \<Rightarrow> ('r, 'e, conversation \<times> document option \<times> int) doing" where
  "openTurn h t input cs =
     next_do (enterStage h t ConversationLoading) (\<lambda>_.
     look (\<lambda>s. next_do (onStore h (loadStored (port h) (activeSession s))) (\<lambda>c.
     next_do (readTurnDocument h) (\<lambda>d.
     next_do (alter (\<lambda>s. s\<lparr>turnVersion := version c\<rparr>)) (\<lambda>_.
     next_do (throwIfSignalled h TurnSignal) (\<lambda>_.
     look (\<lambda>s. let time = now h s in
     next_do (appendAll h (startEvents s t time input cs)) (\<lambda>_.
     next_do (alter (\<lambda>s. s\<lparr>turnStarted := True\<rparr>)) (\<lambda>_.
     pass (c, d, time))))))))))"

section \<open>Assembling and preparing the context\<close>

definition contextEnvelopes :: "int \<Rightarrow> context_record list \<Rightarrow> envelope list" where
  "contextEnvelopes time cs = map (\<lambda>c. ContextEnvelope c None (contextTime c time)) cs"

definition visibleMessages :: "int \<Rightarrow> context_record list \<Rightarrow> json list" where
  "visibleMessages time cs = map (\<lambda>c. userMessage (contextContent c) (contextTime c time)) (filter contextVisible cs)"

definition turnEnvelopes :: "int \<Rightarrow> session_input option \<Rightarrow> context_record list \<Rightarrow> envelope list" where
  "turnEnvelopes time input cs =
     contextEnvelopes time (turnContext input cs) @
     (case input of
        None \<Rightarrow> []
      | Some i \<Rightarrow> [MessageEnvelope (inputMessage i)
          (if truthy (inputMessageId i) then inputMessageId i else None) None None]) @
     contextEnvelopes time (turnTrailing input)"

fun collectProviderMessages ::
    "('r, 'e) pipeline_host \<Rightarrow> conversation \<Rightarrow> session_input option \<Rightarrow> nat list \<Rightarrow> ('r, 'e, json list) doing" where
  "collectProviderMessages h c input [] = pass []"
| "collectProviderMessages h c input (p # ps) =
     next_do (throwIfSignalled h TurnSignal) (\<lambda>_.
     next_do (asking (provideContext h p c input)) (\<lambda>ms.
     next_do (collectProviderMessages h c input ps) (\<lambda>rest. pass (ms @ rest))))"

definition projectConversationContext ::
    "('r, 'e) pipeline_host \<Rightarrow> bound_snapshot \<Rightarrow> document option \<Rightarrow> json list \<Rightarrow> pipeline_error + envelope list" where
  "projectConversationContext h sn d ms =
     (case (d, contextProjector sn) of
        (Some doc, Some p) \<Rightarrow> projectContext h p doc
      | _ \<Rightarrow> Inr (map toRuntimeMessageEnvelope ms))"

record assembly =
  assembledMessages :: "json list"
  assembledHistory :: "json list"
  assembledTransient :: "json list"
  assembledEnvelopes :: "envelope list"

definition assemble ::
    "envelope list \<Rightarrow> json list \<Rightarrow> int \<Rightarrow> session_input option \<Rightarrow> context_record list \<Rightarrow> assembly" where
  "assemble modelHistory provided time input cs =
     (let history = projectRuntimeModelMessages modelHistory;
          ms = history @ provided @ visibleMessages time (turnContext input cs) @
            (case input of None \<Rightarrow> [] | Some i \<Rightarrow> inputMessage i # visibleMessages time (turnTrailing input))
      in \<lparr>assembledMessages = ms, assembledHistory = history, assembledTransient = provided,
          assembledEnvelopes = reconcileRuntimeMessageEnvelopes ms
            (modelHistory @ map toRuntimeMessageEnvelope provided @ turnEnvelopes time input cs)\<rparr>)"

definition assembleContext ::
    "('r, 'e) pipeline_host \<Rightarrow> string \<Rightarrow> bound_snapshot \<Rightarrow> conversation \<Rightarrow> document option \<Rightarrow> int
       \<Rightarrow> session_input option \<Rightarrow> context_record list \<Rightarrow> bool \<Rightarrow> ('r, 'e, assembly) doing" where
  "assembleContext h t sn c d time input cs retrying =
     next_do (enterStage h t ContextAssembly) (\<lambda>_.
     next_do (collectProviderMessages h c input (contextProviders sn)) (\<lambda>provided.
     next_do (ofResult (projectConversationContext h sn d (messages c))) (\<lambda>projected.
     pass (assemble (if retrying then omitLastFailedAssistant projected else projected) provided time input cs))))"

definition callStrategy ::
    "('r, 'e) pipeline_host \<Rightarrow> string \<Rightarrow> bound_snapshot \<Rightarrow> preparation_input \<Rightarrow> ('r, 'e, prepared_context) doing" where
  "callStrategy h t sn i =
     next_do (ask (prepareContext h sn i)) (\<lambda>(obs, res).
     next_do (publishObservations h t obs) (\<lambda>_. ofResult res))"

definition prepareTurn ::
    "('r, 'e) pipeline_host \<Rightarrow> string \<Rightarrow> bound_snapshot \<Rightarrow> jsval \<Rightarrow> document option \<Rightarrow> assembly
       \<Rightarrow> ('r, 'e, json list \<times> envelope list) doing" where
  "prepareTurn h t sn model d a =
     next_do (enterStage h t ContextPreparation) (\<lambda>_.
     look (\<lambda>s. let i = \<lparr>preparationSession = activeSession s, preparationMessages = assembledMessages a,
         preparationHistory = assembledHistory a, preparationTransient = assembledTransient a,
         preparationReason = ''turn_start'', preparationCallIndex = None, preparationAssistant = None,
         preparationAttempt = None, preparationModel = model, preparationDocument = d, preparationSource = None\<rparr> in
     next_do (callStrategy h t sn i) (\<lambda>prepared.
     next_do (throwIfSignalled h TurnSignal) (\<lambda>_.
     case preparedCompaction prepared of
       None \<Rightarrow> pass (preparedMessages prepared,
                 reconcileRuntimeMessageEnvelopes (preparedMessages prepared) (assembledEnvelopes a))
     | Some c \<Rightarrow>
         next_do (commitCompaction h t TurnSignal c) (\<lambda>doc.
         next_do (finalizeCommittedCompaction h t TurnSignal c i doc) (\<lambda>_.
         next_do (ofResult (projectConversationContext h sn doc (preparedMessages prepared))) (\<lambda>projected.
         pass (preparedMessages prepared,
           reconcileRuntimeMessageEnvelopes (preparedMessages prepared)
             (projected @ map toRuntimeMessageEnvelope (assembledTransient a))))))))))"

definition recordPreparation ::
    "('r, 'e) pipeline_host \<Rightarrow> string \<Rightarrow> engine_request \<Rightarrow> context_record list \<Rightarrow> ('r, 'e, engine_request) doing" where
  "recordPreparation h t request extra =
     look (\<lambda>s. let time = now h s in
     next_do (appendAll h (contextEvents s t time extra)) (\<lambda>_.
     pass (request\<lparr>engineInitial := engineInitial request @ contextEnvelopes time extra,
       engineMessages := engineMessages request @ visibleMessages time extra,
       engineContext := engineContext request @ contextEnvelopes time extra\<rparr>)))"

definition prepareAgentRun ::
    "('r, 'e) pipeline_host \<Rightarrow> string \<Rightarrow> bound_snapshot \<Rightarrow> jsval \<Rightarrow> session_input option \<Rightarrow> int \<Rightarrow> context_record list
       \<Rightarrow> json list \<times> envelope list \<Rightarrow> ('r, 'e, engine_request) doing" where
  "prepareAgentRun h t sn model input time cs view =
     (let initial = (if input = None then [] else turnEnvelopes time input cs);
          request = \<lparr>engineMessages = fst view, engineContext = snd view, engineInitial = initial,
            engineFrame = None, engineOverride = None, engineInput = input\<rparr>
      in case (input, agentRunPreparer sn) of
        (Some i, Some p) \<Rightarrow>
          next_do (asking (prepareRun h p i (fst view) model)) (\<lambda>(prepared, frame).
          next_do (throwIfSignalled h TurnSignal) (\<lambda>_.
          let request = request\<lparr>engineFrame := frame,
                engineOverride := (case prepared of None \<Rightarrow> None | Some x \<Rightarrow> instructionOverride x)\<rparr> in
          case (case prepared of None \<Rightarrow> None | Some x \<Rightarrow> preparationContext x) of
            None \<Rightarrow> pass request
          | Some [] \<Rightarrow> pass request
          | Some extra \<Rightarrow> recordPreparation h t request extra))
      | _ \<Rightarrow> pass request)"

section \<open>Checkpoints of the engine\<close>

definition checkpointInput ::
    "('r, 'e) pipe \<Rightarrow> jsval \<Rightarrow> json list \<Rightarrow> document option \<Rightarrow> checkpoint_request \<Rightarrow> json list \<Rightarrow> document option
       \<Rightarrow> preparation_input" where
  "checkpointInput s model provided source rq history d =
     \<lparr>preparationSession = activeSession s, preparationMessages = checkpointMessages rq,
      preparationHistory = history, preparationTransient = provided,
      preparationReason = checkpointReason rq, preparationCallIndex = checkpointCallIndex rq,
      preparationAssistant = checkpointAssistant rq, preparationAttempt = Some (checkpointAttempt rq),
      preparationModel = model, preparationDocument = d,
      preparationSource =
        (if checkpointReason rq = ''model_call'' \<and>
            (case checkpointCallIndex rq of None \<Rightarrow> 0 | Some n \<Rightarrow> n) = 0 then source else None)\<rparr>"

definition compactedAnswer ::
    "checkpoint_request \<Rightarrow> compaction \<Rightarrow> commit_result option \<Rightarrow> json list \<Rightarrow> envelope list \<Rightarrow> checkpoint_answer" where
  "compactedAnswer rq c committed ms es =
     \<lparr>answerMessages = ms, answerContext = Some ms, answerEnvelopes = Some es,
      answerRetry = Some (checkpointReason rq \<noteq> ''model_call'' \<and> reason c = Some ''overflow'' \<and>
        (case committed of None \<Rightarrow> True | Some x \<Rightarrow> continueExecution x))\<rparr>"

definition uncompactedAnswer :: "checkpoint_request \<Rightarrow> prepared_context \<Rightarrow> checkpoint_answer option" where
  "uncompactedAnswer rq prepared =
     (if checkpointReason rq = ''assistant_error'' \<and> preparedRetry prepared \<noteq> Some True then None
      else if preparedRetry prepared = Some True
      then Some \<lparr>answerMessages = preparedMessages prepared, answerContext = Some (preparedMessages prepared),
                 answerEnvelopes = None, answerRetry = Some True\<rparr>
      else Some \<lparr>answerMessages = preparedMessages prepared, answerContext = None, answerEnvelopes = None,
                 answerRetry = None\<rparr>)"

definition prepareContextCheckpoint ::
    "('r, 'e) pipeline_host \<Rightarrow> string \<Rightarrow> bound_snapshot \<Rightarrow> jsval \<Rightarrow> json list \<Rightarrow> document option \<Rightarrow> checkpoint_request
       \<Rightarrow> ('r, 'e, checkpoint_answer option) doing" where
  "prepareContextCheckpoint h t sn model provided source rq =
     look (\<lambda>s. next_do (onStore h (loadStored (port h) (activeSession s))) (\<lambda>c.
     next_do (readTurnDocument h) (\<lambda>d.
     next_do (ofResult (projectConversationContext h sn d (messages c))) (\<lambda>projected.
     look (\<lambda>s. let i = checkpointInput s model provided source rq (projectRuntimeModelMessages projected) d in
     next_do (callStrategy h t sn i) (\<lambda>prepared.
     next_do (throwIfSignalled h CheckpointSignal) (\<lambda>_.
     case preparedCompaction prepared of
       None \<Rightarrow> pass (uncompactedAnswer rq prepared)
     | Some cp \<Rightarrow>
         next_do (commitCompaction h t CheckpointSignal cp) (\<lambda>doc.
         next_do (finalizeCommittedCompaction h t CheckpointSignal cp i doc) (\<lambda>committed.
         next_do (ofResult (projectConversationContext h sn doc (preparedMessages prepared))) (\<lambda>view.
         pass (Some (compactedAnswer rq cp committed (preparedMessages prepared)
           (reconcileRuntimeMessageEnvelopes (preparedMessages prepared)
              (view @ map toRuntimeMessageEnvelope provided))))))))))))))"

section \<open>The loop over the engine\<close>

record progress =
  stopReason :: "string option"
  assistantError :: "string option"
  assistantFailure :: "kernel_failure option"

definition isAssistant :: "json \<Rightarrow> bool" where
  "isAssistant m = isLiteral (field m ''role'') ''assistant''"

definition messageFailure :: "json \<Rightarrow> kernel_failure option \<Rightarrow> kernel_failure option" where
  "messageFailure m failure =
     (case failure of
        Some f \<Rightarrow> Some f
      | None \<Rightarrow> (if isAssistant m \<and> truthyJson (field m ''failure'')
                 then map_option runtimeFailureFromAIErrorDetails (field m ''failure'') else None))"

fun textOfPart :: "json \<Rightarrow> string" where
  "textOfPart p = (if isLiteral (field p ''type'') ''text'' then textField p ''text'' else [])"

definition extractAssistantText :: "jsval \<Rightarrow> string" where
  "extractAssistantText v =
     (case v of Some (JStr s) \<Rightarrow> s | Some (JArr ps) \<Rightarrow> concat (map textOfPart ps) | _ \<Rightarrow> [])"

definition assistantErrorText :: "json \<Rightarrow> string option" where
  "assistantErrorText m =
     (let own = trim (textField m ''errorMessage''); text = trim (extractAssistantText (field m ''content''))
      in if own \<noteq> [] then Some own else if text \<noteq> [] then Some text else None)"

definition isTurnEnd :: "json \<Rightarrow> bool" where
  "isTurnEnd ob = (isLiteral (field ob ''type'') ''lifecycle'' \<and> isLiteral (field ob ''phase'') ''turn_end'')"

definition appendMessage ::
    "('r, 'e) pipeline_host \<Rightarrow> string \<Rightarrow> json \<Rightarrow> string option \<Rightarrow> string option \<Rightarrow> ('r, 'e, unit) doing" where
  "appendMessage h t m i src =
     look (\<lambda>s. next_do (appendAll h
       [storedEvent s (now h s) (MessageAppended t
          (Some (case i of Some k \<Rightarrow> k | None \<Rightarrow> kernelMessageId t (turnVersion s + 1))) m
          (if truthy src then src else None))]) (\<lambda>_.
     alter (\<lambda>s. s\<lparr>turnMessages := turnMessages s @ [m]\<rparr>)))"

definition providerError :: "progress \<Rightarrow> pipeline_error" where
  "providerError p =
     ExecutionError
       \<lparr>failureCode = (case assistantFailure p of Some f \<Rightarrow> failureCode f | None \<Rightarrow> ''PROVIDER_ERROR''),
        failureMessage = (if truthy (assistantError p) then the (assistantError p)
                          else ''Provider returned an assistant error response''),
        failureRetryable = (case assistantFailure p of Some f \<Rightarrow> failureRetryable f | None \<Rightarrow> False),
        failureOrigin = (case assistantFailure p of Some f \<Rightarrow> failureOrigin f | None \<Rightarrow> ''provider''),
        failureDetails = (case assistantFailure p of Some f \<Rightarrow> failureDetails f | None \<Rightarrow> None)\<rparr>"

definition completeEngine :: "progress \<Rightarrow> string \<Rightarrow> ('r, 'e, progress) doing" where
  "completeEngine p why =
     (if why = ''error'' then abandon (providerError p) else pass (p\<lparr>stopReason := Some why\<rparr>))"

definition acceptMessage ::
    "('r, 'e) pipeline_host \<Rightarrow> string \<Rightarrow> progress \<Rightarrow> json \<Rightarrow> string option \<Rightarrow> kernel_failure option \<Rightarrow> string option
       \<Rightarrow> ('r, 'e, progress) doing" where
  "acceptMessage h t p m i failure src =
     next_do (appendMessage h t m i src) (\<lambda>_.
     next_do (appendRuntimeContext h t) (\<lambda>_.
     pass (if isAssistant m \<and> isLiteral (field m ''stopReason'') ''error''
           then p\<lparr>assistantError := assistantErrorText m, assistantFailure := messageFailure m failure\<rparr> else p)))"

fun liveEvent :: "('r, 'e) pipeline_host \<Rightarrow> string \<Rightarrow> progress \<Rightarrow> engine_event \<Rightarrow> ('r, 'e, progress) doing" where
  "liveEvent h t p (EngineCompleted why) = completeEngine p why"
| "liveEvent h t p (EngineObservation ob) = next_do (publishObservation h t ob) (\<lambda>_. pass p)"
| "liveEvent h t p (EngineMessage m i failure src) = acceptMessage h t p m i failure src"
| "liveEvent h t p (EngineExecutionObservation ob) = pass p"

text \<open>What may still pass once the turn has been aborted.\<close>

fun passesAborted :: "engine_event \<Rightarrow> bool" where
  "passesAborted (EngineObservation ob) = isTurnEnd ob"
| "passesAborted (EngineMessage m i failure src) =
     (isAssistant m \<and> isLiteral (field m ''stopReason'') ''aborted'')"
| "passesAborted _ = False"

fun abortedEvent :: "('r, 'e) pipeline_host \<Rightarrow> string \<Rightarrow> progress \<Rightarrow> engine_event \<Rightarrow> ('r, 'e, progress) doing" where
  "abortedEvent h t p (EngineObservation ob) = next_do (publishObservation h t ob) (\<lambda>_. pass p)"
| "abortedEvent h t p (EngineMessage m i failure src) = next_do (appendMessage h t m i src) (\<lambda>_. pass p)"
| "abortedEvent h t p _ = pass p"

definition handleEvent ::
    "('r, 'e) pipeline_host \<Rightarrow> string \<Rightarrow> progress \<Rightarrow> engine_event \<Rightarrow> ('r, 'e, progress) doing" where
  "handleEvent h t p ev =
     (if truthy (stopReason p) then abandon (turnProtocolError ''Turn engine emitted an event after completion'')
      else case ev of
        EngineExecutionObservation ob \<Rightarrow> next_do (publishExecutionObservation h t ob) (\<lambda>_. pass p)
      | _ \<Rightarrow> look (\<lambda>s.
          if abortedBy h TurnSignal (surroundings s) \<noteq> None \<and> passesAborted ev then abortedEvent h t p ev
          else next_do (throwIfSignalled h TurnSignal) (\<lambda>_. liveEvent h t p ev)))"

text \<open>
  An error in the body of \<open>for await\<close> ends the engine first. The callbacks answer the engine,
  which sees their errors as rejected promises.
\<close>

definition stopOnError :: "('r, 'e) pipeline_host \<Rightarrow> ('r, 'e, 'a) doing \<Rightarrow> ('r, 'e, 'a) doing" where
  "stopOnError h m =
     attempt m (\<lambda>res. case res of
       Inr x \<Rightarrow> pass x
     | Inl e \<Rightarrow> next_do (alter (\<lambda>s. s\<lparr>surroundings := returnEngine h (surroundings s)\<rparr>)) (\<lambda>_. abandon e))"

definition engineStep :: "('r, 'e) pipeline_host \<Rightarrow> ('r, 'e, unit) doing" where
  "engineStep h = alter (\<lambda>s. s\<lparr>surroundings := awaitEngine h (surroundings s)\<rparr>)"

definition answering :: "('a \<Rightarrow> engine_answer) \<Rightarrow> pipeline_error + 'a \<Rightarrow> ('r, 'e, engine_answer) doing" where
  "answering f res = pass (case res of Inl e \<Rightarrow> CallbackThrew e | Inr x \<Rightarrow> f x)"

primrec engineLoop ::
    "engine \<Rightarrow> ('r, 'e) pipeline_host \<Rightarrow> string \<Rightarrow> (checkpoint_request \<Rightarrow> ('r, 'e, checkpoint_answer option) doing)
       \<Rightarrow> progress \<Rightarrow> ('r, 'e, progress) doing" where
  "engineLoop EngineDone h t ck p = next_do (engineStep h) (\<lambda>_. pass p)"
| "engineLoop (EngineThrows e) h t ck p = next_do (engineStep h) (\<lambda>_. abandon e)"
| "engineLoop (Yields ev rest) h t ck p =
     next_do (engineStep h) (\<lambda>_.
     next_do (stopOnError h (handleEvent h t p ev)) (\<lambda>p'. engineLoop rest h t ck p'))"
| "engineLoop (Reports ob rest) h t ck p =
     next_do (engineStep h) (\<lambda>_.
     next_do (publishObservation h t ob) (\<lambda>_. engineLoop rest h t ck p))"
| "engineLoop (QueuesContext cs k) h t ck p =
     next_do (engineStep h) (\<lambda>_.
     next_do (attempt (appendContext h t cs) (answering (\<lambda>_. ContextQueued))) (\<lambda>a. engineLoop (k a) h t ck p))"
| "engineLoop (Checkpoints rq k) h t ck p =
     next_do (engineStep h) (\<lambda>_.
     next_do (attempt (ck rq) (answering CheckpointDone)) (\<lambda>a. engineLoop (k a) h t ck p))"

definition startProgress :: progress where
  "startProgress = \<lparr>stopReason = None, assistantError = None, assistantFailure = None\<rparr>"

definition executeTurn ::
    "('r, 'e) pipeline_host \<Rightarrow> string \<Rightarrow> bound_snapshot \<Rightarrow> jsval \<Rightarrow> json list \<Rightarrow> document option \<Rightarrow> engine_request
       \<Rightarrow> ('r, 'e, string) doing" where
  "executeTurn h t sn model provided source request =
     next_do (enterStage h t Execution) (\<lambda>_.
     next_do (ask (startEngine h sn request)) (\<lambda>engine.
     next_do (engineLoop engine h t (prepareContextCheckpoint h t sn model provided source) startProgress) (\<lambda>p.
     if truthy (stopReason p) then pass (the (stopReason p))
     else abandon (turnProtocolError ''Turn engine completed without a terminal event''))))"

section \<open>Terminal events\<close>

definition isTerminal :: "string \<Rightarrow> stored_event \<Rightarrow> bool" where
  "isTerminal t ev = (payloadTurn (payload ev) = Some t \<and>
     (case payload ev of TurnCompleted u \<Rightarrow> True | TurnCancelled u \<Rightarrow> True | TurnFailed u e \<Rightarrow> True
      | TurnTransferred u x y \<Rightarrow> True | _ \<Rightarrow> False))"

text \<open>One turn of the loop, with what follows a refused append; then the loop with the attempts left.\<close>

definition closeLoaded ::
    "('r, 'e) pipeline_host \<Rightarrow> string \<Rightarrow> stored_event \<Rightarrow> (pipeline_error \<Rightarrow> ('r, 'e, unit) doing) \<Rightarrow> string
       \<Rightarrow> conversation \<Rightarrow> ('r, 'e, unit) doing" where
  "closeLoaded h t ev refused session c =
     (if find (isTerminal t) (events c) \<noteq> None then alter (\<lambda>s. s\<lparr>turnVersion := version c\<rparr>)
      else case recoveryPlan c of
        Inl err \<Rightarrow> abandon (turnProtocolError (protocolMessage err))
      | Inr plan \<Rightarrow>
          if plan \<noteq> Interrupt t
          then abandon (turnProtocolError (''Conversation '' @ session @
                 '' cannot append terminal event for turn '' @ t))
          else attempt (onStore h (appendStored (port h) (conversationId c) (version c) [ev])) (\<lambda>res. case res of
            Inr v \<Rightarrow> next_do (alter (\<lambda>s. s\<lparr>turnVersion := v\<rparr>)) (\<lambda>_. publishStored h [ev])
          | Inl e \<Rightarrow> refused e))"

definition terminalAttempt ::
    "('r, 'e) pipeline_host \<Rightarrow> string \<Rightarrow> stored_event \<Rightarrow> (pipeline_error \<Rightarrow> ('r, 'e, unit) doing) \<Rightarrow> ('r, 'e, unit) doing" where
  "terminalAttempt h t ev refused =
     look (\<lambda>s. next_do (onStore h (loadStored (port h) (activeSession s)))
       (closeLoaded h t ev refused (activeSession s)))"

fun appendTerminalEvent :: "('r, 'e) pipeline_host \<Rightarrow> string \<Rightarrow> stored_event \<Rightarrow> nat \<Rightarrow> ('r, 'e, unit) doing" where
  "appendTerminalEvent h t ev 0 = terminalAttempt h t ev abandon"
| "appendTerminalEvent h t ev (Suc n) = terminalAttempt h t ev (\<lambda>e. appendTerminalEvent h t ev n)"

text \<open>Context is auxiliary: a failure to write it is only reported.\<close>

definition flushBeforeTerminal :: "('r, 'e) pipeline_host \<Rightarrow> string \<Rightarrow> ('r, 'e, unit) doing" where
  "flushBeforeTerminal h t =
     attempt (appendRuntimeContext h t) (\<lambda>res. case res of
       Inr _ \<Rightarrow> pass ()
     | Inl e \<Rightarrow> look (\<lambda>s. publishObserverFailed h (activeSession s) (Some t) ''runtime-context'' e))"

definition reportUnpersisted ::
    "('r, 'e) pipeline_host \<Rightarrow> string \<Rightarrow> pipeline_error \<Rightarrow> ('r, 'e, pipeline_error option) doing" where
  "reportUnpersisted h t e =
     look (\<lambda>s. next_do (publishObserverFailed h (activeSession s) (Some t) ''conversation-repository'' e)
       (\<lambda>_. pass (Some e)))"

text \<open>\<open>None\<close> is \<open>{ ok: true }\<close>.\<close>

definition appendTerminalSafely ::
    "('r, 'e) pipeline_host \<Rightarrow> string \<Rightarrow> event_payload \<Rightarrow> ('r, 'e, pipeline_error option) doing" where
  "appendTerminalSafely h t p =
     look (\<lambda>s. let ev = storedEvent s (now h s) p in
     if \<not> turnStarted s then pass None
     else attempt (next_do (flushBeforeTerminal h t) (\<lambda>_. appendTerminalEvent h t ev 1)) (\<lambda>res. case res of
         Inr _ \<Rightarrow> pass None
       | Inl e \<Rightarrow> reportUnpersisted h t e))"

section \<open>A turn\<close>

datatype turn_result =
    CompletedTurn string string string "json list"
  | CancelledTurn string string "string option" "json list"
  | FailedTurn string string kernel_failure "json list"
  | HandledRequest string

definition abortReason :: "('r, 'e) pipeline_host \<Rightarrow> 'e \<Rightarrow> string option" where
  "abortReason h e =
     (case abortedBy h TurnSignal e of
        None \<Rightarrow> None
      | Some (ThrownString x) \<Rightarrow> Some x
      | Some err \<Rightarrow> (if isErrorObject err then Some (errorMessage err) else None))"

definition finishTurn :: "('r, 'e) pipeline_host \<Rightarrow> string \<Rightarrow> string \<Rightarrow> ('r, 'e, turn_result) doing" where
  "finishTurn h t why =
     next_do (enterStage h t Finalization) (\<lambda>_.
     next_do (appendRuntimeContext h t) (\<lambda>_.
     look (\<lambda>s. next_do (appendAll h [storedEvent s (now h s) (TurnCompleted t)]) (\<lambda>_.
     look (\<lambda>s. pass (CompletedTurn (activeSession s) t why (turnMessages s)))))))"

definition runOpenTurn ::
    "('r, 'e) pipeline_host \<Rightarrow> string \<Rightarrow> bound_snapshot \<Rightarrow> jsval \<Rightarrow> session_input option \<Rightarrow> context_record list \<Rightarrow> bool
       \<Rightarrow> conversation \<times> document option \<times> int \<Rightarrow> ('r, 'e, turn_result) doing" where
  "runOpenTurn h t sn model input cs retrying opened =
     (case opened of (c, d, time) \<Rightarrow>
     next_do (assembleContext h t sn c d time input cs retrying) (\<lambda>a.
     next_do (prepareTurn h t sn model d a) (\<lambda>view.
     next_do (prepareAgentRun h t sn model input time cs view) (\<lambda>request.
     next_do (executeTurn h t sn model (assembledTransient a) d request) (\<lambda>why.
     finishTurn h t why)))))"

definition turnBody ::
    "('r, 'e) pipeline_host \<Rightarrow> string \<Rightarrow> session_input option \<Rightarrow> context_record list \<Rightarrow> bool \<Rightarrow> input_request option
       \<Rightarrow> nat option \<Rightarrow> ('r, 'e, turn_result) doing" where
  "turnBody h t input cs retrying request fallback =
     next_do (bindSnapshot h t input request fallback) (\<lambda>(sn, model).
     next_do (case request of
                None \<Rightarrow> pass (Some input)
              | Some rq \<Rightarrow> next_do (admitRequest h sn model rq) (\<lambda>i. pass (map_option Some i))) (\<lambda>admitted.
     case admitted of
       None \<Rightarrow> look (\<lambda>s. pass (HandledRequest (activeSession s)))
     | Some i \<Rightarrow>
         next_do (openTurn h t i cs) (\<lambda>opened.
         runOpenTurn h t sn model i cs retrying opened)))"

definition cancelTurn :: "('r, 'e) pipeline_host \<Rightarrow> string \<Rightarrow> ('r, 'e, turn_result) doing" where
  "cancelTurn h t =
     look (\<lambda>s. let why = abortReason h (surroundings s) in
     next_do (appendTerminalSafely h t (TurnCancelled t)) (\<lambda>failed.
     case failed of
       Some e \<Rightarrow> abandon (turnPersistenceError e None)
     | None \<Rightarrow> look (\<lambda>s. pass (CancelledTurn (activeSession s) t why (turnMessages s)))))"

definition failTurn :: "('r, 'e) pipeline_host \<Rightarrow> string \<Rightarrow> pipeline_error \<Rightarrow> ('r, 'e, turn_result) doing" where
  "failTurn h t e =
     (let f = normalizeError e in
     look (\<lambda>s. next_do (publishSafely h (ExecutionFailed (activeSession s) t f (now h s))) (\<lambda>_.
     next_do (appendTerminalSafely h t (TurnFailed t (failureJson f))) (\<lambda>failed.
     case failed of
       Some e' \<Rightarrow> abandon (turnPersistenceError e' (Some (t, f)))
     | None \<Rightarrow> look (\<lambda>s. pass (FailedTurn (activeSession s) t f (turnMessages s)))))))"

definition settleError :: "('r, 'e) pipeline_host \<Rightarrow> string \<Rightarrow> bool \<Rightarrow> pipeline_error \<Rightarrow> ('r, 'e, turn_result) doing" where
  "settleError h t requested e =
     look (\<lambda>s.
       if abortedBy h TurnSignal (surroundings s) \<noteq> None \<or> isAbortError e then cancelTurn h t
       else if requested \<and> \<not> turnStarted s then abandon e
       else failTurn h t e)"

definition releaseHeld :: "('r, 'e) pipeline_host \<Rightarrow> lease \<Rightarrow> ('r, 'e, pipeline_error option) doing" where
  "releaseHeld h l =
     (case leaseBinding l of
        None \<Rightarrow> ask (releaseLease h (leaseNumber l))
      | Some p \<Rightarrow>
          next_do (ask (releasePreparer h p)) (\<lambda>e1.
          next_do (ask (releaseLease h (leaseNumber l))) (\<lambda>e2.
          pass (if e1 = None \<and> e2 = None then None
                else Some (NamedError ''AggregateError'' ''Failed to release Prompt input generation'')))))"

definition releaseSnapshotSafely :: "('r, 'e) pipeline_host \<Rightarrow> string \<Rightarrow> ('r, 'e, unit) doing" where
  "releaseSnapshotSafely h t =
     look (\<lambda>s. case heldLease s of
       None \<Rightarrow> pass ()
     | Some l \<Rightarrow>
         next_do (alter (\<lambda>s. s\<lparr>releasedLeases := releasedLeases s @ [leaseNumber l]\<rparr>)) (\<lambda>_.
         next_do (releaseHeld h l) (\<lambda>failed. case failed of
           None \<Rightarrow> pass ()
         | Some e \<Rightarrow> look (\<lambda>s. publishObserverFailed h (activeSession s) (Some t) ''runtime-snapshot-provider'' e))))"

definition runTurn ::
    "('r, 'e) pipeline_host \<Rightarrow> string \<Rightarrow> session_input option \<Rightarrow> context_record list \<Rightarrow> bool \<Rightarrow> input_request option
       \<Rightarrow> nat option \<Rightarrow> ('r, 'e, turn_result) doing" where
  "runTurn h t input cs retrying request fallback =
     attempt (attempt (turnBody h t input cs retrying request fallback) (\<lambda>res. case res of
         Inr x \<Rightarrow> pass x
       | Inl e \<Rightarrow> settleError h t (request \<noteq> None) e)) (\<lambda>res.
     next_do (clearRuntimeContext h) (\<lambda>_.
     next_do (releaseSnapshotSafely h t) (\<lambda>_. ofResult res)))"

text \<open>The local state at the head of \<open>runTurn\<close>, over what lives longer than a call.\<close>

definition enterTurn :: "string \<Rightarrow> ('r, 'e) pipe \<Rightarrow> ('r, 'e) pipe" where
  "enterTurn session s =
     s\<lparr>activeSession := session, identitySession := session, turnVersion := 0, turnStarted := False,
       boundSnapshot := None, turnMessages := [], heldLease := None\<rparr>"

definition assertTurnResult :: "pipeline_error + turn_result \<Rightarrow> pipeline_error + turn_result" where
  "assertTurnResult res =
     (case res of
        Inr (HandledRequest session) \<Rightarrow>
          Inl (NamedError ''Error'' ''A prepared SessionInput cannot produce a handled result'')
      | _ \<Rightarrow> res)"

definition run_input :: "('r, 'e) pipeline_host \<Rightarrow> string \<Rightarrow> string \<Rightarrow> session_input \<Rightarrow> ('r, 'e, turn_result) doing" where
  "run_input h t session input s =
     apfst assertTurnResult (runTurn h t (Some input) [] False None None (enterTurn session s))"

definition runRequest ::
    "('r, 'e) pipeline_host \<Rightarrow> string \<Rightarrow> string \<Rightarrow> input_request \<Rightarrow> nat option \<Rightarrow> ('r, 'e, turn_result) doing" where
  "runRequest h t session rq fallback s = runTurn h t None [] False (Some rq) fallback (enterTurn session s)"

definition continueTurnWith ::
    "('r, 'e) pipeline_host \<Rightarrow> string \<Rightarrow> string \<Rightarrow> context_record list \<Rightarrow> ('r, 'e, turn_result) doing" where
  "continueTurnWith h t session cs s =
     apfst assertTurnResult (runTurn h t None cs False None None (enterTurn session s))"

definition retryTurn :: "('r, 'e) pipeline_host \<Rightarrow> string \<Rightarrow> string \<Rightarrow> ('r, 'e, turn_result) doing" where
  "retryTurn h t session s =
     apfst assertTurnResult (runTurn h t None [] True None None (enterTurn session s))"

section \<open>Sessions\<close>

definition createSession ::
    "('r, 'e) pipeline_host \<Rightarrow> string \<Rightarrow> string option \<Rightarrow> string option \<Rightarrow> ('r, 'e, unit) doing" where
  "createSession h session dir agent =
     look (\<lambda>s. onStore h (createStored (port h) session (now h s)
       (if truthy agent then agent else None) (if truthy dir then dir else None)))"

definition interruptedFailure :: json where
  "interruptedFailure =
     JObj [(''code'', JStr ''turn_interrupted''),
           (''message'', JStr ''Turn interrupted before the session was resumed'')]"

definition resumeSession :: "('r, 'e) pipeline_host \<Rightarrow> string \<Rightarrow> ('r, 'e, unit) doing" where
  "resumeSession h session =
     next_do (onStore h (loadStored (port h) session)) (\<lambda>c.
     case recoveryPlan c of
       Inl err \<Rightarrow> abandon (turnProtocolError (protocolMessage err))
     | Inr Ready \<Rightarrow> pass ()
     | Inr (Interrupt t) \<Rightarrow>
         look (\<lambda>s. let ev = \<lparr>eventSession = session, eventTime = now h s, payload = TurnFailed t interruptedFailure\<rparr> in
         next_do (onStore h (appendStored (port h) session (version c) [ev])) (\<lambda>_.
         publishSafely h (Stored ev))))"

fun publishAll :: "('r, 'e) pipeline_host \<Rightarrow> stored_event list \<Rightarrow> ('r, 'e, unit) doing" where
  "publishAll h [] = pass ()"
| "publishAll h (ev # evs) = next_do (publishSafely h (Stored ev)) (\<lambda>_. publishAll h evs)"

definition recordSessionContext ::
    "('r, 'e) pipeline_host \<Rightarrow> string \<Rightarrow> context_record list \<Rightarrow> ('r, 'e, unit) doing" where
  "recordSessionContext h session cs =
     (if cs = [] then pass ()
      else next_do (onStore h (loadStored (port h) session)) (\<lambda>c.
        look (\<lambda>s. let evs = map (\<lambda>x. \<lparr>eventSession = session, eventTime = contextTime x (now h s),
                                    payload = ContextRecorded x\<rparr>) cs in
        next_do (onStore h (appendStored (port h) session (version c) evs)) (\<lambda>_. publishAll h evs))))"

end
