(* ===== verification/PipelineInvariant.thy ===== *)
theory PipelineInvariant
  imports TurnPipeline
begin

text \<open>
  What every step between the opening and the end of a turn leaves alone. A step is \<open>quiet\<close> when it
  touches neither the log of the turn nor its lease; the locale \<open>turn_invariant\<close> says which
  few steps an invariant of the open turn has to survive, and shows that it then survives the
  whole of context assembly, preparation, checkpoints and engine loop, whatever the
  strategies, observers, engine and store do.
\<close>

section \<open>Steps and what they keep\<close>

named_theorems keep_rules

definition preserves :: "(('r, 'e) pipe \<Rightarrow> bool) \<Rightarrow> ('r, 'e, 'a) doing \<Rightarrow> bool" where
  "preserves I m = (\<forall>s. I s \<longrightarrow> I (snd (m s)))"

lemma preservesI: "(\<And>s x s'. I s \<Longrightarrow> m s = (x, s') \<Longrightarrow> I s') \<Longrightarrow> preserves I m"
  unfolding preserves_def by (metis prod.collapse)

lemma preservesD: "preserves I m \<Longrightarrow> I s \<Longrightarrow> m s = (x, s') \<Longrightarrow> I s'"
  unfolding preserves_def by (metis snd_conv)

lemma preserves_pass [keep_rules]: "preserves I (pass x)"
  by (simp add: preserves_def pass_def)

lemma preserves_abandon [keep_rules]: "preserves I (abandon e)"
  by (simp add: preserves_def abandon_def)

lemma preserves_ofResult [keep_rules]: "preserves I (ofResult x)"
  by (simp add: preserves_def ofResult_def)

lemma preserves_next_do [keep_rules]: "preserves I m \<Longrightarrow> (\<And>x. preserves I (f x)) \<Longrightarrow> preserves I (next_do m f)"
  by (auto simp: preserves_def next_do_def split: prod.splits sum.splits)

lemma preserves_attempt [keep_rules]: "preserves I m \<Longrightarrow> (\<And>x. preserves I (f x)) \<Longrightarrow> preserves I (attempt m f)"
  by (auto simp: preserves_def attempt_def split: prod.splits)

lemma preserves_look [keep_rules]: "(\<And>s. preserves I (f s)) \<Longrightarrow> preserves I (look f)"
  by (simp add: preserves_def look_def)

lemma preserves_look_at: "(\<And>s. I s \<Longrightarrow> I (snd (f s s))) \<Longrightarrow> preserves I (look f)"
  by (simp add: preserves_def look_def)

lemma preserves_if [keep_rules]: "(b \<Longrightarrow> preserves I m) \<Longrightarrow> (\<not> b \<Longrightarrow> preserves I n) \<Longrightarrow> preserves I (if b then m else n)"
  by simp

lemma preserves_option [keep_rules]:
  "(x = None \<Longrightarrow> preserves I m) \<Longrightarrow> (\<And>y. x = Some y \<Longrightarrow> preserves I (f y)) \<Longrightarrow>
     preserves I (case x of None \<Rightarrow> m | Some y \<Rightarrow> f y)"
  by (cases x) auto

lemma preserves_sum [keep_rules]:
  "(\<And>y. x = Inl y \<Longrightarrow> preserves I (f y)) \<Longrightarrow> (\<And>y. x = Inr y \<Longrightarrow> preserves I (g y)) \<Longrightarrow>
     preserves I (case x of Inl y \<Rightarrow> f y | Inr y \<Rightarrow> g y)"
  by (cases x) auto

lemma preserves_list [keep_rules]:
  "(x = [] \<Longrightarrow> preserves I m) \<Longrightarrow> (\<And>y ys. x = y # ys \<Longrightarrow> preserves I (f y ys)) \<Longrightarrow>
     preserves I (case x of [] \<Rightarrow> m | y # ys \<Rightarrow> f y ys)"
  by (cases x) auto

lemma preserves_pair [keep_rules]: "(\<And>y z. x = (y, z) \<Longrightarrow> preserves I (f y z)) \<Longrightarrow> preserves I (case x of (y, z) \<Rightarrow> f y z)"
  by (cases x) auto

lemma preserves_let [keep_rules]: "(\<And>y. y = x \<Longrightarrow> preserves I (f y)) \<Longrightarrow> preserves I (let y = x in f y)"
  by simp

section \<open>Quiet steps\<close>

type_synonym 'r turn_view = "string \<times> int \<times> bool \<times> lease option \<times> nat list \<times> 'r"

definition viewOf :: "('r, 'e) pipe \<Rightarrow> 'r turn_view" where
  "viewOf s = (activeSession s, turnVersion s, turnStarted s, heldLease s, releasedLeases s, store s)"

definition quiet :: "('r, 'e, 'a) doing \<Rightarrow> bool" where
  "quiet m = (\<forall>v. preserves (\<lambda>s. viewOf s = v) m)"

lemma quietI: "(\<And>v. preserves (\<lambda>s. viewOf s = v) m) \<Longrightarrow> quiet m"
  by (simp add: quiet_def)

lemma quietD: "quiet m \<Longrightarrow> viewOf (snd (m s)) = viewOf s"
  unfolding quiet_def preserves_def by blast

lemma quiet_view: "quiet m \<Longrightarrow> m s = (x, s') \<Longrightarrow> viewOf s' = viewOf s"
  by (metis quietD snd_conv)

lemma quiet_preserves: "quiet m \<Longrightarrow> preserves (\<lambda>s. viewOf s = v) m"
  unfolding quiet_def by blast

lemma view_step [keep_rules]:
  "preserves (\<lambda>s. viewOf s = v) (ask f)"
  "preserves (\<lambda>s. viewOf s = v) (asking f')"
  "preserves (\<lambda>s. viewOf s = v) (publishSafely h ev)"
  "preserves (\<lambda>s. viewOf s = v) (takeIncoming h)"
  "preserves (\<lambda>s. viewOf s = v) (onStore h (\<lambda>r. (g r, r)))"
  "preserves (\<lambda>s. viewOf s = v) (engineStep h)"
  "preserves (\<lambda>s. viewOf s = v) (alter (\<lambda>s. s\<lparr>surroundings := e s\<rparr>))"
  "preserves (\<lambda>s. viewOf s = v) (alter (\<lambda>s. s\<lparr>contextBuffer := b s\<rparr>))"
  "preserves (\<lambda>s. viewOf s = v) (alter (\<lambda>s. s\<lparr>turnMessages := ms s\<rparr>))"
  "preserves (\<lambda>s. viewOf s = v) (alter (\<lambda>s. s\<lparr>boundSnapshot := sn s\<rparr>))"
  by (auto simp: preserves_def ask_def asking_def publishSafely_def alter_def takeIncoming_def onStore_def viewOf_def
      engineStep_def split: prod.splits option.splits)

named_theorems quiet_steps

lemmas quiet_basic [quiet_steps] = view_step(1-6) [THEN quietI]

lemma quiet_throwIfSignalled [quiet_steps]: "quiet (throwIfSignalled h sig)"
  unfolding throwIfSignalled_def by (rule quietI) (intro keep_rules)

lemma quiet_enterStage [quiet_steps]: "quiet (enterStage h t st)"
  unfolding enterStage_def by (rule quietI) (intro keep_rules)

lemma quiet_publishObservation [quiet_steps]: "quiet (publishObservation h t ob)"
  unfolding publishObservation_def by (rule quietI) (intro keep_rules)

lemma quiet_publishExecutionObservation [quiet_steps]: "quiet (publishExecutionObservation h t ob)"
  unfolding publishExecutionObservation_def by (rule quietI) (intro keep_rules)

lemma quiet_publishObserverFailed [quiet_steps]: "quiet (publishObserverFailed h session t' ob e)"
  unfolding publishObserverFailed_def by (rule quietI) (intro keep_rules)

lemma quiet_publishObservations [quiet_steps]: "quiet (publishObservations h t obs)"
  by (rule quietI, induction obs) (simp_all, (intro keep_rules quiet_steps [THEN quiet_preserves] | assumption)+)

lemma quiet_notifyEach [quiet_steps]: "quiet (notifyEach h ev obs)"
  by (rule quietI, induction obs) (simp_all, (intro keep_rules quiet_steps [THEN quiet_preserves] | assumption)+)

lemma quiet_notifyObserversSafely [quiet_steps]: "quiet (notifyObserversSafely h ev)"
  unfolding notifyObserversSafely_def by (rule quietI) (intro keep_rules quiet_steps [THEN quiet_preserves])

lemma quiet_publishStored [quiet_steps]: "quiet (publishStored h evs)"
  by (rule quietI, induction evs) (simp_all, (intro keep_rules quiet_steps [THEN quiet_preserves] | assumption)+)

lemma quiet_announceTarget [quiet_steps]: "quiet (announceTarget h a)"
  unfolding announceTarget_def by (rule quietI) (intro keep_rules quiet_steps [THEN quiet_preserves])

lemma quiet_readTurnDocument [quiet_steps]: "quiet (readTurnDocument h)"
  unfolding readTurnDocument_def by (rule quietI) (intro keep_rules quiet_steps [THEN quiet_preserves])

lemma quiet_clearRuntimeContext [quiet_steps]: "quiet (clearRuntimeContext h)"
  unfolding clearRuntimeContext_def by (rule quietI) (intro keep_rules quiet_steps [THEN quiet_preserves])

lemma quiet_collectProviderMessages [quiet_steps]: "quiet (collectProviderMessages h c input ps)"
  by (rule quietI, induction ps) (simp_all, (intro keep_rules quiet_steps [THEN quiet_preserves] | assumption)+)

lemma quiet_callStrategy [quiet_steps]: "quiet (callStrategy h t sn i)"
  unfolding callStrategy_def by (rule quietI) (intro keep_rules quiet_steps [THEN quiet_preserves])

lemma quiet_assembleContext [quiet_steps]: "quiet (assembleContext h t sn c d time input cs retrying)"
  unfolding assembleContext_def by (rule quietI) (intro keep_rules quiet_steps [THEN quiet_preserves])

lemma quiet_admitRequest [quiet_steps]: "quiet (admitRequest h sn model rq)"
proof (rule quietI)
  fix v
  show "preserves (\<lambda>s. viewOf s = v) (admitRequest h sn model rq)"
    unfolding admitRequest_def
  proof (intro keep_rules quiet_steps [THEN quiet_preserves])
    fix prepared
    show "preserves (\<lambda>s. viewOf s = v)
        (case prepared of RequestHandled \<Rightarrow> pass None
         | RequestPrepared i \<Rightarrow> pass (Some (if truthy (requestMessageId rq) \<and> \<not> truthy (inputMessageId i)
             then i\<lparr>inputMessageId := requestMessageId rq\<rparr> else i)))"
      by (cases prepared) (simp_all only: request_preparation.case preserves_pass)
  qed
qed

lemma quiet_reportContinuationFailure [quiet_steps]: "quiet (reportContinuationFailure h t c e)"
  unfolding reportContinuationFailure_def by (rule quietI) (intro keep_rules quiet_steps [THEN quiet_preserves])

section \<open>Steps that cannot fail\<close>

named_theorems succeed_rules

definition succeeds :: "('r, 'e, 'a) doing \<Rightarrow> bool" where
  "succeeds m = (\<forall>s. \<exists>x s'. m s = (Inr x, s'))"

lemma succeedsD: "succeeds m \<Longrightarrow> m s \<noteq> (Inl e, s')"
  unfolding succeeds_def by (metis Inl_Inr_False prod.inject)

lemma succeeds_step [succeed_rules]:
  "succeeds (pass x)" "succeeds (alter f)" "succeeds (ask g)" "succeeds (takeIncoming h)"
  "succeeds (publishSafely h ev)"
  by (auto simp: succeeds_def pass_def alter_def ask_def takeIncoming_def publishSafely_def
      split: option.splits prod.splits)

lemma succeeds_next_do [succeed_rules]: "succeeds m \<Longrightarrow> (\<And>x. succeeds (f x)) \<Longrightarrow> succeeds (next_do m f)"
  unfolding succeeds_def next_do_def by (rule allI) (metis (mono_tags, lifting) old.prod.case old.sum.simps(6))

lemma next_do_unit: "succeeds m \<Longrightarrow> next_do m f s = f () (snd (m s))"
  using succeedsD [of m s] unfolding next_do_def by (auto split: prod.splits sum.splits)

lemma succeeds_look [succeed_rules]: "(\<And>s. succeeds (f s)) \<Longrightarrow> succeeds (look f)"
  by (simp add: succeeds_def look_def)

lemma succeeds_option [succeed_rules]:
  "(x = None \<Longrightarrow> succeeds m) \<Longrightarrow> (\<And>y. x = Some y \<Longrightarrow> succeeds (f y)) \<Longrightarrow>
     succeeds (case x of None \<Rightarrow> m | Some y \<Rightarrow> f y)"
  by (cases x) auto

lemma succeeds_if [succeed_rules]:
  "(b \<Longrightarrow> succeeds m) \<Longrightarrow> (\<not> b \<Longrightarrow> succeeds n) \<Longrightarrow> succeeds (if b then m else n)"
  by simp

lemma succeeds_attempt [succeed_rules]: "(\<And>x. succeeds (f x)) \<Longrightarrow> succeeds (attempt m f)"
  by (simp add: succeeds_def attempt_def split: prod.splits)

lemma succeeds_sum [succeed_rules]:
  "(\<And>y. x = Inl y \<Longrightarrow> succeeds (f y)) \<Longrightarrow> (\<And>y. x = Inr y \<Longrightarrow> succeeds (g y)) \<Longrightarrow>
     succeeds (case x of Inl y \<Rightarrow> f y | Inr y \<Rightarrow> g y)"
  by (cases x) auto

lemma succeeds_publishObserverFailed [succeed_rules]: "succeeds (publishObserverFailed h session t ob e)"
  unfolding publishObserverFailed_def by (intro succeed_rules)

lemma succeeds_notifyEach [succeed_rules]: "succeeds (notifyEach h ev obs)"
  by (induction obs) (simp_all, (intro succeed_rules | assumption)+)

lemma succeeds_notifyObserversSafely [succeed_rules]: "succeeds (notifyObserversSafely h ev)"
  unfolding notifyObserversSafely_def by (intro succeed_rules)

lemma succeeds_publishStored [succeed_rules]: "succeeds (publishStored h evs)"
  by (induction evs) (simp_all, (intro succeed_rules | assumption)+)

lemma succeeds_clearRuntimeContext [succeed_rules]: "succeeds (clearRuntimeContext h)"
  unfolding clearRuntimeContext_def by (intro succeed_rules)

lemma succeeds_releaseSnapshotSafely [succeed_rules]: "succeeds (releaseSnapshotSafely h t)"
  unfolding releaseSnapshotSafely_def releaseHeld_def by (intro succeed_rules)

section \<open>Invariants of an open turn\<close>

text \<open>
  Strategies compact a turn for a threshold or an overflow; \<open>manual\<close> is the reason of the
  command of the user, which runs between turns.
\<close>

definition strategiesYield :: "(compaction \<Rightarrow> bool) \<Rightarrow> ('r, 'e) pipeline_host \<Rightarrow> bool" where
  "strategiesYield admissible h =
     (\<forall>sn i e obs prepared e' c. prepareContext h sn i e = ((obs, Inr prepared), e') \<longrightarrow>
        preparedCompaction prepared = Some c \<longrightarrow> admissible c)"

definition automaticStrategies :: "('r, 'e) pipeline_host \<Rightarrow> bool" where
  "automaticStrategies = strategiesYield (\<lambda>c. reason c \<noteq> Some ''manual'')"

text \<open>A step whose value satisfies a condition.\<close>

definition yieldsOnly :: "('a \<Rightarrow> bool) \<Rightarrow> ('r, 'e, 'a) doing \<Rightarrow> bool" where
  "yieldsOnly Q m = (\<forall>s x s'. m s = (Inr x, s') \<longrightarrow> Q x)"

lemma preserves_next_do_value:
  "preserves I m \<Longrightarrow> yieldsOnly Q m \<Longrightarrow> (\<And>x. Q x \<Longrightarrow> preserves I (f x)) \<Longrightarrow> preserves I (next_do m f)"
  by (auto simp: preserves_def yieldsOnly_def next_do_def split: prod.splits sum.splits) (metis snd_conv)+

lemma callStrategy_admissible:
  "strategiesYield admissible h \<Longrightarrow>
     yieldsOnly (\<lambda>x. \<forall>c. preparedCompaction x = Some c \<longrightarrow> admissible c) (callStrategy h t sn i)"
  unfolding yieldsOnly_def callStrategy_def strategiesYield_def
  by (fastforce simp: next_do_def ask_def ofResult_def split: prod.splits sum.splits)

locale turn_invariant =
  fixes h :: "('r, 'e) pipeline_host" and t :: string and admissible :: "compaction \<Rightarrow> bool"
    and I :: "('r, 'e) pipe \<Rightarrow> bool"
  assumes view: "viewOf s = viewOf s' \<Longrightarrow> I s \<Longrightarrow> I s'"
    and loading: "preserves I (onStore h (loadStored (port h) x))"
    and appending: "I s \<Longrightarrow> \<forall>ev \<in> set evs. eventSession ev = activeSession s \<and> carries (payload ev) t \<Longrightarrow>
      I (snd (appendAll h evs s))"
    and compacting: "admissible c \<Longrightarrow> preserves I (commitCompaction h t sig c)"
    and continuing: "preserves I (continueAfterCompaction h t sig why)"
    and yielded: "strategiesYield admissible h"
begin

lemma quiet_invariant: "quiet m \<Longrightarrow> preserves I m"
  by (rule preservesI) (metis quiet_view view)

lemma alter_view:
  "(\<And>s. viewOf (f s) = viewOf s) \<Longrightarrow> preserves I (alter f)"
  by (rule quiet_invariant, rule quietI) (auto simp: preserves_def alter_def)

lemma contextEvents_carry:
  "\<forall>ev \<in> set (contextEvents s t time cs). eventSession ev = activeSession s \<and> carries (payload ev) t"
  by (auto simp: contextEvents_def storedEvent_def)

lemma appendContext_kept [keep_rules]: "preserves I (appendContext h t cs)"
  unfolding appendContext_def by (rule preserves_look_at) (intro appending contextEvents_carry)

lemma appendRuntimeContext_kept [keep_rules]: "preserves I (appendRuntimeContext h t)"
  unfolding appendRuntimeContext_def
  by (intro keep_rules quiet_steps [THEN quiet_invariant] alter_view) (auto simp: viewOf_def)

lemma appendMessage_kept [keep_rules]: "preserves I (appendMessage h t m i src)"
  unfolding appendMessage_def
proof (rule preserves_look_at)
  fix s assume I: "I s"
  let ?evs = "[storedEvent s (now h s) (MessageAppended t
          (Some (case i of Some k \<Rightarrow> k | None \<Rightarrow> kernelMessageId t (turnVersion s + 1))) m
          (if truthy src then src else None))]"
  have "I (snd (appendAll h ?evs s))"
    using I by (rule appending) (simp add: storedEvent_def)
  moreover have "preserves I (alter (\<lambda>s. s\<lparr>turnMessages := turnMessages s @ [m]\<rparr>))"
    by (rule alter_view) (simp add: viewOf_def)
  ultimately show "I (snd (next_do (appendAll h ?evs) (\<lambda>_. alter (\<lambda>s. s\<lparr>turnMessages := turnMessages s @ [m]\<rparr>)) s))"
    by (auto simp: next_do_def preserves_def split: prod.splits sum.splits)
qed

lemma finalize_kept [keep_rules]: "preserves I (finalizeCommittedCompaction h t sig c i d)"
  unfolding finalizeCommittedCompaction_def by (intro keep_rules quiet_steps [THEN quiet_invariant] continuing)

lemma prepareTurn_kept [keep_rules]: "preserves I (prepareTurn h t sn model d a)"
  unfolding prepareTurn_def Let_def
  by (intro keep_rules quiet_steps [THEN quiet_invariant] preserves_next_do_value [OF _ callStrategy_admissible [OF yielded]] compacting)
    blast

lemma recordPreparation_kept [keep_rules]: "preserves I (recordPreparation h t request extra)"
  unfolding recordPreparation_def Let_def
proof (rule preserves_look_at)
  fix s assume "I s"
  then have "I (snd (appendAll h (contextEvents s t (now h s) extra) s))"
    by (rule appending) (rule contextEvents_carry)
  then show "I (snd (next_do (appendAll h (contextEvents s t (now h s) extra)) (\<lambda>_. pass (g (now h s))) s))"
    for g :: "int \<Rightarrow> engine_request"
    by (auto simp: next_do_def pass_def split: prod.splits sum.splits)
qed

lemma prepareAgentRun_kept [keep_rules]: "preserves I (prepareAgentRun h t sn model input time cs view)"
  unfolding prepareAgentRun_def Let_def by (intro keep_rules quiet_steps [THEN quiet_invariant])

lemma checkpoint_kept [keep_rules]: "preserves I (prepareContextCheckpoint h t sn model provided source rq)"
  unfolding prepareContextCheckpoint_def Let_def
  by (intro keep_rules quiet_steps [THEN quiet_invariant] loading preserves_next_do_value [OF _ callStrategy_admissible [OF yielded]] compacting)
    blast

lemma abortedEvent_kept [keep_rules]: "preserves I (abortedEvent h t p ev)"
  by (cases ev; simp only: abortedEvent.simps; intro keep_rules quiet_steps [THEN quiet_invariant])

lemma liveEvent_kept [keep_rules]: "preserves I (liveEvent h t p ev)"
  by (cases ev; simp only: liveEvent.simps completeEngine_def acceptMessage_def;
      intro keep_rules quiet_steps [THEN quiet_invariant])

lemma handleEvent_kept [keep_rules]: "preserves I (handleEvent h t p ev)"
  unfolding handleEvent_def
  by (cases ev; simp only: engine_event.case; intro keep_rules quiet_steps [THEN quiet_invariant])

lemma stopOnError_kept [keep_rules]: "preserves I m \<Longrightarrow> preserves I (stopOnError h m)"
  unfolding stopOnError_def by (intro keep_rules alter_view) (auto simp: viewOf_def)

lemma answering_kept [keep_rules]: "preserves I (answering f res)"
  unfolding answering_def by (rule preserves_pass)

lemma engineLoop_kept [keep_rules]:
  assumes "\<And>rq. preserves I (ck rq)"
  shows "preserves I (engineLoop g h t ck p)"
proof (induction g arbitrary: p)
  case (QueuesContext cs k)
  show ?case unfolding engineLoop.simps
    by (intro keep_rules quiet_steps [THEN quiet_invariant]) (rule QueuesContext, blast)
next
  case (Checkpoints rq k)
  show ?case unfolding engineLoop.simps
    by (intro keep_rules assms quiet_steps [THEN quiet_invariant]) (rule Checkpoints, blast)
qed (simp_all only: engineLoop.simps, (intro keep_rules quiet_steps [THEN quiet_invariant] | assumption)+)

lemma executeTurn_kept [keep_rules]: "preserves I (executeTurn h t sn model provided source request)"
  unfolding executeTurn_def by (intro keep_rules quiet_steps [THEN quiet_invariant])

end

end
