(* ===== verification/PipelineJournal.thy ===== *)
theory PipelineJournal
  imports PipelineInvariant
begin

text \<open>
  What the turn pipeline needs of a conversation repository, and what it makes of it. The locale
  \<open>conversation_journal\<close> states the contract of \<open>ConversationRepository\<close> and
  \<open>ConversationContinuationStore\<close> (\<open>kernel/contracts.ts\<close>) for a store that may also fail after
  it has written, so that the caller never learns of it; \<open>acknowledging_journal\<close> extends it to
  stores for which an error means that nothing was written. Both are interpreted on the in-process
  repository. The invariant of an open turn over any such store is an instance of
  \<open>turn_invariant\<close>.
\<close>

section \<open>Contract of the store\<close>

definition grownLog :: "conversation \<Rightarrow> stored_event list \<Rightarrow> conversation \<Rightarrow> bool" where
  "grownLog c evs c' =
     (conversationId c' = conversationId c \<and> version c' = version c + int (length evs) \<and>
      events c' = events c @ evs)"

definition appendedTo ::
    "(string \<rightharpoonup> conversation) \<Rightarrow> string \<Rightarrow> int \<Rightarrow> stored_event list \<Rightarrow> (string \<rightharpoonup> conversation) \<Rightarrow> bool" where
  "appendedTo logs s v evs logs' =
     (\<exists>c c'. logs s = Some c \<and> version c = v \<and> grownLog c evs c' \<and> logs' = logs(s \<mapsto> c'))"

definition continuedTo ::
    "(string \<rightharpoonup> conversation) \<Rightarrow> continue_input \<Rightarrow> string \<Rightarrow> (string \<rightharpoonup> conversation) \<Rightarrow> bool" where
  "continuedTo logs i target logs' =
     (\<exists>c c' d. logs (sourceSessionId i) = Some c \<and> version c = expectedVersion i \<and>
        recoveryPlan c = Inr (Interrupt (continueTurn i)) \<and> grownLog c [transferEvent i target] c' \<and>
        logs target = None \<and> conversationId d = target \<and> version d = 1 \<and> events d = [continueEvent i target] \<and>
        logs' = logs(sourceSessionId i \<mapsto> c', target \<mapsto> d))"

locale conversation_journal =
  fixes logOf :: "'r \<Rightarrow> string \<rightharpoonup> conversation" and p :: "'r conversation_port"
  assumes load_same: "loadStored p s r = (x, r') \<Longrightarrow> logOf r' = logOf r"
    and load_answer: "loadStored p s r = (Inr c, r') \<Longrightarrow> logOf r s = Some c"
    and append_answer: "appendStored p s v evs r = (Inr n, r') \<Longrightarrow>
      appendedTo (logOf r) s v evs (logOf r') \<and> n = v + int (length evs)"
    and append_error: "appendStored p s v evs r = (Inl e, r') \<Longrightarrow>
      logOf r' = logOf r \<or> appendedTo (logOf r) s v evs (logOf r')"
    and continue_answer: "continueStored p = Some f \<Longrightarrow> f i r = (Inr a, r') \<Longrightarrow>
      continuedTo (logOf r) i (targetSession a) (logOf r')"
    and continue_error: "continueStored p = Some f \<Longrightarrow> f i r = (Inl e, r') \<Longrightarrow>
      logOf r' = logOf r \<or> (\<exists>target. continuedTo (logOf r) i target (logOf r'))"

locale acknowledging_journal = conversation_journal +
  assumes append_nothing: "appendStored p s v evs r = (Inl e, r') \<Longrightarrow> logOf r' = logOf r"
    and continue_nothing: "continueStored p = Some f \<Longrightarrow> f i r = (Inl e, r') \<Longrightarrow> logOf r' = logOf r"
    and continue_consistent: "continueStored p = Some f \<Longrightarrow> f i r = (Inr a, r') \<Longrightarrow>
      consistentTransition (continueTurn i) (sourceSessionId i) (expectedVersion i) (snapshotId i) (continueReason i) a"

section \<open>Logs with an open turn\<close>

definition ownLog :: "('r \<Rightarrow> string \<rightharpoonup> conversation) \<Rightarrow> ('r, 'e) pipe \<Rightarrow> conversation \<Rightarrow> bool" where
  "ownLog logOf s c =
     (logOf (store s) (activeSession s) = Some c \<and> conversationId c = activeSession s \<and>
      (\<forall>ev \<in> set (events c). eventSession ev = activeSession s))"

definition unusedFor :: "string \<Rightarrow> conversation \<Rightarrow> bool" where
  "unusedFor t c = (\<forall>ev \<in> set (events c). \<not> closes (payload ev) t)"

definition openFor :: "string \<Rightarrow> conversation \<Rightarrow> bool" where
  "openFor t c = (openLog (map payload (events c)) t \<and> unusedFor t c)"

definition endedFor :: "string \<Rightarrow> conversation \<Rightarrow> bool" where
  "endedFor t c = (closedLog (map payload (events c)) \<and> \<not> unusedFor t c)"

definition live :: "('r \<Rightarrow> string \<rightharpoonup> conversation) \<Rightarrow> string \<Rightarrow> ('r, 'e) pipe \<Rightarrow> bool" where
  "live logOf t s =
     (turnStarted s \<and> (\<exists>c. ownLog logOf s c \<and> turnVersion s \<le> version c \<and>
        (openFor t c \<or> endedFor t c \<and> turnVersion s < version c)))"

definition openNow :: "('r \<Rightarrow> string \<rightharpoonup> conversation) \<Rightarrow> string \<Rightarrow> ('r, 'e) pipe \<Rightarrow> bool" where
  "openNow logOf t s = (turnStarted s \<and> (\<exists>c. ownLog logOf s c \<and> openFor t c))"

lemma carries_closes: "carries q t \<Longrightarrow> \<not> closes q u"
  by (cases q) auto

lemma openLog_carries:
  "openLog ps t \<Longrightarrow> \<forall>q \<in> set qs. carries q t \<Longrightarrow> openLog (ps @ qs) t"
  by (induction qs rule: rev_induct) (auto dest: openLog_carry simp flip: append_assoc)

lemma grown_open:
  assumes "openFor t c" "grownLog c evs c'" "\<forall>ev \<in> set evs. carries (payload ev) t"
  shows "openFor t c'"
  using assms by (auto simp: openFor_def grownLog_def unusedFor_def intro!: openLog_carries dest: carries_closes)

lemma grown_ended:
  assumes "openFor t c" "grownLog c [ev] c'" "closes (payload ev) t"
  shows "endedFor t c'"
  using assms by (auto simp: openFor_def endedFor_def grownLog_def unusedFor_def intro: openLog_close)

lemma openFor_plan: "ownLog logOf s c \<Longrightarrow> openFor t c \<Longrightarrow> recoveryPlan c = Inr (Interrupt t)"
  by (auto simp: ownLog_def openFor_def recoveryPlan_def planLoop_open truthy_iff elim: openLogE)

lemma closed_plan:
  assumes "ownLog logOf s c" "closedLog (map payload (events c))"
  shows "recoveryPlan c = Inr Ready"
  using planLoop_closed [OF assms(2) refl, of "conversationId c"] assms(1)
  by (auto simp: ownLog_def recoveryPlan_def)

lemma endedFor_plan: "ownLog logOf s c \<Longrightarrow> endedFor t c \<Longrightarrow> recoveryPlan c = Inr Ready"
  by (auto simp: endedFor_def intro: closed_plan)

lemma closed_not_open: "ownLog logOf s c \<Longrightarrow> closedLog (map payload (events c)) \<Longrightarrow> \<not> openFor t c"
  using closed_plan openFor_plan by fastforce

lemma ownLog_grown:
  assumes "ownLog logOf s c" "grownLog c evs c'" "\<forall>ev \<in> set evs. eventSession ev = activeSession s"
    and "logOf (store s') = (logOf (store s))(activeSession s \<mapsto> c')" "activeSession s' = activeSession s"
  shows "ownLog logOf s' c'"
  using assms by (auto simp: ownLog_def grownLog_def)

lemma ownLog_view: "viewOf s = viewOf s' \<Longrightarrow> ownLog logOf s c = ownLog logOf s' c"
  by (auto simp: viewOf_def ownLog_def)

lemma live_view: "viewOf s = viewOf s' \<Longrightarrow> live logOf t s \<Longrightarrow> live logOf t s'"
  using ownLog_view unfolding live_def by (fastforce simp: viewOf_def)

lemma openNow_view: "viewOf s = viewOf s' \<Longrightarrow> openNow logOf t s \<Longrightarrow> openNow logOf t s'"
  using ownLog_view unfolding openNow_def by (fastforce simp: viewOf_def)

section \<open>Calls of the store\<close>

lemma onStore_eq:
  "onStore h f s = (x, s') \<longleftrightarrow>
     (\<exists>r. f (store s) = (x, r) \<and> s' = s\<lparr>store := r, surroundings := awaitStore h (surroundings s)\<rparr>)"
  by (auto simp: onStore_def split: prod.splits)

text \<open>A store call in a view: only the store differs.\<close>

lemma appendAll_cases:
  assumes "appendAll h evs s = (x, s')"
  obtains (stored) n r where "appendStored (port h) (activeSession s) (turnVersion s) evs (store s) = (Inr n, r)"
      "x = Inr ()" "viewOf s' = (activeSession s, n, turnStarted s, heldLease s, releasedLeases s, r)"
    | (failed) e r where "appendStored (port h) (activeSession s) (turnVersion s) evs (store s) = (Inl e, r)"
      "x = Inl e" "viewOf s' = (activeSession s, turnVersion s, turnStarted s, heldLease s, releasedLeases s, r)"
proof -
  obtain y r where call: "appendStored (port h) (activeSession s) (turnVersion s) evs (store s) = (y, r)"
    by fastforce
  define s1 where "s1 = s\<lparr>store := r, surroundings := awaitStore h (surroundings s)\<rparr>"
  have on: "onStore h (appendStored (port h) (activeSession s) (turnVersion s) evs) s = (y, s1)"
    using call by (simp add: onStore_eq s1_def)
  show thesis
  proof (cases y)
    case (Inl e)
    then have "x = Inl e" "s' = s1" using assms on by (auto simp: appendAll_def look_def next_do_def)
    then show ?thesis using failed [OF call [unfolded Inl]] by (simp add: s1_def viewOf_def)
  next
    case (Inr n)
    then have run: "publishStored h evs (s1\<lparr>turnVersion := n\<rparr>) = (x, s')"
      using assms on by (simp add: appendAll_def look_def next_do_def alter_def)
    then have "x = Inr ()" using succeedsD [OF succeeds_publishStored, of h evs "s1\<lparr>turnVersion := n\<rparr>"]
      by (cases x) auto
    moreover have "viewOf s' = viewOf (s1\<lparr>turnVersion := n\<rparr>)" using quiet_view [OF quiet_publishStored run] .
    ultimately show ?thesis using stored [OF call [unfolded Inr]] by (simp add: s1_def viewOf_def)
  qed
qed

text \<open>Same for a compaction: the version is the new one only after the document has been read again.\<close>

lemma commitCompaction_cases:
  assumes "commitCompaction h t sig c s = (x, s')"
  obtains (idle) "viewOf s' = viewOf s"
    | (stored) n r ev v where "appendStored (port h) (activeSession s) (turnVersion s) [ev] (store s) = (Inr n, r)"
      "eventSession ev = activeSession s" "payload ev = ContextCompacted (Some t) (ContextCompaction c)"
      "viewOf s' = (activeSession s, v, turnStarted s, heldLease s, releasedLeases s, r)" "v = n \<or> v = turnVersion s"
    | (failed) e r ev where "appendStored (port h) (activeSession s) (turnVersion s) [ev] (store s) = (Inl e, r)"
      "eventSession ev = activeSession s" "payload ev = ContextCompacted (Some t) (ContextCompaction c)"
      "viewOf s' = (activeSession s, turnVersion s, turnStarted s, heldLease s, releasedLeases s, r)"
proof -
  obtain y s1 where commit: "commitRecord h t sig c s = (y, s1)" by fastforce
  have error: "viewOf s' = viewOf s1" if "y = Inl e" for e
  proof -
    have "quiet (next_do (if reason c \<noteq> Some ''manual'' then publishObservation h t (compactionEnd c e) else pass ())
        (\<lambda>_. abandon e) :: ('a, 'b, document option) doing)"
      by (rule quietI) (intro keep_rules quiet_steps [THEN quiet_preserves])
    then show ?thesis using assms commit that quiet_view unfolding commitCompaction_def attempt_def by fastforce
  qed
  have success: "viewOf s' = viewOf (s1\<lparr>turnVersion := v\<rparr>)" if "y = Inr (v, d)" for v d
    using assms commit that by (auto simp: commitCompaction_def attempt_def next_do_def alter_def pass_def)
  show thesis
  proof (cases "throwIfSignalled h sig s")
    case (Pair w s0)
    then have s0: "s0 = s" by (auto simp: throwIfSignalled_def look_def pass_def abandon_def split: option.splits)
    show ?thesis
    proof (cases w)
      case (Inl e)
      then have "y = Inl e" "s1 = s" using commit Pair s0 by (auto simp: commitRecord_def next_do_def)
      then show ?thesis using idle error by metis
    next
      case (Inr u)
      define ev where "ev = storedEvent s (now h s) (ContextCompacted (Some t) (ContextCompaction c))"
      have ev: "eventSession ev = activeSession s" "payload ev = ContextCompacted (Some t) (ContextCompaction c)"
        by (simp_all add: ev_def storedEvent_def)
      obtain z r where call: "appendStored (port h) (activeSession s) (turnVersion s) [ev] (store s) = (z, r)"
        by fastforce
      define s2 where "s2 = s\<lparr>store := r, surroundings := awaitStore h (surroundings s)\<rparr>"
      have on: "onStore h (appendStored (port h) (activeSession s) (turnVersion s) [ev]) s = (z, s2)"
        using call by (simp add: onStore_eq s2_def)
      show ?thesis
      proof (cases z)
        case (Inl e)
        then have "y = Inl e" "s1 = s2" using commit Pair s0 Inr on
          by (auto simp: commitRecord_def next_do_def look_def Let_def simp flip: ev_def)
        then have "viewOf s' = viewOf s2" using error by simp
        then show ?thesis using failed [OF call [unfolded Inl] ev] by (simp add: s2_def viewOf_def)
      next
        case (Inr n)
        let ?rest = "next_do (publishStored h [ev]) (\<lambda>_. next_do (readTurnDocument h) (\<lambda>d. pass (n, d)))"
        have rest: "?rest s2 = (y, s1)" using commit Pair s0 \<open>w = Inr u\<close> Inr on
          by (auto simp: commitRecord_def next_do_def look_def Let_def simp flip: ev_def)
        have "quiet (?rest :: ('a, 'b, int \<times> document option) doing)"
          by (rule quietI) (intro keep_rules quiet_steps [THEN quiet_preserves])
        then have v1: "viewOf s1 = viewOf s2" using quiet_view rest by blast
        have vn: "v = n" if "y = Inr (v, d)" for v d
          using rest that by (auto simp: next_do_def pass_def split: prod.splits sum.splits)
        show ?thesis
        proof (cases y)
          case (Inl e)
          then have "viewOf s' = viewOf s2" using error v1 by simp
          then show ?thesis
            using stored [OF call [unfolded \<open>z = Inr n\<close>] ev, of "turnVersion s"] by (simp add: s2_def viewOf_def)
        next
          case (Inr vd)
          then obtain d where "y = Inr (n, d)" using vn by (cases vd) auto
          then have "viewOf s' = (activeSession s, n, turnStarted s, heldLease s, releasedLeases s, r)"
            using success [of n d] v1 by (simp add: s2_def viewOf_def)
          then show ?thesis using stored [OF call [unfolded \<open>z = Inr n\<close>] ev, of n] by simp
        qed
      qed
    qed
  qed
qed

text \<open>A continuation: refused, stored without the turn learning of it, or followed.\<close>

lemma continueAfterCompaction_cases:
  assumes "continueAfterCompaction h t sig why s = (x, s')"
  obtains (idle) "viewOf s' = viewOf s"
    | (failed) f i e r where "continueStored (port h) = Some f" "f i (store s) = (Inl e, r)"
      "sourceSessionId i = activeSession s" "expectedVersion i = turnVersion s" "continueTurn i = t"
      "viewOf s' = (activeSession s, turnVersion s, turnStarted s, heldLease s, releasedLeases s, r)"
    | (odd) f i a r where "continueStored (port h) = Some f" "f i (store s) = (Inr a, r)"
      "sourceSessionId i = activeSession s" "expectedVersion i = turnVersion s" "continueTurn i = t"
      "\<not> consistentTransition (continueTurn i) (sourceSessionId i) (expectedVersion i) (snapshotId i) (continueReason i) a"
      "viewOf s' = (activeSession s, turnVersion s, turnStarted s, heldLease s, releasedLeases s, r)"
    | (moved) f i a r where "continueStored (port h) = Some f" "f i (store s) = (Inr a, r)"
      "sourceSessionId i = activeSession s" "expectedVersion i = turnVersion s" "continueTurn i = t"
      "targetVersion a = 1"
      "viewOf s' = (targetSession a, 1, turnStarted s, heldLease s, releasedLeases s, r)"
proof (cases "continueStored (port h)")
  case None
  then show thesis using assms idle by (auto simp: continueAfterCompaction_def abandon_def)
next
  case (Some f)
  show thesis
  proof (cases "boundSnapshot s")
    case None
    then show thesis using assms idle Some by (auto simp: continueAfterCompaction_def abandon_def look_def)
  next
    case (Some sn)
    define i where "i = \<lparr>sourceSessionId = activeSession s, expectedVersion = turnVersion s, continueTurn = t,
        snapshotId = snapshotIdent sn, continueReason = why, continueTime = now h s\<rparr>"
    have i: "sourceSessionId i = activeSession s" "expectedVersion i = turnVersion s" "continueTurn i = t"
        "snapshotId i = snapshotIdent sn" "continueReason i = why"
      by (simp_all add: i_def)
    note f = \<open>continueStored (port h) = Some f\<close>
    obtain y r where call: "f i (store s) = (y, r)" by fastforce
    define s2 where "s2 = s\<lparr>store := r, surroundings := awaitStore h (surroundings s)\<rparr>"
    have on: "onStore h (f i) s = (y, s2)" using call by (simp add: onStore_eq s2_def)
    show thesis
    proof (cases "abortedBy h sig (surroundings s)")
      case (Some e)
      then show thesis using assms idle f \<open>boundSnapshot s = Some sn\<close>
        by (auto simp: continueAfterCompaction_def abandon_def look_def next_do_def throwIfSignalled_def)
    next
      case None
      have run: "continueAfterCompaction h t sig why s =
          next_do (onStore h (f i)) (\<lambda>a.
            if \<not> consistentTransition t (activeSession s) (turnVersion s) (snapshotIdent sn) why a
            then abandon (turnProtocolError ''Conversation continuation store returned an inconsistent transition'')
            else next_do (moveToTarget h t (activeSession s) why a) (\<lambda>_. pass a)) s"
        using None f \<open>boundSnapshot s = Some sn\<close>
        by (simp add: continueAfterCompaction_def look_def next_do_def throwIfSignalled_def pass_def i_def)
      show thesis
      proof (cases y)
        case (Inl e)
        then show thesis using failed [OF f call [unfolded Inl] i(1-3)] assms run on
          by (auto simp: next_do_def s2_def viewOf_def)
      next
        case (Inr a)
        show thesis
        proof (cases "consistentTransition t (activeSession s) (turnVersion s) (snapshotIdent sn) why a")
          case False
          then show thesis using odd [OF f call [unfolded Inr] i(1-3)] i assms run on Inr
            by (auto simp: next_do_def s2_def viewOf_def abandon_def)
        next
          case True
          then have one: "targetVersion a = 1" by (simp add: consistentTransition_def)
          let ?s3 = "snd (publishStored h [transferredEvent a] s2)"
          let ?s4 = "?s3\<lparr>identitySession := targetSession a, activeSession := targetSession a, turnVersion := 0\<rparr>"
          let ?e1 = "ConversationContinued (activeSession s) (targetSession a) t why
                (seedConversation a) (seedDocument a) (eventTime (continuedEvent a))"
          let ?s5 = "snd (publishSafely h (Stored (continuedEvent a)) (snd (publishSafely h ?e1 ?s4)))"
          have "moveToTarget h t (activeSession s) why a s2 = announceTarget h a (?s5\<lparr>turnVersion := targetVersion a\<rparr>)"
            unfolding moveToTarget_def
            by (simp only: next_do_unit succeed_rules) (simp add: alter_def next_do_def)
          moreover have "viewOf ?s3 = viewOf s2" using quietD [OF quiet_publishStored] .
          moreover have "viewOf ?s5 = viewOf ?s4" using quietD [OF quiet_basic(3)] by metis
          moreover have "continueAfterCompaction h t sig why s =
              next_do (moveToTarget h t (activeSession s) why a) (\<lambda>_. pass a) s2"
            using run on Inr True by (simp add: next_do_def)
          ultimately have "viewOf s' = viewOf (?s5\<lparr>turnVersion := targetVersion a\<rparr>)"
            and "viewOf ?s5 = viewOf ?s4" "viewOf ?s3 = viewOf s2"
            using assms quietD [OF quiet_announceTarget, of h a "?s5\<lparr>turnVersion := targetVersion a\<rparr>"]
            by (auto simp: next_do_def pass_def split: prod.splits sum.splits)
          then show thesis using moved [OF f call [unfolded Inr] i(1-3) one] one
            by (simp add: s2_def viewOf_def)
        qed
      qed
    qed
  qed
qed

end
