(* ===== verification/PipelineTurn.thy ===== *)
theory PipelineTurn
  imports PipelineJournal
begin

text \<open>
  A turn over a conversation journal. The two invariants of an open turn are instances of
  \<open>turn_invariant\<close>: over any journal the log of the turn stays open, or was ended by a write the
  turn never learned of, so that its version is behind and every further append is refused; over
  an acknowledging journal it stays open. From them follow what the opening, the terminal event
  and the whole of \<open>runTurn\<close> make of the log.
\<close>

section \<open>One step on the log of the turn\<close>

lemma live_appended:
  assumes "live logOf t s" "appendedTo (logOf (store s)) (activeSession s) (turnVersion s) evs (logOf r)"
    and "\<forall>ev \<in> set evs. eventSession ev = activeSession s \<and> carries (payload ev) t"
    and "viewOf s' = (activeSession s, v, turnStarted s, heldLease s, releasedLeases s, r)"
    and "v = turnVersion s + int (length evs) \<or> v = turnVersion s"
  shows "live logOf t s'"
proof -
  from assms(1) obtain c where c: "ownLog logOf s c" "openFor t c \<or> turnVersion s < version c" "turnStarted s"
    by (auto simp: live_def)
  from assms(2) obtain c' where c': "version c = turnVersion s" "grownLog c evs c'"
    "logOf r = (logOf (store s))(activeSession s \<mapsto> c')"
    using c(1) by (auto simp: appendedTo_def ownLog_def)
  have "openFor t c'" using c(2) c' assms(3) by (auto intro: grown_open)
  moreover have "ownLog logOf s' c'"
    using ownLog_grown [OF c(1) c'(2)] assms(3,4) c'(3) by (auto simp: viewOf_def)
  moreover have "turnVersion s' \<le> version c'" "turnStarted s'"
    using assms(4,5) c' c(3) by (auto simp: viewOf_def grownLog_def)
  ultimately show ?thesis by (auto simp: live_def)
qed

lemma openNow_appended:
  assumes "openNow logOf t s" "appendedTo (logOf (store s)) (activeSession s) (turnVersion s) evs (logOf r)"
    and "\<forall>ev \<in> set evs. eventSession ev = activeSession s \<and> carries (payload ev) t"
    and "viewOf s' = (activeSession s, v, turnStarted s, heldLease s, releasedLeases s, r)"
  shows "openNow logOf t s'"
proof -
  from assms(1) obtain c where c: "ownLog logOf s c" "openFor t c" "turnStarted s"
    by (auto simp: openNow_def)
  from assms(2) obtain c' where c': "grownLog c evs c'" "logOf r = (logOf (store s))(activeSession s \<mapsto> c')"
    using c(1) by (auto simp: appendedTo_def ownLog_def)
  have "openFor t c'" using c(2) c' assms(3) by (auto intro: grown_open)
  moreover have "ownLog logOf s' c'"
    using ownLog_grown [OF c(1) c'(1)] assms(3,4) c'(2) by (auto simp: viewOf_def)
  ultimately show ?thesis using assms(4) c(3) by (auto simp: openNow_def viewOf_def)
qed

lemma same_log:
  assumes "logOf r = logOf (store s)" "viewOf s' = (activeSession s, turnVersion s, turnStarted s, l, n, r)"
  shows "ownLog logOf s' c = ownLog logOf s c" "live logOf t s' = live logOf t s" "openNow logOf t s' = openNow logOf t s"
  using assms by (auto simp: viewOf_def ownLog_def live_def openNow_def)

lemma target_open:
  assumes "continuedTo logs i target logs'" "continueTurn i \<noteq> []"
    and "logOf r = logs'" "viewOf s' = (target, 1, True, l, n, r)"
  shows "\<exists>d. ownLog logOf s' d \<and> openFor (continueTurn i) d \<and> version d = 1"
proof -
  from assms(1) obtain d where d: "conversationId d = target" "version d = 1" "events d = [continueEvent i target]"
    "logs' target = Some d"
    by (auto simp: continuedTo_def)
  have "openLog ([] @ [payload (continueEvent i target)]) (continueTurn i)"
    by (rule openLog_start) (auto intro: closedLog.empty simp: continueEvent_def assms(2))
  then show ?thesis using d assms(3,4)
    by (intro exI [of _ d]) (auto simp: openFor_def unusedFor_def ownLog_def viewOf_def continueEvent_def)
qed

lemma source_ended:
  assumes "continuedTo (logOf (store s)) i target (logOf r)" "sourceSessionId i = activeSession s"
    and "expectedVersion i = turnVersion s" "continueTurn i = t" "live logOf t s"
    and "viewOf s' = (activeSession s, turnVersion s, turnStarted s, l, n, r)"
  shows "live logOf t s'"
proof -
  from assms(5) obtain c where c: "ownLog logOf s c" "openFor t c \<or> turnVersion s < version c" "turnStarted s"
    by (auto simp: live_def)
  have log: "logOf (store s) (sourceSessionId i) = Some c" using c(1) assms(2) by (simp add: ownLog_def)
  from assms(1) obtain c' d where c': "version c = expectedVersion i" "grownLog c [transferEvent i target] c'"
    "logOf (store s) target = None" "logOf r = (logOf (store s))(sourceSessionId i \<mapsto> c', target \<mapsto> d)"
    unfolding continuedTo_def log by auto
  have at: "logOf r (activeSession s) = Some c'" using c'(3,4) log assms(2) by (cases "target = activeSession s") auto
  have "endedFor t c'" using c(2) c'(1,2) assms(3,4) by (auto intro!: grown_ended simp: transferEvent_def)
  moreover have "ownLog logOf s' c'"
    using c(1) c'(2) at assms(2,6) by (auto simp: ownLog_def grownLog_def viewOf_def transferEvent_def)
  ultimately show ?thesis using assms(3,6) c(3) c'(1,2) by (auto simp: live_def viewOf_def grownLog_def)
qed

section \<open>The invariants\<close>

locale journaled_turn = conversation_journal logOf "port h"
  for logOf :: "'r \<Rightarrow> string \<rightharpoonup> conversation" and h :: "('r, 'e) pipeline_host" +
  fixes t :: string
  assumes named: "t \<noteq> []" and automaticHost: "automaticStrategies h"
begin

lemma load_preserves: "(\<And>s s'. logOf (store s') = logOf (store s) \<Longrightarrow>
    viewOf s' = (activeSession s, turnVersion s, turnStarted s, heldLease s, releasedLeases s, store s') \<Longrightarrow> I s \<Longrightarrow> I s') \<Longrightarrow>
  preserves I (onStore h (loadStored (port h) x))"
proof (rule preservesI)
  fix s y s'
  assume I: "I s" and run: "onStore h (loadStored (port h) x) s = (y, s')"
    and "\<And>s s'. logOf (store s') = logOf (store s) \<Longrightarrow>
      viewOf s' = (activeSession s, turnVersion s, turnStarted s, heldLease s, releasedLeases s, store s') \<Longrightarrow> I s \<Longrightarrow> I s'"
  note step = this(3)
  from run obtain r where "loadStored (port h) x (store s) = (y, r)"
    and s': "s' = s\<lparr>store := r, surroundings := awaitStore h (surroundings s)\<rparr>"
    by (auto simp: onStore_eq)
  then have "logOf r = logOf (store s)" by (blast dest: load_same)
  then show "I s'" by (intro step [OF _ _ I]) (auto simp: s' viewOf_def)
qed

lemma append_live:
  assumes "live logOf t s" "\<forall>ev \<in> set evs. eventSession ev = activeSession s \<and> carries (payload ev) t"
  shows "live logOf t (snd (appendAll h evs s))"
proof -
  obtain x s' where run: "appendAll h evs s = (x, s')" by fastforce
  then have "live logOf t s'"
  proof (cases rule: appendAll_cases)
    case (stored n r)
    with append_answer [OF stored(1)] show ?thesis by (auto intro: live_appended [OF assms(1) _ assms(2)])
  next
    case (failed e r)
    with append_error [OF failed(1)] show ?thesis
      by (auto intro: live_appended [OF assms(1) _ assms(2)] simp: same_log(2) assms(1))
  qed
  with run show ?thesis by simp
qed

lemma compact_live:
  assumes "reason c \<noteq> Some ''manual''"
  shows "preserves (live logOf t) (commitCompaction h t sig c)"
proof (rule preservesI)
  fix s x s'
  assume I: "live logOf t s" and run: "commitCompaction h t sig c s = (x, s')"
  have ev: "\<forall>e \<in> set [ev]. eventSession e = activeSession s \<and> carries (payload e) t"
    if "eventSession ev = activeSession s" "payload ev = ContextCompacted (Some t) (ContextCompaction c)" for ev
    using that assms by simp
  from run show "live logOf t s'"
  proof (cases rule: commitCompaction_cases)
    case idle
    then show ?thesis using live_view I by metis
  next
    case (stored n r ev v)
    with append_answer [OF stored(1)] show ?thesis by (auto intro: live_appended [OF I _ ev])
  next
    case (failed e r ev)
    with append_error [OF failed(1)] show ?thesis
      by (auto intro: live_appended [OF I _ ev] simp: same_log(2) I)
  qed
qed

lemma continue_live: "preserves (live logOf t) (continueAfterCompaction h t sig why)"
proof (rule preservesI)
  fix s x s'
  assume I: "live logOf t s" and run: "continueAfterCompaction h t sig why s = (x, s')"
  from run show "live logOf t s'"
  proof (cases rule: continueAfterCompaction_cases)
    case idle
    then show ?thesis using live_view I by metis
  next
    case (failed f i e r)
    from continue_error [OF failed(1,2)] show ?thesis
    proof (elim disjE exE)
      assume "logOf r = logOf (store s)"
      then show ?thesis using same_log(2) [OF _ failed(6)] I by blast
    next
      fix target assume "continuedTo (logOf (store s)) i target (logOf r)"
      then show ?thesis by (rule source_ended [OF _ failed(3-5) I failed(6)])
    qed
  next
    case (odd f i a r)
    show ?thesis by (rule source_ended [OF continue_answer [OF odd(1,2)] odd(3-5) I odd(7)])
  next
    case (moved f i a r)
    have "turnStarted s" using I by (simp add: live_def)
    with moved continue_answer [OF moved(1,2)] named
    obtain d where "ownLog logOf s' d" "openFor t d" "version d = 1"
      using target_open [of "logOf (store s)" i "targetSession a" "logOf r" logOf r s'] by auto
    with moved \<open>turnStarted s\<close> show ?thesis by (auto simp: live_def viewOf_def)
  qed
qed

end

sublocale journaled_turn \<subseteq> live: turn_invariant h t "\<lambda>c. reason c \<noteq> Some ''manual''" "live logOf t"
proof (unfold_locales, goal_cases)
  case 1
  then show ?case by (metis live_view)
next
  case (2 x)
  show ?case by (rule load_preserves) (simp add: same_log(2))
next
  case (3 s evs)
  then show ?case by (rule append_live)
next
  case (4 c sig)
  then show ?case by (rule compact_live)
next
  case (5 sig why)
  show ?case by (rule continue_live)
next
  case 6
  show ?case using automaticHost by (simp add: automaticStrategies_def)
qed

locale acknowledged_turn = journaled_turn logOf h t + acknowledging_journal logOf "port h"
  for logOf :: "'r \<Rightarrow> string \<rightharpoonup> conversation" and h :: "('r, 'e) pipeline_host" and t :: string
begin

lemma append_open:
  assumes "openNow logOf t s" "\<forall>ev \<in> set evs. eventSession ev = activeSession s \<and> carries (payload ev) t"
  shows "openNow logOf t (snd (appendAll h evs s))"
proof -
  obtain x s' where run: "appendAll h evs s = (x, s')" by fastforce
  then have "openNow logOf t s'"
  proof (cases rule: appendAll_cases)
    case (stored n r)
    with append_answer [OF stored(1)] show ?thesis by (auto intro: openNow_appended [OF assms(1) _ assms(2)])
  next
    case (failed e r)
    with append_nothing [OF failed(1)] show ?thesis by (simp add: same_log(3) assms(1))
  qed
  with run show ?thesis by simp
qed

lemma compact_open:
  assumes "reason c \<noteq> Some ''manual''"
  shows "preserves (openNow logOf t) (commitCompaction h t sig c)"
proof (rule preservesI)
  fix s x s'
  assume I: "openNow logOf t s" and run: "commitCompaction h t sig c s = (x, s')"
  from run show "openNow logOf t s'"
  proof (cases rule: commitCompaction_cases)
    case idle
    then show ?thesis using openNow_view I by metis
  next
    case (stored n r ev v)
    with append_answer [OF stored(1)] assms show ?thesis by (auto intro!: openNow_appended [OF I])
  next
    case (failed e r ev)
    with append_nothing [OF failed(1)] show ?thesis by (simp add: same_log(3) I)
  qed
qed

lemma continue_open: "preserves (openNow logOf t) (continueAfterCompaction h t sig why)"
proof (rule preservesI)
  fix s x s'
  assume I: "openNow logOf t s" and run: "continueAfterCompaction h t sig why s = (x, s')"
  from run show "openNow logOf t s'"
  proof (cases rule: continueAfterCompaction_cases)
    case idle
    then show ?thesis using openNow_view I by metis
  next
    case (failed f i e r)
    with continue_nothing [OF failed(1,2)] show ?thesis by (simp add: same_log(3) I)
  next
    case (odd f i a r)
    with continue_consistent [OF odd(1,2)] show ?thesis by simp
  next
    case (moved f i a r)
    have "turnStarted s" using I by (simp add: openNow_def)
    with moved continue_answer [OF moved(1,2)] named
    obtain d where "ownLog logOf s' d" "openFor t d"
      using target_open [of "logOf (store s)" i "targetSession a" "logOf r" logOf r s'] by auto
    with moved \<open>turnStarted s\<close> show ?thesis by (auto simp: openNow_def viewOf_def)
  qed
qed

end

sublocale acknowledged_turn \<subseteq> openNow: turn_invariant h t "\<lambda>c. reason c \<noteq> Some ''manual''" "openNow logOf t"
proof (unfold_locales, goal_cases)
  case 1
  then show ?case by (metis openNow_view)
next
  case (2 x)
  show ?case by (rule load_preserves) (simp add: same_log(3))
next
  case (3 s evs)
  then show ?case by (rule append_open)
next
  case (4 c sig)
  then show ?case by (rule compact_open)
next
  case (5 sig why)
  show ?case by (rule continue_open)
next
  case 6
  show ?case using automaticHost by (simp add: automaticStrategies_def)
qed

end
