(* ===== verification/PipelineEnd.thy ===== *)
theory PipelineEnd
  imports PipelineTurn
begin

text \<open>
  The ways into and out of a turn: the events that open it, \<open>finishTurn\<close>, the terminal event after
  an error with its second attempt, and \<open>runTurn\<close> as a whole. A step is described by the states
  it starts from and those it ends in with a value or with an error.
\<close>

section \<open>Outcomes\<close>

definition leads ::
    "(('r, 'e) pipe \<Rightarrow> bool) \<Rightarrow> ('r, 'e, 'a) doing \<Rightarrow> ('a \<Rightarrow> ('r, 'e) pipe \<Rightarrow> bool) \<Rightarrow> (('r, 'e) pipe \<Rightarrow> bool) \<Rightarrow> bool" where
  "leads P m Q E = (\<forall>s x s'. P s \<longrightarrow> m s = (x, s') \<longrightarrow> (case x of Inr y \<Rightarrow> Q y s' | Inl e \<Rightarrow> E s'))"

lemma leadsI:
  "(\<And>s y s'. P s \<Longrightarrow> m s = (Inr y, s') \<Longrightarrow> Q y s') \<Longrightarrow> (\<And>s e s'. P s \<Longrightarrow> m s = (Inl e, s') \<Longrightarrow> E s') \<Longrightarrow> leads P m Q E"
  by (auto simp: leads_def split: sum.splits)

lemma leads_Inr: "leads P m Q E \<Longrightarrow> P s \<Longrightarrow> m s = (Inr y, s') \<Longrightarrow> Q y s'"
  unfolding leads_def by fastforce

lemma leads_Inl: "leads P m Q E \<Longrightarrow> P s \<Longrightarrow> m s = (Inl e, s') \<Longrightarrow> E s'"
  unfolding leads_def by fastforce

lemma leads_next:
  assumes "leads P m R E" "\<And>x. leads (R x) (f x) Q E"
  shows "leads P (next_do m f) Q E"
  unfolding leads_def
proof (intro allI impI)
  fix s x s'
  assume "P s" and run: "next_do m f s = (x, s')"
  obtain y u where m: "m s = (y, u)" by fastforce
  show "case x of Inr y \<Rightarrow> Q y s' | Inl e \<Rightarrow> E s'"
  proof (cases y)
    case (Inl e)
    with m run leads_Inl [OF assms(1) \<open>P s\<close>] show ?thesis by (auto simp: next_do_def)
  next
    case (Inr z)
    with m run have "f z u = (x, s')" "R z u" using leads_Inr [OF assms(1) \<open>P s\<close>] by (auto simp: next_do_def)
    with assms(2) [of z] show ?thesis unfolding leads_def by blast
  qed
qed

lemma leads_next_weak:
  assumes "leads P m R F" "\<And>s. F s \<Longrightarrow> E s" "\<And>x. leads (R x) (f x) Q E"
  shows "leads P (next_do m f) Q E"
proof (rule leads_next)
  show "leads P m R E" using assms(1,2) by (fastforce simp: leads_def split: sum.splits)
qed (rule assms(3))

lemma leads_sure: "preserves P m \<Longrightarrow> succeeds m \<Longrightarrow> leads P m (\<lambda>_. P) E"
  by (rule leadsI) (auto dest: preservesD succeedsD)

lemma leads_at: "leads P m Q E \<Longrightarrow> P s \<Longrightarrow> leads (\<lambda>u. u = s) m Q E"
  unfolding leads_def by blast

lemma leads_attempt:
  assumes "leads P m R F" "\<And>x. leads (R x) (f (Inr x)) Q E" "\<And>e. leads F (f (Inl e)) Q E"
  shows "leads P (attempt m f) Q E"
  unfolding leads_def
proof (intro allI impI)
  fix s x s'
  assume "P s" and run: "attempt m f s = (x, s')"
  obtain y u where m: "m s = (y, u)" by fastforce
  then have f: "f y u = (x, s')" using run by (simp add: attempt_def)
  show "case x of Inr y \<Rightarrow> Q y s' | Inl e \<Rightarrow> E s'"
  proof (cases y)
    case (Inl e)
    with m f leads_Inl [OF assms(1) \<open>P s\<close>] assms(3) [of e] show ?thesis unfolding leads_def by blast
  next
    case (Inr z)
    with m f leads_Inr [OF assms(1) \<open>P s\<close>] assms(2) [of z] show ?thesis unfolding leads_def by blast
  qed
qed

lemma leads_look: "(\<And>s. P s \<Longrightarrow> leads (\<lambda>u. u = s) (f s) Q E) \<Longrightarrow> leads P (look f) Q E"
  by (simp add: leads_def look_def)

lemma leads_look_at: "(\<And>s. leads (\<lambda>u. u = s \<and> P s) (f s) Q E) \<Longrightarrow> leads P (look f) Q E"
  by (simp add: leads_def look_def)

lemma leads_preserves: "preserves P m \<Longrightarrow> (\<And>s. P s \<Longrightarrow> E s) \<Longrightarrow> leads P m (\<lambda>_. P) E"
  by (rule leadsI) (auto dest: preservesD)

lemma leads_weaken:
  "leads P m Q E \<Longrightarrow> (\<And>s. P' s \<Longrightarrow> P s) \<Longrightarrow> (\<And>y s. Q y s \<Longrightarrow> Q' y s) \<Longrightarrow> (\<And>s. E s \<Longrightarrow> E' s) \<Longrightarrow> leads P' m Q' E'"
  unfolding leads_def by (fastforce split: sum.splits)

lemma leads_pass: "(\<And>s. P s \<Longrightarrow> Q x s) \<Longrightarrow> leads P (pass x) Q E"
  by (simp add: leads_def pass_def)

lemma leads_abandon: "(\<And>s. P s \<Longrightarrow> E s) \<Longrightarrow> leads P (abandon e) Q E"
  by (simp add: leads_def abandon_def)

lemma leads_alter: "(\<And>s. P s \<Longrightarrow> Q () (f s)) \<Longrightarrow> leads P (alter f) Q E"
  by (simp add: leads_def alter_def)

lemma leads_or: "leads P m Q E \<Longrightarrow> leads P' m Q E \<Longrightarrow> leads (\<lambda>s. P s \<or> P' s) m Q E"
  unfolding leads_def by blast

lemma leads_case_sum: "leads P (case x of Inl e \<Rightarrow> f e | Inr y \<Rightarrow> g y) Q E"
  if "\<And>e. x = Inl e \<Longrightarrow> leads P (f e) Q E" "\<And>y. x = Inr y \<Longrightarrow> leads P (g y) Q E"
  using that by (cases x) auto

lemma preserves_conj: "preserves I m \<Longrightarrow> preserves J m \<Longrightarrow> preserves (\<lambda>s. I s \<and> J s) m"
  by (simp add: preserves_def)

section \<open>What matters outside the open turn\<close>

definition logView :: "('r, 'e) pipe \<Rightarrow> string \<times> bool \<times> 'r" where
  "logView s = (activeSession s, turnStarted s, store s)"

lemma quiet_logView: "quiet m \<Longrightarrow> preserves (\<lambda>s. logView s = v) m"
  by (rule preservesI) (auto dest: quiet_view simp: viewOf_def logView_def)

lemma preserves_logView: "(\<And>v. preserves (\<lambda>s. logView s = v) m) \<Longrightarrow> (\<And>s s'. logView s = logView s' \<Longrightarrow> I s \<Longrightarrow> I s') \<Longrightarrow> preserves I m"
  unfolding preserves_def by metis

lemma logView_bindSnapshot: "preserves (\<lambda>s. logView s = v) (bindSnapshot h t input request fallback)"
proof -
  have attach: "preserves (\<lambda>s. logView s = v) (attachPreparer h l p rq)" for l p rq
    unfolding attachPreparer_def
    by (intro keep_rules quiet_steps [THEN quiet_logView]) (auto simp: preserves_def alter_def logView_def)
  have "preserves (\<lambda>s. logView s = v)
      (case (request, x, fallback) of (Some rq, None, Some p) \<Rightarrow> attachPreparer h l p rq | _ \<Rightarrow> pass ())" for l x
    by (cases request; cases x; cases fallback) (auto intro: attach preserves_pass)
  moreover have "preserves (\<lambda>s. logView s = v) (alter (\<lambda>s. s\<lparr>heldLease := l\<rparr>))"
    "preserves (\<lambda>s. logView s = v) (alter (\<lambda>s. s\<lparr>boundSnapshot := sn\<rparr>))" for l sn
    by (auto simp: preserves_def alter_def logView_def)
  ultimately show ?thesis
    unfolding bindSnapshot_def Let_def
    by (intro preserves_next_do preserves_look preserves_pass quiet_steps [THEN quiet_logView])
qed

lemma logView_release: "preserves (\<lambda>s. logView s = v) (releaseSnapshotSafely h t)"
proof -
  have "quiet (releaseHeld h l)" for l
    unfolding releaseHeld_def by (rule quietI) (intro keep_rules quiet_steps [THEN quiet_preserves])
  then have "preserves (\<lambda>s. logView s = v) (releaseHeld h l)" for l by (rule quiet_logView)
  moreover have "preserves (\<lambda>s. logView s = v) (alter (\<lambda>s. s\<lparr>releasedLeases := releasedLeases s @ [n]\<rparr>))" for n
    by (auto simp: preserves_def alter_def logView_def)
  ultimately show ?thesis unfolding releaseSnapshotSafely_def
    by (intro keep_rules quiet_steps [THEN quiet_logView])
qed

section \<open>Before, during and after\<close>

definition pristine :: "('r \<Rightarrow> string \<rightharpoonup> conversation) \<Rightarrow> (string \<rightharpoonup> conversation) \<Rightarrow> string \<Rightarrow> ('r, 'e) pipe \<Rightarrow> bool" where
  "pristine logOf logs session s =
     (\<not> turnStarted s \<and> activeSession s = session \<and> logOf (store s) = logs)"

definition startable :: "string \<Rightarrow> (string \<rightharpoonup> conversation) \<Rightarrow> string \<Rightarrow> bool" where
  "startable t logs session =
     (\<exists>c. logs session = Some c \<and> conversationId c = session \<and> (\<forall>ev \<in> set (events c). eventSession ev = session) \<and>
        closedLog (map payload (events c)) \<and> unusedFor t c)"

definition stranded :: "('r \<Rightarrow> string \<rightharpoonup> conversation) \<Rightarrow> string \<Rightarrow> ('r, 'e) pipe \<Rightarrow> bool" where
  "stranded logOf t s = (\<not> turnStarted s \<and> (\<exists>c. ownLog logOf s c \<and> openFor t c))"

definition touched :: "('r \<Rightarrow> string \<rightharpoonup> conversation) \<Rightarrow> string \<Rightarrow> ('r, 'e) pipe \<Rightarrow> bool" where
  "touched logOf t s = (turnStarted s \<and> (\<exists>c. ownLog logOf s c \<and> (openFor t c \<or> endedFor t c)))"

definition ended :: "('r \<Rightarrow> string \<rightharpoonup> conversation) \<Rightarrow> string \<Rightarrow> ('r, 'e) pipe \<Rightarrow> bool" where
  "ended logOf t s = (turnStarted s \<and> (\<exists>c. ownLog logOf s c \<and> endedFor t c))"

definition endedWith :: "('r \<Rightarrow> string \<rightharpoonup> conversation) \<Rightarrow> string \<Rightarrow> event_payload \<Rightarrow> ('r, 'e) pipe \<Rightarrow> bool" where
  "endedWith logOf t q s =
     (turnStarted s \<and> (\<exists>c evs ev. ownLog logOf s c \<and> endedFor t c \<and> events c = evs @ [ev] \<and> payload ev = q))"

lemma ownLog_logView: "logView s = logView s' \<Longrightarrow> ownLog logOf s c = ownLog logOf s' c"
  by (auto simp: logView_def ownLog_def)

lemma logView_cong:
  assumes "logView s = logView s'"
  shows "pristine logOf logs session s = pristine logOf logs session s'" "stranded logOf t s = stranded logOf t s'"
    "touched logOf t s = touched logOf t s'" "ended logOf t s = ended logOf t s'"
    "endedWith logOf t q s = endedWith logOf t q s'" "openNow logOf t s = openNow logOf t s'"
  using assms ownLog_logView [OF assms, of logOf]
  by (auto simp: pristine_def stranded_def touched_def ended_def endedWith_def openNow_def logView_def)

lemma live_touched: "live logOf t s \<Longrightarrow> touched logOf t s"
  by (auto simp: live_def touched_def)

lemma ended_touched: "ended logOf t s \<Longrightarrow> touched logOf t s"
  by (auto simp: ended_def touched_def)

lemma startEvents_shape:
  "\<exists>rest. startEvents s t time input cs = storedEvent s time (TurnStarted t) # rest \<and>
     (\<forall>ev \<in> set rest. eventSession ev = activeSession s \<and> carries (payload ev) t)"
  by (auto simp: startEvents_def contextEvents_def storedEvent_def split: option.splits)

text \<open>The events that open a turn, appended to the log of a session that is ready for one.\<close>

lemma started_log:
  assumes "startable t logs session" "logs session = Some c" "grownLog c (startEvents s t time input cs) c'" "t \<noteq> []"
  shows "openFor t c'"
proof -
  from startEvents_shape obtain rest where shape: "startEvents s t time input cs = storedEvent s time (TurnStarted t) # rest"
    "\<forall>ev \<in> set rest. eventSession ev = activeSession s \<and> carries (payload ev) t"
    by blast
  from assms(1,2) have c: "closedLog (map payload (events c))" "unusedFor t c" by (auto simp: startable_def)
  have "openLog (map payload (events c) @ [TurnStarted t]) t"
    using c(1) assms(4) by (intro openLog_start) auto
  then have "openLog ((map payload (events c) @ [TurnStarted t]) @ map payload rest) t"
    by (rule openLog_carries) (use shape(2) in auto)
  then have "openLog (map payload (events c')) t"
    using assms(3) by (simp add: grownLog_def shape(1) storedEvent_def)
  moreover have "unusedFor t c'"
    using assms(3) c(2) shape(2)
    by (auto simp: grownLog_def shape(1) unusedFor_def storedEvent_def dest: carries_closes)
  ultimately show ?thesis by (simp add: openFor_def)
qed

lemma startable_own:
  assumes "pristine logOf logs session s" "startable t logs session" "logs session = Some c"
  shows "ownLog logOf s c"
  using assms by (auto simp: pristine_def startable_def ownLog_def)

lemma isTerminal_closes: "isTerminal t ev = closes (payload ev) t"
  by (cases "payload ev") (auto simp: isTerminal_def)

lemma find_terminal: "find (isTerminal t) (events c) = None \<longleftrightarrow> unusedFor t c"
  by (auto simp: find_None_iff unusedFor_def isTerminal_closes)

section \<open>Over any journal\<close>

context journaled_turn
begin

lemma pristine_quiet: "quiet m \<Longrightarrow> preserves (pristine logOf logs session) m"
  by (rule preserves_logView [OF quiet_logView]) (auto dest: logView_cong)

lemma pristine_load: "preserves (pristine logOf logs session) (onStore h (loadStored (port h) x))"
  by (rule load_preserves) (auto simp: pristine_def viewOf_def)

text \<open>The append that opens the turn.\<close>

lemma appended_start:
  assumes "startable t logs session" "pristine logOf logs session s" "viewOf s' = (activeSession s, v, turnStarted s, l, n, r)"
    and "appendedTo (logOf (store s)) (activeSession s) w (startEvents s t time input cs) (logOf r)"
  shows "\<exists>c'. ownLog logOf s' c' \<and> openFor t c' \<and> version c' = w + int (length (startEvents s t time input cs))"
proof -
  have at: "activeSession s = session" "logOf (store s) = logs" using assms(2) by (auto simp: pristine_def)
  from assms(4) obtain c c' where c: "logs session = Some c" "version c = w"
    "grownLog c (startEvents s t time input cs) c'" "logOf r = logs(session \<mapsto> c')"
    by (auto simp: appendedTo_def at)
  have "openFor t c'" using started_log [OF assms(1) c(1,3) named] .
  moreover have "ownLog logOf s' c'"
  proof (rule ownLog_grown [OF startable_own [OF assms(2,1) c(1)] c(3)])
    show "\<forall>ev \<in> set (startEvents s t time input cs). eventSession ev = activeSession s"
      using startEvents_shape [of s t time input cs] by (auto simp: storedEvent_def)
  qed (use assms(3) c(4) at in \<open>auto simp: viewOf_def\<close>)
  ultimately show ?thesis using c(2,3) by (auto simp: grownLog_def)
qed

lemma open_append:
  assumes "startable t logs session"
  shows "leads (\<lambda>u. u = s \<and> pristine logOf logs session s)
    (next_do (appendAll h (startEvents s t time input cs))
      (\<lambda>_. next_do (alter (\<lambda>s. s\<lparr>turnStarted := True\<rparr>)) (\<lambda>_. pass y)))
    (\<lambda>_. live logOf t) (\<lambda>s. pristine logOf logs session s \<or> stranded logOf t s)"
proof -
  have "leads (\<lambda>u. u = s \<and> pristine logOf logs session s) (appendAll h (startEvents s t time input cs))
      (\<lambda>_ u. \<exists>c'. ownLog logOf u c' \<and> openFor t c' \<and> turnVersion u = version c')
      (\<lambda>s. pristine logOf logs session s \<or> stranded logOf t s)"
  proof (rule leadsI; elim conjE; hypsubst)
    fix s' and u :: unit
    assume F: "pristine logOf logs session s" and "appendAll h (startEvents s t time input cs) s = (Inr u, s')"
    from this(2) show "\<exists>c'. ownLog logOf s' c' \<and> openFor t c' \<and> turnVersion s' = version c'"
    proof (cases rule: appendAll_cases)
      case (stored n r)
      have app: "appendedTo (logOf (store s)) (activeSession s) (turnVersion s) (startEvents s t time input cs) (logOf r)"
        "n = turnVersion s + int (length (startEvents s t time input cs))"
        using append_answer [OF stored(1)] by blast+
      have "turnVersion s' = n" using stored(3) by (simp add: viewOf_def)
      with appended_start [OF assms F stored(3) app(1)] app(2) show ?thesis by fastforce
    qed simp
  next
    fix s' e
    assume F: "pristine logOf logs session s" and "appendAll h (startEvents s t time input cs) s = (Inl e, s')"
    from this(2) show "pristine logOf logs session s' \<or> stranded logOf t s'"
    proof (cases rule: appendAll_cases)
      case (failed e r)
      from append_error [OF failed(1)] show ?thesis
      proof
        assume "logOf r = logOf (store s)"
        then show ?thesis using F failed(3) by (auto simp: pristine_def viewOf_def)
      next
        assume "appendedTo (logOf (store s)) (activeSession s) (turnVersion s) (startEvents s t time input cs) (logOf r)"
        from appended_start [OF assms F failed(3) this] show ?thesis
          using F failed(3) by (auto simp: stranded_def pristine_def viewOf_def)
      qed
    qed simp
  qed
  then show ?thesis
    by (rule leads_next)
      (intro leads_next [OF leads_alter [of _ "\<lambda>_. live logOf t"] leads_pass],
       auto simp: live_def ownLog_def)
qed

lemma openTurn_outcome:
  assumes "startable t logs session"
  shows "leads (pristine logOf logs session) (openTurn h t input cs)
    (\<lambda>_. live logOf t) (\<lambda>s. pristine logOf logs session s \<or> stranded logOf t s)"
  unfolding openTurn_def Let_def
  apply (rule leads_next [OF leads_preserves [OF pristine_quiet [OF quiet_enterStage]]], simp)
  apply (rule leads_look_at, rule leads_weaken [where P = "pristine logOf logs session" and Q = "\<lambda>_. live logOf t"
        and E = "\<lambda>s. pristine logOf logs session s \<or> stranded logOf t s"])
     apply (rule leads_next [OF leads_preserves [OF pristine_load]], simp)
     apply (rule leads_next [OF leads_preserves [OF pristine_quiet [OF quiet_readTurnDocument]]], simp)
     apply (rule leads_next [OF leads_alter [where Q = "\<lambda>_. pristine logOf logs session"]], simp add: pristine_def)
     apply (rule leads_next [OF leads_preserves [OF pristine_quiet [OF quiet_throwIfSignalled]]], simp)
     apply (rule leads_look_at, rule open_append [OF assms])
  by auto

section \<open>The end of a turn\<close>

text \<open>A terminal event appended to the open log.\<close>

lemma closing_append:
  assumes "ownLog logOf s c" "openFor t c" "turnStarted s"
    and "appendedTo (logOf (store s)) (activeSession s) w [ev] (logOf r)"
    and "eventSession ev = activeSession s" "closes (payload ev) t"
    and "viewOf s' = (activeSession s, v, turnStarted s, l, n, r)"
  shows "ended logOf t s'" "endedWith logOf t (payload ev) s'" "v \<le> w \<Longrightarrow> live logOf t s'"
proof -
  from assms(1,4) obtain c' where c': "version c = w" "grownLog c [ev] c'" "logOf r = (logOf (store s))(activeSession s \<mapsto> c')"
    by (auto simp: appendedTo_def ownLog_def)
  have "endedFor t c'" using grown_ended [OF assms(2) c'(2) assms(6)] .
  moreover have "ownLog logOf s' c'"
    using ownLog_grown [OF assms(1) c'(2)] c'(3) assms(5,7) by (auto simp: viewOf_def)
  moreover have "turnStarted s'" "turnVersion s' = v" using assms(3,7) by (auto simp: viewOf_def)
  ultimately show "ended logOf t s'" "endedWith logOf t (payload ev) s'" "v \<le> w \<Longrightarrow> live logOf t s'"
    using c'(1,2) unfolding ended_def endedWith_def live_def grownLog_def by fastforce+
qed

lemma finishTurn_outcome:
  "leads (live logOf t) (finishTurn h t why)
     (\<lambda>x s. ended logOf t s \<and> (\<exists>ms. x = CompletedTurn (activeSession s) t why ms)) (live logOf t)"
proof -
  have append: "leads (\<lambda>u. u = s \<and> live logOf t s) (appendAll h [storedEvent s (now h s) (TurnCompleted t)])
      (\<lambda>_. ended logOf t) (live logOf t)" for s :: "('r, 'e) pipe"
  proof (rule leadsI; elim conjE; hypsubst)
    fix u :: unit and s'
    assume I: "live logOf t s" and "appendAll h [storedEvent s (now h s) (TurnCompleted t)] s = (Inr u, s')"
    from this(2) show "ended logOf t s'"
    proof (cases rule: appendAll_cases)
      case (stored n r)
      from I obtain c where c: "ownLog logOf s c" "turnStarted s" "openFor t c \<or> turnVersion s < version c"
        by (auto simp: live_def)
      note app = append_answer [OF stored(1), THEN conjunct1]
      then have "openFor t c" using c by (auto simp: appendedTo_def ownLog_def)
      then show ?thesis using closing_append(1) [OF c(1) _ c(2) app _ _ stored(3)] by (simp add: storedEvent_def)
    qed simp
  next
    fix s' e
    assume I: "live logOf t s" and "appendAll h [storedEvent s (now h s) (TurnCompleted t)] s = (Inl e, s')"
    from this(2) show "live logOf t s'"
    proof (cases rule: appendAll_cases)
      case (failed e r)
      from append_error [OF failed(1)] show ?thesis
      proof
        assume "logOf r = logOf (store s)"
        then show ?thesis using same_log(2) [OF _ failed(3)] I by blast
      next
        assume app: "appendedTo (logOf (store s)) (activeSession s) (turnVersion s) [storedEvent s (now h s) (TurnCompleted t)] (logOf r)"
        from I obtain c where c: "ownLog logOf s c" "turnStarted s" "openFor t c \<or> turnVersion s < version c"
          by (auto simp: live_def)
        then have "openFor t c" using app by (auto simp: appendedTo_def ownLog_def)
        then show ?thesis using closing_append(3) [OF c(1) _ c(2) app _ _ failed(3)] by (simp add: storedEvent_def)
      qed
    qed simp
  qed
  show ?thesis unfolding finishTurn_def
    apply (rule leads_next [OF leads_preserves [OF live.quiet_invariant [OF quiet_enterStage]]], simp)
    apply (rule leads_next [OF leads_preserves [OF live.appendRuntimeContext_kept]], simp)
    apply (rule leads_look_at, rule leads_next [OF append])
    by (rule leads_look_at, rule leads_pass) auto
qed

text \<open>One attempt to append the terminal event.\<close>

lemma touched_loaded:
  assumes "touched logOf t s" "onStore h (loadStored (port h) (activeSession s)) s = (x, s')"
  shows "touched logOf t s'" "activeSession s' = activeSession s" "x = Inr c \<Longrightarrow> ownLog logOf s' c"
proof -
  from assms(2) obtain r where r: "loadStored (port h) (activeSession s) (store s) = (x, r)"
      "s' = s\<lparr>store := r, surroundings := awaitStore h (surroundings s)\<rparr>"
    by (auto simp: onStore_eq)
  show "touched logOf t s'" "activeSession s' = activeSession s"
    using assms(1) load_same [OF r(1)] by (auto simp: touched_def ownLog_def r(2))
  show "ownLog logOf s' c" if "x = Inr c"
    using assms(1) load_same [OF r(1)] load_answer [OF r(1) [unfolded that]] by (auto simp: touched_def ownLog_def r(2))
qed

lemma terminal_append:
  assumes "ownLog logOf s c" "openFor t c" "turnStarted s" "eventSession ev = activeSession s" "closes (payload ev) t"
    and "onStore h (appendStored (port h) (conversationId c) (version c) [ev]) s = (x, s')"
  shows "activeSession s' = activeSession s \<and> turnStarted s' \<and>
    (case x of Inr n \<Rightarrow> ended logOf t s' \<and> endedWith logOf t (payload ev) s'
     | Inl e \<Rightarrow> touched logOf t s' \<and> (logOf (store s') = logOf (store s) \<or> ended logOf t s'))"
proof -
  have id: "conversationId c = activeSession s" using assms(1) by (simp add: ownLog_def)
  from assms(6) obtain r where r: "appendStored (port h) (activeSession s) (version c) [ev] (store s) = (x, r)"
      "s' = s\<lparr>store := r, surroundings := awaitStore h (surroundings s)\<rparr>"
    by (auto simp: onStore_eq id)
  have v: "viewOf s' = (activeSession s, turnVersion s, turnStarted s, heldLease s, releasedLeases s, r)"
    by (simp add: r(2) viewOf_def)
  note close = closing_append [OF assms(1,2,3) _ assms(4,5) v]
  show ?thesis
  proof (cases x)
    case (Inr n)
    then show ?thesis using close(1,2) append_answer r assms(3) by fastforce
  next
    case (Inl e)
    from append_error [OF r(1) [unfolded Inl]] show ?thesis
    proof
      assume "logOf r = logOf (store s)"
      then show ?thesis using assms(1-3) Inl r(2) by (auto simp: touched_def ownLog_def)
    next
      assume "appendedTo (logOf (store s)) (activeSession s) (version c) [ev] (logOf r)"
      from close(1) [OF this] show ?thesis using Inl r(2) assms(3) by (auto intro: ended_touched)
    qed
  qed
qed

lemma ended_quiet: "quiet m \<Longrightarrow> preserves (ended logOf t) m"
  by (rule preserves_logView [OF quiet_logView]) (auto dest: logView_cong)

lemma closeLoaded_outcome:
  assumes ev: "eventSession ev = session" "closes (payload ev) t"
    and refused: "\<And>e. leads (\<lambda>s. touched logOf t s \<and> activeSession s = session) (refused e) (\<lambda>_. ended logOf t) (touched logOf t)"
  shows "leads (\<lambda>s. touched logOf t s \<and> activeSession s = session \<and> ownLog logOf s c)
    (closeLoaded h t ev refused session c) (\<lambda>_. ended logOf t) (touched logOf t)"
proof (cases "unusedFor t c")
  case False
  then have "endedFor t c" if "touched logOf t s" "ownLog logOf s c" for s :: "('r, 'e) pipe"
    using that by (auto simp: touched_def ownLog_def openFor_def)
  with False show ?thesis
    unfolding closeLoaded_def
    by (auto intro!: leads_alter simp: find_terminal ended_def touched_def ownLog_def)
next
  case True
  have op: "openFor t c" "recoveryPlan c = Inr (Interrupt t)" if "touched logOf t s" "ownLog logOf s c" for s :: "('r, 'e) pipe"
  proof -
    from that True show "openFor t c" by (auto simp: touched_def ownLog_def endedFor_def)
    with that(2) show "recoveryPlan c = Inr (Interrupt t)" by (rule openFor_plan)
  qed
  show ?thesis
  proof (cases "recoveryPlan c = Inr (Interrupt t)")
    case False
    then have "\<not> (touched logOf t s \<and> activeSession s = session \<and> ownLog logOf s c)" for s :: "('r, 'e) pipe" using op by blast
    then show ?thesis unfolding leads_def by blast
  next
    case plan: True
    have call: "leads (\<lambda>s. touched logOf t s \<and> activeSession s = session \<and> ownLog logOf s c)
        (onStore h (appendStored (port h) (conversationId c) (version c) [ev]))
        (\<lambda>_. ended logOf t) (\<lambda>s. touched logOf t s \<and> activeSession s = session)"
    proof (rule leadsI; elim conjE)
      fix s s' and n :: int
      assume a: "touched logOf t s" "activeSession s = session" "ownLog logOf s c"
        and run: "onStore h (appendStored (port h) (conversationId c) (version c) [ev]) s = (Inr n, s')"
      have "turnStarted s" using a(1) by (simp add: touched_def)
      with terminal_append [OF a(3) op(1) [OF a(1,3)] _ _ ev(2) run] a(2) ev(1) show "ended logOf t s'" by simp
    next
      fix s s' e
      assume a: "touched logOf t s" "activeSession s = session" "ownLog logOf s c"
        and run: "onStore h (appendStored (port h) (conversationId c) (version c) [ev]) s = (Inl e, s')"
      have "turnStarted s" using a(1) by (simp add: touched_def)
      with terminal_append [OF a(3) op(1) [OF a(1,3)] _ _ ev(2) run] a(2) ev(1)
      show "touched logOf t s' \<and> activeSession s' = session" by simp
    qed
    have find: "find (isTerminal t) (events c) = None" using True by (simp add: find_terminal)
    show ?thesis unfolding closeLoaded_def find plan
      apply (simp only: simp_thms if_False if_True sum.case)
      apply (rule leads_attempt [OF call])
       apply (simp only: sum.case)
       apply (rule leads_next [OF leads_alter [where Q = "\<lambda>_. ended logOf t"]])
        apply (simp add: ended_def ownLog_def)
       apply (rule leads_preserves [OF ended_quiet [OF quiet_publishStored] ended_touched], assumption)
      apply (simp only: sum.case)
      by (rule refused)
  qed
qed

lemma terminalAttempt_outcome:
  assumes ev: "eventSession ev = session" "closes (payload ev) t"
    and refused: "\<And>e. leads (\<lambda>s. touched logOf t s \<and> activeSession s = session) (refused e) (\<lambda>_. ended logOf t) (touched logOf t)"
  shows "leads (\<lambda>s. touched logOf t s \<and> activeSession s = session) (terminalAttempt h t ev refused)
    (\<lambda>_. ended logOf t) (touched logOf t)"
proof -
  have load: "leads (\<lambda>u. u = s \<and> touched logOf t s \<and> activeSession s = session)
      (onStore h (loadStored (port h) (activeSession s)))
      (\<lambda>c u. touched logOf t u \<and> activeSession u = session \<and> ownLog logOf u c) (touched logOf t)" for s :: "('r, 'e) pipe"
  proof (rule leadsI; elim conjE; hypsubst)
    fix c s'
    assume "touched logOf t s" and run: "onStore h (loadStored (port h) (activeSession s)) s = (Inr c, s')"
    from touched_loaded [OF this] show "touched logOf t s' \<and> activeSession s' = activeSession s \<and> ownLog logOf s' c"
      by blast
  next
    fix e s'
    assume "touched logOf t s" and run: "onStore h (loadStored (port h) (activeSession s)) s = (Inl e, s')"
    from touched_loaded(1) [OF this] show "touched logOf t s'" .
  qed
  have close: "leads (\<lambda>u. touched logOf t u \<and> activeSession u = session \<and> ownLog logOf u c)
      (closeLoaded h t ev refused (activeSession s) c) (\<lambda>_. ended logOf t) (touched logOf t)"
    if "activeSession s = session" for s :: "('r, 'e) pipe" and c
    unfolding that by (rule closeLoaded_outcome [OF ev refused])
  show ?thesis unfolding terminalAttempt_def
  proof (rule leads_look)
    fix s :: "('r, 'e) pipe"
    assume T: "touched logOf t s \<and> activeSession s = session"
    then have "leads (\<lambda>u. u = s) (onStore h (loadStored (port h) (activeSession s)))
        (\<lambda>c u. touched logOf t u \<and> activeSession u = session \<and> ownLog logOf u c) (touched logOf t)"
      using load [of s] by simp
    then show "leads (\<lambda>u. u = s) (next_do (onStore h (loadStored (port h) (activeSession s)))
         (closeLoaded h t ev refused (activeSession s))) (\<lambda>_. ended logOf t) (touched logOf t)"
      by (rule leads_next) (rule close, use T in blast)
  qed
qed

lemma appendTerminalEvent_outcome:
  assumes "eventSession ev = session" "closes (payload ev) t"
  shows "leads (\<lambda>s. touched logOf t s \<and> activeSession s = session) (appendTerminalEvent h t ev n)
    (\<lambda>_. ended logOf t) (touched logOf t)"
  by (induction n) (auto intro!: terminalAttempt_outcome [OF assms] leads_abandon)

end

end
