(* ===== verification/PipelineRun.thy ===== *)
theory PipelineRun
  imports PipelineEnd
begin

text \<open>
  \<open>runTurn\<close> from what is known of its opening, its open phase and its terminal event: the locale
  \<open>turn_course\<close> puts these together for any way of describing the states before, during and after
  a turn. It is instantiated for the turns over any journal, where a turn that returns has been
  closed, and for those over an acknowledging journal, where the terminal event is the one the
  result reports.
\<close>

section \<open>What a result says\<close>

definition truthful ::
    "(('r, 'e) pipe \<Rightarrow> bool) \<Rightarrow> (('r, 'e) pipe \<Rightarrow> bool) \<Rightarrow> (event_payload \<Rightarrow> ('r, 'e) pipe \<Rightarrow> bool)
       \<Rightarrow> string \<Rightarrow> turn_result \<Rightarrow> ('r, 'e) pipe \<Rightarrow> bool" where
  "truthful before unopened closed_with t x s =
     (case x of
        CompletedTurn session u why ms \<Rightarrow>
          closed_with (TurnCompleted t) s \<and> session = activeSession s \<and> u = t
      | CancelledTurn session u why ms \<Rightarrow>
          (unopened s \<or> closed_with (TurnCancelled t) s) \<and> session = activeSession s \<and> u = t
      | FailedTurn session u f ms \<Rightarrow>
          (unopened s \<or> closed_with (TurnFailed t (failureJson f)) s) \<and> session = activeSession s \<and> u = t
      | HandledRequest session \<Rightarrow> before s \<and> session = activeSession s)"

section \<open>The course of a turn\<close>

locale turn_course = turn_invariant h t admissible I
  for h :: "('r, 'e) pipeline_host" and t :: string and admissible :: "compaction \<Rightarrow> bool" and I :: "('r, 'e) pipe \<Rightarrow> bool" +
  fixes before :: "('r, 'e) pipe \<Rightarrow> bool" and unopened :: "('r, 'e) pipe \<Rightarrow> bool"
    and closed_with :: "event_payload \<Rightarrow> ('r, 'e) pipe \<Rightarrow> bool" and unclosed :: "('r, 'e) pipe \<Rightarrow> bool"
  assumes course_open: "leads before (openTurn h t input cs) (\<lambda>_. I) unopened"
    and course_finish: "leads I (finishTurn h t why)
      (\<lambda>x s. closed_with (TurnCompleted t) s \<and> (\<exists>ms. x = CompletedTurn (activeSession s) t why ms)) I"
    and course_close: "eventSession ev = session \<Longrightarrow> closes (payload ev) t \<Longrightarrow>
      leads (\<lambda>s. I s \<and> activeSession s = session) (appendTerminalEvent h t ev 1)
        (\<lambda>_. closed_with (payload ev)) unclosed"
    and before_unopened: "before s \<Longrightarrow> unopened s"
    and open_started: "I s \<Longrightarrow> turnStarted s"
    and unopened_started: "unopened s \<Longrightarrow> \<not> turnStarted s"
    and log_only: "logView s = logView s' \<Longrightarrow> before s \<Longrightarrow> before s'"
      "logView s = logView s' \<Longrightarrow> unopened s \<Longrightarrow> unopened s'"
      "logView s = logView s' \<Longrightarrow> closed_with q s \<Longrightarrow> closed_with q s'"
      "logView s = logView s' \<Longrightarrow> unclosed s \<Longrightarrow> unclosed s'"
begin

lemma quiet_log:
  "quiet m \<Longrightarrow> preserves before m" "quiet m \<Longrightarrow> preserves unopened m" "quiet m \<Longrightarrow> preserves (closed_with q) m"
  "quiet m \<Longrightarrow> preserves unclosed m"
  by (rule preserves_logView [OF quiet_logView], assumption, erule (1) log_only(1))
    (rule preserves_logView [OF quiet_logView], assumption, erule (1) log_only(2-4))+

lemma same_session: "preserves (\<lambda>s. activeSession s = session) (appendRuntimeContext h t)"
proof -
  have append: "preserves (\<lambda>s. activeSession s = session) (appendAll h evs)" for evs
    by (rule preservesI, erule appendAll_cases) (auto simp: viewOf_def)
  have take: "preserves (\<lambda>s. activeSession s = session) (takeIncoming h)"
    by (rule preservesI) (auto dest: quiet_view [OF quiet_basic(4)] simp: viewOf_def)
  have drop: "preserves (\<lambda>s. activeSession s = session) (alter (\<lambda>s. s\<lparr>contextBuffer := b s\<rparr>))" for b
    by (simp add: preserves_def alter_def)
  show ?thesis
    unfolding appendRuntimeContext_def appendContext_def by (intro keep_rules append take drop)
qed

lemma flush_kept:
  "leads (\<lambda>u. I u \<and> activeSession u = session) (flushBeforeTerminal h t)
     (\<lambda>_ u. I u \<and> activeSession u = session) E"
proof -
  have failed: "preserves (\<lambda>u. activeSession u = session) (publishObserverFailed h x (Some t) y e)" for x y e
    by (rule preservesI) (auto dest: quiet_view [OF quiet_publishObserverFailed] simp: viewOf_def)
  have "preserves I (flushBeforeTerminal h t)"
    unfolding flushBeforeTerminal_def by (intro keep_rules quiet_steps [THEN quiet_invariant])
  moreover have "preserves (\<lambda>u. activeSession u = session) (flushBeforeTerminal h t)"
    unfolding flushBeforeTerminal_def by (intro keep_rules same_session failed)
  ultimately have "preserves (\<lambda>u. I u \<and> activeSession u = session) (flushBeforeTerminal h t)"
    by (rule preserves_conj)
  then show ?thesis
    by (rule leads_sure) (unfold flushBeforeTerminal_def, intro succeed_rules)
qed

lemma unpersisted_kept: "leads unclosed (reportUnpersisted h t e) (\<lambda>r s. r \<noteq> None \<and> unclosed s) (\<lambda>_. False)"
proof (rule leadsI)
  fix s y s'
  assume "unclosed s" and run: "reportUnpersisted h t e s = (Inr y, s')"
  have "quiet (reportUnpersisted h t e :: ('r, 'e, pipeline_error option) doing)"
    unfolding reportUnpersisted_def by (rule quietI) (intro keep_rules quiet_steps [THEN quiet_preserves])
  then have "unclosed s'" using quiet_log(4) \<open>unclosed s\<close> run by (blast dest: preservesD)
  moreover have "y \<noteq> None" using run
    by (auto simp: reportUnpersisted_def look_def next_do_def pass_def split: prod.splits sum.splits)
  ultimately show "y \<noteq> None \<and> unclosed s'" by blast
next
  fix s e' s'
  assume "reportUnpersisted h t e s = (Inl e', s')"
  moreover have "succeeds (reportUnpersisted h t e :: ('r, 'e, pipeline_error option) doing)"
    unfolding reportUnpersisted_def by (intro succeed_rules)
  ultimately show False using succeedsD by blast
qed

lemma appendTerminalSafely_open:
  assumes "closes q t"
  shows "leads I (appendTerminalSafely h t q)
    (\<lambda>r s. if r = None then closed_with q s else unclosed s) (\<lambda>_. False)"
  unfolding appendTerminalSafely_def Let_def
proof (rule leads_look)
  fix s :: "('r, 'e) pipe" assume I: "I s"
  let ?ev = "storedEvent s (now h s) q"
  have ev: "eventSession ?ev = activeSession s" "payload ?ev = q" by (simp_all add: storedEvent_def)
  have "leads (\<lambda>u. I u \<and> activeSession u = activeSession s)
      (next_do (flushBeforeTerminal h t) (\<lambda>_. appendTerminalEvent h t ?ev 1)) (\<lambda>_. closed_with q) unclosed"
    by (rule leads_next [OF flush_kept]) (use course_close [OF ev(1)] ev assms in simp)
  then have "leads (\<lambda>u. I u \<and> activeSession u = activeSession s)
      (attempt (next_do (flushBeforeTerminal h t) (\<lambda>_. appendTerminalEvent h t ?ev 1)) (\<lambda>res. case res of
         Inr _ \<Rightarrow> pass None | Inl e \<Rightarrow> reportUnpersisted h t e))
      (\<lambda>r s. if r = None then closed_with q s else unclosed s) (\<lambda>_. False)"
    by (rule leads_attempt)
      (auto intro!: leads_pass intro: leads_weaken [OF unpersisted_kept])
  then show "leads (\<lambda>u. u = s)
     (if \<not> turnStarted s then pass None
      else attempt (next_do (flushBeforeTerminal h t) (\<lambda>_. appendTerminalEvent h t ?ev 1)) (\<lambda>res. case res of
         Inr _ \<Rightarrow> pass None | Inl e \<Rightarrow> reportUnpersisted h t e))
     (\<lambda>r s. if r = None then closed_with q s else unclosed s) (\<lambda>_. False)"
    using open_started [OF I] I by (simp add: leads_def)
qed

lemma appendTerminalSafely_unopened:
  "leads unopened (appendTerminalSafely h t q) (\<lambda>r s. r = None \<and> unopened s) (\<lambda>_. False)"
  unfolding appendTerminalSafely_def Let_def
  by (rule leads_look_at) (auto simp: leads_def pass_def dest: unopened_started)

lemma appendTerminalSafely_course:
  assumes "closes q t"
  shows "leads (\<lambda>s. unopened s \<or> I s) (appendTerminalSafely h t q)
    (\<lambda>r s. if r = None then unopened s \<or> closed_with q s else unclosed s) (\<lambda>_. False)"
proof (rule leads_or)
  show "leads unopened (appendTerminalSafely h t q)
      (\<lambda>r s. if r = None then unopened s \<or> closed_with q s else unclosed s) (\<lambda>_. False)"
    by (rule leads_weaken [OF appendTerminalSafely_unopened]) auto
  show "leads I (appendTerminalSafely h t q)
      (\<lambda>r s. if r = None then unopened s \<or> closed_with q s else unclosed s) (\<lambda>_. False)"
    by (rule leads_weaken [OF appendTerminalSafely_open [OF assms]]) (auto split: if_splits)
qed

abbreviation "result \<equiv> truthful before unopened closed_with t"

lemma reported_course:
  assumes "closes q t" "\<And>s. unopened s \<or> closed_with q s \<Longrightarrow> result (g s) s"
  shows "leads (\<lambda>s. unopened s \<or> I s)
    (next_do (appendTerminalSafely h t q) (\<lambda>failed. case failed of
       Some e \<Rightarrow> abandon (f e) | None \<Rightarrow> look (\<lambda>s. pass (g s))))
    result (\<lambda>s. unopened s \<or> unclosed s)"
proof (rule leads_next_weak [OF appendTerminalSafely_course [OF assms(1)]])
  fix failed
  show "leads (\<lambda>s. if failed = None then unopened s \<or> closed_with q s else unclosed s)
      (case failed of Some e \<Rightarrow> abandon (f e) | None \<Rightarrow> look (\<lambda>s. pass (g s)))
      result (\<lambda>s. unopened s \<or> unclosed s)"
    using assms(2) by (cases failed) (auto intro!: leads_abandon leads_look_at leads_pass)
qed simp

lemma cancelTurn_course:
  "leads (\<lambda>s. unopened s \<or> I s) (cancelTurn h t) result (\<lambda>s. unopened s \<or> unclosed s)"
  unfolding cancelTurn_def Let_def
proof (rule leads_look)
  fix s :: "('r, 'e) pipe"
  assume "unopened s \<or> I s"
  then show "leads (\<lambda>u. u = s)
     (next_do (appendTerminalSafely h t (TurnCancelled t)) (\<lambda>failed. case failed of
        Some e \<Rightarrow> abandon (turnPersistenceError e None)
      | None \<Rightarrow> look (\<lambda>s'. pass (CancelledTurn (activeSession s') t (abortReason h (surroundings s)) (turnMessages s')))))
     result (\<lambda>s. unopened s \<or> unclosed s)"
    by (intro leads_at [OF reported_course]) (auto simp: truthful_def)
qed

lemma failTurn_course:
  "leads (\<lambda>s. unopened s \<or> I s) (failTurn h t e) result (\<lambda>s. unopened s \<or> unclosed s)"
  unfolding failTurn_def Let_def
proof (rule leads_look, rule leads_next)
  fix s :: "('r, 'e) pipe"
  have "preserves (\<lambda>s. unopened s \<or> I s) (publishSafely h ev)" for ev
    using quiet_log(2) [OF quiet_basic(3)] quiet_invariant [OF quiet_basic(3)] unfolding preserves_def by blast
  then have "leads (\<lambda>s. unopened s \<or> I s) (publishSafely h ev) (\<lambda>_ s. unopened s \<or> I s) (\<lambda>s. unopened s \<or> unclosed s)" for ev
    by (rule leads_sure) (rule succeeds_step)
  moreover assume "unopened s \<or> I s"
  ultimately show "leads (\<lambda>u. u = s)
      (publishSafely h (ExecutionFailed (activeSession s) t (normalizeError e) (now h s)))
      (\<lambda>_ s. unopened s \<or> I s) (\<lambda>s. unopened s \<or> unclosed s)"
    by (blast intro: leads_at)
qed (rule reported_course, auto simp: truthful_def)

lemma settleError_course:
  "leads (\<lambda>s. unopened s \<or> I s) (settleError h t requested e) result (\<lambda>s. unopened s \<or> unclosed s)"
  unfolding settleError_def
proof (rule leads_look)
  fix s :: "('r, 'e) pipe"
  assume "unopened s \<or> I s"
  then show "leads (\<lambda>u. u = s)
      (if abortedBy h TurnSignal (surroundings s) \<noteq> None \<or> isAbortError e then cancelTurn h t
       else if requested \<and> \<not> turnStarted s then abandon e else failTurn h t e)
      result (\<lambda>s. unopened s \<or> unclosed s)"
    using open_started by (auto intro: leads_at [OF cancelTurn_course] leads_at [OF failTurn_course] intro!: leads_abandon)
qed

lemma runOpenTurn_course:
  "leads I (runOpenTurn h t sn model input cs retrying opened)
     (\<lambda>x s. closed_with (TurnCompleted t) s \<and> (\<exists>why ms. x = CompletedTurn (activeSession s) t why ms)) I"
proof -
  obtain c d time where opened: "opened = (c, d, time)" by (cases opened)
  show ?thesis unfolding runOpenTurn_def opened split_conv
    apply (rule leads_next [OF leads_preserves [OF quiet_invariant [OF quiet_assembleContext]]], assumption)
    apply (rule leads_next [OF leads_preserves [OF prepareTurn_kept]], assumption)
    apply (rule leads_next [OF leads_preserves [OF prepareAgentRun_kept]], assumption)
    apply (rule leads_next [OF leads_preserves [OF executeTurn_kept]], assumption)
    by (rule leads_weaken [OF course_finish]) auto
qed

lemma openTurn_course:
  "leads before (next_do (openTurn h t i cs) (runOpenTurn h t sn model i cs retrying))
     result (\<lambda>s. unopened s \<or> I s)"
  by (rule leads_next_weak [OF course_open], blast, rule leads_weaken [OF runOpenTurn_course])
    (auto simp: truthful_def)

lemma turnBody_course:
  "leads before (turnBody h t input cs retrying request fallback) result (\<lambda>s. unopened s \<or> I s)"
  unfolding turnBody_def
proof (rule leads_next [OF leads_preserves])
  show "preserves before (bindSnapshot h t input request fallback)"
    by (rule preserves_logView [OF logView_bindSnapshot]) (rule log_only)
next
  fix x :: "bound_snapshot \<times> jsval"
  obtain sn model where x: "x = (sn, model)" by (cases x)
  have admit: "preserves before (case request of None \<Rightarrow> pass (Some input)
      | Some rq \<Rightarrow> next_do (admitRequest h sn model rq) (\<lambda>i. pass (map_option Some i)))"
    by (intro keep_rules quiet_log(1) quiet_steps)
  have "leads before
     (next_do (case request of None \<Rightarrow> pass (Some input)
         | Some rq \<Rightarrow> next_do (admitRequest h sn model rq) (\<lambda>i. pass (map_option Some i))) (\<lambda>admitted.
      case admitted of
        None \<Rightarrow> look (\<lambda>s. pass (HandledRequest (activeSession s)))
      | Some i \<Rightarrow> next_do (openTurn h t i cs) (runOpenTurn h t sn model i cs retrying)))
     result (\<lambda>s. unopened s \<or> I s)"
  proof (rule leads_next [OF leads_preserves [OF admit]])
    fix admitted
    show "leads before (case admitted of
          None \<Rightarrow> look (\<lambda>s. pass (HandledRequest (activeSession s)))
        | Some i \<Rightarrow> next_do (openTurn h t i cs) (runOpenTurn h t sn model i cs retrying))
       result (\<lambda>s. unopened s \<or> I s)"
      by (cases admitted) (auto intro!: leads_look_at leads_pass openTurn_course simp: truthful_def)
  qed (blast intro: before_unopened)
  then show "leads before (case x of (sn, model) \<Rightarrow>
     next_do (case request of None \<Rightarrow> pass (Some input)
         | Some rq \<Rightarrow> next_do (admitRequest h sn model rq) (\<lambda>i. pass (map_option Some i))) (\<lambda>admitted.
      case admitted of
        None \<Rightarrow> look (\<lambda>s. pass (HandledRequest (activeSession s)))
      | Some i \<Rightarrow> next_do (openTurn h t i cs) (runOpenTurn h t sn model i cs retrying)))
     result (\<lambda>s. unopened s \<or> I s)"
    by (simp add: x)
qed (blast intro: before_unopened)

theorem runTurn_course:
  "leads before (runTurn h t input cs retrying request fallback) result (\<lambda>s. unopened s \<or> unclosed s)"
proof -
  have body: "leads before (attempt (turnBody h t input cs retrying request fallback) (\<lambda>res. case res of
        Inr x \<Rightarrow> pass x | Inl e \<Rightarrow> settleError h t (request \<noteq> None) e))
      result (\<lambda>s. unopened s \<or> unclosed s)"
    by (rule leads_attempt [OF turnBody_course]) (auto intro!: leads_pass settleError_course)
  have result_log: "result x s \<Longrightarrow> logView s = logView s' \<Longrightarrow> result x s'" for x s s'
    unfolding truthful_def using log_only(1-3) [of s s'] by (auto simp: logView_def split: turn_result.splits)
  have clean: "preserves J (next_do (clearRuntimeContext h) (\<lambda>_. next_do (releaseSnapshotSafely h t) (\<lambda>_. ofResult res)))"
    if "\<And>s s'. logView s = logView s' \<Longrightarrow> J s \<Longrightarrow> J s'" for J and res :: "pipeline_error + turn_result"
    by (rule preserves_logView [OF _ that])
      (intro keep_rules quiet_logView quiet_clearRuntimeContext logView_release)
  have ends: "x = res" if "next_do (clearRuntimeContext h) (\<lambda>_. next_do (releaseSnapshotSafely h t) (\<lambda>_. ofResult res)) s
      = (x, s')" for res x :: "pipeline_error + turn_result" and s s'
    using that by (simp add: next_do_unit succeeds_clearRuntimeContext succeeds_releaseSnapshotSafely ofResult_def)
  show ?thesis unfolding runTurn_def
  proof (rule leads_attempt [OF body])
    fix x
    show "leads (result x) (next_do (clearRuntimeContext h) (\<lambda>_. next_do (releaseSnapshotSafely h t) (\<lambda>_. ofResult (Inr x))))
        result (\<lambda>s. unopened s \<or> unclosed s)"
      by (rule leadsI) (use preservesD [OF clean [of "result x"]] result_log ends in blast)+
  next
    fix e
    have "logView s = logView s' \<Longrightarrow> unopened s \<or> unclosed s \<Longrightarrow> unopened s' \<or> unclosed s'" for s s'
      using log_only(2,4) [of s s'] by blast
    then show "leads (\<lambda>s. unopened s \<or> unclosed s)
        (next_do (clearRuntimeContext h) (\<lambda>_. next_do (releaseSnapshotSafely h t) (\<lambda>_. ofResult (Inl e))))
        result (\<lambda>s. unopened s \<or> unclosed s)"
      by (intro leadsI) (use preservesD [OF clean [of "\<lambda>s. unopened s \<or> unclosed s"]] ends in blast)+
  qed
qed

end

section \<open>Over any journal\<close>

locale started_turn = journaled_turn logOf h t
  for logOf :: "'r \<Rightarrow> string \<rightharpoonup> conversation" and h :: "('r, 'e) pipeline_host" and t :: string +
  fixes logs :: "string \<rightharpoonup> conversation" and session :: string
  assumes ready: "startable t logs session"

sublocale started_turn \<subseteq> course: turn_course h t "\<lambda>c. reason c \<noteq> Some ''manual''" "live logOf t" "pristine logOf logs session"
  "\<lambda>s. pristine logOf logs session s \<or> stranded logOf t s" "\<lambda>_. ended logOf t" "touched logOf t"
proof (unfold_locales, goal_cases)
  case (1 input cs)
  show ?case by (rule openTurn_outcome [OF ready])
next
  case (2 why)
  show ?case by (rule finishTurn_outcome)
next
  case (3 ev session)
  then show ?case by (rule leads_weaken [OF appendTerminalEvent_outcome]) (auto intro: live_touched)
next
  case (4 s)
  then show ?case by simp
next
  case (5 s)
  then show ?case by (simp add: live_def)
next
  case (6 s)
  then show ?case by (auto simp: stranded_def pristine_def)
next
  case (7 s s')
  then show ?case by (rule iffD1 [OF logView_cong(1)])
next
  case (8 s s')
  then show ?case using logView_cong(1,2) by metis
next
  case (9 s s' q)
  then show ?case by (rule iffD1 [OF logView_cong(4)])
next
  case (10 s s')
  then show ?case by (rule iffD1 [OF logView_cong(3)])
qed

context started_turn
begin

lemma run_outcome:
  "leads (pristine logOf logs session) (runTurn h t input cs retrying request fallback)
    (truthful (pristine logOf logs session) (\<lambda>s. pristine logOf logs session s \<or> stranded logOf t s)
      (\<lambda>_. ended logOf t) t)
    (\<lambda>s. (pristine logOf logs session s \<or> stranded logOf t s) \<or> touched logOf t s)"
  by (rule course.runTurn_course)

end

section \<open>Over an acknowledging journal\<close>

context acknowledged_turn
begin

lemma openTurn_acknowledged:
  assumes "startable t logs session"
  shows "leads (pristine logOf logs session) (openTurn h t input cs) (\<lambda>_. openNow logOf t) (pristine logOf logs session)"
proof -
  have append: "leads (\<lambda>u. u = s \<and> pristine logOf logs session s) (appendAll h (startEvents s t time input cs))
      (\<lambda>_ u. \<exists>c'. ownLog logOf u c' \<and> openFor t c') (pristine logOf logs session)"
    for s :: "('r, 'e) pipe" and time
  proof (rule leadsI; elim conjE; hypsubst)
    fix s' and u :: unit
    assume F: "pristine logOf logs session s" and "appendAll h (startEvents s t time input cs) s = (Inr u, s')"
    from this(2) show "\<exists>c'. ownLog logOf s' c' \<and> openFor t c'"
    proof (cases rule: appendAll_cases)
      case (stored n r)
      with appended_start [OF assms F stored(3) append_answer [OF stored(1), THEN conjunct1]] show ?thesis by blast
    qed simp
  next
    fix s' e
    assume F: "pristine logOf logs session s" and "appendAll h (startEvents s t time input cs) s = (Inl e, s')"
    from this(2) show "pristine logOf logs session s'"
    proof (cases rule: appendAll_cases)
      case (failed e r)
      with append_nothing [OF failed(1)] F show ?thesis by (auto simp: pristine_def viewOf_def)
    qed simp
  qed
  show ?thesis unfolding openTurn_def Let_def
    apply (rule leads_next [OF leads_preserves [OF pristine_quiet [OF quiet_enterStage]]], simp)
    apply (rule leads_look_at, rule leads_weaken [where P = "pristine logOf logs session" and Q = "\<lambda>_. openNow logOf t"
          and E = "pristine logOf logs session"])
       apply (rule leads_next [OF leads_preserves [OF pristine_load]], simp)
       apply (rule leads_next [OF leads_preserves [OF pristine_quiet [OF quiet_readTurnDocument]]], simp)
       apply (rule leads_next [OF leads_alter [where Q = "\<lambda>_. pristine logOf logs session"]], simp add: pristine_def)
       apply (rule leads_next [OF leads_preserves [OF pristine_quiet [OF quiet_throwIfSignalled]]], simp)
       apply (rule leads_look_at, rule leads_next [OF append])
       apply (rule leads_next [OF leads_alter [of _ "\<lambda>_. openNow logOf t"] leads_pass])
    by (auto simp: openNow_def ownLog_def)
qed

lemma finishTurn_acknowledged:
  "leads (openNow logOf t) (finishTurn h t why)
     (\<lambda>x s. endedWith logOf t (TurnCompleted t) s \<and> (\<exists>ms. x = CompletedTurn (activeSession s) t why ms)) (openNow logOf t)"
proof -
  have append: "leads (\<lambda>u. u = s \<and> openNow logOf t s) (appendAll h [storedEvent s (now h s) (TurnCompleted t)])
      (\<lambda>_. endedWith logOf t (TurnCompleted t)) (openNow logOf t)" for s :: "('r, 'e) pipe"
  proof (rule leadsI; elim conjE; hypsubst)
    fix u :: unit and s'
    assume I: "openNow logOf t s" and "appendAll h [storedEvent s (now h s) (TurnCompleted t)] s = (Inr u, s')"
    from this(2) show "endedWith logOf t (TurnCompleted t) s'"
    proof (cases rule: appendAll_cases)
      case (stored n r)
      from I obtain c where c: "ownLog logOf s c" "openFor t c" "turnStarted s" by (auto simp: openNow_def)
      from closing_append(2) [OF c append_answer [OF stored(1), THEN conjunct1] _ _ stored(3)]
      show ?thesis by (simp add: storedEvent_def)
    qed simp
  next
    fix s' e
    assume I: "openNow logOf t s" and "appendAll h [storedEvent s (now h s) (TurnCompleted t)] s = (Inl e, s')"
    from this(2) show "openNow logOf t s'"
    proof (cases rule: appendAll_cases)
      case (failed e r)
      then show ?thesis using same_log(3) [OF append_nothing [OF failed(1)] failed(3)] I by blast
    qed simp
  qed
  show ?thesis unfolding finishTurn_def
    apply (rule leads_next [OF leads_preserves [OF openNow.quiet_invariant [OF quiet_enterStage]]], simp)
    apply (rule leads_next [OF leads_preserves [OF openNow.appendRuntimeContext_kept]], simp)
    apply (rule leads_look_at, rule leads_next [OF append])
    by (rule leads_look_at, rule leads_pass) auto
qed

lemma endedWith_quiet: "quiet m \<Longrightarrow> preserves (endedWith logOf t q) m"
  by (rule preserves_logView [OF quiet_logView]) (auto dest: logView_cong(5))

lemma closeLoaded_acknowledged:
  assumes ev: "eventSession ev = session" "closes (payload ev) t"
    and refused: "\<And>e. leads (\<lambda>s. openNow logOf t s \<and> activeSession s = session) (refused e)
      (\<lambda>_. endedWith logOf t (payload ev)) (openNow logOf t)"
  shows "leads (\<lambda>s. openNow logOf t s \<and> activeSession s = session \<and> ownLog logOf s c)
    (closeLoaded h t ev refused session c) (\<lambda>_. endedWith logOf t (payload ev)) (openNow logOf t)"
proof (cases "openFor t c \<and> recoveryPlan c = Inr (Interrupt t)")
  case False
  then have "\<not> (openNow logOf t s \<and> activeSession s = session \<and> ownLog logOf s c)" for s :: "('r, 'e) pipe"
  proof (intro notI, elim conjE)
    assume a: "openNow logOf t s" "ownLog logOf s c"
    then have "openFor t c" by (auto simp: openNow_def ownLog_def)
    with False openFor_plan [OF a(2)] show False by blast
  qed
  then show ?thesis unfolding leads_def by blast
next
  case True
  have call: "leads (\<lambda>s. openNow logOf t s \<and> activeSession s = session \<and> ownLog logOf s c)
      (onStore h (appendStored (port h) (conversationId c) (version c) [ev]))
      (\<lambda>_. endedWith logOf t (payload ev)) (\<lambda>s. openNow logOf t s \<and> activeSession s = session)"
  proof (rule leadsI; elim conjE)
    fix s s' and n :: int
    assume a: "openNow logOf t s" "activeSession s = session" "ownLog logOf s c"
      and run: "onStore h (appendStored (port h) (conversationId c) (version c) [ev]) s = (Inr n, s')"
    have "turnStarted s" using a(1) by (simp add: openNow_def)
    with terminal_append [OF a(3) _ _ _ ev(2) run] a(2) ev(1) True
    show "endedWith logOf t (payload ev) s'" by simp
  next
    fix s s' e
    assume a: "openNow logOf t s" "activeSession s = session" "ownLog logOf s c"
      and run: "onStore h (appendStored (port h) (conversationId c) (version c) [ev]) s = (Inl e, s')"
    from run obtain r where r: "appendStored (port h) (conversationId c) (version c) [ev] (store s) = (Inl e, r)"
      "s' = s\<lparr>store := r, surroundings := awaitStore h (surroundings s)\<rparr>"
      by (auto simp: onStore_eq)
    with append_nothing [OF r(1)] a show "openNow logOf t s' \<and> activeSession s' = session"
      by (auto simp: openNow_def ownLog_def)
  qed
  have find: "find (isTerminal t) (events c) = None" using True by (simp add: find_terminal openFor_def)
  show ?thesis unfolding closeLoaded_def find True [THEN conjunct2]
    apply (simp only: simp_thms if_False if_True sum.case)
    apply (rule leads_attempt [OF call])
     apply (simp only: sum.case)
     apply (rule leads_next [OF leads_alter [where Q = "\<lambda>_. endedWith logOf t (payload ev)"]])
      apply (simp add: endedWith_def ownLog_def)
     apply (rule leads_sure [OF endedWith_quiet [OF quiet_publishStored] succeeds_publishStored])
    apply (simp only: sum.case)
    by (rule refused)
qed

lemma terminalAttempt_acknowledged:
  assumes ev: "eventSession ev = session" "closes (payload ev) t"
    and refused: "\<And>e. leads (\<lambda>s. openNow logOf t s \<and> activeSession s = session) (refused e)
      (\<lambda>_. endedWith logOf t (payload ev)) (openNow logOf t)"
  shows "leads (\<lambda>s. openNow logOf t s \<and> activeSession s = session) (terminalAttempt h t ev refused)
    (\<lambda>_. endedWith logOf t (payload ev)) (openNow logOf t)"
  unfolding terminalAttempt_def
proof (rule leads_look)
  fix s :: "('r, 'e) pipe"
  assume T: "openNow logOf t s \<and> activeSession s = session"
  have touched: "touched logOf t s" using T by (auto simp: openNow_def touched_def)
  have "leads (\<lambda>u. u = s) (onStore h (loadStored (port h) (activeSession s)))
      (\<lambda>c u. openNow logOf t u \<and> activeSession u = session \<and> ownLog logOf u c) (openNow logOf t)"
  proof (rule leadsI; hypsubst)
    fix c s'
    assume run: "onStore h (loadStored (port h) (activeSession s)) s = (Inr c, s')"
    from touched_loaded [OF touched run] preservesD [OF openNow.loading _ run] T
    show "openNow logOf t s' \<and> activeSession s' = session \<and> ownLog logOf s' c" by blast
  next
    fix e s'
    assume run: "onStore h (loadStored (port h) (activeSession s)) s = (Inl e, s')"
    from preservesD [OF openNow.loading _ run] T show "openNow logOf t s'" by blast
  qed
  then show "leads (\<lambda>u. u = s) (next_do (onStore h (loadStored (port h) (activeSession s)))
      (closeLoaded h t ev refused (activeSession s))) (\<lambda>_. endedWith logOf t (payload ev)) (openNow logOf t)"
    by (rule leads_next) (use closeLoaded_acknowledged [OF ev refused] T in simp)
qed

lemma appendTerminalEvent_acknowledged:
  assumes "eventSession ev = session" "closes (payload ev) t"
  shows "leads (\<lambda>s. openNow logOf t s \<and> activeSession s = session) (appendTerminalEvent h t ev n)
    (\<lambda>_. endedWith logOf t (payload ev)) (openNow logOf t)"
  by (induction n) (auto intro!: terminalAttempt_acknowledged [OF assms] leads_abandon)

end

locale acknowledged_start = acknowledged_turn logOf h t
  for logOf :: "'r \<Rightarrow> string \<rightharpoonup> conversation" and h :: "('r, 'e) pipeline_host" and t :: string +
  fixes logs :: "string \<rightharpoonup> conversation" and session :: string
  assumes ready: "startable t logs session"

sublocale acknowledged_start \<subseteq> exact: turn_course h t "\<lambda>c. reason c \<noteq> Some ''manual''" "openNow logOf t" "pristine logOf logs session"
  "pristine logOf logs session" "endedWith logOf t" "openNow logOf t"
proof (unfold_locales, goal_cases)
  case (1 input cs)
  show ?case by (rule openTurn_acknowledged [OF ready])
next
  case (2 why)
  show ?case by (rule finishTurn_acknowledged)
next
  case (3 ev session)
  then show ?case by (rule appendTerminalEvent_acknowledged)
next
  case (4 s)
  then show ?case by simp
next
  case (5 s)
  then show ?case by (simp add: openNow_def)
next
  case (6 s)
  then show ?case by (simp add: pristine_def)
next
  case (7 s s')
  then show ?case by (rule iffD1 [OF logView_cong(1)])
next
  case (8 s s' q)
  then show ?case by (rule iffD1 [OF logView_cong(5)])
next
  case (9 s s')
  then show ?case by (rule iffD1 [OF logView_cong(6)])
qed

context acknowledged_start
begin

lemma run_outcome:
  "leads (pristine logOf logs session) (runTurn h t input cs retrying request fallback)
    (truthful (pristine logOf logs session) (pristine logOf logs session) (endedWith logOf t) t)
    (\<lambda>s. pristine logOf logs session s \<or> openNow logOf t s)"
  by (rule exact.runTurn_course)

end

end
