(* ===== verification/PipelineMemory.thy ===== *)
theory PipelineMemory
  imports PipelineRun RepositoryInvariant
begin

text \<open>
  The contract of the store, discharged: by the in-process repository
  (\<open>ConversationRepository\<close>), for which an error means that no conversation has changed, and by
  a store of logs that draws from a list whether the next append is stored, refused, or stored
  without an acknowledgement, as a file or a remote store may do.
\<close>

section \<open>The in-process repository\<close>

text \<open>
  The state is the repository and the ids that \<open>randomUUID()\<close> will give, of which those in use are
  passed over. A document whose loops do not return, which no sequence of calls produces, counts as
  an error here.
\<close>

definition repoFailure :: "repo_error \<Rightarrow> pipeline_error" where
  "repoFailure e =
     (case e of
        ProtocolFailure err \<Rightarrow> turnProtocolError (protocolMessage err)
      | _ \<Rightarrow> NamedError ''ConversationRepositoryError'' [])"

definition replied :: "'a call \<Rightarrow> repository \<times> string list \<Rightarrow> (pipeline_error + 'a) \<times> (repository \<times> string list)" where
  "replied m st =
     (case m (fst st) of
        None \<Rightarrow> (Inl (NamedError ''Error'' []), st)
      | Some (Inl e, r) \<Rightarrow> (Inl (repoFailure e), (r, snd st))
      | Some (Inr x, r) \<Rightarrow> (Inr x, (r, snd st)))"

definition memoryContinue ::
    "continue_input \<Rightarrow> repository \<times> string list \<Rightarrow> (pipeline_error + continuation_answer) \<times> (repository \<times> string list)" where
  "memoryContinue i st =
     (case dropWhile (\<lambda>k. conversations (fst st) k \<noteq> None) (snd st) of
        [] \<Rightarrow> (Inl (NamedError ''Error'' []), st)
      | k # ks \<Rightarrow>
          (case replied (continueConversation i k) (fst st, ks) of
             (Inl e, st') \<Rightarrow> (Inl e, st')
           | (Inr a, st') \<Rightarrow>
               (Inr (continuation.extend a (continuation_answer.fields (sourceSessionId i))), st')))"

definition memoryPort :: "(repository \<times> string list) conversation_port" where
  "memoryPort =
     \<lparr>createStored = (\<lambda>s time dir agent. replied (chain (createConversation s time agent dir) (\<lambda>_. deliver ()))),
      loadStored = (\<lambda>s. replied (loadConversation s)),
      appendStored = (\<lambda>s v evs. replied (appendEvents s v evs)),
      readStoredDocument = Some (\<lambda>s st. fst (replied (readDocument s) st)),
      continueStored = Some memoryContinue\<rparr>"

definition memoryLogs :: "repository \<times> string list \<Rightarrow> string \<rightharpoonup> conversation" where
  "memoryLogs st = conversations (fst st)"

text \<open>A call that fails before it stores a conversation.\<close>

definition refusesCleanly :: "'a call \<Rightarrow> bool" where
  "refusesCleanly m = (\<forall>r e r'. m r = Some (Inl e, r') \<longrightarrow> conversations r' = conversations r)"

definition touchesNothing :: "'a call \<Rightarrow> bool" where
  "touchesNothing m = (\<forall>r x r'. m r = Some (x, r') \<longrightarrow> conversations r' = conversations r)"

definition neverRefuses :: "'a call \<Rightarrow> bool" where
  "neverRefuses m = (\<forall>r e r'. m r \<noteq> Some (Inl e, r'))"

named_theorems clean_rules

lemma clean_chain [clean_rules]:
  "touchesNothing m \<Longrightarrow> (\<And>x. refusesCleanly (k x)) \<Longrightarrow> refusesCleanly (chain m k)"
  unfolding touchesNothing_def refusesCleanly_def chain_def
  by (fastforce split: option.splits prod.splits sum.splits)

lemma clean_sure [clean_rules]: "neverRefuses m \<Longrightarrow> refusesCleanly m"
  by (simp add: neverRefuses_def refusesCleanly_def)

lemma sure_chain [clean_rules]: "neverRefuses m \<Longrightarrow> (\<And>x. neverRefuses (k x)) \<Longrightarrow> neverRefuses (chain m k)"
  unfolding neverRefuses_def chain_def by (fastforce split: option.splits prod.splits sum.splits)

lemma sure_call [clean_rules]:
  "neverRefuses (setConversation s c)" "neverRefuses (setDocument s d)" "neverRefuses (deliver x)"
  by (simp_all add: neverRefuses_def setConversation_def setDocument_def storing_def deliver_def)

lemma nothing_call [clean_rules]:
  "touchesNothing assertOpen" "touchesNothing (requireConversation s)" "touchesNothing (requireDocument s)"
  "touchesNothing (documentCall y)" "touchesNothing (setDocument s d)" "touchesNothing (refuse e)"
  "touchesNothing (recoverable c)" "touchesNothing (carriedCall s d)" "touchesNothing (seedDocumentCall i d carried k)"
  unfolding touchesNothing_def
  by (auto simp: assertOpen_def requireConversation_def requireDocument_def documentCall_def setDocument_def
      storing_def refuse_def deliver_def recoverable_def carriedCall_def seedDocumentCall_def
      split: option.splits sum.splits if_splits)

lemma clean_nothing: "touchesNothing m \<Longrightarrow> refusesCleanly m"
  by (simp add: touchesNothing_def refusesCleanly_def)

lemma clean_if [clean_rules]: "refusesCleanly m \<Longrightarrow> refusesCleanly n \<Longrightarrow> refusesCleanly (if b then m else n)"
  by simp

lemma clean_option [clean_rules]:
  "refusesCleanly m \<Longrightarrow> (\<And>y. refusesCleanly (f y)) \<Longrightarrow> refusesCleanly (case x of None \<Rightarrow> m | Some y \<Rightarrow> f y)"
  by (cases x) auto

lemma appendEvents_clean: "refusesCleanly (appendEvents s v evs)"
proof -
  have last: "neverRefuses (chain (setConversation s c) (\<lambda>_. deliver n))" for c n
    by (intro clean_rules)
  show ?thesis unfolding appendEvents_def
    by (rule clean_sure [OF last] nothing_call clean_nothing [OF nothing_call(6)] clean_chain clean_if clean_option)+
qed

lemma appendEvents_stored:
  assumes "appendEvents s v evs r = Some (Inr n, r')"
  shows "appendedTo (conversations r) s v evs (conversations r') \<and> n = v + int (length evs)"
proof -
  from assms obtain c ms where c: "conversations r s = Some c" "version c = v"
    "conversations r' = (conversations r)(s \<mapsto> c\<lparr>version := v + int (length evs), messages := ms, events := events c @ evs\<rparr>)"
    "n = v + int (length evs)"
    unfolding appendEvents_def by (auto simp: call_simps split: if_splits option.splits)
  then show ?thesis unfolding appendedTo_def grownLog_def
    by (intro conjI exI [of _ c] exI [of _ "c\<lparr>version := v + int (length evs), messages := ms, events := events c @ evs\<rparr>"])
      simp_all
qed

lemma loadConversation_answer: "loadConversation s r = Some (Inr c, r') \<Longrightarrow> conversations r s = Some c"
  unfolding loadConversation_def by (simp add: call_simps)

lemma loadConversation_touchesNothing: "touchesNothing (loadConversation s)"
  unfolding touchesNothing_def loadConversation_def chain_def assertOpen_def requireConversation_def refuse_def deliver_def
  by (auto split: option.splits sum.splits prod.splits if_splits)

lemma continueConversation_clean: "refusesCleanly (continueConversation i k)"
proof -
  have last: "neverRefuses (chain (setConversation s c) (\<lambda>_. chain (setDocument s' d) (\<lambda>_. chain (setConversation s'' c'') (\<lambda>_. deliver x))))"
    for s c s' d s'' c'' and x :: continuation
    by (intro clean_rules)
  show ?thesis unfolding continueConversation_def Let_def
    by (intro clean_chain clean_if clean_sure [OF last] clean_nothing [OF nothing_call(6)] nothing_call)
qed

lemma continueConversation_stored:
  assumes "continueConversation i k r = Some (Inr a, r')" "conversations r k = None"
  shows "continuedTo (conversations r) i k (conversations r')" "targetSession a = k"
    "consistentTransition (continueTurn i) (sourceSessionId i) (expectedVersion i) (snapshotId i) (continueReason i)
       (continuation.extend a (continuation_answer.fields (sourceSessionId i)))"
proof -
  from assms(1) obtain c seed ms and d :: document and carried :: carried_entries where c: "conversations r (sourceSessionId i) = Some c"
    "version c = expectedVersion i" "recoveryPlan c = Inr (Interrupt (continueTurn i))"
    "createSeededConversationDocument
       (newIdentity k (continueTime i) (agentId (docIdentity d)) (cwd (docIdentity d)) (Some (sourceEntryId carried)))
       (carriedEntries carried) (carriedLeaf carried) = Some (Inr seed)"
    "r' = r\<lparr>conversations := (conversations r)
       (sourceSessionId i \<mapsto> c\<lparr>version := expectedVersion i + 1, events := events c @ [transferEvent i k]\<rparr>,
        k \<mapsto> (emptyConversation k (continueTime i))\<lparr>messages := ms, version := 1, events := [continueEvent i k]\<rparr>),
       documents := (documents r)(k \<mapsto> seed)\<rparr>"
    "a = \<lparr>sourceVersion = expectedVersion i + 1, targetSession = k, targetVersion = 1,
          seedConversation = (emptyConversation k (continueTime i))\<lparr>messages := ms\<rparr>, seedDocument = seed,
          transferredEvent = transferEvent i k, continuedEvent = continueEvent i k\<rparr>"
    unfolding continueConversation_def seedDocumentCall_def Let_def
    by (auto simp: call_simps split: if_splits)
  show "targetSession a = k" by (simp add: c(6))
  show "continuedTo (conversations r) i k (conversations r')"
    unfolding continuedTo_def grownLog_def
    by (rule exI [of _ c], rule exI [of _ "c\<lparr>version := expectedVersion i + 1, events := events c @ [transferEvent i k]\<rparr>"],
        rule exI [of _ "(emptyConversation k (continueTime i))\<lparr>messages := ms, version := 1, events := [continueEvent i k]\<rparr>"])
      (use c assms(2) in \<open>auto simp: emptyConversation_def\<close>)
  from c(4) have "docIdentity seed = newIdentity k (continueTime i) (agentId (docIdentity d)) (cwd (docIdentity d))
      (Some (sourceEntryId carried))" "journalVersion seed = 0"
    by (simp_all add: createSeeded_Inr)
  then show "consistentTransition (continueTurn i) (sourceSessionId i) (expectedVersion i) (snapshotId i) (continueReason i)
       (continuation.extend a (continuation_answer.fields (sourceSessionId i)))"
    by (simp add: consistentTransition_def c(6) transferEvent_def continueEvent_def emptyConversation_def
        newIdentity_def continuation.defs continuation_answer.defs)
qed

lemma replied_cases:
  "replied m st = (x, st') \<Longrightarrow>
     (\<exists>e. x = Inl e) \<and> st' = st \<or> (\<exists>e. (\<exists>e'. x = Inl e') \<and> m (fst st) = Some (Inl e, fst st')) \<or>
     (\<exists>y. x = Inr y \<and> m (fst st) = Some (Inr y, fst st'))"
  by (auto simp: replied_def split: option.splits prod.splits sum.splits)

lemma memoryContinue_stored:
  assumes "memoryContinue i st = (Inr a, st')"
  shows "continuedTo (memoryLogs st) i (targetSession a) (memoryLogs st')"
    "consistentTransition (continueTurn i) (sourceSessionId i) (expectedVersion i) (snapshotId i) (continueReason i) a"
proof -
  from assms obtain k ks b where ids: "dropWhile (\<lambda>k. conversations (fst st) k \<noteq> None) (snd st) = k # ks"
    and call: "replied (continueConversation i k) (fst st, ks) = (Inr b, st')"
    and a: "a = continuation.extend b (continuation_answer.fields (sourceSessionId i))"
    by (auto simp: memoryContinue_def split: list.splits prod.splits sum.splits)
  from ids have "conversations (fst st) k = None"
    using hd_dropWhile [of "\<lambda>k. conversations (fst st) k \<noteq> None" "snd st"] by simp
  moreover from call have "continueConversation i k (fst st) = Some (Inr b, fst st')"
    by (auto dest: replied_cases)
  ultimately have stored: "continuedTo (conversations (fst st)) i k (conversations (fst st'))" "targetSession b = k"
    "consistentTransition (continueTurn i) (sourceSessionId i) (expectedVersion i) (snapshotId i) (continueReason i) a"
    unfolding a by (blast dest: continueConversation_stored)+
  moreover have "targetSession a = targetSession b" by (simp add: a continuation.defs)
  ultimately show "continuedTo (memoryLogs st) i (targetSession a) (memoryLogs st')"
    "consistentTransition (continueTurn i) (sourceSessionId i) (expectedVersion i) (snapshotId i) (continueReason i) a"
    by (simp_all add: memoryLogs_def)
qed

lemma memoryContinue_clean:
  assumes "memoryContinue i st = (Inl e, st')"
  shows "memoryLogs st' = memoryLogs st"
proof (cases "dropWhile (\<lambda>k. conversations (fst st) k \<noteq> None) (snd st)")
  case Nil
  from assms show ?thesis unfolding memoryContinue_def Nil by simp
next
  case (Cons k ks)
  from assms have "replied (continueConversation i k) (fst st, ks) = (Inl e, st')"
    unfolding memoryContinue_def Cons by (auto split: prod.splits sum.splits)
  then show ?thesis using continueConversation_clean [of i k]
    by (auto simp: memoryLogs_def refusesCleanly_def dest!: replied_cases)
qed

interpretation memory: acknowledging_journal memoryLogs memoryPort
proof
  fix s r x r'
  assume "loadStored memoryPort s r = (x, r')"
  then show "memoryLogs r' = memoryLogs r"
    using loadConversation_touchesNothing [of s]
    by (auto simp: memoryPort_def memoryLogs_def touchesNothing_def dest!: replied_cases)
next
  fix s r c r'
  assume "loadStored memoryPort s r = (Inr c, r')"
  then show "memoryLogs r s = Some c"
    by (auto simp: memoryPort_def memoryLogs_def dest!: replied_cases loadConversation_answer)
next
  fix s v evs r n r'
  assume "appendStored memoryPort s v evs r = (Inr n, r')"
  then show "appendedTo (memoryLogs r) s v evs (memoryLogs r') \<and> n = v + int (length evs)"
    by (auto simp: memoryPort_def memoryLogs_def dest!: replied_cases appendEvents_stored)
next
  fix s v evs r e r'
  assume "appendStored memoryPort s v evs r = (Inl e, r')"
  then show *: "memoryLogs r' = memoryLogs r"
    using appendEvents_clean [of s v evs]
    by (auto simp: memoryPort_def memoryLogs_def refusesCleanly_def dest!: replied_cases)
  then show "memoryLogs r' = memoryLogs r \<or> appendedTo (memoryLogs r) s v evs (memoryLogs r')" by simp
next
  fix f i r a r'
  assume "continueStored memoryPort = Some f" "f i r = (Inr a, r')"
  from memoryContinue_stored this show "continuedTo (memoryLogs r) i (targetSession a) (memoryLogs r')"
    "consistentTransition (continueTurn i) (sourceSessionId i) (expectedVersion i) (snapshotId i) (continueReason i) a"
    by (auto simp: memoryPort_def)
next
  fix f i r e r'
  assume "continueStored memoryPort = Some f" "f i r = (Inl e, r')"
  then show *: "memoryLogs r' = memoryLogs r" by (auto simp: memoryPort_def dest: memoryContinue_clean)
  then show "memoryLogs r' = memoryLogs r \<or> (\<exists>target. continuedTo (memoryLogs r) i target (memoryLogs r'))" by simp
qed

section \<open>A store that may lose its answers\<close>

datatype append_fate = Acknowledged | Refused | Unacknowledged

type_synonym ledger = "(string \<rightharpoonup> conversation) \<times> append_fate list"

definition grow :: "conversation \<Rightarrow> stored_event list \<Rightarrow> conversation" where
  "grow c evs = c\<lparr>version := version c + int (length evs), events := events c @ evs\<rparr>"

definition storeError :: pipeline_error where
  "storeError = NamedError ''Error'' ''EIO''"

definition ledgerLoad :: "string \<Rightarrow> ledger \<Rightarrow> (pipeline_error + conversation) \<times> ledger" where
  "ledgerLoad s st = (case fst st s of None \<Rightarrow> Inl storeError | Some c \<Rightarrow> Inr c, st)"

definition ledgerAppend :: "string \<Rightarrow> int \<Rightarrow> stored_event list \<Rightarrow> ledger \<Rightarrow> (pipeline_error + int) \<times> ledger" where
  "ledgerAppend s v evs st =
     (case fst st s of
        None \<Rightarrow> (Inl storeError, st)
      | Some c \<Rightarrow>
          if version c \<noteq> v then (Inl storeError, st)
          else case snd st of
            [] \<Rightarrow> (Inr (v + int (length evs)), ((fst st)(s \<mapsto> grow c evs), []))
          | Acknowledged # fates \<Rightarrow> (Inr (v + int (length evs)), ((fst st)(s \<mapsto> grow c evs), fates))
          | Refused # fates \<Rightarrow> (Inl storeError, (fst st, fates))
          | Unacknowledged # fates \<Rightarrow> (Inl storeError, ((fst st)(s \<mapsto> grow c evs), fates)))"

definition ledgerPort :: "ledger conversation_port" where
  "ledgerPort =
     \<lparr>createStored = (\<lambda>s time dir agent st. (Inr (), ((fst st)(s \<mapsto> emptyConversation s time), snd st))),
      loadStored = ledgerLoad, appendStored = ledgerAppend, readStoredDocument = None, continueStored = None\<rparr>"

lemma grow_grown: "grownLog c evs (grow c evs)"
  by (simp add: grownLog_def grow_def)

lemma grow_appended: "logs s = Some c \<Longrightarrow> appendedTo logs s (version c) evs (logs(s \<mapsto> grow c evs))"
  using grow_grown by (auto simp: appendedTo_def)

interpretation ledger: conversation_journal fst ledgerPort
proof
  fix s r x and r' :: ledger
  assume "loadStored ledgerPort s r = (x, r')"
  then show "fst r' = fst r" by (auto simp: ledgerPort_def ledgerLoad_def)
next
  fix s r c and r' :: ledger
  assume "loadStored ledgerPort s r = (Inr c, r')"
  then show "fst r s = Some c" by (auto simp: ledgerPort_def ledgerLoad_def split: option.splits)
next
  fix s v evs r n and r' :: ledger
  assume "appendStored ledgerPort s v evs r = (Inr n, r')"
  then show "appendedTo (fst r) s v evs (fst r') \<and> n = v + int (length evs)"
    by (auto simp: ledgerPort_def ledgerAppend_def intro: grow_appended
        split: option.splits if_splits list.splits append_fate.splits)
next
  fix s v evs r e and r' :: ledger
  assume "appendStored ledgerPort s v evs r = (Inl e, r')"
  then show "fst r' = fst r \<or> appendedTo (fst r) s v evs (fst r')"
    by (auto simp: ledgerPort_def ledgerAppend_def intro: grow_appended
        split: option.splits if_splits list.splits append_fate.splits)
qed (auto simp: ledgerPort_def)

section \<open>A host\<close>

text \<open>The surroundings are the answers still to come: whether the engine fails, and whether the turn has been aborted.\<close>

definition plainSnapshot :: bound_snapshot where
  "plainSnapshot =
     \<lparr>snapshotIdent = ''snapshot-1'', requestPreparer = None, contextProviders = [], agentRunPreparer = None,
      contextProjector = None, observers = [''observer'']\<rparr>"

definition plainLease :: lease where
  "plainLease = \<lparr>leaseNumber = 7, leaseSnapshot = plainSnapshot, leaseModel = None, leaseBinding = None\<rparr>"

definition assistantSays :: "string \<Rightarrow> json" where
  "assistantSays x =
     JObj [(''role'', JStr ''assistant''), (''content'', JStr x), (''stopReason'', JStr ''stop'')]"

definition plainEngine :: engine where
  "plainEngine =
     Yields (EngineMessage (assistantSays ''Hello'') None None None) (Yields (EngineCompleted ''stop'') EngineDone)"

definition plainHost :: "'r conversation_port \<Rightarrow> ('r, nat) pipeline_host" where
  "plainHost p =
     \<lparr>port = p, clockNow = int, abortedBy = (\<lambda>sig e. None), sinkPublish = (\<lambda>ev e. e),
      observeEvent = (\<lambda>ob ev e. (Some (NamedError ''Error'' ''observer''), e)), awaitStore = Suc,
      acquireLease = (\<lambda>i rq e. (Inr plainLease, e)), releaseLease = (\<lambda>l e. (None, e)),
      bindPreparer = (\<lambda>p rq e. (Inr p, e)), releasePreparer = (\<lambda>p e. (None, e)),
      prepareRequest = (\<lambda>p rq m e. (Inr RequestHandled, e)), provideContext = (\<lambda>p c i e. (Inr [], e)),
      projectContext = (\<lambda>p d. Inr []),
      prepareContext = (\<lambda>sn i e. (([], Inr \<lparr>preparedMessages = preparationMessages i, preparedCompaction = None,
        preparedRetry = None\<rparr>), e)),
      onCompactionCommitted = None, onContinuationCommitted = None, onContinuationFailed = None,
      onConversationContinued = None, prepareRun = (\<lambda>p i ms m e. (Inr (None, None), e)),
      startEngine = (\<lambda>sn rq e. (plainEngine, e)), awaitEngine = Suc, returnEngine = id, incomingContext = None\<rparr>"

lemma plainHost_port [simp]: "port (plainHost p) = p"
  by (simp add: plainHost_def)

lemma plainHost_automatic: "automaticStrategies (plainHost p)"
  by (auto simp: automaticStrategies_def strategiesYield_def plainHost_def)

definition plainInput :: session_input where
  "plainInput = \<lparr>inputMessage = JObj [(''role'', JStr ''user''), (''content'', JStr ''Hi'')], inputMessageId = Some ''m1'',
     inputContext = None, trailingContext = None\<rparr>"

definition plainState :: "'r \<Rightarrow> ('r, nat) pipe" where
  "plainState r =
     \<lparr>activeSession = [], identitySession = [], turnVersion = 0, turnStarted = False, boundSnapshot = None,
      turnMessages = [], heldLease = None, contextBuffer = [], releasedLeases = [], published = [],
      store = r, surroundings = 0\<rparr>"

definition newLedger :: "append_fate list \<Rightarrow> ledger" where
  "newLedger fates = (Map.empty(''s'' \<mapsto> emptyConversation ''s'' 0), fates)"

definition newMemory :: "repository \<times> string list" where
  "newMemory = (case createConversation ''s'' 0 None None newRepository of Some (x, r) \<Rightarrow> (r, [''t'']) | None \<Rightarrow> (newRepository, []))"

end
