(* ===== verification/PipelineEvaluation.thy ===== *)
theory PipelineEvaluation
  imports PipelineMemory
begin

text \<open>
  Runs of the pipeline over the example stores, evaluated by the simplifier. Sequencing is
  written with the state first, so that congruence rules let the simplifier compute what a call
  returns before it looks at what follows.
\<close>

section \<open>Call by value\<close>

definition after :: "('a \<Rightarrow> ('r, 'e, 'b) doing) \<Rightarrow> (pipeline_error + 'a) \<times> ('r, 'e) pipe \<Rightarrow> (pipeline_error + 'b) \<times> ('r, 'e) pipe" where
  "after f p = (case p of (Inl e, s) \<Rightarrow> (Inl e, s) | (Inr x, s) \<Rightarrow> f x s)"

definition both :: "(pipeline_error + 'a \<Rightarrow> ('r, 'e, 'b) doing) \<Rightarrow> (pipeline_error + 'a) \<times> ('r, 'e) pipe \<Rightarrow> (pipeline_error + 'b) \<times> ('r, 'e) pipe" where
  "both f p = f (fst p) (snd p)"

lemma after_cong: "p = p' \<Longrightarrow> after f p = after f p'" by simp
lemma both_cong: "p = p' \<Longrightarrow> both f p = both f p'" by simp
lemma next_do_after: "next_do m f s = after f (m s)" by (simp add: next_do_def after_def)
lemma attempt_both: "attempt m f s = both f (m s)" by (simp add: attempt_def both_def split: prod.splits)
lemma after_simps: "after f (Inl e, s) = (Inl e, s)" "after f (Inr x, s) = f x s" by (simp_all add: after_def)
lemma both_simps: "both f (x, s) = f x s" by (simp add: both_def)
lemma look_app: "look f s = f s s" by (simp add: look_def)

lemmas run_eval = next_do_after attempt_both after_simps both_simps look_app pass_def abandon_def alter_def ask_def asking_def
  onStore_def ofResult_def runTurn_def turnBody_def bindSnapshot_def openTurn_def runOpenTurn_def enterStage_def
  publishSafely_def throwIfSignalled_def now_def readTurnDocument_def appendAll_def startEvents_def storedEvent_def
  contextEvents_def turnContext_def turnTrailing_def notifyObserversSafely_def publishObserverFailed_def
  assembleContext_def projectConversationContext_def assemble_def prepareTurn_def callStrategy_def
  prepareAgentRun_def executeTurn_def engineStep_def stopOnError_def handleEvent_def finishTurn_def
  acceptMessage_def appendMessage_def appendRuntimeContext_def clearRuntimeContext_def completeEngine_def
  releaseSnapshotSafely_def releaseHeld_def startProgress_def settleError_def cancelTurn_def failTurn_def
  appendTerminalSafely_def flushBeforeTerminal_def terminalAttempt_def closeLoaded_def reportUnpersisted_def
  takeIncoming_def enterTurn_def

lemmas host_eval = plainHost_def plainSnapshot_def plainLease_def plainEngine_def plainInput_def plainState_def
  newLedger_def ledgerPort_def ledgerLoad_def ledgerAppend_def grow_def emptyConversation_def

lemmas data_eval = isTerminal_def isAssistant_def isLiteral_def storeError_def assistantSays_def isAbortError.simps
  recoveryPlan_def assertActiveTurn_def failureJson_def runtimeFailure_def messageFailure_def

section \<open>Turns over the examples\<close>

definition exampleTurn :: "'r conversation_port \<Rightarrow> string \<Rightarrow> ('r, nat, turn_result) doing" where
  "exampleTurn p t s = runTurn (plainHost p) t (Some plainInput) [] False None None (enterTurn ''s'' s)"

definition ledgerRun :: "append_fate list \<Rightarrow> (pipeline_error + turn_result) \<times> (ledger, nat) pipe" where
  "ledgerRun fates = exampleTurn ledgerPort ''t1'' (plainState (newLedger fates))"

definition memoryRun :: "(pipeline_error + turn_result) \<times> (repository \<times> string list, nat) pipe" where
  "memoryRun = exampleTurn memoryPort ''t1'' (plainState newMemory)"

definition storedLog :: "(ledger, nat) pipe \<Rightarrow> conversation option" where
  "storedLog s = fst (store s) ''s''"

lemma completed_run:
  "fst (ledgerRun []) = Inr (CompletedTurn ''s'' ''t1'' ''stop'' [assistantSays ''Hello''])"
  unfolding ledgerRun_def exampleTurn_def
  by (simp add: run_eval host_eval data_eval Let_def cong: after_cong both_cong)

text \<open>The completion is stored, but the store reports an error.\<close>

lemma lost_completion:
  "fst (ledgerRun [Acknowledged, Acknowledged, Unacknowledged]) =
     Inr (FailedTurn ''s'' ''t1'' (runtimeFailure ''turn_failed'' ''EIO'') [assistantSays ''Hello''])"
  "map_option (\<lambda>c. payload (last (events c))) (storedLog (snd (ledgerRun [Acknowledged, Acknowledged, Unacknowledged]))) =
     Some (TurnCompleted ''t1'')"
  "turnStarted (snd (ledgerRun [Acknowledged, Acknowledged, Unacknowledged]))"
  unfolding ledgerRun_def exampleTurn_def storedLog_def
  by (simp_all add: run_eval host_eval data_eval Let_def cong: after_cong both_cong)

text \<open>The same with the opening events, and the turn that follows.\<close>

lemma lost_start:
  "fst (ledgerRun [Unacknowledged]) =
     Inr (FailedTurn ''s'' ''t1'' (runtimeFailure ''turn_failed'' ''EIO'') [])"
  "\<not> turnStarted (snd (ledgerRun [Unacknowledged]))"
  "map_option recoveryPlan (storedLog (snd (ledgerRun [Unacknowledged]))) = Some (Inr (Interrupt ''t1''))"
  "map_option conversationId (storedLog (snd (ledgerRun [Unacknowledged]))) = Some ''s''"
  unfolding ledgerRun_def exampleTurn_def storedLog_def
  by (simp_all add: run_eval host_eval data_eval Let_def cong: after_cong both_cong)

definition secondRun :: "(pipeline_error + turn_result) \<times> (ledger, nat) pipe" where
  "secondRun = exampleTurn ledgerPort ''t2'' (snd (ledgerRun [Unacknowledged]))"

lemma second_start:
  "\<exists>x. fst (openTurn (plainHost ledgerPort) ''t2'' (Some plainInput) []
     (enterTurn ''s'' (snd (ledgerRun [Unacknowledged])))) = Inr x"
  unfolding ledgerRun_def exampleTurn_def
  by (simp add: run_eval host_eval data_eval Let_def cong: after_cong both_cong)

lemma second_run:
  "fst secondRun = Inr (CompletedTurn ''s'' ''t2'' ''stop'' [assistantSays ''Hello''])"
  "map_option recoveryPlan (storedLog (snd secondRun)) = Some (Inl (TurnOverlap ''s'' ''t2'' ''t1''))"
  unfolding secondRun_def ledgerRun_def exampleTurn_def storedLog_def
  by (simp_all add: run_eval host_eval data_eval Let_def cong: after_cong both_cong)

section \<open>A turn over the in-process repository\<close>

text \<open>The answers of the repository during such a turn, each computed once.\<close>

lemmas call_eval = chain_def deliver_def refuse_def storing_def assertOpen_def requireConversation_def requireDocument_def
  setConversation_def setDocument_def createConversation_def loadConversation_def readDocument_def

definition memoryReader :: "string \<Rightarrow> repository \<times> string list \<Rightarrow> pipeline_error + document" where
  "memoryReader = (\<lambda>s st. fst (replied (readDocument s) st))"

definition exampleEvent :: "int \<Rightarrow> event_payload \<Rightarrow> stored_event" where
  "exampleEvent time q = \<lparr>eventSession = ''s'', eventTime = time, payload = q\<rparr>"

definition openedMemory :: "repository \<times> string list" where
  "openedMemory = snd (appendStored memoryPort ''s'' 0 [exampleEvent 2 (TurnStarted ''t1''),
     exampleEvent 2 (MessageAppended ''t1'' (Some ''m1'') (inputMessage plainInput) None)] newMemory)"

definition answeredMemory :: "repository \<times> string list" where
  "answeredMemory = snd (appendStored memoryPort ''s'' 2 [exampleEvent 4 (MessageAppended ''t1''
     (Some (kernelMessageId ''t1'' 3)) (assistantSays ''Hello'') None)] openedMemory)"

definition closedMemory :: "repository \<times> string list" where
  "closedMemory = snd (appendStored memoryPort ''s'' 3 [exampleEvent 7 (TurnCompleted ''t1'')] answeredMemory)"

lemma memory_start: "memoryLogs newMemory ''s'' = Some (emptyConversation ''s'' 0)"
  by (simp add: memoryLogs_def newMemory_def newRepository_def call_eval)

lemma memory_load: "loadStored memoryPort ''s'' newMemory = (Inr (emptyConversation ''s'' 0), newMemory)"
  by (simp add: memoryPort_def replied_def newMemory_def newRepository_def call_eval)

lemma memory_read: "readStoredDocument memoryPort = Some memoryReader"
  by (simp add: memoryPort_def memoryReader_def)

lemma memory_document: "\<exists>d. memoryReader ''s'' newMemory = Inr d"
  by (simp add: memoryReader_def replied_def newMemory_def newRepository_def call_eval)

lemma memory_appends:
  "appendStored memoryPort ''s'' 0 [exampleEvent 2 (TurnStarted ''t1''),
     exampleEvent 2 (MessageAppended ''t1'' (Some ''m1'') (inputMessage plainInput) None)] newMemory =
       (Inr 2, openedMemory)"
  "appendStored memoryPort ''s'' 2 [exampleEvent 4 (MessageAppended ''t1''
     (Some (kernelMessageId ''t1'' 3)) (assistantSays ''Hello'') None)] openedMemory = (Inr 3, answeredMemory)"
  "appendStored memoryPort ''s'' 3 [exampleEvent 7 (TurnCompleted ''t1'')] answeredMemory = (Inr 4, closedMemory)"
  by (rule prod_eqI; simp add: openedMemory_def answeredMemory_def closedMemory_def; code_simp)+

lemma memory_run:
  "fst memoryRun = Inr (CompletedTurn ''s'' ''t1'' ''stop'' [assistantSays ''Hello''])"
proof -
  from memory_document obtain d where "memoryReader ''s'' newMemory = Inr d" by blast
  then show ?thesis
    unfolding memoryRun_def exampleTurn_def using memory_appends
    by (simp add: run_eval plainHost_def plainSnapshot_def plainLease_def plainEngine_def plainInput_def plainState_def
        data_eval exampleEvent_def memory_load memory_read Let_def emptyConversation_def cong: after_cong both_cong)
qed

end
