(* ===== verification/PipelineLease.thy ===== *)
theory PipelineLease
  imports PipelineEnd
begin

text \<open>
  The snapshot a turn acquires is given back on every way out of \<open>runTurn\<close>, whatever the store does:
  no step but \<open>attachInputRequestPreparer\<close> and \<open>releaseSnapshotSafely\<close> touches a lease.
\<close>

section \<open>Steps that leave the lease alone\<close>

definition leaseView :: "('r, 'e) pipe \<Rightarrow> lease option \<times> nat list" where
  "leaseView s = (heldLease s, releasedLeases s)"

lemma lease_quiet: "quiet m \<Longrightarrow> preserves (\<lambda>s. leaseView s = v) m"
  by (rule preservesI) (auto dest: quiet_view simp: viewOf_def leaseView_def)

lemma lease_step:
  "preserves (\<lambda>s. leaseView s = v) (onStore h f)"
  "preserves (\<lambda>s. leaseView s = v) (alter (\<lambda>s. s\<lparr>turnVersion := n s\<rparr>))"
  "preserves (\<lambda>s. leaseView s = v) (alter (\<lambda>s. s\<lparr>turnStarted := b\<rparr>))"
  "preserves (\<lambda>s. leaseView s = v) (alter (\<lambda>s. s\<lparr>boundSnapshot := sn\<rparr>))"
  "preserves (\<lambda>s. leaseView s = v) (alter (\<lambda>s. s\<lparr>identitySession := a, activeSession := a', turnVersion := n'\<rparr>))"
  by (auto simp: preserves_def onStore_def alter_def leaseView_def split: prod.splits)

lemma lease_appendAll: "preserves (\<lambda>s. leaseView s = v) (appendAll h evs)"
  unfolding appendAll_def by (intro keep_rules lease_step quiet_steps [THEN lease_quiet])

lemma lease_commitCompaction: "preserves (\<lambda>s. leaseView s = v) (commitCompaction h t sig c)"
  unfolding commitCompaction_def commitRecord_def
  by (intro keep_rules lease_step quiet_steps [THEN lease_quiet])

lemma lease_continueAfterCompaction: "preserves (\<lambda>s. leaseView s = v) (continueAfterCompaction h t sig why)"
  unfolding continueAfterCompaction_def moveToTarget_def
  by (intro keep_rules lease_step quiet_steps [THEN lease_quiet])

lemma lease_invariant: "turn_invariant h t (\<lambda>_. True) (\<lambda>s. leaseView s = v)"
proof
  show "strategiesYield (\<lambda>_. True) h" by (simp add: strategiesYield_def)
next
  fix s s' :: "('a, 'b) pipe" assume "viewOf s = viewOf s'" "leaseView s = v"
  then show "leaseView s' = v" by (simp add: viewOf_def leaseView_def)
next
  fix s :: "('a, 'b) pipe" and evs assume "leaseView s = v"
  then show "leaseView (snd (appendAll h evs s)) = v" using lease_appendAll unfolding preserves_def by blast
qed (rule lease_step lease_commitCompaction lease_continueAfterCompaction)+

lemma lease_kept: "preserves (\<lambda>s. leaseView s = v) (prepareTurn h t sn model d a)"
  "preserves (\<lambda>s. leaseView s = v) (prepareAgentRun h t sn model input time cs view)"
  "preserves (\<lambda>s. leaseView s = v) (executeTurn h t sn model provided source request)"
  "preserves (\<lambda>s. leaseView s = v) (appendRuntimeContext h t)"
  by (rule turn_invariant.prepareTurn_kept turn_invariant.prepareAgentRun_kept turn_invariant.executeTurn_kept
      turn_invariant.appendRuntimeContext_kept; rule lease_invariant)+

lemma lease_openTurn: "preserves (\<lambda>s. leaseView s = v) (openTurn h t input cs)"
  unfolding openTurn_def by (intro keep_rules lease_step lease_appendAll quiet_steps [THEN lease_quiet])

lemma lease_finishTurn: "preserves (\<lambda>s. leaseView s = v) (finishTurn h t why)"
  unfolding finishTurn_def by (intro keep_rules lease_kept lease_appendAll quiet_steps [THEN lease_quiet])

lemma lease_runOpenTurn: "preserves (\<lambda>s. leaseView s = v) (runOpenTurn h t sn model input cs retrying opened)"
  unfolding runOpenTurn_def
  by (intro keep_rules lease_kept lease_finishTurn quiet_steps [THEN lease_quiet])

lemma lease_terminalAttempt:
  "(\<And>e. preserves (\<lambda>s. leaseView s = v) (refused e)) \<Longrightarrow> preserves (\<lambda>s. leaseView s = v) (terminalAttempt h t ev refused)"
  unfolding terminalAttempt_def closeLoaded_def
  by (intro keep_rules lease_step quiet_steps [THEN lease_quiet])

lemma lease_appendTerminalEvent: "preserves (\<lambda>s. leaseView s = v) (appendTerminalEvent h t ev n)"
  by (induction n) (auto intro: lease_terminalAttempt keep_rules)

lemma lease_appendTerminalSafely: "preserves (\<lambda>s. leaseView s = v) (appendTerminalSafely h t p)"
  unfolding appendTerminalSafely_def flushBeforeTerminal_def reportUnpersisted_def
  by (intro keep_rules lease_kept lease_appendTerminalEvent quiet_steps [THEN lease_quiet])

lemma lease_settleError: "preserves (\<lambda>s. leaseView s = v) (settleError h t requested e)"
  unfolding settleError_def cancelTurn_def failTurn_def
  by (intro keep_rules lease_appendTerminalSafely quiet_steps [THEN lease_quiet])

section \<open>From acquiring to releasing\<close>

text \<open>
  \<open>ls\<close> have been released before the turn. When the request preparer cannot be bound the snapshot
  has been given back already, and \<open>snapshotLease\<close> still holds it.
\<close>

definition bindingFails :: "('r, 'e) pipeline_host \<Rightarrow> input_request option \<Rightarrow> nat option \<Rightarrow> bool" where
  "bindingFails h request fallback =
     (\<exists>rq p x e. request = Some rq \<and> fallback = Some p \<and> fst (bindPreparer h p rq x) = Inl e)"

definition unleased :: "nat list \<Rightarrow> ('r, 'e) pipe \<Rightarrow> bool" where
  "unleased ls s = (leaseView s = (None, ls))"

definition leased :: "nat list \<Rightarrow> bool \<Rightarrow> ('r, 'e) pipe \<Rightarrow> bool" where
  "leased ls failing s =
     (\<exists>l. leaseView s = (Some l, ls) \<or> failing \<and> leaseView s = (Some l, ls @ [leaseNumber l]))"

lemma lease_preserves:
  assumes "\<And>v. preserves (\<lambda>s. leaseView s = v) m"
  shows "preserves (unleased ls) m" "preserves (leased ls failing) m"
  using assms unfolding preserves_def unleased_def leased_def by metis+

lemma attachPreparer_lease:
  assumes "fallback = Some p" "request = Some rq"
  shows "leads (\<lambda>s. leaseView s = (Some l, ls)) (attachPreparer h l p rq)
    (\<lambda>_. leased ls (bindingFails h request fallback)) (leased ls (bindingFails h request fallback))"
proof (rule leadsI)
  fix s y s'
  assume "leaseView s = (Some l, ls)" "attachPreparer h l p rq s = (Inr y, s')"
  then show "leased ls (bindingFails h request fallback) s'"
    by (auto simp: attachPreparer_def attempt_def asking_def next_do_def alter_def abandon_def ask_def leased_def
        leaseView_def split: prod.splits sum.splits)
next
  fix s e s'
  assume "leaseView s = (Some l, ls)" "attachPreparer h l p rq s = (Inl e, s')"
  then show "leased ls (bindingFails h request fallback) s'"
    using assms
    by (auto simp: attachPreparer_def attempt_def asking_def next_do_def alter_def abandon_def ask_def leased_def
        leaseView_def bindingFails_def split: prod.splits sum.splits) (metis fst_conv)
qed

lemma bindSnapshot_lease:
  "leads (unleased ls) (bindSnapshot h t input request fallback)
     (\<lambda>_. leased ls (bindingFails h request fallback))
     (\<lambda>s. unleased ls s \<or> leased ls (bindingFails h request fallback) s)"
proof -
  let ?L = "leased ls (bindingFails h request fallback)"
  have attach: "leads (\<lambda>s. leaseView s = (Some l, ls))
      (case (request, x, fallback) of (Some rq, None, Some p) \<Rightarrow> attachPreparer h l p rq | _ \<Rightarrow> pass ())
      (\<lambda>_. ?L) (\<lambda>s. unleased ls s \<or> ?L s)" for l :: lease and x
  proof (cases "\<exists>rq p. request = Some rq \<and> x = None \<and> fallback = Some p")
    case True
    then obtain rq p where eq: "request = Some rq" "x = None" "fallback = Some p" by blast
    then show ?thesis
      using leads_weaken [OF attachPreparer_lease [OF eq(3,1), where l = l and ls = ls and h = h]] by simp
  next
    case False
    moreover have "leads (\<lambda>s. leaseView s = (Some l, ls)) (pass ()) (\<lambda>_. ?L) (\<lambda>s. unleased ls s \<or> ?L s)"
      by (rule leads_pass) (auto simp: leased_def)
    ultimately show ?thesis by (cases request; cases x; cases fallback) simp_all
  qed
  have rest: "preserves ?L (look (\<lambda>s. let l' = (case heldLease s of Some x \<Rightarrow> x | None \<Rightarrow> l) in
     next_do (alter (\<lambda>s. s\<lparr>boundSnapshot := Some (leaseSnapshot l')\<rparr>)) (\<lambda>_.
     next_do (throwIfSignalled h TurnSignal) (\<lambda>_.
     pass (leaseSnapshot l', leaseModel l')))))" for l
    by (rule lease_preserves) (intro keep_rules lease_step quiet_steps [THEN lease_quiet])
  have acquired: "leads (unleased ls) (next_do (alter (\<lambda>s. s\<lparr>heldLease := Some l\<rparr>)) (\<lambda>_.
     next_do (case (request, x, fallback) of (Some rq, None, Some p) \<Rightarrow> attachPreparer h l p rq | _ \<Rightarrow> pass ()) (\<lambda>_.
     look (\<lambda>s. let l' = (case heldLease s of Some x \<Rightarrow> x | None \<Rightarrow> l) in
     next_do (alter (\<lambda>s. s\<lparr>boundSnapshot := Some (leaseSnapshot l')\<rparr>)) (\<lambda>_.
     next_do (throwIfSignalled h TurnSignal) (\<lambda>_.
     pass (leaseSnapshot l', leaseModel l')))))))
     (\<lambda>_. ?L) (\<lambda>s. unleased ls s \<or> ?L s)" for l x
    by (rule leads_next [OF leads_alter [where Q = "\<lambda>_ s. leaseView s = (Some l, ls)"]])
      (simp add: unleased_def leaseView_def, rule leads_next [OF attach], rule leads_preserves [OF rest], simp)
  show ?thesis unfolding bindSnapshot_def
    apply (rule leads_next [OF leads_preserves [OF lease_preserves(1) [OF lease_quiet [OF quiet_enterStage]]]], simp)
    apply (rule leads_next [OF leads_preserves [OF lease_preserves(1) [OF lease_quiet [OF quiet_throwIfSignalled]]]], simp)
    apply (rule leads_next [OF leads_preserves [OF lease_preserves(1) [OF lease_quiet [OF quiet_enterStage]]]], simp)
    apply (rule leads_next [OF leads_preserves [OF lease_preserves(1) [OF lease_quiet [OF quiet_basic(2)]]]], simp)
    by (rule acquired)
qed

lemma turnBody_lease:
  "leads (unleased ls) (turnBody h t input cs retrying request fallback)
     (\<lambda>_. leased ls (bindingFails h request fallback))
     (\<lambda>s. unleased ls s \<or> leased ls (bindingFails h request fallback) s)"
proof -
  let ?L = "leased ls (bindingFails h request fallback)"
  have "preserves ?L (case x of (sn, model) \<Rightarrow>
     next_do (case request of None \<Rightarrow> pass (Some input)
         | Some rq \<Rightarrow> next_do (admitRequest h sn model rq) (\<lambda>i. pass (map_option Some i))) (\<lambda>admitted.
      case admitted of
        None \<Rightarrow> look (\<lambda>s. pass (HandledRequest (activeSession s)))
      | Some i \<Rightarrow> next_do (openTurn h t i cs) (\<lambda>opened. runOpenTurn h t sn model i cs retrying opened)))" for x
    by (rule lease_preserves) (intro keep_rules lease_openTurn lease_runOpenTurn quiet_steps [THEN lease_quiet])
  then show ?thesis unfolding turnBody_def
    by (intro leads_next [OF bindSnapshot_lease] leads_preserves) auto
qed

lemma release_lease:
  "leads (unleased ls) (releaseSnapshotSafely h t) (\<lambda>_. unleased ls) E"
  "leads (leased ls failing) (releaseSnapshotSafely h t)
     (\<lambda>_ s. \<exists>l. heldLease s = Some l \<and>
        (releasedLeases s = ls @ [leaseNumber l] \<or> failing \<and> releasedLeases s = ls @ [leaseNumber l, leaseNumber l])) E"
proof -
  have "quiet (releaseHeld h l)" for l
    unfolding releaseHeld_def by (rule quietI) (intro keep_rules quiet_steps [THEN quiet_preserves])
  then have tail: "quiet (next_do (releaseHeld h l) (\<lambda>failed. case failed of
           None \<Rightarrow> pass ()
         | Some e \<Rightarrow> look (\<lambda>s. publishObserverFailed h (activeSession s) (Some t) ''runtime-snapshot-provider'' e)))" for l
    by (intro quietI keep_rules quiet_steps [THEN quiet_preserves]) (rule quiet_preserves)
  have view: "leaseView s' = (case heldLease s of None \<Rightarrow> leaseView s | Some l \<Rightarrow> (Some l, releasedLeases s @ [leaseNumber l]))"
    if "releaseSnapshotSafely h t s = (x, s')" for s x s'
    using that quiet_view [OF tail]
    by (fastforce simp: releaseSnapshotSafely_def look_def pass_def next_do_def [of "alter _"] alter_def leaseView_def
        viewOf_def split: option.splits)
  show "leads (unleased ls) (releaseSnapshotSafely h t) (\<lambda>_. unleased ls) E"
    by (rule leadsI) (use view succeedsD [OF succeeds_releaseSnapshotSafely] in
        \<open>fastforce simp: unleased_def leaseView_def\<close>)+
  show "leads (leased ls failing) (releaseSnapshotSafely h t)
     (\<lambda>_ s. \<exists>l. heldLease s = Some l \<and>
        (releasedLeases s = ls @ [leaseNumber l] \<or> failing \<and> releasedLeases s = ls @ [leaseNumber l, leaseNumber l])) E"
    by (rule leadsI) (use view succeedsD [OF succeeds_releaseSnapshotSafely] in
        \<open>fastforce simp: leased_def leaseView_def\<close>)+
qed

definition givenBack :: "nat list \<Rightarrow> bool \<Rightarrow> ('r, 'e) pipe \<Rightarrow> bool" where
  "givenBack ls failing s =
     (case heldLease s of
        None \<Rightarrow> releasedLeases s = ls
      | Some l \<Rightarrow> releasedLeases s = ls @ [leaseNumber l] \<or>
          failing \<and> releasedLeases s = ls @ [leaseNumber l, leaseNumber l])"

lemma runTurn_lease:
  "leads (unleased ls) (runTurn h t input cs retrying request fallback)
     (\<lambda>_. givenBack ls (bindingFails h request fallback)) (givenBack ls (bindingFails h request fallback))"
proof -
  let ?L = "leased ls (bindingFails h request fallback)" and ?F = "givenBack ls (bindingFails h request fallback)"
  have settled: "leads (unleased ls) (attempt (turnBody h t input cs retrying request fallback) (\<lambda>res. case res of
      Inr x \<Rightarrow> pass x | Inl e \<Rightarrow> settleError h t (request \<noteq> None) e)) (\<lambda>_ s. unleased ls s \<or> ?L s) (\<lambda>s. unleased ls s \<or> ?L s)"
    by (rule leads_attempt [OF turnBody_lease])
      (auto intro!: leads_pass leads_or
        intro: leads_weaken [OF leads_preserves [OF lease_preserves(1) [OF lease_settleError]]]
          leads_weaken [OF leads_preserves [OF lease_preserves(2) [OF lease_settleError]]])
  have release: "leads (\<lambda>s. unleased ls s \<or> ?L s) (releaseSnapshotSafely h t) (\<lambda>_. ?F) ?F"
    by (rule leads_or; rule leads_weaken [OF release_lease(1)] leads_weaken [OF release_lease(2)])
      (auto simp: givenBack_def unleased_def leaseView_def)
  have clear: "preserves (\<lambda>s. unleased ls s \<or> ?L s) (clearRuntimeContext h)"
    using lease_preserves [OF lease_quiet [OF quiet_clearRuntimeContext]] unfolding preserves_def by blast
  have ending: "leads (\<lambda>s. unleased ls s \<or> ?L s)
      (next_do (clearRuntimeContext h) (\<lambda>_. next_do (releaseSnapshotSafely h t) (\<lambda>_. ofResult res))) (\<lambda>_. ?F) ?F" for res
    by (rule leads_next [OF leads_sure [OF clear succeeds_clearRuntimeContext]], rule leads_next [OF release])
      (auto simp: leads_def ofResult_def split: sum.splits)
  show ?thesis unfolding runTurn_def by (rule leads_attempt [OF settled]) (rule ending)+
qed

end
