(* ===== verification/PipelineProperties.thy ===== *)
theory PipelineProperties
  imports PipelineEvaluation PipelineLease
begin

text \<open>
  What the turn pipeline guarantees of the log it writes, whatever strategies, engine, observers and
  store do; what its result says of the log when the store acknowledges what it writes; that it
  gives back its snapshot; and what becomes of a log when an acknowledgement is lost.
\<close>

section \<open>Logs\<close>

lemma ready_startable:
  assumes "logs session = Some c" "conversationId c = session" "recoveryPlan c = Inr Ready"
    and "\<forall>ev \<in> set (events c). \<not> closes (payload ev) t"
  shows "startable t logs session"
proof -
  from assms(3) obtain a where a: "planLoop session None (events c) = Inr a" "\<not> truthy a"
    unfolding recoveryPlan_def assms(2) by (auto split: sum.splits if_splits)
  from planLoop_sound [OF a(1)] a(2) have "closedLog (map payload (events c))" by simp
  moreover have "\<forall>ev \<in> set (events c). eventSession ev = session" using planLoop_session [OF a(1)] by blast
  ultimately show ?thesis using assms by (auto simp: startable_def unusedFor_def)
qed

lemma pristine_enterTurn: "pristine logOf (logOf (store s)) session (enterTurn session s)"
  by (simp add: pristine_def enterTurn_def)

lemma plan_of:
  "stranded logOf t s \<Longrightarrow> \<exists>c. ownLog logOf s c \<and> recoveryPlan c = Inr (Interrupt t)"
  "openNow logOf t s \<Longrightarrow> \<exists>c. ownLog logOf s c \<and> recoveryPlan c = Inr (Interrupt t)"
  "ended logOf t s \<Longrightarrow> \<exists>c. ownLog logOf s c \<and> recoveryPlan c = Inr Ready \<and> \<not> unusedFor t c"
  "touched logOf t s \<Longrightarrow> \<exists>c. ownLog logOf s c \<and> recoveryPlan c \<in> {Inr Ready, Inr (Interrupt t)}"
  unfolding stranded_def openNow_def ended_def touched_def
  by (blast dest: openFor_plan endedFor_plan, blast dest: openFor_plan endedFor_plan,
      auto simp: endedFor_def dest: closed_plan) (metis endedFor_def endedFor_plan openFor_plan)

lemma truthful_cases:
  "truthful before unopened (\<lambda>_. done_now) t x s \<Longrightarrow> before s \<or> unopened s \<or> done_now s"
  by (auto simp: truthful_def split: turn_result.splits)

definition closedBy :: "event_payload \<Rightarrow> conversation option \<Rightarrow> bool" where
  "closedBy q found =
     (case found of
        None \<Rightarrow> False
      | Some c \<Rightarrow> recoveryPlan c = Inr Ready \<and> events c \<noteq> [] \<and> payload (last (events c)) = q)"

lemma endedWith_closedBy:
  assumes "endedWith logOf t q s"
  shows "turnStarted s" "closedBy q (logOf (store s) (activeSession s))"
proof -
  from assms obtain c evs ev where c: "turnStarted s" "ownLog logOf s c" "endedFor t c" "events c = evs @ [ev]" "payload ev = q"
    by (auto simp: endedWith_def)
  show "turnStarted s" by (rule c(1))
  show "closedBy q (logOf (store s) (activeSession s))"
    using c(2,4,5) endedFor_plan [OF c(2,3)] by (simp add: closedBy_def ownLog_def)
qed

text \<open>
  C3. A turn that is started on a ready log in which its id, not the empty string, has no end yet
  leaves its session with a log that recovery accepts: ready, or interrupted in this very turn.
  When the turn has been opened and returns a result, completed, cancelled or failed, the log is
  ready again and holds a terminal event of the turn. The store may fail at any call, also after it
  has written, but keeps the contract \<open>conversation_journal\<close>; the strategies may do anything except
  return a compaction whose reason is \<open>manual\<close>; the engine and the observers are arbitrary.
\<close>

theorem turn_leaves_recoverable_log:
  assumes journal: "conversation_journal logOf (port h)" and strategies: "automaticStrategies h" and "t \<noteq> []"
    and ready: "logOf (store s) session = Some c" "conversationId c = session" "recoveryPlan c = Inr Ready"
      "\<forall>ev \<in> set (events c). \<not> closes (payload ev) t"
    and run: "runTurn h t input cs retrying request fallback (enterTurn session s) = (res, s')"
  shows "\<exists>c'. logOf (store s') (activeSession s') = Some c' \<and> recoveryPlan c' \<in> {Inr Ready, Inr (Interrupt t)} \<and>
    (\<forall>x. res = Inr x \<longrightarrow> turnStarted s' \<longrightarrow>
       recoveryPlan c' = Inr Ready \<and> (\<exists>ev \<in> set (events c'). closes (payload ev) t))"
proof -
  have start: "started_turn logOf h t (logOf (store s)) session"
    using journal strategies \<open>t \<noteq> []\<close> ready_startable [of "logOf (store s)", OF ready]
    by (simp add: started_turn_def started_turn_axioms_def journaled_turn_def journaled_turn_axioms_def)
  note course = started_turn.run_outcome [OF start]
  let ?F = "pristine logOf (logOf (store s)) session" and ?goal = "\<lambda>s'. \<exists>c'. ownLog logOf s' c' \<and>
    recoveryPlan c' \<in> {Inr Ready, Inr (Interrupt t)}"
  have pristine: "?goal s'" if "?F s'" for s' :: "('a, 'b) pipe"
    using that ready ready_startable [of "logOf (store s)", OF ready] startable_own closed_plan
    by (metis insertCI startable_def option.inject)
  have stranded: "?goal s'" if "stranded logOf t s'" for s' :: "('a, 'b) pipe"
    using plan_of(1) [OF that] by blast
  have touched: "?goal s'" if "touched logOf t s'" for s' :: "('a, 'b) pipe"
    by (rule plan_of(4) [OF that])
  show ?thesis
  proof (cases res)
    case (Inl e)
    with leads_Inl [OF course pristine_enterTurn] run have "?goal s'" using pristine stranded touched by blast
    with Inl show ?thesis by (auto simp: ownLog_def)
  next
    case (Inr x)
    from truthful_cases [OF leads_Inr [OF course pristine_enterTurn run [unfolded Inr]]]
    have "(?F s' \<or> stranded logOf t s') \<or> ended logOf t s'" by blast
    then show ?thesis
    proof
      assume "?F s' \<or> stranded logOf t s'"
      then have "?goal s'" "\<not> turnStarted s'" using pristine stranded by (auto simp: pristine_def stranded_def)
      then show ?thesis by (auto simp: ownLog_def)
    next
      assume "ended logOf t s'"
      then show ?thesis using plan_of(3) by (fastforce simp: unusedFor_def ownLog_def)
    qed
  qed
qed

theorem turn_leaves_recoverable_log_witness:
  "\<exists>c. fst (store (snd (ledgerRun [Acknowledged, Acknowledged, Unacknowledged])))
        (activeSession (snd (ledgerRun [Acknowledged, Acknowledged, Unacknowledged]))) = Some c \<and>
     recoveryPlan c = Inr Ready \<and> (\<exists>ev \<in> set (events c). closes (payload ev) ''t1'')"
proof -
  let ?fates = "[Acknowledged, Acknowledged, Unacknowledged]"
  have journal: "conversation_journal fst (port (plainHost ledgerPort))"
    using ledger.conversation_journal_axioms by simp
  have ready: "fst (store (plainState (newLedger ?fates))) ''s'' = Some (emptyConversation ''s'' 0)"
      "conversationId (emptyConversation ''s'' 0) = ''s''" "recoveryPlan (emptyConversation ''s'' 0) = Inr Ready"
      "\<forall>ev \<in> set (events (emptyConversation ''s'' 0)). \<not> closes (payload ev) ''t1''"
    by (simp_all add: plainState_def newLedger_def emptyConversation_def recoveryPlan_def)
  show ?thesis
    using turn_leaves_recoverable_log [OF journal plainHost_automatic _ ready
        surjective_pairing [of "ledgerRun ?fates", unfolded ledgerRun_def exampleTurn_def]]
      lost_completion(1,3)
    by (auto simp: ledgerRun_def exampleTurn_def)
qed

text \<open>
  C4. Over a store for which an error means that nothing was written, with strategies that return no
  manual compaction, the result of a turn that is started on a ready log without an end of it is
  what the log says: a turn reported as completed, cancelled or failed, with its failure, is closed
  by exactly this event as the last of its session; a turn that was never opened, a rejected one and
  a handled request leave every log as it was; and a turn that ends with an error is left for recovery.
\<close>

theorem turn_result_is_stored:
  assumes journal: "acknowledging_journal logOf (port h)" and strategies: "automaticStrategies h" and "t \<noteq> []"
    and ready: "logOf (store s) session = Some c" "conversationId c = session" "recoveryPlan c = Inr Ready"
      "\<forall>ev \<in> set (events c). \<not> closes (payload ev) t"
    and run: "runTurn h t input cs retrying request fallback (enterTurn session s) = (res, s')"
  shows "case res of
      Inr (CompletedTurn sid u why ms) \<Rightarrow> closedBy (TurnCompleted t) (logOf (store s') sid)
    | Inr (CancelledTurn sid u why ms) \<Rightarrow>
        (if turnStarted s' then closedBy (TurnCancelled t) (logOf (store s') sid) else logOf (store s') = logOf (store s))
    | Inr (FailedTurn sid u f ms) \<Rightarrow>
        (if turnStarted s' then closedBy (TurnFailed t (failureJson f)) (logOf (store s') sid)
         else logOf (store s') = logOf (store s))
    | Inr (HandledRequest sid) \<Rightarrow> logOf (store s') = logOf (store s)
    | Inl e \<Rightarrow>
        (if turnStarted s' then map_option recoveryPlan (logOf (store s') (activeSession s')) = Some (Inr (Interrupt t))
         else logOf (store s') = logOf (store s))"
proof -
  have start: "acknowledged_start logOf h t (logOf (store s)) session"
    using journal strategies \<open>t \<noteq> []\<close> ready_startable [of "logOf (store s)", OF ready]
    by (simp add: acknowledged_start_def acknowledged_start_axioms_def acknowledged_turn_def
        journaled_turn_def journaled_turn_axioms_def acknowledging_journal_def)
  note course = acknowledged_start.run_outcome [OF start]
  have pristine: "logOf (store u) = logOf (store s)" "\<not> turnStarted u"
    if "pristine logOf (logOf (store s)) session u" for u :: "('a, 'b) pipe"
    using that by (auto simp: pristine_def)
  show ?thesis
  proof (cases res)
    case (Inl e)
    with leads_Inl [OF course pristine_enterTurn] run
    have "pristine logOf (logOf (store s)) session s' \<or> openNow logOf t s'" by blast
    then show ?thesis
    proof
      assume "pristine logOf (logOf (store s)) session s'"
      then show ?thesis using Inl pristine by simp
    next
      assume o: "openNow logOf t s'"
      then have "turnStarted s'" by (simp add: openNow_def)
      with plan_of(2) [OF o] Inl show ?thesis by (auto simp: ownLog_def)
    qed
  next
    case (Inr x)
    with leads_Inr [OF course pristine_enterTurn] run
    have "truthful (pristine logOf (logOf (store s)) session) (pristine logOf (logOf (store s)) session)
        (endedWith logOf t) t x s'" by blast
    with Inr show ?thesis
      by (cases x) (auto simp: truthful_def dest: endedWith_closedBy pristine)
  qed
qed

theorem turn_result_is_stored_witness:
  "case fst memoryRun of
     Inr (CompletedTurn sid u why ms) \<Rightarrow> closedBy (TurnCompleted ''t1'') (memoryLogs (store (snd memoryRun)) sid)
   | _ \<Rightarrow> False"
proof -
  have journal: "acknowledging_journal memoryLogs (port (plainHost memoryPort))"
    using memory.acknowledging_journal_axioms by simp
  have ready: "memoryLogs (store (plainState newMemory)) ''s'' = Some (emptyConversation ''s'' 0)"
      "conversationId (emptyConversation ''s'' 0) = ''s''" "recoveryPlan (emptyConversation ''s'' 0) = Inr Ready"
      "\<forall>ev \<in> set (events (emptyConversation ''s'' 0)). \<not> closes (payload ev) ''t1''"
    by (simp_all add: memory_start plainState_def emptyConversation_def recoveryPlan_def)
  show ?thesis
    using turn_result_is_stored [OF journal plainHost_automatic _ ready
        surjective_pairing [of memoryRun, unfolded memoryRun_def exampleTurn_def]]
      memory_run
    by (simp add: memoryRun_def exampleTurn_def)
qed

section \<open>The snapshot\<close>

text \<open>
  C13. Every way out of a turn gives its snapshot back: one that never acquired a snapshot releases
  none, any other releases its own exactly once, whatever store, strategies and engine do; only
  when the preparer of a request cannot be bound is it released twice.
\<close>

theorem turn_releases_snapshot:
  assumes "runTurn h t input cs retrying request fallback (enterTurn session s) = (res, s')"
  shows "case heldLease s' of
      None \<Rightarrow> releasedLeases s' = releasedLeases s
    | Some l \<Rightarrow> releasedLeases s' = releasedLeases s @ [leaseNumber l] \<or>
        bindingFails h request fallback \<and> releasedLeases s' = releasedLeases s @ [leaseNumber l, leaseNumber l]"
proof -
  have "unleased (releasedLeases s) (enterTurn session s)" by (simp add: unleased_def leaseView_def enterTurn_def)
  from leads_Inl [OF runTurn_lease this] leads_Inr [OF runTurn_lease this] assms
  have "givenBack (releasedLeases s) (bindingFails h request fallback) s'" by (cases res) blast+
  then show ?thesis by (simp add: givenBack_def)
qed

theorem turn_releases_snapshot_witness:
  "case heldLease (snd (ledgerRun [])) of
     None \<Rightarrow> releasedLeases (snd (ledgerRun [])) = []
   | Some l \<Rightarrow> releasedLeases (snd (ledgerRun [])) = [leaseNumber l]"
proof -
  have "releasedLeases (plainState (newLedger []) :: (ledger, nat) pipe) = []" by (simp add: plainState_def)
  with turn_releases_snapshot [OF surjective_pairing [of "ledgerRun []", unfolded ledgerRun_def exampleTurn_def]]
  show ?thesis unfolding ledgerRun_def exampleTurn_def by (auto simp: bindingFails_def split: option.splits)
qed

section \<open>Resuming and starting over a log\<close>

context conversation_journal
begin

lemma load_cases:
  assumes "port h = p" "onStore h (loadStored (port h) session) s = (x, s')"
  shows "logOf (store s') = logOf (store s)" "activeSession s' = activeSession s"
    "x = Inr c \<Longrightarrow> logOf (store s) session = Some c"
  using assms load_same load_answer by (auto simp: onStore_eq)

lemma resume_course:
  assumes h: "port h = p" and log: "logOf (store s) session = Some c" "conversationId c = session"
    and run: "resumeSession h session s = (res, s')"
  shows "\<exists>c'. logOf (store s') session = Some c' \<and>
    (case recoveryPlan c of
       Inl err \<Rightarrow> res \<noteq> Inr () \<and> c' = c
     | Inr plan \<Rightarrow> recoveryPlan c' \<in> {Inr Ready, Inr plan} \<and> (res = Inr () \<longrightarrow> recoveryPlan c' = Inr Ready))"
proof -
  obtain x s1 where load: "onStore h (loadStored (port h) session) s = (x, s1)" by fastforce
  note same = load_cases [OF h load]
  show ?thesis
  proof (cases x)
    case (Inl e)
    then show ?thesis using run load same log by (auto simp: resumeSession_def next_do_def split: sum.splits)
  next
    case (Inr c1)
    then have [simp]: "c1 = c" using same(3) log by simp
    show ?thesis
    proof (cases "\<exists>t. recoveryPlan c = Inr (Interrupt t)")
      case False
      then show ?thesis using run load same log Inr
        by (auto simp: resumeSession_def next_do_def pass_def abandon_def split: sum.splits recovery_plan.splits)
    next
      case True
      then obtain t where t: "recoveryPlan c = Inr (Interrupt t)" by blast
      define ev where "ev = \<lparr>eventSession = session, eventTime = now h s1, payload = TurnFailed t interruptedFailure\<rparr>"
      obtain y s2 where append: "onStore h (appendStored (port h) session (version c) [ev]) s1 = (y, s2)" by fastforce
      have grown: "recoveryPlan c' = Inr Ready" if "grownLog c [ev] c'" for c'
        using that t log(2) by (auto simp: grownLog_def recoveryPlan_def planLoop_append ev_def assertActiveTurn_def
            split: sum.splits if_splits)
      have tail: "res = (case y of Inl e \<Rightarrow> Inl e | Inr n \<Rightarrow> Inr ())" "logOf (store s') = logOf (store s2)"
        using run load Inr t append
        by (auto simp: resumeSession_def next_do_def look_def Let_def publishSafely_def alter_def
            simp flip: ev_def split: sum.splits)
      have "(\<forall>n. y \<noteq> Inr n) \<and> logOf (store s2) = logOf (store s1) \<or>
          appendedTo (logOf (store s1)) session (version c) [ev] (logOf (store s2))"
        using append append_answer append_error h by (cases y) (fastforce simp: onStore_eq)+
      then show ?thesis using tail same log t grown by (cases y) (auto simp: appendedTo_def)
    qed
  qed
qed

lemma overlap_append:
  assumes logs: "logs session = Some c" "conversationId c = session" "recoveryPlan c = Inr (Interrupt a)"
    and app: "appendedTo logs session v (startEvents s t time input cs) logs'" and "activeSession s = session"
  shows "\<exists>c'. logs' session = Some c' \<and> conversationId c' = session \<and>
    planLoop session None (events c') = Inl (TurnOverlap session t a)"
proof -
  have "planLoop session None (events c) = Inr (Some a)" "a \<noteq> []"
    using logs by (auto simp: recoveryPlan_def truthy_iff split: sum.splits if_splits)
  then show ?thesis using assms
    by (auto simp: appendedTo_def grownLog_def planLoop_append startEvents_def storedEvent_def truthy_iff)
qed

lemma overlap_course:
  fixes h :: "('r, 'e) pipeline_host"
  assumes h: "port h = p"
    and logs: "logs session = Some c" "conversationId c = session" "recoveryPlan c = Inr (Interrupt a)"
  shows "leads (\<lambda>s. activeSession s = session \<and> logOf (store s) = logs) (openTurn h t input cs)
    (\<lambda>_ s. \<exists>c'. logOf (store s) session = Some c' \<and> conversationId c' = session \<and>
       planLoop session None (events c') = Inl (TurnOverlap session t a)) (\<lambda>_. True)"
proof -
  let ?P = "\<lambda>s. activeSession s = session \<and> logOf (store s) = logs"
  let ?Q = "\<lambda>s. \<exists>c'. logOf (store s) session = Some c' \<and> conversationId c' = session \<and>
       planLoop session None (events c') = Inl (TurnOverlap session t a)"
  have quiet: "preserves ?P m" if "quiet m" for m :: "('r, 'e, 'c) doing"
    by (rule preservesI) (use quiet_view [OF that] in \<open>auto simp: viewOf_def\<close>)
  have load: "preserves ?P (onStore h (loadStored (port h) x))" for x
    by (rule preservesI) (use load_same h in \<open>auto simp: onStore_eq\<close>)
  have append: "leads (\<lambda>u. u = s \<and> ?P s) (appendAll h (startEvents s t time input cs)) (\<lambda>_. ?Q) (\<lambda>_. True)"
    for s :: "('r, 'e) pipe" and time
  proof (rule leadsI; (elim conjE)?)
    fix s0 s' and u :: unit
    assume eq: "s0 = s" and P: "activeSession s = session" "logOf (store s) = logs"
      and "appendAll h (startEvents s t time input cs) s0 = (Inr u, s')"
    from this(4) [unfolded eq] show "?Q s'"
    proof (cases rule: appendAll_cases)
      case (stored n r)
      from append_answer [OF stored(1) [unfolded h], THEN conjunct1] P
      have "appendedTo logs session (turnVersion s) (startEvents s t time input cs) (logOf r)" by simp
      from overlap_append [where logs = logs and session = session and c = c and a = a, OF _ _ _ this P(1)] logs
      show ?thesis using stored(3) by (simp add: viewOf_def)
    qed simp
  qed simp
  show ?thesis unfolding openTurn_def Let_def
    apply (rule leads_next [OF leads_preserves [OF quiet [OF quiet_enterStage]]], simp)
    apply (rule leads_look_at, rule leads_weaken [where P = ?P and Q = "\<lambda>_. ?Q" and E = "\<lambda>_. True"])
       apply (rule leads_next [OF leads_preserves [OF load]], simp)
       apply (rule leads_next [OF leads_preserves [OF quiet [OF quiet_readTurnDocument]]], simp)
       apply (rule leads_next [OF leads_alter [where Q = "\<lambda>_. ?P"]], simp)
       apply (rule leads_next [OF leads_preserves [OF quiet [OF quiet_throwIfSignalled]]], simp)
       apply (rule leads_look_at, rule leads_next [OF append])
       apply (rule leads_next [OF leads_alter [of _ "\<lambda>_. ?Q"] leads_pass])
    by auto
qed

end



text \<open>
  C24. A turn is opened without asking the recovery policy: over a log whose last turn is still open,
  the opening events are stored, and from then on the log and every extension of it breaks the
  grammar of turns, so that it can never be resumed, continued or closed.
\<close>

theorem overlapping_start_corrupts:
  assumes journal: "conversation_journal logOf (port h)"
    and log: "logOf (store s) (activeSession s) = Some c" "conversationId c = activeSession s"
      "recoveryPlan c = Inr (Interrupt a)"
    and opened: "openTurn h t input cs s = (Inr x, s')"
  shows "\<exists>c'. logOf (store s') (activeSession s) = Some c' \<and>
    (\<forall>evs c''. grownLog c' evs c'' \<longrightarrow> recoveryPlan c'' = Inl (TurnOverlap (activeSession s) t a))"
proof -
  note course = conversation_journal.overlap_course [where logs = "logOf (store s)" and session = "activeSession s",
      OF journal refl log]
  from leads_Inr [OF course _ opened] obtain c' where "logOf (store s') (activeSession s) = Some c'" "conversationId c' = activeSession s"
    "planLoop (activeSession s) None (events c') = Inl (TurnOverlap (activeSession s) t a)" by blast
  then show ?thesis by (auto simp: grownLog_def recoveryPlan_def planLoop_append)
qed

text \<open>
  How a log comes to that: a start whose events are stored but not acknowledged is reported as a
  failed turn and left open, and the next turn, which completes, makes the log unusable.
\<close>

theorem lost_start_corrupts_log:
  "fst (ledgerRun [Unacknowledged]) = Inr (FailedTurn ''s'' ''t1'' (runtimeFailure ''turn_failed'' ''EIO'') [])"
  "map_option recoveryPlan (storedLog (snd (ledgerRun [Unacknowledged]))) = Some (Inr (Interrupt ''t1''))"
  "fst secondRun = Inr (CompletedTurn ''s'' ''t2'' ''stop'' [assistantSays ''Hello''])"
  "map_option recoveryPlan (storedLog (snd secondRun)) = Some (Inl (TurnOverlap ''s'' ''t2'' ''t1''))"
  by (fact lost_start second_run)+

theorem overlapping_start_corrupts_witness:
  "\<exists>c. fst (store (snd (openTurn (plainHost ledgerPort) ''t2'' (Some plainInput) []
        (enterTurn ''s'' (snd (ledgerRun [Unacknowledged])))))) ''s'' = Some c \<and>
     recoveryPlan c = Inl (TurnOverlap ''s'' ''t2'' ''t1'')"
proof -
  let ?s = "enterTurn ''s'' (snd (ledgerRun [Unacknowledged]))"
  have journal: "conversation_journal fst (port (plainHost ledgerPort))"
    using ledger.conversation_journal_axioms by simp
  obtain c where c: "fst (store ?s) (activeSession ?s) = Some c" "conversationId c = activeSession ?s"
      "recoveryPlan c = Inr (Interrupt ''t1'')"
    using lost_start(3,4) by (auto simp: storedLog_def enterTurn_def)
  obtain x where "fst (openTurn (plainHost ledgerPort) ''t2'' (Some plainInput) [] ?s) = Inr x"
    using second_start by blast
  with overlapping_start_corrupts [OF journal c, of "''t2''" "Some plainInput" "[]" x]
  obtain c' where c': "fst (store (snd (openTurn (plainHost ledgerPort) ''t2'' (Some plainInput) [] ?s))) (activeSession ?s) = Some c'"
    "\<And>evs c''. grownLog c' evs c'' \<Longrightarrow> recoveryPlan c'' = Inl (TurnOverlap (activeSession ?s) ''t2'' ''t1'')"
    by (metis surjective_pairing)
  have "grownLog c' [] c'" by (simp add: grownLog_def)
  from c'(2) [OF this] c'(1) show ?thesis by (simp add: enterTurn_def)
qed

section \<open>What the model sees\<close>

text \<open>
  C37. Aligning product envelopes with the messages a strategy returned changes neither: the model
  sees exactly these messages, up to the form of a text content; what it does not see survives,
  in order and with its identity; no envelope is made up; and the view of the
  candidates themselves gives the candidates back.
\<close>

theorem reconcile_keeps_view:
  "map canonicalMessage (projectRuntimeModelMessages (reconcileRuntimeMessageEnvelopes ms cs)) = map canonicalMessage ms \<and>
   filter isHidden (reconcileRuntimeMessageEnvelopes ms cs) = filter isHidden cs \<and>
   set (reconcileRuntimeMessageEnvelopes ms cs) \<subseteq> set cs \<union> toRuntimeMessageEnvelope ` set ms \<and>
   reconcileRuntimeMessageEnvelopes (projectRuntimeModelMessages cs) cs = cs"
  using reconcile_projects reconcile_hidden reconcile_candidates reconcile_identity by blast

end
