(* ===== verification/Spec2Isabelle.thy ===== *)
theory Spec2Isabelle
  imports DocumentProperties SessionQueueProperties TurnProperties AgentQueue ConversationProperties SessionProjection
    TeamIdentity TeamStoreProperties TeamRecords SubagentProperties SubagentDeliveryProperties TurnRetryProperties
    AgentSessionProperties ConfigurationCatalog
    ConfigurationCenterProperties PipelineProperties
begin

text \<open>
  Verification library of the agent runtime: the TypeScript core under \<open>src/packages\<close> that keeps
  conversations, admits and runs turns, configures them, and coordinates several agents, with the team store of the
  desktop application.

  \<^bold>\<open>The program.\<close> A conversation is an append-only log of events and, projected from it, a
  document: a tree of entries with one active branch. A session admits one turn at a time over that
  conversation; what arrives during a turn waits in its input queue. The turn pipeline binds a
  snapshot of the configuration, opens the turn in the log, assembles the context, runs the engine, stores
  what it yields and closes the turn; the engine alternates model calls
  and tool batches and reports a stream of events; a failed turn may be retried. A turn can start
  subagents, which run in a bounded pool and deliver their results back to the parent session as
  continuations. Teams of agents are configured in a store and exchange work items and messages.

  \<^bold>\<open>The theories,\<close> each with the code it models (under \<open>src/packages\<close> unless said otherwise):
  \<^item> \<open>Prelude\<close>: JavaScript numbers, JSON values, truthiness, strings, array searches.
  \<^item> \<open>Document\<close>, \<open>Commands\<close>: \<open>runtime-core/src/conversation/document.ts\<close> and \<open>commands.ts\<close>: entries,
    the projection of events, the graph check, every command handler. \<open>DocumentGraph\<close>,
    \<open>DocumentInvariant\<close>, \<open>DocumentRemoval\<close>, \<open>DocumentCommands\<close>, \<open>DocumentEvents\<close>, \<open>LinearBranch\<close>
    hold the abstract view of the tree and the preservation of \<open>wellFormed\<close>; \<open>DocumentProperties\<close>
    the properties.
  \<^item> \<open>ConversationLog\<close>: stored conversations and the recovery policy of
    \<open>runtime-core/src/kernel/conversation-recovery.ts\<close>, with the grammar of turns it recognises.
    \<open>ConversationRepository\<close>: \<open>runtime-node/src/conversation/in-memory-conversation-repository.ts\<close>;
    \<open>RepositoryInvariant\<close> and \<open>ContinuationSeed\<close> its invariant and the continuation of a turn in a new
    conversation; \<open>RepositoryHistory\<close> the histories of its requests, continuations included;
    \<open>ConversationProperties\<close> the properties.
  \<^item> \<open>SessionProjection\<close>: \<open>runtime-core/src/runtime-host/runtime-session-projection.ts\<close>, a refinement of
    the document.
  \<^item> \<open>InputSource\<close>: the interface of a polled queue, a locale; \<open>SessionQueue\<close>
    (\<open>runtime-core/src/kernel/session-input-queue.ts\<close>) and \<open>AgentQueue\<close>
    (\<open>agent/src/runtime/message-queue.ts\<close>) interpret it; \<open>SessionQueueProperties\<close> holds the queue's
    histories and properties.
  \<^item> \<open>AgentSession\<close>: the state machine of \<open>runtime-core/src/kernel/agent-session.ts\<close>, over the session
    queue; \<open>AgentSessionInvariant\<close> and \<open>AgentSessionEvents\<close> its invariant, \<open>AgentSessionProperties\<close> the
    properties and the interleavings the code does not guard against.
  \<^item> \<open>TurnContext\<close>: envelopes and \<open>runtime-core/src/kernel/runtime-message-context.ts\<close>. \<open>PipelineState\<close>,
    \<open>TurnPipeline\<close>: \<open>runtime-core/src/kernel/turn-pipeline.ts\<close> with \<open>context-compaction-committer.ts\<close> and
    \<open>session-context-buffer.ts\<close>, a monad of state and errors over a record of everything the pipeline
    calls. The locale \<open>conversation_journal\<close> of \<open>PipelineJournal\<close> is the contract of a store that may fail after
    writing; \<open>acknowledging_journal\<close> extends it to stores whose errors mean that nothing was written.
    \<open>PipelineMemory\<close> interprets both, on the in-process repository and on a store that loses its answers.
    \<open>PipelineInvariant\<close> and \<open>PipelineTurn\<close> hold what every phase of an open turn preserves (locale \<open>turn_invariant\<close>),
    \<open>PipelineEnd\<close> and \<open>PipelineRun\<close> the ways in and out, \<open>PipelineLease\<close> the snapshot, \<open>PipelineEvaluation\<close>
    evaluated runs, \<open>PipelineProperties\<close> the properties.
  \<^item> \<open>ConfigurationJson\<close>, \<open>ConfigurationRegistry\<close>, \<open>ConfigurationResolver\<close>, \<open>ConfigurationLayers\<close>,
    \<open>ConfigurationCenter\<close>: \<open>runtime-core/src/configuration\<close>, definitions published by source with leases on
    their revisions, layers, snapshots, and the coordinator that shares a snapshot among the consumers
    of a turn. \<open>ConfigurationInvariant\<close> and \<open>ConfigurationOperations\<close> hold the invariant of the
    registry; the locale \<open>lease_source\<close> of \<open>ConfigurationCoordinator\<close> says what the coordinator needs
    of a source of leases and is interpreted on the center. \<open>ConfigurationProperties\<close>,
    \<open>ConfigurationResolverProperties\<close>, \<open>ConfigurationCatalog\<close> and \<open>ConfigurationCenterProperties\<close> hold the
    properties.
  \<^item> \<open>TurnRetry\<close>: \<open>runtime-core/src/retry\<close>, policies and coordinator; the locale \<open>retry_policy\<close> says what
    the coordinator needs of a policy. \<open>TurnRetryProperties\<close> holds the trace of events, escaped errors and
    answers and the properties.
  \<^item> \<open>TurnEngine\<close>, \<open>TurnProperties\<close>: the turn of \<open>agent/src\<close> (loop, model calls with salvage of text
    tool calls, checkpoints, recovery, tool batches, limits, event stream).
  \<^item> \<open>SubagentPool\<close>, \<open>SubagentRun\<close>, \<open>SubagentDelivery\<close>: \<open>runtime-subagents/src\<close>, the pool of slots, the runs
    with their child sessions, and the delivery of results. \<open>SubagentInvariant\<close>, \<open>SubagentOperations\<close>,
    \<open>SubagentCalls\<close>, \<open>SubagentSteps\<close>, \<open>SubagentPublication\<close> show that every step keeps the invariant of
    the scheduler, \<open>SubagentEndings\<close> that a step publishes exactly the runs it ends; \<open>SubagentProperties\<close> and \<open>SubagentDeliveryProperties\<close> hold the properties.
  \<^item> \<open>TeamIdentity\<close>, \<open>TeamDomain\<close>, \<open>TeamCollaboration\<close>, \<open>TeamRecords\<close>: \<open>agent-team/src\<close>, identifiers,
    profiles and teams, work items and messages with their transitions and validators.
    \<open>TeamStore\<close>, \<open>TeamDeletion\<close>, \<open>TeamStoreProperties\<close>: \<open>src/apps/desktop/src/main/agent-teams/agent-team-store.ts\<close>.

  \<^bold>\<open>How code becomes definitions.\<close> Classes are records, with one function per method; a \<open>Map\<close> is a map or
  the list of its entries where the order matters; \<open>throw\<close> is the left side of a sum or a value of an
  error datatype; \<open>undefined\<close> is \<open>None\<close>. A method that awaits is cut there: what follows is a
  continuation kept in the state and resumed by a later step, so that histories are lists of events
  in any order (sessions, subagents, retries), or relations reachable by steps. Callbacks, models,
  tools, clocks, fresh ids and storage answer as arguments of the steps and may answer anything; the
  callbacks of the retry coordinator may also throw. Where a
  property needs more (fresh ids, orderly interleavings) it says so as a hypothesis and a
  witness shows the hypothesis can hold.

  \<^bold>\<open>Termination and fuel.\<close> Loops along parent pointers are \<^theory_text>\<open>partial_function (option)\<close> and
  \<open>command_returns\<close> shows that they return on every well-formed document; \<open>graph_check_hangs\<close>
  says on exactly which corrupt documents the check does not. A turn takes its number of rounds as fuel; a limit
  on model calls bounds it, which is \<open>run_terminates\<close>. All other definitions are total.

  \<^bold>\<open>What the properties say.\<close> Documents stay well-formed trees under every command whose labels point at
  entries that are no labels and under every event that refers to a stored entry; a
  removal keeps the rest of the branch. The repository agrees with its documents over every history of
  its requests, save for the versions of the sessions a continuation has written to, where the
  conversation is ahead of its document; recovery accepts exactly the logs of whole turns. From a ready log, over a store that keeps the
  contract of \<open>conversation_journal\<close> and with strategies that compact only of their own accord, a turn
  leaves a log that recovery accepts; its result says what the log says if the store is reliable,
  and its snapshot is given back; resuming makes a log ready. A session has one turn at a time, and
  under orderly interleavings it forgets no continuation; its queue accounts for every input over all
  its operations, and its mirror is exact. Retry events are bracketed, and where a callback throws
  the call rejects at once; retries are bounded. A turn ends, within its
  limits, with one terminal event. Subagents never exceed their slots; a step publishes exactly
  the runs it ends, each once, a start that fails is answered with its error and ends its run, and a
  result is delivered at most once, to the callback that receives it. Team documents stay valid under
  every sequence of store calls, and
  the work records stay readable. A revision of a configuration is never disposed of while a snapshot
  uses it and always once nothing does; sources are replaced as a whole; every layer is applied or
  reported. The hypotheses are in each property's text. The theorems of kind error, and those that
  the findings name, state where the code departs from what it means to do.

  \<^bold>\<open>Bounds of the turn pipeline.\<close> Its engine is a finite tree of what it yields and of the calls it makes, one
  at a time, with what it does for each answer, so the loop over it is structural; \<open>run_terminates\<close> is
  the termination of the real engine. The second attempt at a terminal event is a recursion on the attempts
  left. Stored batches are all or nothing, and stored message events carry no failure field.

  \<^bold>\<open>Not modelled.\<close> The adapter between the turn pipeline and the turn engine, the assembly of runtime snapshots, the runtime
  host with its backends, the registry of agents, session extensions and the
  observation hub: chains of delegations over interfaces. File formats, locks and
  migrations, model providers, network transport, plugins, capability adapters, the user interfaces
  and the drivers of team sessions: input and output around the modelled core. Text is
  compared by code units below 256; Unicode normalisation is an argument.
\<close>

end
